(* ===== verification/Prelude.thy ===== *)
theory Prelude
  imports Main "HOL-Library.Char_ord" "HOL-Library.Sublist" "HOL-Library.Monad_Syntax"
begin

text \<open>
  What the components of this development share.

  A C \<open>char\<close> is a HOL \<open>char\<close> (eight bits), a byte buffer is a \<open>string\<close>.  Sizes are
  natural numbers with the wrap-around of \<open>size_t\<close> and of the narrower header fields
  written out (\<open>mod\<close> powers of two), and signed C integers are \<open>int\<close> with their
  truncation written out (\<open>s32\<close>, \<open>s64\<close>).

  Reads and writes of a buffer are explicit: \<open>mem_write\<close> and \<open>mem_read\<close> return
  \<open>None\<close> for an access outside the allocated block, and a failed C \<open>assert\<close> is
  \<open>None\<close> as well.  A function of type \<open>'a option\<close> in this sense is a run that either
  ends normally or hits undefined behaviour; that a component never does the latter is
  proved, not assumed.  (Where a C function may return NULL, that is a second, inner
  option.)

  The classification functions of \<open><ctype.h>\<close> are those of the "C" locale.
\<close>

named_theorems defs \<open>definitions a component unfolds in its proofs\<close>
named_theorems mem_simps \<open>reading and writing buffers\<close>

section \<open>Machine integers\<close>

definition s32 :: "int \<Rightarrow> int" where
  "s32 x = (x + 2 ^ 31) mod 2 ^ 32 - 2 ^ 31"

definition s64 :: "int \<Rightarrow> int" where
  "s64 x = (x + 2 ^ 63) mod 2 ^ 64 - 2 ^ 63"

lemma s32_id: "- (2 ^ 31) \<le> x \<Longrightarrow> x < 2 ^ 31 \<Longrightarrow> s32 x = x"
  by (simp add: s32_def)

lemma s32_range: "- (2 ^ 31) \<le> s32 x \<and> s32 x < 2 ^ 31"
proof -
  have "0 \<le> (x + 2 ^ 31) mod 2 ^ 32" and "(x + 2 ^ 31) mod 2 ^ 32 < 2 ^ 32"
    by simp_all
  then show ?thesis by (simp add: s32_def)
qed

lemma s64_id: "- (2 ^ 63) \<le> x \<Longrightarrow> x < 2 ^ 63 \<Longrightarrow> s64 x = x"
  by (simp add: s64_def)

text \<open>Unsigned subtraction on \<open>w\<close> bits, for operands below \<open>2 ^ w\<close>.\<close>

definition usub :: "nat \<Rightarrow> nat \<Rightarrow> nat \<Rightarrow> nat" where
  "usub w a b = (a + 2 ^ w - b) mod 2 ^ w"

lemma usub_le: "b \<le> a \<Longrightarrow> a < 2 ^ w \<Longrightarrow> usub w a b = a - b"
proof -
  assume "b \<le> a" and a: "a < 2 ^ w"
  then have "a + 2 ^ w - b = (a - b) + 2 ^ w" by simp
  then have "usub w a b = (a - b) mod 2 ^ w" by (simp add: usub_def)
  with a show ?thesis by simp
qed

section \<open>Characters\<close>

abbreviation NUL :: char where "NUL \<equiv> CHR 0x00"
abbreviation TAB :: char where "TAB \<equiv> CHR 0x09"
abbreviation LF :: char where "LF \<equiv> CHR 0x0A"
abbreviation CR :: char where "CR \<equiv> CHR 0x0D"
abbreviation QUOT :: char where "QUOT \<equiv> CHR 0x22"
abbreviation BSLASH :: char where "BSLASH \<equiv> CHR 0x5C"
abbreviation SQUOT :: char where "SQUOT \<equiv> CHR 0x27"

abbreviation CRLF :: string where "CRLF \<equiv> [CR, LF]"

abbreviation byte_val :: "char \<Rightarrow> nat" where "byte_val c \<equiv> of_char c"
abbreviation byte_of :: "nat \<Rightarrow> char" where "byte_of n \<equiv> char_of n"

definition isdigit :: "char \<Rightarrow> bool" where
  "isdigit c \<longleftrightarrow> 48 \<le> byte_val c \<and> byte_val c \<le> 57"

definition isupper :: "char \<Rightarrow> bool" where
  "isupper c \<longleftrightarrow> 65 \<le> byte_val c \<and> byte_val c \<le> 90"

definition islower :: "char \<Rightarrow> bool" where
  "islower c \<longleftrightarrow> 97 \<le> byte_val c \<and> byte_val c \<le> 122"

definition isalnum :: "char \<Rightarrow> bool" where
  "isalnum c \<longleftrightarrow> isdigit c \<or> isupper c \<or> islower c"

definition isspace :: "char \<Rightarrow> bool" where
  "isspace c \<longleftrightarrow> byte_val c = 32 \<or> (9 \<le> byte_val c \<and> byte_val c \<le> 13)"

definition isprint :: "char \<Rightarrow> bool" where
  "isprint c \<longleftrightarrow> 32 \<le> byte_val c \<and> byte_val c \<le> 126"

definition tolower :: "char \<Rightarrow> char" where
  "tolower c = (if isupper c then byte_of (byte_val c + 32) else c)"

definition toupper :: "char \<Rightarrow> char" where
  "toupper c = (if islower c then byte_of (byte_val c - 32) else c)"

lemmas ctype_defs = isdigit_def isupper_def islower_def isalnum_def isspace_def isprint_def

lemma byte_val_inj: "byte_val c = byte_val d \<longleftrightarrow> c = d"
  by simp

lemma byte_of_val [simp]: "n < 256 \<Longrightarrow> byte_val (byte_of n) = n"
  by simp

lemma byte_of_eqI: "byte_val c = n \<Longrightarrow> c = byte_of n"
  by auto

section \<open>C strings\<close>

text \<open>
  A C string is read up to its first NUL; \<open>cstr bs\<close> is what \<open>strlen\<close>, \<open>strcmp\<close>
  and \<open>%s\<close> see of the bytes \<open>bs\<close>.
\<close>

definition cstr :: "string \<Rightarrow> string" where
  "cstr bs = takeWhile (\<lambda>c. c \<noteq> NUL) bs"

lemma cstr_id: "NUL \<notin> set bs \<Longrightarrow> cstr bs = bs"
  by (simp add: cstr_def takeWhile_eq_all_conv) metis

lemma cstr_append_NUL: "NUL \<notin> set bs \<Longrightarrow> cstr (bs @ NUL # rest) = bs"
  unfolding cstr_def by (subst takeWhile_append2) auto

lemma NUL_notin_cstr [simp]: "NUL \<notin> set (cstr bs)"
  by (auto simp: cstr_def dest: set_takeWhileD)

text \<open>\<open>strchr(cset, c)\<close> finds the terminating NUL too.\<close>

definition strchr_hit :: "string \<Rightarrow> char \<Rightarrow> bool" where
  "strchr_hit cset c \<longleftrightarrow> c = NUL \<or> c \<in> set (cstr cset)"

text \<open>\<open>strncasecmp(a, b, n) == 0\<close> on the strings' bytes.\<close>

fun strncaseeq :: "string \<Rightarrow> string \<Rightarrow> nat \<Rightarrow> bool" where
  "strncaseeq a b 0 = True"
| "strncaseeq [] [] (Suc n) = True"
| "strncaseeq [] (y # ys) (Suc n) = (y = NUL)"
| "strncaseeq (x # xs) [] (Suc n) = (x = NUL)"
| "strncaseeq (x # xs) (y # ys) (Suc n) =
     (tolower x = tolower y \<and> (x = NUL \<or> strncaseeq xs ys n))"

text \<open>Index of the first occurrence of a pattern, \<open>strstr\<close> and \<open>find\<close>.\<close>

fun find_sub :: "string \<Rightarrow> string \<Rightarrow> nat option" where
  "find_sub pat [] = (if pat = [] then Some 0 else None)"
| "find_sub pat (c # cs) =
     (if take (length pat) (c # cs) = pat then Some 0
      else map_option Suc (find_sub pat cs))"

lemma find_sub_Some:
  "find_sub pat s = Some i \<Longrightarrow> i + length pat \<le> length s \<and> take (length pat) (drop i s) = pat"
proof (induction s arbitrary: i)
  case Nil
  then show ?case by (simp split: if_splits)
next
  case (Cons c cs)
  show ?case
  proof (cases "take (length pat) (c # cs) = pat")
    case True
    then have "length (take (length pat) (c # cs)) = length pat" by simp
    then have "length pat \<le> length (c # cs)" by (simp add: min_def split: if_splits)
    with True Cons.prems show ?thesis by simp
  next
    case False
    with Cons.prems obtain k where "find_sub pat cs = Some k" and "i = Suc k" by auto
    with Cons.IH show ?thesis by simp
  qed
qed

section \<open>Buffers\<close>

definition mem_read :: "string \<Rightarrow> nat \<Rightarrow> nat \<Rightarrow> string option" where
  "mem_read mem off n = (if off + n \<le> length mem then Some (take n (drop off mem)) else None)"

definition mem_write :: "string \<Rightarrow> nat \<Rightarrow> string \<Rightarrow> string option" where
  "mem_write mem off bs =
     (if off + length bs \<le> length mem
      then Some (take off mem @ bs @ drop (off + length bs) mem) else None)"

lemma mem_write_length: "mem_write mem off bs = Some mem' \<Longrightarrow> length mem' = length mem"
  by (auto simp: mem_write_def split: if_splits)

lemma mem_write_ok [mem_simps]:
  "off + length bs \<le> length mem \<Longrightarrow>
   mem_write mem off bs = Some (take off mem @ bs @ drop (off + length bs) mem)"
  by (simp add: mem_write_def)

lemma mem_read_ok [mem_simps]:
  "off + n \<le> length mem \<Longrightarrow> mem_read mem off n = Some (take n (drop off mem))"
  by (simp add: mem_read_def)

end
