(* ===== verification/Decimal.thy ===== *)
theory Decimal
  imports Prelude
begin

text \<open>
  Decimal notation: what \<open>printf\<close>'s \<open>%d\<close>, \<open>%zu\<close>, \<open>%lld\<close> print (\<open>dec_nat\<close>,
  \<open>dec_int\<close>), the value of a digit string (\<open>undec\<close>), and the C library's \<open>atoi\<close>
  and \<open>strtol\<close>.  The lemmas say that the two are inverse to each other on canonical
  numerals (no sign but a minus, no leading zero), which is what the readers and writers
  of the Redis protocol rest on.
\<close>

definition digit_char :: "nat \<Rightarrow> char" where
  "digit_char d = byte_of (48 + d)"

definition digit_val :: "char \<Rightarrow> nat" where
  "digit_val c = byte_val c - 48"

fun dec_nat :: "nat \<Rightarrow> string" where
  "dec_nat n = (if n < 10 then [digit_char n] else dec_nat (n div 10) @ [digit_char (n mod 10)])"

declare dec_nat.simps [simp del]

definition dec_int :: "int \<Rightarrow> string" where
  "dec_int v = (if v < 0 then CHR ''-'' # dec_nat (nat (- v)) else dec_nat (nat v))"

definition undec :: "string \<Rightarrow> nat" where
  "undec s = foldl (\<lambda>v c. 10 * v + digit_val c) 0 s"

definition canonical :: "string \<Rightarrow> bool" where
  "canonical s \<longleftrightarrow> s \<noteq> [] \<and> (\<forall>c \<in> set s. isdigit c) \<and> (hd s = CHR ''0'' \<longrightarrow> s = ''0'')"

section \<open>Digits\<close>

lemma digit_val_char [simp]: "d < 10 \<Longrightarrow> digit_val (digit_char d) = d"
  by (simp add: digit_val_def digit_char_def)

lemma isdigit_digit_char [simp]: "d < 10 \<Longrightarrow> isdigit (digit_char d)"
  by (simp add: isdigit_def digit_char_def)

lemma digit_char_val [simp]: "isdigit c \<Longrightarrow> digit_char (digit_val c) = c"
  by (simp add: isdigit_def digit_char_def digit_val_def)

lemma digit_val_less [simp]: "isdigit c \<Longrightarrow> digit_val c < 10"
  by (auto simp: isdigit_def digit_val_def)

lemma digit_char_0: "digit_char 0 = CHR ''0''"
  by (rule of_char_eqI [where 'a = nat]) (simp add: digit_char_def)

lemma digit_val_eq_0: "isdigit c \<Longrightarrow> digit_val c = 0 \<longleftrightarrow> c = CHR ''0''"
  by (metis digit_char_0 digit_char_val digit_val_char zero_less_numeral)

lemma isdigit_not:
  "\<not> isdigit CR" "\<not> isdigit LF" "\<not> isdigit (CHR ''-'')" "\<not> isdigit NUL" "\<not> isdigit (CHR '' '')"
  by (simp_all add: isdigit_def)

section \<open>Printing and reading back\<close>

lemma undec_snoc: "undec (s @ [c]) = 10 * undec s + digit_val c"
  by (simp add: undec_def)

lemma undec_single: "undec [c] = digit_val c"
  by (simp add: undec_def)

lemma undec_Nil [simp]: "undec [] = 0"
  by (simp add: undec_def)

lemma undec_dec_nat [simp]: "undec (dec_nat n) = n"
proof (induction n rule: dec_nat.induct)
  case (1 n)
  show ?case
  proof (cases "n < 10")
    case True
    then show ?thesis by (simp add: dec_nat.simps [of n] undec_single)
  next
    case False
    with 1 show ?thesis by (simp add: dec_nat.simps [of n] undec_snoc)
  qed
qed

lemma dec_nat_nonempty [simp]: "dec_nat n \<noteq> []"
  by (subst dec_nat.simps) simp

lemma dec_nat_digits: "c \<in> set (dec_nat n) \<Longrightarrow> isdigit c"
proof (induction n rule: dec_nat.induct)
  case (1 n)
  then show ?case
    by (cases "n < 10") (auto simp: dec_nat.simps [of n])
qed

lemma dec_nat_inj: "dec_nat m = dec_nat n \<longleftrightarrow> m = n"
  by (metis undec_dec_nat)

lemma hd_dec_nat: "0 < n \<Longrightarrow> hd (dec_nat n) \<noteq> CHR ''0''"
proof (induction n rule: dec_nat.induct)
  case (1 n)
  show ?case
  proof (cases "n < 10")
    case True
    have "digit_char n \<noteq> digit_char 0"
      using True "1.prems" by (metis digit_val_char less_numeral_extra(3) zero_less_numeral)
    with True show ?thesis by (simp add: dec_nat.simps [of n] digit_char_0)
  next
    case False
    with 1 have "hd (dec_nat (n div 10)) \<noteq> CHR ''0''" by simp
    with False show ?thesis by (simp add: dec_nat.simps [of n])
  qed
qed

lemma canonical_dec_nat: "canonical (dec_nat n)"
proof (cases "n = 0")
  case True
  then show ?thesis
    by (simp add: canonical_def dec_nat.simps [of 0] digit_char_0 isdigit_def)
next
  case False
  then show ?thesis
    using hd_dec_nat [of n] dec_nat_digits by (auto simp: canonical_def)
qed

lemma dec_nat_undec: "canonical s \<Longrightarrow> dec_nat (undec s) = s"
proof (induction s rule: rev_induct)
  case Nil
  then show ?case by (simp add: canonical_def)
next
  case (snoc c s)
  from snoc.prems have c: "isdigit c" by (simp add: canonical_def)
  show ?case
  proof (cases "s = []")
    case True
    with c show ?thesis by (simp add: undec_single dec_nat.simps)
  next
    case False
    with snoc.prems have hd: "hd s \<noteq> CHR ''0''" and cs: "canonical s"
      by (auto simp: canonical_def hd_append)
    from snoc.IH [OF cs] have IH: "dec_nat (undec s) = s" .
    have "undec s \<noteq> 0"
    proof
      assume "undec s = 0"
      with IH have "s = ''0''" by (simp add: dec_nat.simps digit_char_0)
      with hd show False by simp
    qed
    then have ge: "\<not> 10 * undec s + digit_val c < 10" by simp
    have dm: "(10 * undec s + digit_val c) div 10 = undec s"
      "(10 * undec s + digit_val c) mod 10 = digit_val c"
      using c by (simp_all add: digit_val_less)
    show ?thesis
      using ge dm IH c by (simp add: undec_snoc dec_nat.simps [of "10 * undec s + digit_val c"])
  qed
qed

lemma canonical_iff: "canonical s \<longleftrightarrow> s = dec_nat (undec s)"
  by (metis canonical_dec_nat dec_nat_undec)

lemma length_dec_nat: "length (dec_nat n) = (if n < 10 then 1 else Suc (length (dec_nat (n div 10))))"
  by (simp add: dec_nat.simps [of n])

lemma length_dec_nat_bound: "n < 10 ^ k \<Longrightarrow> 0 < k \<Longrightarrow> length (dec_nat n) \<le> k"
proof (induction n arbitrary: k rule: dec_nat.induct)
  case (1 n)
  show ?case
  proof (cases "n < 10")
    case True
    with "1.prems" show ?thesis by (simp add: length_dec_nat [of n])
  next
    case False
    from "1.prems" obtain j where k: "k = Suc j" by (cases k) auto
    with False "1.prems" have j: "0 < j" by (cases j) auto
    with k "1.prems" have "n div 10 < 10 ^ j" by (simp add: less_mult_imp_div_less)
    from "1.IH" [OF False this j] False k show ?thesis by (simp add: length_dec_nat [of n])
  qed
qed

lemma dec_nat_plain:
  "CR \<notin> set (dec_nat n)" "LF \<notin> set (dec_nat n)" "NUL \<notin> set (dec_nat n)" "CHR ''-'' \<notin> set (dec_nat n)"
  using dec_nat_digits isdigit_not by blast+

lemma dec_int_plain:
  "CR \<notin> set (dec_int v)" "LF \<notin> set (dec_int v)" "NUL \<notin> set (dec_int v)"
  using dec_nat_plain by (auto simp: dec_int_def)

lemma dec_int_nonempty [simp]: "dec_int v \<noteq> []"
  by (simp add: dec_int_def)

lemma dec_int_of_nat: "dec_int (int n) = dec_nat n"
  by (simp add: dec_int_def)

section \<open>\<open>atoi\<close> and \<open>strtol\<close>\<close>

text \<open>
  White space, an optional sign, the longest run of digits; the value saturates at the
  bounds of \<open>long\<close>, and \<open>atoi\<close> truncates it to \<open>int\<close>.
\<close>

definition strtol10 :: "string \<Rightarrow> int" where
  "strtol10 s =
     (let t = dropWhile isspace s;
          neg = (t \<noteq> [] \<and> hd t = CHR ''-'');
          u = (if t \<noteq> [] \<and> (hd t = CHR ''-'' \<or> hd t = CHR ''+'') then tl t else t);
          v = int (undec (takeWhile isdigit u))
      in if neg then max (- (2 ^ 63)) (- v) else min (2 ^ 63 - 1) v)"

definition atoi :: "string \<Rightarrow> int" where
  "atoi s = s32 (strtol10 s)"

lemma takeWhile_dec_nat: "takeWhile isdigit (dec_nat n) = dec_nat n"
  using dec_nat_digits by (simp add: takeWhile_eq_all_conv)

lemma digit_not_space: "isdigit c \<Longrightarrow> \<not> isspace c"
  by (auto simp: isdigit_def isspace_def)

lemma dropWhile_space_dec_nat: "dropWhile isspace (dec_nat n) = dec_nat n"
proof (cases "dec_nat n")
  case (Cons c cs)
  then have "isdigit c" using dec_nat_digits [of c n] by simp
  with Cons show ?thesis by (simp add: digit_not_space)
qed simp

lemma strtol10_dec_nat: "n < 2 ^ 63 \<Longrightarrow> strtol10 (dec_nat n) = int n"
proof -
  assume n: "n < 2 ^ 63"
  have d: "isdigit (hd (dec_nat n))"
    using dec_nat_digits by (metis dec_nat_nonempty hd_in_set)
  then have "hd (dec_nat n) \<noteq> CHR ''-''" "hd (dec_nat n) \<noteq> CHR ''+''"
    by (auto simp: isdigit_def)
  with n show ?thesis
    by (simp add: strtol10_def dropWhile_space_dec_nat takeWhile_dec_nat Let_def)
qed

lemma atoi_dec_nat: "n < 2 ^ 31 \<Longrightarrow> atoi (dec_nat n) = int n"
  by (simp add: atoi_def strtol10_dec_nat s32_id)

end
