(* ===== verification/Sds.thy ===== *)
theory Sds
  imports Decimal
begin

text \<open>
  The dynamic strings of \<open>redis/sds.h\<close> and \<open>redis/sds.c\<close>: the header types, creation,
  growth, and the operations that change a string in place.

  A value of record \<open>sds\<close> is what an \<open>sds\<close> pointer denotes: the type bits of the flags
  byte, the \<open>len\<close> and \<open>alloc\<close> fields of the header (for type 5 the length lives in the
  flags byte and there is no \<open>alloc\<close> field), and the bytes of the allocated block after
  the header.  Assigning a length stores it modulo the width of the field.

  \<open>malloc\<close> is outside the program: it is a parameter \<open>m\<close> giving, for a request of \<open>n\<close>
  bytes, either nothing or a block with arbitrary contents; \<open>malloc_spec\<close> states that the
  block has the requested size.  A function that may return NULL has type
  \<open>sds option option\<close>: the outer \<open>None\<close> is undefined behaviour (access outside the block,
  failed assertion, use of NULL), the inner one the NULL result.
\<close>

section \<open>Types and header access\<close>

datatype sds_type = SDS_TYPE_5 | SDS_TYPE_8 | SDS_TYPE_16 | SDS_TYPE_32 | SDS_TYPE_64

record sds =
  sds_flags :: sds_type
  sds_len :: nat
  sds_alloc :: nat
  sds_buf :: string

type_synonym allocator = "nat \<Rightarrow> string option"

definition malloc_spec :: "allocator \<Rightarrow> bool" where
  "malloc_spec m \<longleftrightarrow> (\<forall>n bs. m n = Some bs \<longrightarrow> length bs = n)"

definition malloc_total :: "allocator \<Rightarrow> bool" where
  "malloc_total m \<longleftrightarrow> (\<forall>n. m n \<noteq> None)"

text \<open>\<open>realloc\<close> keeps the old bytes up to the smaller size.\<close>

definition s_realloc :: "allocator \<Rightarrow> string \<Rightarrow> nat \<Rightarrow> nat \<Rightarrow> string option" where
  "s_realloc m old hdrlen nbytes =
     (case m nbytes of
        None \<Rightarrow> None
      | Some blk \<Rightarrow> (let new = drop hdrlen blk
                    in Some (take (length new) old @ drop (length old) new)))"

fun sdsHdrSize :: "sds_type \<Rightarrow> nat" where
  "sdsHdrSize SDS_TYPE_5 = 1"
| "sdsHdrSize SDS_TYPE_8 = 3"
| "sdsHdrSize SDS_TYPE_16 = 5"
| "sdsHdrSize SDS_TYPE_32 = 9"
| "sdsHdrSize SDS_TYPE_64 = 17"

definition sdsReqType :: "nat \<Rightarrow> sds_type" where
  "sdsReqType string_size =
     (if string_size < 32 then SDS_TYPE_5
      else if string_size < 0xff then SDS_TYPE_8
      else if string_size < 0xffff then SDS_TYPE_16
      else if string_size < 0xffffffff then SDS_TYPE_32
      else SDS_TYPE_64)"

fun sds_cap :: "sds_type \<Rightarrow> nat" where
  "sds_cap SDS_TYPE_5 = 2 ^ 5"
| "sds_cap SDS_TYPE_8 = 2 ^ 8"
| "sds_cap SDS_TYPE_16 = 2 ^ 16"
| "sds_cap SDS_TYPE_32 = 2 ^ 32"
| "sds_cap SDS_TYPE_64 = 2 ^ 64"

definition sdslen :: "sds \<Rightarrow> nat" where
  "sdslen s = sds_len s"

definition sdsavail :: "sds \<Rightarrow> nat" where
  "sdsavail s =
     (case sds_flags s of
        SDS_TYPE_5 \<Rightarrow> 0
      | SDS_TYPE_32 \<Rightarrow> usub 32 (sds_alloc s) (sds_len s)
      | _ \<Rightarrow> usub 64 (sds_alloc s) (sds_len s))"

definition sdssetlen :: "sds \<Rightarrow> nat \<Rightarrow> sds" where
  "sdssetlen s newlen = s\<lparr>sds_len := newlen mod sds_cap (sds_flags s)\<rparr>"

definition sdsinclen :: "sds \<Rightarrow> nat \<Rightarrow> sds" where
  "sdsinclen s inc = s\<lparr>sds_len := (sds_len s + inc) mod sds_cap (sds_flags s)\<rparr>"

definition sdsalloc :: "sds \<Rightarrow> nat" where
  "sdsalloc s = (case sds_flags s of SDS_TYPE_5 \<Rightarrow> sds_len s | _ \<Rightarrow> sds_alloc s)"

definition sdssetalloc :: "sds \<Rightarrow> nat \<Rightarrow> sds" where
  "sdssetalloc s newlen =
     (case sds_flags s of
        SDS_TYPE_5 \<Rightarrow> s
      | t \<Rightarrow> s\<lparr>sds_alloc := newlen mod sds_cap t\<rparr>)"

definition SDS_MAX_PREALLOC :: nat where
  "SDS_MAX_PREALLOC = 1024 * 1024"

section \<open>NULL results\<close>

text \<open>\<open>sds_bind\<close> is \<open>if (s == NULL) return NULL;\<close>; \<open>sds_deref\<close> uses the result unchecked.\<close>

definition sds_bind :: "sds option option \<Rightarrow> (sds \<Rightarrow> 'a option option) \<Rightarrow> 'a option option" where
  "sds_bind r f =
     (case r of None \<Rightarrow> None | Some None \<Rightarrow> Some None | Some (Some s) \<Rightarrow> f s)"

definition sds_deref :: "sds option option \<Rightarrow> (sds \<Rightarrow> 'a option) \<Rightarrow> 'a option" where
  "sds_deref r f =
     (case r of None \<Rightarrow> None | Some None \<Rightarrow> None | Some (Some s) \<Rightarrow> f s)"

definition buf_write :: "sds \<Rightarrow> nat \<Rightarrow> string \<Rightarrow> sds option" where
  "buf_write s off bs = map_option (\<lambda>mem. s\<lparr>sds_buf := mem\<rparr>) (mem_write (sds_buf s) off bs)"

section \<open>Creation\<close>

definition sdsnewlen :: "allocator \<Rightarrow> string option \<Rightarrow> nat \<Rightarrow> sds option option" where
  "sdsnewlen m init initlen =
     (let type0 = sdsReqType initlen;
          type = (if type0 = SDS_TYPE_5 \<and> initlen = 0 then SDS_TYPE_8 else type0);
          hdrlen = sdsHdrSize type;
          nbytes = (hdrlen + initlen + 1) mod 2 ^ 64
      in case m nbytes of
           None \<Rightarrow> Some None
         | Some blk \<Rightarrow>
             (let sh = (if init = None then replicate nbytes NUL else blk);
                  s0 = \<lparr>sds_flags = type, sds_len = 0, sds_alloc = 0, sds_buf = drop hdrlen sh\<rparr>;
                  s1 = sdssetalloc (sdssetlen s0 initlen) initlen
              in do {
                   s2 \<leftarrow> (case init of
                            None \<Rightarrow> Some s1
                          | Some src \<Rightarrow>
                              (if initlen = 0 then Some s1
                               else do { bs \<leftarrow> mem_read src 0 initlen; buf_write s1 0 bs }));
                   s3 \<leftarrow> buf_write s2 initlen [NUL];
                   Some (Some s3)
                 }))"

definition sdsempty :: "allocator \<Rightarrow> sds option option" where
  "sdsempty m = sdsnewlen m (Some []) 0"

definition sdsnew :: "allocator \<Rightarrow> string option \<Rightarrow> sds option option" where
  "sdsnew m init =
     sdsnewlen m (map_option cstr init)
       (case init of None \<Rightarrow> 0 | Some s \<Rightarrow> length (cstr s))"

definition sdsdup :: "allocator \<Rightarrow> sds \<Rightarrow> sds option option" where
  "sdsdup m s = sdsnewlen m (Some (sds_buf s)) (sdslen s)"

definition sdsupdatelen :: "sds \<Rightarrow> sds" where
  "sdsupdatelen s = sdssetlen s (length (cstr (sds_buf s)))"

definition sdsclear :: "sds \<Rightarrow> sds option" where
  "sdsclear s = buf_write (sdssetlen s 0) 0 [NUL]"

section \<open>Growing and shrinking the block\<close>

definition sdsMakeRoomFor :: "allocator \<Rightarrow> sds \<Rightarrow> nat \<Rightarrow> sds option option" where
  "sdsMakeRoomFor m s addlen =
     (let avail = sdsavail s; oldtype = sds_flags s
      in if addlen \<le> avail then Some (Some s)
         else
           let len = sdslen s;
               newlen0 = (len + addlen) mod 2 ^ 64;
               newlen = (if newlen0 < SDS_MAX_PREALLOC then newlen0 * 2
                         else (newlen0 + SDS_MAX_PREALLOC) mod 2 ^ 64);
               type0 = sdsReqType newlen;
               type = (if type0 = SDS_TYPE_5 then SDS_TYPE_8 else type0);
               hdrlen = sdsHdrSize type;
               nbytes = (hdrlen + newlen + 1) mod 2 ^ 64
           in if oldtype = type then
                (case s_realloc m (sds_buf s) hdrlen nbytes of
                   None \<Rightarrow> Some None
                 | Some newsh \<Rightarrow> Some (Some (sdssetalloc (s\<lparr>sds_buf := newsh\<rparr>) newlen)))
              else
                (case m nbytes of
                   None \<Rightarrow> Some None
                 | Some blk \<Rightarrow> do {
                     bs \<leftarrow> mem_read (sds_buf s) 0 (len + 1);
                     mem \<leftarrow> mem_write (drop hdrlen blk) 0 bs;
                     Some (Some (sdssetalloc
                       (sdssetlen (s\<lparr>sds_flags := type, sds_buf := mem\<rparr>) len) newlen))
                   }))"

definition sdsRemoveFreeSpace :: "allocator \<Rightarrow> sds \<Rightarrow> sds option option" where
  "sdsRemoveFreeSpace m s =
     (let oldtype = sds_flags s;
          len = sdslen s;
          type = sdsReqType len;
          hdrlen = sdsHdrSize type;
          nbytes = (hdrlen + len + 1) mod 2 ^ 64
      in if oldtype = type then
           (case s_realloc m (sds_buf s) hdrlen nbytes of
              None \<Rightarrow> Some None
            | Some newsh \<Rightarrow> Some (Some (sdssetalloc (s\<lparr>sds_buf := newsh\<rparr>) len)))
         else
           (case m nbytes of
              None \<Rightarrow> Some None
            | Some blk \<Rightarrow> do {
                bs \<leftarrow> mem_read (sds_buf s) 0 (len + 1);
                mem \<leftarrow> mem_write (drop hdrlen blk) 0 bs;
                Some (Some (sdssetalloc
                  (sdssetlen (s\<lparr>sds_flags := type, sds_buf := mem\<rparr>) len) len))
              }))"

definition sdsAllocSize :: "sds \<Rightarrow> nat" where
  "sdsAllocSize s = (sdsHdrSize (sds_flags s) + sdsalloc s + 1) mod 2 ^ 64"

text \<open>The assertions of \<open>sdsIncrLen\<close> use the width of each header's fields.\<close>

definition sdsIncrLen :: "sds \<Rightarrow> int \<Rightarrow> sds option" where
  "sdsIncrLen s incr =
     (let len = int (sds_len s);
          room = (case sds_flags s of
                    SDS_TYPE_5 \<Rightarrow> incr > 0 \<and> len + incr < 32
                  | SDS_TYPE_32 \<Rightarrow> 0 \<le> incr \<and> incr \<le> int (usub 32 (sds_alloc s) (sds_len s))
                  | SDS_TYPE_64 \<Rightarrow> 0 \<le> incr \<and> incr \<le> int (usub 64 (sds_alloc s) (sds_len s))
                  | _ \<Rightarrow> 0 \<le> incr \<and> incr \<le> int (sds_alloc s) - len)
      in if room \<or> (incr < 0 \<and> - incr \<le> len)
         then (let s1 = sdssetlen s (nat (len + incr)) in buf_write s1 (sdslen s1) [NUL])
         else None)"

section \<open>Appending and copying\<close>

definition sdsgrowzero :: "allocator \<Rightarrow> sds \<Rightarrow> nat \<Rightarrow> sds option option" where
  "sdsgrowzero m s len =
     (let curlen = sdslen s
      in if len \<le> curlen then Some (Some s)
         else sds_bind (sdsMakeRoomFor m s (len - curlen)) (\<lambda>s1. do {
                s2 \<leftarrow> buf_write s1 curlen (replicate (len - curlen + 1) NUL);
                Some (Some (sdssetlen s2 len))
              }))"

definition sdscatlen :: "allocator \<Rightarrow> sds \<Rightarrow> string \<Rightarrow> nat \<Rightarrow> sds option option" where
  "sdscatlen m s t len =
     (let curlen = sdslen s
      in sds_bind (sdsMakeRoomFor m s len) (\<lambda>s1. do {
           bs \<leftarrow> mem_read t 0 len;
           s2 \<leftarrow> buf_write s1 curlen bs;
           s3 \<leftarrow> buf_write (sdssetlen s2 (curlen + len)) (curlen + len) [NUL];
           Some (Some s3)
         }))"

definition sdscat :: "allocator \<Rightarrow> sds \<Rightarrow> string \<Rightarrow> sds option option" where
  "sdscat m s t = sdscatlen m s (cstr t) (length (cstr t))"

definition sdscatsds :: "allocator \<Rightarrow> sds \<Rightarrow> sds \<Rightarrow> sds option option" where
  "sdscatsds m s t = sdscatlen m s (sds_buf t) (sdslen t)"

definition sdscpylen :: "allocator \<Rightarrow> sds \<Rightarrow> string \<Rightarrow> nat \<Rightarrow> sds option option" where
  "sdscpylen m s t len =
     sds_bind (if sdsalloc s < len then sdsMakeRoomFor m s (len - sdslen s) else Some (Some s))
       (\<lambda>s1. do {
          bs \<leftarrow> mem_read t 0 len;
          s2 \<leftarrow> buf_write s1 0 bs;
          s3 \<leftarrow> buf_write s2 len [NUL];
          Some (Some (sdssetlen s3 len))
        })"

definition sdscpy :: "allocator \<Rightarrow> sds \<Rightarrow> string \<Rightarrow> sds option option" where
  "sdscpy m s t = sdscpylen m s (cstr t) (length (cstr t))"

section \<open>Changing a string in place\<close>

text \<open>
  \<open>sp\<close> is the number of leading bytes skipped, \<open>keep\<close> what is left of the string once the
  bytes of \<open>cset\<close> are dropped at the end too (the second loop stops at \<open>sp\<close>).
\<close>

definition sdstrim :: "sds \<Rightarrow> string \<Rightarrow> sds option" where
  "sdstrim s cset =
     (do {
        bs \<leftarrow> mem_read (sds_buf s) 0 (sdslen s);
        let sp = length (takeWhile (strchr_hit cset) bs);
        let rest = drop sp bs;
        let len = (if rest = [] then 0
                   else Suc (length (dropWhile (strchr_hit cset) (rev (tl rest)))));
        s1 \<leftarrow> (if sp \<noteq> 0 then buf_write s 0 (take len rest) else Some s);
        s2 \<leftarrow> buf_write s1 len [NUL];
        Some (sdssetlen s2 len)
      })"

definition sdsrange :: "sds \<Rightarrow> int \<Rightarrow> int \<Rightarrow> sds option" where
  "sdsrange s start end =
     (let len = sdslen s
      in if len = 0 then Some s
         else
           let start1 = (if start < 0 then max 0 (s32 (int len + start)) else start);
               end1 = (if end < 0 then max 0 (s32 (int len + end)) else end);
               newlen1 = (if start1 > end1 then 0 else nat (s32 (end1 - start1 + 1) mod 2 ^ 64));
               newlen2 = (if newlen1 \<noteq> 0 then
                            (if s32 (int len) \<le> start1 then 0
                             else if s32 (int len) \<le> end1 then
                               (let end2 = s32 (int len - 1)
                                in if start1 > end2 then 0 else nat (end2 - start1 + 1))
                             else newlen1)
                          else newlen1);
               start2 = (if newlen1 \<noteq> 0 then start1 else 0)
           in do {
                s1 \<leftarrow> (if start2 \<noteq> 0 \<and> newlen2 \<noteq> 0
                       then do { bs \<leftarrow> mem_read (sds_buf s) (nat start2) newlen2; buf_write s 0 bs }
                       else Some s);
                s2 \<leftarrow> buf_write s1 newlen2 [NUL];
                Some (sdssetlen s2 newlen2)
              })"

definition sds_map_bytes :: "(char \<Rightarrow> char) \<Rightarrow> sds \<Rightarrow> nat \<Rightarrow> sds option" where
  "sds_map_bytes f s n = do { bs \<leftarrow> mem_read (sds_buf s) 0 n; buf_write s 0 (map f bs) }"

definition sdstolower :: "sds \<Rightarrow> sds option" where
  "sdstolower s = sds_map_bytes tolower s (nat (s32 (int (sdslen s))))"

definition sdstoupper :: "sds \<Rightarrow> sds option" where
  "sdstoupper s = sds_map_bytes toupper s (nat (s32 (int (sdslen s))))"

text \<open>The inner loop of \<open>sdsmapchars\<close>: the first matching entry of \<open>from\<close>.\<close>

fun mapchar :: "string \<Rightarrow> string \<Rightarrow> char \<Rightarrow> char" where
  "mapchar (f # fs) (t # ts) c = (if c = f then t else mapchar fs ts c)"
| "mapchar _ _ c = c"

definition sdsmapchars :: "sds \<Rightarrow> string \<Rightarrow> string \<Rightarrow> nat \<Rightarrow> sds option" where
  "sdsmapchars s from to setlen =
     do {
       f \<leftarrow> mem_read from 0 setlen;
       t \<leftarrow> mem_read to 0 setlen;
       sds_map_bytes (mapchar f t) s (sdslen s)
     }"

text \<open>\<open>memcmp\<close>: the difference of the first two bytes that differ.\<close>

fun memcmp :: "string \<Rightarrow> string \<Rightarrow> int" where
  "memcmp (x # xs) (y # ys) =
     (if x = y then memcmp xs ys else int (byte_val x) - int (byte_val y))"
| "memcmp _ _ = 0"

definition sdscmp :: "sds \<Rightarrow> sds \<Rightarrow> int option" where
  "sdscmp s1 s2 =
     (let l1 = sdslen s1; l2 = sdslen s2; minlen = (if l1 < l2 then l1 else l2)
      in do {
           a \<leftarrow> mem_read (sds_buf s1) 0 minlen;
           b \<leftarrow> mem_read (sds_buf s2) 0 minlen;
           let cmp = memcmp a b;
           Some (if cmp = 0 then s32 (int l1 - int l2) else cmp)
         })"

section \<open>Well-formed strings and their contents\<close>

text \<open>
  What every string created by the library keeps: the length fits its field, the block is
  large enough for \<open>alloc\<close> bytes and a terminator, and the terminator is in place.
  \<open>content\<close> is the abstract value of a string.
\<close>

definition content :: "sds \<Rightarrow> string" where
  "content s = take (sdslen s) (sds_buf s)"

definition sds_wf :: "sds \<Rightarrow> bool" where
  "sds_wf s \<longleftrightarrow>
     sds_len s < sds_cap (sds_flags s) \<and>
     sds_len s \<le> sdsalloc s \<and> sdsalloc s < sds_cap (sds_flags s) \<and>
     sdsalloc s < length (sds_buf s) \<and>
     sds_buf s ! sds_len s = NUL"

text \<open>
  The outcome of an operation that may return NULL: no undefined behaviour, NULL only when
  the allocator refused a request, otherwise a well-formed string that satisfies \<open>P\<close>.
\<close>

definition sds_post :: "allocator \<Rightarrow> (sds \<Rightarrow> bool) \<Rightarrow> sds option option \<Rightarrow> bool" where
  "sds_post m P r =
     (case r of None \<Rightarrow> False
      | Some None \<Rightarrow> (\<exists>n. m n = None)
      | Some (Some s) \<Rightarrow> sds_wf s \<and> P s)"

lemma sds_post_weaken:
  "sds_post m P r \<Longrightarrow> (\<And>s. sds_wf s \<Longrightarrow> P s \<Longrightarrow> Q s) \<Longrightarrow> sds_post m Q r"
  by (auto simp: sds_post_def split: option.splits)

lemma sds_post_bind:
  "sds_post m P r \<Longrightarrow> (\<And>s. sds_wf s \<Longrightarrow> P s \<Longrightarrow> sds_post m Q (f s)) \<Longrightarrow>
   sds_post m Q (sds_bind r f)"
proof -
  assume "sds_post m P r" and f: "\<And>s. sds_wf s \<Longrightarrow> P s \<Longrightarrow> sds_post m Q (f s)"
  then consider n where "r = Some None" "m n = None" | s where "r = Some (Some s)" "sds_wf s" "P s"
    by (auto simp: sds_post_def split: option.splits)
  then show ?thesis
    by cases (use f in \<open>auto simp: sds_post_def sds_bind_def\<close>)
qed

lemma sds_postD:
  assumes "sds_post m P r" and "malloc_total m"
  obtains s where "r = Some (Some s)" and "sds_wf s" and "P s"
proof -
  from assms have "\<exists>s. r = Some (Some s) \<and> sds_wf s \<and> P s"
    by (auto simp: sds_post_def malloc_total_def simp del: not_None_eq split: option.splits)
  then show thesis using that by blast
qed

lemma sds_post_Some [simp]: "sds_post m P (Some (Some s)) \<longleftrightarrow> sds_wf s \<and> P s"
  by (simp add: sds_post_def)

lemma sds_post_NULL [simp]: "sds_post m P (Some None) \<longleftrightarrow> (\<exists>n. m n = None)"
  by (simp add: sds_post_def)

lemma sds_cap_le: "sds_cap t \<le> 2 ^ 64"
  by (cases t) simp_all

lemma sdsReqType_cap: "n < 2 ^ 64 \<Longrightarrow> n < sds_cap (sdsReqType n)"
  by (simp add: sdsReqType_def)

lemma sdsReqType_8_cap:
  "n < 2 ^ 64 \<Longrightarrow>
   n < sds_cap (if sdsReqType n = SDS_TYPE_5 then SDS_TYPE_8 else sdsReqType n)"
  by (auto simp: sdsReqType_def)

lemma sdsHdrSize_le: "sdsHdrSize t \<le> 17"
  by (cases t) simp_all

lemma sds_wf_avail:
  "sds_wf s \<Longrightarrow> sdsavail s = (if sds_flags s = SDS_TYPE_5 then 0 else sds_alloc s - sds_len s)"
  by (cases "sds_flags s") (auto simp: sds_wf_def sdsavail_def sdsalloc_def intro!: usub_le)

lemma sds_wf_avail_alloc: "sds_wf s \<Longrightarrow> sdslen s + sdsavail s \<le> sdsalloc s"
  using sds_wf_avail [of s]
  by (cases "sds_flags s") (auto simp: sds_wf_def sdslen_def sdsalloc_def)

lemma sds_wf_lenD: "sds_wf s \<Longrightarrow> sdslen s < length (sds_buf s)"
  by (auto simp: sds_wf_def sdslen_def)

lemma length_content [simp]: "sds_wf s \<Longrightarrow> length (content s) = sdslen s"
  using sds_wf_lenD [of s] by (simp add: content_def)

text \<open>The buffer of a well-formed string is its contents, the terminator and spare room.\<close>

lemma sds_wf_split:
  "sds_wf s \<Longrightarrow> sds_buf s = content s @ NUL # drop (Suc (sdslen s)) (sds_buf s)"
  using sds_wf_lenD [of s] id_take_nth_drop [of "sdslen s" "sds_buf s"]
  by (simp add: content_def sds_wf_def sdslen_def)

text \<open>Introduction rule: a string built by writing \<open>bs\<close> and a terminator.\<close>

lemma sds_wfI:
  assumes "sds_flags s = SDS_TYPE_5 \<Longrightarrow> length bs < 32"
    and "sds_flags s \<noteq> SDS_TYPE_5 \<Longrightarrow>
      length bs \<le> sds_alloc s \<and> sds_alloc s < sds_cap (sds_flags s) \<and> sds_alloc s < length (sds_buf s)"
    and "sds_buf s = bs @ NUL # rest" and "sds_len s = length bs"
  shows "sds_wf s \<and> content s = bs"
  using assms by (cases "sds_flags s") (auto simp: sds_wf_def sdsalloc_def content_def sdslen_def)

lemma sds_flags_setlen [simp]: "sds_flags (sdssetlen s n) = sds_flags s"
  by (simp add: sdssetlen_def)

lemma sds_buf_setlen [simp]: "sds_buf (sdssetlen s n) = sds_buf s"
  by (simp add: sdssetlen_def)

lemma sds_alloc_setlen [simp]: "sds_alloc (sdssetlen s n) = sds_alloc s"
  by (simp add: sdssetlen_def)

lemma sds_len_setlen: "n < sds_cap (sds_flags s) \<Longrightarrow> sds_len (sdssetlen s n) = n"
  by (simp add: sdssetlen_def)

lemma sds_flags_setalloc [simp]: "sds_flags (sdssetalloc s n) = sds_flags s"
  by (cases "sds_flags s") (simp_all add: sdssetalloc_def)

lemma sds_buf_setalloc [simp]: "sds_buf (sdssetalloc s n) = sds_buf s"
  by (cases "sds_flags s") (simp_all add: sdssetalloc_def)

lemma sds_len_setalloc [simp]: "sds_len (sdssetalloc s n) = sds_len s"
  by (cases "sds_flags s") (simp_all add: sdssetalloc_def)

lemma sds_alloc_setalloc:
  "sds_flags s \<noteq> SDS_TYPE_5 \<Longrightarrow> n < sds_cap (sds_flags s) \<Longrightarrow> sds_alloc (sdssetalloc s n) = n"
  by (cases "sds_flags s") (simp_all add: sdssetalloc_def)

lemmas sds_setters = sds_len_setlen sds_alloc_setalloc

lemma sdslen_cap: "sds_wf s \<Longrightarrow> sdslen s < 2 ^ 64"
  using sds_cap_le [of "sds_flags s"] by (simp add: sds_wf_def sdslen_def)

lemma mem_write_prefix:
  "length bs \<le> length mem \<Longrightarrow> mem_write mem 0 bs = Some (bs @ drop (length bs) mem)"
  by (simp add: mem_write_def)

lemma mem_write_at:
  "length bs \<le> length rest \<Longrightarrow>
   mem_write (pre @ rest) (length pre) bs = Some (pre @ bs @ drop (length bs) rest)"
  by (simp add: mem_write_def)

lemma buf_write_prefix:
  "length bs \<le> length (sds_buf s) \<Longrightarrow>
   buf_write s 0 bs = Some (s\<lparr>sds_buf := bs @ drop (length bs) (sds_buf s)\<rparr>)"
  by (simp add: buf_write_def mem_write_prefix)

lemma buf_write_at:
  "sds_buf s = pre @ rest \<Longrightarrow> n = length pre \<Longrightarrow> length bs \<le> length rest \<Longrightarrow>
   buf_write s n bs = Some (s\<lparr>sds_buf := pre @ bs @ drop (length bs) rest\<rparr>)"
  by (simp add: buf_write_def mem_write_at)

lemma malloc_specD: "malloc_spec m \<Longrightarrow> m n = Some blk \<Longrightarrow> length blk = n"
  by (simp add: malloc_spec_def)

section \<open>Creation\<close>

lemma sdsnewlen_post:
  assumes m: "malloc_spec m" and n: "n + 18 < 2 ^ 64" and bs: "n \<le> length bs"
  shows "sds_post m (\<lambda>s. content s = take n bs) (sdsnewlen m (Some bs) n)"
proof -
  define type where
    "type = (if sdsReqType n = SDS_TYPE_5 \<and> n = 0 then SDS_TYPE_8 else sdsReqType n)"
  have cap: "n < sds_cap type"
    using n sdsReqType_cap [of n] by (auto simp: type_def)
  have hdr: "(sdsHdrSize type + n + 1) mod 2 ^ 64 = sdsHdrSize type + n + 1"
    using n sdsHdrSize_le [of type] by simp
  have t5: "type = SDS_TYPE_5 \<Longrightarrow> n < 32"
    using cap by simp
  show ?thesis
  proof (cases "m (sdsHdrSize type + n + 1)")
    case None
    then show ?thesis
      unfolding sdsnewlen_def Let_def type_def [symmetric] hdr by auto
  next
    case (Some blk)
    define buf where "buf = drop (sdsHdrSize type) blk"
    have len: "length buf = n + 1"
      using malloc_specD [OF m Some] by (simp add: buf_def)
    define s1 where
      "s1 = sdssetalloc (sdssetlen \<lparr>sds_flags = type, sds_len = 0, sds_alloc = 0, sds_buf = buf\<rparr> n) n"
    define s3 where "s3 = s1\<lparr>sds_buf := take n bs @ [NUL]\<rparr>"
    have w2: "buf_write (s1\<lparr>sds_buf := take n bs @ drop n buf\<rparr>) n [NUL] = Some s3"
      using len bs by (subst buf_write_at [where pre = "take n bs" and rest = "drop n buf"])
        (auto simp: s3_def)
    have "sdsnewlen m (Some bs) n = Some (Some s3)"
    proof (cases "n = 0")
      case True
      have "s1\<lparr>sds_buf := buf\<rparr> = s1" by (simp add: s1_def)
      then have "buf_write s1 0 [NUL] = Some s3" using w2 True by simp
      then show ?thesis
        using True Some unfolding sdsnewlen_def Let_def type_def [symmetric] hdr
        by (simp add: buf_def [symmetric] s1_def [unfolded True, symmetric])
    next
      case False
      have "buf_write s1 0 (take n bs) = Some (s1\<lparr>sds_buf := take n bs @ drop n buf\<rparr>)"
        using len bs by (subst buf_write_prefix) (simp_all add: s1_def)
      then show ?thesis
        using False Some bs w2 unfolding sdsnewlen_def Let_def type_def [symmetric] hdr
        by (simp add: mem_read_ok buf_def [symmetric] s1_def [symmetric])
    qed
    moreover have "sds_wf s3 \<and> content s3 = take n bs"
      by (rule sds_wfI [where rest = "[]"])
        (use cap bs t5 in \<open>auto simp: s3_def s1_def sds_setters\<close>)
    ultimately show ?thesis by simp
  qed
qed

lemma sdsempty_post: "malloc_spec m \<Longrightarrow> sds_post m (\<lambda>s. content s = []) (sdsempty m)"
  using sdsnewlen_post [of m 0 "[]"] by (simp add: sdsempty_def)

lemma sdsnew_post:
  "malloc_spec m \<Longrightarrow> length (cstr str) + 18 < 2 ^ 64 \<Longrightarrow>
   sds_post m (\<lambda>s. content s = cstr str) (sdsnew m (Some str))"
  using sdsnewlen_post [of m "length (cstr str)" "cstr str"] by (simp add: sdsnew_def)

lemma sdsdup_post:
  "malloc_spec m \<Longrightarrow> sds_wf s \<Longrightarrow> sdslen s + 18 < 2 ^ 64 \<Longrightarrow>
   sds_post m (\<lambda>t. content t = content s) (sdsdup m s)"
  using sdsnewlen_post [of m "sdslen s" "sds_buf s"] sds_wf_lenD [of s]
  by (simp add: sdsdup_def content_def)

section \<open>Growing and shrinking\<close>

text \<open>The common tail of \<open>sdsMakeRoomFor\<close> and \<open>sdsRemoveFreeSpace\<close>.\<close>

definition sds_resize :: "allocator \<Rightarrow> sds \<Rightarrow> sds_type \<Rightarrow> nat \<Rightarrow> sds option option" where
  "sds_resize m s type newlen =
     (let hdrlen = sdsHdrSize type; nbytes = (hdrlen + newlen + 1) mod 2 ^ 64
      in if sds_flags s = type then
           (case s_realloc m (sds_buf s) hdrlen nbytes of
              None \<Rightarrow> Some None
            | Some newsh \<Rightarrow> Some (Some (sdssetalloc (s\<lparr>sds_buf := newsh\<rparr>) newlen)))
         else
           (case m nbytes of
              None \<Rightarrow> Some None
            | Some blk \<Rightarrow> do {
                bs \<leftarrow> mem_read (sds_buf s) 0 (sdslen s + 1);
                mem \<leftarrow> mem_write (drop hdrlen blk) 0 bs;
                Some (Some (sdssetalloc
                  (sdssetlen (s\<lparr>sds_flags := type, sds_buf := mem\<rparr>) (sdslen s)) newlen))
              }))"

lemma s_realloc_prefix:
  assumes m: "malloc_spec m" and blk: "m (hdr + n) = Some blk" and pre: "old = pre @ rest"
    and n: "length pre \<le> n"
  obtains rest' where "s_realloc m old hdr (hdr + n) = Some (pre @ rest')"
    and "length (pre @ rest') = n"
proof -
  have len: "length (drop hdr blk) = n"
    using malloc_specD [OF m blk] by simp
  have "take n old = pre @ take (n - length pre) rest"
    using pre n by simp
  then have "s_realloc m old hdr (hdr + n)
      = Some (pre @ take (n - length pre) rest @ drop (length old) (drop hdr blk))"
    using blk len by (simp add: s_realloc_def Let_def)
  moreover have "length (pre @ take (n - length pre) rest @ drop (length old) (drop hdr blk)) = n"
    using len n pre by auto
  ultimately show thesis by (rule that)
qed

lemma sds_resize_post:
  assumes m: "malloc_spec m" and wf: "sds_wf s" and le: "sdslen s \<le> newlen"
    and cap: "newlen < sds_cap type" and n: "newlen + 18 < 2 ^ 64"
    and t5: "type = SDS_TYPE_5 \<Longrightarrow> newlen = sdslen s"
  shows "sds_post m (\<lambda>t. content t = content s \<and> sdsalloc t = newlen \<and> sds_flags t = type
            \<and> length (sds_buf t) = newlen + 1)
          (sds_resize m s type newlen)" (is "sds_post m ?P _")
proof -
  have hdr: "(sdsHdrSize type + newlen + 1) mod 2 ^ 64 = sdsHdrSize type + (newlen + 1)"
    using n sdsHdrSize_le [of type] by simp
  obtain rest where buf: "sds_buf s = (content s @ [NUL]) @ rest"
    using sds_wf_split [OF wf] by simp
  have lc: "length (content s @ [NUL]) = sdslen s + 1"
    using wf by simp
  have fin: "sds_wf t \<and> ?P t"
    if "sds_flags t = type" and "sds_len t = sdslen s" and "type \<noteq> SDS_TYPE_5 \<Longrightarrow> sds_alloc t = newlen"
      and "sds_buf t = (content s @ [NUL]) @ r" and "length ((content s @ [NUL]) @ r) = newlen + 1"
    for t r
  proof -
    have "sds_wf t \<and> content t = content s"
      by (rule sds_wfI [where rest = r])
        (use that le cap t5 wf in \<open>auto simp: sdslen_def\<close>)
    moreover have "sdsalloc t = newlen"
      using that(1-3) t5 by (cases type) (auto simp: sdsalloc_def)
    ultimately show ?thesis using that by simp
  qed
  show ?thesis
  proof (cases "m (sdsHdrSize type + (newlen + 1))")
    case None
    then have "sds_resize m s type newlen = Some None"
      unfolding sds_resize_def Let_def hdr by (simp add: s_realloc_def)
    with None show ?thesis by auto
  next
    case (Some blk)
    show ?thesis
    proof (cases "sds_flags s = type")
      case True
      obtain r where r: "s_realloc m (sds_buf s) (sdsHdrSize type) (sdsHdrSize type + (newlen + 1))
            = Some ((content s @ [NUL]) @ r)"
          "length ((content s @ [NUL]) @ r) = newlen + 1"
        using s_realloc_prefix [OF m Some buf] lc le by auto
      define t where "t = sdssetalloc (s\<lparr>sds_buf := (content s @ [NUL]) @ r\<rparr>) newlen"
      have "sds_resize m s type newlen = Some (Some t)"
        unfolding sds_resize_def Let_def hdr using True r by (simp add: t_def)
      moreover have "sds_wf t \<and> ?P t"
        by (rule fin [where r = r])
          (use True r cap in \<open>auto simp: t_def sds_setters sdslen_def\<close>)
      ultimately show ?thesis by simp
    next
      case False
      define mem where "mem = drop (sdsHdrSize type) blk"
      have lm: "length mem = newlen + 1"
        using malloc_specD [OF m Some] by (simp add: mem_def)
      define r where "r = drop (sdslen s + 1) mem"
      have rd: "mem_read (sds_buf s) 0 (sdslen s + 1) = Some (content s @ [NUL])"
        unfolding buf using lc by (simp add: mem_read_def)
      have wr: "mem_write mem 0 (content s @ [NUL]) = Some ((content s @ [NUL]) @ r)"
        using lm le lc by (subst mem_write_prefix) (auto simp: r_def)
      define t where
        "t = sdssetalloc (sdssetlen (s\<lparr>sds_flags := type, sds_buf := (content s @ [NUL]) @ r\<rparr>)
                            (sdslen s)) newlen"
      have "sds_resize m s type newlen = Some (Some t)"
        unfolding sds_resize_def Let_def hdr
        using False Some rd wr by (simp add: t_def mem_def [symmetric])
      moreover have "sds_wf t \<and> ?P t"
        by (rule fin [where r = r])
          (use le cap lm lc in \<open>auto simp: t_def sds_setters r_def\<close>)
      ultimately show ?thesis by simp
    qed
  qed
qed

lemma sdsMakeRoomFor_resize:
  "sdsMakeRoomFor m s addlen =
     (if addlen \<le> sdsavail s then Some (Some s)
      else let newlen0 = (sdslen s + addlen) mod 2 ^ 64;
               newlen = (if newlen0 < SDS_MAX_PREALLOC then newlen0 * 2
                         else (newlen0 + SDS_MAX_PREALLOC) mod 2 ^ 64);
               type0 = sdsReqType newlen
           in sds_resize m s (if type0 = SDS_TYPE_5 then SDS_TYPE_8 else type0) newlen)"
  by (simp only: sdsMakeRoomFor_def sds_resize_def Let_def)

lemma sdsRemoveFreeSpace_resize:
  "sdsRemoveFreeSpace m s = sds_resize m s (sdsReqType (sdslen s)) (sdslen s)"
  by (simp only: sdsRemoveFreeSpace_def sds_resize_def Let_def)

text \<open>Requests below this bound do not wrap around in \<open>sdsMakeRoomFor\<close>.\<close>

definition sds_small :: "nat \<Rightarrow> bool" where
  "sds_small n \<longleftrightarrow> n + 2 ^ 20 + 18 < 2 ^ 64"

lemma sds_small_mono: "sds_small n \<Longrightarrow> k \<le> n \<Longrightarrow> sds_small k"
  by (simp add: sds_small_def)

lemma sds_wf_avail_of_alloc:
  "sds_wf s \<Longrightarrow> sds_flags s \<noteq> SDS_TYPE_5 \<Longrightarrow> sdsavail s = sdsalloc s - sdslen s"
  by (cases "sds_flags s") (simp_all add: sds_wf_avail sdsalloc_def sdslen_def)

lemma sdsMakeRoomFor_post:
  assumes m: "malloc_spec m" and wf: "sds_wf s" and small: "sds_small (sdslen s + addlen)"
  shows "sds_post m (\<lambda>t. content t = content s \<and> addlen \<le> sdsavail t) (sdsMakeRoomFor m s addlen)"
proof (cases "addlen \<le> sdsavail s")
  case True
  then show ?thesis using wf by (simp add: sdsMakeRoomFor_def Let_def)
next
  case False
  define n0 where "n0 = sdslen s + addlen"
  define newlen where
    "newlen = (if n0 < SDS_MAX_PREALLOC then n0 * 2 else n0 + SDS_MAX_PREALLOC)"
  define type where
    "type = (if sdsReqType newlen = SDS_TYPE_5 then SDS_TYPE_8 else sdsReqType newlen)"
  have n0: "(sdslen s + addlen) mod 2 ^ 64 = n0" and n1: "(n0 + SDS_MAX_PREALLOC) mod 2 ^ 64 = n0 + SDS_MAX_PREALLOC"
    using small by (simp_all add: sds_small_def n0_def SDS_MAX_PREALLOC_def)
  have eq: "sdsMakeRoomFor m s addlen = sds_resize m s type newlen"
    using False unfolding sdsMakeRoomFor_resize Let_def n0 n1 newlen_def [symmetric]
      type_def [symmetric] by simp
  have bounds: "n0 \<le> newlen" "newlen + 18 < 2 ^ 64"
    using small by (simp_all add: newlen_def sds_small_def n0_def SDS_MAX_PREALLOC_def)
  then have cap: "newlen < sds_cap type"
    unfolding type_def by (intro sdsReqType_8_cap) simp
  have t5: "type \<noteq> SDS_TYPE_5" by (simp add: type_def)
  show ?thesis
    unfolding eq
  proof (rule sds_post_weaken [OF sds_resize_post [OF m wf _ cap bounds(2)]])
    fix t assume "sds_wf t" and *: "content t = content s \<and> sdsalloc t = newlen \<and>
       sds_flags t = type \<and> length (sds_buf t) = newlen + 1"
    then have "sdsavail t = newlen - sdslen t" using t5 by (simp add: sds_wf_avail_of_alloc)
    moreover have "sdslen t = sdslen s"
      using * \<open>sds_wf t\<close> wf by (metis length_content)
    ultimately show "content t = content s \<and> addlen \<le> sdsavail t"
      using * bounds(1) by (simp add: n0_def)
  qed (use bounds(1) t5 in \<open>simp_all add: n0_def\<close>)
qed

lemma sdsRemoveFreeSpace_post:
  assumes "malloc_spec m" and "sds_wf s" and "sdslen s + 18 < 2 ^ 64"
  shows "sds_post m (\<lambda>t. content t = content s \<and> sdsalloc t = sdslen s \<and> sdsavail t = 0)
           (sdsRemoveFreeSpace m s)"
  unfolding sdsRemoveFreeSpace_resize
proof (rule sds_post_weaken [OF sds_resize_post [OF assms(1,2)]])
  fix t assume t: "sds_wf t" "content t = content s \<and> sdsalloc t = sdslen s \<and>
      sds_flags t = sdsReqType (sdslen s) \<and> length (sds_buf t) = sdslen s + 1"
  then have "sdslen t = sdslen s" using assms(2) by (metis length_content)
  then show "content t = content s \<and> sdsalloc t = sdslen s \<and> sdsavail t = 0"
    using t sds_wf_avail [of t] sds_wf_avail_of_alloc [of t] by (cases "sds_flags t = SDS_TYPE_5") simp_all
qed (use assms(3) in \<open>auto intro: sdsReqType_cap\<close>)

section \<open>Appending and overwriting\<close>

text \<open>
  Writing contents and a terminator over the start of the block, and setting the length:
  the end of every operation that shortens, replaces or extends a string.
\<close>

lemma sds_overwrite:
  assumes wf: "sds_wf s" and b: "b = bs @ NUL # rest" and lb: "length b = length (sds_buf s)"
    and le: "length bs \<le> sdsalloc s"
  shows "sds_wf (sdssetlen (s\<lparr>sds_buf := b\<rparr>) (length bs))"
    and "content (sdssetlen (s\<lparr>sds_buf := b\<rparr>) (length bs)) = bs"
    and "sds_flags s \<noteq> SDS_TYPE_5 \<Longrightarrow>
           sdsavail (sdssetlen (s\<lparr>sds_buf := b\<rparr>) (length bs)) = sdsalloc s - length bs"
proof -
  let ?t = "sdssetlen (s\<lparr>sds_buf := b\<rparr>) (length bs)"
  have cap: "length bs < sds_cap (sds_flags s)"
    using wf le by (simp add: sds_wf_def)
  have t: "sds_wf ?t \<and> content ?t = bs"
    by (rule sds_wfI [where rest = rest])
      (use wf cap le lb b in \<open>auto simp: sds_setters sds_wf_def sdsalloc_def split: sds_type.splits\<close>)
  then show "sds_wf ?t" and "content ?t = bs" by simp_all
  assume "sds_flags s \<noteq> SDS_TYPE_5"
  then show "sdsavail ?t = sdsalloc s - length bs"
    using t cap by (cases "sds_flags s") (auto simp: sds_wf_avail sdsalloc_def sdssetlen_def)
qed

lemma sds_extend:
  assumes wf: "sds_wf s" and le: "length bs \<le> sdsavail s"
  obtains s2 s3 where "buf_write s (sdslen s) bs = Some s2"
    and "buf_write (sdssetlen s2 (sdslen s + length bs)) (sdslen s + length bs) [NUL] = Some s3"
    and "sds_wf s3" and "content s3 = content s @ bs" and "sdsavail s3 = sdsavail s - length bs"
proof -
  define rest where "rest = drop (Suc (sdslen s)) (sds_buf s)"
  have buf: "sds_buf s = content s @ (NUL # rest)" and lc: "length (content s) = sdslen s"
    using sds_wf_split [OF wf] wf by (simp_all add: rest_def)
  have al: "sdslen s + length bs \<le> sdsalloc s" "sdsalloc s < length (sds_buf s)"
    using sds_wf_avail_alloc [OF wf] wf le by (auto simp: sds_wf_def)
  define r where "r = drop (length bs) (NUL # rest)"
  have r: "r \<noteq> []" using al buf lc by (simp add: r_def)
  define s2 where "s2 = s\<lparr>sds_buf := content s @ bs @ r\<rparr>"
  have w2: "buf_write s (sdslen s) bs = Some s2"
    using al buf lc by (subst buf_write_at [OF buf]) (auto simp: s2_def r_def)
  define b where "b = (content s @ bs) @ NUL # tl r"
  have lb: "length b = length (sds_buf s)"
    using r arg_cong [OF buf, of length] al lc arg_cong [OF r_def, of length] by (simp add: b_def)
  define s3 where "s3 = sdssetlen (s\<lparr>sds_buf := b\<rparr>) (length (content s @ bs))"
  have w3: "buf_write (sdssetlen s2 (sdslen s + length bs)) (sdslen s + length bs) [NUL] = Some s3"
    using r lc by (subst buf_write_at [where pre = "content s @ bs" and rest = r])
      (auto simp: s2_def s3_def b_def sdssetlen_def drop_Suc Suc_le_eq)
  have le3: "length (content s @ bs) \<le> sdsalloc s" using al lc by simp
  have "sdsavail s3 = sdsavail s - length bs"
  proof (cases "sds_flags s = SDS_TYPE_5")
    case True
    then show ?thesis by (simp add: s3_def sdsavail_def sdssetlen_def)
  next
    case False
    then show ?thesis
      using sds_overwrite(3) [OF wf b_def lb le3] lc wf
      by (simp add: s3_def sds_wf_avail_of_alloc)
  qed
  then show thesis
    using that [OF w2 w3] sds_overwrite(1,2) [OF wf b_def lb le3] by (simp add: s3_def)
qed

lemma sdscatlen_post:
  assumes "malloc_spec m" and wf: "sds_wf s" and "sds_small (sdslen s + len)"
    and t: "len \<le> length t"
  shows "sds_post m (\<lambda>r. content r = content s @ take len t) (sdscatlen m s t len)"
  unfolding sdscatlen_def Let_def
proof (rule sds_post_bind [OF sdsMakeRoomFor_post [OF assms(1-3)]])
  fix s1 assume s1: "sds_wf s1" "content s1 = content s \<and> len \<le> sdsavail s1"
  then have l: "sdslen s1 = sdslen s" using wf by (metis length_content)
  have "length (take len t) \<le> sdsavail s1" using t s1 by simp
  then obtain s2 s3 where "buf_write s1 (sdslen s1) (take len t) = Some s2"
    and "buf_write (sdssetlen s2 (sdslen s1 + length (take len t)))
           (sdslen s1 + length (take len t)) [NUL] = Some s3"
    and "sds_wf s3" and "content s3 = content s1 @ take len t"
    using sds_extend [OF s1(1)] by metis
  then show "sds_post m (\<lambda>r. content r = content s @ take len t)
     (do { bs \<leftarrow> mem_read t 0 len; s2 \<leftarrow> buf_write s1 (sdslen s) bs;
           s3 \<leftarrow> buf_write (sdssetlen s2 (sdslen s + len)) (sdslen s + len) [NUL];
           Some (Some s3) })"
    using s1 t l by (simp add: mem_read_ok)
qed

lemma sdscat_post:
  assumes "malloc_spec m" and "sds_wf s" and "sds_small (sdslen s + length (cstr t))"
  shows "sds_post m (\<lambda>r. content r = content s @ cstr t) (sdscat m s t)"
  using sdscatlen_post [OF assms, of "cstr t"] by (simp add: sdscat_def)

lemma sdscatsds_post:
  assumes "malloc_spec m" and "sds_wf s" and "sds_small (sdslen s + sdslen t)" and "sds_wf t"
  shows "sds_post m (\<lambda>r. content r = content s @ content t) (sdscatsds m s t)"
  using sdscatlen_post [OF assms(1-3), of "sds_buf t"] sds_wf_lenD [OF assms(4)]
  by (simp add: sdscatsds_def content_def)

lemma sdsgrowzero_post:
  assumes "malloc_spec m" and wf: "sds_wf s" and small: "sds_small (max (sdslen s) len)"
  shows "sds_post m (\<lambda>r. content r = content s @ replicate (len - sdslen s) NUL) (sdsgrowzero m s len)"
proof (cases "len \<le> sdslen s")
  case True
  then show ?thesis using wf by (simp add: sdsgrowzero_def Let_def)
next
  case False
  define k where "k = len - sdslen s"
  have small': "sds_small (sdslen s + (len - sdslen s))"
    using small False by (simp add: max_def)
  have eq: "sdsgrowzero m s len = sds_bind (sdsMakeRoomFor m s (len - sdslen s)) (\<lambda>s1. do {
      s2 \<leftarrow> buf_write s1 (sdslen s) (replicate (len - sdslen s + 1) NUL);
      Some (Some (sdssetlen s2 len)) })"
    using False by (simp add: sdsgrowzero_def Let_def)
  show ?thesis
    unfolding eq k_def [symmetric]
  proof (rule sds_post_bind [OF sdsMakeRoomFor_post [OF assms(1,2) small', folded k_def]])
    fix s1 assume s1: "sds_wf s1" "content s1 = content s \<and> k \<le> sdsavail s1"
    then have l: "sdslen s1 = sdslen s" using wf by (metis length_content)
    have al: "len \<le> sdsalloc s1" "sdsalloc s1 < length (sds_buf s1)"
      using sds_wf_avail_alloc [OF s1(1)] s1 l False by (auto simp: k_def sds_wf_def)
    have split: "sds_buf s1 = content s1 @ NUL # drop (Suc (sdslen s1)) (sds_buf s1)"
      by (rule sds_wf_split [OF s1(1)])
    define b where "b = (content s1 @ replicate k NUL) @ NUL # drop (Suc len) (sds_buf s1)"
    have lc: "length (content s1) = sdslen s" using s1(1) l by simp
    have lb: "length b = length (sds_buf s1)"
      using lc al False by (simp add: b_def k_def)
    have w: "buf_write s1 (sdslen s) (replicate (k + 1) NUL) = Some (s1\<lparr>sds_buf := b\<rparr>)"
      using lc al False l
      by (subst buf_write_at [OF split])
        (auto simp: b_def k_def replicate_app_Cons_same drop_Cons' algebra_simps)
    have le: "length (content s1 @ replicate k NUL) \<le> sdsalloc s1"
      and len: "length (content s1 @ replicate k NUL) = len"
      using lc al False by (simp_all add: k_def)
    show "sds_post m (\<lambda>r. content r = content s @ replicate k NUL)
      (do { s2 \<leftarrow> buf_write s1 (sdslen s) (replicate (k + 1) NUL);
            Some (Some (sdssetlen s2 len)) })"
      using sds_overwrite(1,2) [OF s1(1) b_def lb le] s1(2) unfolding w len by simp
  qed
qed

lemma sdscpylen_post:
  assumes m: "malloc_spec m" and wf: "sds_wf s" and small: "sds_small (max (sdslen s) len)"
    and t: "len \<le> length t"
  shows "sds_post m (\<lambda>r. content r = take len t) (sdscpylen m s t len)"
proof -
  have s1: "sds_post m (\<lambda>s1. len \<le> sdsalloc s1)
      (if sdsalloc s < len then sdsMakeRoomFor m s (len - sdslen s) else Some (Some s))"
  proof (cases "sdsalloc s < len")
    case True
    then have "sdslen s < len" using wf by (auto simp: sds_wf_def sdslen_def)
    then have "sds_small (sdslen s + (len - sdslen s))" using small by (simp add: max_def)
    then have "sds_post m (\<lambda>s1. len \<le> sdsalloc s1) (sdsMakeRoomFor m s (len - sdslen s))"
      by (rule sds_post_weaken [OF sdsMakeRoomFor_post [OF m wf]])
        (use wf sds_wf_avail_alloc in \<open>fastforce dest: arg_cong [where f = length]\<close>)
    then show ?thesis using True by simp
  qed (use wf in simp)
  show ?thesis
    unfolding sdscpylen_def
  proof (rule sds_post_bind [OF s1])
    fix s1 assume s1: "sds_wf s1" "len \<le> sdsalloc s1"
    then have al: "len < length (sds_buf s1)" by (simp add: sds_wf_def)
    define b where "b = take len t @ NUL # drop (Suc len) (sds_buf s1)"
    have lb: "length b = length (sds_buf s1)" and le: "length (take len t) \<le> sdsalloc s1"
      and len: "length (take len t) = len"
      using t al s1 by (simp_all add: b_def)
    have w2: "buf_write s1 0 (take len t) = Some (s1\<lparr>sds_buf := take len t @ drop len (sds_buf s1)\<rparr>)"
      using t al by (subst buf_write_prefix) auto
    have w3: "buf_write (s1\<lparr>sds_buf := take len t @ drop len (sds_buf s1)\<rparr>) len [NUL]
        = Some (s1\<lparr>sds_buf := b\<rparr>)"
      using t al by (subst buf_write_at [where pre = "take len t" and rest = "drop len (sds_buf s1)"])
        (auto simp: b_def Suc_le_eq)
    show "sds_post m (\<lambda>r. content r = take len t)
      (do { bs \<leftarrow> mem_read t 0 len; s2 \<leftarrow> buf_write s1 0 bs; s3 \<leftarrow> buf_write s2 len [NUL];
            Some (Some (sdssetlen s3 len)) })"
      using sds_overwrite [OF s1(1) b_def lb le] t by (simp add: mem_read_ok w2 w3 len)
  qed
qed

section \<open>Operations in place\<close>

lemma buf_write_NUL:
  assumes "n < length (sds_buf s)"
  shows "buf_write s n [NUL] = Some (s\<lparr>sds_buf := take n (sds_buf s) @ NUL # drop (Suc n) (sds_buf s)\<rparr>)"
  using assms by (simp add: buf_write_def mem_write_def)

lemma sdssetlen_buf_swap: "sdssetlen (s\<lparr>sds_buf := b\<rparr>) n = (sdssetlen s n)\<lparr>sds_buf := b\<rparr>"
  by (simp add: sdssetlen_def)

text \<open>Cutting a well-formed string to its first \<open>n\<close> bytes after writing \<open>bs\<close> at the start.\<close>

lemma sds_cut:
  assumes wf: "sds_wf s" and le: "length bs \<le> sdslen s"
  defines "t \<equiv> sdssetlen (s\<lparr>sds_buf := bs @ NUL # drop (Suc (length bs)) (sds_buf s)\<rparr>) (length bs)"
  shows "sds_wf t \<and> content t = bs"
proof -
  have "length (bs @ NUL # drop (Suc (length bs)) (sds_buf s)) = length (sds_buf s)"
    using sds_wf_lenD [OF wf] le by simp
  then show ?thesis
    using sds_overwrite(1,2) [OF wf refl] sds_wf_avail_alloc [OF wf] le unfolding t_def by simp
qed

lemma sdsclear_post:
  assumes "sds_wf s"
  shows "\<exists>t. sdsclear s = Some t \<and> sds_wf t \<and> content t = []"
proof -
  have "0 < length (sds_buf s)" using sds_wf_lenD [OF assms] by linarith
  then have "0 < length (sds_buf (sdssetlen s 0))" by (simp only: sds_buf_setlen)
  then show ?thesis
    using sds_cut [OF assms, of "[]"] unfolding sdsclear_def
    by (subst buf_write_NUL) (assumption, simp add: sdssetlen_buf_swap)
qed

lemma sdsupdatelen_post:
  assumes wf: "sds_wf s" and "NUL \<notin> set (content s)"
  shows "sdsupdatelen s = s"
proof -
  have "cstr (sds_buf s) = content s"
    by (subst sds_wf_split [OF wf]) (simp add: cstr_append_NUL assms(2))
  then show ?thesis using wf by (simp add: sdsupdatelen_def sdssetlen_def sds_wf_def sdslen_def)
qed

text \<open>
  \<open>sdsIncrLen\<close> after bytes were written into the spare room, and as a right trim.  On type 5
  the assertion rejects an increment of 0.
\<close>

lemma sdsIncrLen_grow:
  assumes wf: "sds_wf s" and n: "n \<le> sdsavail s" and t5: "sds_flags s \<noteq> SDS_TYPE_5"
  shows "\<exists>t. sdsIncrLen s (int n) = Some t \<and> sds_wf t \<and>
           content t = take (sdslen s + n) (sds_buf s)"
proof -
  let ?k = "sdslen s + n"
  have al: "?k \<le> sdsalloc s" "sdsalloc s < length (sds_buf s)"
    using n sds_wf_avail_alloc [OF wf] wf by (auto simp: sds_wf_def)
  define b where "b = take ?k (sds_buf s) @ NUL # drop (Suc ?k) (sds_buf s)"
  have lb: "length b = length (sds_buf s)" and le: "length (take ?k (sds_buf s)) \<le> sdsalloc s"
    and len: "length (take ?k (sds_buf s)) = ?k"
    using al by (simp_all add: b_def)
  have kcap: "?k < sds_cap (sds_flags s)" using al wf by (simp add: sds_wf_def)
  have "sdsIncrLen s (int n) = buf_write (sdssetlen s ?k) (sdslen (sdssetlen s ?k)) [NUL]"
    using n t5 wf sds_wf_avail [OF wf]
    by (cases "sds_flags s")
      (auto simp: sdsIncrLen_def sdsavail_def sdslen_def sds_wf_def sdsalloc_def nat_int_add usub_def Let_def)
  also have "\<dots> = Some (sdssetlen (s\<lparr>sds_buf := b\<rparr>) ?k)"
    using al kcap sds_len_setlen [OF kcap]
    by (simp add: sdslen_def buf_write_NUL b_def sdssetlen_buf_swap)
  finally show ?thesis
    using sds_overwrite(1,2) [OF wf b_def lb le] unfolding len by blast
qed

lemma sdsIncrLen_trim:
  assumes wf: "sds_wf s" and n: "0 < n" "n \<le> sdslen s"
  shows "\<exists>t. sdsIncrLen s (- int n) = Some t \<and> sds_wf t \<and>
           content t = take (sdslen s - n) (content s)"
proof -
  let ?k = "sdslen s - n"
  have al: "sdslen s \<le> sdsalloc s" "sdsalloc s < length (sds_buf s)"
    using wf by (auto simp: sds_wf_def sdslen_def)
  have kcap: "?k < sds_cap (sds_flags s)" using al wf by (auto simp: sds_wf_def)
  have "sdsIncrLen s (- int n) = buf_write (sdssetlen s ?k) (sdslen (sdssetlen s ?k)) [NUL]"
    using n by (auto simp: sdsIncrLen_def sdslen_def Let_def nat_diff_distrib split: sds_type.splits)
  also have "\<dots> = Some (sdssetlen (s\<lparr>sds_buf := take ?k (sds_buf s) @ NUL # drop (Suc ?k) (sds_buf s)\<rparr>) ?k)"
    using al kcap sds_len_setlen [OF kcap]
    by (simp add: sdslen_def buf_write_NUL sdssetlen_buf_swap)
  finally have eq: "sdsIncrLen s (- int n) = \<dots>" .
  have "take ?k (sds_buf s) = take ?k (content s)" by (simp add: content_def)
  moreover have "length (take ?k (content s)) = ?k" using wf by simp
  ultimately show ?thesis
    using sds_cut [OF wf, of "take ?k (content s)"] eq by simp
qed

lemma sdsIncrLen_type5_zero: "sds_flags s = SDS_TYPE_5 \<Longrightarrow> sdsIncrLen s 0 = None"
  by (simp add: sdsIncrLen_def)

text \<open>\<open>sds_slice\<close> is the closed range \<open>start..end\<close> with negative indexes counted from the end.\<close>

definition sds_slice :: "int \<Rightarrow> int \<Rightarrow> string \<Rightarrow> string" where
  "sds_slice start end bs =
     (let n = int (length bs);
          i = (if start < 0 then max 0 (n + start) else start);
          j = (if end < 0 then max 0 (n + end) else end)
      in take (nat (j - i + 1)) (drop (nat i) bs))"

lemma sds_copy_down:
  assumes wf: "sds_wf s" and le: "i + k \<le> sdslen s"
  shows "\<exists>t. (do { s1 \<leftarrow> (if i \<noteq> 0 \<and> k \<noteq> 0
                       then do { bs \<leftarrow> mem_read (sds_buf s) i k; buf_write s 0 bs } else Some s);
                  s2 \<leftarrow> buf_write s1 k [NUL];
                  Some (sdssetlen s2 k) }) = Some t
           \<and> sds_wf t \<and> content t = take k (drop i (content s))"
proof -
  have lb: "sdslen s < length (sds_buf s)" by (rule sds_wf_lenD [OF wf])
  define bs where "bs = take k (drop i (content s))"
  have bs: "take k (drop i (sds_buf s)) = bs" and lbs: "length bs = k"
    using le wf lb by (simp_all add: bs_def content_def take_drop min_def)
  have "(if i \<noteq> 0 \<and> k \<noteq> 0 then do { bs \<leftarrow> mem_read (sds_buf s) i k; buf_write s 0 bs } else Some s)
      = Some (s\<lparr>sds_buf := bs @ drop k (sds_buf s)\<rparr>)"
  proof (cases "i \<noteq> 0 \<and> k \<noteq> 0")
    case True
    then show ?thesis using le lb bs lbs by (simp add: mem_read_ok buf_write_prefix)
  next
    case False
    then have "bs = take k (sds_buf s)" using bs lbs by auto
    then show ?thesis using False by auto
  qed
  moreover have "buf_write (s\<lparr>sds_buf := bs @ drop k (sds_buf s)\<rparr>) k [NUL]
      = Some (s\<lparr>sds_buf := bs @ NUL # drop (Suc k) (sds_buf s)\<rparr>)"
    using le lb lbs by (subst buf_write_NUL) auto
  ultimately show ?thesis
    using sds_cut [OF wf, of bs] lbs le by (simp add: bs_def)
qed

lemma sdsrange_slice:
  assumes wf: "sds_wf s" and len: "sdslen s < 2 ^ 31"
    and "- (2 ^ 31) \<le> start" "start < 2 ^ 31" "- (2 ^ 31) \<le> end" "end < 2 ^ 31"
  shows "\<exists>t. sdsrange s start end = Some t \<and> sds_wf t \<and> content t = sds_slice start end (content s)"
proof (cases "sdslen s = 0")
  case True
  then have "content s = []" by (simp add: content_def)
  with True wf show ?thesis by (simp add: sdsrange_def sds_slice_def Let_def)
next
  case False
  define n where "n = int (sdslen s)"
  define i where "i = (if start < 0 then max 0 (n + start) else start)"
  define j where "j = (if end < 0 then max 0 (n + end) else end)"
  have ij: "0 \<le> i" "0 \<le> j" "i < 2 ^ 31" "j < 2 ^ 31" and n: "0 < n" "n < 2 ^ 31"
    using assms False by (auto simp: i_def j_def n_def)
  have i': "(if start < 0 then max 0 (s32 (int (sdslen s) + start)) else start) = i"
    and j': "(if end < 0 then max 0 (s32 (int (sdslen s) + end)) else end) = j"
    using assms n by (simp_all add: i_def j_def n_def s32_id)
  define k where "k = min (nat (j - i + 1)) (nat (n - i))"
  define k1 where "k1 = (if i > j then 0 else nat (s32 (j - i + 1) mod 2 ^ 64))"
  define k2 where "k2 = (if k1 \<noteq> 0 then
                            (if s32 (int (sdslen s)) \<le> i then 0
                             else if s32 (int (sdslen s)) \<le> j then
                               (let end2 = s32 (int (sdslen s) - 1)
                                in if i > end2 then 0 else nat (end2 - i + 1))
                             else k1)
                          else k1)"
  have k1: "k1 \<noteq> 0 \<longleftrightarrow> i \<le> j"
  proof (cases "j - i + 1 < 2 ^ 31")
    case True
    then have "s32 (j - i + 1) = j - i + 1" if "i \<le> j" using that ij by (intro s32_id) auto
    then show ?thesis using ij True by (auto simp: k1_def)
  next
    case False
    then have "j - i + 1 = 2 ^ 31" using ij by simp
    then show ?thesis using ij by (auto simp: k1_def s32_def)
  qed
  have k2: "k2 = k"
  proof (cases "i \<le> j \<and> j < n")
    case True
    then have "k1 = nat (j - i + 1)" using ij n by (simp add: k1_def s32_id)
    moreover have "nat (j - i + 1) \<le> nat (n - i)" using True by (intro nat_mono) simp
    ultimately show ?thesis
      using k1 True n by (simp add: k2_def k_def n_def [symmetric] s32_id min_def)
  next
    case False
    then show ?thesis
      using k1 n ij by (auto simp: k2_def k_def n_def [symmetric] s32_id min_def Let_def k1_def)
  qed
  have "k2 \<noteq> 0 \<Longrightarrow> k1 \<noteq> 0" by (cases "k1 = 0") (simp_all add: k2_def)
  then have eq: "sdsrange s start end =
      (do { s1 \<leftarrow> (if nat i \<noteq> 0 \<and> k \<noteq> 0
              then do { bs \<leftarrow> mem_read (sds_buf s) (nat i) k; buf_write s 0 bs } else Some s);
            s2 \<leftarrow> buf_write s1 k [NUL]; Some (sdssetlen s2 k) })"
    using False ij unfolding sdsrange_def i' j' Let_def
    by (fold k1_def, fold k2_def [unfolded Let_def]) (simp add: k2)
  have sl: "sds_slice start end (content s) = take (nat (j - i + 1)) (drop (nat i) (content s))"
    using wf by (simp add: sds_slice_def Let_def i_def j_def n_def)
  show ?thesis
  proof (cases "nat i + k \<le> sdslen s")
    case True
    have "take k (drop (nat i) (content s)) = take (nat (j - i + 1)) (drop (nat i) (content s))"
      using wf ij by (auto simp: k_def min_def n_def)
    then show ?thesis
      using sds_copy_down [OF wf True] unfolding eq sl by simp
  next
    case False
    then have "k = 0" and "n \<le> i" using ij n by (auto simp: k_def n_def min_def split: if_splits)
    then have "sds_slice start end (content s) = []"
      using wf by (simp add: sl n_def)
    then show ?thesis
      using sds_copy_down [OF wf, of 0 0] \<open>k = 0\<close> unfolding eq by simp
  qed
qed

text \<open>\<open>sdstrim\<close> strips the bytes of \<open>cset\<close> on both sides (NUL bytes count as members).\<close>

definition strip :: "('a \<Rightarrow> bool) \<Rightarrow> 'a list \<Rightarrow> 'a list" where
  "strip P xs = rev (dropWhile P (rev (dropWhile P xs)))"

lemma dropWhile_snoc: "\<not> P y \<Longrightarrow> dropWhile P (xs @ [y]) = dropWhile P xs @ [y]"
  by (induction xs) auto

lemma strip_take:
  assumes "dropWhile P xs = y # ys"
  shows "strip P xs = take (Suc (length (dropWhile P (rev ys)))) (y # ys)"
proof -
  have "\<not> P y" using assms by (metis dropWhile_eq_Cons_conv)
  then have "dropWhile P (rev ys @ [y]) = dropWhile P (rev ys) @ [y]"
    by (rule dropWhile_snoc)
  moreover have "take (length (dropWhile P (rev ys))) ys = rev (dropWhile P (rev ys))"
    by (metis append_take_drop_id length_rev rev_append rev_rev_ident
        append_eq_conv_conj takeWhile_dropWhile_id)
  ultimately show ?thesis by (simp add: strip_def assms)
qed

lemma sdstrim_strip:
  assumes wf: "sds_wf s"
  shows "\<exists>t. sdstrim s cset = Some t \<and> sds_wf t \<and> content t = strip (strchr_hit cset) (content s)"
proof -
  let ?P = "strchr_hit cset"
  define sp where "sp = length (takeWhile ?P (content s))"
  define rest where "rest = drop sp (content s)"
  have rest: "rest = dropWhile ?P (content s)" by (simp add: rest_def sp_def dropWhile_eq_drop)
  define k where
    "k = (if rest = [] then 0 else Suc (length (dropWhile ?P (rev (tl rest)))))"
  have k: "k \<le> length rest"
    using length_dropWhile_le [of ?P "rev (tl rest)"] by (cases rest) (auto simp: k_def)
  have le: "sp + k \<le> sdslen s"
    using k length_takeWhile_le [of ?P "content s"] wf by (simp add: rest_def sp_def)
  have strip: "strip ?P (content s) = take k rest"
  proof (cases rest)
    case Nil
    then show ?thesis unfolding strip_def rest [symmetric] by (simp add: k_def)
  next
    case (Cons y ys)
    then show ?thesis using strip_take [of ?P "content s"] rest by (simp add: k_def)
  qed
  have rd: "mem_read (sds_buf s) 0 (sdslen s) = Some (content s)"
    using sds_wf_lenD [OF wf] by (simp add: mem_read_def content_def)
  have "sdstrim s cset =
      (do { s1 \<leftarrow> (if sp \<noteq> 0 then buf_write s 0 (take k rest) else Some s);
            s2 \<leftarrow> buf_write s1 k [NUL]; Some (sdssetlen s2 k) })"
    unfolding sdstrim_def rd bind.simps Let_def
    by (fold sp_def) (fold rest_def, fold k_def, rule refl)
  also have "\<dots> = (do { s1 \<leftarrow> (if sp \<noteq> 0 \<and> k \<noteq> 0
              then do { bs \<leftarrow> mem_read (sds_buf s) sp k; buf_write s 0 bs } else Some s);
            s2 \<leftarrow> buf_write s1 k [NUL]; Some (sdssetlen s2 k) })"
  proof -
    have "mem_read (sds_buf s) sp k = Some (take k rest)"
      using le sds_wf_lenD [OF wf] by (simp add: mem_read_def rest_def content_def take_drop min_def)
    moreover have "k = 0 \<Longrightarrow> buf_write s 0 (take k rest) = Some s"
      by (simp add: buf_write_prefix)
    ultimately show ?thesis by auto
  qed
  finally show ?thesis
    using sds_copy_down [OF wf le] by (simp add: strip rest_def)
qed

lemma sds_map_bytes_post:
  assumes wf: "sds_wf s" and n: "n = sdslen s"
  shows "\<exists>t. sds_map_bytes f s n = Some t \<and> sds_wf t \<and> content t = map f (content s)"
proof -
  have l: "sdslen s < length (sds_buf s)" by (rule sds_wf_lenD [OF wf])
  have eq: "sds_map_bytes f s n = Some (s\<lparr>sds_buf := map f (content s) @ drop (sdslen s) (sds_buf s)\<rparr>)"
    using l wf n by (simp add: sds_map_bytes_def mem_read_def buf_write_prefix content_def)
  have b: "map f (content s) @ drop (sdslen s) (sds_buf s)
      = map f (content s) @ NUL # drop (Suc (length (map f (content s)))) (sds_buf s)"
    using wf l by (simp add: sds_wf_def sdslen_def Cons_nth_drop_Suc [symmetric])
  have "s\<lparr>sds_buf := map f (content s) @ drop (sdslen s) (sds_buf s)\<rparr>
      = sdssetlen (s\<lparr>sds_buf := map f (content s) @ drop (sdslen s) (sds_buf s)\<rparr>)
          (length (map f (content s)))"
    using wf by (simp add: sdssetlen_def sds_wf_def sdslen_def)
  then show ?thesis
    using sds_cut [OF wf, of "map f (content s)"] wf unfolding eq b by simp
qed

lemma sdstolower_post:
  "sds_wf s \<Longrightarrow> sdslen s < 2 ^ 31 \<Longrightarrow>
   \<exists>t. sdstolower s = Some t \<and> sds_wf t \<and> content t = map tolower (content s)"
  using sds_map_bytes_post [of s _ tolower] by (simp add: sdstolower_def s32_id)

lemma sdstoupper_post:
  "sds_wf s \<Longrightarrow> sdslen s < 2 ^ 31 \<Longrightarrow>
   \<exists>t. sdstoupper s = Some t \<and> sds_wf t \<and> content t = map toupper (content s)"
  using sds_map_bytes_post [of s _ toupper] by (simp add: sdstoupper_def s32_id)

lemma sdsmapchars_post:
  "sds_wf s \<Longrightarrow> length from = n \<Longrightarrow> length to = n \<Longrightarrow>
   \<exists>t. sdsmapchars s from to n = Some t \<and> sds_wf t \<and> content t = map (mapchar from to) (content s)"
  using sds_map_bytes_post [of s _ "mapchar from to"] by (simp add: sdsmapchars_def mem_read_ok)

section \<open>Comparison\<close>

lemma memcmp_lexord:
  "length xs = length ys \<Longrightarrow>
   (memcmp xs ys = 0 \<longleftrightarrow> xs = ys) \<and> (memcmp xs ys < 0 \<longleftrightarrow> ord_class.lexordp xs ys)"
proof (induction xs ys rule: memcmp.induct)
  case (1 x xs y ys)
  then show ?case
    using linorder_neqE_nat [of "byte_val x" "byte_val y"] by (auto simp: less_char_def)
qed auto

lemma lexordp_prefix:
  "length a = length b \<Longrightarrow>
   ord_class.lexordp (a @ a') (b @ b') \<longleftrightarrow>
     (if a = b then ord_class.lexordp a' b' else ord_class.lexordp a (b :: char list))"
  by (induction a b rule: list_induct2) auto

lemma sdscmp_lex:
  assumes "sds_wf s1" and "sds_wf s2" and len: "sdslen s1 < 2 ^ 31" "sdslen s2 < 2 ^ 31"
  shows "\<exists>r. sdscmp s1 s2 = Some r \<and> (r = 0 \<longleftrightarrow> content s1 = content s2) \<and>
           (r < 0 \<longleftrightarrow> ord_class.lexordp (content s1) (content s2))"
proof -
  define k where "k = min (sdslen s1) (sdslen s2)"
  define a where "a = take k (content s1)" 
  define b where "b = take k (content s2)"
  have lab: "length a = k" "length b = k"
    using assms by (simp_all add: a_def b_def k_def)
  have rd: "mem_read (sds_buf s1) 0 k = Some a" "mem_read (sds_buf s2) 0 k = Some b"
    using sds_wf_lenD [OF assms(1)] sds_wf_lenD [OF assms(2)]
    by (auto simp: mem_read_def a_def b_def content_def k_def min_def)
  have eq: "sdscmp s1 s2 =
      Some (if memcmp a b = 0 then int (sdslen s1) - int (sdslen s2) else memcmp a b)"
  proof -
    have "(if sdslen s1 < sdslen s2 then sdslen s1 else sdslen s2) = k" by (simp add: k_def)
    then show ?thesis
      unfolding sdscmp_def Let_def using rd len by (simp add: s32_id)
  qed
  define a' where "a' = drop k (content s1)"
  define b' where "b' = drop k (content s2)"
  have c: "content s1 = a @ a'" "content s2 = b @ b'"
    by (simp_all add: a_def b_def a'_def b'_def)
  have tails: "a' = [] \<or> b' = []" and l': "length a' = sdslen s1 - k" "length b' = sdslen s2 - k"
    using assms by (auto simp: a'_def b'_def k_def min_def)
  have lex: "ord_class.lexordp a' b' \<longleftrightarrow> a' = [] \<and> b' \<noteq> []"
    using tails by (cases a'; cases b') auto
  show ?thesis
  proof (cases "a = b")
    case True
    then have z: "memcmp a b = 0" using memcmp_lexord [of a b] lab by simp
    have "sdslen s1 = k + length a'" "sdslen s2 = k + length b'"
      using l' by (simp_all add: k_def)
    then show ?thesis
      using True tails lex z unfolding eq c by (auto simp: lexordp_prefix [OF refl])
  next
    case False
    then have "memcmp a b \<noteq> 0" and "memcmp a b < 0 \<longleftrightarrow> ord_class.lexordp a b"
      using memcmp_lexord [of a b] lab by auto
    moreover have "content s1 \<noteq> content s2" using False lab c by auto
    ultimately show ?thesis
      using False lab lexordp_prefix [of a b a' b'] unfolding eq c by auto
  qed
qed

section \<open>What the string operations promise\<close>

text \<open>An allocator and a string to evaluate the statements on.\<close>

definition zero_malloc :: allocator where
  "zero_malloc n = Some (replicate n NUL)"

definition sample_sds :: sds where
  "sample_sds = \<lparr>sds_flags = SDS_TYPE_8, sds_len = 5, sds_alloc = 7, sds_buf = '' a-b '' @ [NUL, CHR ''x'', NUL]\<rparr>"

lemma zero_malloc_ok [simp]: "malloc_spec zero_malloc" "malloc_total zero_malloc"
  by (simp_all add: zero_malloc_def malloc_spec_def malloc_total_def)

lemma sample_sds_facts [simp]:
  "sds_wf sample_sds" "content sample_sds = '' a-b ''" "sdslen sample_sds = 5" "sdsavail sample_sds = 2"
  "sds_flags sample_sds = SDS_TYPE_8" "sds_buf sample_sds = '' a-b '' @ [NUL, CHR ''x'', NUL]"
  by (simp_all add: sample_sds_def sds_wf_def sdsalloc_def content_def sdslen_def sdsavail_def usub_def)

text \<open>Appending \<open>len\<close> bytes never leaves the block, and unless allocation fails the result is a
  well-formed string that holds the old contents followed by those bytes, NUL bytes included.\<close>

theorem sdscatlen_appends:
  assumes "malloc_spec m" and "malloc_total m" and "sds_wf s" and "len \<le> length t"
    and "sds_small (sdslen s + len)"
  shows "\<exists>r. sdscatlen m s t len = Some (Some r) \<and> sds_wf r \<and> content r = content s @ take len t"
  using sds_postD [OF sdscatlen_post [OF assms(1,3,5,4)] assms(2)] by metis

theorem sdscatlen_appends_witness:
  "\<exists>r. sdscatlen zero_malloc sample_sds [CHR ''c'', NUL, CHR ''d''] 2 = Some (Some r) \<and> sds_wf r \<and>
     content r = '' a-b '' @ [CHR ''c'', NUL]"
  using sdscatlen_appends [of zero_malloc sample_sds 2 "[CHR ''c'', NUL, CHR ''d'']"]
  by (simp add: sds_small_def)

text \<open>\<open>sdsMakeRoomFor\<close> keeps the contents and leaves room for \<open>addlen\<close> more bytes, also when the
  header has to grow to a wider type; \<open>sdsRemoveFreeSpace\<close> keeps them and leaves no room at all.\<close>

theorem sds_room:
  assumes "malloc_spec m" and "malloc_total m" and "sds_wf s" and "sds_small (sdslen s + addlen)"
  shows "(\<exists>r. sdsMakeRoomFor m s addlen = Some (Some r) \<and> sds_wf r \<and> content r = content s \<and>
            addlen \<le> sdsavail r) \<and>
         (\<exists>r. sdsRemoveFreeSpace m s = Some (Some r) \<and> sds_wf r \<and> content r = content s \<and>
            sdsavail r = 0 \<and> sdsAllocSize r = sdsHdrSize (sds_flags r) + sdslen s + 1)"
proof
  show "\<exists>r. sdsMakeRoomFor m s addlen = Some (Some r) \<and> sds_wf r \<and> content r = content s \<and>
            addlen \<le> sdsavail r"
    using sds_postD [OF sdsMakeRoomFor_post [OF assms(1,3,4)] assms(2)] by metis
  have s: "sdslen s + 18 < 2 ^ 64" using assms(4) by (simp add: sds_small_def)
  obtain r where r: "sdsRemoveFreeSpace m s = Some (Some r)" "sds_wf r"
      "content r = content s \<and> sdsalloc r = sdslen s \<and> sdsavail r = 0"
    by (rule sds_postD [OF sdsRemoveFreeSpace_post [OF assms(1,3) s] assms(2)])
  moreover have "sdsAllocSize r = sdsHdrSize (sds_flags r) + sdslen s + 1"
    using r(3) s sdsHdrSize_le [of "sds_flags r"] by (simp add: sdsAllocSize_def)
  ultimately show "\<exists>r. sdsRemoveFreeSpace m s = Some (Some r) \<and> sds_wf r \<and> content r = content s \<and>
            sdsavail r = 0 \<and> sdsAllocSize r = sdsHdrSize (sds_flags r) + sdslen s + 1"
    by blast
qed

theorem sds_room_witness:
  "\<exists>r. sdsMakeRoomFor zero_malloc sample_sds 300 = Some (Some r) \<and> sds_wf r \<and>
     content r = '' a-b '' \<and> 300 \<le> sdsavail r"
  using sds_room [of zero_malloc sample_sds 300] by (simp add: sds_small_def)

text \<open>\<open>sdscpylen\<close> replaces the contents, \<open>sdsgrowzero\<close> pads them with NUL bytes up to a length,
  \<open>sdsclear\<close> empties them; none of them leaves the block.\<close>

theorem sds_replace:
  assumes "malloc_spec m" and "malloc_total m" and "sds_wf s" and "len \<le> length t"
    and "sds_small (max (sdslen s) len)"
  shows "(\<exists>r. sdscpylen m s t len = Some (Some r) \<and> sds_wf r \<and> content r = take len t) \<and>
         (\<exists>r. sdsgrowzero m s len = Some (Some r) \<and> sds_wf r \<and>
            content r = content s @ replicate (len - sdslen s) NUL) \<and>
         (\<exists>r. sdsclear s = Some r \<and> sds_wf r \<and> content r = [])"
  using sds_postD [OF sdscpylen_post [OF assms(1,3,5,4)] assms(2)]
    sds_postD [OF sdsgrowzero_post [OF assms(1,3,5)] assms(2)] sdsclear_post [OF assms(3)]
  by metis

theorem sds_replace_witness:
  "\<exists>r. sdsgrowzero zero_malloc sample_sds 7 = Some (Some r) \<and> sds_wf r \<and>
     content r = '' a-b '' @ replicate 2 NUL"
  using sds_replace [of zero_malloc sample_sds 7 "''1234567''"]
  by (simp add: sds_small_def)

text \<open>\<open>sdsrange\<close> keeps exactly the bytes from \<open>start\<close> to \<open>end\<close>, both included, negative
  positions counting from the end, for every \<open>int\<close> argument and every string shorter than 2 GiB.\<close>

theorem sdsrange_keeps_slice:
  assumes "sds_wf s" and "sdslen s < 2 ^ 31"
    and "- (2 ^ 31) \<le> start" "start < 2 ^ 31" "- (2 ^ 31) \<le> end" "end < 2 ^ 31"
  shows "\<exists>r. sdsrange s start end = Some r \<and> sds_wf r \<and> content r = sds_slice start end (content s)"
  by (rule sdsrange_slice [OF assms])

theorem sdsrange_keeps_slice_witness:
  "\<exists>r. sdsrange sample_sds 1 (-2) = Some r \<and> sds_wf r \<and> content r = ''a-b''"
  using sdsrange_keeps_slice [of sample_sds 1 "-2"] by (simp add: sds_slice_def)

text \<open>\<open>sdstrim\<close> removes the bytes of the set at both ends and nothing else.\<close>

theorem sdstrim_strips:
  assumes "sds_wf s"
  shows "\<exists>r. sdstrim s cset = Some r \<and> sds_wf r \<and> content r = strip (strchr_hit cset) (content s)"
  by (rule sdstrim_strip [OF assms])

theorem sdstrim_strips_witness:
  "\<exists>r. sdstrim sample_sds '' '' = Some r \<and> sds_wf r \<and> content r = ''a-b''"
  using sdstrim_strips [of sample_sds "'' ''"] by (simp add: strip_def strchr_hit_def cstr_def)

text \<open>\<open>sdscmp\<close> is zero exactly for equal contents and negative exactly when the first string is
  smaller in the lexicographic order of unsigned bytes.\<close>

theorem sdscmp_lexicographic:
  assumes "sds_wf s1" and "sds_wf s2" and "sdslen s1 < 2 ^ 31" and "sdslen s2 < 2 ^ 31"
  shows "\<exists>r. sdscmp s1 s2 = Some r \<and> (r = 0 \<longleftrightarrow> content s1 = content s2) \<and>
           (r < 0 \<longleftrightarrow> ord_class.lexordp (content s1) (content s2))"
  by (rule sdscmp_lex [OF assms])

theorem sdscmp_lexicographic_witness: "\<exists>r. sdscmp sample_sds sample_sds = Some r \<and> r = 0"
  using sdscmp_lexicographic [of sample_sds sample_sds] by simp

text \<open>\<open>sdsIncrLen\<close> takes over bytes written into the spare room of a string with a separate
  \<open>alloc\<close> field, and with a negative argument trims that many bytes on the right.\<close>

theorem sdsIncrLen_moves_end:
  assumes "sds_wf s" and "n \<le> sdsavail s" and "sds_flags s \<noteq> SDS_TYPE_5" and "0 < k" and "k \<le> sdslen s"
  shows "(\<exists>r. sdsIncrLen s (int n) = Some r \<and> sds_wf r \<and> content r = take (sdslen s + n) (sds_buf s)) \<and>
         (\<exists>r. sdsIncrLen s (- int k) = Some r \<and> sds_wf r \<and> content r = take (sdslen s - k) (content s))"
  using sdsIncrLen_grow [OF assms(1-3)] sdsIncrLen_trim [OF assms(1,4,5)] by blast

theorem sdsIncrLen_moves_end_witness:
  "\<exists>r. sdsIncrLen sample_sds (int 2) = Some r \<and> sds_wf r \<and> content r = '' a-b '' @ [NUL, CHR ''x'']"
  using sdsIncrLen_moves_end [of sample_sds 2 1] by simp

end
