(* ===== verification/Reader.thy ===== *)
theory Reader
  imports Sds
begin

text \<open>
  The protocol reader of \<open>redis/read.h\<close> and \<open>redis/read.c\<close>: an incremental parser that is
  fed chunks of bytes and emits one reply at a time, with an explicit stack of read tasks
  for nested replies.

  A reply object is a \<open>void *\<close>: either a small integer cast to a pointer (\<open>Tag\<close>, used when
  the reader has no object functions) or an object made by those functions (\<open>Ref\<close>, an
  address of their store).  The functions are a parameter of the reader, as in the code;
  they act on a store of type \<open>'h\<close>, which the model keeps beside the reader's fields.  The
  functions hiredis passes by default are in the theory \<open>Reply\<close>.

  As in \<open>Sds\<close>, the outer \<open>None\<close> of a result is undefined behaviour or a failed assertion.
\<close>

section \<open>Types\<close>

definition REDIS_ERR_IO :: int where "REDIS_ERR_IO = 1"
definition REDIS_ERR_OTHER :: int where "REDIS_ERR_OTHER = 2"
definition REDIS_ERR_EOF :: int where "REDIS_ERR_EOF = 3"
definition REDIS_ERR_PROTOCOL :: int where "REDIS_ERR_PROTOCOL = 4"
definition REDIS_ERR_OOM :: int where "REDIS_ERR_OOM = 5"

definition REDIS_REPLY_STRING :: int where "REDIS_REPLY_STRING = 1"
definition REDIS_REPLY_ARRAY :: int where "REDIS_REPLY_ARRAY = 2"
definition REDIS_REPLY_INTEGER :: int where "REDIS_REPLY_INTEGER = 3"
definition REDIS_REPLY_NIL :: int where "REDIS_REPLY_NIL = 4"
definition REDIS_REPLY_STATUS :: int where "REDIS_REPLY_STATUS = 5"
definition REDIS_REPLY_ERROR :: int where "REDIS_REPLY_ERROR = 6"

lemmas reply_types = REDIS_REPLY_STRING_def REDIS_REPLY_ARRAY_def REDIS_REPLY_INTEGER_def
  REDIS_REPLY_NIL_def REDIS_REPLY_STATUS_def REDIS_REPLY_ERROR_def

lemmas err_types = REDIS_ERR_IO_def REDIS_ERR_OTHER_def REDIS_ERR_EOF_def
  REDIS_ERR_PROTOCOL_def REDIS_ERR_OOM_def

definition REDIS_READER_MAX_BUF :: nat where "REDIS_READER_MAX_BUF = 1024 * 16"

datatype status = REDIS_OK | REDIS_ERR

datatype robj = Tag int | Ref nat

text \<open>A task's parent is a pointer to another entry of \<open>rstack\<close>, kept as its index.\<close>

record redisReadTask =
  t_type :: int
  t_elements :: int
  t_idx :: int
  t_obj :: "robj option"
  t_parent :: "nat option"
  t_privdata :: nat

text \<open>
  Each function takes the store, the task, the task its parent pointer refers to, and the
  value; it returns the new store and the object, \<open>None\<close> for NULL.
\<close>

record 'h redisReplyObjectFunctions =
  createString :: "('h \<Rightarrow> redisReadTask \<Rightarrow> redisReadTask option \<Rightarrow> string \<Rightarrow> ('h \<times> robj option) option) option"
  createArray :: "('h \<Rightarrow> redisReadTask \<Rightarrow> redisReadTask option \<Rightarrow> int \<Rightarrow> ('h \<times> robj option) option) option"
  createInteger :: "('h \<Rightarrow> redisReadTask \<Rightarrow> redisReadTask option \<Rightarrow> int \<Rightarrow> ('h \<times> robj option) option) option"
  createNil :: "('h \<Rightarrow> redisReadTask \<Rightarrow> redisReadTask option \<Rightarrow> ('h \<times> robj option) option) option"
  freeObject :: "('h \<Rightarrow> robj \<Rightarrow> 'h option) option"

record 'h redisReader =
  r_err :: int
  r_errstr :: string
  r_buf :: "sds option"
  r_pos :: nat
  r_len :: nat
  r_maxbuf :: nat
  r_rstack :: "redisReadTask list"
  r_ridx :: int
  r_reply :: "robj option"
  r_fn :: "'h redisReplyObjectFunctions option"
  r_privdata :: nat
  r_store :: 'h

section \<open>Errors\<close>

definition redisReaderSetError :: "'h redisReader \<Rightarrow> int \<Rightarrow> string \<Rightarrow> 'h redisReader option" where
  "redisReaderSetError r type str =
     do {
       r1 \<leftarrow> (case (r_reply r, Option.bind (r_fn r) freeObject) of
                (Some obj, Some free) \<Rightarrow>
                  do { h \<leftarrow> free (r_store r) obj; Some (r\<lparr>r_store := h, r_reply := None\<rparr>) }
              | _ \<Rightarrow> Some r);
       Some (r1\<lparr>r_buf := None, r_pos := 0, r_len := 0, r_ridx := -1,
                r_err := type, r_errstr := take 127 (cstr str)\<rparr>)
     }"

definition hex_char :: "nat \<Rightarrow> char" where
  "hex_char d = (if d < 10 then byte_of (48 + d) else byte_of (87 + d))"

text \<open>The text \<open>chrtos\<close> prints for a byte; \<open>snprintf\<close> keeps \<open>bufsize - 1\<close> characters of it.\<close>

definition chrtos :: "nat \<Rightarrow> char \<Rightarrow> string" where
  "chrtos bufsize byte =
     take (bufsize - 1)
       (if byte = BSLASH \<or> byte = QUOT then [QUOT, BSLASH, byte, QUOT]
        else if byte = LF then [QUOT, BSLASH, CHR ''n'', QUOT]
        else if byte = CR then [QUOT, BSLASH, CHR ''r'', QUOT]
        else if byte = TAB then [QUOT, BSLASH, CHR ''t'', QUOT]
        else if byte = CHR 0x07 then [QUOT, BSLASH, CHR ''a'', QUOT]
        else if byte = CHR 0x08 then [QUOT, BSLASH, CHR ''b'', QUOT]
        else if isprint byte then [QUOT, byte, QUOT]
        else [QUOT, BSLASH, CHR ''x'', hex_char (byte_val byte div 16),
              hex_char (byte_val byte mod 16), QUOT])"

definition redisReaderSetErrorProtocolByte :: "'h redisReader \<Rightarrow> char \<Rightarrow> 'h redisReader option" where
  "redisReaderSetErrorProtocolByte r byte =
     redisReaderSetError r REDIS_ERR_PROTOCOL
       (take 127 (''Protocol error, got '' @ chrtos 8 byte @ '' as reply type byte''))"

definition redisReaderSetErrorOOM :: "'h redisReader \<Rightarrow> 'h redisReader option" where
  "redisReaderSetErrorOOM r = redisReaderSetError r REDIS_ERR_OOM ''Out of memory''"

text \<open>Set an error and return \<open>REDIS_ERR\<close>.\<close>

abbreviation fails :: "'h redisReader option \<Rightarrow> ('h redisReader \<times> status) option" where
  "fails r \<equiv> map_option (\<lambda>r'. (r', REDIS_ERR)) r"

section \<open>Scanning the buffer\<close>

text \<open>The bytes from \<open>buf + pos\<close> up to \<open>buf + len\<close>; \<open>len - pos\<close> is a \<open>size_t\<close>.\<close>

definition unread :: "'h redisReader \<Rightarrow> string option" where
  "unread r =
     (case r_buf r of None \<Rightarrow> None
      | Some s \<Rightarrow> mem_read (sds_buf s) (r_pos r) (usub 64 (r_len r) (r_pos r)))"

definition readBytes :: "'h redisReader \<Rightarrow> nat \<Rightarrow> ('h redisReader \<times> string option) option" where
  "readBytes r bytes =
     (if bytes \<le> usub 64 (r_len r) (r_pos r) then
        (case r_buf r of None \<Rightarrow> None
         | Some s \<Rightarrow> do {
             p \<leftarrow> mem_read (sds_buf s) (r_pos r) bytes;
             Some (r\<lparr>r_pos := r_pos r + bytes\<rparr>, Some p)
           })
      else Some (r, None))"

text \<open>The loop of \<open>seekNewline\<close> at position \<open>pos\<close>; \<open>n\<close> is \<open>_len - pos\<close>.\<close>

fun seek_loop :: "string \<Rightarrow> nat \<Rightarrow> nat \<Rightarrow> nat option" where
  "seek_loop s pos 0 = None"
| "seek_loop s pos (Suc n) =
     (if s ! pos \<noteq> CR then seek_loop s (pos + 1) n
      else if s ! (pos + 1) = LF then Some pos
      else seek_loop s (pos + 1) n)"

text \<open>\<open>_len\<close> is an \<open>int\<close>: a length above \<open>2 ^ 31\<close> is truncated.\<close>

definition seekNewline :: "string \<Rightarrow> nat \<Rightarrow> nat option" where
  "seekNewline s len = (let l = s32 (int len - 1) in seek_loop s 0 (nat l))"

definition ULLONG_MAX :: nat where "ULLONG_MAX = 2 ^ 64 - 1"
definition LLONG_MAX :: nat where "LLONG_MAX = 2 ^ 63 - 1"
definition INT_MAX :: int where "INT_MAX = 2 ^ 31 - 1"

text \<open>The digit loop of \<open>string2ll\<close>: the value and the bytes left, or overflow.\<close>

fun string2ll_loop :: "nat \<Rightarrow> string \<Rightarrow> (nat \<times> string) option" where
  "string2ll_loop v [] = Some (v, [])"
| "string2ll_loop v (c # p) =
     (if isdigit c then
        if v > ULLONG_MAX div 10 then None
        else if v * 10 > ULLONG_MAX - (byte_val c - 48) then None
        else string2ll_loop (v * 10 + (byte_val c - 48)) p
      else Some (v, c # p))"

definition string2ll :: "string \<Rightarrow> int option" where
  "string2ll s =
     (if s = [] then None
      else if s = ''0'' then Some 0
      else
        let negative = (hd s = CHR ''-'');
            p = (if negative then tl s else s)
        in if p = [] then None
           else if isdigit (hd p) \<and> hd p \<noteq> CHR ''0'' then
             (case string2ll_loop (byte_val (hd p) - 48) (tl p) of
                None \<Rightarrow> None
              | Some (v, rest) \<Rightarrow>
                  if rest \<noteq> [] then None
                  else if negative then
                    (if v > LLONG_MAX + 1 then None else Some (- int v))
                  else
                    (if v > LLONG_MAX then None else Some (int v)))
           else None)"

definition readLine :: "'h redisReader \<Rightarrow> ('h redisReader \<times> string option) option" where
  "readLine r =
     do {
       p \<leftarrow> unread r;
       case seekNewline p (usub 64 (r_len r) (r_pos r)) of
         None \<Rightarrow> Some (r, None)
       | Some len \<Rightarrow> Some (r\<lparr>r_pos := r_pos r + len + 2\<rparr>, Some (take len p))
     }"

section \<open>The task stack\<close>

definition task_at :: "'h redisReader \<Rightarrow> int \<Rightarrow> redisReadTask option" where
  "task_at r i = (if 0 \<le> i \<and> nat i < length (r_rstack r) then Some (r_rstack r ! nat i) else None)"

definition set_task :: "'h redisReader \<Rightarrow> int \<Rightarrow> redisReadTask \<Rightarrow> 'h redisReader" where
  "set_task r i t = r\<lparr>r_rstack := (r_rstack r)[nat i := t]\<rparr>"

definition parent_of :: "'h redisReader \<Rightarrow> redisReadTask \<Rightarrow> redisReadTask option" where
  "parent_of r t = Option.bind (t_parent t) (\<lambda>i. task_at r (int i))"

function moveToNextTask :: "'h redisReader \<Rightarrow> 'h redisReader option" where
  "moveToNextTask r =
     (if 0 \<le> r_ridx r then
        if r_ridx r = 0 then Some (r\<lparr>r_ridx := r_ridx r - 1\<rparr>)
        else do {
          cur \<leftarrow> task_at r (r_ridx r);
          prv \<leftarrow> task_at r (r_ridx r - 1);
          if t_type prv \<noteq> REDIS_REPLY_ARRAY then None
          else if t_idx cur = t_elements prv - 1 then
            moveToNextTask (r\<lparr>r_ridx := r_ridx r - 1\<rparr>)
          else if \<not> t_idx cur < t_elements prv then None
          else Some (set_task r (r_ridx r)
                 (cur\<lparr>t_type := -1, t_elements := -1, t_idx := t_idx cur + 1\<rparr>))
        }
      else Some r)"
  by pat_completeness auto
termination by (relation "measure (\<lambda>r. nat (r_ridx r))") auto

declare moveToNextTask.simps [simp del]

text \<open>A call of an object function, or the tag used when it is absent.\<close>

definition make_obj ::
  "'h redisReader \<Rightarrow> ('h redisReplyObjectFunctions \<Rightarrow> 'f option) \<Rightarrow>
   ('f \<Rightarrow> 'h \<Rightarrow> ('h \<times> robj option) option) \<Rightarrow> int \<Rightarrow> ('h redisReader \<times> robj option) option" where
  "make_obj r sel call tag =
     (case Option.bind (r_fn r) sel of
        Some f \<Rightarrow> do { (h, obj) \<leftarrow> call f (r_store r); Some (r\<lparr>r_store := h\<rparr>, obj) }
      | None \<Rightarrow> Some (r, Some (Tag tag)))"

section \<open>Items\<close>

text \<open>
  Each \<open>process\<close> function is split in two: finding the item's bytes, and what is done with
  them once they are all there (\<open>lineObject\<close>, \<open>bulkObject\<close>, \<open>multiBulkObject\<close>).
\<close>

definition lineObject :: "'h redisReader \<Rightarrow> redisReadTask \<Rightarrow> string \<Rightarrow> ('h redisReader \<times> status) option" where
  "lineObject r cur p =
     (if t_type cur = REDIS_REPLY_INTEGER \<and> Option.bind (r_fn r) createInteger \<noteq> None
         \<and> string2ll p = None
      then fails (redisReaderSetError r REDIS_ERR_PROTOCOL ''Bad integer value'')
      else do {
        (r1, obj) \<leftarrow>
          (if t_type cur = REDIS_REPLY_INTEGER then
             make_obj r createInteger
               (\<lambda>f h. f h cur (parent_of r cur) (the (string2ll p))) REDIS_REPLY_INTEGER
           else make_obj r createString (\<lambda>f h. f h cur (parent_of r cur) p) (t_type cur));
        if obj = None then fails (redisReaderSetErrorOOM r1)
        else do {
          r2 \<leftarrow> moveToNextTask (if r_ridx r1 = 0 then r1\<lparr>r_reply := obj\<rparr> else r1);
          Some (r2, REDIS_OK)
        }
      })"

definition processLineItem :: "'h redisReader \<Rightarrow> ('h redisReader \<times> status) option" where
  "processLineItem r =
     do {
       cur \<leftarrow> task_at r (r_ridx r);
       (r1, line) \<leftarrow> readLine r;
       case line of
         None \<Rightarrow> Some (r1, REDIS_ERR)
       | Some p \<Rightarrow> lineObject r1 cur p
     }"

text \<open>\<open>str\<close> is \<open>None\<close> for the nil bulk \<open>$-1\<close>.\<close>

definition bulkObject ::
  "'h redisReader \<Rightarrow> redisReadTask \<Rightarrow> string option \<Rightarrow> nat \<Rightarrow> ('h redisReader \<times> status) option" where
  "bulkObject r cur str bytelen =
     do {
       (r1, obj) \<leftarrow>
         (case str of
            None \<Rightarrow> make_obj r createNil (\<lambda>f h. f h cur (parent_of r cur)) REDIS_REPLY_NIL
          | Some bs \<Rightarrow> make_obj r createString (\<lambda>f h. f h cur (parent_of r cur) bs) REDIS_REPLY_STRING);
       if obj = None then fails (redisReaderSetErrorOOM r1)
       else do {
         let r2 = r1\<lparr>r_pos := r_pos r1 + bytelen\<rparr>;
         r3 \<leftarrow> moveToNextTask (if r_ridx r2 = 0 then r2\<lparr>r_reply := obj\<rparr> else r2);
         Some (r3, REDIS_OK)
       }
     }"

definition processBulkItem :: "'h redisReader \<Rightarrow> ('h redisReader \<times> status) option" where
  "processBulkItem r =
     do {
       cur \<leftarrow> task_at r (r_ridx r);
       p \<leftarrow> unread r;
       case seekNewline p (usub 64 (r_len r) (r_pos r)) of
         None \<Rightarrow> Some (r, REDIS_ERR)
       | Some s \<Rightarrow>
           (case string2ll (take s p) of
              None \<Rightarrow> fails (redisReaderSetError r REDIS_ERR_PROTOCOL ''Bad bulk string length'')
            | Some len \<Rightarrow>
                if len < -1 then
                  fails (redisReaderSetError r REDIS_ERR_PROTOCOL ''Bulk string length out of range'')
                else if len = -1 then bulkObject r cur None (s + 2)
                else
                  let bytelen = (s + 2 + nat len + 2) mod 2 ^ 64
                  in if (r_pos r + bytelen) mod 2 ^ 64 \<le> r_len r
                     then do {
                       str \<leftarrow> mem_read p (s + 2) (nat len);
                       bulkObject r cur (Some str) bytelen
                     }
                     else Some (r, REDIS_ERR))
     }"

text \<open>\<open>set_root\<close> is \<open>if (root) r->reply = obj;\<close>.\<close>

definition set_root :: "bool \<Rightarrow> robj option \<Rightarrow> 'h redisReader \<Rightarrow> 'h redisReader" where
  "set_root root obj r = (if root then r\<lparr>r_reply := obj\<rparr> else r)"

text \<open>The new entry of the stack, when an array has elements.\<close>

definition push_task :: "'h redisReader \<Rightarrow> redisReadTask \<Rightarrow> int \<Rightarrow> robj option \<Rightarrow> 'h redisReader option" where
  "push_task r cur elements obj =
     (let r1 = set_task r (r_ridx r) (cur\<lparr>t_elements := elements, t_obj := obj\<rparr>);
          r2 = r1\<lparr>r_ridx := r_ridx r1 + 1\<rparr>
      in do {
           _ \<leftarrow> task_at r2 (r_ridx r2);
           Some (set_task r2 (r_ridx r2)
             \<lparr>t_type = -1, t_elements = -1, t_idx = 0, t_obj = None,
               t_parent = Some (nat (r_ridx r1)), t_privdata = r_privdata r2\<rparr>)
         })"

definition multiBulkObject ::
  "'h redisReader \<Rightarrow> redisReadTask \<Rightarrow> string \<Rightarrow> ('h redisReader \<times> status) option" where
  "multiBulkObject r cur p =
     (case string2ll p of
        None \<Rightarrow> fails (redisReaderSetError r REDIS_ERR_PROTOCOL ''Bad multi-bulk length'')
      | Some elements \<Rightarrow>
          let root = (r_ridx r = 0)
          in if elements < -1 \<or> elements > INT_MAX then
               fails (redisReaderSetError r REDIS_ERR_PROTOCOL ''Multi-bulk length out of range'')
             else do {
               (r1, obj) \<leftarrow>
                 (if elements = -1 then
                    make_obj r createNil (\<lambda>f h. f h cur (parent_of r cur)) REDIS_REPLY_NIL
                  else
                    make_obj r createArray (\<lambda>f h. f h cur (parent_of r cur) elements)
                      REDIS_REPLY_ARRAY);
               if obj = None then fails (redisReaderSetErrorOOM r1)
               else do {
                 r2 \<leftarrow> (if elements > 0 then push_task r1 cur elements obj else moveToNextTask r1);
                 Some (set_root root obj r2, REDIS_OK)
               }
             })"

definition processMultiBulkItem :: "'h redisReader \<Rightarrow> ('h redisReader \<times> status) option" where
  "processMultiBulkItem r =
     do {
       cur \<leftarrow> task_at r (r_ridx r);
       if r_ridx r = 8 then
         fails (redisReaderSetError r REDIS_ERR_PROTOCOL
           ''No support for nested multi bulk replies with depth > 7'')
       else do {
         (r1, line) \<leftarrow> readLine r;
         case line of
           None \<Rightarrow> Some (r1, REDIS_ERR)
         | Some p \<Rightarrow> multiBulkObject r1 cur p
       }
     }"

text \<open>The type byte of an item, and the reply type it announces.\<close>

definition type_of_byte :: "char \<Rightarrow> int option" where
  "type_of_byte c =
     (if c = CHR ''-'' then Some REDIS_REPLY_ERROR
      else if c = CHR ''+'' then Some REDIS_REPLY_STATUS
      else if c = CHR '':'' then Some REDIS_REPLY_INTEGER
      else if c = CHR ''$'' then Some REDIS_REPLY_STRING
      else if c = CHR ''*'' then Some REDIS_REPLY_ARRAY
      else None)"

definition process_typed :: "'h redisReader \<Rightarrow> ('h redisReader \<times> status) option" where
  "process_typed r =
     do {
       cur \<leftarrow> task_at r (r_ridx r);
       if t_type cur \<in> {REDIS_REPLY_ERROR, REDIS_REPLY_STATUS, REDIS_REPLY_INTEGER}
       then processLineItem r
       else if t_type cur = REDIS_REPLY_STRING then processBulkItem r
       else if t_type cur = REDIS_REPLY_ARRAY then processMultiBulkItem r
       else None
     }"

definition processItem :: "'h redisReader \<Rightarrow> ('h redisReader \<times> status) option" where
  "processItem r =
     do {
       cur \<leftarrow> task_at r (r_ridx r);
       if t_type cur < 0 then do {
         (r1, p) \<leftarrow> readBytes r 1;
         case p of
           None \<Rightarrow> Some (r1, REDIS_ERR)
         | Some bs \<Rightarrow>
             (case type_of_byte (hd bs) of
                None \<Rightarrow> fails (redisReaderSetErrorProtocolByte r1 (hd bs))
              | Some t \<Rightarrow> process_typed (set_task r1 (r_ridx r1) (cur\<lparr>t_type := t\<rparr>)))
       }
       else process_typed r
     }"

section \<open>The interface\<close>

definition blank_task :: redisReadTask where
  "blank_task = \<lparr>t_type = 0, t_elements = 0, t_idx = 0, t_obj = None, t_parent = None, t_privdata = 0\<rparr>"

text \<open>\<open>sizeof(redisReader)\<close> on a 64-bit system, the size of the block requested by \<open>calloc\<close>.\<close>

definition sizeof_redisReader :: nat where "sizeof_redisReader = 560"

definition redisReaderCreateWithFunctions ::
  "allocator \<Rightarrow> 'h \<Rightarrow> 'h redisReplyObjectFunctions option \<Rightarrow> 'h redisReader option option" where
  "redisReaderCreateWithFunctions m h fn =
     (case m sizeof_redisReader of
        None \<Rightarrow> Some None
      | Some _ \<Rightarrow>
          sds_bind (sdsempty m) (\<lambda>s. Some (Some
            \<lparr>r_err = 0, r_errstr = [], r_buf = Some s, r_pos = 0, r_len = 0,
              r_maxbuf = REDIS_READER_MAX_BUF, r_rstack = replicate 9 blank_task, r_ridx = -1,
              r_reply = None, r_fn = fn, r_privdata = 0, r_store = h\<rparr>)))"

text \<open>What is left of the store once the reader is freed.\<close>

definition redisReaderFree :: "'h redisReader \<Rightarrow> 'h option" where
  "redisReaderFree r =
     (case (r_reply r, Option.bind (r_fn r) freeObject) of
        (Some obj, Some free) \<Rightarrow> free (r_store r) obj
      | _ \<Rightarrow> Some (r_store r))"

definition redisReaderFeed ::
  "allocator \<Rightarrow> 'h redisReader \<Rightarrow> string option \<Rightarrow> nat \<Rightarrow> ('h redisReader \<times> status) option" where
  "redisReaderFeed m r buf len =
     (if r_err r \<noteq> 0 then Some (r, REDIS_ERR)
      else
        case buf of
          None \<Rightarrow> Some (r, REDIS_OK)
        | Some bs \<Rightarrow>
            if len < 1 then Some (r, REDIS_OK)
            else do {
              r1 \<leftarrow> (case r_buf r of
                        None \<Rightarrow> None
                      | Some s \<Rightarrow>
                          if r_len r = 0 \<and> r_maxbuf r \<noteq> 0 \<and> sdsavail s > r_maxbuf r
                          then sds_deref (sdsempty m) (\<lambda>e. Some (r\<lparr>r_buf := Some e, r_pos := 0\<rparr>))
                          else Some r);
              newbuf \<leftarrow> (case r_buf r1 of None \<Rightarrow> None | Some s \<Rightarrow> sdscatlen m s bs len);
              case newbuf of
                None \<Rightarrow> fails (redisReaderSetErrorOOM r1)
              | Some s \<Rightarrow> Some (r1\<lparr>r_buf := Some s, r_len := sdslen s\<rparr>, REDIS_OK)
            })"

text \<open>
  The loop \<open>while (r->ridx >= 0) if (processItem(r) != REDIS_OK) break;\<close>.  Not ending is
  \<open>None\<close> as well, so that a theorem that the loop has a result states that it ends.
\<close>

partial_function (option) process_items :: "'h redisReader \<Rightarrow> 'h redisReader option" where
  "process_items r =
     (if r_ridx r < 0 then Some r
      else Option.bind (processItem r) (\<lambda>res.
        if snd res = REDIS_OK then process_items (fst res) else Some (fst res)))"

definition start_root :: "'h redisReader \<Rightarrow> 'h redisReader" where
  "start_root r =
     (if r_ridx r = -1 then
        (set_task r 0 \<lparr>t_type = -1, t_elements = -1, t_idx = -1, t_obj = None, t_parent = None,
                       t_privdata = r_privdata r\<rparr>)\<lparr>r_ridx := 0\<rparr>
      else r)"

text \<open>\<open>r->pos\<close> is passed to \<open>sdsrange\<close> as an \<open>int\<close>.\<close>

definition discard_consumed :: "'h redisReader \<Rightarrow> 'h redisReader option" where
  "discard_consumed r =
     (if 1024 \<le> r_pos r then
        (case r_buf r of
           None \<Rightarrow> None
         | Some s \<Rightarrow> do {
             s1 \<leftarrow> sdsrange s (s32 (int (r_pos r))) (-1);
             Some (r\<lparr>r_buf := Some s1, r_pos := 0, r_len := sdslen s1\<rparr>)
           })
      else Some r)"

definition redisReaderGetReply ::
  "'h redisReader \<Rightarrow> ('h redisReader \<times> status \<times> robj option) option" where
  "redisReaderGetReply r =
     (if r_err r \<noteq> 0 then Some (r, REDIS_ERR, None)
      else if r_len r = 0 then Some (r, REDIS_OK, None)
      else do {
        r1 \<leftarrow> process_items (start_root r);
        if r_err r1 \<noteq> 0 then Some (r1, REDIS_ERR, None)
        else do {
          r2 \<leftarrow> discard_consumed r1;
          if r_ridx r2 = -1
          then Some (r2\<lparr>r_reply := None\<rparr>, REDIS_OK, r_reply r2)
          else Some (r2, REDIS_OK, None)
        }
      })"

section \<open>Numbers and lines\<close>

lemma undec_Cons: "foldl (\<lambda>v c. 10 * v + digit_val c) v (c # p) =
  foldl (\<lambda>v c. 10 * v + digit_val c) (10 * v + digit_val c) p"
  by simp

lemma undec_from_ge: "v \<le> foldl (\<lambda>v c. 10 * v + digit_val c) v p"
proof (induction p arbitrary: v)
  case (Cons c p)
  have "v \<le> 10 * v + digit_val c" by simp
  also have "\<dots> \<le> foldl (\<lambda>v c. 10 * v + digit_val c) (10 * v + digit_val c) p" by (rule Cons.IH)
  finally show ?case by simp
qed simp

lemma string2ll_loop_digits:
  assumes "\<forall>c \<in> set p. isdigit c" and "v \<le> ULLONG_MAX"
  shows "string2ll_loop v p =
     (let w = foldl (\<lambda>v c. 10 * v + digit_val c) v p in if w \<le> ULLONG_MAX then Some (w, []) else None)"
  using assms
proof (induction p arbitrary: v)
  case (Cons c p)
  let ?v = "10 * v + digit_val c"
  have d: "digit_val c < 10" using Cons.prems by simp
  show ?case
  proof (cases "?v \<le> ULLONG_MAX")
    case True
    then have "\<not> v > ULLONG_MAX div 10" and "\<not> v * 10 > ULLONG_MAX - (byte_val c - 48)"
      by (simp_all add: ULLONG_MAX_def digit_val_def)
    moreover have "v * 10 + (byte_val c - 48) = ?v" by (simp add: digit_val_def)
    ultimately show ?thesis
      using Cons.IH [of ?v] Cons.prems True by (simp add: mult.commute)
  next
    case False
    then have "v > ULLONG_MAX div 10 \<or> v * 10 > ULLONG_MAX - (byte_val c - 48)"
      using d by (simp add: ULLONG_MAX_def digit_val_def) linarith
    moreover have "\<not> foldl (\<lambda>v c. 10 * v + digit_val c) ?v p \<le> ULLONG_MAX"
      using undec_from_ge [of ?v p] False by linarith
    ultimately show ?thesis using Cons.prems by auto
  qed
qed simp

lemma string2ll_loop_nondigit:
  "string2ll_loop v p = Some (w, rest) \<Longrightarrow> \<exists>c \<in> set p. \<not> isdigit c \<Longrightarrow> rest \<noteq> []"
  by (induction v p rule: string2ll_loop.induct) (auto split: if_splits)

lemma undec_from_hd:
  "undec (c # p) = foldl (\<lambda>v c. 10 * v + digit_val c) (byte_val c - 48) p"
  by (simp add: undec_def digit_val_def)

lemma canonical_nonzero: "canonical s \<Longrightarrow> s \<noteq> ''0'' \<Longrightarrow> isdigit (hd s) \<and> hd s \<noteq> CHR ''0''"
  by (cases s) (auto simp: canonical_def)

text \<open>The unsigned part of \<open>string2ll\<close>, on a string that does not start with 0.\<close>

lemma string2ll_unsigned:
  assumes "p \<noteq> []" and "isdigit (hd p)" and "hd p \<noteq> CHR ''0''"
  shows "(case string2ll_loop (byte_val (hd p) - 48) (tl p) of
            None \<Rightarrow> None
          | Some (v, rest) \<Rightarrow> if rest \<noteq> [] then None else f v)
       = (if canonical p \<and> undec p \<le> ULLONG_MAX then f (undec p) else None)"
proof (cases "\<forall>c \<in> set (tl p). isdigit c")
  case True
  then have "canonical p" using assms by (cases p) (auto simp: canonical_def)
  moreover have "byte_val (hd p) - 48 \<le> ULLONG_MAX"
  proof -
    have "byte_val (hd p) - 48 \<le> 9" using assms(2) unfolding isdigit_def by linarith
    then show ?thesis by (simp add: ULLONG_MAX_def)
  qed
  ultimately show ?thesis
    using string2ll_loop_digits [OF True, of "byte_val (hd p) - 48"] undec_from_hd [of "hd p" "tl p"] assms(1)
    by (simp add: Let_def)
next
  case False
  then have "\<not> canonical p" using assms by (cases p) (auto simp: canonical_def)
  then show ?thesis
    using string2ll_loop_nondigit [of "byte_val (hd p) - 48" "tl p"] False
    by (auto split: option.splits)
qed

lemma string2ll_unsigned_canonical:
  "(if p = [] then None
    else if isdigit (hd p) \<and> hd p \<noteq> CHR ''0'' then
      (case string2ll_loop (byte_val (hd p) - 48) (tl p) of
         None \<Rightarrow> None
       | Some (v, rest) \<Rightarrow> if rest \<noteq> [] then None else f v)
    else None)
   = (if canonical p \<and> p \<noteq> ''0'' \<and> undec p \<le> ULLONG_MAX then f (undec p) else None)"
proof (cases "p \<noteq> [] \<and> isdigit (hd p) \<and> hd p \<noteq> CHR ''0''")
  case True
  then have "p \<noteq> ''0''" by auto
  then show ?thesis using True string2ll_unsigned [of p f] by simp
next
  case False
  then have "\<not> (canonical p \<and> p \<noteq> ''0'')"
    using canonical_nonzero [of p] by (auto simp: canonical_def)
  then show ?thesis using False by auto
qed

lemma string2ll_cases:
  "string2ll s =
     (if s = ''0'' then Some 0
      else if s \<noteq> [] \<and> hd s = CHR ''-'' then
        (if canonical (tl s) \<and> tl s \<noteq> ''0'' \<and> undec (tl s) \<le> 2 ^ 63
         then Some (- int (undec (tl s))) else None)
      else if canonical s \<and> undec s < 2 ^ 63 then Some (int (undec s)) else None)"
proof (cases "s = [] \<or> s = ''0''")
  case True
  then show ?thesis
  proof
    assume "s = []"
    then show ?thesis by (simp add: string2ll_def canonical_def)
  next
    assume "s = ''0''"
    then show ?thesis by (simp add: string2ll_def)
  qed
next
  case s: False
  show ?thesis
  proof (cases "hd s = CHR ''-''")
    case True
    have "string2ll s = (if canonical (tl s) \<and> tl s \<noteq> ''0'' \<and> undec (tl s) \<le> ULLONG_MAX
        then (if undec (tl s) > LLONG_MAX + 1 then None else Some (- int (undec (tl s)))) else None)"
      using s True string2ll_unsigned_canonical
        [of "tl s" "\<lambda>v. if v > LLONG_MAX + 1 then None else Some (- int v)"]
      unfolding string2ll_def Let_def by (simp only: if_True if_False simp_thms de_Morgan_disj)
    then show ?thesis using s True by (simp add: ULLONG_MAX_def LLONG_MAX_def)
  next
    case False
    have "string2ll s = (if canonical s \<and> s \<noteq> ''0'' \<and> undec s \<le> ULLONG_MAX
        then (if undec s > LLONG_MAX then None else Some (int (undec s))) else None)"
      using s False string2ll_unsigned_canonical
        [of s "\<lambda>v. if v > LLONG_MAX then None else Some (int v)"]
      unfolding string2ll_def Let_def by (simp only: if_True if_False simp_thms de_Morgan_disj)
    then show ?thesis using s False by (simp add: ULLONG_MAX_def LLONG_MAX_def)
  qed
qed

lemma dec_int_neg_conv: "0 < n \<Longrightarrow> dec_int (- int n) = CHR ''-'' # dec_nat n"
  by (simp add: dec_int_def)

lemma canonical_no_minus: "canonical s \<Longrightarrow> hd s \<noteq> CHR ''-''"
  by (cases s) (auto simp: canonical_def isdigit_def)

text \<open>\<open>string2ll\<close> accepts exactly the decimal representations of 64-bit integers.\<close>

lemma string2ll_dec:
  "string2ll s = Some v \<longleftrightarrow> s = dec_int v \<and> - (2 ^ 63) \<le> v \<and> v < 2 ^ 63" (is "?L \<longleftrightarrow> ?R")
proof
  assume L: ?L
  show ?R
  proof (cases "s = ''0''")
    case True
    then show ?thesis
      using L by (simp add: string2ll_cases dec_int_def dec_nat.simps digit_char_0)
  next
    case s0: False
    show ?thesis
    proof (cases "s \<noteq> [] \<and> hd s = CHR ''-''")
      case True
      then have c: "canonical (tl s)" "tl s \<noteq> ''0''" "undec (tl s) \<le> 2 ^ 63" "v = - int (undec (tl s))"
        using L s0 by (simp_all add: string2ll_cases split: if_splits)
      have "undec (tl s) \<noteq> 0"
      proof
        assume "undec (tl s) = 0"
        then have "tl s = dec_nat 0" using dec_nat_undec [OF c(1)] by simp
        then show False using c(2) by (simp add: dec_nat.simps [of 0] digit_char_0)
      qed
      then have "dec_int v = CHR ''-'' # dec_nat (undec (tl s))"
        unfolding c(4) by (simp add: dec_int_def)
      then show ?thesis using c True dec_nat_undec [OF c(1)] by (cases s) simp_all
    next
      case False
      then have c: "canonical s" "undec s < 2 ^ 63" "v = int (undec s)"
        using L s0 by (simp_all add: string2ll_cases split: if_splits)
      then show ?thesis using dec_nat_undec [OF c(1)] by (simp add: dec_int_of_nat)
    qed
  qed
next
  assume R: ?R
  show ?L
  proof (cases "v < 0")
    case True
    then have s: "s = CHR ''-'' # dec_nat (nat (- v))" using R by (simp add: dec_int_def)
    have "dec_nat (nat (- v)) \<noteq> ''0''"
      using True dec_nat_inj [of "nat (- v)" 0] by (simp add: dec_nat.simps [of 0] digit_char_0)
    moreover have "nat (- v) \<le> nat (2 ^ 63)" using R by (intro nat_mono) simp
    then have "nat (- v) \<le> 2 ^ 63" by (simp add: nat_power_eq)
    ultimately show ?thesis
      using s True canonical_dec_nat [of "nat (- v)"] by (simp add: string2ll_cases)
  next
    case False
    then have s: "s = dec_nat (nat v)" using R by (simp add: dec_int_def)
    have c: "canonical s" using s canonical_dec_nat by simp
    then have nm: "\<not> (s \<noteq> [] \<and> hd s = CHR ''-'')" using canonical_no_minus by simp
    have u: "int (undec s) = v" using s False by simp
    moreover have "int (undec s) < int (2 ^ 63)" using u R by simp
    then have "undec s < 2 ^ 63" by (simp only: of_nat_less_iff)
    moreover have "s = ''0'' \<Longrightarrow> v = 0" using u by (auto simp add: undec_def digit_val_def)
    ultimately show ?thesis unfolding string2ll_cases [of s] if_not_P [OF nm] using c by auto
  qed
qed

lemma string2ll_dec_int: "- (2 ^ 63) \<le> v \<Longrightarrow> v < 2 ^ 63 \<Longrightarrow> string2ll (dec_int v) = Some v"
  by (simp add: string2ll_dec)

lemma seek_loop_find:
  "pos + n + 1 = length s \<Longrightarrow>
   seek_loop s pos n = map_option (\<lambda>k. pos + k) (find_sub CRLF (drop pos s))"
proof (induction s pos n rule: seek_loop.induct)
  case (1 s pos)
  then have "length (drop pos s) = 1" by simp
  then obtain c where "drop pos s = [c]" by (metis One_nat_def length_0_conv length_Suc_conv)
  then show ?case by simp
next
  case (2 s pos n)
  then have c: "drop pos s = s ! pos # s ! Suc pos # drop (Suc (Suc pos)) s"
    by (simp add: Cons_nth_drop_Suc)
  have d: "drop (Suc pos) s = s ! Suc pos # drop (Suc (Suc pos)) s"
    using 2 by (simp add: Cons_nth_drop_Suc)
  have IH: "seek_loop s (Suc pos) n = map_option (\<lambda>k. Suc pos + k) (find_sub CRLF (drop (Suc pos) s))"
    if "s ! pos \<noteq> CR \<or> s ! Suc pos \<noteq> LF"
    using 2 that by (cases "s ! pos = CR") auto
  show ?case
  proof (cases "s ! pos = CR \<and> s ! Suc pos = LF")
    case True
    then show ?thesis by (simp add: c)
  next
    case False
    then have "seek_loop s pos (Suc n) = seek_loop s (Suc pos) n" by auto
    also have "\<dots> = map_option (\<lambda>k. pos + k) (find_sub CRLF (drop pos s))"
      using False IH by (auto simp: c d option.map_comp comp_def)
    finally show ?thesis .
  qed
qed

text \<open>Up to the range of \<open>int\<close>, \<open>seekNewline\<close> finds the first CR LF.\<close>

lemma seekNewline_find:
  assumes "length s < 2 ^ 31"
  shows "seekNewline s (length s) = find_sub CRLF s"
proof (cases s)
  case Nil
  then show ?thesis by (simp add: seekNewline_def s32_id)
next
  case (Cons c cs)
  then have "s32 (int (length s) - 1) = int (length cs)"
    using assms by (simp add: s32_id)
  then show ?thesis
    using seek_loop_find [of 0 "length cs" s] Cons by (simp add: seekNewline_def option.map_ident)
qed

lemma find_sub_append: "find_sub pat s = Some k \<Longrightarrow> find_sub pat (s @ x) = Some k"
proof (induction s arbitrary: k)
  case Nil
  then have "pat = []" by (simp split: if_splits)
  then show ?case using Nil by (cases x) (auto split: if_splits)
next
  case (Cons c s)
  show ?case
  proof (cases "take (length pat) (c # s) = pat")
    case True
    then have "length pat \<le> length (c # s)" by (metis length_take min.cobounded1 nat_le_linear min_def)
    then have "take (length pat) (c # s @ x) = pat" using True
      by (metis append_Cons take_append append_Nil2 diff_is_0_eq take0)
    then show ?thesis using Cons.prems True by simp
  next
    case False
    then obtain j where j: "find_sub pat s = Some j" "k = Suc j" using Cons.prems by auto
    have "take (length pat) (c # s @ x) \<noteq> pat"
    proof
      assume *: "take (length pat) (c # s @ x) = pat"
      have "length pat \<le> length s" using find_sub_Some [OF j(1)] by simp
      then have "take (length pat) (c # s @ x) = take (length pat) (c # s)"
        by (metis append_Cons take_append append_Nil2 diff_is_0_eq take0 length_Cons le_SucI)
      with * False show False by simp
    qed
    then show ?thesis using Cons.IH [OF j(1)] j by simp
  qed
qed

lemma find_CRLF_line: "CR \<notin> set line \<Longrightarrow> find_sub CRLF (line @ CR # LF # rest) = Some (length line)"
  by (induction line) auto

section \<open>What the scanner promises\<close>

text \<open>C28. \<open>string2ll\<close> accepts a string exactly when it is the decimal representation of a 64-bit
  integer, and then returns that integer: no leading zeros, no "-0", no overflow, no rest.\<close>

theorem string2ll_exact:
  "string2ll s = Some v \<longleftrightarrow> s = dec_int v \<and> - (2 ^ 63) \<le> v \<and> v < 2 ^ 63"
  by (rule string2ll_dec)

text \<open>On less than 2 GiB, \<open>seekNewline\<close> finds the first CR LF, and only that.\<close>

theorem seekNewline_first:
  assumes "length s < 2 ^ 31"
  shows "seekNewline s (length s) = find_sub CRLF s"
  by (rule seekNewline_find [OF assms])

theorem seekNewline_first_witness: "seekNewline (''a'' @ [CR] @ ''b'' @ CRLF) 5 = Some 3"
proof -
  have "length (''a'' @ [CR] @ ''b'' @ CRLF) = 5" "find_sub CRLF (''a'' @ [CR] @ ''b'' @ CRLF) = Some 3"
    by code_simp+
  moreover have "length (''a'' @ [CR] @ ''b'' @ CRLF) < 2 ^ 31" by simp
  ultimately show ?thesis using seekNewline_first [of "''a'' @ [CR] @ ''b'' @ CRLF"] by metis
qed

end
