(* ===== verification/Reader_Spec.thy ===== *)
theory Reader_Spec
  imports Reader
begin

text \<open>
  The contract of the protocol reader.

  \<open>reader_ok\<close> is the invariant of its buffer: as long as no error is set there is a
  well-formed buffer, \<open>pos\<close> lies in it and \<open>len\<close> is its length; after an error the buffer
  is gone.  The abstract machine \<open>item\<close> works on the list of bytes not yet consumed; the
  reader's \<open>processItem\<close> refines it, which takes offsets, lengths and word sizes out of
  every later proof.
\<close>

section \<open>The buffer and the rest of the state\<close>

definition with_buf :: "sds option \<Rightarrow> nat \<Rightarrow> nat \<Rightarrow> 'h redisReader \<Rightarrow> 'h redisReader" where
  "with_buf b p l r = r\<lparr>r_buf := b, r_pos := p, r_len := l\<rparr>"

abbreviation core :: "'h redisReader \<Rightarrow> 'h redisReader" where
  "core r \<equiv> with_buf None 0 0 r"

definition live_buf :: "'h redisReader \<Rightarrow> bool" where
  "live_buf r \<longleftrightarrow>
     (case r_buf r of None \<Rightarrow> False
      | Some s \<Rightarrow> sds_wf s \<and> r_len r = sdslen s \<and> sdslen s < 2 ^ 31 \<and> r_pos r \<le> r_len r)"

definition dead_buf :: "'h redisReader \<Rightarrow> bool" where
  "dead_buf r \<longleftrightarrow> r_buf r = None \<and> r_pos r = 0 \<and> r_len r = 0"

definition reader_ok :: "'h redisReader \<Rightarrow> bool" where
  "reader_ok r \<longleftrightarrow> (if r_err r = 0 then live_buf r else dead_buf r \<and> r_ridx r = -1)"

text \<open>The bytes the reader has not consumed.\<close>

definition pending :: "'h redisReader \<Rightarrow> string" where
  "pending r = (case r_buf r of None \<Rightarrow> [] | Some s \<Rightarrow> drop (r_pos r) (content s))"

lemma with_buf_simps [simp]:
  "r_err (with_buf b p l r) = r_err r" "r_errstr (with_buf b p l r) = r_errstr r"
  "r_buf (with_buf b p l r) = b" "r_pos (with_buf b p l r) = p" "r_len (with_buf b p l r) = l"
  "r_maxbuf (with_buf b p l r) = r_maxbuf r" "r_rstack (with_buf b p l r) = r_rstack r"
  "r_ridx (with_buf b p l r) = r_ridx r" "r_reply (with_buf b p l r) = r_reply r"
  "r_fn (with_buf b p l r) = r_fn r" "r_privdata (with_buf b p l r) = r_privdata r"
  "r_store (with_buf b p l r) = r_store r"
  "with_buf b p l (with_buf b' p' l' r) = with_buf b p l r"
  by (simp_all add: with_buf_def)

lemma with_buf_update:
  "with_buf b p l r\<lparr>r_err := e\<rparr> = with_buf b p l (r\<lparr>r_err := e\<rparr>)"
  "with_buf b p l r\<lparr>r_errstr := es\<rparr> = with_buf b p l (r\<lparr>r_errstr := es\<rparr>)"
  "with_buf b p l r\<lparr>r_buf := b'\<rparr> = with_buf b' p l r"
  "with_buf b p l r\<lparr>r_pos := p'\<rparr> = with_buf b p' l r"
  "with_buf b p l r\<lparr>r_len := l'\<rparr> = with_buf b p l' r"
  "with_buf b p l r\<lparr>r_rstack := st\<rparr> = with_buf b p l (r\<lparr>r_rstack := st\<rparr>)"
  "with_buf b p l r\<lparr>r_ridx := i\<rparr> = with_buf b p l (r\<lparr>r_ridx := i\<rparr>)"
  "with_buf b p l r\<lparr>r_reply := rp\<rparr> = with_buf b p l (r\<lparr>r_reply := rp\<rparr>)"
  "with_buf b p l r\<lparr>r_store := h\<rparr> = with_buf b p l (r\<lparr>r_store := h\<rparr>)"
  by (simp_all add: with_buf_def)

lemma with_buf_id: "with_buf (r_buf r) (r_pos r) (r_len r) r = r"
  by (simp add: with_buf_def)

lemma with_buf_core: "r = with_buf (r_buf r) (r_pos r) (r_len r) (core r)"
  by (simp add: with_buf_def)

lemma core_update_pos [simp]: "core (r\<lparr>r_pos := p\<rparr>) = core r"
  by (simp add: with_buf_def)

lemma task_at_with_buf [simp]: "task_at (with_buf b p l r) i = task_at r i"
  by (simp add: task_at_def)

lemma set_task_with_buf [simp]: "set_task (with_buf b p l r) i t = with_buf b p l (set_task r i t)"
  by (simp add: set_task_def with_buf_update)

lemma parent_of_with_buf [simp]: "parent_of (with_buf b p l r) t = parent_of r t"
  by (simp add: parent_of_def)

lemma set_root_with_buf [simp]: "set_root c obj (with_buf b p l r) = with_buf b p l (set_root c obj r)"
  by (simp add: set_root_def with_buf_update)

lemma set_task_simps [simp]:
  "r_err (set_task r i t) = r_err r" "r_ridx (set_task r i t) = r_ridx r"
  "r_fn (set_task r i t) = r_fn r" "r_store (set_task r i t) = r_store r"
  "r_reply (set_task r i t) = r_reply r" "r_buf (set_task r i t) = r_buf r"
  "r_pos (set_task r i t) = r_pos r" "r_len (set_task r i t) = r_len r"
  "r_privdata (set_task r i t) = r_privdata r" "r_maxbuf (set_task r i t) = r_maxbuf r"
  "r_rstack (set_task r i t) = (r_rstack r)[nat i := t]"
  by (simp_all add: set_task_def)

lemma redisReaderSetError_with_buf [simp]:
  "redisReaderSetError (with_buf b p l r) t str = redisReaderSetError r t str"
  by (simp add: redisReaderSetError_def with_buf_update with_buf_def split: option.splits)

lemma redisReaderSetErrorOOM_with_buf [simp]:
  "redisReaderSetErrorOOM (with_buf b p l r) = redisReaderSetErrorOOM r"
  by (simp add: redisReaderSetErrorOOM_def)

lemma redisReaderSetErrorProtocolByte_with_buf [simp]:
  "redisReaderSetErrorProtocolByte (with_buf b p l r) c = redisReaderSetErrorProtocolByte r c"
  by (simp add: redisReaderSetErrorProtocolByte_def)

lemma redisReaderSetError_dead:
  "redisReaderSetError r t str = Some r' \<Longrightarrow> dead_buf r' \<and> r_err r' = t \<and> r_ridx r' = -1
     \<and> r_errstr r' = take 127 (cstr str)"
  by (auto simp: redisReaderSetError_def dead_buf_def split: option.splits bind_splits)

lemma moveToNextTask_with_buf:
  "moveToNextTask (with_buf b p l r) = map_option (with_buf b p l) (moveToNextTask r)"
proof (induction r rule: moveToNextTask.induct)
  case (1 r)
  show ?case
    by (subst (1 2) moveToNextTask.simps)
      (use 1 in \<open>auto simp: with_buf_update Option.bind_map_option split: bind_splits\<close>)
qed

lemma moveToNextTask_keeps:
  "moveToNextTask r = Some r' \<Longrightarrow>
   r_err r' = r_err r \<and> r_buf r' = r_buf r \<and> r_pos r' = r_pos r \<and> r_len r' = r_len r \<and>
   r_maxbuf r' = r_maxbuf r \<and> r_reply r' = r_reply r \<and> r_fn r' = r_fn r \<and> r_store r' = r_store r"
proof (induction r rule: moveToNextTask.induct)
  case (1 r)
  then show ?case
    by (fastforce simp: moveToNextTask.simps [of r] split: if_splits bind_splits)
qed

lemma make_obj_with_buf:
  "make_obj (with_buf b p l r) sel call tag =
   map_option (\<lambda>(r', obj). (with_buf b p l r', obj)) (make_obj r sel call tag)"
  by (auto simp: make_obj_def with_buf_update split: option.splits bind_splits)

lemma make_obj_keeps:
  "make_obj r sel call tag = Some (r', obj) \<Longrightarrow> \<exists>h. r' = r\<lparr>r_store := h\<rparr>"
  by (cases r) (auto simp: make_obj_def split: option.splits bind_splits)

section \<open>What becomes of an item once its bytes are there\<close>

text \<open>
  \<open>rebuf\<close> puts the buffer back after a successful step; a failed one has none.  The
  object functions, the stack and the errors do not look at the buffer.
\<close>

definition rebuf :: "sds option \<Rightarrow> nat \<Rightarrow> nat \<Rightarrow> 'h redisReader \<times> status \<Rightarrow> 'h redisReader \<times> status" where
  "rebuf b p l = (\<lambda>(r, st). (if st = REDIS_OK then with_buf b p l r else r, st))"

lemma rebuf_simps [simp]:
  "rebuf b p l (r, REDIS_OK) = (with_buf b p l r, REDIS_OK)"
  "rebuf b p l (r, REDIS_ERR) = (r, REDIS_ERR)"
  by (simp_all add: rebuf_def)

lemma map_rebuf_fails [simp]: "map_option (rebuf b p l) (fails r) = fails r"
  by (simp add: option.map_comp comp_def)

lemma map_rebuf_ok:
  "map_option (rebuf b p l) (Option.bind x (\<lambda>r. Some (f r, REDIS_OK))) =
   Option.bind x (\<lambda>r. Some (with_buf b p l (f r), REDIS_OK))"
  by (cases x) simp_all

text \<open>The common end: set the reply at the root and go to the next task.\<close>

definition finish_item :: "'h redisReader \<Rightarrow> robj option \<Rightarrow> ('h redisReader \<times> status) option" where
  "finish_item r obj =
     (if obj = None then fails (redisReaderSetErrorOOM r)
      else do {
        r2 \<leftarrow> moveToNextTask (if r_ridx r = 0 then r\<lparr>r_reply := obj\<rparr> else r);
        Some (r2, REDIS_OK)
      })"

lemma finish_item_with_buf:
  "finish_item (with_buf b p l r) obj = map_option (rebuf b p l) (finish_item r obj)"
  by (cases "moveToNextTask (if r_ridx r = 0 then r\<lparr>r_reply := obj\<rparr> else r)")
    (simp_all add: finish_item_def with_buf_update moveToNextTask_with_buf
      if_distrib [of "\<lambda>x. moveToNextTask x"] split: if_splits)

lemma make_obj_bind_with_buf:
  assumes "\<And>r' obj. f (with_buf b p l r', obj) = map_option g (f' (r', obj))"
  shows "Option.bind (make_obj (with_buf b p l r) sel call tag) f =
         map_option g (Option.bind (make_obj r sel call tag) f')"
  using assms by (cases "make_obj r sel call tag") (auto simp: make_obj_with_buf)

lemma lineObject_finish:
  "lineObject r cur p =
     (if t_type cur = REDIS_REPLY_INTEGER \<and> Option.bind (r_fn r) createInteger \<noteq> None
         \<and> string2ll p = None
      then fails (redisReaderSetError r REDIS_ERR_PROTOCOL ''Bad integer value'')
      else if t_type cur = REDIS_REPLY_INTEGER then
        Option.bind (make_obj r createInteger
          (\<lambda>f h. f h cur (parent_of r cur) (the (string2ll p))) REDIS_REPLY_INTEGER)
          (\<lambda>(r1, obj). finish_item r1 obj)
      else Option.bind (make_obj r createString (\<lambda>f h. f h cur (parent_of r cur) p) (t_type cur))
          (\<lambda>(r1, obj). finish_item r1 obj))"
  by (simp add: lineObject_def finish_item_def [abs_def])

lemma bulkObject_finish:
  "bulkObject r cur str n =
     (case str of
        None \<Rightarrow> Option.bind (make_obj r createNil (\<lambda>f h. f h cur (parent_of r cur)) REDIS_REPLY_NIL)
                 (\<lambda>(r1, obj). finish_item (r1\<lparr>r_pos := r_pos r1 + n\<rparr>) obj)
      | Some bs \<Rightarrow> Option.bind
                 (make_obj r createString (\<lambda>f h. f h cur (parent_of r cur) bs) REDIS_REPLY_STRING)
                 (\<lambda>(r1, obj). finish_item (r1\<lparr>r_pos := r_pos r1 + n\<rparr>) obj))"
proof -
  have "redisReaderSetErrorOOM (r1\<lparr>r_pos := k\<rparr>) = redisReaderSetErrorOOM r1" for r1 :: "'a redisReader" and k
    by (metis redisReaderSetErrorOOM_with_buf with_buf_core core_update_pos)
  then have "(if obj = None then fails (redisReaderSetErrorOOM r1)
       else do { let r2 = r1\<lparr>r_pos := r_pos r1 + n\<rparr>;
                 r3 \<leftarrow> moveToNextTask (if r_ridx r2 = 0 then r2\<lparr>r_reply := obj\<rparr> else r2);
                 Some (r3, REDIS_OK) }) = finish_item (r1\<lparr>r_pos := r_pos r1 + n\<rparr>) obj"
    for r1 :: "'a redisReader" and obj
    by (simp add: finish_item_def Let_def)
  then show ?thesis
    unfolding bulkObject_def by (simp split: option.split)
qed

lemma lineObject_with_buf:
  "lineObject (with_buf b p l r) cur str = map_option (rebuf b p l) (lineObject r cur str)"
  by (simp add: lineObject_finish make_obj_bind_with_buf finish_item_with_buf)

lemma bulkObject_with_buf:
  "bulkObject (with_buf b p l r) cur str n = map_option (rebuf b (p + n) l) (bulkObject r cur str 0)"
proof -
  have "finish_item (with_buf b p l r'\<lparr>r_pos := r_pos (with_buf b p l r') + n\<rparr>) obj =
      map_option (rebuf b (p + n) l) (finish_item (r'\<lparr>r_pos := r_pos r' + 0\<rparr>) obj)" for r' obj
    by (simp add: with_buf_update finish_item_with_buf)
  then show ?thesis
    by (cases str) (auto simp: bulkObject_finish intro!: make_obj_bind_with_buf)
qed

lemma push_task_with_buf:
  "push_task (with_buf b p l r) cur n obj = map_option (with_buf b p l) (push_task r cur n obj)"
  by (auto simp: push_task_def Let_def with_buf_update split: bind_splits)

lemma multiBulkObject_with_buf:
  "multiBulkObject (with_buf b p l r) cur str = map_option (rebuf b p l) (multiBulkObject r cur str)"
proof -
  have tail: "(if obj = None then fails (redisReaderSetErrorOOM (with_buf b p l r1))
      else do { r2 \<leftarrow> (if c then push_task (with_buf b p l r1) cur n obj
                       else moveToNextTask (with_buf b p l r1));
                Some (set_root root obj r2, REDIS_OK) })
    = map_option (rebuf b p l) (if obj = None then fails (redisReaderSetErrorOOM r1)
      else do { r2 \<leftarrow> (if c then push_task r1 cur n obj else moveToNextTask r1);
                Some (set_root root obj r2, REDIS_OK) })" for r1 obj c n root
    by (cases "if c then push_task r1 cur n obj else moveToNextTask r1")
      (auto simp: push_task_with_buf moveToNextTask_with_buf split: if_splits)
  show ?thesis
    by (auto simp: multiBulkObject_def Let_def tail make_obj_bind_with_buf [where g = "rebuf b p l"]
        split: option.split)
qed

text \<open>The two outcomes: success leaves error and buffer alone, failure sets an error.\<close>

definition obj_out :: "'h redisReader \<Rightarrow> ('h redisReader \<times> status) option \<Rightarrow> bool" where
  "obj_out r res \<longleftrightarrow>
     (\<forall>r' st. res = Some (r', st) \<longrightarrow>
        (if st = REDIS_OK then r_err r' = r_err r
         else dead_buf r' \<and> r_err r' \<noteq> 0 \<and> r_ridx r' = -1))"

lemma fails_out: "t \<noteq> 0 \<Longrightarrow> obj_out r (fails (redisReaderSetError r0 t str))"
  by (auto simp: obj_out_def dest: redisReaderSetError_dead)

lemma fails_OOM_out: "obj_out r (fails (redisReaderSetErrorOOM r0))"
  by (simp add: redisReaderSetErrorOOM_def fails_out REDIS_ERR_OOM_def)

lemma push_task_keeps:
  "push_task r cur n obj = Some r' \<Longrightarrow>
   r_err r' = r_err r \<and> r_buf r' = r_buf r \<and> r_pos r' = r_pos r \<and> r_len r' = r_len r \<and>
   r_fn r' = r_fn r \<and> r_store r' = r_store r \<and> r_reply r' = r_reply r"
  by (auto simp: push_task_def Let_def split: bind_splits)

lemma obj_out_bind:
  "(\<And>x. m = Some x \<Longrightarrow> obj_out r (f x)) \<Longrightarrow> obj_out r (Option.bind m f)"
  by (cases m) (auto simp: obj_out_def)

lemma obj_out_OK: "r_err r' = r_err r \<Longrightarrow> obj_out r (Some (r', REDIS_OK))"
  by (simp add: obj_out_def)

lemma obj_out_None: "obj_out r None"
  by (simp add: obj_out_def)

lemma lineObject_out: "obj_out r (lineObject r cur p)"
  unfolding lineObject_def
  by (auto intro!: fails_out fails_OOM_out obj_out_bind obj_out_OK simp: REDIS_ERR_PROTOCOL_def
      dest!: make_obj_keeps moveToNextTask_keeps split: if_splits)

lemma bulkObject_out: "obj_out r (bulkObject r cur str n)"
  unfolding bulkObject_def
  by (auto intro!: fails_OOM_out obj_out_bind obj_out_OK simp: Let_def
      dest!: make_obj_keeps moveToNextTask_keeps split: if_splits option.splits)

lemma multiBulkObject_out: "obj_out r (multiBulkObject r cur p)"
  unfolding multiBulkObject_def
  by (auto intro!: fails_out fails_OOM_out obj_out_bind obj_out_OK
      simp: Let_def REDIS_ERR_PROTOCOL_def set_root_def
      dest!: make_obj_keeps moveToNextTask_keeps push_task_keeps split: if_splits option.splits)

section \<open>The abstract machine\<close>

text \<open>
  A state is the reader without its buffer and the list of bytes not consumed yet.  The
  status \<open>REDIS_ERR\<close> without an error set means that more bytes are needed.
\<close>

type_synonym 'h outcome = "'h redisReader \<times> status \<times> string"

text \<open>The outcome of an object step: the bytes after the item, or none after an error.\<close>

definition after :: "string \<Rightarrow> ('h redisReader \<times> status) option \<Rightarrow> 'h outcome option" where
  "after rest = map_option (\<lambda>(c, st). (c, st, if st = REDIS_OK then rest else []))"

definition line_item :: "'h redisReader \<Rightarrow> redisReadTask \<Rightarrow> string \<Rightarrow> 'h outcome option" where
  "line_item c cur bs =
     (case find_sub CRLF bs of
        None \<Rightarrow> Some (c, REDIS_ERR, bs)
      | Some k \<Rightarrow> after (drop (k + 2) bs) (lineObject c cur (take k bs)))"

definition bulk_item :: "'h redisReader \<Rightarrow> redisReadTask \<Rightarrow> string \<Rightarrow> 'h outcome option" where
  "bulk_item c cur bs =
     (case find_sub CRLF bs of
        None \<Rightarrow> Some (c, REDIS_ERR, bs)
      | Some k \<Rightarrow>
          (case string2ll (take k bs) of
             None \<Rightarrow> after [] (fails (redisReaderSetError c REDIS_ERR_PROTOCOL ''Bad bulk string length''))
           | Some len \<Rightarrow>
               if len < -1 then
                 after [] (fails (redisReaderSetError c REDIS_ERR_PROTOCOL
                   ''Bulk string length out of range''))
               else if len = -1 then after (drop (k + 2) bs) (bulkObject c cur None 0)
               else if k + nat len + 4 \<le> length bs then
                 after (drop (k + nat len + 4) bs)
                   (bulkObject c cur (Some (take (nat len) (drop (k + 2) bs))) 0)
               else Some (c, REDIS_ERR, bs)))"

definition multi_bulk_item :: "'h redisReader \<Rightarrow> redisReadTask \<Rightarrow> string \<Rightarrow> 'h outcome option" where
  "multi_bulk_item c cur bs =
     (if r_ridx c = 8 then
        after [] (fails (redisReaderSetError c REDIS_ERR_PROTOCOL
          ''No support for nested multi bulk replies with depth > 7''))
      else
        case find_sub CRLF bs of
          None \<Rightarrow> Some (c, REDIS_ERR, bs)
        | Some k \<Rightarrow> after (drop (k + 2) bs) (multiBulkObject c cur (take k bs)))"

definition typed_item :: "'h redisReader \<Rightarrow> redisReadTask \<Rightarrow> string \<Rightarrow> 'h outcome option" where
  "typed_item c cur bs =
     (if t_type cur \<in> {REDIS_REPLY_ERROR, REDIS_REPLY_STATUS, REDIS_REPLY_INTEGER}
      then line_item c cur bs
      else if t_type cur = REDIS_REPLY_STRING then bulk_item c cur bs
      else if t_type cur = REDIS_REPLY_ARRAY then multi_bulk_item c cur bs
      else None)"

definition item :: "'h redisReader \<Rightarrow> string \<Rightarrow> 'h outcome option" where
  "item c bs =
     do {
       cur \<leftarrow> task_at c (r_ridx c);
       if t_type cur < 0 then
         (case bs of
            [] \<Rightarrow> Some (c, REDIS_ERR, [])
          | b # bs' \<Rightarrow>
              (case type_of_byte b of
                 None \<Rightarrow> after [] (fails (redisReaderSetErrorProtocolByte c b))
               | Some t \<Rightarrow>
                   typed_item (set_task c (r_ridx c) (cur\<lparr>t_type := t\<rparr>)) (cur\<lparr>t_type := t\<rparr>) bs'))
       else typed_item c cur bs
     }"

lemma after_OK: "after rest res = Some (c, REDIS_OK, bs) \<longleftrightarrow> res = Some (c, REDIS_OK) \<and> bs = rest"
  by (cases res) (auto simp: after_def)

lemma after_ERR: "after rest res = Some (c, REDIS_ERR, bs) \<longleftrightarrow> res = Some (c, REDIS_ERR) \<and> bs = []"
  by (cases res) (auto simp: after_def)

lemma typed_item_consumes:
  "typed_item c cur bs = Some (c', REDIS_OK, bs') \<Longrightarrow> length bs' < length bs"
  by (auto simp: typed_item_def line_item_def bulk_item_def multi_bulk_item_def after_OK
      dest!: find_sub_Some split: if_splits option.splits)

lemma item_consumes: "item c bs = Some (c', REDIS_OK, bs') \<Longrightarrow> length bs' < length bs"
  by (auto simp: item_def after_OK dest!: typed_item_consumes
      split: if_splits bind_splits list.splits option.splits)

text \<open>The loop of \<open>redisReaderGetReply\<close>, until the stack is empty or an item is not complete.\<close>

function items :: "'h redisReader \<Rightarrow> string \<Rightarrow> 'h outcome option" where
  "items c bs =
     (if r_ridx c < 0 then Some (c, REDIS_OK, bs)
      else Option.bind (item c bs) (\<lambda>(c', st, bs').
        if st = REDIS_OK then items c' bs' else Some (c', st, bs')))"
  by pat_completeness auto
termination
  by (relation "measure (\<lambda>(c, bs). length bs)") (auto dest: item_consumes)

declare items.simps [simp del]

section \<open>Refinement\<close>

text \<open>The abstract state of a reader.\<close>

definition view :: "'h redisReader \<times> status \<Rightarrow> 'h outcome" where
  "view = (\<lambda>(r, st). (core r, st, pending r))"

lemma pending_live: "live_buf r \<Longrightarrow> length (pending r) = r_len r - r_pos r"
  by (auto simp: live_buf_def pending_def split: option.splits)

lemma live_usub: "live_buf r \<Longrightarrow> usub 64 (r_len r) (r_pos r) = length (pending r)"
  by (subst usub_le) (auto simp: pending_live, auto simp: live_buf_def split: option.splits)

lemma unread_live:
  assumes "live_buf r"
  shows "unread r = Some (pending r)"
proof -
  obtain s where s: "r_buf r = Some s" "sds_wf s" "r_len r = sdslen s" "r_pos r \<le> r_len r"
    using assms by (auto simp: live_buf_def split: option.splits)
  then show ?thesis
    using sds_wf_lenD [OF s(2)] live_usub [OF assms] pending_live [OF assms]
    by (simp add: unread_def mem_read_def pending_def content_def drop_take)
qed

lemma pending_small: "live_buf r \<Longrightarrow> length (pending r) < 2 ^ 31"
  by (auto simp: live_buf_def pending_def split: option.splits)

text \<open>Consuming bytes keeps the buffer live and drops them from what is pending.\<close>

lemma live_advance:
  assumes "live_buf r" and "n \<le> length (pending r)"
  shows "live_buf (r\<lparr>r_pos := r_pos r + n\<rparr>)"
    and "pending (r\<lparr>r_pos := r_pos r + n\<rparr>) = drop n (pending r)"
  using assms by (auto simp: live_buf_def pending_def add.commute split: option.splits)

lemma live_with_buf: "live_buf (with_buf (r_buf r) (r_pos r) (r_len r) r') \<longleftrightarrow> live_buf r"
  by (simp add: live_buf_def cong: option.case_cong)

lemma pending_with_buf: "pending (with_buf (r_buf r) (r_pos r) (r_len r) r') = pending r"
  by (simp add: pending_def cong: option.case_cong)

lemma live_set_task [simp]: "live_buf (set_task r i t) = live_buf r"
  by (simp add: live_buf_def cong: option.case_cong)

lemma pending_set_task [simp]: "pending (set_task r i t) = pending r"
  by (simp add: pending_def cong: option.case_cong)

text \<open>An object step, seen through \<open>view\<close>.\<close>

lemma pending_dead: "dead_buf r \<Longrightarrow> pending r = [] \<and> core r = r"
  by (auto simp: dead_buf_def pending_def with_buf_def)

lemma view_object:
  assumes out: "\<And>c. obj_out c (F c)"
    and buf: "\<And>b p l c. F (with_buf b p l c) = map_option (rebuf b p l) (F c)"
  shows "map_option view (F r) = after (pending r) (F (core r))"
proof -
  have F: "F r = map_option (rebuf (r_buf r) (r_pos r) (r_len r)) (F r)"
    by (subst (1) with_buf_id [symmetric]) (rule buf)
  show ?thesis
  proof (cases "F r")
    case None
    then show ?thesis by (simp add: buf after_def)
  next
    case (Some x)
    obtain r' st where x: "x = (r', st)" by force
    show ?thesis
    proof (cases st)
      case REDIS_OK
      then have "r' = with_buf (r_buf r) (r_pos r) (r_len r) r'" using F Some x by simp
      then have "pending r' = pending r" by (metis pending_with_buf)
      then show ?thesis using Some x REDIS_OK by (simp add: buf after_def view_def)
    next
      case REDIS_ERR
      then have "dead_buf r'" using out [of r] Some x by (simp add: obj_out_def)
      then show ?thesis
        using Some x REDIS_ERR pending_dead [of r'] by (simp add: buf after_def view_def)
    qed
  qed
qed

lemma view_fails:
  assumes "\<And>r'. E = Some r' \<Longrightarrow> dead_buf r'"
  shows "map_option view (fails E) = after rest (fails E)"
  using assms pending_dead by (cases E) (auto simp: view_def after_def)

lemma view_lineObject:
  "map_option view (lineObject r cur p) = after (pending r) (lineObject (core r) cur p)"
  by (rule view_object [where F = "\<lambda>c. lineObject c cur p", OF lineObject_out lineObject_with_buf])

lemma view_multiBulkObject:
  "map_option view (multiBulkObject r cur p) = after (pending r) (multiBulkObject (core r) cur p)"
  by (rule view_object [where F = "\<lambda>c. multiBulkObject c cur p",
        OF multiBulkObject_out multiBulkObject_with_buf])

lemma bulkObject_0_with_buf:
  "bulkObject (with_buf b p l r) cur str 0 = map_option (rebuf b p l) (bulkObject r cur str 0)"
  using bulkObject_with_buf [of b p l r cur str 0] by simp

lemma bulkObject_advance:
  "bulkObject r cur str n = bulkObject (r\<lparr>r_pos := r_pos r + n\<rparr>) cur str 0"
proof -
  have "bulkObject r cur str n = bulkObject (with_buf (r_buf r) (r_pos r) (r_len r) r) cur str n"
    by (simp add: with_buf_id)
  also have "\<dots> = bulkObject (with_buf (r_buf r) (r_pos r + n) (r_len r) r) cur str 0"
    by (simp only: bulkObject_with_buf Nat.add_0_right)
  also have "with_buf (r_buf r) (r_pos r + n) (r_len r) r = r\<lparr>r_pos := r_pos r + n\<rparr>"
    by (simp add: with_buf_def)
  finally show ?thesis .
qed

lemma view_bulkObject:
  "map_option view (bulkObject r cur str n) =
   after (pending (r\<lparr>r_pos := r_pos r + n\<rparr>)) (bulkObject (core r) cur str 0)"
  using view_object [where F = "\<lambda>c. bulkObject c cur str 0" and r = "r\<lparr>r_pos := r_pos r + n\<rparr>",
      OF bulkObject_out bulkObject_0_with_buf]
  by (simp add: bulkObject_advance [of r cur str n])

lemma readLine_live:
  assumes "live_buf r"
  shows "readLine r =
     (case find_sub CRLF (pending r) of
        None \<Rightarrow> Some (r, None)
      | Some k \<Rightarrow> Some (r\<lparr>r_pos := r_pos r + (k + 2)\<rparr>, Some (take k (pending r))))"
  using seekNewline_find [OF pending_small [OF assms]]
  by (simp add: readLine_def unread_live [OF assms] live_usub [OF assms] split: option.split)

lemma find_CRLF_length: "find_sub CRLF bs = Some k \<Longrightarrow> k + 2 \<le> length bs"
  using find_sub_Some [of CRLF bs k] by simp

lemma view_REDIS_ERR: "view (r, REDIS_ERR) = (core r, REDIS_ERR, pending r)"
  by (simp add: view_def)

lemma processLineItem_view:
  assumes "live_buf r" and "task_at r (r_ridx r) = Some cur"
  shows "map_option view (processLineItem r) = line_item (core r) cur (pending r)"
proof (cases "find_sub CRLF (pending r)")
  case None
  then show ?thesis
    using assms by (simp add: processLineItem_def readLine_live line_item_def view_REDIS_ERR)
next
  case (Some k)
  then show ?thesis
    using assms live_advance(2) [OF assms(1) find_CRLF_length [OF Some]]
    by (simp add: processLineItem_def readLine_live line_item_def view_lineObject)
qed

lemma processMultiBulkItem_view:
  assumes "live_buf r" and "task_at r (r_ridx r) = Some cur"
  shows "map_option view (processMultiBulkItem r) = multi_bulk_item (core r) cur (pending r)"
proof (cases "r_ridx r = 8")
  case True
  then show ?thesis
    using assms by (simp add: processMultiBulkItem_def multi_bulk_item_def view_fails redisReaderSetError_dead)
next
  case F: False
  show ?thesis
  proof (cases "find_sub CRLF (pending r)")
    case None
    then show ?thesis
      using assms F by (simp add: processMultiBulkItem_def readLine_live multi_bulk_item_def view_REDIS_ERR)
  next
    case (Some k)
    then show ?thesis
      using assms F live_advance(2) [OF assms(1) find_CRLF_length [OF Some]]
      by (simp add: processMultiBulkItem_def readLine_live multi_bulk_item_def view_multiBulkObject)
  qed
qed

lemma processBulkItem_view:
  assumes live: "live_buf r" and cur: "task_at r (r_ridx r) = Some cur"
  shows "map_option view (processBulkItem r) = bulk_item (core r) cur (pending r)"
proof -
  let ?p = "pending r"
  have seek: "seekNewline ?p (usub 64 (r_len r) (r_pos r)) = find_sub CRLF ?p"
    using seekNewline_find [OF pending_small [OF live]] by (simp add: live_usub [OF live])
  show ?thesis
  proof (cases "find_sub CRLF ?p")
    case None
    then show ?thesis
      using cur by (simp add: processBulkItem_def unread_live [OF live] seek bulk_item_def view_REDIS_ERR)
  next
    case (Some k)
    note eqs = processBulkItem_def bulk_item_def cur unread_live [OF live] seek Some
    show ?thesis
    proof (cases "string2ll (take k ?p)")
      case None
      then show ?thesis
        by (simp add: eqs view_fails redisReaderSetError_dead)
    next
      case ll: (Some len)
      then have len: "len < 2 ^ 63" by (simp add: string2ll_dec)
      have kp: "k + 2 \<le> length ?p" by (rule find_CRLF_length [OF Some])
      consider "len < -1" | "len = -1" | "0 \<le> len" by linarith
      then show ?thesis
      proof cases
        case 1
        then show ?thesis using ll by (simp add: eqs view_fails redisReaderSetError_dead)
      next
        case 2
        then show ?thesis
          using ll live_advance(2) [OF live kp] by (simp add: eqs view_bulkObject)
      next
        case 3
        have "nat len < 2 ^ 63" using len 3 by (simp add: nat_less_iff)
        moreover have "k < 2 ^ 31" using kp pending_small [OF live] by simp
        ultimately have bl: "(k + 2 + nat len + 2) mod 2 ^ 64 = k + nat len + 4" by simp
        have pos: "r_pos r < 2 ^ 31" "r_pos r \<le> r_len r"
          using live by (auto simp: live_buf_def split: option.splits)
        have le: "(r_pos r + (k + nat len + 4)) mod 2 ^ 64 \<le> r_len r \<longleftrightarrow> k + nat len + 4 \<le> length ?p"
          using pos \<open>nat len < 2 ^ 63\<close> \<open>k < 2 ^ 31\<close> pending_live [OF live] by auto
        show ?thesis
        proof (cases "k + nat len + 4 \<le> length ?p")
          case True
          then have "mem_read ?p (k + 2) (nat len) = Some (take (nat len) (drop (k + 2) ?p))"
            by (simp add: mem_read_ok)
          then show ?thesis
            using 3 ll True live_advance(2) [OF live True] le
            by (simp add: eqs bl [simplified] Let_def view_bulkObject)
        next
          case False
          then show ?thesis
            using 3 ll le by (simp add: eqs bl [simplified] Let_def view_REDIS_ERR)
        qed
      qed
    qed
  qed
qed

lemma process_typed_view:
  assumes "live_buf r" and "task_at r (r_ridx r) = Some cur"
  shows "map_option view (process_typed r) = typed_item (core r) cur (pending r)"
  using assms processLineItem_view [OF assms] processBulkItem_view [OF assms]
    processMultiBulkItem_view [OF assms]
  by (simp add: process_typed_def typed_item_def)

lemma readBytes_live:
  assumes "live_buf r"
  shows "readBytes r (Suc 0) = (case pending r of [] \<Rightarrow> Some (r, None)
           | b # _ \<Rightarrow> Some (r\<lparr>r_pos := r_pos r + 1\<rparr>, Some [b]))"
proof -
  obtain s where s: "r_buf r = Some s"
    using assms by (auto simp: live_buf_def split: option.splits)
  have un: "mem_read (sds_buf s) (r_pos r) (length (pending r)) = Some (pending r)"
    using unread_live [OF assms] s by (simp add: unread_def live_usub [OF assms])
  show ?thesis
  proof (cases "pending r")
    case Nil
    then show ?thesis using s by (simp add: readBytes_def live_usub [OF assms])
  next
    case (Cons b bs)
    have le: "r_pos r + length (pending r) \<le> length (sds_buf s)"
      and tk: "take (length (pending r)) (drop (r_pos r) (sds_buf s)) = pending r"
      using un by (simp_all add: mem_read_def split: if_splits)
    have "take (Suc 0) (drop (r_pos r) (sds_buf s)) = take (Suc 0) (pending r)"
      by (subst tk [symmetric]) (simp add: Cons)
    then have "mem_read (sds_buf s) (r_pos r) (Suc 0) = Some [b]"
      using le Cons by (simp add: mem_read_def)
    then show ?thesis using Cons s by (simp add: readBytes_def live_usub [OF assms])
  qed
qed

lemma protocol_byte_pos:
  "redisReaderSetErrorProtocolByte (r\<lparr>r_pos := p\<rparr>) c = redisReaderSetErrorProtocolByte r c"
  by (metis redisReaderSetErrorProtocolByte_with_buf core_update_pos)

lemma protocol_byte_dead: "redisReaderSetErrorProtocolByte r c = Some r' \<Longrightarrow> dead_buf r'"
  by (simp add: redisReaderSetErrorProtocolByte_def redisReaderSetError_dead)

text \<open>The reader's step refines the abstract one.\<close>

lemma processItem_view:
  assumes live: "live_buf r"
  shows "map_option view (processItem r) = item (core r) (pending r)"
proof (cases "task_at r (r_ridx r)")
  case None
  then show ?thesis by (simp add: processItem_def item_def)
next
  case (Some cur)
  show ?thesis
  proof (cases "t_type cur < 0")
    case False
    then show ?thesis
      using Some process_typed_view [OF live Some] by (simp add: processItem_def item_def)
  next
    case neg: True
    show ?thesis
    proof (cases "pending r")
      case Nil
      then show ?thesis
        using Some neg by (simp add: processItem_def item_def readBytes_live [OF live] view_REDIS_ERR)
    next
      case (Cons b bs)
      show ?thesis
      proof (cases "type_of_byte b")
        case None
        then show ?thesis
          using Some neg Cons
          by (simp add: processItem_def item_def readBytes_live [OF live] protocol_byte_pos
              view_fails protocol_byte_dead)
      next
        case t: (Some t)
        define cur' where "cur' = cur\<lparr>t_type := t\<rparr>"
        define r1 where "r1 = set_task (r\<lparr>r_pos := Suc (r_pos r)\<rparr>) (r_ridx r) cur'"
        have l1: "live_buf r1" and p1: "pending r1 = bs"
          using live_advance [OF live, of 1] Cons by (simp_all add: r1_def)
        have c1: "core r1 = set_task (core r) (r_ridx r) cur'"
          by (simp add: r1_def with_buf_def set_task_def)
        have t1: "task_at r1 (r_ridx r1) = Some cur'"
          using Some by (auto simp: task_at_def r1_def split: if_splits)
        show ?thesis
          using process_typed_view [OF l1 t1] Some neg Cons t
          by (simp add: processItem_def item_def readBytes_live [OF live]
              cur'_def [symmetric] r1_def [symmetric] c1 p1)
      qed
    qed
  qed
qed

section \<open>The buffer invariant\<close>

definition step_ok :: "'h redisReader \<Rightarrow> ('h redisReader \<times> status) option \<Rightarrow> bool" where
  "step_ok r res \<longleftrightarrow>
     (\<forall>r' st. res = Some (r', st) \<longrightarrow>
        (if r_err r' = 0 then live_buf r' \<and> r_buf r' = r_buf r
         else dead_buf r' \<and> r_ridx r' = -1 \<and> st = REDIS_ERR))"

lemma object_step_ok:
  assumes out: "\<And>c. obj_out c (F c)"
    and buf: "\<And>b p l c. F (with_buf b p l c) = map_option (rebuf b p l) (F c)"
    and r: "live_buf r" "r_err r = 0"
  shows "step_ok r (F r)"
proof (unfold step_ok_def, intro allI impI)
  fix r' st assume *: "F r = Some (r', st)"
  have F: "F r = map_option (rebuf (r_buf r) (r_pos r) (r_len r)) (F r)"
    by (subst (1) with_buf_id [symmetric]) (rule buf)
  show "if r_err r' = 0 then live_buf r' \<and> r_buf r' = r_buf r
        else dead_buf r' \<and> r_ridx r' = -1 \<and> st = REDIS_ERR"
  proof (cases st)
    case REDIS_OK
    then have "r' = with_buf (r_buf r) (r_pos r) (r_len r) r'" using F * by simp
    then have "live_buf r'" "r_buf r' = r_buf r"
      using r live_with_buf [of r r'] by (simp, metis with_buf_simps(3))
    then show ?thesis using out [of r] * REDIS_OK r by (simp add: obj_out_def)
  next
    case REDIS_ERR
    then show ?thesis using out [of r] * by (simp add: obj_out_def)
  qed
qed

lemma step_ok_cong: "r_buf r1 = r_buf r \<Longrightarrow> step_ok r1 res \<Longrightarrow> step_ok r res"
  by (simp add: step_ok_def)

lemma step_ok_fails: "t \<noteq> 0 \<Longrightarrow> step_ok r (fails (redisReaderSetError r0 t str))"
  by (auto simp: step_ok_def dest: redisReaderSetError_dead)

lemma step_ok_same: "live_buf r \<Longrightarrow> r_err r = 0 \<Longrightarrow> step_ok r (Some (r, REDIS_ERR))"
  by (simp add: step_ok_def)

lemma step_ok_advanced:
  assumes out: "\<And>c. obj_out c (F c)"
    and buf: "\<And>b p l c. F (with_buf b p l c) = map_option (rebuf b p l) (F c)"
    and r: "live_buf r" "r_err r = 0" "n \<le> length (pending r)"
  shows "step_ok r (F (r\<lparr>r_pos := r_pos r + n\<rparr>))"
  using object_step_ok [OF out buf live_advance(1) [OF r(1,3)]] r(2)
  by (simp add: step_ok_def)

lemma process_typed_ok:
  assumes live: "live_buf r" and e: "r_err r = 0"
  shows "step_ok r (process_typed r)"
proof (cases "task_at r (r_ridx r)")
  case None
  then show ?thesis by (simp add: process_typed_def step_ok_def)
next
  case (Some cur)
  note err = step_ok_fails [of REDIS_ERR_PROTOCOL r, unfolded REDIS_ERR_PROTOCOL_def, simplified,
      folded REDIS_ERR_PROTOCOL_def]
  note same = step_ok_same [OF live e]
  have line: "step_ok r (processLineItem r)"
    using Some same step_ok_advanced [where F = "\<lambda>c. lineObject c cur p" for p, OF lineObject_out lineObject_with_buf live e find_CRLF_length]
    by (auto simp: processLineItem_def readLine_live [OF live] split: option.split)
  have multi: "step_ok r (processMultiBulkItem r)"
    using Some same err
      step_ok_advanced [where F = "\<lambda>c. multiBulkObject c cur p" for p, OF multiBulkObject_out multiBulkObject_with_buf live e find_CRLF_length]
    by (auto simp: processMultiBulkItem_def readLine_live [OF live] split: option.split)
  have bulk: "step_ok r (bulkObject r cur str n)" if "n \<le> length (pending r)" for str n
    unfolding bulkObject_advance [of r cur str n]
    by (rule step_ok_advanced [where F = "\<lambda>c. bulkObject c cur str 0",
          OF bulkObject_out bulkObject_0_with_buf live e that])
  have seek: "seekNewline (pending r) (usub 64 (r_len r) (r_pos r)) = find_sub CRLF (pending r)"
    using seekNewline_find [OF pending_small [OF live]] by (simp add: live_usub [OF live])
  have "step_ok r (processBulkItem r)"
  proof (cases "find_sub CRLF (pending r)")
    case None
    then show ?thesis
      using same by (simp add: processBulkItem_def unread_live [OF live] seek Some)
  next
    case k: (Some k)
    have "step_ok r (Option.bind (mem_read (pending r) (k + 2) l)
             (\<lambda>str. bulkObject r cur (Some str) n))"
      if "(r_pos r + n) mod 2 ^ 64 \<le> r_len r" and "n = (k + 2 + l + 2) mod 2 ^ 64" for l n
    proof (cases "mem_read (pending r) (k + 2) l")
      case m: (Some str)
      then have kl: "k + 2 + l \<le> length (pending r)" by (simp add: mem_read_def split: if_splits)
      have pos: "r_pos r < 2 ^ 31" "r_pos r \<le> r_len r" "r_len r < 2 ^ 31"
        using live by (auto simp: live_buf_def split: option.splits)
      then have "n = k + 2 + l + 2" using that(2) kl pending_small [OF live] by simp
      then have "n \<le> length (pending r)"
        using that(1) pos kl pending_live [OF live] by simp
      then show ?thesis using m bulk by simp
    qed (simp add: step_ok_def)
    then show ?thesis
      using same err bulk [OF find_CRLF_length [OF k]]
      by (auto simp: processBulkItem_def unread_live [OF live] seek Some k Let_def split: option.split)
  qed
  then show ?thesis using Some line multi by (simp add: process_typed_def step_ok_def)
qed

lemma processItem_ok:
  assumes live: "live_buf r" and e: "r_err r = 0"
  shows "step_ok r (processItem r)"
proof (cases "task_at r (r_ridx r)")
  case None
  then show ?thesis by (simp add: processItem_def step_ok_def)
next
  case (Some cur)
  show ?thesis
  proof (cases "t_type cur < 0")
    case False
    then show ?thesis using Some process_typed_ok [OF assms] by (simp add: processItem_def)
  next
    case neg: True
    show ?thesis
    proof (cases "pending r")
      case Nil
      then show ?thesis
        using Some neg step_ok_same [OF assms] by (simp add: processItem_def readBytes_live [OF live])
    next
      case (Cons b bs)
      let ?r1 = "r\<lparr>r_pos := Suc (r_pos r)\<rparr>"
      have l1: "live_buf ?r1" using live_advance(1) [OF live, of 1] Cons by simp
      have "step_ok r (process_typed (set_task ?r1 (r_ridx r) (cur\<lparr>t_type := t\<rparr>)))" for t
        by (rule step_ok_cong [OF _ process_typed_ok]) (use l1 e in simp_all)
      then show ?thesis
        using Some neg Cons step_ok_fails [of REDIS_ERR_PROTOCOL r]
        by (simp add: processItem_def readBytes_live [OF live] redisReaderSetErrorProtocolByte_def
            REDIS_ERR_PROTOCOL_def split: option.split)
    qed
  qed
qed

text \<open>The loop: it ends, keeps the buffer invariant and does what the abstract loop does.\<close>

definition view_loop :: "'h redisReader \<Rightarrow> 'h redisReader \<times> string" where
  "view_loop r = (core r, pending r)"

lemma process_items_view:
  assumes "live_buf r" and "r_err r = 0"
  shows "map_option view_loop (process_items r) =
           map_option (\<lambda>(c, st, bs). (c, bs)) (items (core r) (pending r)) \<and>
         (\<forall>r'. process_items r = Some r' \<longrightarrow>
            (if r_err r' = 0 then live_buf r' \<and> r_buf r' = r_buf r
             else dead_buf r' \<and> r_ridx r' = -1))"
  using assms
proof (induction "length (pending r)" arbitrary: r rule: less_induct)
  case less
  have v: "map_option view (processItem r) = item (core r) (pending r)"
    and ok: "step_ok r (processItem r)"
    using processItem_view processItem_ok less.prems by blast+
  show ?case
  proof (cases "r_ridx r < 0")
    case True
    then show ?thesis
      using less.prems by (simp add: process_items.simps [of r] items.simps [of "core r"] view_loop_def)
  next
    case nn: False
    show ?thesis
    proof (cases "processItem r")
      case None
      then show ?thesis
        using nn v by (simp add: process_items.simps [of r] items.simps [of "core r"])
    next
      case (Some x)
      obtain r1 st where x: "x = (r1, st)" by force
      have it: "item (core r) (pending r) = Some (core r1, st, pending r1)"
        using v Some x by (simp add: view_def)
      show ?thesis
      proof (cases st)
        case REDIS_ERR
        then show ?thesis
          using nn Some x it ok
          by (auto simp: process_items.simps [of r] items.simps [of "core r"] view_loop_def step_ok_def)
      next
        case REDIS_OK
        then have l1: "live_buf r1" "r_err r1 = 0" "r_buf r1 = r_buf r"
          using ok Some x by (auto simp: step_ok_def split: if_splits)
        have "length (pending r1) < length (pending r)"
          using it REDIS_OK item_consumes by blast
        from less.hyps [OF this l1(1,2)] show ?thesis
          using nn Some x it REDIS_OK l1(3)
          by (simp add: process_items.simps [of r] items.simps [of "core r"])
      qed
    qed
  qed
qed

section \<open>Feeding and draining\<close>

lemma discard_consumed_view:
  assumes "live_buf r"
  obtains r' where "discard_consumed r = Some r'" and "live_buf r'" and "core r' = core r"
    and "pending r' = pending r" and "r_len r' \<le> r_len r"
proof (cases "1024 \<le> r_pos r")
  case False
  then show thesis using that [of r] assms by (simp add: discard_consumed_def)
next
  case True
  obtain s where s: "r_buf r = Some s" "sds_wf s" "r_len r = sdslen s" "sdslen s < 2 ^ 31"
      "r_pos r \<le> r_len r"
    using assms by (auto simp: live_buf_def split: option.splits)
  have pos: "s32 (int (r_pos r)) = int (r_pos r)" using s by (simp add: s32_id)
  obtain t where t: "sdsrange s (int (r_pos r)) (-1) = Some t" "sds_wf t"
      "content t = sds_slice (int (r_pos r)) (-1) (content s)"
    using sdsrange_slice [OF s(2,4), of "int (r_pos r)" "-1"] s by auto
  have c: "content t = drop (r_pos r) (content s)"
    using s True unfolding t(3) by (simp add: sds_slice_def Let_def)
  have len: "sdslen t = sdslen s - r_pos r"
    using length_content [OF t(2)] c s(2) by simp
  define r' where "r' = r\<lparr>r_buf := Some t, r_pos := 0, r_len := sdslen t\<rparr>"
  have "discard_consumed r = Some r'"
    using True s t pos by (simp add: discard_consumed_def r'_def)
  moreover have "live_buf r'" using t len s by (simp add: live_buf_def r'_def)
  moreover have "core r' = core r" by (simp add: with_buf_def r'_def)
  moreover have "pending r' = pending r" using c s by (simp add: pending_def r'_def)
  moreover have "r_len r' \<le> r_len r" using len s by (simp add: r'_def)
  ultimately show thesis by (rule that)
qed

lemma redisReaderFeed_view:
  assumes m: "malloc_spec m" "malloc_total m" and live: "live_buf r" and e: "r_err r = 0"
    and n: "n \<le> length bs" and small: "r_len r + n < 2 ^ 31"
  obtains r' where "redisReaderFeed m r (Some bs) n = Some (r', REDIS_OK)" and "live_buf r'"
    and "core r' = core r" and "pending r' = pending r @ take n bs" and "r_len r' \<le> r_len r + n"
proof (cases "n < 1")
  case True
  then show thesis using that [of r] live e by (simp add: redisReaderFeed_def)
next
  case False
  obtain s where s: "r_buf r = Some s" "sds_wf s" "r_len r = sdslen s" "r_pos r \<le> r_len r"
    using live by (auto simp: live_buf_def split: option.splits)
  obtain e0 where e0: "sdsempty m = Some (Some e0)" "sds_wf e0" "content e0 = []"
    using sds_postD [OF sdsempty_post [OF m(1)] m(2)] by auto
  define big where "big \<longleftrightarrow> r_len r = 0 \<and> r_maxbuf r \<noteq> 0 \<and> sdsavail s > r_maxbuf r"
  define s1 where "s1 = (if big then e0 else s)"
  define r1 where "r1 = (if big then r\<lparr>r_buf := Some e0, r_pos := 0\<rparr> else r)"
  have big0: "big \<Longrightarrow> content s = []"
    using s by (simp add: big_def content_def)
  have e00: "sdslen e0 = 0" using e0 length_content by fastforce
  have s1: "sds_wf s1" "content s1 = content s" "sdslen s1 = sdslen s" "r_buf r1 = Some s1"
      "r_pos r1 = r_pos r" "core r1 = core r" "r_len r1 = r_len r" "r_err r1 = 0"
    using s e e0 e00 big0 by (auto simp: s1_def r1_def big_def with_buf_def)
  have "sds_small (sdslen s1 + n)" using small s s1 by (simp add: sds_small_def)
  then obtain t where t: "sdscatlen m s1 bs n = Some (Some t)" "sds_wf t"
      "content t = content s1 @ take n bs"
    using sds_postD [OF sdscatlen_post [OF m(1) s1(1) _ n] m(2)] by metis
  have lt: "sdslen t = sdslen s + n"
    using length_content [OF t(2)] length_content [OF s(2)] t(3) s1(2) n by simp
  define r' where "r' = r1\<lparr>r_buf := Some t, r_len := sdslen t\<rparr>"
  have "(case r_buf r of None \<Rightarrow> None | Some s \<Rightarrow>
           if r_len r = 0 \<and> r_maxbuf r \<noteq> 0 \<and> sdsavail s > r_maxbuf r
           then sds_deref (sdsempty m) (\<lambda>e. Some (r\<lparr>r_buf := Some e, r_pos := 0\<rparr>))
           else Some r) = Some r1"
    using s(1) e0(1) by (simp add: r1_def big_def sds_deref_def)
  then have "redisReaderFeed m r (Some bs) n = Some (r', REDIS_OK)"
    using False e t(1) s1(4) by (simp add: redisReaderFeed_def r'_def)
  moreover have "live_buf r'"
    using t lt small s s1 by (simp add: live_buf_def r'_def)
  moreover have "core r' = core r" using s1 by (simp add: r'_def with_buf_def)
  moreover have "pending r' = pending r @ take n bs"
    using t s s1 by (simp add: pending_def r'_def)
  moreover have "r_len r' \<le> r_len r + n" using lt s by (simp add: r'_def)
  ultimately show thesis using that by blast
qed

section \<open>What a step promises\<close>

text \<open>C29. One \<open>processItem\<close> of a reader with a live buffer does what the abstract machine does on
  the bytes not yet consumed; afterwards either the buffer is still live and unchanged, or an
  error is set, the buffer is gone and the stack is empty.  This holds for any object functions.\<close>

theorem processItem_refines:
  assumes "live_buf r" and "r_err r = 0"
  shows "map_option view (processItem r) = item (core r) (pending r) \<and>
    (\<forall>r' st. processItem r = Some (r', st) \<longrightarrow>
       (if r_err r' = 0 then live_buf r' \<and> r_buf r' = r_buf r
        else dead_buf r' \<and> r_ridx r' = -1 \<and> st = REDIS_ERR))"
  using processItem_view [OF assms(1)] processItem_ok [OF assms] by (simp add: step_ok_def)

definition sample_reader :: "unit redisReader" where
  "sample_reader = \<lparr>r_err = 0, r_errstr = [], r_buf = Some sample_sds, r_pos = 1, r_len = 5,
     r_maxbuf = 16384, r_rstack = replicate 9 (blank_task\<lparr>t_type := -1\<rparr>), r_ridx = 0,
     r_reply = None, r_fn = None, r_privdata = 0, r_store = ()\<rparr>"

theorem processItem_refines_witness:
  "pending sample_reader = ''a-b '' \<and>
   map_option view (processItem sample_reader) = item (core sample_reader) ''a-b ''"
proof -
  have "live_buf sample_reader" "r_err sample_reader = 0" "pending sample_reader = ''a-b ''"
    by (simp_all add: sample_reader_def live_buf_def pending_def)
  then show ?thesis using processItem_refines [of sample_reader] by simp
qed

text \<open>C30. The loop of \<open>redisReaderGetReply\<close> ends on every reader with a live buffer on which the
  abstract loop is defined, with the same outcome, and keeps the buffer invariant.\<close>

theorem process_items_terminates:
  assumes "live_buf r" and "r_err r = 0" and "items (core r) (pending r) = Some (c, st, rest)"
  shows "\<exists>r'. process_items r = Some r' \<and> core r' = c \<and> pending r' = rest \<and>
     (if r_err r' = 0 then live_buf r' \<and> r_buf r' = r_buf r else dead_buf r' \<and> r_ridx r' = -1)"
  using process_items_view [OF assms(1,2)] assms(3) by (auto simp: view_loop_def)

lemma sample_reader_item:
  "item (core sample_reader) (pending sample_reader)
     = after [] (fails (redisReaderSetErrorProtocolByte (core sample_reader) CHR ''a''))"
  by (simp add: sample_reader_def pending_def item_def task_at_def type_of_byte_def)

theorem process_items_terminates_witness:
  "\<exists>r'. process_items sample_reader = Some r' \<and> r_err r' = REDIS_ERR_PROTOCOL \<and> dead_buf r'"
proof -
  have live: "live_buf sample_reader" "r_err sample_reader = 0" "r_ridx sample_reader = 0"
      "r_reply sample_reader = None"
    by (simp_all add: sample_reader_def live_buf_def)
  obtain c where c: "redisReaderSetErrorProtocolByte (core sample_reader) CHR ''a'' = Some c"
      "r_err c = REDIS_ERR_PROTOCOL"
    using live(4) by (simp add: redisReaderSetErrorProtocolByte_def redisReaderSetError_def)
  then have "items (core sample_reader) (pending sample_reader) = Some (c, REDIS_ERR, [])"
    using live(3) sample_reader_item by (simp add: items.simps [of "core sample_reader"] after_def)
  from process_items_terminates [OF live(1,2) this] show ?thesis
    using c(2) by (auto simp: REDIS_ERR_PROTOCOL_def split: if_splits)
qed

text \<open>After an error, feeding and asking for a reply change nothing and report the error again.\<close>

theorem reader_error_sticky:
  assumes "r_err r \<noteq> 0"
  shows "redisReaderFeed m r buf len = Some (r, REDIS_ERR) \<and>
         redisReaderGetReply r = Some (r, REDIS_ERR, None)"
  using assms by (simp add: redisReaderFeed_def redisReaderGetReply_def)

theorem reader_error_sticky_witness:
  "redisReaderGetReply (sample_reader\<lparr>r_err := 4\<rparr>) = Some (sample_reader\<lparr>r_err := 4\<rparr>, REDIS_ERR, None)"
  using reader_error_sticky [of "sample_reader\<lparr>r_err := 4\<rparr>"] by simp

end
