(* ===== verification/Reply_Tree.thy ===== *)
theory Reply_Tree
  imports Reader
begin

text \<open>
  What the protocol reader promises, without its buffer, stack and store: replies as trees,
  their encoding on the wire, and a parser of byte lists whose state is a list of open
  arrays.  The reader is shown to implement this parser in \<open>Reader_Build\<close>; here the
  parser is shown to invert the encoding.
\<close>

section \<open>Replies\<close>

text \<open>
  \<open>RStr\<close> carries the type of a string-like reply (string, status or error), \<open>RArr n ts\<close>
  is an array of \<open>n\<close> elements of which \<open>ts\<close> are there (all of them, once it is complete).
\<close>

datatype reply = RStr int string | RInt int | RNil | RArr nat "reply list"

type_synonym frames = "(nat \<times> reply list) list"

fun reply_depth :: "reply \<Rightarrow> nat" where
  "reply_depth (RArr n ts) = Suc (fold max (map reply_depth ts) 0)"
| "reply_depth _ = 0"

fun wf_reply :: "reply \<Rightarrow> bool" where
  "wf_reply (RStr t s) \<longleftrightarrow>
     (t = REDIS_REPLY_STRING \<and> length s < 2 ^ 63) \<or>
     (t \<in> {REDIS_REPLY_STATUS, REDIS_REPLY_ERROR} \<and> CR \<notin> set s)"
| "wf_reply (RInt v) \<longleftrightarrow> - (2 ^ 63) \<le> v \<and> v < 2 ^ 63"
| "wf_reply RNil \<longleftrightarrow> True"
| "wf_reply (RArr n ts) \<longleftrightarrow> n = length ts \<and> int n \<le> INT_MAX \<and> list_all wf_reply ts"

fun encode :: "reply \<Rightarrow> string" where
  "encode (RStr t s) =
     (if t = REDIS_REPLY_STATUS then ''+'' @ s @ CRLF
      else if t = REDIS_REPLY_ERROR then ''-'' @ s @ CRLF
      else ''$'' @ dec_nat (length s) @ CRLF @ s @ CRLF)"
| "encode (RInt v) = '':'' @ dec_int v @ CRLF"
| "encode RNil = ''$-1'' @ CRLF"
| "encode (RArr n ts) = ''*'' @ dec_nat n @ CRLF @ concat (map encode ts)"

section \<open>The parser\<close>

datatype scanned = Wait | Fail int string | Leaf reply string | Open nat string

text \<open>One item at nesting depth \<open>d\<close>: its header line and, for a bulk string, its bytes.\<close>

definition scan_bulk :: "string \<Rightarrow> string \<Rightarrow> scanned" where
  "scan_bulk line rest =
     (case string2ll line of
        None \<Rightarrow> Fail REDIS_ERR_PROTOCOL ''Bad bulk string length''
      | Some len \<Rightarrow>
          if len < -1 then Fail REDIS_ERR_PROTOCOL ''Bulk string length out of range''
          else if len = -1 then Leaf RNil rest
          else if nat len + 2 \<le> length rest
          then Leaf (RStr REDIS_REPLY_STRING (take (nat len) rest)) (drop (nat len + 2) rest)
          else Wait)"

definition scan_multi :: "string \<Rightarrow> string \<Rightarrow> scanned" where
  "scan_multi line rest =
     (case string2ll line of
        None \<Rightarrow> Fail REDIS_ERR_PROTOCOL ''Bad multi-bulk length''
      | Some n \<Rightarrow>
          if n < -1 \<or> n > INT_MAX then Fail REDIS_ERR_PROTOCOL ''Multi-bulk length out of range''
          else if n = -1 then Leaf RNil rest
          else if n = 0 then Leaf (RArr 0 []) rest
          else Open (nat n) rest)"

definition scan_line :: "int \<Rightarrow> string \<Rightarrow> string \<Rightarrow> scanned" where
  "scan_line t line rest =
     (if t = REDIS_REPLY_INTEGER then
        (case string2ll line of
           None \<Rightarrow> Fail REDIS_ERR_PROTOCOL ''Bad integer value''
         | Some v \<Rightarrow> Leaf (RInt v) rest)
      else if t = REDIS_REPLY_STRING then scan_bulk line rest
      else if t = REDIS_REPLY_ARRAY then scan_multi line rest
      else Leaf (RStr t line) rest)"

definition protocol_byte_text :: "char \<Rightarrow> string" where
  "protocol_byte_text b =
     take 127 (cstr (take 127 (''Protocol error, got '' @ chrtos 8 b @ '' as reply type byte'')))"

fun scan :: "nat \<Rightarrow> string \<Rightarrow> scanned" where
  "scan d [] = Wait"
| "scan d (b # bs) =
     (case type_of_byte b of
        None \<Rightarrow> Fail REDIS_ERR_PROTOCOL (protocol_byte_text b)
      | Some t \<Rightarrow>
          if t = REDIS_REPLY_ARRAY \<and> d = 8
          then Fail REDIS_ERR_PROTOCOL ''No support for nested multi bulk replies with depth > 7''
          else
            case find_sub CRLF bs of
              None \<Rightarrow> Wait
            | Some k \<Rightarrow> scan_line t (take k bs) (drop (k + 2) bs))"

text \<open>The open arrays, innermost first, once a reply \<open>x\<close> is complete; or the whole reply.\<close>

fun complete :: "frames \<Rightarrow> reply \<Rightarrow> frames + reply" where
  "complete [] x = Inr x"
| "complete ((n, ts) # fs) x =
     (if length ts + 1 = n then complete fs (RArr n (ts @ [x])) else Inl ((n, ts @ [x]) # fs))"

datatype parsed = PWait | PFail int string | PDone reply string

lemma scan_line_shorter:
  "scan_line t line rest = Leaf x rest' \<Longrightarrow> length rest' \<le> length rest"
  "scan_line t line rest = Open n rest' \<Longrightarrow> length rest' \<le> length rest"
  by (auto simp: scan_line_def scan_bulk_def scan_multi_def split: if_splits option.splits)

lemma scan_shorter:
  "scan d bs = Leaf x rest \<Longrightarrow> length rest < length bs"
  "scan d bs = Open n rest \<Longrightarrow> length rest < length bs"
  by (cases bs; auto dest!: scan_line_shorter find_sub_Some split: option.splits if_splits)+

function parse :: "frames \<Rightarrow> string \<Rightarrow> parsed" where
  "parse fs bs =
     (case scan (length fs) bs of
        Wait \<Rightarrow> PWait
      | Fail e msg \<Rightarrow> PFail e msg
      | Leaf x rest \<Rightarrow>
          (case complete fs x of Inr r \<Rightarrow> PDone r rest | Inl fs' \<Rightarrow> parse fs' rest)
      | Open n rest \<Rightarrow> parse ((n, []) # fs) rest)"
  by pat_completeness auto
termination
  by (relation "measure (\<lambda>(fs, bs). length bs)") (auto dest: scan_shorter)

declare parse.simps [simp del]

lemma parse_shorter: "parse fs bs = PDone r rest \<Longrightarrow> length rest < length bs"
proof (induction fs bs rule: parse.induct)
  case (1 fs bs)
  show ?case
  proof (cases "scan (length fs) bs")
    case (Leaf x rest')
    then show ?thesis
      using 1 scan_shorter(1) [OF Leaf]
      by (fastforce simp: parse.simps [of fs bs] split: sum.splits)
  next
    case (Open n rest')
    then show ?thesis
      using 1 scan_shorter(2) [OF Open] by (fastforce simp: parse.simps [of fs bs])
  qed (use 1 in \<open>simp_all add: parse.simps [of fs bs]\<close>)
qed

text \<open>All the replies of a byte stream, and how it ends.\<close>

function parse_all :: "string \<Rightarrow> reply list \<times> (int \<times> string) option" where
  "parse_all bs =
     (case parse [] bs of
        PWait \<Rightarrow> ([], None)
      | PFail e msg \<Rightarrow> ([], Some (e, msg))
      | PDone r rest \<Rightarrow> (let (rs, err) = parse_all rest in (r # rs, err)))"
  by pat_completeness auto
termination
  by (relation "measure length") (auto dest: parse_shorter)

declare parse_all.simps [simp del]

section \<open>The parser inverts the encoding\<close>

lemma type_of_byte_simps [simp]:
  "type_of_byte CHR ''-'' = Some REDIS_REPLY_ERROR" "type_of_byte CHR ''+'' = Some REDIS_REPLY_STATUS"
  "type_of_byte CHR '':'' = Some REDIS_REPLY_INTEGER" "type_of_byte CHR ''$'' = Some REDIS_REPLY_STRING"
  "type_of_byte CHR ''*'' = Some REDIS_REPLY_ARRAY"
  by (simp_all add: type_of_byte_def)

lemma reply_types_distinct [simp]:
  "REDIS_REPLY_ERROR \<noteq> REDIS_REPLY_STATUS" "REDIS_REPLY_STATUS \<noteq> REDIS_REPLY_ERROR"
  "REDIS_REPLY_ERROR \<noteq> REDIS_REPLY_INTEGER" "REDIS_REPLY_ERROR \<noteq> REDIS_REPLY_STRING"
  "REDIS_REPLY_ERROR \<noteq> REDIS_REPLY_ARRAY" "REDIS_REPLY_STATUS \<noteq> REDIS_REPLY_INTEGER"
  "REDIS_REPLY_STATUS \<noteq> REDIS_REPLY_STRING" "REDIS_REPLY_STATUS \<noteq> REDIS_REPLY_ARRAY"
  "REDIS_REPLY_INTEGER \<noteq> REDIS_REPLY_STRING" "REDIS_REPLY_INTEGER \<noteq> REDIS_REPLY_ARRAY"
  "REDIS_REPLY_STRING \<noteq> REDIS_REPLY_ARRAY" "REDIS_REPLY_STRING \<noteq> REDIS_REPLY_STATUS"
  "REDIS_REPLY_STRING \<noteq> REDIS_REPLY_ERROR" "REDIS_REPLY_STRING \<noteq> REDIS_REPLY_INTEGER"
  "REDIS_REPLY_ARRAY \<noteq> REDIS_REPLY_STRING" "REDIS_REPLY_ARRAY \<noteq> REDIS_REPLY_INTEGER"
  "REDIS_REPLY_ARRAY \<noteq> REDIS_REPLY_STATUS" "REDIS_REPLY_ARRAY \<noteq> REDIS_REPLY_ERROR"
  "REDIS_REPLY_INTEGER \<noteq> REDIS_REPLY_STATUS" "REDIS_REPLY_INTEGER \<noteq> REDIS_REPLY_ERROR"
  by (simp_all add: reply_types)

lemma scan_header:
  assumes "CR \<notin> set line" and "type_of_byte b = Some t" and "t = REDIS_REPLY_ARRAY \<Longrightarrow> d \<noteq> 8"
  shows "scan d (b # line @ CR # LF # rest) = scan_line t line rest"
  using assms find_CRLF_line [OF assms(1), of rest] by auto

lemma dec_int_noCR: "CR \<notin> set (dec_int v)"
proof -
  have "CR \<notin> set (dec_nat n)" for n
    using dec_nat_digits [of CR n] by (auto simp: isdigit_def)
  then show ?thesis by (simp add: dec_int_def)
qed

lemma dec_nat_noCR: "CR \<notin> set (dec_nat n)"
  using dec_int_noCR [of "int n"] by (simp add: dec_int_of_nat)

lemma string2ll_dec_nat: "n < 2 ^ 63 \<Longrightarrow> string2ll (dec_nat n) = Some (int n)"
  using string2ll_dec_int [of "int n"] by (simp add: dec_int_of_nat)

text \<open>The parser after a complete reply.\<close>

definition resume :: "frames \<Rightarrow> reply \<Rightarrow> string \<Rightarrow> parsed" where
  "resume fs x rest = (case complete fs x of Inr r \<Rightarrow> PDone r rest | Inl fs' \<Rightarrow> parse fs' rest)"

lemma parse_leaf: "scan (length fs) bs = Leaf x rest \<Longrightarrow> parse fs bs = resume fs x rest"
  by (simp add: parse.simps [of fs bs] resume_def)

lemma parse_open: "scan (length fs) bs = Open n rest \<Longrightarrow> parse fs bs = parse ((n, []) # fs) rest"
  by (simp add: parse.simps [of fs bs])

lemma fold_max_le: "(fold max xs a :: nat) \<le> b \<longleftrightarrow> a \<le> b \<and> (\<forall>x \<in> set xs. x \<le> b)"
  by (induction xs arbitrary: a) auto

lemma depth_child: "x \<in> set ts \<Longrightarrow> reply_depth x < reply_depth (RArr n ts)"
  using fold_max_le [of "map reply_depth ts" 0 "fold max (map reply_depth ts) 0"]
  by (auto simp: less_Suc_eq_le)

lemma parse_children:
  assumes child: "\<And>x fs rest. x \<in> set us \<Longrightarrow> length fs \<le> d \<Longrightarrow>
      parse fs (encode x @ rest) = resume fs x rest"
    and "us \<noteq> []" and "Suc (length fs) \<le> d" and "n = length ts + length us"
  shows "parse ((n, ts) # fs) (concat (map encode us) @ rest) = resume fs (RArr n (ts @ us)) rest"
  using assms
proof (induction us arbitrary: ts)
  case (Cons u us)
  have u: "parse ((n, ts) # fs) (encode u @ concat (map encode us) @ rest)
      = resume ((n, ts) # fs) u (concat (map encode us) @ rest)"
    using Cons.prems by simp
  show ?case
  proof (cases "us = []")
    case True
    then show ?thesis using u Cons.prems by (simp add: resume_def)
  next
    case False
    then have "parse ((n, ts @ [u]) # fs) (concat (map encode us) @ rest)
        = resume fs (RArr n ((ts @ [u]) @ us)) rest"
      using Cons.prems by (intro Cons.IH) auto
    moreover have "length ts + 1 \<noteq> n" using False Cons.prems by (cases us) auto
    ultimately show ?thesis using u by (simp add: resume_def)
  qed
qed simp

lemma parse_encode_resume:
  "wf_reply t \<Longrightarrow> reply_depth t + length fs \<le> 8 \<Longrightarrow> parse fs (encode t @ rest) = resume fs t rest"
proof (induction t arbitrary: fs rest)
  case (RStr t s)
  then consider "t = REDIS_REPLY_STRING" "length s < 2 ^ 63"
    | "t \<in> {REDIS_REPLY_STATUS, REDIS_REPLY_ERROR}" "CR \<notin> set s"
    by auto
  then show ?case
  proof cases
    case 1
    then have "scan (length fs) (CHR ''$'' # dec_nat (length s) @ CR # LF # s @ CR # LF # rest)
        = Leaf (RStr t s) rest"
      by (subst scan_header) (auto simp: dec_nat_noCR scan_line_def scan_bulk_def string2ll_dec_nat)
    then show ?thesis using 1 by (simp add: parse_leaf)
  next
    case 2
    have line: "parse fs (b # s @ CR # LF # rest) = resume fs (RStr t s) rest"
      if "type_of_byte b = Some t" for b
    proof (rule parse_leaf)
      have "scan_line t s rest = Leaf (RStr t s) rest" using 2(1) by (auto simp: scan_line_def)
      then show "scan (length fs) (b # s @ CR # LF # rest) = Leaf (RStr t s) rest"
        using scan_header [OF 2(2) that] 2(1) by auto
    qed
    from 2(1) consider "t = REDIS_REPLY_STATUS" | "t = REDIS_REPLY_ERROR" by auto
    then show ?thesis
    proof cases
      case 1
      then show ?thesis using line [of "CHR ''+''"] by simp
    next
      case 2
      then show ?thesis using line [of "CHR ''-''"] by simp
    qed
  qed
next
  case (RInt v)
  then have "scan (length fs) (CHR '':'' # dec_int v @ CR # LF # rest) = Leaf (RInt v) rest"
    by (subst scan_header) (auto simp: dec_int_noCR scan_line_def string2ll_dec_int)
  then show ?case by (simp add: parse_leaf)
next
  case RNil
  have "dec_int (-1) = ''-1''" by code_simp
  then have "string2ll ''-1'' = Some (-1)" using string2ll_dec_int [of "-1"] by simp
  then have "scan (length fs) (CHR ''$'' # ''-1'' @ CR # LF # rest) = Leaf RNil rest"
    by (subst scan_header) (auto simp: scan_line_def scan_bulk_def)
  then show ?case by (simp add: parse_leaf)
next
  case (RArr n ts)
  then have n: "n = length ts" "int n \<le> INT_MAX" and wf: "\<And>x. x \<in> set ts \<Longrightarrow> wf_reply x"
    by (auto simp: list_all_iff)
  have d: "length fs \<noteq> 8" using RArr.prems(2) by simp
  have n63: "n < 2 ^ 63" using n(2) by (simp add: INT_MAX_def)
  have hd: "scan (length fs) (CHR ''*'' # dec_nat n @ CR # LF # rest')
      = (if n = 0 then Leaf (RArr 0 []) rest' else Open n rest')" for rest'
    using d n(2) string2ll_dec_nat [OF n63]
    by (subst scan_header) (auto simp: dec_nat_noCR scan_line_def scan_multi_def)
  show ?case
  proof (cases "ts = []")
    case True
    then show ?thesis using hd n by (simp add: parse_leaf)
  next
    case False
    have "parse ((n, []) # fs) (concat (map encode ts) @ rest) = resume fs (RArr n ([] @ ts)) rest"
    proof (rule parse_children [where d = "Suc (length fs)"])
      fix x and fs' :: frames and rest' assume x: "x \<in> set ts" and "length fs' \<le> Suc (length fs)"
      then have "reply_depth x + length fs' \<le> 8"
        using RArr.prems(2) depth_child [OF x, of n] by linarith
      then show "parse fs' (encode x @ rest') = resume fs' x rest'"
        using RArr.IH x wf by blast
    qed (use False n in auto)
    then show ?thesis using hd False n by (simp add: parse_open)
  qed
qed

lemma parse_encode:
  "wf_reply t \<Longrightarrow> reply_depth t \<le> 8 \<Longrightarrow> parse [] (encode t @ rest) = PDone t rest"
  by (simp add: parse_encode_resume resume_def)

lemma parse_all_encode:
  "\<forall>t \<in> set ts. wf_reply t \<and> reply_depth t \<le> 8 \<Longrightarrow>
   parse_all (concat (map encode ts) @ rest) =
     (ts @ fst (parse_all rest), snd (parse_all rest))"
  by (induction ts) (simp_all add: parse_all.simps [of "encode _ @ _"] parse_encode split_def)

end
