(* ===== verification/Reader_Build.thy ===== *)
theory Reader_Build
  imports Reader_Spec Reply_Tree
begin

text \<open>
  The interface between the reader and the functions that make reply objects, and the
  reader's correctness over it: on the bytes it has, the reader with its task stack does
  exactly what the parser of \<open>Reply_Tree\<close> does.

  The locale \<open>reply_builder\<close> states what the reader relies on.  \<open>rep h fs ps\<close> says that
  the store \<open>h\<close> holds the reply in progress: the open arrays \<open>fs\<close> (innermost first) with
  their objects \<open>ps\<close>, \<open>whole h p x\<close> that \<open>p\<close> is a complete reply \<open>x\<close>.  \<open>oom\<close> says whether
  allocation may fail.  A function makes a node if it either is the root of a reply or is
  put in the slot of its parent that the task's \<open>idx\<close> names.
\<close>

section \<open>The contract of the object functions\<close>

type_synonym 'h maker = "'h \<Rightarrow> ('h \<times> robj option) option"

definition makes ::
  "('h \<Rightarrow> frames \<Rightarrow> robj list \<Rightarrow> bool) \<Rightarrow> ('h \<Rightarrow> robj \<Rightarrow> reply \<Rightarrow> bool) \<Rightarrow>
   ('h \<Rightarrow> robj \<Rightarrow> 'h option) \<Rightarrow> bool \<Rightarrow>
   redisReadTask \<Rightarrow> redisReadTask option \<Rightarrow> 'h maker \<Rightarrow> reply \<Rightarrow> bool" where
  "makes rep whole release oom cur parent f x \<longleftrightarrow>
     (\<forall>h. parent = None \<longrightarrow>
        (\<exists>h' q. f h = Some (h', q) \<and> (case q of None \<Rightarrow> oom | Some p \<Rightarrow> whole h' p x))) \<and>
     (\<forall>h n ts fs p ps pt. parent = Some pt \<longrightarrow> t_obj pt = Some p \<longrightarrow> t_idx cur = int (length ts) \<longrightarrow>
        length ts < n \<longrightarrow> rep h ((n, ts) # fs) (p # ps) \<longrightarrow>
        (\<exists>h' q. f h = Some (h', q) \<and>
           (case q of None \<Rightarrow> oom \<and> release h' (last (p # ps)) \<noteq> None
            | Some _ \<Rightarrow> rep h' ((n, ts @ [x]) # fs) (p # ps))))"

definition opens ::
  "('h \<Rightarrow> frames \<Rightarrow> robj list \<Rightarrow> bool) \<Rightarrow> ('h \<Rightarrow> robj \<Rightarrow> 'h option) \<Rightarrow> bool \<Rightarrow>
   redisReadTask \<Rightarrow> redisReadTask option \<Rightarrow> 'h maker \<Rightarrow> nat \<Rightarrow> bool" where
  "opens rep release oom cur parent f m \<longleftrightarrow>
     (\<forall>h. parent = None \<longrightarrow>
        (\<exists>h' q. f h = Some (h', q) \<and> (case q of None \<Rightarrow> oom | Some p \<Rightarrow> rep h' [(m, [])] [p]))) \<and>
     (\<forall>h n ts fs p ps pt. parent = Some pt \<longrightarrow> t_obj pt = Some p \<longrightarrow> t_idx cur = int (length ts) \<longrightarrow>
        length ts < n \<longrightarrow> rep h ((n, ts) # fs) (p # ps) \<longrightarrow>
        (\<exists>h' q. f h = Some (h', q) \<and>
           (case q of None \<Rightarrow> oom \<and> release h' (last (p # ps)) \<noteq> None
            | Some p' \<Rightarrow> rep h' ((m, []) # (n, ts) # fs) (p' # p # ps))))"

lemma makes_root:
  "makes rep whole release oom cur None f x \<Longrightarrow>
   \<exists>h' q. f h = Some (h', q) \<and> (case q of None \<Rightarrow> oom | Some p \<Rightarrow> whole h' p x)"
  by (simp add: makes_def)

lemma makes_child:
  "makes rep whole release oom cur (Some pt) f x \<Longrightarrow> t_obj pt = Some p \<Longrightarrow> t_idx cur = int (length ts) \<Longrightarrow>
   length ts < n \<Longrightarrow> rep h ((n, ts) # fs) (p # ps) \<Longrightarrow>
   \<exists>h' q. f h = Some (h', q) \<and>
     (case q of None \<Rightarrow> oom \<and> release h' (last (p # ps)) \<noteq> None
      | Some _ \<Rightarrow> rep h' ((n, ts @ [x]) # fs) (p # ps))"
  unfolding makes_def by blast

lemma opens_root:
  "opens rep release oom cur None f m \<Longrightarrow>
   \<exists>h' q. f h = Some (h', q) \<and> (case q of None \<Rightarrow> oom | Some p \<Rightarrow> rep h' [(m, [])] [p])"
  by (simp add: opens_def)

lemma opens_child:
  "opens rep release oom cur (Some pt) f m \<Longrightarrow> t_obj pt = Some p \<Longrightarrow> t_idx cur = int (length ts) \<Longrightarrow>
   length ts < n \<Longrightarrow> rep h ((n, ts) # fs) (p # ps) \<Longrightarrow>
   \<exists>h' q. f h = Some (h', q) \<and>
     (case q of None \<Rightarrow> oom \<and> release h' (last (p # ps)) \<noteq> None
      | Some p' \<Rightarrow> rep h' ((m, []) # (n, ts) # fs) (p' # p # ps))"
  unfolding opens_def by blast

section \<open>The stack of the reader and the open arrays\<close>

text \<open>Entry \<open>k\<close> of the stack is the array that entry \<open>k + 1\<close> is an element of.\<close>

fun stk :: "redisReadTask list \<Rightarrow> frames \<Rightarrow> robj list \<Rightarrow> bool" where
  "stk st [] [] \<longleftrightarrow> t_parent (st ! 0) = None"
| "stk st ((n, ts) # fs) (p # ps) \<longleftrightarrow>
     (let k = length fs
      in t_type (st ! k) = REDIS_REPLY_ARRAY \<and> t_elements (st ! k) = int n \<and>
         t_obj (st ! k) = Some p \<and> t_parent (st ! Suc k) = Some k \<and>
         t_idx (st ! Suc k) = int (length ts) \<and> length ts < n \<and> stk st fs ps)"
| "stk st _ _ \<longleftrightarrow> False"

lemma stk_length: "stk st fs ps \<Longrightarrow> length ps = length fs"
  by (induction st fs ps rule: stk.induct) (auto simp: Let_def)

lemma stk_agree:
  "stk st fs ps \<Longrightarrow> (\<And>i. i < length fs \<Longrightarrow> st' ! i = st ! i) \<Longrightarrow>
   t_parent (st' ! length fs) = t_parent (st ! length fs) \<Longrightarrow>
   t_idx (st' ! length fs) = t_idx (st ! length fs) \<Longrightarrow> stk st' fs ps"
  by (induction st fs ps rule: stk.induct) (auto simp: Let_def)

definition at_stack :: "'h redisReader \<Rightarrow> frames \<Rightarrow> robj list \<Rightarrow> bool" where
  "at_stack c fs ps \<longleftrightarrow>
     length (r_rstack c) = 9 \<and> length fs \<le> 8 \<and> r_ridx c = int (length fs) \<and>
     stk (r_rstack c) fs ps \<and> r_err c = 0 \<and>
     r_reply c = (if fs = [] then None else Some (last ps))"

lemma at_stack_task: "at_stack c fs ps \<Longrightarrow> task_at c (r_ridx c) = Some (r_rstack c ! length fs)"
  by (simp add: at_stack_def task_at_def)

lemma at_stack_parent:
  assumes "at_stack c fs ps"
  shows "parent_of c (r_rstack c ! length fs) =
    (if fs = [] then None else Some (r_rstack c ! (length fs - 1)))"
proof (cases fs)
  case Nil
  then show ?thesis
    using assms by (cases ps) (auto simp: at_stack_def parent_of_def)
next
  case (Cons f fs')
  then show ?thesis
    using assms by (cases f; cases ps) (auto simp: at_stack_def parent_of_def task_at_def Let_def)
qed

text \<open>Setting the type of the top task, as reading an item's first byte does.\<close>

lemma at_stack_set_type:
  assumes "at_stack c fs ps" and cur: "cur = r_rstack c ! length fs"
  shows "at_stack (set_task c (r_ridx c) (cur\<lparr>t_type := t\<rparr>)) fs ps"
    and "r_rstack (set_task c (r_ridx c) (cur\<lparr>t_type := t\<rparr>)) ! length fs = cur\<lparr>t_type := t\<rparr>"
proof -
  have l: "length fs < length (r_rstack c)" "nat (r_ridx c) = length fs"
    using assms by (auto simp: at_stack_def)
  show "r_rstack (set_task c (r_ridx c) (cur\<lparr>t_type := t\<rparr>)) ! length fs = cur\<lparr>t_type := t\<rparr>"
    using l by simp
  have "stk (r_rstack c) fs ps" using assms(1) by (simp add: at_stack_def)
  then have "stk ((r_rstack c)[length fs := cur\<lparr>t_type := t\<rparr>]) fs ps"
    by (rule stk_agree) (use l cur in auto)
  then show "at_stack (set_task c (r_ridx c) (cur\<lparr>t_type := t\<rparr>)) fs ps"
    using assms(1) l by (simp add: at_stack_def)
qed

lemma at_stack_store: "at_stack (c\<lparr>r_store := h\<rparr>) fs ps \<longleftrightarrow> at_stack c fs ps"
  by (simp add: at_stack_def)

locale reply_builder =
  fixes fns :: "'h redisReplyObjectFunctions"
    and rep :: "'h \<Rightarrow> frames \<Rightarrow> robj list \<Rightarrow> bool"
    and whole :: "'h \<Rightarrow> robj \<Rightarrow> reply \<Rightarrow> bool"
    and oom :: bool
    and mkString :: "'h \<Rightarrow> redisReadTask \<Rightarrow> redisReadTask option \<Rightarrow> string \<Rightarrow> ('h \<times> robj option) option"
    and mkArray :: "'h \<Rightarrow> redisReadTask \<Rightarrow> redisReadTask option \<Rightarrow> int \<Rightarrow> ('h \<times> robj option) option"
    and mkInteger :: "'h \<Rightarrow> redisReadTask \<Rightarrow> redisReadTask option \<Rightarrow> int \<Rightarrow> ('h \<times> robj option) option"
    and mkNil :: "'h \<Rightarrow> redisReadTask \<Rightarrow> redisReadTask option \<Rightarrow> ('h \<times> robj option) option"
    and release :: "'h \<Rightarrow> robj \<Rightarrow> 'h option"
  assumes table:
      "createString fns = Some mkString" "createArray fns = Some mkArray"
      "createInteger fns = Some mkInteger" "createNil fns = Some mkNil" "freeObject fns = Some release"
    and string_law: "t_type cur \<in> {REDIS_REPLY_STRING, REDIS_REPLY_STATUS, REDIS_REPLY_ERROR} \<Longrightarrow>
      makes rep whole release oom cur parent (\<lambda>h. mkString h cur parent s) (RStr (t_type cur) s)"
    and integer_law: "makes rep whole release oom cur parent (\<lambda>h. mkInteger h cur parent v) (RInt v)"
    and nil_law: "makes rep whole release oom cur parent (\<lambda>h. mkNil h cur parent) RNil"
    and empty_law: "makes rep whole release oom cur parent (\<lambda>h. mkArray h cur parent 0) (RArr 0 [])"
    and array_law: "0 < n \<Longrightarrow> int n \<le> INT_MAX \<Longrightarrow> opens rep release oom cur parent (\<lambda>h. mkArray h cur parent (int n)) n"
    and close_law: "rep h ((n, ts) # (n', ts') # fs) (p # p' # ps) \<Longrightarrow> length ts = n \<Longrightarrow>
      rep h ((n', ts' @ [RArr n ts]) # fs) (p' # ps)"
    and root_law: "rep h [(n, ts)] [p] \<Longrightarrow> length ts = n \<Longrightarrow> whole h p (RArr n ts)"
    and release_law: "rep h fs (p # ps) \<Longrightarrow> \<exists>h'. release h (last (p # ps)) = Some h'"
begin

text \<open>The reader between two items, when it stops, and the outcome of an item.\<close>

definition stoppable :: "'h redisReader \<Rightarrow> frames \<Rightarrow> robj list \<Rightarrow> bool" where
  "stoppable c fs ps \<longleftrightarrow> at_stack c fs ps \<and> r_fn c = Some fns \<and>
     (fs \<noteq> [] \<longrightarrow> release (r_store c) (last ps) \<noteq> None)"

definition ready :: "'h redisReader \<Rightarrow> frames \<Rightarrow> robj list \<Rightarrow> bool" where
  "ready c fs ps \<longleftrightarrow> at_stack c fs ps \<and> r_fn c = Some fns \<and> (fs \<noteq> [] \<longrightarrow> rep (r_store c) fs ps)"

definition fresh :: "'h redisReader \<Rightarrow> frames \<Rightarrow> robj list \<Rightarrow> bool" where
  "fresh c fs ps \<longleftrightarrow> ready c fs ps \<and> t_type (r_rstack c ! length fs) < 0"

definition emitted :: "'h redisReader \<Rightarrow> reply \<Rightarrow> bool" where
  "emitted c x \<longleftrightarrow>
     length (r_rstack c) = 9 \<and> r_ridx c = -1 \<and> r_err c = 0 \<and> r_fn c = Some fns \<and>
     (\<exists>q. r_reply c = Some q \<and> whole (r_store c) q x)"

definition delivered :: "'h redisReader \<Rightarrow> frames + reply \<Rightarrow> bool" where
  "delivered c d \<longleftrightarrow> (case d of Inl fs \<Rightarrow> \<exists>ps. fresh c fs ps | Inr x \<Rightarrow> emitted c x)"

definition failed :: "int \<Rightarrow> string \<Rightarrow> 'h redisReader \<Rightarrow> bool" where
  "failed e msg c \<longleftrightarrow> r_err c = e \<and> r_errstr c = msg \<and> dead_buf c \<and> r_ridx c = -1"

lemma ready_stoppable:
  assumes "ready c fs ps"
  shows "stoppable c fs ps"
proof (cases fs)
  case (Cons f fs')
  then obtain p ps' where ps: "ps = p # ps'"
    using assms stk_length by (cases ps) (fastforce simp: ready_def at_stack_def)+
  obtain h' where "release (r_store c) (last ps) = Some h'"
    using release_law [of "r_store c" fs p ps'] assms Cons ps by (auto simp: ready_def)
  then show ?thesis using assms by (simp add: ready_def stoppable_def)
qed (use assms in \<open>simp add: ready_def stoppable_def\<close>)

lemma set_error_ok:
  assumes "stoppable c fs ps"
  shows "\<exists>c'. redisReaderSetError c e msg = Some c' \<and> failed e (take 127 (cstr msg)) c'"
proof (cases fs)
  case Nil
  then show ?thesis
    using assms by (simp add: stoppable_def at_stack_def redisReaderSetError_def failed_def dead_buf_def)
next
  case (Cons f fs')
  then obtain h' where "release (r_store c) (last ps) = Some h'"
    using assms by (auto simp: stoppable_def)
  then show ?thesis
    using assms Cons table(5)
    by (simp add: stoppable_def at_stack_def redisReaderSetError_def failed_def dead_buf_def)
qed

text \<open>After a child was put in place, going to the next task is completing the open arrays.\<close>

lemma moveToNextTask_complete:
  assumes "length (r_rstack c) = 9" and "length fs \<le> 8" and "r_ridx c = int (length fs)"
    and "stk (r_rstack c) fs ps" and "r_err c = 0" and "r_fn c = Some fns"
    and "r_reply c = Some q" and "fs \<noteq> [] \<Longrightarrow> q = last ps"
    and "case fs of [] \<Rightarrow> whole (r_store c) q x
         | (n, ts) # fs' \<Rightarrow> rep (r_store c) ((n, ts @ [x]) # fs') ps"
  shows "\<exists>c'. moveToNextTask c = Some c' \<and> delivered c' (complete fs x)"
  using assms
proof (induction fs arbitrary: c ps x)
  case Nil
  then show ?case
    by (simp add: moveToNextTask.simps [of c] delivered_def emitted_def)
next
  case (Cons f fs)
  obtain n ts where f: "f = (n, ts)" by force
  obtain p ps' where ps: "ps = p # ps'" using Cons.prems(4) f by (cases ps) auto
  define cur where "cur = r_rstack c ! Suc (length fs)"
  define prv where "prv = r_rstack c ! length fs"
  have cur: "task_at c (r_ridx c) = Some cur" and prv: "task_at c (r_ridx c - 1) = Some prv"
    using Cons.prems by (auto simp: task_at_def cur_def prv_def nat_add_distrib)
  have st: "t_type prv = REDIS_REPLY_ARRAY" "t_elements prv = int n" "t_parent cur = Some (length fs)"
      "t_idx cur = int (length ts)" "length ts < n" "stk (r_rstack c) fs ps'"
    using Cons.prems(4) f ps by (auto simp: Let_def cur_def prv_def)
  have rep: "rep (r_store c) ((n, ts @ [x]) # fs) (p # ps')" using Cons.prems(9) f ps by simp
  show ?case
  proof (cases "length ts + 1 = n")
    case True
    define c1 where "c1 = c\<lparr>r_ridx := r_ridx c - 1\<rparr>"
    have mv: "moveToNextTask c = moveToNextTask c1"
      using Cons.prems(3) cur prv st True by (simp add: moveToNextTask.simps [of c] c1_def)
    have new: "case fs of [] \<Rightarrow> whole (r_store c) q (RArr n (ts @ [x]))
         | (n', ts') # fs' \<Rightarrow> rep (r_store c) ((n', ts' @ [RArr n (ts @ [x])]) # fs') ps'"
    proof (cases fs)
      case Nil
      then have "ps' = []" using st(6) by (cases ps') auto
      then show ?thesis
        using rep root_law [of "r_store c" n "ts @ [x]" p] True Nil Cons.prems(8) ps by simp
    next
      case (Cons g gs)
      then obtain n' ts' p' ps'' where "g = (n', ts')" "ps' = p' # ps''"
        using st(6) by (cases g; cases ps') auto
      then show ?thesis using rep close_law True Cons by simp
    qed
    have "\<exists>c'. moveToNextTask c1 = Some c' \<and> delivered c' (complete fs (RArr n (ts @ [x])))"
    proof (rule Cons.IH [of c1 ps'])
      show "fs \<noteq> [] \<Longrightarrow> q = last ps'"
        using Cons.prems(8) ps st(6) by (cases ps'; cases fs) auto
      show "case fs of [] \<Rightarrow> whole (r_store c1) q (RArr n (ts @ [x]))
         | (n', ts') # fs' \<Rightarrow> rep (r_store c1) ((n', ts' @ [RArr n (ts @ [x])]) # fs') ps'"
        using new by (simp add: c1_def cong: list.case_cong)
    qed (use Cons.prems st(6) in \<open>simp_all add: c1_def\<close>)
    then show ?thesis using True f mv by simp
  next
    case False
    define cur' where "cur' = cur\<lparr>t_type := -1, t_elements := -1, t_idx := t_idx cur + 1\<rparr>"
    define c1 where "c1 = set_task c (r_ridx c) cur'"
    have nat_ridx: "nat (r_ridx c) = Suc (length fs)" using Cons.prems(3) by simp
    have mv: "moveToNextTask c = Some c1"
      using Cons.prems(3) cur prv st False by (simp add: moveToNextTask.simps [of c] c1_def cur'_def)
    have nth: "r_rstack c1 ! Suc (length fs) = cur'"
      using Cons.prems(1,2) nat_ridx by (simp add: c1_def)
    have old: "r_rstack c1 ! i = r_rstack c ! i" if "i \<le> length fs" for i
      using that nat_ridx by (simp add: c1_def)
    have "stk (r_rstack c1) fs ps'"
      by (rule stk_agree [OF st(6)]) (use old in auto)
    then have "stk (r_rstack c1) ((n, ts @ [x]) # fs) (p # ps')"
      using Cons.prems(4) f ps nth old [of "length fs"] st False
      by (auto simp: Let_def cur'_def)
    then have "fresh c1 ((n, ts @ [x]) # fs) (p # ps')"
      using Cons.prems rep nth ps by (auto simp: fresh_def ready_def at_stack_def c1_def cur'_def)
    then show ?thesis using mv False f by (auto simp: delivered_def)
  qed
qed

text \<open>Making a node and finishing the item.\<close>

definition leaf_out :: "('h redisReader \<times> status) option \<Rightarrow> frames \<Rightarrow> reply \<Rightarrow> bool" where
  "leaf_out res fs x \<longleftrightarrow>
     (\<exists>c'. res = Some (c', REDIS_OK) \<and> delivered c' (complete fs x)) \<or>
     (oom \<and> (\<exists>c'. res = Some (c', REDIS_ERR) \<and> failed REDIS_ERR_OOM ''Out of memory'' c'))"

lemma oom_out:
  assumes "stoppable c fs ps" and "oom"
  shows "leaf_out (fails (redisReaderSetErrorOOM c)) fs x"
proof -
  have "take 127 (cstr ''Out of memory'') = ''Out of memory''" by code_simp
  then obtain c' where "redisReaderSetErrorOOM c = Some c'" "failed REDIS_ERR_OOM ''Out of memory'' c'"
    using set_error_ok [OF assms(1), of REDIS_ERR_OOM "''Out of memory''"]
    by (auto simp: redisReaderSetErrorOOM_def)
  then show ?thesis using assms(2) unfolding leaf_out_def by simp
qed

lemma make_leaf:
  assumes c: "ready c fs ps" and cur: "t_idx cur = t_idx (r_rstack c ! length fs)"
    and par: "parent = (if fs = [] then None else Some (r_rstack c ! (length fs - 1)))"
    and sel: "sel fns = Some f" and mk: "makes rep whole release oom cur parent (call f) x"
  shows "leaf_out (Option.bind (make_obj c sel call tag) (\<lambda>(r1, obj). finish_item r1 obj)) fs x"
proof -
  have mo: "make_obj c sel call tag =
      map_option (\<lambda>(h, q). (c\<lparr>r_store := h\<rparr>, q)) (call f (r_store c))"
    using c sel by (cases "call f (r_store c)") (auto simp: make_obj_def ready_def)
  have st: "at_stack c fs ps" using c by (simp add: ready_def)
  show ?thesis
  proof (cases fs)
    case Nil
    then obtain h' q where q: "call f (r_store c) = Some (h', q)"
        "case q of None \<Rightarrow> oom | Some p \<Rightarrow> whole h' p x"
      using makes_root [of rep whole release oom cur "call f" x "r_store c"] mk par by auto
    have rdy: "stoppable (c\<lparr>r_store := h'\<rparr>) fs ps"
      using c Nil by (simp add: ready_def stoppable_def at_stack_store)
    show ?thesis
    proof (cases q)
      case None
      then show ?thesis using q mo oom_out [OF rdy] by (simp add: finish_item_def)
    next
      case (Some p)
      have "\<exists>c'. moveToNextTask (c\<lparr>r_store := h', r_reply := Some p\<rparr>) = Some c' \<and>
          delivered c' (complete fs x)"
        using st c Nil q Some
        by (intro moveToNextTask_complete [where q = p and ps = ps]) (auto simp: at_stack_def ready_def)
      then show ?thesis
        using q mo Some st Nil by (auto simp: finish_item_def leaf_out_def at_stack_def)
    qed
  next
    case (Cons g fs')
    obtain n ts where g: "g = (n, ts)" by force
    obtain p ps' where ps: "ps = p # ps'" using st Cons g by (cases ps) (auto simp: at_stack_def)
    have top: "t_obj (r_rstack c ! length fs') = Some p" "t_idx cur = int (length ts)" "length ts < n"
      using st Cons g ps cur by (auto simp: at_stack_def Let_def)
    have rep: "rep (r_store c) ((n, ts) # fs') (p # ps')" using c Cons g ps by (simp add: ready_def)
    have mk': "makes rep whole release oom cur (Some (r_rstack c ! length fs')) (call f) x"
      using mk par Cons by simp
    obtain h' q where q: "call f (r_store c) = Some (h', q)"
        "case q of None \<Rightarrow> oom \<and> release h' (last (p # ps')) \<noteq> None
         | Some _ \<Rightarrow> rep h' ((n, ts @ [x]) # fs') (p # ps')"
      using makes_child [OF mk' top rep] by blast
    show ?thesis
    proof (cases q)
      case None
      then have "stoppable (c\<lparr>r_store := h'\<rparr>) fs ps"
        using c q Cons g ps by (simp add: ready_def stoppable_def at_stack_store)
      then show ?thesis using q mo None oom_out by (simp add: finish_item_def)
    next
      case (Some p')
      have "\<exists>c'. moveToNextTask (c\<lparr>r_store := h'\<rparr>) = Some c' \<and> delivered c' (complete fs x)"
        using st c Cons g ps q Some
        by (intro moveToNextTask_complete [where q = "last ps" and ps = ps])
          (auto simp: at_stack_def ready_def)
      then show ?thesis
        using q mo Some st Cons by (auto simp: finish_item_def leaf_out_def at_stack_def)
    qed
  qed
qed

lemma parent_ready:
  assumes "ready c fs ps" and "cur = r_rstack c ! length fs"
  shows "parent_of c cur = (if fs = [] then None else Some (r_rstack c ! (length fs - 1)))"
  using at_stack_parent [of c fs ps] assms by (simp add: ready_def)

lemma make_integer:
  "ready c fs ps \<Longrightarrow> cur = r_rstack c ! length fs \<Longrightarrow>
   leaf_out (Option.bind (make_obj c createInteger (\<lambda>f h. f h cur (parent_of c cur) v) tag)
     (\<lambda>(r1, obj). finish_item r1 obj)) fs (RInt v)"
  by (rule make_leaf [where call = "\<lambda>f h. f h cur (parent_of c cur) v" and parent = "parent_of c cur"
        and cur = cur and f = mkInteger])
    (assumption, simp, erule (1) parent_ready, rule table, rule integer_law)

lemma make_nil:
  "ready c fs ps \<Longrightarrow> cur = r_rstack c ! length fs \<Longrightarrow>
   leaf_out (Option.bind (make_obj c createNil (\<lambda>f h. f h cur (parent_of c cur)) tag)
     (\<lambda>(r1, obj). finish_item r1 obj)) fs RNil"
  by (rule make_leaf [where call = "\<lambda>f h. f h cur (parent_of c cur)" and parent = "parent_of c cur"
        and cur = cur and f = mkNil])
    (assumption, simp, erule (1) parent_ready, rule table, rule nil_law)

lemma make_string:
  "ready c fs ps \<Longrightarrow> cur = r_rstack c ! length fs \<Longrightarrow>
   t_type cur \<in> {REDIS_REPLY_STRING, REDIS_REPLY_STATUS, REDIS_REPLY_ERROR} \<Longrightarrow>
   leaf_out (Option.bind (make_obj c createString (\<lambda>f h. f h cur (parent_of c cur) s) tag)
     (\<lambda>(r1, obj). finish_item r1 obj)) fs (RStr (t_type cur) s)"
  by (rule make_leaf [where call = "\<lambda>f h. f h cur (parent_of c cur) s" and parent = "parent_of c cur"
        and cur = cur and f = mkString])
    (assumption, simp, erule (1) parent_ready, rule table, rule string_law, assumption)

lemma make_empty:
  "ready c fs ps \<Longrightarrow> cur = r_rstack c ! length fs \<Longrightarrow>
   leaf_out (Option.bind (make_obj c createArray (\<lambda>f h. f h cur (parent_of c cur) 0) tag)
     (\<lambda>(r1, obj). finish_item r1 obj)) fs (RArr 0 [])"
  by (rule make_leaf [where call = "\<lambda>f h. f h cur (parent_of c cur) 0" and parent = "parent_of c cur"
        and cur = cur and f = mkArray])
    (assumption, simp, erule (1) parent_ready, rule table, rule empty_law)

text \<open>What a scanned item means for the outcome of the abstract step.\<close>

definition item_out :: "'h outcome option \<Rightarrow> frames \<Rightarrow> scanned \<Rightarrow> bool" where
  "item_out res fs s \<longleftrightarrow>
     (case s of
        Wait \<Rightarrow> (\<exists>c' bs'. res = Some (c', REDIS_ERR, bs') \<and> r_err c' = 0)
      | Fail e msg \<Rightarrow> (\<exists>c'. res = Some (c', REDIS_ERR, []) \<and> failed e msg c')
      | Leaf x rest \<Rightarrow> (\<exists>c'. res = Some (c', REDIS_OK, rest) \<and> delivered c' (complete fs x))
      | Open n rest \<Rightarrow> (\<exists>c' ps'. res = Some (c', REDIS_OK, rest) \<and> fresh c' ((n, []) # fs) ps')) \<or>
     (oom \<and> (\<exists>c'. res = Some (c', REDIS_ERR, []) \<and> failed REDIS_ERR_OOM ''Out of memory'' c'))"

lemma leaf_item_out: "leaf_out res fs x \<Longrightarrow> item_out (after rest res) fs (Leaf x rest)"
  by (auto simp: leaf_out_def item_out_def after_def)

lemma fail_item_out:
  assumes "ready c fs ps" and "take 127 (cstr msg) = msg'"
  shows "item_out (after [] (fails (redisReaderSetError c e msg))) fs (Fail e msg')"
  using set_error_ok [OF ready_stoppable [OF assms(1)], of e msg] assms(2)
  by (auto simp: item_out_def after_def)

lemma line_item_out:
  assumes c: "ready c fs ps" and cur: "cur = r_rstack c ! length fs"
    and k: "find_sub CRLF bs = Some k"
    and t: "t_type cur \<in> {REDIS_REPLY_ERROR, REDIS_REPLY_STATUS, REDIS_REPLY_INTEGER}"
  shows "item_out (line_item c cur bs) fs (scan_line (t_type cur) (take k bs) (drop (k + 2) bs))"
proof (cases "t_type cur = REDIS_REPLY_INTEGER")
  case True
  have some: "Option.bind (r_fn c) createInteger = Some mkInteger"
    using c table(3) by (simp add: ready_def)
  show ?thesis
  proof (cases "string2ll (take k bs)")
    case None
    have "take 127 (cstr ''Bad integer value'') = ''Bad integer value''" by code_simp
    then show ?thesis
      using fail_item_out [OF c] None k True some
      by (simp add: line_item_def lineObject_def scan_line_def after_def option.map_comp comp_def)
  next
    case (Some v)
    have "leaf_out (lineObject c cur (take k bs)) fs (RInt v)"
      unfolding lineObject_finish using True Some make_integer [OF c cur] by simp
    then show ?thesis using leaf_item_out k True Some by (simp add: line_item_def scan_line_def)
  qed
next
  case False
  have "leaf_out (lineObject c cur (take k bs)) fs (RStr (t_type cur) (take k bs))"
    unfolding lineObject_finish using False t make_string [OF c cur] by auto
  then show ?thesis
    using leaf_item_out False t k by (auto simp: line_item_def scan_line_def)
qed

lemma bulk_item_out:
  assumes c: "ready c fs ps" and cur: "cur = r_rstack c ! length fs"
    and k: "find_sub CRLF bs = Some k" and t: "t_type cur = REDIS_REPLY_STRING"
  shows "item_out (bulk_item c cur bs) fs (scan_bulk (take k bs) (drop (k + 2) bs))"
proof (cases "string2ll (take k bs)")
  case None
  have "take 127 (cstr ''Bad bulk string length'') = ''Bad bulk string length''" by code_simp
  then show ?thesis
    using fail_item_out [OF c] None k by (simp add: bulk_item_def scan_bulk_def)
next
  case (Some len)
  have range: "take 127 (cstr ''Bulk string length out of range'') = ''Bulk string length out of range''"
    by code_simp
  have le: "k + nat len + 4 \<le> length bs \<longleftrightarrow> nat len + 2 \<le> length (drop (k + 2) bs)"
    using find_CRLF_length [OF k] by auto
  have nil: "leaf_out (bulkObject c cur None 0) fs RNil"
    unfolding bulkObject_finish using make_nil [OF c cur] by simp
  have str: "leaf_out (bulkObject c cur (Some s) 0) fs (RStr REDIS_REPLY_STRING s)" for s
    unfolding bulkObject_finish using make_string [OF c cur] t by simp
  have drop4: "drop (nat len + 2) (drop (k + 2) bs) = drop (k + nat len + 4) bs"
  proof -
    have "nat len + 2 + (k + 2) = k + nat len + 4" by simp
    then show ?thesis by (simp only: drop_drop)
  qed
  consider "len < -1" | "len = -1" | "0 \<le> len" "nat len + 2 \<le> length (drop (k + 2) bs)"
    | "0 \<le> len" "\<not> nat len + 2 \<le> length (drop (k + 2) bs)" by linarith
  then show ?thesis
  proof cases
    case 1
    then show ?thesis
      using fail_item_out [OF c range] Some k by (simp add: bulk_item_def scan_bulk_def)
  next
    case 2
    then show ?thesis
      using leaf_item_out [OF nil] Some k by (simp add: bulk_item_def scan_bulk_def)
  next
    case 3
    then show ?thesis
      using leaf_item_out [OF str] Some k le drop4 by (simp add: bulk_item_def scan_bulk_def)
  next
    case 4
    then show ?thesis
      using c Some k le by (simp add: bulk_item_def scan_bulk_def item_out_def ready_def at_stack_def)
  qed
qed

text \<open>At the root the reply is set after the stack has moved on; the result is the same.\<close>

lemma multi_finish:
  assumes "r_ridx r1 = r_ridx c" and "0 \<le> r_ridx c"
  shows "(if obj = None then fails (redisReaderSetErrorOOM r1)
      else do { r2 \<leftarrow> moveToNextTask r1; Some (set_root (r_ridx c = 0) obj r2, REDIS_OK) })
    = finish_item r1 obj"
proof (cases "r_ridx c = 0")
  case True
  then show ?thesis
    using assms by (simp add: finish_item_def set_root_def moveToNextTask.simps [of r1]
        moveToNextTask.simps [of "r1\<lparr>r_reply := obj\<rparr>"])
next
  case False
  then show ?thesis using assms by (simp add: finish_item_def set_root_def)
qed

lemma make_multi_finish:
  assumes "0 \<le> r_ridx c"
  shows "Option.bind (make_obj c sel call tag) (\<lambda>(r1, obj).
      if obj = None then fails (redisReaderSetErrorOOM r1)
      else do { r2 \<leftarrow> moveToNextTask r1; Some (set_root (r_ridx c = 0) obj r2, REDIS_OK) })
    = Option.bind (make_obj c sel call tag) (\<lambda>(r1, q). finish_item r1 q)"
proof (cases "make_obj c sel call tag")
  case (Some x)
  obtain r1 q where x: "x = (r1, q)" by force
  have "r_ridx r1 = r_ridx c" using Some x by (auto dest: make_obj_keeps)
  from multi_finish [OF this assms, of q] show ?thesis using Some x by (simp only: bind.simps prod.case)
qed simp

lemma push_fresh:
  assumes c: "ready c fs ps" and d: "length fs \<noteq> 8" and cur: "cur = r_rstack c ! length fs"
    and t: "t_type cur = REDIS_REPLY_ARRAY" and n: "0 < n"
    and rep: "rep h ((n, []) # fs) (p # ps)"
  shows "\<exists>c'. push_task (c\<lparr>r_store := h\<rparr>) cur (int n) (Some p) = Some c' \<and>
           fresh (set_root (r_ridx c = 0) (Some p) c') ((n, []) # fs) (p # ps)"
proof -
  let ?k = "length fs"
  have st: "length (r_rstack c) = 9" "?k \<le> 8" "r_ridx c = int ?k" "stk (r_rstack c) fs ps"
      "r_err c = 0" "r_reply c = (if fs = [] then None else Some (last ps))" "r_fn c = Some fns"
    using c by (auto simp: ready_def at_stack_def)
  have k8: "Suc ?k < 9" using st(2) d by simp
  define st' where "st' = (r_rstack c)[?k := cur\<lparr>t_elements := int n, t_obj := Some p\<rparr>,
      Suc ?k := \<lparr>t_type = -1, t_elements = -1, t_idx = 0, t_obj = None,
                t_parent = Some ?k, t_privdata = r_privdata c\<rparr>]"
  have nat1: "nat (1 + int ?k) = Suc ?k" by simp
  have push: "push_task (c\<lparr>r_store := h\<rparr>) cur (int n) (Some p) =
      Some (c\<lparr>r_store := h, r_rstack := st', r_ridx := int ?k + 1\<rparr>)"
    using st k8 by (simp add: push_task_def Let_def task_at_def set_task_def st'_def nat1 add.commute)
  have "stk st' fs ps"
    by (rule stk_agree [OF st(4)]) (use st(1) k8 cur in \<open>auto simp: st'_def nth_list_update\<close>)
  then have "stk st' ((n, []) # fs) (p # ps)"
    using st(1) k8 t n cur by (simp add: st'_def Let_def nth_list_update)
  moreover have "t_type (st' ! Suc ?k) < 0" using st(1) k8 by (simp add: st'_def nth_list_update)
  moreover have "length ps = ?k" using stk_length [OF st(4)] .
  ultimately show ?thesis
    unfolding push using st k8 rep
    by (auto simp: fresh_def ready_def at_stack_def set_root_def st'_def)
qed

lemma open_out:
  assumes c: "ready c fs ps" and cur: "cur = r_rstack c ! length fs" and n: "0 < n" "int n \<le> INT_MAX"
  shows "\<exists>h q. mkArray (r_store c) cur (parent_of c cur) (int n) = Some (h, q) \<and>
     (case q of None \<Rightarrow> oom \<and> stoppable (c\<lparr>r_store := h\<rparr>) fs ps
      | Some p \<Rightarrow> rep h ((n, []) # fs) (p # ps))"
proof -
  have st: "at_stack c fs ps" using c by (simp add: ready_def)
  have par: "parent_of c cur = (if fs = [] then None else Some (r_rstack c ! (length fs - 1)))"
    by (rule parent_ready [OF c cur])
  note law = array_law [OF n(1,2), of cur "parent_of c cur"]
  show ?thesis
  proof (cases fs)
    case Nil
    then have "ps = []" using st by (cases ps) (auto simp: at_stack_def)
    moreover have "opens rep release oom cur None (\<lambda>h. mkArray h cur None (int n)) n"
      using law par Nil by simp
    from opens_root [OF this, of "r_store c"] obtain h q where
      "mkArray (r_store c) cur None (int n) = Some (h, q)"
      "case q of None \<Rightarrow> oom | Some p \<Rightarrow> rep h [(n, [])] [p]" by blast
    ultimately show ?thesis
      using c Nil par by (auto simp: ready_def stoppable_def at_stack_store split: option.splits)
  next
    case (Cons g fs')
    obtain m ts where g: "g = (m, ts)" by force
    obtain p ps' where ps: "ps = p # ps'" using st Cons g by (cases ps) (auto simp: at_stack_def)
    have top: "t_obj (r_rstack c ! length fs') = Some p" "t_idx cur = int (length ts)" "length ts < m"
      using st Cons g ps cur by (auto simp: at_stack_def Let_def)
    have rep: "rep (r_store c) ((m, ts) # fs') (p # ps')" using c Cons g ps by (simp add: ready_def)
    have law': "opens rep release oom cur (Some (r_rstack c ! length fs'))
        (\<lambda>h. mkArray h cur (Some (r_rstack c ! length fs')) (int n)) n"
      using law par Cons by simp
    obtain h q where "mkArray (r_store c) cur (Some (r_rstack c ! length fs')) (int n) = Some (h, q)"
      "case q of None \<Rightarrow> oom \<and> release h (last (p # ps')) \<noteq> None
       | Some p' \<Rightarrow> rep h ((n, []) # (m, ts) # fs') (p' # p # ps')"
      using opens_child [OF law' top rep] by blast
    then show ?thesis
      using c Cons g ps par by (auto simp: ready_def stoppable_def at_stack_store split: option.splits)
  qed
qed

lemma multi_bulk_item_out:
  assumes c: "ready c fs ps" and cur: "cur = r_rstack c ! length fs" and d: "length fs \<noteq> 8"
    and k: "find_sub CRLF bs = Some k" and t: "t_type cur = REDIS_REPLY_ARRAY"
  shows "item_out (multi_bulk_item c cur bs) fs (scan_multi (take k bs) (drop (k + 2) bs))"
proof -
  have ridx: "r_ridx c = int (length fs)" using c by (simp add: ready_def at_stack_def)
  have item: "multi_bulk_item c cur bs = after (drop (k + 2) bs) (multiBulkObject c cur (take k bs))"
    using k d ridx by (simp add: multi_bulk_item_def)
  have fail: "item_out (after (drop (k + 2) bs) (fails (redisReaderSetError c e msg))) fs (Fail e msg)"
    if "take 127 (cstr msg) = msg" for e msg
    using fail_item_out [OF c that, of e]
    by (cases "redisReaderSetError c e msg") (auto simp: after_def)
  show ?thesis
  proof (cases "string2ll (take k bs)")
    case None
    have "take 127 (cstr ''Bad multi-bulk length'') = ''Bad multi-bulk length''" by code_simp
    then show ?thesis
      using fail None item by (simp add: scan_multi_def multiBulkObject_def)
  next
    case (Some n)
    note obj = multiBulkObject_def [of c cur "take k bs", unfolded Let_def Some option.case]
    consider "n < -1 \<or> n > INT_MAX" | "n = -1" | "n = 0" | "0 < n" "\<not> (n < -1 \<or> n > INT_MAX)"
      by linarith
    then show ?thesis
    proof cases
      case 1
      have "take 127 (cstr ''Multi-bulk length out of range'') = ''Multi-bulk length out of range''"
        by code_simp
      then show ?thesis using fail 1 item Some by (simp add: scan_multi_def obj)
    next
      case 2
      then have nn: "\<not> 0 < n" by simp
      have "multiBulkObject c cur (take k bs) =
          Option.bind (make_obj c createNil (\<lambda>f h. f h cur (parent_of c cur)) REDIS_REPLY_NIL)
            (\<lambda>(r1, q). finish_item r1 q)"
        using 2 make_multi_finish [of c] ridx unfolding obj if_not_P [OF nn]
        by (simp add: INT_MAX_def)
      then show ?thesis
        using leaf_item_out [OF make_nil [OF c cur]] item 2 Some by (simp add: scan_multi_def INT_MAX_def)
    next
      case 3
      then have nn: "\<not> 0 < n" by simp
      have "multiBulkObject c cur (take k bs) =
          Option.bind (make_obj c createArray (\<lambda>f h. f h cur (parent_of c cur) 0) REDIS_REPLY_ARRAY)
            (\<lambda>(r1, q). finish_item r1 q)"
        using 3 make_multi_finish [of c] ridx unfolding obj if_not_P [OF nn]
        by (simp add: INT_MAX_def)
      then show ?thesis
        using leaf_item_out [OF make_empty [OF c cur]] item 3 Some by (simp add: scan_multi_def INT_MAX_def)
    next
      case 4
      have n: "int (nat n) = n" "0 < nat n" using 4 by simp_all
      have obj4: "multiBulkObject c cur (take k bs) =
          Option.bind (make_obj c createArray (\<lambda>f h. f h cur (parent_of c cur) n) REDIS_REPLY_ARRAY)
            (\<lambda>(r1, q). if q = None then fails (redisReaderSetErrorOOM r1)
               else do { r2 \<leftarrow> push_task r1 cur n q; Some (set_root (r_ridx c = 0) q r2, REDIS_OK) })"
        using 4(2) unfolding obj if_P [OF 4(1)] using 4(1) by simp
      obtain h q where q: "mkArray (r_store c) cur (parent_of c cur) n = Some (h, q)"
        and out: "case q of None \<Rightarrow> oom \<and> stoppable (c\<lparr>r_store := h\<rparr>) fs ps
          | Some p \<Rightarrow> rep h ((nat n, []) # fs) (p # ps)"
        using open_out [OF c cur n(2)] n(1) 4(2) by (metis not_less)
      have mo: "make_obj c createArray (\<lambda>f h. f h cur (parent_of c cur) n) REDIS_REPLY_ARRAY
          = Some (c\<lparr>r_store := h\<rparr>, q)"
        using c q table(2) by (simp add: make_obj_def ready_def)
      have scan: "scan_multi (take k bs) (drop (k + 2) bs) = Open (nat n) (drop (k + 2) bs)"
        using 4 Some by (simp add: scan_multi_def)
      show ?thesis
      proof (cases q)
        case None
        have "take 127 (cstr ''Out of memory'') = ''Out of memory''" by code_simp
        then obtain c' where "redisReaderSetErrorOOM (c\<lparr>r_store := h\<rparr>) = Some c'"
            "failed REDIS_ERR_OOM ''Out of memory'' c'"
          using set_error_ok [of "c\<lparr>r_store := h\<rparr>" fs ps REDIS_ERR_OOM "''Out of memory''"] out None
          by (auto simp: redisReaderSetErrorOOM_def)
        then show ?thesis
          using out None unfolding item scan item_out_def obj4 mo by (simp add: after_def)
      next
        case (Some p)
        obtain c' where "push_task (c\<lparr>r_store := h\<rparr>) cur n q = Some c'"
          and "fresh (set_root (r_ridx c = 0) q c') ((nat n, []) # fs) (p # ps)"
          using push_fresh [OF c d cur t n(2)] out Some n(1) by fastforce
        then show ?thesis
          using Some unfolding item scan item_out_def obj4 mo by (auto simp: after_def)
      qed
    qed
  qed
qed

text \<open>One step of the reader is one step of the parser.\<close>

lemma ready_set_type:
  assumes "ready c fs ps" and "cur = r_rstack c ! length fs"
  shows "ready (set_task c (r_ridx c) (cur\<lparr>t_type := t\<rparr>)) fs ps"
    and "cur\<lparr>t_type := t\<rparr> = r_rstack (set_task c (r_ridx c) (cur\<lparr>t_type := t\<rparr>)) ! length fs"
  using at_stack_set_type [of c fs ps cur t] assms by (auto simp: ready_def)

lemma item_scan:
  assumes c: "fresh c fs ps"
  shows "item_out (item c bs) fs (scan (length fs) bs)"
proof -
  define cur where "cur = r_rstack c ! length fs"
  have rdy: "ready c fs ps" and ty: "t_type cur < 0" and e: "r_err c = 0"
    using c by (auto simp: fresh_def cur_def ready_def at_stack_def)
  have task: "task_at c (r_ridx c) = Some cur"
    using at_stack_task [of c fs ps] rdy by (simp add: ready_def cur_def)
  show ?thesis
  proof (cases bs)
    case Nil
    then show ?thesis using task ty e by (simp add: item_def item_out_def)
  next
    case (Cons b bs')
    show ?thesis
    proof (cases "type_of_byte b")
      case None
      then show ?thesis
        using fail_item_out [OF rdy, of _ _ REDIS_ERR_PROTOCOL] task ty Cons
        by (simp add: item_def redisReaderSetErrorProtocolByte_def protocol_byte_text_def)
    next
      case (Some t)
      define cur1 where "cur1 = cur\<lparr>t_type := t\<rparr>"
      define c1 where "c1 = set_task c (r_ridx c) cur1"
      have c1: "ready c1 fs ps" and cur1: "cur1 = r_rstack c1 ! length fs"
        using ready_set_type [OF rdy cur_def] by (simp_all add: c1_def cur1_def)
      have e1: "r_err c1 = 0" and ri: "r_ridx c1 = int (length fs)"
        using c1 by (auto simp: ready_def at_stack_def)
      have t1: "t_type cur1 = t" by (simp add: cur1_def)
      have it: "item c bs = typed_item c1 cur1 bs'"
        using task ty Cons Some by (simp add: item_def c1_def cur1_def)
      have tt: "t = REDIS_REPLY_ARRAY \<or> t = REDIS_REPLY_STRING \<or>
          t \<in> {REDIS_REPLY_ERROR, REDIS_REPLY_STATUS, REDIS_REPLY_INTEGER}"
        using Some by (auto simp: type_of_byte_def split: if_splits)
      show ?thesis
      proof (cases "t = REDIS_REPLY_ARRAY \<and> length fs = 8")
        case True
        have m: "take 127 (cstr ''No support for nested multi bulk replies with depth > 7'')
            = ''No support for nested multi bulk replies with depth > 7''" by code_simp
        show ?thesis
          using fail_item_out [OF c1 m, of REDIS_ERR_PROTOCOL] True ri t1 Cons Some unfolding it
          by (simp add: typed_item_def multi_bulk_item_def)
      next
        case nd: False
        show ?thesis
        proof (cases "find_sub CRLF bs'")
          case None
          have "typed_item c1 cur1 bs' = Some (c1, REDIS_ERR, bs')"
            using None tt t1 nd ri
            by (auto simp: typed_item_def line_item_def bulk_item_def multi_bulk_item_def)
          then show ?thesis
            using None nd e1 Cons Some unfolding it item_out_def by auto
        next
          case k: (Some k)
          then have sc: "scan (length fs) bs = scan_line t (take k bs') (drop (k + 2) bs')"
            using Cons Some nd by auto
          from tt consider "t = REDIS_REPLY_ARRAY" | "t = REDIS_REPLY_STRING" |
            "t \<in> {REDIS_REPLY_ERROR, REDIS_REPLY_STATUS, REDIS_REPLY_INTEGER}" by blast
          then show ?thesis
          proof cases
            case 1
            then show ?thesis
              using multi_bulk_item_out [OF c1 cur1 _ k] t1 nd unfolding it sc
              by (simp add: typed_item_def scan_line_def)
          next
            case 2
            then show ?thesis
              using bulk_item_out [OF c1 cur1 k] t1 unfolding it sc
              by (simp add: typed_item_def scan_line_def)
          next
            case 3
            then show ?thesis
              using line_item_out [OF c1 cur1 k] t1 unfolding it sc by (simp add: typed_item_def)
          qed
        qed
      qed
    qed
  qed
qed

text \<open>The loop is the parser.\<close>

definition loop_out :: "'h outcome option \<Rightarrow> parsed \<Rightarrow> bool" where
  "loop_out res p \<longleftrightarrow>
     (case p of
        PWait \<Rightarrow> (\<exists>c' bs'. res = Some (c', REDIS_ERR, bs') \<and> r_err c' = 0)
      | PFail e msg \<Rightarrow> (\<exists>c'. res = Some (c', REDIS_ERR, []) \<and> failed e msg c')
      | PDone x rest \<Rightarrow> (\<exists>c'. res = Some (c', REDIS_OK, rest) \<and> emitted c' x)) \<or>
     (oom \<and> (\<exists>c'. res = Some (c', REDIS_ERR, []) \<and> failed REDIS_ERR_OOM ''Out of memory'' c'))"

lemma fresh_ridx: "fresh c fs ps \<Longrightarrow> 0 \<le> r_ridx c"
  by (simp add: fresh_def ready_def at_stack_def)

lemma items_step:
  "0 \<le> r_ridx c \<Longrightarrow> item c bs = Some (c', st, bs') \<Longrightarrow>
   items c bs = (if st = REDIS_OK then items c' bs' else Some (c', st, bs'))"
  by (simp add: items.simps [of c bs])

lemma items_parse: "fresh c fs ps \<Longrightarrow> loop_out (items c bs) (parse fs bs)"
proof (induction fs bs arbitrary: c ps rule: parse.induct)
  case (1 fs bs)
  note ri = fresh_ridx [OF "1.prems"]
  note out = item_scan [OF "1.prems", of bs, unfolded item_out_def]
  show ?case
  proof (cases "oom \<and> (\<exists>c'. item c bs = Some (c', REDIS_ERR, []) \<and>
      failed REDIS_ERR_OOM ''Out of memory'' c')")
    case True
    then obtain c' where "items c bs = Some (c', REDIS_ERR, [])"
        "failed REDIS_ERR_OOM ''Out of memory'' c'" using items_step [OF ri] by auto
    then show ?thesis using True unfolding loop_out_def by blast
  next
    case no: False
    have disj: "P \<or> Q \<Longrightarrow> \<not> Q \<Longrightarrow> P" for P Q by blast
    note out' = disj [OF out no]
    show ?thesis
    proof (cases "scan (length fs) bs")
      case Wait
      then obtain c' bs' where "item c bs = Some (c', REDIS_ERR, bs')" "r_err c' = 0"
        using out' by auto
      then show ?thesis
        using items_step [OF ri] Wait by (simp add: loop_out_def parse.simps [of fs bs])
    next
      case (Fail e msg)
      then obtain c' where "item c bs = Some (c', REDIS_ERR, [])" "failed e msg c'"
        using out' by auto
      then show ?thesis
        using items_step [OF ri] Fail by (simp add: loop_out_def parse.simps [of fs bs])
    next
      case (Leaf x rest)
      then obtain c' where it: "item c bs = Some (c', REDIS_OK, rest)" and d: "delivered c' (complete fs x)"
        using out' by auto
      have go: "items c bs = items c' rest" using items_step [OF ri it] by simp
      show ?thesis
      proof (cases "complete fs x")
        case (Inl fs')
        then obtain ps' where "fresh c' fs' ps'" using d by (auto simp: delivered_def)
        from "1.IH"(1) [OF Leaf Inl this] show ?thesis
          using go Leaf Inl by (simp add: parse.simps [of fs bs])
      next
        case (Inr y)
        then have em: "emitted c' y" using d by (simp add: delivered_def)
        then have "items c' rest = Some (c', REDIS_OK, rest)"
          by (simp add: items.simps [of c' rest] emitted_def)
        then show ?thesis
          using go em Leaf Inr by (simp add: loop_out_def parse.simps [of fs bs])
      qed
    next
      case (Open n rest)
      then obtain c' ps' where it: "item c bs = Some (c', REDIS_OK, rest)"
        and "fresh c' ((n, []) # fs) ps'" using out' by auto
      from "1.IH"(2) [OF Open this(2)] show ?thesis
        using items_step [OF ri it] Open by (simp add: parse.simps [of fs bs])
    qed
  qed
qed

end

end
