(* ===== verification/Reader_Stream.thy ===== *)
theory Reader_Stream
  imports Reader_Build
begin

text \<open>
  The reader as its clients use it: bytes arrive in chunks of any size, each chunk is fed to
  the reader and the replies that are complete are taken out.  Whatever the chunks, the
  replies are those the parser of \<open>Reply_Tree\<close> finds in the whole byte stream, and the
  reader stops at the same error.
\<close>

section \<open>More bytes\<close>

text \<open>\<open>extend x\<close> is an outcome with the bytes \<open>x\<close> added after those left over.\<close>

definition extend :: "string \<Rightarrow> 'h outcome option \<Rightarrow> 'h outcome option" where
  "extend x = map_option (\<lambda>(c, st, rest). (c, st, if st = REDIS_OK then rest @ x else rest))"

lemma extend_after: "after (rest @ x) res = extend x (after rest res)"
  by (cases res) (auto simp: after_def extend_def)

lemma extend_after_Nil: "obj_out c res \<Longrightarrow> (\<And>r' st. res = Some (r', st) \<Longrightarrow> st = REDIS_ERR) \<Longrightarrow>
  after rest res = extend x (after rest' res)"
  by (cases res) (auto simp: after_def extend_def)

text \<open>An outcome that more bytes do not change: success, or an error that is set.\<close>

definition settled :: "'h outcome option \<Rightarrow> bool" where
  "settled res \<longleftrightarrow> (\<forall>c rest. res = Some (c, REDIS_ERR, rest) \<longrightarrow> r_err c \<noteq> 0)"

lemma settled_after: "obj_out c res \<Longrightarrow> settled (after rest res)"
  by (cases res) (auto simp: settled_def after_def obj_out_def)

lemma settled_fails: "e \<noteq> 0 \<Longrightarrow> settled (after rest (fails (redisReaderSetError c e msg)))"
  by (auto simp: settled_def after_def dest: redisReaderSetError_dead)

lemma extend_fails: "extend x (after [] (fails E)) = after [] (fails E)"
  by (cases E) (auto simp: after_def extend_def)

lemma line_item_append:
  "line_item c cur bs = Some (c, REDIS_ERR, bs) \<or>
   settled (line_item c cur bs) \<and> (\<forall>x. line_item c cur (bs @ x) = extend x (line_item c cur bs))"
proof (cases "find_sub CRLF bs")
  case (Some k)
  then show ?thesis
    using find_sub_append [OF Some] find_CRLF_length [OF Some]
    by (simp add: line_item_def extend_after settled_after [OF lineObject_out])
qed (simp add: line_item_def)

lemma PROTOCOL_nz [simp]: "REDIS_ERR_PROTOCOL \<noteq> 0"
  by (simp add: REDIS_ERR_PROTOCOL_def)

lemma multi_bulk_item_append:
  "multi_bulk_item c cur bs = Some (c, REDIS_ERR, bs) \<or>
   settled (multi_bulk_item c cur bs) \<and>
   (\<forall>x. multi_bulk_item c cur (bs @ x) = extend x (multi_bulk_item c cur bs))"
proof (cases "r_ridx c = 8")
  case True
  then show ?thesis
    by (simp add: multi_bulk_item_def extend_fails settled_fails)
next
  case False
  show ?thesis
  proof (cases "find_sub CRLF bs")
    case (Some k)
    then show ?thesis
      using False find_sub_append [OF Some] find_CRLF_length [OF Some]
      by (simp add: multi_bulk_item_def extend_after settled_after [OF multiBulkObject_out])
  qed (use False in \<open>simp add: multi_bulk_item_def\<close>)
qed

lemma bulk_item_append:
  "bulk_item c cur bs = Some (c, REDIS_ERR, bs) \<or>
   settled (bulk_item c cur bs) \<and> (\<forall>x. bulk_item c cur (bs @ x) = extend x (bulk_item c cur bs))"
proof (cases "find_sub CRLF bs")
  case k: (Some k)
  note app = find_sub_append [OF k] find_CRLF_length [OF k]
  show ?thesis
  proof (cases "string2ll (take k bs)")
    case None
    then show ?thesis
      using k app by (simp add: bulk_item_def extend_fails settled_fails)
  next
    case (Some len)
    consider "len < -1" | "len = -1" | "0 \<le> len" "k + nat len + 4 \<le> length bs"
      | "0 \<le> len" "\<not> k + nat len + 4 \<le> length bs" by linarith
    then show ?thesis
    proof cases
      case 1
      then show ?thesis
        using Some k app by (simp add: bulk_item_def extend_fails settled_fails)
    next
      case 2
      then show ?thesis
        using Some k app by (simp add: bulk_item_def extend_after settled_after [OF bulkObject_out])
    next
      case 3
      have "drop (k + nat len + 4) (bs @ x) = drop (k + nat len + 4) bs @ x"
        and "take (nat len) (drop (k + 2) bs @ x) = take (nat len) (drop (k + 2) bs)" for x
        using 3(2) by simp_all
      then show ?thesis
        using Some k app 3 by (simp add: bulk_item_def extend_after settled_after [OF bulkObject_out])
    next
      case 4
      then show ?thesis using Some k by (simp add: bulk_item_def)
    qed
  qed
qed (simp add: bulk_item_def)

lemma typed_item_append:
  "typed_item c cur bs = Some (c, REDIS_ERR, bs) \<or>
   settled (typed_item c cur bs) \<and> (\<forall>x. typed_item c cur (bs @ x) = extend x (typed_item c cur bs))"
  using line_item_append [of c cur bs] bulk_item_append [of c cur bs] multi_bulk_item_append [of c cur bs]
  by (auto simp: typed_item_def settled_def extend_def)

text \<open>
  A step either waits, and then going on later is the same as having had all bytes at once,
  or its outcome does not depend on the bytes that come later.
\<close>

definition resumes :: "('h redisReader \<Rightarrow> string \<Rightarrow> 'h outcome option) \<Rightarrow> 'h redisReader \<Rightarrow> string \<Rightarrow> bool" where
  "resumes f c bs \<longleftrightarrow>
     (\<exists>c' bs'. f c bs = Some (c', REDIS_ERR, bs') \<and> r_err c' = r_err c \<and> 0 \<le> r_ridx c' \<and>
        (\<forall>x. f c (bs @ x) = f c' (bs' @ x))) \<or>
     settled (f c bs) \<and> (\<forall>x. f c (bs @ x) = extend x (f c bs))"

lemma type_of_byte_pos: "type_of_byte b = Some t \<Longrightarrow> 0 < t"
  by (auto simp: type_of_byte_def reply_types split: if_splits)

lemma item_resumes: "0 \<le> r_ridx c \<Longrightarrow> resumes item c bs"
proof (cases "task_at c (r_ridx c)")
  case None
  then show ?thesis by (simp add: resumes_def item_def settled_def extend_def)
next
  case (Some cur)
  assume ri: "0 \<le> r_ridx c"
  show ?thesis
  proof (cases "t_type cur < 0")
    case False
    then have it: "item c bs' = typed_item c cur bs'" for bs' using Some by (simp add: item_def)
    show ?thesis using typed_item_append [of c cur bs] ri unfolding resumes_def by (auto simp: it)
  next
    case neg: True
    show ?thesis
    proof (cases bs)
      case Nil
      then show ?thesis using Some neg ri by (simp add: resumes_def item_def)
    next
      case (Cons b bs')
      show ?thesis
      proof (cases "type_of_byte b")
        case None
        have e: "item c (bs @ x) = after [] (fails (redisReaderSetErrorProtocolByte c b))" for x
          using Some neg Cons None by (simp add: item_def)
        show ?thesis
          using e [of "[]"] e
          unfolding resumes_def redisReaderSetErrorProtocolByte_def
          by (simp add: extend_fails settled_fails)
      next
        case t: (Some t)
        define cur1 where "cur1 = cur\<lparr>t_type := t\<rparr>"
        define c1 where "c1 = set_task c (r_ridx c) cur1"
        have it: "item c (bs @ x) = typed_item c1 cur1 (bs' @ x)" for x
          using Some neg Cons t by (simp add: item_def c1_def cur1_def)
        have "task_at c1 (r_ridx c1) = Some cur1"
          using Some by (auto simp: task_at_def c1_def split: if_splits)
        then have it1: "item c1 x = typed_item c1 cur1 x" for x
          using type_of_byte_pos [OF t] by (simp add: item_def cur1_def)
        have c1: "r_err c1 = r_err c" "0 \<le> r_ridx c1" using ri by (simp_all add: c1_def)
        show ?thesis
          using typed_item_append [of c1 cur1 bs'] it [of "[]"] it it1 c1
          unfolding resumes_def by auto
      qed
    qed
  qed
qed

lemma item_OK_err: "item c bs = Some (c', REDIS_OK, rest) \<Longrightarrow> r_err c' = r_err c"
  by (auto simp: item_def typed_item_def line_item_def bulk_item_def multi_bulk_item_def after_OK obj_out_def
      dest: lineObject_out [unfolded obj_out_def, rule_format] bulkObject_out [unfolded obj_out_def, rule_format]
        multiBulkObject_out [unfolded obj_out_def, rule_format]
      split: if_splits bind_splits list.splits option.splits)

lemma items_resumes: "resumes items c bs"
proof (induction c bs rule: items.induct)
  case (1 c bs)
  show ?case
  proof (cases "r_ridx c < 0")
    case True
    then have "items c x = Some (c, REDIS_OK, x)" for x by (simp add: items.simps [of c x])
    then show ?thesis by (simp add: resumes_def settled_def extend_def)
  next
    case False
    then have ri: "0 \<le> r_ridx c" by simp
    have it: "items c x = Option.bind (item c x) (\<lambda>(c', st, bs').
        if st = REDIS_OK then items c' bs' else Some (c', st, bs'))" for x
      using False by (simp add: items.simps [of c x])
    from item_resumes [OF ri, of bs] show ?thesis
      unfolding resumes_def [of item]
    proof
      assume "\<exists>c' bs'. item c bs = Some (c', REDIS_ERR, bs') \<and> r_err c' = r_err c \<and> 0 \<le> r_ridx c' \<and>
        (\<forall>x. item c (bs @ x) = item c' (bs' @ x))"
      then obtain c' bs' where w: "item c bs = Some (c', REDIS_ERR, bs')" "r_err c' = r_err c"
        "0 \<le> r_ridx c'" "\<And>x. item c (bs @ x) = item c' (bs' @ x)" by blast
      have "items c (bs @ x) = items c' (bs' @ x)" for x
        using w it by (simp add: items.simps [of c' "bs' @ x"])
      then show ?thesis using w it by (auto simp: resumes_def)
    next
      assume s: "settled (item c bs) \<and> (\<forall>x. item c (bs @ x) = extend x (item c bs))"
      show ?thesis
      proof (cases "item c bs")
        case None
        then show ?thesis using s it by (simp add: resumes_def settled_def extend_def)
      next
        case (Some y)
        obtain c' st bs' where y: "y = (c', st, bs')" by (cases y)
        show ?thesis
        proof (cases st)
          case REDIS_ERR
          then show ?thesis
            using s it Some y by (simp add: resumes_def settled_def extend_def)
        next
          case REDIS_OK
          have IH: "resumes items c' bs'"
            using "1.IH" [OF False, of y c' "(st, bs')" st bs'] Some y REDIS_OK by simp
          have a: "items c bs = items c' bs'" and b: "items c (bs @ x) = items c' (bs' @ x)" for x
            using s it Some y REDIS_OK by (simp_all add: extend_def)
          have "r_err c' = r_err c" using item_OK_err Some y REDIS_OK by blast
          then show ?thesis using IH unfolding resumes_def a b by simp
        qed
      qed
    qed
  qed
qed

text \<open>The same for the parser of byte lists.\<close>

fun extend_scan :: "string \<Rightarrow> scanned \<Rightarrow> scanned" where
  "extend_scan y (Leaf x r) = Leaf x (r @ y)"
| "extend_scan y (Open n r) = Open n (r @ y)"
| "extend_scan y s = s"

lemma scan_line_append:
  "scan_line t line rest \<noteq> Wait \<Longrightarrow> scan_line t line (rest @ y) = extend_scan y (scan_line t line rest)"
  by (auto simp: scan_line_def scan_bulk_def scan_multi_def split: option.splits)

lemma scan_append:
  assumes "scan d bs \<noteq> Wait"
  shows "scan d (bs @ y) = extend_scan y (scan d bs)"
proof (cases bs)
  case (Cons b bs')
  show ?thesis
  proof (cases "find_sub CRLF bs'")
    case None
    then show ?thesis using assms Cons by (auto split: option.splits)
  next
    case (Some k)
    have "take k (bs' @ y) = take k bs'" "drop (k + 2) (bs' @ y) = drop (k + 2) bs' @ y"
      using find_CRLF_length [OF Some] by simp_all
    then show ?thesis
      using assms Cons Some find_sub_append [OF Some] scan_line_append [of _ "take k bs'" "drop (k + 2) bs'" y]
      by (auto split: option.splits)
  qed
qed (use assms in simp)

lemma parse_append:
  "parse fs bs = PDone x rest \<Longrightarrow> parse fs (bs @ y) = PDone x (rest @ y)"
  "parse fs bs = PFail e msg \<Longrightarrow> parse fs (bs @ y) = PFail e msg"
proof (induction fs bs rule: parse.induct)
  case (1 fs bs)
  {
    case 1
    then show ?case
      using "1.IH" scan_append [of "length fs" bs y]
      by (cases "scan (length fs) bs")
        (auto simp: parse.simps [of fs bs] parse.simps [of fs "bs @ y"] split: sum.splits)
  next
    case 2
    then show ?case
      using "1.IH" scan_append [of "length fs" bs y]
      by (cases "scan (length fs) bs")
        (auto simp: parse.simps [of fs bs] parse.simps [of fs "bs @ y"] split: sum.splits)
  }
qed

section \<open>Taking replies out\<close>

lemma start_root_with_buf: "start_root (with_buf b p l r) = with_buf b p l (start_root r)"
  by (simp add: start_root_def with_buf_update)

lemma start_root_keeps:
  "live_buf (start_root r) = live_buf r" "pending (start_root r) = pending r"
  "r_err (start_root r) = r_err r" "r_len (start_root r) = r_len r" "r_buf (start_root r) = r_buf r"
  by (auto simp: start_root_def live_buf_def pending_def cong: option.case_cong)

lemma start_root_started: "0 \<le> r_ridx c \<Longrightarrow> start_root c = c"
  by (simp add: start_root_def)

text \<open>\<open>redisReaderGetReply\<close> on a reader with bytes in its buffer.\<close>

lemma getReply_items:
  assumes live: "live_buf r" and e: "r_err r = 0" and len: "r_len r \<noteq> 0"
    and it: "items (start_root (core r)) (pending r) = Some (c, st, rest)"
  shows "if r_err c \<noteq> 0 then \<exists>r'. redisReaderGetReply r = Some (r', REDIS_ERR, None) \<and> core r' = c \<and> dead_buf r'
     else \<exists>r'. live_buf r' \<and> r_len r' \<le> r_len r \<and> pending r' = rest \<and>
       (if r_ridx c = -1
        then redisReaderGetReply r = Some (r', REDIS_OK, r_reply c) \<and> core r' = c\<lparr>r_reply := None\<rparr>
        else redisReaderGetReply r = Some (r', REDIS_OK, None) \<and> core r' = c)"
proof -
  let ?s = "start_root r"
  have s: "live_buf ?s" "r_err ?s = 0" "core ?s = start_root (core r)" "pending ?s = pending r"
    using live e by (simp_all add: start_root_keeps start_root_with_buf)
  have v: "map_option view_loop (process_items ?s) = Some (c, rest)"
    and k: "\<And>r'. process_items ?s = Some r' \<Longrightarrow>
      (if r_err r' = 0 then live_buf r' \<and> r_buf r' = r_buf ?s else dead_buf r' \<and> r_ridx r' = -1)"
    using process_items_view [OF s(1,2)] it s by auto
  then obtain r1 where r1: "process_items ?s = Some r1" "core r1 = c" "pending r1 = rest"
    by (auto simp: view_loop_def)
  have fields: "r_err c = r_err r1" "r_ridx c = r_ridx r1" "r_reply c = r_reply r1"
    unfolding r1(2) [symmetric] by simp_all
  show ?thesis
  proof (cases "r_err c = 0")
    case False
    then show ?thesis using r1 fields e len k [OF r1(1)] by (simp add: redisReaderGetReply_def)
  next
    case True
    then have l1: "live_buf r1" "r_buf r1 = r_buf r"
      using k [OF r1(1)] fields by (simp_all add: start_root_keeps)
    then have len1: "r_len r1 = r_len r"
      using live by (auto simp: live_buf_def split: option.splits)
    obtain r2 where r2: "discard_consumed r1 = Some r2" "live_buf r2" "core r2 = core r1"
        "pending r2 = pending r1" "r_len r2 \<le> r_len r1"
      by (rule discard_consumed_view [OF l1(1)])
    have f2: "r_ridx r2 = r_ridx c" "r_reply r2 = r_reply c"
      using r2(3) r1(2) fields by (metis with_buf_simps(8), metis with_buf_simps(9))
    show ?thesis
    proof (cases "r_ridx c = -1")
      case em: True
      have "core (r2\<lparr>r_reply := None\<rparr>) = c\<lparr>r_reply := None\<rparr>"
        using r2(3) r1(2) by (metis with_buf_update(8))
      moreover have "live_buf (r2\<lparr>r_reply := None\<rparr>)" "pending (r2\<lparr>r_reply := None\<rparr>) = rest"
          "r_len (r2\<lparr>r_reply := None\<rparr>) \<le> r_len r"
        using r2 r1 len1 by (simp_all add: live_buf_def pending_def cong: option.case_cong)
      moreover have "redisReaderGetReply r = Some (r2\<lparr>r_reply := None\<rparr>, REDIS_OK, r_reply c)"
        using r1 r2 fields True em e len f2 by (simp add: redisReaderGetReply_def)
      ultimately show ?thesis using True em by auto
    next
      case False
      then show ?thesis
        using r1 r2 fields True e len f2 len1 by (auto simp: redisReaderGetReply_def)
    qed
  qed
qed

section \<open>A client\<close>

text \<open>
  \<open>drain\<close> calls \<open>redisReaderGetReply\<close> until there is no reply, \<open>feed_all\<close> feeds chunk
  after chunk and drains after each.  A reply is returned with the store as it was when it
  was handed out.
\<close>

partial_function (option) drain ::
  "'h redisReader \<Rightarrow> ((robj \<times> 'h) list \<times> 'h redisReader \<times> status) option" where
  "drain r = Option.bind (redisReaderGetReply r) (\<lambda>res.
     case snd (snd res) of
       None \<Rightarrow> Some ([], fst res, fst (snd res))
     | Some q \<Rightarrow> Option.bind (drain (fst res)) (\<lambda>later.
         Some ((q, r_store (fst res)) # fst later, snd later)))"

fun feed_all ::
  "allocator \<Rightarrow> 'h redisReader \<Rightarrow> string list \<Rightarrow> ((robj \<times> 'h) list \<times> 'h redisReader) option" where
  "feed_all m r [] = Some ([], r)"
| "feed_all m r (x # xs) =
     do {
       (r1, st1) \<leftarrow> redisReaderFeed m r (Some x) (length x);
       (qs, r2, st2) \<leftarrow> drain r1;
       (qs', r3) \<leftarrow> feed_all m r2 xs;
       Some (qs @ qs', r3)
     }"

lemma drain_None:
  "redisReaderGetReply r = Some (r', st, None) \<Longrightarrow> drain r = Some ([], r', st)"
  by (simp add: drain.simps [of r])

lemma drain_Some:
  "redisReaderGetReply r = Some (r', st, Some q) \<Longrightarrow>
   drain r = Option.bind (drain r') (\<lambda>later. Some ((q, r_store r') # fst later, snd later))"
  by (simp add: drain.simps [of r])

text \<open>After an error the reader stays as it is.\<close>

lemma feed_all_error: "r_err r \<noteq> 0 \<Longrightarrow> feed_all m r xs = Some ([], r)"
proof (induction xs)
  case (Cons x xs)
  have "redisReaderGetReply r = Some (r, REDIS_ERR, None)"
    using Cons.prems by (simp add: redisReaderGetReply_def)
  then show ?case
    using Cons by (simp add: redisReaderFeed_def drain_None)
qed simp

lemma parse_all_PWait: "parse [] bs = PWait \<Longrightarrow> parse_all bs = ([], None)"
  by (simp add: parse_all.simps [of bs])

lemma parse_all_PFail: "parse [] bs = PFail e msg \<Longrightarrow> parse_all bs = ([], Some (e, msg))"
  by (simp add: parse_all.simps [of bs])

lemma parse_all_PDone:
  "parse [] bs = PDone t rest \<Longrightarrow>
   parse_all bs = (t # fst (parse_all rest), snd (parse_all rest))"
  by (simp add: parse_all.simps [of bs] split_def Let_def)

lemma parse_Nil [simp]: "parse fs [] = PWait"
  by (simp add: parse.simps [of fs "[]"])

context reply_builder
begin

text \<open>
  \<open>synced r u\<close>: the reader is where a reader at the start of a reply would be after reading
  \<open>u\<close>, whatever comes next.
\<close>

definition synced :: "'h redisReader \<Rightarrow> string \<Rightarrow> bool" where
  "synced r u \<longleftrightarrow> live_buf r \<and> r_err r = 0 \<and>
     (\<exists>c ps. fresh c [] ps \<and> (\<forall>x. items (start_root (core r)) (pending r @ x) = items c (u @ x)))"

definition replied :: "(robj \<times> 'h) list \<Rightarrow> reply list \<Rightarrow> bool" where
  "replied qs ts \<longleftrightarrow> list_all2 (\<lambda>(q, h) t. whole h q t) qs ts"

definition stopped :: "'h redisReader \<Rightarrow> int \<times> string \<Rightarrow> bool" where
  "stopped r err \<longleftrightarrow> r_err r = fst err \<and> r_errstr r = snd err \<and> dead_buf r \<and> fst err \<noteq> 0"

lemma fresh_start:
  assumes "length (r_rstack c) = 9" and "r_ridx c = -1" and "r_err c = 0" and "r_fn c = Some fns"
    and "r_reply c = None"
  shows "fresh (start_root c) [] []"
  using assms by (simp add: fresh_def ready_def at_stack_def start_root_def)

lemma synced_start:
  assumes "live_buf r" and "length (r_rstack r) = 9" and "r_ridx r = -1" and "r_err r = 0"
    and "r_fn r = Some fns" and "r_reply r = None"
  shows "synced r (pending r)"
  unfolding synced_def using assms fresh_start [of "core r"] by auto

lemma loop_error: "parse fs u = PFail e msg \<Longrightarrow> e \<noteq> 0"
proof (induction fs u rule: parse.induct)
  case (1 fs u)
  have s: "scan d bs = Fail e msg \<Longrightarrow> e \<noteq> 0" for d bs
    by (cases bs) (auto simp: scan_line_def scan_bulk_def scan_multi_def REDIS_ERR_PROTOCOL_def
        split: option.splits if_splits)
  show ?case
    using "1.IH" "1.prems" s
    by (cases "scan (length fs) u") (auto simp: parse.simps [of fs u] split: sum.splits)
qed

text \<open>A reader between two replies; what the store then holds does not matter.\<close>

definition between :: "'h redisReader \<Rightarrow> bool" where
  "between r \<longleftrightarrow> live_buf r \<and> length (r_rstack r) = 9 \<and> r_ridx r = -1 \<and> r_err r = 0 \<and> r_fn r = Some fns \<and>
     r_reply r = None"

lemma between_synced: "between r \<Longrightarrow> synced r (pending r)"
  unfolding between_def by (intro synced_start) auto

lemma between_store: "between (r\<lparr>r_store := h\<rparr>) \<longleftrightarrow> between r"
  by (cases "r_buf r") (simp_all add: between_def live_buf_def)

text \<open>One call of \<open>redisReaderGetReply\<close> at a synced reader.\<close>

lemma getReply_synced:
  assumes "\<not> oom" and s: "synced r u" and w: "r_len r = 0 \<Longrightarrow> parse [] u = PWait"
  shows "case parse [] u of
     PWait \<Rightarrow> \<exists>r'. redisReaderGetReply r = Some (r', REDIS_OK, None) \<and> synced r' u \<and> r_len r' \<le> r_len r
   | PFail e msg \<Rightarrow> \<exists>r'. redisReaderGetReply r = Some (r', REDIS_ERR, None) \<and> stopped r' (e, msg)
   | PDone t rest \<Rightarrow> \<exists>r' q. redisReaderGetReply r = Some (r', REDIS_OK, Some q) \<and>
        whole (r_store r') q t \<and> synced r' rest \<and> between r' \<and> pending r' = rest \<and> r_len r' \<le> r_len r"
proof (cases "r_len r = 0")
  case True
  then show ?thesis
    using s w by (auto simp: redisReaderGetReply_def synced_def)
next
  case len: False
  obtain c ps where c: "fresh c [] ps" and it: "\<And>x. items (start_root (core r)) (pending r @ x) = items c (u @ x)"
    and live: "live_buf r" and e: "r_err r = 0"
    using s unfolding synced_def by blast
  have out: "loop_out (items c u) (parse [] u)" by (rule items_parse [OF c])
  have it0: "items (start_root (core r)) (pending r) = items c u" using it [of "[]"] by simp
  note get = getReply_items [OF live e len]
  show ?thesis
  proof (cases "parse [] u")
    case PWait
    then obtain c' bs' where w: "items c u = Some (c', REDIS_ERR, bs')" "r_err c' = 0"
      using out assms(1) unfolding loop_out_def by auto
    from items_resumes [of "start_root (core r)" "pending r"] w it0
    have res: "0 \<le> r_ridx c'" "\<And>x. items (start_root (core r)) (pending r @ x) = items c' (bs' @ x)"
      unfolding resumes_def settled_def by auto
    obtain r' where r': "redisReaderGetReply r = Some (r', REDIS_OK, None)" "core r' = c'"
        "live_buf r'" "r_len r' \<le> r_len r" "pending r' = bs'"
      using get [of c' REDIS_ERR bs'] w it0 res(1) by auto
    have "r_err r' = 0" using r'(2) w(2) by (metis with_buf_simps(1))
    moreover have "items (start_root (core r')) (pending r' @ x) = items c (u @ x)" for x
      using res it r'(2,5) by (simp add: start_root_started)
    ultimately have "synced r' u" using r' c unfolding synced_def by auto
    then show ?thesis using PWait r' by auto
  next
    case (PFail e msg)
    then obtain c' where f: "items c u = Some (c', REDIS_ERR, [])" "failed e msg c'"
      using out assms(1) unfolding loop_out_def by auto
    have nz: "e \<noteq> 0" by (rule loop_error [OF PFail])
    obtain r' where r': "redisReaderGetReply r = Some (r', REDIS_ERR, None)" "core r' = c'"
        "dead_buf r'"
      using get [of c' REDIS_ERR "[]"] f it0 nz by (auto simp: failed_def)
    have "r_err r' = e" "r_errstr r' = msg"
      using f(2) r'(2) unfolding failed_def by (metis with_buf_simps(1), metis with_buf_simps(2))
    then show ?thesis using PFail r' nz by (auto simp: stopped_def)
  next
    case (PDone t rest)
    then obtain c' where d: "items c u = Some (c', REDIS_OK, rest)" "emitted c' t"
      using out assms(1) unfolding loop_out_def by auto
    then obtain q where q: "r_reply c' = Some q" "whole (r_store c') q t" and c': "r_err c' = 0"
        "r_ridx c' = -1" "length (r_rstack c') = 9" "r_fn c' = Some fns"
      by (auto simp: emitted_def)
    obtain r' where r': "redisReaderGetReply r = Some (r', REDIS_OK, Some q)"
        "core r' = c'\<lparr>r_reply := None\<rparr>" "live_buf r'" "r_len r' \<le> r_len r" "pending r' = rest"
      using get [of c' REDIS_OK rest] d it0 c' q by auto
    have f: "r_store r' = r_store c'" "r_rstack r' = r_rstack c'" "r_ridx r' = -1" "r_err r' = 0"
        "r_fn r' = Some fns" "r_reply r' = None"
      using arg_cong [OF r'(2), of r_store] arg_cong [OF r'(2), of r_rstack]
        arg_cong [OF r'(2), of r_ridx] arg_cong [OF r'(2), of r_err] arg_cong [OF r'(2), of r_fn]
        arg_cong [OF r'(2), of r_reply] c' by simp_all
    have "synced r' rest"
      using synced_start [OF r'(3)] f c' r'(5) by simp
    moreover have "between r'" using r'(3) f c' by (simp add: between_def)
    ultimately show ?thesis using PDone r' q f by auto
  qed
qed

text \<open>Draining takes out exactly the complete replies: either the reader then waits with the
  bytes \<open>v\<close> of an incomplete one, or it has met an error.\<close>

definition waiting :: "'h redisReader \<Rightarrow> string \<Rightarrow> (robj \<times> 'h) list \<Rightarrow> 'h redisReader \<Rightarrow> bool" where
  "waiting r u qs r' \<longleftrightarrow> (\<exists>ts v. replied qs ts \<and> synced r' v \<and> parse [] v = PWait \<and> r_len r' \<le> r_len r \<and>
     (\<forall>y. parse_all (u @ y) = (ts @ fst (parse_all (v @ y)), snd (parse_all (v @ y)))))"

definition broken :: "string \<Rightarrow> (robj \<times> 'h) list \<Rightarrow> 'h redisReader \<Rightarrow> bool" where
  "broken u qs r' \<longleftrightarrow> (\<exists>ts err. replied qs ts \<and> stopped r' err \<and> (\<forall>y. parse_all (u @ y) = (ts, Some err)))"

lemma drain_synced:
  assumes "\<not> oom"
  shows "synced r u \<Longrightarrow> (r_len r = 0 \<Longrightarrow> parse [] u = PWait) \<Longrightarrow>
    \<exists>qs r' st. drain r = Some (qs, r', st) \<and> (waiting r u qs r' \<or> broken u qs r')"
proof (induction "length u" arbitrary: r u rule: less_induct)
  case less
  note get = getReply_synced [OF assms less.prems]
  show ?case
  proof (cases "parse [] u")
    case PWait
    then obtain r' where r': "redisReaderGetReply r = Some (r', REDIS_OK, None)" "synced r' u"
        "r_len r' \<le> r_len r"
      using get by auto
    have "replied [] []" by (simp add: replied_def)
    then have "waiting r u [] r'"
      using r' PWait unfolding waiting_def by (intro exI [of _ "[]"] exI [of _ u]) auto
    then show ?thesis using drain_None [OF r'(1)] by blast
  next
    case (PFail e msg)
    then obtain r' where r': "redisReaderGetReply r = Some (r', REDIS_ERR, None)" "stopped r' (e, msg)"
      using get by auto
    have "parse_all (u @ y) = ([], Some (e, msg))" for y
      by (rule parse_all_PFail, rule parse_append(2), rule PFail)
    moreover have "replied [] []" by (simp add: replied_def)
    ultimately have "broken u [] r'" using r'(2) unfolding broken_def by blast
    then show ?thesis using drain_None [OF r'(1)] by blast
  next
    case (PDone t rest)
    then obtain r' q where r': "redisReaderGetReply r = Some (r', REDIS_OK, Some q)"
        "whole (r_store r') q t" "synced r' rest" "pending r' = rest" "r_len r' \<le> r_len r"
      using get by auto
    have sh: "length rest < length u" by (rule parse_shorter [OF PDone])
    have w: "parse [] rest = PWait" if "r_len r' = 0"
    proof -
      have "live_buf r'" using r'(3) by (simp add: synced_def)
      then have "length (pending r') = 0" using that pending_live [of r'] by simp
      then show ?thesis using r'(4) by simp
    qed
    have pa: "parse_all (u @ y) = (t # fst (parse_all (rest @ y)), snd (parse_all (rest @ y)))" for y
      by (rule parse_all_PDone, rule parse_append(1), rule PDone)
    obtain qs r2 st where d: "drain r' = Some (qs, r2, st)" and alt: "waiting r' rest qs r2 \<or> broken rest qs r2"
      using less.hyps [OF sh r'(3) w] by blast
    have dr: "drain r = Some ((q, r_store r') # qs, r2, st)"
      using drain_Some [OF r'(1)] d by simp
    from alt have "waiting r u ((q, r_store r') # qs) r2 \<or> broken u ((q, r_store r') # qs) r2"
    proof
      assume "waiting r' rest qs r2"
      then obtain ts v where *: "replied qs ts" "synced r2 v" "parse [] v = PWait" "r_len r2 \<le> r_len r'"
          "\<And>y. parse_all (rest @ y) = (ts @ fst (parse_all (v @ y)), snd (parse_all (v @ y)))"
        unfolding waiting_def by blast
      have "replied ((q, r_store r') # qs) (t # ts)" using * r' by (simp add: replied_def)
      moreover have "parse_all (u @ y) = ((t # ts) @ fst (parse_all (v @ y)), snd (parse_all (v @ y)))" for y
        by (simp add: pa *(5))
      moreover have "r_len r2 \<le> r_len r" using * r'(5) by simp
      ultimately have "waiting r u ((q, r_store r') # qs) r2"
        using *(2,3) unfolding waiting_def by blast
      then show ?thesis ..
    next
      assume "broken rest qs r2"
      then obtain ts err where *: "replied qs ts" "stopped r2 err" "\<And>y. parse_all (rest @ y) = (ts, Some err)"
        unfolding broken_def by blast
      have "replied ((q, r_store r') # qs) (t # ts)" using * r' by (simp add: replied_def)
      moreover have "parse_all (u @ y) = (t # ts, Some err)" for y by (simp add: pa *(3))
      ultimately have "broken u ((q, r_store r') # qs) r2" using *(2) unfolding broken_def by blast
      then show ?thesis ..
    qed
    then show ?thesis using dr by blast
  qed
qed

lemma synced_feed:
  assumes m: "malloc_spec m" "malloc_total m" and s: "synced r u" and len: "r_len r + length x < 2 ^ 31"
  shows "\<exists>r'. redisReaderFeed m r (Some x) (length x) = Some (r', REDIS_OK) \<and>
     synced r' (u @ x) \<and> r_len r' \<le> r_len r + length x \<and> (r_len r' = 0 \<longrightarrow> x = [])"
proof -
  obtain c ps where c: "fresh c [] ps" and it: "\<And>x. items (start_root (core r)) (pending r @ x) = items c (u @ x)"
    and live: "live_buf r" and e: "r_err r = 0"
    using s unfolding synced_def by blast
  obtain r' where r': "redisReaderFeed m r (Some x) (length x) = Some (r', REDIS_OK)" "live_buf r'"
      "core r' = core r" "pending r' = pending r @ take (length x) x" "r_len r' \<le> r_len r + length x"
    by (rule redisReaderFeed_view [OF m live e order.refl len])
  have "r_err r' = 0" using r'(3) e by (metis with_buf_simps(1))
  then have "synced r' (u @ x)"
    unfolding synced_def using r' c it by auto
  moreover have "r_len r' = 0 \<longrightarrow> x = []"
    using arg_cong [OF r'(4), of length] pending_live [OF r'(2)] by auto
  ultimately show ?thesis using r'(1,5) by (intro exI [of _ r'] conjI)
qed

lemma feed_all_synced:
  assumes m: "malloc_spec m" "malloc_total m" and "\<not> oom"
  shows "synced r u \<Longrightarrow> parse [] u = PWait \<Longrightarrow> r_len r + length (concat xs) < 2 ^ 31 \<Longrightarrow>
    \<exists>qs r'. feed_all m r xs = Some (qs, r') \<and> replied qs (fst (parse_all (u @ concat xs))) \<and>
      (case snd (parse_all (u @ concat xs)) of None \<Rightarrow> r_err r' = 0 | Some err \<Rightarrow> stopped r' err)"
proof (induction xs arbitrary: r u)
  case Nil
  then show ?case by (simp add: parse_all_PWait replied_def synced_def)
next
  case (Cons x xs)
  have "r_len r + length x < 2 ^ 31" using Cons.prems(3) by simp
  from synced_feed [OF m Cons.prems(1) this]
  obtain r1 where r1: "redisReaderFeed m r (Some x) (length x) = Some (r1, REDIS_OK)"
      "synced r1 (u @ x)" "r_len r1 \<le> r_len r + length x" "r_len r1 = 0 \<longrightarrow> x = []"
    by (elim exE conjE)
  have "r_len r1 = 0 \<Longrightarrow> parse [] (u @ x) = PWait" using r1(4) Cons.prems(2) by simp
  from drain_synced [OF assms(3) r1(2) this] obtain qs r2 st where d: "drain r1 = Some (qs, r2, st)"
    and alt: "waiting r1 (u @ x) qs r2 \<or> broken (u @ x) qs r2"
    by blast
  from alt show ?case
  proof
    assume "waiting r1 (u @ x) qs r2"
    then obtain ts v where *: "replied qs ts" "synced r2 v" "parse [] v = PWait" "r_len r2 \<le> r_len r1"
        "\<And>y. parse_all ((u @ x) @ y) = (ts @ fst (parse_all (v @ y)), snd (parse_all (v @ y)))"
      unfolding waiting_def by blast
    have "r_len r2 + length (concat xs) < 2 ^ 31" using *(4) r1(3) Cons.prems(3) by simp
    from Cons.IH [OF *(2,3) this] obtain qs' r' where
      f: "feed_all m r2 xs = Some (qs', r')" "replied qs' (fst (parse_all (v @ concat xs)))"
        "case snd (parse_all (v @ concat xs)) of None \<Rightarrow> r_err r' = 0 | Some err \<Rightarrow> stopped r' err"
      by blast
    have "replied (qs @ qs') (ts @ fst (parse_all (v @ concat xs)))"
      using *(1) f(2) by (simp add: replied_def list_all2_appendI)
    then show ?thesis
      using r1(1) d f *(5) [of "concat xs"] by simp
  next
    assume "broken (u @ x) qs r2"
    then obtain ts err where *: "replied qs ts" "stopped r2 err" "\<And>y. parse_all ((u @ x) @ y) = (ts, Some err)"
      unfolding broken_def by blast
    have "feed_all m r2 xs = Some ([], r2)"
      by (rule feed_all_error) (use *(2) in \<open>simp add: stopped_def\<close>)
    then show ?thesis
      using r1(1) d * *(3) [of "concat xs"] by simp
  qed
qed

text \<open>A new reader.\<close>

lemma created_synced:
  assumes "malloc_spec m" and "redisReaderCreateWithFunctions m h (Some fns) = Some (Some r)"
  shows "synced r []" and "r_len r = 0" and "between r" and "pending r = []"
proof -
  obtain s where s: "sdsempty m = Some (Some s)" and r: "r = \<lparr>r_err = 0, r_errstr = [], r_buf = Some s,
      r_pos = 0, r_len = 0, r_maxbuf = REDIS_READER_MAX_BUF, r_rstack = replicate 9 blank_task,
      r_ridx = -1, r_reply = None, r_fn = Some fns, r_privdata = 0, r_store = h\<rparr>"
    using assms(2) by (auto simp: redisReaderCreateWithFunctions_def sds_bind_def split: option.splits)
  have "sds_post m (\<lambda>s. content s = []) (Some (Some s))"
    using sdsempty_post [OF assms(1)] s by simp
  then have wf: "sds_wf s" "content s = []" by simp_all
  then have "sdslen s = 0" using length_content by fastforce
  then have "live_buf r" using wf by (simp add: r live_buf_def)
  then show b: "between r" by (simp add: between_def r)
  show p: "pending r = []" using wf by (simp add: r pending_def)
  show "synced r []" using between_synced [OF b] p by simp
  show "r_len r = 0" by (simp add: r)
qed

end

end
