(* ===== verification/Reply.thy ===== *)
theory Reply
  imports Reader_Stream
begin

text \<open>
  The reply objects of \<open>redis/hiredis.c\<close>: the structure \<open>redisReply\<close>, the default object
  functions the reader is given (\<open>createStringObject\<close>, \<open>createArrayObject\<close>,
  \<open>createIntegerObject\<close>, \<open>createNilObject\<close>) and \<open>freeReplyObject\<close>.

  The store is the list of the objects allocated so far, \<open>None\<close> for those freed; an object
  is its index.  \<open>calloc\<close> and \<open>malloc\<close> are asked through the allocator of \<open>Sds\<close>.  Use of a
  freed object, a bad element index and a failed assertion are \<open>None\<close>.

  The interpretation of \<open>reply_builder\<close> at the end shows that these functions keep the
  contract the reader's correctness rests on.
\<close>

section \<open>Objects\<close>

record redisReply =
  rp_type :: int
  rp_integer :: int
  rp_len :: nat
  rp_str :: "string option"
  rp_elements :: nat
  rp_element :: "nat option list option"

type_synonym heap = "redisReply option list"

definition heap_get :: "heap \<Rightarrow> nat \<Rightarrow> redisReply option" where
  "heap_get h a = (if a < length h then h ! a else None)"

definition sizeof_redisReply :: nat where "sizeof_redisReply = 48"

definition new_reply :: "int \<Rightarrow> redisReply" where
  "new_reply t = \<lparr>rp_type = t, rp_integer = 0, rp_len = 0, rp_str = None, rp_elements = 0, rp_element = None\<rparr>"

definition createReplyObject :: "allocator \<Rightarrow> heap \<Rightarrow> int \<Rightarrow> heap \<times> nat option" where
  "createReplyObject m h type =
     (case m sizeof_redisReply of
        None \<Rightarrow> (h, None)
      | Some _ \<Rightarrow> (h @ [Some (new_reply type)], Some (length h)))"

text \<open>
  \<open>freeReplyObject\<close> descends into the elements of an array.  The fuel bounds the nesting; a
  heap of \<open>n\<close> objects has no deeper nesting than \<open>n\<close>.
\<close>

function free_reply :: "nat \<Rightarrow> nat \<Rightarrow> heap \<Rightarrow> heap option"
  and free_replies :: "nat \<Rightarrow> nat option list \<Rightarrow> heap \<Rightarrow> heap option" where
  "free_reply 0 a h = None"
| "free_reply (Suc fuel) a h =
     do {
       r \<leftarrow> heap_get h a;
       h1 \<leftarrow> (if rp_type r = REDIS_REPLY_ARRAY then
                (case rp_element r of
                   None \<Rightarrow> Some h
                 | Some es \<Rightarrow>
                     if rp_elements r \<le> length es
                     then free_replies fuel (take (rp_elements r) es) h else None)
              else Some h);
       Some (h1[a := None])
     }"
| "free_replies fuel [] h = Some h"
| "free_replies fuel (None # es) h = free_replies fuel es h"
| "free_replies fuel (Some b # es) h =
     do { h1 \<leftarrow> free_reply fuel b h; free_replies fuel es h1 }"
  by pat_completeness auto
termination
  by (relation "measures [\<lambda>x. case x of Inl (f, _, _) \<Rightarrow> f | Inr (f, _, _) \<Rightarrow> f,
                          \<lambda>x. case x of Inl _ \<Rightarrow> 0 | Inr (_, es, _) \<Rightarrow> Suc (length es)]") auto

definition freeReplyObject :: "heap \<Rightarrow> robj \<Rightarrow> heap option" where
  "freeReplyObject h obj =
     (case obj of Ref a \<Rightarrow> free_reply (Suc (length h)) a h | Tag _ \<Rightarrow> None)"

text \<open>\<open>if (task->parent) { ... parent->element[task->idx] = r; }\<close>\<close>

definition link_parent ::
  "heap \<Rightarrow> redisReadTask \<Rightarrow> redisReadTask option \<Rightarrow> nat \<Rightarrow> heap option" where
  "link_parent h task parent a =
     (case parent of
        None \<Rightarrow> Some h
      | Some pt \<Rightarrow>
          (case t_obj pt of
             Some (Ref p) \<Rightarrow>
               do {
                 r \<leftarrow> heap_get h p;
                 if rp_type r \<noteq> REDIS_REPLY_ARRAY then None
                 else
                   case rp_element r of
                     None \<Rightarrow> None
                   | Some es \<Rightarrow>
                       if 0 \<le> t_idx task \<and> nat (t_idx task) < length es
                       then Some (h[p := Some (r\<lparr>rp_element := Some (es[nat (t_idx task) := Some a])\<rparr>)])
                       else None
               }
           | _ \<Rightarrow> None))"

definition createStringObject ::
  "allocator \<Rightarrow> heap \<Rightarrow> redisReadTask \<Rightarrow> redisReadTask option \<Rightarrow> string \<Rightarrow> (heap \<times> robj option) option" where
  "createStringObject m h task parent str =
     (case createReplyObject m h (t_type task) of
        (h1, None) \<Rightarrow> Some (h1, None)
      | (h1, Some a) \<Rightarrow>
          (case m (length str + 1) of
             None \<Rightarrow> do { h2 \<leftarrow> freeReplyObject h1 (Ref a); Some (h2, None) }
           | Some _ \<Rightarrow>
               if t_type task \<in> {REDIS_REPLY_ERROR, REDIS_REPLY_STATUS, REDIS_REPLY_STRING}
               then do {
                 h2 \<leftarrow> link_parent
                   (h1[a := Some ((new_reply (t_type task))\<lparr>rp_len := length str, rp_str := Some (str @ [NUL])\<rparr>)])
                   task parent a;
                 Some (h2, Some (Ref a))
               }
               else None))"

definition createArrayObject ::
  "allocator \<Rightarrow> heap \<Rightarrow> redisReadTask \<Rightarrow> redisReadTask option \<Rightarrow> int \<Rightarrow> (heap \<times> robj option) option" where
  "createArrayObject m h task parent elements =
     (case createReplyObject m h REDIS_REPLY_ARRAY of
        (h1, None) \<Rightarrow> Some (h1, None)
      | (h1, Some a) \<Rightarrow>
          if elements > 0 \<and> m (8 * nat elements) = None
          then do { h2 \<leftarrow> freeReplyObject h1 (Ref a); Some (h2, None) }
          else do {
            h2 \<leftarrow> link_parent
              (h1[a := Some ((new_reply REDIS_REPLY_ARRAY)
                   \<lparr>rp_elements := nat (elements mod 2 ^ 64),
                    rp_element := (if elements > 0 then Some (replicate (nat elements) None) else None)\<rparr>)])
              task parent a;
            Some (h2, Some (Ref a))
          })"

definition createIntegerObject ::
  "allocator \<Rightarrow> heap \<Rightarrow> redisReadTask \<Rightarrow> redisReadTask option \<Rightarrow> int \<Rightarrow> (heap \<times> robj option) option" where
  "createIntegerObject m h task parent v =
     (case createReplyObject m h REDIS_REPLY_INTEGER of
        (h1, None) \<Rightarrow> Some (h1, None)
      | (h1, Some a) \<Rightarrow> do {
          h2 \<leftarrow> link_parent (h1[a := Some ((new_reply REDIS_REPLY_INTEGER)\<lparr>rp_integer := v\<rparr>)]) task parent a;
          Some (h2, Some (Ref a))
        })"

definition createNilObject ::
  "allocator \<Rightarrow> heap \<Rightarrow> redisReadTask \<Rightarrow> redisReadTask option \<Rightarrow> (heap \<times> robj option) option" where
  "createNilObject m h task parent =
     (case createReplyObject m h REDIS_REPLY_NIL of
        (h1, None) \<Rightarrow> Some (h1, None)
      | (h1, Some a) \<Rightarrow> do { h2 \<leftarrow> link_parent h1 task parent a; Some (h2, Some (Ref a)) })"

definition defaultFunctions :: "allocator \<Rightarrow> heap redisReplyObjectFunctions" where
  "defaultFunctions m =
     \<lparr>createString = Some (createStringObject m), createArray = Some (createArrayObject m),
      createInteger = Some (createIntegerObject m), createNil = Some (createNilObject m),
      freeObject = Some freeReplyObject\<rparr>"

definition redisReaderCreate :: "allocator \<Rightarrow> heap redisReader option option" where
  "redisReaderCreate m = redisReaderCreateWithFunctions m [] (Some (defaultFunctions m))"

text \<open>What a client finds by following the pointers of a reply; the fuel bounds the nesting.\<close>

function read_reply :: "nat \<Rightarrow> heap \<Rightarrow> nat \<Rightarrow> reply option"
  and read_replies :: "nat \<Rightarrow> heap \<Rightarrow> nat option list \<Rightarrow> reply list option" where
  "read_reply 0 h a = None"
| "read_reply (Suc fuel) h a =
     do {
       r \<leftarrow> heap_get h a;
       if rp_type r = REDIS_REPLY_INTEGER then Some (RInt (rp_integer r))
       else if rp_type r = REDIS_REPLY_NIL then Some RNil
       else if rp_type r = REDIS_REPLY_ARRAY then
         (case rp_element r of
            None \<Rightarrow> Some (RArr (rp_elements r) [])
          | Some es \<Rightarrow> map_option (RArr (rp_elements r)) (read_replies fuel h (take (rp_elements r) es)))
       else map_option (\<lambda>s. RStr (rp_type r) (take (rp_len r) s)) (rp_str r)
     }"
| "read_replies fuel h [] = Some []"
| "read_replies fuel h (None # es) = None"
| "read_replies fuel h (Some b # es) =
     do { t \<leftarrow> read_reply fuel h b; ts \<leftarrow> read_replies fuel h es; Some (t # ts) }"
  by pat_completeness auto
termination
  by (relation "measures [\<lambda>x. case x of Inl (f, _, _) \<Rightarrow> f | Inr (f, _, _) \<Rightarrow> f,
                          \<lambda>x. case x of Inl _ \<Rightarrow> 0 | Inr (_, _, es) \<Rightarrow> Suc (length es)]") auto

definition reply_of :: "heap \<Rightarrow> robj \<Rightarrow> reply option" where
  "reply_of h obj = (case obj of Ref a \<Rightarrow> read_reply (Suc (length h)) h a | Tag _ \<Rightarrow> None)"

section \<open>Replies in the heap\<close>

text \<open>
  The reader allocates the objects of one reply one after the other, so that a reply at
  address \<open>a\<close> occupies the \<open>tree_size\<close> cells from \<open>a\<close> on, in the order of its items.
\<close>

fun tree_size :: "reply \<Rightarrow> nat" where
  "tree_size (RArr n ts) = Suc (sum_list (map tree_size ts))"
| "tree_size _ = 1"

fun addrs :: "nat \<Rightarrow> reply list \<Rightarrow> nat list" where
  "addrs a [] = []"
| "addrs a (t # ts) = a # addrs (a + tree_size t) ts"

definition array_cell :: "nat \<Rightarrow> nat list \<Rightarrow> redisReply" where
  "array_cell n as = (new_reply REDIS_REPLY_ARRAY)
     \<lparr>rp_elements := n,
      rp_element := (if n = 0 then None else Some (map Some as @ replicate (n - length as) None))\<rparr>"

fun leaf_cell :: "reply \<Rightarrow> redisReply" where
  "leaf_cell (RStr t s) = (new_reply t)\<lparr>rp_len := length s, rp_str := Some (s @ [NUL])\<rparr>"
| "leaf_cell (RInt v) = (new_reply REDIS_REPLY_INTEGER)\<lparr>rp_integer := v\<rparr>"
| "leaf_cell RNil = new_reply REDIS_REPLY_NIL"
| "leaf_cell (RArr n ts) = array_cell n []"

fun layout :: "nat \<Rightarrow> reply \<Rightarrow> heap" and layouts :: "nat \<Rightarrow> reply list \<Rightarrow> heap" where
  "layout a (RArr n ts) = Some (array_cell n (addrs (Suc a) ts)) # layouts (Suc a) ts"
| "layout a (RStr t s) = [Some (leaf_cell (RStr t s))]"
| "layout a (RInt v) = [Some (leaf_cell (RInt v))]"
| "layout a RNil = [Some (leaf_cell RNil)]"
| "layouts a [] = []"
| "layouts a (t # ts) = layout a t @ layouts (a + tree_size t) ts"

fun fits :: "reply \<Rightarrow> bool" where
  "fits (RArr n ts) \<longleftrightarrow> length ts \<le> n \<and> list_all fits ts"
| "fits (RStr t s) \<longleftrightarrow> t \<in> {REDIS_REPLY_STRING, REDIS_REPLY_STATUS, REDIS_REPLY_ERROR}"
| "fits _ \<longleftrightarrow> True"

lemma length_layout [simp]:
  "length (layout a t) = tree_size t"
  "length (layouts a ts) = sum_list (map tree_size ts)"
  by (induction a t and a ts rule: layout_layouts.induct) auto

lemma length_addrs [simp]: "length (addrs a ts) = length ts"
  by (induction ts arbitrary: a) auto

lemma addrs_append: "addrs a (ts @ us) = addrs a ts @ addrs (a + sum_list (map tree_size ts)) us"
  by (induction ts arbitrary: a) (auto simp: add.assoc)

lemma layouts_append: "layouts a (ts @ us) = layouts a ts @ layouts (a + sum_list (map tree_size ts)) us"
  by (induction ts arbitrary: a) (auto simp: add.assoc)

lemma layout_leaf: "layout a (RArr n []) = [Some (array_cell n [])]"
  by simp

lemma heap_get_at: "heap_get (pre @ c # post) (length pre) = c"
  by (simp add: heap_get_def)

text \<open>Freeing a reply frees its cells, each of them once, and no other.\<close>

lemma take_slots: "length as \<le> n \<Longrightarrow> take n (map Some as @ replicate (n - length as) None) = map Some as @ replicate (n - length as) None"
  by simp

lemma free_replies_None: "free_replies fuel (replicate k None) h = Some h"
  by (induction k) simp_all

lemma free_replies_append:
  "free_replies fuel (es @ es') h = Option.bind (free_replies fuel es h) (free_replies fuel es')"
proof (induction es arbitrary: h)
  case (Cons e es)
  then show ?case by (cases e) (auto split: bind_split)
qed simp

text \<open>The claims about one tree, and what follows for the elements of an array.\<close>

definition frees :: "reply \<Rightarrow> bool" where
  "frees t \<longleftrightarrow> (\<forall>fuel pre post. fits t \<longrightarrow> tree_size t \<le> fuel \<longrightarrow>
     free_reply fuel (length pre) (pre @ layout (length pre) t @ post) =
       Some (pre @ replicate (tree_size t) None @ post))"

lemma free_elements:
  assumes "\<And>t. t \<in> set ts \<Longrightarrow> frees t" and "list_all fits ts" and "sum_list (map tree_size ts) \<le> fuel"
  shows "free_replies fuel (map Some (addrs (length pre) ts)) (pre @ layouts (length pre) ts @ post) =
     Some (pre @ replicate (sum_list (map tree_size ts)) None @ post)"
  using assms
proof (induction ts arbitrary: pre)
  case (Cons t ts)
  have "free_reply fuel (length pre) (pre @ layout (length pre) t @ layouts (length pre + tree_size t) ts @ post)
      = Some (pre @ replicate (tree_size t) None @ layouts (length pre + tree_size t) ts @ post)"
    using Cons.prems by (simp add: frees_def)
  moreover have "free_replies fuel (map Some (addrs (length (pre @ replicate (tree_size t) None)) ts))
        ((pre @ replicate (tree_size t) None) @ layouts (length (pre @ replicate (tree_size t) None)) ts @ post)
      = Some ((pre @ replicate (tree_size t) None) @ replicate (sum_list (map tree_size ts)) None @ post)"
    using Cons.prems by (intro Cons.IH) auto
  ultimately show ?case by (simp add: replicate_add)
qed simp

lemma free_leaf:
  assumes "rp_type c \<noteq> REDIS_REPLY_ARRAY" and "0 < fuel"
  shows "free_reply fuel (length pre) (pre @ Some c # post) = Some (pre @ None # post)"
  using assms by (cases fuel) (simp_all add: heap_get_at list_update_append)

lemma free_layout: "frees t"
proof (induction t)
  case (RArr n ts)
  show ?case
    unfolding frees_def
  proof (intro allI impI)
    fix fuel and pre post :: heap
    assume fits: "fits (RArr n ts)" and "tree_size (RArr n ts) \<le> fuel"
    then obtain f where f: "fuel = Suc f" "sum_list (map tree_size ts) \<le> f"
      by (cases fuel) auto
    let ?c = "array_cell n (addrs (Suc (length pre)) ts)"
    let ?h = "pre @ Some ?c # layouts (Suc (length pre)) ts @ post"
    have get: "heap_get ?h (length pre) = Some ?c" by (simp add: heap_get_at)
    have el: "free_replies f (map Some (addrs (Suc (length pre)) ts)) ?h
        = Some (pre @ Some ?c # replicate (sum_list (map tree_size ts)) None @ post)"
      using free_elements [of ts f "pre @ [Some ?c]" post] RArr.IH fits f by simp
    show "free_reply fuel (length pre) (pre @ layout (length pre) (RArr n ts) @ post)
        = Some (pre @ replicate (tree_size (RArr n ts)) None @ post)"
    proof (cases "n = 0")
      case True
      then have "ts = []" using fits by simp
      then show ?thesis
        using get f True by (simp add: array_cell_def new_reply_def list_update_append)
    next
      case False
      then have "free_replies f (take n (map Some (addrs (Suc (length pre)) ts)
            @ replicate (n - length ts) None)) ?h
          = Some (pre @ Some ?c # replicate (sum_list (map tree_size ts)) None @ post)"
        using fits el by (simp add: free_replies_append free_replies_None)
      then show ?thesis
        using get f False fits by (simp add: array_cell_def new_reply_def list_update_append)
    qed
  qed
qed (auto simp: frees_def new_reply_def reply_types intro!: free_leaf)

lemma free_tree:
  "fits t \<Longrightarrow> freeReplyObject (pre @ layout (length pre) t @ post) (Ref (length pre)) =
     Some (pre @ replicate (tree_size t) None @ post)"
  using free_layout [of t] by (simp add: freeReplyObject_def frees_def del: free_reply.simps)

text \<open>Reading it back gives the tree, once all its arrays are full.\<close>

fun full :: "reply \<Rightarrow> bool" where
  "full (RArr n ts) \<longleftrightarrow> length ts = n \<and> list_all full ts"
| "full _ \<longleftrightarrow> True"

definition reads :: "reply \<Rightarrow> bool" where
  "reads t \<longleftrightarrow> (\<forall>fuel pre post. fits t \<longrightarrow> full t \<longrightarrow> tree_size t \<le> fuel \<longrightarrow>
     read_reply fuel (pre @ layout (length pre) t @ post) (length pre) = Some t)"

lemma read_elements:
  assumes "\<And>t. t \<in> set ts \<Longrightarrow> reads t" and "list_all fits ts" and "list_all full ts"
    and "sum_list (map tree_size ts) \<le> fuel"
  shows "read_replies fuel (pre @ layouts (length pre) ts @ post) (map Some (addrs (length pre) ts)) = Some ts"
  using assms
proof (induction ts arbitrary: pre)
  case (Cons t ts)
  have "read_reply fuel (pre @ layout (length pre) t @ layouts (length pre + tree_size t) ts @ post)
      (length pre) = Some t"
    using Cons.prems by (simp add: reads_def)
  moreover have "read_replies fuel
        ((pre @ layout (length pre) t) @ layouts (length (pre @ layout (length pre) t)) ts @ post)
        (map Some (addrs (length (pre @ layout (length pre) t)) ts)) = Some ts"
    using Cons.prems by (intro Cons.IH) auto
  ultimately show ?case by simp
qed simp

lemma read_layout: "reads t"
proof (induction t)
  case (RArr n ts)
  show ?case
    unfolding reads_def
  proof (intro allI impI)
    fix fuel and pre post :: heap
    assume *: "fits (RArr n ts)" "full (RArr n ts)" and "tree_size (RArr n ts) \<le> fuel"
    then obtain f where f: "fuel = Suc f" "sum_list (map tree_size ts) \<le> f"
      by (cases fuel) auto
    let ?c = "array_cell n (addrs (Suc (length pre)) ts)"
    let ?h = "pre @ Some ?c # layouts (Suc (length pre)) ts @ post"
    have get: "heap_get ?h (length pre) = Some ?c" by (simp add: heap_get_at)
    have "read_replies f ?h (map Some (addrs (Suc (length pre)) ts)) = Some ts"
      using read_elements [of ts f "pre @ [Some ?c]" post] RArr.IH * f by simp
    then show "read_reply fuel (pre @ layout (length pre) (RArr n ts) @ post) (length pre)
        = Some (RArr n ts)"
      using get f * by (cases "n = 0") (auto simp: array_cell_def new_reply_def reply_types)
  qed
next
  case (RStr t s)
  show ?case
    unfolding reads_def
  proof (intro allI impI)
    fix fuel and pre post :: heap
    assume "fits (RStr t s)" "tree_size (RStr t s) \<le> fuel"
    then show "read_reply fuel (pre @ layout (length pre) (RStr t s) @ post) (length pre) = Some (RStr t s)"
      by (cases fuel) (auto simp: heap_get_at new_reply_def reply_types)
  qed
next
  case (RInt v)
  show ?case
    unfolding reads_def
  proof (intro allI impI)
    fix fuel and pre post :: heap
    assume "tree_size (RInt v) \<le> fuel"
    then show "read_reply fuel (pre @ layout (length pre) (RInt v) @ post) (length pre) = Some (RInt v)"
      by (cases fuel) (auto simp: heap_get_at new_reply_def reply_types)
  qed
next
  case RNil
  show ?case
    unfolding reads_def
  proof (intro allI impI)
    fix fuel and pre post :: heap
    assume "tree_size RNil \<le> fuel"
    then show "read_reply fuel (pre @ layout (length pre) RNil @ post) (length pre) = Some RNil"
      by (cases fuel) (auto simp: heap_get_at new_reply_def reply_types)
  qed
qed

lemma read_tree:
  "fits t \<Longrightarrow> full t \<Longrightarrow> reply_of (pre @ layout (length pre) t @ post) (Ref (length pre)) = Some t"
  using read_layout [of t] by (simp add: reply_of_def reads_def del: read_reply.simps)

section \<open>The reply in progress\<close>

text \<open>
  \<open>opened a gs\<close> is the part of the heap from \<open>a\<close> on that holds the open arrays \<open>gs\<close>
  (outermost first) up to the array in which the reader currently is: each has a link to the
  next one in the slot after its complete elements.
\<close>

fun opened :: "nat \<Rightarrow> frames \<Rightarrow> heap" where
  "opened a [] = []"
| "opened a ((n, ts) # gs) =
     (let b = Suc a + sum_list (map tree_size ts)
      in Some (array_cell n (addrs (Suc a) ts @ [b])) # layouts (Suc a) ts @ opened b gs)"

fun starts :: "nat \<Rightarrow> frames \<Rightarrow> nat list" where
  "starts a [] = []"
| "starts a ((n, ts) # gs) = a # starts (Suc a + sum_list (map tree_size ts)) gs"

definition in_progress :: "heap \<Rightarrow> frames \<Rightarrow> robj list \<Rightarrow> bool" where
  "in_progress h fs ps \<longleftrightarrow>
     (case fs of
        [] \<Rightarrow> False
      | (n, ts) # fs' \<Rightarrow>
          (\<exists>pre. let gs = rev fs'; b = length (pre @ opened (length pre) gs)
                 in h = pre @ opened (length pre) gs @ layout b (RArr n ts) \<and>
                    ps = map Ref (rev (starts (length pre) gs @ [b])) \<and>
                    list_all (\<lambda>(n, ts). length ts < n \<and> list_all fits ts \<and> list_all full ts) gs \<and>
                    0 < n \<and> length ts \<le> n \<and> list_all fits ts \<and> list_all full ts))"

definition in_heap :: "heap \<Rightarrow> robj \<Rightarrow> reply \<Rightarrow> bool" where
  "in_heap h p t \<longleftrightarrow> (\<exists>pre. h = pre @ layout (length pre) t \<and> p = Ref (length pre) \<and> fits t \<and> full t)"

lemma opened_append:
  "opened a (gs @ [(n, ts)]) =
   opened a gs @ (let a' = a + length (opened a gs)
                  in Some (array_cell n (addrs (Suc a') ts @ [Suc a' + sum_list (map tree_size ts)]))
                     # layouts (Suc a') ts)"
  by (induction a gs rule: opened.induct) (auto simp: Let_def add.assoc)

lemma starts_append: "starts a (gs @ [(n, ts)]) = starts a gs @ [a + length (opened a gs)]"
  by (induction a gs rule: opened.induct) (auto simp: Let_def add.assoc)

text \<open>Putting a new object in the first free slot of the innermost array.\<close>

lemma link_open:
  assumes h: "h = pre @ layout (length pre) (RArr n ts)" and n: "length ts < n"
    and pt: "t_obj pt = Some (Ref (length pre))" and idx: "t_idx cur = int (length ts)"
  shows "link_parent (h @ L) cur (Some pt) (length h) =
     Some (pre @ Some (array_cell n (addrs (Suc (length pre)) ts @ [length h]))
             # layouts (Suc (length pre)) ts @ L)"
proof -
  let ?as = "addrs (Suc (length pre)) ts"
  have get: "heap_get (h @ L) (length pre) = Some (array_cell n ?as)"
    unfolding h by (simp add: heap_get_at)
  have es: "rp_element (array_cell n ?as) = Some (map Some ?as @ replicate (n - length ts) None)"
    using n by (simp add: array_cell_def)
  have "(map Some ?as @ replicate (n - length ts) None)[length ts := Some (length h)]
      = map Some (?as @ [length h]) @ replicate (n - Suc (length ts)) None"
    using n by (simp add: list_update_append Suc_diff_Suc [symmetric])
  then have "(array_cell n ?as)\<lparr>rp_element := Some
        ((map Some ?as @ replicate (n - length ts) None)[length ts := Some (length h)])\<rparr>
      = array_cell n (?as @ [length h])"
    using n by (simp add: array_cell_def)
  moreover have "rp_type (array_cell n ?as) = REDIS_REPLY_ARRAY"
    by (simp add: array_cell_def new_reply_def)
  moreover have "(h @ L)[length pre := Some c] = pre @ Some c # layouts (Suc (length pre)) ts @ L" for c
    unfolding h by (simp add: list_update_append)
  ultimately show ?thesis
    using pt idx get es n by (simp add: link_parent_def)
qed

lemma in_progressE:
  assumes "in_progress h ((n, ts) # fs) (p # ps)"
  obtains pre where "h = pre @ opened (length pre) (rev fs) @
        layout (length (pre @ opened (length pre) (rev fs))) (RArr n ts)"
    and "p = Ref (length (pre @ opened (length pre) (rev fs)))"
    and "ps = map Ref (rev (starts (length pre) (rev fs)))"
    and "list_all (\<lambda>(n, ts). length ts < n \<and> list_all fits ts \<and> list_all full ts) (rev fs)"
    and "0 < n" and "length ts \<le> n" and "list_all fits ts" and "list_all full ts"
  using assms by (auto simp: in_progress_def Let_def)

lemma in_progressI:
  assumes "h = pre @ opened (length pre) gs @ layout b (RArr n ts)"
    and "b = length (pre @ opened (length pre) gs)" and "fs = rev gs"
    and "p = Ref b" and "ps = map Ref (rev (starts (length pre) gs))"
    and "list_all (\<lambda>(n, ts). length ts < n \<and> list_all fits ts \<and> list_all full ts) gs"
    and "0 < n" and "length ts \<le> n" and "list_all fits ts" and "list_all full ts"
  shows "in_progress h ((n, ts) # fs) (p # ps)"
  using assms unfolding in_progress_def by (auto simp: Let_def intro!: exI [of _ pre])

lemma link_leaf:
  assumes ip: "in_progress h ((n, ts) # fs) (p # ps)" and n: "length ts < n"
    and pt: "t_obj pt = Some p" and idx: "t_idx cur = int (length ts)" and x: "fits x" "full x"
  shows "\<exists>h'. link_parent (h @ layout (length h) x) cur (Some pt) (length h) = Some h' \<and>
           in_progress h' ((n, ts @ [x]) # fs) (p # ps)"
proof -
  obtain pre where pre: "h = pre @ opened (length pre) (rev fs) @
        layout (length (pre @ opened (length pre) (rev fs))) (RArr n ts)"
    and p: "p = Ref (length (pre @ opened (length pre) (rev fs)))"
    and ps: "ps = map Ref (rev (starts (length pre) (rev fs)))"
    and ok: "list_all (\<lambda>(n, ts). length ts < n \<and> list_all fits ts \<and> list_all full ts) (rev fs)"
      "0 < n" "length ts \<le> n" "list_all fits ts" "list_all full ts"
    by (rule in_progressE [OF ip])
  define pre' where "pre' = pre @ opened (length pre) (rev fs)"
  have h: "h = pre' @ layout (length pre') (RArr n ts)" using pre by (simp add: pre'_def)
  have lh: "length h = Suc (length pre') + sum_list (map tree_size ts)" unfolding h by simp
  have new: "pre' @ Some (array_cell n (addrs (Suc (length pre')) ts @ [length h]))
      # layouts (Suc (length pre')) ts @ layout (length h) x
      = pre' @ layout (length pre') (RArr n (ts @ [x]))"
    by (simp add: lh addrs_append layouts_append)
  have "in_progress (pre' @ layout (length pre') (RArr n (ts @ [x]))) ((n, ts @ [x]) # fs) (p # ps)"
    by (rule in_progressI [where pre = pre and gs = "rev fs" and b = "length pre'"])
      (use ok n x p ps in \<open>auto simp: pre'_def\<close>)
  then show ?thesis
    using link_open [OF h n _ idx] pt p new by (simp add: pre'_def)
qed

lemma link_array:
  assumes ip: "in_progress h ((n, ts) # fs) (p # ps)" and n: "length ts < n" and m: "0 < m"
    and pt: "t_obj pt = Some p" and idx: "t_idx cur = int (length ts)"
  shows "\<exists>h'. link_parent (h @ layout (length h) (RArr m [])) cur (Some pt) (length h) = Some h' \<and>
           in_progress h' ((m, []) # (n, ts) # fs) (Ref (length h) # p # ps)"
proof -
  obtain pre where pre: "h = pre @ opened (length pre) (rev fs) @
        layout (length (pre @ opened (length pre) (rev fs))) (RArr n ts)"
    and p: "p = Ref (length (pre @ opened (length pre) (rev fs)))"
    and ps: "ps = map Ref (rev (starts (length pre) (rev fs)))"
    and ok: "list_all (\<lambda>(n, ts). length ts < n \<and> list_all fits ts \<and> list_all full ts) (rev fs)"
      "0 < n" "length ts \<le> n" "list_all fits ts" "list_all full ts"
    by (rule in_progressE [OF ip])
  define pre' where "pre' = pre @ opened (length pre) (rev fs)"
  have h: "h = pre' @ layout (length pre') (RArr n ts)" using pre by (simp add: pre'_def)
  have lh: "length h = Suc (length pre') + sum_list (map tree_size ts)" unfolding h by simp
  define gs where "gs = rev fs @ [(n, ts)]"
  have op: "pre' @ Some (array_cell n (addrs (Suc (length pre')) ts @ [length h]))
      # layouts (Suc (length pre')) ts = pre @ opened (length pre) gs"
    by (simp add: gs_def opened_append pre'_def lh Let_def)
  have lo: "length h = length (pre @ opened (length pre) gs)"
    unfolding op [symmetric] lh by simp
  have "in_progress ((pre @ opened (length pre) gs) @ layout (length h) (RArr m []))
      ((m, []) # (n, ts) # fs) (Ref (length h) # p # ps)"
    by (rule in_progressI [where pre = pre and gs = gs and b = "length h"])
      (use ok n m p ps lo in \<open>auto simp: gs_def starts_append pre'_def\<close>)
  moreover have "pre' @ Some (array_cell n (addrs (Suc (length pre')) ts @ [length h]))
      # layouts (Suc (length pre')) ts @ layout (length h) (RArr m [])
      = (pre @ opened (length pre) gs) @ layout (length h) (RArr m [])"
    unfolding op [symmetric] by simp
  moreover have "t_obj pt = Some (Ref (length pre'))" using pt p by (simp add: pre'_def)
  ultimately show ?thesis
    using link_open [OF h n _ idx, of pt "layout (length h) (RArr m [])"] by metis
qed

section \<open>The functions keep the contract\<close>

definition refuses :: "allocator \<Rightarrow> bool" where
  "refuses m \<longleftrightarrow> (\<exists>n. m n = None)"

lemma refuses_total: "malloc_total m \<Longrightarrow> \<not> refuses m"
  by (simp add: refuses_def malloc_total_def)

text \<open>Allocation of an object that a second request then makes fail: the heap of the reply
  in progress gains a dead cell, which the layout does not have.\<close>

lemma createReplyObject_cases:
  obtains (refused) "createReplyObject m h t = (h, None)" "refuses m"
  | (made) "createReplyObject m h t = (h @ [Some (new_reply t)], Some (length h))"
proof (cases "m sizeof_redisReply")
  case None
  then show thesis using refused by (auto simp: createReplyObject_def refuses_def)
next
  case (Some blk)
  then show thesis using made by (simp add: createReplyObject_def)
qed

text \<open>A reply in progress is itself laid out as a tree with free slots, so it can be freed.\<close>

fun plug :: "frames \<Rightarrow> reply \<Rightarrow> reply" where
  "plug [] t = t"
| "plug ((n, ts) # gs) t = RArr n (ts @ [plug gs t])"

lemma tree_size_plug: "tree_size (plug gs t) = length (opened a gs) + tree_size t"
  by (induction gs t arbitrary: a rule: plug.induct) (auto simp: Let_def)

lemma layout_plug: "layout a (plug gs t) = opened a gs @ layout (a + length (opened a gs)) t"
proof (induction gs t arbitrary: a rule: plug.induct)
  case (2 n ts gs t)
  let ?b = "Suc a + sum_list (map tree_size ts)"
  show ?case using "2.IH" [of ?b] by (simp add: Let_def addrs_append layouts_append add.assoc)
qed simp

lemma fits_plug:
  "fits t \<Longrightarrow> list_all (\<lambda>(n, ts). length ts < n \<and> list_all fits ts \<and> list_all full ts) gs \<Longrightarrow>
   fits (plug gs t)"
  by (induction gs t rule: plug.induct) auto

lemma hd_starts: "hd (starts a gs @ [a + length (opened a gs)]) = a"
  by (cases gs) (auto simp: Let_def)

lemma release_in_progress:
  assumes "in_progress h fs (p # ps)"
  shows "freeReplyObject (h @ post) (last (p # ps)) \<noteq> None"
proof -
  obtain n ts fs' where fs: "fs = (n, ts) # fs'"
    using assms by (cases fs) (auto simp: in_progress_def)
  obtain pre where pre: "h = pre @ opened (length pre) (rev fs') @
        layout (length (pre @ opened (length pre) (rev fs'))) (RArr n ts)"
    and p: "p = Ref (length (pre @ opened (length pre) (rev fs')))"
    and ps: "ps = map Ref (rev (starts (length pre) (rev fs')))"
    and ok: "list_all (\<lambda>(n, ts). length ts < n \<and> list_all fits ts \<and> list_all full ts) (rev fs')"
      "0 < n" "length ts \<le> n" "list_all fits ts" "list_all full ts"
    by (rule in_progressE [OF assms [unfolded fs]])
  define T where "T = plug (rev fs') (RArr n ts)"
  have h: "h @ post = pre @ layout (length pre) T @ post"
    using pre by (simp add: T_def layout_plug)
  have "p # ps = map Ref (rev (starts (length pre) (rev fs') @ [length pre + length (opened (length pre) (rev fs'))]))"
    using p ps by simp
  then have "last (p # ps) = Ref (hd (starts (length pre) (rev fs') @ [length pre + length (opened (length pre) (rev fs'))]))"
    by (simp only: last_map last_rev list.map_disc_iff rev_is_Nil_conv append_is_Nil_conv
        not_Cons_self2 simp_thms)
  then have "last (p # ps) = Ref (length pre)" by (simp only: hd_starts)
  moreover have "fits T" using ok by (simp add: T_def fits_plug)
  ultimately show ?thesis using free_tree [of T pre post] unfolding h by simp
qed

lemma free_new:
  "rp_element r = None \<Longrightarrow> freeReplyObject (h @ [Some r]) (Ref (length h)) = Some (h @ [None])"
  by (simp add: freeReplyObject_def heap_get_def list_update_append)

text \<open>The general form of the four functions: allocate, fill in, link.\<close>

lemma link_at_root:
  "fits x \<Longrightarrow> full x \<Longrightarrow>
   link_parent (h @ layout (length h) x) cur None (length h) = Some (h @ layout (length h) x) \<and>
   in_heap (h @ layout (length h) x) (Ref (length h)) x"
  by (auto simp: link_parent_def in_heap_def)

lemma makes_object:
  assumes x: "fits x" "full x"
    and fail: "\<And>h. f h = Some (h, None) \<or> f h = Some (h @ [None], None) \<Longrightarrow> refuses m"
    and f: "\<And>h. f h \<in> {Some (h, None), Some (h @ [None], None),
        map_option (\<lambda>h'. (h', Some (Ref (length h)))) (link_parent (h @ layout (length h) x) cur parent (length h))}"
  shows "makes in_progress in_heap freeReplyObject (refuses m) cur parent f x"
  unfolding makes_def
proof (intro conjI allI impI)
  fix h assume "parent = None"
  then show "\<exists>h' q. f h = Some (h', q) \<and> (case q of None \<Rightarrow> refuses m | Some p \<Rightarrow> in_heap h' p x)"
    using f [of h] fail [of h] link_at_root [OF x, of h cur] by auto
next
  fix h n ts fs p ps pt
  assume "parent = Some pt" and a: "t_obj pt = Some p" "t_idx cur = int (length ts)" "length ts < n"
    and ip: "in_progress h ((n, ts) # fs) (p # ps)"
  then show "\<exists>h' q. f h = Some (h', q) \<and>
      (case q of None \<Rightarrow> refuses m \<and> freeReplyObject h' (last (p # ps)) \<noteq> None
       | Some _ \<Rightarrow> in_progress h' ((n, ts @ [x]) # fs) (p # ps))"
    using f [of h] fail [of h] link_leaf [OF ip a(3,1,2) x]
      release_in_progress [OF ip, of "[]"] release_in_progress [OF ip, of "[None]"] by auto
qed

lemma opens_array:
  assumes n: "0 < k"
    and fail: "\<And>h. f h = Some (h, None) \<or> f h = Some (h @ [None], None) \<Longrightarrow> refuses m"
    and f: "\<And>h. f h \<in> {Some (h, None), Some (h @ [None], None),
        map_option (\<lambda>h'. (h', Some (Ref (length h))))
          (link_parent (h @ layout (length h) (RArr k [])) cur parent (length h))}"
  shows "opens in_progress freeReplyObject (refuses m) cur parent f k"
  unfolding opens_def
proof (intro conjI allI impI)
  fix h assume par: "parent = None"
  have "in_progress (h @ layout (length h) (RArr k [])) [(k, [])] [Ref (length h)]"
    using n by (intro in_progressI [where pre = h and gs = "[]" and b = "length h"]) auto
  then show "\<exists>h' q. f h = Some (h', q) \<and>
      (case q of None \<Rightarrow> refuses m | Some p \<Rightarrow> in_progress h' [(k, [])] [p])"
    using f [of h] fail [of h] par by (auto simp: link_parent_def)
next
  fix h n' ts fs p ps pt
  assume "parent = Some pt" and a: "t_obj pt = Some p" "t_idx cur = int (length ts)" "length ts < n'"
    and ip: "in_progress h ((n', ts) # fs) (p # ps)"
  then show "\<exists>h' q. f h = Some (h', q) \<and>
      (case q of None \<Rightarrow> refuses m \<and> freeReplyObject h' (last (p # ps)) \<noteq> None
       | Some p' \<Rightarrow> in_progress h' ((k, []) # (n', ts) # fs) (p' # p # ps))"
    using f [of h] fail [of h] link_array [OF ip a(3) n a(1,2)]
      release_in_progress [OF ip, of "[]"] release_in_progress [OF ip, of "[None]"] by auto
qed

lemma new_reply_element [simp]: "rp_element (new_reply t) = None"
  by (simp add: new_reply_def)

lemma list_update_last: "(h @ [c])[length h := d] = h @ [d]"
  by (simp add: list_update_append)

lemma bind_link:
  "Option.bind x (\<lambda>h. Some (h, Some q)) = map_option (\<lambda>h. (h, Some q)) x"
  by (cases x) simp_all

lemma makes_nil:
  "makes in_progress in_heap freeReplyObject (refuses m) cur parent (\<lambda>h. createNilObject m h cur parent) RNil"
proof (rule makes_object)
  fix h
  show "createNilObject m h cur parent \<in> {Some (h, None), Some (h @ [None], None),
      map_option (\<lambda>h'. (h', Some (Ref (length h)))) (link_parent (h @ layout (length h) RNil) cur parent (length h))}"
    by (rule createReplyObject_cases [of m h REDIS_REPLY_NIL]) (simp_all add: createNilObject_def bind_link)
  assume "createNilObject m h cur parent = Some (h, None) \<or> createNilObject m h cur parent = Some (h @ [None], None)"
  then show "refuses m"
    by (rule_tac createReplyObject_cases [of m h REDIS_REPLY_NIL]) (auto simp: createNilObject_def bind_link)
qed simp_all

lemma makes_integer:
  "makes in_progress in_heap freeReplyObject (refuses m) cur parent
     (\<lambda>h. createIntegerObject m h cur parent v) (RInt v)"
proof (rule makes_object)
  fix h
  show "createIntegerObject m h cur parent v \<in> {Some (h, None), Some (h @ [None], None),
      map_option (\<lambda>h'. (h', Some (Ref (length h)))) (link_parent (h @ layout (length h) (RInt v)) cur parent (length h))}"
    by (rule createReplyObject_cases [of m h REDIS_REPLY_INTEGER])
      (simp_all add: createIntegerObject_def bind_link list_update_last)
  assume "createIntegerObject m h cur parent v = Some (h, None) \<or>
      createIntegerObject m h cur parent v = Some (h @ [None], None)"
  then show "refuses m"
    by (rule_tac createReplyObject_cases [of m h REDIS_REPLY_INTEGER])
      (auto simp: createIntegerObject_def bind_link)
qed simp_all

lemma makes_string:
  assumes "t_type cur \<in> {REDIS_REPLY_STRING, REDIS_REPLY_STATUS, REDIS_REPLY_ERROR}"
  shows "makes in_progress in_heap freeReplyObject (refuses m) cur parent
     (\<lambda>h. createStringObject m h cur parent s) (RStr (t_type cur) s)"
proof (rule makes_object)
  have ty: "t_type cur \<in> {REDIS_REPLY_ERROR, REDIS_REPLY_STATUS, REDIS_REPLY_STRING}"
    using assms by auto
  fix h
  show "createStringObject m h cur parent s \<in> {Some (h, None), Some (h @ [None], None),
      map_option (\<lambda>h'. (h', Some (Ref (length h))))
        (link_parent (h @ layout (length h) (RStr (t_type cur) s)) cur parent (length h))}"
    using ty by (rule_tac createReplyObject_cases [of m h "t_type cur"])
      (simp_all add: createStringObject_def bind_link list_update_last free_new split: option.split)
  assume "createStringObject m h cur parent s = Some (h, None) \<or>
      createStringObject m h cur parent s = Some (h @ [None], None)"
  then show "refuses m"
    using ty by (rule_tac createReplyObject_cases [of m h "t_type cur"])
      (auto simp: createStringObject_def bind_link refuses_def split: option.splits)
qed (use assms in auto)

lemma array_object:
  assumes "0 \<le> n" and "n < 2 ^ 64"
  shows "createArrayObject m h cur parent n \<in> {Some (h, None), Some (h @ [None], None),
      map_option (\<lambda>h'. (h', Some (Ref (length h))))
        (link_parent (h @ layout (length h) (RArr (nat n) [])) cur parent (length h))}"
    and "createArrayObject m h cur parent n = Some (h, None) \<or>
         createArrayObject m h cur parent n = Some (h @ [None], None) \<Longrightarrow> refuses m"
proof -
  have cell: "(new_reply REDIS_REPLY_ARRAY)\<lparr>rp_elements := nat (n mod 2 ^ 64),
      rp_element := (if n > 0 then Some (replicate (nat n) None) else None)\<rparr> = array_cell (nat n) []"
    using assms by (auto simp: array_cell_def)
  show "createArrayObject m h cur parent n \<in> {Some (h, None), Some (h @ [None], None),
      map_option (\<lambda>h'. (h', Some (Ref (length h))))
        (link_parent (h @ layout (length h) (RArr (nat n) [])) cur parent (length h))}"
    unfolding createArrayObject_def cell
    by (rule createReplyObject_cases [of m h REDIS_REPLY_ARRAY])
      (auto simp add: bind_link list_update_last free_new)
  assume "createArrayObject m h cur parent n = Some (h, None) \<or>
         createArrayObject m h cur parent n = Some (h @ [None], None)"
  then show "refuses m"
    unfolding createArrayObject_def cell
    by (rule_tac createReplyObject_cases [of m h REDIS_REPLY_ARRAY])
      (auto simp add: bind_link refuses_def split: if_splits)
qed

lemma makes_empty:
  "makes in_progress in_heap freeReplyObject (refuses m) cur parent
     (\<lambda>h. createArrayObject m h cur parent 0) (RArr 0 [])"
  by (rule makes_object) (use array_object [of 0 m _ cur parent] in auto)

lemma opens_array_object:
  "0 < k \<Longrightarrow> k < 2 ^ 64 \<Longrightarrow>
   opens in_progress freeReplyObject (refuses m) cur parent (\<lambda>h. createArrayObject m h cur parent (int k)) k"
  by (rule opens_array) (use array_object [of "int k" m _ cur parent] in auto)

lemma close_in_progress:
  assumes ip: "in_progress h ((n, ts) # (n', ts') # fs) (p # p' # ps)" and n: "length ts = n"
  shows "in_progress h ((n', ts' @ [RArr n ts]) # fs) (p' # ps)"
proof -
  obtain pre where pre: "h = pre @ opened (length pre) (rev ((n', ts') # fs)) @
        layout (length (pre @ opened (length pre) (rev ((n', ts') # fs)))) (RArr n ts)"
    and ps: "p' # ps = map Ref (rev (starts (length pre) (rev ((n', ts') # fs))))"
    and ok: "list_all (\<lambda>(n, ts). length ts < n \<and> list_all fits ts \<and> list_all full ts) (rev ((n', ts') # fs))"
      "length ts \<le> n" "list_all fits ts" "list_all full ts"
    by (rule in_progressE [OF ip])
  define b where "b = length (pre @ opened (length pre) (rev fs))"
  show ?thesis
  proof (rule in_progressI [where pre = pre and gs = "rev fs" and b = b])
    show "h = pre @ opened (length pre) (rev fs) @ layout b (RArr n' (ts' @ [RArr n ts]))"
      using pre by (simp add: opened_append Let_def b_def addrs_append layouts_append add.assoc)
  qed (use ok ps n in \<open>auto simp: b_def starts_append\<close>)
qed

lemma root_in_progress: "in_progress h [(n, ts)] [p] \<Longrightarrow> length ts = n \<Longrightarrow> in_heap h p (RArr n ts)"
  by (auto simp: in_progress_def in_heap_def Let_def)

interpretation replies: reply_builder "defaultFunctions m" in_progress in_heap "refuses m"
  "createStringObject m" "createArrayObject m" "createIntegerObject m" "createNilObject m" freeReplyObject
  for m
  by unfold_locales
    (auto simp: defaultFunctions_def INT_MAX_def intro: makes_string makes_integer makes_nil makes_empty
      opens_array_object close_in_progress root_in_progress dest: release_in_progress [where post = "[]"])

section \<open>The reader with the default functions\<close>

lemma in_heap_reply_of: "in_heap h q t \<Longrightarrow> reply_of h q = Some t"
  using read_tree [of t _ "[]"] by (auto simp: in_heap_def)

lemma tree_size_pos: "0 < tree_size t"
  by (cases t) simp_all

lemma in_heap_free:
  "in_heap h q t \<Longrightarrow> \<exists>a. q = Ref a \<and> a < length h \<and>
     freeReplyObject h q = Some (take a h @ replicate (length h - a) None)"
  using free_tree [of t _ "[]"] tree_size_pos [of t] by (auto simp: in_heap_def)

lemma replied_reply_of:
  "replies.replied qs ts \<Longrightarrow> map (\<lambda>(q, h). reply_of h q) qs = map Some ts"
  unfolding replies.replied_def by (induction rule: list_all2_induct) (auto simp: in_heap_reply_of)

lemma redisReaderCreate_total:
  assumes "malloc_spec m" and "malloc_total m"
  shows "\<exists>r. redisReaderCreate m = Some (Some r)"
proof -
  obtain blk where "m sizeof_redisReader = Some blk"
    using assms(2) by (fastforce simp: malloc_total_def)
  moreover obtain s where "sdsempty m = Some (Some s)"
    using sds_postD [OF sdsempty_post [OF assms(1)] assms(2)] by metis
  ultimately show ?thesis
    by (simp add: redisReaderCreate_def redisReaderCreateWithFunctions_def sds_bind_def)
qed

lemma reader_feed_all:
  assumes m: "malloc_spec m" "malloc_total m" and r: "redisReaderCreate m = Some (Some r)"
    and len: "length (concat xs) < 2 ^ 31"
  shows "\<exists>qs r'. feed_all m r xs = Some (qs, r') \<and>
     map (\<lambda>(q, h). reply_of h q) qs = map Some (fst (parse_all (concat xs))) \<and>
     (case snd (parse_all (concat xs)) of
        None \<Rightarrow> r_err r' = 0
      | Some (e, msg) \<Rightarrow> r_err r' = e \<and> r_errstr r' = msg)"
proof -
  have c: "replies.synced m r []" "r_len r = 0"
    using replies.created_synced [OF m(1) r [unfolded redisReaderCreate_def]] by auto
  have "r_len r + length (concat xs) < 2 ^ 31" using c(2) len by simp
  from replies.feed_all_synced [OF m refuses_total [OF m(2)] c(1) parse_Nil this]
  obtain qs r' where f: "feed_all m r xs = Some (qs, r')"
      "replies.replied qs (fst (parse_all ([] @ concat xs)))"
      "case snd (parse_all ([] @ concat xs)) of None \<Rightarrow> r_err r' = 0 | Some err \<Rightarrow> replies.stopped r' err"
    by blast
  have "case snd (parse_all (concat xs)) of
        None \<Rightarrow> r_err r' = 0
      | Some (e, msg) \<Rightarrow> r_err r' = e \<and> r_errstr r' = msg"
    using f(3) by (auto simp: replies.stopped_def split: option.splits)
  then show ?thesis using f(1,2) replied_reply_of by (intro exI conjI) auto
qed

section \<open>What the reader promises\<close>

text \<open>C7. A new reader with the default functions, fed a byte stream in chunks of any size and
  drained after each, never does anything undefined, always returns, hands out exactly the replies
  the parser finds in the whole stream, and ends with the error the parser meets, if any.\<close>

theorem reader_replies:
  assumes "malloc_spec m" and "malloc_total m" and "redisReaderCreate m = Some (Some r)"
    and "length (concat xs) < 2 ^ 31"
  shows "\<exists>qs r'. feed_all m r xs = Some (qs, r') \<and>
     map (\<lambda>(q, h). reply_of h q) qs = map Some (fst (parse_all (concat xs))) \<and>
     (case snd (parse_all (concat xs)) of
        None \<Rightarrow> r_err r' = 0
      | Some (e, msg) \<Rightarrow> r_err r' = e \<and> r_errstr r' = msg)"
  by (rule reader_feed_all [OF assms])

lemma wf_samples:
  "wf_reply (RStr REDIS_REPLY_STRING ''foo'')" "wf_reply (RInt 42)" "wf_reply RNil"
  by simp_all

lemma encode_sample:
  "encode (RStr REDIS_REPLY_STRING ''foo'') = ''$3'' @ CRLF @ ''foo'' @ CRLF"
  "encode (RInt 42) = '':42'' @ CRLF"
proof -
  have "dec_nat (Suc (Suc (Suc 0))) = ''3''" "dec_int 42 = ''42''" by code_simp+
  then show "encode (RStr REDIS_REPLY_STRING ''foo'') = ''$3'' @ CRLF @ ''foo'' @ CRLF"
    "encode (RInt 42) = '':42'' @ CRLF"
    by simp_all
qed

theorem reader_replies_witness:
  "\<exists>r qs r'. redisReaderCreate zero_malloc = Some (Some r) \<and>
     feed_all zero_malloc r [''$3'' @ CRLF @ ''fo'', ''o'' @ CRLF @ '':4'', ''2'' @ CRLF] = Some (qs, r') \<and>
     map (\<lambda>(q, h). reply_of h q) qs = [Some (RStr REDIS_REPLY_STRING ''foo''), Some (RInt 42)] \<and> r_err r' = 0"
proof -
  let ?xs = "[''$3'' @ CRLF @ ''fo'', ''o'' @ CRLF @ '':4'', ''2'' @ CRLF]"
  obtain r where r: "redisReaderCreate zero_malloc = Some (Some r)"
    using redisReaderCreate_total zero_malloc_ok by blast
  have "concat ?xs = concat (map encode [RStr REDIS_REPLY_STRING ''foo'', RInt 42]) @ []"
    by (simp add: encode_sample del: encode.simps)
  then have "parse_all (concat ?xs) = ([RStr REDIS_REPLY_STRING ''foo'', RInt 42], None)"
    using parse_all_encode [of "[RStr REDIS_REPLY_STRING ''foo'', RInt 42]" "[]"] wf_samples
    by (simp only: parse_all_PWait [OF parse_Nil]) simp
  then show ?thesis
    using reader_replies [OF zero_malloc_ok r, of ?xs] r by auto
qed

text \<open>C22. Encoded replies come back: whatever the cuts between the chunks, the reader decodes the
  encoding of any well-formed replies nested at most eight deep to those replies, without error.\<close>

theorem reader_decodes:
  assumes "malloc_spec m" and "malloc_total m" and "redisReaderCreate m = Some (Some r)"
    and "\<And>t. t \<in> set ts \<Longrightarrow> wf_reply t \<and> reply_depth t \<le> 8"
    and "concat xs = concat (map encode ts)" and "length (concat xs) < 2 ^ 31"
  shows "\<exists>qs r'. feed_all m r xs = Some (qs, r') \<and>
     map (\<lambda>(q, h). reply_of h q) qs = map Some ts \<and> r_err r' = 0"
proof -
  have "parse_all (concat xs) = (ts, None)"
    using parse_all_encode [of ts "[]"] assms(4,5) by (simp add: parse_all_PWait)
  then show ?thesis using reader_feed_all [OF assms(1,2,3,6)] by auto
qed

theorem reader_decodes_witness:
  "\<exists>r qs r'. redisReaderCreate zero_malloc = Some (Some r) \<and>
     feed_all zero_malloc r [encode (RArr 2 [RInt 7, RArr 1 [RNil]])] = Some (qs, r') \<and>
     map (\<lambda>(q, h). reply_of h q) qs = [Some (RArr 2 [RInt 7, RArr 1 [RNil]])] \<and> r_err r' = 0"
proof -
  obtain r where r: "redisReaderCreate zero_malloc = Some (Some r)"
    using redisReaderCreate_total zero_malloc_ok by blast
  have "dec_nat 2 = ''2''" "dec_nat (Suc 0) = ''1''" "dec_int 7 = ''7''" by code_simp+
  then have "length (encode (RArr 2 [RInt 7, RArr 1 [RNil]])) < 2 ^ 31" by simp
  then show ?thesis
    using reader_decodes [OF zero_malloc_ok r, of "[RArr 2 [RInt 7, RArr 1 [RNil]]]"
        "[encode (RArr 2 [RInt 7, RArr 1 [RNil]])]"] r
    by (simp add: INT_MAX_def del: encode.simps)
qed

text \<open>C27. The reply functions build trees that can be freed: freeing a reply that was handed out
  releases every object made for it, each exactly once, and touches no older object.\<close>

theorem reader_replies_freed:
  assumes "malloc_spec m" and "malloc_total m" and "redisReaderCreate m = Some (Some r)"
    and "length (concat xs) < 2 ^ 31" and "feed_all m r xs = Some (qs, r')" and "(q, h) \<in> set qs"
  shows "\<exists>a. q = Ref a \<and> a < length h \<and>
     freeReplyObject h q = Some (take a h @ replicate (length h - a) None)"
proof -
  have c: "replies.synced m r []" "r_len r = 0"
    using replies.created_synced [OF assms(1) assms(3) [unfolded redisReaderCreate_def]] by auto
  have "r_len r + length (concat xs) < 2 ^ 31" using c(2) assms(4) by simp
  from replies.feed_all_synced [OF assms(1,2) refuses_total [OF assms(2)] c(1) parse_Nil this]
  have "replies.replied qs (fst (parse_all (concat xs)))" using assms(5) by auto
  then obtain t where "in_heap h q t"
    using assms(6) by (fastforce simp: replies.replied_def list_all2_conv_all_nth in_set_conv_nth)
  then show ?thesis by (rule in_heap_free)
qed

theorem reader_replies_freed_witness:
  "\<exists>r qs r' q h a. redisReaderCreate zero_malloc = Some (Some r) \<and>
     feed_all zero_malloc r ['':42'' @ CRLF] = Some (qs, r') \<and> qs = [(q, h)] \<and> q = Ref a \<and>
     freeReplyObject h q = Some (take a h @ replicate (length h - a) None)"
proof -
  obtain r where r: "redisReaderCreate zero_malloc = Some (Some r)"
    using redisReaderCreate_total zero_malloc_ok by blast
  have len: "length (concat ['':42'' @ CRLF]) < 2 ^ 31" by simp
  have "parse_all (concat ['':42'' @ CRLF]) = ([RInt 42], None)"
    using parse_all_encode [of "[RInt 42]" "[]"] encode_sample(2)
    by (simp add: parse_all_PWait del: encode.simps)
  then obtain qs r' where f: "feed_all zero_malloc r ['':42'' @ CRLF] = Some (qs, r')"
      "map (\<lambda>(q, h). reply_of h q) qs = [Some (RInt 42)]"
    using reader_feed_all [OF zero_malloc_ok r len] by auto
  then obtain q h where qs: "qs = [(q, h)]" by auto
  then show ?thesis
    using reader_replies_freed [OF zero_malloc_ok r len f(1), of q h] r f by auto
qed

end
