(* ===== verification/Net.thy ===== *)
theory Net
  imports Reply "HOL-Library.Word" "HOL-Library.Signed_Division"
begin

text \<open>
  The connection of \<open>redis/hiredis.h\<close> (\<open>redisContext\<close>) and the socket layer
  \<open>redis/net.c\<close>: making a socket, its options, the connect loop over the addresses of a
  host with its retries and time-out, and the error text of a connection.

  The operating system is a parameter.  Every system call is an event of an explicit
  history: \<open>e_sys\<close> answers a call from the events so far with an \<open>errno\<close> (\<open>Inl\<close>) or a
  non-negative value (\<open>Inr\<close>), \<open>e_read\<close> does so for \<open>read(2)\<close>, and \<open>e_resolve\<close> is
  \<open>getaddrinfo\<close>.  \<open>w_errno\<close> is the C variable, which the code reads after later calls.
  \<open>e_strerror\<close> and \<open>e_gai_strerror\<close> are the message tables of libc.

  A run is \<open>None\<close> where the C code has undefined behaviour (a NULL \<open>malloc\<close> result is
  written to, an \<open>assert\<close> fails).
\<close>

section \<open>The operating system\<close>

record timeval = tv_sec :: int  tv_usec :: int

datatype sockopt = SO_REUSEADDR int | SO_KEEPALIVE int | TCP_KEEPIDLE int | TCP_KEEPINTVL int
  | TCP_KEEPCNT int | TCP_NODELAY int | SO_RCVTIMEO timeval | SO_SNDTIMEO timeval

datatype sockaddr = INET nat | UNIX string

record addrinfo = ai_family :: int  ai_socktype :: int  ai_protocol :: int  ai_addr :: sockaddr

text \<open>The system calls of the library; \<open>GetSockErr\<close> is \<open>getsockopt\<close> of \<open>SO_ERROR\<close>, whose value is
  the answer.\<close>

datatype syscall = Socket int int int | Close int | GetFl int | SetFl int int
  | SetSockOpt int sockopt | GetSockErr int | Connect int sockaddr | Poll int int
  | Bind int sockaddr | Write int string

datatype event = Call syscall "int + nat" | Received int "int + string"

record world =
  w_events :: "event list"
  w_errno :: int

record env =
  e_malloc :: allocator
  e_sys :: "world \<Rightarrow> syscall \<Rightarrow> int + nat"
  e_read :: "world \<Rightarrow> int \<Rightarrow> nat \<Rightarrow> int + string"
  e_resolve :: "world \<Rightarrow> string option \<Rightarrow> string option \<Rightarrow> int \<Rightarrow> int + addrinfo list"
  e_strerror :: "int \<Rightarrow> string"
  e_gai_strerror :: "int \<Rightarrow> string"

definition sys :: "env \<Rightarrow> syscall \<Rightarrow> world \<Rightarrow> (int + nat) \<times> world" where
  "sys e op w =
     (let a = e_sys e w op
      in (a, \<lparr>w_events = Call op a # w_events w,
              w_errno = (case a of Inl n \<Rightarrow> n | Inr _ \<Rightarrow> w_errno w)\<rparr>))"

definition sys_read :: "env \<Rightarrow> int \<Rightarrow> nat \<Rightarrow> world \<Rightarrow> (int + string) \<times> world" where
  "sys_read e fd n w =
     (let a = e_read e w fd n
      in (a, \<lparr>w_events = Received fd a # w_events w,
              w_errno = (case a of Inl k \<Rightarrow> k | Inr _ \<Rightarrow> w_errno w)\<rparr>))"

text \<open>The \<open>errno\<close> values the code compares with, and the constants it passes, as Linux has them.\<close>

definition EINTR :: int where "EINTR = 4"
definition EAGAIN :: int where "EAGAIN = 11"
definition EADDRNOTAVAIL :: int where "EADDRNOTAVAIL = 99"
definition ETIMEDOUT :: int where "ETIMEDOUT = 110"
definition EHOSTUNREACH :: int where "EHOSTUNREACH = 113"
definition EINPROGRESS :: int where "EINPROGRESS = 115"
definition AF_UNIX :: int where "AF_UNIX = 1"
definition AF_INET :: int where "AF_INET = 2"
definition AF_INET6 :: int where "AF_INET6 = 10"
definition SOCK_STREAM :: int where "SOCK_STREAM = 1"
definition O_NONBLOCK :: nat where "O_NONBLOCK = 2048"

section \<open>The context\<close>

type_synonym cflags = "32 word"

definition REDIS_BLOCK :: cflags where "REDIS_BLOCK = 0x1"
definition REDIS_CONNECTED :: cflags where "REDIS_CONNECTED = 0x2"
definition REDIS_DISCONNECTING :: cflags where "REDIS_DISCONNECTING = 0x4"
definition REDIS_FREEING :: cflags where "REDIS_FREEING = 0x8"
definition REDIS_IN_CALLBACK :: cflags where "REDIS_IN_CALLBACK = 0x10"
definition REDIS_SUBSCRIBED :: cflags where "REDIS_SUBSCRIBED = 0x20"
definition REDIS_MONITORING :: cflags where "REDIS_MONITORING = 0x40"
definition REDIS_REUSEADDR :: cflags where "REDIS_REUSEADDR = 0x80"
definition REDIS_CONNECT_RETRIES :: nat where "REDIS_CONNECT_RETRIES = 10"
definition REDIS_KEEPALIVE_INTERVAL :: int where "REDIS_KEEPALIVE_INTERVAL = 15"

datatype redisConnectionType = REDIS_CONN_TCP | REDIS_CONN_UNIX

record 'h redisContext =
  c_err :: int
  c_errstr :: string
  c_fd :: int
  c_flags :: cflags
  c_obuf :: "sds option"
  c_reader :: "'h redisReader option"
  c_connection_type :: redisConnectionType
  c_timeout :: "timeval option"
  c_host :: "string option"
  c_source_addr :: "string option"
  c_port :: int
  c_path :: "string option"

unbundle bit_operations_syntax

definition has :: "cflags \<Rightarrow> cflags \<Rightarrow> bool" where
  "has flags f \<longleftrightarrow> flags AND f \<noteq> 0"

text \<open>A result of a function of the library: the context, the world and the status.\<close>

type_synonym 'h net = "('h redisContext \<times> world \<times> status) option"

text \<open>\<open>__redisSetError\<close> of \<open>hiredis.c\<close>; without a text it takes the one of \<open>errno\<close>.\<close>

definition redisSetError ::
  "env \<Rightarrow> 'h redisContext \<Rightarrow> world \<Rightarrow> int \<Rightarrow> string option \<Rightarrow> 'h redisContext option" where
  "redisSetError e c w type str =
     (case str of
        Some s \<Rightarrow> Some (c\<lparr>c_err := type, c_errstr := take 127 (cstr s)\<rparr>)
      | None \<Rightarrow>
          if type = REDIS_ERR_IO
          then Some (c\<lparr>c_err := type, c_errstr := take 127 (cstr (e_strerror e (w_errno w)))\<rparr>)
          else None)"

definition redisContextCloseFd :: "env \<Rightarrow> 'h redisContext \<Rightarrow> world \<Rightarrow> 'h redisContext \<times> world" where
  "redisContextCloseFd e c w =
     (if c_fd c \<ge> 0 then (c\<lparr>c_fd := -1\<rparr>, snd (sys e (Close (c_fd c)) w)) else (c, w))"

definition redisSetErrorFromErrno ::
  "env \<Rightarrow> 'h redisContext \<Rightarrow> world \<Rightarrow> int \<Rightarrow> string option \<Rightarrow> 'h redisContext option" where
  "redisSetErrorFromErrno e c w type what =
     (let buf = (case what of None \<Rightarrow> [] | Some p \<Rightarrow> take 127 (p @ '': ''));
          len = (case what of None \<Rightarrow> 0 | Some p \<Rightarrow> length (p @ '': ''))
      in if len < 128
         then redisSetError e c w type (Some (buf @ take (127 - len) (cstr (e_strerror e (w_errno w)))))
         else None)"

text \<open>Record the error of the last system call, close the descriptor, fail.\<close>

definition fail_closed :: "env \<Rightarrow> 'h redisContext \<Rightarrow> world \<Rightarrow> string option \<Rightarrow> 'h net" where
  "fail_closed e c w what =
     do {
       c1 \<leftarrow> redisSetErrorFromErrno e c w REDIS_ERR_IO what;
       let (c2, w2) = redisContextCloseFd e c1 w;
       Some (c2, w2, REDIS_ERR)
     }"

definition fail_open :: "env \<Rightarrow> 'h redisContext \<Rightarrow> world \<Rightarrow> string option \<Rightarrow> 'h net" where
  "fail_open e c w what =
     do { c1 \<leftarrow> redisSetErrorFromErrno e c w REDIS_ERR_IO what; Some (c1, w, REDIS_ERR) }"

section \<open>Socket options\<close>

definition redisSetReuseAddr :: "env \<Rightarrow> 'h redisContext \<Rightarrow> world \<Rightarrow> 'h net" where
  "redisSetReuseAddr e c w =
     (case sys e (SetSockOpt (c_fd c) (SO_REUSEADDR 1)) w of
        (Inl _, w1) \<Rightarrow> fail_closed e c w1 None
      | (Inr _, w1) \<Rightarrow> Some (c, w1, REDIS_OK))"

definition redisCreateSocket :: "env \<Rightarrow> 'h redisContext \<Rightarrow> world \<Rightarrow> int \<Rightarrow> 'h net" where
  "redisCreateSocket e c w type =
     (case sys e (Socket type SOCK_STREAM 0) w of
        (Inl _, w1) \<Rightarrow> fail_open e c w1 None
      | (Inr s, w1) \<Rightarrow>
          let c1 = c\<lparr>c_fd := int s\<rparr>
          in if type = AF_INET then redisSetReuseAddr e c1 w1 else Some (c1, w1, REDIS_OK))"

definition redisSetBlocking :: "env \<Rightarrow> 'h redisContext \<Rightarrow> world \<Rightarrow> bool \<Rightarrow> 'h net" where
  "redisSetBlocking e c w blocking =
     (case sys e (GetFl (c_fd c)) w of
        (Inl _, w1) \<Rightarrow> fail_closed e c w1 (Some ''fcntl(F_GETFL)'')
      | (Inr flags, w1) \<Rightarrow>
          let flags' = (if blocking then int flags AND NOT (int O_NONBLOCK) else int flags OR int O_NONBLOCK)
          in case sys e (SetFl (c_fd c) flags') w1 of
               (Inl _, w2) \<Rightarrow> fail_closed e c w2 (Some ''fcntl(F_SETFL)'')
             | (Inr _, w2) \<Rightarrow> Some (c, w2, REDIS_OK))"

text \<open>One option of \<open>redisKeepAlive\<close>, which leaves the descriptor open when it fails; the glibc
  branch of the conditional compilation.\<close>

definition keepalive_option :: "env \<Rightarrow> sockopt \<Rightarrow> 'h redisContext \<Rightarrow> world \<Rightarrow> 'h net" where
  "keepalive_option e opt c w =
     (case sys e (SetSockOpt (c_fd c) opt) w of
        (Inl errno, w1) \<Rightarrow> do {
          c1 \<leftarrow> redisSetError e c w1 REDIS_ERR_OTHER (Some (e_strerror e errno));
          Some (c1, w1, REDIS_ERR)
        }
      | (Inr _, w1) \<Rightarrow> Some (c, w1, REDIS_OK))"

text \<open>Go on while the status is \<open>REDIS_OK\<close>.\<close>

definition and_then :: "'h net \<Rightarrow> ('h redisContext \<Rightarrow> world \<Rightarrow> 'h net) \<Rightarrow> 'h net" where
  "and_then r k = do { (c, w, st) \<leftarrow> r; if st = REDIS_OK then k c w else Some (c, w, REDIS_ERR) }"

definition redisKeepAlive :: "env \<Rightarrow> 'h redisContext \<Rightarrow> world \<Rightarrow> int \<Rightarrow> 'h net" where
  "redisKeepAlive e c w interval =
     (let third = interval sdiv 3; val = (if third = 0 then 1 else third)
      in and_then (keepalive_option e (SO_KEEPALIVE 1) c w)
           (\<lambda>c w. and_then (keepalive_option e (TCP_KEEPIDLE interval) c w)
             (\<lambda>c w. and_then (keepalive_option e (TCP_KEEPINTVL val) c w)
               (\<lambda>c w. keepalive_option e (TCP_KEEPCNT 3) c w))))"

definition redisSetTcpNoDelay :: "env \<Rightarrow> 'h redisContext \<Rightarrow> world \<Rightarrow> 'h net" where
  "redisSetTcpNoDelay e c w =
     (case sys e (SetSockOpt (c_fd c) (TCP_NODELAY 1)) w of
        (Inl _, w1) \<Rightarrow> fail_closed e c w1 (Some ''setsockopt(TCP_NODELAY)'')
      | (Inr _, w1) \<Rightarrow> Some (c, w1, REDIS_OK))"

section \<open>Time-outs\<close>

definition LONG_MAX :: int where "LONG_MAX = 2 ^ 63 - 1"
definition MAX_MSEC :: int where "MAX_MSEC = (LONG_MAX - 999) div 1000"

text \<open>The milliseconds of the context's time-out, rounded up; \<open>-1\<close> (no time-out) when it is NULL.
  The products and sums are \<open>long\<close>, whose overflow is undefined.\<close>

definition redisContextTimeoutMsec :: "'h redisContext \<Rightarrow> (int \<times> status) option" where
  "redisContextTimeoutMsec c =
     (case c_timeout c of
        None \<Rightarrow> Some (-1, REDIS_OK)
      | Some t \<Rightarrow>
          if tv_usec t > 1000000 \<or> tv_sec t > MAX_MSEC then Some (-1, REDIS_ERR)
          else
            let msec = tv_sec t * 1000 + (tv_usec t + 999) sdiv 1000
            in if s64 (tv_sec t * 1000) \<noteq> tv_sec t * 1000 \<or> s64 msec \<noteq> msec then None
               else Some (if msec < 0 \<or> msec > INT_MAX then INT_MAX else msec, REDIS_OK))"

definition redisCheckSocketError :: "env \<Rightarrow> 'h redisContext \<Rightarrow> world \<Rightarrow> 'h net" where
  "redisCheckSocketError e c w =
     (case sys e (GetSockErr (c_fd c)) w of
        (Inl _, w1) \<Rightarrow> fail_open e c w1 (Some ''getsockopt(SO_ERROR)'')
      | (Inr err, w1) \<Rightarrow>
          if err \<noteq> 0 then fail_open e c (w1\<lparr>w_errno := int err\<rparr>) None
          else Some (c, w1, REDIS_OK))"

definition redisContextWaitReady :: "env \<Rightarrow> 'h redisContext \<Rightarrow> world \<Rightarrow> int \<Rightarrow> 'h net" where
  "redisContextWaitReady e c w msec =
     (if w_errno w = EINPROGRESS then
        case sys e (Poll (c_fd c) msec) w of
          (Inl _, w1) \<Rightarrow> fail_closed e c w1 (Some ''poll(2)'')
        | (Inr res, w1) \<Rightarrow>
            if res = 0 then fail_closed e c (w1\<lparr>w_errno := ETIMEDOUT\<rparr>) None
            else redisCheckSocketError e c w1
      else fail_closed e c w None)"

definition redisContextSetTimeout :: "env \<Rightarrow> 'h redisContext \<Rightarrow> world \<Rightarrow> timeval \<Rightarrow> 'h net" where
  "redisContextSetTimeout e c w tv =
     (case sys e (SetSockOpt (c_fd c) (SO_RCVTIMEO tv)) w of
        (Inl _, w1) \<Rightarrow> fail_open e c w1 (Some ''setsockopt(SO_RCVTIMEO)'')
      | (Inr _, w1) \<Rightarrow>
          (case sys e (SetSockOpt (c_fd c) (SO_SNDTIMEO tv)) w1 of
             (Inl _, w2) \<Rightarrow> fail_open e c w2 (Some ''setsockopt(SO_SNDTIMEO)'')
           | (Inr _, w2) \<Rightarrow> Some (c, w2, REDIS_OK)))"

section \<open>Connecting\<close>

text \<open>A pointer argument may be NULL, the context's own field (\<open>redisReconnect\<close> passes those),
  or memory of the caller.\<close>

datatype 'a ptr = Null | Own | Ptr 'a

fun ptr_val :: "'a option \<Rightarrow> 'a ptr \<Rightarrow> 'a option" where
  "ptr_val own Null = None"
| "ptr_val own Own = own"
| "ptr_val own (Ptr x) = Some x"

definition strdup :: "env \<Rightarrow> string \<Rightarrow> string option" where
  "strdup e s = map_option (\<lambda>_. cstr s) (e_malloc e (length (cstr s) + 1))"

definition sizeof_timeval :: nat where "sizeof_timeval = 16"

text \<open>Taking over the caller's time-out: \<open>memcpy\<close> to a NULL block is undefined.\<close>

definition keep_timeout :: "env \<Rightarrow> 'h redisContext \<Rightarrow> timeval ptr \<Rightarrow> 'h redisContext option" where
  "keep_timeout e c timeout =
     (case timeout of
        Null \<Rightarrow> Some (c\<lparr>c_timeout := None\<rparr>)
      | Own \<Rightarrow> Some c
      | Ptr tv \<Rightarrow>
          if c_timeout c = None \<and> e_malloc e sizeof_timeval = None then None
          else Some (c\<lparr>c_timeout := Some tv\<rparr>))"

definition keep_source :: "env \<Rightarrow> 'h redisContext \<Rightarrow> string ptr \<Rightarrow> 'h redisContext" where
  "keep_source e c source_addr =
     (case source_addr of
        Null \<Rightarrow> c\<lparr>c_source_addr := None\<rparr>
      | Own \<Rightarrow> c
      | Ptr a \<Rightarrow> c\<lparr>c_source_addr := strdup e a\<rparr>)"

text \<open>Binding to the first of the source addresses that can be bound.\<close>

fun bind_first :: "env \<Rightarrow> int \<Rightarrow> addrinfo list \<Rightarrow> world \<Rightarrow> bool \<times> world" where
  "bind_first e s [] w = (False, w)"
| "bind_first e s (b # bs) w =
     (case sys e (Bind s (ai_addr b)) w of
        (Inr _, w1) \<Rightarrow> (True, w1)
      | (Inl _, w1) \<Rightarrow> bind_first e s bs w1)"

definition bind_source :: "env \<Rightarrow> 'h redisContext \<Rightarrow> world \<Rightarrow> int \<Rightarrow> 'h net" where
  "bind_source e c w family =
     (case c_source_addr c of
        None \<Rightarrow> Some (c, w, REDIS_OK)
      | Some a \<Rightarrow>
          (case e_resolve e w (Some a) None family of
             Inl rv \<Rightarrow> do {
               c1 \<leftarrow> redisSetError e c w REDIS_ERR_OTHER
                      (Some (take 127 (''Can't get addr: '' @ cstr (e_gai_strerror e rv))));
               Some (c1, w, REDIS_ERR)
             }
           | Inr bs \<Rightarrow>
               (case (if has (c_flags c) REDIS_REUSEADDR
                      then sys e (SetSockOpt (c_fd c) (SO_REUSEADDR 1)) w else (Inr 0, w)) of
                  (Inl _, w1) \<Rightarrow> Some (c, w1, REDIS_ERR)
                | (Inr _, w1) \<Rightarrow>
                    (case bind_first e (c_fd c) bs w1 of
                       (True, w2) \<Rightarrow> Some (c, w2, REDIS_OK)
                     | (False, w2) \<Rightarrow> do {
                         c1 \<leftarrow> redisSetError e c w2 REDIS_ERR_OTHER
                           (Some (take 127 (''Can't bind socket: '' @ cstr (e_strerror e (w_errno w2)))));
                         Some (c1, w2, REDIS_ERR)
                       }))))"

text \<open>What one turn of the loop over the addresses comes to: the next address, the same address
  again, giving up, or a connection.\<close>

datatype turn = NextAddress | SameAddress | GiveUp | Connected

definition finish_connect :: "env \<Rightarrow> 'h redisContext \<Rightarrow> world \<Rightarrow> ('h redisContext \<times> world \<times> turn) option" where
  "finish_connect e c w =
     do {
       (c1, w1, st1) \<leftarrow> and_then
          (if has (c_flags c) REDIS_BLOCK then redisSetBlocking e c w True else Some (c, w, REDIS_OK))
          (\<lambda>c w. redisSetTcpNoDelay e c w);
       if st1 = REDIS_OK then Some (c1\<lparr>c_flags := c_flags c1 OR REDIS_CONNECTED\<rparr>, w1, Connected)
       else Some (c1, w1, GiveUp)
     }"

definition try_connect ::
  "env \<Rightarrow> 'h redisContext \<Rightarrow> world \<Rightarrow> addrinfo \<Rightarrow> int \<Rightarrow> ('h redisContext \<times> world \<times> turn) option" where
  "try_connect e c w p msec =
     (case sys e (Connect (c_fd c) (ai_addr p)) w of
        (Inr _, w1) \<Rightarrow> finish_connect e c w1
      | (Inl errno, w1) \<Rightarrow>
          if errno = EHOSTUNREACH then
            (let (c2, w2) = redisContextCloseFd e c w1 in Some (c2, w2, NextAddress))
          else if errno = EINPROGRESS \<and> \<not> has (c_flags c) REDIS_BLOCK then finish_connect e c w1
          else if errno = EADDRNOTAVAIL \<and> has (c_flags c) REDIS_REUSEADDR then Some (c, w1, SameAddress)
          else do {
            (c2, w2, st) \<leftarrow> redisContextWaitReady e c w1 msec;
            if st = REDIS_OK then finish_connect e c2 w2 else Some (c2, w2, GiveUp)
          })"

definition try_address ::
  "env \<Rightarrow> 'h redisContext \<Rightarrow> world \<Rightarrow> int \<Rightarrow> addrinfo \<Rightarrow> int \<Rightarrow> ('h redisContext \<times> world \<times> turn) option" where
  "try_address e c w family p msec =
     (case sys e (Socket (ai_family p) (ai_socktype p) (ai_protocol p)) w of
        (Inl _, w1) \<Rightarrow> Some (c, w1, NextAddress)
      | (Inr s, w1) \<Rightarrow> do {
          (c2, w2, st) \<leftarrow> and_then (redisSetBlocking e (c\<lparr>c_fd := int s\<rparr>) w1 False)
             (\<lambda>c w. bind_source e c w family);
          if st = REDIS_OK then try_connect e c2 w2 p msec else Some (c2, w2, GiveUp)
        })"

text \<open>The loop; \<open>reuses\<close> counts the turns on an address already in use, over all addresses.\<close>

function connect_loop ::
  "env \<Rightarrow> int \<Rightarrow> int \<Rightarrow> addrinfo list \<Rightarrow> nat \<Rightarrow> 'h redisContext \<Rightarrow> world \<Rightarrow> 'h net" where
  "connect_loop e family msec [] reuses c w =
     do {
       c1 \<leftarrow> redisSetError e c w REDIS_ERR_OTHER
              (Some (take 127 (''Can't create socket: '' @ cstr (e_strerror e (w_errno w)))));
       Some (c1, w, REDIS_ERR)
     }"
| "connect_loop e family msec (p # ps) reuses c w =
     do {
       (c1, w1, t) \<leftarrow> try_address e c w family p msec;
       case t of
         NextAddress \<Rightarrow> connect_loop e family msec ps reuses c1 w1
       | SameAddress \<Rightarrow>
           if reuses + 1 \<ge> REDIS_CONNECT_RETRIES then Some (c1, w1, REDIS_ERR)
           else (let (c2, w2) = redisContextCloseFd e c1 w1
                 in connect_loop e family msec (p # ps) (reuses + 1) c2 w2)
       | GiveUp \<Rightarrow> Some (c1, w1, REDIS_ERR)
       | Connected \<Rightarrow> Some (c1, w1, REDIS_OK)
     }"
  by pat_completeness auto
termination
  by (relation "measures [\<lambda>(e, f, m, ps, n, c, w). length ps, \<lambda>(e, f, m, ps, n, c, w). REDIS_CONNECT_RETRIES - n]")
    auto

definition redisContextConnectBindTcp ::
  "env \<Rightarrow> 'h redisContext \<Rightarrow> world \<Rightarrow> string ptr \<Rightarrow> int \<Rightarrow> timeval ptr \<Rightarrow> string ptr \<Rightarrow> 'h net" where
  "redisContextConnectBindTcp e c w addr port timeout source_addr =
     do {
       let host = ptr_val (c_host c) addr;
       let c1 = c\<lparr>c_connection_type := REDIS_CONN_TCP, c_port := port\<rparr>;
       c2 \<leftarrow> (case addr of
                Ptr a \<Rightarrow> Some (c1\<lparr>c_host := strdup e a\<rparr>)
              | Own \<Rightarrow> Some c1
              | Null \<Rightarrow> if c_host c = None then Some c1 else None);
       c3 \<leftarrow> keep_timeout e c2 timeout;
       (msec, st) \<leftarrow> redisContextTimeoutMsec c3;
       if st = REDIS_ERR then do {
         c4 \<leftarrow> redisSetError e c3 w REDIS_ERR_IO (Some ''Invalid timeout specified'');
         Some (c4, w, REDIS_ERR)
       } else
         let c4 = keep_source e c3 source_addr;
             service = Some (take 5 (dec_int port))
         in case e_resolve e w (c_host c4) service AF_INET of
              Inr ps \<Rightarrow> connect_loop e AF_INET msec ps 0 c4 w
            | Inl _ \<Rightarrow>
                (case e_resolve e w host service AF_INET6 of
                   Inr ps \<Rightarrow> connect_loop e AF_INET6 msec ps 0 c4 w
                 | Inl rv \<Rightarrow> do {
                     c5 \<leftarrow> redisSetError e c4 w REDIS_ERR_OTHER (Some (e_gai_strerror e rv));
                     Some (c5, w, REDIS_ERR)
                   })
     }"

definition redisContextConnectTcp ::
  "env \<Rightarrow> 'h redisContext \<Rightarrow> world \<Rightarrow> string ptr \<Rightarrow> int \<Rightarrow> timeval ptr \<Rightarrow> 'h net" where
  "redisContextConnectTcp e c w addr port timeout =
     redisContextConnectBindTcp e c w addr port timeout Null"

text \<open>\<open>sun_path\<close> holds 108 bytes.\<close>

definition unix_connect ::
  "env \<Rightarrow> 'h redisContext \<Rightarrow> world \<Rightarrow> string ptr \<Rightarrow> timeval ptr \<Rightarrow> 'h net" where
  "unix_connect e c w path timeout =
     do {
       let c1 = c\<lparr>c_connection_type := REDIS_CONN_UNIX\<rparr>;
       let c2 = (case path of Ptr p \<Rightarrow> c1\<lparr>c_path := strdup e p\<rparr> | _ \<Rightarrow> c1);
       c3 \<leftarrow> keep_timeout e c2 timeout;
       (msec, st) \<leftarrow> redisContextTimeoutMsec c3;
       if st = REDIS_ERR then Some (c3, w, REDIS_ERR)
       else do {
         name \<leftarrow> ptr_val (c_path c) path;
         and_then
           (case sys e (Connect (c_fd c3) (UNIX (take 107 (cstr name)))) w of
              (Inr _, w1) \<Rightarrow> Some (c3, w1, REDIS_OK)
            | (Inl errno, w1) \<Rightarrow>
                if errno = EINPROGRESS \<and> \<not> has (c_flags c3) REDIS_BLOCK then Some (c3, w1, REDIS_OK)
                else redisContextWaitReady e c3 w1 msec)
           (\<lambda>c w. if has (c_flags c) REDIS_BLOCK then redisSetBlocking e c w True else Some (c, w, REDIS_OK))
       }
     }"

definition redisContextConnectUnix ::
  "env \<Rightarrow> 'h redisContext \<Rightarrow> world \<Rightarrow> string ptr \<Rightarrow> timeval ptr \<Rightarrow> 'h net" where
  "redisContextConnectUnix e c w path timeout =
     and_then (redisCreateSocket e c w AF_UNIX) (\<lambda>c w.
     and_then (redisSetBlocking e c w False) (\<lambda>c w.
     and_then (unix_connect e c w path timeout) (\<lambda>c w.
       Some (c\<lparr>c_flags := c_flags c OR REDIS_CONNECTED\<rparr>, w, REDIS_OK))))"

section \<open>Descriptors\<close>

text \<open>The descriptors the history leaves open.\<close>

fun open_fds :: "event list \<Rightarrow> int set" where
  "open_fds [] = {}"
| "open_fds (Call (Socket f t p) (Inr s) # es) = insert (int s) (open_fds es)"
| "open_fds (Call (Close fd) a # es) = open_fds es - {fd}"
| "open_fds (ev # es) = open_fds es"

abbreviation fds :: "world \<Rightarrow> int set" where "fds w \<equiv> open_fds (w_events w)"

text \<open>The system gives out descriptors that are not in use.\<close>

definition fresh_sockets :: "env \<Rightarrow> bool" where
  "fresh_sockets e \<longleftrightarrow>
     (\<forall>w f t p s. e_sys e w (Socket f t p) = Inr s \<longrightarrow> int s \<notin> fds w)"

lemma sys_socket:
  "sys e (Socket f t p) w = (Inr s, w') \<Longrightarrow> fds w' = insert (int s) (fds w)"
  "sys e (Socket f t p) w = (Inl n, w') \<Longrightarrow> fds w' = fds w"
  by (auto simp: sys_def Let_def)

lemma sys_close: "fds (snd (sys e (Close fd) w)) = fds w - {fd}"
  by (simp add: sys_def Let_def)

lemma sys_other:
  "sys e op w = (a, w') \<Longrightarrow> (\<And>f t p. op \<noteq> Socket f t p) \<Longrightarrow> (\<And>fd. op \<noteq> Close fd) \<Longrightarrow> fds w' = fds w"
  by (cases op) (auto simp: sys_def Let_def)

lemma sys_fresh: "fresh_sockets e \<Longrightarrow> sys e (Socket f t p) w = (Inr k, w') \<Longrightarrow> int k \<notin> fds w"
  unfolding fresh_sockets_def sys_def Let_def by blast

text \<open>An operation on a socket that goes well leaves the connection as it was; one that fails
  records an error, and the descriptor is still the context's or has been closed.\<close>

definition framed :: "'h redisContext \<Rightarrow> 'h redisContext \<Rightarrow> bool" where
  "framed c c' \<longleftrightarrow> c_flags c' = c_flags c \<and> c_obuf c' = c_obuf c \<and> c_reader c' = c_reader c"

definition kept :: "'h redisContext \<Rightarrow> world \<Rightarrow> 'h redisContext \<Rightarrow> world \<Rightarrow> bool" where
  "kept c w c' w' \<longleftrightarrow> framed c c' \<and> c_err c' = c_err c \<and> c_fd c' = c_fd c \<and> fds w' = fds w"

definition spoiled :: "'h redisContext \<Rightarrow> world \<Rightarrow> 'h redisContext \<Rightarrow> world \<Rightarrow> bool" where
  "spoiled c w c' w' \<longleftrightarrow> framed c c' \<and> (c_err c' \<noteq> 0 \<or> has (c_flags c) REDIS_REUSEADDR) \<and>
     (c_fd c' = c_fd c \<and> fds w' = fds w \<or> c_fd c' = -1 \<and> fds w' = fds w - {c_fd c})"

definition net_step :: "'h redisContext \<Rightarrow> world \<Rightarrow> 'h net \<Rightarrow> bool" where
  "net_step c w r \<longleftrightarrow>
     (\<exists>c' w' st. r = Some (c', w', st) \<and> (if st = REDIS_OK then kept c w c' w' else spoiled c w c' w'))"

lemma kept_refl: "kept c w c w"
  by (simp add: kept_def framed_def)

lemma kept_trans: "kept c w c1 w1 \<Longrightarrow> kept c1 w1 c2 w2 \<Longrightarrow> kept c w c2 w2"
  by (simp add: kept_def framed_def)

lemma kept_spoiled: "kept c w c1 w1 \<Longrightarrow> spoiled c1 w1 c2 w2 \<Longrightarrow> spoiled c w c2 w2"
  by (auto simp: kept_def spoiled_def framed_def)

lemma net_step_OK [simp]: "net_step c w (Some (c', w', REDIS_OK)) \<longleftrightarrow> kept c w c' w'"
  by (simp add: net_step_def)

lemma net_step_ERR [simp]: "net_step c w (Some (c', w', REDIS_ERR)) \<longleftrightarrow> spoiled c w c' w'"
  by (simp add: net_step_def)

lemma net_step_cases:
  assumes "net_step c w r"
  obtains c' w' where "r = Some (c', w', REDIS_OK)" "kept c w c' w'"
  | c' w' where "r = Some (c', w', REDIS_ERR)" "spoiled c w c' w'"
proof -
  obtain c' w' st where "r = Some (c', w', st)" "if st = REDIS_OK then kept c w c' w' else spoiled c w c' w'"
    using assms unfolding net_step_def by blast
  then show ?thesis using that by (cases st) simp_all
qed

lemma net_step_from: "kept c w c1 w1 \<Longrightarrow> net_step c1 w1 r \<Longrightarrow> net_step c w r"
  by (erule net_step_cases [of c1 w1]) (auto intro: kept_trans kept_spoiled)

lemma net_step_and_then:
  assumes "net_step c w r" and "\<And>c' w'. kept c w c' w' \<Longrightarrow> net_step c' w' (k c' w')"
  shows "net_step c w (and_then r k)"
  using assms(1)
proof (rule net_step_cases)
  fix c' w' assume r: "r = Some (c', w', REDIS_OK)" and k: "kept c w c' w'"
  show ?thesis using net_step_from [OF k assms(2) [OF k]] r by (simp add: and_then_def)
qed (simp add: and_then_def)

lemma redisSetError_Some [simp]:
  "redisSetError e c w t (Some s) = Some (c\<lparr>c_err := t, c_errstr := take 127 (cstr s)\<rparr>)"
  by (simp add: redisSetError_def)

lemma err_types_nz [simp]: "REDIS_ERR_IO \<noteq> 0" "REDIS_ERR_OTHER \<noteq> 0"
  by (simp_all add: err_types)

lemma from_errno:
  "(case what of None \<Rightarrow> True | Some p \<Rightarrow> length p < 126) \<Longrightarrow>
   \<exists>msg. redisSetErrorFromErrno e c w t what = Some (c\<lparr>c_err := t, c_errstr := msg\<rparr>)"
  by (cases what; simp add: redisSetErrorFromErrno_def; rule exI; rule refl)

lemma fail_closed_step:
  assumes "case what of None \<Rightarrow> True | Some p \<Rightarrow> length p < 126" and "0 \<le> c_fd c"
  shows "net_step c w (fail_closed e c w what)"
proof -
  obtain msg where "redisSetErrorFromErrno e c w REDIS_ERR_IO what = Some (c\<lparr>c_err := REDIS_ERR_IO, c_errstr := msg\<rparr>)"
    using from_errno [OF assms(1)] by blast
  then show ?thesis
    using assms(2) sys_close [of e "c_fd c" w]
    by (simp add: fail_closed_def redisContextCloseFd_def spoiled_def framed_def)
qed

lemma fail_open_step:
  assumes "case what of None \<Rightarrow> True | Some p \<Rightarrow> length p < 126"
  shows "net_step c w (fail_open e c w what)"
proof -
  obtain msg where "redisSetErrorFromErrno e c w REDIS_ERR_IO what = Some (c\<lparr>c_err := REDIS_ERR_IO, c_errstr := msg\<rparr>)"
    using from_errno [OF assms] by blast
  then show ?thesis by (simp add: fail_open_def spoiled_def framed_def)
qed

lemma kept_world: "fds w' = fds w \<Longrightarrow> kept c w c w'"
  by (simp add: kept_def framed_def)

text \<open>A system call that opens and closes nothing, with what follows it.\<close>

lemma net_step_sys:
  assumes "\<And>f t p. op \<noteq> Socket f t p" and "\<And>fd. op \<noteq> Close fd"
    and "\<And>n w'. fds w' = fds w \<Longrightarrow> net_step c w' (F n w')"
    and "\<And>n w'. fds w' = fds w \<Longrightarrow> net_step c w' (G n w')"
  shows "net_step c w (case sys e op w of (Inl n, w') \<Rightarrow> F n w' | (Inr n, w') \<Rightarrow> G n w')"
proof -
  obtain a w' where s: "sys e op w = (a, w')" by fastforce
  then have f: "fds w' = fds w" using sys_other assms(1,2) by blast
  show ?thesis
    using s assms(3,4) [OF f, THEN net_step_from [OF kept_world [OF f]]] by (cases a) simp_all
qed

lemma net_step_errno: "net_step c (w\<lparr>w_errno := n\<rparr>) r \<longleftrightarrow> net_step c w r"
  by (simp add: net_step_def kept_def spoiled_def)

lemma fail_open_errno: "net_step c w (fail_open e c (w\<lparr>w_errno := n\<rparr>) None)"
  using fail_open_step [of None c "w\<lparr>w_errno := n\<rparr>" e] by (simp add: net_step_errno)

lemma fail_closed_errno: "0 \<le> c_fd c \<Longrightarrow> net_step c w (fail_closed e c (w\<lparr>w_errno := n\<rparr>) None)"
  using fail_closed_step [of None c "w\<lparr>w_errno := n\<rparr>" e] by (simp add: net_step_errno)

lemma redisSetReuseAddr_step: "0 \<le> c_fd c \<Longrightarrow> net_step c w (redisSetReuseAddr e c w)"
  unfolding redisSetReuseAddr_def
  by (rule net_step_sys) (simp_all add: fail_closed_step kept_refl)

lemma redisSetBlocking_step: "0 \<le> c_fd c \<Longrightarrow> net_step c w (redisSetBlocking e c w b)"
  unfolding redisSetBlocking_def Let_def
  by (rule net_step_sys; (rule net_step_sys)?) (simp_all add: fail_closed_step kept_refl)

lemma keepalive_option_step: "net_step c w (keepalive_option e opt c w)"
  unfolding keepalive_option_def
  by (rule net_step_sys) (simp_all add: kept_refl spoiled_def framed_def)

lemma redisKeepAlive_step: "net_step c w (redisKeepAlive e c w i)"
  unfolding redisKeepAlive_def Let_def
  by (intro net_step_and_then keepalive_option_step)

lemma redisSetTcpNoDelay_step: "0 \<le> c_fd c \<Longrightarrow> net_step c w (redisSetTcpNoDelay e c w)"
  unfolding redisSetTcpNoDelay_def
  by (rule net_step_sys) (simp_all add: fail_closed_step kept_refl)

lemma redisCheckSocketError_step: "net_step c w (redisCheckSocketError e c w)"
  unfolding redisCheckSocketError_def
  by (rule net_step_sys) (simp_all add: fail_open_step kept_refl fail_open_errno)

lemma redisContextWaitReady_step: "0 \<le> c_fd c \<Longrightarrow> net_step c w (redisContextWaitReady e c w msec)"
  unfolding redisContextWaitReady_def
  by (cases "w_errno w = EINPROGRESS"; simp only: if_True if_False simp_thms; (rule net_step_sys)?)
    (simp_all add: fail_closed_step redisCheckSocketError_step fail_closed_errno)

lemma redisContextSetTimeout_step: "net_step c w (redisContextSetTimeout e c w tv)"
  unfolding redisContextSetTimeout_def
  by (rule net_step_sys; (rule net_step_sys)?) (simp_all add: fail_open_step kept_refl)

section \<open>The connect loop\<close>

text \<open>A connection made on the context's descriptor.\<close>

definition linked :: "'h redisContext \<Rightarrow> world \<Rightarrow> 'h redisContext \<Rightarrow> world \<Rightarrow> bool" where
  "linked c w c' w' \<longleftrightarrow> framed (c\<lparr>c_flags := c_flags c OR REDIS_CONNECTED\<rparr>) c' \<and>
     c_err c' = c_err c \<and> c_fd c' = c_fd c \<and> fds w' = fds w"

definition turn_ok :: "'h redisContext \<Rightarrow> world \<Rightarrow> ('h redisContext \<times> world \<times> turn) option \<Rightarrow> bool" where
  "turn_ok c w r \<longleftrightarrow> (\<exists>c' w' t. r = Some (c', w', t) \<and>
     (case t of
        NextAddress \<Rightarrow> framed c c' \<and> c_err c' = c_err c \<and> c_fd c' = -1 \<and> fds w' = fds w - {c_fd c}
      | SameAddress \<Rightarrow> kept c w c' w' \<and> has (c_flags c) REDIS_REUSEADDR
      | GiveUp \<Rightarrow> spoiled c w c' w'
      | Connected \<Rightarrow> linked c w c' w'))"

lemma turn_ok_from:
  assumes k: "kept c w c1 w1" and r: "turn_ok c1 w1 r"
  shows "turn_ok c w r"
proof -
  obtain c' w' t where *: "r = Some (c', w', t)" "turn_ok c1 w1 (Some (c', w', t))"
    using r unfolding turn_ok_def by blast
  have "c_flags c1 = c_flags c" using k by (simp add: kept_def framed_def)
  then show ?thesis
    using * k kept_trans [OF k] kept_spoiled [OF k]
    by (cases t) (auto simp: turn_ok_def kept_def framed_def linked_def)
qed

lemma finish_connect_turn:
  assumes "0 \<le> c_fd c" shows "turn_ok c w (finish_connect e c w)"
proof -
  have "net_step c w (and_then
      (if has (c_flags c) REDIS_BLOCK then redisSetBlocking e c w True else Some (c, w, REDIS_OK))
      (\<lambda>c w. redisSetTcpNoDelay e c w))"
    by (rule net_step_and_then)
      (use assms in \<open>auto simp: kept_refl redisSetBlocking_step kept_def intro: redisSetTcpNoDelay_step\<close>)
  then show ?thesis
    by (rule net_step_cases) (auto simp: finish_connect_def turn_ok_def linked_def kept_def framed_def)
qed

lemma closeFd_turn:
  "0 \<le> c_fd c \<Longrightarrow> redisContextCloseFd e c w = (c', w') \<Longrightarrow>
   framed c c' \<and> c_err c' = c_err c \<and> c_fd c' = -1 \<and> fds w' = fds w - {c_fd c}"
  unfolding redisContextCloseFd_def framed_def by (clarsimp simp: sys_close)

lemma try_connect_turn:
  assumes fd: "0 \<le> c_fd c"
  shows "turn_ok c w (try_connect e c w p msec)"
proof -
  obtain a w1 where s: "sys e (Connect (c_fd c) (ai_addr p)) w = (a, w1)" by fastforce
  have f: "fds w1 = fds w" using sys_other [OF s] by simp
  note base = turn_ok_from [OF kept_world [OF f, of c]]
  have "turn_ok c w1 (case a of
      Inr _ \<Rightarrow> finish_connect e c w1
    | Inl errno \<Rightarrow>
        if errno = EHOSTUNREACH then
          (let (c2, w2) = redisContextCloseFd e c w1 in Some (c2, w2, NextAddress))
        else if errno = EINPROGRESS \<and> \<not> has (c_flags c) REDIS_BLOCK then finish_connect e c w1
        else if errno = EADDRNOTAVAIL \<and> has (c_flags c) REDIS_REUSEADDR then Some (c, w1, SameAddress)
        else do {
          (c2, w2, st) \<leftarrow> redisContextWaitReady e c w1 msec;
          if st = REDIS_OK then finish_connect e c2 w2 else Some (c2, w2, GiveUp)
        })"
  proof (cases a)
    case (Inl errno)
    have wait: "turn_ok c w1 (do {
          (c2, w2, st) \<leftarrow> redisContextWaitReady e c w1 msec;
          if st = REDIS_OK then finish_connect e c2 w2 else Some (c2, w2, GiveUp)
        })"
      using redisContextWaitReady_step [OF fd, of w1 e msec]
    proof (rule net_step_cases)
      fix c' w' assume r: "redisContextWaitReady e c w1 msec = Some (c', w', REDIS_OK)" and k: "kept c w1 c' w'"
      have "0 \<le> c_fd c'" using k fd by (simp add: kept_def)
      then show ?thesis using r turn_ok_from [OF k finish_connect_turn] by simp
    qed (simp add: turn_ok_def)
    obtain c2 w2 where cl: "redisContextCloseFd e c w1 = (c2, w2)" by fastforce
    have "turn_ok c w1 (Some (c2, w2, NextAddress))"
      using closeFd_turn [OF fd cl] by (simp add: turn_ok_def)
    moreover have "turn_ok c w1 (Some (c, w1, SameAddress))" if "has (c_flags c) REDIS_REUSEADDR"
      using that by (simp add: turn_ok_def kept_refl)
    ultimately show ?thesis using Inl wait cl finish_connect_turn [OF fd, of w1 e] by simp
  qed (simp add: finish_connect_turn [OF fd])
  from base [OF this] show ?thesis by (simp add: try_connect_def s)
qed

lemma bind_first_fds: "fds (snd (bind_first e s bs w)) = fds w"
proof (induction bs arbitrary: w)
  case (Cons b bs)
  obtain a w1 where s: "sys e (Bind s (ai_addr b)) w = (a, w1)" by fastforce
  have "fds w1 = fds w" using sys_other [OF s] by simp
  then show ?case using s Cons.IH [of w1] by (cases a) simp_all
qed simp

lemma bind_source_step: "net_step c w (bind_source e c w family)"
proof (cases "c_source_addr c")
  case (Some a)
  show ?thesis
  proof (cases "e_resolve e w (Some a) None family")
    case (Inl rv)
    then show ?thesis using Some by (simp add: bind_source_def spoiled_def framed_def)
  next
    case (Inr bs)
    let ?r = "if has (c_flags c) REDIS_REUSEADDR then sys e (SetSockOpt (c_fd c) (SO_REUSEADDR 1)) w else (Inr 0, w)"
    obtain x w1 where s: "?r = (x, w1)" by fastforce
    have f: "fds w1 = fds w" using s sys_other [of e _ w x w1] by (auto split: if_splits)
    obtain b w2 where b: "bind_first e (c_fd c) bs w1 = (b, w2)" by fastforce
    have "fds w2 = fds w" using bind_first_fds [of e "c_fd c" bs w1] b f by simp
    then show ?thesis
      using s Some Inr f b unfolding bind_source_def
      by (cases x; cases b)
        (auto simp: spoiled_def framed_def kept_def split: if_splits)
  qed
qed (simp add: bind_source_def kept_refl)

lemma open_fds_nonneg: "x \<in> open_fds es \<Longrightarrow> 0 \<le> x"
  by (induction es rule: open_fds.induct) auto

text \<open>What a connection attempt comes to: at most one descriptor more than before, the context's.\<close>

definition lost :: "'h redisContext \<Rightarrow> world \<Rightarrow> 'h redisContext \<Rightarrow> world \<Rightarrow> bool" where
  "lost c w c' w' \<longleftrightarrow> framed c c' \<and> (c_err c' \<noteq> 0 \<or> has (c_flags c) REDIS_REUSEADDR) \<and>
     c_fd c' \<notin> fds w \<and> (fds w' = fds w \<or> fds w' = insert (c_fd c') (fds w))"

definition up :: "'h redisContext \<Rightarrow> world \<Rightarrow> 'h redisContext \<Rightarrow> world \<Rightarrow> bool" where
  "up c w c' w' \<longleftrightarrow> framed (c\<lparr>c_flags := c_flags c OR REDIS_CONNECTED\<rparr>) c' \<and> c_err c' = c_err c \<and>
     c_fd c' \<notin> fds w \<and> fds w' = insert (c_fd c') (fds w)"

definition attempt_ok :: "'h redisContext \<Rightarrow> world \<Rightarrow> 'h net \<Rightarrow> bool" where
  "attempt_ok c w r \<longleftrightarrow>
     (\<exists>c' w' st. r = Some (c', w', st) \<and> (if st = REDIS_OK then up c w c' w' else lost c w c' w'))"

lemma after_socket:
  assumes fresh: "fresh_sockets e" and s: "sys e (Socket f t p) w = (Inr k, w1)"
  shows "spoiled (c\<lparr>c_fd := int k\<rparr>) w1 c' w' \<Longrightarrow> lost c w c' w'"
    and "linked (c\<lparr>c_fd := int k\<rparr>) w1 c' w' \<Longrightarrow> up c w c' w'"
proof -
  have w1: "fds w1 = insert (int k) (fds w)" and new: "int k \<notin> fds w"
    using sys_socket(1) [OF s] sys_fresh [OF fresh s] by simp_all
  have undo: "fds w1 - {int k} = fds w" using w1 new by simp
  have m1: "-1 \<notin> fds w" using open_fds_nonneg by force
  show "spoiled (c\<lparr>c_fd := int k\<rparr>) w1 c' w' \<Longrightarrow> lost c w c' w'"
    using undo w1 new m1 by (auto simp: spoiled_def lost_def framed_def)
  show "linked (c\<lparr>c_fd := int k\<rparr>) w1 c' w' \<Longrightarrow> up c w c' w'"
    using w1 new by (simp add: linked_def up_def framed_def)
qed

definition new_turn :: "'h redisContext \<Rightarrow> world \<Rightarrow> 'h redisContext \<Rightarrow> world \<Rightarrow> turn \<Rightarrow> bool" where
  "new_turn c w c' w' t \<longleftrightarrow>
     (case t of
        NextAddress \<Rightarrow> framed c c' \<and> c_err c' = c_err c \<and> c_fd c' \<notin> fds w \<and> fds w' = fds w
      | SameAddress \<Rightarrow> framed c c' \<and> c_err c' = c_err c \<and> c_fd c' \<notin> fds w \<and> 0 \<le> c_fd c' \<and>
          fds w' = insert (c_fd c') (fds w) \<and> has (c_flags c) REDIS_REUSEADDR
      | GiveUp \<Rightarrow> lost c w c' w'
      | Connected \<Rightarrow> up c w c' w')"

lemma try_address_turn:
  assumes fresh: "fresh_sockets e" and fd: "c_fd c \<notin> fds w"
  shows "\<exists>c' w' t. try_address e c w family p msec = Some (c', w', t) \<and> new_turn c w c' w' t"
proof -
  obtain a w1 where s: "sys e (Socket (ai_family p) (ai_socktype p) (ai_protocol p)) w = (a, w1)" by fastforce
  show ?thesis
  proof (cases a)
    case (Inl n)
    then show ?thesis using s fd sys_socket(2) [of e "ai_family p" "ai_socktype p" "ai_protocol p" w n w1]
      by (simp add: try_address_def framed_def new_turn_def)
  next
    case (Inr k)
    let ?c = "c\<lparr>c_fd := int k\<rparr>"
    have w1: "fds w1 = insert (int k) (fds w)" using s Inr sys_socket(1) by blast
    have new: "int k \<notin> fds w"
      using sys_fresh [OF fresh] s Inr by simp
    have m1: "-1 \<notin> fds w" using open_fds_nonneg by force
    define r where "r = and_then (redisSetBlocking e ?c w1 False) (\<lambda>c w. bind_source e c w family)"
    have step: "net_step ?c w1 r"
      unfolding r_def by (rule net_step_and_then) (auto intro: redisSetBlocking_step bind_source_step)
    have ta: "try_address e c w family p msec =
        do { (c2, w2, st) \<leftarrow> r; if st = REDIS_OK then try_connect e c2 w2 p msec else Some (c2, w2, GiveUp) }"
      using s Inr by (simp add: try_address_def r_def)
    have "turn_ok ?c w1 (try_address e c w family p msec)"
      using step
    proof (rule net_step_cases)
      fix c' w' assume r: "r = Some (c', w', REDIS_OK)" and k: "kept ?c w1 c' w'"
      have "0 \<le> c_fd c'" using k by (simp add: kept_def)
      from turn_ok_from [OF k try_connect_turn [OF this]] show ?thesis using ta r by simp
    next
      fix c' w' assume "r = Some (c', w', REDIS_ERR)" "spoiled ?c w1 c' w'"
      then show ?thesis using ta by (simp add: turn_ok_def)
    qed
    then obtain c' w' t where t: "try_address e c w family p msec = Some (c', w', t)"
      and o: "turn_ok ?c w1 (Some (c', w', t))"
      unfolding turn_ok_def by blast
    have undo: "fds w1 - {int k} = fds w" using w1 new by simp
    have flags: "c_flags ?c = c_flags c" "c_err ?c = c_err c" "c_fd ?c = int k"
      "\<And>x. framed ?c x = framed c x"
      by (simp_all add: framed_def)
    from o show ?thesis
      unfolding t
    proof (cases t)
      case NextAddress
      then show "\<exists>c1 w2 t1. Some (c', w', t) = Some (c1, w2, t1) \<and> new_turn c w c1 w2 t1"
        using o undo m1 flags by (simp add: turn_ok_def new_turn_def)
    next
      case SameAddress
      then show "\<exists>c1 w2 t1. Some (c', w', t) = Some (c1, w2, t1) \<and> new_turn c w c1 w2 t1"
        using o w1 new flags by (simp add: turn_ok_def kept_def new_turn_def)
    next
      case GiveUp
      then have "spoiled ?c w1 c' w'" using o by (simp add: turn_ok_def)
      then have "lost c w c' w'" by (rule after_socket(1) [OF fresh s [unfolded Inr]])
      then show "\<exists>c1 w2 t1. Some (c', w', t) = Some (c1, w2, t1) \<and> new_turn c w c1 w2 t1" using GiveUp by (simp add: new_turn_def)
    next
      case Connected
      then have "linked ?c w1 c' w'" using o by (simp add: turn_ok_def)
      then have "up c w c' w'" by (rule after_socket(2) [OF fresh s [unfolded Inr]])
      then show "\<exists>c1 w2 t1. Some (c', w', t) = Some (c1, w2, t1) \<and> new_turn c w c1 w2 t1" using Connected by (simp add: new_turn_def)
    qed
  qed
qed

lemma attempt_ok_from:
  assumes "framed c c1" and "c_err c1 = c_err c" and "fds w1 = fds w" and "attempt_ok c1 w1 r"
  shows "attempt_ok c w r"
proof -
  obtain c' w' st where r: "r = Some (c', w', st)"
    and o: "if st = REDIS_OK then up c1 w1 c' w' else lost c1 w1 c' w'"
    using assms(4) unfolding attempt_ok_def by blast
  then show ?thesis
    using assms(1,2,3) by (cases st) (simp_all add: attempt_ok_def up_def lost_def framed_def)
qed

lemma connect_loop_attempt:
  "fresh_sockets e \<Longrightarrow> c_fd c \<notin> fds w \<Longrightarrow> attempt_ok c w (connect_loop e family msec ps reuses c w)"
proof (induction e family msec ps reuses c w rule: connect_loop.induct)
  case (1 e family msec reuses c w)
  then show ?case by (simp add: attempt_ok_def lost_def framed_def)
next
  case (2 e family msec p ps reuses c w)
  obtain c1 w1 t where t: "try_address e c w family p msec = Some (c1, w1, t)"
    and o: "new_turn c w c1 w1 t"
    using try_address_turn [OF 2(3,4), of family p msec] by blast
  show ?case
  proof (cases t)
    case NextAddress
    have "attempt_ok c1 w1 (connect_loop e family msec ps reuses c1 w1)"
      by (rule 2(1) [OF t refl refl NextAddress]) (use o NextAddress 2(3) in \<open>auto simp: new_turn_def\<close>)
    then show ?thesis using t o NextAddress attempt_ok_from [of c c1 w1 w] by (simp add: new_turn_def)
  next
    case SameAddress
    show ?thesis
    proof (cases "reuses + 1 \<ge> REDIS_CONNECT_RETRIES")
      case True
      then show ?thesis using t o SameAddress by (simp add: attempt_ok_def lost_def new_turn_def)
    next
      case False
      obtain c2 w2 where cl: "redisContextCloseFd e c1 w1 = (c2, w2)" by fastforce
      have c2: "framed c1 c2" "c_err c2 = c_err c1" "c_fd c2 = -1" "fds w2 = fds w1 - {c_fd c1}"
        using closeFd_turn [OF _ cl] o SameAddress by (auto simp: new_turn_def)
      have f2: "fds w2 = fds w" "framed c c2" "c_err c2 = c_err c"
        using c2 o SameAddress by (auto simp: framed_def new_turn_def)
      have m1: "-1 \<notin> fds w" using open_fds_nonneg by force
      have "attempt_ok c2 w2 (connect_loop e family msec (p # ps) (reuses + 1) c2 w2)"
        by (rule 2(2) [OF t refl refl SameAddress False refl cl [symmetric]]) (use c2(3) f2(1) m1 2(3) in auto)
      then show ?thesis using t cl SameAddress False f2 attempt_ok_from [of c c2 w2 w] by simp
    qed
  next
    case GiveUp
    then show ?thesis using t o by (simp add: attempt_ok_def new_turn_def)
  next
    case Connected
    then show ?thesis using t o by (simp add: attempt_ok_def new_turn_def)
  qed
qed

section \<open>Connecting to a host\<close>

definition timeval_ok :: "timeval option \<Rightarrow> bool" where
  "timeval_ok t \<longleftrightarrow> (\<forall>tv. t = Some tv \<longrightarrow> 0 \<le> tv_sec tv \<and> 0 \<le> tv_usec tv)"

lemma sdiv_nonneg: "0 \<le> (a :: int) \<Longrightarrow> a sdiv 1000 = a div 1000"
  by (simp add: signed_divide_int_def sgn_if)

lemma msec_no_overflow:
  fixes s u :: int
  assumes "0 \<le> s" "s \<le> MAX_MSEC" "0 \<le> u" "u \<le> 1000000"
  shows "s64 (s * 1000) = s * 1000" "s64 (s * 1000 + (u + 999) sdiv 1000) = s * 1000 + (u + 999) sdiv 1000"
proof -
  have m: "MAX_MSEC = 9223372036854774" by (simp add: MAX_MSEC_def LONG_MAX_def)
  have d: "0 \<le> (u + 999) div 1000" "(u + 999) div 1000 \<le> 1000" using assms by linarith+
  show "s64 (s * 1000) = s * 1000" by (rule s64_id) (use assms m in auto)
  show "s64 (s * 1000 + (u + 999) sdiv 1000) = s * 1000 + (u + 999) sdiv 1000"
    by (rule s64_id) (use assms m d in \<open>auto simp: sdiv_nonneg\<close>)
qed

lemma redisContextTimeoutMsec_cases:
  assumes "timeval_ok (c_timeout c)"
  shows "redisContextTimeoutMsec c =
     Some (case c_timeout c of None \<Rightarrow> (-1, REDIS_OK)
       | Some t \<Rightarrow> if tv_usec t > 1000000 \<or> tv_sec t > MAX_MSEC then (-1, REDIS_ERR)
           else (min INT_MAX (tv_sec t * 1000 + (tv_usec t + 999) div 1000), REDIS_OK))"
proof (cases "c_timeout c")
  case (Some t)
  then have t: "0 \<le> tv_sec t" "0 \<le> tv_usec t" using assms by (simp_all add: timeval_ok_def)
  show ?thesis
  proof (cases "tv_usec t > 1000000 \<or> tv_sec t > MAX_MSEC")
    case False
    then have "\<not> tv_sec t * 1000 + (tv_usec t + 999) sdiv 1000 < 0"
      using t by (simp add: sdiv_nonneg)
    moreover have "s64 (tv_sec t * 1000) = tv_sec t * 1000"
      "s64 (tv_sec t * 1000 + (tv_usec t + 999) sdiv 1000) = tv_sec t * 1000 + (tv_usec t + 999) sdiv 1000"
      using msec_no_overflow [of "tv_sec t" "tv_usec t"] False t by auto
    ultimately show ?thesis
      using False Some t unfolding redisContextTimeoutMsec_def Let_def
      by (auto simp: sdiv_nonneg min_def)
  qed (auto simp: Some redisContextTimeoutMsec_def)
qed (simp add: redisContextTimeoutMsec_def)

lemma keep_timeout_ok:
  assumes "malloc_total (e_malloc e)"
  shows "keep_timeout e c t = Some (c\<lparr>c_timeout := ptr_val (c_timeout c) t\<rparr>)"
  using assms by (cases t) (simp_all add: keep_timeout_def malloc_total_def)

lemma framed_simps [simp]:
  "framed c (c'\<lparr>c_err := n, c_errstr := s\<rparr>) = framed c c'" "framed c (c'\<lparr>c_host := x\<rparr>) = framed c c'"
  "framed c (c'\<lparr>c_timeout := t\<rparr>) = framed c c'" "framed c (c'\<lparr>c_source_addr := x\<rparr>) = framed c c'"
  "framed c (c'\<lparr>c_connection_type := k, c_port := i\<rparr>) = framed c c'" "framed c (c'\<lparr>c_path := x\<rparr>) = framed c c'"
  "framed c (c'\<lparr>c_connection_type := k\<rparr>) = framed c c'" "framed c c"
  by (simp_all add: framed_def)

lemma keep_source_frame: "framed c (keep_source e c' a) = framed c c'" "c_err (keep_source e c' a) = c_err c'"
  "c_fd (keep_source e c' a) = c_fd c'"
  by (cases a; simp add: keep_source_def)+

lemma redisContextConnectBindTcp_attempt:
  assumes fresh: "fresh_sockets e" and m: "malloc_total (e_malloc e)" and fd: "c_fd c \<notin> fds w"
    and addr: "addr \<noteq> Null" and tv: "timeval_ok (ptr_val (c_timeout c) timeout)"
  shows "attempt_ok c w (redisContextConnectBindTcp e c w addr port timeout source)"
proof -
  define c2 where "c2 = (case addr of Ptr a \<Rightarrow> c\<lparr>c_connection_type := REDIS_CONN_TCP, c_port := port\<rparr>\<lparr>c_host := strdup e a\<rparr>
    | _ \<Rightarrow> c\<lparr>c_connection_type := REDIS_CONN_TCP, c_port := port\<rparr>)"
  define c3 where "c3 = c2\<lparr>c_timeout := ptr_val (c_timeout c2) timeout\<rparr>"
  define c4 where "c4 = keep_source e c3 source"
  have c2: "framed c c2" "c_err c2 = c_err c" "c_fd c2 = c_fd c" "c_timeout c2 = c_timeout c"
    by (cases addr; simp add: c2_def)+
  have c4: "framed c c4" "c_err c4 = c_err c" "c_fd c4 = c_fd c"
    using c2 by (simp_all add: c4_def c3_def keep_source_frame)
  have "timeval_ok (c_timeout c3)" using tv c2(4) by (simp add: c3_def)
  then have "redisContextTimeoutMsec c3 \<noteq> None"
    by (simp only: redisContextTimeoutMsec_cases option.distinct simp_thms)
  then obtain msec st where ms: "redisContextTimeoutMsec c3 = Some (msec, st)"
    by auto
  have stop: "attempt_ok c w (Some (x\<lparr>c_err := n, c_errstr := s\<rparr>, w, REDIS_ERR))"
    if "framed c x" "c_fd x = c_fd c" "n \<noteq> 0" for x n s
    using that fd by (simp add: attempt_ok_def lost_def)
  have go: "attempt_ok c w (connect_loop e f msec ps 0 c4 w)" for f ps
    by (rule attempt_ok_from [OF c4(1,2) refl], rule connect_loop_attempt) (use fresh fd c4 in auto)
  have "redisContextConnectBindTcp e c w addr port timeout source =
     (if st = REDIS_ERR then
        Some (c3\<lparr>c_err := REDIS_ERR_IO, c_errstr := take 127 (cstr ''Invalid timeout specified'')\<rparr>, w, REDIS_ERR)
      else case e_resolve e w (c_host c4) (Some (take 5 (dec_int port))) AF_INET of
         Inr ps \<Rightarrow> connect_loop e AF_INET msec ps 0 c4 w
       | Inl _ \<Rightarrow>
          (case e_resolve e w (ptr_val (c_host c) addr) (Some (take 5 (dec_int port))) AF_INET6 of
             Inr ps \<Rightarrow> connect_loop e AF_INET6 msec ps 0 c4 w
           | Inl rv \<Rightarrow> Some (c4\<lparr>c_err := REDIS_ERR_OTHER, c_errstr := take 127 (cstr (e_gai_strerror e rv))\<rparr>, w, REDIS_ERR)))"
    using addr ms unfolding redisContextConnectBindTcp_def c4_def c3_def c2_def
    by (cases addr) (simp_all add: keep_timeout_ok [OF m] Let_def split: sum.split)
  moreover have "attempt_ok c w (Some (c3\<lparr>c_err := REDIS_ERR_IO, c_errstr := s\<rparr>, w, REDIS_ERR))" for s
    by (rule stop) (simp_all add: c3_def c2)
  moreover have "attempt_ok c w (Some (c4\<lparr>c_err := REDIS_ERR_OTHER, c_errstr := s\<rparr>, w, REDIS_ERR))" for s
    by (rule stop) (simp_all add: c4)
  ultimately show ?thesis using go by (simp split: sum.split)
qed

lemma has_CONNECTED: "has (f OR REDIS_CONNECTED) REDIS_CONNECTED"
  by (simp add: has_def REDIS_CONNECTED_def word_ao_dist)

lemma net_step_frame: "framed c c1 \<Longrightarrow> c_err c1 = c_err c \<Longrightarrow> c_fd c1 = c_fd c \<Longrightarrow> net_step c1 w r \<Longrightarrow> net_step c w r"
  by (rule net_step_from [of c w c1 w]) (simp_all add: kept_def)

text \<open>The part of \<open>redisContextConnectUnix\<close> after the time-out is known.\<close>

lemma unix_connect_step:
  assumes fd: "0 \<le> c_fd c"
  shows "net_step c w (and_then
     (case sys e (Connect (c_fd c) a) w of
        (Inr _, w1) \<Rightarrow> Some (c, w1, REDIS_OK)
      | (Inl errno, w1) \<Rightarrow>
          if errno = EINPROGRESS \<and> \<not> has (c_flags c) REDIS_BLOCK then Some (c, w1, REDIS_OK)
          else redisContextWaitReady e c w1 msec)
     (\<lambda>c w. if has (c_flags c) REDIS_BLOCK then redisSetBlocking e c w True else Some (c, w, REDIS_OK)))"
proof (rule net_step_and_then)
  obtain x w1 where s: "sys e (Connect (c_fd c) a) w = (x, w1)" by fastforce
  have f: "fds w1 = fds w" using sys_other [OF s] by simp
  show "net_step c w (case sys e (Connect (c_fd c) a) w of
        (Inr _, w1) \<Rightarrow> Some (c, w1, REDIS_OK)
      | (Inl errno, w1) \<Rightarrow>
          if errno = EINPROGRESS \<and> \<not> has (c_flags c) REDIS_BLOCK then Some (c, w1, REDIS_OK)
          else redisContextWaitReady e c w1 msec)"
    using s net_step_from [OF kept_world [OF f, of c] redisContextWaitReady_step [OF fd, of w1 e msec]]
      kept_world [OF f, of c]
    by (cases x) simp_all
next
  fix c' w' assume "kept c w c' w'"
  then have "0 \<le> c_fd c'" using fd by (simp add: kept_def)
  then show "net_step c' w' (if has (c_flags c') REDIS_BLOCK then redisSetBlocking e c' w' True else Some (c', w', REDIS_OK))"
    by (simp add: redisSetBlocking_step kept_refl)
qed

lemma unix_connect_net:
  assumes m: "malloc_total (e_malloc e)" and fd: "0 \<le> c_fd c"
    and path: "ptr_val (c_path c) path = Some p" and tv: "timeval_ok (ptr_val (c_timeout c) timeout)"
    and fits: "\<And>tv. ptr_val (c_timeout c) timeout = Some tv \<Longrightarrow> tv_usec tv \<le> 1000000 \<and> tv_sec tv \<le> MAX_MSEC"
  shows "net_step c w (unix_connect e c w path timeout)"
proof -
  define c1 where "c1 = c\<lparr>c_connection_type := REDIS_CONN_UNIX\<rparr>"
  define c2 where "c2 = (case path of Ptr p \<Rightarrow> c1\<lparr>c_path := strdup e p\<rparr> | _ \<Rightarrow> c1)"
  define c3 where "c3 = c2\<lparr>c_timeout := ptr_val (c_timeout c2) timeout\<rparr>"
  have c2: "framed c c2" "c_err c2 = c_err c" "c_fd c2 = c_fd c" "c_timeout c2 = c_timeout c"
    by (cases path; simp add: c2_def c1_def)+
  then have c3: "framed c c3" "c_err c3 = c_err c" "c_fd c3 = c_fd c" "c_timeout c3 = ptr_val (c_timeout c) timeout"
    by (simp_all add: c3_def)
  then obtain msec where ms: "redisContextTimeoutMsec c3 = Some (msec, REDIS_OK)"
    using redisContextTimeoutMsec_cases [of c3] tv fits
    by (cases "ptr_val (c_timeout c) timeout") fastforce+
  have kt: "keep_timeout e c2 timeout = Some c3" by (simp add: keep_timeout_ok [OF m] c3_def)
  have "0 \<le> c_fd c3" using fd c3 by simp
  from unix_connect_step [OF this, where a = "UNIX (take 107 (cstr p))" and msec = msec]
  have "net_step c3 w (unix_connect e c w path timeout)"
    using path ms kt unfolding unix_connect_def Let_def c1_def [symmetric] c2_def [symmetric]
    by simp
  then show ?thesis by (rule net_step_frame [OF c3(1-3)])
qed

lemma and_then_assoc: "and_then (and_then r f) g = and_then r (\<lambda>c w. and_then (f c w) g)"
  by (cases r) (auto simp: and_then_def split: prod.splits)

lemma and_then_OK: "and_then (Some (c, w, REDIS_OK)) k = k c w"
  by (simp add: and_then_def)

lemma redisSetBlocking_same: "redisSetBlocking e c w b = Some (c', w', REDIS_OK) \<Longrightarrow> c' = c"
  by (auto simp: redisSetBlocking_def fail_closed_def Let_def split: prod.splits sum.splits Option.bind_splits)

lemma redisContextConnectUnix_attempt:
  assumes fresh: "fresh_sockets e" and m: "malloc_total (e_malloc e)" and fd: "c_fd c \<notin> fds w"
    and path: "ptr_val (c_path c) path = Some p" and tv: "timeval_ok (ptr_val (c_timeout c) timeout)"
    and fits: "\<And>tv. ptr_val (c_timeout c) timeout = Some tv \<Longrightarrow> tv_usec tv \<le> 1000000 \<and> tv_sec tv \<le> MAX_MSEC"
  shows "attempt_ok c w (redisContextConnectUnix e c w path timeout)"
proof -
  obtain a w1 where s: "sys e (Socket AF_UNIX SOCK_STREAM 0) w = (a, w1)" by fastforce
  have af: "AF_UNIX \<noteq> AF_INET" by (simp add: AF_UNIX_def AF_INET_def)
  show ?thesis
  proof (cases a)
    case (Inl n)
    obtain msg where "redisSetErrorFromErrno e c w1 REDIS_ERR_IO None = Some (c\<lparr>c_err := REDIS_ERR_IO, c_errstr := msg\<rparr>)"
      using from_errno [of None e c w1 REDIS_ERR_IO] by auto
    moreover have "fds w1 = fds w" using s Inl sys_socket(2) by blast
    ultimately show ?thesis
      using s Inl fd
      by (simp add: redisContextConnectUnix_def redisCreateSocket_def and_then_def attempt_ok_def lost_def fail_open_def)
  next
    case (Inr k)
    define x where "x = c\<lparr>c_fd := int k\<rparr>"
    have "net_step x w1 (and_then (redisSetBlocking e x w1 False) (\<lambda>c w. unix_connect e c w path timeout))"
    proof (rule net_step_cases)
      show "net_step x w1 (redisSetBlocking e x w1 False)" by (rule redisSetBlocking_step) (simp add: x_def)
    next
      fix c' w' assume r: "redisSetBlocking e x w1 False = Some (c', w', REDIS_OK)" and k: "kept x w1 c' w'"
      have "net_step x w' (unix_connect e x w' path timeout)"
        by (rule unix_connect_net [OF m _ _ _ fits]) (use path tv in \<open>simp_all add: x_def\<close>)
      then show ?thesis
        using r k redisSetBlocking_same [OF r] net_step_from [OF k] by (simp add: and_then_def)
    qed (simp add: and_then_def)
    then have "attempt_ok c w (and_then (and_then (redisSetBlocking e x w1 False) (\<lambda>c w. unix_connect e c w path timeout))
        (\<lambda>c w. Some (c\<lparr>c_flags := c_flags c OR REDIS_CONNECTED\<rparr>, w, REDIS_OK)))"
    proof (rule net_step_cases)
      fix c' w' assume r: "and_then (redisSetBlocking e x w1 False) (\<lambda>c w. unix_connect e c w path timeout) = Some (c', w', REDIS_OK)"
        and k: "kept x w1 c' w'"
      then have "linked x w1 (c'\<lparr>c_flags := c_flags c' OR REDIS_CONNECTED\<rparr>) w'"
        by (simp add: linked_def kept_def framed_def)
      then have "up c w (c'\<lparr>c_flags := c_flags c' OR REDIS_CONNECTED\<rparr>) w'"
        unfolding x_def by (rule after_socket(2) [OF fresh s [unfolded Inr]])
      then show ?thesis unfolding r by (simp add: and_then_def attempt_ok_def)
    next
      fix c' w' assume r: "and_then (redisSetBlocking e x w1 False) (\<lambda>c w. unix_connect e c w path timeout) = Some (c', w', REDIS_ERR)"
        and k: "spoiled x w1 c' w'"
      have "lost c w c' w'" using k unfolding x_def by (rule after_socket(1) [OF fresh s [unfolded Inr]])
      then show ?thesis unfolding r by (simp add: and_then_def attempt_ok_def)
    qed
    then show ?thesis
      using s Inr af
      by (simp add: redisContextConnectUnix_def redisCreateSocket_def and_then_assoc x_def and_then_OK)
  qed
qed

lemma attempt_outcome:
  assumes "attempt_ok c w r"
  shows "\<exists>c' w' st. r = Some (c', w', st) \<and>
     (st = REDIS_OK \<longrightarrow> has (c_flags c') REDIS_CONNECTED \<and> c_err c' = c_err c \<and> c_fd c' \<in> fds w') \<and>
     (st = REDIS_ERR \<longrightarrow> c_err c' \<noteq> 0 \<or> has (c_flags c) REDIS_REUSEADDR) \<and>
     c_fd c' \<notin> fds w \<and> fds w \<subseteq> fds w' \<and> fds w' \<subseteq> insert (c_fd c') (fds w)"
proof -
  obtain c' w' st where r: "r = Some (c', w', st)"
    and o: "if st = REDIS_OK then up c w c' w' else lost c w c' w'"
    using assms unfolding attempt_ok_def by blast
  show ?thesis
    unfolding r using o by (cases st) (auto simp: up_def lost_def framed_def has_CONNECTED)
qed

text \<open>A system for the examples: every call succeeds, and a new descriptor is above all others.\<close>

fun top_fd :: "event list \<Rightarrow> nat" where
  "top_fd [] = 2"
| "top_fd (Call (Socket f t p) (Inr s) # es) = max s (top_fd es)"
| "top_fd (ev # es) = top_fd es"

lemma open_fds_top: "x \<in> open_fds es \<Longrightarrow> x \<le> int (top_fd es)"
  by (induction es rule: open_fds.induct) (auto simp: of_nat_max)

definition obliging :: "world \<Rightarrow> syscall \<Rightarrow> int + nat" where
  "obliging w op =
     (case op of
        Socket f t p \<Rightarrow> Inr (Suc (top_fd (w_events w)))
      | Write fd bs \<Rightarrow> Inr (length bs)
      | GetSockErr fd \<Rightarrow> Inr 0
      | _ \<Rightarrow> Inr 1)"

definition sample_env :: env where
  "sample_env = \<lparr>e_malloc = zero_malloc, e_sys = obliging, e_read = (\<lambda>w fd n. Inr []),
     e_resolve = (\<lambda>w h s f. if h = Some ''localhost''
        then Inr [\<lparr>ai_family = f, ai_socktype = 1, ai_protocol = 6, ai_addr = INET 1\<rparr>] else Inl (-2)),
     e_strerror = (\<lambda>n. ''error''), e_gai_strerror = (\<lambda>n. ''Name or service not known'')\<rparr>"

definition sample_context :: "unit redisContext" where
  "sample_context = \<lparr>c_err = 0, c_errstr = [], c_fd = 0, c_flags = REDIS_BLOCK, c_obuf = None, c_reader = None,
     c_connection_type = REDIS_CONN_TCP, c_timeout = None, c_host = None, c_source_addr = None,
     c_port = 0, c_path = None\<rparr>"

lemma sample_env_fresh: "fresh_sockets sample_env" "malloc_total (e_malloc sample_env)"
  using open_fds_top zero_malloc_ok
  by (fastforce simp: fresh_sockets_def sample_env_def obliging_def)+

section \<open>What connecting promises\<close>

text \<open>C38. Connecting to a host always returns; when it succeeds the context is marked connected, its
  error unchanged, its descriptor open; when it fails without address reuse the context has an error;
  and whatever happens no descriptor is left open but the context's own, and none of others is closed.\<close>

theorem tcp_connect_outcome:
  assumes "fresh_sockets e" and "malloc_total (e_malloc e)" and "c_fd c \<notin> fds w"
    and "addr \<noteq> Null" and "timeval_ok (ptr_val (c_timeout c) timeout)"
  shows "\<exists>c' w' st. redisContextConnectBindTcp e c w addr port timeout source = Some (c', w', st) \<and>
     (st = REDIS_OK \<longrightarrow> has (c_flags c') REDIS_CONNECTED \<and> c_err c' = c_err c \<and> c_fd c' \<in> fds w') \<and>
     (st = REDIS_ERR \<longrightarrow> c_err c' \<noteq> 0 \<or> has (c_flags c) REDIS_REUSEADDR) \<and>
     c_fd c' \<notin> fds w \<and> fds w \<subseteq> fds w' \<and> fds w' \<subseteq> insert (c_fd c') (fds w)"
  by (rule attempt_outcome [OF redisContextConnectBindTcp_attempt [OF assms]])

theorem tcp_connect_outcome_witness:
  "\<exists>c' w' st. redisContextConnectBindTcp sample_env sample_context \<lparr>w_events = [], w_errno = 0\<rparr>
      (Ptr ''nowhere'') 6379 Null Null = Some (c', w', st) \<and>
     (st = REDIS_ERR \<longrightarrow> c_err c' \<noteq> 0)"
  using tcp_connect_outcome [OF sample_env_fresh, of sample_context "\<lparr>w_events = [], w_errno = 0\<rparr>" "Ptr ''nowhere''" Null 6379 Null]
  by (simp add: timeval_ok_def sample_context_def has_def REDIS_BLOCK_def REDIS_REUSEADDR_def) blast

text \<open>The same for a Unix socket, when the time-out is in range.\<close>

theorem unix_connect_outcome:
  assumes "fresh_sockets e" and "malloc_total (e_malloc e)" and "c_fd c \<notin> fds w"
    and "ptr_val (c_path c) path = Some p" and "timeval_ok (ptr_val (c_timeout c) timeout)"
    and "\<And>tv. ptr_val (c_timeout c) timeout = Some tv \<Longrightarrow> tv_usec tv \<le> 1000000 \<and> tv_sec tv \<le> MAX_MSEC"
  shows "\<exists>c' w' st. redisContextConnectUnix e c w path timeout = Some (c', w', st) \<and>
     (st = REDIS_OK \<longrightarrow> has (c_flags c') REDIS_CONNECTED \<and> c_err c' = c_err c \<and> c_fd c' \<in> fds w') \<and>
     (st = REDIS_ERR \<longrightarrow> c_err c' \<noteq> 0 \<or> has (c_flags c) REDIS_REUSEADDR) \<and>
     c_fd c' \<notin> fds w \<and> fds w \<subseteq> fds w' \<and> fds w' \<subseteq> insert (c_fd c') (fds w)"
  by (rule attempt_outcome [OF redisContextConnectUnix_attempt [OF assms]])

theorem unix_connect_outcome_witness:
  "\<exists>c' w' st. redisContextConnectUnix sample_env sample_context \<lparr>w_events = [], w_errno = 0\<rparr>
      (Ptr ''/tmp/redis.sock'') Null = Some (c', w', st) \<and> (st = REDIS_OK \<longrightarrow> c_fd c' \<in> fds w')"
  using unix_connect_outcome [OF sample_env_fresh, of sample_context "\<lparr>w_events = [], w_errno = 0\<rparr>"
      "Ptr ''/tmp/redis.sock''" "''/tmp/redis.sock''" Null]
  by (simp add: timeval_ok_def) blast

text \<open>An out-of-range time-out makes the Unix variant fail without recording any error, unlike the
  TCP one.\<close>

lemma unix_timeout_unreported:
  assumes "timeval_ok (c_timeout c)" "tv_usec tv > 1000000" "0 \<le> tv_sec tv" "malloc_total (e_malloc e)"
  shows "\<exists>c'. unix_connect e c w (Ptr p) (Ptr tv) = Some (c', w, REDIS_ERR) \<and> c_err c' = c_err c"
  using assms by (simp add: unix_connect_def keep_timeout_ok Let_def redisContextTimeoutMsec_cases timeval_ok_def)

lemma round_up:
  fixes u d r :: int
  assumes "u + 999 = d * 1000 + r" "0 \<le> r" "r < 1000" "0 \<le> u"
  shows "(d - 1) * 1000 < u" and "u \<le> d * 1000" and "0 \<le> d"
proof -
  show "(d - 1) * 1000 < u" using assms by (simp add: algebra_simps)
  show "u \<le> d * 1000" "0 \<le> d" using assms by linarith+
qed

text \<open>The time-out handed to \<open>poll\<close> is the context's one in milliseconds, rounded up and capped at
  \<open>INT_MAX\<close>; no time-out is \<open>-1\<close>, and a time-out whose seconds would overflow is refused.\<close>

theorem timeout_rounds_up:
  assumes "c_timeout c = Some tv" and "0 \<le> tv_sec tv" and "0 \<le> tv_usec tv" and "tv_usec tv \<le> 1000000"
  shows "if tv_sec tv > MAX_MSEC then redisContextTimeoutMsec c = Some (-1, REDIS_ERR)
     else \<exists>msec. redisContextTimeoutMsec c = Some (msec, REDIS_OK) \<and> 0 \<le> msec \<and> msec \<le> INT_MAX \<and>
       (let us = tv_sec tv * 1000000 + tv_usec tv
        in (msec - 1) * 1000 < us \<and> (msec < INT_MAX \<longrightarrow> us \<le> msec * 1000))"
proof -
  have t: "timeval_ok (c_timeout c)" using assms by (simp add: timeval_ok_def)
  define d where "d = (tv_usec tv + 999) div 1000"
  have d: "(d - 1) * 1000 < tv_usec tv" "tv_usec tv \<le> d * 1000" "0 \<le> d"
    using round_up [OF div_mult_mod_eq [of "tv_usec tv + 999" 1000, symmetric] pos_mod_sign pos_mod_bound assms(3)]
    by (simp_all add: d_def)
  show ?thesis
    using assms(1,2,4) d unfolding redisContextTimeoutMsec_cases [OF t] assms(1) option.case Let_def d_def [symmetric]
    by (simp add: min_def INT_MAX_def)
qed

theorem timeout_rounds_up_witness:
  "redisContextTimeoutMsec (sample_context\<lparr>c_timeout := Some \<lparr>tv_sec = 1, tv_usec = 500001\<rparr>\<rparr>) = Some (1501, REDIS_OK)"
proof -
  have "\<not> 1 > MAX_MSEC" by (simp add: MAX_MSEC_def LONG_MAX_def)
  then obtain msec where "redisContextTimeoutMsec (sample_context\<lparr>c_timeout := Some \<lparr>tv_sec = 1, tv_usec = 500001\<rparr>\<rparr>)
      = Some (msec, REDIS_OK)" "(msec - 1) * 1000 < 1500001" "msec < INT_MAX \<longrightarrow> 1500001 \<le> msec * 1000" "msec \<le> INT_MAX"
    using timeout_rounds_up [of "sample_context\<lparr>c_timeout := Some \<lparr>tv_sec = 1, tv_usec = 500001\<rparr>\<rparr>" "\<lparr>tv_sec = 1, tv_usec = 500001\<rparr>"]
    by (auto simp: Let_def)
  moreover from this have "msec = 1501" by (auto simp: INT_MAX_def)
  ultimately show ?thesis by simp
qed

end
