(* ===== verification/Printf.thy ===== *)
theory Printf
  imports Decimal
begin

text \<open>
  The formatted output of the C library, as far as the sources use it: \<open>vprintf_text\<close> is
  the text that \<open>vsnprintf\<close> and its relatives produce for a format and an argument list.
  It knows the flags, field width, precision and length modifiers and the conversions
  \<open>d i o u x X c s %\<close>; the text of a floating point conversion is the parameter
  \<open>fl\<close>, applied to the conversion specification and the bits of the double.

  An argument list is a list of values tagged with their promoted C type; fetching an argument
  of another type, or one that is not there, is undefined behaviour and gives \<open>None\<close>, as
  does a conversion the library does not know.
\<close>

datatype carg =
    CInt int | CLong int | CLongLong int | CSize nat | CDouble nat | CStr string | CSds string

type_synonym float_text = "string \<Rightarrow> nat \<Rightarrow> string"

section \<open>Digits in any base\<close>

definition hex_digit :: "bool \<Rightarrow> nat \<Rightarrow> char" where
  "hex_digit upper d =
     (if d < 10 then digit_char d else byte_of ((if upper then 55 else 87) + d))"

function radix :: "bool \<Rightarrow> nat \<Rightarrow> nat \<Rightarrow> string" where
  "radix upper b n =
     (if n < b \<or> b < 2 then [hex_digit upper n]
      else radix upper b (n div b) @ [hex_digit upper (n mod b)])"
  by pat_completeness auto
termination
  by (relation "measure (\<lambda>(u, b, n). n)") (auto simp: div_less_dividend)

declare radix.simps [simp del]

lemma radix_10: "radix u 10 n = dec_nat n"
proof (induction n rule: dec_nat.induct)
  case (1 n)
  then show ?case
    by (simp add: radix.simps [of u 10 n] dec_nat.simps [of n] hex_digit_def)
qed

section \<open>Conversion specifications\<close>

record conv_spec =
  cs_flags :: string
  cs_width :: nat
  cs_prec :: "nat option"
  cs_size :: string
  cs_conv :: char

definition printf_flags :: string where "printf_flags = ''#0-+ ''"

definition take_size :: "string \<Rightarrow> string \<times> string" where
  "take_size s =
     (if take 2 s = ''hh'' \<or> take 2 s = ''ll'' then (take 2 s, drop 2 s)
      else if take 1 s = ''h'' \<or> take 1 s = ''l'' \<or> take 1 s = ''z'' then (take 1 s, drop 1 s)
      else ([], s))"

text \<open>What follows the percent sign, and the rest of the format.\<close>

definition parse_spec :: "string \<Rightarrow> (conv_spec \<times> string) option" where
  "parse_spec s =
     (let flags = takeWhile (\<lambda>c. c \<in> set printf_flags) s;
          s1 = dropWhile (\<lambda>c. c \<in> set printf_flags) s;
          width = undec (takeWhile isdigit s1);
          s2 = dropWhile isdigit s1;
          (prec, s3) = (if s2 \<noteq> [] \<and> hd s2 = CHR ''.''
                        then (Some (undec (takeWhile isdigit (tl s2))), dropWhile isdigit (tl s2))
                        else (None, s2));
          (size, s4) = take_size s3
      in case s4 of
           [] \<Rightarrow> None
         | c # rest \<Rightarrow> Some (\<lparr>cs_flags = flags, cs_width = width, cs_prec = prec,
                               cs_size = size, cs_conv = c\<rparr>, rest))"

text \<open>\<open>body\<close> padded to the field width after the prefix (sign or radix mark).\<close>

definition pad_field :: "conv_spec \<Rightarrow> bool \<Rightarrow> string \<Rightarrow> string \<Rightarrow> string" where
  "pad_field cs zero_ok pre body =
     (let n = cs_width cs - (length pre + length body)
      in if CHR ''-'' \<in> set (cs_flags cs) then pre @ body @ replicate n (CHR '' '')
         else if CHR ''0'' \<in> set (cs_flags cs) \<and> zero_ok then pre @ replicate n (CHR ''0'') @ body
         else replicate n (CHR '' '') @ pre @ body)"

definition prec_digits :: "nat option \<Rightarrow> nat \<Rightarrow> string \<Rightarrow> string" where
  "prec_digits prec n ds =
     (case prec of
        None \<Rightarrow> ds
      | Some p \<Rightarrow> if p = 0 \<and> n = 0 then [] else replicate (p - length ds) (CHR ''0'') @ ds)"

definition signed_text :: "conv_spec \<Rightarrow> int \<Rightarrow> string" where
  "signed_text cs v =
     (let n = nat (abs v);
          sgn = (if v < 0 then ''-'' else if CHR ''+'' \<in> set (cs_flags cs) then ''+''
                 else if CHR '' '' \<in> set (cs_flags cs) then '' '' else [])
      in pad_field cs (cs_prec cs = None) sgn (prec_digits (cs_prec cs) n (dec_nat n)))"

definition unsigned_text :: "conv_spec \<Rightarrow> nat \<Rightarrow> string" where
  "unsigned_text cs n =
     (let c = cs_conv cs; alt = (CHR ''#'' \<in> set (cs_flags cs));
          b = (if c = CHR ''o'' then 8 else if c = CHR ''u'' then 10 else 16);
          ds = prec_digits (cs_prec cs) n (radix (c = CHR ''X'') b n);
          ds' = (if c = CHR ''o'' \<and> alt \<and> (ds = [] \<or> hd ds \<noteq> CHR ''0'') then CHR ''0'' # ds else ds);
          pre = (if alt \<and> n \<noteq> 0 \<and> c = CHR ''x'' then ''0x''
                 else if alt \<and> n \<noteq> 0 \<and> c = CHR ''X'' then ''0X'' else [])
      in pad_field cs (cs_prec cs = None) pre ds')"

text \<open>The width in bits that a length modifier gives the integer argument.\<close>

definition size_bits :: "string \<Rightarrow> nat" where
  "size_bits sz =
     (if sz = ''hh'' then 8 else if sz = ''h'' then 16
      else if sz = ''l'' \<or> sz = ''ll'' \<or> sz = ''z'' then 64 else 32)"

fun int_arg :: "string \<Rightarrow> carg \<Rightarrow> int option" where
  "int_arg sz (CInt v) = (if sz \<in> {[], ''h'', ''hh''} then Some v else None)"
| "int_arg sz (CLong v) = (if sz = ''l'' then Some v else None)"
| "int_arg sz (CLongLong v) = (if sz = ''ll'' then Some v else None)"
| "int_arg sz (CSize n) = (if sz = ''z'' then Some (int n) else None)"
| "int_arg sz _ = None"

definition trunc_signed :: "nat \<Rightarrow> int \<Rightarrow> int" where
  "trunc_signed w v = (v + 2 ^ (w - 1)) mod 2 ^ w - 2 ^ (w - 1)"

definition conv_text :: "float_text \<Rightarrow> conv_spec \<Rightarrow> string \<Rightarrow> carg list \<Rightarrow> (string \<times> carg list) option" where
  "conv_text fl cs spec args =
     (let c = cs_conv cs
      in if c = CHR ''%'' then Some (''%'', args)
         else case args of
           [] \<Rightarrow> None
         | a # as \<Rightarrow>
             if c \<in> set ''di'' then
               do { v \<leftarrow> int_arg (cs_size cs) a;
                    Some (signed_text cs (trunc_signed (size_bits (cs_size cs)) v), as) }
             else if c \<in> set ''ouxX'' then
               do { v \<leftarrow> int_arg (cs_size cs) a;
                    Some (unsigned_text cs (nat (v mod 2 ^ size_bits (cs_size cs))), as) }
             else if c \<in> set ''eEfFgGaA'' then
               (case a of CDouble d \<Rightarrow> Some (fl spec d, as) | _ \<Rightarrow> None)
             else if c = CHR ''c'' then
               (case a of CInt v \<Rightarrow> Some (pad_field cs False [] [byte_of (nat (v mod 256))], as) | _ \<Rightarrow> None)
             else if c = CHR ''s'' then
               (case a of
                  CStr t \<Rightarrow> Some (pad_field cs False []
                    (case cs_prec cs of None \<Rightarrow> cstr t | Some p \<Rightarrow> take p (cstr t)), as)
                | _ \<Rightarrow> None)
             else None)"

lemma take_size_length: "take_size s = (a, b) \<Longrightarrow> length b \<le> length s"
  by (auto simp: take_size_def split: if_splits)

lemma parse_spec_shorter: "parse_spec s = Some (cs, rest) \<Longrightarrow> length rest < length s"
proof -
  assume a: "parse_spec s = Some (cs, rest)"
  define s2 where "s2 = dropWhile isdigit (dropWhile (\<lambda>c. c \<in> set printf_flags) s)"
  have l: "length s2 \<le> length s"
    unfolding s2_def by (meson le_trans length_dropWhile_le)
  have t: "length (dropWhile isdigit (tl s2)) \<le> length s2"
    by (metis diff_le_self le_trans length_dropWhile_le length_tl)
  from a have "\<exists>s3 sz. length s3 \<le> length s2 \<and> take_size s3 = (sz, cs_conv cs # rest)"
    using t unfolding parse_spec_def Let_def s2_def [symmetric]
    by (auto split: prod.splits list.splits if_splits)
  then obtain s3 sz where "length s3 \<le> length s2" "take_size s3 = (sz, cs_conv cs # rest)"
    by blast
  then show ?thesis using l take_size_length [of s3 sz "cs_conv cs # rest"] by simp
qed

function vprintf_text :: "float_text \<Rightarrow> string \<Rightarrow> carg list \<Rightarrow> string option" where
  "vprintf_text fl [] args = Some []"
| "vprintf_text fl (c # f) args =
     (if c \<noteq> CHR ''%'' then map_option (Cons c) (vprintf_text fl f args)
      else case parse_spec f of
             None \<Rightarrow> None
           | Some (cs, rest) \<Rightarrow>
               (case conv_text fl cs (CHR ''%'' # take (length f - length rest) f) args of
                  None \<Rightarrow> None
                | Some (t, args') \<Rightarrow> map_option ((@) t) (vprintf_text fl rest args')))"
  by pat_completeness auto
termination
  by (relation "measure (\<lambda>(fl, f, args). length f)") (auto dest: parse_spec_shorter)

section \<open>Bounded output\<close>

text \<open>
  \<open>vsnprintf\<close> into a buffer of \<open>n > 0\<close> bytes writes the text, cut to \<open>n - 1\<close> bytes,
  and a terminator; what lies behind it is untouched.
\<close>

definition vsnprintf_buf :: "string \<Rightarrow> nat \<Rightarrow> string \<Rightarrow> string option" where
  "vsnprintf_buf buf n txt = (if n = 0 then Some buf else mem_write buf 0 (take (n - 1) txt @ [NUL]))"

lemma vprintf_text_plain:
  "CHR ''%'' \<notin> set pre \<Longrightarrow> vprintf_text fl (pre @ f) args = map_option ((@) pre) (vprintf_text fl f args)"
  by (induction pre; cases "vprintf_text fl f args") auto

end
