(* ===== verification/Sds_Text.thy ===== *)
theory Sds_Text
  imports Sds Printf
begin

text \<open>
  The rest of \<open>redis/sds.c\<close>: numbers to text, formatted appending, splitting, joining and
  quoting.  The string operations are those of \<open>Sds\<close>, with the same allocator parameter and
  the same two layers of \<open>option\<close>: the outer \<open>None\<close> is undefined behaviour, here also the
  use of a NULL result that the code does not check.

  Beside each operation stands the text it is about (\<open>fmt_text\<close>, \<open>split_text\<close>,
  \<open>repr_text\<close>, \<open>args_text\<close>); the lemmas relate the two.
\<close>

section \<open>Numbers\<close>

definition SDS_LLSTR_SIZE :: nat where "SDS_LLSTR_SIZE = 21"

text \<open>The \<open>do ... while\<close> loop, least significant digit first.\<close>

fun rev_digits :: "nat \<Rightarrow> string" where
  "rev_digits v =
     digit_char (v mod 10) # (if v div 10 = 0 then [] else rev_digits (v div 10))"

declare rev_digits.simps [simp del]

text \<open>The loop that reverses the string in place: \<open>s\<close> and \<open>p\<close> run towards each other.\<close>

function swap_ends :: "string \<Rightarrow> nat \<Rightarrow> nat \<Rightarrow> string" where
  "swap_ends b s p =
     (if s < p then swap_ends (b[s := b ! p, p := b ! s]) (s + 1) (p - 1) else b)"
  by pat_completeness auto
termination
  by (relation "measure (\<lambda>(b, s, p). p - s)") auto

declare swap_ends.simps [simp del]

text \<open>Terminate and reverse what the digit loop has left in the buffer.\<close>

definition finish_number :: "string \<Rightarrow> string \<Rightarrow> (string \<times> nat) option" where
  "finish_number buf ds =
     do { b \<leftarrow> mem_write buf 0 (ds @ [NUL]);
          Some (swap_ends b 0 (length ds - 1), length ds) }"

text \<open>Negating \<open>LLONG_MIN\<close> overflows, which is undefined.\<close>

definition sdsll2str :: "string \<Rightarrow> int \<Rightarrow> (string \<times> nat) option" where
  "sdsll2str buf value =
     (if value = - (2 ^ 63) then None
      else let v = nat (if value < 0 then - value else value)
           in finish_number buf (rev_digits v @ (if value < 0 then ''-'' else [])))"

definition sdsull2str :: "string \<Rightarrow> nat \<Rightarrow> (string \<times> nat) option" where
  "sdsull2str buf v = finish_number buf (rev_digits v)"

definition sdsfromlonglong :: "allocator \<Rightarrow> int \<Rightarrow> sds option option" where
  "sdsfromlonglong m value =
     do { (buf, len) \<leftarrow> sdsll2str (replicate SDS_LLSTR_SIZE NUL) value;
          sdsnewlen m (Some buf) len }"

section \<open>Formatted appending\<close>

text \<open>
  \<open>vprintf_loop\<close> is the \<open>while (1)\<close> of \<open>sdscatvprintf\<close> for the formatted text \<open>txt\<close> and a
  buffer \<open>buf\<close> of \<open>buflen\<close> bytes.  \<open>vsnprintf\<close> fails for a text longer than \<open>INT_MAX\<close> and
  leaves the buffer unspecified.
\<close>

definition vprintf_try :: "string \<Rightarrow> string \<Rightarrow> nat \<Rightarrow> string option" where
  "vprintf_try txt buf buflen =
     (if buflen < 2 \<or> 2 ^ 31 \<le> length txt then None
      else do { b1 \<leftarrow> mem_write buf (buflen - 2) [NUL]; vsnprintf_buf b1 buflen txt })"


lemma vprintf_try_full:
  assumes "vprintf_try txt buf buflen = Some b" and "b ! (buflen - 2) \<noteq> NUL"
  shows "buflen - 1 \<le> length txt"
proof (rule ccontr)
  assume short: "\<not> buflen - 1 \<le> length txt"
  from assms(1) obtain b1 where n: "2 \<le> buflen" and b1: "mem_write buf (buflen - 2) [NUL] = Some b1"
    and b: "vsnprintf_buf b1 buflen txt = Some b"
    by (auto simp: vprintf_try_def split: if_splits bind_splits)
  from b1 have lb: "buflen - 1 \<le> length buf" and b1v: "b1 = take (buflen - 2) buf @ NUL # drop (buflen - 1) buf"
    using n by (auto simp: mem_write_def Suc_diff_Suc numeral_2_eq_2 split: if_splits)
  have "take (buflen - 1) txt = txt" using short by simp
  then have bv: "b = txt @ NUL # drop (length txt + 1) b1"
    using b n by (auto simp: vsnprintf_buf_def mem_write_def split: if_splits)
  show False
  proof (cases "length txt = buflen - 2")
    case True
    then show False using bv assms(2) by (metis nth_append_length)
  next
    case False
    then have lt: "length txt < buflen - 2" using short by simp
    then have "b ! (buflen - 2) = drop (length txt + 1) b1 ! (buflen - 2 - (length txt + 1))"
      unfolding bv by (auto simp: nth_append nth_Cons')
    also have "\<dots> = b1 ! (buflen - 2)"
    proof -
      have "length b1 = length buf" using b1 by (rule mem_write_length)
      then have "length txt + 1 \<le> length b1" using lt lb by linarith
      moreover have "length txt + 1 + (buflen - 2 - (length txt + 1)) = buflen - 2" using lt by simp
      ultimately show ?thesis by (metis nth_drop)
    qed
    also have "\<dots> = NUL"
      using b1v lb n by (simp add: nth_append min_def)
    finally show False using assms(2) by simp
  qed
qed

function vprintf_loop :: "allocator \<Rightarrow> sds \<Rightarrow> string \<Rightarrow> string \<Rightarrow> nat \<Rightarrow> sds option option" where
  "vprintf_loop m s txt buf buflen =
     (case vprintf_try txt buf buflen of
        None \<Rightarrow> None
      | Some b \<Rightarrow>
          if b ! (buflen - 2) \<noteq> NUL then
            (case m (buflen * 2) of
               None \<Rightarrow> Some None
             | Some blk \<Rightarrow> vprintf_loop m s txt blk (buflen * 2))
          else sdscat m s b)"
  by pat_completeness auto
termination
proof (relation "measure (\<lambda>(m, s, txt, buf, buflen). length txt + 2 - buflen)", goal_cases)
  case (2 m s t buf buflen b blk)
  then have "buflen - 1 \<le> length t" by (intro vprintf_try_full)
  moreover have "2 \<le> buflen" using 2 by (simp add: vprintf_try_def split: if_splits)
  ultimately show ?case by simp
qed simp

declare vprintf_loop.simps [simp del]

definition sdscatvprintf ::
  "allocator \<Rightarrow> float_text \<Rightarrow> sds \<Rightarrow> string \<Rightarrow> carg list \<Rightarrow> sds option option" where
  "sdscatvprintf m fl s fmt ap =
     (case vprintf_text fl (cstr fmt) ap of
        None \<Rightarrow> None
      | Some txt \<Rightarrow>
          let buflen = length (cstr fmt) * 2
          in if buflen > 1024 then
               (case m buflen of
                  None \<Rightarrow> Some None
                | Some blk \<Rightarrow> vprintf_loop m s txt blk buflen)
             else vprintf_loop m s txt (replicate 1024 NUL) 1024)"

definition sdscatprintf ::
  "allocator \<Rightarrow> float_text \<Rightarrow> sds \<Rightarrow> string \<Rightarrow> carg list \<Rightarrow> sds option option" where
  "sdscatprintf m fl s fmt ap = sdscatvprintf m fl s fmt ap"

text \<open>
  \<open>sdscatfmt\<close>: \<open>i\<close> is the position of the next byte, an \<open>int\<close>.  \<open>fmt_put\<close> makes room for a
  whole argument, \<open>fmt_byte\<close> stores one byte in the room made at the head of the loop.
\<close>

definition fmt_store :: "sds \<Rightarrow> int \<Rightarrow> string \<Rightarrow> (sds \<times> int) option" where
  "fmt_store s i bs =
     (if i < 0 then None
      else do { s1 \<leftarrow> buf_write s (nat i) bs;
                Some (sdsinclen s1 (length bs), s32 (i + int (length bs))) })"

definition fmt_put :: "allocator \<Rightarrow> sds \<Rightarrow> int \<Rightarrow> string \<Rightarrow> (sds \<times> int) option" where
  "fmt_put m s i bs =
     sds_deref (if sdsavail s < length bs then sdsMakeRoomFor m s (length bs) else Some (Some s))
       (\<lambda>s1. fmt_store s1 i bs)"

definition number_text :: "(string \<times> nat) option \<Rightarrow> string option" where
  "number_text r = (case r of None \<Rightarrow> None | Some (buf, l) \<Rightarrow> mem_read buf 0 l)"

text \<open>The bytes a directive appends, and the arguments left.\<close>

definition fmt_directive :: "char \<Rightarrow> carg list \<Rightarrow> (string \<times> carg list) option" where
  "fmt_directive next args =
     (if next = CHR ''s'' then
        (case args of CStr t # as \<Rightarrow> Some (cstr t, as) | _ \<Rightarrow> None)
      else if next = CHR ''S'' then
        (case args of CSds t # as \<Rightarrow> Some (t, as) | _ \<Rightarrow> None)
      else if next = CHR ''i'' then
        (case args of CInt v # as \<Rightarrow>
           do { t \<leftarrow> number_text (sdsll2str (replicate SDS_LLSTR_SIZE NUL) (s32 v)); Some (t, as) }
         | _ \<Rightarrow> None)
      else if next = CHR ''I'' then
        (case args of CLongLong v # as \<Rightarrow>
           do { t \<leftarrow> number_text (sdsll2str (replicate SDS_LLSTR_SIZE NUL) v); Some (t, as) }
         | _ \<Rightarrow> None)
      else if next = CHR ''u'' then
        (case args of
           CInt v # as \<Rightarrow>
             do { t \<leftarrow> number_text (sdsull2str (replicate SDS_LLSTR_SIZE NUL) (nat (v mod 2 ^ 32))); Some (t, as) }
         | CSize n # as \<Rightarrow>
             do { t \<leftarrow> number_text (sdsull2str (replicate SDS_LLSTR_SIZE NUL) (n mod 2 ^ 32)); Some (t, as) }
         | _ \<Rightarrow> None)
      else if next = CHR ''U'' then
        (case args of CLongLong v # as \<Rightarrow>
           do { t \<leftarrow> number_text (sdsull2str (replicate SDS_LLSTR_SIZE NUL) (nat (v mod 2 ^ 64))); Some (t, as) }
         | _ \<Rightarrow> None)
      else None)"


text \<open>
  A directive at the very end of the format (\<open>%\<close> before the terminator) stores the terminator
  and then reads past it.
\<close>

fun catfmt_loop ::
  "allocator \<Rightarrow> string \<Rightarrow> carg list \<Rightarrow> sds \<Rightarrow> int \<Rightarrow> (sds \<times> int) option" where
  "catfmt_loop m [] args s i = Some (s, i)"
| "catfmt_loop m (c # f) args s i =
     sds_deref (if sdsavail s = 0 then sdsMakeRoomFor m s 1 else Some (Some s)) (\<lambda>s1.
       if c \<noteq> CHR ''%'' then
         do { (s2, i2) \<leftarrow> fmt_store s1 i [c]; catfmt_loop m f args s2 i2 }
       else
         case f of
           [] \<Rightarrow> None
         | next # f' \<Rightarrow>
             if next \<in> set ''sSiIuU'' then
               do { (bs, args') \<leftarrow> fmt_directive next args;
                    (s2, i2) \<leftarrow> fmt_put m s1 i bs;
                    catfmt_loop m f' args' s2 i2 }
             else
               do { (s2, i2) \<leftarrow> fmt_store s1 i [next]; catfmt_loop m f' args s2 i2 })"

definition sdscatfmt :: "allocator \<Rightarrow> sds \<Rightarrow> string \<Rightarrow> carg list \<Rightarrow> sds option option" where
  "sdscatfmt m s fmt args =
     do { (s1, i) \<leftarrow> catfmt_loop m (cstr fmt) args s (s32 (int (sdslen s)));
          s2 \<leftarrow> (if i < 0 then None else buf_write s1 (nat i) [NUL]);
          Some (Some s2) }"

section \<open>Splitting and joining\<close>

text \<open>
  The loop of \<open>sdssplitlen\<close>: \<open>slots\<close> is the size of the token array, which is doubled when
  two more tokens do not fit.  \<open>Some None\<close> is the \<open>cleanup\<close> exit.
\<close>

definition grow_slots :: "allocator \<Rightarrow> nat \<Rightarrow> nat \<Rightarrow> nat option option" where
  "grow_slots m slots elements =
     (if slots < elements + 2 then
        (if 2 ^ 31 \<le> slots * 2 then None
         else if m (8 * (slots * 2)) = None then Some None else Some (Some (slots * 2)))
      else Some (Some slots))"

function split_loop ::
  "allocator \<Rightarrow> string \<Rightarrow> nat \<Rightarrow> string \<Rightarrow> nat \<Rightarrow> nat \<Rightarrow> nat \<Rightarrow> nat \<Rightarrow> sds list \<Rightarrow>
   (sds list \<times> nat \<times> nat) option option" where
  "split_loop m s len sep seplen j start slots tokens =
     (if j + seplen \<le> len then
        (case grow_slots m slots (length tokens) of
           None \<Rightarrow> None
         | Some None \<Rightarrow> Some None
         | Some (Some slots1) \<Rightarrow>
             (case (mem_read s j seplen, mem_read sep 0 seplen) of
                (Some w, Some p) \<Rightarrow>
                  if w = p then
                    (case sdsnewlen m (Some (drop start s)) (j - start) of
                       None \<Rightarrow> None
                     | Some None \<Rightarrow> Some None
                     | Some (Some t) \<Rightarrow>
                         if length tokens < slots1
                         then split_loop m s len sep seplen (Suc (j + (seplen - 1))) (j + seplen)
                                slots1 (tokens @ [t])
                         else None)
                  else split_loop m s len sep seplen (Suc j) start slots1 tokens
              | _ \<Rightarrow> None))
      else Some (Some (tokens, start, slots)))"
  by pat_completeness auto
termination
  by (relation "measure (\<lambda>(m, s, len, sep, seplen, j, start, slots, tokens). Suc len - j)") auto

declare split_loop.simps [simp del]

text \<open>The result and the value stored in \<open>*count\<close>, \<open>None\<close> when it is not touched.\<close>

definition sdssplitlen ::
  "allocator \<Rightarrow> string \<Rightarrow> int \<Rightarrow> string \<Rightarrow> int \<Rightarrow> (sds list option \<times> int option) option" where
  "sdssplitlen m s len sep seplen =
     (if seplen < 1 \<or> len < 0 then Some (None, None)
      else if m (8 * 5) = None then Some (None, None)
      else if len = 0 then Some (Some [], Some 0)
      else
        case split_loop m s (nat len) sep (nat seplen) 0 0 5 [] of
          None \<Rightarrow> None
        | Some None \<Rightarrow> Some (None, Some 0)
        | Some (Some (tokens, start, slots)) \<Rightarrow>
            if start \<le> nat len \<and> length tokens < slots then
              (case sdsnewlen m (Some (drop start s)) (nat len - start) of
                 None \<Rightarrow> None
               | Some None \<Rightarrow> Some (None, Some 0)
               | Some (Some t) \<Rightarrow> Some (Some (tokens @ [t]), Some (int (length tokens) + 1)))
            else None)"

text \<open>\<open>join_loop\<close> is the loop of both joins, \<open>add\<close> and \<open>add_sep\<close> its two calls.\<close>

fun join_loop ::
  "(sds \<Rightarrow> 'a \<Rightarrow> sds option option) \<Rightarrow> (sds \<Rightarrow> sds option option) \<Rightarrow> 'a list \<Rightarrow>
   sds option option \<Rightarrow> sds option option" where
  "join_loop add add_sep [] join = join"
| "join_loop add add_sep (a # as) join =
     (let j1 = sds_deref join (\<lambda>s. add s a)
      in join_loop add add_sep as (if as \<noteq> [] then sds_deref j1 add_sep else j1))"

definition sdsjoin :: "allocator \<Rightarrow> string list \<Rightarrow> string \<Rightarrow> sds option option" where
  "sdsjoin m argv sep = join_loop (sdscat m) (\<lambda>s. sdscat m s sep) argv (sdsempty m)"

definition sdsjoinsds :: "allocator \<Rightarrow> sds list \<Rightarrow> string \<Rightarrow> nat \<Rightarrow> sds option option" where
  "sdsjoinsds m argv sep seplen =
     join_loop (sdscatsds m) (\<lambda>s. sdscatlen m s sep seplen) argv (sdsempty m)"

section \<open>Quoting\<close>

text \<open>A plain \<open>char\<close> is signed; passed to a variadic function it is promoted to \<open>int\<close>.\<close>

definition schar :: "char \<Rightarrow> int" where
  "schar c = (if byte_val c < 128 then int (byte_val c) else int (byte_val c) - 256)"

abbreviation BEL :: char where "BEL \<equiv> CHR 0x07"
abbreviation BS :: char where "BS \<equiv> CHR 0x08"

definition repr_step :: "allocator \<Rightarrow> float_text \<Rightarrow> sds \<Rightarrow> char \<Rightarrow> sds option option" where
  "repr_step m fl s c =
     (if c = BSLASH \<or> c = QUOT then sdscatprintf m fl s [BSLASH, CHR ''%'', CHR ''c''] [CInt (schar c)]
      else if c = LF then sdscatlen m s [BSLASH, CHR ''n''] 2
      else if c = CR then sdscatlen m s [BSLASH, CHR ''r''] 2
      else if c = TAB then sdscatlen m s [BSLASH, CHR ''t''] 2
      else if c = BEL then sdscatlen m s [BSLASH, CHR ''a''] 2
      else if c = BS then sdscatlen m s [BSLASH, CHR ''b''] 2
      else if isprint c then sdscatprintf m fl s ''%c'' [CInt (schar c)]
      else sdscatprintf m fl s (BSLASH # ''x%02x'') [CInt (int (byte_val c))])"

fun repr_loop :: "allocator \<Rightarrow> float_text \<Rightarrow> string \<Rightarrow> sds \<Rightarrow> sds option" where
  "repr_loop m fl [] s = Some s"
| "repr_loop m fl (c # p) s = sds_deref (repr_step m fl s c) (repr_loop m fl p)"

definition sdscatrepr :: "allocator \<Rightarrow> float_text \<Rightarrow> sds \<Rightarrow> string \<Rightarrow> nat \<Rightarrow> sds option option" where
  "sdscatrepr m fl s p len =
     sds_deref (sdscatlen m s [QUOT] 1) (\<lambda>s1. do {
       bs \<leftarrow> mem_read p 0 len;
       s2 \<leftarrow> repr_loop m fl bs s1;
       sdscatlen m s2 [QUOT] 1
     })"


definition is_hex_digit :: "char \<Rightarrow> bool" where
  "is_hex_digit c \<longleftrightarrow>
     (48 \<le> byte_val c \<and> byte_val c \<le> 57) \<or> (97 \<le> byte_val c \<and> byte_val c \<le> 102) \<or>
     (65 \<le> byte_val c \<and> byte_val c \<le> 70)"

definition hex_digit_to_int :: "char \<Rightarrow> nat" where
  "hex_digit_to_int c =
     (if isdigit c then byte_val c - 48
      else if 97 \<le> byte_val c \<and> byte_val c \<le> 102 then byte_val c - 87
      else if 65 \<le> byte_val c \<and> byte_val c \<le> 70 then byte_val c - 55
      else 0)"

text \<open>
  One turn of the token loop of \<open>sdssplitargs\<close>: the bytes still to read (\<open>[]\<close> at the
  terminator) and the quoting mode decide whether a byte is appended, the mode changes, the
  token ends or the line is malformed.  The last argument of each is what is left to read.
\<close>

datatype qmode = Plain | InQ | InSQ

datatype arg_action = Append char string | Switch qmode string | Done string | Err

definition unescape :: "char \<Rightarrow> char" where
  "unescape c =
     (if c = CHR ''n'' then LF else if c = CHR ''r'' then CR else if c = CHR ''t'' then TAB
      else if c = CHR ''b'' then BS else if c = CHR ''a'' then BEL else c)"

definition hex_escape :: "string \<Rightarrow> bool" where
  "hex_escape t \<longleftrightarrow>
     3 \<le> length t \<and> t ! 0 = CHR ''x'' \<and> is_hex_digit (t ! 1) \<and> is_hex_digit (t ! 2)"

definition close_quote :: "string \<Rightarrow> arg_action" where
  "close_quote t = (if t \<noteq> [] \<and> \<not> isspace (hd t) then Err else Done t)"

definition arg_step :: "qmode \<Rightarrow> string \<Rightarrow> arg_action" where
  "arg_step mode p =
     (case mode of
        InQ \<Rightarrow>
          (case p of
             [] \<Rightarrow> Err
           | c # t \<Rightarrow>
               if c = BSLASH \<and> hex_escape t then
                 Append (byte_of (hex_digit_to_int (t ! 1) * 16 + hex_digit_to_int (t ! 2))) (drop 3 t)
               else if c = BSLASH \<and> t \<noteq> [] then Append (unescape (hd t)) (tl t)
               else if c = QUOT then close_quote t
               else Append c t)
      | InSQ \<Rightarrow>
          (case p of
             [] \<Rightarrow> Err
           | c # t \<Rightarrow>
               if c = BSLASH \<and> t \<noteq> [] \<and> hd t = SQUOT then Append SQUOT (tl t)
               else if c = SQUOT then close_quote t
               else Append c t)
      | Plain \<Rightarrow>
          (case p of
             [] \<Rightarrow> Done []
           | c # t \<Rightarrow>
               if c \<in> {CHR '' '', LF, CR, TAB} then Done t
               else if c = QUOT then Switch InQ t
               else if c = SQUOT then Switch InSQ t
               else Append c t))"

lemma arg_step_shorter:
  "arg_step mode p = Append c t \<Longrightarrow> length t < length p"
  "arg_step mode p = Switch mode' t \<Longrightarrow> length t < length p"
  "arg_step mode p = Done t \<Longrightarrow> length t \<le> length p"
  "arg_step mode p = Done t \<Longrightarrow> p \<noteq> [] \<Longrightarrow> length t < length p"
  by (auto simp: arg_step_def close_quote_def split: qmode.splits list.splits if_splits)

text \<open>
  The loop over the bytes of a token.  \<open>Inl ()\<close> is the jump to \<open>err\<close>, \<open>Inr\<close> the finished
  token and the rest of the line.
\<close>

function token_loop ::
  "allocator \<Rightarrow> qmode \<Rightarrow> string \<Rightarrow> sds option \<Rightarrow> (unit + sds option \<times> string) option" where
  "token_loop m mode p current =
     (case arg_step mode p of
        Append c t \<Rightarrow>
          (case current of
             None \<Rightarrow> None
           | Some s \<Rightarrow> do { s1 \<leftarrow> sdscatlen m s [c] 1; token_loop m mode t s1 })
      | Switch mode' t \<Rightarrow> token_loop m mode' t current
      | Done t \<Rightarrow> Some (Inr (current, t))
      | Err \<Rightarrow> Some (Inl ()))"
  by pat_completeness auto
termination
  by (relation "measure (\<lambda>(m, mode, p, current). length p)") (auto dest: arg_step_shorter)

declare token_loop.simps [simp del]

lemma token_loop_shorter:
  "token_loop m mode p cur = Some (Inr (cur', rest)) \<Longrightarrow> p \<noteq> [] \<Longrightarrow> length rest < length p"
proof (induction m mode p cur rule: token_loop.induct)
  case (1 m mode p cur)
  note eq = token_loop.simps [of m mode p cur]
  show ?case
  proof (cases "arg_step mode p")
    case (Append c t)
    note less = arg_step_shorter(1) [OF Append]
    from "1.prems" Append obtain s s1 where cur: "cur = Some s" and s1: "sdscatlen m s [c] 1 = Some s1"
      and rec: "token_loop m mode t s1 = Some (Inr (cur', rest))"
      by (auto simp: eq split: option.splits bind_splits)
    show ?thesis
    proof (cases "t = []")
      case True
      then show ?thesis
        using rec less by (auto simp: token_loop.simps [of m mode "[]"] arg_step_def split: qmode.splits)
    next
      case False
      then show ?thesis using 1(1) [OF Append cur s1 rec] less by simp
    qed
  next
    case (Switch mode' t)
    note less = arg_step_shorter(2) [OF Switch]
    from "1.prems" Switch have rec: "token_loop m mode' t cur = Some (Inr (cur', rest))"
      by (simp add: eq)
    then show ?thesis
      using 1(2) [OF Switch] less by (cases "t = []") (auto simp: token_loop.simps [of m mode' "[]"] arg_step_def split: qmode.splits)
  next
    case (Done t)
    then show ?thesis using "1.prems" arg_step_shorter(4) [OF Done] by (simp add: eq)
  next
    case Err
    then show ?thesis using "1.prems" by (simp add: eq)
  qed
qed

lemma token_after_blanks:
  assumes "dropWhile isspace p = c # t" and "token_loop m mode (c # t) cur = Some (Inr (cur', rest))"
  shows "length rest < length p"
  using token_loop_shorter [OF assms(2)] length_dropWhile_le [of isspace p] assms(1) by simp

text \<open>
  The line is read up to its terminator.  A token whose first allocation fails is the NULL
  \<open>current\<close>; the vector is reallocated for each token and its result used unchecked.
\<close>

function splitargs_loop ::
  "allocator \<Rightarrow> string \<Rightarrow> sds option list \<Rightarrow> sds option list option option" where
  "splitargs_loop m p vector =
     (case dropWhile isspace p of
        [] \<Rightarrow> Some (if vector = [] \<and> m 8 = None then None else Some vector)
      | c # t \<Rightarrow>
          (case sdsempty m of
             None \<Rightarrow> None
           | Some current \<Rightarrow>
               (case token_loop m Plain (c # t) current of
                  None \<Rightarrow> None
                | Some (Inl _) \<Rightarrow> Some None
                | Some (Inr (current', rest)) \<Rightarrow>
                    if m ((length vector + 1) * 8) = None then None
                    else splitargs_loop m rest (vector @ [current']))))"
  by pat_completeness auto
termination
  by (relation "measure (\<lambda>(m, p, v). length p)")
    (auto dest: token_after_blanks)

declare splitargs_loop.simps [simp del]

definition sdssplitargs :: "allocator \<Rightarrow> string \<Rightarrow> (sds option list option \<times> int) option" where
  "sdssplitargs m line =
     (case splitargs_loop m (cstr line) [] of
        None \<Rightarrow> None
      | Some None \<Rightarrow> Some (None, 0)
      | Some (Some vector) \<Rightarrow> Some (Some vector, int (length vector)))"

section \<open>Numbers are printed in decimal\<close>

lemma rev_digits_dec: "rev_digits v = rev (dec_nat v)"
proof (induction v rule: rev_digits.induct)
  case (1 v)
  show ?case
  proof (cases "v < 10")
    case True
    then show ?thesis by (simp add: rev_digits.simps [of v] dec_nat.simps [of v])
  next
    case False
    then have "v div 10 \<noteq> 0" by simp
    then show ?thesis
      using 1 False by (simp add: rev_digits.simps [of v] dec_nat.simps [of v])
  qed
qed

lemma swap_ends_rev: "swap_ends (pre @ xs @ post) (length pre) (length pre + length xs - 1) = pre @ rev xs @ post"
proof (induction "length xs" arbitrary: pre xs post rule: less_induct)
  case less
  show ?case
  proof (cases "length xs < 2")
    case True
    then have "xs = [] \<or> (\<exists>x. xs = [x])" by (cases xs) auto
    then show ?thesis by (auto simp: swap_ends.simps [of "pre @ _"])
  next
    case False
    then obtain x ys where "xs = x # ys" "ys \<noteq> []" by (cases xs) auto
    then obtain y zs where xs: "xs = x # zs @ [y]" by (cases ys rule: rev_cases) auto
    let ?b = "pre @ (x # zs @ [y]) @ post"
    let ?p = "length pre + length zs + 1"
    have hi: "?b ! ?p = y" and lo: "?b ! length pre = x"
      by (simp_all add: nth_append)
    have "?b[length pre := y, ?p := x] = (pre @ [y]) @ zs @ ([x] @ post)"
      by (simp add: list_update_append)
    moreover have "swap_ends ((pre @ [y]) @ zs @ ([x] @ post)) (length (pre @ [y]))
        (length (pre @ [y]) + length zs - 1) = (pre @ [y]) @ rev zs @ ([x] @ post)"
      using xs by (intro less) simp
    ultimately have "swap_ends (?b[length pre := y, ?p := x]) (length pre + 1) (?p - 1)
        = pre @ y # rev zs @ x # post"
      by simp
    then show ?thesis
      unfolding xs using hi lo by (subst swap_ends.simps) simp
  qed
qed

lemma finish_number_rev:
  assumes "length ds < length buf"
  shows "finish_number buf ds = Some (rev ds @ NUL # drop (length ds + 1) buf, length ds)"
  using assms swap_ends_rev [of "[]" ds "NUL # drop (length ds + 1) buf"]
  by (simp add: finish_number_def mem_write_def)

lemma sdsull2str_dec:
  assumes "length (dec_nat v) < length buf"
  shows "sdsull2str buf v
    = Some (dec_nat v @ NUL # drop (length (dec_nat v) + 1) buf, length (dec_nat v))"
  using assms by (simp add: sdsull2str_def rev_digits_dec finish_number_rev)

lemma sdsll2str_dec:
  assumes "length (dec_int v) < length buf" and "v \<noteq> - (2 ^ 63)"
  shows "sdsll2str buf v
    = Some (dec_int v @ NUL # drop (length (dec_int v) + 1) buf, length (dec_int v))"
proof (cases "v < 0")
  case True
  then show ?thesis
    using assms by (simp add: sdsll2str_def rev_digits_dec dec_int_def Let_def finish_number_rev)
next
  case False
  then show ?thesis
    using assms by (simp add: sdsll2str_def rev_digits_dec dec_int_def Let_def finish_number_rev)
qed

lemma length_dec_int64: "- (2 ^ 63) \<le> v \<Longrightarrow> v < 2 ^ 63 \<Longrightarrow> length (dec_int v) < SDS_LLSTR_SIZE"
proof -
  assume v: "- (2 ^ 63) \<le> v" "v < 2 ^ 63"
  then have "nat (abs v) < 10 ^ 19" by (simp add: nat_less_iff abs_less_iff)
  then have "length (dec_nat (nat (abs v))) \<le> 19" by (rule length_dec_nat_bound) simp
  then show ?thesis by (cases "v < 0") (auto simp: dec_int_def SDS_LLSTR_SIZE_def)
qed

lemma length_dec_nat64: "n < 2 ^ 64 \<Longrightarrow> length (dec_nat n) < SDS_LLSTR_SIZE"
  using length_dec_nat_bound [of n 20] by (simp add: SDS_LLSTR_SIZE_def)

lemma number_text_ll [simp]:
  assumes "- (2 ^ 63) < v" and "v < 2 ^ 63"
  shows "number_text (sdsll2str (replicate SDS_LLSTR_SIZE NUL) v) = Some (dec_int v)"
  using sdsll2str_dec [of v "replicate SDS_LLSTR_SIZE NUL"] length_dec_int64 [of v] assms
  by (simp add: number_text_def mem_read_def)

lemma number_text_ull [simp]:
  assumes "n < 2 ^ 64"
  shows "number_text (sdsull2str (replicate SDS_LLSTR_SIZE NUL) n) = Some (dec_nat n)"
  using sdsull2str_dec [of n "replicate SDS_LLSTR_SIZE NUL"] length_dec_nat64 [of n] assms
  by (simp add: number_text_def mem_read_def)

lemma sdsfromlonglong_post:
  assumes "malloc_spec m" and "- (2 ^ 63) < v" and "v < 2 ^ 63"
  shows "sds_post m (\<lambda>s. content s = dec_int v) (sdsfromlonglong m v)"
proof -
  define buf where
    "buf = dec_int v @ NUL # drop (length (dec_int v) + 1) (replicate SDS_LLSTR_SIZE NUL)"
  have l: "length (dec_int v) < SDS_LLSTR_SIZE" using length_dec_int64 assms by simp
  then have "sdsfromlonglong m v = sdsnewlen m (Some buf) (length (dec_int v))"
    using sdsll2str_dec [of v "replicate SDS_LLSTR_SIZE NUL"] assms
    by (simp add: sdsfromlonglong_def buf_def)
  moreover have "sds_post m (\<lambda>s. content s = take (length (dec_int v)) buf)
      (sdsnewlen m (Some buf) (length (dec_int v)))"
    using l by (intro sdsnewlen_post assms) (auto simp: SDS_LLSTR_SIZE_def buf_def)
  ultimately show ?thesis by (simp add: buf_def)
qed

section \<open>Formatted appending\<close>

lemma cstr_stop [simp]: "cstr (a @ NUL # b) = cstr a"
  by (induction a) (simp_all add: cstr_def)

lemma mem_write_cstr:
  assumes "vsnprintf_buf b n txt = Some b'" and "0 < n"
  shows "cstr b' = cstr (take (n - 1) txt)"
proof -
  have "b' = take (n - 1) txt @ NUL # drop (length (take (n - 1) txt) + 1) b"
    using assms by (auto simp: vsnprintf_buf_def mem_write_def split: if_splits)
  then show ?thesis by (simp only: cstr_stop)
qed

lemma cstr_take_NUL: "k < length txt \<Longrightarrow> txt ! k = NUL \<Longrightarrow> k < n \<Longrightarrow> cstr (take n txt) = cstr txt"
proof -
  assume k: "k < length txt" "txt ! k = NUL" "k < n"
  then have tv: "txt = take k txt @ NUL # drop (Suc k) txt" by (metis id_take_nth_drop)
  have "take n txt = take k txt @ NUL # take (n - Suc k) (drop (Suc k) txt)"
    by (subst tv) (use k in \<open>simp add: take_Cons' min_def\<close>)
  then have "cstr (take n txt) = cstr (take k txt)" by simp
  also have "\<dots> = cstr txt" by (subst (2) tv) simp
  finally show ?thesis .
qed

lemma vprintf_try_ok:
  assumes "2 \<le> buflen" and "length buf = buflen" and "length txt < 2 ^ 31"
  shows "\<exists>b. vprintf_try txt buf buflen = Some b \<and> length b = buflen \<and>
    (b ! (buflen - 2) = NUL \<longrightarrow> cstr b = cstr txt)"
proof -
  have "buflen - 2 + length [NUL] \<le> length buf" using assms by simp
  then obtain b1 where b1: "mem_write buf (buflen - 2) [NUL] = Some b1"
    by (simp add: mem_write_ok)
  have lb1: "length b1 = buflen" using mem_write_length [OF b1] assms by simp
  have "length (take (buflen - 1) txt @ [NUL]) \<le> length b1" using lb1 assms by simp
  then obtain b where b: "vsnprintf_buf b1 buflen txt = Some b"
    and bv: "b = take (buflen - 1) txt @ NUL # drop (length (take (buflen - 1) txt) + 1) b1"
    using assms by (simp add: vsnprintf_buf_def mem_write_def)
  have "length b = buflen" using b lb1 assms mem_write_length by (auto simp: vsnprintf_buf_def)
  moreover have "cstr b = cstr txt" if nul: "b ! (buflen - 2) = NUL"
  proof (cases "length txt < buflen - 1")
    case True
    then show ?thesis using mem_write_cstr [OF b] assms by simp
  next
    case False
    then have "b ! (buflen - 2) = txt ! (buflen - 2)"
      unfolding bv using assms(1) by (auto simp: nth_append)
    then have "cstr (take (buflen - 1) txt) = cstr txt"
      using False nul assms(1) by (intro cstr_take_NUL [of "buflen - 2"]) auto
    then show ?thesis using mem_write_cstr [OF b] assms by simp
  qed
  moreover have "vprintf_try txt buf buflen = Some b"
    using assms b1 b by (simp add: vprintf_try_def)
  ultimately show ?thesis by blast
qed

lemma vprintf_loop_post:
  assumes m: "malloc_spec m" and "sds_wf s" and "sds_small (sdslen s + length txt)"
    and tl: "length txt < 2 ^ 31"
  shows "2 \<le> buflen \<Longrightarrow> length buf = buflen \<Longrightarrow>
    sds_post m (\<lambda>r. content r = content s @ cstr txt) (vprintf_loop m s txt buf buflen)"
proof (induction "length txt + 2 - buflen" arbitrary: buf buflen rule: less_induct)
  case less
  obtain b where b: "vprintf_try txt buf buflen = Some b"
    and nul: "b ! (buflen - 2) = NUL \<longrightarrow> cstr b = cstr txt"
    using vprintf_try_ok [OF less.prems tl] by blast
  note eq = vprintf_loop.simps [of m s "txt" buf buflen]
  show ?case
  proof (cases "b ! (buflen - 2) = NUL")
    case True
    then have c: "cstr b = cstr txt" using nul by simp
    have "length (cstr txt) \<le> length txt" by (simp add: cstr_def length_takeWhile_le)
    then have "sds_small (sdslen s + length (cstr txt))"
      by (rule sds_small_mono [OF assms(3) add_left_mono])
    then show ?thesis
      using sdscat_post [OF m assms(2), of b] b True c by (simp add: eq)
  next
    case False
    then have "buflen - 1 \<le> length txt" by (rule vprintf_try_full [OF b])
    then show ?thesis
      using less b False malloc_specD [OF m] by (auto simp: eq split: option.splits)
  qed
qed

text \<open>\<open>sdscatvprintf\<close> appends what \<open>vsnprintf\<close> prints, up to a NUL in it.\<close>

lemma sdscatvprintf_post:
  assumes m: "malloc_spec m" and "sds_wf s" and "vprintf_text fl (cstr fmt) ap = Some txt"
    and "length txt < 2 ^ 31" and "sds_small (sdslen s + length txt)"
  shows "sds_post m (\<lambda>r. content r = content s @ cstr txt) (sdscatvprintf m fl s fmt ap)"
  using vprintf_loop_post [OF m assms(2,5,4)] malloc_specD [OF m] assms(3)
  by (auto simp: sdscatvprintf_def Let_def split: option.splits)

text \<open>
  In the middle of \<open>sdscatfmt\<close> the terminator is missing.  \<open>close_sds\<close> puts it back; growing
  the block commutes with it, so the lemmas about well-formed strings apply.
\<close>

definition close_sds :: "sds \<Rightarrow> sds" where
  "close_sds s = s\<lparr>sds_buf := (sds_buf s)[sds_len s := NUL]\<rparr>"

lemma close_sds_simps [simp]:
  "sds_flags (close_sds s) = sds_flags s" "sds_len (close_sds s) = sds_len s"
  "sds_alloc (close_sds s) = sds_alloc s" "sdslen (close_sds s) = sdslen s"
  "sdsavail (close_sds s) = sdsavail s" "content (close_sds s) = content s"
  "sdsalloc (close_sds s) = sdsalloc s" "length (sds_buf (close_sds s)) = length (sds_buf s)"
  by (simp_all add: close_sds_def sdslen_def sdsavail_def content_def sdsalloc_def split: sds_type.split)

lemma close_sdssetalloc: "close_sds (sdssetalloc s n) = sdssetalloc (close_sds s) n"
  by (cases "sds_flags s") (simp_all add: close_sds_def sdssetalloc_def)

lemma s_realloc_update:
  assumes "malloc_spec m" and "i < length old" and "hdr \<le> n"
  shows "s_realloc m (old[i := x]) hdr n
    = (if i < n - hdr then map_option (\<lambda>b. b[i := x]) (s_realloc m old hdr n) else s_realloc m old hdr n)"
proof (cases "m n")
  case (Some blk)
  then have "length (drop hdr blk) = n - hdr" using malloc_specD [OF assms(1)] by simp
  then show ?thesis
    using Some assms by (auto simp: s_realloc_def Let_def take_update_swap list_update_append list_update_beyond)
qed (simp add: s_realloc_def)

lemma sds_resize_close:
  assumes m: "malloc_spec m" and l: "sdslen s < length (sds_buf s)" and le: "sdslen s \<le> newlen"
    and n: "newlen + 18 < 2 ^ 64" and cap: "sdslen s < sds_cap type"
  shows "sds_resize m (close_sds s) type newlen = map_option (map_option close_sds) (sds_resize m s type newlen)"
proof -
  define k where "k = sdslen s"
  have hdr: "(sdsHdrSize type + newlen + 1) mod 2 ^ 64 = sdsHdrSize type + (newlen + 1)"
    using n sdsHdrSize_le [of type] by simp
  have k: "sds_len s = k" by (simp add: k_def sdslen_def)
  show ?thesis
  proof (cases "sds_flags s = type")
    case True
    have "s_realloc m ((sds_buf s)[k := NUL]) (sdsHdrSize type) (sdsHdrSize type + (newlen + 1))
      = map_option (\<lambda>b. b[k := NUL]) (s_realloc m (sds_buf s) (sdsHdrSize type) (sdsHdrSize type + (newlen + 1)))"
      using s_realloc_update [OF m, of k "sds_buf s" "sdsHdrSize type" "sdsHdrSize type + (newlen + 1)"] l le
      by (simp add: k_def)
    then show ?thesis
      unfolding sds_resize_def Let_def hdr using True k
      by (cases "s_realloc m (sds_buf s) (sdsHdrSize type) (sdsHdrSize type + (newlen + 1))")
        (simp_all add: close_sds_def sdssetalloc_def split: sds_type.split)
  next
    case False
    show ?thesis
    proof (cases "m (sdsHdrSize type + (newlen + 1))")
      case None
      then show ?thesis unfolding sds_resize_def Let_def hdr using False by simp
    next
      case (Some blk)
      define mem where "mem = drop (sdsHdrSize type) blk"
      have lm: "length mem = newlen + 1"
        using malloc_specD [OF m Some] by (simp add: mem_def)
      define bs where "bs = take (k + 1) (sds_buf s)"
      have lb: "length bs = k + 1" using l by (simp add: bs_def k_def)
      have rd: "mem_read (sds_buf s) 0 (k + 1) = Some bs"
        "mem_read ((sds_buf s)[k := NUL]) 0 (k + 1) = Some (bs[k := NUL])"
        using l by (simp_all add: mem_read_def bs_def k_def take_update_swap)
      have wr: "mem_write mem 0 xs = Some (xs @ drop (k + 1) mem)" if "length xs = k + 1" for xs
        using that lm le by (simp add: mem_write_def k_def)
      have "k mod sds_cap type = k" using cap by (simp add: k_def)
      then show ?thesis
        unfolding sds_resize_def Let_def hdr
        using False Some rd k wr lb
        by (simp add: mem_def [symmetric] k_def [symmetric] close_sdssetalloc)
          (cases s, simp add: close_sds_def list_update_append sdssetlen_def)
    qed
  qed
qed

text \<open>What \<open>sdsMakeRoomFor\<close> does to a string whose terminator is missing.\<close>

definition open_wf :: "sds \<Rightarrow> bool" where
  "open_wf s \<longleftrightarrow> sds_wf (close_sds s)"

lemma open_wf_of_wf: "sds_wf s \<Longrightarrow> open_wf s"
  using sds_wf_lenD [of s]
  by (auto simp: open_wf_def close_sds_def sds_wf_def sdsalloc_def sdslen_def split: sds_type.splits)

lemma open_wf_lenD: "open_wf s \<Longrightarrow> sdslen s < length (sds_buf s)"
  using sds_wf_lenD [of "close_sds s"] by (simp add: open_wf_def)

lemma open_room:
  assumes m: "malloc_spec m" and t: "malloc_total m" and wf: "open_wf s"
    and small: "sds_small (sdslen s + n)"
  shows "\<exists>r. sdsMakeRoomFor m s n = Some (Some r) \<and> open_wf r \<and> content r = content s \<and>
    n \<le> sdsavail r"
proof -
  have c: "sdsMakeRoomFor m (close_sds s) n = map_option (map_option close_sds) (sdsMakeRoomFor m s n)"
  proof (cases "n \<le> sdsavail s")
    case True
    then show ?thesis by (simp add: sdsMakeRoomFor_def Let_def)
  next
    case False
    define n0 where "n0 = sdslen s + n"
    define newlen where "newlen = (if n0 < SDS_MAX_PREALLOC then n0 * 2 else n0 + SDS_MAX_PREALLOC)"
    have n0: "(sdslen s + n) mod 2 ^ 64 = n0" "(n0 + SDS_MAX_PREALLOC) mod 2 ^ 64 = n0 + SDS_MAX_PREALLOC"
      using small by (simp_all add: sds_small_def n0_def SDS_MAX_PREALLOC_def)
    have le: "sdslen s \<le> newlen" "newlen + 18 < 2 ^ 64"
      using small by (simp_all add: newlen_def n0_def sds_small_def SDS_MAX_PREALLOC_def)
    have "sdslen s < sds_cap (if sdsReqType newlen = SDS_TYPE_5 then SDS_TYPE_8 else sdsReqType newlen)"
      using le by (intro le_less_trans [OF le(1) sdsReqType_8_cap]) simp
    from sds_resize_close [OF m open_wf_lenD [OF wf] le this] show ?thesis
      using False unfolding sdsMakeRoomFor_resize Let_def close_sds_simps n0 newlen_def [symmetric] by simp
  qed
  from small have "sds_small (sdslen (close_sds s) + n)" by simp
  from sds_postD [OF sdsMakeRoomFor_post [OF m wf [unfolded open_wf_def] this] t]
  obtain r where "sdsMakeRoomFor m (close_sds s) n = Some (Some r)" "sds_wf r"
    "content r = content s" "n \<le> sdsavail r"
    by auto
  then show ?thesis
    using c by (cases "sdsMakeRoomFor m s n") (auto simp: open_wf_def)
qed

lemma open_store:
  assumes wf: "open_wf s" and le: "length bs \<le> sdsavail s" and i: "i = int (sdslen s)"
    and small: "sdslen s + length bs < 2 ^ 31"
  shows "\<exists>r. fmt_store s i bs = Some (r, int (sdslen r)) \<and> open_wf r \<and> content r = content s @ bs"
proof -
  define k where "k = sdslen s"
  have al: "k + length bs \<le> sdsalloc s" "sdsalloc s < length (sds_buf s)"
      "sdsalloc s < sds_cap (sds_flags s)"
    using wf sds_wf_avail_alloc [of "close_sds s"] le
    by (auto simp: open_wf_def sds_wf_def k_def)
  have lc: "length (take k (sds_buf s)) = k" using al by simp
  define buf where "buf = take k (sds_buf s) @ bs @ drop (k + length bs) (sds_buf s)"
  define r where "r = sdsinclen (s\<lparr>sds_buf := buf\<rparr>) (length bs)"
  have w: "buf_write s k bs = Some (s\<lparr>sds_buf := buf\<rparr>)"
    using al by (simp add: buf_write_def mem_write_def buf_def)
  have len: "sds_len r = k + length bs"
    using al by (simp add: r_def sdsinclen_def k_def sdslen_def)
  have rest: "drop (k + length bs) (sds_buf s) \<noteq> []" using al by simp
  then obtain x zs where x: "drop (k + length bs) (sds_buf s) = x # zs" by (cases "drop (k + length bs) (sds_buf s)") auto
  have "sds_buf (close_sds r) = (content s @ bs) @ NUL # zs"
    using len lc x by (simp add: close_sds_def r_def sdsinclen_def buf_def list_update_append content_def k_def sdslen_def)
  then have "sds_wf (close_sds r) \<and> content (close_sds r) = content s @ bs"
    using len al lc arg_cong [OF x, of length] by (intro sds_wfI [where rest = zs])
      (auto simp: r_def sdsinclen_def content_def k_def sdsalloc_def close_sds_def buf_def
        split: sds_type.splits)
  moreover have "fmt_store s i bs = Some (r, int (sdslen r))"
    using w len small i by (simp add: fmt_store_def r_def k_def sdslen_def s32_id)
  ultimately show ?thesis by (auto simp: open_wf_def)
qed

text \<open>The text \<open>sdscatfmt\<close> appends; \<open>None\<close> where the call is undefined.\<close>

fun fmt_arg :: "char \<Rightarrow> carg list \<Rightarrow> (string \<times> carg list) option" where
  "fmt_arg d (CStr t # as) = (if d = CHR ''s'' then Some (cstr t, as) else None)"
| "fmt_arg d (CSds t # as) = (if d = CHR ''S'' then Some (t, as) else None)"
| "fmt_arg d (CInt v # as) =
     (if d = CHR ''i'' then Some (dec_int (s32 v), as)
      else if d = CHR ''u'' then Some (dec_nat (nat (v mod 2 ^ 32)), as) else None)"
| "fmt_arg d (CSize n # as) = (if d = CHR ''u'' then Some (dec_nat (n mod 2 ^ 32), as) else None)"
| "fmt_arg d (CLongLong v # as) =
     (if d = CHR ''I'' \<and> - (2 ^ 63) < v \<and> v < 2 ^ 63 then Some (dec_int v, as)
      else if d = CHR ''U'' then Some (dec_nat (nat (v mod 2 ^ 64)), as) else None)"
| "fmt_arg d _ = None"

fun fmt_text :: "string \<Rightarrow> carg list \<Rightarrow> string option" where
  "fmt_text [] args = Some []"
| "fmt_text (c # f) args =
     (if c \<noteq> CHR ''%'' then map_option (Cons c) (fmt_text f args)
      else case f of
             [] \<Rightarrow> None
           | d # f' \<Rightarrow>
               if d \<in> set ''sSiIuU'' then
                 (case fmt_arg d args of
                    None \<Rightarrow> None
                  | Some (t, args') \<Rightarrow> map_option ((@) t) (fmt_text f' args'))
               else map_option (Cons d) (fmt_text f' args))"

lemma fmt_directive_arg: "fmt_arg d args = Some (t, args') \<Longrightarrow> fmt_directive d args = Some (t, args')"
proof -
  assume a: "fmt_arg d args = Some (t, args')"
  have s: "- (2 ^ 63) < s32 v" "s32 v < 2 ^ 63" for v
    using s32_range [of v] by simp_all
  have u: "nat (v mod 2 ^ 32) < 2 ^ 64" "nat (v mod 2 ^ 64) < 2 ^ 64" for v :: int
  proof -
    have "v mod 2 ^ 32 < 2 ^ 32" "v mod 2 ^ 64 < 2 ^ 64" by simp_all
    then show "nat (v mod 2 ^ 32) < 2 ^ 64" and "nat (v mod 2 ^ 64) < 2 ^ 64"
      by (simp_all add: nat_less_iff)
  qed
  have u': "n mod 2 ^ 32 < 2 ^ 64" for n :: nat
    by (rule less_trans [of _ "2 ^ 32"]) simp_all
  show ?thesis
  proof (cases args)
    case (Cons x xs)
    then show ?thesis
      using a number_text_ll [OF s] number_text_ull [OF u(1)] number_text_ull [OF u(2)] number_text_ull [OF u']
      by (cases x) (auto simp: fmt_directive_def simp del: number_text_ull split: if_splits)
  qed (use a in simp)
qed

lemma fmt_put_ok:
  assumes m: "malloc_spec m" "malloc_total m" and wf: "open_wf s" and i: "i = int (sdslen s)"
    and small: "sdslen s + length bs < 2 ^ 31"
  shows "\<exists>r. fmt_put m s i bs = Some (r, int (sdslen r)) \<and> open_wf r \<and> content r = content s @ bs"
proof -
  have sm: "sds_small (sdslen s + length bs)" using small by (simp add: sds_small_def)
  obtain s1 where s1: "(if sdsavail s < length bs then sdsMakeRoomFor m s (length bs) else Some (Some s)) = Some (Some s1)"
    "open_wf s1" "content s1 = content s" "length bs \<le> sdsavail s1"
    using open_room [OF m wf sm] wf by (cases "sdsavail s < length bs") auto
  have l: "sdslen s1 = sdslen s"
    using s1(2,3) wf by (metis close_sds_simps(4,6) length_content open_wf_def)
  from open_store [OF s1(2,4)] i small l s1(3) obtain r where
    "fmt_store s1 i bs = Some (r, int (sdslen r))" "open_wf r" "content r = content s @ bs"
    by auto
  then show ?thesis using s1(1) by (auto simp: fmt_put_def sds_deref_def)
qed

lemma catfmt_loop_text:
  assumes m: "malloc_spec m" "malloc_total m"
  shows "fmt_text f args = Some t \<Longrightarrow> open_wf s \<Longrightarrow> i = int (sdslen s) \<Longrightarrow>
    sdslen s + length t < 2 ^ 31 \<Longrightarrow>
    \<exists>r. catfmt_loop m f args s i = Some (r, int (sdslen r)) \<and> open_wf r \<and> content r = content s @ t"
proof (induction f args arbitrary: s i t rule: fmt_text.induct)
  case (1 args)
  then show ?case by simp
next
  case (2 c f args)
  have "sds_small (sdslen s + 1)" using "2.prems"(4) by (simp add: sds_small_def)
  note room = open_room [OF m "2.prems"(2) this]
  obtain s1 where s1: "(if sdsavail s = 0 then sdsMakeRoomFor m s 1 else Some (Some s)) = Some (Some s1)"
    and w1: "open_wf s1" and c1: "content s1 = content s" and a1: "1 \<le> sdsavail s1"
    using room "2.prems"(2) by (cases "sdsavail s = 0") auto
  have len: "length (content s) = sdslen s" if "open_wf s" for s
    using that by (metis close_sds_simps(4,6) length_content open_wf_def)
  have l1: "sdslen s1 = sdslen s" using len [OF w1] len [OF "2.prems"(2)] c1 by simp
  have byte: "\<exists>r. fmt_store s1 i [x] = Some (r, int (sdslen r)) \<and> open_wf r \<and> content r = content s @ [x]"
    if "0 < length t" for x
  proof -
    have "sdslen s1 + length [x] < 2 ^ 31" using "2.prems"(4) l1 that by (cases t) auto
    from open_store [OF w1 _ _ this, of i] show ?thesis using a1 "2.prems"(3) l1 c1 by simp
  qed
  show ?case
  proof (cases "c = CHR ''%''")
    case False
    with "2.prems"(1) obtain t' where t: "fmt_text f args = Some t'" "t = c # t'" by auto
    from byte [of c] t obtain s2 where s2: "fmt_store s1 i [c] = Some (s2, int (sdslen s2))" "open_wf s2"
      "content s2 = content s @ [c]" by auto
    have "sdslen s2 = sdslen s + 1" using len [OF s2(2)] len [OF "2.prems"(2)] s2(3) by simp
    then show ?thesis
      using "2.IH"(1) [OF False t(1) s2(2) refl] "2.prems"(4) t s1 s2 False
      by (auto simp: sds_deref_def)
  next
    case True
    with "2.prems"(1) obtain d f' where f: "f = d # f'" by (auto split: list.splits)
    show ?thesis
    proof (cases "d \<in> set ''sSiIuU''")
      case False
      with "2.prems"(1) True f obtain t' where t: "fmt_text f' args = Some t'" "t = d # t'" by (auto split: if_splits)
      from byte [of d] t obtain s2 where s2: "fmt_store s1 i [d] = Some (s2, int (sdslen s2))" "open_wf s2"
        "content s2 = content s @ [d]" by auto
      have "sdslen s2 = sdslen s + 1" using len [OF s2(2)] len [OF "2.prems"(2)] s2(3) by simp
      then have "\<exists>r. catfmt_loop m f' args s2 (int (sdslen s2)) = Some (r, int (sdslen r)) \<and> open_wf r
          \<and> content r = content s2 @ t'"
        using True f False "2.prems"(4) t by (intro "2.IH"(3) [OF _ f False t(1) s2(2) refl]) auto
      then show ?thesis using True f False s1 s2 t by (auto simp: sds_deref_def)
    next
      case dir: True
      with "2.prems"(1) True f obtain bs args' t' where b: "fmt_arg d args = Some (bs, args')"
        "fmt_text f' args' = Some t'" "t = bs @ t'"
        by (auto split: option.splits if_splits)
      have "sdslen s1 + length bs < 2 ^ 31" using "2.prems"(4) l1 b(3) by simp
      from fmt_put_ok [OF m w1 _ this, of i] "2.prems"(3) l1 obtain s2 where
        s2: "fmt_put m s1 i bs = Some (s2, int (sdslen s2))" "open_wf s2" "content s2 = content s1 @ bs"
        by auto
      have "sdslen s2 = sdslen s + length bs"
        using len [OF s2(2)] len [OF w1] s2(3) l1 by simp
      then have "\<exists>r. catfmt_loop m f' args' s2 (int (sdslen s2)) = Some (r, int (sdslen r)) \<and> open_wf r
          \<and> content r = content s2 @ t'"
        using True f dir "2.prems"(4) b by (intro "2.IH"(2) [OF _ f dir b(1) refl b(2) s2(2) refl]) auto
      then show ?thesis
        using True f dir s1 s2 b c1 fmt_directive_arg [OF b(1)] by (auto simp: sds_deref_def)
    qed
  qed
qed

lemma sdscatfmt_text:
  assumes m: "malloc_spec m" "malloc_total m" and wf: "sds_wf s"
    and t: "fmt_text (cstr fmt) args = Some t" and small: "sdslen s + length t < 2 ^ 31"
  shows "\<exists>r. sdscatfmt m s fmt args = Some (Some r) \<and> sds_wf r \<and> content r = content s @ t"
proof -
  from catfmt_loop_text [OF m t open_wf_of_wf [OF wf] refl small]
  obtain r where r: "catfmt_loop m (cstr fmt) args s (int (sdslen s)) = Some (r, int (sdslen r))"
    "open_wf r" "content r = content s @ t" by blast
  have "buf_write r (sdslen r) [NUL] = Some (close_sds r)"
    using open_wf_lenD [OF r(2)]
    by (simp add: buf_write_def mem_write_def close_sds_def upd_conv_take_nth_drop sdslen_def)
  then show ?thesis
    using r small by (auto simp: sdscatfmt_def s32_id open_wf_def intro!: exI [of _ "close_sds r"])
qed

section \<open>Splitting and joining are inverse\<close>

text \<open>The pieces between the occurrences of a separator, found from the left.\<close>

function split_text :: "string \<Rightarrow> string \<Rightarrow> string list" where
  "split_text sep s =
     (if sep = [] then [s]
      else case find_sub sep s of
             None \<Rightarrow> [s]
           | Some k \<Rightarrow> take k s # split_text sep (drop (k + length sep) s))"
  by pat_completeness auto
termination
proof (relation "measure (\<lambda>(sep, s). length s)", goal_cases)
  case (2 sep s k)
  then have "k + length sep \<le> length s" using find_sub_Some by blast
  then show ?case using 2 by (cases sep) auto
qed simp

declare split_text.simps [simp del]

fun join_text :: "string \<Rightarrow> string list \<Rightarrow> string" where
  "join_text sep [] = []"
| "join_text sep (a # as) = a @ (if as \<noteq> [] then sep else []) @ join_text sep as"

lemma split_text_nonempty: "split_text sep s \<noteq> []"
  by (subst split_text.simps) (simp split: option.splits)

lemma join_split_text: "join_text sep (split_text sep s) = s"
proof (induction sep s rule: split_text.induct)
  case (1 sep s)
  show ?case
  proof (cases "sep = [] \<or> find_sub sep s = None")
    case True
    then show ?thesis by (auto simp: split_text.simps [of sep s])
  next
    case False
    then obtain k where k: "find_sub sep s = Some k" by auto
    then have t: "take (length sep) (drop k s) = sep" using find_sub_Some by blast
    have "join_text sep (split_text sep s) = take k s @ sep @ drop (k + length sep) s"
      using False k 1 by (simp add: split_text.simps [of sep s] split_text_nonempty)
    also have "\<dots> = take k s @ take (length sep) (drop k s) @ drop (length sep) (drop k s)"
      using t by (simp add: add.commute)
    also have "\<dots> = s" by (simp only: append_take_drop_id)
    finally show ?thesis .
  qed
qed

lemma find_sub_eq_Some:
  "take (length pat) (drop k s) = pat \<Longrightarrow> \<forall>i<k. take (length pat) (drop i s) \<noteq> pat \<Longrightarrow>
   pat \<noteq> [] \<Longrightarrow> find_sub pat s = Some k"
proof (induction s arbitrary: k)
  case (Cons c cs)
  show ?case
  proof (cases k)
    case 0
    then show ?thesis using Cons.prems by simp
  next
    case (Suc k')
    have "find_sub pat cs = Some k'"
      using Cons.prems Suc by (intro Cons.IH) auto
    moreover have "take (length pat) (c # cs) \<noteq> pat" using Cons.prems(2) Suc by force
    ultimately show ?thesis using Suc by simp
  qed
qed simp

lemma find_sub_eq_None:
  "\<forall>i. i + length pat \<le> length s \<longrightarrow> take (length pat) (drop i s) \<noteq> pat \<Longrightarrow> find_sub pat s = None"
  using find_sub_Some by (cases "find_sub pat s") blast+

lemma sds_new_total:
  assumes "malloc_spec m" and "malloc_total m" and "n + 18 < 2 ^ 64" and "n \<le> length bs"
  shows "\<exists>t. sdsnewlen m (Some bs) n = Some (Some t) \<and> sds_wf t \<and> content t = take n bs"
  using sds_postD [OF sdsnewlen_post [OF assms(1,3,4)] assms(2)] by metis

lemma grow_slots_ok:
  assumes "malloc_total m" and "e < slots" and "slots < e + 2 \<longrightarrow> slots < 2 ^ 30"
  shows "\<exists>slots'. grow_slots m slots e = Some (Some slots') \<and> e + 1 < slots'"
proof (cases "slots < e + 2")
  case True
  obtain y where "m (8 * (slots * 2)) = Some y" using assms(1) unfolding malloc_total_def by blast
  then show ?thesis using True assms(2,3) by (simp add: grow_slots_def)
qed (simp add: grow_slots_def)

lemma split_loop_text:
  assumes m: "malloc_spec m" "malloc_total m" and sep: "length sep = seplen" "0 < seplen"
    and len: "len \<le> length s" "len < 2 ^ 30"
  shows "start \<le> j \<Longrightarrow> j \<le> len \<Longrightarrow> length tokens \<le> start \<Longrightarrow> length tokens < slots \<Longrightarrow>
    \<forall>i<j - start. take seplen (drop i (drop start (take len s))) \<noteq> sep \<Longrightarrow>
    \<exists>ts start' slots'. split_loop m s len sep seplen j start slots tokens = Some (Some (tokens @ ts, start', slots'))
      \<and> (\<forall>t \<in> set ts. sds_wf t) \<and> start' \<le> len \<and> length (tokens @ ts) < slots'
      \<and> map content ts @ [drop start' (take len s)] = split_text sep (drop start (take len s))"
proof (induction "Suc len - j" arbitrary: j start slots tokens rule: less_induct)
  case less
  note eq = split_loop.simps [of m s len sep seplen j start slots tokens]
  let ?u = "drop start (take len s)"
  have sne: "sep \<noteq> []" using sep by auto
  show ?case
  proof (cases "j + seplen \<le> len")
    case False
    have "find_sub sep ?u = None"
    proof (rule find_sub_eq_None, intro allI impI)
      fix i assume "i + length sep \<le> length ?u"
      then have "i < j - start" using False len sep less.prems(1) by simp
      then show "take (length sep) (drop i ?u) \<noteq> sep" using less.prems(5) sep by blast
    qed
    then have "split_text sep ?u = [?u]" by (simp add: split_text.simps [of sep ?u])
    then show ?thesis using False less.prems
      by (intro exI [of _ "[]"] exI [of _ start] exI [of _ slots]) (simp add: eq)
  next
    case True
    have "slots < length tokens + 2 \<longrightarrow> slots < 2 ^ 30" using less.prems True sep len by auto
    then obtain slots1 where g: "grow_slots m slots (length tokens) = Some (Some slots1)" "length tokens + 1 < slots1"
      using grow_slots_ok [OF m(2) less.prems(4)] by blast
    define w where "w = take seplen (drop j s)"
    have rd: "mem_read s j seplen = Some w" "mem_read sep 0 seplen = Some sep"
      using True len sep by (simp_all add: mem_read_def w_def)
    have at: "take seplen (drop (j - start) ?u) = w"
      using True less.prems(1) by (simp add: w_def drop_take)
    show ?thesis
    proof (cases "w = sep")
      case False
      have "\<forall>i<Suc j - start. take seplen (drop i ?u) \<noteq> sep"
        using less.prems(1,5) at False by (metis Suc_diff_le less_Suc_eq)
      then show ?thesis
        using less.hyps [of "Suc j" start tokens slots1] less.prems True False g rd sep
        by (simp add: eq)
    next
      case hit: True
      have f: "find_sub sep ?u = Some (j - start)"
        using at hit less.prems(5) sep sne by (intro find_sub_eq_Some) simp_all
      have u': "drop (j - start + length sep) ?u = drop (j + seplen) (take len s)"
        using less.prems(1) sep by (simp add: add.assoc add.commute)
      obtain t where t: "sdsnewlen m (Some (drop start s)) (j - start) = Some (Some t)" "sds_wf t"
        "content t = take (j - start) (drop start s)"
      proof -
        have "j - start + 18 < 2 ^ 64" "j - start \<le> length (drop start s)"
          using True len less.prems(1) by auto
        from sds_new_total [OF m this] that show thesis by auto
      qed
      have ct: "content t = take (j - start) ?u"
        using t(3) True less.prems(1) by (simp add: take_drop)
      have "\<exists>ts start' slots'. split_loop m s len sep seplen (j + seplen) (j + seplen) slots1 (tokens @ [t])
            = Some (Some ((tokens @ [t]) @ ts, start', slots'))
          \<and> (\<forall>t \<in> set ts. sds_wf t) \<and> start' \<le> len \<and> length ((tokens @ [t]) @ ts) < slots'
          \<and> map content ts @ [drop start' (take len s)] = split_text sep (drop (j + seplen) (take len s))"
        using less.prems True sep g(2) by (intro less.hyps) auto
      then obtain ts start' slots' where
        *: "split_loop m s len sep seplen (j + seplen) (j + seplen) slots1 (tokens @ [t])
            = Some (Some ((tokens @ [t]) @ ts, start', slots'))" "\<forall>t \<in> set ts. sds_wf t" "start' \<le> len"
          "length ((tokens @ [t]) @ ts) < slots'"
          "map content ts @ [drop start' (take len s)] = split_text sep (drop (j + seplen) (take len s))"
        by blast
      have j: "Suc (j + (seplen - 1)) = j + seplen" using sep(2) by simp
      have "split_loop m s len sep seplen j start slots tokens = Some (Some (tokens @ t # ts, start', slots'))"
        using * True g rd hit t j by (simp add: eq)
      moreover have "split_text sep ?u = content t # split_text sep (drop (j + seplen) (take len s))"
        using f u' ct sne by (simp add: split_text.simps [of sep ?u])
      ultimately show ?thesis
        using * t(2) by (intro exI [of _ "t # ts"] exI [of _ start'] exI [of _ slots']) simp
    qed
  qed
qed

lemma sdssplitlen_text:
  assumes m: "malloc_spec m" "malloc_total m" and sep: "sep \<noteq> []"
    and s: "s \<noteq> []" "length s < 2 ^ 30"
  shows "\<exists>ts. sdssplitlen m s (int (length s)) sep (int (length sep)) = Some (Some ts, Some (int (length ts)))
    \<and> (\<forall>t \<in> set ts. sds_wf t) \<and> map content ts = split_text sep s"
proof -
  have pos: "0 < length sep" using sep by simp
  from split_loop_text [OF m refl pos, of "length s" s 0 0 "[]" 5] s(2) obtain ts start slots where
    l: "split_loop m s (length s) sep (length sep) 0 0 5 [] = Some (Some (ts, start, slots))"
    and ts: "\<forall>t \<in> set ts. sds_wf t" "start \<le> length s" "length ts < slots"
      "map content ts @ [drop start s] = split_text sep s"
    by auto
  obtain t where t: "sdsnewlen m (Some (drop start s)) (length s - start) = Some (Some t)" "sds_wf t"
    "content t = drop start s"
  proof -
    have "length s - start + 18 < 2 ^ 64" using s(2) by simp
    from sds_new_total [OF m this, of "drop start s"] that show thesis by auto
  qed
  have "\<not> (int (length sep) < 1 \<or> int (length s) < 0)" "int (length s) \<noteq> 0" using pos s by auto
  then show ?thesis
    using l ts t m(2) by (intro exI [of _ "ts @ [t]"]) (auto simp: sdssplitlen_def malloc_total_def)
qed

definition sds_ok :: "sds option option \<Rightarrow> string \<Rightarrow> bool" where
  "sds_ok r t \<longleftrightarrow> (\<exists>s. r = Some (Some s) \<and> sds_wf s \<and> content s = t)"

lemma sds_okI: "sds_post m (\<lambda>s. content s = t) r \<Longrightarrow> malloc_total m \<Longrightarrow> sds_ok r t"
  by (auto simp: sds_ok_def elim: sds_postD)

lemma sds_ok_deref: "sds_ok r t \<Longrightarrow> (\<And>s. sds_wf s \<Longrightarrow> content s = t \<Longrightarrow> sds_ok (f s) u) \<Longrightarrow> sds_ok (sds_deref r f) u"
  by (auto simp: sds_ok_def sds_deref_def)

lemma join_loop_text:
  assumes add: "\<And>s a. sds_wf s \<Longrightarrow> P a \<Longrightarrow> length (content s) + length (f a) < 2 ^ 63 \<Longrightarrow>
      sds_ok (add s a) (content s @ f a)"
    and add_sep: "\<And>s. sds_wf s \<Longrightarrow> length (content s) + length sep < 2 ^ 63 \<Longrightarrow>
      sds_ok (add_sep s) (content s @ sep)"
  shows "sds_ok join t \<Longrightarrow> \<forall>a \<in> set as. P a \<Longrightarrow> length (t @ join_text sep (map f as)) < 2 ^ 63 \<Longrightarrow>
    sds_ok (join_loop add add_sep as join) (t @ join_text sep (map f as))"
proof (induction as arbitrary: join t)
  case (Cons a as)
  have 1: "sds_ok (sds_deref join (\<lambda>s. add s a)) (t @ f a)"
    using Cons.prems add by (auto intro!: sds_ok_deref)
  have 2: "sds_ok (sds_deref (sds_deref join (\<lambda>s. add s a)) add_sep) ((t @ f a) @ sep)" if "as \<noteq> []"
  proof (rule sds_ok_deref [OF 1])
    fix s assume "sds_wf s" "content s = t @ f a"
    then show "sds_ok (add_sep s) ((t @ f a) @ sep)"
      using add_sep [of s] Cons.prems that by simp
  qed
  show ?case
  proof (cases "as = []")
    case True
    then show ?thesis using 1 by simp
  next
    case False
    from Cons.IH [OF 2 [OF False]] Cons.prems False show ?thesis by simp
  qed
qed simp

lemma sds_small_63: "n < 2 ^ 63 \<Longrightarrow> sds_small n"
  by (simp add: sds_small_def)

lemma sdscatlen_ok:
  assumes "malloc_spec m" "malloc_total m" "sds_wf s" "length (content s) + length t < 2 ^ 63"
  shows "sds_ok (sdscatlen m s t (length t)) (content s @ t)"
  using sdscatlen_post [OF assms(1,3), of "length t" t] assms(3,4) sds_small_63
  by (intro sds_okI [OF _ assms(2)]) simp

lemma sdsempty_ok: "malloc_spec m \<Longrightarrow> malloc_total m \<Longrightarrow> sds_ok (sdsempty m) []"
  by (rule sds_okI [OF sdsempty_post])

lemma sdsjoinsds_text:
  assumes m: "malloc_spec m" "malloc_total m" and wf: "\<forall>a \<in> set argv. sds_wf a"
    and small: "length (join_text sep (map content argv)) < 2 ^ 63"
  shows "sds_ok (sdsjoinsds m argv sep (length sep)) (join_text sep (map content argv))"
proof -
  have add: "sds_ok (sdscatsds m s a) (content s @ content a)"
    if "sds_wf s" "sds_wf a" "length (content s) + length (content a) < 2 ^ 63" for s a
    using sdscatsds_post [OF m(1) that(1) _ that(2)] that sds_small_63 by (intro sds_okI [OF _ m(2)]) simp
  have "sds_ok (join_loop (sdscatsds m) (\<lambda>s. sdscatlen m s sep (length sep)) argv (sdsempty m))
    ([] @ join_text sep (map content argv))"
    by (rule join_loop_text [where P = sds_wf])
      (use add sdscatlen_ok [OF m] sdsempty_ok [OF m] wf small in auto)
  then show ?thesis by (simp add: sdsjoinsds_def)
qed

lemma sdsjoin_text:
  assumes m: "malloc_spec m" "malloc_total m"
    and small: "length (join_text (cstr sep) (map cstr argv)) < 2 ^ 63"
  shows "sds_ok (sdsjoin m argv sep) (join_text (cstr sep) (map cstr argv))"
proof -
  have "sds_ok (join_loop (sdscat m) (\<lambda>s. sdscat m s sep) argv (sdsempty m))
    ([] @ join_text (cstr sep) (map cstr argv))"
    by (rule join_loop_text [where P = "\<lambda>_. True"])
      (use sdscatlen_ok [OF m] sdsempty_ok [OF m] small in \<open>auto simp: sdscat_def\<close>)
  then show ?thesis by (simp add: sdsjoin_def)
qed

section \<open>Quoting and reading back are inverse\<close>

definition repr_char :: "char \<Rightarrow> string" where
  "repr_char c =
     (if c = BSLASH \<or> c = QUOT then [BSLASH, c]
      else if c = LF then [BSLASH, CHR ''n'']
      else if c = CR then [BSLASH, CHR ''r'']
      else if c = TAB then [BSLASH, CHR ''t'']
      else if c = BEL then [BSLASH, CHR ''a'']
      else if c = BS then [BSLASH, CHR ''b'']
      else if isprint c then [c]
      else [BSLASH, CHR ''x'', hex_digit False (byte_val c div 16), hex_digit False (byte_val c mod 16)])"

definition repr_text :: "string \<Rightarrow> string" where
  "repr_text p = [QUOT] @ concat (map repr_char p) @ [QUOT]"

lemma byte_of_schar: "byte_of (nat (schar c mod 256)) = c"
proof -
  have "byte_val c < 256" by (rule nat_of_char_less_256)
  then have "nat (schar c mod 256) = byte_val c"
    by (auto simp: schar_def)
  then show ?thesis by simp
qed

lemma vprintf_c:
  "vprintf_text fl ''%c'' [CInt (schar c)] = Some [c]"
  "vprintf_text fl [BSLASH, CHR ''%'', CHR ''c''] [CInt (schar c)] = Some [BSLASH, c]"
  by (simp_all add: parse_spec_def printf_flags_def isdigit_def take_size_def conv_text_def
      pad_field_def byte_of_schar)

lemma radix_16_byte:
  "n < 256 \<Longrightarrow> radix u 16 n = (if n < 16 then [hex_digit u n] else [hex_digit u (n div 16), hex_digit u (n mod 16)])"
  by (simp add: radix.simps [of u 16 n] radix.simps [of u 16 "n div 16"])

lemma vprintf_x:
  assumes "n < 256"
  shows "vprintf_text fl (BSLASH # ''x%02x'') [CInt (int n)]
    = Some [BSLASH, CHR ''x'', hex_digit False (n div 16), hex_digit False (n mod 16)]"
proof -
  have "hex_digit False 0 = CHR ''0''" by (simp add: hex_digit_def digit_char_0)
  moreover have "undec ''2'' = 2" by (simp add: undec_def digit_val_def)
  moreover have "nat (int n mod 2 ^ 32) = n" using assms by simp
  ultimately show ?thesis
    using assms radix_16_byte [OF assms]
    by (simp add: parse_spec_def printf_flags_def isdigit_def take_size_def conv_text_def
      size_bits_def unsigned_text_def Let_def prec_digits_def pad_field_def numeral_2_eq_2)
qed

lemma hex_digit_noNUL: "d < 16 \<Longrightarrow> NUL \<noteq> hex_digit False d"
proof
  assume "d < 16" and "NUL = hex_digit False d"
  then have "byte_val (hex_digit False d) = byte_val NUL" by (simp only:)
  then have "byte_val (hex_digit False d) = 0" by simp
  with \<open>d < 16\<close> show False by (simp add: hex_digit_def digit_char_def split: if_splits)
qed

lemma byte_nibbles: "byte_val c div 16 < 16" "byte_val c mod 16 < 16"
  using nat_of_char_less_256 [of c] by (simp_all add: less_mult_imp_div_less)

lemma repr_char_noNUL: "NUL \<notin> set (repr_char c)"
proof -
  have "isprint c \<Longrightarrow> NUL \<noteq> c" by (auto simp: isprint_def)
  then show ?thesis
    using hex_digit_noNUL [OF byte_nibbles(1), of c] hex_digit_noNUL [OF byte_nibbles(2), of c]
    by (cases "isprint c") (simp_all add: repr_char_def)
qed

lemma length_repr_char: "length (repr_char c) \<le> 4"
  by (simp add: repr_char_def)

lemma repr_step_text:
  assumes m: "malloc_spec m" "malloc_total m" and wf: "sds_wf s" and small: "length (content s) + 4 < 2 ^ 63"
  shows "sds_ok (repr_step m fl s c) (content s @ repr_char c)"
proof -
  have lit: "sds_ok (sdscatlen m s [a, b] 2) (content s @ [a, b])" for a b
    using sdscatlen_ok [OF m wf, of "[a, b]"] small by (simp add: numeral_2_eq_2)
  have print: "sds_ok (sdscatprintf m fl s fmt ap) (content s @ t)"
    if "vprintf_text fl (cstr fmt) ap = Some t" "length t \<le> 4" "NUL \<notin> set t" for fmt ap t
    using sdscatvprintf_post [OF m(1) wf that(1)] that small wf
    by (intro sds_okI [OF _ m(2)]) (simp add: sdscatprintf_def sds_small_def cstr_id)
  have p1: "sds_ok (sdscatprintf m fl s [BSLASH, CHR ''%'', CHR ''c''] [CInt (schar c)]) (content s @ [BSLASH, c])"
    if "c = BSLASH \<or> c = QUOT"
    by (rule print) (use that in \<open>auto simp: cstr_id vprintf_c simp del: vprintf_text.simps\<close>)
  have p2: "sds_ok (sdscatprintf m fl s ''%c'' [CInt (schar c)]) (content s @ [c])" if "isprint c"
    by (rule print) (use that in \<open>auto simp: cstr_id vprintf_c isprint_def simp del: vprintf_text.simps\<close>)
  have p3: "sds_ok (sdscatprintf m fl s (BSLASH # ''x%02x'') [CInt (int (byte_val c))])
      (content s @ [BSLASH, CHR ''x'', hex_digit False (byte_val c div 16), hex_digit False (byte_val c mod 16)])"
  proof (rule print)
    have "cstr (BSLASH # ''x%02x'') = BSLASH # ''x%02x''" by (rule cstr_id) simp
    then show "vprintf_text fl (cstr (BSLASH # ''x%02x'')) [CInt (int (byte_val c))]
        = Some [BSLASH, CHR ''x'', hex_digit False (byte_val c div 16), hex_digit False (byte_val c mod 16)]"
      by (simp only: vprintf_x [OF nat_of_char_less_256])
  qed (use hex_digit_noNUL [OF byte_nibbles(1), of c] hex_digit_noNUL [OF byte_nibbles(2), of c] in auto)
  show ?thesis
    by (simp add: repr_step_def repr_char_def lit p1 p2 p3)
qed

lemma repr_loop_text:
  assumes m: "malloc_spec m" "malloc_total m"
  shows "sds_wf s \<Longrightarrow> length (content s) + 4 * length p < 2 ^ 63 \<Longrightarrow>
    \<exists>r. repr_loop m fl p s = Some r \<and> sds_wf r \<and> content r = content s @ concat (map repr_char p)"
proof (induction p arbitrary: s)
  case (Cons c p)
  obtain s1 where s1: "repr_step m fl s c = Some (Some s1)" "sds_wf s1" "content s1 = content s @ repr_char c"
    using repr_step_text [OF m Cons.prems(1), of fl c] Cons.prems(2) by (auto simp: sds_ok_def)
  then show ?case
    using Cons.IH [OF s1(2)] Cons.prems(2) length_repr_char [of c] by (auto simp: sds_deref_def)
qed simp

lemma length_repr_text: "length (repr_text p) \<le> 4 * length p + 2"
proof -
  have "length (concat (map repr_char p)) \<le> 4 * length p"
    by (induction p) (use length_repr_char in \<open>auto intro: add_mono order_trans\<close>)
  then show ?thesis by (simp add: repr_text_def)
qed

lemma sdscatrepr_text:
  assumes m: "malloc_spec m" "malloc_total m" and wf: "sds_wf s"
    and small: "length (content s) + 4 * length p + 2 < 2 ^ 63"
  shows "sds_ok (sdscatrepr m fl s p (length p)) (content s @ repr_text p)"
proof -
  obtain s1 where s1: "sdscatlen m s [QUOT] 1 = Some (Some s1)" "sds_wf s1" "content s1 = content s @ [QUOT]"
    using sdscatlen_ok [OF m wf, of "[QUOT]"] small by (auto simp: sds_ok_def)
  obtain s2 where s2: "repr_loop m fl p s1 = Some s2" "sds_wf s2"
    "content s2 = content s1 @ concat (map repr_char p)"
    using repr_loop_text [OF m s1(2), of p fl] s1(3) small by auto
  have "length (content s2) + length [QUOT] < 2 ^ 63"
    using s2(3) s1(3) length_repr_text [of p] small by (simp add: repr_text_def)
  from sdscatlen_ok [OF m s2(2) this] show ?thesis
    using s1 s2 by (simp add: sdscatrepr_def sds_deref_def mem_read_def repr_text_def)
qed

text \<open>The tokens of a line, without the strings they are built in.\<close>

function token_text :: "qmode \<Rightarrow> string \<Rightarrow> string \<Rightarrow> (string \<times> string) option" where
  "token_text mode p acc =
     (case arg_step mode p of
        Append c t \<Rightarrow> token_text mode t (acc @ [c])
      | Switch mode' t \<Rightarrow> token_text mode' t acc
      | Done t \<Rightarrow> Some (acc, t)
      | Err \<Rightarrow> None)"
  by pat_completeness auto
termination
  by (relation "measure (\<lambda>(mode, p, acc). length p)") (auto dest: arg_step_shorter)

declare token_text.simps [simp del]

lemma token_loop_text:
  assumes m: "malloc_spec m" "malloc_total m"
  shows "sds_wf s \<Longrightarrow> content s = acc \<Longrightarrow> length acc + length p < 2 ^ 63 \<Longrightarrow>
    (case token_text mode p acc of
       None \<Rightarrow> token_loop m mode p (Some s) = Some (Inl ())
     | Some (t, rest) \<Rightarrow> \<exists>r. token_loop m mode p (Some s) = Some (Inr (Some r, rest)) \<and> sds_wf r \<and> content r = t)"
proof (induction mode p acc arbitrary: s rule: token_text.induct)
  case (1 mode p acc)
  note eqs = token_text.simps [of mode p acc] token_loop.simps [of m mode p]
  show ?case
  proof (cases "arg_step mode p")
    case (Append c t)
    note less = arg_step_shorter(1) [OF Append]
    have "length (content s) + length [c] < 2 ^ 63" using "1.prems" less by simp
    then obtain s1 where s1: "sdscatlen m s [c] 1 = Some (Some s1)" "sds_wf s1" "content s1 = acc @ [c]"
      using sdscatlen_ok [OF m "1.prems"(1), of "[c]"] "1.prems"(2) by (auto simp: sds_ok_def)
    from "1.IH"(1) [OF Append s1(2,3)] less "1.prems"(3)
    show ?thesis using Append s1 by (simp add: eqs split: option.splits prod.splits)
  next
    case (Switch mode' t)
    note less = arg_step_shorter(2) [OF Switch]
    from "1.IH"(2) [OF Switch "1.prems"(1,2)] less "1.prems"(3)
    show ?thesis using Switch by (simp add: eqs split: option.splits prod.splits)
  qed (use "1.prems" in \<open>simp_all add: eqs\<close>)
qed

lemma token_text_shorter:
  "token_text mode p acc = Some (t, rest) \<Longrightarrow>
   length rest \<le> length p \<and> (p \<noteq> [] \<longrightarrow> length rest < length p)"
proof (induction mode p acc rule: token_text.induct)
  case (1 mode p acc)
  show ?case
    using 1 arg_step_shorter [of mode p]
    by (fastforce simp: token_text.simps [of mode p acc] split: arg_action.splits)
qed

function args_text :: "string \<Rightarrow> string list option" where
  "args_text p =
     (case dropWhile isspace p of
        [] \<Rightarrow> Some []
      | c # t \<Rightarrow>
          (case token_text Plain (c # t) [] of
             None \<Rightarrow> None
           | Some (a, rest) \<Rightarrow> map_option (Cons a) (args_text rest)))"
  by pat_completeness auto
termination
proof (relation "measure length", goal_cases)
  case (2 p c t ar a rest)
  then have "length rest < length (c # t)" using token_text_shorter by blast
  also have "\<dots> \<le> length p" using 2(1) length_dropWhile_le [of isspace p] by simp
  finally show ?case by simp
qed simp

declare args_text.simps [simp del]

lemma splitargs_loop_text:
  assumes m: "malloc_spec m" "malloc_total m"
  shows "length p < 2 ^ 63 \<Longrightarrow>
    (case args_text p of
       None \<Rightarrow> splitargs_loop m p vector = Some None
     | Some as \<Rightarrow> \<exists>rs. splitargs_loop m p vector = Some (Some (vector @ map Some rs))
          \<and> (\<forall>r \<in> set rs. sds_wf r) \<and> map content rs = as)"
proof (induction p arbitrary: vector rule: args_text.induct)
  case (1 p)
  note eqs = args_text.simps [of p] splitargs_loop.simps [of m p]
  have tot: "m n = None \<longleftrightarrow> False" for n using m(2) by (simp add: malloc_total_def)
  show ?case
  proof (cases "dropWhile isspace p")
    case Nil
    then have "args_text p = Some []" by (simp only: eqs list.case)
    moreover have "splitargs_loop m p vector = Some (Some vector)"
      unfolding eqs(2) Nil by (simp add: tot)
    ultimately show ?thesis by simp
  next
    case (Cons c t)
    obtain s where s: "sdsempty m = Some (Some s)" "sds_wf s" "content s = []"
      using sdsempty_ok [OF m] by (auto simp: sds_ok_def)
    have len: "length (c # t) \<le> length p" using length_dropWhile_le [of isspace p] Cons by simp
    note tok = token_loop_text [OF m s(2,3), of "c # t" Plain]
    show ?thesis
    proof (cases "token_text Plain (c # t) []")
      case None
      then show ?thesis using tok Cons s len "1.prems" by (simp add: eqs)
    next
      case (Some ar)
      then obtain a rest where ar: "token_text Plain (c # t) [] = Some (a, rest)" by (cases ar) auto
      from tok ar len "1.prems" obtain r where
        r: "token_loop m Plain (c # t) (Some s) = Some (Inr (Some r, rest))" "sds_wf r" "content r = a"
        by auto
      have "length rest < 2 ^ 63" using token_text_shorter [OF ar] len "1.prems" by simp
      note IH = "1.IH" [OF Cons ar refl this, of "vector @ [Some r]"]
      have step: "splitargs_loop m p vector = splitargs_loop m rest (vector @ [Some r])"
        using Cons s r by (simp add: eqs(2) tot)
      show ?thesis
      proof (cases "args_text rest")
        case None
        then show ?thesis using IH step Cons ar by (simp add: eqs(1))
      next
        case (Some as)
        then obtain rs where "splitargs_loop m rest (vector @ [Some r]) = Some (Some ((vector @ [Some r]) @ map Some rs))"
          "\<forall>r \<in> set rs. sds_wf r" "map content rs = as"
          using IH by auto
        then show ?thesis
          using Some step Cons ar r by (auto simp: eqs(1) intro!: exI [of _ "r # rs"])
      qed
    qed
  qed
qed

lemma hex_digit_read:
  "d < 16 \<Longrightarrow> is_hex_digit (hex_digit False d) \<and> hex_digit_to_int (hex_digit False d) = d"
  by (auto simp: hex_digit_def digit_char_def is_hex_digit_def hex_digit_to_int_def isdigit_def)

lemma arg_step_repr: "arg_step InQ (repr_char c @ t) = Append c t"
proof (cases "\<exists>x y. repr_char c = [BSLASH, CHR ''x'', x, y]")
  case True
  then have "repr_char c = [BSLASH, CHR ''x'', hex_digit False (byte_val c div 16), hex_digit False (byte_val c mod 16)]"
    by (auto simp: repr_char_def split: if_splits)
  moreover have "byte_val c div 16 * 16 + byte_val c mod 16 = byte_val c"
    by (rule div_mult_mod_eq)
  ultimately show ?thesis
    using hex_digit_read [OF byte_nibbles(1), of c] hex_digit_read [OF byte_nibbles(2), of c]
    by (simp add: arg_step_def hex_escape_def numeral_3_eq_3)
next
  case False
  then show ?thesis
    by (auto simp: repr_char_def arg_step_def hex_escape_def unescape_def split: if_splits)
qed

lemma token_text_repr:
  "rest = [] \<or> isspace (hd rest) \<Longrightarrow>
   token_text InQ (concat (map repr_char p) @ QUOT # rest) acc = Some (acc @ p, rest)"
proof (induction p arbitrary: acc)
  case Nil
  then show ?case
    by (auto simp: token_text.simps [of InQ "QUOT # rest"] arg_step_def close_quote_def)
next
  case (Cons c p)
  then show ?case
    using arg_step_repr [of c "concat (map repr_char p) @ QUOT # rest"]
    by (simp add: token_text.simps [of InQ "repr_char c @ _"])
qed

lemma args_text_repr: "args_text (join_text '' '' (map repr_text ps)) = Some ps"
proof (induction ps)
  case Nil
  then show ?case by (simp add: args_text.simps [of "[]"])
next
  case (Cons p ps)
  define rest where "rest = (if ps = [] then [] else '' '' @ join_text '' '' (map repr_text ps))"
  have line: "join_text '' '' (map repr_text (p # ps)) = QUOT # concat (map repr_char p) @ QUOT # rest"
    by (simp add: repr_text_def rest_def)
  have "rest = [] \<or> isspace (hd rest)" by (simp add: rest_def isspace_def)
  then have "token_text Plain (QUOT # concat (map repr_char p) @ QUOT # rest) [] = Some (p, rest)"
    using token_text_repr [of rest p "[]"] by (simp add: token_text.simps [of Plain] arg_step_def)
  moreover have "args_text rest = args_text (join_text '' '' (map repr_text ps))"
    by (simp add: rest_def args_text.simps [of "CHR '' '' # _"] args_text.simps [of "join_text _ _"] args_text.simps [of "[]"] isspace_def)
  moreover have "\<not> isspace QUOT" by (simp add: isspace_def)
  ultimately show ?case
    using Cons unfolding line by (simp add: args_text.simps [of "QUOT # _"])
qed

section \<open>What the text operations promise\<close>

text \<open>\<open>sdsll2str\<close>, \<open>sdsull2str\<close> and \<open>sdsfromlonglong\<close> print exactly the decimal numeral of a 64-bit
  integer (but \<open>LLONG_MIN\<close>, whose negation is undefined): the numeral and its terminator fit the
  buffer of \<open>SDS_LLSTR_SIZE\<close> bytes, the returned length is that of the numeral, and the in-place
  reversal leaves the bytes behind the terminator alone.\<close>

theorem sds_number_text:
  assumes "malloc_spec m" and "malloc_total m" and "length buf = SDS_LLSTR_SIZE"
    and "- (2 ^ 63) < v" and "v < 2 ^ 63" and "n < 2 ^ 64"
  shows "sdsll2str buf v = Some (dec_int v @ NUL # drop (length (dec_int v) + 1) buf, length (dec_int v)) \<and>
    sdsull2str buf n = Some (dec_nat n @ NUL # drop (length (dec_nat n) + 1) buf, length (dec_nat n)) \<and>
    (\<exists>r. sdsfromlonglong m v = Some (Some r) \<and> sds_wf r \<and> content r = dec_int v)"
  using sdsll2str_dec [of v buf] sdsull2str_dec [of n buf] length_dec_int64 [of v] length_dec_nat64 [of n]
    sds_postD [OF sdsfromlonglong_post [OF assms(1,4,5)] assms(2)] assms
  by (simp, metis)

theorem sds_number_text_witness:
  "\<exists>r. sdsll2str (replicate SDS_LLSTR_SIZE NUL) (-42) =
      Some (dec_int (-42) @ NUL # drop (length (dec_int (-42)) + 1) (replicate SDS_LLSTR_SIZE NUL), length (dec_int (-42)))
    \<and> sdsfromlonglong zero_malloc (-42) = Some (Some r) \<and> content r = dec_int (-42)"
  using sds_number_text [of zero_malloc "replicate SDS_LLSTR_SIZE NUL" "-42" 7] by auto

text \<open>C35. \<open>sdscatprintf\<close> and \<open>sdscatvprintf\<close> append what \<open>vsnprintf\<close> prints (up to a NUL in it), however
  often the buffer has to be doubled to hold it; \<open>sdscatfmt\<close> appends the expansion of its own
  directives.  Neither leaves the string's block, although \<open>sdscatfmt\<close> has no terminator in place
  while it runs.\<close>

theorem sds_formatted_append:
  assumes "malloc_spec m" and "malloc_total m" and "sds_wf s"
    and "vprintf_text fl (cstr fmt) args = Some t" and "sdslen s + length t < 2 ^ 31"
    and "fmt_text (cstr fmt') args' = Some t'" and "sdslen s + length t' < 2 ^ 31"
  shows "(\<exists>r. sdscatprintf m fl s fmt args = Some (Some r) \<and> sds_wf r \<and> content r = content s @ cstr t) \<and>
    (\<exists>r. sdscatfmt m s fmt' args' = Some (Some r) \<and> sds_wf r \<and> content r = content s @ t')"
proof -
  have "length t < 2 ^ 31" "sds_small (sdslen s + length t)" using assms(5) by (simp_all add: sds_small_def)
  from sds_postD [OF sdscatvprintf_post [OF assms(1,3,4) this] assms(2)]
  show ?thesis using sdscatfmt_text [OF assms(1,2,3,6,7)] unfolding sdscatprintf_def by blast
qed

theorem sds_formatted_append_witness:
  "(\<exists>r. sdscatprintf zero_malloc (\<lambda>_ _. []) sample_sds ''n=%d'' [CInt 7] = Some (Some r) \<and> sds_wf r \<and>
       content r = '' a-b n=7'') \<and>
   (\<exists>r. sdscatfmt zero_malloc sample_sds ''*%s'' [CStr ''xy''] = Some (Some r) \<and> sds_wf r \<and>
       content r = '' a-b *xy'')"
proof -
  have c: "cstr ''n=%d'' = ''n=%d''" "cstr ''*%s'' = ''*%s''" "cstr ''n=7'' = ''n=7''"
    by (simp_all add: cstr_def)
  have "vprintf_text (\<lambda>_ _. []) (cstr ''n=%d'') [CInt 7] = Some ''n=7''"
    unfolding c by code_simp
  moreover have "fmt_text (cstr ''*%s'') [CStr ''xy''] = Some ''*xy''"
    unfolding c by code_simp
  ultimately show ?thesis
    using sds_formatted_append [of zero_malloc sample_sds "\<lambda>_ _. []" "''n=%d''" "[CInt 7]" "''n=7''"
      "''*%s''" "[CStr ''xy'']" "''*xy''"] c by simp
qed

text \<open>Splitting a nonempty string at a nonempty separator gives its pieces between the occurrences found
  from the left, in well-formed strings that fit the token array; joining them with the same
  separator gives the string back.\<close>

theorem sds_split_join:
  assumes "malloc_spec m" and "malloc_total m" and "sep \<noteq> []" and "s \<noteq> []" and "length s < 2 ^ 30"
  shows "\<exists>ts r. sdssplitlen m s (int (length s)) sep (int (length sep)) = Some (Some ts, Some (int (length ts))) \<and>
    map content ts = split_text sep s \<and>
    sdsjoinsds m ts sep (length sep) = Some (Some r) \<and> sds_wf r \<and> content r = s"
proof -
  obtain ts where ts: "sdssplitlen m s (int (length s)) sep (int (length sep)) = Some (Some ts, Some (int (length ts)))"
    "\<forall>t \<in> set ts. sds_wf t" "map content ts = split_text sep s"
    using sdssplitlen_text [OF assms] by blast
  moreover have "length (join_text sep (map content ts)) < 2 ^ 63"
    using ts(3) assms(5) by (simp add: join_split_text)
  ultimately show ?thesis
    using sdsjoinsds_text [OF assms(1,2) ts(2), of sep] by (auto simp: join_split_text sds_ok_def)
qed

theorem sds_split_join_witness:
  "\<exists>ts r. sdssplitlen zero_malloc ''foo_-_bar'' 9 ''_-_'' 3 = Some (Some ts, Some (int (length ts))) \<and>
     map content ts = split_text ''_-_'' ''foo_-_bar'' \<and>
     sdsjoinsds zero_malloc ts ''_-_'' 3 = Some (Some r) \<and> content r = ''foo_-_bar''"
  using sds_split_join [of zero_malloc "''_-_''" "''foo_-_bar''"] by (auto simp: numeral_3_eq_3)

text \<open>C34. Any list of byte strings, each quoted with \<open>sdscatrepr\<close> and written on one line with spaces between
  them, is read back by \<open>sdssplitargs\<close> as exactly that list: no byte is lost or misread, NUL, quotes,
  backslashes and unprintable bytes included.\<close>

theorem sds_quote_roundtrip:
  assumes "malloc_spec m" and "malloc_total m"
    and "length (join_text '' '' (map repr_text ps)) < 2 ^ 63"
  shows "(\<forall>p. length p < 2 ^ 60 \<longrightarrow> (\<exists>s r. sdsempty m = Some (Some s) \<and>
      sdscatrepr m fl s p (length p) = Some (Some r) \<and> content r = repr_text p)) \<and>
    (\<exists>rs. sdssplitargs m (join_text '' '' (map repr_text ps)) = Some (Some (map Some rs), int (length ps)) \<and>
      map content rs = ps)"
proof (intro conjI allI impI)
  fix p :: string assume p: "length p < 2 ^ 60"
  obtain s where s: "sdsempty m = Some (Some s)" "sds_wf s" "content s = []"
    using sdsempty_ok [OF assms(1,2)] by (auto simp: sds_ok_def)
  then have "length (content s) + 4 * length p + 2 < 2 ^ 63" using p by simp
  from sdscatrepr_text [OF assms(1,2) s(2) this, of fl]
  show "\<exists>s r. sdsempty m = Some (Some s) \<and> sdscatrepr m fl s p (length p) = Some (Some r) \<and> content r = repr_text p"
    using s by (auto simp: sds_ok_def)
next
  let ?line = "join_text '' '' (map repr_text ps)"
  have "NUL \<notin> set ?line"
  proof -
    have "NUL \<notin> set (repr_text p)" for p using repr_char_noNUL by (auto simp: repr_text_def)
    then show ?thesis by (induction ps) auto
  qed
  then have "cstr ?line = ?line" by (rule cstr_id)
  then show "\<exists>rs. sdssplitargs m ?line = Some (Some (map Some rs), int (length ps)) \<and> map content rs = ps"
    using splitargs_loop_text [OF assms, of "[]"] args_text_repr [of ps]
    by (auto simp: sdssplitargs_def)
qed

theorem sds_quote_roundtrip_witness:
  "\<exists>rs. sdssplitargs zero_malloc (join_text '' '' (map repr_text [''a'', [NUL, QUOT]])) = Some (Some (map Some rs), 2)
     \<and> map content rs = [''a'', [NUL, QUOT]]"
proof -
  have "length (join_text '' '' (map repr_text [''a'', [NUL, QUOT]])) < 2 ^ 63"
    by (simp add: repr_text_def repr_char_def)
  from sds_quote_roundtrip [of zero_malloc "[''a'', [NUL, QUOT]]", OF _ _ this] show ?thesis by simp
qed

end
