(* ===== verification/Format.thy ===== *)
theory Format
  imports Sds_Text Reply_Tree
begin

text \<open>
  Building commands, \<open>redis/hiredis.c\<close>: \<open>countDigits\<close>, \<open>bulklen\<close>, the \<open>printf\<close>-like
  \<open>redisvFormatCommand\<close> and \<open>redisFormatCommand\<close>, and the two functions that format an argument
  vector, into a \<open>malloc\<close>ed buffer and into an sds string.

  \<open>command_text\<close> is what a command with given arguments looks like on the wire; it is the encoding
  of an array of bulk strings, so the parser of \<open>Reply_Tree\<close> reads the arguments back.
  \<open>format_words\<close> says which arguments a format denotes.

  Buffer positions and totals are C \<open>int\<close>s: \<open>totlen\<close> is truncated after each addition.
\<close>

section \<open>Lengths\<close>

function countDigits_loop :: "nat \<Rightarrow> nat \<Rightarrow> nat" where
  "countDigits_loop v result =
     (if v < 10 then result
      else if v < 100 then result + 1
      else if v < 1000 then result + 2
      else if v < 10000 then result + 3
      else countDigits_loop (v div 10000) (result + 4))"
  by pat_completeness auto
termination
  by (relation "measure fst") auto

declare countDigits_loop.simps [simp del]

definition countDigits :: "nat \<Rightarrow> nat" where
  "countDigits v = countDigits_loop v 1"

definition bulklen :: "nat \<Rightarrow> nat" where
  "bulklen len = (1 + countDigits len + 2 + len + 2) mod 2 ^ 64"

section \<open>Writing into the command buffer\<close>

text \<open>The buffer and the position of the next byte.\<close>

type_synonym cmdbuf = "string \<times> nat"

definition put_bytes :: "cmdbuf \<Rightarrow> string \<Rightarrow> cmdbuf option" where
  "put_bytes b bs = do { buf \<leftarrow> mem_write (fst b) (snd b) bs; Some (buf, snd b + length bs) }"

text \<open>\<open>pos += sprintf(cmd + pos, fmt, ...)\<close>; the terminator is written too.\<close>

definition put_sprintf :: "cmdbuf \<Rightarrow> string \<Rightarrow> carg list \<Rightarrow> cmdbuf option" where
  "put_sprintf b fmt args =
     do { t \<leftarrow> vprintf_text (\<lambda>_ _. []) fmt args;
          buf \<leftarrow> mem_write (fst b) (snd b) (t @ [NUL]);
          Some (buf, snd b + length t) }"

text \<open>One argument: header, bytes, line end.\<close>

definition put_arg :: "cmdbuf \<Rightarrow> string \<Rightarrow> nat \<Rightarrow> cmdbuf option" where
  "put_arg b arg len =
     do { b1 \<leftarrow> put_sprintf b (''$%zu'' @ CRLF) [CSize len];
          bs \<leftarrow> mem_read arg 0 len;
          b2 \<leftarrow> put_bytes b1 bs;
          put_bytes b2 CRLF }"

fun put_args :: "cmdbuf \<Rightarrow> (string \<times> nat) list \<Rightarrow> cmdbuf option" where
  "put_args b [] = Some b"
| "put_args b ((arg, len) # as) = do { b1 \<leftarrow> put_arg b arg len; put_args b1 as }"

text \<open>
  The block at the end of \<open>redisvFormatCommand\<close> and of \<open>redisFormatCommandArgv\<close>: allocate
  \<open>totlen + 1\<close> bytes, write, check the length, terminate.  \<open>None\<close> inside is a failed allocation.
\<close>

definition build_command :: "allocator \<Rightarrow> int \<Rightarrow> int \<Rightarrow> (string \<times> nat) list \<Rightarrow> string option option" where
  "build_command m totlen argc args =
     (case m (nat (s32 (totlen + 1) mod 2 ^ 64)) of
        None \<Rightarrow> Some None
      | Some cmd \<Rightarrow> do {
          b1 \<leftarrow> put_sprintf (cmd, 0) (''*%d'' @ CRLF) [CInt argc];
          b2 \<leftarrow> put_args b1 args;
          if int (snd b2) \<noteq> totlen then None
          else do { b3 \<leftarrow> put_bytes b2 [NUL]; Some (Some (fst b3)) }
        })"

section \<open>Argument vectors\<close>

text \<open>The arguments with their lengths: \<open>argvlen[j]\<close>, or \<open>strlen(argv[j])\<close> without \<open>argvlen\<close>.\<close>

definition fmt_args :: "int \<Rightarrow> string list \<Rightarrow> nat list option \<Rightarrow> (string \<times> nat) list option" where
  "fmt_args argc argv argvlen =
     (let n = nat argc
      in if length argv < n then None
         else case argvlen of
                None \<Rightarrow> Some (map (\<lambda>a. (a, length (cstr a))) (take n argv))
              | Some ls \<Rightarrow> if length ls < n then None else Some (zip (take n argv) (take n ls)))"

text \<open>\<open>totlen\<close> in an \<open>int\<close>, and in an \<open>unsigned long long\<close>.\<close>

definition argv_totlen :: "int \<Rightarrow> (string \<times> nat) list \<Rightarrow> int" where
  "argv_totlen argc args =
     foldl (\<lambda>t (a, len). s32 (t + int (bulklen len))) (s32 (1 + int (countDigits (nat (argc mod 2 ^ 64))) + 2)) args"

definition argv_totlen64 :: "int \<Rightarrow> (string \<times> nat) list \<Rightarrow> nat" where
  "argv_totlen64 argc args =
     foldl (\<lambda>t (a, len). (t + bulklen len) mod 2 ^ 64) (1 + countDigits (nat (argc mod 2 ^ 64)) + 2) args"

text \<open>The returned length, and what \<open>*target\<close> points to, \<open>None\<close> when it is not set.\<close>

definition redisFormatCommandArgv ::
  "allocator \<Rightarrow> int \<Rightarrow> string list \<Rightarrow> nat list option \<Rightarrow> (int \<times> string option) option" where
  "redisFormatCommandArgv m argc argv argvlen =
     do { args \<leftarrow> fmt_args argc argv argvlen;
          let totlen = argv_totlen argc args;
          r \<leftarrow> build_command m totlen argc args;
          case r of
            None \<Rightarrow> Some (-1, None)
          | Some cmd \<Rightarrow> Some (totlen, Some cmd) }"

fun sds_put_args :: "allocator \<Rightarrow> (string \<times> nat) list \<Rightarrow> sds option option \<Rightarrow> sds option option" where
  "sds_put_args m [] cmd = cmd"
| "sds_put_args m ((arg, len) # as) cmd =
     sds_put_args m as
       (sds_deref (sds_deref (sds_deref cmd (\<lambda>s. sdscatfmt m s (''$%u'' @ CRLF) [CSize len]))
          (\<lambda>s. sdscatlen m s arg len)) (\<lambda>s. sdscatlen m s CRLF 2))"

definition redisFormatSdsCommandArgv ::
  "allocator \<Rightarrow> int \<Rightarrow> string list \<Rightarrow> nat list option \<Rightarrow> (int \<times> sds option) option" where
  "redisFormatSdsCommandArgv m argc argv argvlen =
     do { args \<leftarrow> fmt_args argc argv argvlen;
          let totlen = argv_totlen64 argc args;
          r \<leftarrow> sds_bind (sdsempty m) (\<lambda>cmd. sdsMakeRoomFor m cmd totlen);
          case r of
            None \<Rightarrow> Some (-1, None)
          | Some cmd0 \<Rightarrow> do {
              cmd \<leftarrow> sds_put_args m args (sdscatfmt m cmd0 (''*%i'' @ CRLF) [CInt argc]);
              s \<leftarrow> cmd;
              if sdslen s \<noteq> totlen then None else Some (s32 (int totlen), Some s)
            } }"

section \<open>Formats\<close>

text \<open>
  How the default branch of \<open>redisvFormatCommand\<close> reads a conversion specification, given what
  follows the percent sign: the argument it fetches and the number of bytes up to and including the
  conversion.  \<open>strchr\<close> finds the terminator in \<open>intfmts\<close>, so a specification cut off by the end
  of the format counts as valid, and the scan goes on behind the terminator (\<open>PastEnd\<close>).
\<close>

datatype conv_kind = KInt | KDouble | KLongLong | KLong

datatype detected = Valid conv_kind nat | Invalid | PastEnd

definition intfmts :: string where "intfmts = ''diouxX''"
definition dblfmts :: string where "dblfmts = ''eEfFgGaA''"

definition sized :: "conv_kind \<Rightarrow> nat \<Rightarrow> string \<Rightarrow> detected" where
  "sized k n s = (case s of [] \<Rightarrow> Invalid | y # _ \<Rightarrow> if y \<in> set intfmts then Valid k (n + 1) else Invalid)"

definition skip_precision :: "string \<Rightarrow> string" where
  "skip_precision s = (case s of x # t \<Rightarrow> if x = CHR ''.'' then dropWhile isdigit t else s | [] \<Rightarrow> s)"

definition detect :: "string \<Rightarrow> detected" where
  "detect t =
     (let p = skip_precision (dropWhile isdigit (dropWhile (\<lambda>c. c \<in> set printf_flags) t));
          n = length t - length p
      in case p of
           [] \<Rightarrow> PastEnd
         | x # xs \<Rightarrow>
             if x \<in> set intfmts then Valid KInt (n + 1)
             else if x \<in> set dblfmts then Valid KDouble (n + 1)
             else if take 2 p = ''hh'' then sized KInt (n + 2) (drop 2 p)
             else if x = CHR ''h'' then sized KInt (n + 1) xs
             else if take 2 p = ''ll'' then sized KLongLong (n + 2) (drop 2 p)
             else if x = CHR ''l'' then sized KLong (n + 1) xs
             else Invalid)"

text \<open>\<open>va_arg\<close> for the detected kind.\<close>

definition fetch :: "conv_kind \<Rightarrow> carg list \<Rightarrow> carg list option" where
  "fetch k args =
     (case args of
        [] \<Rightarrow> None
      | a # as \<Rightarrow>
          (case (k, a) of
             (KInt, CInt _) \<Rightarrow> Some as
           | (KDouble, CDouble _) \<Rightarrow> Some as
           | (KLongLong, CLongLong _) \<Rightarrow> Some as
           | (KLong, CLong _) \<Rightarrow> Some as
           | _ \<Rightarrow> None))"

text \<open>
  One directive, given what follows the percent sign: the new argument, what is left of the format
  and of the arguments; \<open>Inl\<close> is the jump to \<open>format_err\<close> or \<open>memory_err\<close>.  A specification of
  fourteen bytes or more appends nothing and is skipped only by two bytes.
\<close>

definition or_memory_err :: "sds option option \<Rightarrow> 'a \<Rightarrow> (int + sds \<times> 'a) option" where
  "or_memory_err r x =
     (case r of None \<Rightarrow> None | Some None \<Rightarrow> Some (Inl (-1)) | Some (Some s) \<Rightarrow> Some (Inr (s, x)))"

definition directive ::
  "allocator \<Rightarrow> float_text \<Rightarrow> char \<Rightarrow> string \<Rightarrow> carg list \<Rightarrow> sds \<Rightarrow> (int + sds \<times> string \<times> carg list) option" where
  "directive m fl y t args cur =
     (if y = CHR ''s'' then
        (case args of
           CStr a # as \<Rightarrow>
             or_memory_err (if 0 < length (cstr a) then sdscatlen m cur (cstr a) (length (cstr a))
                            else Some (Some cur)) (t, as)
         | _ \<Rightarrow> None)
      else if y = CHR ''b'' then
        (case args of
           CStr a # CSize n # as \<Rightarrow>
             or_memory_err (if 0 < n then sdscatlen m cur a n else Some (Some cur)) (t, as)
         | _ \<Rightarrow> None)
      else if y = CHR ''%'' then or_memory_err (sdscat m cur ''%'') (t, args)
      else
        case detect (y # t) of
          PastEnd \<Rightarrow> None
        | Invalid \<Rightarrow> Some (Inl (-2))
        | Valid k n \<Rightarrow>
            (case fetch k args of
               None \<Rightarrow> None
             | Some as \<Rightarrow>
                 if n + 1 < 16 - 2
                 then or_memory_err (sdscatvprintf m fl cur (CHR ''%'' # take n (y # t)) args)
                        (drop n (y # t), as)
                 else Some (Inr (cur, t, as))))"

record fmt_state =
  f_cur :: sds
  f_touched :: bool
  f_argv :: "sds list"
  f_totlen :: int

text \<open>\<open>curargv[argc++] = curarg; totlen += bulklen(sdslen(curarg));\<close>\<close>

definition push_arg :: "allocator \<Rightarrow> fmt_state \<Rightarrow> fmt_state option" where
  "push_arg m st =
     (if m (8 * (length (f_argv st) + 1)) = None then None
      else Some (st\<lparr>f_argv := f_argv st @ [f_cur st],
                    f_totlen := s32 (f_totlen st + int (bulklen (sdslen (f_cur st))))\<rparr>))"

lemma length_skip_precision: "length (skip_precision s) \<le> length s"
  by (auto simp: skip_precision_def le_SucI length_dropWhile_le split: list.split)

lemma detect_pos: "detect t = Valid k n \<Longrightarrow> 0 < n"
  by (auto simp: detect_def sized_def Let_def split: list.splits if_splits)

lemma directive_shorter: "directive m fl y t args cur = Some (Inr (s, t', as)) \<Longrightarrow> length t' \<le> length t"
  using detect_pos [of "y # t"]
  by (auto simp: directive_def or_memory_err_def split: if_splits list.splits carg.splits option.splits detected.splits)

function vformat_loop ::
  "allocator \<Rightarrow> float_text \<Rightarrow> string \<Rightarrow> carg list \<Rightarrow> fmt_state \<Rightarrow> (int + fmt_state) option" where
  "vformat_loop m fl [] args st = Some (Inr st)"
| "vformat_loop m fl (c # f) args st =
     (if c \<noteq> CHR ''%'' \<or> f = [] then
        (if c = CHR '' '' then
           (if f_touched st then
              (case push_arg m st of
                 None \<Rightarrow> Some (Inl (-1))
               | Some st1 \<Rightarrow>
                   (case sdsempty m of
                      None \<Rightarrow> None
                    | Some None \<Rightarrow> Some (Inl (-1))
                    | Some (Some s) \<Rightarrow> vformat_loop m fl f args (st1\<lparr>f_cur := s, f_touched := False\<rparr>)))
            else vformat_loop m fl f args st)
         else
           (case sdscatlen m (f_cur st) [c] 1 of
              None \<Rightarrow> None
            | Some None \<Rightarrow> Some (Inl (-1))
            | Some (Some s) \<Rightarrow> vformat_loop m fl f args (st\<lparr>f_cur := s, f_touched := True\<rparr>)))
      else
        (case directive m fl (hd f) (tl f) args (f_cur st) of
           None \<Rightarrow> None
         | Some (Inl e) \<Rightarrow> Some (Inl e)
         | Some (Inr (s, f', args')) \<Rightarrow> vformat_loop m fl f' args' (st\<lparr>f_cur := s, f_touched := True\<rparr>)))"
  by pat_completeness auto
termination
  by (relation "measure (\<lambda>(m, fl, f, args, st). length f)") (auto dest!: directive_shorter simp: neq_Nil_conv)

declare vformat_loop.simps [simp del]

definition redisvFormatCommand ::
  "allocator \<Rightarrow> float_text \<Rightarrow> string \<Rightarrow> carg list \<Rightarrow> (int \<times> string option) option" where
  "redisvFormatCommand m fl format ap =
     (case sdsempty m of
        None \<Rightarrow> None
      | Some None \<Rightarrow> Some (-1, None)
      | Some (Some cur) \<Rightarrow>
          (case vformat_loop m fl (cstr format) ap
                  \<lparr>f_cur = cur, f_touched = False, f_argv = [], f_totlen = 0\<rparr> of
             None \<Rightarrow> None
           | Some (Inl e) \<Rightarrow> Some (e, None)
           | Some (Inr st) \<Rightarrow>
               (case (if f_touched st then push_arg m st else Some st) of
                  None \<Rightarrow> Some (-1, None)
                | Some st1 \<Rightarrow>
                    let argc = length (f_argv st1);
                        totlen = s32 (f_totlen st1 + 1 + int (countDigits argc) + 2)
                    in do {
                      r \<leftarrow> build_command m totlen (int argc) (map (\<lambda>a. (sds_buf a, sdslen a)) (f_argv st1));
                      case r of
                        None \<Rightarrow> Some (-1, None)
                      | Some cmd \<Rightarrow> Some (totlen, Some cmd)
                    })))"

definition redisFormatCommand ::
  "allocator \<Rightarrow> float_text \<Rightarrow> string \<Rightarrow> carg list \<Rightarrow> (int \<times> string option) option" where
  "redisFormatCommand m fl format ap =
     do { (len, target) \<leftarrow> redisvFormatCommand m fl format ap;
          Some (if len < 0 then -1 else len, target) }"

section \<open>Commands on the wire\<close>

definition bulk_text :: "string \<Rightarrow> string" where
  "bulk_text s = ''$'' @ dec_nat (length s) @ CRLF @ s @ CRLF"

definition command_text :: "string list \<Rightarrow> string" where
  "command_text ws = ''*'' @ dec_nat (length ws) @ CRLF @ concat (map bulk_text ws)"

definition command_reply :: "string list \<Rightarrow> reply" where
  "command_reply ws = RArr (length ws) (map (RStr REDIS_REPLY_STRING) ws)"

lemma command_text_encode: "command_text ws = encode (command_reply ws)"
proof -
  have "concat (map bulk_text ws) = concat (map encode (map (RStr REDIS_REPLY_STRING) ws))" for ws
    by (induction ws) (simp_all add: bulk_text_def)
  then show ?thesis by (simp add: command_text_def command_reply_def)
qed

text \<open>The parser reads the arguments of a command back.\<close>

lemma parse_command:
  assumes "int (length ws) \<le> INT_MAX" and "\<forall>w \<in> set ws. length w < 2 ^ 63"
  shows "parse [] (command_text ws @ rest) = PDone (command_reply ws) rest"
proof -
  have "wf_reply (command_reply ws)"
    using assms by (auto simp: command_reply_def list_all_iff)
  moreover have "reply_depth (command_reply ws) \<le> 8"
  proof -
    have "fold max (map reply_depth (map (RStr REDIS_REPLY_STRING) ws)) 0 \<le> 0"
      by (subst fold_max_le) auto
    then show ?thesis by (simp add: command_reply_def)
  qed
  ultimately show ?thesis unfolding command_text_encode by (rule parse_encode)
qed

lemma countDigits_loop_dec: "countDigits_loop v k + 1 = length (dec_nat v) + k"
proof (induction v k rule: countDigits_loop.induct)
  case (1 v k)
  note l = length_dec_nat [of v] length_dec_nat [of "v div 10"] length_dec_nat [of "v div 10 div 10"]
    length_dec_nat [of "v div 10 div 10 div 10"]
  have d: "v div 10 div 10 = v div 100" "v div 100 div 10 = v div 1000" "v div 1000 div 10 = v div 10000"
    by (simp_all add: div_mult2_eq [symmetric])
  have b: "v div 10 < 10 \<longleftrightarrow> v < 100" "v div 100 < 10 \<longleftrightarrow> v < 1000" "v div 1000 < 10 \<longleftrightarrow> v < 10000"
    by (simp_all add: div_less_iff_less_mult)
  show ?case
    using 1 l by (simp add: countDigits_loop.simps [of v k] d b)
qed

lemma countDigits_dec: "countDigits v = length (dec_nat v)"
  using countDigits_loop_dec [of v 1] by (simp add: countDigits_def)

lemma bulklen_text: "length (bulk_text s) < 2 ^ 64 \<Longrightarrow> bulklen (length s) = length (bulk_text s)"
  by (simp add: bulklen_def bulk_text_def countDigits_dec)

lemma put_sprintf_ok:
  assumes "vprintf_text (\<lambda>_ _. []) fmt args = Some t" and "length t < length rest"
  shows "\<exists>rest'. put_sprintf (pre @ rest, length pre) fmt args = Some ((pre @ t) @ rest', length (pre @ t))
    \<and> length rest' + length t = length rest"
  using assms by (auto simp: put_sprintf_def mem_write_def intro!: exI [of _ "NUL # drop (length t + 1) rest"])

lemma put_bytes_ok:
  assumes "length t \<le> length rest"
  shows "\<exists>rest'. put_bytes (pre @ rest, length pre) t = Some ((pre @ t) @ rest', length (pre @ t))
    \<and> length rest' + length t = length rest"
  using assms by (auto simp: put_bytes_def mem_write_def intro!: exI [of _ "drop (length t) rest"])

lemma take_size_zu: "take_size (CHR ''z'' # CHR ''u'' # f) = (''z'', CHR ''u'' # f)"
  by (simp add: take_size_def)

lemma vprintf_zu:
  assumes "n < 2 ^ 64"
  shows "vprintf_text fl (''$%zu'' @ CRLF) [CSize n] = Some (''$'' @ dec_nat n @ CRLF)"
proof -
  have "nat (int n mod 2 ^ 64) = n" using assms by (simp add: nat_mod_as_int)
  then show ?thesis
    by (simp add: parse_spec_def printf_flags_def isdigit_def take_size_zu conv_text_def
      size_bits_def unsigned_text_def Let_def prec_digits_def pad_field_def radix_10)
qed

lemma vprintf_d:
  assumes "0 \<le> v" "v < 2 ^ 31"
  shows "vprintf_text fl (''*%d'' @ CRLF) [CInt v] = Some (''*'' @ dec_nat (nat v) @ CRLF)"
proof -
  have "trunc_signed 32 v = v" using assms by (simp add: trunc_signed_def)
  then show ?thesis
    using assms by (simp add: parse_spec_def printf_flags_def isdigit_def take_size_def conv_text_def
      size_bits_def signed_text_def Let_def prec_digits_def pad_field_def)
qed

lemma put_arg_ok:
  assumes s: "take len arg = s" "len \<le> length arg" "len < 2 ^ 64"
    and room: "length (bulk_text s) < length rest"
  shows "\<exists>rest'. put_arg (pre @ rest, length pre) arg len = Some ((pre @ bulk_text s) @ rest', length (pre @ bulk_text s))
    \<and> length rest' + length (bulk_text s) = length rest"
proof -
  have l: "length s = len" using s by auto
  have f: "vprintf_text (\<lambda>_ _. []) (''$%zu'' @ CRLF) [CSize len] = Some (''$'' @ dec_nat len @ CRLF)"
    by (rule vprintf_zu [OF s(3)])
  obtain r1 where r1: "put_sprintf (pre @ rest, length pre) (''$%zu'' @ CRLF) [CSize len]
      = Some ((pre @ ''$'' @ dec_nat len @ CRLF) @ r1, length (pre @ ''$'' @ dec_nat len @ CRLF))"
    "length r1 + length (''$'' @ dec_nat len @ CRLF) = length rest"
    using put_sprintf_ok [OF f, of rest pre] room l by (auto simp: bulk_text_def)
  obtain r2 where r2: "put_bytes ((pre @ ''$'' @ dec_nat len @ CRLF) @ r1, length (pre @ ''$'' @ dec_nat len @ CRLF)) s
      = Some (((pre @ ''$'' @ dec_nat len @ CRLF) @ s) @ r2, length ((pre @ ''$'' @ dec_nat len @ CRLF) @ s))"
    "length r2 + length s = length r1"
    using put_bytes_ok [of s r1 "pre @ ''$'' @ dec_nat len @ CRLF"] r1(2) room l by (auto simp: bulk_text_def)
  obtain r3 where r3: "put_bytes (((pre @ ''$'' @ dec_nat len @ CRLF) @ s) @ r2, length ((pre @ ''$'' @ dec_nat len @ CRLF) @ s)) CRLF
      = Some ((((pre @ ''$'' @ dec_nat len @ CRLF) @ s) @ CRLF) @ r3, length (((pre @ ''$'' @ dec_nat len @ CRLF) @ s) @ CRLF))"
    "length r3 + length CRLF = length r2"
    using put_bytes_ok [of CRLF r2 "(pre @ ''$'' @ dec_nat len @ CRLF) @ s"] r1(2) r2(2) room l by (auto simp: bulk_text_def)
  have rd: "mem_read arg 0 len = Some s" using s by (simp add: mem_read_def)
  show ?thesis
    unfolding put_arg_def r1(1) rd
    using r1(2) r2 r3 l by (intro exI [of _ r3]) (simp add: bulk_text_def)
qed

definition arg_bytes :: "(string \<times> nat) list \<Rightarrow> string list" where
  "arg_bytes args = map (\<lambda>(a, n). take n a) args"

definition args_ok :: "(string \<times> nat) list \<Rightarrow> bool" where
  "args_ok args \<longleftrightarrow> (\<forall>(a, n) \<in> set args. n \<le> length a)"

lemma put_args_ok:
  "args_ok args \<Longrightarrow> length (concat (map bulk_text (arg_bytes args))) < length rest \<Longrightarrow> length rest < 2 ^ 64 \<Longrightarrow>
   \<exists>rest'. put_args (pre @ rest, length pre) args
      = Some ((pre @ concat (map bulk_text (arg_bytes args))) @ rest', length (pre @ concat (map bulk_text (arg_bytes args))))
    \<and> length rest' + length (concat (map bulk_text (arg_bytes args))) = length rest"
proof (induction args arbitrary: pre rest)
  case Nil
  then show ?case by (simp add: arg_bytes_def)
next
  case (Cons an args)
  obtain a n where an: "an = (a, n)" by (cases an)
  let ?s = "take n a"
  have n: "n \<le> length a" using Cons.prems(1) an by (simp add: args_ok_def)
  have "length (bulk_text ?s) < length rest" using Cons.prems(2) an by (simp add: arg_bytes_def)
  moreover have "n < 2 ^ 64"
    using calculation n Cons.prems(3) by (simp add: bulk_text_def)
  ultimately obtain r1 where r1: "put_arg (pre @ rest, length pre) a n
      = Some ((pre @ bulk_text ?s) @ r1, length (pre @ bulk_text ?s))"
    "length r1 + length (bulk_text ?s) = length rest"
    using put_arg_ok [of n a ?s rest pre] n by auto
  have "args_ok args" "length (concat (map bulk_text (arg_bytes args))) < length r1" "length r1 < 2 ^ 64"
    using Cons.prems r1(2) an by (auto simp: args_ok_def arg_bytes_def)
  from Cons.IH [OF this, of "pre @ bulk_text ?s"] show ?case
    using r1 an by (auto simp: arg_bytes_def)
qed

lemma length_command_text: "length (command_text ws)
    = 1 + length (dec_nat (length ws)) + 2 + sum_list (map (length \<circ> bulk_text) ws)"
  by (simp add: command_text_def length_concat comp_def)

lemma length_bulks: "length ws \<le> length (concat (map bulk_text ws))"
  by (induction ws) (simp_all add: bulk_text_def)

lemma build_command_ok:
  assumes m: "malloc_spec m" "malloc_total m" and ok: "args_ok args"
    and argc: "argc = int (length args)"
    and tot: "totlen = int (length (command_text (arg_bytes args)))" and small: "totlen < 2 ^ 31 - 1"
  shows "build_command m totlen argc args = Some (Some (command_text (arg_bytes args) @ [NUL]))"
proof -
  let ?ws = "arg_bytes args"
  let ?n = "length (command_text ?ws)"
  have lw: "length ?ws = length args" by (simp add: arg_bytes_def)
  have "nat (s32 (totlen + 1) mod 2 ^ 64) = ?n + 1"
    using tot small by (simp add: s32_id nat_mod_as_int)
  moreover obtain cmd where cmd: "m (?n + 1) = Some cmd" "length cmd = ?n + 1"
    using m unfolding malloc_total_def malloc_spec_def by (metis not_None_eq)
  let ?hd = "''*'' @ dec_nat (length args) @ CRLF"
  have body: "command_text ?ws = ?hd @ concat (map bulk_text ?ws)"
    by (simp add: command_text_def lw)
  have "int (length args) < 2 ^ 31"
    using tot small lw length_bulks [of ?ws] by (simp add: command_text_def)
  then have f: "vprintf_text (\<lambda>_ _. []) (''*%d'' @ CRLF) [CInt argc] = Some ?hd"
    using argc vprintf_d [of argc] by simp
  obtain r1 where r1: "put_sprintf (cmd, 0) (''*%d'' @ CRLF) [CInt argc] = Some (?hd @ r1, length ?hd)"
    "length r1 + length ?hd = ?n + 1"
    using put_sprintf_ok [OF f, of cmd "[]"] cmd body by auto
  have "length (concat (map bulk_text ?ws)) < length r1" "length r1 < 2 ^ 64"
    using r1(2) body tot small by auto
  from put_args_ok [OF ok this, of ?hd] obtain r2 where
    r2: "put_args (?hd @ r1, length ?hd) args = Some (command_text ?ws @ r2, ?n)" "length r2 + ?n = length cmd"
    using r1(2) body cmd by auto
  then have "length [NUL] \<le> length r2" using cmd by simp
  from put_bytes_ok [OF this, of "command_text ?ws"] obtain r3 where
    "put_bytes (command_text ?ws @ r2, ?n) [NUL] = Some ((command_text ?ws @ [NUL]) @ r3, ?n + 1)" "r3 = []"
    using r2(2) cmd by auto
  ultimately show ?thesis
    using cmd r1(1) r2(1) tot by (simp add: build_command_def)
qed

lemma arg_bytes_Nil [simp]: "arg_bytes [] = []"
  by (simp add: arg_bytes_def)

lemma arg_bytes_Cons [simp]: "arg_bytes ((a, n) # args) = take n a # arg_bytes args"
  by (simp add: arg_bytes_def)

lemma length_arg_bytes [simp]: "length (arg_bytes args) = length args"
  by (simp add: arg_bytes_def)

lemma bulklen_arg: "n \<le> length a \<Longrightarrow> length (bulk_text (take n a)) < 2 ^ 64 \<Longrightarrow>
    bulklen n = length (bulk_text (take n a))"
  using bulklen_text [of "take n a"] by simp

lemma totlen_fold:
  assumes f: "\<And>t a n. g t (a, n) = h (t + int (bulklen n))"
    and h: "\<And>x. 0 \<le> x \<Longrightarrow> x < B \<Longrightarrow> h x = x" and B: "B \<le> 2 ^ 64"
  shows "args_ok args \<Longrightarrow> 0 \<le> t \<Longrightarrow> t + int (sum_list (map (length \<circ> bulk_text) (arg_bytes args))) < B \<Longrightarrow>
    foldl g t args = t + int (sum_list (map (length \<circ> bulk_text) (arg_bytes args)))"
proof (induction args arbitrary: t)
  case (Cons an args)
  obtain a n where an: "an = (a, n)" by (cases an)
  have n: "n \<le> length a" and ok: "args_ok args" using Cons.prems(1) an by (auto simp: args_ok_def)
  have "length (bulk_text (take n a)) < 2 ^ 64"
    using Cons.prems(2,3) B an by simp
  then have b: "bulklen n = length (bulk_text (take n a))" by (rule bulklen_arg [OF n])
  have "g t (a, n) = t + int (length (bulk_text (take n a)))"
    using Cons.prems(2,3) an by (simp add: f b h)
  then show ?case
    using Cons.IH [OF ok, of "t + int (length (bulk_text (take n a)))"] Cons.prems(2,3) an by simp
qed simp

lemma argv_totlen_text:
  assumes ok: "args_ok args" and argc: "argc = int (length args)"
    and small: "length (command_text (arg_bytes args)) < 2 ^ 31 - 1"
  shows "argv_totlen argc args = int (length (command_text (arg_bytes args)))"
proof -
  have n: "nat (argc mod 2 ^ 64) = length args"
  proof -
    have "length args \<le> sum_list (map (length \<circ> bulk_text) (arg_bytes args))"
      by (induction args) (auto simp: bulk_text_def)
    then have "int (length args) < 2 ^ 64" using small by (simp add: length_command_text)
    then show ?thesis using argc by simp
  qed
  have s: "s32 (1 + int (countDigits (length args)) + 2) = 1 + int (countDigits (length args)) + 2"
    using small by (intro s32_id) (simp_all add: length_command_text countDigits_dec)
  have id: "0 \<le> x \<Longrightarrow> x < 2 ^ 31 \<Longrightarrow> s32 x = x" for x by (simp add: s32_id)
  have "foldl (\<lambda>t (a, len). s32 (t + int (bulklen len))) (1 + int (countDigits (length args)) + 2) args
    = 1 + int (countDigits (length args)) + 2 + int (sum_list (map (length \<circ> bulk_text) (arg_bytes args)))"
    using small by (intro totlen_fold [where h = s32, OF _ id _ ok])
      (auto simp: length_command_text countDigits_dec)
  then show ?thesis
    unfolding argv_totlen_def n s by (simp add: length_command_text countDigits_dec)
qed

text \<open>The arguments that \<open>argv\<close> and \<open>argvlen\<close> denote.\<close>

definition argv_bytes :: "string list \<Rightarrow> nat list option \<Rightarrow> string list" where
  "argv_bytes argv argvlen =
     (case argvlen of None \<Rightarrow> map cstr argv | Some ls \<Rightarrow> map (\<lambda>(a, n). take n a) (zip argv ls))"

definition argv_ok :: "string list \<Rightarrow> nat list option \<Rightarrow> bool" where
  "argv_ok argv argvlen \<longleftrightarrow>
     (case argvlen of None \<Rightarrow> True
      | Some ls \<Rightarrow> length ls = length argv \<and> (\<forall>(a, n) \<in> set (zip argv ls). n \<le> length a))"

lemma take_length_cstr: "take (length (cstr a)) a = cstr a"
  by (simp add: cstr_def takeWhile_eq_take [symmetric])

lemma length_cstr_le: "length (cstr a) \<le> length a"
  by (simp add: cstr_def length_takeWhile_le)

lemma fmt_args_ok:
  assumes "argv_ok argv argvlen"
  shows "\<exists>args. fmt_args (int (length argv)) argv argvlen = Some args \<and> args_ok args \<and>
    arg_bytes args = argv_bytes argv argvlen \<and> length args = length argv"
  using assms
  by (auto simp: fmt_args_def argv_ok_def args_ok_def arg_bytes_def argv_bytes_def take_length_cstr
      length_cstr_le split: option.splits)

lemma redisFormatCommandArgv_text:
  assumes m: "malloc_spec m" "malloc_total m" and ok: "argv_ok argv argvlen"
    and small: "length (command_text (argv_bytes argv argvlen)) < 2 ^ 31 - 1"
  shows "redisFormatCommandArgv m (int (length argv)) argv argvlen
    = Some (int (length (command_text (argv_bytes argv argvlen))), Some (command_text (argv_bytes argv argvlen) @ [NUL]))"
proof -
  obtain args where args: "fmt_args (int (length argv)) argv argvlen = Some args" "args_ok args"
    "arg_bytes args = argv_bytes argv argvlen" "length args = length argv"
    using fmt_args_ok [OF ok] by blast
  have t: "argv_totlen (int (length argv)) args = int (length (command_text (arg_bytes args)))"
    using argv_totlen_text [OF args(2)] args small by simp
  have "build_command m (int (length (command_text (arg_bytes args)))) (int (length argv)) args
      = Some (Some (command_text (arg_bytes args) @ [NUL]))"
    using build_command_ok [OF m args(2) _ refl, of "int (length argv)"] args small by simp
  then show ?thesis
    using args t by (simp add: redisFormatCommandArgv_def)
qed

section \<open>The sds variant\<close>

lemma sdscatfmt_ok:
  assumes "malloc_spec m" "malloc_total m" "sds_wf s" "fmt_text (cstr fmt) args = Some t"
    and "length (content s) + length t < 2 ^ 31"
  shows "sds_ok (sdscatfmt m s fmt args) (content s @ t)"
  using sdscatfmt_text [OF assms(1-4)] assms(3,5) by (simp add: sds_ok_def)

lemma fmt_text_u:
  "fmt_text (cstr (''$%u'' @ CRLF)) [CSize n] = Some (''$'' @ dec_nat (n mod 2 ^ 32) @ CRLF)"
  by (simp add: cstr_def)

lemma fmt_text_i:
  "0 \<le> v \<Longrightarrow> v < 2 ^ 31 \<Longrightarrow>
   fmt_text (cstr (''*%i'' @ CRLF)) [CInt v] = Some (''*'' @ dec_nat (nat v) @ CRLF)"
  by (simp add: cstr_def s32_id dec_int_def)

lemma sds_put_args_ok:
  assumes m: "malloc_spec m" "malloc_total m"
  shows "args_ok args \<Longrightarrow> sds_ok cmd t \<Longrightarrow> length (t @ concat (map bulk_text (arg_bytes args))) < 2 ^ 31 \<Longrightarrow>
    sds_ok (sds_put_args m args cmd) (t @ concat (map bulk_text (arg_bytes args)))"
proof (induction args arbitrary: cmd t)
  case (Cons an args)
  obtain a n where an: "an = (a, n)" by (cases an)
  have n: "n \<le> length a" and ok: "args_ok args" using Cons.prems(1) an by (auto simp: args_ok_def)
  let ?s = "take n a" and ?h = "''$'' @ dec_nat n @ CRLF"
  have l: "length t + length ?h + length ?s + 2 < 2 ^ 31" "n < 2 ^ 32"
    using Cons.prems(3) an n by (auto simp: bulk_text_def)
  have 1: "sds_ok (sds_deref cmd (\<lambda>s. sdscatfmt m s (''$%u'' @ CRLF) [CSize n])) (t @ ?h)"
  proof (rule sds_ok_deref [OF Cons.prems(2)])
    fix s assume s: "sds_wf s" "content s = t"
    have f: "fmt_text (cstr (''$%u'' @ CRLF)) [CSize n] = Some ?h" unfolding fmt_text_u using l by simp
    from sdscatfmt_ok [OF m s(1) f] s(2) l
    show "sds_ok (sdscatfmt m s (''$%u'' @ CRLF) [CSize n]) (t @ ?h)" by simp
  qed
  have 2: "sds_ok (sds_deref (sds_deref cmd (\<lambda>s. sdscatfmt m s (''$%u'' @ CRLF) [CSize n])) (\<lambda>s. sdscatlen m s a n))
      ((t @ ?h) @ ?s)"
  proof (rule sds_ok_deref [OF 1])
    fix s assume s: "sds_wf s" "content s = t @ ?h"
    have "sdslen s = length (t @ ?h)" using s by (metis length_content)
    then have "sds_small (sdslen s + n)" using l n by (simp add: sds_small_def)
    from sds_okI [OF sdscatlen_post [OF m(1) s(1) this n] m(2)] s(2)
    show "sds_ok (sdscatlen m s a n) ((t @ ?h) @ ?s)" by simp
  qed
  have 3: "sds_ok (sds_deref (sds_deref (sds_deref cmd (\<lambda>s. sdscatfmt m s (''$%u'' @ CRLF) [CSize n]))
      (\<lambda>s. sdscatlen m s a n)) (\<lambda>s. sdscatlen m s CRLF 2)) (((t @ ?h) @ ?s) @ CRLF)"
  proof (rule sds_ok_deref [OF 2])
    fix s assume s: "sds_wf s" "content s = (t @ ?h) @ ?s"
    have two: "length CRLF = 2" by simp
    have "sds_ok (sdscatlen m s CRLF (length CRLF)) (content s @ CRLF)"
      using s(2) l by (intro sdscatlen_ok [OF m s(1)]) simp
    then show "sds_ok (sdscatlen m s CRLF 2) (((t @ ?h) @ ?s) @ CRLF)" by (simp only: s(2) two)
  qed
  have e: "((t @ ?h) @ ?s) @ CRLF = t @ bulk_text ?s" using n by (simp add: bulk_text_def)
  from Cons.IH [OF ok 3 [unfolded e]] Cons.prems(3) an show ?case by simp
qed simp

lemma redisFormatSdsCommandArgv_text:
  assumes m: "malloc_spec m" "malloc_total m" and ok: "argv_ok argv argvlen"
    and small: "length (command_text (argv_bytes argv argvlen)) < 2 ^ 31"
  shows "\<exists>s. redisFormatSdsCommandArgv m (int (length argv)) argv argvlen
      = Some (int (length (command_text (argv_bytes argv argvlen))), Some s)
    \<and> sds_wf s \<and> content s = command_text (argv_bytes argv argvlen)"
proof -
  obtain args where args: "fmt_args (int (length argv)) argv argvlen = Some args" "args_ok args"
    "arg_bytes args = argv_bytes argv argvlen" "length args = length argv"
    using fmt_args_ok [OF ok] by blast
  let ?c = "command_text (arg_bytes args)" and ?n = "length argv"
  have small': "length ?c < 2 ^ 31" using args small by simp
  have n: "?n < 2 ^ 31"
    using length_bulks [of "arg_bytes args"] small' args(4) by (simp add: command_text_def)
  have tot: "argv_totlen64 (int ?n) args = length ?c"
  proof -
    have 0: "nat (int ?n mod 2 ^ 64) = ?n" using n by simp
    have id: "0 \<le> x \<Longrightarrow> x < 2 ^ 31 \<Longrightarrow> x mod 2 ^ 64 = x" for x :: int by simp
    have "foldl (\<lambda>t (a, len). (t + int (bulklen len)) mod 2 ^ 64) (1 + int (countDigits ?n) + 2) args
      = 1 + int (countDigits ?n) + 2 + int (sum_list (map (length \<circ> bulk_text) (arg_bytes args)))"
      using small' args(4) by (intro totlen_fold [where h = "\<lambda>x. x mod 2 ^ 64", OF _ id _ args(2)])
        (auto simp: length_command_text countDigits_dec)
    moreover have "int (foldl (\<lambda>t (a, len). (t + bulklen len) mod 2 ^ 64) k as)
        = foldl (\<lambda>t (a, len). (t + int (bulklen len)) mod 2 ^ 64) (int k) as" for k and as :: "(string \<times> nat) list"
    proof (induction as arbitrary: k)
      case (Cons x as)
      then show ?case by (cases x) (simp add: zmod_int)
    qed simp
    ultimately have "int (argv_totlen64 (int ?n) args) = int (length ?c)"
      unfolding argv_totlen64_def 0 using args(4) by (simp add: length_command_text countDigits_dec)
    then show ?thesis by (simp only: of_nat_eq_iff)
  qed
  obtain s0 where s0: "sdsempty m = Some (Some s0)" "sds_wf s0" "content s0 = []"
    using sdsempty_ok [OF m] by (auto simp: sds_ok_def)
  have "sds_small (sdslen s0 + length ?c)"
  proof -
    have "sdslen s0 = 0" using s0 by (metis length_content list.size(3))
    then show ?thesis using small' by (simp add: sds_small_def)
  qed
  from sds_postD [OF sdsMakeRoomFor_post [OF m(1) s0(2) this] m(2)] obtain s1 where
    s1: "sdsMakeRoomFor m s0 (length ?c) = Some (Some s1)" "sds_wf s1" "content s1 = []"
    using s0(3) by auto
  have "fmt_text (cstr (''*%i'' @ CRLF)) [CInt (int ?n)] = Some (''*'' @ dec_nat ?n @ CRLF)"
    using fmt_text_i [of "int ?n"] n by simp
  then have "sds_ok (sdscatfmt m s1 (''*%i'' @ CRLF) [CInt (int ?n)]) (''*'' @ dec_nat ?n @ CRLF)"
    using sdscatfmt_ok [OF m s1(2)] s1(3) small' args(4) by (fastforce simp: command_text_def)
  from sds_put_args_ok [OF m args(2) this] small' obtain s where
    s: "sds_put_args m args (sdscatfmt m s1 (''*%i'' @ CRLF) [CInt (int ?n)]) = Some (Some s)" "sds_wf s"
    "content s = ?c"
    using args(4) by (auto simp: command_text_def sds_ok_def)
  have "sdslen s = length ?c" using s by (metis length_content)
  then show ?thesis
    using args s s0 s1 tot small'
    by (simp add: redisFormatSdsCommandArgv_def sds_bind_def s32_id)
qed

section \<open>What a format denotes\<close>

text \<open>
  The text a directive appends.  No promise (\<open>None\<close>) is made where the code is undefined, nor
  for an argument that reaches \<open>2 ^ 31\<close> bytes.
\<close>

definition directive_text ::
  "float_text \<Rightarrow> char \<Rightarrow> string \<Rightarrow> carg list \<Rightarrow> (int + string \<times> string \<times> carg list) option" where
  "directive_text fl y t args =
     (if y = CHR ''s'' then
        (case args of CStr a # as \<Rightarrow> Some (Inr (cstr a, t, as)) | _ \<Rightarrow> None)
      else if y = CHR ''b'' then
        (case args of
           CStr a # CSize n # as \<Rightarrow> if n \<le> length a then Some (Inr (take n a, t, as)) else None
         | _ \<Rightarrow> None)
      else if y = CHR ''%'' then Some (Inr (''%'', t, args))
      else
        case detect (y # t) of
          PastEnd \<Rightarrow> None
        | Invalid \<Rightarrow> Some (Inl (-2))
        | Valid k n \<Rightarrow>
            (case fetch k args of
               None \<Rightarrow> None
             | Some as \<Rightarrow>
                 if n + 1 < 14 then
                   (case vprintf_text fl (cstr (CHR ''%'' # take n (y # t))) args of
                      None \<Rightarrow> None
                    | Some p \<Rightarrow> if length p < 2 ^ 31 then Some (Inr (cstr p, drop n (y # t), as)) else None)
                 else Some (Inr ([], t, as))))"

lemma directive_text_shorter: "directive_text fl y t args = Some (Inr (s, t', as)) \<Longrightarrow> length t' \<le> length t"
  using detect_pos [of "y # t"]
  by (auto simp: directive_text_def split: if_splits list.splits carg.splits option.splits detected.splits)

text \<open>The words of a format, given the word begun so far; \<open>Some None\<close> is a format error.\<close>

function format_words :: "float_text \<Rightarrow> string \<Rightarrow> carg list \<Rightarrow> string \<Rightarrow> bool \<Rightarrow> string list option option" where
  "format_words fl [] args cur touched = Some (Some (if touched then [cur] else []))"
| "format_words fl (c # f) args cur touched =
     (if c \<noteq> CHR ''%'' \<or> f = [] then
        (if c = CHR '' '' then
           (if touched then map_option (map_option (Cons cur)) (format_words fl f args [] False)
            else format_words fl f args cur False)
         else if length cur + 1 < 2 ^ 31 then format_words fl f args (cur @ [c]) True else None)
      else
        (case directive_text fl (hd f) (tl f) args of
           None \<Rightarrow> None
         | Some (Inl e) \<Rightarrow> Some None
         | Some (Inr (s, f', args')) \<Rightarrow>
             if length cur + length s < 2 ^ 31 then format_words fl f' args' (cur @ s) True else None))"
  by pat_completeness auto
termination
  by (relation "measure (\<lambda>(fl, f, args, cur, touched). length f)")
    (auto dest!: directive_text_shorter simp: neq_Nil_conv)

declare format_words.simps [simp del]

lemma s32_add: "s32 (s32 x + y) = s32 (x + y)"
proof -
  have "(y + (x + 2 ^ 31) mod 2 ^ 32) mod 2 ^ 32 = (y + (x + 2 ^ 31)) mod 2 ^ 32" by (rule mod_add_right_eq)
  moreover have "s32 (s32 x + y) = (y + (x + 2 ^ 31) mod 2 ^ 32) mod 2 ^ 32 - 2 ^ 31"
    by (simp add: s32_def add.commute)
  moreover have "s32 (x + y) = (y + (x + 2 ^ 31)) mod 2 ^ 32 - 2 ^ 31"
  proof -
    have "x + y + 2 ^ 31 = y + (x + 2 ^ 31)" by simp
    then show ?thesis by (simp only: s32_def)
  qed
  ultimately show ?thesis by simp
qed

lemma directive_spec:
  assumes m: "malloc_spec m" "malloc_total m" and wf: "sds_wf cur"
  shows "(case directive_text fl y t args of
      None \<Rightarrow> True
    | Some (Inl e) \<Rightarrow> e = -2 \<and> directive m fl y t args cur = Some (Inl (-2))
    | Some (Inr (s, t', as)) \<Rightarrow> length (content cur) + length s < 2 ^ 31 \<longrightarrow>
        (\<exists>r. directive m fl y t args cur = Some (Inr (r, t', as)) \<and> sds_wf r \<and> content r = content cur @ s))"
proof -
  have ome: "or_memory_err r x = Some (Inr (s, x))" if "r = Some (Some s)" for r x and s :: sds
    using that by (simp add: or_memory_err_def)
  have l: "sdslen cur = length (content cur)" using wf by simp
  consider "y = CHR ''s''" | "y = CHR ''b''" | "y = CHR ''%''"
    | "y \<noteq> CHR ''s''" "y \<noteq> CHR ''b''" "y \<noteq> CHR ''%''" by blast
  then show ?thesis
  proof cases
    case 1
    have "\<exists>r. directive m fl y t (CStr a # as) cur = Some (Inr (r, t, as)) \<and> sds_wf r \<and> content r = content cur @ cstr a"
      if "length (content cur) + length (cstr a) < 2 ^ 31" for a as
    proof (cases "cstr a = []")
      case True
      then show ?thesis using 1 wf by (simp add: directive_def or_memory_err_def)
    next
      case False
      have "sds_ok (sdscatlen m cur (cstr a) (length (cstr a))) (content cur @ cstr a)"
        using that by (intro sdscatlen_ok [OF m wf]) simp
      then show ?thesis using 1 False by (auto simp: directive_def or_memory_err_def sds_ok_def)
    qed
    then show ?thesis using 1 by (auto simp: directive_text_def split: list.splits carg.splits)
  next
    case 2
    have "\<exists>r. directive m fl y t (CStr a # CSize n # as) cur = Some (Inr (r, t, as)) \<and> sds_wf r \<and> content r = content cur @ take n a"
      if "length (content cur) + length (take n a) < 2 ^ 31" "n \<le> length a" for a n as
    proof (cases "n = 0")
      case True
      then show ?thesis using 2 wf by (simp add: directive_def or_memory_err_def)
    next
      case False
      have "sds_small (sdslen cur + n)" using that l by (simp add: sds_small_def)
      from sds_okI [OF sdscatlen_post [OF m(1) wf this that(2)] m(2)]
      show ?thesis using 2 False by (auto simp: directive_def or_memory_err_def sds_ok_def)
    qed
    then show ?thesis using 2 by (auto simp: directive_text_def split: list.splits carg.splits)
  next
    case 3
    have "sds_ok (sdscat m cur ''%'') (content cur @ ''%'')" if "length (content cur) + 1 < 2 ^ 31"
      using sdscat_post [OF m(1) wf, of "''%''"] that l
      by (intro sds_okI [OF _ m(2)]) (simp add: sds_small_def cstr_def)
    then show ?thesis using 3 by (auto simp: directive_text_def directive_def or_memory_err_def sds_ok_def)
  next
    case 4
    show ?thesis
    proof (cases "detect (y # t)")
      case (Valid k n)
      note v = Valid
      show ?thesis
      proof (cases "fetch k args")
        case None
        then show ?thesis using 4 v by (simp add: directive_text_def)
      next
        case (Some as)
        let ?fmt = "CHR ''%'' # take n (y # t)"
        show ?thesis
        proof (cases "n + 1 < 14")
          case False
          then show ?thesis using 4 v Some wf by (simp add: directive_text_def directive_def)
        next
          case True
          show ?thesis
          proof (cases "vprintf_text fl (cstr ?fmt) args")
            case None
            then show ?thesis using 4 v Some True by (simp add: directive_text_def)
          next
            case (Some p)
            have "\<exists>r. sdscatvprintf m fl cur ?fmt args = Some (Some r) \<and> sds_wf r \<and> content r = content cur @ cstr p"
              if "length p < 2 ^ 31" "length (content cur) + length (cstr p) < 2 ^ 31"
              using sds_postD [OF sdscatvprintf_post [OF m(1) wf Some that(1)] m(2)] that l
              by (simp add: sds_small_def) blast
            then show ?thesis
              using 4 v \<open>fetch k args = Some as\<close> True Some
              by (auto simp: directive_text_def directive_def or_memory_err_def)
          qed
        qed
      qed
    qed (use 4 in \<open>simp_all add: directive_text_def directive_def\<close>)
  qed
qed


text \<open>\<open>vformat_loop\<close> collects the words of the format.\<close>

definition fmt_total :: "sds list \<Rightarrow> int" where
  "fmt_total as = s32 (int (sum_list (map (bulklen \<circ> sdslen) as)))"

definition fmt_inv :: "fmt_state \<Rightarrow> bool" where
  "fmt_inv st \<longleftrightarrow> sds_wf (f_cur st) \<and> (\<forall>a \<in> set (f_argv st). sds_wf a) \<and> f_totlen st = fmt_total (f_argv st)"

definition words_so_far :: "fmt_state \<Rightarrow> string list" where
  "words_so_far st = map content (f_argv st) @ (if f_touched st then [content (f_cur st)] else [])"

lemma push_arg_ok:
  assumes "malloc_total m" and inv: "fmt_inv st"
  shows "\<exists>st1. push_arg m st = Some st1 \<and> f_argv st1 = f_argv st @ [f_cur st] \<and> f_cur st1 = f_cur st
    \<and> f_touched st1 = f_touched st \<and> f_totlen st1 = fmt_total (f_argv st1)"
proof -
  have "m (8 * (length (f_argv st) + 1)) \<noteq> None" using assms(1) by (simp add: malloc_total_def)
  then show ?thesis
    using inv by (auto simp: push_arg_def fmt_inv_def fmt_total_def s32_add)
qed

definition loop_gives :: "sds list \<Rightarrow> (int + fmt_state) option \<Rightarrow> string list option option \<Rightarrow> bool" where
  "loop_gives argv r ws =
     (case ws of
        None \<Rightarrow> True
      | Some None \<Rightarrow> r = Some (Inl (-2))
      | Some (Some ws) \<Rightarrow>
          \<exists>st. r = Some (Inr st) \<and> fmt_inv st \<and> words_so_far st = map content argv @ ws)"

lemma vformat_loop_words:
  assumes m: "malloc_spec m" "malloc_total m"
  shows "fmt_inv st \<Longrightarrow> cur = content (f_cur st) \<Longrightarrow> touched = f_touched st \<Longrightarrow>
    (\<not> touched \<longrightarrow> cur = []) \<Longrightarrow>
    loop_gives (f_argv st) (vformat_loop m fl f args st) (format_words fl f args cur touched)"
proof (induction fl f args cur touched arbitrary: st rule: format_words.induct)
  case (1 fl args cur touched)
  then show ?case
    by (simp add: loop_gives_def vformat_loop.simps format_words.simps words_so_far_def)
next
  case (2 fl c f args cur touched)
  note eqs = vformat_loop.simps(2) [of m fl c f args st] format_words.simps(2) [of fl c f args cur touched]
  have wf: "sds_wf (f_cur st)" using "2.prems"(1) by (simp add: fmt_inv_def)
  show ?case
  proof (cases "c \<noteq> CHR ''%'' \<or> f = []")
    case lit: True
    show ?thesis
    proof (cases "c = CHR '' ''")
      case sp: True
      show ?thesis
      proof (cases touched)
        case True
        obtain st1 where st1: "push_arg m st = Some st1" "f_argv st1 = f_argv st @ [f_cur st]"
          "f_totlen st1 = fmt_total (f_argv st1)"
          using push_arg_ok [OF m(2) "2.prems"(1)] by blast
        obtain s where s: "sdsempty m = Some (Some s)" "sds_wf s" "content s = []"
          using sdsempty_ok [OF m] by (auto simp: sds_ok_def)
        let ?st = "st1\<lparr>f_cur := s, f_touched := False\<rparr>"
        have "fmt_inv ?st" using st1 s "2.prems"(1) by (auto simp: fmt_inv_def)
        from "2.IH"(1) [OF lit sp True this] s
        have "loop_gives (f_argv ?st) (vformat_loop m fl f args ?st) (format_words fl f args [] False)"
          by simp
        moreover have "vformat_loop m fl (c # f) args st = vformat_loop m fl f args ?st"
          unfolding eqs(1) using lit sp True st1 s "2.prems"(3) by simp
        moreover have "format_words fl (c # f) args cur touched
            = map_option (map_option (Cons cur)) (format_words fl f args [] False)"
          unfolding eqs(2) using lit sp True by simp
        ultimately show ?thesis
          using st1(2) "2.prems"(2) by (auto simp: loop_gives_def split: option.splits)
      next
        case False
        then show ?thesis
          unfolding eqs using "2.IH"(2) [OF lit sp False "2.prems"(1,2)] lit sp "2.prems"(3,4) by simp
      qed
    next
      case sp: False
      show ?thesis
      proof (cases "length cur + 1 < 2 ^ 31")
        case True
        have "length (content (f_cur st)) + length [c] < 2 ^ 63" using True "2.prems"(2) by simp
        then obtain s where s: "sdscatlen m (f_cur st) [c] 1 = Some (Some s)" "sds_wf s" "content s = cur @ [c]"
          using sdscatlen_ok [OF m wf, of "[c]"] "2.prems"(2) by (auto simp: sds_ok_def)
        let ?st = "st\<lparr>f_cur := s, f_touched := True\<rparr>"
        have "fmt_inv ?st" using s "2.prems"(1) by (simp add: fmt_inv_def)
        from "2.IH"(3) [OF lit sp True this] s
        show ?thesis unfolding eqs using lit sp True s by simp
      next
        case False
        then show ?thesis unfolding eqs using lit sp by (simp add: loop_gives_def)
      qed
    qed
  next
    case dir: False
    show ?thesis
    proof (cases "directive_text fl (hd f) (tl f) args")
      case None
      then show ?thesis unfolding eqs using dir by (simp add: loop_gives_def)
    next
      case (Some d)
      note spec = directive_spec [OF m wf, of fl "hd f" "tl f" args, unfolded Some option.case]
      show ?thesis
      proof (cases d)
        case (Inl e)
        then show ?thesis unfolding eqs using Some spec dir by (simp add: loop_gives_def)
      next
        case (Inr x)
        then obtain s f' args' where d: "d = Inr (s, f', args')" by (cases x) auto
        show ?thesis
        proof (cases "length cur + length s < 2 ^ 31")
          case True
          then obtain r where r: "directive m fl (hd f) (tl f) args (f_cur st) = Some (Inr (r, f', args'))"
            "sds_wf r" "content r = cur @ s"
            using spec d "2.prems"(2) by auto
          let ?st = "st\<lparr>f_cur := r, f_touched := True\<rparr>"
          have "fmt_inv ?st" using r "2.prems"(1) by (simp add: fmt_inv_def)
          from "2.IH"(4) [OF dir Some d refl refl True this] r
          show ?thesis unfolding eqs using dir Some d r True by simp
        next
          case False
          then show ?thesis unfolding eqs using dir Some d by (simp add: loop_gives_def)
        qed
      qed
    qed
  qed
qed


lemma fmt_total_text:
  assumes "\<forall>a \<in> set as. sds_wf a" and "length (command_text (map content as)) < 2 ^ 31"
  shows "s32 (fmt_total as + 1 + int (countDigits (length as)) + 2) = int (length (command_text (map content as)))"
proof -
  have "bulklen (sdslen a) = length (bulk_text (content a))" if "a \<in> set as" for a
  proof -
    have "length (bulk_text (content a)) \<le> sum_list (map (length \<circ> bulk_text) (map content as))"
      using that by (intro member_le_sum_list) auto
    then show ?thesis
      using bulklen_text [of "content a"] assms that by (simp add: length_command_text)
  qed
  then have eq: "map (bulklen \<circ> sdslen) as = map (length \<circ> bulk_text) (map content as)" by simp
  have "s32 (fmt_total as + 1 + int (countDigits (length as)) + 2) = s32 (int (length (command_text (map content as))))"
    using s32_add [of "int (sum_list (map (length \<circ> bulk_text) (map content as)))" "1 + int (countDigits (length as)) + 2"]
    unfolding fmt_total_def eq by (simp add: length_command_text countDigits_dec algebra_simps)
  then show ?thesis using assms(2) by (simp add: s32_id)
qed

lemma redisvFormatCommand_words:
  assumes m: "malloc_spec m" "malloc_total m"
    and ws: "format_words fl (cstr fmt) args [] False = Some r"
    and small: "\<And>ws. r = Some ws \<Longrightarrow> length (command_text ws) < 2 ^ 31 - 1"
  shows "redisvFormatCommand m fl fmt args = Some (case r of
      None \<Rightarrow> (-2, None)
    | Some ws \<Rightarrow> (int (length (command_text ws)), Some (command_text ws @ [NUL])))"
proof -
  obtain s where s: "sdsempty m = Some (Some s)" "sds_wf s" "content s = []"
    using sdsempty_ok [OF m] by (auto simp: sds_ok_def)
  let ?st = "\<lparr>f_cur = s, f_touched = False, f_argv = [], f_totlen = 0\<rparr>"
  have inv: "fmt_inv ?st" using s by (simp add: fmt_inv_def fmt_total_def s32_def)
  have loop: "loop_gives [] (vformat_loop m fl (cstr fmt) args ?st) (Some r)"
    using vformat_loop_words [OF m inv, of "[]" False fl "cstr fmt" args] s ws by simp
  show ?thesis
  proof (cases r)
    case None
    then show ?thesis using loop s by (simp add: redisvFormatCommand_def loop_gives_def)
  next
    case (Some ws)
    with loop obtain st where st: "vformat_loop m fl (cstr fmt) args ?st = Some (Inr st)" "fmt_inv st"
      "words_so_far st = ws"
      by (auto simp: loop_gives_def)
    have "\<exists>st1. (if f_touched st then push_arg m st else Some st) = Some st1 \<and>
        (\<forall>a \<in> set (f_argv st1). sds_wf a) \<and> map content (f_argv st1) = ws \<and> f_totlen st1 = fmt_total (f_argv st1)"
    proof (cases "f_touched st")
      case True
      then show ?thesis using push_arg_ok [OF m(2) st(2)] st(2,3) by (auto simp: words_so_far_def fmt_inv_def)
    qed (use st(2,3) in \<open>simp add: words_so_far_def fmt_inv_def\<close>)
    then obtain st1 where st1: "(if f_touched st then push_arg m st else Some st) = Some st1"
      "\<forall>a \<in> set (f_argv st1). sds_wf a" "map content (f_argv st1) = ws" "f_totlen st1 = fmt_total (f_argv st1)"
      by blast
    let ?args = "map (\<lambda>a. (sds_buf a, sdslen a)) (f_argv st1)"
    have sm: "length (command_text ws) < 2 ^ 31 - 1" using small Some by blast
    have tot: "s32 (f_totlen st1 + 1 + int (countDigits (length (f_argv st1))) + 2) = int (length (command_text ws))"
      using fmt_total_text [OF st1(2)] st1(3,4) sm by simp
    have "args_ok ?args" using st1(2) sds_wf_lenD by (fastforce simp: args_ok_def less_imp_le)
    moreover have ab: "arg_bytes ?args = ws"
      unfolding st1(3) [symmetric] by (simp add: arg_bytes_def content_def comp_def split_def)
    ultimately have "build_command m (int (length (command_text ws))) (int (length (f_argv st1))) ?args
        = Some (Some (command_text ws @ [NUL]))"
      using build_command_ok [OF m, of ?args "int (length (f_argv st1))" "int (length (command_text ws))"] sm by simp
    then show ?thesis
      using s st(1) st1(1) tot Some by (simp add: redisvFormatCommand_def Let_def)
  qed
qed


section \<open>What the command builders promise\<close>

text \<open>C23. The command built for an argument vector, in a \<open>malloc\<close>ed buffer or in an sds string, is read by the
  protocol parser as one array of exactly the arguments, whatever bytes they hold, with nothing left
  over; the returned length is that of the command, and the buffer is written to its end but not
  beyond.\<close>

theorem command_argv_roundtrip:
  assumes "malloc_spec m" and "malloc_total m" and "argv_ok argv argvlen"
    and "length (command_text (argv_bytes argv argvlen)) < 2 ^ 31 - 1"
  shows "\<exists>cmd s. redisFormatCommandArgv m (int (length argv)) argv argvlen = Some (int (length cmd), Some (cmd @ [NUL])) \<and>
    redisFormatSdsCommandArgv m (int (length argv)) argv argvlen = Some (int (length cmd), Some s) \<and>
    sds_wf s \<and> content s = cmd \<and>
    parse [] cmd = PDone (RArr (length argv) (map (RStr REDIS_REPLY_STRING) (argv_bytes argv argvlen))) []"
proof -
  let ?ws = "argv_bytes argv argvlen"
  have len: "length ?ws = length argv"
    using assms(3) by (simp add: argv_bytes_def argv_ok_def split: option.splits)
  have "length w < 2 ^ 63" if "w \<in> set ?ws" for w
  proof -
    have "length (bulk_text w) \<le> sum_list (map (length \<circ> bulk_text) ?ws)"
      using that by (intro member_le_sum_list) auto
    then show ?thesis using assms(4) by (simp add: length_command_text bulk_text_def)
  qed
  moreover have "int (length ?ws) \<le> INT_MAX"
    using length_bulks [of ?ws] assms(4) by (simp add: command_text_def INT_MAX_def)
  ultimately have "parse [] (command_text ?ws) = PDone (command_reply ?ws) []"
    using parse_command [of ?ws "[]"] by simp
  then show ?thesis
    using redisFormatCommandArgv_text [OF assms] redisFormatSdsCommandArgv_text [OF assms(1-3)] assms(4) len
    by (auto simp: command_reply_def)
qed

theorem command_argv_roundtrip_witness:
  "\<exists>cmd s. redisFormatCommandArgv zero_malloc 2 [''GET'', [CR, NUL]] (Some [3, 2]) = Some (int (length cmd), Some (cmd @ [NUL])) \<and>
    content s = cmd \<and> parse [] cmd = PDone (RArr 2 (map (RStr REDIS_REPLY_STRING) [''GET'', [CR, NUL]])) []"
proof -
  have b: "argv_bytes [''GET'', [CR, NUL]] (Some [3, 2]) = [''GET'', [CR, NUL]]" by (simp add: argv_bytes_def)
  have "length (dec_nat 3) = 1" "length (dec_nat 2) = 1" by (simp_all add: length_dec_nat)
  then have "length (command_text [''GET'', [CR, NUL]]) < 2 ^ 31 - 1"
    by (simp add: command_text_def bulk_text_def length_dec_nat)
  then show ?thesis
    using command_argv_roundtrip [of zero_malloc "[''GET'', [CR, NUL]]" "Some [3, 2]"] b
    by (auto simp: argv_ok_def)
qed

text \<open>C31. \<open>redisvFormatCommand\<close> builds the command whose arguments are the words of the format: runs of spaces
  separate them, directives are expanded inside them, and what an argument expands to is never
  split.  A bad specification is reported as \<open>-2\<close> and nothing is built; \<open>redisFormatCommand\<close>
  reports \<open>-1\<close> then.\<close>

theorem format_command_words:
  assumes "malloc_spec m" and "malloc_total m" and "format_words fl (cstr fmt) args [] False = Some r"
    and "\<And>ws. r = Some ws \<Longrightarrow> length (command_text ws) < 2 ^ 31 - 1"
  shows "redisvFormatCommand m fl fmt args = Some (case r of
      None \<Rightarrow> (-2, None)
    | Some ws \<Rightarrow> (int (length (command_text ws)), Some (command_text ws @ [NUL]))) \<and>
    redisFormatCommand m fl fmt args = Some (case r of
      None \<Rightarrow> (-1, None)
    | Some ws \<Rightarrow> (int (length (command_text ws)), Some (command_text ws @ [NUL])))"
  using redisvFormatCommand_words [OF assms] by (auto simp: redisFormatCommand_def split: option.splits)

theorem format_command_words_witness:
  "redisvFormatCommand zero_malloc (\<lambda>_ _. []) ''SET %s %b'' [CStr ''a b'', CStr [NUL, LF], CSize 2] =
     Some (int (length (command_text [''SET'', ''a b'', [NUL, LF]])), Some (command_text [''SET'', ''a b'', [NUL, LF]] @ [NUL]))"
proof -
  have c: "cstr ''SET %s %b'' = ''SET %s %b''" "cstr ''a b'' = ''a b''" by (simp_all add: cstr_def)
  have "format_words (\<lambda>_ _. []) (cstr ''SET %s %b'') [CStr ''a b'', CStr [NUL, LF], CSize 2] [] False
      = Some (Some [''SET'', ''a b'', [NUL, LF]])"
    unfolding c(1) by (simp add: format_words.simps directive_text_def c(2))
  moreover have "length (command_text [''SET'', ''a b'', [NUL, LF]]) < 2 ^ 31 - 1"
    by (simp add: command_text_def bulk_text_def length_dec_nat)
  ultimately show ?thesis
    using format_command_words [of zero_malloc "\<lambda>_ _. []" "''SET %s %b''" "[CStr ''a b'', CStr [NUL, LF], CSize 2]"
      "Some [''SET'', ''a b'', [NUL, LF]]"]
    by simp
qed

end
