(* ===== verification/Context.thy ===== *)
theory Context
  imports Net Format
begin

text \<open>
  The blocking client of \<open>redis/hiredis.c\<close>: making, freeing and reconnecting a context,
  appending commands to its output buffer, flushing that buffer to the socket, feeding the
  reader from the socket, and waiting for a reply.

  The reply objects live in the reader's store, which survives the reader: a reader made for
  a context continues on a given heap.  The two loops of \<open>redisGetReply\<close> are partial
  functions: a run that waits for ever is \<open>None\<close>, as is undefined behaviour, so that the
  theorems that a call returns state that it does.
\<close>

unbundle bit_operations_syntax

section \<open>Contexts\<close>

type_synonym rcontext = "heap redisContext"

definition sizeof_redisContext :: nat where "sizeof_redisContext = 208"

definition redisContextInit :: "env \<Rightarrow> heap \<Rightarrow> rcontext option option" where
  "redisContextInit e h =
     (case e_malloc e sizeof_redisContext of
        None \<Rightarrow> Some None
      | Some _ \<Rightarrow> do {
          obuf \<leftarrow> sdsempty (e_malloc e);
          reader \<leftarrow> redisReaderCreateWithFunctions (e_malloc e) h (Some (defaultFunctions (e_malloc e)));
          if obuf = None \<or> reader = None then Some None
          else Some (Some
            \<lparr>c_err = 0, c_errstr = [], c_fd = 0, c_flags = 0, c_obuf = obuf, c_reader = reader,
              c_connection_type = REDIS_CONN_TCP, c_timeout = None, c_host = None,
              c_source_addr = None, c_port = 0, c_path = None\<rparr>)
        })"

text \<open>What is left: the world and the heap of replies.\<close>

definition redisFree :: "env \<Rightarrow> rcontext option \<Rightarrow> world \<Rightarrow> heap \<Rightarrow> (world \<times> heap) option" where
  "redisFree e c w h =
     (case c of
        None \<Rightarrow> Some (w, h)
      | Some c \<Rightarrow>
          let w1 = (if c_fd c > 0 then snd (sys e (Close (c_fd c)) w) else w)
          in case c_reader c of
               None \<Rightarrow> Some (w1, h)
             | Some r \<Rightarrow> do { h1 \<leftarrow> redisReaderFree r; Some (w1, h1) })"

definition redisFreeKeepFd :: "env \<Rightarrow> rcontext \<Rightarrow> world \<Rightarrow> heap \<Rightarrow> (world \<times> heap \<times> int) option" where
  "redisFreeKeepFd e c w h =
     do { (w1, h1) \<leftarrow> redisFree e (Some (c\<lparr>c_fd := -1\<rparr>)) w h; Some (w1, h1, c_fd c) }"

text \<open>The connection type is one of the two the type has, so the last branch of the C function is
  never taken.\<close>

definition redisReconnect :: "env \<Rightarrow> rcontext \<Rightarrow> world \<Rightarrow> heap net" where
  "redisReconnect e c w =
     do {
       let w1 = (if c_fd c > 0 then snd (sys e (Close (c_fd c)) w) else w);
       h \<leftarrow> (case c_reader c of None \<Rightarrow> Some [] | Some r \<Rightarrow> redisReaderFree r);
       obuf \<leftarrow> sdsempty (e_malloc e);
       reader \<leftarrow> redisReaderCreateWithFunctions (e_malloc e) h (Some (defaultFunctions (e_malloc e)));
       let c1 = c\<lparr>c_err := 0, c_errstr := [], c_obuf := obuf, c_reader := reader\<rparr>;
       (case c_connection_type c of
          REDIS_CONN_TCP \<Rightarrow> redisContextConnectBindTcp e c1 w1 Own (c_port c1) Own Own
        | REDIS_CONN_UNIX \<Rightarrow> redisContextConnectUnix e c1 w1 Own Own)
     }"

text \<open>A new context with its flags, and an attempt to connect it; the context is returned whether
  or not it is connected.\<close>

definition connect_new ::
  "env \<Rightarrow> heap \<Rightarrow> world \<Rightarrow> (cflags \<Rightarrow> cflags) \<Rightarrow> (rcontext \<Rightarrow> world \<Rightarrow> heap net) \<Rightarrow>
   (rcontext option \<times> world) option" where
  "connect_new e h w flags connect =
     do {
       new \<leftarrow> redisContextInit e h;
       case new of
         None \<Rightarrow> Some (None, w)
       | Some c \<Rightarrow> do { (c1, w1, _) \<leftarrow> connect (c\<lparr>c_flags := flags (c_flags c)\<rparr>) w; Some (Some c1, w1) }
     }"

definition redisConnect :: "env \<Rightarrow> heap \<Rightarrow> world \<Rightarrow> string \<Rightarrow> int \<Rightarrow> (rcontext option \<times> world) option" where
  "redisConnect e h w ip port =
     connect_new e h w (\<lambda>f. f OR REDIS_BLOCK) (\<lambda>c w. redisContextConnectTcp e c w (Ptr ip) port Null)"

definition redisConnectWithTimeout ::
  "env \<Rightarrow> heap \<Rightarrow> world \<Rightarrow> string \<Rightarrow> int \<Rightarrow> timeval \<Rightarrow> (rcontext option \<times> world) option" where
  "redisConnectWithTimeout e h w ip port tv =
     connect_new e h w (\<lambda>f. f OR REDIS_BLOCK) (\<lambda>c w. redisContextConnectTcp e c w (Ptr ip) port (Ptr tv))"

definition redisConnectNonBlock :: "env \<Rightarrow> heap \<Rightarrow> world \<Rightarrow> string \<Rightarrow> int \<Rightarrow> (rcontext option \<times> world) option" where
  "redisConnectNonBlock e h w ip port =
     connect_new e h w (\<lambda>f. f AND NOT REDIS_BLOCK) (\<lambda>c w. redisContextConnectTcp e c w (Ptr ip) port Null)"

definition redisConnectBindNonBlock ::
  "env \<Rightarrow> heap \<Rightarrow> world \<Rightarrow> string \<Rightarrow> int \<Rightarrow> string ptr \<Rightarrow> (rcontext option \<times> world) option" where
  "redisConnectBindNonBlock e h w ip port source =
     connect_new e h w (\<lambda>f. f AND NOT REDIS_BLOCK)
       (\<lambda>c w. redisContextConnectBindTcp e c w (Ptr ip) port Null source)"

definition redisConnectBindNonBlockWithReuse ::
  "env \<Rightarrow> heap \<Rightarrow> world \<Rightarrow> string \<Rightarrow> int \<Rightarrow> string ptr \<Rightarrow> (rcontext option \<times> world) option" where
  "redisConnectBindNonBlockWithReuse e h w ip port source =
     connect_new e h w (\<lambda>f. (f AND NOT REDIS_BLOCK) OR REDIS_REUSEADDR)
       (\<lambda>c w. redisContextConnectBindTcp e c w (Ptr ip) port Null source)"

definition redisConnectUnix :: "env \<Rightarrow> heap \<Rightarrow> world \<Rightarrow> string \<Rightarrow> (rcontext option \<times> world) option" where
  "redisConnectUnix e h w path =
     connect_new e h w (\<lambda>f. f OR REDIS_BLOCK) (\<lambda>c w. redisContextConnectUnix e c w (Ptr path) Null)"

definition redisConnectUnixWithTimeout ::
  "env \<Rightarrow> heap \<Rightarrow> world \<Rightarrow> string \<Rightarrow> timeval \<Rightarrow> (rcontext option \<times> world) option" where
  "redisConnectUnixWithTimeout e h w path tv =
     connect_new e h w (\<lambda>f. f OR REDIS_BLOCK) (\<lambda>c w. redisContextConnectUnix e c w (Ptr path) (Ptr tv))"

definition redisConnectUnixNonBlock :: "env \<Rightarrow> heap \<Rightarrow> world \<Rightarrow> string \<Rightarrow> (rcontext option \<times> world) option" where
  "redisConnectUnixNonBlock e h w path =
     connect_new e h w (\<lambda>f. f AND NOT REDIS_BLOCK) (\<lambda>c w. redisContextConnectUnix e c w (Ptr path) Null)"

definition redisConnectFd :: "env \<Rightarrow> heap \<Rightarrow> int \<Rightarrow> rcontext option option" where
  "redisConnectFd e h fd =
     map_option (map_option (\<lambda>c. c\<lparr>c_fd := fd, c_flags := c_flags c OR (REDIS_BLOCK OR REDIS_CONNECTED)\<rparr>))
       (redisContextInit e h)"

definition redisSetTimeout :: "env \<Rightarrow> 'h redisContext \<Rightarrow> world \<Rightarrow> timeval \<Rightarrow> 'h net" where
  "redisSetTimeout e c w tv =
     (if has (c_flags c) REDIS_BLOCK then redisContextSetTimeout e c w tv else Some (c, w, REDIS_ERR))"

definition redisEnableKeepAlive :: "env \<Rightarrow> 'h redisContext \<Rightarrow> world \<Rightarrow> 'h net" where
  "redisEnableKeepAlive e c w = redisKeepAlive e c w REDIS_KEEPALIVE_INTERVAL"

section \<open>Input and output\<close>

definition sizeof_read_buffer :: nat where "sizeof_read_buffer = 1024 * 16"

definition try_again :: "'h redisContext \<Rightarrow> int \<Rightarrow> bool" where
  "try_again c errno \<longleftrightarrow> errno = EAGAIN \<and> \<not> has (c_flags c) REDIS_BLOCK \<or> errno = EINTR"

text \<open>The reader's error becomes the context's.\<close>

definition adopt_error :: "env \<Rightarrow> 'h redisContext \<Rightarrow> world \<Rightarrow> 'h redisReader \<Rightarrow> 'h redisContext option" where
  "adopt_error e c w r = redisSetError e (c\<lparr>c_reader := Some r\<rparr>) w (r_err r) (Some (r_errstr r))"

definition redisBufferRead :: "env \<Rightarrow> 'h redisContext \<Rightarrow> world \<Rightarrow> 'h net" where
  "redisBufferRead e c w =
     (if c_err c \<noteq> 0 then Some (c, w, REDIS_ERR)
      else case sys_read e (c_fd c) sizeof_read_buffer w of
        (Inl errno, w1) \<Rightarrow>
          if try_again c errno then Some (c, w1, REDIS_OK)
          else do { c1 \<leftarrow> redisSetError e c w1 REDIS_ERR_IO None; Some (c1, w1, REDIS_ERR) }
      | (Inr bs, w1) \<Rightarrow>
          if bs = [] then do {
            c1 \<leftarrow> redisSetError e c w1 REDIS_ERR_EOF (Some ''Server closed the connection'');
            Some (c1, w1, REDIS_ERR)
          }
          else if length bs > sizeof_read_buffer then None
          else do {
            r \<leftarrow> c_reader c;
            (r1, st) \<leftarrow> redisReaderFeed (e_malloc e) r (Some bs) (length bs);
            if st \<noteq> REDIS_OK then do { c1 \<leftarrow> adopt_error e c w1 r1; Some (c1, w1, REDIS_ERR) }
            else Some (c\<lparr>c_reader := Some r1\<rparr>, w1, REDIS_OK)
          })"

text \<open>The last component is \<open>*done\<close>; every caller passes a pointer for it.\<close>

definition redisBufferWrite ::
  "env \<Rightarrow> 'h redisContext \<Rightarrow> world \<Rightarrow> ('h redisContext \<times> world \<times> status \<times> bool) option" where
  "redisBufferWrite e c w =
     (if c_err c \<noteq> 0 then Some (c, w, REDIS_ERR, False)
      else do {
        obuf \<leftarrow> c_obuf c;
        (c1, w1, st) \<leftarrow>
          (if sdslen obuf > 0 then do {
             bs \<leftarrow> mem_read (sds_buf obuf) 0 (sdslen obuf);
             let (a, w1) = sys e (Write (c_fd c) bs) w;
             let nwritten = (case a of Inl _ \<Rightarrow> -1 | Inr n \<Rightarrow> s32 (int n));
             if nwritten = -1 then
               (if try_again c (w_errno w1) then Some (c, w1, REDIS_OK)
                else do { c1 \<leftarrow> redisSetError e c w1 REDIS_ERR_IO None; Some (c1, w1, REDIS_ERR) })
             else if nwritten > 0 then
               (if nwritten = s32 (int (sdslen obuf)) then do {
                  empty \<leftarrow> sdsempty (e_malloc e);
                  Some (c\<lparr>c_obuf := empty\<rparr>, w1, REDIS_OK)
                }
                else do {
                  rest \<leftarrow> sdsrange obuf nwritten (-1);
                  Some (c\<lparr>c_obuf := Some rest\<rparr>, w1, REDIS_OK)
                })
             else Some (c, w1, REDIS_OK)
           }
           else Some (c, w, REDIS_OK));
        if st = REDIS_ERR then Some (c1, w1, REDIS_ERR, False)
        else do { s \<leftarrow> c_obuf c1; Some (c1, w1, REDIS_OK, sdslen s = 0) }
      })"

section \<open>Replies\<close>

definition redisGetReplyFromReader ::
  "env \<Rightarrow> 'h redisContext \<Rightarrow> world \<Rightarrow> ('h redisContext \<times> status \<times> robj option) option" where
  "redisGetReplyFromReader e c w =
     do {
       r \<leftarrow> c_reader c;
       (r1, st, reply) \<leftarrow> redisReaderGetReply r;
       if st = REDIS_ERR then do { c1 \<leftarrow> adopt_error e c w r1; Some (c1, REDIS_ERR, None) }
       else Some (c\<lparr>c_reader := Some r1\<rparr>, REDIS_OK, reply)
     }"

partial_function (option) write_until_done ::
  "env \<Rightarrow> 'h redisContext \<Rightarrow> world \<Rightarrow> ('h redisContext \<times> world \<times> status) option" where
  "write_until_done e c w =
     Option.bind (redisBufferWrite e c w) (\<lambda>res.
       if fst (snd (snd res)) = REDIS_ERR then Some (fst res, fst (snd res), REDIS_ERR)
       else if snd (snd (snd res)) then Some (fst res, fst (snd res), REDIS_OK)
       else write_until_done e (fst res) (fst (snd res)))"

partial_function (option) read_until_reply ::
  "env \<Rightarrow> 'h redisContext \<Rightarrow> world \<Rightarrow> ('h redisContext \<times> world \<times> status \<times> robj option) option" where
  "read_until_reply e c w =
     Option.bind (redisBufferRead e c w) (\<lambda>rd.
       if snd (snd rd) = REDIS_ERR then Some (fst rd, fst (snd rd), REDIS_ERR, None)
       else Option.bind (redisGetReplyFromReader e (fst rd) (fst (snd rd))) (\<lambda>got.
         if fst (snd got) = REDIS_ERR then Some (fst got, fst (snd rd), REDIS_ERR, None)
         else if snd (snd got) \<noteq> None then Some (fst got, fst (snd rd), REDIS_OK, snd (snd got))
         else read_until_reply e (fst got) (fst (snd rd))))"

definition redisGetReply ::
  "env \<Rightarrow> 'h redisContext \<Rightarrow> world \<Rightarrow> ('h redisContext \<times> world \<times> status \<times> robj option) option" where
  "redisGetReply e c w =
     do {
       (c1, st, aux) \<leftarrow> redisGetReplyFromReader e c w;
       if st = REDIS_ERR then Some (c1, w, REDIS_ERR, None)
       else if aux = None \<and> has (c_flags c1) REDIS_BLOCK then do {
         (c2, w2, st2) \<leftarrow> write_until_done e c1 w;
         if st2 = REDIS_ERR then Some (c2, w2, REDIS_ERR, None)
         else read_until_reply e c2 w2
       }
       else Some (c1, w, REDIS_OK, aux)
     }"

section \<open>Commands\<close>

text \<open>\<open>__redisAppendCommand\<close>\<close>

definition redisAppendCommand_raw ::
  "env \<Rightarrow> 'h redisContext \<Rightarrow> world \<Rightarrow> string \<Rightarrow> nat \<Rightarrow> ('h redisContext \<times> status) option" where
  "redisAppendCommand_raw e c w cmd len =
     do {
       obuf \<leftarrow> c_obuf c;
       newbuf \<leftarrow> sdscatlen (e_malloc e) obuf cmd len;
       case newbuf of
         None \<Rightarrow> do { c1 \<leftarrow> redisSetError e c w REDIS_ERR_OOM (Some ''Out of memory''); Some (c1, REDIS_ERR) }
       | Some s \<Rightarrow> Some (c\<lparr>c_obuf := Some s\<rparr>, REDIS_OK)
     }"

definition redisAppendFormattedCommand ::
  "env \<Rightarrow> 'h redisContext \<Rightarrow> world \<Rightarrow> string \<Rightarrow> nat \<Rightarrow> ('h redisContext \<times> status) option" where
  "redisAppendFormattedCommand e c w cmd len = redisAppendCommand_raw e c w cmd len"

definition redisvAppendCommand ::
  "env \<Rightarrow> float_text \<Rightarrow> 'h redisContext \<Rightarrow> world \<Rightarrow> string \<Rightarrow> carg list \<Rightarrow> ('h redisContext \<times> status) option" where
  "redisvAppendCommand e fl c w format ap =
     do {
       (len, cmd) \<leftarrow> redisvFormatCommand (e_malloc e) fl format ap;
       if len = -1 then do {
         c1 \<leftarrow> redisSetError e c w REDIS_ERR_OOM (Some ''Out of memory''); Some (c1, REDIS_ERR)
       }
       else if len = -2 then do {
         c1 \<leftarrow> redisSetError e c w REDIS_ERR_OTHER (Some ''Invalid format string''); Some (c1, REDIS_ERR)
       }
       else do { bs \<leftarrow> cmd; redisAppendCommand_raw e c w bs (nat (len mod 2 ^ 64)) }
     }"

definition redisAppendCommand ::
  "env \<Rightarrow> float_text \<Rightarrow> 'h redisContext \<Rightarrow> world \<Rightarrow> string \<Rightarrow> carg list \<Rightarrow> ('h redisContext \<times> status) option" where
  "redisAppendCommand e fl c w format ap = redisvAppendCommand e fl c w format ap"

definition redisAppendCommandArgv ::
  "env \<Rightarrow> 'h redisContext \<Rightarrow> world \<Rightarrow> int \<Rightarrow> string list \<Rightarrow> nat list option \<Rightarrow> ('h redisContext \<times> status) option" where
  "redisAppendCommandArgv e c w argc argv argvlen =
     do {
       (len, cmd) \<leftarrow> redisFormatSdsCommandArgv (e_malloc e) argc argv argvlen;
       if len = -1 then do {
         c1 \<leftarrow> redisSetError e c w REDIS_ERR_OOM (Some ''Out of memory''); Some (c1, REDIS_ERR)
       }
       else do { s \<leftarrow> cmd; redisAppendCommand_raw e c w (sds_buf s) (nat (len mod 2 ^ 64)) }
     }"

text \<open>\<open>__redisBlockForReply\<close>; \<open>None\<close> is NULL.\<close>

definition redisBlockForReply ::
  "env \<Rightarrow> 'h redisContext \<Rightarrow> world \<Rightarrow> ('h redisContext \<times> world \<times> robj option) option" where
  "redisBlockForReply e c w =
     (if has (c_flags c) REDIS_BLOCK then do {
        (c1, w1, st, reply) \<leftarrow> redisGetReply e c w;
        Some (c1, w1, if st = REDIS_OK then reply else None)
      }
      else Some (c, w, None))"

definition redisvCommand ::
  "env \<Rightarrow> float_text \<Rightarrow> 'h redisContext \<Rightarrow> world \<Rightarrow> string \<Rightarrow> carg list \<Rightarrow>
   ('h redisContext \<times> world \<times> robj option) option" where
  "redisvCommand e fl c w format ap =
     do {
       (c1, st) \<leftarrow> redisvAppendCommand e fl c w format ap;
       if st \<noteq> REDIS_OK then Some (c1, w, None) else redisBlockForReply e c1 w
     }"

definition redisCommand ::
  "env \<Rightarrow> float_text \<Rightarrow> 'h redisContext \<Rightarrow> world \<Rightarrow> string \<Rightarrow> carg list \<Rightarrow>
   ('h redisContext \<times> world \<times> robj option) option" where
  "redisCommand e fl c w format ap = redisvCommand e fl c w format ap"

definition redisCommandArgv ::
  "env \<Rightarrow> 'h redisContext \<Rightarrow> world \<Rightarrow> int \<Rightarrow> string list \<Rightarrow> nat list option \<Rightarrow>
   ('h redisContext \<times> world \<times> robj option) option" where
  "redisCommandArgv e c w argc argv argvlen =
     do {
       (c1, st) \<leftarrow> redisAppendCommandArgv e c w argc argv argvlen;
       if st \<noteq> REDIS_OK then Some (c1, w, None) else redisBlockForReply e c1 w
     }"

section \<open>The output buffer\<close>

text \<open>The bytes accepted by the system for a descriptor, in order, and those still queued.\<close>

fun accepted :: "int \<Rightarrow> event list \<Rightarrow> string" where
  "accepted fd [] = []"
| "accepted fd (Call (Write f bs) (Inr n) # es) =
     accepted fd es @ (if f = fd then take n bs else [])"
| "accepted fd (ev # es) = accepted fd es"

definition queued :: "'h redisContext \<Rightarrow> string" where
  "queued c = (case c_obuf c of None \<Rightarrow> [] | Some s \<Rightarrow> content s)"

definition obuf_ok :: "'h redisContext \<Rightarrow> bool" where
  "obuf_ok c \<longleftrightarrow> (\<exists>s. c_obuf c = Some s \<and> sds_wf s \<and> sdslen s < 2 ^ 31)"

text \<open>The system never accepts more than it is offered.\<close>

definition writes_ok :: "env \<Rightarrow> bool" where
  "writes_ok e \<longleftrightarrow> (\<forall>w fd bs n. e_sys e w (Write fd bs) = Inr n \<longrightarrow> n \<le> length bs)"

lemma accepted_write:
  "accepted fd (w_events (snd (sys e (Write fd bs) w))) =
     accepted fd (w_events w) @ (case fst (sys e (Write fd bs) w) of Inl _ \<Rightarrow> [] | Inr n \<Rightarrow> take n bs)"
  by (simp add: sys_def Let_def split: sum.split)

lemma accepted_read: "accepted fd (w_events (snd (sys_read e f n w))) = accepted fd (w_events w)"
  by (simp add: sys_read_def Let_def)

lemma has_framed: "framed c c' \<Longrightarrow> c_flags c' = c_flags c"
  by (simp add: framed_def)

text \<open>What a write leaves as it was: everything but the output buffer and the error.\<close>

definition same_link :: "'h redisContext \<Rightarrow> 'h redisContext \<Rightarrow> bool" where
  "same_link c c' \<longleftrightarrow> c_fd c' = c_fd c \<and> c_flags c' = c_flags c \<and> c_reader c' = c_reader c"

lemma same_link_refl [simp]: "same_link c c"
  by (simp add: same_link_def)

lemma same_link_trans: "same_link c c1 \<Longrightarrow> same_link c1 c2 \<Longrightarrow> same_link c c2"
  by (simp add: same_link_def)

lemma same_link_upd [simp]:
  "same_link c (c\<lparr>c_obuf := b\<rparr>)" "same_link c (c\<lparr>c_err := n, c_errstr := s\<rparr>)"
  by (simp_all add: same_link_def)

lemma obuf_queued: "c_obuf c = Some s \<Longrightarrow> queued c = content s"
  by (simp add: queued_def)

definition write_ok :: "env \<Rightarrow> 'h redisContext \<Rightarrow> world \<Rightarrow> ('h redisContext \<times> world \<times> status \<times> bool) option \<Rightarrow> bool" where
  "write_ok e c w r \<longleftrightarrow> (\<exists>c' w' st done. r = Some (c', w', st, done) \<and> same_link c c' \<and> obuf_ok c' \<and>
     accepted (c_fd c) (w_events w') @ queued c' = accepted (c_fd c) (w_events w) @ queued c \<and>
     (if st = REDIS_OK then c_err c' = 0 \<and> (done \<longleftrightarrow> queued c' = []) else c_err c' \<noteq> 0) \<and>
     (if c_err c = 0 \<and> queued c \<noteq> []
      then w' = snd (sys e (Write (c_fd c) (queued c)) w) \<and>
        (st = REDIS_ERR \<longrightarrow> isl (fst (sys e (Write (c_fd c) (queued c)) w)))
      else w' = w \<and> (c_err c = 0 \<longrightarrow> st = REDIS_OK)))"

lemma redisBufferWrite_ok:
  assumes m: "malloc_spec (e_malloc e)" "malloc_total (e_malloc e)" and wr: "writes_ok e" and o: "obuf_ok c"
  shows "write_ok e c w (redisBufferWrite e c w)"
proof (cases "c_err c \<noteq> 0")
  case True
  then show ?thesis using o by (auto simp: redisBufferWrite_def write_ok_def intro: exI [of _ False])
next
  case False
  obtain s where s: "c_obuf c = Some s" "sds_wf s" "sdslen s < 2 ^ 31" using o by (auto simp: obuf_ok_def)
  show ?thesis
  proof (cases "sdslen s = 0")
    case True
    then have "queued c = []" using s by (simp add: queued_def content_def)
    then show ?thesis using False True s o by (simp add: redisBufferWrite_def write_ok_def)
  next
    case ne: False
    have cn: "content s \<noteq> []" using ne length_content [OF s(2)] by auto
    obtain a w1 where wa: "sys e (Write (c_fd c) (content s)) w = (a, w1)" by fastforce
    have rd: "mem_read (sds_buf s) 0 (sdslen s) = Some (content s)"
      using sds_wf_lenD [OF s(2)] by (simp add: mem_read_def content_def)
    have acc: "accepted (c_fd c) (w_events w1) =
        accepted (c_fd c) (w_events w) @ (case a of Inl _ \<Rightarrow> [] | Inr n \<Rightarrow> take n (content s))"
      using accepted_write [of "c_fd c" e "content s" w] by (simp add: wa)
    show ?thesis
    proof (cases a)
      case (Inl n)
      have "w_errno w1 = n" using wa Inl by (auto simp: sys_def Let_def)
      then show ?thesis
        using False s ne cn rd wa acc o Inl
        by (auto simp: redisBufferWrite_def write_ok_def redisSetError_def queued_def obuf_ok_def intro: exI [of _ False])
    next
      case (Inr n)
      have n: "n \<le> sdslen s"
        using wr wa Inr s by (fastforce simp: writes_ok_def sys_def Let_def)
      have nw: "s32 (int n) = int n" "s32 (int (sdslen s)) = int (sdslen s)"
        using n s(3) by (simp_all add: s32_id)
      show ?thesis
      proof (cases "n = 0 \<or> n = sdslen s")
        case True
        obtain t where t: "sdsempty (e_malloc e) = Some (Some t)" "sds_wf t" "content t = []"
          using sdsempty_ok [OF m] by (auto simp: sds_ok_def)
        have "sdslen t = 0" using t(2,3) length_content by fastforce
        then show ?thesis
          using False s ne cn rd wa acc o Inr nw True t
          by (auto simp: redisBufferWrite_def write_ok_def queued_def obuf_ok_def Let_def)
      next
        case False
        obtain t where t: "sdsrange s (int n) (-1) = Some t" "sds_wf t" "content t = sds_slice (int n) (-1) (content s)"
          using sdsrange_slice [OF s(2,3), of "int n" "-1"] n s(3) by auto
        have d: "content t = drop n (content s)"
          using t(3) n s(2) by (simp add: sds_slice_def Let_def nat_diff_distrib min_def)
        then have "sdslen t < 2 ^ 31" "sdslen t \<noteq> 0"
          using length_content [OF t(2)] length_content [OF s(2)] s(3) n False by auto
        then show ?thesis
          using \<open>\<not> c_err c \<noteq> 0\<close> s ne cn rd wa acc Inr nw False t(1,2) d n
          by (auto simp: redisBufferWrite_def write_ok_def queued_def obuf_ok_def Let_def)
      qed
    qed
  qed
qed

section \<open>Flushing\<close>

definition eager_writes :: "env \<Rightarrow> bool" where
  "eager_writes e \<longleftrightarrow>
     (\<forall>w fd bs. bs \<noteq> [] \<longrightarrow> (\<exists>n. e_sys e w (Write fd bs) = Inr n \<and> 0 < n \<and> n \<le> length bs))"

fun reads :: "int \<Rightarrow> event list \<Rightarrow> nat" where
  "reads fd [] = 0"
| "reads fd (Received f a # es) = (if f = fd then Suc (reads fd es) else reads fd es)"
| "reads fd (ev # es) = reads fd es"

lemma reads_sys: "reads fd (w_events (snd (sys e op w))) = reads fd (w_events w)"
  by (simp add: sys_def Let_def)

lemma reads_read: "reads fd (w_events (snd (sys_read e fd n w))) = Suc (reads fd (w_events w))"
  by (simp add: sys_read_def Let_def)

lemma write_until_done_ok:
  assumes m: "malloc_spec (e_malloc e)" "malloc_total (e_malloc e)" and wr: "writes_ok e" "eager_writes e"
  shows "obuf_ok c \<Longrightarrow> c_err c = 0 \<Longrightarrow>
    \<exists>c' w'. write_until_done e c w = Some (c', w', REDIS_OK) \<and> same_link c c' \<and> obuf_ok c' \<and> c_err c' = 0 \<and>
      queued c' = [] \<and> accepted (c_fd c) (w_events w') = accepted (c_fd c) (w_events w) @ queued c \<and>
      reads (c_fd c) (w_events w') = reads (c_fd c) (w_events w)"
proof (induction "length (queued c)" arbitrary: c w rule: less_induct)
  case less
  obtain c1 w1 st fin where b: "redisBufferWrite e c w = Some (c1, w1, st, fin)"
    and l: "same_link c c1" and o: "obuf_ok c1"
    and acc: "accepted (c_fd c) (w_events w1) @ queued c1 = accepted (c_fd c) (w_events w) @ queued c"
    and st: "if st = REDIS_OK then c_err c1 = 0 \<and> (fin \<longleftrightarrow> queued c1 = []) else c_err c1 \<noteq> 0"
    and wld: "if c_err c = 0 \<and> queued c \<noteq> []
      then w1 = snd (sys e (Write (c_fd c) (queued c)) w) \<and>
        (st = REDIS_ERR \<longrightarrow> isl (fst (sys e (Write (c_fd c) (queued c)) w)))
      else w1 = w \<and> (c_err c = 0 \<longrightarrow> st = REDIS_OK)"
    using redisBufferWrite_ok [OF m wr(1) less.prems(1), of w] unfolding write_ok_def by blast
  have rd: "reads (c_fd c) (w_events w1) = reads (c_fd c) (w_events w)"
    using wld reads_sys [of "c_fd c" e "Write (c_fd c) (queued c)" w]
    by (cases "c_err c = 0 \<and> queued c \<noteq> []") simp_all
  have ok: "st = REDIS_OK" and shorter: "queued c1 = [] \<or> length (queued c1) < length (queued c)"
  proof -
    have "st = REDIS_OK \<and> (queued c1 = [] \<or> length (queued c1) < length (queued c))"
    proof (cases "queued c = []")
      case True
      then show ?thesis using wld acc less.prems(2) by auto
    next
      case False
      obtain n where n: "e_sys e w (Write (c_fd c) (queued c)) = Inr n" "0 < n" "n \<le> length (queued c)"
        using wr(2) False unfolding eager_writes_def by blast
      then have w1: "w1 = snd (sys e (Write (c_fd c) (queued c)) w)" "st = REDIS_OK"
        using wld False less.prems(2) by (cases st; simp add: sys_def Let_def)+
      have "accepted (c_fd c) (w_events w1) = accepted (c_fd c) (w_events w) @ take n (queued c)"
        unfolding w1 accepted_write using n by (simp add: sys_def Let_def)
      then have "length (take n (queued c)) + length (queued c1) = length (queued c)"
        using arg_cong [OF acc, of length] by simp
      then show ?thesis using n w1 by simp
    qed
    then show "st = REDIS_OK" "queued c1 = [] \<or> length (queued c1) < length (queued c)" by auto
  qed
  show ?case
  proof (cases "queued c1 = []")
    case True
    then show ?thesis
      using b l o acc st ok rd by (simp add: write_until_done.simps [of e c w])
  next
    case False
    have "c_fd c1 = c_fd c" using l by (simp add: same_link_def)
    moreover obtain c' w' where "write_until_done e c1 w1 = Some (c', w', REDIS_OK)" "same_link c1 c'"
      "obuf_ok c'" "c_err c' = 0" "queued c' = []"
      "accepted (c_fd c1) (w_events w') = accepted (c_fd c1) (w_events w1) @ queued c1"
      "reads (c_fd c1) (w_events w') = reads (c_fd c1) (w_events w1)"
      using less.hyps [of c1 w1] shorter False o st ok by auto
    ultimately show ?thesis
      using b acc st ok rd False same_link_trans [OF l] by (simp add: write_until_done.simps [of e c w])
  qed
qed

section \<open>Waiting for replies\<close>

text \<open>A peer that answers the \<open>k\<close>-th read of a descriptor with the \<open>k\<close>-th chunk.\<close>

definition serves :: "env \<Rightarrow> int \<Rightarrow> (nat \<Rightarrow> string) \<Rightarrow> bool" where
  "serves e fd chunk \<longleftrightarrow>
     (\<forall>w n. e_read e w fd n = Inr (chunk (reads fd (w_events w)))) \<and>
     (\<forall>k. chunk k \<noteq> [] \<and> length (chunk k) \<le> sizeof_read_buffer)"

definition incoming :: "(nat \<Rightarrow> string) \<Rightarrow> nat \<Rightarrow> nat \<Rightarrow> string" where
  "incoming chunk k n = concat (map chunk [k..<n])"

lemma incoming_step: "k < n \<Longrightarrow> incoming chunk k n = chunk k @ incoming chunk (Suc k) n"
  by (simp add: incoming_def upt_conv_Cons)

lemma incoming_refl [simp]: "incoming chunk k k = []"
  by (simp add: incoming_def)

text \<open>A connection whose reader has taken in \<open>u\<close> since the last complete reply.\<close>

definition receiving :: "env \<Rightarrow> rcontext \<Rightarrow> string \<Rightarrow> bool" where
  "receiving e c u \<longleftrightarrow> c_err c = 0 \<and>
     (\<exists>r. c_reader c = Some r \<and> replies.synced (e_malloc e) r u \<and> (r_len r = 0 \<longrightarrow> parse [] u = PWait))"

definition reader_len :: "rcontext \<Rightarrow> nat" where
  "reader_len c = (case c_reader c of None \<Rightarrow> 0 | Some r \<Rightarrow> r_len r)"

text \<open>The reader has handed over the reply \<open>t\<close>, is between two replies, and has \<open>v\<close> in its buffer.\<close>

definition answered :: "env \<Rightarrow> heap redisReader \<Rightarrow> robj \<Rightarrow> reply \<Rightarrow> string \<Rightarrow> bool" where
  "answered e r q t v \<longleftrightarrow> in_heap (r_store r) q t \<and> replies.between (e_malloc e) r \<and> pending r = v"

lemma answered_reply_of: "answered e r q t v \<Longrightarrow> reply_of (r_store r) q = Some t"
  by (auto simp: answered_def intro: in_heap_reply_of)

lemma answered_free:
  assumes a: "answered e r q t v" and "c_err c = 0"
  shows "\<exists>h. freeReplyObject (r_store r) q = Some h \<and> receiving e (c\<lparr>c_reader := Some (r\<lparr>r_store := h\<rparr>)\<rparr>) v"
proof -
  have g: "in_heap (r_store r) q t" "replies.between (e_malloc e) r" "pending r = v"
    using a by (simp_all add: answered_def)
  obtain h where h: "freeReplyObject (r_store r) q = Some h" using in_heap_free [OF g(1)] by blast
  let ?r = "r\<lparr>r_store := h\<rparr>"
  have b: "replies.between (e_malloc e) ?r" using g(2) by (simp add: replies.between_store)
  have rest: "pending ?r = v" using g(3) by (cases "r_buf r") (simp_all add: pending_def)
  have "parse [] v = PWait" if "r_len ?r = 0"
  proof -
    have "live_buf ?r" using b by (simp add: replies.between_def)
    then have "length (pending ?r) = 0" using that pending_live [of ?r] by simp
    then show ?thesis using rest by simp
  qed
  then have "receiving e (c\<lparr>c_reader := Some ?r\<rparr>) v"
    using replies.between_synced [OF b] rest assms(2) by (simp add: receiving_def)
  then show ?thesis using h by blast
qed

lemma getReplyFromReader_ok:
  assumes m: "malloc_total (e_malloc e)" and c: "receiving e c u"
  shows "case parse [] u of
     PWait \<Rightarrow> \<exists>r'. redisGetReplyFromReader e c w = Some (c\<lparr>c_reader := Some r'\<rparr>, REDIS_OK, None) \<and>
        receiving e (c\<lparr>c_reader := Some r'\<rparr>) u \<and> r_len r' \<le> reader_len c
   | PFail n msg \<Rightarrow> \<exists>c'. redisGetReplyFromReader e c w = Some (c', REDIS_ERR, None) \<and> c_err c' = n
   | PDone t rest \<Rightarrow> \<exists>r' q. redisGetReplyFromReader e c w = Some (c\<lparr>c_reader := Some r'\<rparr>, REDIS_OK, Some q) \<and>
        answered e r' q t rest \<and> receiving e (c\<lparr>c_reader := Some r'\<rparr>) rest \<and> r_len r' \<le> reader_len c"
proof -
  obtain r where r: "c_reader c = Some r" "replies.synced (e_malloc e) r u" "r_len r = 0 \<Longrightarrow> parse [] u = PWait"
    and e0: "c_err c = 0"
    using c by (auto simp: receiving_def)
  note g = replies.getReply_synced [OF refuses_total [OF m] r(2,3)]
  show ?thesis
  proof (cases "parse [] u")
    case PWait
    then obtain r' where "redisReaderGetReply r = Some (r', REDIS_OK, None)" "replies.synced (e_malloc e) r' u" "r_len r' \<le> r_len r"
      using g by auto
    then show ?thesis using PWait r e0 by (auto simp: redisGetReplyFromReader_def receiving_def reader_len_def)
  next
    case (PFail n msg)
    then obtain r' where "redisReaderGetReply r = Some (r', REDIS_ERR, None)" "replies.stopped r' (n, msg)"
      using g by auto
    then show ?thesis
      using PFail r by (auto simp: redisGetReplyFromReader_def adopt_error_def replies.stopped_def)
  next
    case (PDone t rest)
    then obtain r' q where g': "redisReaderGetReply r = Some (r', REDIS_OK, Some q)" "in_heap (r_store r') q t"
      "replies.synced (e_malloc e) r' rest" "replies.between (e_malloc e) r'" "pending r' = rest" "r_len r' \<le> r_len r"
      using g by auto
    have "parse [] rest = PWait" if "r_len r' = 0"
    proof -
      have "live_buf r'" using g'(3) by (simp add: replies.synced_def)
      then have "length (pending r') = 0" using that pending_live [of r'] by simp
      then show ?thesis using g'(5) by simp
    qed
    then show ?thesis
      using g' PDone r e0
      by (auto simp: answered_def redisGetReplyFromReader_def receiving_def reader_len_def)
  qed
qed

lemma redisBufferRead_ok:
  assumes m: "malloc_spec (e_malloc e)" "malloc_total (e_malloc e)" and c: "receiving e c u"
    and s: "serves e (c_fd c) chunk" and k: "reads (c_fd c) (w_events w) = k"
    and len: "reader_len c + length (chunk k) < 2 ^ 31"
  shows "\<exists>r'. redisBufferRead e c w = Some (c\<lparr>c_reader := Some r'\<rparr>, snd (sys_read e (c_fd c) sizeof_read_buffer w), REDIS_OK) \<and>
    receiving e (c\<lparr>c_reader := Some r'\<rparr>) (u @ chunk k) \<and> r_len r' \<le> reader_len c + length (chunk k)"
proof -
  obtain r where r: "c_reader c = Some r" "replies.synced (e_malloc e) r u" and e0: "c_err c = 0"
    using c by (auto simp: receiving_def)
  have "r_len r + length (chunk k) < 2 ^ 31" using len r(1) by (simp add: reader_len_def)
  from replies.synced_feed [OF m r(2) this] obtain r' where
    r': "redisReaderFeed (e_malloc e) r (Some (chunk k)) (length (chunk k)) = Some (r', REDIS_OK)"
      "replies.synced (e_malloc e) r' (u @ chunk k)" "r_len r' \<le> r_len r + length (chunk k)"
      "r_len r' = 0 \<longrightarrow> chunk k = []"
    by (elim exE conjE)
  have ch: "chunk k \<noteq> []" "length (chunk k) \<le> sizeof_read_buffer"
    using s unfolding serves_def by blast+
  have "fst (sys_read e (c_fd c) sizeof_read_buffer w) = Inr (chunk k)"
    using s k unfolding serves_def by (simp add: sys_read_def Let_def)
  then have rd: "sys_read e (c_fd c) sizeof_read_buffer w = (Inr (chunk k), snd (sys_read e (c_fd c) sizeof_read_buffer w))"
    by (simp add: prod_eq_iff)
  show ?thesis
    unfolding redisBufferRead_def using e0
    by (subst rd) (use ch r r' in \<open>auto simp: receiving_def reader_len_def\<close>)
qed

lemma parse_more:
  "parse [] u = PDone t rest \<Longrightarrow> parse [] (u @ x) = PDone t (rest @ x)"
  by (rule parse_append)

lemma read_until_reply_ok:
  assumes m: "malloc_spec (e_malloc e)" "malloc_total (e_malloc e)" and s: "serves e (c_fd c) chunk"
  shows "receiving e c u \<Longrightarrow> parse [] u = PWait \<Longrightarrow> reads (c_fd c) (w_events w) = k \<Longrightarrow> k \<le> n \<Longrightarrow>
    reader_len c + length (incoming chunk k n) < 2 ^ 31 \<Longrightarrow>
    parse [] (u @ incoming chunk k n) = PDone t rest \<Longrightarrow>
    \<exists>r' w' q j u'. read_until_reply e c w = Some (c\<lparr>c_reader := Some r'\<rparr>, w', REDIS_OK, Some q) \<and>
      answered e r' q t u' \<and> receiving e (c\<lparr>c_reader := Some r'\<rparr>) u' \<and>
      reads (c_fd c) (w_events w') = j \<and> k \<le> j \<and> j \<le> n \<and> rest = u' @ incoming chunk j n \<and>
      accepted (c_fd c) (w_events w') = accepted (c_fd c) (w_events w) \<and>
      r_len r' + length (incoming chunk j n) < 2 ^ 31"
  using s
proof (induction "n - k" arbitrary: c w u k)
  case 0
  then show ?case by simp
next
  case (Suc d)
  then have kn: "k < n" by simp
  note inc = incoming_step [OF kn, of chunk]
  have "reader_len c + length (chunk k) < 2 ^ 31" using Suc.prems(5) inc by simp
  from redisBufferRead_ok [OF m Suc.prems(1) Suc.prems(7) Suc.prems(3) this] obtain r1 where
    b: "redisBufferRead e c w = Some (c\<lparr>c_reader := Some r1\<rparr>, snd (sys_read e (c_fd c) sizeof_read_buffer w), REDIS_OK)"
    and rc: "receiving e (c\<lparr>c_reader := Some r1\<rparr>) (u @ chunk k)" and l1: "r_len r1 \<le> reader_len c + length (chunk k)"
    by blast
  let ?c = "c\<lparr>c_reader := Some r1\<rparr>" and ?w = "snd (sys_read e (c_fd c) sizeof_read_buffer w)"
  have w: "reads (c_fd c) (w_events ?w) = Suc k" "accepted (c_fd c) (w_events ?w) = accepted (c_fd c) (w_events w)"
    using Suc.prems(3) by (simp_all add: reads_read accepted_read)
  note g = getReplyFromReader_ok [OF m(2) rc, of ?w]
  have whole: "parse [] ((u @ chunk k) @ incoming chunk (Suc k) n) = PDone t rest"
    using Suc.prems(6) inc by simp
  show ?case
  proof (cases "parse [] (u @ chunk k)")
    case PWait
    then obtain r2 where r2: "redisGetReplyFromReader e ?c ?w = Some (c\<lparr>c_reader := Some r2\<rparr>, REDIS_OK, None)"
        "receiving e (c\<lparr>c_reader := Some r2\<rparr>) (u @ chunk k)" "r_len r2 \<le> r_len r1"
      using g by (auto simp: reader_len_def)
    have step: "read_until_reply e c w = read_until_reply e (c\<lparr>c_reader := Some r2\<rparr>) ?w"
      using b r2(1) by (simp add: read_until_reply.simps [of e c w])
    have "reader_len (c\<lparr>c_reader := Some r2\<rparr>) + length (incoming chunk (Suc k) n) < 2 ^ 31"
      using Suc.prems(5) inc r2(3) l1 by (simp add: reader_len_def)
    from Suc.hyps(1) [OF _ r2(2) PWait _ _ this whole, of ?w]
    show ?thesis unfolding step using Suc.hyps(2) kn w Suc.prems(7) by fastforce
  next
    case (PFail x msg)
    then have "parse [] ((u @ chunk k) @ incoming chunk (Suc k) n) = PFail x msg" by (rule parse_append)
    then show ?thesis using whole by simp
  next
    case (PDone t' rest')
    then have td: "t' = t" "rest = rest' @ incoming chunk (Suc k) n"
      using parse_more [OF PDone, of "incoming chunk (Suc k) n"] whole by auto
    then obtain r2 q where r2: "redisGetReplyFromReader e ?c ?w = Some (c\<lparr>c_reader := Some r2\<rparr>, REDIS_OK, Some q)"
        "answered e r2 q t rest'" "receiving e (c\<lparr>c_reader := Some r2\<rparr>) rest'" "r_len r2 \<le> r_len r1"
      using g PDone by (auto simp: reader_len_def)
    have step: "read_until_reply e c w = Some (c\<lparr>c_reader := Some r2\<rparr>, ?w, REDIS_OK, Some q)"
      using b r2(1) by (simp add: read_until_reply.simps [of e c w])
    have "r_len r2 + length (incoming chunk (Suc k) n) < 2 ^ 31"
      using Suc.prems(5) inc r2(4) l1 by simp
    then show ?thesis unfolding step using r2 w td kn
      by (intro exI [of _ r2] exI [of _ ?w] exI [of _ q] exI [of _ "Suc k"] exI [of _ rest']) simp
  qed
qed

text \<open>A blocking connection in good order: what it has queued, and what has come in since the last
  complete reply.\<close>

definition conn_ok :: "env \<Rightarrow> rcontext \<Rightarrow> string \<Rightarrow> bool" where
  "conn_ok e c u \<longleftrightarrow> receiving e c u \<and> obuf_ok c \<and> has (c_flags c) REDIS_BLOCK"

lemma receiving_cong: "c_err c' = c_err c \<Longrightarrow> c_reader c' = c_reader c \<Longrightarrow> receiving e c' u = receiving e c u"
  by (simp add: receiving_def)

lemma conn_ok_reader: "conn_ok e c u \<Longrightarrow> receiving e (c\<lparr>c_reader := Some r\<rparr>) v \<Longrightarrow> conn_ok e (c\<lparr>c_reader := Some r\<rparr>) v"
  by (simp add: conn_ok_def obuf_ok_def)

text \<open>The reply a pointer denotes in a context.\<close>

definition denotes :: "rcontext \<Rightarrow> robj option \<Rightarrow> reply option" where
  "denotes c q = do { r \<leftarrow> c_reader c; p \<leftarrow> q; reply_of (r_store r) p }"

definition gave :: "env \<Rightarrow> rcontext \<Rightarrow> robj option \<Rightarrow> reply \<Rightarrow> string \<Rightarrow> bool" where
  "gave e c q t v \<longleftrightarrow> (\<exists>r p. c_reader c = Some r \<and> q = Some p \<and> answered e r p t v)"

lemma gave_denotes: "gave e c q t v \<Longrightarrow> denotes c q = Some t"
  by (auto simp: gave_def denotes_def dest: answered_reply_of)

lemma redisGetReply_ok:
  assumes m: "malloc_spec (e_malloc e)" "malloc_total (e_malloc e)" and wr: "writes_ok e" "eager_writes e"
    and s: "serves e (c_fd c) chunk" and c: "conn_ok e c u"
    and k: "reads (c_fd c) (w_events w) = k" "k \<le> n"
    and len: "reader_len c + length (incoming chunk k n) < 2 ^ 31"
    and p: "parse [] (u @ incoming chunk k n) = PDone t rest"
  shows "\<exists>c' w' q j u'. redisGetReply e c w = Some (c', w', REDIS_OK, q) \<and> gave e c' q t u' \<and>
    conn_ok e c' u' \<and> c_fd c' = c_fd c \<and> reads (c_fd c) (w_events w') = j \<and> k \<le> j \<and> j \<le> n \<and>
    rest = u' @ incoming chunk j n \<and> reader_len c' + length (incoming chunk j n) < 2 ^ 31 \<and>
    accepted (c_fd c) (w_events w') @ queued c' = accepted (c_fd c) (w_events w) @ queued c \<and>
    (queued c = [] \<or> parse [] u = PWait \<longrightarrow> queued c' = [])"
proof -
  have rc: "receiving e c u" and blk: "has (c_flags c) REDIS_BLOCK" using c by (simp_all add: conn_ok_def)
  note g = getReplyFromReader_ok [OF m(2) rc, of w]
  show ?thesis
  proof (cases "parse [] u")
    case (PFail x msg)
    then have "parse [] (u @ incoming chunk k n) = PFail x msg" by (rule parse_append)
    then show ?thesis using p by simp
  next
    case (PDone t' rest')
    then have td: "t' = t" "rest = rest' @ incoming chunk k n"
      using parse_more [OF PDone, of "incoming chunk k n"] p by auto
    then obtain r' q where g': "redisGetReplyFromReader e c w = Some (c\<lparr>c_reader := Some r'\<rparr>, REDIS_OK, Some q)"
        "answered e r' q t rest'" "receiving e (c\<lparr>c_reader := Some r'\<rparr>) rest'" "r_len r' \<le> reader_len c"
      using g PDone by auto
    have "redisGetReply e c w = Some (c\<lparr>c_reader := Some r'\<rparr>, w, REDIS_OK, Some q)"
      using g'(1) by (simp add: redisGetReply_def)
    then show ?thesis
      using g' k td len conn_ok_reader [OF c g'(3)] PDone
      by (intro exI [of _ "c\<lparr>c_reader := Some r'\<rparr>"] exI [of _ w] exI [of _ "Some q"] exI [of _ k] exI [of _ rest'])
        (simp add: gave_def reader_len_def queued_def)
  next
    case PWait
    then obtain r1 where g': "redisGetReplyFromReader e c w = Some (c\<lparr>c_reader := Some r1\<rparr>, REDIS_OK, None)"
        "receiving e (c\<lparr>c_reader := Some r1\<rparr>) u" "r_len r1 \<le> reader_len c"
      using g by auto
    let ?c = "c\<lparr>c_reader := Some r1\<rparr>"
    have "obuf_ok ?c" "c_err ?c = 0" using c by (simp_all add: conn_ok_def obuf_ok_def receiving_def)
    from write_until_done_ok [OF m wr this, of w] obtain c2 w2 where
      f: "write_until_done e ?c w = Some (c2, w2, REDIS_OK)" "same_link ?c c2" "obuf_ok c2" "c_err c2 = 0"
        "queued c2 = []" "accepted (c_fd c) (w_events w2) = accepted (c_fd c) (w_events w) @ queued c"
        "reads (c_fd c) (w_events w2) = reads (c_fd c) (w_events w)"
      by (auto simp: queued_def)
    have c2: "c_fd c2 = c_fd c" "c_flags c2 = c_flags c" "c_reader c2 = Some r1"
      using f(2) by (simp_all add: same_link_def)
    have rc2: "receiving e c2 u" using g'(2) f(4) c2(3) by (simp add: receiving_def)
    have s2: "serves e (c_fd c2) chunk" using s c2 by simp
    have k2: "reads (c_fd c2) (w_events w2) = k" using f(7) k(1) c2 by simp
    have len2: "reader_len c2 + length (incoming chunk k n) < 2 ^ 31"
      using len g'(3) c2(3) by (simp add: reader_len_def)
    from read_until_reply_ok [OF m s2 rc2 PWait k2 k(2) len2 p] obtain r' w' q j u' where
      l: "read_until_reply e c2 w2 = Some (c2\<lparr>c_reader := Some r'\<rparr>, w', REDIS_OK, Some q)"
        "answered e r' q t u'" "receiving e (c2\<lparr>c_reader := Some r'\<rparr>) u'"
        "reads (c_fd c2) (w_events w') = j" "k \<le> j" "j \<le> n" "rest = u' @ incoming chunk j n"
        "accepted (c_fd c2) (w_events w') = accepted (c_fd c2) (w_events w2)"
        "r_len r' + length (incoming chunk j n) < 2 ^ 31"
      by (elim exE conjE)
    have "redisGetReply e c w = Some (c2\<lparr>c_reader := Some r'\<rparr>, w', REDIS_OK, Some q)"
      using g'(1) blk f(1) l(1) by (simp add: redisGetReply_def)
    moreover have "conn_ok e (c2\<lparr>c_reader := Some r'\<rparr>) u'"
      using l(3) f(3) blk c2 by (simp add: conn_ok_def obuf_ok_def)
    moreover have "queued (c2\<lparr>c_reader := Some r'\<rparr>) = []" using f(5) by (simp add: queued_def)
    ultimately show ?thesis
      using l f c2
      by (intro exI [of _ "c2\<lparr>c_reader := Some r'\<rparr>"] exI [of _ w'] exI [of _ "Some q"] exI [of _ j] exI [of _ u'])
        (simp add: gave_def reader_len_def)
  qed
qed

section \<open>Pipelining\<close>

text \<open>A client that asks for \<open>n\<close> replies, one after the other.\<close>

fun get_replies :: "env \<Rightarrow> nat \<Rightarrow> rcontext \<Rightarrow> world \<Rightarrow> ((status \<times> reply option) list \<times> rcontext \<times> world) option" where
  "get_replies e 0 c w = Some ([], c, w)"
| "get_replies e (Suc n) c w =
     do {
       (c1, w1, st, q) \<leftarrow> redisGetReply e c w;
       (rs, c2, w2) \<leftarrow> get_replies e n c1 w1;
       Some ((st, denotes c1 q) # rs, c2, w2)
     }"

lemma get_replies_ok:
  assumes m: "malloc_spec (e_malloc e)" "malloc_total (e_malloc e)" and wr: "writes_ok e" "eager_writes e"
  shows "serves e (c_fd c) chunk \<Longrightarrow> conn_ok e c u \<Longrightarrow> reads (c_fd c) (w_events w) = k \<Longrightarrow> k \<le> N \<Longrightarrow>
    reader_len c + length (incoming chunk k N) < 2 ^ 31 \<Longrightarrow>
    n \<le> length (fst (parse_all (u @ incoming chunk k N))) \<Longrightarrow>
    \<exists>c' w'. get_replies e n c w =
        Some (map (\<lambda>t. (REDIS_OK, Some t)) (take n (fst (parse_all (u @ incoming chunk k N)))), c', w') \<and>
      accepted (c_fd c) (w_events w') @ queued c' = accepted (c_fd c) (w_events w) @ queued c \<and>
      (queued c = [] \<or> (0 < n \<and> parse [] u = PWait) \<longrightarrow> queued c' = [])"
proof (induction n arbitrary: c u w k)
  case (Suc n)
  obtain t rest where p: "parse [] (u @ incoming chunk k N) = PDone t rest"
    using Suc.prems(6) by (cases "parse [] (u @ incoming chunk k N)") (simp_all add: parse_all_PWait parse_all_PFail)
  from redisGetReply_ok [OF m wr Suc.prems(1-5) p] obtain c1 w1 q j u1 where
    g: "redisGetReply e c w = Some (c1, w1, REDIS_OK, q)" "gave e c1 q t u1"
      "conn_ok e c1 u1" "c_fd c1 = c_fd c" "reads (c_fd c) (w_events w1) = j" "k \<le> j" "j \<le> N"
      "rest = u1 @ incoming chunk j N" "reader_len c1 + length (incoming chunk j N) < 2 ^ 31"
      "accepted (c_fd c) (w_events w1) @ queued c1 = accepted (c_fd c) (w_events w) @ queued c"
      "queued c = [] \<or> parse [] u = PWait \<longrightarrow> queued c1 = []"
    by (elim exE conjE)
  have pa: "fst (parse_all (u @ incoming chunk k N)) = t # fst (parse_all rest)"
    by (simp add: parse_all_PDone [OF p])
  have "n \<le> length (fst (parse_all (u1 @ incoming chunk j N)))"
    using Suc.prems(6) pa g(8) by simp
  from Suc.IH [OF _ g(3) _ g(7) g(9) this, of w1] g(4,5) Suc.prems(1) obtain c' w' where
    r: "get_replies e n c1 w1 = Some (map (\<lambda>t. (REDIS_OK, Some t)) (take n (fst (parse_all (u1 @ incoming chunk j N)))), c', w')"
      "accepted (c_fd c) (w_events w') @ queued c' = accepted (c_fd c) (w_events w1) @ queued c1"
      "queued c1 = [] \<or> (0 < n \<and> parse [] u1 = PWait) \<longrightarrow> queued c' = []"
    by auto
  show ?case using g r pa gave_denotes [OF g(2)] by auto
qed simp

section \<open>Appending commands\<close>

lemma redisAppendCommand_raw_ok:
  assumes m: "malloc_spec (e_malloc e)" "malloc_total (e_malloc e)" and c: "conn_ok e c u"
    and n: "n \<le> length cmd" and len: "length (queued c) + n < 2 ^ 31"
  shows "\<exists>s. redisAppendCommand_raw e c w cmd n = Some (c\<lparr>c_obuf := Some s\<rparr>, REDIS_OK) \<and>
    conn_ok e (c\<lparr>c_obuf := Some s\<rparr>) u \<and> content s = queued c @ take n cmd"
proof -
  obtain b where b: "c_obuf c = Some b" "sds_wf b" using c by (auto simp: conn_ok_def obuf_ok_def)
  have "length (content b) + n < 2 ^ 63" using len b by (simp add: queued_def)
  then have "sds_ok (sdscatlen (e_malloc e) b cmd n) (content b @ take n cmd)"
    using sdscatlen_post [OF m(1) b(2), of n cmd] n sds_small_63 b(2)
    by (intro sds_okI [OF _ m(2)]) simp
  then obtain s where s: "sdscatlen (e_malloc e) b cmd n = Some (Some s)" "sds_wf s" "content s = content b @ take n cmd"
    by (auto simp: sds_ok_def)
  have "length (content s) < 2 ^ 31" using s(3) n len b(1) by (simp add: queued_def)
  then have "sdslen s < 2 ^ 31" using length_content [OF s(2)] by simp
  then show ?thesis
    using s b c by (auto simp: redisAppendCommand_raw_def conn_ok_def obuf_ok_def receiving_def queued_def)
qed

lemma redisAppendCommandArgv_ok:
  assumes m: "malloc_spec (e_malloc e)" "malloc_total (e_malloc e)" and c: "conn_ok e c u"
    and ok: "argv_ok argv lens" and len: "length (queued c) + length (command_text (argv_bytes argv lens)) < 2 ^ 31"
  shows "\<exists>s. redisAppendCommandArgv e c w (int (length argv)) argv lens = Some (c\<lparr>c_obuf := Some s\<rparr>, REDIS_OK) \<and>
    conn_ok e (c\<lparr>c_obuf := Some s\<rparr>) u \<and> content s = queued c @ command_text (argv_bytes argv lens)"
proof -
  let ?t = "command_text (argv_bytes argv lens)"
  have small: "length ?t < 2 ^ 31" using len by simp
  obtain s where s: "redisFormatSdsCommandArgv (e_malloc e) (int (length argv)) argv lens = Some (int (length ?t), Some s)"
      "sds_wf s" "content s = ?t"
    using redisFormatSdsCommandArgv_text [OF m ok small] by blast
  have sl: "sdslen s = length ?t" using length_content [OF s(2)] s(3) by simp
  have le: "length ?t \<le> length (sds_buf s)" using sds_wf_lenD [OF s(2)] sl by simp
  have tk: "take (length ?t) (sds_buf s) = ?t" using s(3) sl by (simp add: content_def)
  have nn: "nat (int (length ?t) mod 2 ^ 64) = length ?t" using small by simp
  have ne: "int (length ?t) \<noteq> -1" by simp
  from redisAppendCommand_raw_ok [OF m c le len, of w] tk nn ne s(1) show ?thesis
    by (auto simp: redisAppendCommandArgv_def)
qed

lemma redisvAppendCommand_ok:
  assumes m: "malloc_spec (e_malloc e)" "malloc_total (e_malloc e)" and c: "conn_ok e c u"
    and ws: "format_words fl (cstr format) ap [] False = Some (Some ws)"
    and len: "length (queued c) + length (command_text ws) < 2 ^ 31 - 1"
  shows "\<exists>s. redisvAppendCommand e fl c w format ap = Some (c\<lparr>c_obuf := Some s\<rparr>, REDIS_OK) \<and>
    conn_ok e (c\<lparr>c_obuf := Some s\<rparr>) u \<and> content s = queued c @ command_text ws"
proof -
  have small: "length (command_text ws) < 2 ^ 31 - 1" using len by simp
  have f: "redisvFormatCommand (e_malloc e) fl format ap = Some (int (length (command_text ws)), Some (command_text ws @ [NUL]))"
    using redisvFormatCommand_words [OF m ws] small by simp
  have nn: "nat (int (length (command_text ws)) mod 2 ^ 64) = length (command_text ws)" using small by simp
  have ne: "int (length (command_text ws)) \<noteq> -1" "int (length (command_text ws)) \<noteq> -2" by simp_all
  have "length (queued c) + length (command_text ws) < 2 ^ 31" using len by simp
  from redisAppendCommand_raw_ok [OF m c _ this, of "command_text ws @ [NUL]" w] nn ne f show ?thesis
    by (auto simp: redisvAppendCommand_def)
qed

fun append_commands ::
  "env \<Rightarrow> (string list \<times> nat list option) list \<Rightarrow> rcontext \<Rightarrow> world \<Rightarrow> rcontext option" where
  "append_commands e [] c w = Some c"
| "append_commands e ((argv, lens) # cmds) c w =
     do {
       (c1, st) \<leftarrow> redisAppendCommandArgv e c w (int (length argv)) argv lens;
       if st = REDIS_OK then append_commands e cmds c1 w else None
     }"

definition commands_text :: "(string list \<times> nat list option) list \<Rightarrow> string" where
  "commands_text cmds = concat (map (\<lambda>(argv, lens). command_text (argv_bytes argv lens)) cmds)"

lemma append_commands_ok:
  assumes m: "malloc_spec (e_malloc e)" "malloc_total (e_malloc e)"
  shows "conn_ok e c u \<Longrightarrow> \<forall>(argv, lens) \<in> set cmds. argv_ok argv lens \<Longrightarrow>
    length (queued c) + length (commands_text cmds) < 2 ^ 31 \<Longrightarrow>
    \<exists>b. append_commands e cmds c w = Some (c\<lparr>c_obuf := b\<rparr>) \<and> conn_ok e (c\<lparr>c_obuf := b\<rparr>) u \<and>
      queued (c\<lparr>c_obuf := b\<rparr>) = queued c @ commands_text cmds"
proof (induction cmds arbitrary: c)
  case Nil
  then show ?case by (auto simp: commands_text_def intro: exI [of _ "c_obuf c"])
next
  case (Cons cmd cmds)
  obtain argv lens where cmd: "cmd = (argv, lens)" by (cases cmd)
  have ok: "argv_ok argv lens" using Cons.prems(2) cmd by simp
  have "length (queued c) + length (command_text (argv_bytes argv lens)) < 2 ^ 31"
    using Cons.prems(3) cmd by (simp add: commands_text_def)
  from redisAppendCommandArgv_ok [OF m Cons.prems(1) ok this, of w] obtain s where
    s: "redisAppendCommandArgv e c w (int (length argv)) argv lens = Some (c\<lparr>c_obuf := Some s\<rparr>, REDIS_OK)"
      "conn_ok e (c\<lparr>c_obuf := Some s\<rparr>) u" "content s = queued c @ command_text (argv_bytes argv lens)"
    by blast
  have q: "queued (c\<lparr>c_obuf := Some s\<rparr>) = queued c @ command_text (argv_bytes argv lens)"
    using s(3) by (simp add: queued_def)
  have "length (queued (c\<lparr>c_obuf := Some s\<rparr>)) + length (commands_text cmds) < 2 ^ 31"
    using Cons.prems(3) cmd q by (simp add: commands_text_def)
  from Cons.IH [OF s(2) _ this] Cons.prems(2) obtain b where
    "append_commands e cmds (c\<lparr>c_obuf := Some s\<rparr>) w = Some (c\<lparr>c_obuf := b\<rparr>)" "conn_ok e (c\<lparr>c_obuf := b\<rparr>) u"
    "queued (c\<lparr>c_obuf := b\<rparr>) = queued (c\<lparr>c_obuf := Some s\<rparr>) @ commands_text cmds"
    by auto
  then show ?case using s(1) q cmd by (auto simp: commands_text_def)
qed

section \<open>A new connection\<close>

text \<open>The reader of a context is between two replies and has nothing left to read.\<close>

definition resting :: "env \<Rightarrow> rcontext \<Rightarrow> bool" where
  "resting e c \<longleftrightarrow> (\<exists>r. c_reader c = Some r \<and> replies.between (e_malloc e) r \<and> pending r = [])"

lemma redisContextInit_ok:
  assumes m: "malloc_spec (e_malloc e)" "malloc_total (e_malloc e)"
  shows "\<exists>c. redisContextInit e h = Some (Some c) \<and> receiving e c [] \<and> obuf_ok c \<and> queued c = [] \<and>
    reader_len c = 0 \<and> c_fd c = 0 \<and> c_flags c = 0 \<and> c_timeout c = None \<and> resting e c"
proof -
  obtain s where s: "sdsempty (e_malloc e) = Some (Some s)" "sds_wf s" "content s = []"
    using sdsempty_ok [OF m] by (auto simp: sds_ok_def)
  obtain blk where "e_malloc e sizeof_redisReader = Some blk"
    using m(2) unfolding malloc_total_def by blast
  then obtain r where r: "redisReaderCreateWithFunctions (e_malloc e) h (Some (defaultFunctions (e_malloc e))) = Some (Some r)"
    using s by (simp add: redisReaderCreateWithFunctions_def sds_bind_def)
  note sy = replies.created_synced [OF m(1) r]
  obtain blk2 where "e_malloc e sizeof_redisContext = Some blk2"
    using m(2) unfolding malloc_total_def by blast
  moreover have "sdslen s < 2 ^ 31" using length_content [OF s(2)] s(3) by simp
  ultimately show ?thesis
    using s r sy by (auto simp: redisContextInit_def receiving_def obuf_ok_def queued_def reader_len_def resting_def)
qed

lemma has_BLOCK: "has (f OR REDIS_BLOCK) REDIS_BLOCK"
  by (simp add: has_def REDIS_BLOCK_def word_ao_dist)

lemma BLOCK_CONNECTED: "has (f OR REDIS_CONNECTED) REDIS_BLOCK = has f REDIS_BLOCK"
  by (simp add: has_def REDIS_BLOCK_def REDIS_CONNECTED_def word_ao_dist)

lemma no_REUSEADDR: "\<not> has (0 OR REDIS_BLOCK) REDIS_REUSEADDR"
  by (simp add: has_def REDIS_BLOCK_def REDIS_REUSEADDR_def)

lemma connect_new_ready:
  assumes m: "malloc_spec (e_malloc e)" "malloc_total (e_malloc e)"
    and att: "\<And>c. c_fd c = 0 \<Longrightarrow> c_timeout c = None \<Longrightarrow> attempt_ok c w (connect c w)"
  shows "\<exists>c w'. connect_new e h w (\<lambda>f. f OR REDIS_BLOCK) connect = Some (Some c, w') \<and>
    (c_err c = 0 \<longrightarrow> conn_ok e c [] \<and> queued c = [] \<and> reader_len c = 0 \<and> has (c_flags c) REDIS_CONNECTED \<and>
       c_fd c \<notin> fds w \<and> fds w' = insert (c_fd c) (fds w))"
proof -
  obtain c where c: "redisContextInit e h = Some (Some c)" "receiving e c []" "obuf_ok c" "queued c = []"
    "reader_len c = 0" "c_fd c = 0" "c_flags c = 0" "c_timeout c = None"
    using redisContextInit_ok [OF m] by blast
  let ?c = "c\<lparr>c_flags := c_flags c OR REDIS_BLOCK\<rparr>"
  obtain c' w' st where r: "connect ?c w = Some (c', w', st)"
    and o: "if st = REDIS_OK then up ?c w c' w' else lost ?c w c' w'"
    using att [of ?c] c unfolding attempt_ok_def by auto
  have "conn_ok e c' [] \<and> queued c' = [] \<and> reader_len c' = 0 \<and> has (c_flags c') REDIS_CONNECTED \<and>
       c_fd c' \<notin> fds w \<and> fds w' = insert (c_fd c') (fds w)" if "c_err c' = 0"
  proof -
    have "st = REDIS_OK" using o that c(7) no_REUSEADDR by (cases st) (simp_all add: lost_def)
    then have u: "up ?c w c' w'" using o by simp
    then show ?thesis
      using c by (simp add: up_def framed_def conn_ok_def receiving_def obuf_ok_def queued_def reader_len_def
          has_CONNECTED has_BLOCK [of 0, simplified] BLOCK_CONNECTED)
  qed
  then show ?thesis using c(1) r by (auto simp: connect_new_def)
qed

section \<open>Failures\<close>

lemma adopt_error_err: "adopt_error e c w r = Some c' \<Longrightarrow> c_err c' = r_err r"
  by (auto simp: adopt_error_def)

lemma readerGetReply_err: "redisReaderGetReply r = Some (r', REDIS_ERR, q) \<Longrightarrow> r_err r' \<noteq> 0"
  by (auto simp: redisReaderGetReply_def split: if_splits Option.bind_splits)

lemma readerFeed_err: "redisReaderFeed m r buf n = Some (r', REDIS_ERR) \<Longrightarrow> r_err r' \<noteq> 0"
  by (auto simp: redisReaderFeed_def redisReaderSetErrorOOM_def redisReaderSetError_def err_types
      split: if_splits option.splits Option.bind_splits)

lemma getReplyFromReader_err: "redisGetReplyFromReader e c w = Some (c', REDIS_ERR, q) \<Longrightarrow> c_err c' \<noteq> 0"
  by (auto simp: redisGetReplyFromReader_def dest!: readerGetReply_err adopt_error_err
      split: if_splits Option.bind_splits)

lemma redisSetError_err: "redisSetError e c w t msg = Some c' \<Longrightarrow> c_err c' = t"
  by (auto simp: redisSetError_def split: option.splits if_splits)

lemma err_types_nz' [simp]: "REDIS_ERR_EOF \<noteq> 0" "REDIS_ERR_OOM \<noteq> 0"
  by (simp_all add: err_types)

lemma not_OK: "st \<noteq> REDIS_OK \<longleftrightarrow> st = REDIS_ERR"
  by (cases st) simp_all

lemma redisBufferRead_err: "redisBufferRead e c w = Some (c', w', REDIS_ERR) \<Longrightarrow> c_err c' \<noteq> 0"
  unfolding redisBufferRead_def
  by (auto simp: not_OK dest: redisSetError_err dest!: adopt_error_err readerFeed_err
      split: if_splits Option.bind_splits prod.splits sum.splits)

lemma redisBufferWrite_err: "redisBufferWrite e c w = Some (c', w', REDIS_ERR, d) \<Longrightarrow> c_err c' \<noteq> 0"
  unfolding redisBufferWrite_def Let_def
  by (auto dest: redisSetError_err split: if_splits Option.bind_splits prod.splits sum.splits)

lemma redisBufferRead_flags: "redisBufferRead e c w = Some (c', w', st) \<Longrightarrow> c_flags c' = c_flags c"
  unfolding redisBufferRead_def
  by (auto simp: redisSetError_def adopt_error_def split: if_splits Option.bind_splits prod.splits sum.splits option.splits)

lemma write_until_done_err:
  assumes "write_until_done e c w = Some res"
  shows "snd (snd res) = REDIS_ERR \<longrightarrow> c_err (fst res) \<noteq> 0"
  by (rule write_until_done.raw_induct [OF _ assms, where P = "\<lambda>e c w res. snd (snd res) = REDIS_ERR \<longrightarrow> c_err (fst res) \<noteq> 0"])
    (auto dest: redisBufferWrite_err split: if_splits Option.bind_splits)

lemma read_until_reply_err:
  assumes "read_until_reply e c w = Some res"
  shows "(fst (snd (snd res)) = REDIS_ERR \<longrightarrow> c_err (fst res) \<noteq> 0) \<and>
    (fst (snd (snd res)) \<noteq> REDIS_ERR \<longrightarrow> snd (snd (snd res)) \<noteq> None)"
  by (rule read_until_reply.raw_induct [OF _ assms, where P = "\<lambda>e c w res.
        (fst (snd (snd res)) = REDIS_ERR \<longrightarrow> c_err (fst res) \<noteq> 0) \<and>
        (fst (snd (snd res)) \<noteq> REDIS_ERR \<longrightarrow> snd (snd (snd res)) \<noteq> None)"])
    (fastforce dest: redisBufferRead_err getReplyFromReader_err split: if_splits Option.bind_splits)

lemma redisGetReply_err:
  assumes "redisGetReply e c w = Some (c', w', st, q)" and "has (c_flags c) REDIS_BLOCK"
  shows "if st = REDIS_ERR then c_err c' \<noteq> 0 else q \<noteq> None"
proof -
  obtain c1 st1 aux where g: "redisGetReplyFromReader e c w = Some (c1, st1, aux)"
    using assms(1) by (auto simp: redisGetReply_def split: Option.bind_splits)
  have "c_flags c1 = c_flags c"
    using g by (auto simp: redisGetReplyFromReader_def adopt_error_def split: if_splits Option.bind_splits)
  moreover have "st1 = REDIS_ERR \<Longrightarrow> c_err c1 \<noteq> 0" using g getReplyFromReader_err by blast
  ultimately show ?thesis
    using assms g unfolding redisGetReply_def
    by (auto simp: not_OK dest!: write_until_done_err read_until_reply_err
        split: if_splits Option.bind_splits)
qed

section \<open>An example\<close>

lemma redisConnectFd_ok:
  assumes m: "malloc_spec (e_malloc e)" "malloc_total (e_malloc e)"
  shows "\<exists>c. redisConnectFd e h fd = Some (Some c) \<and> conn_ok e c [] \<and> queued c = [] \<and> reader_len c = 0 \<and> c_fd c = fd \<and>
    resting e c"
proof -
  obtain c where c: "redisContextInit e h = Some (Some c)" "receiving e c []" "obuf_ok c" "queued c = []"
    "reader_len c = 0" "c_flags c = 0" "resting e c"
    using redisContextInit_ok [OF m] by blast
  have "has (0 OR (REDIS_BLOCK OR REDIS_CONNECTED)) REDIS_BLOCK"
    by (simp add: has_def REDIS_BLOCK_def REDIS_CONNECTED_def)
  then show ?thesis
    using c by (auto simp: redisConnectFd_def conn_ok_def receiving_def obuf_ok_def queued_def reader_len_def resting_def)
qed

definition answer_text :: string where "answer_text = '':42'' @ CRLF"

definition sample_server :: env where
  "sample_server = sample_env\<lparr>e_read := (\<lambda>w fd n. Inr answer_text)\<rparr>"

lemma sample_server_ok:
  "malloc_spec (e_malloc sample_server)" "malloc_total (e_malloc sample_server)" "writes_ok sample_server"
  "eager_writes sample_server" "serves sample_server fd (\<lambda>k. answer_text)"
  using zero_malloc_ok
  by (simp_all add: sample_server_def sample_env_def writes_ok_def eager_writes_def obliging_def serves_def
      answer_text_def sizeof_read_buffer_def)

lemma two_chunks: "incoming (\<lambda>k. answer_text) 0 2 = answer_text @ answer_text"
proof -
  have "[0..<2] = [0, 1 :: nat]" by (simp add: upt_rec)
  then show ?thesis by (simp add: incoming_def)
qed

lemma two_answers: "parse_all (incoming (\<lambda>k. answer_text) 0 2) = ([RInt 42, RInt 42], None)"
proof -
  have "incoming (\<lambda>k. answer_text) 0 2 = concat (map encode [RInt 42, RInt 42]) @ []"
    unfolding two_chunks by (simp add: answer_text_def encode_sample del: encode.simps)
  then show ?thesis
    using parse_all_encode [of "[RInt 42, RInt 42]" "[]"] wf_samples by (simp only: parse_all_PWait [OF parse_Nil]) simp
qed

abbreviation new_world :: world where "new_world \<equiv> \<lparr>w_events = [], w_errno = 0\<rparr>"

section \<open>What the client promises\<close>

text \<open>C15. Pipelining on a blocking connection: commands are sent in the order they were appended, each
  byte once, and when the peer's answer holds \<open>n\<close> replies, however it is cut into reads, then \<open>n\<close>
  calls of \<open>redisGetReply\<close> return, without error, exactly those replies in order.\<close>

theorem pipelined_replies:
  assumes "malloc_spec (e_malloc e)" and "malloc_total (e_malloc e)" and "writes_ok e" and "eager_writes e"
    and "serves e (c_fd c) chunk" and "conn_ok e c []" and "queued c = []"
    and "\<forall>(argv, lens) \<in> set cmds. argv_ok argv lens" and "length (commands_text cmds) < 2 ^ 31"
    and "reads (c_fd c) (w_events w) \<le> N"
    and "reader_len c + length (incoming chunk (reads (c_fd c) (w_events w)) N) < 2 ^ 31"
    and "parse_all (incoming chunk (reads (c_fd c) (w_events w)) N) = (ts, err)" and "0 < n" and "n \<le> length ts"
  shows "\<exists>c1 c' w'. append_commands e cmds c w = Some c1 \<and>
    get_replies e n c1 w = Some (map (\<lambda>t. (REDIS_OK, Some t)) (take n ts), c', w') \<and>
    queued c' = [] \<and> accepted (c_fd c) (w_events w') = accepted (c_fd c) (w_events w) @ commands_text cmds"
proof -
  from append_commands_ok [OF assms(1,2,6,8), of w] assms(7,9) obtain b where
    b: "append_commands e cmds c w = Some (c\<lparr>c_obuf := b\<rparr>)" "conn_ok e (c\<lparr>c_obuf := b\<rparr>) []"
      "queued (c\<lparr>c_obuf := b\<rparr>) = commands_text cmds"
    by auto
  have "reader_len (c\<lparr>c_obuf := b\<rparr>) = reader_len c" by (simp add: reader_len_def)
  from get_replies_ok [OF assms(1-4) _ b(2) refl, of chunk w N n] this assms(5,10,11,12,13,14) b(1,3)
  show ?thesis by (auto simp: parse_all_PWait)
qed

theorem pipelined_replies_witness:
  "\<exists>c c1 c' w'. redisConnectFd sample_server [] 5 = Some (Some c) \<and>
    append_commands sample_server [([''PING''], None), ([''PING''], None)] c new_world = Some c1 \<and>
    get_replies sample_server 2 c1 new_world = Some ([(REDIS_OK, Some (RInt 42)), (REDIS_OK, Some (RInt 42))], c', w') \<and>
    accepted 5 (w_events w') = commands_text [([''PING''], None), ([''PING''], None)]"
proof -
  obtain c where c: "redisConnectFd sample_server [] 5 = Some (Some c)" "conn_ok sample_server c []"
    "queued c = []" "reader_len c = 0" "c_fd c = 5"
    using redisConnectFd_ok [OF sample_server_ok(1,2)] by blast
  let ?cmds = "[([''PING''], None :: nat list option), ([''PING''], None)]"
  have small: "length (commands_text ?cmds) < 2 ^ 31"
    by (simp add: commands_text_def argv_bytes_def command_text_def bulk_text_def length_dec_nat cstr_def)
  have inc: "length (incoming (\<lambda>k. answer_text) 0 2) < 2 ^ 31"
    unfolding two_chunks by (simp add: answer_text_def)
  show ?thesis
    using pipelined_replies [OF sample_server_ok(1-4) sample_server_ok(5) c(2,3), of ?cmds new_world 2
        "[RInt 42, RInt 42]" None 2] c small inc two_answers
    by (simp add: argv_ok_def del: append_commands.simps) blast
qed

text \<open>C36. \<open>redisBufferWrite\<close> loses and duplicates nothing: what the socket has taken, followed by what is
  still queued, is what it was before, whether the write is short, refused or complete; it reports
  \<open>done\<close> exactly when nothing is queued, and an error only with the context's error set.\<close>

theorem buffer_write_conserves:
  assumes "malloc_spec (e_malloc e)" and "malloc_total (e_malloc e)" and "writes_ok e" and "obuf_ok c"
  shows "\<exists>c' w' st done. redisBufferWrite e c w = Some (c', w', st, done) \<and> obuf_ok c' \<and>
    accepted (c_fd c) (w_events w') @ queued c' = accepted (c_fd c) (w_events w) @ queued c \<and>
    (if st = REDIS_OK then c_err c' = 0 \<and> (done \<longleftrightarrow> queued c' = []) else c_err c' \<noteq> 0)"
  using redisBufferWrite_ok [OF assms, of w] unfolding write_ok_def by blast

theorem buffer_write_conserves_witness:
  "\<exists>c c' w' st done. redisConnectFd sample_server [] 5 = Some (Some c) \<and>
    redisBufferWrite sample_server c new_world = Some (c', w', st, done) \<and>
    accepted 5 (w_events w') @ queued c' = queued c"
proof -
  obtain c where c: "redisConnectFd sample_server [] 5 = Some (Some c)" "conn_ok sample_server c []" "c_fd c = 5"
    using redisConnectFd_ok [OF sample_server_ok(1,2)] by blast
  have "obuf_ok c" using c(2) by (simp add: conn_ok_def)
  from buffer_write_conserves [OF sample_server_ok(1-3) this, of new_world] c show ?thesis by auto
qed

text \<open>A formatted command is queued as the command of the words of its format behind what is queued
  already; a bad format queues nothing and is the context's error.\<close>

theorem append_formatted:
  assumes "malloc_spec (e_malloc e)" and "malloc_total (e_malloc e)" and "conn_ok e c u"
    and "format_words fl (cstr format) ap [] False = Some r"
    and "\<And>ws. r = Some ws \<Longrightarrow> length (queued c) + length (command_text ws) < 2 ^ 31 - 1"
  shows "\<exists>c' st. redisAppendCommand e fl c w format ap = Some (c', st) \<and>
    (case r of
       None \<Rightarrow> st = REDIS_ERR \<and> c_err c' = REDIS_ERR_OTHER \<and> c_errstr c' = ''Invalid format string'' \<and>
         c_obuf c' = c_obuf c
     | Some ws \<Rightarrow> st = REDIS_OK \<and> conn_ok e c' u \<and> queued c' = queued c @ command_text ws)"
proof (cases r)
  case None
  have t: "take 127 (cstr ''Invalid format string'') = ''Invalid format string''" by (simp add: cstr_def)
  have "redisvFormatCommand (e_malloc e) fl format ap = Some (-2, None)"
    using redisvFormatCommand_words [OF assms(1,2,4)] None by simp
  then show ?thesis
    using None t by (simp add: redisAppendCommand_def redisvAppendCommand_def)
next
  case (Some ws)
  from redisvAppendCommand_ok [OF assms(1-3), of fl format ap ws w] assms(4,5) Some obtain s where
    "redisvAppendCommand e fl c w format ap = Some (c\<lparr>c_obuf := Some s\<rparr>, REDIS_OK)"
    "conn_ok e (c\<lparr>c_obuf := Some s\<rparr>) u" "content s = queued c @ command_text ws"
    by auto
  then show ?thesis using Some by (simp add: redisAppendCommand_def queued_def)
qed

theorem append_formatted_witness:
  "\<exists>c c'. redisConnectFd sample_server [] 5 = Some (Some c) \<and>
    redisAppendCommand sample_server (\<lambda>_ _. []) c new_world ''GET %s'' [CStr ''k''] = Some (c', REDIS_OK) \<and>
    queued c' = command_text [''GET'', ''k'']"
proof -
  obtain c where c: "redisConnectFd sample_server [] 5 = Some (Some c)" "conn_ok sample_server c []"
    "queued c = []"
    using redisConnectFd_ok [OF sample_server_ok(1,2)] by blast
  have cs: "cstr ''GET %s'' = ''GET %s''" "cstr ''k'' = ''k''" by (simp_all add: cstr_def)
  have f: "format_words (\<lambda>_ _. []) (cstr ''GET %s'') [CStr ''k''] [] False = Some (Some [''GET'', ''k''])"
    unfolding cs(1) by (simp add: format_words.simps directive_text_def cs(2))
  have "length (command_text [''GET'', ''k'']) < 2 ^ 31 - 1"
    by (simp add: command_text_def bulk_text_def length_dec_nat)
  then show ?thesis
    using append_formatted [OF sample_server_ok(1,2) c(2) f, of new_world] c(1,3) by auto
qed

text \<open>A NULL reply of a blocking command always comes with an error in the context, as the
  documentation of \<open>__redisBlockForReply\<close> says.\<close>

theorem null_reply_has_error:
  assumes "redisCommandArgv e c w argc argv lens = Some (c', w', None)" and "has (c_flags c) REDIS_BLOCK"
  shows "c_err c' \<noteq> 0"
proof -
  obtain c1 st where a: "redisAppendCommandArgv e c w argc argv lens = Some (c1, st)"
    using assms(1) by (auto simp: redisCommandArgv_def split: Option.bind_splits)
  then have f: "c_flags c1 = c_flags c" and er: "st = REDIS_ERR \<Longrightarrow> c_err c1 \<noteq> 0"
    by (auto simp: redisAppendCommandArgv_def redisAppendCommand_raw_def
        split: if_splits Option.bind_splits option.splits)
  show ?thesis
  proof (cases st)
    case REDIS_ERR
    then show ?thesis using assms(1) a er by (simp add: redisCommandArgv_def)
  next
    case REDIS_OK
    then obtain st2 q where "redisGetReply e c1 w = Some (c', w', st2, q)" "(if st2 = REDIS_OK then q else None) = None"
      using assms a f by (auto simp: redisCommandArgv_def redisBlockForReply_def split: Option.bind_splits)
    then show ?thesis
      using redisGetReply_err [of e c1 w c' w' st2 q] assms(2) f by (cases st2) (auto split: if_splits)
  qed
qed

text \<open>A reader with nothing to read finds nothing and stays without a reply of its own.\<close>

lemma resting_reply:
  assumes "resting e c"
  shows "\<exists>r. redisGetReplyFromReader e c w = Some (c\<lparr>c_reader := Some r\<rparr>, REDIS_OK, None) \<and> r_reply r = None"
proof -
  obtain r where r: "c_reader c = Some r" "replies.between (e_malloc e) r" "pending r = []"
    using assms by (auto simp: resting_def)
  have b: "live_buf r" "length (r_rstack r) = 9" "r_ridx r = -1" "r_err r = 0" "r_reply r = None"
    using r(2) by (simp_all add: replies.between_def)
  show ?thesis
  proof (cases "r_len r = 0")
    case True
    then have "redisGetReplyFromReader e c w = Some (c\<lparr>c_reader := Some r\<rparr>, REDIS_OK, None)"
      using r(1) b by (simp add: redisGetReplyFromReader_def redisReaderGetReply_def)
    then show ?thesis using b(5) by blast
  next
    case False
    have i: "items (start_root (core r)) (pending r) = Some (start_root (core r), REDIS_ERR, [])"
      using b r(3) by (simp add: items.simps start_root_def item_def task_at_def set_task_def)
    have c0: "r_err (start_root (core r)) = 0" "r_ridx (start_root (core r)) = 0" "r_reply (start_root (core r)) = None"
      using b by (simp_all add: start_root_def)
    obtain r' where "redisReaderGetReply r = Some (r', REDIS_OK, None)" "core r' = start_root (core r)"
      using getReply_items [OF b(1,4) False i] c0 by auto
    moreover have "r_reply r' = None" using arg_cong [OF calculation(2), of r_reply] c0(3) by simp
    moreover have "redisGetReplyFromReader e c w = Some (c\<lparr>c_reader := Some r'\<rparr>, REDIS_OK, None)"
      using calculation(1) r(1) by (simp add: redisGetReplyFromReader_def)
    ultimately show ?thesis by blast
  qed
qed

lemma closed_command:
  assumes c: "conn_ok sample_env c []" "queued c = []"
  shows "\<exists>c' w'. redisCommandArgv sample_env c new_world 1 [''PING''] None = Some (c', w', None)"
proof -
  have m: "malloc_spec (e_malloc sample_env)" "malloc_total (e_malloc sample_env)" "writes_ok sample_env"
      "eager_writes sample_env"
    using zero_malloc_ok by (simp_all add: sample_env_def writes_ok_def eager_writes_def obliging_def)
  have "length (queued c) + length (command_text (argv_bytes [''PING''] None)) < 2 ^ 31"
    using c(2) by (simp add: argv_bytes_def command_text_def bulk_text_def length_dec_nat cstr_def)
  from redisAppendCommandArgv_ok [OF m(1,2) c(1) _ this, of new_world] obtain s where
    s: "redisAppendCommandArgv sample_env c new_world 1 [''PING''] None = Some (c\<lparr>c_obuf := Some s\<rparr>, REDIS_OK)"
      "conn_ok sample_env (c\<lparr>c_obuf := Some s\<rparr>) []"
    by (auto simp: argv_ok_def)
  let ?c = "c\<lparr>c_obuf := Some s\<rparr>"
  obtain r where r: "redisGetReplyFromReader sample_env ?c new_world = Some (?c\<lparr>c_reader := Some r\<rparr>, REDIS_OK, None)"
      "receiving sample_env (?c\<lparr>c_reader := Some r\<rparr>) []"
    using getReplyFromReader_ok [OF m(2), of ?c "[]" new_world] s(2) by (auto simp: conn_ok_def)
  let ?d = "?c\<lparr>c_reader := Some r\<rparr>"
  have "obuf_ok ?d" "c_err ?d = 0" using s(2) r(2) by (simp_all add: conn_ok_def obuf_ok_def receiving_def)
  from write_until_done_ok [OF m this, of new_world] obtain c2 w2 where
    f: "write_until_done sample_env ?d new_world = Some (c2, w2, REDIS_OK)" "c_err c2 = 0"
    by blast
  have "\<exists>c3 w3. redisBufferRead sample_env c2 w2 = Some (c3, w3, REDIS_ERR)"
    using f(2) by (simp add: redisBufferRead_def sample_env_def sys_read_def Let_def)
  then obtain c3 w3 where "redisBufferRead sample_env c2 w2 = Some (c3, w3, REDIS_ERR)" by blast
  then have "read_until_reply sample_env c2 w2 = Some (c3, w3, REDIS_ERR, None)"
    by (simp add: read_until_reply.simps [of sample_env c2 w2])
  moreover have "has (c_flags ?d) REDIS_BLOCK" using s(2) by (simp add: conn_ok_def)
  ultimately show ?thesis
    using s(1) r(1) f(1) by (simp add: redisCommandArgv_def redisBlockForReply_def redisGetReply_def)
qed

theorem null_reply_has_error_witness:
  "\<exists>c c' w'. redisConnectFd sample_env [] 5 = Some (Some c) \<and>
    redisCommandArgv sample_env c new_world 1 [''PING''] None = Some (c', w', None) \<and> c_err c' \<noteq> 0"
proof -
  have "malloc_spec (e_malloc sample_env)" "malloc_total (e_malloc sample_env)"
    using zero_malloc_ok by (simp_all add: sample_env_def)
  then obtain c where c: "redisConnectFd sample_env [] 5 = Some (Some c)" "conn_ok sample_env c []" "queued c = []"
    using redisConnectFd_ok by blast
  obtain c' w' where "redisCommandArgv sample_env c new_world 1 [''PING''] None = Some (c', w', None)"
    using closed_command [OF c(2,3)] by blast
  then show ?thesis
    using null_reply_has_error [of sample_env c new_world 1 "[''PING'']" None c' w'] c by (auto simp: conn_ok_def)
qed

text \<open>C37. A context made by \<open>redisConnect\<close> is ready to use unless it has an error: connected, blocking,
  nothing queued, the reader at the start of a reply; and its socket is the only descriptor added.\<close>

theorem redisConnect_ready:
  assumes "malloc_spec (e_malloc e)" and "malloc_total (e_malloc e)" and "fresh_sockets e" and "0 \<notin> fds w"
  shows "\<exists>c w'. redisConnect e h w ip port = Some (Some c, w') \<and>
    (c_err c = 0 \<longrightarrow> conn_ok e c [] \<and> queued c = [] \<and> reader_len c = 0 \<and> has (c_flags c) REDIS_CONNECTED \<and>
       c_fd c \<notin> fds w \<and> fds w' = insert (c_fd c) (fds w))"
  unfolding redisConnect_def redisContextConnectTcp_def
  by (rule connect_new_ready [OF assms(1,2)], rule redisContextConnectBindTcp_attempt [OF assms(3,2)])
    (use assms(4) in \<open>simp_all add: timeval_ok_def\<close>)

theorem redisConnect_ready_witness:
  "\<exists>c w'. redisConnect sample_env [] new_world ''localhost'' 6379 = Some (Some c, w') \<and>
    (c_err c = 0 \<longrightarrow> conn_ok sample_env c [] \<and> fds w' = {c_fd c})"
proof -
  have "malloc_spec (e_malloc sample_env)" using zero_malloc_ok by (simp add: sample_env_def)
  from redisConnect_ready [OF this sample_env_fresh(2,1), of new_world "[]" "''localhost''" 6379] show ?thesis by auto
qed

end
