(* ===== verification/Dict.thy ===== *)
theory Dict
  imports Prelude "HOL-Library.Multiset"
begin

unbundle bit_operations_syntax

text \<open>
  The hash table of \<open>redis/dict.c\<close> and \<open>redis/dict.h\<close>, which \<open>async.c\<close> uses for its subscription
  callbacks.

  A chain is the list of its entries; an entry carries the address \<open>malloc\<close> gave it, which is what
  an iterator holds on to.  \<open>table\<close> is the array of chains, \<open>[]\<close> for NULL; reading or writing
  outside of it, and using an entry that is not in its chain any more, is \<open>None\<close>.  Addresses and
  the result of \<open>calloc\<close> are arguments (\<open>None\<close> for NULL, which the code does not check).

  The function pointers of \<open>dictType\<close> are functions of the record \<open>dictType\<close>, applied to \<open>privdata\<close>
  already; the destructors are represented by whether they are there, and the calls to them by
  the list of what is freed.

  \<open>dict_map\<close> is the finite map a table stands for; the interface \<open>map_store\<close> states what its users
  rely on, and the interpretation at the end shows that the table provides it.
\<close>

section \<open>Data\<close>

datatype ('k, 'v) freed = FreedKey 'k | FreedVal 'v

record ('k, 'v) dictType =
  hashFunction :: "'k \<Rightarrow> nat"
  keyDup :: "('k \<Rightarrow> 'k) option"
  valDup :: "('v \<Rightarrow> 'v) option"
  keyCompare :: "('k \<Rightarrow> 'k \<Rightarrow> bool) option"
  keyDestructor :: bool
  valDestructor :: bool

record ('k, 'v) dictEntry =
  de_addr :: nat
  de_key :: 'k
  de_val :: 'v

record ('k, 'v) dict =
  d_table :: "('k, 'v) dictEntry list list"
  d_size :: nat
  d_sizemask :: nat
  d_used :: nat

record ('k, 'v) dictIterator =
  it_index :: int
  it_entry :: "nat option"
  it_nextEntry :: "nat option"

definition DICT_HT_INITIAL_SIZE :: nat where "DICT_HT_INITIAL_SIZE = 4"

datatype dict_status = DICT_OK | DICT_ERR

text \<open>The macros of the header.\<close>

definition dictCompareHashKeys :: "('k, 'v) dictType \<Rightarrow> 'k \<Rightarrow> 'k \<Rightarrow> bool" where
  "dictCompareHashKeys ty k1 k2 = (case keyCompare ty of Some f \<Rightarrow> f k1 k2 | None \<Rightarrow> k1 = k2)"

definition dictSetHashKey :: "('k, 'v) dictType \<Rightarrow> 'k \<Rightarrow> 'k" where
  "dictSetHashKey ty k = (case keyDup ty of Some f \<Rightarrow> f k | None \<Rightarrow> k)"

definition dictSetHashVal :: "('k, 'v) dictType \<Rightarrow> 'v \<Rightarrow> 'v" where
  "dictSetHashVal ty v = (case valDup ty of Some f \<Rightarrow> f v | None \<Rightarrow> v)"

definition dictFreeEntryKey :: "('k, 'v) dictType \<Rightarrow> ('k, 'v) dictEntry \<Rightarrow> ('k, 'v) freed list" where
  "dictFreeEntryKey ty e = (if keyDestructor ty then [FreedKey (de_key e)] else [])"

definition dictFreeEntryVal :: "('k, 'v) dictType \<Rightarrow> ('k, 'v) dictEntry \<Rightarrow> ('k, 'v) freed list" where
  "dictFreeEntryVal ty e = (if valDestructor ty then [FreedVal (de_val e)] else [])"

definition dictSize :: "('k, 'v) dict \<Rightarrow> nat" where
  "dictSize ht = d_used ht"

text \<open>\<open>dictHashKey(ht, key) & sizemask\<close>, as an \<open>unsigned int\<close>.\<close>

definition slot_of :: "('k, 'v) dictType \<Rightarrow> nat \<Rightarrow> 'k \<Rightarrow> nat" where
  "slot_of ty sizemask k = (hashFunction ty k AND sizemask) mod 2 ^ 32"

definition chain_at :: "('k, 'v) dict \<Rightarrow> nat \<Rightarrow> ('k, 'v) dictEntry list option" where
  "chain_at ht h = (if h < length (d_table ht) then Some (d_table ht ! h) else None)"

section \<open>Hashing and creation\<close>

definition dictGenHashFunction :: "string \<Rightarrow> nat" where
  "dictGenHashFunction buf = foldl (\<lambda>h c. (h * 32 + h + byte_val c) mod 2 ^ 32) 5381 buf"

definition dictReset :: "('k, 'v) dict" where
  "dictReset = \<lparr>d_table = [], d_size = 0, d_sizemask = 0, d_used = 0\<rparr>"

definition dictCreate :: "nat option \<Rightarrow> ('k, 'v) dict option" where
  "dictCreate mem = (case mem of None \<Rightarrow> None | Some _ \<Rightarrow> Some dictReset)"

section \<open>Growing\<close>

text \<open>\<open>i\<close> is the initial size doubled \<open>k\<close> times.\<close>

function nextPower_loop :: "nat \<Rightarrow> nat \<Rightarrow> nat" where
  "nextPower_loop k sz =
     (let i = DICT_HT_INITIAL_SIZE * 2 ^ k in if sz \<le> i then i else nextPower_loop (Suc k) sz)"
  by pat_completeness auto
termination
proof (relation "measure (\<lambda>(k, sz). sz - k)", goal_cases)
  case (2 k sz x)
  have "k < 2 ^ k" by (rule less_exp)
  with 2 have "k < sz" unfolding DICT_HT_INITIAL_SIZE_def by linarith
  then show ?case by simp
qed simp

declare nextPower_loop.simps [simp del]

definition dictNextPower :: "nat \<Rightarrow> nat" where
  "dictNextPower sz = (if sz \<ge> 2 ^ 63 - 1 then 2 ^ 63 - 1 else nextPower_loop 0 sz)"

text \<open>The two loops of \<open>dictExpand\<close>: the new table and the entries not yet moved.\<close>

fun move_chain ::
  "('k, 'v) dictType \<Rightarrow> nat \<Rightarrow> ('k, 'v) dictEntry list \<Rightarrow> ('k, 'v) dictEntry list list \<times> nat \<Rightarrow>
   (('k, 'v) dictEntry list list \<times> nat) option" where
  "move_chain ty msk [] s = Some s"
| "move_chain ty msk (he # c) (t, used) =
     (let h = slot_of ty msk (de_key he)
      in if h < length t then move_chain ty msk c (t[h := he # t ! h], usub 64 used 1) else None)"

fun move_slots ::
  "('k, 'v) dictType \<Rightarrow> nat \<Rightarrow> ('k, 'v) dictEntry list list \<Rightarrow> ('k, 'v) dictEntry list list \<times> nat \<Rightarrow>
   (('k, 'v) dictEntry list list \<times> nat) option" where
  "move_slots ty msk [] s = Some s"
| "move_slots ty msk (c # cs) (t, used) =
     (if used = 0 then Some (t, used)
      else do { s \<leftarrow> move_chain ty msk c (t, used); move_slots ty msk cs s })"

definition dictExpand ::
  "('k, 'v) dictType \<Rightarrow> bool \<Rightarrow> ('k, 'v) dict \<Rightarrow> nat \<Rightarrow> (('k, 'v) dict \<times> dict_status) option" where
  "dictExpand ty calloc_ok ht sz =
     (let realsize = dictNextPower sz
      in if d_used ht > sz then Some (ht, DICT_ERR)
         else do {
           (t, left) \<leftarrow> move_slots ty (realsize - 1) (take (d_size ht) (d_table ht))
              (if calloc_ok then replicate realsize [] else [], d_used ht);
           if left \<noteq> 0 then None
           else Some (\<lparr>d_table = t, d_size = realsize, d_sizemask = realsize - 1, d_used = d_used ht\<rparr>, DICT_OK)
         })"

definition dictExpandIfNeeded ::
  "('k, 'v) dictType \<Rightarrow> bool \<Rightarrow> ('k, 'v) dict \<Rightarrow> (('k, 'v) dict \<times> dict_status) option" where
  "dictExpandIfNeeded ty calloc_ok ht =
     (if d_size ht = 0 then dictExpand ty calloc_ok ht DICT_HT_INITIAL_SIZE
      else if d_used ht = d_size ht then dictExpand ty calloc_ok ht (d_size ht * 2 mod 2 ^ 64)
      else Some (ht, DICT_OK))"

section \<open>Lookup, insertion, deletion\<close>

definition chain_find :: "('k, 'v) dictType \<Rightarrow> 'k \<Rightarrow> ('k, 'v) dictEntry list \<Rightarrow> ('k, 'v) dictEntry option" where
  "chain_find ty key c = find (\<lambda>e. dictCompareHashKeys ty key (de_key e)) c"

text \<open>The slot as an \<open>int\<close>, \<open>-1\<close> when the key is there (or the table cannot grow).\<close>

definition dictKeyIndex ::
  "('k, 'v) dictType \<Rightarrow> bool \<Rightarrow> ('k, 'v) dict \<Rightarrow> 'k \<Rightarrow> (('k, 'v) dict \<times> int) option" where
  "dictKeyIndex ty calloc_ok ht key =
     do {
       (ht1, st) \<leftarrow> dictExpandIfNeeded ty calloc_ok ht;
       if st = DICT_ERR then Some (ht1, -1)
       else do {
         let h = slot_of ty (d_sizemask ht1) key;
         c \<leftarrow> chain_at ht1 h;
         Some (ht1, if chain_find ty key c \<noteq> None then -1 else s32 (int h))
       }
     }"

definition dictAdd ::
  "('k, 'v) dictType \<Rightarrow> bool \<Rightarrow> nat option \<Rightarrow> ('k, 'v) dict \<Rightarrow> 'k \<Rightarrow> 'v \<Rightarrow> (('k, 'v) dict \<times> dict_status) option" where
  "dictAdd ty calloc_ok addr ht key val =
     do {
       (ht1, index) \<leftarrow> dictKeyIndex ty calloc_ok ht key;
       if index = -1 then Some (ht1, DICT_ERR)
       else if index < 0 then None
       else do {
         a \<leftarrow> addr;
         c \<leftarrow> chain_at ht1 (nat index);
         let entry = \<lparr>de_addr = a, de_key = dictSetHashKey ty key, de_val = dictSetHashVal ty val\<rparr>;
         Some (ht1\<lparr>d_table := (d_table ht1)[nat index := entry # c],
                   d_used := (d_used ht1 + 1) mod 2 ^ 64\<rparr>, DICT_OK)
       }
     }"

text \<open>The entry with its slot, \<open>Some None\<close> for a NULL result.\<close>

definition dictFind :: "('k, 'v) dictType \<Rightarrow> ('k, 'v) dict \<Rightarrow> 'k \<Rightarrow> ('k, 'v) dictEntry option option" where
  "dictFind ty ht key =
     (if d_size ht = 0 then Some None
      else do { c \<leftarrow> chain_at ht (slot_of ty (d_sizemask ht) key); Some (chain_find ty key c) })"

text \<open>\<open>entry->val = v\<close> for the entry at address \<open>a\<close>, wherever its chain is.\<close>

definition set_val :: "('k, 'v) dict \<Rightarrow> nat \<Rightarrow> 'v \<Rightarrow> ('k, 'v) dict" where
  "set_val ht a v =
     ht\<lparr>d_table := map (map (\<lambda>e. if de_addr e = a then e\<lparr>de_val := v\<rparr> else e)) (d_table ht)\<rparr>"

text \<open>Returns 1 if the key was added, 0 if the value was replaced, and the values freed.\<close>

definition dictReplace ::
  "('k, 'v) dictType \<Rightarrow> bool \<Rightarrow> nat option \<Rightarrow> ('k, 'v) dict \<Rightarrow> 'k \<Rightarrow> 'v \<Rightarrow>
   (('k, 'v) dict \<times> int \<times> ('k, 'v) freed list) option" where
  "dictReplace ty calloc_ok addr ht key val =
     do {
       (ht1, st) \<leftarrow> dictAdd ty calloc_ok addr ht key val;
       if st = DICT_OK then Some (ht1, 1, [])
       else do {
         found \<leftarrow> dictFind ty ht1 key;
         entry \<leftarrow> found;
         Some (set_val ht1 (de_addr entry) (dictSetHashVal ty val), 0, dictFreeEntryVal ty entry)
       }
     }"

text \<open>The loop of \<open>dictDelete\<close>: the chain without its first matching entry, and that entry.\<close>

fun unlink :: "('k, 'v) dictType \<Rightarrow> 'k \<Rightarrow> ('k, 'v) dictEntry list \<Rightarrow>
    (('k, 'v) dictEntry list \<times> ('k, 'v) dictEntry) option" where
  "unlink ty key [] = None"
| "unlink ty key (de # c) =
     (if dictCompareHashKeys ty key (de_key de) then Some (c, de)
      else map_option (\<lambda>(c', e). (de # c', e)) (unlink ty key c))"

definition dictDelete ::
  "('k, 'v) dictType \<Rightarrow> ('k, 'v) dict \<Rightarrow> 'k \<Rightarrow> (('k, 'v) dict \<times> dict_status \<times> ('k, 'v) freed list) option" where
  "dictDelete ty ht key =
     (if d_size ht = 0 then Some (ht, DICT_ERR, [])
      else do {
        let h = slot_of ty (d_sizemask ht) key;
        c \<leftarrow> chain_at ht h;
        case unlink ty key c of
          None \<Rightarrow> Some (ht, DICT_ERR, [])
        | Some (c', de) \<Rightarrow>
            Some (ht\<lparr>d_table := (d_table ht)[h := c'], d_used := usub 64 (d_used ht) 1\<rparr>, DICT_OK,
                  dictFreeEntryKey ty de @ dictFreeEntryVal ty de)
      })"

text \<open>\<open>_dictClear\<close> walks the chains until the count of entries is used up.\<close>

fun clear_slots :: "('k, 'v) dictType \<Rightarrow> ('k, 'v) dictEntry list list \<Rightarrow> nat \<Rightarrow> ('k, 'v) freed list" where
  "clear_slots ty [] used = []"
| "clear_slots ty (c # cs) used =
     (if used = 0 then []
      else concat (map (\<lambda>e. dictFreeEntryKey ty e @ dictFreeEntryVal ty e) c)
             @ clear_slots ty cs (usub 64 used (length c mod 2 ^ 64)))"

definition dictClear :: "('k, 'v) dictType \<Rightarrow> ('k, 'v) dict \<Rightarrow> ('k, 'v) dict \<times> ('k, 'v) freed list" where
  "dictClear ty ht = (dictReset, clear_slots ty (take (d_size ht) (d_table ht)) (d_used ht))"

definition dictRelease :: "('k, 'v) dictType \<Rightarrow> ('k, 'v) dict \<Rightarrow> ('k, 'v) freed list" where
  "dictRelease ty ht = snd (dictClear ty ht)"

section \<open>Iteration\<close>

definition dictGetIterator :: "('k, 'v) dictIterator" where
  "dictGetIterator = \<lparr>it_index = -1, it_entry = None, it_nextEntry = None\<rparr>"

text \<open>The entry at address \<open>a\<close> of the chain being visited, and the address of its successor.\<close>

fun entry_at :: "nat \<Rightarrow> ('k, 'v) dictEntry list \<Rightarrow> (('k, 'v) dictEntry \<times> nat option) option" where
  "entry_at a [] = None"
| "entry_at a (e # c) =
     (if de_addr e = a then Some (e, case c of [] \<Rightarrow> None | e' # _ \<Rightarrow> Some (de_addr e')) else entry_at a c)"

text \<open>
  The \<open>while (1)\<close>: a NULL entry moves on to the next slot, until there is none.  \<open>Some (it, None)\<close> is
  a NULL result.
\<close>

definition visit ::
  "('k, 'v) dict \<Rightarrow> ('k, 'v) dictIterator \<Rightarrow> nat \<Rightarrow> (('k, 'v) dictIterator \<times> ('k, 'v) dictEntry option) option" where
  "visit ht it a =
     do { c \<leftarrow> chain_at ht (nat (it_index it));
          (e, nxt) \<leftarrow> entry_at a c;
          Some (it\<lparr>it_entry := Some a, it_nextEntry := nxt\<rparr>, Some e) }"

function next_slot ::
  "('k, 'v) dict \<Rightarrow> ('k, 'v) dictIterator \<Rightarrow> (('k, 'v) dictIterator \<times> ('k, 'v) dictEntry option) option" where
  "next_slot ht it =
     (let it1 = it\<lparr>it_index := it_index it + 1, it_entry := None\<rparr>
      in if it_index it1 \<ge> s32 (int (d_size ht)) then Some (it1, None)
         else if it_index it1 < 0 then None
         else case chain_at ht (nat (it_index it1)) of
                None \<Rightarrow> None
              | Some [] \<Rightarrow> next_slot ht it1
              | Some (e # _) \<Rightarrow> visit ht it1 (de_addr e))"
  by pat_completeness auto
termination
  by (relation "measure (\<lambda>(ht, it). nat (s32 (int (d_size ht)) - it_index it))") auto

declare next_slot.simps [simp del]

definition dictNext ::
  "('k, 'v) dict \<Rightarrow> ('k, 'v) dictIterator \<Rightarrow> (('k, 'v) dictIterator \<times> ('k, 'v) dictEntry option) option" where
  "dictNext ht it =
     (case it_entry it of
        None \<Rightarrow> next_slot ht it
      | Some _ \<Rightarrow>
          (case it_nextEntry it of
             None \<Rightarrow> next_slot ht it
           | Some a \<Rightarrow> visit ht it a))"

section \<open>The map a table stands for\<close>

text \<open>
  The requirements on the function pointers: comparison decides equality, which duplication keeps,
  and the hash is an \<open>unsigned int\<close>.
\<close>

definition type_ok :: "('k, 'v) dictType \<Rightarrow> bool" where
  "type_ok ty \<longleftrightarrow>
     (\<forall>k1 k2. dictCompareHashKeys ty k1 k2 \<longleftrightarrow> k1 = k2) \<and> (\<forall>k. dictSetHashKey ty k = k) \<and>
     (\<forall>k. hashFunction ty k < 2 ^ 32)"

definition entries :: "('k, 'v) dict \<Rightarrow> ('k, 'v) dictEntry list" where
  "entries ht = concat (d_table ht)"

abbreviation pair_of :: "('k, 'v) dictEntry \<Rightarrow> 'k \<times> 'v" where
  "pair_of e \<equiv> (de_key e, de_val e)"

definition dict_map :: "('k, 'v) dict \<Rightarrow> 'k \<rightharpoonup> 'v" where
  "dict_map ht = map_of (map pair_of (entries ht))"

definition in_slots :: "('k, 'v) dictType \<Rightarrow> nat \<Rightarrow> ('k, 'v) dictEntry list list \<Rightarrow> bool" where
  "in_slots ty msk t \<longleftrightarrow> (\<forall>i < length t. \<forall>e \<in> set (t ! i). slot_of ty msk (de_key e) = i)"

text \<open>
  The invariant: the size is zero or a power of two (at least four, at most \<open>2 ^ 30\<close>), every entry is
  in the chain its hash selects, keys and addresses are distinct, and \<open>used\<close> counts the entries.
\<close>

definition dict_wf :: "('k, 'v) dictType \<Rightarrow> ('k, 'v) dict \<Rightarrow> bool" where
  "dict_wf ty ht \<longleftrightarrow>
     length (d_table ht) = d_size ht \<and>
     (d_size ht = 0 \<and> d_sizemask ht = 0 \<or> (\<exists>k \<ge> 2. k \<le> 30 \<and> d_size ht = 2 ^ k \<and> d_sizemask ht = 2 ^ k - 1)) \<and>
     in_slots ty (d_sizemask ht) (d_table ht) \<and>
     distinct (map de_key (entries ht)) \<and> distinct (map de_addr (entries ht)) \<and>
     d_used ht = length (entries ht) \<and> d_used ht \<le> d_size ht"

lemma slot_of_mask: "slot_of ty (2 ^ k - 1) x < 2 ^ k"
proof -
  have "(2 ^ k - 1 :: nat) = mask k" by (simp add: mask_eq_exp_minus_1)
  then have "hashFunction ty x AND (2 ^ k - 1) = take_bit k (hashFunction ty x)"
    by (simp add: take_bit_eq_mask)
  then have "hashFunction ty x AND (2 ^ k - 1) < 2 ^ k" by (simp add: take_bit_nat_eq_self_iff [symmetric])
  then show ?thesis unfolding slot_of_def by (rule le_less_trans [OF mod_less_eq_dividend])
qed

lemma nextPower_loop_pow: "j \<le> k \<Longrightarrow> 4 * 2 ^ k < 2 * sz \<or> k = j \<Longrightarrow> sz \<le> 4 * 2 ^ k \<Longrightarrow> nextPower_loop j sz = 4 * 2 ^ k"
proof (induction "k - j" arbitrary: j)
  case 0
  then show ?case by (simp add: nextPower_loop.simps [of j sz] DICT_HT_INITIAL_SIZE_def)
next
  case (Suc n)
  then have jk: "Suc j \<le> k" by simp
  have "(2 :: nat) * 2 ^ j \<le> 2 ^ k" using jk by (metis power_Suc power_increasing one_le_numeral)
  then have "\<not> sz \<le> 4 * 2 ^ j" using Suc.prems Suc.hyps(2) by linarith
  moreover have "nextPower_loop (Suc j) sz = 4 * 2 ^ k" using Suc jk by (intro Suc.hyps(1)) auto
  ultimately show ?case by (simp add: nextPower_loop.simps [of j sz] DICT_HT_INITIAL_SIZE_def)
qed

lemma dictNextPower_pow: "2 \<le> k \<Longrightarrow> k \<le> 62 \<Longrightarrow> dictNextPower (2 ^ k) = 2 ^ k"
proof -
  assume k: "2 \<le> k" "k \<le> 62"
  then obtain j where j: "k = j + 2" by (metis add.commute le_Suc_ex)
  have "(2 :: nat) ^ k \<le> 2 ^ 62" using k(2) by (intro power_increasing) simp_all
  then have "\<not> (2 :: nat) ^ k \<ge> 2 ^ 63 - 1" by simp
  moreover have "nextPower_loop 0 (2 ^ k) = 4 * 2 ^ j"
    by (rule nextPower_loop_pow) (simp_all add: j)
  ultimately show ?thesis using j by (simp add: dictNextPower_def)
qed

section \<open>Growing keeps the entries\<close>

lemma mset_concat_update:
  "h < length t \<Longrightarrow> mset (concat (t[h := c])) + mset (t ! h) = mset (concat t) + mset c"
proof (induction t arbitrary: h)
  case (Cons x t)
  then show ?case by (cases h) (auto simp: ac_simps)
qed simp

lemma mset_concat_push: "h < length t \<Longrightarrow> mset (concat (t[h := e # t ! h])) = add_mset e (mset (concat t))"
  using mset_concat_update [of h t "e # t ! h"] by simp

lemma in_slots_push:
  "in_slots ty msk t \<Longrightarrow> slot_of ty msk (de_key e) = h \<Longrightarrow> in_slots ty msk (t[h := e # t ! h])"
  by (cases "h < length t") (auto simp: in_slots_def nth_list_update list_update_beyond split: if_splits)

lemma in_slots_entry: "in_slots ty msk t \<Longrightarrow> e \<in> set (concat t) \<Longrightarrow> slot_of ty msk (de_key e) < length t \<and> e \<in> set (t ! slot_of ty msk (de_key e))"
proof -
  assume s: "in_slots ty msk t" and "e \<in> set (concat t)"
  then obtain c where "c \<in> set t" "e \<in> set c" by auto
  then obtain i where i: "i < length t" "e \<in> set (t ! i)" by (metis in_set_conv_nth)
  then have "slot_of ty msk (de_key e) = i" using s by (simp add: in_slots_def)
  then show ?thesis using i by simp
qed

lemma move_chain_ok:
  "length t = 2 ^ k \<Longrightarrow> in_slots ty (2 ^ k - 1) t \<Longrightarrow> length c \<le> used \<Longrightarrow> used < 2 ^ 64 \<Longrightarrow>
   \<exists>t'. move_chain ty (2 ^ k - 1) c (t, used) = Some (t', used - length c) \<and> length t' = 2 ^ k \<and>
     in_slots ty (2 ^ k - 1) t' \<and> mset (concat t') = mset (concat t) + mset c"
proof (induction c arbitrary: t used)
  case (Cons e c)
  let ?h = "slot_of ty (2 ^ k - 1) (de_key e)"
  have h: "?h < length t" using Cons.prems(1) slot_of_mask by metis
  have u: "usub 64 used 1 = used - 1" using Cons.prems(3,4) by (intro usub_le) simp_all
  have "\<exists>t'. move_chain ty (2 ^ k - 1) c (t[?h := e # t ! ?h], used - 1) = Some (t', used - 1 - length c) \<and>
      length t' = 2 ^ k \<and> in_slots ty (2 ^ k - 1) t' \<and> mset (concat t') = mset (concat (t[?h := e # t ! ?h])) + mset c"
    using Cons.prems by (intro Cons.IH) (auto simp: in_slots_push)
  then show ?case using h u mset_concat_push [OF h, of e] by (simp add: Let_def)
qed auto

lemma move_slots_ok:
  "length t = 2 ^ k \<Longrightarrow> in_slots ty (2 ^ k - 1) t \<Longrightarrow> length (concat cs) = used \<Longrightarrow> used < 2 ^ 64 \<Longrightarrow>
   \<exists>t'. move_slots ty (2 ^ k - 1) cs (t, used) = Some (t', 0) \<and> length t' = 2 ^ k \<and>
     in_slots ty (2 ^ k - 1) t' \<and> mset (concat t') = mset (concat t) + mset (concat cs)"
proof (induction cs arbitrary: t used)
  case (Cons c cs)
  show ?case
  proof (cases "used = 0")
    case True
    then show ?thesis using Cons.prems by simp
  next
    case False
    obtain t1 where t1: "move_chain ty (2 ^ k - 1) c (t, used) = Some (t1, used - length c)" "length t1 = 2 ^ k"
      "in_slots ty (2 ^ k - 1) t1" "mset (concat t1) = mset (concat t) + mset c"
      using move_chain_ok [OF Cons.prems(1,2), of c used] Cons.prems(3,4) by auto
    from Cons.IH [OF t1(2,3), of "used - length c"] Cons.prems(3,4)
    show ?thesis using False t1(1,4) by auto
  qed
qed simp

text \<open>Two well-formed tables with the same entries stand for the same map.\<close>

lemma dict_map_mset:
  assumes "distinct (map de_key (entries ht))" and "mset (entries ht') = mset (entries ht)"
  shows "dict_map ht' = dict_map ht"
proof -
  have d: "distinct (map de_key (entries ht'))"
    using assms mset_eq_imp_distinct_iff [of "map de_key (entries ht')" "map de_key (entries ht)"] by simp
  have "set (map pair_of (entries ht')) = set (map pair_of (entries ht))"
    using mset_eq_setD [OF assms(2)] by simp
  then show ?thesis
    unfolding dict_map_def using assms(1) d
    by (subst map_of_inject_set) (simp_all add: comp_def)
qed

lemma dictExpand_ok:
  assumes wf: "dict_wf ty ht" and k: "2 \<le> k" "k \<le> 30" "dictNextPower sz = 2 ^ k"
    and used: "d_used ht \<le> sz" "d_used ht \<le> 2 ^ k"
  shows "\<exists>ht1. dictExpand ty True ht sz = Some (ht1, DICT_OK) \<and> dict_wf ty ht1 \<and>
    mset (entries ht1) = mset (entries ht) \<and> d_size ht1 = 2 ^ k"
proof -
  have tb: "take (d_size ht) (d_table ht) = d_table ht" "length (concat (d_table ht)) = d_used ht"
    using wf by (simp_all add: dict_wf_def entries_def)
  have "(2 :: nat) ^ k \<le> 2 ^ 30" using k(2) by (intro power_increasing) simp_all
  then have u: "d_used ht < 2 ^ 64" using used(2) by simp
  have "in_slots ty (2 ^ k - 1) (replicate (2 ^ k) [])" by (simp add: in_slots_def)
  from move_slots_ok [OF _ this tb(2) u] obtain t' where
    t': "move_slots ty (2 ^ k - 1) (d_table ht) (replicate (2 ^ k) [], d_used ht) = Some (t', 0)"
    "length t' = 2 ^ k" "in_slots ty (2 ^ k - 1) t'" "mset (concat t') = mset (concat (d_table ht))"
    by auto
  let ?ht = "\<lparr>d_table = t', d_size = 2 ^ k, d_sizemask = 2 ^ k - 1, d_used = d_used ht\<rparr>"
  have m: "mset (entries ?ht) = mset (entries ht)" using t'(4) by (simp add: entries_def)
  have "dictExpand ty True ht sz = Some (?ht, DICT_OK)"
    using used(1) k(3) tb t'(1) by (simp add: dictExpand_def Let_def)
  moreover have "dict_wf ty ?ht"
    using wf t'(2,3) k(1,2) used(2) m mset_eq_imp_distinct_iff [of "map de_key (entries ?ht)" "map de_key (entries ht)"]
      mset_eq_imp_distinct_iff [of "map de_addr (entries ?ht)" "map de_addr (entries ht)"]
      mset_eq_length [OF m]
    by (auto simp: dict_wf_def)
  ultimately show ?thesis using m by auto
qed

lemma dictExpandIfNeeded_ok:
  assumes wf: "dict_wf ty ht" and room: "d_used ht < 2 ^ 30"
  shows "\<exists>ht1. dictExpandIfNeeded ty True ht = Some (ht1, DICT_OK) \<and> dict_wf ty ht1 \<and>
    mset (entries ht1) = mset (entries ht) \<and> d_size ht1 \<noteq> 0 \<and> d_used ht1 < d_size ht1"
proof -
  have u: "d_used ht1 = d_used ht" if "dict_wf ty ht1" "mset (entries ht1) = mset (entries ht)" for ht1
    using that wf mset_eq_length by (fastforce simp: dict_wf_def)
  consider "d_size ht = 0" | "d_size ht \<noteq> 0" "d_used ht = d_size ht" | "d_size ht \<noteq> 0" "d_used ht \<noteq> d_size ht"
    by blast
  then show ?thesis
  proof cases
    case 1
    have "dictNextPower DICT_HT_INITIAL_SIZE = 2 ^ 2"
      using dictNextPower_pow [of 2] by (simp add: DICT_HT_INITIAL_SIZE_def)
    from dictExpand_ok [OF wf _ _ this] 1 wf show ?thesis
      by (auto simp: dictExpandIfNeeded_def dict_wf_def)
  next
    case 2
    then obtain k where k: "2 \<le> k" "k \<le> 30" "d_size ht = 2 ^ k" using wf by (auto simp: dict_wf_def)
    have "k \<noteq> 30" using room 2(2) k(3) by auto
    then have k': "Suc k \<le> 30" using k(2) by simp
    have "(2 :: nat) ^ k \<le> 2 ^ 30" using k(2) by (intro power_increasing) simp_all
    then have sz: "d_size ht * 2 mod 2 ^ 64 = 2 ^ Suc k" using k(3) by simp
    have "dictNextPower (d_size ht * 2 mod 2 ^ 64) = 2 ^ Suc k"
      unfolding sz using k' k(1) by (intro dictNextPower_pow) simp_all
    from dictExpand_ok [OF wf _ k' this] k(1,3) sz 2 obtain ht1 where
      "dictExpand ty True ht (d_size ht * 2 mod 2 ^ 64) = Some (ht1, DICT_OK)" "dict_wf ty ht1"
      "mset (entries ht1) = mset (entries ht)" "d_size ht1 = 2 ^ Suc k"
      by auto
    then show ?thesis using 2 u k(3) by (auto simp: dictExpandIfNeeded_def)
  next
    case 3
    then show ?thesis using wf by (auto simp: dictExpandIfNeeded_def dict_wf_def)
  qed
qed

section \<open>Lookup, insertion and deletion on the map\<close>

lemma type_okD:
  assumes "type_ok ty"
  shows "dictCompareHashKeys ty k1 k2 \<longleftrightarrow> k1 = k2" "dictSetHashKey ty k = k"
  using assms by (simp_all add: type_ok_def)

lemma dict_map_Some:
  assumes "distinct (map de_key (entries ht))"
  shows "dict_map ht k = Some v \<longleftrightarrow> (\<exists>e \<in> set (entries ht). de_key e = k \<and> de_val e = v)"
  using assms by (subst dict_map_def, subst map_of_eq_Some_iff) (auto simp: comp_def)

lemma dict_map_None: "dict_map ht k = None \<longleftrightarrow> (\<forall>e \<in> set (entries ht). de_key e \<noteq> k)"
  by (auto simp: dict_map_def map_of_eq_None_iff image_image)

lemma wf_distinct: "dict_wf ty ht \<Longrightarrow> distinct (map de_key (entries ht))"
  by (simp add: dict_wf_def)

lemma wf_slot:
  assumes "dict_wf ty ht" and "d_size ht \<noteq> 0"
  shows "slot_of ty (d_sizemask ht) k < length (d_table ht)" and "d_size ht \<le> 2 ^ 30"
proof -
  from assms obtain j where j: "j \<le> 30" "d_size ht = 2 ^ j" "d_sizemask ht = 2 ^ j - 1"
    by (auto simp: dict_wf_def)
  then show "slot_of ty (d_sizemask ht) k < length (d_table ht)"
    using assms(1) slot_of_mask by (simp add: dict_wf_def)
  show "d_size ht \<le> 2 ^ 30" unfolding j(2) using j(1) by (intro power_increasing) simp_all
qed

text \<open>The chain of a key holds the entry of that key, if there is one.\<close>

lemma chain_lookup:
  assumes ty: "type_ok ty" and wf: "dict_wf ty ht" and ne: "d_size ht \<noteq> 0"
  obtains c where "chain_at ht (slot_of ty (d_sizemask ht) k) = Some c" and "set c \<subseteq> set (entries ht)"
    and "chain_find ty k c = None \<longleftrightarrow> k \<notin> dom (dict_map ht)"
    and "\<And>e. chain_find ty k c = Some e \<Longrightarrow> e \<in> set (entries ht) \<and> de_key e = k \<and> dict_map ht k = Some (de_val e)"
proof -
  let ?h = "slot_of ty (d_sizemask ht) k" and ?c = "d_table ht ! slot_of ty (d_sizemask ht) k"
  have h: "?h < length (d_table ht)" by (rule wf_slot [OF wf ne])
  have sub: "set ?c \<subseteq> set (entries ht)" using nth_mem [OF h] by (auto simp: entries_def)
  have inc: "e \<in> set ?c" if "e \<in> set (entries ht)" "de_key e = k" for e
    using in_slots_entry [of ty "d_sizemask ht" "d_table ht" e] that wf by (auto simp: dict_wf_def entries_def)
  have none: "chain_find ty k ?c = None \<longleftrightarrow> k \<notin> dom (dict_map ht)"
  proof -
    have "chain_find ty k ?c = None \<longleftrightarrow> (\<forall>e \<in> set ?c. de_key e \<noteq> k)"
      using type_okD(1) [OF ty] by (auto simp: chain_find_def find_None_iff)
    also have "\<dots> \<longleftrightarrow> (\<forall>e \<in> set (entries ht). de_key e \<noteq> k)" using sub inc by blast
    finally show ?thesis by (simp add: domIff dict_map_None)
  qed
  have some: "e \<in> set (entries ht) \<and> de_key e = k \<and> dict_map ht k = Some (de_val e)"
    if "chain_find ty k ?c = Some e" for e
  proof -
    have "e \<in> set ?c" "de_key e = k"
      using that type_okD [OF ty] by (auto simp: chain_find_def find_Some_iff)
    then show ?thesis using sub dict_map_Some [OF wf_distinct [OF wf]] by blast
  qed
  show thesis using that [of ?c] h sub none some by (simp add: chain_at_def)
qed

lemma dictFind_ok:
  assumes ty: "type_ok ty" and wf: "dict_wf ty ht"
  shows "\<exists>r. dictFind ty ht k = Some r \<and> map_option de_val r = dict_map ht k \<and>
    (\<forall>e. r = Some e \<longrightarrow> e \<in> set (entries ht) \<and> de_key e = k)"
proof (cases "d_size ht = 0")
  case True
  then have "entries ht = []" using wf by (auto simp: dict_wf_def entries_def)
  then show ?thesis using True by (simp add: dictFind_def dict_map_def)
next
  case False
  obtain c where c: "chain_at ht (slot_of ty (d_sizemask ht) k) = Some c"
    "chain_find ty k c = None \<longleftrightarrow> k \<notin> dom (dict_map ht)"
    "\<And>e. chain_find ty k c = Some e \<Longrightarrow> e \<in> set (entries ht) \<and> de_key e = k \<and> dict_map ht k = Some (de_val e)"
    using chain_lookup [OF ty wf False, of k] by metis
  then show ?thesis using False by (cases "chain_find ty k c") (auto simp: dictFind_def domIff)
qed

lemma dictKeyIndex_ok:
  assumes ty: "type_ok ty" and wf: "dict_wf ty ht" and room: "d_used ht < 2 ^ 30"
  shows "\<exists>ht1. dictKeyIndex ty True ht k = Some (ht1, if k \<in> dom (dict_map ht) then -1 else int (slot_of ty (d_sizemask ht1) k))
    \<and> dict_wf ty ht1 \<and> mset (entries ht1) = mset (entries ht) \<and> dict_map ht1 = dict_map ht
    \<and> d_size ht1 \<noteq> 0 \<and> d_used ht1 < d_size ht1"
proof -
  obtain ht1 where e: "dictExpandIfNeeded ty True ht = Some (ht1, DICT_OK)" "dict_wf ty ht1"
    "mset (entries ht1) = mset (entries ht)" "d_size ht1 \<noteq> 0" "d_used ht1 < d_size ht1"
    using dictExpandIfNeeded_ok [OF wf room] by blast
  have m: "dict_map ht1 = dict_map ht" by (rule dict_map_mset [OF wf_distinct [OF wf] e(3)])
  obtain c where c: "chain_at ht1 (slot_of ty (d_sizemask ht1) k) = Some c"
    "chain_find ty k c = None \<longleftrightarrow> k \<notin> dom (dict_map ht1)"
    using chain_lookup [OF ty e(2,4), of k] by metis
  have "slot_of ty (d_sizemask ht1) k < 2 ^ 30"
    using wf_slot(1) [OF e(2,4), of k] wf_slot(2) [OF e(2,4)] e(2) by (simp add: dict_wf_def)
  then have "s32 (int (slot_of ty (d_sizemask ht1) k)) = int (slot_of ty (d_sizemask ht1) k)"
    by (intro s32_id) simp_all
  then show ?thesis using e c m by (auto simp: dictKeyIndex_def)
qed

lemma dictAdd_old:
  assumes ty: "type_ok ty" and wf: "dict_wf ty ht" and room: "d_used ht < 2 ^ 30" and k: "k \<in> dom (dict_map ht)"
  shows "\<exists>ht1. dictAdd ty True a ht k v = Some (ht1, DICT_ERR) \<and> dict_wf ty ht1 \<and>
    mset (entries ht1) = mset (entries ht) \<and> dict_map ht1 = dict_map ht"
proof -
  obtain ht1 where "dictKeyIndex ty True ht k = Some (ht1, -1)" "dict_wf ty ht1"
    "mset (entries ht1) = mset (entries ht)" "dict_map ht1 = dict_map ht"
    using dictKeyIndex_ok [OF ty wf room, of k] k by auto
  then show ?thesis by (simp add: dictAdd_def)
qed

lemma dict_map_insert:
  assumes "distinct (map de_key (entries ht1))" and "mset (entries ht1) = add_mset e (mset (entries ht))"
  shows "dict_map ht1 = (dict_map ht)(de_key e \<mapsto> de_val e)"
proof -
  have m: "mset (entries ht1) = mset (e # entries ht)" using assms(2) by simp
  then have "set (map pair_of (entries ht1)) = set (map pair_of (e # entries ht))"
    using mset_eq_setD [OF m] by simp
  moreover have "distinct (map de_key (e # entries ht))"
  proof -
    have "mset (map de_key (entries ht1)) = mset (map de_key (e # entries ht))" using m by (simp only: mset_map)
    then show ?thesis using assms(1) mset_eq_imp_distinct_iff by blast
  qed
  ultimately have "map_of (map pair_of (entries ht1)) = map_of (map pair_of (e # entries ht))"
    using assms(1) by (subst map_of_inject_set) (simp_all add: comp_def)
  then show ?thesis by (simp add: dict_map_def)
qed

lemma dictAdd_new:
  assumes ty: "type_ok ty" and wf: "dict_wf ty ht" and room: "d_used ht < 2 ^ 30"
    and k: "k \<notin> dom (dict_map ht)" and a: "a \<notin> de_addr ` set (entries ht)"
  shows "\<exists>ht1. dictAdd ty True (Some a) ht k v = Some (ht1, DICT_OK) \<and> dict_wf ty ht1 \<and>
    mset (entries ht1) = add_mset \<lparr>de_addr = a, de_key = k, de_val = dictSetHashVal ty v\<rparr> (mset (entries ht)) \<and>
    dict_map ht1 = (dict_map ht)(k \<mapsto> dictSetHashVal ty v)"
proof -
  let ?e = "\<lparr>de_addr = a, de_key = k, de_val = dictSetHashVal ty v\<rparr>"
  obtain ht1 where h1: "dictKeyIndex ty True ht k = Some (ht1, int (slot_of ty (d_sizemask ht1) k))" "dict_wf ty ht1"
    "mset (entries ht1) = mset (entries ht)" "dict_map ht1 = dict_map ht" "d_size ht1 \<noteq> 0" "d_used ht1 < d_size ht1"
    using dictKeyIndex_ok [OF ty wf room, of k, unfolded if_not_P [OF k]]
    by (elim exE conjE) (rule that; assumption)
  let ?h = "slot_of ty (d_sizemask ht1) k"
  let ?ht = "ht1\<lparr>d_table := (d_table ht1)[?h := ?e # d_table ht1 ! ?h], d_used := d_used ht1 + 1\<rparr>"
  have h: "?h < length (d_table ht1)" and le: "d_size ht1 \<le> 2 ^ 30" using wf_slot(1) [OF h1(2,5), of k] wf_slot(2) [OF h1(2,5)] by simp_all
  have add: "dictAdd ty True (Some a) ht k v = Some (?ht, DICT_OK)"
    using h1(1,6) h le type_okD [OF ty] by (simp add: dictAdd_def chain_at_def)
  have m: "mset (entries ?ht) = add_mset ?e (mset (entries ht))"
    using mset_concat_push [OF h, of ?e] h1(3) by (simp add: entries_def)
  then have m': "mset (entries ?ht) = mset (?e # entries ht)" by simp
  have dk: "distinct (map de_key (entries ?ht))"
  proof -
    have "mset (map de_key (entries ?ht)) = mset (map de_key (?e # entries ht))" using m' by (simp only: mset_map)
    moreover have "distinct (map de_key (?e # entries ht))"
      using k wf by (auto simp: dict_wf_def domIff dict_map_None)
    ultimately show ?thesis using mset_eq_imp_distinct_iff by blast
  qed
  have da: "distinct (map de_addr (entries ?ht))"
  proof -
    have "mset (map de_addr (entries ?ht)) = mset (map de_addr (?e # entries ht))" using m' by (simp only: mset_map)
    moreover have "distinct (map de_addr (?e # entries ht))" using a wf by (auto simp: dict_wf_def)
    ultimately show ?thesis using mset_eq_imp_distinct_iff by blast
  qed
  have sl: "in_slots ty (d_sizemask ht1) (d_table ?ht)"
    using h1(2) in_slots_push [of ty "d_sizemask ht1" "d_table ht1" ?e ?h] by (simp add: dict_wf_def)
  have "d_used ?ht = length (entries ?ht)"
    using mset_eq_length [OF m'] mset_eq_length [OF h1(3)] h1(2) by (simp add: dict_wf_def)
  then have "dict_wf ty ?ht"
    using h1(2,6) sl dk da unfolding dict_wf_def by simp
  moreover have "dict_map ?ht = (dict_map ht)(k \<mapsto> dictSetHashVal ty v)"
    using dict_map_insert [OF dk m] by simp
  ultimately show ?thesis using add m by (intro exI [of _ ?ht] conjI)
qed

lemma set_val_ok:
  assumes wf: "dict_wf ty ht" and e: "e \<in> set (entries ht)"
  shows "dict_wf ty (set_val ht (de_addr e) v) \<and> dict_map (set_val ht (de_addr e) v) = (dict_map ht)(de_key e \<mapsto> v)"
proof -
  let ?u = "\<lambda>x. if de_addr x = de_addr e then x\<lparr>de_val := v\<rparr> else x"
  let ?ht = "set_val ht (de_addr e) v"
  have es: "entries ?ht = map ?u (entries ht)" by (simp add: set_val_def entries_def map_concat)
  have k: "map de_key (entries ?ht) = map de_key (entries ht)"
    and a: "map de_addr (entries ?ht) = map de_addr (entries ht)"
    unfolding es by (simp_all add: comp_def)
  have wf': "dict_wf ty ?ht"
  proof -
    have "in_slots ty (d_sizemask ht) (d_table ?ht)"
      using wf by (auto simp: dict_wf_def in_slots_def set_val_def)
    moreover have "length (entries ?ht) = length (entries ht)" unfolding es by simp
    moreover have "length (d_table ?ht) = length (d_table ht)" "d_size ?ht = d_size ht"
      "d_sizemask ?ht = d_sizemask ht" "d_used ?ht = d_used ht"
      by (simp_all add: set_val_def)
    ultimately show ?thesis using wf unfolding dict_wf_def k a by simp
  qed
  have "dict_map ?ht x = ((dict_map ht)(de_key e \<mapsto> v)) x" for x
  proof (cases "x = de_key e")
    case True
    have "?u e \<in> set (entries ?ht)" unfolding es set_map using e by (rule imageI)
    then have "dict_map ?ht (de_key e) = Some v"
      unfolding dict_map_Some [OF wf_distinct [OF wf']] by (intro bexI [of _ "?u e"]) simp_all
    then show ?thesis using True by simp
  next
    case False
    have other: "?u y = y" if "y \<in> set (entries ht)" "de_key y = x" for y
    proof -
      have "inj_on de_addr (set (entries ht))" using wf by (simp add: dict_wf_def distinct_map)
      then have "de_addr y \<noteq> de_addr e" using that e False by (metis inj_onD)
      then show ?thesis by simp
    qed
    have "dict_map ?ht x = Some w \<longleftrightarrow> dict_map ht x = Some w" for w
    proof -
      have "de_key (?u y) = x \<and> de_val (?u y) = w \<longleftrightarrow> de_key y = x \<and> de_val y = w"
        if "y \<in> set (entries ht)" for y
        using other [OF that] by (cases "de_key y = x") auto
      then have "(\<exists>y \<in> set (entries ht). de_key (?u y) = x \<and> de_val (?u y) = w)
          \<longleftrightarrow> (\<exists>y \<in> set (entries ht). de_key y = x \<and> de_val y = w)"
        by (rule bex_cong [OF refl])
      then show ?thesis
        unfolding dict_map_Some [OF wf_distinct [OF wf']] dict_map_Some [OF wf_distinct [OF wf]] es set_map bex_simps .
    qed
    then have "dict_map ?ht x = dict_map ht x" by (metis option.exhaust)
    then show ?thesis using False by simp
  qed
  then show ?thesis using wf' by auto
qed

lemma dictReplace_ok:
  assumes ty: "type_ok ty" and wf: "dict_wf ty ht" and room: "d_used ht < 2 ^ 30"
    and a: "a \<notin> de_addr ` set (entries ht)"
  shows "\<exists>ht1. dictReplace ty True (Some a) ht k v = Some (ht1,
      case dict_map ht k of None \<Rightarrow> (1, []) | Some old \<Rightarrow> (0, if valDestructor ty then [FreedVal old] else [])) \<and>
    dict_wf ty ht1 \<and> dict_map ht1 = (dict_map ht)(k \<mapsto> dictSetHashVal ty v) \<and>
    d_used ht1 \<le> d_used ht + 1"
proof (cases "k \<in> dom (dict_map ht)")
  case False
  obtain ht1 where h: "dictAdd ty True (Some a) ht k v = Some (ht1, DICT_OK)" "dict_wf ty ht1"
    "mset (entries ht1) = add_mset \<lparr>de_addr = a, de_key = k, de_val = dictSetHashVal ty v\<rparr> (mset (entries ht))"
    "dict_map ht1 = (dict_map ht)(k \<mapsto> dictSetHashVal ty v)"
    using dictAdd_new [OF ty wf room False a] by metis
  have "dict_map ht k = None" using False by (simp add: domIff)
  moreover have "d_used ht1 = d_used ht + 1"
  proof -
    have "size (mset (entries ht1)) = size (mset (entries ht)) + 1" using h(3) by simp
    then show ?thesis using h(2) wf by (simp add: dict_wf_def)
  qed
  ultimately show ?thesis using h(1,2,4) by (simp add: dictReplace_def)
next
  case True
  obtain ht1 where h: "dictAdd ty True (Some a) ht k v = Some (ht1, DICT_ERR)" "dict_wf ty ht1"
    "mset (entries ht1) = mset (entries ht)" "dict_map ht1 = dict_map ht"
    using dictAdd_old [OF ty wf room True] by metis
  obtain old where old: "dict_map ht k = Some old" using True by (auto simp: domIff)
  obtain r where r: "dictFind ty ht1 k = Some r" "map_option de_val r = dict_map ht1 k"
    "\<forall>e. r = Some e \<longrightarrow> e \<in> set (entries ht1) \<and> de_key e = k"
    using dictFind_ok [OF ty h(2), of k] by blast
  then obtain e where e: "r = Some e" "de_val e = old" "e \<in> set (entries ht1)" "de_key e = k"
    using old h(4) by (cases r) auto
  have u: "d_used (set_val ht1 (de_addr e) (dictSetHashVal ty v)) = d_used ht"
    using mset_eq_length [OF h(3)] h(2) wf by (simp add: set_val_def dict_wf_def)
  have "dictReplace ty True (Some a) ht k v
      = Some (set_val ht1 (de_addr e) (dictSetHashVal ty v), 0, if valDestructor ty then [FreedVal old] else [])"
    using h(1) r(1) e(1,2) by (simp add: dictReplace_def dictFreeEntryVal_def)
  then show ?thesis
    using set_val_ok [OF h(2) e(3), of "dictSetHashVal ty v"] e(4) h(4) old u by simp
qed

lemma unlink_None: "type_ok ty \<Longrightarrow> unlink ty k c = None \<longleftrightarrow> (\<forall>e \<in> set c. de_key e \<noteq> k)"
  by (induction c) (auto simp: type_okD)

lemma unlink_Some:
  "type_ok ty \<Longrightarrow> unlink ty k c = Some (c', e) \<Longrightarrow>
   \<exists>xs ys. c = xs @ e # ys \<and> c' = xs @ ys \<and> de_key e = k"
proof (induction c arbitrary: c')
  case (Cons x c)
  show ?case
  proof (cases "de_key x = k")
    case True
    then have "x # c = [] @ e # c'" "c' = [] @ c'" "de_key e = k" using Cons.prems by (auto simp: type_okD)
    then show ?thesis by blast
  next
    case False
    then obtain c1 where c1: "unlink ty k c = Some (c1, e)" "c' = x # c1"
      using Cons.prems by (auto simp: type_okD)
    then obtain xs ys where "c = xs @ e # ys" "c1 = xs @ ys" "de_key e = k"
      using Cons.IH [OF Cons.prems(1) c1(1)] by blast
    then show ?thesis using c1(2) by (intro exI [of _ "x # xs"] exI [of _ ys]) simp
  qed
qed simp

lemma dictDelete_ok:
  assumes ty: "type_ok ty" and wf: "dict_wf ty ht"
  shows "\<exists>ht1 st fr. dictDelete ty ht k = Some (ht1, st, fr) \<and> dict_wf ty ht1 \<and>
    dict_map ht1 = (dict_map ht)(k := None) \<and> d_used ht1 \<le> d_used ht \<and>
    (case dict_map ht k of
       None \<Rightarrow> ht1 = ht \<and> st = DICT_ERR \<and> fr = []
     | Some v \<Rightarrow> st = DICT_OK \<and>
         fr = (if keyDestructor ty then [FreedKey k] else []) @ (if valDestructor ty then [FreedVal v] else []))"
proof (cases "d_size ht = 0")
  case True
  then have "entries ht = []" using wf by (auto simp: dict_wf_def entries_def)
  then have "dict_map ht = Map.empty" by (simp add: dict_map_def)
  then show ?thesis using True wf by (intro exI [of _ ht]) (simp add: dictDelete_def)
next
  case False
  let ?h = "slot_of ty (d_sizemask ht) k"
  let ?c = "d_table ht ! ?h"
  have h: "?h < length (d_table ht)" by (rule wf_slot(1) [OF wf False])
  show ?thesis
  proof (cases "unlink ty k ?c")
    case None
    then have "\<forall>e \<in> set ?c. de_key e \<noteq> k" using unlink_None [OF ty] by blast
    then have "\<forall>e \<in> set (entries ht). de_key e \<noteq> k"
      using in_slots_entry [of ty "d_sizemask ht" "d_table ht"] wf unfolding dict_wf_def entries_def by blast
    then have "dict_map ht k = None" by (simp add: dict_map_None)
    moreover have "(dict_map ht)(k := None) = dict_map ht" using calculation by (simp add: fun_upd_idem)
    ultimately show ?thesis
      using None False wf h by (intro exI [of _ ht]) (simp add: dictDelete_def chain_at_def)
  next
    case (Some ce)
    then obtain c' e where u: "unlink ty k ?c = Some (c', e)" by (cases ce) auto
    then obtain xs ys where x: "?c = xs @ e # ys" "c' = xs @ ys" "de_key e = k"
      using unlink_Some [OF ty u] by blast
    let ?ht = "ht\<lparr>d_table := (d_table ht)[?h := c'], d_used := usub 64 (d_used ht) 1\<rparr>"
    have m: "mset (entries ht) = add_mset e (mset (entries ?ht))"
      using mset_concat_update [OF h, of c'] x by (simp add: entries_def)
    then have m': "mset (entries ht) = mset (e # entries ?ht)" by simp
    have dk: "distinct (map de_key (e # entries ?ht))"
    proof -
      have "mset (map de_key (entries ht)) = mset (map de_key (e # entries ?ht))" using m' by (simp only: mset_map)
      then show ?thesis using wf_distinct [OF wf] mset_eq_imp_distinct_iff by blast
    qed
    have da: "distinct (map de_addr (e # entries ?ht))"
    proof -
      have "mset (map de_addr (entries ht)) = mset (map de_addr (e # entries ?ht))" using m' by (simp only: mset_map)
      then show ?thesis using wf mset_eq_imp_distinct_iff unfolding dict_wf_def by blast
    qed
    have len: "d_used ht = Suc (length (entries ?ht))"
      using mset_eq_length [OF m'] wf by (simp add: dict_wf_def)
    have "d_used ht \<le> d_size ht" using wf by (simp add: dict_wf_def)
    then have us: "usub 64 (d_used ht) 1 = d_used ht - 1"
      using wf_slot(2) [OF wf False] len by (intro usub_le) auto
    have sl: "in_slots ty (d_sizemask ht) (d_table ?ht)"
    proof -
      have "\<forall>y \<in> set c'. slot_of ty (d_sizemask ht) (de_key y) = ?h"
        using wf h x by (auto simp: dict_wf_def in_slots_def)
      then have "in_slots ty (d_sizemask ht) ((d_table ht)[?h := c'])"
        using wf h by (auto simp: dict_wf_def in_slots_def nth_list_update split: if_splits)
      then show ?thesis by simp
    qed
    have "d_used ?ht = length (entries ?ht)" "d_used ?ht \<le> d_size ?ht"
      using len us \<open>d_used ht \<le> d_size ht\<close> by simp_all
    then have "dict_wf ty ?ht"
      using wf sl dk da unfolding dict_wf_def by simp
    moreover have map: "dict_map ht = (dict_map ?ht)(k \<mapsto> de_val e)"
      using dict_map_insert [OF wf_distinct [OF wf] m] x(3) by simp
    moreover have "dict_map ?ht k = None" using dk x(3) unfolding dict_map_None by (simp, metis imageI)
    moreover have "dict_map ?ht = (dict_map ht)(k := None)"
      using map \<open>dict_map ?ht k = None\<close> by (metis fun_upd_triv fun_upd_upd)
    moreover have "dictDelete ty ht k = Some (?ht, DICT_OK, dictFreeEntryKey ty e @ dictFreeEntryVal ty e)"
      using False h u by (simp add: dictDelete_def chain_at_def)
    ultimately show ?thesis
      using x(3) us by (intro exI [of _ ?ht]) (simp add: dictFreeEntryKey_def dictFreeEntryVal_def)
  qed
qed

lemma dictReset_ok: "dict_wf ty dictReset" "dict_map dictReset = Map.empty"
  by (simp_all add: dict_wf_def dictReset_def entries_def in_slots_def dict_map_def)

text \<open>\<open>dictRelease\<close> hands every key and value to its destructor once.\<close>

lemma clear_slots_all:
  "length (concat cs) = used \<Longrightarrow> used < 2 ^ 64 \<Longrightarrow>
   clear_slots ty cs used = concat (map (\<lambda>e. dictFreeEntryKey ty e @ dictFreeEntryVal ty e) (concat cs))"
proof (induction cs arbitrary: used)
  case (Cons c cs)
  have "usub 64 used (length c mod 2 ^ 64) = length (concat cs)"
    using Cons.prems usub_le [of "length c" used 64] by simp
  moreover have "used = 0 \<Longrightarrow> concat cs = []" "used = 0 \<Longrightarrow> c = []" using Cons.prems(1) by auto
  ultimately show ?case using Cons by (cases "used = 0") (simp_all del: concat_eq_Nil_conv)
qed simp

lemma dictRelease_ok:
  assumes "dict_wf ty ht"
  shows "dictRelease ty ht = concat (map (\<lambda>e. dictFreeEntryKey ty e @ dictFreeEntryVal ty e) (entries ht))"
proof -
  have "d_used ht < 2 ^ 64"
  proof (cases "d_size ht = 0")
    case False
    then show ?thesis using wf_slot(2) [OF assms] assms by (simp add: dict_wf_def)
  qed (use assms in \<open>simp add: dict_wf_def\<close>)
  then show ?thesis
    using assms clear_slots_all [of "d_table ht" "d_used ht" ty]
    by (simp add: dictRelease_def dictClear_def dict_wf_def entries_def)
qed

section \<open>Iteration visits every entry once\<close>

definition from_addr :: "nat option \<Rightarrow> ('k, 'v) dictEntry list \<Rightarrow> ('k, 'v) dictEntry list" where
  "from_addr a c = (case a of None \<Rightarrow> [] | Some a \<Rightarrow> dropWhile (\<lambda>e. de_addr e \<noteq> a) c)"

text \<open>The entries an iterator has still to return.\<close>

definition to_visit :: "('k, 'v) dict \<Rightarrow> ('k, 'v) dictIterator \<Rightarrow> ('k, 'v) dictEntry list" where
  "to_visit ht it =
     (case it_entry it of None \<Rightarrow> [] | Some _ \<Rightarrow> from_addr (it_nextEntry it) (d_table ht ! nat (it_index it)))
     @ concat (drop (nat (it_index it + 1)) (d_table ht))"

definition iter_ok :: "('k, 'v) dict \<Rightarrow> ('k, 'v) dictIterator \<Rightarrow> bool" where
  "iter_ok ht it \<longleftrightarrow>
     -1 \<le> it_index it \<and> it_index it < int (d_size ht) \<and>
     (it_entry it \<noteq> None \<longrightarrow> 0 \<le> it_index it \<and>
        (\<forall>b. it_nextEntry it = Some b \<longrightarrow> b \<in> de_addr ` set (d_table ht ! nat (it_index it))))"

lemma entry_at_split:
  "distinct (map de_addr (xs @ e # ys)) \<Longrightarrow>
   entry_at (de_addr e) (xs @ e # ys) = Some (e, case ys of [] \<Rightarrow> None | e' # _ \<Rightarrow> Some (de_addr e'))"
  by (induction xs) (auto simp: image_iff)

lemma from_addr_split:
  "distinct (map de_addr (xs @ e # ys)) \<Longrightarrow> from_addr (Some (de_addr e)) (xs @ e # ys) = e # ys"
  unfolding from_addr_def by (induction xs) auto

lemma chain_distinct:
  assumes "dict_wf ty ht" and "i < length (d_table ht)"
  shows "distinct (map de_addr (d_table ht ! i))"
  using assms distinct_concat_iff [of "map (map de_addr) (d_table ht)"]
  by (auto simp: dict_wf_def entries_def map_concat)

lemma visit_ok:
  assumes wf: "dict_wf ty ht" and i: "0 \<le> it_index it" "nat (it_index it) < length (d_table ht)"
    and c: "d_table ht ! nat (it_index it) = xs @ e # ys"
  shows "\<exists>it'. visit ht it (de_addr e) = Some (it', Some e) \<and> iter_ok ht it' \<and> it_entry it' = Some (de_addr e) \<and>
    it_index it' = it_index it \<and> to_visit ht it' = ys @ concat (drop (nat (it_index it + 1)) (d_table ht))"
proof -
  have d: "distinct (map de_addr (xs @ e # ys))" using chain_distinct [OF wf i(2)] c by simp
  let ?n = "case ys of [] \<Rightarrow> None | e' # _ \<Rightarrow> Some (de_addr e')"
  let ?it = "it\<lparr>it_entry := Some (de_addr e), it_nextEntry := ?n\<rparr>"
  have v: "visit ht it (de_addr e) = Some (?it, Some e)"
    using i c entry_at_split [OF d] by (simp add: visit_def chain_at_def)
  have n: "from_addr ?n (xs @ e # ys) = ys"
  proof (cases ys)
    case (Cons e' zs)
    then show ?thesis using from_addr_split [of "xs @ [e]" e' zs] d by simp
  qed (simp add: from_addr_def)
  have "iter_ok ht ?it"
    using i c wf by (auto simp: iter_ok_def dict_wf_def split: list.splits)
  then show ?thesis using v n c by (intro exI [of _ ?it]) (simp add: to_visit_def)
qed

lemma next_slot_ok:
  "-1 \<le> it_index it \<Longrightarrow> it_index it < int (d_size ht) \<Longrightarrow> dict_wf ty ht \<Longrightarrow>
    (case concat (drop (nat (it_index it + 1)) (d_table ht)) of
       [] \<Rightarrow> \<exists>it'. next_slot ht it = Some (it', None)
     | e # es \<Rightarrow> \<exists>it'. next_slot ht it = Some (it', Some e) \<and> iter_ok ht it' \<and> it_entry it' = Some (de_addr e) \<and>
         to_visit ht it' = es \<and> (\<exists>c. d_table ht ! nat (it_index it') = e # c))"
proof (induction ht it rule: next_slot.induct)
  case (1 ht it)
  note eq = next_slot.simps [of ht it] and wf = "1.prems"(3)
  let ?i = "it_index it + 1"
  have len: "length (d_table ht) = d_size ht" using wf by (simp add: dict_wf_def)
  have sz: "s32 (int (d_size ht)) = int (d_size ht)"
  proof (cases "d_size ht = 0")
    case False
    then show ?thesis using wf_slot(2) [OF wf] by (intro s32_id) simp_all
  qed (simp add: s32_id)
  show ?case
  proof (cases "?i \<ge> int (d_size ht)")
    case True
    then show ?thesis using len sz by (simp add: eq)
  next
    case False
    define c where "c = d_table ht ! nat ?i"
    have i: "0 \<le> ?i" "nat ?i < length (d_table ht)" using "1.prems"(1) False len by auto
    have d: "drop (nat ?i) (d_table ht) = c # drop (nat (?i + 1)) (d_table ht)"
    proof -
      have "nat (?i + 1) = Suc (nat ?i)" using i by simp
      then show ?thesis using i(2) by (simp add: c_def Cons_nth_drop_Suc)
    qed
    have ch: "chain_at ht (nat ?i) = Some c" using i by (simp add: chain_at_def c_def)
    show ?thesis
    proof (cases c)
      case Nil
      have step: "next_slot ht it = next_slot ht (it\<lparr>it_index := ?i, it_entry := None\<rparr>)"
        using False i ch Nil sz by (simp add: eq Let_def)
      have IH: "case concat (drop (nat (?i + 1)) (d_table ht)) of
          [] \<Rightarrow> \<exists>it'. next_slot ht (it\<lparr>it_index := ?i, it_entry := None\<rparr>) = Some (it', None)
        | e # es \<Rightarrow> \<exists>it'. next_slot ht (it\<lparr>it_index := ?i, it_entry := None\<rparr>) = Some (it', Some e) \<and> iter_ok ht it'
            \<and> it_entry it' = Some (de_addr e) \<and> to_visit ht it' = es \<and> (\<exists>c. d_table ht ! nat (it_index it') = e # c)"
        using "1.IH" [OF refl] "1.prems" False i ch Nil sz by simp
      then show ?thesis unfolding step d Nil by simp
    next
      case (Cons e ys)
      have ci: "d_table ht ! nat ?i = [] @ e # ys" using Cons by (simp add: c_def)
      have "next_slot ht it = visit ht (it\<lparr>it_index := ?i, it_entry := None\<rparr>) (de_addr e)"
        using False i ch Cons sz by (simp add: eq Let_def)
      then show ?thesis
        using visit_ok [OF wf, of "it\<lparr>it_index := ?i, it_entry := None\<rparr>" "[]" e ys] i ci unfolding d Cons
        by auto
    qed
  qed
qed

lemma dictNext_ok:
  assumes wf: "dict_wf ty ht" and it: "iter_ok ht it"
  shows "case to_visit ht it of
      [] \<Rightarrow> \<exists>it'. dictNext ht it = Some (it', None)
    | e # es \<Rightarrow> \<exists>it'. dictNext ht it = Some (it', Some e) \<and> iter_ok ht it' \<and> it_entry it' = Some (de_addr e) \<and>
        to_visit ht it' = es"
proof -
  have slot: "case concat (drop (nat (it_index it + 1)) (d_table ht)) of
       [] \<Rightarrow> \<exists>it'. next_slot ht it = Some (it', None)
     | e # es \<Rightarrow> \<exists>it'. next_slot ht it = Some (it', Some e) \<and> iter_ok ht it' \<and> it_entry it' = Some (de_addr e) \<and>
         to_visit ht it' = es \<and> (\<exists>c. d_table ht ! nat (it_index it') = e # c)"
    using next_slot_ok [OF _ _ wf, of it] it by (simp add: iter_ok_def)
  show ?thesis
  proof (cases "it_entry it = None \<or> it_nextEntry it = None")
    case True
    then have "to_visit ht it = concat (drop (nat (it_index it + 1)) (d_table ht))"
      by (auto simp: to_visit_def from_addr_def split: option.splits)
    moreover have "dictNext ht it = next_slot ht it"
      using True by (auto simp: dictNext_def split: option.splits)
    ultimately show ?thesis
      using slot by (cases "concat (drop (nat (it_index it + 1)) (d_table ht))") (simp_all del: concat_eq_Nil_conv, blast)
  next
    case False
    then obtain a b where ab: "it_entry it = Some a" "it_nextEntry it = Some b" by auto
    let ?c = "d_table ht ! nat (it_index it)"
    have i: "0 \<le> it_index it" "nat (it_index it) < length (d_table ht)"
      using it ab wf by (auto simp: iter_ok_def dict_wf_def)
    have "b \<in> de_addr ` set ?c" using it ab by (auto simp: iter_ok_def)
    then obtain e where e: "e \<in> set ?c" "de_addr e = b" by auto
    then obtain xs ys where c: "?c = xs @ e # ys" by (meson split_list)
    have d: "distinct (map de_addr (xs @ e # ys))" using chain_distinct [OF wf i(2)] c by simp
    have "to_visit ht it = e # ys @ concat (drop (nat (it_index it + 1)) (d_table ht))"
      using ab c e(2) from_addr_split [OF d] by (simp add: to_visit_def)
    moreover have "dictNext ht it = visit ht it (de_addr e)" using ab e(2) by (simp add: dictNext_def)
    ultimately show ?thesis using visit_ok [OF wf i c] by auto
  qed
qed

lemma to_visit_start: "dict_wf ty ht \<Longrightarrow> to_visit ht dictGetIterator = entries ht"
  by (simp add: to_visit_def dictGetIterator_def entries_def)

lemma iter_ok_start: "iter_ok ht dictGetIterator"
  by (simp add: iter_ok_def dictGetIterator_def)

text \<open>\<open>while ((de = dictNext(it)) != NULL)\<close>, at most \<open>n\<close> times.\<close>

fun visited :: "nat \<Rightarrow> ('k, 'v) dict \<Rightarrow> ('k, 'v) dictIterator \<Rightarrow> ('k, 'v) dictEntry list option" where
  "visited 0 ht it = None"
| "visited (Suc n) ht it =
     (case dictNext ht it of
        None \<Rightarrow> None
      | Some (it', None) \<Rightarrow> Some []
      | Some (it', Some e) \<Rightarrow> map_option (Cons e) (visited n ht it'))"

lemma visited_all:
  "dict_wf ty ht \<Longrightarrow> iter_ok ht it \<Longrightarrow> length (to_visit ht it) < n \<Longrightarrow> visited n ht it = Some (to_visit ht it)"
proof (induction n arbitrary: it)
  case (Suc n)
  show ?case
  proof (cases "to_visit ht it")
    case Nil
    then show ?thesis using dictNext_ok [OF Suc.prems(1,2)] by auto
  next
    case (Cons e es)
    then obtain it' where "dictNext ht it = Some (it', Some e)" "iter_ok ht it'" "to_visit ht it' = es"
      using dictNext_ok [OF Suc.prems(1,2)] by auto
    then show ?thesis using Suc Cons by simp
  qed
qed simp

section \<open>The interface its users rely on\<close>

text \<open>
  A store of values by key: \<open>inv\<close> is kept by every operation, \<open>val\<close> is the map it stands for.  A store
  may refuse nothing while it is \<open>roomy\<close>.
\<close>

locale map_store =
  fixes inv :: "'s \<Rightarrow> bool"
    and val :: "'s \<Rightarrow> 'k \<rightharpoonup> 'v"
    and roomy :: "'s \<Rightarrow> bool"
    and empty :: 's
    and get :: "'s \<Rightarrow> 'k \<Rightarrow> 'v option option"
    and put :: "'s \<Rightarrow> 'k \<Rightarrow> 'v \<Rightarrow> 's option"
    and del :: "'s \<Rightarrow> 'k \<Rightarrow> 's option"
  assumes empty_law: "inv empty" "val empty = Map.empty"
    and get_law: "inv s \<Longrightarrow> get s k = Some (val s k)"
    and put_law: "inv s \<Longrightarrow> roomy s \<Longrightarrow> \<exists>s'. put s k v = Some s' \<and> inv s' \<and> val s' = (val s)(k \<mapsto> v)"
    and del_law: "inv s \<Longrightarrow> \<exists>s'. del s k = Some s' \<and> inv s' \<and> val s' = (val s)(k := None) \<and> (roomy s \<longrightarrow> roomy s')"
begin

lemma put_get: "inv s \<Longrightarrow> roomy s \<Longrightarrow> put s k v = Some s' \<Longrightarrow> get s' k' = Some (if k' = k then Some v else val s k')"
  using put_law [of s k v] get_law [of s' k'] by auto

lemma del_get: "inv s \<Longrightarrow> del s k = Some s' \<Longrightarrow> get s' k' = Some (if k' = k then None else val s k')"
  using del_law [of s k] get_law [of s' k'] by auto

lemma put_dom: "inv s \<Longrightarrow> roomy s \<Longrightarrow> put s k v = Some s' \<Longrightarrow> dom (val s') = insert k (dom (val s))"
  using put_law [of s k v] by auto

lemma del_dom: "inv s \<Longrightarrow> del s k = Some s' \<Longrightarrow> dom (val s') = dom (val s) - {k}"
  using del_law [of s k] by auto

end

text \<open>
  The table behind this interface, for a type whose values are copied: lookups return the value, the
  address of a new entry is one that is not in use.
\<close>

definition fresh_addr :: "('k, 'v) dict \<Rightarrow> nat" where
  "fresh_addr ht = Suc (sum_list (map de_addr (entries ht)))"

definition dict_get :: "('k, 'v) dictType \<Rightarrow> ('k, 'v) dict \<Rightarrow> 'k \<Rightarrow> 'v option option" where
  "dict_get ty ht k = map_option (map_option de_val) (dictFind ty ht k)"

definition dict_put :: "('k, 'v) dictType \<Rightarrow> ('k, 'v) dict \<Rightarrow> 'k \<Rightarrow> 'v \<Rightarrow> ('k, 'v) dict option" where
  "dict_put ty ht k v = map_option fst (dictReplace ty True (Some (fresh_addr ht)) ht k v)"

definition dict_del :: "('k, 'v) dictType \<Rightarrow> ('k, 'v) dict \<Rightarrow> 'k \<Rightarrow> ('k, 'v) dict option" where
  "dict_del ty ht k = map_option fst (dictDelete ty ht k)"

definition dict_roomy :: "('k, 'v) dict \<Rightarrow> bool" where
  "dict_roomy ht \<longleftrightarrow> d_used ht < 2 ^ 30"

definition copies_values :: "('k, 'v) dictType \<Rightarrow> bool" where
  "copies_values ty \<longleftrightarrow> type_ok ty \<and> (\<forall>v. dictSetHashVal ty v = v)"

lemma fresh_addr_new: "fresh_addr ht \<notin> de_addr ` set (entries ht)"
proof
  assume "fresh_addr ht \<in> de_addr ` set (entries ht)"
  then have "fresh_addr ht \<in> set (map de_addr (entries ht))" by simp
  then have "fresh_addr ht \<le> sum_list (map de_addr (entries ht))" by (simp add: member_le_sum_list)
  then show False by (simp add: fresh_addr_def)
qed

lemma dict_map_store:
  assumes ty: "copies_values ty"
  shows "map_store (dict_wf ty) dict_map dict_roomy dictReset (dict_get ty) (dict_put ty) (dict_del ty)"
proof
  fix s :: "('a, 'b) dict" and k v
  have ok: "type_ok ty" and v: "dictSetHashVal ty v = v" using ty by (simp_all add: copies_values_def)
  show "dict_wf ty s \<Longrightarrow> dict_get ty s k = Some (dict_map s k)"
    using dictFind_ok [OF ok, of s k] by (auto simp: dict_get_def)
  show "dict_wf ty s \<Longrightarrow> dict_roomy s \<Longrightarrow> \<exists>s'. dict_put ty s k v = Some s' \<and> dict_wf ty s' \<and> dict_map s' = (dict_map s)(k \<mapsto> v)"
    using dictReplace_ok [OF ok _ _ fresh_addr_new, of s k v] v by (auto simp: dict_put_def dict_roomy_def)
  show "dict_wf ty s \<Longrightarrow> \<exists>s'. dict_del ty s k = Some s' \<and> dict_wf ty s' \<and> dict_map s' = (dict_map s)(k := None) \<and>
      (dict_roomy s \<longrightarrow> dict_roomy s')"
  proof -
    assume "dict_wf ty s"
    from dictDelete_ok [OF ok this, of k] obtain s' st fr where "dictDelete ty s k = Some (s', st, fr)"
      "dict_wf ty s'" "dict_map s' = (dict_map s)(k := None)" "d_used s' \<le> d_used s"
      by (elim exE conjE) (rule that; assumption)
    then show ?thesis by (simp add: dict_del_def dict_roomy_def)
  qed
qed (rule dictReset_ok)+


section \<open>The tables of \<open>async.c\<close>\<close>

text \<open>
  The keys are sds strings, here of less than \<open>2 ^ 31\<close> bytes: \<open>callbackKeyCompare\<close> compares the
  lengths as \<open>int\<close>s.
\<close>

typedef sdskey = "{s :: string. length s < 2 ^ 31}" morphisms key_bytes sdskey
  by (rule exI [of _ "[]"]) simp

instantiation sdskey :: equal
begin

definition equal_sdskey :: "sdskey \<Rightarrow> sdskey \<Rightarrow> bool" where
  "equal_sdskey k1 k2 \<longleftrightarrow> key_bytes k1 = key_bytes k2"

instance
  by standard (simp add: equal_sdskey_def key_bytes_inject)

end

definition callbackHash :: "sdskey \<Rightarrow> nat" where
  "callbackHash key = dictGenHashFunction (key_bytes key)"

definition callbackKeyCompare :: "sdskey \<Rightarrow> sdskey \<Rightarrow> bool" where
  "callbackKeyCompare key1 key2 =
     (let l1 = s32 (int (length (key_bytes key1))); l2 = s32 (int (length (key_bytes key2)))
      in if l1 \<noteq> l2 then False
         else take (nat (l1 mod 2 ^ 64)) (key_bytes key1) = take (nat (l1 mod 2 ^ 64)) (key_bytes key2))"

definition callbackDict :: "(sdskey, 'v) dictType" where
  "callbackDict =
     \<lparr>hashFunction = callbackHash, keyDup = None, valDup = Some (\<lambda>v. v), keyCompare = Some callbackKeyCompare,
      keyDestructor = True, valDestructor = True\<rparr>"

lemma key_bytes_short: "length (key_bytes k) < 2 ^ 31"
  using key_bytes [of k] by simp

lemma callbackKeyCompare_eq: "callbackKeyCompare k1 k2 \<longleftrightarrow> k1 = k2"
proof -
  have id: "s32 (int (length (key_bytes k))) = int (length (key_bytes k))" for k
    using key_bytes_short [of k] by (intro s32_id) simp_all
  have "nat (int (length (key_bytes k)) mod 2 ^ 64) = length (key_bytes k)" for k
    using key_bytes_short [of k] by simp
  then show ?thesis
    unfolding callbackKeyCompare_def id Let_def by (auto simp: key_bytes_inject)
qed

lemma dictGenHashFunction_less: "dictGenHashFunction s < 2 ^ 32"
  unfolding dictGenHashFunction_def by (induction s rule: rev_induct) simp_all

lemma callbackDict_copies: "copies_values callbackDict"
  by (simp add: copies_values_def type_ok_def callbackDict_def dictCompareHashKeys_def dictSetHashKey_def
      dictSetHashVal_def callbackKeyCompare_eq callbackHash_def dictGenHashFunction_less [simplified])

interpretation callbacks: map_store "dict_wf callbackDict" dict_map dict_roomy dictReset
    "dict_get callbackDict" "dict_put callbackDict" "dict_del callbackDict"
  by (rule dict_map_store [OF callbackDict_copies])

section \<open>What the table promises\<close>

text \<open>C26. The table implements a finite map, and its invariant (a power-of-two size, every entry in the chain
  its hash selects, distinct keys, an exact count that never exceeds the size) is kept by every
  operation, through the growth of the table.  \<open>dictFind\<close> returns the value of the key,
  \<open>dictAdd\<close> adds a missing key and refuses a present one, \<open>dictReplace\<close> stores the value either way
  and frees the old one, \<open>dictDelete\<close> removes the key and frees key and value.\<close>

theorem dict_implements_map:
  assumes "type_ok ty" and "dict_wf ty ht" and "d_used ht < 2 ^ 30" and "a \<notin> de_addr ` set (entries ht)"
  shows "(\<exists>r. dictFind ty ht k = Some r \<and> map_option de_val r = dict_map ht k) \<and>
    (\<exists>ht1. dictAdd ty True (Some a) ht k v = Some (ht1, if k \<in> dom (dict_map ht) then DICT_ERR else DICT_OK) \<and>
       dict_wf ty ht1 \<and>
       dict_map ht1 = (if k \<in> dom (dict_map ht) then dict_map ht else (dict_map ht)(k \<mapsto> dictSetHashVal ty v))) \<and>
    (\<exists>ht1. dictReplace ty True (Some a) ht k v = Some (ht1,
         case dict_map ht k of None \<Rightarrow> (1, []) | Some old \<Rightarrow> (0, if valDestructor ty then [FreedVal old] else [])) \<and>
       dict_wf ty ht1 \<and> dict_map ht1 = (dict_map ht)(k \<mapsto> dictSetHashVal ty v)) \<and>
    (\<exists>ht1 st fr. dictDelete ty ht k = Some (ht1, st, fr) \<and> dict_wf ty ht1 \<and>
       dict_map ht1 = (dict_map ht)(k := None) \<and> (st = DICT_OK \<longleftrightarrow> k \<in> dom (dict_map ht)))"
proof (intro conjI)
  show "\<exists>r. dictFind ty ht k = Some r \<and> map_option de_val r = dict_map ht k"
    using dictFind_ok [OF assms(1,2)] by blast
  show "\<exists>ht1. dictAdd ty True (Some a) ht k v = Some (ht1, if k \<in> dom (dict_map ht) then DICT_ERR else DICT_OK) \<and>
       dict_wf ty ht1 \<and>
       dict_map ht1 = (if k \<in> dom (dict_map ht) then dict_map ht else (dict_map ht)(k \<mapsto> dictSetHashVal ty v))"
  proof (cases "k \<in> dom (dict_map ht)")
    case True
    then show ?thesis using dictAdd_old [OF assms(1-3) True] by (simp only: if_True) blast
  next
    case False
    then show ?thesis using dictAdd_new [OF assms(1-3) False assms(4)] by (simp only: if_False) blast
  qed
  show "\<exists>ht1. dictReplace ty True (Some a) ht k v = Some (ht1,
         case dict_map ht k of None \<Rightarrow> (1, []) | Some old \<Rightarrow> (0, if valDestructor ty then [FreedVal old] else [])) \<and>
       dict_wf ty ht1 \<and> dict_map ht1 = (dict_map ht)(k \<mapsto> dictSetHashVal ty v)"
    using dictReplace_ok [OF assms] by blast
  obtain ht1 st fr where *: "dictDelete ty ht k = Some (ht1, st, fr)" "dict_wf ty ht1" "dict_map ht1 = (dict_map ht)(k := None)"
    "case dict_map ht k of None \<Rightarrow> ht1 = ht \<and> st = DICT_ERR \<and> fr = []
     | Some v \<Rightarrow> st = DICT_OK \<and>
         fr = (if keyDestructor ty then [FreedKey k] else []) @ (if valDestructor ty then [FreedVal v] else [])"
    using dictDelete_ok [OF assms(1,2), of k] by (elim exE conjE) (rule that; assumption)
  then have "st = DICT_OK \<longleftrightarrow> k \<in> dom (dict_map ht)" by (auto split: option.splits)
  with * show "\<exists>ht1 st fr. dictDelete ty ht k = Some (ht1, st, fr) \<and> dict_wf ty ht1 \<and>
       dict_map ht1 = (dict_map ht)(k := None) \<and> (st = DICT_OK \<longleftrightarrow> k \<in> dom (dict_map ht))"
    by blast
qed

theorem dict_implements_map_witness:
  "\<exists>ht1. dictAdd callbackDict True (Some 7) dictReset (sdskey ''news'') (5 :: nat) = Some (ht1, DICT_OK) \<and>
     dict_wf callbackDict ht1 \<and> dict_map ht1 = [sdskey ''news'' \<mapsto> 5]"
proof -
  have "type_ok callbackDict" "dictSetHashVal callbackDict (5 :: nat) = 5"
    by (simp_all add: callbackDict_copies [unfolded copies_values_def])
  moreover have "dict_wf callbackDict (dictReset :: (sdskey, nat) dict)" "dict_map (dictReset :: (sdskey, nat) dict) = Map.empty"
    "d_used (dictReset :: (sdskey, nat) dict) < 2 ^ 30" "7 \<notin> de_addr ` set (entries (dictReset :: (sdskey, nat) dict))"
    by (simp_all add: dictReset_ok) (simp_all add: dictReset_def entries_def)
  ultimately show ?thesis
    using dict_implements_map [of callbackDict "dictReset :: (sdskey, nat) dict" 7 "sdskey ''news''" 5] by auto
qed

text \<open>C32. Iterating over a table returns every entry exactly once, in table order, and then NULL: the calls of
  \<open>dictNext\<close> end after as many calls as there are entries and one more.\<close>

theorem dict_iteration_visits_all:
  assumes "dict_wf ty ht"
  shows "visited (d_used ht + 1) ht dictGetIterator = Some (entries ht) \<and> distinct (map de_key (entries ht)) \<and>
    map_of (map pair_of (entries ht)) = dict_map ht"
proof -
  have "length (to_visit ht dictGetIterator) < d_used ht + 1"
    using to_visit_start [OF assms] assms by (simp add: dict_wf_def)
  from visited_all [OF assms iter_ok_start this] show ?thesis
    using to_visit_start [OF assms] wf_distinct [OF assms] by (simp add: dict_map_def)
qed

theorem dict_iteration_visits_all_witness:
  "\<exists>ht1. dictAdd callbackDict True (Some 7) dictReset (sdskey ''news'') (5 :: nat) = Some (ht1, DICT_OK) \<and>
     visited 2 ht1 dictGetIterator = Some [\<lparr>de_addr = 7, de_key = sdskey ''news'', de_val = 5\<rparr>]"
proof -
  let ?empty = "dictReset :: (sdskey, nat) dict" and ?entry = "\<lparr>de_addr = 7, de_key = sdskey ''news'', de_val = 5 :: nat\<rparr>"
  have ty: "type_ok callbackDict" "dictSetHashVal callbackDict (5 :: nat) = 5"
    by (simp_all add: callbackDict_copies [unfolded copies_values_def])
  have new: "dict_wf callbackDict ?empty" "d_used ?empty < 2 ^ 30" "sdskey ''news'' \<notin> dom (dict_map ?empty)"
    "7 \<notin> de_addr ` set (entries ?empty)"
    by (simp_all add: dictReset_ok) (simp_all add: dictReset_def entries_def)
  obtain ht1 where ht1: "dictAdd callbackDict True (Some 7) ?empty (sdskey ''news'') 5 = Some (ht1, DICT_OK)"
      "dict_wf callbackDict ht1" "mset (entries ht1) = add_mset ?entry (mset (entries ?empty))"
    using dictAdd_new [OF ty(1) new, of 5] ty(2) by auto
  then have one: "entries ht1 = [?entry]" by (simp add: dictReset_def entries_def)
  then have "d_used ht1 = 1" using ht1(2) by (simp add: dict_wf_def)
  with dict_iteration_visits_all [OF ht1(2)] one have "visited 2 ht1 dictGetIterator = Some [?entry]"
    by (simp add: numeral_2_eq_2 del: visited.simps)
  with ht1(1) show ?thesis by blast
qed

text \<open>\<open>dictRelease\<close> passes each entry's key and value to its destructor exactly once.\<close>

theorem dict_release_frees_all:
  assumes "dict_wf ty ht"
  shows "dictRelease ty ht = concat (map (\<lambda>e. dictFreeEntryKey ty e @ dictFreeEntryVal ty e) (entries ht))"
  using assms by (rule dictRelease_ok)

theorem dict_release_frees_all_witness:
  "dictRelease callbackDict (dictReset :: (sdskey, nat) dict) = []"
proof -
  have "entries (dictReset :: (sdskey, nat) dict) = []" by (simp add: dictReset_def entries_def)
  then show ?thesis by (simp add: dict_release_frees_all [OF dictReset_ok(1)])
qed

end
