(* ===== verification/Async.thy ===== *)
theory Async
  imports Context Dict
begin

text \<open>
  The asynchronous client of \<open>redis/async.h\<close> and \<open>redis/async.c\<close>: commands with callbacks,
  the queue of callbacks waiting for replies, the tables of subscription callbacks, the
  event handlers, and the shutdown of a connection.

  A function pointer is a number.  What a reply callback does is a parameter \<open>cbs\<close>: from the
  context, its number, its data and the reply it yields the calls it makes into the library
  (\<open>action\<close>).  Its run, and every call of an event-loop hook or of a connection callback, is
  an entry of \<open>a_log\<close>; the connection callbacks get a \<open>const\<close> context, so they make no calls.

  A callback list is the list of its callbacks.  \<open>a_freed\<close> is set when the context has been
  freed.  The tables hold their entries under the keys of theory \<open>Dict\<close>, so channel names of
  \<open>2 ^ 31\<close> bytes and more are outside the model (\<open>None\<close>, like undefined behaviour).
\<close>

unbundle bit_operations_syntax

section \<open>Contexts\<close>

record redisCallback =
  cb_fn :: "nat option"
  cb_pending_subs :: int
  cb_privdata :: nat

datatype hook = AddRead | DelRead | AddWrite | DelWrite | Cleanup

datatype action = Formatted "nat option" nat string nat | Disconnect | Free

datatype call = Ran nat nat "reply option" | Hook hook | OnConnect nat status | OnDisconnect nat status

record redisAsyncContext =
  a_c :: rcontext
  a_err :: int
  a_errstr :: bool
  a_ev :: "hook \<Rightarrow> bool"
  a_onConnect :: "nat option"
  a_onDisconnect :: "nat option"
  a_replies :: "redisCallback list"
  a_invalid :: "redisCallback list"
  a_channels :: "(sdskey, redisCallback) dict"
  a_patterns :: "(sdskey, redisCallback) dict"
  a_log :: "call list"
  a_freed :: bool

type_synonym callbacks = "redisAsyncContext \<Rightarrow> nat \<Rightarrow> nat \<Rightarrow> robj option \<Rightarrow> action list"

definition sizeof_redisCallback :: nat where "sizeof_redisCallback = 32"
definition sizeof_redisAsyncContext :: nat where "sizeof_redisAsyncContext = 384"
definition sizeof_dict :: nat where "sizeof_dict = 48"
definition sizeof_dictEntry :: nat where "sizeof_dictEntry = 24"

abbreviation flags_of :: "redisAsyncContext \<Rightarrow> cflags" where "flags_of ac \<equiv> c_flags (a_c ac)"

definition set_flag :: "redisAsyncContext \<Rightarrow> cflags \<Rightarrow> redisAsyncContext" where
  "set_flag ac f = ac\<lparr>a_c := (a_c ac)\<lparr>c_flags := flags_of ac OR f\<rparr>\<rparr>"

definition clear_flag :: "redisAsyncContext \<Rightarrow> cflags \<Rightarrow> redisAsyncContext" where
  "clear_flag ac f = ac\<lparr>a_c := (a_c ac)\<lparr>c_flags := flags_of ac AND NOT f\<rparr>\<rparr>"

text \<open>The \<open>_EL_*\<close> macros.\<close>

definition hook :: "hook \<Rightarrow> redisAsyncContext \<Rightarrow> redisAsyncContext" where
  "hook h ac = (if a_ev ac h then ac\<lparr>a_log := a_log ac @ [Hook h]\<rparr> else ac)"

definition redisAsyncInitialize :: "env \<Rightarrow> rcontext option \<Rightarrow> redisAsyncContext option option" where
  "redisAsyncInitialize e c =
     (case e_malloc e sizeof_redisAsyncContext of
        None \<Rightarrow> Some None
      | Some _ \<Rightarrow> do {
          c1 \<leftarrow> c;
          channels \<leftarrow> dictCreate (map_option (\<lambda>_. 0) (e_malloc e sizeof_dict));
          patterns \<leftarrow> dictCreate (map_option (\<lambda>_. 0) (e_malloc e sizeof_dict));
          Some (Some
            \<lparr>a_c = c1\<lparr>c_flags := c_flags c1 AND NOT REDIS_CONNECTED\<rparr>, a_err = 0, a_errstr = False,
              a_ev = (\<lambda>_. False), a_onConnect = None, a_onDisconnect = None, a_replies = [], a_invalid = [],
              a_channels = channels, a_patterns = patterns, a_log = [], a_freed = False\<rparr>)
        })"

definition redisAsyncCopyError :: "redisAsyncContext option \<Rightarrow> redisAsyncContext option" where
  "redisAsyncCopyError ac = map_option (\<lambda>ac. ac\<lparr>a_err := c_err (a_c ac), a_errstr := True\<rparr>) ac"

text \<open>The variants that check for NULL: a context that cannot be made asynchronous is freed.\<close>

definition async_checked ::
  "env \<Rightarrow> heap \<Rightarrow> (rcontext option \<times> world) option \<Rightarrow> (redisAsyncContext option \<times> world) option" where
  "async_checked e h made =
     do {
       (c, w) \<leftarrow> made;
       if c = None then Some (None, w)
       else do {
         ac \<leftarrow> redisAsyncInitialize e c;
         if ac = None then do { (w1, _) \<leftarrow> redisFree e c w h; Some (None, w1) }
         else Some (redisAsyncCopyError ac, w)
       }
     }"

definition async_unchecked ::
  "env \<Rightarrow> (rcontext option \<times> world) option \<Rightarrow> (redisAsyncContext option \<times> world) option" where
  "async_unchecked e made =
     do { (c, w) \<leftarrow> made; ac \<leftarrow> redisAsyncInitialize e c; Some (redisAsyncCopyError ac, w) }"

definition redisAsyncConnect ::
  "env \<Rightarrow> heap \<Rightarrow> world \<Rightarrow> string \<Rightarrow> int \<Rightarrow> (redisAsyncContext option \<times> world) option" where
  "redisAsyncConnect e h w ip port = async_checked e h (redisConnectNonBlock e h w ip port)"

definition redisAsyncConnectBind ::
  "env \<Rightarrow> heap \<Rightarrow> world \<Rightarrow> string \<Rightarrow> int \<Rightarrow> string ptr \<Rightarrow> (redisAsyncContext option \<times> world) option" where
  "redisAsyncConnectBind e h w ip port source = async_unchecked e (redisConnectBindNonBlock e h w ip port source)"

definition redisAsyncConnectBindWithReuse ::
  "env \<Rightarrow> heap \<Rightarrow> world \<Rightarrow> string \<Rightarrow> int \<Rightarrow> string ptr \<Rightarrow> (redisAsyncContext option \<times> world) option" where
  "redisAsyncConnectBindWithReuse e h w ip port source =
     async_unchecked e (redisConnectBindNonBlockWithReuse e h w ip port source)"

definition redisAsyncConnectUnix ::
  "env \<Rightarrow> heap \<Rightarrow> world \<Rightarrow> string \<Rightarrow> (redisAsyncContext option \<times> world) option" where
  "redisAsyncConnectUnix e h w path = async_checked e h (redisConnectUnixNonBlock e h w path)"

definition redisAsyncSetConnectCallback :: "redisAsyncContext \<Rightarrow> nat \<Rightarrow> redisAsyncContext \<times> status" where
  "redisAsyncSetConnectCallback ac fn =
     (if a_onConnect ac = None then (hook AddWrite (ac\<lparr>a_onConnect := Some fn\<rparr>), REDIS_OK) else (ac, REDIS_ERR))"

definition redisAsyncSetDisconnectCallback :: "redisAsyncContext \<Rightarrow> nat \<Rightarrow> redisAsyncContext \<times> status" where
  "redisAsyncSetDisconnectCallback ac fn =
     (if a_onDisconnect ac = None then (ac\<lparr>a_onDisconnect := Some fn\<rparr>, REDIS_OK) else (ac, REDIS_ERR))"

section \<open>Callback lists\<close>

text \<open>The queue after a push, and 0 or \<open>REDIS_ERR_OOM\<close>; after a shift, \<open>None\<close> being \<open>REDIS_ERR\<close>.\<close>

definition redisPushCallback :: "env \<Rightarrow> redisCallback list \<Rightarrow> redisCallback \<Rightarrow> redisCallback list \<times> int" where
  "redisPushCallback e l source =
     (case e_malloc e sizeof_redisCallback of
        None \<Rightarrow> (l, REDIS_ERR_OOM)
      | Some _ \<Rightarrow> (l @ [source], 0))"

fun redisShiftCallback :: "redisCallback list \<Rightarrow> (redisCallback \<times> redisCallback list) option" where
  "redisShiftCallback [] = None"
| "redisShiftCallback (cb # l) = Some (cb, l)"

section \<open>Commands\<close>

text \<open>
  The arguments of a formatted command, read in the buffer from position \<open>p\<close>: where the next one
  starts, its length, and where the following one is; the inner \<open>None\<close> is NULL.
\<close>

definition nextArgument :: "string \<Rightarrow> nat \<Rightarrow> (nat \<times> nat \<times> nat) option option" where
  "nextArgument buf start =
     (if length buf \<le> start then None
      else
        case (if buf ! start \<noteq> CHR ''$'' then find_sub ''$'' (cstr (drop start buf)) else Some 0) of
          None \<Rightarrow> Some None
        | Some i \<Rightarrow>
            let p = start + i; len = nat (s32 (strtol10 (drop (p + 1) buf)) mod 2 ^ 64)
            in case find_sub [CR] (cstr (drop p buf)) of
                 None \<Rightarrow> None
               | Some j \<Rightarrow> Some (Some (p + j + 2, len, p + j + 2 + len + 2)))"

lemma nextArgument_forward: "nextArgument buf p = Some (Some (s, l, p')) \<Longrightarrow> p < p' \<and> p < length buf"
  by (auto simp: nextArgument_def Let_def split: if_splits option.splits)

text \<open>A table key from an sds string.\<close>

definition sds_key :: "sds \<Rightarrow> sdskey option" where
  "sds_key s = (if sdslen s < 2 ^ 31 then Some (sdskey (content s)) else None)"

definition table_bytes :: "('k, 'v) dict \<Rightarrow> nat" where
  "table_bytes ht = 8 * dictNextPower (if d_size ht = 0 then DICT_HT_INITIAL_SIZE else d_size ht * 2)"

text \<open>\<open>dictReplace(cbdict, sname, &cb)\<close>, at a fresh address for a new entry.\<close>

definition register ::
  "env \<Rightarrow> (sdskey, redisCallback) dict \<Rightarrow> sdskey \<Rightarrow> redisCallback \<Rightarrow> (sdskey, redisCallback) dict option" where
  "register e ht key cb =
     (if e_malloc e sizeof_redisCallback = None then None
      else map_option fst
        (dictReplace callbackDict (e_malloc e (table_bytes ht) \<noteq> None)
           (map_option (\<lambda>_. fresh_addr ht) (e_malloc e sizeof_dictEntry)) ht key cb))"

text \<open>The loop over the channels or patterns of a SUBSCRIBE command; \<open>cb\<close> is one variable for all of
  them.\<close>

function subscribe_loop ::
  "env \<Rightarrow> string \<Rightarrow> nat \<Rightarrow> redisCallback \<Rightarrow> (sdskey, redisCallback) dict \<Rightarrow> (sdskey, redisCallback) dict option" where
  "subscribe_loop e buf p cb ht =
     (case nextArgument buf p of
        None \<Rightarrow> None
      | Some None \<Rightarrow> Some ht
      | Some (Some (astr, alen, p')) \<Rightarrow>
          Option.bind (mem_read buf astr alen) (\<lambda>bs.
          Option.bind (Option.bind (sdsnewlen (e_malloc e) (Some bs) alen) (\<lambda>s. s)) (\<lambda>sname.
          Option.bind (sds_key sname) (\<lambda>key.
          Option.bind (dictFind callbackDict ht key) (\<lambda>de.
            let cb1 = (case de of None \<Rightarrow> cb
                | Some d \<Rightarrow> cb\<lparr>cb_pending_subs := s32 (cb_pending_subs (de_val d) + 1)\<rparr>)
            in Option.bind (register e ht key cb1) (\<lambda>ht1. subscribe_loop e buf p' cb1 ht1))))))"
  by pat_completeness auto
termination
  by (relation "measure (\<lambda>(e, buf, p, cb, ht). length buf - p)") (auto dest!: nextArgument_forward)

declare subscribe_loop.simps [simp del]

text \<open>\<open>__redisAsyncCommand\<close>, on the buffer of the command.\<close>

definition redisAsyncCommand_raw ::
  "env \<Rightarrow> redisAsyncContext \<Rightarrow> world \<Rightarrow> nat option \<Rightarrow> nat \<Rightarrow> string \<Rightarrow> nat \<Rightarrow> (redisAsyncContext \<times> status) option" where
  "redisAsyncCommand_raw e ac w fn privdata buf len =
     (if has (flags_of ac) (REDIS_DISCONNECTING OR REDIS_FREEING) then Some (ac, REDIS_ERR)
      else do {
        let cb = \<lparr>cb_fn = fn, cb_pending_subs = 1, cb_privdata = privdata\<rparr>;
        arg \<leftarrow> nextArgument buf 0;
        (cst, clen, p) \<leftarrow> arg;
        nxt \<leftarrow> mem_read buf p 1;
        fst_char \<leftarrow> mem_read buf cst 1;
        let hasnext = (nxt = ''$'');
        let pvariant = (tolower (hd fst_char) = CHR ''p'');
        let name = drop (if pvariant then cst + 1 else cst) buf;
        res \<leftarrow>
          (if hasnext \<and> strncaseeq name (''subscribe'' @ CRLF) 11 then do {
             let ac1 = set_flag ac REDIS_SUBSCRIBED;
             t \<leftarrow> subscribe_loop e buf p cb (if pvariant then a_patterns ac1 else a_channels ac1);
             Some (Some (if pvariant then ac1\<lparr>a_patterns := t\<rparr> else ac1\<lparr>a_channels := t\<rparr>))
           }
           else if strncaseeq name (''unsubscribe'' @ CRLF) 13 then
             Some (if has (flags_of ac) REDIS_SUBSCRIBED then Some ac else None)
           else if strncaseeq name (''monitor'' @ CRLF) 9 then
             Some (Some ((set_flag ac REDIS_MONITORING)\<lparr>a_replies := fst (redisPushCallback e (a_replies ac) cb)\<rparr>))
           else if has (flags_of ac) REDIS_SUBSCRIBED then
             Some (Some (ac\<lparr>a_invalid := fst (redisPushCallback e (a_invalid ac) cb)\<rparr>))
           else
             Some (Some (ac\<lparr>a_replies := fst (redisPushCallback e (a_replies ac) cb)\<rparr>)));
        case res of
          None \<Rightarrow> Some (ac, REDIS_ERR)
        | Some ac1 \<Rightarrow> do {
            (c1, st) \<leftarrow> redisAppendCommand_raw e (a_c ac1) w buf len;
            Some (hook AddWrite (ac1\<lparr>a_c := c1\<rparr>), REDIS_OK)
          }
      })"

definition redisvAsyncCommand ::
  "env \<Rightarrow> float_text \<Rightarrow> redisAsyncContext \<Rightarrow> world \<Rightarrow> nat option \<Rightarrow> nat \<Rightarrow> string \<Rightarrow> carg list \<Rightarrow>
   (redisAsyncContext \<times> status) option" where
  "redisvAsyncCommand e fl ac w fn privdata format ap =
     do {
       (len, cmd) \<leftarrow> redisvFormatCommand (e_malloc e) fl format ap;
       if len < 0 then Some (ac, REDIS_ERR)
       else do { buf \<leftarrow> cmd; redisAsyncCommand_raw e ac w fn privdata buf (nat len) }
     }"

definition redisAsyncCommand ::
  "env \<Rightarrow> float_text \<Rightarrow> redisAsyncContext \<Rightarrow> world \<Rightarrow> nat option \<Rightarrow> nat \<Rightarrow> string \<Rightarrow> carg list \<Rightarrow>
   (redisAsyncContext \<times> status) option" where
  "redisAsyncCommand e fl ac w fn privdata format ap = redisvAsyncCommand e fl ac w fn privdata format ap"

definition redisAsyncCommandArgv ::
  "env \<Rightarrow> redisAsyncContext \<Rightarrow> world \<Rightarrow> nat option \<Rightarrow> nat \<Rightarrow> int \<Rightarrow> string list \<Rightarrow> nat list option \<Rightarrow>
   (redisAsyncContext \<times> status) option" where
  "redisAsyncCommandArgv e ac w fn privdata argc argv argvlen =
     do {
       (len, cmd) \<leftarrow> redisFormatSdsCommandArgv (e_malloc e) argc argv argvlen;
       if len < 0 then Some (ac, REDIS_ERR)
       else do { s \<leftarrow> cmd; redisAsyncCommand_raw e ac w fn privdata (sds_buf s) (nat len) }
     }"

definition redisAsyncFormattedCommand ::
  "env \<Rightarrow> redisAsyncContext \<Rightarrow> world \<Rightarrow> nat option \<Rightarrow> nat \<Rightarrow> string \<Rightarrow> nat \<Rightarrow> (redisAsyncContext \<times> status) option" where
  "redisAsyncFormattedCommand e ac w fn privdata buf len = redisAsyncCommand_raw e ac w fn privdata buf len"

section \<open>Running callbacks\<close>

text \<open>
  What a callback does: it queues commands, asks for a disconnect, or frees the context.  While
  \<open>REDIS_IN_CALLBACK\<close> is set, \<open>redisAsyncDisconnect\<close> and \<open>redisAsyncFree\<close> only set their flag and
  leave the rest to the caller of the callback; their full definitions are below.
\<close>

fun perform :: "env \<Rightarrow> world \<Rightarrow> action \<Rightarrow> redisAsyncContext \<Rightarrow> redisAsyncContext option" where
  "perform e w (Formatted fn privdata buf len) ac =
     map_option fst (redisAsyncFormattedCommand e ac w fn privdata buf len)"
| "perform e w Disconnect ac = Some (set_flag ac REDIS_DISCONNECTING)"
| "perform e w Free ac = Some (set_flag ac REDIS_FREEING)"

fun perform_all :: "env \<Rightarrow> world \<Rightarrow> action list \<Rightarrow> redisAsyncContext \<Rightarrow> redisAsyncContext option" where
  "perform_all e w [] ac = Some ac"
| "perform_all e w (a # as) ac = Option.bind (perform e w a ac) (perform_all e w as)"

definition redisRunCallback ::
  "env \<Rightarrow> callbacks \<Rightarrow> world \<Rightarrow> redisAsyncContext \<Rightarrow> redisCallback \<Rightarrow> robj option \<Rightarrow> redisAsyncContext option" where
  "redisRunCallback e cbs w ac cb reply =
     (case cb_fn cb of
        None \<Rightarrow> Some ac
      | Some f \<Rightarrow> do {
          let ac1 = (set_flag ac REDIS_IN_CALLBACK)
            \<lparr>a_log := a_log ac @ [Ran f (cb_privdata cb) (denotes (a_c ac) reply)]\<rparr>;
          ac2 \<leftarrow> perform_all e w (cbs ac1 f (cb_privdata cb) reply) ac1;
          Some (clear_flag ac2 REDIS_IN_CALLBACK)
        })"

section \<open>Shutting down\<close>

partial_function (option) run_replies ::
  "env \<Rightarrow> callbacks \<Rightarrow> world \<Rightarrow> redisAsyncContext \<Rightarrow> redisAsyncContext option" where
  "run_replies e cbs w ac =
     (case redisShiftCallback (a_replies ac) of
        None \<Rightarrow> Some ac
      | Some cbl \<Rightarrow> Option.bind (redisRunCallback e cbs w (ac\<lparr>a_replies := snd cbl\<rparr>) (fst cbl) None)
          (\<lambda>ac1. run_replies e cbs w ac1))"

partial_function (option) run_invalid ::
  "env \<Rightarrow> callbacks \<Rightarrow> world \<Rightarrow> redisAsyncContext \<Rightarrow> redisAsyncContext option" where
  "run_invalid e cbs w ac =
     (case redisShiftCallback (a_invalid ac) of
        None \<Rightarrow> Some ac
      | Some cbl \<Rightarrow> Option.bind (redisRunCallback e cbs w (ac\<lparr>a_invalid := snd cbl\<rparr>) (fst cbl) None)
          (\<lambda>ac1. run_invalid e cbs w ac1))"

text \<open>The iteration over a table of subscriptions, which are in place while their callbacks run.\<close>

partial_function (option) run_subscriptions ::
  "env \<Rightarrow> callbacks \<Rightarrow> world \<Rightarrow> (redisAsyncContext \<Rightarrow> (sdskey, redisCallback) dict) \<Rightarrow>
   (sdskey, redisCallback) dictIterator \<Rightarrow> redisAsyncContext \<Rightarrow> redisAsyncContext option" where
  "run_subscriptions e cbs w sel it ac =
     Option.bind (dictNext (sel ac) it) (\<lambda>nx.
       case snd nx of
         None \<Rightarrow> Some ac
       | Some de \<Rightarrow> Option.bind (redisRunCallback e cbs w ac (de_val de) None)
           (\<lambda>ac1. run_subscriptions e cbs w sel (fst nx) ac1))"

text \<open>\<open>__redisAsyncFree\<close>\<close>

definition redisAsyncFree_raw ::
  "env \<Rightarrow> callbacks \<Rightarrow> redisAsyncContext \<Rightarrow> world \<Rightarrow> (redisAsyncContext \<times> world) option" where
  "redisAsyncFree_raw e cbs ac w =
     do {
       ac1 \<leftarrow> run_replies e cbs w ac;
       ac2 \<leftarrow> run_invalid e cbs w ac1;
       ac3 \<leftarrow> run_subscriptions e cbs w a_channels dictGetIterator ac2;
       let ac4 = ac3\<lparr>a_channels := dictReset\<rparr>;
       ac5 \<leftarrow> run_subscriptions e cbs w a_patterns dictGetIterator ac4;
       let ac6 = hook Cleanup (ac5\<lparr>a_patterns := dictReset\<rparr>);
       let ac7 = (case a_onDisconnect ac6 of
           Some f \<Rightarrow>
             if has (flags_of ac6) REDIS_CONNECTED then
               (if has (flags_of ac6) REDIS_FREEING then ac6\<lparr>a_log := a_log ac6 @ [OnDisconnect f REDIS_OK]\<rparr>
                else ac6\<lparr>a_log := a_log ac6 @ [OnDisconnect f (if a_err ac6 = 0 then REDIS_OK else REDIS_ERR)]\<rparr>)
             else ac6
         | None \<Rightarrow> ac6);
       (w1, _) \<leftarrow> redisFree e (Some (a_c ac7)) w [];
       Some (ac7\<lparr>a_freed := True\<rparr>, w1)
     }"

definition redisAsyncFree ::
  "env \<Rightarrow> callbacks \<Rightarrow> redisAsyncContext \<Rightarrow> world \<Rightarrow> (redisAsyncContext \<times> world) option" where
  "redisAsyncFree e cbs ac w =
     (let ac1 = set_flag ac REDIS_FREEING
      in if \<not> has (flags_of ac1) REDIS_IN_CALLBACK then redisAsyncFree_raw e cbs ac1 w else Some (ac1, w))"

text \<open>\<open>__redisAsyncDisconnect\<close>\<close>

definition redisAsyncDisconnect_raw ::
  "env \<Rightarrow> callbacks \<Rightarrow> redisAsyncContext \<Rightarrow> world \<Rightarrow> (redisAsyncContext \<times> world) option" where
  "redisAsyncDisconnect_raw e cbs ac w =
     (let ac1 = ac\<lparr>a_err := c_err (a_c ac), a_errstr := True\<rparr>
      in if a_err ac1 = 0 then
           (if redisShiftCallback (a_replies ac1) = None then redisAsyncFree_raw e cbs ac1 w else None)
         else redisAsyncFree_raw e cbs (set_flag ac1 REDIS_DISCONNECTING) w)"

definition redisAsyncDisconnect ::
  "env \<Rightarrow> callbacks \<Rightarrow> redisAsyncContext \<Rightarrow> world \<Rightarrow> (redisAsyncContext \<times> world) option" where
  "redisAsyncDisconnect e cbs ac w =
     (let ac1 = set_flag ac REDIS_DISCONNECTING
      in if \<not> has (flags_of ac1) REDIS_IN_CALLBACK \<and> a_replies ac1 = [] then redisAsyncDisconnect_raw e cbs ac1 w
         else Some (ac1, w))"

section \<open>Replies\<close>

definition reply_record :: "redisAsyncContext \<Rightarrow> robj \<Rightarrow> redisReply option" where
  "reply_record ac q =
     (case q of Tag _ \<Rightarrow> None | Ref a \<Rightarrow> do { r \<leftarrow> c_reader (a_c ac); heap_get (r_store r) a })"

text \<open>\<open>reply->element[i]\<close>\<close>

definition element :: "redisAsyncContext \<Rightarrow> redisReply \<Rightarrow> nat \<Rightarrow> redisReply option" where
  "element ac r i =
     do {
       es \<leftarrow> rp_element r;
       p \<leftarrow> (if i < length es then es ! i else None);
       reply_record ac (Ref p)
     }"

text \<open>\<open>strcasecmp(s, t) == 0\<close>\<close>

definition strcaseeq :: "string \<Rightarrow> string \<Rightarrow> bool" where
  "strcaseeq s t \<longleftrightarrow> map tolower (cstr s) = map tolower (cstr t)"

text \<open>\<open>__redisGetSubscribeCallback\<close>: the context and \<open>*dstcb\<close>.\<close>

definition redisGetSubscribeCallback ::
  "env \<Rightarrow> redisAsyncContext \<Rightarrow> redisReply \<Rightarrow> redisCallback \<Rightarrow> (redisAsyncContext \<times> redisCallback) option" where
  "redisGetSubscribeCallback e ac reply dstcb =
     (if rp_type reply = REDIS_REPLY_ARRAY then
        if \<not> rp_elements reply \<ge> 2 then None
        else do {
          e0 \<leftarrow> element ac reply 0;
          if rp_type e0 \<noteq> REDIS_REPLY_STRING then None
          else do {
            stype \<leftarrow> rp_str e0;
            let pvariant = (cstr stype \<noteq> [] \<and> tolower (hd stype) = CHR ''p'');
            let callbacks = (if pvariant then a_patterns ac else a_channels ac);
            let put = (\<lambda>t. if pvariant then ac\<lparr>a_patterns := t\<rparr> else ac\<lparr>a_channels := t\<rparr>);
            let kind = drop (if pvariant then 1 else 0) stype;
            e1 \<leftarrow> element ac reply 1;
            if rp_type e1 \<noteq> REDIS_REPLY_STRING then None
            else do {
              sname \<leftarrow> Option.bind (sdsnewlen (e_malloc e) (rp_str e1) (rp_len e1)) (\<lambda>s. s);
              key \<leftarrow> sds_key sname;
              found \<leftarrow> dictFind callbackDict callbacks key;
              case found of
                None \<Rightarrow> Some (ac, dstcb)
              | Some de \<Rightarrow> do {
                  let cb = (if strcaseeq kind ''subscribe''
                    then (de_val de)\<lparr>cb_pending_subs := s32 (cb_pending_subs (de_val de) - 1)\<rparr> else de_val de);
                  let t1 = set_val callbacks (de_addr de) cb;
                  if strcaseeq kind ''unsubscribe'' then do {
                    t2 \<leftarrow> (if cb_pending_subs cb = 0 then map_option fst (dictDelete callbackDict t1 key) else Some t1);
                    e2 \<leftarrow> element ac reply 2;
                    if rp_type e2 \<noteq> REDIS_REPLY_INTEGER then None
                    else
                      let ac1 = put t2
                      in Some (if rp_integer e2 = 0 \<and> dictSize (a_channels ac1) = 0 \<and> dictSize (a_patterns ac1) = 0
                               then clear_flag ac1 REDIS_SUBSCRIBED else ac1, cb)
                  }
                  else Some (put t1, cb)
                }
            }
          }
        }
      else
        case redisShiftCallback (a_invalid ac) of
          None \<Rightarrow> Some (ac, dstcb)
        | Some (cb, l) \<Rightarrow> Some (ac\<lparr>a_invalid := l\<rparr>, cb))"

text \<open>\<open>c->reader->fn->freeObject(reply)\<close>\<close>

definition free_object :: "redisAsyncContext \<Rightarrow> robj \<Rightarrow> redisAsyncContext option" where
  "free_object ac q =
     do {
       r \<leftarrow> c_reader (a_c ac);
       fns \<leftarrow> r_fn r;
       free \<leftarrow> freeObject fns;
       h \<leftarrow> free (r_store r) q;
       Some (ac\<lparr>a_c := (a_c ac)\<lparr>c_reader := Some (r\<lparr>r_store := h\<rparr>)\<rparr>\<rparr>)
     }"

text \<open>The callback for a reply, when no regular callback waits; \<open>Inl\<close> ends the processing with a
  disconnect.\<close>

definition spontaneous ::
  "env \<Rightarrow> redisAsyncContext \<Rightarrow> robj \<Rightarrow> redisCallback \<Rightarrow> (redisAsyncContext + redisAsyncContext \<times> redisCallback) option" where
  "spontaneous e ac q cb =
     do {
       r \<leftarrow> reply_record ac q;
       if rp_type r = REDIS_REPLY_ERROR then do {
         msg \<leftarrow> rp_str r;
         ac1 \<leftarrow> free_object (ac\<lparr>a_c := (a_c ac)\<lparr>c_err := REDIS_ERR_OTHER, c_errstr := take 127 (cstr msg)\<rparr>\<rparr>) q;
         Some (Inl ac1)
       }
       else if \<not> has (flags_of ac) REDIS_SUBSCRIBED \<and> \<not> has (flags_of ac) REDIS_MONITORING then None
       else if has (flags_of ac) REDIS_SUBSCRIBED then
         map_option Inr (redisGetSubscribeCallback e ac r cb)
       else Some (Inr (ac, cb))
     }"

text \<open>The loop of \<open>redisProcessCallbacks\<close>; \<open>cb\<close> keeps its value from turn to turn.\<close>

partial_function (option) process_loop ::
  "env \<Rightarrow> callbacks \<Rightarrow> redisCallback \<Rightarrow> redisAsyncContext \<Rightarrow> world \<Rightarrow> (redisAsyncContext \<times> world) option" where
  "process_loop e cbs cb ac w =
     Option.bind (redisGetReply e (a_c ac) w) (\<lambda>got.
       let ac1 = ac\<lparr>a_c := fst got\<rparr>; w1 = fst (snd got)
       in if fst (snd (snd got)) \<noteq> REDIS_OK then redisAsyncDisconnect_raw e cbs ac1 w1
          else case snd (snd (snd got)) of
            None \<Rightarrow>
              if has (flags_of ac1) REDIS_DISCONNECTING \<and> map_option sdslen (c_obuf (a_c ac1)) = Some 0
                 \<and> a_replies ac1 = []
              then redisAsyncDisconnect_raw e cbs ac1 w1
              else if has (flags_of ac1) REDIS_MONITORING
              then Some (ac1\<lparr>a_replies := fst (redisPushCallback e (a_replies ac1) cb)\<rparr>, w1)
              else Some (ac1, w1)
          | Some q \<Rightarrow>
              Option.bind
                (case redisShiftCallback (a_replies ac1) of
                   Some cbl \<Rightarrow> Some (Inr (ac1\<lparr>a_replies := snd cbl\<rparr>, fst cbl))
                 | None \<Rightarrow> spontaneous e ac1 q cb)
                (\<lambda>res. case res of
                   Inl ac2 \<Rightarrow> redisAsyncDisconnect_raw e cbs ac2 w1
                 | Inr accb \<Rightarrow>
                     if cb_fn (snd accb) \<noteq> None then
                       Option.bind (redisRunCallback e cbs w1 (fst accb) (snd accb) (Some q)) (\<lambda>ac3.
                       Option.bind (free_object ac3 q) (\<lambda>ac4.
                         if has (flags_of ac4) REDIS_FREEING then redisAsyncFree_raw e cbs ac4 w1
                         else process_loop e cbs (snd accb) ac4 w1))
                     else Option.bind (free_object (fst accb) q) (\<lambda>ac4.
                       process_loop e cbs (snd accb) ac4 w1)))"

definition redisProcessCallbacks ::
  "env \<Rightarrow> callbacks \<Rightarrow> redisAsyncContext \<Rightarrow> world \<Rightarrow> (redisAsyncContext \<times> world) option" where
  "redisProcessCallbacks e cbs ac w =
     process_loop e cbs \<lparr>cb_fn = None, cb_pending_subs = 0, cb_privdata = 0\<rparr> ac w"

section \<open>Events\<close>

text \<open>\<open>__redisAsyncHandleConnect\<close>\<close>

definition redisAsyncHandleConnect ::
  "env \<Rightarrow> callbacks \<Rightarrow> redisAsyncContext \<Rightarrow> world \<Rightarrow> (redisAsyncContext \<times> world \<times> status) option" where
  "redisAsyncHandleConnect e cbs ac w =
     do {
       (c1, w1, st) \<leftarrow> redisCheckSocketError e (a_c ac) w;
       let ac1 = ac\<lparr>a_c := c1\<rparr>;
       let told = (\<lambda>ac st. case a_onConnect ac of None \<Rightarrow> ac
                     | Some f \<Rightarrow> ac\<lparr>a_log := a_log ac @ [OnConnect f st]\<rparr>);
       if st = REDIS_ERR then
         (if w_errno w1 = EINPROGRESS then Some (ac1, w1, REDIS_OK)
          else do {
            (ac2, w2) \<leftarrow> redisAsyncDisconnect_raw e cbs (told ac1 REDIS_ERR) w1;
            Some (ac2, w2, REDIS_ERR)
          })
       else Some (told (set_flag ac1 REDIS_CONNECTED) REDIS_OK, w1, REDIS_OK)
     }"

text \<open>What both handlers do first: go on only with a connected context.\<close>

definition when_connected ::
  "env \<Rightarrow> callbacks \<Rightarrow> redisAsyncContext \<Rightarrow> world \<Rightarrow>
   (redisAsyncContext \<Rightarrow> world \<Rightarrow> (redisAsyncContext \<times> world) option) \<Rightarrow> (redisAsyncContext \<times> world) option" where
  "when_connected e cbs ac w k =
     (if has (flags_of ac) REDIS_CONNECTED then k ac w
      else do {
        (ac1, w1, st) \<leftarrow> redisAsyncHandleConnect e cbs ac w;
        if st \<noteq> REDIS_OK \<or> \<not> has (flags_of ac1) REDIS_CONNECTED then Some (ac1, w1) else k ac1 w1
      })"

definition redisAsyncHandleRead ::
  "env \<Rightarrow> callbacks \<Rightarrow> redisAsyncContext \<Rightarrow> world \<Rightarrow> (redisAsyncContext \<times> world) option" where
  "redisAsyncHandleRead e cbs ac w =
     when_connected e cbs ac w (\<lambda>ac w. do {
       (c1, w1, st) \<leftarrow> redisBufferRead e (a_c ac) w;
       let ac1 = ac\<lparr>a_c := c1\<rparr>;
       if st = REDIS_ERR then redisAsyncDisconnect_raw e cbs ac1 w1
       else redisProcessCallbacks e cbs (hook AddRead ac1) w1
     })"

definition redisAsyncHandleWrite ::
  "env \<Rightarrow> callbacks \<Rightarrow> redisAsyncContext \<Rightarrow> world \<Rightarrow> (redisAsyncContext \<times> world) option" where
  "redisAsyncHandleWrite e cbs ac w =
     when_connected e cbs ac w (\<lambda>ac w. do {
       (c1, w1, st, fin) \<leftarrow> redisBufferWrite e (a_c ac) w;
       let ac1 = ac\<lparr>a_c := c1\<rparr>;
       if st = REDIS_ERR then redisAsyncDisconnect_raw e cbs ac1 w1
       else Some (hook AddRead (hook (if fin then DelWrite else AddWrite) ac1), w1)
     })"

section \<open>Flags\<close>

lemma has_OR: "has (f OR g) m \<longleftrightarrow> has f m \<or> has g m"
  by (simp add: has_def word_ao_dist or_eq_0_iff)

lemma has_ANDNOT:
  assumes "g AND m = 0" shows "has (f AND NOT g) m \<longleftrightarrow> has f m"
proof -
  have "\<not> (bit g n \<and> bit m n)" for n
    using assms by (metis bit_0_eq bit_and_iff bot_apply bot_bool_def)
  then have "(f AND NOT g) AND m = f AND m"
    by (intro bit_word_eqI) (auto simp: bit_simps)
  then show ?thesis by (simp add: has_def)
qed

lemma has_cleared: "\<not> has (f AND NOT g) g"
  by (simp add: has_def and.assoc)

lemmas flag_defs = REDIS_BLOCK_def REDIS_CONNECTED_def REDIS_DISCONNECTING_def REDIS_FREEING_def
  REDIS_IN_CALLBACK_def REDIS_SUBSCRIBED_def REDIS_MONITORING_def REDIS_REUSEADDR_def

text \<open>No command is accepted any more.\<close>

definition closing :: "cflags \<Rightarrow> bool" where
  "closing f \<longleftrightarrow> has f (REDIS_DISCONNECTING OR REDIS_FREEING)"

lemma closing_OR: "closing f \<Longrightarrow> closing (f OR g)"
  by (simp add: closing_def has_OR)

lemma closing_clear: "closing (f AND NOT REDIS_IN_CALLBACK) \<longleftrightarrow> closing f"
  unfolding closing_def by (rule has_ANDNOT) (simp add: flag_defs)

text \<open>What happens to the flags while callbacks run: a context that is closing stays so, the mark of a
  \<open>redisAsyncFree\<close> stays, and whether it is connected does not change.\<close>

definition evolves :: "cflags \<Rightarrow> cflags \<Rightarrow> bool" where
  "evolves f g \<longleftrightarrow> (closing f \<longrightarrow> closing g) \<and> (has f REDIS_FREEING \<longrightarrow> has g REDIS_FREEING) \<and>
     (has g REDIS_CONNECTED \<longleftrightarrow> has f REDIS_CONNECTED)"

lemma evolves_refl [simp]: "evolves f f"
  by (simp add: evolves_def)

lemma evolves_trans: "evolves f g \<Longrightarrow> evolves g h \<Longrightarrow> evolves f h"
  by (simp add: evolves_def)

lemma evolves_OR:
  assumes "g AND REDIS_CONNECTED = 0" shows "evolves f (f OR g)"
proof -
  have "\<not> has g REDIS_CONNECTED" using assms by (simp add: has_def)
  then show ?thesis by (auto simp: evolves_def has_OR closing_OR)
qed

lemma evolves_clear: "evolves f (f AND NOT REDIS_IN_CALLBACK)"
proof -
  have "has (f AND NOT REDIS_IN_CALLBACK) m \<longleftrightarrow> has f m"
    if "m = REDIS_FREEING \<or> m = REDIS_CONNECTED" for m
    using that by (intro has_ANDNOT) (auto simp: flag_defs)
  then show ?thesis by (simp add: evolves_def closing_clear)
qed

lemmas flag_steps = evolves_OR [of REDIS_DISCONNECTING] evolves_OR [of REDIS_FREEING] evolves_OR [of REDIS_IN_CALLBACK]

lemma set_flag_simps [simp]:
  "flags_of (set_flag ac f) = flags_of ac OR f" "a_replies (set_flag ac f) = a_replies ac"
  "a_log (set_flag ac f) = a_log ac"
  by (simp_all add: set_flag_def)

lemma raw_refused:
  "closing (flags_of ac) \<Longrightarrow> redisAsyncCommand_raw e ac w fn pd buf len = Some (ac, REDIS_ERR)"
  by (simp add: redisAsyncCommand_raw_def closing_def)

section \<open>Callbacks of a closing context\<close>

text \<open>They change its flags and the log, nothing else.\<close>

definition with_flags :: "redisAsyncContext \<Rightarrow> cflags \<Rightarrow> call list \<Rightarrow> redisAsyncContext" where
  "with_flags ac f l = ac\<lparr>a_c := (a_c ac)\<lparr>c_flags := f\<rparr>, a_log := a_log ac @ l\<rparr>"

lemma with_flags_simps [simp]:
  "with_flags ac (flags_of ac) [] = ac" "with_flags (with_flags ac f l) g k = with_flags ac g (l @ k)"
  "flags_of (with_flags ac f l) = f" "a_log (with_flags ac f l) = a_log ac @ l"
  "a_replies (with_flags ac f l) = a_replies ac" "a_invalid (with_flags ac f l) = a_invalid ac"
  "a_channels (with_flags ac f l) = a_channels ac" "a_patterns (with_flags ac f l) = a_patterns ac"
  "a_ev (with_flags ac f l) = a_ev ac" "a_onDisconnect (with_flags ac f l) = a_onDisconnect ac"
  "c_reader (a_c (with_flags ac f l)) = c_reader (a_c ac)" "c_fd (a_c (with_flags ac f l)) = c_fd (a_c ac)"
  "(with_flags ac f l)\<lparr>a_replies := r\<rparr> = with_flags (ac\<lparr>a_replies := r\<rparr>) f l"
  "(with_flags ac f l)\<lparr>a_invalid := r\<rparr> = with_flags (ac\<lparr>a_invalid := r\<rparr>) f l"
  "(with_flags ac f l)\<lparr>a_channels := t\<rparr> = with_flags (ac\<lparr>a_channels := t\<rparr>) f l"
  "(with_flags ac f l)\<lparr>a_patterns := t\<rparr> = with_flags (ac\<lparr>a_patterns := t\<rparr>) f l"
  by (simp_all add: with_flags_def)

lemma set_flag_with: "set_flag ac f = with_flags ac (flags_of ac OR f) []"
  by (simp add: set_flag_def with_flags_def)

lemma perform_all_closing:
  "closing (flags_of ac) \<Longrightarrow>
   \<exists>f. perform_all e w as ac = Some (with_flags ac f []) \<and> evolves (flags_of ac) f"
proof (induction as arbitrary: ac)
  case Nil
  then show ?case by (auto intro!: exI [of _ "flags_of ac"])
next
  case (Cons a as)
  have "\<exists>f. perform e w a ac = Some (with_flags ac f []) \<and> evolves (flags_of ac) f"
  proof (cases a)
    case (Formatted fn pd buf len)
    then show ?thesis
      using Cons.prems by (intro exI [of _ "flags_of ac"]) (simp add: redisAsyncFormattedCommand_def raw_refused)
  next
    case Disconnect
    then show ?thesis using flag_steps(1) by (auto simp: set_flag_with flag_defs)
  next
    case Free
    then show ?thesis using flag_steps(2) by (auto simp: set_flag_with flag_defs)
  qed
  then obtain f where f: "perform e w a ac = Some (with_flags ac f [])" "evolves (flags_of ac) f" by blast
  then have "closing f" using Cons.prems by (simp add: evolves_def)
  then obtain g where "perform_all e w as (with_flags ac f []) = Some (with_flags (with_flags ac f []) g [])" "evolves f g"
    using Cons.IH [of "with_flags ac f []"] by auto
  then show ?case using f evolves_trans by (auto intro!: exI [of _ g])
qed

text \<open>The runs of the callbacks of a list, with a NULL reply.\<close>

definition null_run :: "redisCallback \<Rightarrow> call list" where
  "null_run cb = (case cb_fn cb of None \<Rightarrow> [] | Some f \<Rightarrow> [Ran f (cb_privdata cb) None])"

definition null_runs :: "redisCallback list \<Rightarrow> call list" where
  "null_runs l = concat (map null_run l)"

lemma denotes_None [simp]: "denotes c None = None"
  by (cases "c_reader c") (simp_all add: denotes_def)

lemma run_closing:
  assumes "closing (flags_of ac)"
  shows "\<exists>f. redisRunCallback e cbs w ac cb None = Some (with_flags ac f (null_run cb)) \<and> evolves (flags_of ac) f"
proof (cases "cb_fn cb")
  case None
  then show ?thesis using assms by (auto simp: redisRunCallback_def null_run_def intro!: exI [of _ "flags_of ac"])
next
  case (Some fn)
  define ac1 where "ac1 = with_flags ac (flags_of ac OR REDIS_IN_CALLBACK) (null_run cb)"
  have ac1: "(set_flag ac REDIS_IN_CALLBACK)\<lparr>a_log := a_log ac @ [Ran fn (cb_privdata cb) None]\<rparr> = ac1"
    using Some by (simp add: ac1_def set_flag_def with_flags_def null_run_def)
  have in1: "evolves (flags_of ac) (flags_of ac1)" using flag_steps(3) by (simp add: ac1_def flag_defs)
  then have "closing (flags_of ac1)" using assms by (simp add: evolves_def)
  then obtain f where f: "perform_all e w (cbs ac1 fn (cb_privdata cb) None) ac1 = Some (with_flags ac1 f [])"
      "evolves (flags_of ac1) f"
    using perform_all_closing by blast
  have "redisRunCallback e cbs w ac cb None = Some (clear_flag (with_flags ac1 f []) REDIS_IN_CALLBACK)"
    using Some f(1) by (simp add: redisRunCallback_def ac1 Let_def)
  moreover have "clear_flag (with_flags ac1 f []) REDIS_IN_CALLBACK = with_flags ac (f AND NOT REDIS_IN_CALLBACK) (null_run cb)"
    by (simp add: ac1_def clear_flag_def with_flags_def)
  moreover have "evolves (flags_of ac) (f AND NOT REDIS_IN_CALLBACK)"
    using in1 f(2) evolves_clear evolves_trans by blast
  ultimately show ?thesis by (intro exI [of _ "f AND NOT REDIS_IN_CALLBACK"]) simp
qed

lemma run_replies_closing:
  "closing (flags_of ac) \<Longrightarrow>
   \<exists>f. run_replies e cbs w ac = Some (with_flags (ac\<lparr>a_replies := []\<rparr>) f (null_runs (a_replies ac))) \<and>
     evolves (flags_of ac) f"
proof (induction "a_replies ac" arbitrary: ac)
  case Nil
  have "with_flags (ac\<lparr>a_replies := []\<rparr>) (flags_of ac) (null_runs (a_replies ac)) = ac"
    using Nil(1) [symmetric] by (simp add: with_flags_def null_runs_def)
  then show ?case
    using Nil by (intro exI [of _ "flags_of ac"]) (simp add: run_replies.simps [of e cbs w ac] flip: Nil(1))
next
  case (Cons cb l)
  obtain f where f: "redisRunCallback e cbs w (ac\<lparr>a_replies := l\<rparr>) cb None = Some (with_flags (ac\<lparr>a_replies := l\<rparr>) f (null_run cb))"
      "evolves (flags_of ac) f"
    using run_closing [of "ac\<lparr>a_replies := l\<rparr>" e cbs w cb] Cons.prems by auto
  define ac1 where "ac1 = with_flags (ac\<lparr>a_replies := l\<rparr>) f (null_run cb)"
  have "l = a_replies ac1" "closing (flags_of ac1)" using f(2) Cons.prems by (simp_all add: ac1_def evolves_def)
  then obtain g where "run_replies e cbs w ac1 = Some (with_flags (ac1\<lparr>a_replies := []\<rparr>) g (null_runs l))"
      "evolves (flags_of ac1) g"
    using Cons.hyps(1) [of ac1] by auto
  moreover have "with_flags (ac1\<lparr>a_replies := []\<rparr>) g (null_runs l) = with_flags (ac\<lparr>a_replies := []\<rparr>) g (null_runs (a_replies ac))"
    by (simp add: ac1_def null_runs_def flip: Cons.hyps(2))
  ultimately show ?case
    using f evolves_trans by (auto simp: run_replies.simps [of e cbs w ac] ac1_def simp flip: Cons.hyps(2))
qed

lemma run_invalid_closing:
  "closing (flags_of ac) \<Longrightarrow>
   \<exists>f. run_invalid e cbs w ac = Some (with_flags (ac\<lparr>a_invalid := []\<rparr>) f (null_runs (a_invalid ac))) \<and>
     evolves (flags_of ac) f"
proof (induction "a_invalid ac" arbitrary: ac)
  case Nil
  have "with_flags (ac\<lparr>a_invalid := []\<rparr>) (flags_of ac) (null_runs (a_invalid ac)) = ac"
    using Nil(1) [symmetric] by (simp add: with_flags_def null_runs_def)
  then show ?case
    using Nil by (intro exI [of _ "flags_of ac"]) (simp add: run_invalid.simps [of e cbs w ac] flip: Nil(1))
next
  case (Cons cb l)
  obtain f where f: "redisRunCallback e cbs w (ac\<lparr>a_invalid := l\<rparr>) cb None = Some (with_flags (ac\<lparr>a_invalid := l\<rparr>) f (null_run cb))"
      "evolves (flags_of ac) f"
    using run_closing [of "ac\<lparr>a_invalid := l\<rparr>" e cbs w cb] Cons.prems by auto
  define ac1 where "ac1 = with_flags (ac\<lparr>a_invalid := l\<rparr>) f (null_run cb)"
  have "l = a_invalid ac1" "closing (flags_of ac1)" using f(2) Cons.prems by (simp_all add: ac1_def evolves_def)
  then obtain g where "run_invalid e cbs w ac1 = Some (with_flags (ac1\<lparr>a_invalid := []\<rparr>) g (null_runs l))"
      "evolves (flags_of ac1) g"
    using Cons.hyps(1) [of ac1] by auto
  moreover have "with_flags (ac1\<lparr>a_invalid := []\<rparr>) g (null_runs l) = with_flags (ac\<lparr>a_invalid := []\<rparr>) g (null_runs (a_invalid ac))"
    by (simp add: ac1_def null_runs_def flip: Cons.hyps(2))
  ultimately show ?case
    using f evolves_trans by (auto simp: run_invalid.simps [of e cbs w ac] ac1_def simp flip: Cons.hyps(2))
qed

lemma run_subscriptions_closing:
  assumes wf: "dict_wf callbackDict ht" and sel: "\<And>a f l. sel (with_flags a f l) = sel a"
  shows "closing (flags_of ac) \<Longrightarrow> sel ac = ht \<Longrightarrow> iter_ok ht it \<Longrightarrow>
    \<exists>f. run_subscriptions e cbs w sel it ac = Some (with_flags ac f (null_runs (map de_val (to_visit ht it)))) \<and>
      evolves (flags_of ac) f"
proof (induction "to_visit ht it" arbitrary: ac it)
  case Nil
  then show ?case
    using dictNext_ok [OF wf Nil.prems(3)]
    by (auto simp: run_subscriptions.simps [of e cbs w sel it ac] null_runs_def intro!: exI [of _ "flags_of ac"] simp flip: Nil.hyps)
next
  case (Cons de es)
  obtain it1 where it1: "dictNext ht it = Some (it1, Some de)" "iter_ok ht it1" "to_visit ht it1 = es"
    using dictNext_ok [OF wf Cons.prems(3)] by (auto simp flip: Cons.hyps(2))
  obtain f where f: "redisRunCallback e cbs w ac (de_val de) None = Some (with_flags ac f (null_run (de_val de)))"
      "evolves (flags_of ac) f"
    using run_closing [OF Cons.prems(1)] by blast
  let ?ac = "with_flags ac f (null_run (de_val de))"
  have ac: "closing (flags_of ?ac)" "sel ?ac = ht" using f(2) Cons.prems by (simp_all add: evolves_def sel)
  obtain g where g: "run_subscriptions e cbs w sel it1 ?ac = Some (with_flags ?ac g (null_runs (map de_val es)))"
      "evolves f g"
    using Cons.hyps(1) [OF it1(3) [symmetric] ac it1(2)] unfolding it1(3) with_flags_simps(3) by blast
  have "null_runs (map de_val (to_visit ht it)) = null_run (de_val de) @ null_runs (map de_val es)"
    by (simp add: null_runs_def flip: Cons.hyps(2))
  then show ?case
    using f g it1(1) Cons.prems(2) evolves_trans by (auto simp: run_subscriptions.simps [of e cbs w sel it ac])
qed

section \<open>Freeing a context\<close>

text \<open>The calls after the pending callbacks: the clean-up hook, and the disconnect callback of a
  connected context.\<close>

definition farewell :: "redisAsyncContext \<Rightarrow> cflags \<Rightarrow> call list" where
  "farewell ac f = (if a_ev ac Cleanup then [Hook Cleanup] else []) @
     (case a_onDisconnect ac of
        Some g \<Rightarrow>
          if has f REDIS_CONNECTED
          then [OnDisconnect g (if has f REDIS_FREEING \<or> a_err ac = 0 then REDIS_OK else REDIS_ERR)] else []
      | None \<Rightarrow> [])"

definition waiting :: "redisAsyncContext \<Rightarrow> redisCallback list" where
  "waiting ac = a_replies ac @ a_invalid ac @ map de_val (entries (a_channels ac)) @ map de_val (entries (a_patterns ac))"

definition tables_ok :: "redisAsyncContext \<Rightarrow> bool" where
  "tables_ok ac \<longleftrightarrow> dict_wf callbackDict (a_channels ac) \<and> dict_wf callbackDict (a_patterns ac)"

definition no_reply_left :: "rcontext \<Rightarrow> bool" where
  "no_reply_left c \<longleftrightarrow> (case c_reader c of None \<Rightarrow> True | Some r \<Rightarrow> r_reply r = None)"

lemma redisFree_closes:
  "no_reply_left c \<Longrightarrow>
   \<exists>h. redisFree e (Some c) w h1 = Some (if c_fd c > 0 then snd (sys e (Close (c_fd c)) w) else w, h)"
  by (auto simp: redisFree_def no_reply_left_def redisReaderFree_def Let_def split: option.splits)

lemma redisFree_after:
  assumes "no_reply_left (a_c ac)" "c_fd (a_c ac) = fd"
  shows "\<exists>h. redisFree e (Some (a_c (with_flags ac f l))) w h1 =
    Some (if fd > 0 then snd (sys e (Close fd) w) else w, h)"
  using redisFree_closes [of "a_c (with_flags ac f l)" e w h1] assms
  by (cases "fd > 0") (simp_all add: no_reply_left_def)

lemma pending_callbacks_run:
  assumes cl: "closing (flags_of ac)" and t: "tables_ok ac"
  shows "\<exists>f ac1 ac2 ac3. run_replies e cbs w ac = Some ac1 \<and> run_invalid e cbs w ac1 = Some ac2 \<and>
    run_subscriptions e cbs w a_channels dictGetIterator ac2 = Some ac3 \<and>
    run_subscriptions e cbs w a_patterns dictGetIterator (ac3\<lparr>a_channels := dictReset\<rparr>) =
      Some (with_flags (ac\<lparr>a_replies := [], a_invalid := [], a_channels := dictReset\<rparr>) f (null_runs (waiting ac))) \<and>
    evolves (flags_of ac) f"
proof -
  have wf: "dict_wf callbackDict (a_channels ac)" "dict_wf callbackDict (a_patterns ac)"
    using t by (simp_all add: tables_ok_def)
  obtain f1 where f1: "run_replies e cbs w ac = Some (with_flags (ac\<lparr>a_replies := []\<rparr>) f1 (null_runs (a_replies ac)))"
      "evolves (flags_of ac) f1"
    using run_replies_closing [OF cl] by blast
  define ac1 where "ac1 = with_flags (ac\<lparr>a_replies := []\<rparr>) f1 (null_runs (a_replies ac))"
  have c1: "closing (flags_of ac1)" using f1(2) cl by (simp add: ac1_def evolves_def)
  obtain f2 where f2: "run_invalid e cbs w ac1 = Some (with_flags (ac1\<lparr>a_invalid := []\<rparr>) f2 (null_runs (a_invalid ac1)))"
      "evolves f1 f2"
    using run_invalid_closing [OF c1, of e cbs w] by (auto simp: ac1_def)
  define ac2 where "ac2 = with_flags (ac1\<lparr>a_invalid := []\<rparr>) f2 (null_runs (a_invalid ac1))"
  have c2: "closing (flags_of ac2)" using f2(2) c1 by (simp add: ac1_def ac2_def evolves_def)
  have ch2: "a_channels ac2 = a_channels ac" "a_patterns ac2 = a_patterns ac" by (simp_all add: ac1_def ac2_def)
  obtain f3 where f3: "run_subscriptions e cbs w a_channels dictGetIterator ac2 =
      Some (with_flags ac2 f3 (null_runs (map de_val (entries (a_channels ac)))))" "evolves f2 f3"
    using run_subscriptions_closing [where sel = a_channels, OF wf(1) _ c2 ch2(1) iter_ok_start, of e cbs w] to_visit_start [OF wf(1)]
    by (auto simp: ac2_def)
  define ac3 where "ac3 = with_flags ac2 f3 (null_runs (map de_val (entries (a_channels ac))))"
  define ac4 where "ac4 = ac3\<lparr>a_channels := dictReset\<rparr>"
  have c4: "closing (flags_of ac4)" using f3(2) c2 by (simp add: ac2_def ac3_def ac4_def evolves_def)
  have p4: "a_patterns ac4 = a_patterns ac" using ch2 by (simp add: ac4_def ac3_def)
  obtain f4 where f4: "run_subscriptions e cbs w a_patterns dictGetIterator ac4 =
      Some (with_flags ac4 f4 (null_runs (map de_val (entries (a_patterns ac)))))" "evolves f3 f4"
    using run_subscriptions_closing [where sel = a_patterns, OF wf(2) _ c4 p4 iter_ok_start, of e cbs w] to_visit_start [OF wf(2)]
    by (auto simp: ac4_def ac3_def)
  have "with_flags ac4 f4 (null_runs (map de_val (entries (a_patterns ac)))) =
      with_flags (ac\<lparr>a_replies := [], a_invalid := [], a_channels := dictReset\<rparr>) f4 (null_runs (waiting ac))"
    by (simp add: ac4_def ac3_def ac2_def ac1_def waiting_def null_runs_def)
  moreover have "evolves (flags_of ac) f4" using f1(2) f2(2) f3(2) f4(2) evolves_trans by blast
  ultimately show ?thesis using f1(1) f2(1) f3(1) f4(1) by (auto simp: ac1_def ac2_def ac3_def ac4_def)
qed

text \<open>C25. Freeing a context that takes no more commands runs every callback that still waits, whatever
  the callbacks do: those of the unanswered commands, of the invalid commands, of the channel and
  of the pattern subscriptions, each once, in that order, and with a NULL reply; then the clean-up
  hook and the disconnect callback.  The queues end empty, the context is freed, and its descriptor is
  closed.\<close>

theorem async_free_runs_all:
  assumes cl: "closing (flags_of ac)" and t: "tables_ok ac" and r: "no_reply_left (a_c ac)"
  shows "\<exists>ac' f. redisAsyncFree_raw e cbs ac w =
      Some (ac', if c_fd (a_c ac) > 0 then snd (sys e (Close (c_fd (a_c ac))) w) else w) \<and>
    a_log ac' = a_log ac @ null_runs (waiting ac) @ farewell ac f \<and> flags_of ac' = f \<and> evolves (flags_of ac) f \<and>
    waiting ac' = [] \<and> a_freed ac'"
proof -
  let ?ac = "ac\<lparr>a_replies := [], a_invalid := [], a_channels := dictReset\<rparr>"
  obtain f ac1 ac2 ac3 where s: "run_replies e cbs w ac = Some ac1" "run_invalid e cbs w ac1 = Some ac2"
      "run_subscriptions e cbs w a_channels dictGetIterator ac2 = Some ac3"
      "run_subscriptions e cbs w a_patterns dictGetIterator (ac3\<lparr>a_channels := dictReset\<rparr>) =
         Some (with_flags ?ac f (null_runs (waiting ac)))" and f: "evolves (flags_of ac) f"
    using pending_callbacks_run [OF cl t, of e cbs w] by (elim exE conjE) (rule that; assumption)
  define ac7 where "ac7 = with_flags (?ac\<lparr>a_patterns := dictReset\<rparr>) f (null_runs (waiting ac) @ farewell ac f)"
  have no: "no_reply_left (a_c (?ac\<lparr>a_patterns := dictReset\<rparr>))"
    "c_fd (a_c (?ac\<lparr>a_patterns := dictReset\<rparr>)) = c_fd (a_c ac)"
    using r by simp_all
  obtain h where h: "redisFree e (Some (a_c ac7)) w [] =
      Some (if c_fd (a_c ac) > 0 then snd (sys e (Close (c_fd (a_c ac))) w) else w, h)"
    using redisFree_after [OF no, of e f _ w "[]"] by (auto simp: ac7_def)
  have "redisAsyncFree_raw e cbs ac w = do {
      (w1, _) \<leftarrow> redisFree e (Some (a_c ac7)) w []; Some (ac7\<lparr>a_freed := True\<rparr>, w1) }"
    unfolding redisAsyncFree_raw_def s Let_def Option.bind.simps
    by (cases ac, intro arg_cong2 [where f = Option.bind])
      (simp_all add: ac7_def with_flags_def farewell_def hook_def split: option.splits)
  then have "redisAsyncFree_raw e cbs ac w =
      Some (ac7\<lparr>a_freed := True\<rparr>, if c_fd (a_c ac) > 0 then snd (sys e (Close (c_fd (a_c ac))) w) else w)"
    by (simp add: h)
  then show ?thesis using f
    by (intro exI [of _ "ac7\<lparr>a_freed := True\<rparr>"] exI [of _ f])
      (simp add: ac7_def with_flags_def waiting_def dictReset_def entries_def)
qed

section \<open>Replies in order\<close>

fun is_run :: "call \<Rightarrow> bool" where
  "is_run (Ran fn privdata reply) = True"
| "is_run (Hook h) = False"
| "is_run (OnConnect fn st) = False"
| "is_run (OnDisconnect fn st) = False"

abbreviation runs :: "redisAsyncContext \<Rightarrow> call list" where
  "runs ac \<equiv> filter is_run (a_log ac)"

definition answer :: "redisCallback \<Rightarrow> reply \<Rightarrow> call list" where
  "answer cb t = (case cb_fn cb of None \<Rightarrow> [] | Some f \<Rightarrow> [Ran f (cb_privdata cb) (Some t)])"

text \<open>What a call into the library may do to a context that stays open: it may queue callbacks.\<close>

definition harmless_step :: "redisAsyncContext \<Rightarrow> redisAsyncContext \<Rightarrow> bool" where
  "harmless_step ac ac' \<longleftrightarrow> (\<exists>l. a_replies ac' = a_replies ac @ l) \<and> runs ac' = runs ac \<and>
     c_reader (a_c ac') = c_reader (a_c ac) \<and> c_err (a_c ac') = c_err (a_c ac) \<and> flags_of ac' = flags_of ac"

text \<open>Callbacks that at most send regular commands.\<close>

definition harmless :: "env \<Rightarrow> callbacks \<Rightarrow> world \<Rightarrow> bool" where
  "harmless e cbs w \<longleftrightarrow> (\<forall>ac fn privdata q. \<exists>ac'. perform_all e w (cbs ac fn privdata q) ac = Some ac' \<and> harmless_step ac ac')"

text \<open>A non-blocking context that takes commands and is neither monitoring nor in a callback.\<close>

definition regular :: "cflags \<Rightarrow> bool" where
  "regular f \<longleftrightarrow> \<not> has f REDIS_BLOCK \<and> \<not> has f REDIS_DISCONNECTING \<and> \<not> has f REDIS_FREEING \<and>
     \<not> has f REDIS_MONITORING \<and> \<not> has f REDIS_IN_CALLBACK"

lemma set_and_clear:
  assumes "\<not> has f g" shows "(f OR g) AND NOT g = f"
proof -
  have "\<not> (bit f n \<and> bit g n)" for n
    using assms by (metis has_def bit_0_eq bit_and_iff bot_apply bot_bool_def)
  then show ?thesis by (intro bit_word_eqI) (auto simp: bit_simps)
qed

lemma run_answer:
  assumes h: "harmless e cbs w" and f: "regular (flags_of ac)" and d: "denotes (a_c ac) q = Some t"
  shows "\<exists>ac' l. redisRunCallback e cbs w ac cb q = Some ac' \<and> a_replies ac' = a_replies ac @ l \<and>
    runs ac' = runs ac @ answer cb t \<and> c_reader (a_c ac') = c_reader (a_c ac) \<and>
    c_err (a_c ac') = c_err (a_c ac) \<and> flags_of ac' = flags_of ac"
proof (cases "cb_fn cb")
  case None
  then show ?thesis by (simp add: redisRunCallback_def answer_def)
next
  case (Some fn)
  define ac1 where "ac1 = (set_flag ac REDIS_IN_CALLBACK)\<lparr>a_log := a_log ac @ [Ran fn (cb_privdata cb) (Some t)]\<rparr>"
  obtain ac2 where p: "perform_all e w (cbs ac1 fn (cb_privdata cb) q) ac1 = Some ac2" "harmless_step ac1 ac2"
    using h unfolding harmless_def by blast
  then obtain l where l: "a_replies ac2 = a_replies ac @ l" "runs ac2 = runs ac @ answer cb t"
      "c_reader (a_c ac2) = c_reader (a_c ac)" "c_err (a_c ac2) = c_err (a_c ac)"
      "flags_of ac2 = flags_of ac OR REDIS_IN_CALLBACK"
    using Some by (auto simp: harmless_step_def ac1_def set_flag_def answer_def)
  have "redisRunCallback e cbs w ac cb q = Some (clear_flag ac2 REDIS_IN_CALLBACK)"
    using Some p(1) d by (simp add: redisRunCallback_def Let_def flip: ac1_def)
  then show ?thesis
    using l set_and_clear [of "flags_of ac" REDIS_IN_CALLBACK] f
    by (intro exI [of _ "clear_flag ac2 REDIS_IN_CALLBACK"] exI [of _ l]) (simp add: clear_flag_def regular_def)
qed

text \<open>A complete reply is taken out without touching the world, and the reader goes on with the rest
  whatever becomes of the reply.\<close>

lemma next_reply:
  assumes m: "malloc_total (e_malloc e)" and c: "receiving e c u" and p: "parse [] u = PDone t rest"
  shows "\<exists>r q h. redisGetReply e c w = Some (c\<lparr>c_reader := Some r\<rparr>, w, REDIS_OK, Some q) \<and>
    reply_of (r_store r) q = Some t \<and> r_fn r = Some (defaultFunctions (e_malloc e)) \<and>
    freeReplyObject (r_store r) q = Some h \<and>
    receiving e (c\<lparr>c_reader := Some (r\<lparr>r_store := h\<rparr>)\<rparr>) rest"
proof -
  have e0: "c_err c = 0" using c by (simp add: receiving_def)
  obtain r q where g: "redisGetReplyFromReader e c w = Some (c\<lparr>c_reader := Some r\<rparr>, REDIS_OK, Some q)" "answered e r q t rest"
    using getReplyFromReader_ok [OF m c, of w] p by auto
  from answered_free [OF g(2) e0] obtain h where h: "freeReplyObject (r_store r) q = Some h"
    "receiving e (c\<lparr>c_reader := Some (r\<lparr>r_store := h\<rparr>)\<rparr>) rest"
    by blast
  have "r_fn r = Some (defaultFunctions (e_malloc e))" using g(2) by (simp add: answered_def replies.between_def)
  then show ?thesis
    using g h answered_reply_of [OF g(2)]
    by (intro exI [of _ r] exI [of _ q] exI [of _ h]) (simp add: redisGetReply_def)
qed

lemma no_reply:
  assumes m: "malloc_total (e_malloc e)" and c: "receiving e c u" and p: "parse [] u = PWait"
    and f: "\<not> has (c_flags c) REDIS_BLOCK"
  shows "\<exists>r. redisGetReply e c w = Some (c\<lparr>c_reader := Some r\<rparr>, w, REDIS_OK, None) \<and>
    receiving e (c\<lparr>c_reader := Some r\<rparr>) u"
  using getReplyFromReader_ok [OF m c, of w] p f by (auto simp: redisGetReply_def)

lemma receiving_reader:
  "c_reader c' = c_reader c \<Longrightarrow> c_err c' = c_err c \<Longrightarrow>
   receiving e (c'\<lparr>c_reader := r\<rparr>) u \<longleftrightarrow> receiving e (c\<lparr>c_reader := r\<rparr>) u"
  by (simp add: receiving_def)

text \<open>One turn of the loop answers the first callback of the queue.\<close>

lemma process_step:
  assumes m: "malloc_total (e_malloc e)" and h: "harmless e cbs w" and c: "receiving e (a_c ac) u"
    and f: "regular (flags_of ac)" and q: "a_replies ac = cb1 # cbs1" and p: "parse [] u = PDone t rest"
  shows "\<exists>ac1 l. process_loop e cbs cb ac w = process_loop e cbs cb1 ac1 w \<and> receiving e (a_c ac1) rest \<and>
    flags_of ac1 = flags_of ac \<and> a_replies ac1 = cbs1 @ l \<and> runs ac1 = runs ac @ answer cb1 t"
proof -
  obtain r q h1 where g: "redisGetReply e (a_c ac) w = Some ((a_c ac)\<lparr>c_reader := Some r\<rparr>, w, REDIS_OK, Some q)"
      "reply_of (r_store r) q = Some t" "r_fn r = Some (defaultFunctions (e_malloc e))"
      "freeReplyObject (r_store r) q = Some h1" "receiving e ((a_c ac)\<lparr>c_reader := Some (r\<lparr>r_store := h1\<rparr>)\<rparr>) rest"
    using next_reply [OF m c p] by blast
  define ac0 where "ac0 = ac\<lparr>a_c := (a_c ac)\<lparr>c_reader := Some r\<rparr>, a_replies := cbs1\<rparr>"
  have d: "denotes (a_c ac0) (Some q) = Some t" "regular (flags_of ac0)"
    using g(2) f by (simp_all add: denotes_def ac0_def)
  obtain ac2 l where rc: "redisRunCallback e cbs w ac0 cb1 (Some q) = Some ac2" "a_replies ac2 = cbs1 @ l"
      "runs ac2 = runs ac @ answer cb1 t" "c_reader (a_c ac2) = Some r" "c_err (a_c ac2) = c_err (a_c ac)"
      "flags_of ac2 = flags_of ac"
    using run_answer [OF h d(2,1), of cb1] by (auto simp: ac0_def)
  define ac3 where "ac3 = ac2\<lparr>a_c := (a_c ac2)\<lparr>c_reader := Some (r\<lparr>r_store := h1\<rparr>)\<rparr>\<rparr>"
  have fr: "free_object ac2 q = Some ac3"
    using rc(4) g(3,4) by (simp add: free_object_def ac3_def defaultFunctions_def)
  have nf: "\<not> has (flags_of ac3) REDIS_FREEING" using f rc(6) by (simp add: ac3_def regular_def)
  have quiet: "ac2 = ac0" if "cb_fn cb1 = None"
    using rc(1) that by (simp add: redisRunCallback_def)
  have "process_loop e cbs cb ac w = process_loop e cbs cb1 ac3 w"
    using g(1) q rc(1) fr nf quiet
    by (cases "cb_fn cb1") (simp_all add: process_loop.simps [of e cbs cb ac w] Let_def flip: ac0_def)
  moreover have "receiving e (a_c ac3) rest" using g(5) rc(4,5) by (simp add: ac3_def receiving_def)
  ultimately show ?thesis using rc by (intro exI [of _ ac3] exI [of _ l]) (simp add: ac3_def)
qed

lemma process_stop:
  assumes m: "malloc_total (e_malloc e)" and c: "receiving e (a_c ac) u" and f: "regular (flags_of ac)"
    and p: "parse [] u = PWait"
  shows "\<exists>r. process_loop e cbs cb ac w = Some (ac\<lparr>a_c := (a_c ac)\<lparr>c_reader := r\<rparr>\<rparr>, w) \<and>
    receiving e ((a_c ac)\<lparr>c_reader := r\<rparr>) u"
proof -
  have "\<not> has (flags_of ac) REDIS_BLOCK" using f by (simp add: regular_def)
  from no_reply [OF m c p this] obtain r where
    "redisGetReply e (a_c ac) w = Some ((a_c ac)\<lparr>c_reader := Some r\<rparr>, w, REDIS_OK, None)"
    "receiving e ((a_c ac)\<lparr>c_reader := Some r\<rparr>) u" by blast
  then show ?thesis
    using f by (intro exI [of _ "Some r"]) (simp add: process_loop.simps [of e cbs cb ac w] Let_def regular_def)
qed

lemma process_answers:
  assumes m: "malloc_total (e_malloc e)" and h: "harmless e cbs w"
  shows "receiving e (a_c ac) u \<Longrightarrow> regular (flags_of ac) \<Longrightarrow> parse_all u = (ts, None) \<Longrightarrow>
    length ts \<le> length (a_replies ac) \<Longrightarrow>
    \<exists>ac' l v. process_loop e cbs cb ac w = Some (ac', w) \<and> receiving e (a_c ac') v \<and> parse [] v = PWait \<and>
      flags_of ac' = flags_of ac \<and> a_replies ac' = drop (length ts) (a_replies ac) @ l \<and>
      runs ac' = runs ac @ concat (map2 answer (a_replies ac) ts)"
proof (induction ts arbitrary: ac u cb)
  case Nil
  have "parse [] u = PWait"
    using Nil.prems(3) by (cases "parse [] u") (auto simp: parse_all_PDone parse_all_PFail)
  from process_stop [OF m Nil.prems(1,2) this] this show ?case by fastforce
next
  case (Cons t ts)
  obtain rest where p: "parse [] u = PDone t rest" and rest: "parse_all rest = (ts, None)"
    using Cons.prems(3) by (cases "parse [] u") (auto simp: parse_all_PWait parse_all_PDone parse_all_PFail prod_eq_iff)
  obtain cb1 cbs1 where q: "a_replies ac = cb1 # cbs1" using Cons.prems(4) by (cases "a_replies ac") auto
  obtain ac1 l where s: "process_loop e cbs cb ac w = process_loop e cbs cb1 ac1 w" "receiving e (a_c ac1) rest"
      "flags_of ac1 = flags_of ac" "a_replies ac1 = cbs1 @ l" "runs ac1 = runs ac @ answer cb1 t"
    using process_step [OF m h Cons.prems(1,2) q p] by blast
  have "regular (flags_of ac1)" "length ts \<le> length (a_replies ac1)" using s(3,4) Cons.prems(2,4) q by simp_all
  from Cons.IH [OF s(2) this(1) rest this(2), of cb1] obtain ac' l' v where i:
    "process_loop e cbs cb1 ac1 w = Some (ac', w)" "receiving e (a_c ac') v" "parse [] v = PWait"
    "flags_of ac' = flags_of ac1" "a_replies ac' = drop (length ts) (a_replies ac1) @ l'"
    "runs ac' = runs ac1 @ concat (map2 answer (a_replies ac1) ts)"
    by blast
  have "length ts \<le> length cbs1" using Cons.prems(4) q by simp
  then have "map2 answer (cbs1 @ l) ts = map2 answer cbs1 ts" "drop (length ts) (cbs1 @ l) = drop (length ts) cbs1 @ l"
    by (simp_all add: zip_append1)
  then show ?case using i s q by (intro exI [of _ ac'] exI [of _ "l @ l'"] exI [of _ v]) simp
qed

definition ping :: string where "ping = command_text [''PING''] @ [NUL]"

definition sample_callbacks :: "sds \<Rightarrow> callbacks" where
  "sample_callbacks s ac fn privdata q =
     (if fn = 1 \<and> c_obuf (a_c ac) = Some s then [Formatted (Some 2) 0 ping 14] else [])"

lemma ping_parts:
  "nextArgument ping 0 = Some (Some (8, 4, 14))" "mem_read ping 14 (Suc 0) = Some [NUL]" "mem_read ping 8 (Suc 0) = Some ''P''"
  "tolower (CHR ''P'') = CHR ''p''"
  "strncaseeq (drop 9 ping) (''unsubscribe'' @ CRLF) 13 = False" "strncaseeq (drop 9 ping) (''monitor'' @ CRLF) 9 = False"
  "length ping = 15"
  by code_simp+

lemma ping_harmless:
  assumes s: "sdscatlen (e_malloc e) s ping 14 = Some (Some s1)"
    and m: "e_malloc e sizeof_redisCallback \<noteq> None"
  shows "harmless e (sample_callbacks s) w"
proof -
  have "\<exists>ac'. perform e w (Formatted (Some 2) 0 ping 14) ac = Some ac' \<and> harmless_step ac ac'"
    if b: "c_obuf (a_c ac) = Some s" for ac
  proof (cases "closing (flags_of ac)")
    case True
    then show ?thesis by (simp add: redisAsyncFormattedCommand_def raw_refused harmless_step_def)
  next
    case False
    then show ?thesis
      using b s m
      by (auto simp: redisAsyncFormattedCommand_def redisAsyncCommand_raw_def closing_def ping_parts ping_parts [unfolded append.simps] Let_def
          redisAppendCommand_raw_def redisPushCallback_def harmless_step_def hook_def)
  qed
  then show ?thesis
    by (fastforce simp: harmless_def sample_callbacks_def harmless_step_def)
qed
lemma hook_more [simp]:
  "a_c (hook h ac) = a_c ac" "a_replies (hook h ac) = a_replies ac" "runs (hook h ac) = runs ac"
  by (simp_all add: hook_def)

text \<open>C24. When a connected, non-blocking context that is not monitoring, closing or in a callback becomes readable, \<open>redisAsyncHandleRead\<close>
  reads the bytes the peer has sent and answers the waiting callbacks in the order their commands were sent: each
  complete reply goes to the next callback, exactly once, and the callbacks of the replies still to come
  stay queued, before the ones the callbacks themselves have added.  This is for callbacks that do no more with the context than to send commands
  (\<open>harmless\<close>: they do not disconnect or free it, subscribe or monitor), and for a peer that does not send more replies than there
  are callbacks waiting.\<close>

theorem async_read_answers_in_order:
  assumes "malloc_spec (e_malloc e)" and "malloc_total (e_malloc e)" and "serves e (c_fd (a_c ac)) chunk"
    and "receiving e (a_c ac) u" and "reads (c_fd (a_c ac)) (w_events w) = k"
    and "reader_len (a_c ac) + length (chunk k) < 2 ^ 31"
    and "has (flags_of ac) REDIS_CONNECTED" and "regular (flags_of ac)" and "\<forall>w. harmless e cbs w"
    and "parse_all (u @ chunk k) = (ts, None)" and "length ts \<le> length (a_replies ac)"
  shows "\<exists>ac' w' l v. redisAsyncHandleRead e cbs ac w = Some (ac', w') \<and>
    runs ac' = runs ac @ concat (map2 answer (a_replies ac) ts) \<and>
    a_replies ac' = drop (length ts) (a_replies ac) @ l \<and>
    flags_of ac' = flags_of ac \<and> receiving e (a_c ac') v \<and> parse [] v = PWait"
proof -
  from redisBufferRead_ok [OF assms(1,2,4,3,5,6)] obtain r w' where
    r: "redisBufferRead e (a_c ac) w = Some ((a_c ac)\<lparr>c_reader := Some r\<rparr>, w', REDIS_OK)"
      "receiving e ((a_c ac)\<lparr>c_reader := Some r\<rparr>) (u @ chunk k)"
    by blast
  define ac1 where "ac1 = hook AddRead (ac\<lparr>a_c := (a_c ac)\<lparr>c_reader := Some r\<rparr>\<rparr>)"
  have h: "harmless e cbs w'" using assms(9) by blast
  have "redisAsyncHandleRead e cbs ac w = redisProcessCallbacks e cbs ac1 w'"
    using assms(7) r(1) by (simp add: redisAsyncHandleRead_def when_connected_def ac1_def Let_def)
  moreover have "receiving e (a_c ac1) (u @ chunk k)" "regular (flags_of ac1)" "length ts \<le> length (a_replies ac1)"
    using r(2) assms(8,11) by (simp_all add: ac1_def)
  note process_answers [OF assms(2) h this(1,2) assms(10) this(3),
      of "\<lparr>cb_fn = None, cb_pending_subs = 0, cb_privdata = 0\<rparr>"]
  moreover have "a_replies ac1 = a_replies ac" "runs ac1 = runs ac" "flags_of ac1 = flags_of ac"
    by (simp_all add: ac1_def)
  ultimately show ?thesis unfolding redisProcessCallbacks_def by metis
qed

definition sample_async :: "rcontext \<Rightarrow> redisAsyncContext" where
  "sample_async c = \<lparr>a_c = c\<lparr>c_flags := REDIS_CONNECTED\<rparr>, a_err = 0, a_errstr = False, a_ev = (\<lambda>_. False),
     a_onConnect = None, a_onDisconnect = Some 9,
     a_replies = [\<lparr>cb_fn = Some 1, cb_pending_subs = 1, cb_privdata = 5\<rparr>, \<lparr>cb_fn = Some 3, cb_pending_subs = 1, cb_privdata = 6\<rparr>],
     a_invalid = [], a_channels = dictReset, a_patterns = dictReset, a_log = [], a_freed = False\<rparr>"

lemma one_answer: "parse_all answer_text = ([RInt 42], None)"
  using parse_all_encode [of "[RInt 42]" "[]"] encode_sample(2)
  by (simp add: answer_text_def parse_all_PWait del: encode.simps)

theorem async_read_answers_in_order_witness:
  "\<exists>c cbs ac' w' l. redisAsyncHandleRead sample_server cbs (sample_async c) new_world = Some (ac', w') \<and>
     runs ac' = [Ran 1 5 (Some (RInt 42))] \<and> map cb_fn (a_replies ac') = Some 3 # l"
proof -
  obtain c where c: "redisContextInit sample_server [] = Some (Some c)" "receiving sample_server c []" "obuf_ok c"
      "queued c = []" "reader_len c = 0"
    using redisContextInit_ok [OF sample_server_ok(1,2)] by blast
  obtain s where s: "c_obuf c = Some s" "sds_wf s" "content s = []" using c(3,4) by (auto simp: obuf_ok_def queued_def)
  obtain s1 where s1: "sdscatlen (e_malloc sample_server) s ping 14 = Some (Some s1)"
    using sds_okI [OF sdscatlen_post [OF sample_server_ok(1) s(2), of 14 ping] sample_server_ok(2)] length_content [OF s(2)]
      sds_small_63 [of 14] ping_parts(7) s(3)
    by (auto simp: sds_ok_def)
  have h: "\<forall>w. harmless sample_server (sample_callbacks s) w"
    using ping_harmless [OF s1] sample_server_ok(2) by (auto simp: malloc_total_def)
  have ac: "receiving sample_server (a_c (sample_async c)) []" "reader_len (a_c (sample_async c)) = 0"
      "has (flags_of (sample_async c)) REDIS_CONNECTED" "regular (flags_of (sample_async c))"
    using c by (simp_all add: sample_async_def receiving_def reader_len_def regular_def has_def flag_defs)
  have len: "length answer_text < 2 ^ 31" by (simp add: answer_text_def)
  show ?thesis
    using async_read_answers_in_order [OF sample_server_ok(1,2) sample_server_ok(5) ac(1), of new_world 0 "sample_callbacks s" "[RInt 42]"]
      ac(2-4) h len one_answer
    by (fastforce simp: sample_async_def answer_def)
qed


theorem async_free_runs_all_witness:
  "\<exists>ac ac' w'. dict_map (a_channels ac) = [sdskey ''news'' \<mapsto> \<lparr>cb_fn = Some 7, cb_pending_subs = 1, cb_privdata = 8\<rparr>] \<and>
     redisAsyncFree_raw sample_env (\<lambda>ac fn privdata q. [Disconnect, Formatted None 0 ping 14]) ac new_world = Some (ac', w') \<and>
     a_log ac' = [Ran 1 5 None, Ran 3 6 None, Ran 7 8 None, OnDisconnect 9 REDIS_OK] \<and> a_freed ac'"
proof -
  let ?cb = "\<lparr>cb_fn = Some 7, cb_pending_subs = 1, cb_privdata = 8\<rparr>"
  let ?e = "dictReset :: (sdskey, redisCallback) dict"
  have new: "type_ok callbackDict" "dictSetHashVal callbackDict ?cb = ?cb" "d_used ?e < 2 ^ 30"
    "7 \<notin> de_addr ` set (entries ?e)" "sdskey ''news'' \<notin> dom (dict_map ?e)" "entries ?e = []" "dict_map ?e = Map.empty"
    by (simp_all add: callbackDict_copies [unfolded copies_values_def] dictReset_ok)
      (simp_all add: dictReset_def entries_def)
  obtain ht where ht: "dict_wf callbackDict ht" "dict_map ht = [sdskey ''news'' \<mapsto> ?cb]" "map de_val (entries ht) = [?cb]"
    using dictAdd_new [OF new(1) dictReset_ok(1) new(3,5,4), of ?cb] new(2,6,7) by auto
  define c :: rcontext where "c = \<lparr>c_err = 0, c_errstr = [], c_fd = 5, c_flags = 0, c_obuf = None, c_reader = None,
     c_connection_type = REDIS_CONN_TCP, c_timeout = None, c_host = None, c_source_addr = None, c_port = 0, c_path = None\<rparr>"
  define ac where "ac = (set_flag (sample_async c) REDIS_FREEING)\<lparr>a_channels := ht\<rparr>"
  have fl: "closing (flags_of ac)" "has (flags_of ac) REDIS_FREEING" "has (flags_of ac) REDIS_CONNECTED"
    by (simp_all add: ac_def set_flag_def sample_async_def closing_def has_def flag_defs)
  have w: "null_runs (waiting ac) = [Ran 1 5 None, Ran 3 6 None, Ran 7 8 None]"
    using ht(3)
    by (simp add: waiting_def ac_def set_flag_def sample_async_def null_runs_def null_run_def dictReset_def entries_def)
  have t: "tables_ok ac" "no_reply_left (a_c ac)"
    using ht(1) by (simp_all add: tables_ok_def ac_def set_flag_def sample_async_def dictReset_ok no_reply_left_def c_def)
  have ev: "a_ev ac Cleanup = False" "a_onDisconnect ac = Some 9" "a_log ac = []" "dict_map (a_channels ac) = [sdskey ''news'' \<mapsto> ?cb]"
    using ht(2) by (simp_all add: ac_def set_flag_def sample_async_def)
  from async_free_runs_all [OF fl(1) t, of sample_env "\<lambda>ac fn privdata q. [Disconnect, Formatted None 0 ping 14]" new_world]
  obtain ac' f w' where r: "redisAsyncFree_raw sample_env (\<lambda>ac fn privdata q. [Disconnect, Formatted None 0 ping 14]) ac new_world = Some (ac', w')"
    "a_log ac' = a_log ac @ null_runs (waiting ac) @ farewell ac f" "evolves (flags_of ac) f" "a_freed ac'"
    by blast
  have "farewell ac f = [OnDisconnect 9 REDIS_OK]" using r(3) fl ev by (simp add: farewell_def evolves_def)
  then show ?thesis using r w ev by (intro exI [of _ ac] exI [of _ ac'] exI [of _ w']) simp
qed

section \<open>Subscribing\<close>

lemma find_char:
  "x \<notin> set d \<Longrightarrow> NUL \<notin> set d \<Longrightarrow> x \<noteq> NUL \<Longrightarrow> find_sub [x] (cstr (d @ x # r)) = Some (length d)"
  by (induction d) (auto simp: cstr_def)

lemma digits_plain: "\<not> isdigit c \<Longrightarrow> c \<notin> set (dec_nat n)"
  using dec_nat_digits by blast

lemma strtol10_bulk: "n < 2 ^ 63 \<Longrightarrow> \<not> isdigit c \<Longrightarrow> strtol10 (dec_nat n @ c # r) = int n"
proof -
  assume n: "n < 2 ^ 63" and c: "\<not> isdigit c"
  obtain d ds where d: "dec_nat n = d # ds" by (cases "dec_nat n") simp_all
  then have dd: "isdigit d" using dec_nat_digits [of d n] by simp
  then have "d \<noteq> CHR ''-''" "d \<noteq> CHR ''+''" "\<not> isspace d" by (auto simp: isdigit_def digit_not_space)
  moreover have "takeWhile isdigit (dec_nat n @ c # r) = dec_nat n"
    using dec_nat_digits c by (simp add: takeWhile_append)
  ultimately show ?thesis using n undec_dec_nat [of n] unfolding d by (simp add: strtol10_def Let_def)
qed

lemma nextArgument_bulk:
  assumes a: "length a < 2 ^ 31" and h: "CHR ''$'' \<notin> set h" "NUL \<notin> set h"
  shows "nextArgument (pre @ h @ bulk_text a @ post) (length pre) =
    Some (Some (length (pre @ h) + length (dec_nat (length a)) + 3, length a, length (pre @ h @ bulk_text a)))"
proof -
  let ?b = "pre @ h @ bulk_text a @ post" and ?d = "dec_nat (length a)"
  have nd: "CR \<notin> set ?d" "NUL \<notin> set ?d" by (simp_all add: digits_plain isdigit_def)
  have i: "(if ?b ! length pre \<noteq> CHR ''$'' then find_sub ''$'' (cstr (drop (length pre) ?b)) else Some 0) = Some (length h)"
    using find_char [OF h, of "?d @ CRLF @ a @ CRLF @ post"] h by (cases h) (auto simp: bulk_text_def nth_append)
  have p: "drop (length pre + length h) ?b = CHR ''$'' # ?d @ CRLF @ a @ CRLF @ post"
    "drop (length pre + length h + 1) ?b = ?d @ CRLF @ a @ CRLF @ post"
    by (simp_all add: bulk_text_def)
  have l: "nat (s32 (strtol10 (drop (length pre + length h + 1) ?b)) mod 2 ^ 64) = length a"
    unfolding p using a strtol10_bulk [of "length a" CR "[LF] @ a @ CRLF @ post"] by (simp add: isdigit_def s32_id)
  have j: "find_sub [CR] (cstr (drop (length pre + length h) ?b)) = Some (Suc (length ?d))"
    unfolding p using find_char [of CR "CHR ''$'' # ?d" "[LF] @ a @ CRLF @ post"] nd by simp
  have "\<not> length ?b \<le> length pre" by (simp add: bulk_text_def)
  then have "nextArgument ?b (length pre) =
      Some (Some (length pre + length h + Suc (length ?d) + 2, length a, length pre + length h + Suc (length ?d) + 2 + length a + 2))"
    by (simp only: nextArgument_def i j l if_False option.case Let_def)
  then show ?thesis by (simp add: bulk_text_def)
qed

lemma mem_read_middle: "mem_read (x @ y @ z) (length x) (length y) = Some y"
  by (simp add: mem_read_def)

lemma drop_prefix: "drop (length x) (x @ y) = y"
  by simp

lemma nextArgument_end: "nextArgument (pre @ [NUL]) (length pre) = Some None"
  by (simp add: nextArgument_def nth_append cstr_def)

text \<open>The callbacks a SUBSCRIBE command leaves in the table.\<close>

fun subscribed :: "('k \<rightharpoonup> redisCallback) \<Rightarrow> redisCallback \<Rightarrow> 'k list \<Rightarrow> ('k \<rightharpoonup> redisCallback)" where
  "subscribed m cb [] = m"
| "subscribed m cb (k # ks) =
     (let cb1 = (case m k of None \<Rightarrow> cb | Some old \<Rightarrow> cb\<lparr>cb_pending_subs := s32 (cb_pending_subs old + 1)\<rparr>)
      in subscribed (m(k \<mapsto> cb1)) cb1 ks)"

lemma register_ok:
  assumes m: "malloc_total (e_malloc e)" and wf: "dict_wf callbackDict ht" and room: "d_used ht < 2 ^ 30"
  shows "\<exists>ht1. register e ht key cb = Some ht1 \<and> dict_wf callbackDict ht1 \<and> dict_map ht1 = (dict_map ht)(key \<mapsto> cb) \<and>
    d_used ht1 \<le> d_used ht + 1"
proof -
  have some: "e_malloc e n \<noteq> None" for n using m by (auto simp: malloc_total_def)
  then obtain blk where blk: "e_malloc e sizeof_dictEntry = Some blk" by blast
  have cp: "type_ok callbackDict" "dictSetHashVal callbackDict cb = cb"
    by (simp_all add: callbackDict_copies [unfolded copies_values_def])
  show ?thesis
    using dictReplace_ok [OF cp(1) wf room fresh_addr_new, of key cb] some blk cp(2)
    by (auto simp: register_def)
qed

lemma sds_key_ok:
  assumes m: "malloc_spec (e_malloc e)" "malloc_total (e_malloc e)" and a: "length a < 2 ^ 31"
  shows "\<exists>s. sdsnewlen (e_malloc e) (Some a) (length a) = Some (Some s) \<and> sds_key s = Some (sdskey a)"
  using sds_new_total [OF m, of "length a" a] a length_content by (fastforce simp: sds_key_def)

lemma subscribe_loop_ok:
  assumes m: "malloc_spec (e_malloc e)" "malloc_total (e_malloc e)"
  shows "\<forall>a \<in> set chans. length a < 2 ^ 31 \<Longrightarrow> dict_wf callbackDict ht \<Longrightarrow> d_used ht + length chans < 2 ^ 30 \<Longrightarrow>
    \<exists>ht1. subscribe_loop e (pre @ concat (map bulk_text chans) @ [NUL]) (length pre) cb ht = Some ht1 \<and>
      dict_wf callbackDict ht1 \<and> dict_map ht1 = subscribed (dict_map ht) cb (map sdskey chans)"
proof (induction chans arbitrary: pre cb ht)
  case Nil
  then show ?case by (simp add: subscribe_loop.simps nextArgument_end)
next
  case (Cons a chans)
  let ?rest = "concat (map bulk_text chans) @ [NUL]"
  let ?buf = "pre @ bulk_text a @ ?rest"
  have a: "length a < 2 ^ 31" using Cons.prems(1) by simp
  have n: "nextArgument ?buf (length pre) =
      Some (Some (length pre + length (dec_nat (length a)) + 3, length a, length (pre @ bulk_text a)))"
    using nextArgument_bulk [OF a, of "[]" pre ?rest] by simp
  have r: "mem_read ?buf (length pre + length (dec_nat (length a)) + 3) (length a) = Some a"
    using mem_read_middle [of "pre @ ''$'' @ dec_nat (length a) @ CRLF" a "CRLF @ ?rest"]
    by (simp add: bulk_text_def numeral_3_eq_3)
  obtain s where s: "sdsnewlen (e_malloc e) (Some a) (length a) = Some (Some s)" "sds_key s = Some (sdskey a)"
    using sds_key_ok [OF m a] by blast
  obtain de where de: "dictFind callbackDict ht (sdskey a) = Some de" "map_option de_val de = dict_map ht (sdskey a)"
    using dictFind_ok [of callbackDict ht "sdskey a"] Cons.prems(2) callbackDict_copies by (auto simp: copies_values_def)
  define cb1 where "cb1 = (case dict_map ht (sdskey a) of None \<Rightarrow> cb
      | Some old \<Rightarrow> cb\<lparr>cb_pending_subs := s32 (cb_pending_subs old + 1)\<rparr>)"
  have cb1: "(case de of None \<Rightarrow> cb | Some d \<Rightarrow> cb\<lparr>cb_pending_subs := s32 (cb_pending_subs (de_val d) + 1)\<rparr>) = cb1"
    unfolding cb1_def de(2) [symmetric] by (cases de) simp_all
  have "d_used ht < 2 ^ 30" using Cons.prems(3) by simp
  then obtain ht1 where h: "register e ht (sdskey a) cb1 = Some ht1" "dict_wf callbackDict ht1"
      "dict_map ht1 = (dict_map ht)(sdskey a \<mapsto> cb1)" "d_used ht1 \<le> d_used ht + 1"
    using register_ok [OF m(2) Cons.prems(2)] by blast
  have "\<forall>a \<in> set chans. length a < 2 ^ 31" "d_used ht1 + length chans < 2 ^ 30" using Cons.prems h(4) by simp_all
  from Cons.IH [OF this(1) h(2) this(2), of "pre @ bulk_text a" cb1] show ?case
    using n r s de(1) h cb1 by (simp add: subscribe_loop.simps [of e ?buf "length pre"] cb1_def [symmetric] del: fun_upd_apply)
qed

lemma subscribed_step:
  "\<exists>n. subscribed m cb (x # ks) = subscribed (m(x \<mapsto> cb\<lparr>cb_pending_subs := n\<rparr>)) (cb\<lparr>cb_pending_subs := n\<rparr>) ks"
  by (cases "m x") (auto simp: Let_def intro: exI [of _ "cb_pending_subs cb"])

lemma subscribed_keys:
  "k \<in> set ks \<Longrightarrow> \<exists>n. subscribed m cb ks k = Some (cb\<lparr>cb_pending_subs := n\<rparr>)"
  "k \<notin> set ks \<Longrightarrow> subscribed m cb ks k = m k"
proof (induction ks arbitrary: m cb)
  case (Cons x ks)
  { case 1
    obtain n where n: "subscribed m cb (x # ks) =
        subscribed (m(x \<mapsto> cb\<lparr>cb_pending_subs := n\<rparr>)) (cb\<lparr>cb_pending_subs := n\<rparr>) ks"
      using subscribed_step [of m cb x ks] by blast
    show ?case
    proof (cases "k \<in> set ks")
      case True
      from Cons.IH(1) [OF this, of "m(x \<mapsto> cb\<lparr>cb_pending_subs := n\<rparr>)" "cb\<lparr>cb_pending_subs := n\<rparr>"]
      show ?thesis unfolding n by (simp del: fun_upd_apply)
    next
      case False
      then have "k = x" using 1 by simp
      then show ?thesis unfolding n Cons.IH(2) [OF False] by auto
    qed
  next
    case 2
    then show ?case using subscribed_step [of m cb x ks] Cons.IH(2) by auto
  }
qed simp_all

lemma strncaseeq_prefix: "map tolower x = map tolower y \<Longrightarrow> strncaseeq (x @ r) y (length y)"
proof (induction x y rule: list_induct2')
  case (2 x xs)
  then show ?case by simp
qed auto

lemma append_queued:
  assumes m: "malloc_spec (e_malloc e)" "malloc_total (e_malloc e)" and o: "obuf_ok c"
    and n: "n \<le> length cmd" and len: "length (queued c) + n < 2 ^ 31"
  shows "\<exists>s. redisAppendCommand_raw e c w cmd n = Some (c\<lparr>c_obuf := Some s\<rparr>, REDIS_OK) \<and>
    content s = queued c @ take n cmd \<and> sds_wf s"
proof -
  obtain b where b: "c_obuf c = Some b" "sds_wf b" using o by (auto simp: obuf_ok_def)
  have "length (content b) + n < 2 ^ 63" using len b by (simp add: queued_def)
  then have "sds_ok (sdscatlen (e_malloc e) b cmd n) (content b @ take n cmd)"
    using sdscatlen_post [OF m(1) b(2), of n cmd] n sds_small_63 b(2)
    by (intro sds_okI [OF _ m(2)]) simp
  then show ?thesis using b by (auto simp: sds_ok_def redisAppendCommand_raw_def queued_def)
qed

lemma first_words:
  assumes "map tolower name = ''subscribe''"
  shows "length name = 9" "tolower (hd name) = CHR ''s''" "name \<noteq> []"
proof -
  show l: "length name = 9" using arg_cong [OF assms, of length] by simp
  then show n: "name \<noteq> []" by auto
  then have "tolower (hd name) = hd (map tolower name)" by (simp add: hd_map)
  then show "tolower (hd name) = CHR ''s''" using assms by simp
qed

text \<open>C33. A SUBSCRIBE command, in any case of letters, leaves a callback with the command's function and data in the
  table for every channel it names, and touches no other entry; it marks the context as subscribed,
  keeps the invariant of the tables and the other queues, and puts the command on the output buffer.\<close>

theorem async_subscribe_registers:
  assumes "malloc_spec (e_malloc e)" and "malloc_total (e_malloc e)" and "\<not> closing (flags_of ac)" and "tables_ok ac"
    and "obuf_ok (a_c ac)" and "map tolower name = ''subscribe''" and "chans \<noteq> []"
    and "\<forall>a \<in> set chans. length a < 2 ^ 31" and "d_used (a_channels ac) + length chans < 2 ^ 30"
    and "length (queued (a_c ac)) + length (command_text (name # chans)) < 2 ^ 31"
  shows "\<exists>ac'. redisAsyncCommand_raw e ac w fn privdata (command_text (name # chans) @ [NUL]) (length (command_text (name # chans)))
      = Some (ac', REDIS_OK) \<and>
    (\<forall>a \<in> set chans. \<exists>n. dict_map (a_channels ac') (sdskey a) = Some \<lparr>cb_fn = fn, cb_pending_subs = n, cb_privdata = privdata\<rparr>) \<and>
    (\<forall>k. k \<notin> sdskey ` set chans \<longrightarrow> dict_map (a_channels ac') k = dict_map (a_channels ac) k) \<and>
    has (flags_of ac') REDIS_SUBSCRIBED \<and> tables_ok ac' \<and>
    a_patterns ac' = a_patterns ac \<and> a_replies ac' = a_replies ac \<and> a_invalid ac' = a_invalid ac \<and>
    queued (a_c ac') = queued (a_c ac) @ command_text (name # chans)"
proof -
  let ?cmd = "command_text (name # chans)" and ?cb = "\<lparr>cb_fn = fn, cb_pending_subs = 1, cb_privdata = privdata\<rparr>"
  let ?head = "''*'' @ dec_nat (length (name # chans)) @ CRLF"
  note m = assms(1,2) and nm = first_words [OF assms(6)]
  have cmd: "?cmd @ [NUL] = [] @ ?head @ bulk_text name @ (concat (map bulk_text chans) @ [NUL])"
    "?cmd @ [NUL] = (?head @ bulk_text name) @ concat (map bulk_text chans) @ [NUL]"
    by (simp_all add: command_text_def)
  have n: "nextArgument (?cmd @ [NUL]) 0 =
      Some (Some (length ?head + length (dec_nat (length name)) + 3, length name, length (?head @ bulk_text name)))"
    unfolding cmd(1) using nextArgument_bulk [of name ?head "[]" "concat (map bulk_text chans) @ [NUL]"] nm(1)
    by (simp add: digits_plain isdigit_def)
  obtain a0 chans0 where ch: "chans = a0 # chans0" using assms(7) by (cases chans) auto
  obtain r where r: "concat (map bulk_text chans) @ [NUL] = ''$'' @ r" by (simp add: ch bulk_text_def)
  have nxt: "mem_read (?cmd @ [NUL]) (length (?head @ bulk_text name)) 1 = Some ''$''"
    unfolding cmd(2) r using mem_read_middle [of "?head @ bulk_text name" "''$''" r] by simp
  have k: "length ?head + length (dec_nat (length name)) + 3 = length (?head @ ''$'' @ dec_nat (length name) @ CRLF)" by simp
  have k2: "?cmd @ [NUL] = (?head @ ''$'' @ dec_nat (length name) @ CRLF) @ name @ CRLF @ concat (map bulk_text chans) @ [NUL]"
    by (simp add: command_text_def bulk_text_def)
  have d: "drop (length ?head + length (dec_nat (length name)) + 3) (?cmd @ [NUL]) =
      name @ CRLF @ concat (map bulk_text chans) @ [NUL]"
    unfolding k k2 by (rule drop_prefix)
  have c1: "mem_read (?cmd @ [NUL]) (length ?head + length (dec_nat (length name)) + 3) 1 = Some [hd name]"
    using nm(3) mem_read_middle [of "?head @ ''$'' @ dec_nat (length name) @ CRLF" "[hd name]" "tl name @ CRLF @ concat (map bulk_text chans) @ [NUL]"]
    unfolding k k2 by (cases name) simp_all
  have sc: "strncaseeq (name @ CRLF @ concat (map bulk_text chans) @ [NUL]) (''subscribe'' @ CRLF) 11"
  proof -
    have low: "map tolower ''subscribe'' = ''subscribe''" by code_simp
    have "map tolower (name @ CRLF) = map tolower (''subscribe'' @ CRLF)" unfolding map_append assms(6) low ..
    from strncaseeq_prefix [OF this, of "concat (map bulk_text chans) @ [NUL]"]
    have "strncaseeq ((name @ CRLF) @ concat (map bulk_text chans) @ [NUL]) (''subscribe'' @ CRLF) (length (''subscribe'' @ CRLF))" .
    moreover have "length (''subscribe'' @ CRLF) = 11" by simp
    ultimately show ?thesis by (simp only: append_assoc)
  qed
  have wf: "dict_wf callbackDict (a_channels ac)" using assms(4) by (simp add: tables_ok_def)
  from subscribe_loop_ok [OF m assms(8) wf assms(9), of "?head @ bulk_text name" ?cb] obtain ht1 where
    ht1: "subscribe_loop e (?cmd @ [NUL]) (length (?head @ bulk_text name)) ?cb (a_channels ac) = Some ht1"
      "dict_wf callbackDict ht1" "dict_map ht1 = subscribed (dict_map (a_channels ac)) ?cb (map sdskey chans)"
    unfolding cmd(2) by blast
  define ac1 where "ac1 = (set_flag ac REDIS_SUBSCRIBED)\<lparr>a_channels := ht1\<rparr>"
  have o: "obuf_ok (a_c ac1)" "queued (a_c ac1) = queued (a_c ac)"
    using assms(5) by (simp_all add: ac1_def set_flag_def obuf_ok_def queued_def)
  obtain s where s: "redisAppendCommand_raw e (a_c ac1) w (?cmd @ [NUL]) (length ?cmd) = Some ((a_c ac1)\<lparr>c_obuf := Some s\<rparr>, REDIS_OK)"
      "content s = queued (a_c ac) @ ?cmd"
    using append_queued [OF m o(1), of "length ?cmd" "?cmd @ [NUL]"] assms(10) o(2) by auto
  define ac2 where "ac2 = hook AddWrite (ac1\<lparr>a_c := (a_c ac1)\<lparr>c_obuf := Some s\<rparr>\<rparr>)"
  have "redisAsyncCommand_raw e ac w fn privdata (?cmd @ [NUL]) (length ?cmd) = Some (ac2, REDIS_OK)"
  proof -
    have open1: "has (flags_of ac) (REDIS_DISCONNECTING OR REDIS_FREEING) = False" using assms(3) by (simp add: closing_def)
    have pv: "(tolower (hd name) = CHR ''p'') = False" using nm(2) by simp
    have ch1: "a_channels (set_flag ac REDIS_SUBSCRIBED) = a_channels ac" by (simp add: set_flag_def)
    show ?thesis
      unfolding redisAsyncCommand_raw_def open1 n Let_def Option.bind.simps prod.case c1 nxt list.sel pv if_False d
      by (simp only: sc simp_thms if_True ch1 ht1(1) Option.bind.simps option.case ac1_def [symmetric] s(1) prod.case ac2_def)
  qed
  moreover have "\<exists>n. dict_map ht1 (sdskey a) = Some \<lparr>cb_fn = fn, cb_pending_subs = n, cb_privdata = privdata\<rparr>" if "a \<in> set chans" for a
    using subscribed_keys(1) [of "sdskey a" "map sdskey chans" "dict_map (a_channels ac)" ?cb] that ht1(3) by simp
  moreover have "dict_map ht1 k = dict_map (a_channels ac) k" if "k \<notin> sdskey ` set chans" for k
    using subscribed_keys(2) [of k "map sdskey chans" "dict_map (a_channels ac)" ?cb] that ht1(3) by simp
  moreover have "a_channels ac2 = ht1" "a_patterns ac2 = a_patterns ac" "a_replies ac2 = a_replies ac" "a_invalid ac2 = a_invalid ac"
      "has (flags_of ac2) REDIS_SUBSCRIBED" "queued (a_c ac2) = queued (a_c ac) @ ?cmd"
    using s(2) by (simp_all add: ac2_def ac1_def hook_def set_flag_def queued_def has_OR has_def flag_defs)
  moreover have "tables_ok ac2" using calculation ht1(2) assms(4) by (simp add: tables_ok_def)
  ultimately show ?thesis by blast
qed


theorem async_subscribe_registers_witness:
  "\<exists>c ac' n. redisAsyncCommand_raw sample_env (sample_async c) new_world (Some 4) 2
       (command_text [''Subscribe'', ''news''] @ [NUL]) (length (command_text [''Subscribe'', ''news''])) = Some (ac', REDIS_OK) \<and>
     dict_map (a_channels ac') = [sdskey ''news'' \<mapsto> \<lparr>cb_fn = Some 4, cb_pending_subs = n, cb_privdata = 2\<rparr>] \<and>
     queued (a_c ac') = command_text [''Subscribe'', ''news'']"
proof -
  have m: "malloc_spec (e_malloc sample_env)" "malloc_total (e_malloc sample_env)"
    using zero_malloc_ok by (simp_all add: sample_env_def)
  obtain c where c: "redisContextInit sample_env [] = Some (Some c)" "obuf_ok c" "queued c = []"
    using redisContextInit_ok [OF m] by blast
  have ac: "\<not> closing (flags_of (sample_async c))" "tables_ok (sample_async c)" "obuf_ok (a_c (sample_async c))"
      "queued (a_c (sample_async c)) = []" "dict_map (a_channels (sample_async c)) = Map.empty" "d_used (a_channels (sample_async c)) = 0"
    using c by (simp_all add: sample_async_def closing_def has_def flag_defs tables_ok_def dictReset_ok obuf_ok_def queued_def)
      (simp add: dictReset_def)
  have lc: "map tolower ''Subscribe'' = ''subscribe''" by code_simp
  have len: "length (command_text [''Subscribe'', ''news'']) < 2 ^ 31"
    by (simp add: command_text_def bulk_text_def length_dec_nat)
  obtain ac' where r: "redisAsyncCommand_raw sample_env (sample_async c) new_world (Some 4) 2
       (command_text [''Subscribe'', ''news''] @ [NUL]) (length (command_text [''Subscribe'', ''news''])) = Some (ac', REDIS_OK)"
    "\<forall>a \<in> set [''news'']. \<exists>n. dict_map (a_channels ac') (sdskey a) = Some \<lparr>cb_fn = Some 4, cb_pending_subs = n, cb_privdata = 2\<rparr>"
    "\<forall>k. k \<notin> sdskey ` set [''news''] \<longrightarrow> dict_map (a_channels ac') k = dict_map (a_channels (sample_async c)) k"
    "queued (a_c ac') = queued (a_c (sample_async c)) @ command_text [''Subscribe'', ''news'']"
    using async_subscribe_registers [OF m ac(1-3) lc, of "[''news'']" new_world "Some 4" 2] ac(4,6) len by auto
  then obtain n where "dict_map (a_channels ac') = [sdskey ''news'' \<mapsto> \<lparr>cb_fn = Some 4, cb_pending_subs = n, cb_privdata = 2\<rparr>]"
    using ac(5) by (auto simp: fun_eq_iff)
  then show ?thesis using r(1,4) ac(4) by auto
qed

end
