(* ===== verification/Util.thy ===== *)
theory Util
  imports Decimal "HOL-Library.Monad_Syntax"
begin

text \<open>
  The string helpers of FileHub: \<open>base/util.cc\<close> (splitting, marks, URL encoding, searching in
  memory) and the ones of \<open>api/api_common.cc\<close> (URL parameters, file suffixes, trimming).

  A \<open>std::string\<close> and a C string are the list of their bytes; a C string is read up to its first
  NUL (\<open>cstr\<close>).  The outer \<open>None\<close> is undefined behaviour: a read or write out of bounds.
\<close>

unbundle bit_operations_syntax

section \<open>\<open>util.cc\<close>\<close>

subsection \<open>\<open>CStrExplode\<close>\<close>

text \<open>The tokens, from the ones of the rest of the string and the bytes since \<open>start\<close>.\<close>

fun explode_loop :: "char \<Rightarrow> string \<Rightarrow> string \<Rightarrow> string list" where
  "explode_loop sep cur [] = (if cur = [] then [] else [cur])"
| "explode_loop sep cur (c # cs) =
     (if cur \<noteq> [] \<and> c = sep then cur # explode_loop sep [] cs else explode_loop sep (cur @ [c]) cs)"

definition item_cnt :: "string \<Rightarrow> char \<Rightarrow> nat" where
  "item_cnt str sep = 1 + length (filter (\<lambda>c. c = sep) (cstr str))"

text \<open>The item list; \<open>None\<close> is an item that is never assigned.\<close>

definition CStrExplode :: "string \<Rightarrow> char \<Rightarrow> string option list" where
  "CStrExplode str sep =
     (let items = explode_loop sep [] (cstr str)
      in map Some items @ replicate (item_cnt str sep - length items) None)"

subsection \<open>Replacing\<close>

definition ReplaceStr :: "string option \<Rightarrow> char \<Rightarrow> char \<Rightarrow> string option" where
  "ReplaceStr src old_char new_char = map_option (\<lambda>s. map (\<lambda>c. if c = old_char then new_char else c) (cstr s)) src"

definition Int2String :: "nat \<Rightarrow> string" where
  "Int2String user_id = dec_nat user_id"

definition String2Int :: "string \<Rightarrow> nat" where
  "String2Int value = nat (atoi (cstr value) mod 2 ^ 32)"

text \<open>\<open>str.find(c, pos)\<close>\<close>

definition find_from :: "char \<Rightarrow> string \<Rightarrow> nat \<Rightarrow> nat option" where
  "find_from c str pos = (if pos \<le> length str then map_option ((+) pos) (find_sub [c] (drop pos str)) else None)"

text \<open>The string and \<open>begin_pos\<close>, from a value and the bytes put in for it.\<close>

definition replace_at :: "string \<Rightarrow> string \<Rightarrow> nat \<Rightarrow> string \<times> nat" where
  "replace_at str new_value begin_pos =
     (case find_from (CHR ''?'') str begin_pos of
        None \<Rightarrow> (str, begin_pos)
      | Some pos \<Rightarrow> (take pos str @ new_value @ drop (pos + 1) str, (pos + length new_value) mod 2 ^ 32))"

definition ReplaceMark :: "string \<Rightarrow> string \<Rightarrow> nat \<Rightarrow> string \<times> nat" where
  "ReplaceMark str new_value begin_pos = replace_at str ([SQUOT] @ new_value @ [SQUOT]) begin_pos"

definition ReplaceMark_uint :: "string \<Rightarrow> nat \<Rightarrow> nat \<Rightarrow> string \<times> nat" where
  "ReplaceMark_uint str new_value begin_pos = replace_at str (dec_nat new_value) begin_pos"

subsection \<open>URL encoding\<close>

definition ToHex :: "nat \<Rightarrow> char" where
  "ToHex x = (if x > 9 then byte_of ((x + 256 - 10 + 65) mod 256) else byte_of (x + 48))"

definition FromHex :: "char \<Rightarrow> nat" where
  "FromHex x = (if isdigit x then byte_val x - 48 else (byte_val x + 256 - 65 + 10) mod 256)"

fun URLEncode :: "string \<Rightarrow> string" where
  "URLEncode [] = []"
| "URLEncode (c # cs) =
     (if isalnum c then [c] else [CHR ''%'', ToHex (byte_val c div 16), ToHex (byte_val c mod 16)]) @ URLEncode cs"

definition hex_pair :: "char \<Rightarrow> char \<Rightarrow> char" where
  "hex_pair h l = byte_of ((16 * FromHex h mod 256) OR FromHex l)"

text \<open>\<open>in[in.size()]\<close> is NUL; beyond it there is nothing to read.\<close>

fun URLDecode :: "string \<Rightarrow> string option" where
  "URLDecode [] = Some []"
| "URLDecode (c # cs) =
     (if c = CHR ''%'' then
        (case cs of
           [] \<Rightarrow> None
         | [h] \<Rightarrow> Some [hex_pair h NUL]
         | h # l # rest \<Rightarrow> map_option ((#) (hex_pair h l)) (URLDecode rest))
      else map_option ((#) (if c = CHR ''+'' then CHR '' '' else c)) (URLDecode cs))"

subsection \<open>Searching\<close>

text \<open>The first of some positions at which \<open>memcmp\<close> finds the pattern.\<close>

fun first_match :: "string \<Rightarrow> string \<Rightarrow> nat list \<Rightarrow> nat option" where
  "first_match src sub [] = None"
| "first_match src sub (i # is) = (if take (length sub) (drop i src) = sub then Some i else first_match src sub is)"

text \<open>
  The position found, the inner \<open>None\<close> being NULL.  The objects behind the pointers are the
  strings; a length beyond its object, and a counter beyond \<open>int\<close>, are outside the model.
\<close>

definition MemFind :: "string option \<Rightarrow> nat \<Rightarrow> string option \<Rightarrow> nat \<Rightarrow> bool \<Rightarrow> nat option option" where
  "MemFind src_str src_len sub_str sub_len flag =
     (case (src_str, sub_str) of
        (Some src0, Some sub0) \<Rightarrow>
          if src_len = 0 \<or> src_len < sub_len then Some None
          else do {
            src \<leftarrow> mem_read src0 0 src_len;
            sub \<leftarrow> (if sub_len = 0 then (if NUL \<in> set sub0 then Some (cstr sub0) else None) else mem_read sub0 0 sub_len);
            let n = length sub;
            if src_len = n then Some (if src = sub then Some 0 else None)
            else if src_len < n \<or> src_len - n \<ge> 2 ^ 31 then None
            else if flag then Some (first_match src sub [0..<src_len - n])
            else Some (first_match src sub (rev [0..<Suc (src_len - n)]))
          }
      | _ \<Rightarrow> Some None)"

section \<open>\<open>api_common.cc\<close>\<close>

text \<open>The value stored, the inner \<open>None\<close> being the result -1.  The byte after the key is skipped
  without a check.\<close>

definition QueryParseKeyValue :: "string \<Rightarrow> string \<Rightarrow> string option option" where
  "QueryParseKeyValue query key =
     (case find_sub (cstr key) (cstr query) of
        None \<Rightarrow> Some None
      | Some i \<Rightarrow>
          let rest = drop (i + length (cstr key)) (cstr query)
          in if rest = [] then None
             else Some (Some (takeWhile (\<lambda>c. c \<noteq> CHR ''#'' \<and> c \<noteq> CHR ''&'') (tl rest))))"

text \<open>\<open>k\<close> moves back from the end to the last dot, or to the beginning.\<close>

fun last_dot :: "string \<Rightarrow> nat \<Rightarrow> nat" where
  "last_dot p 0 = 0"
| "last_dot p (Suc k) = (if Suc k < length p \<and> p ! Suc k = CHR ''.'' then Suc k else last_dot p k)"

text \<open>The result and what is written to a buffer of \<open>cap\<close> bytes.\<close>

definition GetFileSuffix :: "string option \<Rightarrow> nat \<Rightarrow> (int \<times> string option) option" where
  "GetFileSuffix file_name cap =
     (case file_name of
        None \<Rightarrow> Some (-1, None)
      | Some f \<Rightarrow>
          let p = cstr f; k = last_dot p (length p);
              s = (if k < length p \<and> p ! k = CHR ''.'' \<and> k + 1 \<noteq> length p then drop (k + 1) p else ''null'')
          in if length s < cap then Some (0, Some s) else None)"

text \<open>An empty buffer makes it read the byte before it; \<open>strncpy\<close> copies forwards.\<close>

fun back_space :: "string \<Rightarrow> nat \<Rightarrow> nat \<Rightarrow> nat" where
  "back_space str i 0 = 0"
| "back_space str i (Suc j) = (if isspace (str ! Suc j) \<and> Suc j > i then back_space str i j else Suc j)"

definition TrimSpace :: "string \<Rightarrow> string option" where
  "TrimSpace inbuf =
     (let str = cstr inbuf
      in if str = [] then None
         else
           let i = length (takeWhile isspace str); j = back_space str i (length str - 1)
           in Some (take (j + 1 - i) (drop i str)))"

section \<open>Lemmas\<close>

text \<open>Splitting undoes joining, when no token is empty or holds the separator.\<close>

fun join_with :: "char \<Rightarrow> string list \<Rightarrow> string" where
  "join_with sep [] = []"
| "join_with sep [t] = t"
| "join_with sep (t # u # ts) = t @ [sep] @ join_with sep (u # ts)"

lemma explode_token: "sep \<notin> set t \<Longrightarrow> explode_loop sep cur (t @ rest) = explode_loop sep (cur @ t) rest"
  by (induction t arbitrary: cur) auto

lemma explode_join:
  "\<forall>t \<in> set ts. t \<noteq> [] \<and> sep \<notin> set t \<Longrightarrow> ts \<noteq> [] \<Longrightarrow> explode_loop sep [] (join_with sep ts) = ts"
proof (induction sep ts rule: join_with.induct)
  case (2 sep t)
  then show ?case using explode_token [of sep t "[]" "[]"] by simp
next
  case (3 sep t u ts)
  then show ?case using explode_token [of sep t "[]" "sep # join_with sep (u # ts)"] by simp
qed simp

lemma count_join:
  "\<forall>t \<in> set ts. sep \<notin> set t \<Longrightarrow> ts \<noteq> [] \<Longrightarrow> Suc (length (filter (\<lambda>c. c = sep) (join_with sep ts))) = length ts"
proof (induction sep ts rule: join_with.induct)
  case (2 sep t)
  then have "filter (\<lambda>c. c = sep) t = []" by (auto simp: filter_empty_conv)
  then show ?case by simp
next
  case (3 sep t u ts)
  then have "filter (\<lambda>c. c = sep) t = []" by (auto simp: filter_empty_conv)
  then show ?case using 3 by simp
qed simp

lemma explode_items:
  assumes "\<forall>t \<in> set ts. t \<noteq> [] \<and> sep \<notin> set t \<and> NUL \<notin> set t" and "ts \<noteq> []" and "sep \<noteq> NUL"
  shows "CStrExplode (join_with sep ts) sep = map Some ts"
proof -
  have "NUL \<notin> set (join_with sep ts)" using assms by (induction sep ts rule: join_with.induct) auto
  then have "cstr (join_with sep ts) = join_with sep ts" by (rule cstr_id)
  then show ?thesis
    using explode_join [of ts sep] count_join [of ts sep] assms by (simp add: CStrExplode_def item_cnt_def)
qed

lemma byte_val_less: "byte_val c < 256"
proof -
  have "byte_val c = byte_val (byte_of (byte_val c))" by simp
  also have "\<dots> = byte_val c mod 256" by (rule of_char_of)
  also have "\<dots> < 256" by simp
  finally show ?thesis .
qed

lemma or_nibbles:
  assumes "h < 16" and "l < (16 :: nat)" shows "(16 * h mod 256) OR l = 16 * h + l"
proof -
  have l: "take_bit 4 l = l" using assms(2) by (simp add: take_bit_nat_eq_self)
  have "bit l n \<Longrightarrow> n < 4" for n using l bit_take_bit_iff [of 4 l n] by simp
  then have "\<not> (bit (push_bit 4 h) n \<and> bit l n)" for n
    by (fastforce simp: bit_push_bit_iff dest: leD)
  then have "push_bit 4 h AND l = 0" by (intro bit_eqI) (auto simp: bit_and_iff)
  then have "push_bit 4 h OR l = push_bit 4 h + l" by (simp add: disjunctive_add_eq_or)
  then show ?thesis using assms(1) by (simp add: push_bit_eq_mult mult.commute)
qed

lemma hex_digit: "h < 16 \<Longrightarrow> FromHex (ToHex h) = h \<and> isalnum (ToHex h)"
proof -
  assume "h < 16"
  then consider "h \<le> 9" | "h \<in> {10, 11, 12, 13, 14, 15}" by fastforce
  then show ?thesis by cases (auto simp: ToHex_def FromHex_def ctype_defs)
qed

lemma hex_byte:
  assumes "n < 256" shows "hex_pair (ToHex (n div 16)) (ToHex (n mod 16)) = byte_of n"
proof -
  have "n div 16 < 16" "n mod 16 < 16" using assms by auto
  then show ?thesis
    unfolding hex_pair_def by (simp only: hex_digit or_nibbles mult_div_mod_eq)
qed

lemma hex_char [simp]: "hex_pair (ToHex (byte_val c div 16)) (ToHex (byte_val c mod 16)) = c"
  using hex_byte [of "byte_val c"] byte_val_less [of c] by simp

lemma alnum_plain: "isalnum c \<Longrightarrow> c \<noteq> CHR ''%'' \<and> c \<noteq> CHR ''+''"
  by (auto simp: ctype_defs)

text \<open>C39. URL encoding is undone by URL decoding for every byte string, and the encoded text holds nothing but
  letters, digits and percent signs.\<close>

theorem url_roundtrip:
  "URLDecode (URLEncode s) = Some s \<and> list_all (\<lambda>c. isalnum c \<or> c = CHR ''%'') (URLEncode s)"
proof (induction s)
  case (Cons c s)
  have "byte_val c div 16 < 16" "byte_val c mod 16 < 16" using byte_val_less [of c] by (simp_all add: div_less_iff_less_mult)
  then have "isalnum (ToHex (byte_val c div 16))" "isalnum (ToHex (byte_val c mod 16))"
    using hex_digit by simp_all
  then show ?case using Cons alnum_plain [of c] by auto
qed simp

text \<open>Searching forwards tries every position but the last one at which the pattern would fit; searching
  backwards tries them all.\<close>

lemma first_match_Some:
  "first_match src sub is = Some i \<Longrightarrow> i \<in> set is \<and> take (length sub) (drop i src) = sub"
  by (induction "is") (auto split: if_splits)

lemma first_match_None: "first_match src sub is = None \<longleftrightarrow> (\<forall>i \<in> set is. take (length sub) (drop i src) \<noteq> sub)"
  by (induction "is") auto

lemma first_match_append:
  "first_match src sub (is @ js) = (case first_match src sub is of None \<Rightarrow> first_match src sub js | Some i \<Rightarrow> Some i)"
  by (induction "is") auto

lemma first_match_least:
  "first_match src sub [0..<n] = Some i \<Longrightarrow> j < i \<Longrightarrow> take (length sub) (drop j src) \<noteq> sub"
proof (induction n)
  case (Suc n)
  then show ?case
  proof (cases "first_match src sub [0..<n]")
    case None
    then show ?thesis using Suc.prems first_match_None [of src sub "[0..<n]"] by (auto simp: first_match_append split: if_splits)
  qed (use Suc in \<open>auto simp: first_match_append\<close>)
qed simp

lemma first_match_greatest:
  "first_match src sub (rev [0..<n]) = Some i \<Longrightarrow> i < j \<Longrightarrow> j < n \<Longrightarrow> take (length sub) (drop j src) \<noteq> sub"
proof (induction n)
  case (Suc n)
  then show ?case by (cases "j = n") (auto split: if_splits)
qed simp

definition occurs_at :: "string \<Rightarrow> string \<Rightarrow> nat \<Rightarrow> bool" where
  "occurs_at src sub i \<longleftrightarrow> i + length sub \<le> length src \<and> take (length sub) (drop i src) = sub"

text \<open>What \<open>MemFind\<close> finds: with \<open>flag\<close> cleared the last occurrence, with \<open>flag\<close> set the first one, but never
  one at the very end of a longer string.\<close>

lemma MemFind_finds:
  assumes "sub \<noteq> []" and "length sub < length src" and "length src < 2 ^ 31"
  shows "MemFind (Some src) (length src) (Some sub) (length sub) True = Some r \<Longrightarrow>
      (case r of Some i \<Rightarrow> occurs_at src sub i \<and> (\<forall>j < i. \<not> occurs_at src sub j) \<and> i + length sub < length src
       | None \<Rightarrow> \<forall>j. occurs_at src sub j \<longrightarrow> j + length sub = length src)"
    and "MemFind (Some src) (length src) (Some sub) (length sub) False = Some r' \<Longrightarrow>
      (case r' of Some i \<Rightarrow> occurs_at src sub i \<and> (\<forall>j > i. \<not> occurs_at src sub j)
       | None \<Rightarrow> \<forall>j. \<not> occurs_at src sub j)"
proof -
  let ?d = "length src - length sub"
  have m: "mem_read src 0 (length src) = Some src" "mem_read sub 0 (length sub) = Some sub" by (simp_all add: mem_read_def)
  have f: "MemFind (Some src) (length src) (Some sub) (length sub) fl =
      Some (if fl then first_match src sub [0..<?d] else first_match src sub (rev [0..<Suc ?d]))" for fl
    using assms m by (cases sub) (auto simp: MemFind_def Let_def)
  { assume "MemFind (Some src) (length src) (Some sub) (length sub) True = Some r"
    then have r: "r = first_match src sub [0..<?d]" by (simp add: f)
    show "case r of Some i \<Rightarrow> occurs_at src sub i \<and> (\<forall>j < i. \<not> occurs_at src sub j) \<and> i + length sub < length src
       | None \<Rightarrow> \<forall>j. occurs_at src sub j \<longrightarrow> j + length sub = length src"
    proof (cases r)
      case None
      then have "\<forall>i < ?d. take (length sub) (drop i src) \<noteq> sub"
        using r first_match_None [of src sub "[0..<?d]"] by auto
      then have "j + length sub = length src" if "occurs_at src sub j" for j
        using that not_less [of j ?d] by (auto simp: occurs_at_def)
      then show ?thesis using None by auto
    next
      case (Some i)
      then have "i < ?d" "take (length sub) (drop i src) = sub" "\<forall>j < i. take (length sub) (drop j src) \<noteq> sub"
        using r first_match_Some [of src sub "[0..<?d]" i] first_match_least [of src sub ?d i] by auto
      then show ?thesis using Some by (auto simp: occurs_at_def)
    qed }
  { assume "MemFind (Some src) (length src) (Some sub) (length sub) False = Some r'"
    then have r: "r' = first_match src sub (rev [0..<Suc ?d])" by (simp only: f if_False option.inject)
    show "case r' of Some i \<Rightarrow> occurs_at src sub i \<and> (\<forall>j > i. \<not> occurs_at src sub j) | None \<Rightarrow> \<forall>j. \<not> occurs_at src sub j"
    proof (cases r')
      case None
      then have "\<forall>i \<in> set (rev [0..<Suc ?d]). take (length sub) (drop i src) \<noteq> sub"
        using r first_match_None by metis
      then have "j \<in> set (rev [0..<Suc ?d]) \<Longrightarrow> take (length sub) (drop j src) \<noteq> sub" for j by blast
      then have "j \<le> ?d \<Longrightarrow> take (length sub) (drop j src) \<noteq> sub" for j
        by (simp only: set_rev set_upt atLeastLessThan_iff le0 simp_thms less_Suc_eq_le)
      then have "\<not> occurs_at src sub j" for j
        by (auto simp: occurs_at_def le_diff_conv2 assms(2) less_imp_le)
      then show ?thesis using None by auto
    next
      case (Some i)
      then have "i \<in> set (rev [0..<Suc ?d])" "take (length sub) (drop i src) = sub"
        using r first_match_Some by metis+
      moreover have "\<forall>j > i. j < Suc ?d \<longrightarrow> take (length sub) (drop j src) \<noteq> sub"
        using r Some first_match_greatest by metis
      ultimately show ?thesis using Some assms(2) by (auto simp: occurs_at_def)
    qed }
qed

text \<open>The value of the first occurrence of the key, wherever it stands in the URL.\<close>

lemma QueryParse_value:
  assumes "find_sub key (pre @ key @ e # v @ rest) = Some (length pre)"
    and "NUL \<notin> set (pre @ key @ e # v @ rest)"
    and "CHR ''#'' \<notin> set v" and "CHR ''&'' \<notin> set v" and "rest = [] \<or> hd rest \<in> {CHR ''#'', CHR ''&''}"
  shows "QueryParseKeyValue (pre @ key @ e # v @ rest) key = Some (Some v)"
proof -
  have k: "cstr key = key" "cstr (pre @ key @ e # v @ rest) = pre @ key @ e # v @ rest"
    using assms(2) by (simp_all add: cstr_id)
  have "takeWhile (\<lambda>c. c \<noteq> CHR ''#'' \<and> c \<noteq> CHR ''&'') (v @ rest) = v"
    using assms(3-5) by (cases rest) (auto simp: takeWhile_append takeWhile_eq_all_conv)
  then show ?thesis using assms(1) by (simp add: QueryParseKeyValue_def k)
qed

text \<open>The suffix of a file name is what follows its last dot.\<close>

lemma last_dot_at:
  "CHR ''.'' \<notin> set ext \<Longrightarrow> k \<le> length (stem @ CHR ''.'' # ext) \<Longrightarrow> length stem \<le> k \<Longrightarrow>
   last_dot (stem @ CHR ''.'' # ext) k = length stem"
proof (induction k)
  case (Suc k)
  have "(stem @ CHR ''.'' # ext) ! Suc k \<noteq> CHR ''.''" if "length stem < Suc k" "Suc k < length (stem @ CHR ''.'' # ext)"
    using that Suc.prems(1) by (auto simp: nth_append nth_Cons' in_set_conv_nth)
  moreover have "(stem @ CHR ''.'' # ext) ! Suc k = CHR ''.''" if "length stem = Suc k"
    unfolding that [symmetric] by simp
  ultimately show ?case using Suc by (cases "length stem = Suc k") auto
qed simp

lemma GetFileSuffix_dot:
  assumes "NUL \<notin> set (stem @ ext)" and "CHR ''.'' \<notin> set ext" and "ext \<noteq> []" and "length ext < cap"
  shows "GetFileSuffix (Some (stem @ CHR ''.'' # ext)) cap = Some (0, Some ext)"
proof -
  have "cstr (stem @ CHR ''.'' # ext) = stem @ CHR ''.'' # ext" using assms(1) by (intro cstr_id) auto
  then show ?thesis
    using last_dot_at [OF assms(2), of "length (stem @ CHR ''.'' # ext)" stem] assms(3,4)
    by (simp add: GetFileSuffix_def Let_def)
qed

text \<open>Trimming strips the white space on both sides.\<close>

lemma back_space_stop:
  "k < length str \<Longrightarrow> i \<le> k \<Longrightarrow> \<not> isspace (str ! k) \<Longrightarrow> (\<forall>m. k < m \<and> m \<le> j \<longrightarrow> isspace (str ! m)) \<Longrightarrow> k \<le> j \<Longrightarrow>
   back_space str i j = k"
proof (induction j)
  case (Suc j)
  then show ?case by (cases "k = Suc j") auto
qed simp

lemma TrimSpace_strips:
  assumes "NUL \<notin> set (l @ s @ r)" and "\<forall>c \<in> set (l @ r). isspace c" and "s \<noteq> []"
    and "\<not> isspace (hd s)" and "\<not> isspace (last s)"
  shows "TrimSpace (l @ s @ r) = Some s"
proof -
  have c: "cstr (l @ s @ r) = l @ s @ r" using assms(1) by (rule cstr_id)
  have i: "length (takeWhile isspace (l @ s @ r)) = length l"
    using assms(2-4) by (cases s) (auto simp: takeWhile_append2)
  let ?k = "length l + length s - 1"
  have "(l @ s @ r) ! ?k = last s" using assms(3) by (cases s rule: rev_cases) (auto simp: nth_append)
  moreover have "isspace ((l @ s @ r) ! m)" if "?k < m" "m \<le> length (l @ s @ r) - 1" for m
    using that assms(2,3) by (auto simp: nth_append not_less)
  moreover have "?k < length (l @ s @ r)" "length l \<le> ?k" "?k \<le> length (l @ s @ r) - 1"
    using assms(3) by (cases s; simp)+
  ultimately have "back_space (l @ s @ r) (length l) (length (l @ s @ r) - 1) = ?k"
    using assms(5) by (intro back_space_stop) auto
  then show ?thesis using assms(3) unfolding TrimSpace_def c i Let_def by (cases s) simp_all
qed

end
