(* ===== verification/Config.thy ===== *)
theory Config
  imports Util "HOL-Library.List_Lexorder"
begin

text \<open>
  The configuration file of FileHub, \<open>base/config_file_reader.cc\<close>: lines \<open>key=value\<close> with comments.

  The file is the string of its bytes.  \<open>std::map\<close> is an association list in the order of its
  keys, which is the order the file is written in.  \<open>load_ok_\<close> has no initial value: \<open>None\<close> until
  a file has been read.
\<close>

type_synonym config = "(string \<times> string) list"

fun map_insert :: "string \<Rightarrow> string \<Rightarrow> config \<Rightarrow> config" where
  "map_insert k v [] = [(k, v)]"
| "map_insert k v ((k', v') # m) =
     (if k = k' then (k', v') # m else if k < k' then (k, v) # (k', v') # m else (k', v') # map_insert k v m)"

definition map_assign :: "string \<Rightarrow> string \<Rightarrow> config \<Rightarrow> config" where
  "map_assign k v m = (if map_of m k = None then map_insert k v m else map (\<lambda>(k', v'). (k', if k' = k then v else v')) m)"

record CConfigFileReader =
  load_ok :: "bool option"
  config_map :: config
  config_file :: string

abbreviation blank :: "char \<Rightarrow> bool" where "blank c \<equiv> c = CHR '' '' \<or> c = TAB"

text \<open>NULL for a blank string.\<close>

definition TrimBlanks :: "string \<Rightarrow> string option" where
  "TrimBlanks name =
     (let start_pos = dropWhile blank name
      in if start_pos = [] then None else Some (rev (dropWhile blank (rev start_pos))))"

definition ParseLine :: "string \<Rightarrow> config \<Rightarrow> config" where
  "ParseLine line m =
     (case find_sub ''='' line of
        None \<Rightarrow> m
      | Some p \<Rightarrow>
          (case (TrimBlanks (take p line), TrimBlanks (drop (p + 1) line)) of
             (Some key, Some value) \<Rightarrow> map_insert key value m
           | _ \<Rightarrow> m))"

text \<open>\<open>fgets\<close>: at most \<open>n\<close> bytes, up to the end of the line.\<close>

fun fgets :: "nat \<Rightarrow> string \<Rightarrow> string \<times> string" where
  "fgets 0 s = ([], s)"
| "fgets (Suc n) [] = ([], [])"
| "fgets (Suc n) (c # cs) = (if c = LF then ([c], cs) else (c # fst (fgets n cs), snd (fgets n cs)))"

lemma fgets_length: "length (snd (fgets n s)) \<le> length s"
  by (induction n s rule: fgets.induct) auto

text \<open>A line that begins with NUL makes \<open>buf[len - 1]\<close> lie before the buffer.\<close>

definition line_text :: "string \<Rightarrow> string option" where
  "line_text buf =
     (let s = cstr buf
      in if s = [] then None
         else Some (takeWhile (\<lambda>c. c \<noteq> CHR ''#'') (if last s = LF then butlast s else s)))"

function load_lines :: "string \<Rightarrow> config \<Rightarrow> config option" where
  "load_lines file m =
     (if file = [] then Some m
      else case line_text (fst (fgets 255 file)) of
             None \<Rightarrow> None
           | Some l \<Rightarrow> load_lines (snd (fgets 255 file)) (if l = [] then m else ParseLine l m))"
  by pat_completeness auto
termination
proof (relation "measure (\<lambda>(file, m). length file)", goal_cases)
  case (2 bytes m l)
  then obtain c cs where "bytes = c # cs" by (cases bytes) auto
  moreover have "length (snd (fgets 254 cs)) \<le> length cs" by (rule fgets_length)
  moreover have "fgets 255 (c # cs) = (if c = LF then ([c], cs) else (c # fst (fgets 254 cs), snd (fgets 254 cs)))"
    using fgets.simps(3) [of 254] by simp
  ultimately show ?case by auto
qed simp

declare load_lines.simps [simp del]

definition LoadFile :: "string \<Rightarrow> string option \<Rightarrow> CConfigFileReader option" where
  "LoadFile filename file =
     (let cfg = \<lparr>load_ok = None, config_map = [], config_file = cstr filename\<rparr>
      in case file of
           None \<Rightarrow> Some cfg
         | Some bytes \<Rightarrow> do {
             m \<leftarrow> load_lines bytes [];
             Some (cfg\<lparr>load_ok := Some True, config_map := m\<rparr>)
           })"

definition GetConfigName :: "CConfigFileReader \<Rightarrow> string \<Rightarrow> string option option" where
  "GetConfigName cfg name =
     (case load_ok cfg of
        None \<Rightarrow> None
      | Some ok \<Rightarrow> Some (if \<not> ok then None else map_option cstr (map_of (config_map cfg) (cstr name))))"

text \<open>\<open>snprintf(szPaire, 128, "%s=%s\n", key, value)\<close>\<close>

definition pair_line :: "string \<Rightarrow> string \<Rightarrow> string" where
  "pair_line k v = take 127 (cstr k @ ''='' @ cstr v @ [LF])"

text \<open>What the file then holds, and the result: \<open>opened\<close> and \<open>written\<close> are the outcomes of
  \<open>fopen\<close> and of the calls of \<open>fwrite\<close>.\<close>

fun write_pairs :: "(nat \<Rightarrow> bool) \<Rightarrow> nat \<Rightarrow> config \<Rightarrow> string \<times> int" where
  "write_pairs written i [] = ([], 0)"
| "write_pairs written i ((k, v) # m) =
     (if written i then (pair_line k v @ fst (write_pairs written (Suc i) m), snd (write_pairs written (Suc i) m))
      else ([], -1))"

definition WriteFIle :: "bool \<Rightarrow> (nat \<Rightarrow> bool) \<Rightarrow> CConfigFileReader \<Rightarrow> string option \<times> int" where
  "WriteFIle opened written cfg =
     (if \<not> opened then (None, -1)
      else (Some (fst (write_pairs written 0 (config_map cfg))), snd (write_pairs written 0 (config_map cfg))))"

definition SetConfigValue ::
  "bool \<Rightarrow> (nat \<Rightarrow> bool) \<Rightarrow> CConfigFileReader \<Rightarrow> string \<Rightarrow> string \<Rightarrow> (CConfigFileReader \<times> string option \<times> int) option" where
  "SetConfigValue opened written cfg name value =
     (case load_ok cfg of
        None \<Rightarrow> None
      | Some ok \<Rightarrow>
          if \<not> ok then Some (cfg, None, -1)
          else
            let cfg1 = cfg\<lparr>config_map := map_assign (cstr name) (cstr value) (config_map cfg)\<rparr>
            in Some (cfg1, WriteFIle opened written cfg1))"

section \<open>What is written is read back\<close>

definition word_ok :: "string \<Rightarrow> bool" where
  "word_ok s \<longleftrightarrow> s \<noteq> [] \<and> \<not> blank (hd s) \<and> \<not> blank (last s) \<and> NUL \<notin> set s \<and> LF \<notin> set s \<and> CHR ''#'' \<notin> set s"

definition pair_ok :: "string \<times> string \<Rightarrow> bool" where
  "pair_ok p \<longleftrightarrow> word_ok (fst p) \<and> word_ok (snd p) \<and> CHR ''='' \<notin> set (fst p) \<and> length (fst p) + length (snd p) + 2 \<le> 127"

lemma TrimBlanks_word: "word_ok s \<Longrightarrow> TrimBlanks s = Some s"
proof -
  assume w: "word_ok s"
  then have "dropWhile blank s = s" by (cases s) (auto simp: word_ok_def)
  moreover have "dropWhile blank (rev s) = rev s"
    using w by (cases s rule: rev_cases) (auto simp: word_ok_def)
  ultimately show ?thesis using w by (simp add: TrimBlanks_def word_ok_def)
qed

lemma fgets_line: "LF \<notin> set l \<Longrightarrow> length l < n \<Longrightarrow> fgets n (l @ LF # rest) = (l @ [LF], rest)"
proof (induction l arbitrary: n)
  case Nil
  then show ?case by (cases n) auto
next
  case (Cons c l)
  then show ?case by (cases n) auto
qed

lemma find_sub_char: "x \<notin> set d \<Longrightarrow> find_sub [x] (d @ x # r) = Some (length d)"
  by (induction d) auto

lemma load_line:
  "s \<noteq> [] \<Longrightarrow> fgets 255 s = (b, r) \<Longrightarrow> line_text b = Some l \<Longrightarrow> l \<noteq> [] \<Longrightarrow>
   load_lines s m = load_lines r (ParseLine l m)"
  by (simp add: load_lines.simps [of s])

lemma load_pair:
  assumes "pair_ok (k, v)"
  shows "load_lines (pair_line k v @ rest) m = load_lines rest (map_insert k v m)"
proof -
  let ?l = "k @ ''='' @ v"
  have w: "word_ok k" "word_ok v" "CHR ''='' \<notin> set k" "length ?l < 127" using assms by (simp_all add: pair_ok_def)
  have nul: "NUL \<notin> set (?l @ [LF])" using w by (auto simp: word_ok_def)
  have pl: "pair_line k v = ?l @ [LF]" using w by (simp add: pair_line_def word_ok_def cstr_id)
  have f: "fgets 255 (?l @ LF # rest) = (?l @ [LF], rest)"
    using w by (intro fgets_line) (auto simp: word_ok_def)
  have t: "line_text (?l @ [LF]) = Some ?l"
    using w unfolding line_text_def cstr_id [OF nul] by (auto simp: word_ok_def butlast_append takeWhile_eq_all_conv)
  have "find_sub ''='' ?l = Some (length k)"
    using find_sub_char [OF w(3), of v] by simp
  then have "ParseLine ?l m = map_insert k v m"
    using TrimBlanks_word [OF w(1)] TrimBlanks_word [OF w(2)] by (simp add: ParseLine_def)
  moreover have "load_lines (pair_line k v @ rest) m = load_lines rest (ParseLine ?l m)"
    using load_line [OF _ f t] w by (simp add: pl word_ok_def)
  ultimately show ?thesis by simp
qed

lemma map_insert_last:
  "sorted_wrt (<) (map fst (m @ [(k, v)])) \<Longrightarrow> map_insert k v m = m @ [(k, v)]"
proof (induction m)
  case (Cons p m)
  obtain k' v' where p: "p = (k', v')" by (cases p)
  have "k' < k" "sorted_wrt (<) (map fst (m @ [(k, v)]))" using Cons.prems p by auto
  then show ?case using Cons.IH p by auto
qed simp

lemma load_written:
  "\<forall>p \<in> set m. pair_ok p \<Longrightarrow> sorted_wrt (<) (map fst (m0 @ m)) \<Longrightarrow>
   load_lines (fst (write_pairs (\<lambda>i. True) i m)) m0 = Some (m0 @ m)"
proof (induction m arbitrary: i m0)
  case Nil
  then show ?case by (simp add: load_lines.simps)
next
  case (Cons p m)
  obtain k v where p: "p = (k, v)" by (cases p)
  have "sorted_wrt (<) (map fst (m0 @ [(k, v)]))" using Cons.prems(2) p by (auto simp: sorted_wrt_append)
  then have "map_insert k v m0 = m0 @ [(k, v)]" by (rule map_insert_last)
  moreover have "load_lines (fst (write_pairs (\<lambda>i. True) (Suc i) m)) (m0 @ [(k, v)]) = Some ((m0 @ [(k, v)]) @ m)"
    using Cons.prems p by (intro Cons.IH) auto
  ultimately show ?case using Cons.prems(1) load_pair [of k v] p by simp
qed

text \<open>The keys of a configuration stay in order, and an assignment changes one of them.\<close>

abbreviation sorted_keys :: "config \<Rightarrow> bool" where "sorted_keys m \<equiv> sorted_wrt (<) (map fst m)"

lemma map_insert_keys: "set (map_insert k v m) \<subseteq> insert (k, v) (set m)"
  by (induction k v m rule: map_insert.induct) auto

lemma map_insert_sorted: "sorted_keys m \<Longrightarrow> sorted_keys (map_insert k v m)"
proof (induction m)
  case (Cons p m)
  obtain k' v' where p: "p = (k', v')" by (cases p)
  have "fst q = k \<or> q \<in> set m" if "q \<in> set (map_insert k v m)" for q using map_insert_keys [of k v m] that by auto
  with Cons p show ?case by (fastforce intro: less_trans)
qed simp

lemma map_of_insert: "map_of m k = None \<Longrightarrow> map_of (map_insert k v m) = (map_of m)(k \<mapsto> v)"
  by (induction m) (auto split: if_splits)

lemma map_of_change:
  "map_of (map (\<lambda>(k', v'). (k', if k' = k then v else v')) m) x = (if x = k then map_option (\<lambda>_. v) (map_of m k) else map_of m x)"
  by (induction m) auto

lemma map_of_assign: "map_of (map_assign k v m) = (map_of m)(k \<mapsto> v)"
  by (auto simp: map_assign_def map_of_insert map_of_change)

lemma map_assign_sorted: "sorted_keys m \<Longrightarrow> sorted_keys (map_assign k v m)"
  by (auto simp: map_assign_def map_insert_sorted o_def case_prod_unfold)

lemma map_assign_pairs: "p \<in> set (map_assign k v m) \<Longrightarrow> p = (k, v) \<or> p \<in> set m"
  using map_insert_keys [of k v m] by (auto simp: map_assign_def split: if_splits)

lemma load_lines_sorted: "load_lines s m = Some m' \<Longrightarrow> sorted_keys m \<Longrightarrow> sorted_keys m'"
proof (induction s m rule: load_lines.induct)
  case (1 s m)
  show ?case
  proof (cases "s = []")
    case True
    with "1.prems" show ?thesis by (simp add: load_lines.simps)
  next
    case False
    with "1.prems"(1) obtain l where l: "line_text (fst (fgets 255 s)) = Some l"
        "load_lines (snd (fgets 255 s)) (if l = [] then m else ParseLine l m) = Some m'"
      by (auto simp: load_lines.simps [of s] split: option.splits)
    have "sorted_keys (if l = [] then m else ParseLine l m)"
      using "1.prems"(2) by (auto simp: ParseLine_def map_insert_sorted split: option.split)
    with "1.IH" [OF False l(1)] l(2) show ?thesis by simp
  qed
qed

text \<open>Whatever the file holds, a configuration that has been loaded has its keys in order.\<close>

lemma LoadFile_sorted: "LoadFile name (Some file) = Some cfg \<Longrightarrow> load_ok cfg = Some True \<and> sorted_keys (config_map cfg)"
  using load_lines_sorted [where m = "[]"] by (auto simp: LoadFile_def bind_eq_Some_conv)

text \<open>A configuration that a file can hold.\<close>

definition config_ok :: "CConfigFileReader \<Rightarrow> bool" where
  "config_ok cfg \<longleftrightarrow> load_ok cfg = Some True \<and> sorted_keys (config_map cfg) \<and> (\<forall>p \<in> set (config_map cfg). pair_ok p)"

lemma write_and_load:
  assumes "config_ok cfg"
  shows "\<exists>file. WriteFIle True (\<lambda>i. True) cfg = (Some file, 0) \<and>
    LoadFile name (Some file) = Some \<lparr>load_ok = Some True, config_map = config_map cfg, config_file = cstr name\<rparr>"
proof -
  have z: "snd (write_pairs (\<lambda>i. True) i m) = 0" for i m
    by (induction m arbitrary: i) auto
  have "load_lines (fst (write_pairs (\<lambda>i. True) 0 (config_map cfg))) [] = Some (config_map cfg)"
    using load_written [of "config_map cfg" "[]" 0] assms by (simp add: config_ok_def)
  with z show ?thesis by (simp add: WriteFIle_def LoadFile_def)
qed

lemma GetConfigName_ok: "config_ok cfg \<Longrightarrow> GetConfigName cfg k = Some (map_of (config_map cfg) (cstr k))"
  by (cases "map_of (config_map cfg) (cstr k)")
    (auto dest!: map_of_SomeD simp: config_ok_def pair_ok_def word_ok_def cstr_id GetConfigName_def)

lemma assign_ok: "config_ok cfg \<Longrightarrow> pair_ok (k, v) \<Longrightarrow> config_ok (cfg\<lparr>config_map := map_assign k v (config_map cfg)\<rparr>)"
  by (auto simp: config_ok_def map_assign_sorted dest!: map_assign_pairs)

text \<open>C40. \<open>SetConfigValue\<close> on a configuration that has been loaded stores the value and writes the file, and a program
  that loads this file finds the new value under the key, and every other key as it was; what it has loaded can be set and written again.
  This is so when the file can be opened and written, for keys and values (those stored already and the new one) that the
  format of the file can hold (\<open>pair_ok\<close>): not empty, no blank at either end, no NUL, line break or \<open>#\<close>, no \<open>=\<close> in the key,
  and together with \<open>=\<close> and the line break at most 127 bytes, which is what \<open>snprintf\<close> does not cut off.\<close>

theorem config_roundtrip:
  assumes "config_ok cfg" and "pair_ok (key, value)"
  shows "\<exists>cfg' file again. SetConfigValue True (\<lambda>i. True) cfg key value = Some (cfg', Some file, 0) \<and>
    LoadFile name (Some file) = Some again \<and> config_ok cfg' \<and> config_ok again \<and>
    (\<forall>k. GetConfigName again k = (if cstr k = key then Some (Some value) else GetConfigName cfg k))"
proof -
  let ?cfg = "cfg\<lparr>config_map := map_assign key value (config_map cfg)\<rparr>"
  have ok: "config_ok ?cfg" by (rule assign_ok [OF assms])
  obtain bytes where written: "WriteFIle True (\<lambda>i. True) ?cfg = (Some bytes, 0)"
      "LoadFile name (Some bytes) = Some \<lparr>load_ok = Some True, config_map = config_map ?cfg, config_file = cstr name\<rparr>"
    using write_and_load [OF ok] by blast
  have plain: "cstr key = key" "cstr value = value" using assms(2) by (simp_all add: pair_ok_def word_ok_def cstr_id)
  have again: "config_ok \<lparr>load_ok = Some True, config_map = config_map ?cfg, config_file = cstr name\<rparr>"
    using ok by (simp add: config_ok_def)
  have "SetConfigValue True (\<lambda>i. True) cfg key value = Some (?cfg, Some bytes, 0)"
    using assms(1) written(1) by (simp add: SetConfigValue_def config_ok_def plain)
  with written(2) ok again GetConfigName_ok [OF again] GetConfigName_ok [OF assms(1)] show ?thesis
    by (simp add: map_of_assign)
qed

theorem config_roundtrip_witness:
  "\<exists>cfg' file again. SetConfigValue True (\<lambda>i. True)
       \<lparr>load_ok = Some True, config_map = [(''log_level'', ''1''), (''num_threads'', ''4'')], config_file = ''c''\<rparr> ''log_level'' ''2'' =
       Some (cfg', Some file, 0) \<and>
     LoadFile ''c'' (Some file) = Some again \<and> GetConfigName again ''log_level'' = Some (Some ''2'')"
proof -
  let ?cfg = "\<lparr>load_ok = Some True, config_map = [(''log_level'', ''1''), (''num_threads'', ''4'')], config_file = ''c''\<rparr>"
  have "''log_level'' < ''num_threads''" by code_simp
  then have "config_ok ?cfg" by (simp add: config_ok_def pair_ok_def word_ok_def)
  moreover have "pair_ok (''log_level'', ''2'')" by (simp add: pair_ok_def word_ok_def)
  moreover have "cstr ''log_level'' = ''log_level''" by (simp add: cstr_id)
  ultimately show ?thesis using config_roundtrip [of ?cfg "''log_level''" "''2''" "''c''"] by fastforce
qed

text \<open>A value with \<open>#\<close> is accepted and written, and only its beginning is read again.\<close>

lemma comment_is_lost:
  "\<exists>cfg' file again. SetConfigValue True (\<lambda>i. True) \<lparr>load_ok = Some True, config_map = [], config_file = ''c''\<rparr> ''k'' ''a#b'' =
     Some (cfg', Some file, 0) \<and>
   LoadFile ''c'' (Some file) = Some again \<and> GetConfigName again ''k'' = Some (Some ''a'')"
proof -
  note f = fgets_line [of "''k=a#b''" 255 "[]", simplified]
  have "load_lines (''k=a#b'' @ [LF]) [] = Some [(''k'', ''a'')]"
    by (simp add: load_lines.simps [of "CHR ''k'' # s" for s] load_lines.simps [of "[]"] f line_text_def cstr_id ParseLine_def TrimBlanks_def)
  then show ?thesis
    by (simp add: SetConfigValue_def map_assign_def WriteFIle_def pair_line_def cstr_id LoadFile_def GetConfigName_def)
qed

end
