(* ===== verification/Cache_Conn.thy ===== *)
theory Cache_Conn
  imports Context Config
begin

text \<open>
  The Redis connection of FileHub, the class \<open>CacheConn\<close> of \<open>redis/cache_pool.cc\<close>, on top of the
  hiredis client of \<open>Context\<close>: connecting on demand, and one function per Redis command.

  A run is \<open>None\<close> where the code has undefined behaviour (a NULL reply or a NULL string is read, a
  value does not fit the caller's buffer).  The value of \<open>time(NULL)\<close> is an argument.  The reply
  objects are on the heap of the context's reader; while there is no context they are kept in
  \<open>cc_heap\<close>, since they outlive it.
\<close>

section \<open>The connection\<close>

record CacheConn =
  server_ip :: string
  server_port :: int
  db_index :: int
  password :: string
  conn_pool_name :: string
  cc_context :: "rcontext option"
  last_connect_time :: "64 word"
  cc_heap :: heap

type_synonym 'a run = "(CacheConn \<times> world \<times> 'a) option"

definition new_CacheConn :: "string \<Rightarrow> int \<Rightarrow> int \<Rightarrow> string \<Rightarrow> string \<Rightarrow> heap \<Rightarrow> CacheConn" where
  "new_CacheConn ip port db pw name h =
     \<lparr>server_ip = ip, server_port = port mod 2 ^ 16, db_index = db mod 2 ^ 16, password = pw, conn_pool_name = name,
      cc_context = None, last_connect_time = 0, cc_heap = h\<rparr>"

text \<open>\<open>redisFree(context_); context_ = NULL;\<close>\<close>

definition DeInit :: "env \<Rightarrow> CacheConn \<Rightarrow> world \<Rightarrow> (CacheConn \<times> world) option" where
  "DeInit e k w =
     (case cc_context k of
        None \<Rightarrow> Some (k, w)
      | Some c \<Rightarrow> do {
          (w1, h) \<leftarrow> redisFree e (Some c) w (cc_heap k);
          Some (k\<lparr>cc_context := None, cc_heap := h\<rparr>, w1)
        })"

text \<open>The object a reply pointer refers to, and the release of a reply.\<close>

definition reply_heap :: "CacheConn \<Rightarrow> heap option" where
  "reply_heap k = do { c \<leftarrow> cc_context k; r \<leftarrow> c_reader c; Some (r_store r) }"

definition reply_at :: "heap \<Rightarrow> robj \<Rightarrow> redisReply option" where
  "reply_at h p = (case p of Ref a \<Rightarrow> heap_get h a | Tag _ \<Rightarrow> None)"

definition free_reply_of :: "CacheConn \<Rightarrow> robj \<Rightarrow> CacheConn option" where
  "free_reply_of k p =
     do {
       c \<leftarrow> cc_context k;
       r \<leftarrow> c_reader c;
       h \<leftarrow> freeReplyObject (r_store r) p;
       Some (k\<lparr>cc_context := Some (c\<lparr>c_reader := Some (r\<lparr>r_store := h\<rparr>)\<rparr>)\<rparr>)
     }"

type_synonym sender = "rcontext \<Rightarrow> world \<Rightarrow> (rcontext \<times> world \<times> robj option) option"

definition send :: "sender \<Rightarrow> CacheConn \<Rightarrow> world \<Rightarrow> robj option run" where
  "send cmd k w =
     do { c \<leftarrow> cc_context k; (c1, w1, q) \<leftarrow> cmd c w; Some (k\<lparr>cc_context := Some c1\<rparr>, w1, q) }"

text \<open>\<open>strncmp(reply->str, "OK", 2) == 0\<close>\<close>

definition says_OK :: "redisReply \<Rightarrow> bool option" where
  "says_OK r = map_option (\<lambda>s. take 2 (cstr s) = ''OK'') (rp_str r)"

definition authenticate :: "env \<Rightarrow> float_text \<Rightarrow> CacheConn \<Rightarrow> world \<Rightarrow> bool run" where
  "authenticate e fl k w =
     do {
       (k1, w1, q) \<leftarrow> send (\<lambda>c w. redisCommand e fl c w ''AUTH %s'' [CStr (password k)]) k w;
       case q of
         None \<Rightarrow> Some (k1, w1, False)
       | Some p \<Rightarrow> do {
           h \<leftarrow> reply_heap k1;
           r \<leftarrow> reply_at h p;
           k2 \<leftarrow> free_reply_of k1 p;
           Some (k2, w1, rp_type r \<noteq> REDIS_REPLY_ERROR)
         }
     }"

text \<open>The reply of a \<open>SELECT\<close> that fails is not freed.\<close>

definition select_db :: "env \<Rightarrow> float_text \<Rightarrow> CacheConn \<Rightarrow> world \<Rightarrow> int run" where
  "select_db e fl k w =
     do {
       (k1, w1, q) \<leftarrow> send (\<lambda>c w. redisCommand e fl c w ''SELECT %d'' [CInt 0]) k w;
       case q of
         None \<Rightarrow> Some (k1, w1, 2)
       | Some p \<Rightarrow> do {
           h \<leftarrow> reply_heap k1;
           r \<leftarrow> reply_at h p;
           ok \<leftarrow> (if rp_type r = REDIS_REPLY_STATUS then says_OK r else Some False);
           if ok then do { k2 \<leftarrow> free_reply_of k1 p; Some (k2, w1, 0) } else Some (k1, w1, 2)
         }
     }"

definition connect_timeout :: timeval where
  "connect_timeout = \<lparr>tv_sec = 0, tv_usec = 1000000\<rparr>"

definition Init :: "env \<Rightarrow> float_text \<Rightarrow> 64 word \<Rightarrow> CacheConn \<Rightarrow> world \<Rightarrow> int run" where
  "Init e fl now k w =
     (if cc_context k \<noteq> None then Some (k, w, 0)
      else if now < last_connect_time k + 1 then Some (k, w, 1)
      else do {
        let k1 = k\<lparr>last_connect_time := now\<rparr>;
        (ctx, w1) \<leftarrow> redisConnectWithTimeout e (cc_heap k1) w (server_ip k1) (server_port k1) connect_timeout;
        case ctx of
          None \<Rightarrow> Some (k1, w1, 1)
        | Some c \<Rightarrow>
            if c_err c \<noteq> 0 then do {
              (k2, w2) \<leftarrow> DeInit e (k1\<lparr>cc_context := Some c\<rparr>) w1;
              Some (k2, w2, 1)
            }
            else do {
              (k2, w2, ok) \<leftarrow>
                (if password k1 \<noteq> [] then authenticate e fl (k1\<lparr>cc_context := Some c\<rparr>) w1
                 else Some (k1\<lparr>cc_context := Some c\<rparr>, w1, True));
              if \<not> ok then Some (k2, w2, -1) else select_db e fl k2 w2
            }
      })"

section \<open>One command\<close>

text \<open>
  The shape the functions share: connect if need be, send the command, give up the connection if
  there is no reply, and otherwise take the result out of the reply and free it.  \<open>dflt\<close> is what the
  function returns when it has no connection or no reply.
\<close>

definition exchange ::
  "env \<Rightarrow> float_text \<Rightarrow> 64 word \<Rightarrow> sender \<Rightarrow> (heap \<Rightarrow> redisReply \<Rightarrow> 'a option) \<Rightarrow> 'a \<Rightarrow> CacheConn \<Rightarrow> world \<Rightarrow> 'a run" where
  "exchange e fl now cmd result dflt k w =
     do {
       (k1, w1, failed) \<leftarrow> Init e fl now k w;
       if failed \<noteq> 0 then Some (k1, w1, dflt)
       else do {
         (k2, w2, q) \<leftarrow> send cmd k1 w1;
         case q of
           None \<Rightarrow> do { (k3, w3) \<leftarrow> DeInit e k2 w2; Some (k3, w3, dflt) }
         | Some p \<Rightarrow> do {
             h \<leftarrow> reply_heap k2;
             r \<leftarrow> reply_at h p;
             v \<leftarrow> result h r;
             k3 \<leftarrow> free_reply_of k2 p;
             Some (k3, w2, v)
           }
       }
     }"

text \<open>The functions on sorted sets read the reply without looking whether there is one.\<close>

definition exchange_unchecked ::
  "env \<Rightarrow> float_text \<Rightarrow> 64 word \<Rightarrow> sender \<Rightarrow> (heap \<Rightarrow> redisReply \<Rightarrow> 'a option) \<Rightarrow> 'a \<Rightarrow> CacheConn \<Rightarrow> world \<Rightarrow> 'a run" where
  "exchange_unchecked e fl now cmd result dflt k w =
     do {
       (k1, w1, failed) \<leftarrow> Init e fl now k w;
       if failed \<noteq> 0 then Some (k1, w1, dflt)
       else do {
         (k2, w2, q) \<leftarrow> send cmd k1 w1;
         p \<leftarrow> q;
         h \<leftarrow> reply_heap k2;
         r \<leftarrow> reply_at h p;
         v \<leftarrow> result h r;
         k3 \<leftarrow> free_reply_of k2 p;
         Some (k3, w2, v)
       }
     }"

text \<open>\<open>string(reply->str, reply->len)\<close>, and the results the functions take from a reply.\<close>

definition reply_bytes :: "redisReply \<Rightarrow> string option" where
  "reply_bytes r =
     (case rp_str r of
        None \<Rightarrow> if rp_len r = 0 then Some [] else None
      | Some s \<Rightarrow> if rp_len r \<le> length s then Some (take (rp_len r) s) else None)"

definition string_result :: "heap \<Rightarrow> redisReply \<Rightarrow> string option" where
  "string_result h r = (if rp_type r = REDIS_REPLY_STRING then reply_bytes r else Some [])"

definition text_result :: "heap \<Rightarrow> redisReply \<Rightarrow> string option" where
  "text_result h r = reply_bytes r"

definition integer_result :: "heap \<Rightarrow> redisReply \<Rightarrow> int option" where
  "integer_result h r = Some (rp_integer r)"

definition nonzero_result :: "heap \<Rightarrow> redisReply \<Rightarrow> bool option" where
  "nonzero_result h r = Some (rp_integer r \<noteq> 0)"

text \<open>The elements of an array, each of which must be there.\<close>

fun elements_at :: "heap \<Rightarrow> nat option list \<Rightarrow> redisReply list option" where
  "elements_at h [] = Some []"
| "elements_at h (None # es) = None"
| "elements_at h (Some a # es) = do { r \<leftarrow> heap_get h a; rs \<leftarrow> elements_at h es; Some (r # rs) }"

definition elements :: "heap \<Rightarrow> redisReply \<Rightarrow> redisReply list option" where
  "elements h r =
     (if rp_elements r = 0 then Some []
      else do { es \<leftarrow> rp_element r; if rp_elements r \<le> length es then elements_at h (take (rp_elements r) es) else None })"

fun all_bytes :: "redisReply list \<Rightarrow> string list option" where
  "all_bytes [] = Some []"
| "all_bytes (r # rs) = do { b \<leftarrow> reply_bytes r; bs \<leftarrow> all_bytes rs; Some (b # bs) }"

section \<open>Keys and strings\<close>

definition conn_Get :: "env \<Rightarrow> float_text \<Rightarrow> 64 word \<Rightarrow> string \<Rightarrow> CacheConn \<Rightarrow> world \<Rightarrow> string run" where
  "conn_Get e fl now key =
     exchange e fl now (\<lambda>c w. redisCommand e fl c w ''GET %s'' [CStr key]) string_result []"

definition conn_Set :: "env \<Rightarrow> float_text \<Rightarrow> 64 word \<Rightarrow> string \<Rightarrow> string \<Rightarrow> CacheConn \<Rightarrow> world \<Rightarrow> string run" where
  "conn_Set e fl now key value =
     exchange e fl now (\<lambda>c w. redisCommand e fl c w ''SET %s %s'' [CStr key, CStr value]) text_result []"

definition conn_SetEx ::
  "env \<Rightarrow> float_text \<Rightarrow> 64 word \<Rightarrow> string \<Rightarrow> int \<Rightarrow> string \<Rightarrow> CacheConn \<Rightarrow> world \<Rightarrow> string run" where
  "conn_SetEx e fl now key timeout value =
     exchange e fl now (\<lambda>c w. redisCommand e fl c w ''SETEX %s %d %s'' [CStr key, CInt timeout, CStr value]) text_result []"

text \<open>\<open>MGet\<close> passes the keys as part of the format.\<close>

fun key_list :: "string list \<Rightarrow> string" where
  "key_list [] = []"
| "key_list [k] = k"
| "key_list (k # ks) = k @ '' '' @ key_list ks"

fun assign_found :: "string list \<Rightarrow> redisReply list \<Rightarrow> config \<Rightarrow> config option" where
  "assign_found keys [] m = Some m"
| "assign_found keys (r # rs) m =
     (if rp_type r = REDIS_REPLY_STRING then
        (case (keys, rp_str r) of
           (k # ks, Some s) \<Rightarrow> assign_found ks rs (map_assign k (cstr s) m)
         | _ \<Rightarrow> None)
      else assign_found (tl keys) rs m)"

definition found_result :: "string list \<Rightarrow> config \<Rightarrow> heap \<Rightarrow> redisReply \<Rightarrow> (bool \<times> config) option" where
  "found_result keys m h r =
     (if rp_type r = REDIS_REPLY_ARRAY then do { rs \<leftarrow> elements h r; m1 \<leftarrow> assign_found keys rs m; Some (True, m1) }
      else Some (True, m))"

definition conn_MGet ::
  "env \<Rightarrow> float_text \<Rightarrow> 64 word \<Rightarrow> string list \<Rightarrow> config \<Rightarrow> CacheConn \<Rightarrow> world \<Rightarrow> (bool \<times> config) run" where
  "conn_MGet e fl now keys m k w =
     (if key_list keys = [] then do { (k1, w1, _) \<leftarrow> Init e fl now k w; Some (k1, w1, False, m) }
      else exchange e fl now (\<lambda>c w. redisCommand e fl c w (''MGET '' @ key_list keys) []) (found_result keys m) (False, m) k w)"

definition conn_IsExists :: "env \<Rightarrow> float_text \<Rightarrow> 64 word \<Rightarrow> string \<Rightarrow> CacheConn \<Rightarrow> world \<Rightarrow> bool run" where
  "conn_IsExists e fl now key =
     exchange e fl now (\<lambda>c w. redisCommand e fl c w ''EXISTS %s'' [CStr key]) nonzero_result False"

definition conn_Del :: "env \<Rightarrow> float_text \<Rightarrow> 64 word \<Rightarrow> string \<Rightarrow> CacheConn \<Rightarrow> world \<Rightarrow> int run" where
  "conn_Del e fl now key =
     exchange e fl now (\<lambda>c w. redisCommand e fl c w ''DEL %s'' [CStr key]) integer_result 0"

text \<open>The status and the value the caller's variable then has; \<open>Decr\<close> leaves that as it is on failure.\<close>

definition count_result :: "heap \<Rightarrow> redisReply \<Rightarrow> (int \<times> int) option" where
  "count_result h r = Some (0, rp_integer r)"

definition conn_Incr :: "env \<Rightarrow> float_text \<Rightarrow> 64 word \<Rightarrow> string \<Rightarrow> CacheConn \<Rightarrow> world \<Rightarrow> (int \<times> int) run" where
  "conn_Incr e fl now key =
     exchange e fl now (\<lambda>c w. redisCommand e fl c w ''INCR %s'' [CStr key]) count_result (-1, 0)"

definition conn_Decr :: "env \<Rightarrow> float_text \<Rightarrow> 64 word \<Rightarrow> string \<Rightarrow> int \<Rightarrow> CacheConn \<Rightarrow> world \<Rightarrow> (int \<times> int) run" where
  "conn_Decr e fl now key value =
     exchange e fl now (\<lambda>c w. redisCommand e fl c w ''DECR %s'' [CStr key]) count_result (-1, value)"

definition conn_IncrBy :: "env \<Rightarrow> float_text \<Rightarrow> 64 word \<Rightarrow> string \<Rightarrow> int \<Rightarrow> CacheConn \<Rightarrow> world \<Rightarrow> int run" where
  "conn_IncrBy e fl now key value =
     exchange e fl now (\<lambda>c w. redisCommand e fl c w ''INCRBY %s %ld'' [CStr key, CLong value]) integer_result (-1)"

section \<open>Hashes\<close>

definition conn_Hdel :: "env \<Rightarrow> float_text \<Rightarrow> 64 word \<Rightarrow> string \<Rightarrow> string \<Rightarrow> CacheConn \<Rightarrow> world \<Rightarrow> int run" where
  "conn_Hdel e fl now key field =
     exchange e fl now (\<lambda>c w. redisCommand e fl c w ''HDEL %s %s'' [CStr key, CStr field]) integer_result (-1)"

definition conn_Hget :: "env \<Rightarrow> float_text \<Rightarrow> 64 word \<Rightarrow> string \<Rightarrow> string \<Rightarrow> CacheConn \<Rightarrow> world \<Rightarrow> string run" where
  "conn_Hget e fl now key field =
     exchange e fl now (\<lambda>c w. redisCommand e fl c w ''HGET %s %s'' [CStr key, CStr field]) string_result []"

definition VALUES_ID_SIZE :: nat where "VALUES_ID_SIZE = 1024"

text \<open>\<open>Hget\<close> with a buffer of \<open>cap\<close> bytes for the value: the status and, on success, the string then
  in the buffer.  It keeps the connection when there is no reply.\<close>

definition conn_Hget_buf ::
  "env \<Rightarrow> float_text \<Rightarrow> 64 word \<Rightarrow> string \<Rightarrow> string \<Rightarrow> nat \<Rightarrow> CacheConn \<Rightarrow> world \<Rightarrow> (int \<times> string option) run" where
  "conn_Hget_buf e fl now key field cap k w =
     do {
       (k1, w1, failed) \<leftarrow> Init e fl now k w;
       if failed \<noteq> 0 then Some (k1, w1, -1, None)
       else do {
         (k2, w2, q) \<leftarrow> send (\<lambda>c w. redisCommand e fl c w ''hget %s %s'' [CStr key, CStr field]) k1 w1;
         case q of
           None \<Rightarrow> Some (k2, w2, -1, None)
         | Some p \<Rightarrow> do {
             h \<leftarrow> reply_heap k2;
             r \<leftarrow> reply_at h p;
             k3 \<leftarrow> free_reply_of k2 p;
             if rp_type r \<noteq> REDIS_REPLY_STRING then Some (k3, w2, -1, None)
             else do {
               s \<leftarrow> rp_str r;
               let len = min (rp_len r) VALUES_ID_SIZE;
               if len < cap \<and> len \<le> length s then Some (k3, w2, 0, Some (cstr (take len s))) else None
             }
           }
       }
     }"

fun insert_pairs :: "string list \<Rightarrow> config \<Rightarrow> config" where
  "insert_pairs (f # v # bs) m = insert_pairs bs (map_insert f v m)"
| "insert_pairs _ m = m"

definition pairs_result :: "config \<Rightarrow> heap \<Rightarrow> redisReply \<Rightarrow> (bool \<times> config) option" where
  "pairs_result m h r =
     (if rp_type r = REDIS_REPLY_ARRAY \<and> rp_elements r mod 2 = 0
      then do { rs \<leftarrow> elements h r; bs \<leftarrow> all_bytes rs; Some (True, insert_pairs bs m) }
      else Some (True, m))"

definition conn_HgetAll ::
  "env \<Rightarrow> float_text \<Rightarrow> 64 word \<Rightarrow> string \<Rightarrow> config \<Rightarrow> CacheConn \<Rightarrow> world \<Rightarrow> (bool \<times> config) run" where
  "conn_HgetAll e fl now key m =
     exchange e fl now (\<lambda>c w. redisCommand e fl c w ''HGETALL %s'' [CStr key]) (pairs_result m) (False, m)"

definition conn_Hset ::
  "env \<Rightarrow> float_text \<Rightarrow> 64 word \<Rightarrow> string \<Rightarrow> string \<Rightarrow> string \<Rightarrow> CacheConn \<Rightarrow> world \<Rightarrow> int run" where
  "conn_Hset e fl now key field value =
     exchange e fl now (\<lambda>c w. redisCommand e fl c w ''HSET %s %s %s'' [CStr key, CStr field, CStr value]) integer_result (-1)"

definition conn_HincrBy ::
  "env \<Rightarrow> float_text \<Rightarrow> 64 word \<Rightarrow> string \<Rightarrow> string \<Rightarrow> int \<Rightarrow> CacheConn \<Rightarrow> world \<Rightarrow> int run" where
  "conn_HincrBy e fl now key field value =
     exchange e fl now (\<lambda>c w. redisCommand e fl c w ''HINCRBY %s %s %ld'' [CStr key, CStr field, CLong value]) integer_result (-1)"

definition hmset_argv :: "string \<Rightarrow> config \<Rightarrow> string list" where
  "hmset_argv key hash = [''HMSET'', cstr key] @ concat (map (\<lambda>(f, v). [cstr f, cstr v]) hash)"

definition conn_Hmset ::
  "env \<Rightarrow> float_text \<Rightarrow> 64 word \<Rightarrow> string \<Rightarrow> config \<Rightarrow> CacheConn \<Rightarrow> world \<Rightarrow> string run" where
  "conn_Hmset e fl now key hash =
     exchange e fl now
       (\<lambda>c w. redisCommandArgv e c w (s32 (int (length hash * 2 + 2))) (hmset_argv key hash) None) text_result []"

definition values_result :: "string list \<Rightarrow> heap \<Rightarrow> redisReply \<Rightarrow> (bool \<times> string list) option" where
  "values_result acc h r =
     (if rp_type r = REDIS_REPLY_ARRAY then do { rs \<leftarrow> elements h r; bs \<leftarrow> all_bytes rs; Some (True, acc @ bs) }
      else Some (True, acc))"

definition conn_Hmget ::
  "env \<Rightarrow> float_text \<Rightarrow> 64 word \<Rightarrow> string \<Rightarrow> string list \<Rightarrow> string list \<Rightarrow> CacheConn \<Rightarrow> world \<Rightarrow> (bool \<times> string list) run" where
  "conn_Hmget e fl now key flds acc =
     exchange e fl now
       (\<lambda>c w. redisCommandArgv e c w (s32 (int (length flds + 2))) (''HMGET'' # cstr key # map cstr flds) None)
       (values_result acc) (False, acc)"

section \<open>Lists\<close>

definition conn_Lpush :: "env \<Rightarrow> float_text \<Rightarrow> 64 word \<Rightarrow> string \<Rightarrow> string \<Rightarrow> CacheConn \<Rightarrow> world \<Rightarrow> int run" where
  "conn_Lpush e fl now key value =
     exchange e fl now (\<lambda>c w. redisCommand e fl c w ''LPUSH %s %s'' [CStr key, CStr value]) integer_result (-1)"

definition conn_Rpush :: "env \<Rightarrow> float_text \<Rightarrow> 64 word \<Rightarrow> string \<Rightarrow> string \<Rightarrow> CacheConn \<Rightarrow> world \<Rightarrow> int run" where
  "conn_Rpush e fl now key value =
     exchange e fl now (\<lambda>c w. redisCommand e fl c w ''RPUSH %s %s'' [CStr key, CStr value]) integer_result (-1)"

definition conn_Llen :: "env \<Rightarrow> float_text \<Rightarrow> 64 word \<Rightarrow> string \<Rightarrow> CacheConn \<Rightarrow> world \<Rightarrow> int run" where
  "conn_Llen e fl now key =
     exchange e fl now (\<lambda>c w. redisCommand e fl c w ''LLEN %s'' [CStr key]) integer_result (-1)"

text \<open>\<open>Lrange\<close> passes values of type \<open>long\<close> for \<open>%d\<close>, which is undefined.\<close>

definition conn_Lrange ::
  "env \<Rightarrow> float_text \<Rightarrow> 64 word \<Rightarrow> string \<Rightarrow> int \<Rightarrow> int \<Rightarrow> string list \<Rightarrow> CacheConn \<Rightarrow> world \<Rightarrow> (bool \<times> string list) run" where
  "conn_Lrange e fl now key start end_pos acc =
     exchange e fl now (\<lambda>c w. redisCommand e fl c w ''LRANGE %s %d %d'' [CStr key, CLong start, CLong end_pos])
       (values_result acc) (False, acc)"

section \<open>Sorted sets\<close>

definition int_result :: "heap \<Rightarrow> redisReply \<Rightarrow> int option" where
  "int_result h r = Some (if rp_type r = REDIS_REPLY_INTEGER then s32 (rp_integer r) else -1)"

definition conn_ZsetExist :: "env \<Rightarrow> float_text \<Rightarrow> 64 word \<Rightarrow> string \<Rightarrow> string \<Rightarrow> CacheConn \<Rightarrow> world \<Rightarrow> int run" where
  "conn_ZsetExist e fl now key member =
     exchange_unchecked e fl now
       (\<lambda>c w. redisCommand e fl c w ''zlexcount %s [%s [%s'' [CStr key, CStr member, CStr member]) int_result (-1)"

definition done_result :: "heap \<Rightarrow> redisReply \<Rightarrow> int option" where
  "done_result h r = Some (if rp_type r = REDIS_REPLY_INTEGER then 0 else -1)"

definition conn_ZsetAdd ::
  "env \<Rightarrow> float_text \<Rightarrow> 64 word \<Rightarrow> string \<Rightarrow> int \<Rightarrow> string \<Rightarrow> CacheConn \<Rightarrow> world \<Rightarrow> int run" where
  "conn_ZsetAdd e fl now key score member =
     exchange_unchecked e fl now
       (\<lambda>c w. redisCommand e fl c w ''ZADD %s %ld %s'' [CStr key, CLong score, CStr member]) done_result (-1)"

definition conn_ZsetZrem :: "env \<Rightarrow> float_text \<Rightarrow> 64 word \<Rightarrow> string \<Rightarrow> string \<Rightarrow> CacheConn \<Rightarrow> world \<Rightarrow> int run" where
  "conn_ZsetZrem e fl now key member =
     exchange_unchecked e fl now
       (\<lambda>c w. redisCommand e fl c w ''ZREM %s %s'' [CStr key, CStr member]) done_result (-1)"

text \<open>\<open>ZsetIncr\<close> compares the text of the reply with \<open>OK\<close>, and returns 0 when it is not connected.\<close>

definition ok_result :: "heap \<Rightarrow> redisReply \<Rightarrow> int option" where
  "ok_result h r = map_option (\<lambda>s. if cstr s = ''OK'' then 0 else -1) (rp_str r)"

definition conn_ZsetIncr :: "env \<Rightarrow> float_text \<Rightarrow> 64 word \<Rightarrow> string \<Rightarrow> string \<Rightarrow> CacheConn \<Rightarrow> world \<Rightarrow> int run" where
  "conn_ZsetIncr e fl now key member =
     exchange_unchecked e fl now
       (\<lambda>c w. redisCommand e fl c w ''ZINCRBY %s 1 %s'' [CStr key, CStr member]) ok_result 0"

definition conn_ZsetZcard :: "env \<Rightarrow> float_text \<Rightarrow> 64 word \<Rightarrow> string \<Rightarrow> CacheConn \<Rightarrow> world \<Rightarrow> int run" where
  "conn_ZsetZcard e fl now key =
     exchange_unchecked e fl now (\<lambda>c w. redisCommand e fl c w ''ZCARD %s'' [CStr key]) int_result (-1)"

text \<open>
  \<open>ZsetZrevrange\<close>: the status, \<open>get_num\<close> if it was set, and the rows of the table \<open>values\<close> as strings;
  the table has \<open>cap\<close> rows.  The number of elements is compared, as a \<open>size_t\<close>, with the \<open>int\<close>
  \<open>count\<close>.
\<close>

definition rows_result :: "int \<Rightarrow> int \<Rightarrow> nat \<Rightarrow> heap \<Rightarrow> redisReply \<Rightarrow> (int \<times> int option \<times> string list) option" where
  "rows_result from_pos end_pos cap h r =
     (if rp_type r \<noteq> REDIS_REPLY_ARRAY then Some (-1, None, [])
      else
        let count = s32 (end_pos - from_pos + 1);
            max_count = (if rp_elements r > nat (count mod 2 ^ 64) then count else s32 (int (rp_elements r)))
        in do {
             rs \<leftarrow> (if max_count \<le> 0 then Some [] else elements h (r\<lparr>rp_elements := nat max_count\<rparr>));
             if length rs \<le> cap \<and> None \<notin> set (map rp_str rs)
             then Some (0, Some max_count, map (\<lambda>r. take (VALUES_ID_SIZE - 1) (cstr (the (rp_str r)))) rs)
             else None
           })"

definition conn_ZsetZrevrange ::
  "env \<Rightarrow> float_text \<Rightarrow> 64 word \<Rightarrow> string \<Rightarrow> int \<Rightarrow> int \<Rightarrow> nat \<Rightarrow> CacheConn \<Rightarrow> world \<Rightarrow>
   (int \<times> int option \<times> string list) run" where
  "conn_ZsetZrevrange e fl now key from_pos end_pos cap =
     exchange_unchecked e fl now
       (\<lambda>c w. redisCommand e fl c w ''ZREVRANGE %s %d %d'' [CStr key, CInt from_pos, CInt end_pos])
       (rows_result from_pos end_pos cap) (-1, None, [])"

definition score_result :: "heap \<Rightarrow> redisReply \<Rightarrow> int option" where
  "score_result h r =
     (if rp_type r \<noteq> REDIS_REPLY_STRING then Some (-1) else map_option (\<lambda>s. atoi (cstr s)) (rp_str r))"

definition conn_ZsetGetScore :: "env \<Rightarrow> float_text \<Rightarrow> 64 word \<Rightarrow> string \<Rightarrow> string \<Rightarrow> CacheConn \<Rightarrow> world \<Rightarrow> int run" where
  "conn_ZsetGetScore e fl now key member =
     exchange_unchecked e fl now
       (\<lambda>c w. redisCommand e fl c w ''ZSCORE %s %s'' [CStr key, CStr member]) score_result (-1)"

text \<open>\<open>FlushDb\<close> expects a bulk string; a status reply is not taken for success.\<close>

definition flush_result :: "heap \<Rightarrow> redisReply \<Rightarrow> bool option" where
  "flush_result h r = (if rp_type r = REDIS_REPLY_STRING then says_OK r else Some False)"

definition conn_FlushDb :: "env \<Rightarrow> float_text \<Rightarrow> 64 word \<Rightarrow> CacheConn \<Rightarrow> world \<Rightarrow> bool run" where
  "conn_FlushDb e fl now = exchange e fl now (\<lambda>c w. redisCommand e fl c w ''FLUSHDB'' []) flush_result False"

section \<open>A command and its answer\<close>

text \<open>A connection with nothing under way, and what its server sends up to the \<open>n\<close>-th read: one reply.\<close>

definition idle :: "env \<Rightarrow> CacheConn \<Rightarrow> int \<Rightarrow> bool" where
  "idle e k fd \<longleftrightarrow> (\<exists>c. cc_context k = Some c \<and> conn_ok e c [] \<and> queued c = [] \<and> c_fd c = fd \<and> resting e c)"

definition buffered :: "CacheConn \<Rightarrow> nat" where
  "buffered k = (case cc_context k of None \<Rightarrow> 0 | Some c \<Rightarrow> reader_len c)"

definition answers :: "env \<Rightarrow> int \<Rightarrow> (nat \<Rightarrow> string) \<Rightarrow> world \<Rightarrow> nat \<Rightarrow> CacheConn \<Rightarrow> reply \<Rightarrow> bool" where
  "answers e fd chunk w n k t \<longleftrightarrow> serves e fd chunk \<and> reads fd (w_events w) \<le> n \<and>
     buffered k + length (incoming chunk (reads fd (w_events w)) n) < 2 ^ 31 \<and>
     parse [] (incoming chunk (reads fd (w_events w)) n) = PDone t []"

definition good_env :: "env \<Rightarrow> bool" where
  "good_env e \<longleftrightarrow> malloc_spec (e_malloc e) \<and> malloc_total (e_malloc e) \<and> writes_ok e \<and> eager_writes e"

lemma incoming_empty: "serves e fd chunk \<Longrightarrow> j \<le> n \<Longrightarrow> incoming chunk j n = [] \<Longrightarrow> j = n"
  using incoming_step [of j n chunk] by (cases "j < n") (auto simp: serves_def)

text \<open>What a command leaves: its text sent, the answer taken in.\<close>

definition sent :: "int \<Rightarrow> string \<Rightarrow> nat \<Rightarrow> world \<Rightarrow> world \<Rightarrow> bool" where
  "sent fd text n w w' \<longleftrightarrow> accepted fd (w_events w') = accepted fd (w_events w) @ text \<and> reads fd (w_events w') = n"

definition takes_reply :: "env \<Rightarrow> rcontext \<Rightarrow> nat \<Rightarrow> reply \<Rightarrow> string \<Rightarrow> world \<Rightarrow> (rcontext \<times> world \<times> robj option) option \<Rightarrow> bool" where
  "takes_reply e c n t text w res \<longleftrightarrow> (\<exists>c' w' p r. res = Some (c', w', Some p) \<and> c_reader c' = Some r \<and>
     answered e r p t [] \<and> conn_ok e c' [] \<and> queued c' = [] \<and> c_fd c' = c_fd c \<and> sent (c_fd c) text n w w')"

lemma block_for_reply:
  assumes g: "good_env e" and c: "conn_ok e c []" and a: "serves e (c_fd c) chunk" "reads (c_fd c) (w_events w) \<le> n"
      "reader_len c + length (incoming chunk (reads (c_fd c) (w_events w)) n) < 2 ^ 31"
      "parse [] (incoming chunk (reads (c_fd c) (w_events w)) n) = PDone t []"
  shows "takes_reply e c n t (queued c) w (redisBlockForReply e c w)"
proof -
  have m: "malloc_spec (e_malloc e)" "malloc_total (e_malloc e)" "writes_ok e" "eager_writes e"
    using g by (simp_all add: good_env_def)
  from redisGetReply_ok [OF m a(1) c refl a(2,3)] a(4) obtain c' w' q j u' where
    r: "redisGetReply e c w = Some (c', w', REDIS_OK, q)" "gave e c' q t u'" "conn_ok e c' u'" "c_fd c' = c_fd c"
      "reads (c_fd c) (w_events w') = j" "j \<le> n" "[] = u' @ incoming chunk j n"
      "accepted (c_fd c) (w_events w') @ queued c' = accepted (c_fd c) (w_events w) @ queued c" "queued c' = []"
    by (auto simp del: append_is_Nil_conv)
  have "u' = []" "j = n" using r(6,7) incoming_empty [OF a(1)] by auto
  moreover have "has (c_flags c) REDIS_BLOCK" using c by (simp add: conn_ok_def)
  ultimately show ?thesis
    using r unfolding takes_reply_def redisBlockForReply_def gave_def sent_def by auto
qed

lemma redisCommand_answered:
  assumes g: "good_env e" and c: "conn_ok e c []" "queued c = []" and a: "answers e (c_fd c) chunk w n k t" "cc_context k = Some c"
    and ws: "format_words fl (cstr fmt) ap [] False = Some (Some ws)" "length (command_text ws) < 2 ^ 31 - 1"
  shows "takes_reply e c n t (command_text ws) w (redisCommand e fl c w fmt ap)"
proof -
  have m: "malloc_spec (e_malloc e)" "malloc_total (e_malloc e)" using g by (simp_all add: good_env_def)
  from redisvAppendCommand_ok [OF m c(1) ws(1), of w] c(2) ws(2) obtain s where
    s: "redisvAppendCommand e fl c w fmt ap = Some (c\<lparr>c_obuf := Some s\<rparr>, REDIS_OK)"
      "conn_ok e (c\<lparr>c_obuf := Some s\<rparr>) []" "content s = command_text ws"
    by auto
  have "takes_reply e (c\<lparr>c_obuf := Some s\<rparr>) n t (queued (c\<lparr>c_obuf := Some s\<rparr>)) w (redisBlockForReply e (c\<lparr>c_obuf := Some s\<rparr>) w)"
    using a by (intro block_for_reply [OF g s(2), of chunk]) (auto simp: answers_def buffered_def reader_len_def)
  then show ?thesis
    using s by (simp add: redisCommand_def redisvCommand_def takes_reply_def queued_def)
qed

lemma send_answered:
  assumes "takes_reply e c n t text w (cmd c w)" and "cc_context k = Some c"
  shows "\<exists>k' w' p h. send cmd k w = Some (k', w', Some p) \<and> reply_heap k' = Some h \<and> in_heap h p t \<and>
    sent (c_fd c) text n w w' \<and> (\<exists>k''. free_reply_of k' p = Some k'' \<and> idle e k'' (c_fd c))"
proof -
  obtain c' w' p r where r: "cmd c w = Some (c', w', Some p)" "c_reader c' = Some r" "answered e r p t []"
      "conn_ok e c' []" "queued c' = []" "c_fd c' = c_fd c" "sent (c_fd c) text n w w'"
    using assms(1) unfolding takes_reply_def by blast
  have "c_err c' = 0" using r(4) by (simp add: conn_ok_def receiving_def)
  from answered_free [OF r(3) this] obtain h where h: "freeReplyObject (r_store r) p = Some h"
    "receiving e (c'\<lparr>c_reader := Some (r\<lparr>r_store := h\<rparr>)\<rparr>) []"
    by blast
  have "conn_ok e (c'\<lparr>c_reader := Some (r\<lparr>r_store := h\<rparr>)\<rparr>) []"
    using r(4) h(2) by (simp add: conn_ok_def obuf_ok_def)
  moreover have "resting e (c'\<lparr>c_reader := Some (r\<lparr>r_store := h\<rparr>)\<rparr>)"
    using r(3) by (cases "r_buf r") (simp_all add: resting_def answered_def replies.between_store pending_def)
  ultimately show ?thesis
    using r h assms(2) by (auto simp: send_def reply_heap_def free_reply_of_def idle_def queued_def answered_def)
qed

section \<open>Replies and results\<close>

definition root_cell :: "nat \<Rightarrow> reply \<Rightarrow> redisReply" where
  "root_cell a t = (case t of RArr n ts \<Rightarrow> array_cell n (addrs (Suc a) ts) | _ \<Rightarrow> leaf_cell t)"

fun root_cells :: "nat \<Rightarrow> reply list \<Rightarrow> redisReply list" where
  "root_cells a [] = []"
| "root_cells a (t # ts) = root_cell a t # root_cells (a + tree_size t) ts"

lemma layout_root: "\<exists>cs. layout a t = Some (root_cell a t) # cs"
  by (cases t) (simp_all add: root_cell_def)

lemma elements_at_layouts:
  "elements_at (pre @ layouts (length pre) ts @ post) (map Some (addrs (length pre) ts)) = Some (root_cells (length pre) ts)"
proof (induction ts arbitrary: pre)
  case (Cons t ts)
  obtain cs where l: "layout (length pre) t = Some (root_cell (length pre) t) # cs" using layout_root by blast
  have "heap_get (pre @ layout (length pre) t @ layouts (length pre + tree_size t) ts @ post) (length pre)
      = Some (root_cell (length pre) t)"
    using l by (simp add: heap_get_at)
  moreover have "elements_at ((pre @ layout (length pre) t) @ layouts (length (pre @ layout (length pre) t)) ts @ post)
        (map Some (addrs (length (pre @ layout (length pre) t)) ts))
      = Some (root_cells (length (pre @ layout (length pre) t)) ts)"
    by (rule Cons.IH)
  ultimately show ?case by simp
qed simp

text \<open>The object of a reply in the heap, and the objects of its elements.\<close>

lemma in_heap_root:
  assumes "in_heap h p t"
  shows "\<exists>a. reply_at h p = Some (root_cell a t) \<and>
    (\<forall>n ts. t = RArr n ts \<longrightarrow> length ts = n \<and> (\<forall>m \<le> n. elements h ((root_cell a t)\<lparr>rp_elements := m\<rparr>) = Some (root_cells (Suc a) (take m ts))))"
proof -
  obtain pre where p: "h = pre @ layout (length pre) t" "p = Ref (length pre)" "full t" using assms by (auto simp: in_heap_def)
  let ?a = "length pre"
  obtain cs where "layout ?a t = Some (root_cell ?a t) # cs" using layout_root by blast
  then have at: "reply_at h p = Some (root_cell ?a t)" using p by (simp add: reply_at_def heap_get_at)
  have el: "elements h ((root_cell ?a t)\<lparr>rp_elements := m\<rparr>) = Some (root_cells (Suc ?a) (take m ts))"
    if t: "t = RArr n ts" and m: "m \<le> n" for n ts m
  proof -
    have n: "length ts = n" using p(3) t by simp
    have h: "h = (pre @ [Some (root_cell ?a t)]) @ layouts (Suc ?a) (take m ts) @
        layouts (Suc ?a + sum_list (map tree_size (take m ts))) (drop m ts)"
      using p(1) t layouts_append [of "Suc ?a" "take m ts" "drop m ts"] by (simp add: root_cell_def)
    have "addrs (Suc ?a) ts = addrs (Suc ?a) (take m ts) @ addrs (Suc ?a + sum_list (map tree_size (take m ts))) (drop m ts)"
      using addrs_append [of "Suc ?a" "take m ts" "drop m ts"] by simp
    then have "take m (map Some (addrs (Suc ?a) ts)) = map Some (addrs (Suc ?a) (take m ts))"
      using m n by (simp add: take_map)
    then show ?thesis
      using m n t elements_at_layouts [of "pre @ [Some (root_cell ?a t)]" "take m ts"
          "layouts (Suc ?a + sum_list (map tree_size (take m ts))) (drop m ts)"] h
      by (cases "m = 0") (simp_all add: elements_def root_cell_def array_cell_def)
  qed
  show ?thesis using at el p(3) by (intro exI [of _ ?a]) auto
qed

lemma root_cell_leaf [simp]:
  "root_cell a (RStr t s) = (new_reply t)\<lparr>rp_len := length s, rp_str := Some (s @ [NUL])\<rparr>"
  "root_cell a (RInt v) = (new_reply REDIS_REPLY_INTEGER)\<lparr>rp_integer := v\<rparr>"
  "root_cell a RNil = new_reply REDIS_REPLY_NIL"
  by (simp_all add: root_cell_def)

fun reply_text :: "reply \<Rightarrow> string" where
  "reply_text (RStr t s) = s"
| "reply_text _ = []"

fun reply_string :: "reply \<Rightarrow> string" where
  "reply_string (RStr t s) = (if t = REDIS_REPLY_STRING then s else [])"
| "reply_string _ = []"

fun reply_integer :: "reply \<Rightarrow> int" where
  "reply_integer (RInt v) = v"
| "reply_integer _ = 0"

lemma cell_fields:
  "reply_bytes (root_cell a t) = Some (reply_text t)"
  "rp_integer (root_cell a t) = reply_integer t"
  by (cases t; simp add: reply_bytes_def root_cell_def new_reply_def array_cell_def)+

lemma all_bytes_cells: "all_bytes (root_cells a ts) = Some (map reply_text ts)"
  by (induction ts arbitrary: a) (simp_all add: cell_fields)

text \<open>A function that takes \<open>val t\<close> out of a reply \<open>t\<close>; no promise is made where that is \<open>None\<close>.\<close>

locale reply_result =
  fixes result :: "heap \<Rightarrow> redisReply \<Rightarrow> 'a option"
    and val :: "reply \<Rightarrow> 'a option"
  assumes result_val: "in_heap h p t \<Longrightarrow> reply_at h p = Some r \<Longrightarrow> val t = Some v \<Longrightarrow> result h r = Some v"
begin

lemma exchange_answered:
  assumes "takes_reply e c n t txt0 w (cmd c w)" and k: "cc_context k = Some c" and v: "val t = Some v"
  shows "\<exists>k' w'. exchange e fl now cmd result dflt k w = Some (k', w', v) \<and> idle e k' (c_fd c) \<and> sent (c_fd c) txt0 n w w'"
    and "\<exists>k' w'. exchange_unchecked e fl now cmd result dflt k w = Some (k', w', v) \<and> idle e k' (c_fd c) \<and>
      sent (c_fd c) txt0 n w w'"
proof -
  obtain k' w' p h k'' where s: "send cmd k w = Some (k', w', Some p)" "reply_heap k' = Some h" "in_heap h p t"
      "sent (c_fd c) txt0 n w w'" "free_reply_of k' p = Some k''" "idle e k'' (c_fd c)"
    using send_answered [of e c n t txt0 w cmd, OF assms(1) k] by (elim exE conjE)
  obtain a where a: "reply_at h p = Some (root_cell a t)" using in_heap_root [OF s(3)] by blast
  have r: "result h (root_cell a t) = Some v" by (rule result_val [OF s(3) a v])
  have i: "Init e fl now k w = Some (k, w, 0)" using k by (simp add: Init_def)
  show "\<exists>k' w'. exchange e fl now cmd result dflt k w = Some (k', w', v) \<and> idle e k' (c_fd c) \<and> sent (c_fd c) txt0 n w w'"
    using s a r i by (simp add: exchange_def)
  show "\<exists>k' w'. exchange_unchecked e fl now cmd result dflt k w = Some (k', w', v) \<and> idle e k' (c_fd c) \<and>
      sent (c_fd c) txt0 n w w'"
    using s a r i by (simp add: exchange_unchecked_def)
qed

end

lemma cell_strings:
  "rp_str (root_cell a t) = (case t of RStr ty s \<Rightarrow> Some (s @ [NUL]) | _ \<Rightarrow> None)"
  "rp_type (root_cell a t) = (case t of RStr ty s \<Rightarrow> ty | RInt v \<Rightarrow> REDIS_REPLY_INTEGER | RNil \<Rightarrow> REDIS_REPLY_NIL
     | RArr n ts \<Rightarrow> REDIS_REPLY_ARRAY)"
  by (cases t; simp add: root_cell_def new_reply_def array_cell_def)+

lemma cell_elements: "rp_elements (root_cell a (RArr n ts)) = n"
  by (simp add: root_cell_def array_cell_def)

text \<open>The type of a string reply is none of the others.\<close>

lemma in_heap_string: "in_heap h p (RStr ty s) \<Longrightarrow> ty \<in> {REDIS_REPLY_STRING, REDIS_REPLY_STATUS, REDIS_REPLY_ERROR}"
  unfolding in_heap_def by (simp only: fits.simps) blast

lemma in_heap_elements:
  assumes "in_heap h p (RArr n ts)" and "reply_at h p = Some r"
  shows "\<exists>a. rp_type r = REDIS_REPLY_ARRAY \<and> rp_elements r = n \<and> length ts = n \<and>
    elements h r = Some (root_cells a ts) \<and> (\<forall>m \<le> n. elements h (r\<lparr>rp_elements := m\<rparr>) = Some (root_cells a (take m ts)))"
proof -
  obtain a where a: "reply_at h p = Some (root_cell a (RArr n ts))" "length ts = n"
      "\<forall>m \<le> n. elements h ((root_cell a (RArr n ts))\<lparr>rp_elements := m\<rparr>) = Some (root_cells (Suc a) (take m ts))"
    using in_heap_root [OF assms(1)] by blast
  have r: "r = root_cell a (RArr n ts)" using a(1) assms(2) by simp
  have "r\<lparr>rp_elements := n\<rparr> = r" using cell_elements [of a n ts] r by (cases r) simp
  then show ?thesis
    using a(2,3) r cell_strings [of a "RArr n ts"] by (intro exI [of _ "Suc a"]) (metis le_refl reply.case(4) cell_elements take_all_iff)
qed

lemma at_string:
  assumes "in_heap h p (RStr ty s)" and "reply_at h p = Some r"
  shows "rp_type r = ty \<and> rp_str r = Some (s @ [NUL]) \<and> ty \<noteq> REDIS_REPLY_ARRAY \<and> ty \<noteq> REDIS_REPLY_INTEGER"
  using in_heap_root [OF assms(1)] assms(2) in_heap_string [OF assms(1)] by (auto simp: cell_strings new_reply_def reply_types)

lemma at_root:
  assumes "in_heap h p t" and "reply_at h p = Some r"
  obtains a where "r = root_cell a t"
  using in_heap_root [OF assms(1)] assms(2) by auto

fun array_value :: "'a \<Rightarrow> (reply list \<Rightarrow> 'a option) \<Rightarrow> reply \<Rightarrow> 'a option" where
  "array_value d f (RArr n ts) = f ts"
| "array_value d f _ = Some d"

fun number_or :: "(int \<Rightarrow> int) \<Rightarrow> reply \<Rightarrow> int" where
  "number_or f (RInt v) = f v"
| "number_or f _ = -1"

fun string_or :: "'a option \<Rightarrow> (int \<Rightarrow> string \<Rightarrow> 'a) \<Rightarrow> reply \<Rightarrow> 'a option" where
  "string_or d f (RStr ty s) = Some (f ty s)"
| "string_or d f _ = d"

lemma array_result:
  assumes "in_heap h p t" and "reply_at h p = Some r" and "array_value d f t = Some v"
  shows "(rp_type r \<noteq> REDIS_REPLY_ARRAY \<and> v = d) \<or>
    (\<exists>a n ts. t = RArr n ts \<and> f ts = Some v \<and> rp_type r = REDIS_REPLY_ARRAY \<and> rp_elements r = n \<and> length ts = n \<and>
       elements h r = Some (root_cells a ts) \<and> (\<forall>m \<le> n. elements h (r\<lparr>rp_elements := m\<rparr>) = Some (root_cells a (take m ts))))"
proof (cases t)
  case (RArr n ts)
  then show ?thesis using in_heap_elements [of h p n ts r] assms by auto
next
  case (RStr ty s)
  then show ?thesis
    using assms at_string [of h p ty s r] by simp
qed (use assms in \<open>auto elim!: at_root simp: cell_strings new_reply_def reply_types\<close>)

interpretation string_reply: reply_result string_result "\<lambda>t. Some (reply_string t)"
proof
  fix h p t r v assume a: "in_heap h p t" "reply_at h p = Some r" "Some (reply_string t) = Some v"
  then obtain b where "r = root_cell b t" by (auto elim: at_root)
  then show "string_result h r = Some v"
    using a cell_fields [of b t] cell_strings [of b t]
    by (cases t) (auto simp: string_result_def reply_types)
qed

interpretation text_reply: reply_result text_result "\<lambda>t. Some (reply_text t)"
  by unfold_locales (auto elim!: at_root simp: text_result_def cell_fields)

interpretation integer_reply: reply_result integer_result "\<lambda>t. Some (reply_integer t)"
  by unfold_locales (auto elim!: at_root simp: integer_result_def cell_fields)

interpretation nonzero_reply: reply_result nonzero_result "\<lambda>t. Some (reply_integer t \<noteq> 0)"
  by unfold_locales (auto elim!: at_root simp: nonzero_result_def cell_fields)

interpretation count_reply: reply_result count_result "\<lambda>t. Some (0, reply_integer t)"
  by unfold_locales (auto elim!: at_root simp: count_result_def cell_fields)

interpretation int_reply: reply_result int_result "\<lambda>t. Some (number_or s32 t)"
proof
  fix h p t r v assume a: "in_heap h p t" "reply_at h p = Some r" "Some (number_or s32 t) = Some v"
  then show "int_result h r = Some v"
  proof (cases t)
    case (RStr ty s)
    then show ?thesis using a at_string [of h p ty s r] by (simp add: int_result_def)
  qed (auto elim!: at_root simp: int_result_def cell_strings cell_fields reply_types new_reply_def)
qed

interpretation done_reply: reply_result done_result "\<lambda>t. Some (number_or (\<lambda>v. 0) t)"
proof
  fix h p t r v assume a: "in_heap h p t" "reply_at h p = Some r" "Some (number_or (\<lambda>v. 0) t) = Some v"
  then show "done_result h r = Some v"
  proof (cases t)
    case (RStr ty s)
    then show ?thesis using a at_string [of h p ty s r] by (simp add: done_result_def)
  qed (auto elim!: at_root simp: done_result_def cell_strings cell_fields reply_types new_reply_def)
qed

interpretation ok_reply: reply_result ok_result "string_or None (\<lambda>ty s. if cstr s = ''OK'' then 0 else (-1 :: int))"
proof
  fix h p t r v assume a: "in_heap h p t" "reply_at h p = Some r"
    "string_or None (\<lambda>ty s. if cstr s = ''OK'' then 0 else (-1 :: int)) t = Some v"
  then show "ok_result h r = Some v"
    by (cases t) (auto elim!: at_root simp: ok_result_def cstr_stop)
qed

interpretation score_reply:
  reply_result score_result "string_or (Some (-1)) (\<lambda>ty s. if ty = REDIS_REPLY_STRING then atoi (cstr s) else -1)"
proof
  fix h p t r v assume a: "in_heap h p t" "reply_at h p = Some r"
    "string_or (Some (-1)) (\<lambda>ty s. if ty = REDIS_REPLY_STRING then atoi (cstr s) else -1) t = Some v"
  then obtain b where "r = root_cell b t" by (auto elim: at_root)
  then show "score_result h r = Some v"
    using a cell_strings [of b t] by (cases t) (auto simp: score_result_def cstr_stop reply_types)
qed

interpretation values_reply: reply_result "values_result acc" "array_value (True, acc) (\<lambda>ts. Some (True, acc @ map reply_text ts))"
proof
  fix h p t r v assume "in_heap h p t" "reply_at h p = Some r" "array_value (True, acc) (\<lambda>ts. Some (True, acc @ map reply_text ts)) t = Some v"
  from array_result [OF this] show "values_result acc h r = Some v"
    by (auto simp: values_result_def all_bytes_cells)
qed

interpretation pairs_reply:
  reply_result "pairs_result m" "array_value (True, m) (\<lambda>ts. Some (True, if even (length ts) then insert_pairs (map reply_text ts) m else m))"
proof
  fix h p t r v assume "in_heap h p t" "reply_at h p = Some r"
    "array_value (True, m) (\<lambda>ts. Some (True, if even (length ts) then insert_pairs (map reply_text ts) m else m)) t = Some v"
  from array_result [OF this] show "pairs_result m h r = Some v"
    by (auto simp: pairs_result_def all_bytes_cells even_iff_mod_2_eq_zero)
qed

definition rows_value :: "int \<Rightarrow> int \<Rightarrow> nat \<Rightarrow> reply list \<Rightarrow> (int \<times> int option \<times> string list) option" where
  "rows_value from_pos end_pos cap ts =
     (let count = s32 (end_pos - from_pos + 1); rows = take (nat count) ts
      in if 0 \<le> count \<and> length rows \<le> cap \<and> list_all (\<lambda>t. \<exists>ty s. t = RStr ty s) rows
         then Some (0, Some (int (length rows)), map (\<lambda>t. take (VALUES_ID_SIZE - 1) (cstr (reply_text t))) rows)
         else None)"

lemma row_cells:
  "list_all (\<lambda>t. \<exists>ty s. t = RStr ty s) ts \<Longrightarrow>
   None \<notin> set (map rp_str (root_cells a ts)) \<and>
   map (\<lambda>r. f (cstr (the (rp_str r)))) (root_cells a ts) = map (\<lambda>t. f (cstr (reply_text t))) ts"
  by (induction ts arbitrary: a) (auto simp: new_reply_def)

lemma length_root_cells [simp]: "length (root_cells a ts) = length ts"
  by (induction ts arbitrary: a) simp_all

interpretation rows_reply:
  reply_result "rows_result from_pos end_pos cap" "array_value (-1, None, []) (rows_value from_pos end_pos cap)"
proof
  fix h p t r v assume "in_heap h p t" "reply_at h p = Some r" and
    av: "array_value (-1, None, []) (rows_value from_pos end_pos cap) t = Some v"
  from array_result [OF this] consider "rp_type r \<noteq> REDIS_REPLY_ARRAY" "v = (-1, None, [])"
    | a n ts where "rows_value from_pos end_pos cap ts = Some v" "rp_type r = REDIS_REPLY_ARRAY" "rp_elements r = n"
      "length ts = n" "\<forall>m \<le> n. elements h (r\<lparr>rp_elements := m\<rparr>) = Some (root_cells a (take m ts))"
    by blast
  then show "rows_result from_pos end_pos cap h r = Some v"
  proof cases
    case 2
    define count where "count = s32 (end_pos - from_pos + 1)"
    define rows where "rows = take (nat count) ts"
    have c: "0 \<le> count" "length rows \<le> cap" "list_all (\<lambda>t. \<exists>ty s. t = RStr ty s) rows"
      "v = (0, Some (int (length rows)), map (\<lambda>t. take (VALUES_ID_SIZE - 1) (cstr (reply_text t))) rows)"
      using 2(1) unfolding rows_value_def Let_def count_def [symmetric] rows_def [symmetric] by (simp_all split: if_splits)
    have small: "count < 2 ^ 31" using s32_range unfolding count_def by simp
    define m where "m = min (nat count) n"
    have mod: "nat (count mod 2 ^ 64) = nat count" using c(1) small by simp
    have "s32 (int n) = int n" if "n \<le> nat count" using that small by (intro s32_id) simp_all
    then have mc: "(if rp_elements r > nat (count mod 2 ^ 64) then count else s32 (int (rp_elements r))) = int m"
      unfolding mod 2(3) using c(1) by (simp add: m_def min_def)
    have rm: "rows = take m ts" using 2(4) by (auto simp: rows_def m_def min_def)
    have el: "(if int m \<le> 0 then Some [] else elements h (r\<lparr>rp_elements := nat (int m)\<rparr>)) = Some (root_cells a rows)"
      using 2(5) rm by (cases m) (simp_all add: m_def del: of_nat_Suc)
    have "length rows = m" using rm 2(4) by (simp add: m_def)
    then show ?thesis
      using 2(2) c(2,4) row_cells [OF c(3), of a "take (VALUES_ID_SIZE - 1)"] el
      unfolding rows_result_def Let_def count_def [symmetric] mc by simp
  qed (simp add: rows_result_def)
qed

text \<open>A function on an idle connection: its result, with the words of its command sent and nothing else.\<close>

definition performs :: "env \<Rightarrow> int \<Rightarrow> nat \<Rightarrow> string list \<Rightarrow> world \<Rightarrow> 'a run \<Rightarrow> 'a \<Rightarrow> bool" where
  "performs e fd n ws w res v \<longleftrightarrow> (\<exists>k' w'. res = Some (k', w', v) \<and> idle e k' fd \<and> sent fd (command_text ws) n w w')"

definition asked :: "env \<Rightarrow> int \<Rightarrow> (nat \<Rightarrow> string) \<Rightarrow> nat \<Rightarrow> CacheConn \<Rightarrow> world \<Rightarrow> reply \<Rightarrow> string list \<Rightarrow> bool" where
  "asked e fd chunk n k w t ws \<longleftrightarrow> good_env e \<and> idle e k fd \<and> answers e fd chunk w n k t \<and>
     length (command_text ws) < 2 ^ 31 - 1"

context reply_result
begin

lemma performed:
  assumes a: "asked e fd chunk n k w t ws" and ws: "format_words fl (cstr fmt) ap [] False = Some (Some ws)"
    and v: "val t = Some v"
  shows "performs e fd n ws w (exchange e fl now (\<lambda>c w. redisCommand e fl c w fmt ap) result dflt k w) v"
    and "performs e fd n ws w (exchange_unchecked e fl now (\<lambda>c w. redisCommand e fl c w fmt ap) result dflt k w) v"
proof -
  obtain c where c: "cc_context k = Some c" "conn_ok e c []" "queued c = []" "c_fd c = fd"
    using a by (auto simp: asked_def idle_def)
  have "takes_reply e c n t (command_text ws) w (redisCommand e fl c w fmt ap)"
    using a c ws by (intro redisCommand_answered) (auto simp: asked_def)
  from exchange_answered [where cmd = "\<lambda>c w. redisCommand e fl c w fmt ap", OF this c(1) v] c(4)
  show "performs e fd n ws w (exchange e fl now (\<lambda>c w. redisCommand e fl c w fmt ap) result dflt k w) v"
    and "performs e fd n ws w (exchange_unchecked e fl now (\<lambda>c w. redisCommand e fl c w fmt ap) result dflt k w) v"
    by (simp_all add: performs_def)
qed

end

section \<open>The words of the commands\<close>

lemma word_char:
  "c \<noteq> CHR ''%'' \<Longrightarrow> c \<noteq> CHR '' '' \<Longrightarrow> length cur + 1 < 2 ^ 31 \<Longrightarrow>
   format_words fl (c # f) as cur touched = format_words fl f as (cur @ [c]) True"
  by (subst format_words.simps) simp

lemma word_end:
  "format_words fl (CHR '' '' # f) as cur True = map_option (map_option (Cons cur)) (format_words fl f as [] False)"
  by (subst format_words.simps) simp

lemma word_string:
  "length cur + length (cstr a) < 2 ^ 31 \<Longrightarrow>
   format_words fl (CHR ''%'' # CHR ''s'' # f) (CStr a # as) cur touched = format_words fl f as (cur @ cstr a) True"
  by (subst format_words.simps) (simp add: directive_text_def)

definition plain_spec :: "string \<Rightarrow> conv_spec" where
  "plain_spec sz = \<lparr>cs_flags = [], cs_width = 0, cs_prec = None, cs_size = sz, cs_conv = CHR ''d''\<rparr>"

lemma parse_plain: "parse_spec ''d'' = Some (plain_spec [], [])" "parse_spec ''ld'' = Some (plain_spec ''l'', [])"
  by (simp_all add: parse_spec_def printf_flags_def isdigit_def take_size_def plain_spec_def undec_def)

lemma signed_plain: "signed_text (plain_spec sz) v = dec_int v"
  by (simp add: signed_text_def plain_spec_def pad_field_def prec_digits_def dec_int_def)

lemma print_int:
  "- (2 ^ 31) \<le> v \<Longrightarrow> v < 2 ^ 31 \<Longrightarrow> vprintf_text fl ''%d'' (CInt v # as) = Some (dec_int v)"
  "- (2 ^ 63) \<le> v \<Longrightarrow> v < 2 ^ 63 \<Longrightarrow> vprintf_text fl ''%ld'' (CLong v # as) = Some (dec_int v)"
  by (simp_all add: parse_plain [unfolded plain_spec_def] conv_text_def signed_plain [unfolded plain_spec_def]
      trunc_signed_def size_bits_def)

lemma dec_int_clean: "NUL \<notin> set (dec_int v)"
  using dec_nat_digits [of NUL] by (auto simp: dec_int_def isdigit_def)

lemma word_int:
  assumes "- (2 ^ 31) \<le> v" "v < 2 ^ 31" and "length cur + length (dec_int v) < 2 ^ 31"
  shows "format_words fl (CHR ''%'' # CHR ''d'' # f) (CInt v # as) cur touched = format_words fl f as (cur @ dec_int v) True"
proof -
  have d: "detect (CHR ''d'' # f) = Valid KInt 1"
    by (simp add: detect_def printf_flags_def skip_precision_def isdigit_def intfmts_def)
  have c: "cstr ''%d'' = ''%d''" by (simp add: cstr_def)
  show ?thesis
    using assms d print_int(1) [of v fl as]
    by (subst format_words.simps) (simp add: directive_text_def fetch_def c cstr_id dec_int_clean del: vprintf_text.simps)
qed

lemma word_long:
  assumes "- (2 ^ 63) \<le> v" "v < 2 ^ 63" and "length cur + length (dec_int v) < 2 ^ 31"
  shows "format_words fl (CHR ''%'' # CHR ''l'' # CHR ''d'' # f) (CLong v # as) cur touched = format_words fl f as (cur @ dec_int v) True"
proof -
  have d: "detect (CHR ''l'' # CHR ''d'' # f) = Valid KLong 2"
    by (simp add: detect_def printf_flags_def skip_precision_def isdigit_def intfmts_def dblfmts_def sized_def)
  have c: "cstr ''%ld'' = ''%ld''" by (simp add: cstr_def)
  show ?thesis
    using assms d print_int(2) [of v fl as]
    by (subst format_words.simps) (simp add: directive_text_def fetch_def c cstr_id dec_int_clean del: vprintf_text.simps)
qed

lemma words_end: "format_words fl [] as cur touched = Some (Some (if touched then [cur] else []))"
  by (simp add: format_words.simps)

lemmas words = word_char word_end word_string word_int word_long words_end

lemma command_arg_small: "length (command_text ws) < 2 ^ 31 - 1 \<Longrightarrow> w \<in> set ws \<Longrightarrow> length w < 2 ^ 31 - 1"
proof -
  assume "length (command_text ws) < 2 ^ 31 - 1" and "w \<in> set ws"
  moreover have "length w \<le> length (concat (map bulk_text ws))"
    using \<open>w \<in> set ws\<close> by (induction ws) (auto simp: bulk_text_def)
  ultimately show ?thesis by (simp add: command_text_def)
qed


section \<open>What the functions promise\<close>

lemma asked_small: "asked e fd chunk n k w t ws \<Longrightarrow> list_all (\<lambda>x. length x < 2 ^ 31) ws"
  using command_arg_small [of ws] by (fastforce simp: asked_def list_all_iff)

lemma conn_Set_text:
  assumes "asked e fd chunk n k w t [''SET'', cstr key, cstr value]"
  shows "performs e fd n [''SET'', cstr key, cstr value] w (conn_Set e fl now key value k w) (reply_text t)"
proof -
  have "length (cstr key) < 2 ^ 31" "length (cstr value) < 2 ^ 31"
    using asked_small [OF assms] by simp_all
  moreover have c: "cstr ''SET %s %s'' = ''SET %s %s''" by (simp add: cstr_def)
  ultimately have "format_words fl (cstr ''SET %s %s'') [CStr key, CStr value] [] False = Some (Some [''SET'', cstr key, cstr value])"
    unfolding c by (simp add: words)
  then show ?thesis unfolding conn_Set_def by (rule text_reply.performed(1) [OF assms]) simp
qed

text \<open>C20. \<open>CacheConn::Get\<close> on an idle connection sends the command \<open>GET\<close> with the key and nothing else,
  returns the value when the server answers with a bulk string and the empty string for any other
  reply, and leaves the connection idle, however the answer is cut into reads.\<close>

theorem conn_Get_value:
  assumes "asked e fd chunk n k w t [''GET'', cstr key]"
  shows "performs e fd n [''GET'', cstr key] w (conn_Get e fl now key k w) (reply_string t)"
proof -
  have "length (cstr key) < 2 ^ 31"
    using asked_small [OF assms] by simp
  moreover have c: "cstr ''GET %s'' = ''GET %s''" by (simp add: cstr_def)
  ultimately have "format_words fl (cstr ''GET %s'') [CStr key] [] False = Some (Some [''GET'', cstr key])"
    unfolding c by (simp add: words)
  then show ?thesis unfolding conn_Get_def by (rule string_reply.performed(1) [OF assms]) simp
qed

text \<open>\<open>CacheConn::ZsetZrevrange\<close> asks for the members of rank \<open>from_pos\<close> to \<open>end_pos\<close> of a sorted set, and
  puts them in the caller's table in the order in which the server gives them: at most
  \<open>end_pos - from_pos + 1\<close> rows, each cut to 1023 bytes, with their number in \<open>get_num\<close>.\<close>

theorem conn_ZsetZrevrange_rows:
  assumes "asked e fd chunk n k w (RArr (length ts) ts) [''ZREVRANGE'', cstr key, dec_int from_pos, dec_int end_pos]"
    and "0 \<le> from_pos" and "from_pos \<le> end_pos" and "end_pos < 2 ^ 31 - 1"
    and "length ts \<le> cap" and "list_all (\<lambda>t. \<exists>ty s. t = RStr ty s) ts"
  shows "performs e fd n [''ZREVRANGE'', cstr key, dec_int from_pos, dec_int end_pos] w
    (conn_ZsetZrevrange e fl now key from_pos end_pos cap k w)
    (0, Some (min (end_pos - from_pos + 1) (int (length ts))),
     map (\<lambda>t. take 1023 (cstr (reply_text t))) (take (nat (end_pos - from_pos + 1)) ts))"
proof -
  let ?ws = "[''ZREVRANGE'', cstr key, dec_int from_pos, dec_int end_pos]"
  have "length (cstr key) < 2 ^ 31" "length (dec_int from_pos) < 2 ^ 31" "length (dec_int end_pos) < 2 ^ 31"
    using asked_small [OF assms(1)] by simp_all
  moreover have c: "cstr ''ZREVRANGE %s %d %d'' = ''ZREVRANGE %s %d %d''" by (simp add: cstr_def)
  ultimately have w: "format_words fl (cstr ''ZREVRANGE %s %d %d'') [CStr key, CInt from_pos, CInt end_pos] [] False = Some (Some ?ws)"
    using assms(2-4) unfolding c by (simp add: words)
  have "s32 (end_pos - from_pos + 1) = end_pos - from_pos + 1" using assms(2-4) by (intro s32_id) simp_all
  moreover have "list_all (\<lambda>t. \<exists>ty s. t = RStr ty s) (take (nat (end_pos - from_pos + 1)) ts)"
    using assms(6) by (auto simp: list_all_iff dest: in_set_takeD)
  ultimately have "rows_value from_pos end_pos cap ts =
      Some (0, Some (min (end_pos - from_pos + 1) (int (length ts))),
        map (\<lambda>t. take 1023 (cstr (reply_text t))) (take (nat (end_pos - from_pos + 1)) ts))"
    using assms(3,5) by (auto simp: rows_value_def Let_def VALUES_ID_SIZE_def min_def)
  then show ?thesis
    unfolding conn_ZsetZrevrange_def by (intro rows_reply.performed(2) [OF assms(1) w]) simp
qed

section \<open>A connection that is lost\<close>

text \<open>The peer has closed the connection: every read gives the end of the stream.\<close>

definition hung_up :: "env \<Rightarrow> int \<Rightarrow> bool" where
  "hung_up e fd \<longleftrightarrow> (\<forall>w n. e_read e w fd n = Inr [])"

lemma redisCommand_hung_up:
  assumes g: "good_env e" and k: "idle e k fd" "cc_context k = Some c" and h: "hung_up e fd"
    and ws: "format_words fl (cstr fmt) ap [] False = Some (Some ws)" "length (command_text ws) < 2 ^ 31 - 1"
  shows "\<exists>c' w' r. redisCommand e fl c w fmt ap = Some (c', w', None) \<and> c_fd c' = fd \<and> c_reader c' = Some r \<and> r_reply r = None"
proof -
  have m: "malloc_spec (e_malloc e)" "malloc_total (e_malloc e)" and wr: "writes_ok e" "eager_writes e"
    using g by (simp_all add: good_env_def)
  have c: "conn_ok e c []" "queued c = []" "c_fd c = fd" "resting e c" using k by (auto simp: idle_def)
  from redisvAppendCommand_ok [OF m c(1) ws(1), of w] c(2) ws(2) obtain s where
    s: "redisvAppendCommand e fl c w fmt ap = Some (c\<lparr>c_obuf := Some s\<rparr>, REDIS_OK)"
      "conn_ok e (c\<lparr>c_obuf := Some s\<rparr>) []"
    by auto
  let ?c = "c\<lparr>c_obuf := Some s\<rparr>"
  have "resting e ?c" using c(4) by (simp add: resting_def)
  from resting_reply [OF this, of w] obtain r where
    r: "redisGetReplyFromReader e ?c w = Some (?c\<lparr>c_reader := Some r\<rparr>, REDIS_OK, None)" "r_reply r = None"
    by blast
  let ?d = "?c\<lparr>c_reader := Some r\<rparr>"
  have d: "obuf_ok ?d" "c_err ?d = 0" using s(2) by (simp_all add: conn_ok_def obuf_ok_def receiving_def)
  from write_until_done_ok [OF m wr d, of w] obtain c2 w2 where
    f: "write_until_done e ?d w = Some (c2, w2, REDIS_OK)" "same_link ?d c2" "c_err c2 = 0"
    by blast
  have c2: "c_fd c2 = fd" "c_reader c2 = Some r" using f(2) c(3) by (simp_all add: same_link_def)
  have "\<exists>c3 w3. redisBufferRead e c2 w2 = Some (c3, w3, REDIS_ERR) \<and> c_fd c3 = fd \<and> c_reader c3 = Some r"
    using f(3) c2 h by (simp add: redisBufferRead_def hung_up_def sys_read_def Let_def redisSetError_def)
  then obtain c3 w3 where b: "redisBufferRead e c2 w2 = Some (c3, w3, REDIS_ERR)" "c_fd c3 = fd" "c_reader c3 = Some r"
    by blast
  then have "read_until_reply e c2 w2 = Some (c3, w3, REDIS_ERR, None)"
    by (simp add: read_until_reply.simps [of e c2 w2])
  moreover have "has (c_flags ?d) REDIS_BLOCK" using s(2) by (simp add: conn_ok_def)
  ultimately show ?thesis
    using s(1) r f(1) b by (simp add: redisCommand_def redisvCommand_def redisBlockForReply_def redisGetReply_def)
qed

definition disconnected :: "int \<Rightarrow> 'a \<Rightarrow> 'a run \<Rightarrow> bool" where
  "disconnected fd v res \<longleftrightarrow> (\<exists>k' w' a es. res = Some (k', w', v) \<and> cc_context k' = None \<and> w_events w' = Call (Close fd) a # es)"

lemma exchange_hung_up:
  assumes "good_env e" and k: "idle e k fd" and "hung_up e fd" and fd: "0 < fd"
    and "format_words fl (cstr fmt) ap [] False = Some (Some ws)" and "length (command_text ws) < 2 ^ 31 - 1"
  shows "disconnected fd v (exchange e fl now (\<lambda>c w. redisCommand e fl c w fmt ap) result v k w)"
    and "exchange_unchecked e fl now (\<lambda>c w. redisCommand e fl c w fmt ap) result v k w = None"
proof -
  obtain c where c: "cc_context k = Some c" using k by (auto simp: idle_def)
  obtain c' w' r where r: "redisCommand e fl c w fmt ap = Some (c', w', None)" "c_fd c' = fd" "c_reader c' = Some r" "r_reply r = None"
    using redisCommand_hung_up [OF assms(1) k c assms(3,5,6)] by blast
  have i: "Init e fl now k w = Some (k, w, 0)" using c by (simp add: Init_def)
  have s: "send (\<lambda>c w. redisCommand e fl c w fmt ap) k w = Some (k\<lparr>cc_context := Some c'\<rparr>, w', None)"
    using c r(1) by (simp add: send_def)
  have "redisReaderFree r = Some (r_store r)" using r(4) by (simp add: redisReaderFree_def)
  then show "disconnected fd v (exchange e fl now (\<lambda>c w. redisCommand e fl c w fmt ap) result v k w)"
    using i s r fd by (simp add: exchange_def DeInit_def redisFree_def sys_def Let_def disconnected_def)
  show "exchange_unchecked e fl now (\<lambda>c w. redisCommand e fl c w fmt ap) result v k w = None"
    using i s by (simp add: exchange_unchecked_def)
qed

text \<open>C21. When the server has closed an idle connection, \<open>CacheConn::Get\<close> returns the empty string and
  gives the connection up: its descriptor is closed and the context is gone, so that the next
  command connects again.\<close>

theorem conn_Get_disconnects:
  assumes "good_env e" and "idle e k fd" and "hung_up e fd" and "0 < fd" and "length (command_text [''GET'', cstr key]) < 2 ^ 31 - 1"
  shows "disconnected fd [] (conn_Get e fl now key k w)"
proof -
  have "length (cstr key) < 2 ^ 31" using command_arg_small [OF assms(5), of "cstr key"] by simp
  moreover have c: "cstr ''GET %s'' = ''GET %s''" by (simp add: cstr_def)
  ultimately have "format_words fl (cstr ''GET %s'') [CStr key] [] False = Some (Some [''GET'', cstr key])"
    unfolding c by (simp add: words)
  then show ?thesis unfolding conn_Get_def by (rule exchange_hung_up(1) [OF assms(1-4) _ assms(5)])
qed

text \<open>The functions on sorted sets read through a NULL reply then.\<close>

lemma conn_ZsetZcard_crashes:
  assumes "good_env e" and "idle e k fd" and "hung_up e fd" and "0 < fd" and "length (command_text [''ZCARD'', cstr key]) < 2 ^ 31 - 1"
  shows "conn_ZsetZcard e fl now key k w = None"
proof -
  have "length (cstr key) < 2 ^ 31" using command_arg_small [OF assms(5), of "cstr key"] by simp
  moreover have c: "cstr ''ZCARD %s'' = ''ZCARD %s''" by (simp add: cstr_def)
  ultimately have "format_words fl (cstr ''ZCARD %s'') [CStr key] [] False = Some (Some [''ZCARD'', cstr key])"
    unfolding c by (simp add: words)
  then show ?thesis unfolding conn_ZsetZcard_def by (rule exchange_hung_up(2) [OF assms(1-4) _ assms(5)])
qed

text \<open>A connection whose password or database was refused keeps its context, and passes for connected at
  the next attempt.\<close>

lemma Init_after_refusal:
  assumes "Init e fl now k w = Some (k1, w1, r)" and "r = -1 \<or> r = 2"
  shows "Init e fl now' k1 w1 = Some (k1, w1, 0)"
proof -
  have s: "cc_context k' \<noteq> None" if "send cmd k0 w0 = Some (k', w', q)" for cmd k0 w0 k' w' q
    using that by (auto simp: send_def split: Option.bind_splits)
  have f: "cc_context k'' \<noteq> None" if "free_reply_of k' p = Some k''" for k' p k''
    using that by (auto simp: free_reply_of_def split: Option.bind_splits)
  have "cc_context k1 \<noteq> None"
    using assms s f
    by (auto simp: Init_def authenticate_def select_db_def Let_def
        split: if_splits Option.bind_splits option.splits prod.splits)
  then show ?thesis by (simp add: Init_def)
qed

section \<open>Sample runs\<close>

definition reply_server :: "reply \<Rightarrow> env" where
  "reply_server t = sample_env\<lparr>e_read := (\<lambda>w fd n. Inr (encode t))\<rparr>"

definition sample_conn :: "env \<Rightarrow> CacheConn option" where
  "sample_conn e =
     do { c \<leftarrow> redisConnectFd e [] 5; Some ((new_CacheConn ''127.0.0.1'' 6379 0 [] ''token'' [])\<lparr>cc_context := c\<rparr>) }"

lemma good_servers: "good_env (reply_server t)" "good_env sample_env" "hung_up sample_env fd"
  using zero_malloc_ok
  by (simp_all add: good_env_def reply_server_def sample_env_def writes_ok_def eager_writes_def obliging_def hung_up_def)

lemma sample_conn_idle:
  assumes "good_env e"
  shows "\<exists>k. sample_conn e = Some k \<and> idle e k 5 \<and> buffered k = 0"
proof -
  obtain c where "redisConnectFd e [] 5 = Some (Some c)" "conn_ok e c []" "queued c = []" "reader_len c = 0" "c_fd c = 5"
      "resting e c"
    using redisConnectFd_ok [of e "[]" 5] assms by (auto simp: good_env_def)
  then show ?thesis by (simp add: sample_conn_def idle_def buffered_def)
qed

lemma sample_asked:
  assumes "wf_reply t" and "reply_depth t \<le> 8" and "encode t \<noteq> []" and "length (encode t) \<le> sizeof_read_buffer"
    and "length (command_text ws) < 2 ^ 31 - 1"
  shows "\<exists>k. sample_conn (reply_server t) = Some k \<and> asked (reply_server t) 5 (\<lambda>k. encode t) 1 k new_world t ws"
proof -
  obtain k where k: "sample_conn (reply_server t) = Some k" "idle (reply_server t) k 5" "buffered k = 0"
    using sample_conn_idle [OF good_servers(1)] by blast
  have "serves (reply_server t) 5 (\<lambda>k. encode t)" using assms(3,4) by (simp add: serves_def reply_server_def)
  moreover have "incoming (\<lambda>k. encode t) 0 1 = encode t" by (simp add: incoming_def)
  moreover have "parse [] (encode t) = PDone t []" using parse_encode [OF assms(1,2), of "[]"] by simp
  moreover have "length (encode t) < 2 ^ 31" using assms(4) by (simp add: sizeof_read_buffer_def)
  ultimately have "answers (reply_server t) 5 (\<lambda>k. encode t) new_world 1 k t" using k(3) by (simp add: answers_def)
  then show ?thesis using k good_servers(1) assms(5) by (auto simp: asked_def)
qed

theorem conn_Get_value_witness:
  "\<exists>k. sample_conn (reply_server (RStr REDIS_REPLY_STRING ''milo'')) = Some k \<and>
    performs (reply_server (RStr REDIS_REPLY_STRING ''milo'')) 5 1 [''GET'', ''abc''] new_world
      (conn_Get (reply_server (RStr REDIS_REPLY_STRING ''milo'')) (\<lambda>_ _. []) 0 ''abc'' k new_world) ''milo''"
proof -
  let ?t = "RStr REDIS_REPLY_STRING ''milo''"
  have l: "length (encode ?t) \<le> sizeof_read_buffer" "encode ?t \<noteq> []" by (simp_all add: sizeof_read_buffer_def length_dec_nat reply_types)
  have c: "length (command_text [''GET'', ''abc'']) < 2 ^ 31 - 1"
    by (simp add: command_text_def bulk_text_def length_dec_nat)
  obtain k where k: "sample_conn (reply_server ?t) = Some k"
      "asked (reply_server ?t) 5 (\<lambda>k. encode ?t) 1 k new_world ?t [''GET'', ''abc'']"
    using sample_asked [of ?t, OF _ _ l(2,1) c] by auto
  have "cstr ''abc'' = ''abc''" by (simp add: cstr_def)
  then show ?thesis
    using k conn_Get_value [of "reply_server ?t" 5 "\<lambda>k. encode ?t" 1 k new_world ?t "''abc''" "\<lambda>_ _. []" 0]
    by (auto simp del: encode.simps)
qed

theorem conn_ZsetZrevrange_rows_witness:
  "\<exists>k. sample_conn (reply_server (RArr 2 [RStr REDIS_REPLY_STRING ''b'', RStr REDIS_REPLY_STRING ''a''])) = Some k \<and>
    performs (reply_server (RArr 2 [RStr REDIS_REPLY_STRING ''b'', RStr REDIS_REPLY_STRING ''a''])) 5 1
      [''ZREVRANGE'', ''z'', ''0'', ''9''] new_world
      (conn_ZsetZrevrange (reply_server (RArr 2 [RStr REDIS_REPLY_STRING ''b'', RStr REDIS_REPLY_STRING ''a'']))
        (\<lambda>_ _. []) 0 ''z'' 0 9 10 k new_world) (0, Some 2, [''b'', ''a''])"
proof -
  let ?ts = "[RStr REDIS_REPLY_STRING ''b'', RStr REDIS_REPLY_STRING ''a'']"
  let ?t = "RArr (length ?ts) ?ts"
  have l: "length (encode ?t) \<le> sizeof_read_buffer" "encode ?t \<noteq> []"
    by (simp_all add: sizeof_read_buffer_def length_dec_nat reply_types)
  have c: "length (command_text [''ZREVRANGE'', ''z'', ''0'', ''9'']) < 2 ^ 31 - 1"
    by (simp add: command_text_def bulk_text_def length_dec_nat)
  have w: "wf_reply ?t" "reply_depth ?t \<le> 8" by (simp_all add: reply_types INT_MAX_def)
  obtain k where k: "sample_conn (reply_server ?t) = Some k"
      "asked (reply_server ?t) 5 (\<lambda>k. encode ?t) 1 k new_world ?t [''ZREVRANGE'', ''z'', ''0'', ''9'']"
    using sample_asked [OF w l(2,1) c] by blast
  have d: "cstr ''z'' = ''z''" "dec_int 0 = ''0''" "dec_int 9 = ''9''" by (simp add: cstr_def, code_simp, code_simp)
  have t: "map (\<lambda>t. take 1023 (cstr (reply_text t))) (take (nat (9 - 0 + 1)) ?ts) = [''b'', ''a'']"
    by (simp add: cstr_def)
  have n: "RArr 2 ?ts = ?t" by simp
  have p: "performs (reply_server ?t) 5 1 [''ZREVRANGE'', cstr ''z'', dec_int 0, dec_int 9] new_world
      (conn_ZsetZrevrange (reply_server ?t) (\<lambda>_ _. []) 0 ''z'' 0 9 10 k new_world)
      (0, Some (min (9 - 0 + 1) (int (length ?ts))), map (\<lambda>t. take 1023 (cstr (reply_text t))) (take (nat (9 - 0 + 1)) ?ts))"
    by (rule conn_ZsetZrevrange_rows) (use k(2) d in \<open>simp_all del: encode.simps\<close>)
  have m: "min (9 - 0 + 1) (int (length ?ts)) = 2" by simp
  show ?thesis using k(1) p unfolding n d t m by blast
qed

theorem conn_Get_disconnects_witness:
  "\<exists>k. sample_conn sample_env = Some k \<and> disconnected 5 [] (conn_Get sample_env (\<lambda>_ _. []) 0 ''abc'' k new_world)"
proof -
  obtain k where k: "sample_conn sample_env = Some k" "idle sample_env k 5"
    using sample_conn_idle [OF good_servers(2)] by blast
  have c: "length (command_text [''GET'', cstr ''abc'']) < 2 ^ 31 - 1"
    by (simp add: command_text_def bulk_text_def length_dec_nat cstr_def)
  show ?thesis using conn_Get_disconnects [OF good_servers(2) k(2) good_servers(3) _ c] k(1) by auto
qed

end
