(* ===== verification/Pool.thy ===== *)
theory Pool
  imports Config "HOL-Library.Multiset"
begin

text \<open>
  The connection pools of FileHub, \<open>CachePool\<close> and \<open>CacheManager\<close> of \<open>redis/cache_pool.cc\<close>, \<open>CDBPool\<close>
  and \<open>CDBManager\<close> of \<open>mysql/db_pool.cc\<close>, and the lock of \<open>api/api_common.h\<close>.

  The two pools are the same program for different connections, so the model has a type parameter
  for them.  What a function does between taking the mutex and giving it back, or waiting, is one
  definition; threads are the steps of a transition relation, in which a waiting thread is asleep
  until it is notified, its time-out expires, or it wakes up for no reason.
\<close>

section \<open>A pool\<close>

record 'c pool =
  cur_conn_cnt :: int
  max_conn_cnt :: int
  free_list :: "'c list"
  abort_request :: bool

definition new_pool :: "int \<Rightarrow> int \<Rightarrow> 'c pool" where
  "new_pool min_cnt max_cnt = \<lparr>cur_conn_cnt = min_cnt, max_conn_cnt = max_cnt, free_list = [], abort_request = False\<rparr>"

definition MIN_CACHE_CONN_CNT :: int where "MIN_CACHE_CONN_CNT = 2"
definition MIN_DB_CONN_CNT :: int where "MIN_DB_CONN_CNT = 1"

definition new_CachePool :: "int \<Rightarrow> 'c pool" where "new_CachePool max_cnt = new_pool MIN_CACHE_CONN_CNT max_cnt"
definition new_CDBPool :: "int \<Rightarrow> 'c pool" where "new_CDBPool max_cnt = new_pool MIN_DB_CONN_CNT max_cnt"

text \<open>
  \<open>Init\<close> opens the first connections; \<open>opened i\<close> is what opening the \<open>i\<close>-th one gives, a connection or an
  error code.  \<open>CachePool::Init\<close> returns 1 for any error.
\<close>

fun open_conns :: "(nat \<Rightarrow> int + 'c) \<Rightarrow> nat \<Rightarrow> nat \<Rightarrow> 'c list \<times> int" where
  "open_conns opened i 0 = ([], 0)"
| "open_conns opened i (Suc n) =
     (case opened i of
        Inl ret \<Rightarrow> ([], ret)
      | Inr c \<Rightarrow> (c # fst (open_conns opened (Suc i) n), snd (open_conns opened (Suc i) n)))"

definition pool_Init :: "(nat \<Rightarrow> int + 'c) \<Rightarrow> 'c pool \<Rightarrow> 'c pool \<times> int" where
  "pool_Init opened p =
     (let r = open_conns opened 0 (nat (cur_conn_cnt p))
      in (p\<lparr>free_list := free_list p @ fst r\<rparr>, snd r))"

definition CachePool_Init :: "(nat \<Rightarrow> int + 'c) \<Rightarrow> 'c pool \<Rightarrow> 'c pool \<times> int" where
  "CachePool_Init opened p = (let r = pool_Init opened p in (fst r, if snd r \<noteq> 0 then 1 else 0))"

datatype 'c got = Got 'c | Null | Wait

text \<open>Taking the first free connection.\<close>

definition pop_free :: "'c pool \<Rightarrow> 'c pool \<times> 'c got" where
  "pop_free p =
     (case free_list p of
        [] \<Rightarrow> (p, Null)
      | c # cs \<Rightarrow> (p\<lparr>free_list := cs\<rparr>, Got c))"

text \<open>
  \<open>GetCacheConn\<close> and \<open>GetDBConn\<close> up to the call of \<open>wait\<close>; \<open>opened\<close> is the new connection, \<open>None\<close> if it cannot
  be opened.
\<close>

definition GetConn :: "'c option \<Rightarrow> 'c pool \<Rightarrow> 'c pool \<times> 'c got" where
  "GetConn opened p =
     (if abort_request p then (p, Null)
      else if free_list p = [] then
        (if cur_conn_cnt p \<ge> max_conn_cnt p then (p, Wait)
         else case opened of
                None \<Rightarrow> (p, Null)
              | Some c \<Rightarrow> pop_free (p\<lparr>free_list := free_list p @ [c], cur_conn_cnt := cur_conn_cnt p + 1\<rparr>))
      else pop_free p)"

text \<open>The predicate of the condition variable, and the rest of the function after the wait: without a
  time-out it is reached only when the predicate holds.\<close>

definition wait_over :: "'c pool \<Rightarrow> bool" where
  "wait_over p \<longleftrightarrow> free_list p \<noteq> [] \<or> abort_request p"

definition after_wait :: "bool \<Rightarrow> 'c pool \<Rightarrow> 'c pool \<times> 'c got" where
  "after_wait timed p =
     (if timed \<and> free_list p = [] then (p, Null)
      else if abort_request p then (p, Null)
      else pop_free p)"

text \<open>\<open>RelCacheConn\<close> and \<open>RelDBConn\<close>; the second component says whether a waiting thread is notified.\<close>

definition RelConn :: "'c \<Rightarrow> 'c pool \<Rightarrow> 'c pool \<times> bool" where
  "RelConn c p = (if c \<in> set (free_list p) then (p, False) else (p\<lparr>free_list := free_list p @ [c]\<rparr>, True))"

text \<open>The destructors, which delete the free connections.\<close>

definition destroy_CachePool :: "'c pool \<Rightarrow> 'c pool" where
  "destroy_CachePool p = p\<lparr>abort_request := True, free_list := [], cur_conn_cnt := 0\<rparr>"

definition destroy_CDBPool :: "'c pool \<Rightarrow> 'c pool" where
  "destroy_CDBPool p = p\<lparr>abort_request := True, free_list := []\<rparr>"

section \<open>Managers\<close>

text \<open>
  What a manager reads from the configuration for each instance: the parameters of its pool.  A missing
  entry ends with the code 2, a pool that cannot be initialised with 3; \<open>None\<close> is undefined (an item of
  the list of instances that \<open>CStrExplode\<close> leaves uninitialised, or a configuration never loaded).
\<close>

definition conf_key :: "string \<Rightarrow> string \<Rightarrow> string" where
  "conf_key pool_name key_end = take 63 (cstr pool_name @ key_end)"

fun conf_values :: "CConfigFileReader \<Rightarrow> string \<Rightarrow> string list \<Rightarrow> string list option option" where
  "conf_values cfg name [] = Some (Some [])"
| "conf_values cfg name (s # ss) =
     (case (GetConfigName cfg (conf_key name s), conf_values cfg name ss) of
        (Some v, Some vs) \<Rightarrow> Some (case (v, vs) of (Some x, Some xs) \<Rightarrow> Some (x # xs) | _ \<Rightarrow> None)
      | _ \<Rightarrow> None)"

text \<open>\<open>insert\<close> of a map leaves an entry that is there.\<close>

definition pool_insert :: "string \<Rightarrow> 'p \<Rightarrow> (string \<times> 'p) list \<Rightarrow> (string \<times> 'p) list" where
  "pool_insert name p m = (if name \<in> fst ` set m then m else m @ [(name, p)])"

fun add_pools ::
  "CConfigFileReader \<Rightarrow> string list \<Rightarrow> (string \<Rightarrow> string list \<Rightarrow> 'p option) \<Rightarrow> string option list \<Rightarrow> (string \<times> 'p) list \<Rightarrow>
   ((string \<times> 'p) list \<times> int) option" where
  "add_pools cfg keys start [] m = Some (m, 0)"
| "add_pools cfg keys start (None # names) m = None"
| "add_pools cfg keys start (Some name # names) m =
     (case conf_values cfg name keys of
        None \<Rightarrow> None
      | Some None \<Rightarrow> Some (m, 2)
      | Some (Some vs) \<Rightarrow>
          (case start name vs of
             None \<Rightarrow> Some (m, 3)
           | Some p \<Rightarrow> add_pools cfg keys start names (pool_insert name p m)))"

definition manager_Init ::
  "string \<Rightarrow> string list \<Rightarrow> (string \<Rightarrow> string list \<Rightarrow> 'p option) \<Rightarrow> CConfigFileReader \<Rightarrow> ((string \<times> 'p) list \<times> int) option" where
  "manager_Init list_key keys start cfg =
     (case GetConfigName cfg list_key of
        None \<Rightarrow> None
      | Some None \<Rightarrow> Some ([], 1)
      | Some (Some instances) \<Rightarrow> add_pools cfg keys start (CStrExplode instances CHR '','') [])"

definition CacheManager_Init :: "(string \<Rightarrow> string list \<Rightarrow> 'p option) \<Rightarrow> CConfigFileReader \<Rightarrow> ((string \<times> 'p) list \<times> int) option" where
  "CacheManager_Init = manager_Init ''CacheInstances'' [''_host'', ''_port'', ''_db'', ''_maxconncnt'']"

definition CDBManager_Init :: "(string \<Rightarrow> string list \<Rightarrow> 'p option) \<Rightarrow> CConfigFileReader \<Rightarrow> ((string \<times> 'p) list \<times> int) option" where
  "CDBManager_Init =
     manager_Init ''DBInstances'' [''_host'', ''_port'', ''_dbname'', ''_username'', ''_password'', ''_maxconncnt'']"

text \<open>The pool a manager finds for a name.\<close>

definition find_pool :: "(string \<times> 'p) list \<Rightarrow> string \<Rightarrow> 'p option" where
  "find_pool m name = map_of m (cstr name)"

section \<open>The lock on file records\<close>

record file_lock =
  locked :: bool
  stopped :: bool

definition new_lock :: file_lock where "new_lock = \<lparr>locked = False, stopped = False\<rparr>"

definition lock_free :: "file_lock \<Rightarrow> bool" where "lock_free l \<longleftrightarrow> \<not> locked l \<or> stopped l"

text \<open>\<open>TryLockFor\<close> when its wait has ended, by the predicate or by the time-out; the result is whether the
  caller has the lock.\<close>

definition TryLock :: "file_lock \<Rightarrow> file_lock \<times> bool" where
  "TryLock l = (if \<not> lock_free l then (l, False) else if stopped l then (l, False) else (l\<lparr>locked := True\<rparr>, True))"

definition Unlock :: "file_lock \<Rightarrow> file_lock" where "Unlock l = l\<lparr>locked := False\<rparr>"

definition StopWaiting :: "file_lock \<Rightarrow> file_lock" where "StopWaiting l = l\<lparr>stopped := True\<rparr>"

definition lock_Reset :: "file_lock \<Rightarrow> file_lock" where "lock_Reset l = l\<lparr>stopped := False, locked := False\<rparr>"

section \<open>Threads\<close>

text \<open>
  The threads that use a pool: those asleep in \<open>wait\<close> or \<open>wait_for\<close> (with a time-out or not), those that
  have been woken and not yet run, and the connections handed out.
\<close>

record 'c sys =
  the_pool :: "'c pool"
  asleep :: "(nat \<times> bool) multiset"
  awake :: "(nat \<times> bool) multiset"
  in_use :: "(nat \<times> 'c) multiset"

definition conns :: "'c sys \<Rightarrow> 'c multiset" where
  "conns s = mset (free_list (the_pool s)) + image_mset snd (in_use s)"

text \<open>
  A thread asks for a connection (a new one is at a new address), goes on after its wait, wakes up
  without a reason, runs out of time, gives back a connection it has.
\<close>

inductive pool_step :: "'c sys \<Rightarrow> 'c sys \<Rightarrow> bool" where
  got: "GetConn opened (the_pool s) = (p, Got c) \<Longrightarrow> (\<And>d. opened = Some d \<Longrightarrow> d \<notin># conns s) \<Longrightarrow>
    pool_step s (s\<lparr>the_pool := p, in_use := add_mset (t, c) (in_use s)\<rparr>)"
| got_none: "GetConn opened (the_pool s) = (p, Null) \<Longrightarrow> pool_step s (s\<lparr>the_pool := p\<rparr>)"
| sleep: "GetConn opened (the_pool s) = (p, Wait) \<Longrightarrow>
    pool_step s (s\<lparr>the_pool := p, asleep := add_mset (t, timed) (asleep s)\<rparr>)"
| resume: "(t, timed) \<in># awake s \<Longrightarrow> wait_over (the_pool s) \<Longrightarrow> after_wait timed (the_pool s) = (p, Got c) \<Longrightarrow>
    pool_step s (s\<lparr>the_pool := p, awake := awake s - {#(t, timed)#}, in_use := add_mset (t, c) (in_use s)\<rparr>)"
| resume_none: "(t, timed) \<in># awake s \<Longrightarrow> wait_over (the_pool s) \<Longrightarrow> after_wait timed (the_pool s) = (p, Null) \<Longrightarrow>
    pool_step s (s\<lparr>the_pool := p, awake := awake s - {#(t, timed)#}\<rparr>)"
| sleep_again: "(t, timed) \<in># awake s \<Longrightarrow> \<not> wait_over (the_pool s) \<Longrightarrow>
    pool_step s (s\<lparr>awake := awake s - {#(t, timed)#}, asleep := add_mset (t, timed) (asleep s)\<rparr>)"
| wake: "(t, timed) \<in># asleep s \<Longrightarrow>
    pool_step s (s\<lparr>asleep := asleep s - {#(t, timed)#}, awake := add_mset (t, timed) (awake s)\<rparr>)"
| expire: "(t, True) \<in># asleep s \<Longrightarrow> after_wait True (the_pool s) = (p, Got c) \<Longrightarrow>
    pool_step s (s\<lparr>the_pool := p, asleep := asleep s - {#(t, True)#}, in_use := add_mset (t, c) (in_use s)\<rparr>)"
| expire_none: "(t, True) \<in># asleep s \<Longrightarrow> after_wait True (the_pool s) = (p, Null) \<Longrightarrow>
    pool_step s (s\<lparr>the_pool := p, asleep := asleep s - {#(t, True)#}\<rparr>)"
| release: "(t, c) \<in># in_use s \<Longrightarrow> RelConn c (the_pool s) = (p, notify) \<Longrightarrow>
    notify \<and> asleep s \<noteq> {#} \<Longrightarrow> w \<in># asleep s \<Longrightarrow>
    pool_step s (s\<lparr>the_pool := p, in_use := in_use s - {#(t, c)#}, asleep := asleep s - {#w#}, awake := add_mset w (awake s)\<rparr>)"
| release_quiet: "(t, c) \<in># in_use s \<Longrightarrow> RelConn c (the_pool s) = (p, notify) \<Longrightarrow>
    \<not> (notify \<and> asleep s \<noteq> {#}) \<Longrightarrow> pool_step s (s\<lparr>the_pool := p, in_use := in_use s - {#(t, c)#}\<rparr>)"

inductive_cases pool_stepE: "pool_step s s'"

definition started :: "'c pool \<Rightarrow> 'c sys" where
  "started p = \<lparr>the_pool = p, asleep = {#}, awake = {#}, in_use = {#}\<rparr>"

definition pool_reach :: "'c pool \<Rightarrow> 'c sys \<Rightarrow> bool" where
  "pool_reach p s \<longleftrightarrow> pool_step\<^sup>*\<^sup>* (started p) s"

text \<open>
  No connection is in two places; the counter counts those that are open and stays within the
  maximum; and of the waiting threads as many are awake as there are free connections, if that many
  wait.
\<close>

definition pool_inv :: "'c sys \<Rightarrow> bool" where
  "pool_inv s \<longleftrightarrow> (\<forall>c. count (conns s) c \<le> 1) \<and> cur_conn_cnt (the_pool s) = int (size (conns s)) \<and>
     \<not> abort_request (the_pool s) \<and>
     min (length (free_list (the_pool s))) (size (asleep s) + size (awake s)) \<le> size (awake s)"

lemma pop_free_cases:
  "pop_free p = (p', g) \<Longrightarrow> (free_list p = [] \<and> p' = p \<and> g = Null) \<or>
     (\<exists>c cs. free_list p = c # cs \<and> p' = p\<lparr>free_list := cs\<rparr> \<and> g = Got c)"
  by (cases "free_list p") (auto simp: pop_free_def)

lemma GetConn_cases:
  assumes "GetConn opened p = (p', g)" and "\<not> abort_request p"
  shows "(\<exists>c cs. free_list p = c # cs \<and> p' = p\<lparr>free_list := cs\<rparr> \<and> g = Got c) \<or>
    (free_list p = [] \<and> max_conn_cnt p \<le> cur_conn_cnt p \<and> p' = p \<and> g = Wait) \<or>
    (free_list p = [] \<and> cur_conn_cnt p < max_conn_cnt p \<and> opened = None \<and> p' = p \<and> g = Null) \<or>
    (\<exists>c. free_list p = [] \<and> cur_conn_cnt p < max_conn_cnt p \<and> opened = Some c \<and>
       p' = p\<lparr>cur_conn_cnt := cur_conn_cnt p + 1\<rparr> \<and> g = Got c)"
  using assms by (cases p) (auto simp: GetConn_def pop_free_def split: if_splits option.splits list.splits)

lemma after_wait_cases:
  assumes "after_wait timed p = (p', g)" and "\<not> abort_request p"
  shows "(free_list p = [] \<and> p' = p \<and> g = Null) \<or>
    (\<exists>c cs. free_list p = c # cs \<and> p' = p\<lparr>free_list := cs\<rparr> \<and> g = Got c)"
  using assms pop_free_cases by (auto simp: after_wait_def split: if_splits)

text \<open>The invariant speaks of the connections only as a whole.\<close>

lemma pool_inv_moved:
  assumes "pool_inv s" and "conns s' = conns s" and "cur_conn_cnt (the_pool s') = cur_conn_cnt (the_pool s)"
    and "abort_request (the_pool s') = abort_request (the_pool s)"
    and "min (length (free_list (the_pool s'))) (size (asleep s') + size (awake s')) \<le> size (awake s')"
  shows "pool_inv s'"
  using assms unfolding pool_inv_def by simp

lemma pool_inv_opened:
  assumes "pool_inv s" and "conns s' = add_mset d (conns s)" and "d \<notin># conns s"
    and "cur_conn_cnt (the_pool s') = cur_conn_cnt (the_pool s) + 1"
    and "abort_request (the_pool s') = abort_request (the_pool s)" and "free_list (the_pool s') = []"
  shows "pool_inv s'"
  using assms unfolding pool_inv_def by (simp add: not_in_iff)

lemma mset_taken: "x \<in># M \<Longrightarrow> \<exists>N. M = add_mset x N \<and> M - {#x#} = N \<and> size M = Suc (size N)"
  by (metis add_mset_remove_trivial multi_member_split size_add_mset)

lemma waiters:
  "pool_inv s \<Longrightarrow> min (length (free_list (the_pool s))) (size (asleep s) + size (awake s)) \<le> size (awake s)"
  "pool_inv s \<Longrightarrow> \<not> abort_request (the_pool s)"
  by (simp_all add: pool_inv_def)

lemma released:
  assumes "pool_inv s" and "(t, c) \<in># in_use s" and "RelConn c (the_pool s) = (p, notify)"
  shows "notify \<and> p = (the_pool s)\<lparr>free_list := free_list (the_pool s) @ [c]\<rparr>"
proof -
  obtain N where N: "in_use s = add_mset (t, c) N" using mset_taken [OF assms(2)] by blast
  have "count (conns s) c \<le> 1" using assms(1) by (simp add: pool_inv_def)
  then have "c \<notin> set (free_list (the_pool s))" by (auto simp: conns_def N simp flip: count_mset_0_iff)
  then show ?thesis using assms(3) by (auto simp: RelConn_def)
qed

lemma handed_out:
  assumes "pool_inv s" and "free_list (the_pool s) = c # cs" and "the_pool s' = (the_pool s)\<lparr>free_list := cs\<rparr>"
    and "in_use s' = add_mset (t, c) (in_use s)"
    and "min (length cs) (size (asleep s') + size (awake s')) \<le> size (awake s')"
  shows "pool_inv s'"
  by (rule pool_inv_moved [OF assms(1)]) (use assms(2-) in \<open>simp_all add: conns_def\<close>)

lemma pool_step_inv:
  assumes "pool_step s s'" and inv: "pool_inv s"
  shows "pool_inv s' \<and> max_conn_cnt (the_pool s') = max_conn_cnt (the_pool s) \<and>
    cur_conn_cnt (the_pool s') \<le> max (cur_conn_cnt (the_pool s)) (max_conn_cnt (the_pool s))"
proof -
  note a = waiters(2) [OF inv] and w = waiters(1) [OF inv]
  from assms(1) show ?thesis
  proof (cases rule: pool_step.cases)
    case (got opened p c t)
    consider cs where "free_list (the_pool s) = c # cs" "p = (the_pool s)\<lparr>free_list := cs\<rparr>"
      | "free_list (the_pool s) = []" "opened = Some c" "p = (the_pool s)\<lparr>cur_conn_cnt := cur_conn_cnt (the_pool s) + 1\<rparr>"
        "cur_conn_cnt (the_pool s) < max_conn_cnt (the_pool s)"
      using GetConn_cases [OF got(2) a] by auto
    then show ?thesis
    proof cases
      case 1
      then have "pool_inv s'" using w got(1) by (intro handed_out [OF inv 1(1), of s' t]) auto
      then show ?thesis using 1 got(1) by simp
    next
      case 2
      then have "pool_inv s'" using got(1,3) by (intro pool_inv_opened [OF inv, of s' c]) (auto simp: conns_def)
      then show ?thesis using 2 got(1) by simp
    qed
  next
    case (got_none opened p)
    then show ?thesis using GetConn_cases [OF got_none(2) a] inv by auto
  next
    case (sleep opened p t timed)
    then have "free_list (the_pool s) = []" "p = the_pool s" using GetConn_cases [OF sleep(2) a] by auto
    then show ?thesis using sleep(1) inv by (auto intro: pool_inv_moved [OF inv] simp: conns_def)
  next
    case (resume t timed p c)
    obtain N where N: "awake s = add_mset (t, timed) N" using mset_taken [OF resume(2)] by blast
    obtain cs where cs: "free_list (the_pool s) = c # cs" "p = (the_pool s)\<lparr>free_list := cs\<rparr>"
      using after_wait_cases [OF resume(4) a] by auto
    then have "pool_inv s'" using w resume(1) N by (intro handed_out [OF inv cs(1), of s' t]) auto
    then show ?thesis using cs resume(1) by simp
  next
    case (resume_none t timed p)
    then show ?thesis using after_wait_cases [OF resume_none(4) a] a by (auto simp: wait_over_def)
  next
    case (sleep_again t timed)
    then have "free_list (the_pool s) = []" by (simp add: wait_over_def)
    then show ?thesis using sleep_again(1) inv by (auto intro: pool_inv_moved [OF inv] simp: conns_def)
  next
    case (wake t timed)
    obtain N where N: "asleep s = add_mset (t, timed) N" using mset_taken [OF wake(2)] by blast
    have "pool_inv s'" using w wake(1) N by (intro pool_inv_moved [OF inv]) (auto simp: conns_def)
    then show ?thesis using wake(1) by simp
  next
    case (expire t p c)
    obtain N where N: "asleep s = add_mset (t, True) N" using mset_taken [OF expire(2)] by blast
    obtain cs where cs: "free_list (the_pool s) = c # cs" "p = (the_pool s)\<lparr>free_list := cs\<rparr>"
      using after_wait_cases [OF expire(3) a] by auto
    then have "pool_inv s'" using w expire(1) N by (intro handed_out [OF inv cs(1), of s' t]) auto
    then show ?thesis using cs expire(1) by simp
  next
    case (expire_none t p)
    then have "free_list (the_pool s) = []" "p = the_pool s" using after_wait_cases [OF expire_none(3) a] by auto
    then show ?thesis using expire_none(1) inv by (auto intro: pool_inv_moved [OF inv] simp: conns_def)
  next
    case (release t c p notify x)
    obtain N where N: "in_use s = add_mset (t, c) N" using mset_taken [OF release(2)] by blast
    obtain M where M: "asleep s = add_mset x M" using mset_taken [OF release(5)] by blast
    have p: "p = (the_pool s)\<lparr>free_list := free_list (the_pool s) @ [c]\<rparr>" using released [OF inv release(2,3)] by simp
    have "pool_inv s'" using w release(1) N M p by (intro pool_inv_moved [OF inv]) (auto simp: conns_def)
    then show ?thesis using release(1) p by simp
  next
    case (release_quiet t c p notify)
    obtain N where N: "in_use s = add_mset (t, c) N" using mset_taken [OF release_quiet(2)] by blast
    have p: "notify" "p = (the_pool s)\<lparr>free_list := free_list (the_pool s) @ [c]\<rparr>"
      using released [OF inv release_quiet(2,3)] by simp_all
    then have "asleep s = {#}" using release_quiet(4) by simp
    then have "pool_inv s'" using release_quiet(1) N p by (intro pool_inv_moved [OF inv]) (auto simp: conns_def)
    then show ?thesis using release_quiet(1) p by simp
  qed
qed

text \<open>C18. Whatever threads do with a pool that has been initialised: no connection is free twice, or handed
  out twice, or both; the counter is the number of open connections, and exceeds the maximum only
  if already the initial connections do.\<close>

theorem pool_invariant:
  assumes "pool_Init opened (new_pool min_cnt max_cnt) = (p, 0)" and "\<And>i. opened i \<noteq> Inl 0"
    and "distinct (free_list p)" and "0 \<le> min_cnt" and "pool_reach p s"
  shows "(\<forall>c. count (conns s) c \<le> 1) \<and> cur_conn_cnt (the_pool s) = int (size (conns s)) \<and>
    cur_conn_cnt (the_pool s) \<le> max min_cnt max_cnt"
proof -
  have len: "snd (open_conns opened i n) = 0 \<Longrightarrow> length (fst (open_conns opened i n)) = n" for i n
    using assms(2) by (induction n arbitrary: i) (auto split: sum.splits)
  have p: "length (free_list p) = nat min_cnt" "cur_conn_cnt p = min_cnt" "max_conn_cnt p = max_cnt" "\<not> abort_request p"
    using assms(1,4) len by (auto simp: pool_Init_def new_pool_def Let_def)
  have "pool_inv (started p)"
    using assms(3,4) p distinct_count_atmost_1 [of "free_list p"]
    by (auto simp: pool_inv_def started_def conns_def)
  then have "pool_inv (started p) \<and> max_conn_cnt (the_pool (started p)) = max_cnt \<and>
      cur_conn_cnt (the_pool (started p)) \<le> max min_cnt max_cnt"
    using p by (simp add: started_def)
  with assms(5) [unfolded pool_reach_def]
  have "pool_inv s \<and> max_conn_cnt (the_pool s) = max_cnt \<and> cur_conn_cnt (the_pool s) \<le> max min_cnt max_cnt"
  proof (induction rule: rtranclp_induct)
    case (step y z)
    then show ?case using pool_step_inv [OF step(2)] by auto
  qed simp
  then show ?thesis by (auto simp: pool_inv_def)
qed

text \<open>C10. No wake-up is lost: in every state that threads can reach, if a connection is free and a thread
  waits for one, then a thread that waits has been woken and will take it when it runs; it is
  enough that \<open>RelConn\<close> notifies one thread at a time.\<close>

theorem pool_no_lost_wakeup:
  assumes "pool_reach p s" and "pool_inv (started p)" and "free_list (the_pool s) = c # cs" and "asleep s + awake s \<noteq> {#}"
  shows "\<exists>t timed. (t, timed) \<in># awake s \<and>
    pool_step s (s\<lparr>the_pool := (the_pool s)\<lparr>free_list := cs\<rparr>, awake := awake s - {#(t, timed)#}, in_use := add_mset (t, c) (in_use s)\<rparr>)"
proof -
  have inv: "pool_inv s"
    using assms(1,2) unfolding pool_reach_def by (induction rule: rtranclp_induct) (auto dest: pool_step_inv)
  have "size (asleep s) + size (awake s) \<noteq> 0" using assms(4) by (metis size_eq_0_iff_empty size_union)
  then have "awake s \<noteq> {#}" using waiters(1) [OF inv] assms(3) by (auto simp: min_def split: if_splits)
  then obtain t timed where t: "(t, timed) \<in># awake s" by (metis multiset_nonemptyE surj_pair)
  have "after_wait timed (the_pool s) = ((the_pool s)\<lparr>free_list := cs\<rparr>, Got c)"
    using assms(3) waiters(2) [OF inv] by (simp add: after_wait_def pop_free_def)
  then have "pool_step s (s\<lparr>the_pool := (the_pool s)\<lparr>free_list := cs\<rparr>, awake := awake s - {#(t, timed)#},
      in_use := add_mset (t, c) (in_use s)\<rparr>)"
    using assms(3) by (intro pool_step.resume [OF t]) (simp_all add: wait_over_def)
  then show ?thesis using t by blast
qed


theorem pool_invariant_witness:
  "\<exists>p s. pool_Init (\<lambda>i. Inr i) (new_pool 2 4) = (p, 0 :: int) \<and> pool_reach p s \<and> in_use s = {#(7, 0 :: nat)#} \<and>
     (\<forall>c. count (conns s) c \<le> 1) \<and> cur_conn_cnt (the_pool s) \<le> 4"
proof -
  let ?p = "\<lparr>cur_conn_cnt = 2, max_conn_cnt = 4, free_list = [0, 1 :: nat], abort_request = False\<rparr>"
  let ?s = "(started ?p)\<lparr>the_pool := ?p\<lparr>free_list := [1]\<rparr>, in_use := add_mset (7, 0) {#}\<rparr>"
  have i: "pool_Init (\<lambda>i. Inr i) (new_pool 2 4) = (?p, 0)"
    by (simp add: pool_Init_def new_pool_def numeral_2_eq_2)
  have "pool_step (started ?p) ?s"
    using pool_step.got [of None "started ?p" "?p\<lparr>free_list := [1]\<rparr>" 0 7]
    by (simp add: GetConn_def pop_free_def started_def)
  then have r: "pool_reach ?p ?s" by (simp add: pool_reach_def)
  have "(\<forall>c. count (conns ?s) c \<le> 1) \<and> cur_conn_cnt (the_pool ?s) = int (size (conns ?s)) \<and>
      cur_conn_cnt (the_pool ?s) \<le> max 2 4"
    by (rule pool_invariant [OF i _ _ _ r]) simp_all
  then show ?thesis using i r by (intro exI [of _ ?p] exI [of _ ?s]) simp
qed

text \<open>One connection, which a thread has while another waits; it is given back.\<close>

definition handover :: "nat sys" where
  "handover = \<lparr>the_pool = \<lparr>cur_conn_cnt = 1, max_conn_cnt = 1, free_list = [5], abort_request = False\<rparr>,
     asleep = {#}, awake = {#(2, False)#}, in_use = {#}\<rparr>"

lemma handover_reached:
  "pool_reach \<lparr>cur_conn_cnt = 1, max_conn_cnt = 1, free_list = [5], abort_request = False\<rparr> handover"
proof -
  let ?p = "\<lparr>cur_conn_cnt = 1, max_conn_cnt = 1, free_list = [5 :: nat], abort_request = False\<rparr>"
  let ?q = "?p\<lparr>free_list := []\<rparr>"
  let ?s1 = "(started ?p)\<lparr>the_pool := ?q, in_use := {#(1, 5)#}\<rparr>"
  let ?s2 = "?s1\<lparr>asleep := {#(2, False)#}\<rparr>"
  have "pool_step (started ?p) ?s1"
    using pool_step.got [of None "started ?p" ?q 5 1] by (simp add: GetConn_def pop_free_def started_def)
  moreover have "pool_step ?s1 ?s2"
    using pool_step.sleep [of None ?s1 ?q 2 False] by (simp add: GetConn_def started_def)
  moreover have "pool_step ?s2 handover"
    using pool_step.release [of 1 5 ?s2 ?p True "(2, False)"] by (simp add: RelConn_def started_def handover_def)
  ultimately show ?thesis unfolding pool_reach_def by (meson converse_rtranclp_into_rtranclp rtranclp.rtrancl_refl)
qed

theorem pool_no_lost_wakeup_witness:
  "\<exists>s'. pool_step handover s' \<and> in_use s' = {#(2, 5)#}"
proof -
  let ?p = "\<lparr>cur_conn_cnt = 1, max_conn_cnt = 1, free_list = [5 :: nat], abort_request = False\<rparr>"
  have "pool_inv (started ?p)" by (auto simp: pool_inv_def started_def conns_def)
  from pool_no_lost_wakeup [OF handover_reached this, of 5 "[]"] show ?thesis
    by (auto simp: handover_def)
qed

section \<open>Users of the lock\<close>

text \<open>
  \<open>ScopedFileInfoLock\<close> in several threads: those in \<open>TryLockFor\<close>, asleep or woken, and those that have
  the lock, which give it back at the end of their scope.
\<close>

record lock_sys =
  the_lock :: file_lock
  lock_asleep :: "nat multiset"
  lock_awake :: "nat multiset"
  holders :: "nat multiset"

inductive lock_step :: "lock_sys \<Rightarrow> lock_sys \<Rightarrow> bool" where
  enter: "lock_free (the_lock s) \<Longrightarrow> TryLock (the_lock s) = (l, ok) \<Longrightarrow>
    lock_step s (s\<lparr>the_lock := l, holders := (if ok then add_mset t (holders s) else holders s)\<rparr>)"
| enter_wait: "\<not> lock_free (the_lock s) \<Longrightarrow> lock_step s (s\<lparr>lock_asleep := add_mset t (lock_asleep s)\<rparr>)"
| lock_wake: "t \<in># lock_asleep s \<Longrightarrow>
    lock_step s (s\<lparr>lock_asleep := lock_asleep s - {#t#}, lock_awake := add_mset t (lock_awake s)\<rparr>)"
| lock_resume: "t \<in># lock_awake s \<Longrightarrow> lock_free (the_lock s) \<Longrightarrow> TryLock (the_lock s) = (l, ok) \<Longrightarrow>
    lock_step s (s\<lparr>the_lock := l, lock_awake := lock_awake s - {#t#},
      holders := (if ok then add_mset t (holders s) else holders s)\<rparr>)"
| lock_sleep_again: "t \<in># lock_awake s \<Longrightarrow> \<not> lock_free (the_lock s) \<Longrightarrow>
    lock_step s (s\<lparr>lock_awake := lock_awake s - {#t#}, lock_asleep := add_mset t (lock_asleep s)\<rparr>)"
| lock_expire: "t \<in># lock_asleep s \<Longrightarrow> TryLock (the_lock s) = (l, ok) \<Longrightarrow>
    lock_step s (s\<lparr>the_lock := l, lock_asleep := lock_asleep s - {#t#},
      holders := (if ok then add_mset t (holders s) else holders s)\<rparr>)"
| leave: "t \<in># holders s \<Longrightarrow> u \<in># lock_asleep s \<Longrightarrow>
    lock_step s (s\<lparr>the_lock := Unlock (the_lock s), holders := holders s - {#t#},
      lock_asleep := lock_asleep s - {#u#}, lock_awake := add_mset u (lock_awake s)\<rparr>)"
| leave_quiet: "t \<in># holders s \<Longrightarrow> lock_asleep s = {#} \<Longrightarrow>
    lock_step s (s\<lparr>the_lock := Unlock (the_lock s), holders := holders s - {#t#}\<rparr>)"
| stop: "lock_step s (s\<lparr>the_lock := StopWaiting (the_lock s), lock_asleep := {#}, lock_awake := lock_awake s + lock_asleep s\<rparr>)"

definition lock_start :: lock_sys where
  "lock_start = \<lparr>the_lock = new_lock, lock_asleep = {#}, lock_awake = {#}, holders = {#}\<rparr>"

definition lock_inv :: "lock_sys \<Rightarrow> bool" where
  "lock_inv s \<longleftrightarrow> size (holders s) = (if locked (the_lock s) then 1 else 0) \<and>
     (lock_free (the_lock s) \<and> lock_asleep s \<noteq> {#} \<longrightarrow> lock_awake s \<noteq> {#} \<or> stopped (the_lock s))"

lemma TryLock_cases:
  "TryLock l = (l', ok) \<Longrightarrow> (ok \<and> \<not> locked l \<and> \<not> stopped l \<and> l' = l\<lparr>locked := True\<rparr>) \<or> (\<not> ok \<and> l' = l \<and> (locked l \<or> stopped l))"
  by (auto simp: TryLock_def lock_free_def split: if_splits)

lemma lock_step_inv: "lock_step s s' \<Longrightarrow> lock_inv s \<Longrightarrow> lock_inv s'"
proof (induction rule: lock_step.induct)
  case (leave t s u)
  obtain N where "holders s = add_mset t N" using mset_taken [OF leave(1)] by blast
  then show ?case using leave(3) by (auto simp: lock_inv_def Unlock_def split: if_splits)
next
  case (leave_quiet t s)
  obtain N where "holders s = add_mset t N" using mset_taken [OF leave_quiet(1)] by blast
  then show ?case using leave_quiet by (auto simp: lock_inv_def Unlock_def split: if_splits)
qed (auto simp: lock_inv_def lock_free_def StopWaiting_def dest!: TryLock_cases split: if_splits)

text \<open>C19. At most one thread at a time has the lock on the file records, and the flag \<open>locked_\<close> says whether
  one has it; when it is given back while threads wait, one of them is woken.  (\<open>Reset\<close>, which no
  one calls, would break this.)\<close>

theorem lock_exclusive:
  assumes "lock_step\<^sup>*\<^sup>* lock_start s"
  shows "size (holders s) \<le> 1 \<and> (locked (the_lock s) \<longleftrightarrow> holders s \<noteq> {#}) \<and>
    (\<not> locked (the_lock s) \<and> \<not> stopped (the_lock s) \<and> lock_asleep s \<noteq> {#} \<longrightarrow> lock_awake s \<noteq> {#})"
proof -
  have "lock_inv lock_start" by (simp add: lock_start_def lock_inv_def new_lock_def)
  with assms have "lock_inv s" by (induction rule: rtranclp_induct) (blast intro: lock_step_inv)+
  then show ?thesis by (auto simp: lock_inv_def lock_free_def split: if_splits)
qed

theorem lock_exclusive_witness:
  "\<exists>s. lock_step\<^sup>*\<^sup>* lock_start s \<and> holders s = {#3#} \<and> lock_asleep s = {#4#} \<and> size (holders s) \<le> 1"
proof -
  let ?s1 = "lock_start\<lparr>the_lock := \<lparr>locked = True, stopped = False\<rparr>, holders := {#3#}\<rparr>"
  let ?s2 = "?s1\<lparr>lock_asleep := {#4#}\<rparr>"
  have "lock_step lock_start ?s1"
    using lock_step.enter [of lock_start "\<lparr>locked = True, stopped = False\<rparr>" True 3]
    by (simp add: lock_start_def new_lock_def lock_free_def TryLock_def)
  moreover have "lock_step ?s1 ?s2"
    using lock_step.enter_wait [of ?s1 4] by (simp add: lock_start_def lock_free_def)
  ultimately have "lock_step\<^sup>*\<^sup>* lock_start ?s2" by (meson converse_rtranclp_into_rtranclp rtranclp.rtrancl_refl)
  then show ?thesis using lock_exclusive [of ?s2] by (intro exI [of _ ?s2]) (simp add: lock_start_def)
qed

text \<open>\<open>Reset\<close> frees the lock under the thread that has it.\<close>

lemma Reset_breaks: "fst (TryLock (lock_Reset \<lparr>locked = True, stopped = False\<rparr>)) = \<lparr>locked = True, stopped = False\<rparr> \<and>
    snd (TryLock (lock_Reset \<lparr>locked = True, stopped = False\<rparr>))"
  by (simp add: TryLock_def lock_Reset_def lock_free_def)

end
