(* ===== verification/Database.thy ===== *)
theory Database
  imports Util
begin

text \<open>
  The MySQL connection of FileHub, the classes \<open>CDBConn\<close>, \<open>CResultSet\<close> and \<open>CPrepareStatement\<close> of
  \<open>mysql/db_pool.cc\<close>, and the queries of \<open>api/api_common.cc\<close>.

  The MySQL client library is a parameter: what a statement, given as text, does to the world \<open>'w\<close> and
  what the library then reports.  A column value is \<open>None\<close> for SQL's NULL, which the library gives as
  a NULL pointer.  A run is \<open>None\<close> where the code has undefined behaviour or throws: a NULL pointer is
  read, a string is made of one, a text does not fit its buffer.
\<close>

section \<open>The library\<close>

text \<open>\<open>QueryError\<close>: \<open>mysql_real_query\<close> fails; \<open>StoreError\<close>: it succeeds and \<open>mysql_store_result\<close> fails.\<close>

datatype query_result =
    QueryError
  | StoreError
  | Rows "string list" "string option list list"
  | Affected nat

record 'w mysql =
  real_query :: "string \<Rightarrow> 'w \<Rightarrow> query_result \<times> 'w"
  stmt_prepare :: "string \<Rightarrow> 'w \<Rightarrow> nat option \<times> 'w"
  stmt_execute :: "string \<Rightarrow> string option list \<Rightarrow> 'w \<Rightarrow> nat option \<times> 'w"

text \<open>A thing done in the world.\<close>

type_synonym ('w, 'a) act = "'w \<Rightarrow> ('a \<times> 'w) option"

section \<open>Result sets\<close>

text \<open>The columns, the rows not yet fetched, and the current row.\<close>

record CResultSet =
  rs_keys :: "(string \<times> nat) list"
  rs_rows :: "string option list list"
  rs_row :: "string option list option"

text \<open>\<open>key_map_\<close> keeps the first of two columns with the same name.\<close>

definition new_CResultSet :: "string list \<Rightarrow> string option list list \<Rightarrow> CResultSet" where
  "new_CResultSet cols rows = \<lparr>rs_keys = zip cols [0..<length cols], rs_rows = rows, rs_row = None\<rparr>"

definition rs_Next :: "CResultSet \<Rightarrow> CResultSet \<times> bool" where
  "rs_Next rs =
     (case rs_rows rs of
        [] \<Rightarrow> (rs\<lparr>rs_row := None\<rparr>, False)
      | r # rows \<Rightarrow> (rs\<lparr>rs_rows := rows, rs_row := Some r\<rparr>, True))"

definition rs_GetIndex :: "CResultSet \<Rightarrow> string \<Rightarrow> nat option" where
  "rs_GetIndex rs key = map_of (rs_keys rs) (cstr key)"

text \<open>The value of a column of the current row.\<close>

definition rs_field :: "CResultSet \<Rightarrow> nat \<Rightarrow> string option option" where
  "rs_field rs i = do { r \<leftarrow> rs_row rs; if i < length r then Some (r ! i) else None }"

definition GetInt :: "CResultSet \<Rightarrow> string \<Rightarrow> int option" where
  "GetInt rs key =
     (case rs_GetIndex rs key of
        None \<Rightarrow> Some 0
      | Some i \<Rightarrow> do { v \<leftarrow> rs_field rs i; s \<leftarrow> v; Some (atoi (cstr s)) })"

text \<open>The inner option is the pointer; a C++ string is made of it by \<open>GetStr\<close>.\<close>

definition GetString :: "CResultSet \<Rightarrow> string \<Rightarrow> string option option" where
  "GetString rs key = (case rs_GetIndex rs key of None \<Rightarrow> Some None | Some i \<Rightarrow> rs_field rs i)"

definition GetStr :: "CResultSet \<Rightarrow> string \<Rightarrow> string option" where
  "GetStr rs key = do { v \<leftarrow> GetString rs key; map_option cstr v }"

section \<open>Statements\<close>

definition run_query :: "'w mysql \<Rightarrow> string \<Rightarrow> 'w \<Rightarrow> query_result \<times> 'w" where
  "run_query M sql_query w = real_query M (cstr sql_query) w"

definition ExecuteCreate :: "'w mysql \<Rightarrow> string \<Rightarrow> 'w \<Rightarrow> bool \<times> 'w" where
  "ExecuteCreate M sql_query w = (let (r, w1) = run_query M sql_query w in (r \<noteq> QueryError, w1))"

definition ExecutePassQuery :: "'w mysql \<Rightarrow> string \<Rightarrow> 'w \<Rightarrow> bool \<times> 'w" where
  "ExecutePassQuery M sql_query w = (let (r, w1) = run_query M sql_query w in (r \<noteq> QueryError, w1))"

definition ExecuteDrop :: "'w mysql \<Rightarrow> string \<Rightarrow> 'w \<Rightarrow> bool \<times> 'w" where
  "ExecuteDrop M sql_query w = (let (r, w1) = run_query M sql_query w in (r \<noteq> QueryError, w1))"

text \<open>\<open>None\<close> is NULL; a statement that is not a query has no result set.\<close>

definition ExecuteQuery :: "'w mysql \<Rightarrow> string \<Rightarrow> 'w \<Rightarrow> CResultSet option \<times> 'w" where
  "ExecuteQuery M sql_query w =
     (let (r, w1) = run_query M sql_query w
      in case r of
           Rows cols rows \<Rightarrow> (Some (new_CResultSet cols rows), w1)
         | _ \<Rightarrow> (None, w1))"

text \<open>\<open>mysql_affected_rows\<close> is unsigned; before the rows of a query are stored it is the greatest value.\<close>

definition affected_rows :: "query_result \<Rightarrow> nat" where
  "affected_rows r = (case r of Affected n \<Rightarrow> n | _ \<Rightarrow> 2 ^ 64 - 1)"

definition ExecuteUpdate :: "'w mysql \<Rightarrow> string \<Rightarrow> bool \<Rightarrow> 'w \<Rightarrow> bool \<times> 'w" where
  "ExecuteUpdate M sql_query care_affected_rows w =
     (let (r, w1) = run_query M sql_query w
      in (if r = QueryError then False else if 0 < affected_rows r then True else \<not> care_affected_rows, w1))"

definition StartTransaction :: "'w mysql \<Rightarrow> 'w \<Rightarrow> bool \<times> 'w" where
  "StartTransaction M w = (let (r, w1) = real_query M ''start transaction'' w in (r \<noteq> QueryError, w1))"

definition Rollback :: "'w mysql \<Rightarrow> 'w \<Rightarrow> bool \<times> 'w" where
  "Rollback M w = (let (r, w1) = real_query M ''rollback'' w in (r \<noteq> QueryError, w1))"

definition Commit :: "'w mysql \<Rightarrow> 'w \<Rightarrow> bool \<times> 'w" where
  "Commit M w = (let (r, w1) = real_query M ''commit'' w in (r \<noteq> QueryError, w1))"

text \<open>A prepared statement: its text and its parameters, \<open>None\<close> while it has not been initialised.\<close>

record CPrepareStatement =
  ps_stmt :: "string option"
  ps_params :: "string option list"

definition new_CPrepareStatement :: CPrepareStatement where
  "new_CPrepareStatement = \<lparr>ps_stmt = None, ps_params = []\<rparr>"

definition ps_Init :: "'w mysql \<Rightarrow> string \<Rightarrow> 'w \<Rightarrow> (CPrepareStatement \<times> bool) \<times> 'w" where
  "ps_Init M sql w =
     (let (n, w1) = stmt_prepare M sql w
      in case n of
           None \<Rightarrow> ((new_CPrepareStatement, False), w1)
         | Some k \<Rightarrow> ((\<lparr>ps_stmt = Some sql, ps_params = replicate k None\<rparr>, True), w1))"

definition SetParam :: "nat \<Rightarrow> string \<Rightarrow> CPrepareStatement \<Rightarrow> CPrepareStatement" where
  "SetParam index value ps =
     (if length (ps_params ps) \<le> index then ps else ps\<lparr>ps_params := (ps_params ps)[index := Some value]\<rparr>)"

definition ps_ExecuteUpdate :: "'w mysql \<Rightarrow> CPrepareStatement \<Rightarrow> 'w \<Rightarrow> bool \<times> 'w" where
  "ps_ExecuteUpdate M ps w =
     (case ps_stmt ps of
        None \<Rightarrow> (False, w)
      | Some sql \<Rightarrow>
          let (r, w1) = stmt_execute M sql (ps_params ps) w
          in (case r of None \<Rightarrow> False | Some n \<Rightarrow> n \<noteq> 0, w1))"

section \<open>The queries of \<open>api_common.cc\<close>\<close>

text \<open>The results of the first two functions are the status and the value of the caller's variable.  They
  look for a row also when there is no result set.\<close>

definition GetResultOneCount :: "'w mysql \<Rightarrow> string \<Rightarrow> int \<Rightarrow> ('w, int \<times> int) act" where
  "GetResultOneCount M sql_cmd count w =
     do {
       let (result_set, w1) = ExecuteQuery M sql_cmd w;
       rs \<leftarrow> result_set;
       let (rs1, more) = rs_Next rs;
       if count = 0 then
         (if more then do { c \<leftarrow> GetInt rs1 ''count''; Some ((0, c), w1) } else Some ((1, count), w1))
       else Some ((if more then 2 else 1, count), w1)
     }"

definition GetResultOneStatus :: "'w mysql \<Rightarrow> string \<Rightarrow> int \<Rightarrow> ('w, int \<times> int) act" where
  "GetResultOneStatus M sql_cmd shared_status w =
     do {
       let (result_set, w1) = ExecuteQuery M sql_cmd w;
       rs \<leftarrow> result_set;
       let (rs1, more) = rs_Next rs;
       if more then do { s \<leftarrow> GetInt rs1 ''shared_status''; Some ((0, s), w1) } else Some ((-1, shared_status), w1)
     }"

definition CheckwhetherHaveRecord :: "'w mysql \<Rightarrow> string \<Rightarrow> 'w \<Rightarrow> int \<times> 'w" where
  "CheckwhetherHaveRecord M sql_cmd w =
     (let (result_set, w1) = ExecuteQuery M sql_cmd w
      in (case result_set of None \<Rightarrow> -1 | Some rs \<Rightarrow> if snd (rs_Next rs) then 1 else 0, w1))"

text \<open>The number \<open>count(*)\<close> gives, with the status.\<close>

definition count_query :: "'w mysql \<Rightarrow> string \<Rightarrow> ('w, int \<times> int) act" where
  "count_query M sql w =
     do {
       let (result_set, w1) = ExecuteQuery M sql w;
       case result_set of
         None \<Rightarrow> Some ((-1, 0), w1)
       | Some rs \<Rightarrow>
           (let (rs1, more) = rs_Next rs
            in if more then do { c \<leftarrow> GetInt rs1 ''count(*)''; Some ((0, c), w1) } else Some ((0, 0), w1))
     }"

definition DBGetUserFilesCountByUsername :: "'w mysql \<Rightarrow> string \<Rightarrow> ('w, int \<times> int) act" where
  "DBGetUserFilesCountByUsername M user_name =
     count_query M (''select count(*) from user_file_list where user='' @ [SQUOT] @ cstr user_name @ [SQUOT])"

definition DBGetSharePictureCountByUsername :: "'w mysql \<Rightarrow> string \<Rightarrow> ('w, int \<times> int) act" where
  "DBGetSharePictureCountByUsername M user_name =
     count_query M (''select count(*) from share_picture_list where user='' @ [SQUOT] @ cstr user_name @ [SQUOT])"

text \<open>\<open>sprintf\<close> into a buffer of \<open>n\<close> bytes.\<close>

definition in_buf :: "nat \<Rightarrow> string \<Rightarrow> string option" where
  "in_buf n t = (if length t < n then Some t else None)"

definition SQL_MAX_LEN :: nat where "SQL_MAX_LEN = 512"

end
