(* ===== verification/Api_Common.thy ===== *)
theory Api_Common
  imports Database
begin

text \<open>
  What the request handlers of \<open>api/\<close> share: the services they use, JSON, and the functions of
  \<open>api/api_common.cc\<close> on tokens and counters.

  The handlers are functions of the world \<open>'w\<close>, which a record of services acts on: MySQL, the Redis
  connection of a pool (the functions of \<open>Cache_Conn\<close>, by pool), the pools and the lock (those of
  \<open>Pool\<close>), the clock, the random source, FastDFS.  A handler may fail with undefined behaviour or an
  exception nobody catches, and is \<open>None\<close> then.
\<close>

section \<open>JSON\<close>

text \<open>
  The values of jsoncpp; a real number is opaque.  The parser and the printers are parameters, as is
  what the library makes of a real number.
\<close>

datatype json = JNull | JBool bool | JInt int | JReal nat | JStr string | JArr "json list" | JObj "(string \<times> json) list"

record json_lib =
  parse_json :: "string \<Rightarrow> json option"
  write_compact :: "json \<Rightarrow> string"
  write_styled :: "json \<Rightarrow> string"
  real_text :: "nat \<Rightarrow> string"
  real_int :: "nat \<Rightarrow> int option"

text \<open>\<open>root[key]\<close>: a missing member is null, and a value that is neither an object nor null throws.\<close>

definition member :: "json \<Rightarrow> string \<Rightarrow> json option" where
  "member root key =
     (case root of
        JObj ms \<Rightarrow> Some (case map_of ms key of None \<Rightarrow> JNull | Some v \<Rightarrow> v)
      | JNull \<Rightarrow> Some JNull
      | _ \<Rightarrow> None)"

definition asString :: "json_lib \<Rightarrow> json \<Rightarrow> string option" where
  "asString L v =
     (case v of
        JNull \<Rightarrow> Some []
      | JStr s \<Rightarrow> Some s
      | JBool b \<Rightarrow> Some (if b then ''true'' else ''false'')
      | JInt i \<Rightarrow> Some (dec_int i)
      | JReal r \<Rightarrow> Some (real_text L r)
      | _ \<Rightarrow> None)"

definition asInt :: "json_lib \<Rightarrow> json \<Rightarrow> int option" where
  "asInt L v =
     (case v of
        JNull \<Rightarrow> Some 0
      | JInt i \<Rightarrow> if - (2 ^ 31) \<le> i \<and> i < 2 ^ 31 then Some i else None
      | JReal r \<Rightarrow> real_int L r
      | JBool b \<Rightarrow> Some (if b then 1 else 0)
      | _ \<Rightarrow> None)"

text \<open>
  The members a request must have, in the order the handler asks for them: each is tested for null
  and then converted.  The result is \<open>Some None\<close> when the text is not JSON or a member is null.
\<close>

fun get_members :: "(json \<Rightarrow> 'a option) \<Rightarrow> json \<Rightarrow> string list \<Rightarrow> 'a list option option" where
  "get_members conv root [] = Some (Some [])"
| "get_members conv root (k # ks) =
     do {
       v \<leftarrow> member root k;
       if v = JNull then Some None
       else do { x \<leftarrow> conv v; rest \<leftarrow> get_members conv root ks; Some (map_option (Cons x) rest) }
     }"

definition decode_request :: "json_lib \<Rightarrow> string \<Rightarrow> string list \<Rightarrow> string list option option" where
  "decode_request L text keys =
     (case parse_json L text of None \<Rightarrow> Some None | Some root \<Rightarrow> get_members (asString L) root keys)"

text \<open>The answer \<open>{"code": ret}\<close>, with more members where a handler adds them.\<close>

definition code_json :: "json_lib \<Rightarrow> int \<Rightarrow> (string \<times> json) list \<Rightarrow> string" where
  "code_json L ret extra = write_compact L (JObj ((''code'', JInt ret) # extra))"

section \<open>Services\<close>

text \<open>The Redis connection taken from a pool.\<close>

record 'w cache_ops =
  op_Get :: "string \<Rightarrow> string \<Rightarrow> ('w, string) act"
  op_Set :: "string \<Rightarrow> string \<Rightarrow> string \<Rightarrow> ('w, string) act"
  op_SetEx :: "string \<Rightarrow> string \<Rightarrow> int \<Rightarrow> string \<Rightarrow> ('w, string) act"
  op_Del :: "string \<Rightarrow> string \<Rightarrow> ('w, int) act"
  op_Incr :: "string \<Rightarrow> string \<Rightarrow> ('w, int \<times> int) act"
  op_Decr :: "string \<Rightarrow> string \<Rightarrow> int \<Rightarrow> ('w, int \<times> int) act"
  op_Hset :: "string \<Rightarrow> string \<Rightarrow> string \<Rightarrow> string \<Rightarrow> ('w, int) act"
  op_Hdel :: "string \<Rightarrow> string \<Rightarrow> string \<Rightarrow> ('w, int) act"
  op_Hget :: "string \<Rightarrow> string \<Rightarrow> string \<Rightarrow> nat \<Rightarrow> ('w, int \<times> string option) act"
  op_ZsetExist :: "string \<Rightarrow> string \<Rightarrow> string \<Rightarrow> ('w, int) act"
  op_ZsetAdd :: "string \<Rightarrow> string \<Rightarrow> int \<Rightarrow> string \<Rightarrow> ('w, int) act"
  op_ZsetZrem :: "string \<Rightarrow> string \<Rightarrow> string \<Rightarrow> ('w, int) act"
  op_ZsetIncr :: "string \<Rightarrow> string \<Rightarrow> string \<Rightarrow> ('w, int) act"
  op_ZsetZcard :: "string \<Rightarrow> string \<Rightarrow> ('w, int) act"
  op_ZsetZrevrange :: "string \<Rightarrow> string \<Rightarrow> int \<Rightarrow> int \<Rightarrow> nat \<Rightarrow> ('w, int \<times> int option \<times> string list) act"
  op_ZsetGetScore :: "string \<Rightarrow> string \<Rightarrow> string \<Rightarrow> ('w, int) act"

record 'w services =
  mysql :: "'w mysql"
  cache :: "'w cache_ops"
  json :: json_lib
  get_db :: "string \<Rightarrow> 'w \<Rightarrow> bool \<times> 'w"
  rel_db :: "string \<Rightarrow> 'w \<Rightarrow> 'w"
  get_cache :: "string \<Rightarrow> 'w \<Rightarrow> bool \<times> 'w"
  rel_cache :: "string \<Rightarrow> 'w \<Rightarrow> 'w"
  try_lock :: "'w \<Rightarrow> bool \<times> 'w"
  unlock :: "'w \<Rightarrow> 'w"
  time_now :: "'w \<Rightarrow> int \<times> 'w"
  time_text :: "'w \<Rightarrow> string \<times> 'w"
  generateUUID :: "'w \<Rightarrow> string \<times> 'w"
  rand :: "'w \<Rightarrow> nat \<times> 'w"
  sleep_us :: "nat \<Rightarrow> 'w \<Rightarrow> 'w"
  system_call :: "string \<Rightarrow> 'w \<Rightarrow> int \<times> 'w"

text \<open>
  \<open>AUTO_REL_DBCONN\<close> and \<open>AUTO_REL_CACHECONN\<close>: a connection is taken from a pool, which may give NULL, and
  is given back when the function that took it returns.
\<close>

definition with_db :: "'w services \<Rightarrow> string \<Rightarrow> (bool \<Rightarrow> ('w, 'a) act) \<Rightarrow> ('w, 'a) act" where
  "with_db S pool body w =
     do {
       let (ok, w1) = get_db S pool w;
       (r, w2) \<leftarrow> body ok w1;
       Some (r, if ok then rel_db S pool w2 else w2)
     }"

definition with_cache :: "'w services \<Rightarrow> string \<Rightarrow> (bool \<Rightarrow> ('w, 'a) act) \<Rightarrow> ('w, 'a) act" where
  "with_cache S pool body w =
     do {
       let (ok, w1) = get_cache S pool w;
       (r, w2) \<leftarrow> body ok w1;
       Some (r, if ok then rel_cache S pool w2 else w2)
     }"

text \<open>A member function called on the connection, which is undefined if that is NULL.\<close>

definition on_conn :: "bool \<Rightarrow> ('w, 'a) act \<Rightarrow> ('w, 'a) act" where
  "on_conn ok f w = (if ok then f w else None)"

text \<open>\<open>ScopedFileInfoLock\<close>: the body knows whether the lock was obtained, and it is given back afterwards.\<close>

definition with_lock :: "'w services \<Rightarrow> (bool \<Rightarrow> ('w, 'a) act) \<Rightarrow> ('w, 'a) act" where
  "with_lock S body w =
     do {
       let (ok, w1) = try_lock S w;
       (r, w2) \<leftarrow> body ok w1;
       Some (r, if ok then unlock S w2 else w2)
     }"

section \<open>Tokens and counters\<close>

definition VerifyToken :: "'w services \<Rightarrow> string \<Rightarrow> string \<Rightarrow> ('w, int) act" where
  "VerifyToken S user_name token =
     with_cache S ''token'' (\<lambda>ok w.
       if ok then do {
         (temp_user_name, w1) \<leftarrow> op_Get (cache S) ''token'' token w;
         Some (if temp_user_name = user_name then 0 else -1, w1)
       }
       else Some (-1, w))"

definition CacheSetCount :: "'w services \<Rightarrow> string \<Rightarrow> string \<Rightarrow> int \<Rightarrow> ('w, int) act" where
  "CacheSetCount S pool key count w =
     do { (ret, w1) \<leftarrow> op_Set (cache S) pool key (dec_int count) w; Some (if ret \<noteq> [] then 0 else -1, w1) }"

definition CacheGetCount :: "'w services \<Rightarrow> string \<Rightarrow> string \<Rightarrow> ('w, int \<times> int) act" where
  "CacheGetCount S pool key w =
     do {
       (str_count, w1) \<leftarrow> op_Get (cache S) pool key w;
       Some (if str_count \<noteq> [] then (0, strtol10 (cstr str_count)) else (-1, 0), w1)
     }"

definition CacheIncrCount :: "'w services \<Rightarrow> string \<Rightarrow> string \<Rightarrow> ('w, int) act" where
  "CacheIncrCount S pool key w =
     do { ((ret, count), w1) \<leftarrow> op_Incr (cache S) pool key w; Some (if ret < 0 then -1 else 0, w1) }"

definition CacheDecrCount :: "'w services \<Rightarrow> string \<Rightarrow> string \<Rightarrow> ('w, int) act" where
  "CacheDecrCount S pool key w =
     do {
       ((ret, count), w1) \<leftarrow> op_Decr (cache S) pool key 0 w;
       if ret < 0 then Some (-1, w1)
       else if count < 0 then do {
         (r, w2) \<leftarrow> CacheSetCount S pool key 0 w1;
         Some (if r < 0 then -1 else 0, w2)
       }
       else Some (0, w1)
     }"

text \<open>\<open>RandomString\<close>\<close>

fun RandomString :: "'w services \<Rightarrow> nat \<Rightarrow> 'w \<Rightarrow> string \<times> 'w" where
  "RandomString S 0 w = ([], w)"
| "RandomString S (Suc n) w =
     (let (r, w1) = rand S w; (s, w2) = RandomString S n w1
      in (byte_of (97 + r mod 26) # s, w2))"

text \<open>\<open>RemoveFileFromFastDfs\<close>, with the path of the client configuration.\<close>

definition RemoveFileFromFastDfs :: "'w services \<Rightarrow> string \<Rightarrow> string \<Rightarrow> ('w, int) act" where
  "RemoveFileFromFastDfs S dfs_path_client fileid w =
     do {
       cmd \<leftarrow> in_buf 2048 (''fdfs_delete_file '' @ cstr dfs_path_client @ '' '' @ cstr fileid);
       Some (system_call S cmd w)
     }"

section \<open>What commands a request asks for\<close>

text \<open>
  \<open>QueryParseKeyValue(url, "cmd", cmd, NULL)\<close> with the callers' \<open>char cmd[20]\<close>: undefined when the value
  does not fit, or when there is none and the buffer is compared uninitialised.
\<close>

definition request_cmd :: "string \<Rightarrow> string option" where
  "request_cmd url = do { v \<leftarrow> QueryParseKeyValue (cstr url) ''cmd''; c \<leftarrow> v; in_buf 20 c }"

end
