(* ===== verification/Api_User.thy ===== *)
theory Api_User
  imports Api_Common
begin

text \<open>
  Registration and login, \<open>api/api_register.cc\<close> and \<open>api/api_login.cc\<close>.
\<close>

abbreviation quoted :: "string \<Rightarrow> string" where "quoted s \<equiv> SQUOT # cstr s @ [SQUOT]"

section \<open>Registration\<close>

text \<open>The optional members: an absent or null one leaves the variable empty.\<close>

definition optional_member :: "json_lib \<Rightarrow> json \<Rightarrow> string \<Rightarrow> string option" where
  "optional_member L root key = do { v \<leftarrow> member root key; if v = JNull then Some [] else asString L v }"

definition decodeRegisterJson :: "json_lib \<Rightarrow> string \<Rightarrow> string list option option" where
  "decodeRegisterJson L str_json =
     (case parse_json L str_json of
        None \<Rightarrow> Some None
      | Some root \<Rightarrow> do {
          req \<leftarrow> get_members (asString L) root [''userName'', ''nickName'', ''firstPwd''];
          case req of
            None \<Rightarrow> Some None
          | Some vs \<Rightarrow> do {
              phone \<leftarrow> optional_member L root ''phone'';
              email \<leftarrow> optional_member L root ''email'';
              Some (Some (vs @ [phone, email]))
            }
        })"

definition insert_user_sql :: string where
  "insert_user_sql =
     ''insert into user_info (`user_name`,`nick_name`,`password`,`phone`,`email`,`create_time`) values(?,?,?,?,?,?)''"

definition select_user_sql :: "string \<Rightarrow> string" where
  "select_user_sql user_name = ''select id from user_info where user_name='' @ quoted user_name"

text \<open>\<open>SetParam(index++, ...)\<close> for each of the values.\<close>

fun set_params :: "nat \<Rightarrow> string list \<Rightarrow> CPrepareStatement \<Rightarrow> CPrepareStatement" where
  "set_params i [] ps = ps"
| "set_params i (v # vs) ps = set_params (Suc i) vs (SetParam i v ps)"

text \<open>2: the name is taken; 1: an error; 0: inserted, or the statement could not be prepared.\<close>

definition registerUser :: "'w services \<Rightarrow> string list \<Rightarrow> ('w, int) act" where
  "registerUser S vs =
     with_db S ''filehub_master'' (\<lambda>ok w.
       if \<not> ok then Some (1, w)
       else do {
         let (result_set, w1) = ExecuteQuery (mysql S) (select_user_sql (vs ! 0)) w;
         if (case result_set of None \<Rightarrow> False | Some rs \<Rightarrow> snd (rs_Next rs)) then do {
           rs \<leftarrow> result_set;
           id \<leftarrow> GetInt (fst (rs_Next rs)) ''id'';
           Some (2, w1)
         }
         else do {
           let (c_time, w2) = time_text S w1;
           let ((ps, init), w3) = ps_Init (mysql S) insert_user_sql w2;
           if init then do {
             let (done, w4) = ps_ExecuteUpdate (mysql S) (set_params 0 (vs @ [c_time]) ps) w3;
             Some (if done then 0 else 1, w4)
           }
           else Some (0, w3)
         }
       })"

definition ApiRegisterUser :: "'w services \<Rightarrow> string \<Rightarrow> ('w, int \<times> string) act" where
  "ApiRegisterUser S post_data w =
     (if post_data = [] then Some ((-1, code_json (json S) 1 []), w)
      else do {
        dec \<leftarrow> decodeRegisterJson (json S) post_data;
        case dec of
          None \<Rightarrow> Some ((-1, code_json (json S) 1 []), w)
        | Some vs \<Rightarrow> do { (ret, w1) \<leftarrow> registerUser S vs w; Some ((0, code_json (json S) ret []), w1) }
      })"

section \<open>Login\<close>

definition decodeLoginJson :: "json_lib \<Rightarrow> string \<Rightarrow> string list option option" where
  "decodeLoginJson L str_json = decode_request L str_json [''user'', ''pwd'']"

definition encodeLoginJson :: "json_lib \<Rightarrow> int \<Rightarrow> string \<Rightarrow> string" where
  "encodeLoginJson L code token = code_json L code (if code = 0 then [(''token'', JStr token)] else [])"

definition select_password_sql :: "string \<Rightarrow> string" where
  "select_password_sql user_name = ''select password from user_info where user_name='' @ quoted user_name"

definition verifyUserPassword :: "'w services \<Rightarrow> string \<Rightarrow> string \<Rightarrow> ('w, int) act" where
  "verifyUserPassword S user_name pwd =
     with_db S ''filehub_slave'' (\<lambda>ok. on_conn ok (\<lambda>w.
       (let (result_set, w1) = ExecuteQuery (mysql S) (select_password_sql user_name) w
        in case result_set of
             None \<Rightarrow> Some (-1, w1)
           | Some rs \<Rightarrow>
               (let (rs1, found) = rs_Next rs
                in if found then do {
                     password \<leftarrow> GetStr rs1 ''password'';
                     Some (if password = pwd then 0 else -1, w1)
                   }
                   else Some (-1, w1)))))"

text \<open>The result of \<open>SetEx\<close> is not looked at.  The token is generated even without a connection.\<close>

definition setToken :: "'w services \<Rightarrow> string \<Rightarrow> ('w, int \<times> string) act" where
  "setToken S user_name =
     with_cache S ''token'' (\<lambda>ok w.
       (let (token, w1) = generateUUID S w
        in if ok then do { (r, w2) \<leftarrow> op_SetEx (cache S) ''token'' token 86400 user_name w1; Some ((0, token), w2) }
           else Some ((-1, token), w1)))"

definition ApiUserLogin :: "'w services \<Rightarrow> string \<Rightarrow> ('w, int \<times> string) act" where
  "ApiUserLogin S post_data w =
     (if post_data = [] then Some ((-1, encodeLoginJson (json S) 1 []), w)
      else do {
        dec \<leftarrow> decodeLoginJson (json S) post_data;
        case dec of
          None \<Rightarrow> Some ((-1, encodeLoginJson (json S) 1 []), w)
        | Some vs \<Rightarrow> do {
            (r, w1) \<leftarrow> verifyUserPassword S (vs ! 0) (vs ! 1) w;
            if r < 0 then Some ((-1, encodeLoginJson (json S) 1 []), w1)
            else do {
              ((r2, token), w2) \<leftarrow> setToken S (vs ! 0) w1;
              if r2 < 0 then Some ((-1, encodeLoginJson (json S) 1 token), w2)
              else Some ((0, encodeLoginJson (json S) 0 token), w2)
            }
          }
      })"

end
