(* ===== verification/Api_Files.thy ===== *)
theory Api_Files
  imports Api_User
begin

text \<open>
  The handlers that change who owns and who shares a file: instant upload (\<open>api/api_md5.cc\<close>), the
  bookkeeping of an upload (\<open>storeFileinfo\<close> of \<open>api/api_upload.cc\<close>), sharing, deleting and counting
  downloads (\<open>api/api_dealfile.cc\<close>), and what others do with a shared file
  (\<open>api/api_deal_sharefile.cc\<close>).

  Each statement is a definition that gives its text as the code formats it; \<open>sql\<close> is the buffer of
  512 bytes it is printed to.
\<close>

definition sql :: "string \<Rightarrow> string option" where "sql t = in_buf SQL_MAX_LEN t"

definition FILE_PUBLIC_ZSET :: string where "FILE_PUBLIC_ZSET = ''FILE_PUBLIC_ZSET''"
definition FILE_NAME_HASH :: string where "FILE_NAME_HASH = ''FILE_NAME_HASH''"
definition FILE_USER_COUNT :: string where "FILE_USER_COUNT = ''FILE_USER_COUNT''"

section \<open>Statements\<close>

text \<open>The condition that names one file of one user, with the spacing of the statements.\<close>

definition where_user_file :: "string \<Rightarrow> string \<Rightarrow> string \<Rightarrow> string" where
  "where_user_file user md5 filename =
     '' where user = '' @ quoted user @ '' and md5 = '' @ quoted md5 @ '' and file_name = '' @ quoted filename"

definition select_user_file :: "string \<Rightarrow> string \<Rightarrow> string \<Rightarrow> string" where
  "select_user_file user md5 filename = ''select * from user_file_list'' @ where_user_file user md5 filename"

definition select_saved_file :: "string \<Rightarrow> string \<Rightarrow> string \<Rightarrow> string" where
  "select_saved_file user md5 filename =
     ''select * from user_file_list where user = '' @ quoted user @ '' and md5 = '' @ quoted md5 @
     '' and  file_name = '' @ quoted filename"

definition insert_user_file :: "string \<Rightarrow> string \<Rightarrow> string \<Rightarrow> string \<Rightarrow> string" where
  "insert_user_file user md5 create_time filename =
     ''insert into user_file_list(user, md5, create_time, file_name, shared_status, pv) values ('' @ quoted user @ '', '' @
     quoted md5 @ '', '' @ quoted create_time @ '', '' @ quoted filename @ '', 0, 0)''"

definition delete_user_file :: "string \<Rightarrow> string \<Rightarrow> string \<Rightarrow> string" where
  "delete_user_file user md5 filename = ''delete from user_file_list'' @ where_user_file user md5 filename"

definition insert_file_info :: "string \<Rightarrow> string \<Rightarrow> string \<Rightarrow> int \<Rightarrow> string \<Rightarrow> string" where
  "insert_file_info md5 fileid url fsize ftype =
     ''insert into file_info (md5, file_id, url, size, type, count) values ('' @ quoted md5 @ '', '' @ quoted fileid @ '', '' @
     quoted url @ '', '' @ quoted (dec_int fsize) @ '', '' @ quoted ftype @ '', 1)''"

definition increment_count :: "string \<Rightarrow> string" where
  "increment_count md5 = ''update file_info set count = count +1 where md5 = '' @ quoted md5"

definition increment_count_saved :: "string \<Rightarrow> string" where
  "increment_count_saved md5 = ''update file_info set count = count+1 where md5 = '' @ quoted md5"

definition select_count :: "string \<Rightarrow> string" where
  "select_count md5 = ''select count, file_id from file_info where md5 = '' @ quoted md5"

definition decrement_count :: "string \<Rightarrow> string" where
  "decrement_count md5 = ''update file_info SET count = count - 1 WHERE md5 = '' @ quoted md5"

definition delete_file_info :: "string \<Rightarrow> string" where
  "delete_file_info md5 = ''delete from file_info WHERE md5 = '' @ quoted md5"

section \<open>Instant upload\<close>

text \<open>
  \<open>handleDealMd5\<close>.  Both branches after the update of the count end with \<open>Md5Failed\<close>, so that what follows
  in the source, the insertion into the user's list, is never reached.
\<close>

definition handleDealMd5 :: "'w services \<Rightarrow> string \<Rightarrow> string \<Rightarrow> string \<Rightarrow> ('w, string) act" where
  "handleDealMd5 S user md5 filename =
     with_db S ''filehub_master'' (\<lambda>ok. with_cache S ''token'' (\<lambda>ok_cache w.
       do {
         sql_cmd \<leftarrow> sql (select_user_file user md5 filename);
         (ret, w1) \<leftarrow> on_conn ok (\<lambda>w. Some (CheckwhetherHaveRecord (mysql S) sql_cmd w)) w;
         if ret = 1 then Some (code_json (json S) 5 [], w1)
         else do {
           (md5_state, w2) \<leftarrow> with_lock S (\<lambda>locked w.
             if locked then do {
               sql_cmd2 \<leftarrow> sql (increment_count md5);
               let (done, w') = ExecutePassQuery (mysql S) sql_cmd2 w;
               Some (1, w')
             }
             else Some (1, w)) w1;
           Some (code_json (json S) md5_state [], w2)
         }
       }))"

definition ApiMd5 :: "'w services \<Rightarrow> string \<Rightarrow> ('w, int \<times> string) act" where
  "ApiMd5 S post_data w =
     do {
       dec \<leftarrow> decode_request (json S) post_data [''user'', ''token'', ''md5'', ''filename''];
       case dec of
         None \<Rightarrow> Some ((0, code_json (json S) 1 []), w)
       | Some vs \<Rightarrow> do {
           (ret, w1) \<leftarrow> VerifyToken S (vs ! 0) (vs ! 1) w;
           if ret = 0 then do {
             (str_json, w2) \<leftarrow> handleDealMd5 S (cstr (vs ! 0)) (cstr (vs ! 2)) (cstr (vs ! 3)) w1;
             Some ((0, str_json), w2)
           }
           else Some ((0, code_json (json S) 1 []), w1)
         }
     }"

section \<open>The records of an upload\<close>

text \<open>
  \<open>storeFileinfo\<close>: the status and \<open>file_exsit\<close>.  The lock is held to the end of the function.  The caller's
  suffix does not fit the 8 bytes of its buffer if it has 8 characters or more.
\<close>

definition storeFileinfo ::
  "'w services \<Rightarrow> string \<Rightarrow> string \<Rightarrow> string \<Rightarrow> int \<Rightarrow> string \<Rightarrow> string \<Rightarrow> ('w, int \<times> bool) act" where
  "storeFileinfo S user filename md5 fsize fileid fdfs_file_url w =
     do {
       (ret, sfx) \<leftarrow> GetFileSuffix (Some filename) 8;
       fsuffix \<leftarrow> sfx;
       with_lock S (\<lambda>locked w.
         if \<not> locked then Some ((-1, False), w)
         else do {
           sql_cmd \<leftarrow> sql (insert_file_info md5 fileid fdfs_file_url fsize fsuffix);
           let (inserted, w1) = ExecuteCreate (mysql S) sql_cmd w;
           ((failed, file_exsit), w2) \<leftarrow>
             (if inserted then Some ((False, False), w1)
              else do {
                sql_cmd2 \<leftarrow> sql (increment_count md5);
                let (done, w') = ExecutePassQuery (mysql S) sql_cmd2 w1;
                Some ((\<not> done, done), w')
              });
           if failed then Some ((-1, False), w2)
           else do {
             let (create_time, w3) = time_text S w2;
             sql_cmd3 \<leftarrow> sql (insert_user_file user md5 create_time filename);
             let (stored, w4) = ExecuteCreate (mysql S) sql_cmd3 w3;
             Some ((if stored then 0 else -1, file_exsit), w4)
           }
         }) w
     }"

section \<open>Saving a shared file\<close>

definition handleSaveFile :: "'w services \<Rightarrow> string \<Rightarrow> string \<Rightarrow> string \<Rightarrow> ('w, int) act" where
  "handleSaveFile S user_name md5 filename =
     with_db S ''filehub_master'' (\<lambda>ok. on_conn ok (\<lambda>w.
       do {
         sql_cmd \<leftarrow> sql (select_saved_file user_name md5 filename);
         let (ret, w1) = CheckwhetherHaveRecord (mysql S) sql_cmd w;
         if ret = 1 then Some (5, w1)
         else do {
           (counted, w2) \<leftarrow> with_lock S (\<lambda>locked w.
             if locked then do {
               sql_cmd2 \<leftarrow> sql (increment_count_saved md5);
               Some (ExecuteUpdate (mysql S) sql_cmd2 True w)
             }
             else Some (False, w)) w1;
           if \<not> counted then Some (1, w2)
           else do {
             let (creat_time, w3) = time_text S w2;
             sql_cmd3 \<leftarrow> sql (insert_user_file user_name md5 creat_time filename);
             let (stored, w4) = ExecuteCreate (mysql S) sql_cmd3 w3;
             Some (if stored then 0 else 1, w4)
           }
         }
       }))"

section \<open>Deleting a file\<close>

definition select_shared_status :: "string \<Rightarrow> string \<Rightarrow> string \<Rightarrow> string" where
  "select_shared_status user md5 filename = ''select shared_status from user_file_list'' @ where_user_file user md5 filename"

definition delete_share :: "string \<Rightarrow> string \<Rightarrow> string \<Rightarrow> string" where
  "delete_share user md5 filename = ''delete from share_file_list'' @ where_user_file user md5 filename"

text \<open>\<open>fileid\<close>: the md5 followed by the name, in a buffer of \<open>n\<close> bytes.\<close>

definition fileid_of :: "nat \<Rightarrow> string \<Rightarrow> string \<Rightarrow> string option" where
  "fileid_of n md5 filename = in_buf n (cstr md5 @ cstr filename)"

text \<open>The part of \<open>handleDeleteFile\<close> that takes a shared file off the ranking and the list; the result is whether
  to go on.\<close>

definition unshare_deleted :: "'w services \<Rightarrow> bool \<Rightarrow> string \<Rightarrow> string \<Rightarrow> string \<Rightarrow> ('w, bool) act" where
  "unshare_deleted S ok_cache user md5 filename w =
     do {
       fileid \<leftarrow> fileid_of 1024 md5 filename;
       (r, w1) \<leftarrow> on_conn ok_cache (op_ZsetZrem (cache S) ''ranking_list'' FILE_PUBLIC_ZSET fileid) w;
       (r2, w2) \<leftarrow> op_Hdel (cache S) ''ranking_list'' FILE_NAME_HASH fileid w1;
       sql_cmd \<leftarrow> sql (delete_share user md5 filename);
       Some (ExecuteDrop (mysql S) sql_cmd w2)
     }"

text \<open>
  The part under the lock: \<open>Some (count, file_id)\<close> to go on, \<open>None\<close> to fail.  Without the lock nothing is done
  and \<open>count\<close> stays 0.
\<close>

definition drop_reference :: "'w services \<Rightarrow> string \<Rightarrow> ('w, (int \<times> string) option) act" where
  "drop_reference S md5 =
     with_lock S (\<lambda>locked w.
       if \<not> locked then Some (Some (0, []), w)
       else do {
         sql_cmd \<leftarrow> sql (select_count md5);
         let (result_set, w1) = ExecuteQuery (mysql S) sql_cmd w;
         case result_set of
           None \<Rightarrow> Some (None, w1)
         | Some rs \<Rightarrow>
             (let (rs1, found) = rs_Next rs
              in if \<not> found then Some (None, w1)
                 else do {
                   count \<leftarrow> GetInt rs1 ''count'';
                   file_id \<leftarrow> GetStr rs1 ''file_id'';
                   let (done, w2) =
                     (if count > 1 then ExecuteUpdate (mysql S) (take 511 (decrement_count md5)) True w1
                      else if count = 1 then ExecuteDrop (mysql S) (take 511 (delete_file_info md5)) w1
                      else (True, w1));
                   Some (if done then Some (count, file_id) else None, w2)
                 })
       })"

definition handleDeleteFile :: "'w services \<Rightarrow> string \<Rightarrow> string \<Rightarrow> string \<Rightarrow> string \<Rightarrow> ('w, int) act" where
  "handleDeleteFile S dfs_path_client user md5 filename =
     with_db S ''filehub_master'' (\<lambda>ok. with_cache S ''ranking_list'' (\<lambda>ok_cache. on_conn ok (\<lambda>w.
       do {
         sql_cmd \<leftarrow> sql (select_shared_status user md5 filename);
         ((ret, shared_status), w1) \<leftarrow> GetResultOneStatus (mysql S) sql_cmd 0 w;
         if ret \<noteq> 0 then Some (1, w1)
         else do {
           (go_on, w2) \<leftarrow> (if shared_status = 1 then unshare_deleted S ok_cache user md5 filename w1 else Some (True, w1));
           if \<not> go_on then Some (1, w2)
           else do {
             sql_cmd2 \<leftarrow> sql (delete_user_file user md5 filename);
             let (deleted, w3) = ExecuteDrop (mysql S) sql_cmd2 w2;
             if \<not> deleted then Some (1, w3)
             else do {
               (dropped, w4) \<leftarrow> drop_reference S md5 w3;
               case dropped of
                 None \<Rightarrow> Some (1, w4)
               | Some (count, file_id) \<Rightarrow>
                   if count = 1 then do {
                     (r, w5) \<leftarrow> RemoveFileFromFastDfs S dfs_path_client file_id w4;
                     Some (if r \<noteq> 0 then 1 else 0, w5)
                   }
                   else Some (0, w4)
             }
           }
         }
       })))"

section \<open>Counting downloads\<close>

definition set_user_pv :: "int \<Rightarrow> string \<Rightarrow> string \<Rightarrow> string \<Rightarrow> string" where
  "set_user_pv pv user md5 filename =
     ''update user_file_list set pv = '' @ dec_int pv @ where_user_file user md5 filename"

definition select_user_pv :: "string \<Rightarrow> string \<Rightarrow> string \<Rightarrow> string" where
  "select_user_pv user md5 filename = ''select pv from user_file_list'' @ where_user_file user md5 filename"

text \<open>The first row of a query and the number in its column \<open>pv\<close>.\<close>

definition query_pv :: "'w mysql \<Rightarrow> string \<Rightarrow> ('w, int option) act" where
  "query_pv M sql_cmd w =
     (let (result_set, w1) = ExecuteQuery M sql_cmd w
      in case result_set of
           None \<Rightarrow> Some (None, w1)
         | Some rs \<Rightarrow>
             (let (rs1, found) = rs_Next rs
              in if found then do { pv \<leftarrow> GetInt rs1 ''pv''; Some (Some pv, w1) } else Some (None, w1)))"

definition handlePvFile_user :: "'w services \<Rightarrow> string \<Rightarrow> string \<Rightarrow> string \<Rightarrow> ('w, int) act" where
  "handlePvFile_user S user md5 filename =
     with_db S ''filehub_master'' (\<lambda>ok. on_conn ok (\<lambda>w.
       do {
         sql_cmd \<leftarrow> sql (select_user_pv user md5 filename);
         (found, w1) \<leftarrow> query_pv (mysql S) sql_cmd w;
         case found of
           None \<Rightarrow> Some (1, w1)
         | Some pv \<Rightarrow> do {
             sql_cmd2 \<leftarrow> sql (set_user_pv (s32 (pv + 1)) user md5 filename);
             let (done, w2) = ExecuteUpdate (mysql S) sql_cmd2 True w1;
             Some (if done then 0 else 1, w2)
           }
       }))"

text \<open>The condition that names a shared file.\<close>

definition select_share_pv :: "string \<Rightarrow> string \<Rightarrow> string" where
  "select_share_pv md5 filename =
     ''select pv from share_file_list where md5 = '' @ quoted md5 @ '' and file_name = '' @ quoted filename"

definition set_share_pv :: "int \<Rightarrow> string \<Rightarrow> string \<Rightarrow> string" where
  "set_share_pv pv md5 filename =
     ''update share_file_list set pv = '' @ dec_int pv @ '' where md5 = '' @ quoted md5 @ '' and file_name = '' @ quoted filename"

definition handlePvFile_share :: "'w services \<Rightarrow> string \<Rightarrow> string \<Rightarrow> ('w, int) act" where
  "handlePvFile_share S md5 filename =
     with_db S ''filehub_master'' (\<lambda>ok. with_cache S ''ranking_list'' (\<lambda>ok_cache. on_conn ok (\<lambda>w.
       do {
         fileid \<leftarrow> fileid_of 1024 md5 filename;
         sql_cmd \<leftarrow> sql (select_share_pv md5 filename);
         (found, w1) \<leftarrow> query_pv (mysql S) sql_cmd w;
         case found of
           None \<Rightarrow> Some (1, w1)
         | Some pv \<Rightarrow> do {
             sql_cmd2 \<leftarrow> sql (set_share_pv (s32 (pv + 1)) md5 filename);
             let (done, w2) = ExecuteUpdate (mysql S) sql_cmd2 False w1;
             if \<not> done then Some (1, w2)
             else do {
               (ret, w3) \<leftarrow> on_conn ok_cache (op_ZsetExist (cache S) ''ranking_list'' FILE_PUBLIC_ZSET fileid) w2;
               if ret < 0 then Some (1, w3)
               else if ret = 0 then do {
                 (r, w4) \<leftarrow> op_ZsetAdd (cache S) ''ranking_list'' FILE_PUBLIC_ZSET (s32 (pv + 1)) fileid w3;
                 if r \<noteq> 0 then Some (1, w4)
                 else do { (h, w5) \<leftarrow> op_Hset (cache S) ''ranking_list'' FILE_NAME_HASH fileid filename w4; Some (0, w5) }
               }
               else do {
                 (r, w4) \<leftarrow> op_ZsetIncr (cache S) ''ranking_list'' FILE_PUBLIC_ZSET fileid w3;
                 Some (if r \<noteq> 0 then 1 else 0, w4)
               }
             }
           }
       })))"

section \<open>Sharing\<close>

definition select_share :: "string \<Rightarrow> string \<Rightarrow> string" where
  "select_share md5 filename =
     ''select * from share_file_list where md5='' @ quoted md5 @ '' and file_name='' @ quoted filename"

definition mark_shared :: "string \<Rightarrow> string \<Rightarrow> string \<Rightarrow> string" where
  "mark_shared user md5 filename =
     ''update user_file_list set shared_status=1 where user='' @ quoted user @ '' and md5='' @ quoted md5 @ '' and file_name='' @
     quoted filename"

definition mark_unshared :: "string \<Rightarrow> string \<Rightarrow> string \<Rightarrow> string" where
  "mark_unshared user md5 filename = ''update user_file_list set shared_status = 0'' @ where_user_file user md5 filename"

definition insert_share :: "string \<Rightarrow> string \<Rightarrow> string \<Rightarrow> string \<Rightarrow> string" where
  "insert_share user md5 create_time filename =
     ''insert into share_file_list (user, md5, create_time, file_name, pv) values ('' @ quoted user @ '', '' @ quoted md5 @
     '', '' @ quoted create_time @ '', '' @ quoted filename @ '', 0) on duplicate key update pv = pv''"

text \<open>The loop that sets the key of the lock: at most \<open>n\<close> attempts.\<close>

fun acquire_key :: "'w services \<Rightarrow> nat \<Rightarrow> string \<Rightarrow> string \<Rightarrow> ('w, bool) act" where
  "acquire_key S 0 lock_key lock_val w = Some (False, w)"
| "acquire_key S (Suc n) lock_key lock_val w =
     do {
       (r, w1) \<leftarrow> op_Set (cache S) ''ranking_list'' lock_key lock_val w;
       if r \<noteq> [] then do {
         (r2, w2) \<leftarrow> op_SetEx (cache S) ''ranking_list'' lock_key 10 lock_val w1;
         Some (True, w2)
       }
       else acquire_key S n lock_key lock_val (sleep_us S 100000 w1)
     }"

definition publish :: "'w services \<Rightarrow> string \<Rightarrow> string \<Rightarrow> ('w, unit) act" where
  "publish S fileid filename w =
     do {
       (r, w1) \<leftarrow> op_ZsetAdd (cache S) ''ranking_list'' FILE_PUBLIC_ZSET 0 fileid w;
       (r2, w2) \<leftarrow> op_Hset (cache S) ''ranking_list'' FILE_NAME_HASH fileid filename w1;
       Some ((), w2)
     }"

text \<open>\<open>handleShareFile\<close> between taking and giving back the key.\<close>

definition share_locked :: "'w services \<Rightarrow> bool \<Rightarrow> string \<Rightarrow> string \<Rightarrow> string \<Rightarrow> string \<Rightarrow> ('w, int) act" where
  "share_locked S ok user md5 filename fileid w =
     do {
       (ret, w1) \<leftarrow> op_ZsetExist (cache S) ''ranking_list'' FILE_PUBLIC_ZSET fileid w;
       if ret = 1 then Some (3, w1)
       else do {
         sql_cmd \<leftarrow> sql (select_share md5 filename);
         (ret2, w2) \<leftarrow> on_conn ok (\<lambda>w. Some (CheckwhetherHaveRecord (mysql S) sql_cmd w)) w1;
         if ret2 = 1 then do { (u, w3) \<leftarrow> publish S fileid filename w2; Some (3, w3) }
         else do {
           sql_cmd2 \<leftarrow> sql (mark_shared user md5 filename);
           let (marked, w3) = ExecuteUpdate (mysql S) sql_cmd2 False w2;
           if \<not> marked then Some (1, w3)
           else do {
             let (create_time, w4) = time_text S w3;
             sql_cmd3 \<leftarrow> sql (insert_share user md5 create_time filename);
             let (inserted, w5) = ExecuteCreate (mysql S) sql_cmd3 w4;
             let (ret3, w6) = (if inserted then (1, w5) else CheckwhetherHaveRecord (mysql S) sql_cmd w5);
             if ret3 \<noteq> 1 then Some (1, w6)
             else do { (u, w7) \<leftarrow> publish S fileid filename w6; Some (0, w7) }
           }
         }
       }
     }"

definition handleShareFile :: "'w services \<Rightarrow> string \<Rightarrow> string \<Rightarrow> string \<Rightarrow> ('w, int) act" where
  "handleShareFile S user md5 filename =
     with_db S ''filehub_master'' (\<lambda>ok. with_cache S ''ranking_list'' (\<lambda>ok_cache. on_conn ok_cache (\<lambda>w.
       do {
         fileid \<leftarrow> fileid_of 1024 md5 filename;
         lock_key \<leftarrow> in_buf 256 (''share_lock:'' @ fileid);
         let (now, w1) = time_now S w;
         (lock_ok, w2) \<leftarrow> acquire_key S 10 lock_key (dec_int now) w1;
         if \<not> lock_ok then Some (1, w2)
         else do {
           (share_state, w3) \<leftarrow> share_locked S ok user md5 filename fileid w2;
           (r, w4) \<leftarrow> op_Del (cache S) ''ranking_list'' lock_key w3;
           Some (share_state, w4)
         }
       })))"

definition handleCancelShareFile :: "'w services \<Rightarrow> string \<Rightarrow> string \<Rightarrow> string \<Rightarrow> ('w, int) act" where
  "handleCancelShareFile S user_name md5 filename =
     with_db S ''filehub_master'' (\<lambda>ok. with_cache S ''ranking_list'' (\<lambda>ok_cache. on_conn ok (\<lambda>w.
       do {
         fileid \<leftarrow> fileid_of 512 md5 filename;
         sql_cmd \<leftarrow> sql (mark_unshared user_name md5 filename);
         let (marked, w1) = ExecuteUpdate (mysql S) sql_cmd False w;
         if \<not> marked then Some (1, w1)
         else do {
           sql_cmd2 \<leftarrow> sql (delete_share user_name md5 filename);
           let (deleted, w2) = ExecuteDrop (mysql S) sql_cmd2 w1;
           if \<not> deleted then Some (1, w2)
           else do {
             (r, w3) \<leftarrow> on_conn ok_cache (op_ZsetZrem (cache S) ''ranking_list'' FILE_PUBLIC_ZSET fileid) w2;
             if r \<noteq> 0 then Some (1, w3)
             else do {
               (h, w4) \<leftarrow> op_Hdel (cache S) ''ranking_list'' FILE_NAME_HASH fileid w3;
               Some (if s32 h \<noteq> 0 then 1 else 0, w4)
             }
           }
         }
       })))"

section \<open>Requests\<close>

definition ApiDealfile :: "'w services \<Rightarrow> string \<Rightarrow> string \<Rightarrow> string \<Rightarrow> ('w, int \<times> string option) act" where
  "ApiDealfile S dfs_path_client url post_data w =
     do {
       cmd \<leftarrow> request_cmd url;
       if cmd \<notin> {''share'', ''del'', ''pv''} then Some ((0, None), w)
       else do {
         dec \<leftarrow> decode_request (json S) post_data [''user'', ''token'', ''md5'', ''filename''];
         case dec of
           None \<Rightarrow> Some ((-1, Some (code_json (json S) 1 [])), w)
         | Some vs \<Rightarrow> do {
             (r, w1) \<leftarrow> VerifyToken S (vs ! 0) (vs ! 1) w;
             if r \<noteq> 0 then Some ((-1, Some (code_json (json S) 4 [])), w1)
             else do {
               (ret, w2) \<leftarrow>
                 (if cmd = ''share'' then handleShareFile S (vs ! 0) (vs ! 2) (vs ! 3) w1
                  else if cmd = ''del'' then handleDeleteFile S dfs_path_client (vs ! 0) (vs ! 2) (vs ! 3) w1
                  else handlePvFile_user S (vs ! 0) (vs ! 2) (vs ! 3) w1);
               Some ((0, Some (code_json (json S) ret [])), w2)
             }
           }
       }
     }"

text \<open>No token is asked for, and a positive error code is reported as success.\<close>

definition ApiDealsharefile :: "'w services \<Rightarrow> string \<Rightarrow> string \<Rightarrow> ('w, int \<times> string) act" where
  "ApiDealsharefile S url post_data w =
     do {
       cmd \<leftarrow> request_cmd url;
       dec \<leftarrow> decode_request (json S) post_data [''user'', ''md5'', ''filename''];
       case dec of
         None \<Rightarrow> Some ((0, code_json (json S) 1 []), w)
       | Some vs \<Rightarrow> do {
           (ret, w1) \<leftarrow>
             (if cmd = ''cancel'' then handleCancelShareFile S (vs ! 0) (vs ! 1) (vs ! 2) w
              else if cmd = ''save'' then handleSaveFile S (vs ! 0) (vs ! 1) (vs ! 2) w
              else if cmd = ''pv'' then handlePvFile_share S (vs ! 1) (vs ! 2) w
              else Some (0, w));
           Some ((0, code_json (json S) (if ret < 0 then 1 else 0) []), w1)
         }
     }"

end
