(* ===== verification/Api_Lists.thy ===== *)
theory Api_Lists
  imports Api_Files
begin

text \<open>
  The handlers that list: a user's files (\<open>api/api_myfiles.cc\<close>), the shared files and their ranking
  (\<open>api/api_sharefiles.cc\<close>), and shared pictures (\<open>api/api_sharepicture.cc\<close>).
\<close>

section \<open>Rows as JSON\<close>

datatype column = ColStr string | ColInt string

text \<open>One member for each column; \<open>file[name] = GetString(col)\<close> makes a JSON value of the pointer, and a NULL
  pointer throws.\<close>

fun row_json :: "CResultSet \<Rightarrow> (string \<times> column) list \<Rightarrow> (string \<times> json) list option" where
  "row_json rs [] = Some []"
| "row_json rs ((name, ColStr col) # cs) =
     do { s \<leftarrow> GetStr rs col; ms \<leftarrow> row_json rs cs; Some ((name, JStr s) # ms) }"
| "row_json rs ((name, ColInt col) # cs) =
     do { i \<leftarrow> GetInt rs col; ms \<leftarrow> row_json rs cs; Some ((name, JInt i) # ms) }"

text \<open>\<open>while (result_set->Next())\<close>\<close>

fun rows_json :: "(string \<times> nat) list \<Rightarrow> (string \<times> column) list \<Rightarrow> string option list list \<Rightarrow> json list option" where
  "rows_json keys cols [] = Some []"
| "rows_json keys cols (r # rows) =
     do {
       ms \<leftarrow> row_json \<lparr>rs_keys = keys, rs_rows = rows, rs_row = Some r\<rparr> cols;
       js \<leftarrow> rows_json keys cols rows;
       Some (JObj ms # js)
     }"

definition result_json :: "(string \<times> column) list \<Rightarrow> CResultSet \<Rightarrow> json list option" where
  "result_json cols rs = rows_json (rs_keys rs) cols (rs_rows rs)"

text \<open>An array that nothing was put into is still null.\<close>

definition files_json :: "json list \<Rightarrow> json" where
  "files_json js = (if js = [] then JNull else JArr js)"

section \<open>A user's files\<close>

definition encodeCountJson :: "json_lib \<Rightarrow> int \<Rightarrow> int \<Rightarrow> string" where
  "encodeCountJson L ret n = code_json L ret (if ret = 0 then [(''total'', JInt n)] else [])"

definition count_user_files :: "string \<Rightarrow> string" where
  "count_user_files user_name = ''select count(*) from user_file_list where user = '' @ quoted user_name"

text \<open>\<open>count\<close> keeps its value when the query fails.\<close>

definition getUserFilesCount :: "'w services \<Rightarrow> string \<Rightarrow> int \<Rightarrow> ('w, int \<times> int) act" where
  "getUserFilesCount S user_name count w =
     (let (result_set, w1) = ExecuteQuery (mysql S) (count_user_files user_name) w
      in case result_set of
           None \<Rightarrow> Some ((-1, count), w1)
         | Some rs \<Rightarrow>
             (let (rs1, found) = rs_Next rs
              in if found then do { c \<leftarrow> GetInt rs1 ''count(*)''; Some ((0, c), w1) } else Some ((-1, count), w1)))"

definition handleUserFilesCount :: "'w services \<Rightarrow> string \<Rightarrow> int \<Rightarrow> ('w, int \<times> int) act" where
  "handleUserFilesCount S user_name count =
     with_db S ''filehub_slave'' (\<lambda>ok. on_conn ok (getUserFilesCount S user_name count))"

text \<open>The text has the line break of the source, a backslash at the end of the line, in it.\<close>

definition list_user_files :: "string \<Rightarrow> int \<Rightarrow> int \<Rightarrow> string" where
  "list_user_files user_name start count =
     ''select user_file_list.*, file_info.url, file_info.size, file_info.type from file_info,'' @ replicate 14 CHR '' '' @
     ''user_file_list where user = '' @ quoted user_name @ '' and file_info.md5 = user_file_list.md5 limit '' @
     dec_int start @ '', '' @ dec_int count @ '' ''"

definition user_file_columns :: "(string \<times> column) list" where
  "user_file_columns =
     [(''user'', ColStr ''user''), (''md5'', ColStr ''md5''), (''create_time'', ColStr ''create_time''),
      (''file_name'', ColStr ''file_name''), (''share_status'', ColInt ''shared_status''), (''pv'', ColInt ''pv''),
      (''url'', ColStr ''url''), (''size'', ColInt ''size''), (''type'', ColStr ''type'')]"

definition getUserFileList :: "'w services \<Rightarrow> string \<Rightarrow> int \<Rightarrow> int \<Rightarrow> ('w, int \<times> string) act" where
  "getUserFileList S user_name start count =
     with_db S ''filehub_slave'' (\<lambda>ok. on_conn ok (\<lambda>w.
       do {
         ((ret, n), w1) \<leftarrow> getUserFilesCount S user_name 0 w;
         if ret < 0 then Some ((-1, code_json (json S) 1 []), w1)
         else if n = 0 then
           Some ((0, code_json (json S) 0 [(''count'', JInt 0), (''total'', JInt 0)]), w1)
         else
           (let (result_set, w2) = ExecuteQuery (mysql S) (list_user_files user_name start count) w1
            in case result_set of
                 None \<Rightarrow> Some ((-1, code_json (json S) 1 []), w2)
               | Some rs \<Rightarrow> do {
                   js \<leftarrow> result_json user_file_columns rs;
                   Some ((0, code_json (json S) 0
                     [(''total'', JInt n), (''files'', files_json js), (''count'', JInt (int (length js)))]), w2)
                 })
       }))"

text \<open>The members of a request for a part of a list.\<close>

definition decode_range :: "json_lib \<Rightarrow> json \<Rightarrow> int list option option" where
  "decode_range L root = get_members (asInt L) root [''start'', ''count'']"

definition decodeFileslistJson :: "json_lib \<Rightarrow> string \<Rightarrow> string list \<Rightarrow> (string list \<times> int list) option option" where
  "decodeFileslistJson L str_json keys =
     (case parse_json L str_json of
        None \<Rightarrow> Some None
      | Some root \<Rightarrow> do {
          names \<leftarrow> get_members (asString L) root keys;
          case names of
            None \<Rightarrow> Some None
          | Some vs \<Rightarrow> do { rng \<leftarrow> decode_range L root; Some (map_option (Pair vs) rng) }
        })"

definition ApiMyfiles :: "'w services \<Rightarrow> string \<Rightarrow> string \<Rightarrow> ('w, int \<times> string) act" where
  "ApiMyfiles S url post_data w =
     do {
       cmd \<leftarrow> request_cmd url;
       if cmd = ''count'' then do {
         dec \<leftarrow> decode_request (json S) post_data [''user'', ''token''];
         case dec of
           None \<Rightarrow> Some ((-1, encodeCountJson (json S) 1 0), w)
         | Some vs \<Rightarrow> do {
             (r, w1) \<leftarrow> VerifyToken S (vs ! 0) (vs ! 1) w;
             if r < 0 then Some ((-1, encodeCountJson (json S) 1 0), w1)
             else do {
               ((ret, n), w2) \<leftarrow> handleUserFilesCount S (vs ! 0) 0 w1;
               Some ((ret, if ret < 0 then encodeCountJson (json S) 1 0 else encodeCountJson (json S) 0 n), w2)
             }
           }
       }
       else if cmd = ''normal'' then do {
         dec \<leftarrow> decodeFileslistJson (json S) post_data [''user'', ''token''];
         case dec of
           None \<Rightarrow> Some ((-1, code_json (json S) 1 []), w)
         | Some (vs, rng) \<Rightarrow> do {
             (r, w1) \<leftarrow> VerifyToken S (vs ! 0) (vs ! 1) w;
             if r < 0 then Some ((-1, code_json (json S) 1 []), w1)
             else do {
               ((ret, str_json), w2) \<leftarrow> getUserFileList S (vs ! 0) (rng ! 0) (rng ! 1) w1;
               Some ((0, str_json), w2)
             }
           }
       }
       else Some ((0, code_json (json S) 1 []), w)
     }"

section \<open>Shared files\<close>

definition count_shares :: string where "count_shares = ''select count(*) from share_file_list''"

text \<open>The status and the value of the caller's variable; a result without a row is no error.\<close>

definition handleGetSharefilesCount :: "'w services \<Rightarrow> int \<Rightarrow> ('w, int \<times> int) act" where
  "handleGetSharefilesCount S count =
     with_db S ''filehub_slave'' (\<lambda>ok. on_conn ok (\<lambda>w.
       (let (result_set, w1) = ExecuteQuery (mysql S) count_shares w
        in case result_set of
             None \<Rightarrow> Some ((1, count), w1)
           | Some rs \<Rightarrow>
               (let (rs1, found) = rs_Next rs
                in if found then do { c \<leftarrow> GetInt rs1 ''count(*)''; Some ((0, c), w1) } else Some ((0, count), w1)))))"

definition list_shares :: "int \<Rightarrow> int \<Rightarrow> string" where
  "list_shares start count =
     ''select share_file_list.*, file_info.url, file_info.size, file_info.type from file_info,'' @ replicate 9 CHR '' '' @
     ''share_file_list where file_info.md5 = share_file_list.md5 limit '' @ dec_int start @ '', '' @ dec_int count"

text \<open>There is no column \<open>share_status\<close> in the result; \<open>GetInt\<close> gives 0 for it.\<close>

definition share_columns :: "(string \<times> column) list" where
  "share_columns =
     [(''user'', ColStr ''user''), (''md5'', ColStr ''md5''), (''file_name'', ColStr ''file_name''),
      (''share_status'', ColInt ''share_status''), (''pv'', ColInt ''pv''), (''create_time'', ColStr ''create_time''),
      (''url'', ColStr ''url''), (''size'', ColInt ''size''), (''type'', ColStr ''type'')]"

definition styled :: "json_lib \<Rightarrow> (string \<times> json) list \<Rightarrow> string" where
  "styled L ms = write_styled L (JObj ms)"

definition handleGetShareFilelist :: "'w services \<Rightarrow> int \<Rightarrow> int \<Rightarrow> ('w, string) act" where
  "handleGetShareFilelist S start count =
     with_db S ''filehub_slave'' (\<lambda>ok w.
       do {
         ((ret, n), w1) \<leftarrow> handleGetSharefilesCount S 0 w;
         if ret \<noteq> 0 then Some (styled (json S) [(''code'', JInt 1)], w1)
         else on_conn ok (\<lambda>w.
           (let (result_set, w2) = ExecuteQuery (mysql S) (list_shares start count) w
            in case result_set of
                 None \<Rightarrow> Some (styled (json S) [(''code'', JInt 1)], w2)
               | Some rs \<Rightarrow> do {
                   js \<leftarrow> result_json share_columns rs;
                   Some (styled (json S) ([(''total'', JInt n), (''count'', JInt (int (length js)))] @
                     (if js = [] then [] else [(''files'', JArr js)]) @ [(''code'', JInt 0)]), w2)
                 })) w1
       })"

section \<open>The ranking\<close>

definition select_ranking :: string where
  "select_ranking = ''select md5, file_name, pv from share_file_list order by pv desc''"

text \<open>Loading the sorted set and the hash of names from the rows of the query.\<close>

fun load_ranking :: "'w services \<Rightarrow> (string \<times> nat) list \<Rightarrow> string option list list \<Rightarrow> ('w, unit) act" where
  "load_ranking S keys [] w = Some ((), w)"
| "load_ranking S keys (r # rows) w =
     do {
       let rs = \<lparr>rs_keys = keys, rs_rows = rows, rs_row = Some r\<rparr>;
       md5 \<leftarrow> GetStr rs ''md5'';
       file_name \<leftarrow> GetStr rs ''file_name'';
       pv \<leftarrow> GetInt rs ''pv'';
       field \<leftarrow> fileid_of 1024 md5 file_name;
       (a, w1) \<leftarrow> op_ZsetAdd (cache S) ''ranking_list'' FILE_PUBLIC_ZSET pv field w;
       (h, w2) \<leftarrow> op_Hset (cache S) ''ranking_list'' FILE_NAME_HASH field file_name w1;
       load_ranking S keys rows w2
     }"

text \<open>The rebuilding of the sorted set when it has not as many members as there are shared files; the result
  is whether to go on.\<close>

definition sync_ranking :: "'w services \<Rightarrow> int \<Rightarrow> int \<Rightarrow> ('w, bool) act" where
  "sync_ranking S sql_num redis_num w =
     (if redis_num = sql_num then Some (True, w)
      else do {
        (d1, w1) \<leftarrow> op_Del (cache S) ''ranking_list'' FILE_PUBLIC_ZSET w;
        (d2, w2) \<leftarrow> op_Del (cache S) ''ranking_list'' FILE_NAME_HASH w1;
        let (result_set, w3) = ExecuteQuery (mysql S) select_ranking w2;
        case result_set of
          None \<Rightarrow> Some (False, w3)
        | Some rs \<Rightarrow> do { (u, w4) \<leftarrow> load_ranking S (rs_keys rs) (rs_rows rs) w3; Some (True, w4) }
      })"

text \<open>The entries of the answer for the members found; \<open>None\<close> when one has no name or no score.  A name is
  copied to a buffer of 512 bytes.\<close>

fun ranked_files :: "'w services \<Rightarrow> string list \<Rightarrow> ('w, json list option) act" where
  "ranked_files S [] w = Some (Some [], w)"
| "ranked_files S (v # vs) w =
     do {
       ((ret, filename), w1) \<leftarrow> op_Hget (cache S) ''ranking_list'' FILE_NAME_HASH v 512 w;
       if ret \<noteq> 0 then Some (None, w1)
       else do {
         name \<leftarrow> filename;
         (score, w2) \<leftarrow> op_ZsetGetScore (cache S) ''ranking_list'' FILE_PUBLIC_ZSET v w1;
         if score = -1 then Some (None, w2)
         else do {
           (js, w3) \<leftarrow> ranked_files S vs w2;
           Some (map_option (Cons (JObj [(''filename'', JStr name), (''pv'', JInt score)])) js, w3)
         }
       }
     }"

text \<open>
  \<open>handleGetRankingFilelist\<close>.  \<open>calloc\<close> gives NULL for a negative number of rows, which is a huge one as a
  \<open>size_t\<close>, and is taken to succeed otherwise.
\<close>

definition handleGetRankingFilelist :: "'w services \<Rightarrow> int \<Rightarrow> int \<Rightarrow> ('w, string) act" where
  "handleGetRankingFilelist S start count =
     with_db S ''filehub_slave'' (\<lambda>ok. with_cache S ''ranking_list'' (\<lambda>ok_cache w.
       do {
         let failure = styled (json S) [(''code'', JInt 1)];
         ((ret, sql_num), w1) \<leftarrow> handleGetSharefilesCount S 0 w;
         if ret \<noteq> 0 then Some (failure, w1)
         else do {
           (redis_num, w2) \<leftarrow> on_conn ok_cache (op_ZsetZcard (cache S) ''ranking_list'' FILE_PUBLIC_ZSET) w1;
           if redis_num = -1 then Some (failure, w2)
           else do {
             (go_on, w3) \<leftarrow> (if redis_num = sql_num then Some (True, w2) else on_conn ok (sync_ranking S sql_num redis_num) w2);
             if \<not> go_on \<or> count < 0 then Some (failure, w3)
             else do {
               ((ret2, file_count, rows), w4) \<leftarrow>
                 op_ZsetZrevrange (cache S) ''ranking_list'' FILE_PUBLIC_ZSET start (s32 (start + count - 1)) (nat count) w3;
               if ret2 \<noteq> 0 then Some (failure, w4)
               else do {
                 n \<leftarrow> file_count;
                 (files, w5) \<leftarrow> ranked_files S (take (nat n) rows) w4;
                 Some (case files of
                     None \<Rightarrow> failure
                   | Some js \<Rightarrow> styled (json S)
                       [(''code'', JInt 0), (''total'', JInt sql_num), (''count'', JInt n), (''files'', files_json js)], w5)
               }
             }
           }
         }
       }))"

definition decodeShareFileslistJson :: "json_lib \<Rightarrow> string \<Rightarrow> int list option option" where
  "decodeShareFileslistJson L str_json =
     (case parse_json L str_json of None \<Rightarrow> Some None | Some root \<Rightarrow> decode_range L root)"

definition ApiSharefiles :: "'w services \<Rightarrow> string \<Rightarrow> string \<Rightarrow> ('w, int \<times> string option) act" where
  "ApiSharefiles S url post_data w =
     do {
       cmd \<leftarrow> request_cmd url;
       if cmd = ''count'' then do {
         ((ret, n), w1) \<leftarrow> handleGetSharefilesCount S 0 w;
         Some ((0, Some (encodeCountJson (json S) ret n)), w1)
       }
       else if cmd = ''normal'' \<or> cmd = ''pvdesc'' then do {
         dec \<leftarrow> decodeShareFileslistJson (json S) post_data;
         case dec of
           None \<Rightarrow> Some ((0, Some (encodeCountJson (json S) 1 0)), w)
         | Some rng \<Rightarrow> do {
             (str_json, w1) \<leftarrow>
               (if cmd = ''normal'' then handleGetShareFilelist S (rng ! 0) (rng ! 1) w
                else handleGetRankingFilelist S (rng ! 0) (rng ! 1) w);
             Some ((0, Some str_json), w1)
           }
       }
       else Some ((0, None), w)
     }"

section \<open>Shared pictures\<close>

definition encodeSharePictureJson :: "json_lib \<Rightarrow> int \<Rightarrow> string \<Rightarrow> string" where
  "encodeSharePictureJson L ret urlmd5 = code_json L ret (if ret = 0 then [(''urlmd5'', JStr urlmd5)] else [])"

definition insert_picture :: "string \<Rightarrow> string \<Rightarrow> string \<Rightarrow> string \<Rightarrow> string \<Rightarrow> string" where
  "insert_picture user filemd5 file_name urlmd5 create_time =
     ''insert into share_picture_list (user, filemd5, file_name, urlmd5, `key`, pv, create_time) values ('' @ quoted user @
     '', '' @ quoted filemd5 @ '', '' @ quoted file_name @ '', '' @ quoted urlmd5 @ '', '' @ quoted [] @ '', 0, '' @
     quoted create_time @ '')''"

definition handleSharePicture :: "'w services \<Rightarrow> string \<Rightarrow> string \<Rightarrow> string \<Rightarrow> ('w, string) act" where
  "handleSharePicture S user filemd5 file_name =
     with_db S ''filehub_slave'' (\<lambda>ok. on_conn ok (\<lambda>w.
       (let (urlmd5, w1) = RandomString S 32 w;
            (create_time, w2) = time_text S w1;
            (done, w3) = ExecuteCreate (mysql S) (insert_picture user filemd5 file_name urlmd5 create_time) w2
        in Some (encodeSharePictureJson (json S) (if done then 0 else 1) urlmd5, w3))))"

definition select_picture :: "string \<Rightarrow> string" where
  "select_picture urlmd5 =
     ''select user, filemd5, file_name, pv, create_time from share_picture_list where urlmd5 = '' @ quoted urlmd5"

definition select_url :: "string \<Rightarrow> string" where
  "select_url filemd5 = ''select url from file_info where md5 ='' @ quoted filemd5"

definition increment_picture_pv :: "string \<Rightarrow> string" where
  "increment_picture_pv urlmd5 = ''update share_picture_list set pv = pv+1 where urlmd5 = '' @ quoted urlmd5"

definition encodeBrowselPictureJson :: "json_lib \<Rightarrow> int \<Rightarrow> int \<Rightarrow> string \<Rightarrow> string \<Rightarrow> string \<Rightarrow> string" where
  "encodeBrowselPictureJson L ret pv url user time =
     code_json L ret
       (if ret = 0 then [(''pv'', JInt pv), (''url'', JStr url), (''user'', JStr user), (''time'', JStr time)] else [])"

text \<open>
  \<open>handleBrowsePicture\<close> has no return statement though it is declared to return an \<open>int\<close>, which its caller
  ignores; the model takes it as a function without a result.
\<close>

definition handleBrowsePicture :: "'w services \<Rightarrow> string \<Rightarrow> ('w, string) act" where
  "handleBrowsePicture S urlmd5 =
     with_db S ''filehub_master'' (\<lambda>ok. on_conn ok (\<lambda>w.
       (let failure = encodeBrowselPictureJson (json S) 1 0 [] [] [];
            (result_set, w1) = ExecuteQuery (mysql S) (select_picture urlmd5) w
        in case result_set of
             None \<Rightarrow> Some (failure, w1)
           | Some rs \<Rightarrow>
               (let (rs1, found) = rs_Next rs
                in if \<not> found then Some (failure, w1)
                   else do {
                     user \<leftarrow> GetStr rs1 ''user'';
                     filemd5 \<leftarrow> GetStr rs1 ''filemd5'';
                     file_name \<leftarrow> GetStr rs1 ''file_name'';
                     pv \<leftarrow> GetInt rs1 ''pv'';
                     create_time \<leftarrow> GetStr rs1 ''create_time'';
                     let (urls, w2) = ExecuteQuery (mysql S) (select_url filemd5) w1;
                     case urls of
                       None \<Rightarrow> Some (failure, w2)
                     | Some us \<Rightarrow>
                         (let (us1, found_url) = rs_Next us
                          in if \<not> found_url then Some (failure, w2)
                             else do {
                               picture_url \<leftarrow> GetStr us1 ''url'';
                               let (done, w3) = ExecuteUpdate (mysql S) (increment_picture_pv urlmd5) True w2;
                               Some (if done then encodeBrowselPictureJson (json S) 0 (s32 (pv + 1)) picture_url user create_time
                                     else failure, w3)
                             })
                   }))))"

definition list_pictures :: "string \<Rightarrow> int \<Rightarrow> int \<Rightarrow> string" where
  "list_pictures user start count =
     ''select share_picture_list.user, share_picture_list.filemd5, share_picture_list.file_name,share_picture_list.urlmd5, '' @
     ''share_picture_list.pv,'' @ replicate 9 CHR '' '' @ ''share_picture_list.create_time, file_info.size from file_info, '' @
     ''share_picture_list where share_picture_list.user = '' @ quoted user @ '' and'' @ replicate 10 CHR '' '' @
     ''file_info.md5 = share_picture_list.filemd5 limit '' @ dec_int start @ '', '' @ dec_int count"

definition picture_columns :: "(string \<times> column) list" where
  "picture_columns =
     [(''user'', ColStr ''user''), (''filemd5'', ColStr ''filemd5''), (''file_name'', ColStr ''file_name''),
      (''urlmd5'', ColStr ''urlmd5''), (''pv'', ColInt ''pv''), (''create_time'', ColStr ''create_time''),
      (''size'', ColInt ''size'')]"

text \<open>An inner declaration hides \<open>root\<close> where an error is reported, so that the answer is null then.\<close>

definition handleGetSharePicturesList :: "'w services \<Rightarrow> string \<Rightarrow> int \<Rightarrow> int \<Rightarrow> ('w, string) act" where
  "handleGetSharePicturesList S user start count =
     with_db S ''filehub_slave'' (\<lambda>ok. on_conn ok (\<lambda>w.
       do {
         ((ret, n), w1) \<leftarrow> DBGetSharePictureCountByUsername (mysql S) user w;
         if ret < 0 then Some (write_styled (json S) JNull, w1)
         else do {
           sql_cmd \<leftarrow> sql (list_pictures user start count);
           let (result_set, w2) = ExecuteQuery (mysql S) sql_cmd w1;
           case result_set of
             None \<Rightarrow> Some (write_styled (json S) JNull, w2)
           | Some rs \<Rightarrow> do {
               js \<leftarrow> result_json picture_columns rs;
               Some (styled (json S) ((if js = [] then [] else [(''files'', JArr js)]) @
                 [(''code'', JInt 0), (''count'', JInt (int (length js))), (''total'', JInt n)]), w2)
             }
         }
       }))"

definition delete_picture :: "string \<Rightarrow> string \<Rightarrow> string" where
  "delete_picture user urlmd5 =
     ''delete from share_picture_list where user = '' @ quoted user @ '' and urlmd5 = '' @ quoted urlmd5"

definition handleCancelSharePicture :: "'w services \<Rightarrow> string \<Rightarrow> string \<Rightarrow> ('w, string) act" where
  "handleCancelSharePicture S user urlmd5 =
     with_db S ''filehub_master'' (\<lambda>ok. on_conn ok (\<lambda>w.
       do {
         sql_cmd \<leftarrow> sql (delete_picture user urlmd5);
         let (done, w1) = ExecutePassQuery (mysql S) sql_cmd w;
         Some (code_json (json S) (if done then 0 else 1) [], w1)
       }))"

text \<open>The request for a list of pictures names the token first.\<close>

definition ApiSharepicture :: "'w services \<Rightarrow> string \<Rightarrow> string \<Rightarrow> ('w, int \<times> string option) act" where
  "ApiSharepicture S url post_data w =
     do {
       cmd \<leftarrow> request_cmd url;
       let bad = encodeSharePictureJson (json S) 1 [];
       if cmd = ''share'' then do {
         dec \<leftarrow> decode_request (json S) post_data [''token'', ''user'', ''md5'', ''filename''];
         case dec of
           None \<Rightarrow> Some ((0, Some bad), w)
         | Some vs \<Rightarrow> do {
             (j, w1) \<leftarrow> handleSharePicture S (cstr (vs ! 1)) (cstr (vs ! 2)) (cstr (vs ! 3)) w;
             Some ((0, Some j), w1)
           }
       }
       else if cmd = ''browse'' then do {
         dec \<leftarrow> decode_request (json S) post_data [''urlmd5''];
         case dec of
           None \<Rightarrow> Some ((0, Some bad), w)
         | Some vs \<Rightarrow> do { (j, w1) \<leftarrow> handleBrowsePicture S (cstr (vs ! 0)) w; Some ((0, Some j), w1) }
       }
       else if cmd = ''normal'' then do {
         dec \<leftarrow> decodeFileslistJson (json S) post_data [''token'', ''user''];
         case dec of
           None \<Rightarrow> Some ((0, Some bad), w)
         | Some (vs, rng) \<Rightarrow> do {
             (j, w1) \<leftarrow> handleGetSharePicturesList S (cstr (vs ! 1)) (rng ! 0) (rng ! 1) w;
             Some ((0, Some j), w1)
           }
       }
       else if cmd = ''cancel'' then do {
         dec \<leftarrow> decode_request (json S) post_data [''user'', ''urlmd5''];
         case dec of
           None \<Rightarrow> Some ((0, Some (code_json (json S) 1 [])), w)
         | Some vs \<Rightarrow> do {
             (j, w1) \<leftarrow> handleCancelSharePicture S (cstr (vs ! 0)) (cstr (vs ! 1)) w;
             Some ((0, Some j), w1)
           }
       }
       else Some ((0, None), w)
     }"

end
