(* ===== verification/Tables.thy ===== *)
theory Tables
  imports Api_Lists "HOL-Library.List_Lexorder" "HOL-Library.Product_Lexorder" "HOL-Library.Char_ord" "HOL-Library.Multiset"
begin

text \<open>
  What the handlers rely on outside the program: the tables of \<open>sql/filehub.sql\<close>, the keys of the
  Redis server (the two pools of the configuration use the same database), and the FastDFS commands
  that were run.  The statements the handlers send are a datatype with the text of each and its effect
  on the tables as MySQL documents it; the laws at the end say that a record of services behaves so.

  Columns are compared by the collation of the tables, a parameter: two values are equal if \<open>coll\<close>
  maps them to the same string.
\<close>

section \<open>The tables\<close>

record file_row =
  fi_md5 :: string
  fi_file_id :: string
  fi_url :: string
  fi_size :: int
  fi_type :: string
  fi_count :: int

record owned_row =
  uf_user :: string
  uf_md5 :: string
  uf_time :: string
  uf_name :: string
  uf_shared :: int

record shared_row =
  sf_user :: string
  sf_md5 :: string
  sf_time :: string
  sf_name :: string
  sf_pv :: int

record user_row =
  us_name :: string
  us_nick :: string
  us_password :: string
  us_phone :: string
  us_email :: string
  us_time :: string

record tables =
  file_info :: "file_row list"
  user_file_list :: "owned_row list"
  share_file_list :: "shared_row list"
  user_info :: "user_row list"

section \<open>Statements\<close>

datatype statement =
    SelectUserFile string string string
  | SelectSavedFile string string string
  | SelectStatus string string string
  | SelectCount string
  | SelectShare string string
  | SelectPassword string
  | SelectUser string
  | SelectRanking
  | CountShares
  | InsertFileInfo string string string int string
  | IncrementCount string
  | IncrementSaved string
  | DecrementCount string
  | DeleteFileInfo string
  | InsertUserFile string string string string
  | DeleteUserFile string string string
  | DeleteShare string string string
  | MarkShared string string string
  | MarkUnshared string string string
  | InsertShare string string string string

fun statement_text :: "statement \<Rightarrow> string" where
  "statement_text (SelectUserFile u m f) = select_user_file u m f"
| "statement_text (SelectSavedFile u m f) = select_saved_file u m f"
| "statement_text (SelectStatus u m f) = select_shared_status u m f"
| "statement_text (SelectCount m) = select_count m"
| "statement_text (SelectShare m f) = select_share m f"
| "statement_text (SelectPassword u) = select_password_sql u"
| "statement_text (SelectUser u) = select_user_sql u"
| "statement_text SelectRanking = select_ranking"
| "statement_text CountShares = count_shares"
| "statement_text (InsertFileInfo m i url n ty) = insert_file_info m i url n ty"
| "statement_text (IncrementCount m) = increment_count m"
| "statement_text (IncrementSaved m) = increment_count_saved m"
| "statement_text (DecrementCount m) = decrement_count m"
| "statement_text (DeleteFileInfo m) = delete_file_info m"
| "statement_text (InsertUserFile u m t f) = insert_user_file u m t f"
| "statement_text (DeleteUserFile u m f) = delete_user_file u m f"
| "statement_text (DeleteShare u m f) = delete_share u m f"
| "statement_text (MarkShared u m f) = mark_shared u m f"
| "statement_text (MarkUnshared u m f) = mark_unshared u m f"
| "statement_text (InsertShare u m t f) = insert_share u m t f"

text \<open>A value that means itself between quotes and fits a column of \<open>n\<close> characters.\<close>

definition clean :: "nat \<Rightarrow> string \<Rightarrow> bool" where
  "clean n v \<longleftrightarrow> length v \<le> n \<and> (\<forall>c \<in> set v. isprint c \<and> c \<noteq> SQUOT \<and> c \<noteq> BSLASH)"

definition clean_file :: "string \<Rightarrow> string \<Rightarrow> string \<Rightarrow> bool" where
  "clean_file u m f \<longleftrightarrow> clean 32 u \<and> clean 256 m \<and> clean 128 f"

fun well_formed :: "statement \<Rightarrow> bool" where
  "well_formed (SelectUserFile u m f) = clean_file u m f"
| "well_formed (SelectSavedFile u m f) = clean_file u m f"
| "well_formed (SelectStatus u m f) = clean_file u m f"
| "well_formed (SelectCount m) = clean 256 m"
| "well_formed (SelectShare m f) = (clean 256 m \<and> clean 128 f)"
| "well_formed (SelectPassword u) = clean 32 u"
| "well_formed (SelectUser u) = clean 32 u"
| "well_formed SelectRanking = True"
| "well_formed CountShares = True"
| "well_formed (InsertFileInfo m i url n ty) =
     (clean 256 m \<and> clean 256 i \<and> clean 512 url \<and> 0 \<le> n \<and> n < 2 ^ 63 \<and> clean 32 ty)"
| "well_formed (IncrementCount m) = clean 256 m"
| "well_formed (IncrementSaved m) = clean 256 m"
| "well_formed (DecrementCount m) = clean 256 m"
| "well_formed (DeleteFileInfo m) = clean 256 m"
| "well_formed (InsertUserFile u m t f) = (clean_file u m f \<and> clean 19 t)"
| "well_formed (DeleteUserFile u m f) = clean_file u m f"
| "well_formed (DeleteShare u m f) = clean_file u m f"
| "well_formed (MarkShared u m f) = clean_file u m f"
| "well_formed (MarkUnshared u m f) = clean_file u m f"
| "well_formed (InsertShare u m t f) = (clean_file u m f \<and> clean 19 t)"

section \<open>What a statement does\<close>

type_synonym collation = "string \<Rightarrow> string"

definition is_file :: "collation \<Rightarrow> string \<Rightarrow> file_row \<Rightarrow> bool" where
  "is_file coll m r \<longleftrightarrow> coll (fi_md5 r) = coll m"

definition is_owned :: "collation \<Rightarrow> string \<Rightarrow> string \<Rightarrow> string \<Rightarrow> owned_row \<Rightarrow> bool" where
  "is_owned coll u m f r \<longleftrightarrow> coll (uf_user r) = coll u \<and> coll (uf_md5 r) = coll m \<and> coll (uf_name r) = coll f"

definition is_shared :: "collation \<Rightarrow> string \<Rightarrow> string \<Rightarrow> shared_row \<Rightarrow> bool" where
  "is_shared coll m f r \<longleftrightarrow> coll (sf_md5 r) = coll m \<and> coll (sf_name r) = coll f"

definition is_shared_by :: "collation \<Rightarrow> string \<Rightarrow> string \<Rightarrow> string \<Rightarrow> shared_row \<Rightarrow> bool" where
  "is_shared_by coll u m f r \<longleftrightarrow> coll (sf_user r) = coll u \<and> is_shared coll m f r"

definition is_user :: "collation \<Rightarrow> string \<Rightarrow> user_row \<Rightarrow> bool" where
  "is_user coll u r \<longleftrightarrow> coll (us_name r) = coll u"

text \<open>Changing the rows that satisfy a condition.\<close>

definition update_rows :: "('r \<Rightarrow> bool) \<Rightarrow> ('r \<Rightarrow> 'r) \<Rightarrow> 'r list \<Rightarrow> 'r list" where
  "update_rows P g rows = map (\<lambda>r. if P r then g r else r) rows"

definition delete_rows :: "('r \<Rightarrow> bool) \<Rightarrow> 'r list \<Rightarrow> 'r list" where
  "delete_rows P rows = filter (\<lambda>r. \<not> P r) rows"

definition matches :: "('r \<Rightarrow> bool) \<Rightarrow> 'r list \<Rightarrow> nat" where
  "matches P rows = length (filter P rows)"

definition has_row :: "('r \<Rightarrow> bool) \<Rightarrow> 'r list \<Rightarrow> bool" where
  "has_row P rows \<longleftrightarrow> (\<exists>r \<in> set rows. P r)"

text \<open>When MySQL refuses a statement: a duplicate key, or a number out of range.\<close>

fun refuses :: "collation \<Rightarrow> statement \<Rightarrow> tables \<Rightarrow> bool" where
  "refuses coll (InsertFileInfo m i url n ty) t = has_row (is_file coll m) (file_info t)"
| "refuses coll (InsertUserFile u m tm f) t = has_row (is_owned coll u m f) (user_file_list t)"
| "refuses coll (IncrementCount m) t = has_row (\<lambda>r. is_file coll m r \<and> 2 ^ 31 - 1 \<le> fi_count r) (file_info t)"
| "refuses coll (IncrementSaved m) t = has_row (\<lambda>r. is_file coll m r \<and> 2 ^ 31 - 1 \<le> fi_count r) (file_info t)"
| "refuses coll (DecrementCount m) t = has_row (\<lambda>r. is_file coll m r \<and> fi_count r \<le> - (2 ^ 31)) (file_info t)"
| "refuses coll st t = False"

definition add_count :: "collation \<Rightarrow> string \<Rightarrow> int \<Rightarrow> tables \<Rightarrow> tables" where
  "add_count coll m n t =
     t\<lparr>file_info := update_rows (is_file coll m) (\<lambda>r. r\<lparr>fi_count := fi_count r + n\<rparr>) (file_info t)\<rparr>"

definition set_shared :: "collation \<Rightarrow> string \<Rightarrow> string \<Rightarrow> string \<Rightarrow> int \<Rightarrow> tables \<Rightarrow> tables" where
  "set_shared coll u m f s t =
     t\<lparr>user_file_list := update_rows (is_owned coll u m f) (\<lambda>r. r\<lparr>uf_shared := s\<rparr>) (user_file_list t)\<rparr>"

text \<open>What a statement that is not refused does.\<close>

fun effect :: "collation \<Rightarrow> statement \<Rightarrow> tables \<Rightarrow> tables" where
  "effect coll (InsertFileInfo m i url n ty) t =
     t\<lparr>file_info := file_info t @
       [\<lparr>fi_md5 = m, fi_file_id = i, fi_url = url, fi_size = n, fi_type = ty, fi_count = 1\<rparr>]\<rparr>"
| "effect coll (IncrementCount m) t = add_count coll m 1 t"
| "effect coll (IncrementSaved m) t = add_count coll m 1 t"
| "effect coll (DecrementCount m) t = add_count coll m (-1) t"
| "effect coll (DeleteFileInfo m) t = t\<lparr>file_info := delete_rows (is_file coll m) (file_info t)\<rparr>"
| "effect coll (InsertUserFile u m tm f) t =
     t\<lparr>user_file_list := user_file_list t @
       [\<lparr>uf_user = u, uf_md5 = m, uf_time = tm, uf_name = f, uf_shared = 0\<rparr>]\<rparr>"
| "effect coll (DeleteUserFile u m f) t =
     t\<lparr>user_file_list := delete_rows (is_owned coll u m f) (user_file_list t)\<rparr>"
| "effect coll (DeleteShare u m f) t =
     t\<lparr>share_file_list := delete_rows (is_shared_by coll u m f) (share_file_list t)\<rparr>"
| "effect coll (MarkShared u m f) t = set_shared coll u m f 1 t"
| "effect coll (MarkUnshared u m f) t = set_shared coll u m f 0 t"
| "effect coll (InsertShare u m tm f) t =
     t\<lparr>share_file_list := share_file_list t @
       [\<lparr>sf_user = u, sf_md5 = m, sf_time = tm, sf_name = f, sf_pv = 0\<rparr>]\<rparr>"
| "effect coll st t = t"

text \<open>
  What MySQL reports.  The rows of \<open>select *\<close> have columns the handlers do not look at, and the order of
  rows with equal \<open>pv\<close> is not determined.  The number of rows an update changed is only looked at for
  \<open>count\<close>.
\<close>

definition ranking_rows :: "shared_row list \<Rightarrow> string option list list" where
  "ranking_rows = map (\<lambda>r. [Some (sf_md5 r), Some (sf_name r), Some (dec_int (sf_pv r))])"

fun answers :: "collation \<Rightarrow> statement \<Rightarrow> tables \<Rightarrow> query_result \<Rightarrow> bool" where
  "answers coll (SelectUserFile u m f) t q =
     (\<exists>cols rows. q = Rows cols rows \<and> length rows = matches (is_owned coll u m f) (user_file_list t))"
| "answers coll (SelectSavedFile u m f) t q =
     (\<exists>cols rows. q = Rows cols rows \<and> length rows = matches (is_owned coll u m f) (user_file_list t))"
| "answers coll (SelectShare m f) t q =
     (\<exists>cols rows. q = Rows cols rows \<and> length rows = matches (is_shared coll m f) (share_file_list t))"
| "answers coll (SelectUser u) t q =
     (\<exists>ids. q = Rows [''id''] (map (\<lambda>i. [Some (dec_nat i)]) ids) \<and> length ids = matches (is_user coll u) (user_info t))"
| "answers coll (SelectStatus u m f) t q =
     (q = Rows [''shared_status''] (map (\<lambda>r. [Some (dec_int (uf_shared r))]) (filter (is_owned coll u m f) (user_file_list t))))"
| "answers coll (SelectCount m) t q =
     (q = Rows [''count'', ''file_id'']
        (map (\<lambda>r. [Some (dec_int (fi_count r)), Some (fi_file_id r)]) (filter (is_file coll m) (file_info t))))"
| "answers coll (SelectPassword u) t q =
     (q = Rows [''password''] (map (\<lambda>r. [Some (us_password r)]) (filter (is_user coll u) (user_info t))))"
| "answers coll SelectRanking t q =
     (\<exists>rows. mset rows = mset (share_file_list t) \<and> sorted_wrt (\<lambda>a b. sf_pv b \<le> sf_pv a) rows \<and>
        q = Rows [''md5'', ''file_name'', ''pv''] (ranking_rows rows))"
| "answers coll CountShares t q = (q = Rows [''count(*)''] [[Some (dec_nat (length (share_file_list t)))]])"
| "answers coll (IncrementSaved m) t q = (q = Affected (matches (is_file coll m) (file_info t)))"
| "answers coll (DecrementCount m) t q = (q = Affected (matches (is_file coll m) (file_info t)))"
| "answers coll st t q = (\<exists>n. q = Affected n)"

section \<open>Redis\<close>

datatype rvalue = RString string | RZset "(string \<times> int) list" | RHash "(string \<times> string) list"

record outside =
  db :: tables
  redis :: "string \<Rightarrow> rvalue option"
  commands :: "string list"

text \<open>The value of a key of each type; the outer \<open>None\<close> is the error \<open>WRONGTYPE\<close>.  An empty collection is no key.\<close>

definition zset_at :: "outside \<Rightarrow> string \<Rightarrow> (string \<times> int) list option" where
  "zset_at v key = (case redis v key of None \<Rightarrow> Some [] | Some (RZset z) \<Rightarrow> Some z | Some _ \<Rightarrow> None)"

definition hash_at :: "outside \<Rightarrow> string \<Rightarrow> (string \<times> string) list option" where
  "hash_at v key = (case redis v key of None \<Rightarrow> Some [] | Some (RHash h) \<Rightarrow> Some h | Some _ \<Rightarrow> None)"

definition string_at :: "outside \<Rightarrow> string \<Rightarrow> string" where
  "string_at v key = (case redis v key of Some (RString s) \<Rightarrow> s | _ \<Rightarrow> [])"

definition put :: "string \<Rightarrow> rvalue option \<Rightarrow> outside \<Rightarrow> outside" where
  "put key x v = v\<lparr>redis := (redis v)(key := x)\<rparr>"

definition put_zset :: "string \<Rightarrow> (string \<times> int) list \<Rightarrow> outside \<Rightarrow> outside" where
  "put_zset key z = put key (if z = [] then None else Some (RZset z))"

definition put_hash :: "string \<Rightarrow> (string \<times> string) list \<Rightarrow> outside \<Rightarrow> outside" where
  "put_hash key h = put key (if h = [] then None else Some (RHash h))"

definition without :: "string \<Rightarrow> (string \<times> 'a) list \<Rightarrow> (string \<times> 'a) list" where
  "without k = filter (\<lambda>p. fst p \<noteq> k)"

text \<open>\<open>ZREVRANGE\<close>: by descending score, and descending bytes of the member.\<close>

definition ranked :: "(string \<times> int) list \<Rightarrow> string list" where
  "ranked z = map snd (rev (sort (map (\<lambda>p. (snd p, fst p)) z)))"

section \<open>The laws\<close>

text \<open>
  Services that work: every pool gives a connection, the lock is obtained, each statement is executed
  or refused as above, and nobody else changes the tables or the keys meanwhile.  \<open>view\<close> is what the
  world holds of the tables, the keys and the commands.
\<close>

definition pools_law :: "'w services \<Rightarrow> ('w \<Rightarrow> outside) \<Rightarrow> bool" where
  "pools_law S view \<longleftrightarrow> (\<forall>p w.
     fst (get_db S p w) \<and> view (snd (get_db S p w)) = view w \<and> view (rel_db S p w) = view w \<and>
     fst (get_cache S p w) \<and> view (snd (get_cache S p w)) = view w \<and> view (rel_cache S p w) = view w \<and>
     fst (try_lock S w) \<and> view (snd (try_lock S w)) = view w \<and> view (unlock S w) = view w)"

definition system_law :: "'w services \<Rightarrow> ('w \<Rightarrow> outside) \<Rightarrow> bool" where
  "system_law S view \<longleftrightarrow> (\<forall>w.
     clean 19 (fst (time_text S w)) \<and> view (snd (time_text S w)) = view w \<and>
     view (snd (time_now S w)) = view w \<and> (\<forall>n. view (sleep_us S n w) = view w) \<and>
     clean 36 (fst (generateUUID S w)) \<and> view (snd (generateUUID S w)) = view w \<and>
     (\<forall>cmd. fst (system_call S cmd w) = 0 \<and>
        view (snd (system_call S cmd w)) = (view w)\<lparr>commands := commands (view w) @ [cmd]\<rparr>))"

definition mysql_law :: "collation \<Rightarrow> 'w services \<Rightarrow> ('w \<Rightarrow> outside) \<Rightarrow> bool" where
  "mysql_law coll S view \<longleftrightarrow> (\<forall>st w. well_formed st \<longrightarrow>
     (let (q, w') = real_query (mysql S) (statement_text st) w; t = db (view w)
      in if refuses coll st t then q = QueryError \<and> view w' = view w
         else answers coll st t q \<and> view w' = (view w)\<lparr>db := effect coll st t\<rparr>))"

definition new_user :: "string \<Rightarrow> string \<Rightarrow> string \<Rightarrow> string \<Rightarrow> string \<Rightarrow> string \<Rightarrow> user_row" where
  "new_user name nick pwd phone email tm =
     \<lparr>us_name = name, us_nick = nick, us_password = pwd, us_phone = phone, us_email = email, us_time = tm\<rparr>"

definition clean_user :: "user_row \<Rightarrow> bool" where
  "clean_user r \<longleftrightarrow> clean 32 (us_name r) \<and> clean 32 (us_nick r) \<and> clean 32 (us_password r) \<and>
     clean 16 (us_phone r) \<and> clean 64 (us_email r) \<and> clean 19 (us_time r)"

text \<open>The statement of \<open>registerUser\<close>; both the name and the nickname are unique keys.\<close>

definition name_taken :: "collation \<Rightarrow> user_row \<Rightarrow> tables \<Rightarrow> bool" where
  "name_taken coll r t \<longleftrightarrow>
     has_row (\<lambda>r'. coll (us_name r') = coll (us_name r) \<or> coll (us_nick r') = coll (us_nick r)) (user_info t)"

definition prepared_law :: "collation \<Rightarrow> 'w services \<Rightarrow> ('w \<Rightarrow> outside) \<Rightarrow> bool" where
  "prepared_law coll S view \<longleftrightarrow> (\<forall>w.
     fst (stmt_prepare (mysql S) insert_user_sql w) = Some 6 \<and>
     view (snd (stmt_prepare (mysql S) insert_user_sql w)) = view w \<and>
     (\<forall>r. clean_user r \<longrightarrow>
        (let (n, w') = stmt_execute (mysql S) insert_user_sql
           (map Some [us_name r, us_nick r, us_password r, us_phone r, us_email r, us_time r]) w; t = db (view w)
         in if name_taken coll r t then n = None \<and> view w' = view w
            else n = Some 1 \<and> view w' = (view w)\<lparr>db := t\<lparr>user_info := user_info t @ [r]\<rparr>\<rparr>)))"

text \<open>The result of an operation and what it leaves, as far as the view shows it.\<close>

definition gives :: "('w \<Rightarrow> outside) \<Rightarrow> ('w, 'a) act \<Rightarrow> 'w \<Rightarrow> ('a \<Rightarrow> bool) \<Rightarrow> outside \<Rightarrow> bool" where
  "gives view f w P v \<longleftrightarrow> (\<exists>a w'. f w = Some (a, w') \<and> P a \<and> view w' = v)"

definition bytes_ok :: "string \<Rightarrow> bool" where "bytes_ok s \<longleftrightarrow> NUL \<notin> set s"

definition strings_law :: "'w services \<Rightarrow> ('w \<Rightarrow> outside) \<Rightarrow> bool" where
  "strings_law S view \<longleftrightarrow> (\<forall>p k x n w. bytes_ok k \<and> bytes_ok x \<longrightarrow>
     gives view (op_Get (cache S) p k) w (\<lambda>a. a = string_at (view w) k) (view w) \<and>
     gives view (op_Set (cache S) p k x) w (\<lambda>a. a \<noteq> []) (put k (Some (RString x)) (view w)) \<and>
     (0 < n \<longrightarrow> gives view (op_SetEx (cache S) p k n x) w (\<lambda>a. a \<noteq> []) (put k (Some (RString x)) (view w))) \<and>
     gives view (op_Del (cache S) p k) w (\<lambda>a. True) (put k None (view w)))"

text \<open>\<open>ZLEXCOUNT\<close>, which \<open>ZsetExist\<close> sends, is specified for members of equal scores only.\<close>

definition zsets_law :: "'w services \<Rightarrow> ('w \<Rightarrow> outside) \<Rightarrow> bool" where
  "zsets_law S view \<longleftrightarrow> (\<forall>p k m s z w. bytes_ok k \<and> bytes_ok m \<and> zset_at (view w) k = Some z \<longrightarrow>
     gives view (op_ZsetAdd (cache S) p k s m) w (\<lambda>a. a = 0) (put_zset k ((m, s) # without m z) (view w)) \<and>
     gives view (op_ZsetZrem (cache S) p k m) w (\<lambda>a. a = 0) (put_zset k (without m z) (view w)) \<and>
     gives view (op_ZsetExist (cache S) p k m) w
       (\<lambda>a. (\<forall>s. snd ` set z \<subseteq> {s} \<longrightarrow> a = (if m \<in> fst ` set z then 1 else 0))) (view w) \<and>
     gives view (op_ZsetZcard (cache S) p k) w (\<lambda>a. length z < 2 ^ 31 \<longrightarrow> a = int (length z)) (view w) \<and>
     gives view (op_ZsetGetScore (cache S) p k m) w
       (\<lambda>a. \<forall>v. map_of z m = Some v \<and> - (2 ^ 31) \<le> v \<and> v < 2 ^ 31 \<longrightarrow> a = v) (view w))"

definition ranking_law :: "'w services \<Rightarrow> ('w \<Rightarrow> outside) \<Rightarrow> bool" where
  "ranking_law S view \<longleftrightarrow> (\<forall>p k i j n z w.
     bytes_ok k \<and> zset_at (view w) k = Some z \<and> 0 \<le> i \<and> i \<le> j + 1 \<and> j < 2 ^ 31 \<and> nat (j - i + 1) \<le> n \<and>
     (\<forall>m \<in> fst ` set z. bytes_ok m \<and> length m < 1024) \<longrightarrow>
     gives view (op_ZsetZrevrange (cache S) p k i j n) w
       (\<lambda>a. let ms = take (nat (j - i + 1)) (drop (nat i) (ranked z)) in a = (0, Some (int (length ms)), ms)) (view w))"

definition hashes_law :: "'w services \<Rightarrow> ('w \<Rightarrow> outside) \<Rightarrow> bool" where
  "hashes_law S view \<longleftrightarrow> (\<forall>p k f x n h w. bytes_ok k \<and> bytes_ok f \<and> bytes_ok x \<and> hash_at (view w) k = Some h \<longrightarrow>
     gives view (op_Hset (cache S) p k f x) w (\<lambda>a. a = 0 \<or> a = 1) (put_hash k ((f, x) # without f h) (view w)) \<and>
     gives view (op_Hdel (cache S) p k f) w (\<lambda>a. a = (if f \<in> fst ` set h then 1 else 0)) (put_hash k (without f h) (view w)) \<and>
     gives view (op_Hget (cache S) p k f n) w
       (\<lambda>a. \<forall>y. map_of h f = Some y \<and> bytes_ok y \<and> length y < n \<and> n \<le> 1024 \<longrightarrow> a = (0, Some y)) (view w))"

definition reliable :: "collation \<Rightarrow> 'w services \<Rightarrow> ('w \<Rightarrow> outside) \<Rightarrow> bool" where
  "reliable coll S view \<longleftrightarrow> pools_law S view \<and> system_law S view \<and> mysql_law coll S view \<and> prepared_law coll S view \<and>
     strings_law S view \<and> zsets_law S view \<and> ranking_law S view \<and> hashes_law S view"

end
