(* ===== verification/Handler_Rules.thy ===== *)
theory Handler_Rules
  imports Tables
begin

text \<open>
  Weakest preconditions for the handlers over what the view shows, with a rule for each construct they
  are written with and each service they call.
\<close>

definition wp :: "('w \<Rightarrow> outside) \<Rightarrow> ('w, 'a) act \<Rightarrow> ('a \<Rightarrow> outside \<Rightarrow> bool) \<Rightarrow> outside \<Rightarrow> bool" where
  "wp view f Q v \<longleftrightarrow> (\<forall>w. view w = v \<longrightarrow> (\<exists>a w'. f w = Some (a, w') \<and> Q a (view w')))"

named_theorems wp_rules

section \<open>Constructs\<close>

lemma wp_result: "wp view f Q (view w) \<Longrightarrow> \<exists>a w'. f w = Some (a, w') \<and> Q a (view w')"
  by (auto simp: wp_def)

lemma wp_conseq: "wp view f P v \<Longrightarrow> (\<And>a v'. P a v' \<Longrightarrow> Q a v') \<Longrightarrow> wp view f Q v"
  unfolding wp_def by blast

lemma wp_return [wp_rules]: "Q a v \<Longrightarrow> wp view (\<lambda>w. Some (a, w)) Q v"
  by (simp add: wp_def)

lemma wp_bind [wp_rules]:
  "wp view f (\<lambda>a. wp view (g a) Q) v \<Longrightarrow> wp view (\<lambda>w. Option.bind (f w) (\<lambda>(a, w1). g a w1)) Q v"
  unfolding wp_def by fastforce

lemma wp_let [wp_rules]:
  "wp view (\<lambda>w. Some (f w)) (\<lambda>a. wp view (g a) Q) v \<Longrightarrow> wp view (\<lambda>w. let (a, w1) = f w in g a w1) Q v"
  unfolding wp_def by (auto simp: split_beta)

lemma wp_case:
  "wp view (\<lambda>w. Some (f w)) (\<lambda>a. wp view (g a) Q) v \<Longrightarrow> wp view (\<lambda>w. case f w of (a, w1) \<Rightarrow> g a w1) Q v"
  using wp_let [of view f g Q v] by (simp add: Let_def)

lemma wp_pure [wp_rules]:
  "c = Some x \<Longrightarrow> wp view (g x) Q v \<Longrightarrow> wp view (\<lambda>w. Option.bind c (\<lambda>x. g x w)) Q v"
  by simp

lemma wp_let_pure [wp_rules]:
  "(\<And>a b. p = (a, b) \<Longrightarrow> wp view (g a b) Q v) \<Longrightarrow> wp view (\<lambda>w. let (a, b) = p in g a b w) Q v"
  by (cases p) simp

lemma wp_if [wp_rules]:
  "(b \<Longrightarrow> wp view f Q v) \<Longrightarrow> (\<not> b \<Longrightarrow> wp view g Q v) \<Longrightarrow> wp view (\<lambda>w. if b then f w else g w) Q v"
  by (cases b) simp_all

lemma wp_option [wp_rules]:
  "(x = None \<Longrightarrow> wp view f Q v) \<Longrightarrow> (\<And>y. x = Some y \<Longrightarrow> wp view (g y) Q v) \<Longrightarrow>
   wp view (\<lambda>w. case x of None \<Rightarrow> f w | Some y \<Rightarrow> g y w) Q v"
  by (cases x) simp_all

lemma wp_split [wp_rules]: "(\<And>a b. p = (a, b) \<Longrightarrow> wp view (g a b) Q v) \<Longrightarrow> wp view (case_prod g p) Q v"
  by (cases p) simp

lemma wp_case_prod [wp_rules]:
  "(\<And>a b. p = (a, b) \<Longrightarrow> wp view (g a b) Q v) \<Longrightarrow> wp view (\<lambda>w. case p of (a, b) \<Rightarrow> g a b w) Q v"
  by (cases p) simp

lemma wp_on_conn [wp_rules]: "wp view f Q v \<Longrightarrow> wp view (on_conn True f) Q v"
  by (simp add: wp_def on_conn_def)

lemma wp_some_if [wp_rules]:
  "(b \<Longrightarrow> wp view (\<lambda>w. Some (f w)) Q v) \<Longrightarrow> (\<not> b \<Longrightarrow> wp view (\<lambda>w. Some (g w)) Q v) \<Longrightarrow>
   wp view (\<lambda>w. Some (if b then f w else g w)) Q v"
  by (cases b) simp_all

lemma wp_gives: "(\<And>w. view w = v \<Longrightarrow> gives view f w P v') \<Longrightarrow> (\<And>a. P a \<Longrightarrow> Q a v') \<Longrightarrow> wp view f Q v"
  unfolding wp_def gives_def by blast

section \<open>Pools, lock and clock\<close>

lemma reliableD:
  assumes "reliable coll S view"
  shows "pools_law S view" "system_law S view" "mysql_law coll S view" "prepared_law coll S view"
    "strings_law S view" "zsets_law S view" "ranking_law S view" "hashes_law S view"
  using assms by (simp_all add: reliable_def)

text \<open>A body between taking something and giving it back.\<close>

lemma wp_held:
  assumes "\<And>w. fst (take_it w)" "\<And>w. view (snd (take_it w)) = view w" "\<And>w. view (give w) = view w"
    and "wp view (body True) Q v"
  shows "wp view (\<lambda>w. let (ok, w1) = take_it w
    in Option.bind (body ok w1) (\<lambda>(r, w2). Some (r, if ok then give w2 else w2))) Q v"
  unfolding wp_def
proof (intro allI impI)
  fix w assume "view w = v"
  with assms(2,4) obtain a w' where "body True (snd (take_it w)) = Some (a, w')" "Q a (view w')"
    unfolding wp_def by metis
  with assms(1,3) show "\<exists>a w'. (let (ok, w1) = take_it w
      in Option.bind (body ok w1) (\<lambda>(r, w2). Some (r, if ok then give w2 else w2))) = Some (a, w') \<and> Q a (view w')"
    by (simp add: split_beta)
qed

lemma wp_with_db [wp_rules]: "reliable coll S view \<Longrightarrow> wp view (body True) Q v \<Longrightarrow> wp view (with_db S p body) Q v"
  unfolding with_db_def by (rule wp_held) (auto dest: reliableD(1) simp: pools_law_def)

lemma wp_with_cache [wp_rules]: "reliable coll S view \<Longrightarrow> wp view (body True) Q v \<Longrightarrow> wp view (with_cache S p body) Q v"
  unfolding with_cache_def by (rule wp_held) (auto dest: reliableD(1) simp: pools_law_def)

lemma wp_with_lock [wp_rules]: "reliable coll S view \<Longrightarrow> wp view (body True) Q v \<Longrightarrow> wp view (with_lock S body) Q v"
  unfolding with_lock_def by (rule wp_held) (auto dest: reliableD(1) simp: pools_law_def)

lemma wp_time_text [wp_rules]:
  "reliable coll S view \<Longrightarrow> (\<And>t. clean 19 t \<Longrightarrow> Q t v) \<Longrightarrow> wp view (\<lambda>w. Some (time_text S w)) Q v"
  unfolding wp_def by (frule reliableD(2)) (simp add: system_law_def, metis surj_pair prod.sel)

lemma wp_time_now [wp_rules]:
  "reliable coll S view \<Longrightarrow> (\<And>t. Q t v) \<Longrightarrow> wp view (\<lambda>w. Some (time_now S w)) Q v"
  unfolding wp_def by (frule reliableD(2)) (simp add: system_law_def, metis surj_pair prod.sel)

lemma wp_generateUUID [wp_rules]:
  "reliable coll S view \<Longrightarrow> (\<And>t. clean 36 t \<Longrightarrow> Q t v) \<Longrightarrow> wp view (\<lambda>w. Some (generateUUID S w)) Q v"
  unfolding wp_def by (frule reliableD(2)) (simp add: system_law_def, metis surj_pair prod.sel)

lemma wp_system_call [wp_rules]:
  "reliable coll S view \<Longrightarrow> Q 0 (v\<lparr>commands := commands v @ [cmd]\<rparr>) \<Longrightarrow>
   wp view (\<lambda>w. Some (system_call S cmd w)) Q v"
  unfolding wp_def by (frule reliableD(2)) (simp add: system_law_def, metis surj_pair prod.sel)

section \<open>Statements\<close>

lemma isprint_NUL [simp]: "\<not> isprint NUL"
  by (simp add: isprint_def)

lemma clean_NUL: "clean n v \<Longrightarrow> NUL \<notin> set v"
  using isprint_NUL unfolding clean_def by blast

lemma clean_SQUOT: "clean n v \<Longrightarrow> SQUOT \<notin> set v"
  unfolding clean_def by blast

lemma clean_cstr: "clean n v \<Longrightarrow> cstr v = v"
  by (simp add: clean_NUL cstr_id)

lemma clean_length: "clean n v \<Longrightarrow> length v \<le> n"
  by (simp add: clean_def)

lemma clean_cstr_length: "clean n v \<Longrightarrow> length (cstr v) \<le> n"
  by (simp add: clean_cstr clean_length)

lemma clean_bytes: "clean n v \<Longrightarrow> bytes_ok v"
  by (simp add: clean_NUL bytes_ok_def)

lemmas statement_defs =
  select_user_file_def select_saved_file_def select_shared_status_def select_count_def select_share_def
  select_password_sql_def select_user_sql_def select_ranking_def count_shares_def insert_file_info_def
  increment_count_def increment_count_saved_def decrement_count_def delete_file_info_def insert_user_file_def
  delete_user_file_def delete_share_def mark_shared_def mark_unshared_def insert_share_def where_user_file_def

lemma bytes_ok_simps [simp]:
  "bytes_ok []"
  "bytes_ok (c # s) \<longleftrightarrow> c \<noteq> NUL \<and> bytes_ok s"
  "bytes_ok (s @ t) \<longleftrightarrow> bytes_ok s \<and> bytes_ok t"
  "bytes_ok (cstr s)"
  by (auto simp: bytes_ok_def)

lemma bytes_cstr: "bytes_ok s \<Longrightarrow> cstr s = s"
  by (simp add: bytes_ok_def cstr_id)

lemma statement_bytes: "bytes_ok (statement_text st)"
  by (cases st) (simp_all add: statement_defs)

lemma cstr_statement [simp]: "cstr (statement_text st) = statement_text st"
  by (rule bytes_cstr) (rule statement_bytes)

text \<open>The text of a statement is that of its constructor.\<close>

lemma statement_texts:
  "select_user_file u m f = statement_text (SelectUserFile u m f)"
  "select_saved_file u m f = statement_text (SelectSavedFile u m f)"
  "select_shared_status u m f = statement_text (SelectStatus u m f)"
  "select_count m = statement_text (SelectCount m)"
  "select_share m f = statement_text (SelectShare m f)"
  "select_password_sql u = statement_text (SelectPassword u)"
  "select_user_sql u = statement_text (SelectUser u)"
  "select_ranking = statement_text SelectRanking"
  "count_shares = statement_text CountShares"
  "insert_file_info m i url n ty = statement_text (InsertFileInfo m i url n ty)"
  "increment_count m = statement_text (IncrementCount m)"
  "increment_count_saved m = statement_text (IncrementSaved m)"
  "decrement_count m = statement_text (DecrementCount m)"
  "delete_file_info m = statement_text (DeleteFileInfo m)"
  "insert_user_file u m t f = statement_text (InsertUserFile u m t f)"
  "delete_user_file u m f = statement_text (DeleteUserFile u m f)"
  "delete_share u m f = statement_text (DeleteShare u m f)"
  "mark_shared u m f = statement_text (MarkShared u m f)"
  "mark_unshared u m f = statement_text (MarkUnshared u m f)"
  "insert_share u m t f = statement_text (InsertShare u m t f)"
  by simp_all

text \<open>A query, and an update with what it makes of the answer.\<close>

definition result_of :: "query_result \<Rightarrow> CResultSet option" where
  "result_of q = (case q of Rows cols rows \<Rightarrow> Some (new_CResultSet cols rows) | _ \<Rightarrow> None)"

lemma wp_statement:
  assumes "reliable coll S view" "well_formed st" "\<And>w. g w = (let (q, w1) = run_query (mysql S) (statement_text st) w in (h q, w1))"
    and "refuses coll st (db v) \<Longrightarrow> Q (h QueryError) v"
    and "\<And>q. \<not> refuses coll st (db v) \<Longrightarrow> answers coll st (db v) q \<Longrightarrow> Q (h q) (v\<lparr>db := effect coll st (db v)\<rparr>)"
  shows "wp view (\<lambda>w. Some (g w)) Q v"
  unfolding wp_def
proof (intro allI impI)
  fix w assume v: "view w = v"
  obtain q w' where r: "real_query (mysql S) (statement_text st) w = (q, w')" by (cases "real_query (mysql S) (statement_text st) w")
  with reliableD(3) [OF assms(1)] assms(2) v have
    "if refuses coll st (db v) then q = QueryError \<and> view w' = v
     else answers coll st (db v) q \<and> view w' = v\<lparr>db := effect coll st (db v)\<rparr>"
    unfolding mysql_law_def by (auto simp: Let_def dest!: spec [where x = st] spec [where x = w])
  with assms(4,5) r show "\<exists>a w'. Some (g w) = Some (a, w') \<and> Q a (view w')"
    by (simp add: assms(3) run_query_def split: if_splits)
qed

lemma wp_ExecuteQuery [wp_rules]:
  assumes "reliable coll S view" "well_formed st"
    and "refuses coll st (db v) \<Longrightarrow> Q None v"
    and "\<And>q. \<not> refuses coll st (db v) \<Longrightarrow> answers coll st (db v) q \<Longrightarrow> Q (result_of q) (v\<lparr>db := effect coll st (db v)\<rparr>)"
  shows "wp view (\<lambda>w. Some (ExecuteQuery (mysql S) (statement_text st) w)) Q v"
  by (rule wp_statement [OF assms(1,2), where h = result_of])
    (use assms(3,4) in \<open>auto simp: ExecuteQuery_def result_of_def split: query_result.split prod.split\<close>)

lemma wp_CheckwhetherHaveRecord [wp_rules]:
  assumes "reliable coll S view" "well_formed st"
    and "refuses coll st (db v) \<Longrightarrow> Q (-1) v"
    and "\<And>q. \<not> refuses coll st (db v) \<Longrightarrow> answers coll st (db v) q \<Longrightarrow>
      Q (case result_of q of None \<Rightarrow> -1 | Some rs \<Rightarrow> if snd (rs_Next rs) then 1 else 0) (v\<lparr>db := effect coll st (db v)\<rparr>)"
  shows "wp view (\<lambda>w. Some (CheckwhetherHaveRecord (mysql S) (statement_text st) w)) Q v"
  by (rule wp_statement [OF assms(1,2),
        where h = "\<lambda>q. case result_of q of None \<Rightarrow> -1 | Some rs \<Rightarrow> if snd (rs_Next rs) then 1 else 0"])
    (use assms(3,4) in \<open>auto simp: CheckwhetherHaveRecord_def ExecuteQuery_def result_of_def split: query_result.split prod.split\<close>)

lemma wp_execute [wp_rules]:
  assumes "reliable coll S view" "well_formed st"
    and "refuses coll st (db v) \<Longrightarrow> Q False v"
    and "\<not> refuses coll st (db v) \<Longrightarrow> Q True (v\<lparr>db := effect coll st (db v)\<rparr>)"
    and "\<And>t. \<not> answers coll st t QueryError"
  shows "wp view (\<lambda>w. Some (ExecuteCreate (mysql S) (statement_text st) w)) Q v"
    and "wp view (\<lambda>w. Some (ExecutePassQuery (mysql S) (statement_text st) w)) Q v"
    and "wp view (\<lambda>w. Some (ExecuteDrop (mysql S) (statement_text st) w)) Q v"
    and "wp view (\<lambda>w. Some (ExecuteUpdate (mysql S) (statement_text st) False w)) Q v"
proof -
  have q: "Q (q \<noteq> QueryError) (v\<lparr>db := effect coll st (db v)\<rparr>)" if "\<not> refuses coll st (db v)" "answers coll st (db v) q" for q
  proof -
    from that(2) assms(5) have "q \<noteq> QueryError" by metis
    with assms(4) that(1) show ?thesis by simp
  qed
  show "wp view (\<lambda>w. Some (ExecuteCreate (mysql S) (statement_text st) w)) Q v"
    by (rule wp_statement [OF assms(1,2), where h = "\<lambda>q. q \<noteq> QueryError"]) (use assms(3) q in \<open>auto simp: ExecuteCreate_def\<close>)
  show "wp view (\<lambda>w. Some (ExecutePassQuery (mysql S) (statement_text st) w)) Q v"
    by (rule wp_statement [OF assms(1,2), where h = "\<lambda>q. q \<noteq> QueryError"]) (use assms(3) q in \<open>auto simp: ExecutePassQuery_def\<close>)
  show "wp view (\<lambda>w. Some (ExecuteDrop (mysql S) (statement_text st) w)) Q v"
    by (rule wp_statement [OF assms(1,2), where h = "\<lambda>q. q \<noteq> QueryError"]) (use assms(3) q in \<open>auto simp: ExecuteDrop_def\<close>)
  show "wp view (\<lambda>w. Some (ExecuteUpdate (mysql S) (statement_text st) False w)) Q v"
    by (rule wp_statement [OF assms(1,2), where h = "\<lambda>q. q \<noteq> QueryError"]) (use assms(3) q in \<open>auto simp: ExecuteUpdate_def split: prod.split\<close>)
qed

text \<open>An update whose rows are counted.\<close>

lemma wp_ExecuteUpdate [wp_rules]:
  assumes "reliable coll S view" "well_formed st"
    and "refuses coll st (db v) \<Longrightarrow> Q False v"
    and "\<not> refuses coll st (db v) \<Longrightarrow> Q (0 < n) (v\<lparr>db := effect coll st (db v)\<rparr>)"
    and "\<And>q. answers coll st (db v) q \<Longrightarrow> q = Affected n"
  shows "wp view (\<lambda>w. Some (ExecuteUpdate (mysql S) (statement_text st) True w)) Q v"
  by (rule wp_statement [OF assms(1,2), where h = "\<lambda>q. q \<noteq> QueryError \<and> 0 < affected_rows q"])
    (use assms(3,4) in \<open>auto simp: ExecuteUpdate_def affected_rows_def split: prod.split dest!: assms(5)\<close>)

text \<open>A statement printed to the buffer of a handler.\<close>

lemma sql_fits: "length t < 512 \<Longrightarrow> sql t = Some t"
  by (simp add: sql_def in_buf_def SQL_MAX_LEN_def)

section \<open>Redis\<close>

lemma bytes_keys [simp]: "bytes_ok FILE_PUBLIC_ZSET" "bytes_ok FILE_NAME_HASH"
  by (simp_all add: FILE_PUBLIC_ZSET_def FILE_NAME_HASH_def)

lemma keys_differ [simp]: "FILE_PUBLIC_ZSET \<noteq> FILE_NAME_HASH" "FILE_NAME_HASH \<noteq> FILE_PUBLIC_ZSET"
  by (simp_all add: FILE_PUBLIC_ZSET_def FILE_NAME_HASH_def)

lemma view_put [simp]:
  "db (put k x v) = db v" "commands (put k x v) = commands v"
  "db (put_zset k z v) = db v" "commands (put_zset k z v) = commands v"
  "db (put_hash k h v) = db v" "commands (put_hash k h v) = commands v"
  by (simp_all add: put_def put_zset_def put_hash_def)

lemma zset_put [simp]:
  "zset_at (put_zset k z v) k = Some z" "hash_at (put_hash k h v) k = Some h"
  "k' \<noteq> k \<Longrightarrow> zset_at (put_zset k z v) k' = zset_at v k'" "k' \<noteq> k \<Longrightarrow> hash_at (put_zset k z v) k' = hash_at v k'"
  "k' \<noteq> k \<Longrightarrow> zset_at (put_hash k h v) k' = zset_at v k'" "k' \<noteq> k \<Longrightarrow> hash_at (put_hash k h v) k' = hash_at v k'"
  "k' \<noteq> k \<Longrightarrow> zset_at (put k x v) k' = zset_at v k'" "k' \<noteq> k \<Longrightarrow> hash_at (put k x v) k' = hash_at v k'"
  "zset_at (put k None v) k = Some []" "hash_at (put k None v) k = Some []"
  by (simp_all add: put_def put_zset_def put_hash_def zset_at_def hash_at_def)

lemma redis_db [simp]:
  "zset_at (v\<lparr>db := t\<rparr>) k = zset_at v k" "hash_at (v\<lparr>db := t\<rparr>) k = hash_at v k" "string_at (v\<lparr>db := t\<rparr>) k = string_at v k"
  by (simp_all add: zset_at_def hash_at_def string_at_def)

lemma wp_strings [wp_rules]:
  assumes "reliable coll S view" "bytes_ok k"
  shows "Q (string_at v k) v \<Longrightarrow> wp view (op_Get (cache S) p k) Q v"
    and "(\<And>a. Q' a (put k None v)) \<Longrightarrow> wp view (op_Del (cache S) p k) Q' v"
    and "bytes_ok x \<Longrightarrow> (\<And>a. a \<noteq> [] \<Longrightarrow> Q a (put k (Some (RString x)) v)) \<Longrightarrow> wp view (op_Set (cache S) p k x) Q v"
    and "bytes_ok x \<Longrightarrow> 0 < n \<Longrightarrow> (\<And>a. a \<noteq> [] \<Longrightarrow> Q a (put k (Some (RString x)) v)) \<Longrightarrow>
      wp view (op_SetEx (cache S) p k n x) Q v"
proof -
  have law: "\<And>w x n. view w = v \<Longrightarrow> gives view (op_Get (cache S) p k) w (\<lambda>a. a = string_at v k) v"
    "\<And>w. view w = v \<Longrightarrow> gives view (op_Del (cache S) p k) w (\<lambda>a. True) (put k None v)"
    "\<And>w x. bytes_ok x \<Longrightarrow> view w = v \<Longrightarrow> gives view (op_Set (cache S) p k x) w (\<lambda>a. a \<noteq> []) (put k (Some (RString x)) v)"
    "\<And>w x n. bytes_ok x \<Longrightarrow> 0 < n \<Longrightarrow> view w = v \<Longrightarrow>
      gives view (op_SetEx (cache S) p k n x) w (\<lambda>a. a \<noteq> []) (put k (Some (RString x)) v)"
    using reliableD(5) [OF assms(1)] assms(2) bytes_ok_simps(1) unfolding strings_law_def by blast+
  show "Q (string_at v k) v \<Longrightarrow> wp view (op_Get (cache S) p k) Q v"
    by (rule wp_gives [OF law(1)]) simp_all
  show "(\<And>a. Q' a (put k None v)) \<Longrightarrow> wp view (op_Del (cache S) p k) Q' v"
    by (rule wp_gives [OF law(2)]) simp_all
  show "bytes_ok x \<Longrightarrow> (\<And>a. a \<noteq> [] \<Longrightarrow> Q a (put k (Some (RString x)) v)) \<Longrightarrow> wp view (op_Set (cache S) p k x) Q v"
    by (rule wp_gives [OF law(3)]) simp_all
  show "bytes_ok x \<Longrightarrow> 0 < n \<Longrightarrow> (\<And>a. a \<noteq> [] \<Longrightarrow> Q a (put k (Some (RString x)) v)) \<Longrightarrow>
      wp view (op_SetEx (cache S) p k n x) Q v"
    by (rule wp_gives [OF law(4)]) simp_all
qed

lemma wp_zsets [wp_rules]:
  assumes "reliable coll S view" "bytes_ok k" "zset_at v k = Some z"
  shows "bytes_ok m \<Longrightarrow> Q 0 (put_zset k ((m, s) # without m z) v) \<Longrightarrow> wp view (op_ZsetAdd (cache S) p k s m) Q v"
    and "bytes_ok m \<Longrightarrow> Q 0 (put_zset k (without m z) v) \<Longrightarrow> wp view (op_ZsetZrem (cache S) p k m) Q v"
    and "bytes_ok m \<Longrightarrow>
      (\<And>a. (\<forall>s. snd ` set z \<subseteq> {s} \<longrightarrow> a = (if m \<in> fst ` set z then 1 else 0)) \<Longrightarrow> Q a v) \<Longrightarrow>
      wp view (op_ZsetExist (cache S) p k m) Q v"
    and "(\<And>a. (length z < 2 ^ 31 \<longrightarrow> a = int (length z)) \<Longrightarrow> Q a v) \<Longrightarrow> wp view (op_ZsetZcard (cache S) p k) Q v"
    and "bytes_ok m \<Longrightarrow> (\<And>a. \<forall>x. map_of z m = Some x \<and> - (2 ^ 31) \<le> x \<and> x < 2 ^ 31 \<longrightarrow> a = x \<Longrightarrow> Q a v) \<Longrightarrow>
      wp view (op_ZsetGetScore (cache S) p k m) Q v"
proof -
  have law: "\<And>w m. bytes_ok m \<Longrightarrow> view w = v \<Longrightarrow>
      gives view (op_ZsetAdd (cache S) p k s m) w (\<lambda>a. a = 0) (put_zset k ((m, s) # without m z) v)"
    "\<And>w m. bytes_ok m \<Longrightarrow> view w = v \<Longrightarrow> gives view (op_ZsetZrem (cache S) p k m) w (\<lambda>a. a = 0) (put_zset k (without m z) v)"
    "\<And>w m. bytes_ok m \<Longrightarrow> view w = v \<Longrightarrow> gives view (op_ZsetExist (cache S) p k m) w
       (\<lambda>a. \<forall>s. snd ` set z \<subseteq> {s} \<longrightarrow> a = (if m \<in> fst ` set z then 1 else 0)) v"
    "\<And>w. view w = v \<Longrightarrow> gives view (op_ZsetZcard (cache S) p k) w (\<lambda>a. length z < 2 ^ 31 \<longrightarrow> a = int (length z)) v"
    "\<And>w m. bytes_ok m \<Longrightarrow> view w = v \<Longrightarrow> gives view (op_ZsetGetScore (cache S) p k m) w
       (\<lambda>a. \<forall>v. map_of z m = Some v \<and> - (2 ^ 31) \<le> v \<and> v < 2 ^ 31 \<longrightarrow> a = v) v"
    using reliableD(6) [OF assms(1)] assms(2,3) bytes_ok_simps(1) unfolding zsets_law_def by blast+
  show "bytes_ok m \<Longrightarrow> Q 0 (put_zset k ((m, s) # without m z) v) \<Longrightarrow> wp view (op_ZsetAdd (cache S) p k s m) Q v"
    by (rule wp_gives [OF law(1)]) simp_all
  show "bytes_ok m \<Longrightarrow> Q 0 (put_zset k (without m z) v) \<Longrightarrow> wp view (op_ZsetZrem (cache S) p k m) Q v"
    by (rule wp_gives [OF law(2)]) simp_all
  show "bytes_ok m \<Longrightarrow>
      (\<And>a. (\<forall>s. snd ` set z \<subseteq> {s} \<longrightarrow> a = (if m \<in> fst ` set z then 1 else 0)) \<Longrightarrow> Q a v) \<Longrightarrow>
      wp view (op_ZsetExist (cache S) p k m) Q v"
    by (rule wp_gives [OF law(3)]) simp_all
  show "(\<And>a. (length z < 2 ^ 31 \<longrightarrow> a = int (length z)) \<Longrightarrow> Q a v) \<Longrightarrow> wp view (op_ZsetZcard (cache S) p k) Q v"
    by (rule wp_gives [OF law(4)]) simp_all
  show "bytes_ok m \<Longrightarrow> (\<And>a. \<forall>x. map_of z m = Some x \<and> - (2 ^ 31) \<le> x \<and> x < 2 ^ 31 \<longrightarrow> a = x \<Longrightarrow> Q a v) \<Longrightarrow>
      wp view (op_ZsetGetScore (cache S) p k m) Q v"
    by (rule wp_gives [OF law(5)]) simp_all
qed

lemma wp_hashes [wp_rules]:
  assumes "reliable coll S view" "bytes_ok k" "bytes_ok f" "hash_at v k = Some h"
  shows "bytes_ok x \<Longrightarrow> (\<And>a. a = 0 \<or> a = 1 \<Longrightarrow> Q a (put_hash k ((f, x) # without f h) v)) \<Longrightarrow>
      wp view (op_Hset (cache S) p k f x) Q v"
    and "Q (if f \<in> fst ` set h then 1 else 0) (put_hash k (without f h) v) \<Longrightarrow> wp view (op_Hdel (cache S) p k f) Q v"
    and "(\<And>a. \<forall>y. map_of h f = Some y \<and> bytes_ok y \<and> length y < n \<and> n \<le> 1024 \<longrightarrow> a = (0, Some y) \<Longrightarrow> Q' a v) \<Longrightarrow>
      wp view (op_Hget (cache S) p k f n) Q' v"
proof -
  have law: "\<And>w x. bytes_ok x \<Longrightarrow> view w = v \<Longrightarrow>
      gives view (op_Hset (cache S) p k f x) w (\<lambda>a. a = 0 \<or> a = 1) (put_hash k ((f, x) # without f h) v)"
    "\<And>w. view w = v \<Longrightarrow>
      gives view (op_Hdel (cache S) p k f) w (\<lambda>a. a = (if f \<in> fst ` set h then 1 else 0)) (put_hash k (without f h) v)"
    "\<And>w. view w = v \<Longrightarrow> gives view (op_Hget (cache S) p k f n) w
      (\<lambda>a. \<forall>y. map_of h f = Some y \<and> bytes_ok y \<and> length y < n \<and> n \<le> 1024 \<longrightarrow> a = (0, Some y)) v"
    using reliableD(8) [OF assms(1)] assms(2-4) bytes_ok_simps(1) unfolding hashes_law_def by blast+
  show "bytes_ok x \<Longrightarrow> (\<And>a. a = 0 \<or> a = 1 \<Longrightarrow> Q a (put_hash k ((f, x) # without f h) v)) \<Longrightarrow>
      wp view (op_Hset (cache S) p k f x) Q v"
    by (rule wp_gives [OF law(1)]) auto
  show "Q (if f \<in> fst ` set h then 1 else 0) (put_hash k (without f h) v) \<Longrightarrow> wp view (op_Hdel (cache S) p k f) Q v"
    by (rule wp_gives [OF law(2)]) auto
  show "(\<And>a. \<forall>y. map_of h f = Some y \<and> bytes_ok y \<and> length y < n \<and> n \<le> 1024 \<longrightarrow> a = (0, Some y) \<Longrightarrow> Q' a v) \<Longrightarrow>
      wp view (op_Hget (cache S) p k f n) Q' v"
    by (rule wp_gives [OF law(3)]) auto
qed

section \<open>Rows\<close>

lemma strtol10_neg: "n \<le> 2 ^ 63 \<Longrightarrow> strtol10 (CHR ''-'' # dec_nat n) = - int n"
  by (simp add: strtol10_def isspace_def takeWhile_dec_nat)

lemma atoi_dec_int [simp]: "- (2 ^ 31) \<le> v \<Longrightarrow> v < 2 ^ 31 \<Longrightarrow> atoi (dec_int v) = v"
proof (cases "v < 0")
  case True
  assume "- (2 ^ 31) \<le> v" "v < 2 ^ 31"
  with True show ?thesis by (simp add: atoi_def dec_int_def strtol10_neg s32_id)
next
  case False
  assume "- (2 ^ 31) \<le> v" "v < 2 ^ 31"
  with False show ?thesis by (simp add: dec_int_def atoi_dec_nat)
qed

lemma bytes_dec_nat [simp]: "bytes_ok (dec_nat n)"
  using dec_nat_plain by (auto simp: bytes_ok_def)

lemma bytes_dec_int [simp]: "bytes_ok (dec_int v)"
  by (simp add: dec_int_def)

lemmas row_simps = result_of_def new_CResultSet_def rs_Next_def rs_GetIndex_def rs_field_def GetInt_def GetString_def GetStr_def
  bytes_cstr

end
