(* ===== verification/Ref_Services.thy ===== *)
theory Ref_Services
  imports Handler_Rules
begin

text \<open>
  Services that obey the laws, on the view itself as the world: the text of a statement is taken apart at
  its quotes and recognised by the words between them, and its effect is that of the statement.  They
  show that the laws can hold, and the properties are evaluated on them.
\<close>

section \<open>Recognising statements\<close>

fun pieces :: "string \<Rightarrow> string \<Rightarrow> string list" where
  "pieces acc [] = [rev acc]"
| "pieces acc (c # s) = (if c = SQUOT then rev acc # pieces [] s else pieces (c # acc) s)"

definition one_word :: "(string \<times> (string \<Rightarrow> statement)) list" where
  "one_word =
     [(''select count, file_id from file_info where md5 = '', SelectCount),
      (''select password from user_info where user_name='', SelectPassword),
      (''select id from user_info where user_name='', SelectUser),
      (''update file_info set count = count +1 where md5 = '', IncrementCount),
      (''update file_info set count = count+1 where md5 = '', IncrementSaved),
      (''update file_info SET count = count - 1 WHERE md5 = '', DecrementCount),
      (''delete from file_info WHERE md5 = '', DeleteFileInfo)]"

definition three_words :: "(string list \<times> (string \<Rightarrow> string \<Rightarrow> string \<Rightarrow> statement)) list" where
  "three_words =
     [([''select * from user_file_list where user = '', '' and md5 = '', '' and file_name = ''], SelectUserFile),
      ([''select * from user_file_list where user = '', '' and md5 = '', '' and  file_name = ''], SelectSavedFile),
      ([''select shared_status from user_file_list where user = '', '' and md5 = '', '' and file_name = ''], SelectStatus),
      ([''delete from user_file_list where user = '', '' and md5 = '', '' and file_name = ''], DeleteUserFile),
      ([''delete from share_file_list where user = '', '' and md5 = '', '' and file_name = ''], DeleteShare),
      ([''update user_file_list set shared_status=1 where user='', '' and md5='', '' and file_name=''], MarkShared),
      ([''update user_file_list set shared_status = 0 where user = '', '' and md5 = '', '' and file_name = ''], MarkUnshared)]"

definition four_words :: "(string list \<times> (string \<Rightarrow> string \<Rightarrow> string \<Rightarrow> string \<Rightarrow> statement)) list" where
  "four_words =
     [([''insert into user_file_list(user, md5, create_time, file_name, shared_status, pv) values ('', '', 0, 0)''],
       InsertUserFile),
      ([''insert into share_file_list (user, md5, create_time, file_name, pv) values ('',
        '', 0) on duplicate key update pv = pv''], InsertShare)]"

definition parse_statement :: "string \<Rightarrow> statement option" where
  "parse_statement text =
     (case pieces [] text of
        [a] \<Rightarrow> if a = select_ranking then Some SelectRanking else if a = count_shares then Some CountShares else None
      | [a, x, []] \<Rightarrow> map_option (\<lambda>f. f x) (map_of one_word a)
      | [a, x, b, y, []] \<Rightarrow>
          if a = ''select * from share_file_list where md5='' \<and> b = '' and file_name='' then Some (SelectShare x y) else None
      | [a, x, b, y, c, z, []] \<Rightarrow> map_option (\<lambda>f. f x y z) (map_of three_words [a, b, c])
      | [a, x, b, y, c, z, d, u, e] \<Rightarrow>
          if [b, c, d] = ['', '', '', '', '', ''] then map_option (\<lambda>f. f x y z u) (map_of four_words [a, e]) else None
      | [a, m, b, i, c, url, d, n, e, ty, g] \<Rightarrow>
          if [a, b, c, d, e, g] = [''insert into file_info (md5, file_id, url, size, type, count) values ('',
               '', '', '', '', '', '', '', '', '', 1)'']
          then Some (InsertFileInfo m i url (strtol10 n) ty) else None
      | _ \<Rightarrow> None)"

lemma pieces_value: "SQUOT \<notin> set v \<Longrightarrow> pieces acc (v @ s) = pieces (rev v @ acc) s"
  by (induction v arbitrary: acc) auto

lemma SQUOT_dec_int: "SQUOT \<notin> set (dec_int v)"
proof -
  have "SQUOT \<notin> set (dec_nat n)" for n
  proof
    assume "SQUOT \<in> set (dec_nat n)"
    then have "isdigit SQUOT" by (rule dec_nat_digits)
    then show False by (simp add: isdigit_def)
  qed
  then show ?thesis by (simp add: dec_int_def)
qed

lemma pieces_clean: "clean n v \<Longrightarrow> pieces acc (cstr v @ s) = pieces (rev v @ acc) s"
  by (simp add: clean_cstr clean_SQUOT pieces_value)

lemma pieces_number: "pieces acc (cstr (dec_int v) @ s) = pieces (rev (dec_int v) @ acc) s"
  by (simp add: bytes_cstr SQUOT_dec_int pieces_value)

lemma strtol10_dec_int: "0 \<le> v \<Longrightarrow> v < 2 ^ 63 \<Longrightarrow> strtol10 (dec_int v) = v"
  by (simp add: dec_int_def strtol10_dec_nat)

lemma parse_statement_text: "well_formed st \<Longrightarrow> parse_statement (statement_text st) = Some st"
  by (cases st) (auto simp: statement_defs parse_statement_def one_word_def three_words_def four_words_def clean_file_def
      pieces_clean pieces_number strtol10_dec_int)

section \<open>The services\<close>

definition blank_rows :: "('r \<Rightarrow> bool) \<Rightarrow> 'r list \<Rightarrow> query_result" where
  "blank_rows P rows = Rows [] (map (\<lambda>r. []) (filter P rows))"

definition ref_answer :: "collation \<Rightarrow> statement \<Rightarrow> tables \<Rightarrow> query_result" where
  "ref_answer coll st t =
     (case st of
        SelectUserFile u m f \<Rightarrow> blank_rows (is_owned coll u m f) (user_file_list t)
      | SelectSavedFile u m f \<Rightarrow> blank_rows (is_owned coll u m f) (user_file_list t)
      | SelectShare m f \<Rightarrow> blank_rows (is_shared coll m f) (share_file_list t)
      | SelectUser u \<Rightarrow> Rows [''id''] (map (\<lambda>r. [Some (dec_nat 1)]) (filter (is_user coll u) (user_info t)))
      | SelectStatus u m f \<Rightarrow>
          Rows [''shared_status''] (map (\<lambda>r. [Some (dec_int (uf_shared r))]) (filter (is_owned coll u m f) (user_file_list t)))
      | SelectCount m \<Rightarrow>
          Rows [''count'', ''file_id'']
            (map (\<lambda>r. [Some (dec_int (fi_count r)), Some (fi_file_id r)]) (filter (is_file coll m) (file_info t)))
      | SelectPassword u \<Rightarrow> Rows [''password''] (map (\<lambda>r. [Some (us_password r)]) (filter (is_user coll u) (user_info t)))
      | SelectRanking \<Rightarrow> Rows [''md5'', ''file_name'', ''pv''] (ranking_rows (rev (sort_key sf_pv (share_file_list t))))
      | CountShares \<Rightarrow> Rows [''count(*)''] [[Some (dec_nat (length (share_file_list t)))]]
      | IncrementSaved m \<Rightarrow> Affected (matches (is_file coll m) (file_info t))
      | DecrementCount m \<Rightarrow> Affected (matches (is_file coll m) (file_info t))
      | _ \<Rightarrow> Affected 1)"

definition ref_query :: "collation \<Rightarrow> string \<Rightarrow> outside \<Rightarrow> query_result \<times> outside" where
  "ref_query coll text v =
     (case parse_statement text of
        None \<Rightarrow> (QueryError, v)
      | Some st \<Rightarrow>
          if refuses coll st (db v) then (QueryError, v)
          else (ref_answer coll st (db v), v\<lparr>db := effect coll st (db v)\<rparr>))"

definition ref_execute :: "collation \<Rightarrow> string \<Rightarrow> string option list \<Rightarrow> outside \<Rightarrow> nat option \<times> outside" where
  "ref_execute coll text ps v =
     (case map the ps of
        [name, nick, pwd, phone, email, tm] \<Rightarrow>
          (let r = new_user name nick pwd phone email tm; t = db v
           in if name_taken coll r t then (None, v) else (Some 1, v\<lparr>db := t\<lparr>user_info := user_info t @ [r]\<rparr>\<rparr>))
      | _ \<Rightarrow> (None, v))"

definition ref_mysql :: "collation \<Rightarrow> outside mysql" where
  "ref_mysql coll = \<lparr>real_query = ref_query coll, stmt_prepare = (\<lambda>text v. (Some 6, v)), stmt_execute = ref_execute coll\<rparr>"

text \<open>An operation on a sorted set or a hash, which fails on a key of another type.\<close>

definition on_zset :: "string \<Rightarrow> ((string \<times> int) list \<Rightarrow> 'a \<times> (string \<times> int) list) \<Rightarrow> 'a \<Rightarrow> (outside, 'a) act" where
  "on_zset k f err v =
     Some (case zset_at v k of None \<Rightarrow> (err, v) | Some z \<Rightarrow> let (a, z') = f z in (a, put_zset k z' v))"

definition ask_zset :: "string \<Rightarrow> ((string \<times> int) list \<Rightarrow> 'a) \<Rightarrow> 'a \<Rightarrow> (outside, 'a) act" where
  "ask_zset k f err v = Some (case zset_at v k of None \<Rightarrow> (err, v) | Some z \<Rightarrow> (f z, v))"

definition on_hash :: "string \<Rightarrow> ((string \<times> string) list \<Rightarrow> 'a \<times> (string \<times> string) list) \<Rightarrow> 'a \<Rightarrow> (outside, 'a) act" where
  "on_hash k f err v =
     Some (case hash_at v k of None \<Rightarrow> (err, v) | Some h \<Rightarrow> let (a, h') = f h in (a, put_hash k h' v))"

definition ask_hash :: "string \<Rightarrow> ((string \<times> string) list \<Rightarrow> 'a) \<Rightarrow> 'a \<Rightarrow> (outside, 'a) act" where
  "ask_hash k f err v = Some (case hash_at v k of None \<Rightarrow> (err, v) | Some h \<Rightarrow> (f h, v))"

definition ref_cache :: "outside cache_ops" where
  "ref_cache = \<lparr>
     op_Get = (\<lambda>p k v. Some (string_at v k, v)),
     op_Set = (\<lambda>p k x v. Some (''OK'', put k (Some (RString x)) v)),
     op_SetEx = (\<lambda>p k n x v. Some (''OK'', put k (Some (RString x)) v)),
     op_Del = (\<lambda>p k v. Some (if redis v k = None then 0 else 1, put k None v)),
     op_Incr = (\<lambda>p k v. Some ((-1, 0), v)),
     op_Decr = (\<lambda>p k n v. Some ((-1, 0), v)),
     op_Hset = (\<lambda>p k f x. on_hash k (\<lambda>h. (if f \<in> fst ` set h then 0 else 1, (f, x) # without f h)) (-1)),
     op_Hdel = (\<lambda>p k f. on_hash k (\<lambda>h. (if f \<in> fst ` set h then 1 else 0, without f h)) (-1)),
     op_Hget = (\<lambda>p k f n. ask_hash k (\<lambda>h. case map_of h f of None \<Rightarrow> (-1, None) | Some y \<Rightarrow> (0, Some y)) (-1, None)),
     op_ZsetExist = (\<lambda>p k m. ask_zset k (\<lambda>z. if m \<in> fst ` set z then 1 else 0) (-1)),
     op_ZsetAdd = (\<lambda>p k s m. on_zset k (\<lambda>z. (0, (m, s) # without m z)) (-1)),
     op_ZsetZrem = (\<lambda>p k m. on_zset k (\<lambda>z. (0, without m z)) (-1)),
     op_ZsetIncr = (\<lambda>p k m v. Some (-1, v)),
     op_ZsetZcard = (\<lambda>p k. ask_zset k (\<lambda>z. int (length z)) (-1)),
     op_ZsetZrevrange = (\<lambda>p k i j n. ask_zset k (\<lambda>z. let ms = take (nat (j - i + 1)) (drop (nat i) (ranked z))
       in (0, Some (int (length ms)), ms)) (-1, None, [])),
     op_ZsetGetScore = (\<lambda>p k m. ask_zset k (\<lambda>z. case map_of z m of None \<Rightarrow> -1 | Some s \<Rightarrow> s) (-1))\<rparr>"

text \<open>JSON is read by a given function and printed one level deep; the time and the token are fixed.\<close>

definition show_flat :: "json \<Rightarrow> string" where
  "show_flat j =
     (case j of
        JObj ms \<Rightarrow> concat (map (\<lambda>(k, x). k @ '':'' @ (case x of JInt i \<Rightarrow> dec_int i | JStr s \<Rightarrow> s | _ \<Rightarrow> ''?'') @ '','') ms)
      | _ \<Rightarrow> ''?'')"

definition ref_services :: "collation \<Rightarrow> (string \<Rightarrow> json option) \<Rightarrow> outside services" where
  "ref_services coll docs = \<lparr>
     mysql = ref_mysql coll, cache = ref_cache,
     json = \<lparr>parse_json = docs, write_compact = show_flat, write_styled = show_flat,
       real_text = (\<lambda>r. []), real_int = (\<lambda>r. None)\<rparr>,
     get_db = (\<lambda>p v. (True, v)), rel_db = (\<lambda>p v. v), get_cache = (\<lambda>p v. (True, v)), rel_cache = (\<lambda>p v. v),
     try_lock = (\<lambda>v. (True, v)), unlock = (\<lambda>v. v),
     time_now = (\<lambda>v. (1, v)), time_text = (\<lambda>v. (''2024-01-01 00:00:00'', v)), generateUUID = (\<lambda>v. (''5e884898'', v)),
     rand = (\<lambda>v. (0, v)), sleep_us = (\<lambda>n v. v),
     system_call = (\<lambda>cmd v. (0, v\<lparr>commands := commands v @ [cmd]\<rparr>))\<rparr>"

section \<open>They obey the laws\<close>

lemma ref_pools: "pools_law (ref_services coll docs) (\<lambda>v. v)"
  by (simp add: pools_law_def ref_services_def)

lemma ref_system: "system_law (ref_services coll docs) (\<lambda>v. v)"
  by (simp add: system_law_def ref_services_def clean_def isprint_def)

lemma ref_answers: "\<not> refuses coll st t \<Longrightarrow> answers coll st t (ref_answer coll st t)"
proof (cases st)
  case SelectRanking
  have "sorted_wrt (\<lambda>a b. sf_pv b \<le> sf_pv a) (rev (sort_key sf_pv (share_file_list t)))"
    using sorted_sort_key [of sf_pv "share_file_list t"] by (simp add: sorted_wrt_rev sorted_wrt_map)
  with SelectRanking show ?thesis
    by (auto simp: ref_answer_def intro!: exI [of _ "rev (sort_key sf_pv (share_file_list t))"])
next
  case (SelectUser u)
  then show ?thesis
    by (auto simp: ref_answer_def matches_def intro!: exI [of _ "map (\<lambda>r. 1) (filter (is_user coll u) (user_info t))"])
qed (auto simp: ref_answer_def blank_rows_def matches_def)

lemma ref_mysql_law: "mysql_law coll (ref_services coll docs) (\<lambda>v. v)"
  by (simp add: mysql_law_def ref_services_def ref_mysql_def ref_query_def parse_statement_text ref_answers Let_def)

lemma ref_prepared: "prepared_law coll (ref_services coll docs) (\<lambda>v. v)"
  by (simp add: prepared_law_def ref_services_def ref_mysql_def ref_execute_def new_user_def name_taken_def Let_def)

lemma ref_strings: "strings_law (ref_services coll docs) (\<lambda>v. v)"
  by (simp add: strings_law_def gives_def ref_services_def ref_cache_def)

lemma ref_zsets: "zsets_law (ref_services coll docs) (\<lambda>v. v)"
  by (auto simp: zsets_law_def gives_def ref_services_def ref_cache_def on_zset_def ask_zset_def)

lemma ref_ranking: "ranking_law (ref_services coll docs) (\<lambda>v. v)"
  by (simp add: ranking_law_def gives_def ref_services_def ref_cache_def ask_zset_def Let_def)

lemma ref_hashes: "hashes_law (ref_services coll docs) (\<lambda>v. v)"
  by (auto simp: hashes_law_def gives_def ref_services_def ref_cache_def on_hash_def ask_hash_def)

theorem ref_reliable: "reliable coll (ref_services coll docs) (\<lambda>v. v)"
  by (simp add: reliable_def ref_pools ref_system ref_mysql_law ref_prepared ref_strings ref_zsets ref_ranking ref_hashes)

section \<open>A sample\<close>

text \<open>Two files: both users have the first, and \<open>ann\<close> alone has the second and shares it.\<close>

definition sample :: outside where
  "sample = \<lparr>
     db = \<lparr>
       file_info = [
         \<lparr>fi_md5 = ''m1'', fi_file_id = ''group1/a'', fi_url = ''http://h/group1/a'', fi_size = 10, fi_type = ''txt'', fi_count = 2\<rparr>,
         \<lparr>fi_md5 = ''m2'', fi_file_id = ''group1/b'', fi_url = ''http://h/group1/b'', fi_size = 20, fi_type = ''txt'', fi_count = 1\<rparr>],
       user_file_list = [
         \<lparr>uf_user = ''ann'', uf_md5 = ''m1'', uf_time = ''2024-01-01 00:00:00'', uf_name = ''a.txt'', uf_shared = 0\<rparr>,
         \<lparr>uf_user = ''bob'', uf_md5 = ''m1'', uf_time = ''2024-01-01 00:00:00'', uf_name = ''a.txt'', uf_shared = 0\<rparr>,
         \<lparr>uf_user = ''ann'', uf_md5 = ''m2'', uf_time = ''2024-01-01 00:00:00'', uf_name = ''b.txt'', uf_shared = 1\<rparr>],
       share_file_list = [
         \<lparr>sf_user = ''ann'', sf_md5 = ''m2'', sf_time = ''2024-01-01 00:00:00'', sf_name = ''b.txt'', sf_pv = 0\<rparr>],
       user_info = [
         new_user ''ann'' ''ann'' ''secret'' ''1'' ''a'' ''2024-01-01 00:00:00'',
         new_user ''bob'' ''bob'' ''hidden'' ''2'' ''b'' ''2024-01-01 00:00:00'']\<rparr>,
     redis = [FILE_PUBLIC_ZSET \<mapsto> RZset [(''m2b.txt'', 0)], FILE_NAME_HASH \<mapsto> RHash [(''m2b.txt'', ''b.txt'')]],
     commands = []\<rparr>"

end
