(* ===== verification/File_Refs.thy ===== *)
theory File_Refs
  imports Ref_Services
begin

text \<open>
  The reference counts of the files: \<open>count\<close> in \<open>file_info\<close> is the number of rows of
  \<open>user_file_list\<close> with that md5, and a file is removed from FastDFS when its last owner deletes it.
  For each handler there is a specification on the view, which the handler implements.
\<close>

section \<open>The invariant\<close>

definition refs :: "collation \<Rightarrow> string \<Rightarrow> tables \<Rightarrow> nat" where
  "refs coll m t = matches (\<lambda>r. coll (uf_md5 r) = coll m) (user_file_list t)"

definition counted :: "collation \<Rightarrow> tables \<Rightarrow> bool" where
  "counted coll t \<longleftrightarrow>
     (\<forall>r \<in> set (file_info t). fi_count r = int (refs coll (fi_md5 r) t) \<and> 0 < fi_count r) \<and>
     (\<forall>r \<in> set (user_file_list t). has_row (is_file coll (uf_md5 r)) (file_info t))"

text \<open>The unique keys, and values the program can read back.\<close>

definition keys_ok :: "collation \<Rightarrow> tables \<Rightarrow> bool" where
  "keys_ok coll t \<longleftrightarrow>
     distinct (map (\<lambda>r. coll (fi_md5 r)) (file_info t)) \<and>
     distinct (map (\<lambda>r. (coll (uf_user r), coll (uf_md5 r), coll (uf_name r))) (user_file_list t)) \<and>
     (\<forall>r \<in> set (file_info t). clean 256 (fi_file_id r)) \<and>
     (\<forall>r \<in> set (user_file_list t). uf_shared r = 0 \<or> uf_shared r = 1) \<and>
     length (user_file_list t) < 2 ^ 31 - 1"

section \<open>Deleting a file\<close>

text \<open>Taking a shared file off the ranking, the names and the list of shared files.\<close>

definition unshare :: "collation \<Rightarrow> string \<Rightarrow> string \<Rightarrow> string \<Rightarrow> outside \<Rightarrow> outside" where
  "unshare coll u m f v =
     (let v1 = put_zset FILE_PUBLIC_ZSET (without (m @ f) (the (zset_at v FILE_PUBLIC_ZSET))) v;
          v2 = put_hash FILE_NAME_HASH (without (m @ f) (the (hash_at v FILE_NAME_HASH))) v1
      in v2\<lparr>db := effect coll (DeleteShare u m f) (db v2)\<rparr>)"

definition remove_command :: "string \<Rightarrow> string \<Rightarrow> string" where
  "remove_command dfs fileid = ''fdfs_delete_file '' @ cstr dfs @ '' '' @ fileid"

text \<open>Dropping one reference to a file.\<close>

definition drop_ref :: "collation \<Rightarrow> string \<Rightarrow> string \<Rightarrow> outside \<Rightarrow> int \<times> outside" where
  "drop_ref coll dfs m v =
     (case filter (is_file coll m) (file_info (db v)) of
        [] \<Rightarrow> (1, v)
      | r # rs \<Rightarrow>
          if fi_count r > 1 then (0, v\<lparr>db := add_count coll m (-1) (db v)\<rparr>)
          else if fi_count r = 1 then
            (0, v\<lparr>db := effect coll (DeleteFileInfo m) (db v), commands := commands v @ [remove_command dfs (fi_file_id r)]\<rparr>)
          else (0, v))"

definition delete_spec :: "collation \<Rightarrow> string \<Rightarrow> string \<Rightarrow> string \<Rightarrow> string \<Rightarrow> outside \<Rightarrow> int \<times> outside" where
  "delete_spec coll dfs u m f v =
     (case filter (is_owned coll u m f) (user_file_list (db v)) of
        [] \<Rightarrow> (1, v)
      | r # rs \<Rightarrow>
          (let v1 = (if uf_shared r = 1 then unshare coll u m f v else v)
           in drop_ref coll dfs m (v1\<lparr>db := effect coll (DeleteUserFile u m f) (db v1)\<rparr>)))"

definition dfs_ok :: "string \<Rightarrow> bool" where
  "dfs_ok dfs \<longleftrightarrow> length dfs < 1024"

text \<open>The keys of the ranking hold a sorted set and a hash.\<close>

definition ranking_typed :: "outside \<Rightarrow> bool" where
  "ranking_typed v \<longleftrightarrow> zset_at v FILE_PUBLIC_ZSET \<noteq> None \<and> hash_at v FILE_NAME_HASH \<noteq> None"

lemma fits:
  "clean_file u m f \<Longrightarrow> sql (statement_text (SelectStatus u m f)) = Some (statement_text (SelectStatus u m f))"
  "clean_file u m f \<Longrightarrow> sql (statement_text (DeleteShare u m f)) = Some (statement_text (DeleteShare u m f))"
  "clean_file u m f \<Longrightarrow> sql (statement_text (DeleteUserFile u m f)) = Some (statement_text (DeleteUserFile u m f))"
  "clean 256 m \<Longrightarrow> sql (statement_text (SelectCount m)) = Some (statement_text (SelectCount m))"
  by (auto intro!: sql_fits dest!: clean_cstr_length simp: statement_defs clean_file_def)

lemma wp_GetResultOneStatus:
  assumes "reliable coll S view" "clean_file u m f" "keys_ok coll (db v)"
    and "filter (is_owned coll u m f) (user_file_list (db v)) = [] \<Longrightarrow> Q (-1, s) v"
    and "\<And>r rs. filter (is_owned coll u m f) (user_file_list (db v)) = r # rs \<Longrightarrow> Q (0, uf_shared r) v"
  shows "wp view (GetResultOneStatus (mysql S) (statement_text (SelectStatus u m f)) s) Q v"
proof -
  let ?rows = "filter (is_owned coll u m f) (user_file_list (db v))"
  have "r \<in> set (user_file_list (db v))" if "?rows = r # rs" for r rs
    using that filter_eq_ConsD by force
  then have shared: "uf_shared r = 0 \<or> uf_shared r = 1" if "?rows = r # rs" for r rs
    using assms(3) that unfolding keys_ok_def by blast
  show ?thesis
    unfolding GetResultOneStatus_def
    by (rule wp_let, rule wp_ExecuteQuery [OF assms(1)])
      (use assms(2,4,5) shared in \<open>cases ?rows; auto simp: row_simps wp_return clean_file_def\<close>)+
qed

lemma fileid_fits: "clean 256 m \<Longrightarrow> clean 128 f \<Longrightarrow> 385 \<le> n \<Longrightarrow> fileid_of n m f = Some (m @ f)"
  by (frule clean_length [of 256], frule clean_length [of 128]) (simp add: fileid_of_def in_buf_def clean_cstr)

lemma wp_unshare_deleted:
  assumes "reliable coll S view" "clean_file u m f" "ranking_typed v" "Q True (unshare coll u m f v)"
  shows "wp view (unshare_deleted S True u m f) Q v"
proof -
  obtain z h where zh: "zset_at v FILE_PUBLIC_ZSET = Some z" "hash_at v FILE_NAME_HASH = Some h"
    using assms(3) by (auto simp: ranking_typed_def)
  have c: "clean 256 m" "clean 128 f" using assms(2) by (simp_all add: clean_file_def)
  have b: "bytes_ok (m @ f)" using c clean_bytes by fastforce
  show ?thesis
    unfolding unshare_deleted_def statement_texts
    by (rule wp_pure [OF fileid_fits [OF c]], simp, rule wp_bind, rule wp_on_conn,
        rule wp_zsets(2) [OF assms(1) bytes_keys(1) zh(1) b], rule wp_bind,
        rule wp_hashes(2) [OF assms(1) bytes_keys(2) b], (simp add: zh), rule wp_pure [OF fits(2) [OF assms(2)]],
        rule wp_execute(3) [OF assms(1)])
      (use assms(2,4) zh in \<open>simp_all add: unshare_def\<close>)
qed

text \<open>What the invariants say of a file's row.\<close>

lemma refs_bound: "keys_ok coll t \<Longrightarrow> int (refs coll m t) < 2 ^ 31 - 1"
proof -
  have "refs coll m t \<le> length (user_file_list t)" by (simp add: refs_def matches_def)
  moreover assume "keys_ok coll t"
  ultimately show ?thesis by (simp add: keys_ok_def)
qed

lemma file_row:
  assumes "keys_ok coll t" "counted coll t" "r \<in> set (file_info t)"
  shows "0 < fi_count r" "fi_count r < 2 ^ 31 - 1" "clean 256 (fi_file_id r)"
proof -
  have "fi_count r = int (refs coll (fi_md5 r) t)" using assms(2,3) by (simp add: counted_def)
  with refs_bound [OF assms(1)] show "fi_count r < 2 ^ 31 - 1" by simp
  show "0 < fi_count r" "clean 256 (fi_file_id r)" using assms unfolding counted_def keys_ok_def by blast+
qed

definition readable :: "tables \<Rightarrow> bool" where
  "readable t \<longleftrightarrow> (\<forall>r \<in> set (file_info t). 0 < fi_count r \<and> fi_count r < 2 ^ 31 \<and> clean 256 (fi_file_id r))"

lemma counted_readable: "keys_ok coll t \<Longrightarrow> counted coll t \<Longrightarrow> readable t"
  unfolding readable_def using file_row by fastforce

lemma update_fits:
  "clean 256 m \<Longrightarrow> take 511 (statement_text (DecrementCount m)) = statement_text (DecrementCount m)"
  "clean 256 m \<Longrightarrow> take 511 (statement_text (DeleteFileInfo m)) = statement_text (DeleteFileInfo m)"
  by (rule take_all, auto dest!: clean_cstr_length simp: statement_defs)+

lemma wp_drop_reference:
  assumes rel: "reliable coll S view" and m: "clean 256 m" and k: "readable (db v)"
    and none: "filter (is_file coll m) (file_info (db v)) = [] \<Longrightarrow> Q None v"
    and some: "\<And>r rs. filter (is_file coll m) (file_info (db v)) = r # rs \<Longrightarrow>
      Q (Some (fi_count r, fi_file_id r)) (v\<lparr>db := effect coll
        (if fi_count r > 1 then DecrementCount m else DeleteFileInfo m) (db v)\<rparr>)"
  shows "wp view (drop_reference S m) Q v"
proof -
  let ?rows = "filter (is_file coll m) (file_info (db v))"
  let ?ret = "\<lambda>r done. if done then Some (fi_count r, fi_file_id r) else None"
  have count: "fi_count r \<noteq> 0 \<and> 0 < fi_count r \<and> - (2 ^ 31) \<le> fi_count r \<and> fi_count r < 2 ^ 31 \<and> bytes_ok (fi_file_id r)
      \<and> r \<in> set (file_info (db v))" if "?rows = r # rs" for r rs
  proof -
    have "r \<in> set (file_info (db v))" using that filter_eq_ConsD by force
    with k clean_bytes show ?thesis unfolding readable_def by fastforce
  qed
  have ok: "\<not> refuses coll (DecrementCount m) (db v)"
    using k by (force simp: has_row_def readable_def)
  have dec: "wp view (\<lambda>w. Some (if fi_count r > 1 then ExecuteUpdate (mysql S) (take 511 (decrement_count m)) True w
      else if fi_count r = 1 then ExecuteDrop (mysql S) (take 511 (delete_file_info m)) w else (True, w)))
      (\<lambda>done. wp view (\<lambda>w. Some (?ret r done, w)) Q) v" if rows: "?rows = r # rs" for r rs
  proof -
    have pos: "0 < matches (is_file coll m) (file_info (db v))" using rows by (simp add: matches_def)
    show ?thesis
      unfolding statement_texts update_fits [OF m]
      by (intro wp_some_if wp_ExecuteUpdate [OF rel] wp_execute(3) [OF rel] wp_return)
        (use m pos ok count [OF rows] some [OF rows] in \<open>simp_all add: wp_return\<close>)
  qed
  show ?thesis
    unfolding drop_reference_def
    apply (rule wp_with_lock [OF rel], simp only: simp_thms if_False, unfold statement_texts(4), rule wp_pure [OF fits(4) [OF m]],
      rule wp_let, rule wp_ExecuteQuery [OF rel])
    subgoal using m by simp
    subgoal by simp
    subgoal for q
    proof (cases ?rows)
      case Nil
      assume "answers coll (SelectCount m) (db v) q"
      with Nil none show ?thesis by (simp add: row_simps wp_return)
    next
      case (Cons r rs)
      assume q: "answers coll (SelectCount m) (db v) q"
      from dec [OF Cons] count [OF Cons] Cons q show ?thesis
        by (simp add: row_simps) (rule wp_case, simp)
    qed
    done
qed

text \<open>Deleting a row of \<open>user_file_list\<close> takes one reference away.\<close>

lemma view_unshare [simp]:
  "user_file_list (db (unshare coll u m f v)) = user_file_list (db v)"
  "file_info (db (unshare coll u m f v)) = file_info (db v)" "commands (unshare coll u m f v) = commands v"
  by (simp_all add: unshare_def Let_def)

lemma view_delete [simp]:
  "file_info (effect coll (DeleteUserFile u m f) t) = file_info t"
  "user_file_list (effect coll (DeleteUserFile u m f) t) = delete_rows (is_owned coll u m f) (user_file_list t)"
  by simp_all

text \<open>A request whose texts fit the buffers of the handlers.\<close>

lemma RemoveFile_fits:
  "dfs_ok dfs \<Longrightarrow> clean 256 i \<Longrightarrow> in_buf 2048 (''fdfs_delete_file '' @ cstr dfs @ '' '' @ cstr i) = Some (remove_command dfs i)"
  using length_takeWhile_le [of "\<lambda>c. c \<noteq> NUL" dfs]
  by (auto simp: in_buf_def dfs_ok_def remove_command_def clean_cstr cstr_def [of dfs] dest: clean_length)

lemma wp_RemoveFile:
  assumes "reliable coll S view" "dfs_ok dfs" "clean 256 i" "Q 0 (v\<lparr>commands := commands v @ [remove_command dfs i]\<rparr>)"
  shows "wp view (RemoveFileFromFastDfs S dfs i) Q v"
  unfolding RemoveFileFromFastDfs_def
  by (rule wp_pure [OF RemoveFile_fits [OF assms(2,3)]], rule wp_system_call [OF assms(1)]) (rule assms(4))

lemma wp_drop_ref:
  assumes rel: "reliable coll S view" and m: "clean 256 m" and d: "dfs_ok dfs" and k: "readable (db v)"
    and Q: "case drop_ref coll dfs m v of (c, v2) \<Rightarrow> Q c v2"
  shows "wp view (\<lambda>w. Option.bind (drop_reference S m w) (\<lambda>(dropped, w4).
      case dropped of None \<Rightarrow> Some (1, w4)
      | Some (n, file_id) \<Rightarrow>
          if n = 1 then Option.bind (RemoveFileFromFastDfs S dfs file_id w4) (\<lambda>(r, w5). Some (if r \<noteq> 0 then 1 else 0, w5))
          else Some (0, w4))) Q v"
proof (rule wp_bind, rule wp_drop_reference [OF rel m k])
  assume "filter (is_file coll m) (file_info (db v)) = []"
  with Q show "wp view (\<lambda>w4. case None of None \<Rightarrow> Some (1, w4)
      | Some (n, file_id) \<Rightarrow>
          if n = 1 then Option.bind (RemoveFileFromFastDfs S dfs file_id w4) (\<lambda>(r, w5). Some (if r \<noteq> 0 then 1 else 0, w5))
          else Some (0, w4)) Q v"
    by (simp add: drop_ref_def wp_return)
next
  fix r rs assume rows: "filter (is_file coll m) (file_info (db v)) = r # rs"
  then have "r \<in> set (file_info (db v))" using filter_eq_ConsD by force
  with k have r: "0 < fi_count r" "clean 256 (fi_file_id r)" by (auto simp: readable_def)
  show "wp view (\<lambda>w4. case Some (fi_count r, fi_file_id r) of None \<Rightarrow> Some (1, w4)
      | Some (n, file_id) \<Rightarrow>
          if n = 1 then Option.bind (RemoveFileFromFastDfs S dfs file_id w4) (\<lambda>(r, w5). Some (if r \<noteq> 0 then 1 else 0, w5))
          else Some (0, w4)) Q (v\<lparr>db := effect coll (if fi_count r > 1 then DecrementCount m else DeleteFileInfo m) (db v)\<rparr>)"
  proof (cases "fi_count r = 1")
    case True
    have "wp view (\<lambda>w. Option.bind (RemoveFileFromFastDfs S dfs (fi_file_id r) w) (\<lambda>(r, w5). Some (if r \<noteq> 0 then 1 else 0, w5))) Q
        (v\<lparr>db := effect coll (DeleteFileInfo m) (db v)\<rparr>)"
      by (rule wp_bind, rule wp_RemoveFile [OF rel d r(2)]) (use Q rows True in \<open>simp add: wp_return drop_ref_def\<close>)
    with True show ?thesis by simp
  next
    case False
    with r have "fi_count r > 1" by simp
    with Q rows show ?thesis by (simp add: wp_return drop_ref_def)
  qed
qed

theorem delete_implements:
  assumes rel: "reliable coll S view" and cl: "clean_file u m f" and d: "dfs_ok dfs"
    and t: "keys_ok coll (db (view w))" "readable (db (view w))" "ranking_typed (view w)"
  shows "\<exists>w'. handleDeleteFile S dfs u m f w = Some (fst (delete_spec coll dfs u m f (view w)), w') \<and>
    view w' = snd (delete_spec coll dfs u m f (view w))"
proof -
  let ?v = "view w" and ?rows = "filter (is_owned coll u m f) (user_file_list (db (view w)))"
  let ?Q = "\<lambda>c v'. (c, v') = delete_spec coll dfs u m f (view w)"
  have m: "clean 256 m" using cl by (simp add: clean_file_def)
  have rest: "wp view (\<lambda>w. Option.bind (sql (statement_text (DeleteUserFile u m f))) (\<lambda>sql_cmd2.
      let (deleted, w3) = ExecuteDrop (mysql S) sql_cmd2 w
      in if \<not> deleted then Some (1, w3)
         else Option.bind (drop_reference S m w3) (\<lambda>(dropped, w4).
           case dropped of None \<Rightarrow> Some (1, w4)
           | Some (n, file_id) \<Rightarrow>
               if n = 1 then Option.bind (RemoveFileFromFastDfs S dfs file_id w4) (\<lambda>(r, w5). Some (if r \<noteq> 0 then 1 else 0, w5))
               else Some (0, w4)))) ?Q v1"
    if "drop_ref coll dfs m (v1\<lparr>db := effect coll (DeleteUserFile u m f) (db v1)\<rparr>) = delete_spec coll dfs u m f (view w)"
      "file_info (db v1) = file_info (db ?v)" for v1
    by (rule wp_pure [OF fits(3) [OF cl]], rule wp_let, rule wp_execute(3) [OF rel])
      (use cl that t(2) in \<open>auto intro!: wp_drop_ref [OF rel m d] simp: readable_def simp del: effect.simps split: prod.split\<close>)
  have "wp view (handleDeleteFile S dfs u m f) ?Q ?v"
    unfolding handleDeleteFile_def statement_texts
    apply (rule wp_with_db [OF rel], rule wp_with_cache [OF rel], rule wp_on_conn, rule wp_pure [OF fits(1) [OF cl]], rule wp_bind,
        rule wp_GetResultOneStatus [OF rel cl t(1)])
    subgoal by (auto intro!: wp_return simp: delete_spec_def)
    subgoal for r rs
      apply (simp only: prod.case simp_thms if_False, rule wp_bind)
      apply (rule wp_if)
       apply (rule wp_unshare_deleted [OF rel cl t(3)])
       apply (simp only: not_True_eq_False if_False, rule rest; simp add: delete_spec_def Let_def)
      apply (rule wp_return, simp only: not_True_eq_False if_False, rule rest; simp add: delete_spec_def Let_def)
      done
    done
  from wp_result [OF this] show ?thesis by (metis fst_conv snd_conv)
qed

section \<open>What deleting does to the counts\<close>

lemma matches_simps [simp]:
  "matches P [] = 0" "matches P (r # rows) = (if P r then 1 else 0) + matches P rows"
  "matches P (xs @ ys) = matches P xs + matches P ys"
  by (simp_all add: matches_def)

lemma matches_delete: "matches P rows = matches P (delete_rows R rows) + matches (\<lambda>r. P r \<and> R r) rows"
  by (induction rows) (auto simp: delete_rows_def)

lemma matches_pos: "0 < matches P rows \<longleftrightarrow> has_row P rows"
  by (induction rows) (auto simp: has_row_def)

lemma matches_key:
  "distinct (map k rows) \<Longrightarrow> (\<And>r. P r \<longleftrightarrow> k r = c) \<Longrightarrow> matches P rows = (if has_row P rows then 1 else 0)"
proof (induction rows)
  case (Cons r rows)
  have "\<not> has_row P rows" if "P r"
  proof
    assume "has_row P rows"
    then obtain r' where r': "r' \<in> set rows" "P r'" by (auto simp: has_row_def)
    with that Cons.prems(2) have "k r' = k r" by metis
    with r' Cons.prems(1) show False by (auto simp: rev_image_eqI)
  qed
  with Cons show ?case by (auto simp: has_row_def)
qed (simp add: has_row_def)

lemma filter_key:
  assumes "distinct (map k rows)" "\<And>r. P r \<longleftrightarrow> k r = c" "r \<in> set rows" "P r"
  shows "filter P rows = [r]"
proof -
  have "length (filter P rows) = 1"
    using matches_key [of k rows P c] assms by (auto simp: matches_def has_row_def)
  moreover have "r \<in> set (filter P rows)" using assms by simp
  ultimately show ?thesis by (metis One_nat_def length_0_conv length_Suc_conv list.set_intros(1) set_ConsD empty_iff list.set(1))
qed

lemma filter_none: "\<not> has_row P rows \<longleftrightarrow> filter P rows = []"
  by (auto simp: has_row_def filter_empty_conv)

lemma has_delete: "has_row P (delete_rows R rows) \<longleftrightarrow> has_row (\<lambda>r. P r \<and> \<not> R r) rows"
  by (auto simp: has_row_def delete_rows_def)

lemma set_delete [simp]: "set (delete_rows R rows) = {r \<in> set rows. \<not> R r}"
  by (auto simp: delete_rows_def)

lemma distinct_delete: "distinct (map k rows) \<Longrightarrow> distinct (map k (delete_rows R rows))"
  by (simp add: delete_rows_def distinct_map_filter)

lemma length_delete: "length (delete_rows R rows) \<le> length rows"
  by (simp add: delete_rows_def)

lemma map_update: "(\<And>r. k (g r) = k r) \<Longrightarrow> map k (update_rows P g rows) = map k rows"
  by (simp add: update_rows_def)

lemma has_update: "(\<And>r. P (g r) \<longleftrightarrow> P r) \<Longrightarrow> has_row P (update_rows R g rows) \<longleftrightarrow> has_row P rows"
  by (auto simp: has_row_def update_rows_def)

text \<open>A user's file is one row, so the references fall by one.\<close>

lemma refs_delete:
  assumes "keys_ok coll t" "has_row (is_owned coll u m f) (user_file_list t)"
  shows "refs coll m' t = refs coll m' (effect coll (DeleteUserFile u m f) t) + (if coll m' = coll m then 1 else 0)"
proof -
  have "matches (is_owned coll u m f) (user_file_list t) = 1"
    using assms matches_key [of "\<lambda>r. (coll (uf_user r), coll (uf_md5 r), coll (uf_name r))" "user_file_list t"
        "is_owned coll u m f" "(coll u, coll m, coll f)"]
    by (auto simp: keys_ok_def is_owned_def)
  moreover have "matches (\<lambda>r. coll (uf_md5 r) = coll m' \<and> is_owned coll u m f r) (user_file_list t) =
      (if coll m' = coll m then matches (is_owned coll u m f) (user_file_list t) else 0)"
    by (auto simp: is_owned_def matches_def intro!: arg_cong [where f = length] filter_cong)
  ultimately show ?thesis
    using matches_delete [of "\<lambda>r. coll (uf_md5 r) = coll m'" "user_file_list t" "is_owned coll u m f"]
    by (simp add: refs_def)
qed

text \<open>The row of a file that has an owner.\<close>

lemma owned_file:
  assumes "keys_ok coll t" "counted coll t" "has_row (is_owned coll u m f) (user_file_list t)"
  obtains r where "filter (is_file coll m) (file_info t) = [r]" "fi_count r = int (refs coll m t)" "r \<in> set (file_info t)"
    "coll (fi_md5 r) = coll m"
proof -
  obtain x where "x \<in> set (user_file_list t)" "coll (uf_md5 x) = coll m"
    using assms(3) by (auto simp: has_row_def is_owned_def)
  with assms(2) obtain r where r: "r \<in> set (file_info t)" "coll (fi_md5 r) = coll m"
    by (auto simp: counted_def has_row_def is_file_def)
  with assms(1) have "filter (is_file coll m) (file_info t) = [r]"
    using filter_key [of "\<lambda>r. coll (fi_md5 r)" "file_info t" "is_file coll m" "coll m" r]
    by (auto simp: keys_ok_def is_file_def)
  moreover have "fi_count r = int (refs coll m t)"
    using assms(2) r by (simp add: counted_def refs_def)
  ultimately show ?thesis using r that by blast
qed

lemma refs_file_info [simp]: "refs coll m (t\<lparr>file_info := x\<rparr>) = refs coll m t" "refs coll m (add_count coll m' n t) = refs coll m t"
  by (simp_all add: refs_def add_count_def)

text \<open>Files with other counts, and other rows of files, for the same users' files.\<close>

lemma counted_add:
  assumes "\<And>r. r \<in> set (file_info t) \<Longrightarrow>
      fi_count r + (if coll (fi_md5 r) = coll m then n else 0) = int (refs coll (fi_md5 r) t) \<and> 0 < refs coll (fi_md5 r) t"
    "\<And>r. r \<in> set (user_file_list t) \<Longrightarrow> has_row (is_file coll (uf_md5 r)) (file_info t)"
  shows "counted coll (add_count coll m n t)"
proof -
  have "has_row (is_file coll x) (update_rows (is_file coll m) (\<lambda>r. r\<lparr>fi_count := fi_count r + n\<rparr>) (file_info t))
      = has_row (is_file coll x) (file_info t)" for x
    by (rule has_update) (simp add: is_file_def)
  with assms show ?thesis
    unfolding counted_def refs_file_info by (fastforce simp: add_count_def update_rows_def is_file_def)
qed

lemma keys_ok_mono:
  assumes "keys_ok coll t" "map (\<lambda>r. (coll (fi_md5 r), fi_file_id r)) (file_info t') = map (\<lambda>r. (coll (fi_md5 r), fi_file_id r)) (file_info t)"
    "user_file_list t' = user_file_list t"
  shows "keys_ok coll t'"
proof -
  have "map fst (map (\<lambda>r. (coll (fi_md5 r), fi_file_id r)) (file_info t')) = map (\<lambda>r. coll (fi_md5 r)) (file_info t)"
    "set (map snd (map (\<lambda>r. (coll (fi_md5 r), fi_file_id r)) (file_info t'))) = fi_file_id ` set (file_info t)"
    unfolding assms(2) by (simp_all add: o_def image_image)
  then have "map (\<lambda>r. coll (fi_md5 r)) (file_info t') = map (\<lambda>r. coll (fi_md5 r)) (file_info t)"
    "fi_file_id ` set (file_info t') = fi_file_id ` set (file_info t)" by (simp_all add: o_def image_image)
  with assms(1,3) show ?thesis unfolding keys_ok_def by (metis (no_types, lifting) imageE imageI)
qed

lemma keys_ok_delete:
  assumes "keys_ok coll t"
  shows "keys_ok coll (effect coll (DeleteUserFile u m f) t)" "keys_ok coll (effect coll (DeleteFileInfo m) t)"
  using assms length_delete [of "is_owned coll u m f" "user_file_list t"] distinct_delete
  by (auto simp: keys_ok_def)

lemma keys_ok_add: "keys_ok coll t \<Longrightarrow> keys_ok coll (add_count coll m n t)"
  by (rule keys_ok_mono) (auto simp: add_count_def update_rows_def)

text \<open>Taking a reference away, with the file if it was the last.\<close>

lemma counted_delete:
  assumes "keys_ok coll t" "counted coll t" "has_row (is_owned coll u m f) (user_file_list t)"
  defines "t1 \<equiv> effect coll (DeleteUserFile u m f) t"
  shows "1 < refs coll m t \<Longrightarrow> counted coll (add_count coll m (-1) t1)"
    and "refs coll m t = 1 \<Longrightarrow> counted coll (effect coll (DeleteFileInfo m) t1)"
proof -
  have r1: "refs coll m' t = refs coll m' t1 + (if coll m' = coll m then 1 else 0)" for m'
    unfolding t1_def by (rule refs_delete [OF assms(1,3)])
  have f1: "file_info t1 = file_info t" and u1: "set (user_file_list t1) = {r \<in> set (user_file_list t). \<not> is_owned coll u m f r}"
    by (simp_all add: t1_def)
  have same: "refs coll m' t = refs coll m t" if "coll m' = coll m" for m' using that by (simp add: refs_def)
  show "counted coll (add_count coll m (-1) t1)" if "1 < refs coll m t"
  proof (rule counted_add)
    fix r assume r: "r \<in> set (file_info t1)"
    then have "fi_count r = int (refs coll (fi_md5 r) t)" "0 < fi_count r"
      using assms(2) f1 by (auto simp: counted_def)
    with r1 [of "fi_md5 r"] same [of "fi_md5 r"] that
    show "fi_count r + (if coll (fi_md5 r) = coll m then - 1 else 0) = int (refs coll (fi_md5 r) t1) \<and> 0 < refs coll (fi_md5 r) t1"
      by (cases "coll (fi_md5 r) = coll m") auto
  next
    fix r assume "r \<in> set (user_file_list t1)"
    with u1 f1 assms(2) show "has_row (is_file coll (uf_md5 r)) (file_info t1)" by (auto simp: counted_def)
  qed
  show "counted coll (effect coll (DeleteFileInfo m) t1)" if "refs coll m t = 1"
  proof -
    have none: "\<forall>r \<in> set (user_file_list t1). coll (uf_md5 r) \<noteq> coll m"
      using r1 [of m] that matches_pos [of "\<lambda>r. coll (uf_md5 r) = coll m" "user_file_list t1"]
      by (auto simp: refs_def has_row_def)
    show ?thesis
      unfolding counted_def
    proof (intro conjI ballI)
      fix r assume "r \<in> set (file_info (effect coll (DeleteFileInfo m) t1))"
      then have r: "r \<in> set (file_info t)" "coll (fi_md5 r) \<noteq> coll m" by (simp_all add: f1 is_file_def)
      then have c: "fi_count r = int (refs coll (fi_md5 r) t)" "0 < fi_count r" using assms(2) unfolding counted_def by blast+
      then show "fi_count r = int (refs coll (fi_md5 r) (effect coll (DeleteFileInfo m) t1))" "0 < fi_count r"
        using r1 [of "fi_md5 r"] r(2) by simp_all
    next
      fix r assume "r \<in> set (user_file_list (effect coll (DeleteFileInfo m) t1))"
      then have r: "r \<in> set (user_file_list t1)" by simp
      with u1 assms(2) have "has_row (is_file coll (uf_md5 r)) (file_info t)" unfolding counted_def by blast
      moreover have "is_file coll (uf_md5 r) x \<and> \<not> is_file coll m x \<longleftrightarrow> is_file coll (uf_md5 r) x" for x
        using none r by (auto simp: is_file_def)
      ultimately show "has_row (is_file coll (uf_md5 r)) (file_info (effect coll (DeleteFileInfo m) t1))"
        by (simp add: f1 has_delete)
    qed
  qed
qed

lemma tables_cong:
  assumes "file_info t' = file_info t" "user_file_list t' = user_file_list t"
  shows "keys_ok coll t' = keys_ok coll t" "refs coll m t' = refs coll m t" "counted coll t' = counted coll t"
  unfolding counted_def refs_def by (simp_all add: assms keys_ok_def)

text \<open>C1. Deleting a file that the user has answers 0, takes the user's row away, keeps every reference
count equal to the number of owners, and runs the FastDFS delete command for the file exactly when the
user was its last owner; a file the user does not have is refused and nothing changes.\<close>

theorem delete_keeps_counts:
  assumes "reliable coll S view" "clean_file u m f" "dfs_ok dfs"
    and "keys_ok coll (db (view w))" "counted coll (db (view w))" "ranking_typed (view w)"
  shows "\<exists>c w'. handleDeleteFile S dfs u m f w = Some (c, w') \<and>
    keys_ok coll (db (view w')) \<and> counted coll (db (view w')) \<and>
    (if has_row (is_owned coll u m f) (user_file_list (db (view w)))
     then c = 0 \<and> user_file_list (db (view w')) = delete_rows (is_owned coll u m f) (user_file_list (db (view w))) \<and>
       commands (view w') = commands (view w) @
         (if refs coll m (db (view w)) = 1
          then [remove_command dfs (fi_file_id (hd (filter (is_file coll m) (file_info (db (view w))))))] else [])
     else c = 1 \<and> view w' = view w)"
proof -
  let ?v = "view w"
  obtain w' where run: "handleDeleteFile S dfs u m f w = Some (fst (delete_spec coll dfs u m f ?v), w')"
      "view w' = snd (delete_spec coll dfs u m f ?v)"
    using delete_implements [OF assms(1-4) counted_readable [OF assms(4,5)] assms(6)] by blast
  show ?thesis
  proof (cases "has_row (is_owned coll u m f) (user_file_list (db ?v))")
    case False
    then have "delete_spec coll dfs u m f ?v = (1, ?v)" by (simp add: delete_spec_def filter_none)
    with run False assms(4,5) show ?thesis by simp
  next
    case True
    obtain r where r: "filter (is_file coll m) (file_info (db ?v)) = [r]" "fi_count r = int (refs coll m (db ?v))"
        "r \<in> set (file_info (db ?v))" "coll (fi_md5 r) = coll m"
      by (rule owned_file [OF assms(4,5) True])
    obtain x xs where x: "filter (is_owned coll u m f) (user_file_list (db ?v)) = x # xs"
      using True filter_none neq_Nil_conv by metis
    define v1 where "v1 = (if uf_shared x = 1 then unshare coll u m f ?v else ?v)"
    define v2 where "v2 = v1\<lparr>db := effect coll (DeleteUserFile u m f) (db v1)\<rparr>"
    have spec: "delete_spec coll dfs u m f ?v = drop_ref coll dfs m v2"
      by (simp add: delete_spec_def x v2_def v1_def Let_def)
    have same: "file_info (db v1) = file_info (db ?v)" "user_file_list (db v1) = user_file_list (db ?v)"
      "commands v2 = commands ?v" by (simp_all add: v1_def v2_def)
    have v1: "keys_ok coll (db v1)" "counted coll (db v1)" "has_row (is_owned coll u m f) (user_file_list (db v1))"
        "refs coll m (db v1) = refs coll m (db ?v)"
      using assms(4,5) True tables_cong [OF same(1,2)] by (simp_all add: same)
    have f2: "file_info (db v2) = file_info (db ?v)" by (simp add: v2_def same)
    have pos: "0 < refs coll m (db ?v)"
      using r(2,3) assms(5) unfolding counted_def by fastforce
    show ?thesis
    proof (cases "refs coll m (db ?v) = 1")
      case last: True
      with r f2 have d: "drop_ref coll dfs m v2 = (0, v2\<lparr>db := effect coll (DeleteFileInfo m) (db v2),
          commands := commands v2 @ [remove_command dfs (fi_file_id r)]\<rparr>)" by (simp add: drop_ref_def)
      have "counted coll (effect coll (DeleteFileInfo m) (db v2))"
        using counted_delete(2) [OF v1(1-3)] v1(4) last by (simp add: v2_def)
      with run spec d True last r(1) same v1(1) keys_ok_delete show ?thesis
        by (simp add: v2_def del: effect.simps) (simp add: same)
    next
      case False
      with pos have more: "1 < refs coll m (db ?v)" by simp
      with r f2 have d: "drop_ref coll dfs m v2 = (0, v2\<lparr>db := add_count coll m (-1) (db v2)\<rparr>)"
        by (simp add: drop_ref_def)
      have "counted coll (add_count coll m (-1) (db v2))"
        using counted_delete(1) [OF v1(1-3)] v1(4) more by (simp add: v2_def)
      with run spec d True False same v1(1) keys_ok_delete(1) [of coll "db v1" u m f] keys_ok_add show ?thesis
        by (simp add: v2_def del: effect.simps) (simp add: add_count_def same)
    qed
  qed
qed

lemmas sample_defs = sample_def new_user_def keys_ok_def counted_def refs_def has_row_def is_file_def is_owned_def is_shared_def
  is_shared_by_def is_user_def clean_file_def clean_def isprint_def ranking_typed_def dfs_ok_def zset_at_def hash_at_def
  remove_command_def

lemma sample_ok: "keys_ok id (db sample)" "counted id (db sample)" "ranking_typed sample"
  by (simp_all add: sample_defs)

theorem delete_keeps_counts_witness:
  "\<exists>w'. handleDeleteFile (ref_services id (\<lambda>s. None)) ''/etc/c'' ''ann'' ''m2'' ''b.txt'' sample = Some (0, w') \<and>
    counted id (db w') \<and> commands w' = [''fdfs_delete_file /etc/c group1/b'']"
proof -
  have h: "clean_file ''ann'' ''m2'' ''b.txt''" "dfs_ok ''/etc/c''" by (simp_all add: sample_defs)
  have c: "cstr ''/etc/c'' = ''/etc/c''" by (simp add: cstr_def)
  from delete_keeps_counts [OF ref_reliable [of id "\<lambda>s. None"] h, where w = sample] sample_ok
  show ?thesis by (auto simp: sample_defs c)
qed

section \<open>Storing and saving a file\<close>

lemma refs_insert [simp]:
  "refs coll m' (effect coll (InsertUserFile u m tm f) t) = refs coll m' t + (if coll m' = coll m then 1 else 0)"
  by (auto simp: refs_def)

lemma refs_insert_file: "refs coll m' (effect coll (InsertFileInfo m i url n ty) t) = refs coll m' t"
  by simp

lemma counted_insert:
  assumes "counted coll t"
  shows "has_row (is_file coll m) (file_info t) \<Longrightarrow> counted coll (effect coll (InsertUserFile u m tm f) (add_count coll m 1 t))"
    and "\<not> has_row (is_file coll m) (file_info t) \<Longrightarrow>
      counted coll (effect coll (InsertUserFile u m tm f) (effect coll (InsertFileInfo m i url n ty) t))"
proof -
  have row: "fi_count r = int (refs coll (fi_md5 r) t)" "0 < fi_count r" if "r \<in> set (file_info t)" for r
    using assms that unfolding counted_def by blast+
  have known: "has_row (is_file coll (uf_md5 r)) (file_info t)" if "r \<in> set (user_file_list t)" for r
    using assms that unfolding counted_def by blast
  let ?u = "effect coll (InsertUserFile u m tm f)"
  have has: "has_row (is_file coll x) (file_info (add_count coll m 1 t)) = has_row (is_file coll x) (file_info t)" for x
    unfolding add_count_def by (simp add: has_update is_file_def)
  show "counted coll (?u (add_count coll m 1 t))" if "has_row (is_file coll m) (file_info t)"
    unfolding counted_def
  proof (intro conjI ballI)
    fix r assume "r \<in> set (file_info (?u (add_count coll m 1 t)))"
    then obtain r' where r': "r' \<in> set (file_info t)" "r = (if is_file coll m r' then r'\<lparr>fi_count := fi_count r' + 1\<rparr> else r')"
      by (auto simp: add_count_def update_rows_def)
    then have "fi_md5 r = fi_md5 r'" by simp
    with row [OF r'(1)] r'(2) show "fi_count r = int (refs coll (fi_md5 r) (?u (add_count coll m 1 t)))" "0 < fi_count r"
      unfolding refs_insert refs_file_info by (simp_all add: is_file_def)
  next
    fix r assume "r \<in> set (user_file_list (?u (add_count coll m 1 t)))"
    then have "r \<in> set (user_file_list t) \<or> uf_md5 r = m" by (auto simp: add_count_def)
    with known has that show "has_row (is_file coll (uf_md5 r)) (file_info (?u (add_count coll m 1 t)))" by auto
  qed
  show "counted coll (?u (effect coll (InsertFileInfo m i url n ty) t))" if no: "\<not> has_row (is_file coll m) (file_info t)"
    unfolding counted_def
  proof (intro conjI ballI)
    have none: "refs coll m t = 0"
      using known no matches_pos [of "\<lambda>r. coll (uf_md5 r) = coll m" "user_file_list t"]
      by (fastforce simp: refs_def has_row_def is_file_def)
    fix r assume "r \<in> set (file_info (?u (effect coll (InsertFileInfo m i url n ty) t)))"
    then consider "r \<in> set (file_info t)" | "fi_md5 r = m" "fi_count r = 1" by auto
    then have "fi_count r = int (refs coll (fi_md5 r) t + (if coll (fi_md5 r) = coll m then 1 else 0)) \<and> 0 < fi_count r"
    proof cases
      case 1
      then have "coll (fi_md5 r) \<noteq> coll m" using no by (auto simp: has_row_def is_file_def)
      with row [OF 1] show ?thesis by simp
    qed (simp add: none)
    then show "fi_count r = int (refs coll (fi_md5 r) (?u (effect coll (InsertFileInfo m i url n ty) t)))" "0 < fi_count r"
      unfolding refs_insert refs_insert_file by simp_all
  next
    fix r assume "r \<in> set (user_file_list (?u (effect coll (InsertFileInfo m i url n ty) t)))"
    then have "r \<in> set (user_file_list t) \<or> uf_md5 r = m" by auto
    with known show "has_row (is_file coll (uf_md5 r)) (file_info (?u (effect coll (InsertFileInfo m i url n ty) t)))"
      by (auto simp: has_row_def is_file_def)
  qed
qed

lemma keys_ok_insert:
  assumes "keys_ok coll t" "length (user_file_list t) + 1 < 2 ^ 31 - 1"
  shows "\<not> has_row (is_owned coll u m f) (user_file_list t) \<Longrightarrow> keys_ok coll (effect coll (InsertUserFile u m tm f) t)"
    and "\<not> has_row (is_file coll m) (file_info t) \<Longrightarrow> clean 256 i \<Longrightarrow> keys_ok coll (effect coll (InsertFileInfo m i url n ty) t)"
  using assms by (auto simp: keys_ok_def has_row_def is_owned_def is_file_def)

lemma insert_fits:
  assumes "clean_file u m f" "length u + length m + length f \<le> 380" "clean 19 t"
  shows "sql (statement_text (InsertUserFile u m t f)) = Some (statement_text (InsertUserFile u m t f))"
  using assms clean_length [OF assms(3)] clean_cstr [OF assms(3)] clean_cstr [of 32 u] clean_cstr [of 256 m] clean_cstr [of 128 f]
  by (intro sql_fits) (simp add: statement_defs clean_file_def)

lemma save_fits:
  "clean 256 m \<Longrightarrow> sql (statement_text (IncrementCount m)) = Some (statement_text (IncrementCount m))"
  "clean 256 m \<Longrightarrow> sql (statement_text (IncrementSaved m)) = Some (statement_text (IncrementSaved m))"
  "clean_file u m f \<Longrightarrow> sql (statement_text (SelectSavedFile u m f)) = Some (statement_text (SelectSavedFile u m f))"
  "clean_file u m f \<Longrightarrow> sql (statement_text (SelectUserFile u m f)) = Some (statement_text (SelectUserFile u m f))"
  by (auto intro!: sql_fits dest!: clean_cstr_length simp: statement_defs clean_file_def)

lemma add_count_none: "\<not> has_row (is_file coll m) (file_info t) \<Longrightarrow> add_count coll m n t = t"
proof -
  assume "\<not> has_row (is_file coll m) (file_info t)"
  then have "update_rows (is_file coll m) (\<lambda>r. r\<lparr>fi_count := fi_count r + n\<rparr>) (file_info t) = file_info t"
    by (auto simp: update_rows_def has_row_def intro!: map_idI)
  then show ?thesis by (simp add: add_count_def)
qed

lemma may_increment:
  assumes "keys_ok coll t" "counted coll t"
  shows "\<not> refuses coll (IncrementCount m) t" "\<not> refuses coll (IncrementSaved m) t"
  using file_row(2) [OF assms] by (force simp: has_row_def)+

lemma record_found: "rows = [] \<longleftrightarrow> \<not> has_row P rs" if "length rows = matches P rs"
  using that matches_pos [of P rs] by auto

lemma wp_have_record:
  assumes "reliable coll S view" "well_formed st" "\<not> refuses coll st (db v)" "effect coll st (db v) = db v"
    and "\<And>q. answers coll st (db v) q \<Longrightarrow> \<exists>cols rows. q = Rows cols rows \<and> length rows = matches P rs"
    and "Q (if has_row P rs then 1 else 0) v"
  shows "wp view (\<lambda>w. Some (CheckwhetherHaveRecord (mysql S) (statement_text st) w)) Q v"
proof (rule wp_CheckwhetherHaveRecord [OF assms(1,2)])
  fix q assume "answers coll st (db v) q"
  then obtain cols rows where q: "q = Rows cols rows" "length rows = matches P rs" using assms(5) by blast
  have "(case result_of q of None \<Rightarrow> - 1 | Some rs \<Rightarrow> if snd (rs_Next rs) then 1 else 0) = (if has_row P rs then 1 else (0 :: int))"
    using record_found [OF q(2)] q(1) by (auto simp: row_simps split: list.splits)
  with assms(4,6) show "Q (case result_of q of None \<Rightarrow> - 1 | Some rs \<Rightarrow> if snd (rs_Next rs) then 1 else 0) (v\<lparr>db := effect coll st (db v)\<rparr>)"
    by simp
qed (use assms(3) in simp)

text \<open>Adding the user's row, as both handlers do.\<close>

lemma wp_insert_user_file:
  assumes rel: "reliable coll S view" and cl: "clean_file u m f" "length u + length m + length f \<le> 380"
    and no: "\<not> has_row (is_owned coll u m f) (user_file_list (db v))"
    and Q: "\<And>tm. clean 19 tm \<Longrightarrow> Q a (v\<lparr>db := effect coll (InsertUserFile u m tm f) (db v)\<rparr>)"
  shows "wp view (\<lambda>w2. let (tm, w3) = time_text S w2
      in Option.bind (sql (insert_user_file u m tm f)) (\<lambda>sql_cmd.
         let (stored, w4) = ExecuteCreate (mysql S) sql_cmd w3 in Some (if stored then a else b, w4))) Q v"
  unfolding statement_texts
  by (rule wp_let, rule wp_time_text [OF rel], rule wp_pure [OF insert_fits [OF cl]], assumption,
      rule wp_let, rule wp_execute(1) [OF rel])
    (use cl no Q in \<open>auto intro!: wp_return\<close>)

text \<open>C16. Saving a shared file gives the user a row and the file one reference more, unless the user has the file
already (5) or nobody has it (1); the counts stay those of the owners.\<close>

theorem save_keeps_counts:
  assumes rel: "reliable coll S view" and cl: "clean_file u m f" "length u + length m + length f \<le> 380"
    and inv: "keys_ok coll (db (view w))" "counted coll (db (view w))"
    and room: "length (user_file_list (db (view w))) + 1 < 2 ^ 31 - 1"
  shows "\<exists>c w'. handleSaveFile S u m f w = Some (c, w') \<and>
    keys_ok coll (db (view w')) \<and> counted coll (db (view w')) \<and>
    (if has_row (is_owned coll u m f) (user_file_list (db (view w))) then c = 5 \<and> view w' = view w
     else if \<not> has_row (is_file coll m) (file_info (db (view w))) then c = 1 \<and> view w' = view w
     else c = 0 \<and> refs coll m (db (view w')) = refs coll m (db (view w)) + 1 \<and>
       has_row (is_owned coll u m f) (user_file_list (db (view w'))))"
proof -
  let ?t = "db (view w)"
  let ?Q = "\<lambda>c v'. keys_ok coll (db v') \<and> counted coll (db v') \<and>
    (if has_row (is_owned coll u m f) (user_file_list ?t) then c = 5 \<and> v' = view w
     else if \<not> has_row (is_file coll m) (file_info ?t) then c = 1 \<and> v' = view w
     else c = 0 \<and> refs coll m (db v') = refs coll m ?t + 1 \<and> has_row (is_owned coll u m f) (user_file_list (db v')))"
  have m: "clean 256 m" using cl by (simp add: clean_file_def)
  have lock: "wp view (with_lock S (\<lambda>locked w. if locked
        then Option.bind (sql (statement_text (IncrementSaved m))) (\<lambda>s. Some (ExecuteUpdate (mysql S) s True w))
        else Some (False, w))) P (view w)"
    if "P (has_row (is_file coll m) (file_info ?t)) ((view w)\<lparr>db := add_count coll m 1 ?t\<rparr>)" for P
    by (rule wp_with_lock [OF rel], simp only: if_True, rule wp_pure [OF save_fits(2) [OF m]], rule wp_ExecuteUpdate [OF rel, where n = "matches (is_file coll m) (file_info ?t)"])
      (use m may_increment(2) [OF inv] that in \<open>simp_all add: matches_pos\<close>)
  have saved: "?Q 0 ((view w)\<lparr>db := effect coll (InsertUserFile u m tm f) (add_count coll m 1 ?t)\<rparr>)"
    if no: "\<not> has_row (is_owned coll u m f) (user_file_list ?t)" and known: "has_row (is_file coll m) (file_info ?t)" for tm
  proof -
    have same: "user_file_list (add_count coll m 1 ?t) = user_file_list ?t" by (simp add: add_count_def)
    have "keys_ok coll (effect coll (InsertUserFile u m tm f) (add_count coll m 1 ?t))"
      by (rule keys_ok_insert) (use inv(1) room no in \<open>simp_all add: keys_ok_add same\<close>)
    moreover have "has_row (is_owned coll u m f) (user_file_list (effect coll (InsertUserFile u m tm f) (add_count coll m 1 ?t)))"
      by (simp add: has_row_def is_owned_def)
    ultimately show ?thesis
      using counted_insert(1) [OF inv(2) known] no known by (simp del: effect.simps)
  qed
  have "wp view (handleSaveFile S u m f) ?Q (view w)"
    unfolding handleSaveFile_def statement_texts(2,12)
    apply (rule wp_with_db [OF rel], rule wp_on_conn, rule wp_pure [OF save_fits(3) [OF cl(1)]], rule wp_let,
        rule wp_have_record [OF rel, where P = "is_owned coll u m f" and rs = "user_file_list ?t"])
    subgoal using cl by simp
    subgoal by simp
    subgoal by simp
    subgoal by auto
    apply (rule wp_if)
    subgoal using inv by (intro wp_return) (simp split: if_splits)
    apply (rule wp_bind, rule lock, rule wp_if)
    subgoal using inv by (intro wp_return) (simp add: add_count_none split: if_splits)
    by (rule wp_insert_user_file [OF rel cl]) (use saved in \<open>simp_all add: add_count_def split: if_splits\<close>)
  from wp_result [OF this] show ?thesis by blast
qed

theorem save_keeps_counts_witness:
  "\<exists>w'. handleSaveFile (ref_services id (\<lambda>s. None)) ''bob'' ''m2'' ''b.txt'' sample = Some (0, w') \<and>
    counted id (db w') \<and> refs id ''m2'' (db w') = 2"
proof -
  have h: "clean_file ''bob'' ''m2'' ''b.txt''" by (simp add: sample_defs)
  from save_keeps_counts [OF ref_reliable [of id "\<lambda>s. None"] h, where w = sample] sample_ok
  show ?thesis by (auto simp: sample_def refs_def has_row_def is_file_def is_owned_def)
qed

text \<open>The table \<open>file_info\<close> after an upload.\<close>

definition add_file :: "collation \<Rightarrow> string \<Rightarrow> string \<Rightarrow> string \<Rightarrow> int \<Rightarrow> string \<Rightarrow> tables \<Rightarrow> tables" where
  "add_file coll m i url n ty t =
     (if has_row (is_file coll m) (file_info t) then add_count coll m 1 t else effect coll (InsertFileInfo m i url n ty) t)"

lemma users_add_file [simp]: "user_file_list (add_file coll m i url n ty t) = user_file_list t"
  by (simp add: add_file_def add_count_def)

text \<open>An upload whose texts fit: the suffix its 8 bytes, the statement its 512.\<close>

definition upload_ok :: "string \<Rightarrow> string \<Rightarrow> string \<Rightarrow> int \<Rightarrow> string \<Rightarrow> string \<Rightarrow> string \<Rightarrow> bool" where
  "upload_ok u m f n i url ty \<longleftrightarrow> clean_file u m f \<and> length u + length m + length f \<le> 380 \<and>
     GetFileSuffix (Some f) 8 = Some (0, Some ty) \<and> well_formed (InsertFileInfo m i url n ty) \<and>
     length (statement_text (InsertFileInfo m i url n ty)) < 512"

lemma wp_storeFileinfo:
  assumes rel: "reliable coll S view" and up: "upload_ok u m f n i url ty"
    and inv: "keys_ok coll (db v)" "counted coll (db v)"
    and owned: "has_row (is_owned coll u m f) (user_file_list (db v)) \<Longrightarrow> Q (-1, e) (v\<lparr>db := t1\<rparr>)"
    and fresh: "\<And>tm. \<not> has_row (is_owned coll u m f) (user_file_list (db v)) \<Longrightarrow>
      Q (0, e) (v\<lparr>db := effect coll (InsertUserFile u m tm f) t1\<rparr>)"
    and e: "e = has_row (is_file coll m) (file_info (db v))" and t1: "t1 = add_file coll m i url n ty (db v)"
  shows "wp view (storeFileinfo S u f m n i url) Q v"
proof -
  have cl: "clean_file u m f" "length u + length m + length f \<le> 380" and m: "clean 256 m"
    and sfx: "GetFileSuffix (Some f) 8 = Some (0, Some ty)" and wf: "well_formed (InsertFileInfo m i url n ty)"
    and fit: "sql (statement_text (InsertFileInfo m i url n ty)) = Some (statement_text (InsertFileInfo m i url n ty))"
    using up by (auto simp: upload_ok_def clean_file_def intro: sql_fits)
  have rest: "wp view (\<lambda>w2. let (create_time, w3) = time_text S w2
      in Option.bind (sql (insert_user_file u m create_time f)) (\<lambda>sql_cmd3.
         let (stored, w4) = ExecuteCreate (mysql S) sql_cmd3 w3 in Some ((if stored then 0 else -1, e), w4))) Q (v\<lparr>db := t1\<rparr>)"
    unfolding statement_texts
    by (rule wp_let, rule wp_time_text [OF rel], rule wp_pure [OF insert_fits [OF cl]], assumption,
        rule wp_let, rule wp_execute(1) [OF rel])
      (use cl owned fresh t1 in \<open>auto intro!: wp_return\<close>)
  have info: "wp view (\<lambda>w1. if inserted then Some ((False, False), w1)
       else Option.bind (sql (statement_text (IncrementCount m))) (\<lambda>sql_cmd2.
         let (done, w') = ExecutePassQuery (mysql S) sql_cmd2 w1 in Some ((\<not> done, done), w'))) P v1"
    if "inserted \<Longrightarrow> P (False, False) v1" "\<not> inserted \<Longrightarrow> v1 = v \<and> P (False, True) (v\<lparr>db := add_count coll m 1 (db v)\<rparr>)"
    for inserted P v1
    apply (rule wp_if)
    subgoal using that(1) by (rule wp_return)
    by (rule wp_pure [OF save_fits(1) [OF m]], rule wp_let, rule wp_execute(2) [OF rel])
      (use m that(2) may_increment(1) [OF inv] in \<open>auto intro!: wp_return\<close>)
  show ?thesis
    unfolding storeFileinfo_def sfx statement_texts(10,11)
    apply (simp only: bind.bind_lunit prod.case, rule wp_with_lock [OF rel], simp only: not_True_eq_False if_False,
        rule wp_pure [OF fit], rule wp_let, rule wp_execute(1) [OF rel wf])
    subgoal
      by (rule wp_bind, rule info) (use rest e t1 in \<open>simp_all add: add_file_def\<close>)
    subgoal
      by (rule wp_bind, rule info) (use rest e t1 in \<open>simp_all add: add_file_def\<close>)
    by simp
qed

lemma upload_stored:
  assumes up: "upload_ok u m f n i url ty" and inv: "keys_ok coll t" "counted coll t"
    and new: "\<not> has_row (is_owned coll u m f) (user_file_list t)"
    and room: "length (user_file_list t) + 1 < 2 ^ 31 - 1"
    and t': "t' = effect coll (InsertUserFile u m tm f) (add_file coll m i url n ty t)"
  shows "keys_ok coll t' \<and> counted coll t' \<and> refs coll m t' = refs coll m t + 1 \<and>
    has_row (is_owned coll u m f) (user_file_list t')"
proof -
  let ?t1 = "add_file coll m i url n ty t"
  have i: "clean 256 i" using up by (simp add: upload_ok_def)
  have keys: "keys_ok coll ?t1"
    using keys_ok_add [OF inv(1)] keys_ok_insert(2) [OF inv(1) room _ i, of m url n ty] by (simp add: add_file_def del: effect.simps)
  have "keys_ok coll t'" unfolding t' by (rule keys_ok_insert(1) [OF keys]) (use room new in simp_all)
  moreover have "counted coll t'" using counted_insert [OF inv(2)] by (simp add: t' add_file_def del: effect.simps)
  moreover have "has_row (is_owned coll u m f) (user_file_list t')" by (simp add: t' has_row_def is_owned_def)
  moreover have "refs coll m ?t1 = refs coll m t" by (simp add: refs_def)
  then have "refs coll m t' = refs coll m t + 1" by (simp add: t' refs_def)
  ultimately show ?thesis by blast
qed

text \<open>Recording an upload by a user who does not have the file adds the user's row and one reference: a new file
gets a row with count 1, a known one (\<open>file_exsit\<close>) is counted once more; the counts stay those of the owners.\<close>

theorem store_keeps_counts:
  assumes rel: "reliable coll S view" and up: "upload_ok u m f n i url ty"
    and inv: "keys_ok coll (db (view w))" "counted coll (db (view w))"
    and new: "\<not> has_row (is_owned coll u m f) (user_file_list (db (view w)))"
    and room: "length (user_file_list (db (view w))) + 1 < 2 ^ 31 - 1"
  shows "\<exists>w'. storeFileinfo S u f m n i url w = Some ((0, has_row (is_file coll m) (file_info (db (view w)))), w') \<and>
    keys_ok coll (db (view w')) \<and> counted coll (db (view w')) \<and>
    refs coll m (db (view w')) = refs coll m (db (view w)) + 1 \<and>
    has_row (is_owned coll u m f) (user_file_list (db (view w')))"
proof -
  let ?t = "db (view w)" and ?e = "has_row (is_file coll m) (file_info (db (view w)))"
  let ?Q = "\<lambda>a v'. a = (0, ?e) \<and> keys_ok coll (db v') \<and> counted coll (db v') \<and>
    refs coll m (db v') = refs coll m ?t + 1 \<and> has_row (is_owned coll u m f) (user_file_list (db v'))"
  have stored: "?Q (0, ?e) ((view w)\<lparr>db := effect coll (InsertUserFile u m tm f) (add_file coll m i url n ty ?t)\<rparr>)" for tm
    using upload_stored [OF up inv new room refl, of tm] by (simp del: effect.simps)
  have "wp view (storeFileinfo S u f m n i url) ?Q (view w)"
    by (rule wp_storeFileinfo [OF rel up inv _ _ refl refl]) (use new in blast, rule stored)
  from wp_result [OF this] show ?thesis by blast
qed

theorem store_keeps_counts_witness:
  "\<exists>w'. storeFileinfo (ref_services id (\<lambda>s. None)) ''bob'' ''c.txt'' ''m3'' 7 ''group1/c'' ''http://h/group1/c'' sample =
      Some ((0, False), w') \<and> counted id (db w') \<and> refs id ''m3'' (db w') = 1"
proof -
  have "GetFileSuffix (Some ''c.txt'') 8 = Some (0, Some ''txt'')" by code_simp
  moreover have "length (statement_text (InsertFileInfo ''m3'' ''group1/c'' ''http://h/group1/c'' 7 ''txt'')) < 512"
    by (simp add: statement_defs cstr_def dec_int_def dec_nat.simps digit_char_def)
  ultimately have h: "upload_ok ''bob'' ''m3'' ''c.txt'' 7 ''group1/c'' ''http://h/group1/c'' ''txt''"
    by (simp add: upload_ok_def clean_file_def clean_def isprint_def)
  from store_keeps_counts [OF ref_reliable [of id "\<lambda>s. None"] h, where w = sample] sample_ok
  show ?thesis by (auto simp: sample_def refs_def has_row_def is_file_def is_owned_def)
qed

text \<open>
  A second upload of a file the user has is refused by the unique key of \<open>user_file_list\<close> after the
  reference was counted: the count is one too high from then on, and the file is never removed.
\<close>

lemma refs_high:
  assumes "counted coll t" "has_row (is_file coll m) (file_info t)"
  shows "\<not> counted coll (add_count coll m 1 t)"
proof -
  obtain r where r: "r \<in> set (file_info t)" "is_file coll m r" using assms(2) by (auto simp: has_row_def)
  then have "r\<lparr>fi_count := fi_count r + 1\<rparr> \<in> set (file_info (add_count coll m 1 t))"
    by (force simp: add_count_def update_rows_def)
  moreover have "fi_count r = int (refs coll (fi_md5 r) t)" using assms(1) r(1) by (simp add: counted_def)
  ultimately show ?thesis unfolding counted_def refs_file_info by fastforce
qed

lemma store_again_miscounts:
  assumes rel: "reliable coll S view" and up: "upload_ok u m f n i url ty"
    and inv: "keys_ok coll (db (view w))" "counted coll (db (view w))"
    and owned: "has_row (is_owned coll u m f) (user_file_list (db (view w)))"
  shows "\<exists>w'. storeFileinfo S u f m n i url w = Some ((-1, True), w') \<and> \<not> counted coll (db (view w'))"
proof -
  have known: "has_row (is_file coll m) (file_info (db (view w)))"
    by (rule owned_file [OF inv owned]) (auto simp: has_row_def is_file_def)
  have "wp view (storeFileinfo S u f m n i url) (\<lambda>a v'. a = (-1, True) \<and> \<not> counted coll (db v')) (view w)"
    by (rule wp_storeFileinfo [OF rel up inv _ _ refl refl])
      (use known owned refs_high [OF inv(2) known] in \<open>simp_all add: add_file_def\<close>)
  from wp_result [OF this] show ?thesis by blast
qed

section \<open>Instant upload\<close>

text \<open>
  The instant upload of a known file the user does not have, which is what it is for, answers failure
  after the reference was counted: the client uploads the file again and the count is one too high.
\<close>

lemma instant_upload_miscounts:
  assumes rel: "reliable coll S view" and cl: "clean_file u m f"
    and inv: "keys_ok coll (db (view w))" "counted coll (db (view w))"
    and new: "\<not> has_row (is_owned coll u m f) (user_file_list (db (view w)))"
    and known: "has_row (is_file coll m) (file_info (db (view w)))"
  shows "\<exists>w'. handleDealMd5 S u m f w = Some (code_json (json S) 1 [], w') \<and> \<not> counted coll (db (view w'))"
proof -
  have m: "clean 256 m" using cl by (simp add: clean_file_def)
  have "wp view (handleDealMd5 S u m f) (\<lambda>a v'. a = code_json (json S) 1 [] \<and> \<not> counted coll (db v')) (view w)"
    unfolding handleDealMd5_def statement_texts(1,11)
    apply (rule wp_with_db [OF rel], rule wp_with_cache [OF rel], rule wp_pure [OF save_fits(4) [OF cl]], rule wp_bind, rule wp_on_conn,
        rule wp_have_record [OF rel, where P = "is_owned coll u m f" and rs = "user_file_list (db (view w))"])
    subgoal using cl by simp
    subgoal by simp
    subgoal by simp
    subgoal by auto
    apply (rule wp_if, simp add: new, rule wp_bind, rule wp_with_lock [OF rel], simp only: if_True,
        rule wp_pure [OF save_fits(1) [OF m]], rule wp_let, rule wp_execute(2) [OF rel])
    by (use m may_increment(1) [OF inv] refs_high [OF inv(2) known] in \<open>auto intro!: wp_return\<close>)
  from wp_result [OF this] show ?thesis by blast
qed

end
