(* ===== verification/Sessions.thy ===== *)
theory Sessions
  imports File_Refs
begin

text \<open>
  Registration, login and tokens: what a login accepts, and for whom the token it gives is valid.
\<close>

section \<open>Registration\<close>

lemma wp_ps_Init:
  "reliable coll S view \<Longrightarrow> Q (\<lparr>ps_stmt = Some insert_user_sql, ps_params = replicate 6 None\<rparr>, True) v \<Longrightarrow>
   wp view (\<lambda>w. Some (ps_Init (mysql S) insert_user_sql w)) Q v"
  unfolding wp_def ps_Init_def
  by (frule reliableD(4)) (simp add: prepared_law_def split_beta)

lemma six_params:
  "set_params 0 [a, b, c, d, e, f] \<lparr>ps_stmt = st, ps_params = replicate 6 None\<rparr> =
   \<lparr>ps_stmt = st, ps_params = map Some [a, b, c, d, e, f]\<rparr>"
  by (simp add: SetParam_def eval_nat_numeral)

lemma wp_insert_user:
  assumes "reliable coll S view" "clean_user r"
    and "name_taken coll r (db v) \<Longrightarrow> Q False v"
    and "\<not> name_taken coll r (db v) \<Longrightarrow> Q True (v\<lparr>db := db v\<lparr>user_info := user_info (db v) @ [r]\<rparr>\<rparr>)"
  shows "wp view (\<lambda>w. Some (ps_ExecuteUpdate (mysql S) \<lparr>ps_stmt = Some insert_user_sql,
    ps_params = map Some [us_name r, us_nick r, us_password r, us_phone r, us_email r, us_time r]\<rparr> w)) Q v"
  unfolding wp_def
proof (intro allI impI)
  fix w assume v: "view w = v"
  let ?ps = "map Some [us_name r, us_nick r, us_password r, us_phone r, us_email r, us_time r]"
  obtain n w' where x: "stmt_execute (mysql S) insert_user_sql ?ps w = (n, w')" by (meson surj_pair)
  have "if name_taken coll r (db v) then n = None \<and> view w' = v
      else n = Some 1 \<and> view w' = v\<lparr>db := db v\<lparr>user_info := user_info (db v) @ [r]\<rparr>\<rparr>"
    using reliableD(4) [OF assms(1), unfolded prepared_law_def, rule_format, THEN conjunct2, THEN conjunct2, rule_format, of r w]
      assms(2) x v by (simp only: Let_def prod.case simp_thms True_implies_equals)
  with assms(3,4) x show "\<exists>a w'. Some (ps_ExecuteUpdate (mysql S) \<lparr>ps_stmt = Some insert_user_sql, ps_params = ?ps\<rparr> w) = Some (a, w') \<and> Q a (view w')"
    by (simp add: ps_ExecuteUpdate_def split: if_splits)
qed

lemma wp_registerUser:
  assumes rel: "reliable coll S view" and r: "\<And>tm. clean 19 tm \<Longrightarrow> clean_user (new_user name nick pwd phone email tm)"
    and taken: "has_row (is_user coll name) (user_info (db v)) \<Longrightarrow> Q 2 v"
    and nick: "\<And>tm. \<not> has_row (is_user coll name) (user_info (db v)) \<Longrightarrow>
      name_taken coll (new_user name nick pwd phone email tm) (db v) \<Longrightarrow> Q 1 v"
    and new: "\<And>tm. clean 19 tm \<Longrightarrow> \<not> name_taken coll (new_user name nick pwd phone email tm) (db v) \<Longrightarrow>
      Q 0 (v\<lparr>db := db v\<lparr>user_info := user_info (db v) @ [new_user name nick pwd phone email tm]\<rparr>\<rparr>)"
  shows "wp view (registerUser S [name, nick, pwd, phone, email]) Q v"
proof -
  have name: "clean 32 name"
    using r [of "[]"] by (simp add: clean_user_def new_user_def clean_def)
  have free: "\<not> has_row (is_user coll name) (user_info (db v))" if "\<not> name_taken coll (new_user name nick pwd phone email tm) (db v)" for tm
    using that by (auto simp: name_taken_def new_user_def has_row_def is_user_def)
  have first: "[name, nick, pwd, phone, email] ! 0 = name"
    "[name, nick, pwd, phone, email] @ [tm] = [name, nick, pwd, phone, email, tm]" for tm by simp_all
  show ?thesis
    unfolding registerUser_def first statement_texts(7)
    apply (rule wp_with_db [OF rel], simp only: not_True_eq_False if_False, rule wp_let, rule wp_ExecuteQuery [OF rel])
    subgoal using name by simp
    subgoal by simp
    subgoal for q
      apply (rule wp_if)
      subgoal
      proof -
        assume a: "answers coll (SelectUser name) (db v) q"
          and m: "case result_of q of None \<Rightarrow> False | Some rs \<Rightarrow> snd (rs_Next rs)"
        then obtain i ids where q: "q = Rows [''id''] (map (\<lambda>i. [Some (dec_nat i)]) (i # ids))"
          "length (i # ids) = matches (is_user coll name) (user_info (db v))"
          by (auto simp: row_simps split: list.splits)
        then have "has_row (is_user coll name) (user_info (db v))" using matches_pos by fastforce
        with taken q(1) show ?thesis by (simp add: row_simps wp_return)
      qed
      subgoal
      proof -
        assume a: "answers coll (SelectUser name) (db v) q"
          and m: "\<not> (case result_of q of None \<Rightarrow> False | Some rs \<Rightarrow> snd (rs_Next rs))"
        then have no: "\<not> has_row (is_user coll name) (user_info (db v))"
          using matches_pos [of "is_user coll name" "user_info (db v)"] by (auto simp: row_simps split: list.splits)
        have params: "set_params 0 [name, nick, pwd, phone, email, tm] \<lparr>ps_stmt = Some insert_user_sql, ps_params = replicate 6 None\<rparr> =
            (let r = new_user name nick pwd phone email tm in \<lparr>ps_stmt = Some insert_user_sql,
              ps_params = map Some [us_name r, us_nick r, us_password r, us_phone r, us_email r, us_time r]\<rparr>)" for tm
          unfolding six_params by (simp add: new_user_def)
        show ?thesis
          apply (simp only: effect.simps outside.surjective, rule wp_let, rule wp_time_text [OF rel], rule wp_let, rule wp_ps_Init [OF rel],
              simp only: prod.case if_True params Let_def, rule wp_case, rule wp_insert_user [OF rel], rule r, assumption)
          using nick no new by (auto intro!: wp_return)
      qed
      done
    done
qed

text \<open>C17. A registration whose user name is free, in the collation of the table, and whose nickname is free adds one
user with the values of the request and answers 0; a taken name is answered 2 and a taken nickname 1, and
nothing changes.\<close>

theorem register_outcome:
  assumes rel: "reliable coll S view" and r: "\<And>tm. clean 19 tm \<Longrightarrow> clean_user (new_user name nick pwd phone email tm)"
    and req: "post \<noteq> []" "decodeRegisterJson (json S) post = Some (Some [name, nick, pwd, phone, email])"
  shows "\<exists>c w'. ApiRegisterUser S post w = Some ((0, code_json (json S) c []), w') \<and>
    (if has_row (is_user coll name) (user_info (db (view w))) then c = 2 \<and> view w' = view w
     else if has_row (\<lambda>r. coll (us_nick r) = coll nick) (user_info (db (view w))) then c = 1 \<and> view w' = view w
     else c = 0 \<and> (\<exists>tm. view w' = (view w)\<lparr>db := db (view w)\<lparr>user_info :=
       user_info (db (view w)) @ [new_user name nick pwd phone email tm]\<rparr>\<rparr>))"
proof -
  have nick: "name_taken coll (new_user name nick pwd phone email tm) t \<longleftrightarrow>
      has_row (is_user coll name) (user_info t) \<or> has_row (\<lambda>r. coll (us_nick r) = coll nick) (user_info t)" for tm t
    by (auto simp: name_taken_def new_user_def has_row_def is_user_def)
  have "wp view (registerUser S [name, nick, pwd, phone, email]) (\<lambda>c v'.
      if has_row (is_user coll name) (user_info (db (view w))) then c = 2 \<and> v' = view w
      else if has_row (\<lambda>r. coll (us_nick r) = coll nick) (user_info (db (view w))) then c = 1 \<and> v' = view w
      else c = 0 \<and> (\<exists>tm. v' = (view w)\<lparr>db := db (view w)\<lparr>user_info :=
        user_info (db (view w)) @ [new_user name nick pwd phone email tm]\<rparr>\<rparr>)) (view w)"
    by (rule wp_registerUser [OF rel r]) (auto simp: nick)
  from wp_result [OF this] obtain c w' where c: "registerUser S [name, nick, pwd, phone, email] w = Some (c, w')"
      "if has_row (is_user coll name) (user_info (db (view w))) then c = 2 \<and> view w' = view w
      else if has_row (\<lambda>r. coll (us_nick r) = coll nick) (user_info (db (view w))) then c = 1 \<and> view w' = view w
      else c = 0 \<and> (\<exists>tm. view w' = (view w)\<lparr>db := db (view w)\<lparr>user_info :=
        user_info (db (view w)) @ [new_user name nick pwd phone email tm]\<rparr>\<rparr>)" by blast
  from c(1) have "ApiRegisterUser S post w = Some ((0, code_json (json S) c []), w')" by (simp add: ApiRegisterUser_def req)
  with c(2) show ?thesis by blast
qed

section \<open>Login\<close>

definition users_ok :: "collation \<Rightarrow> tables \<Rightarrow> bool" where
  "users_ok coll t \<longleftrightarrow> distinct (map (\<lambda>r. coll (us_name r)) (user_info t)) \<and> (\<forall>r \<in> set (user_info t). clean_user r)"

definition password_of :: "collation \<Rightarrow> string \<Rightarrow> tables \<Rightarrow> string option" where
  "password_of coll u t = (case filter (is_user coll u) (user_info t) of [] \<Rightarrow> None | r # rs \<Rightarrow> Some (us_password r))"

lemma wp_verifyUserPassword:
  assumes "reliable coll S view" "clean 32 u" "users_ok coll (db v)"
    and "Q (if password_of coll u (db v) = Some pwd then 0 else -1) v"
  shows "wp view (verifyUserPassword S u pwd) Q v"
proof -
  let ?rows = "filter (is_user coll u) (user_info (db v))"
  have b: "bytes_ok (us_password r)" if "?rows = r # rs" for r rs
  proof -
    have "r \<in> set (user_info (db v))" using that filter_eq_ConsD by force
    with assms(3) show ?thesis unfolding users_ok_def clean_user_def using clean_bytes by blast
  qed
  show ?thesis
    unfolding verifyUserPassword_def statement_texts(6)
    by (rule wp_with_db [OF assms(1)], rule wp_on_conn, rule wp_let, rule wp_ExecuteQuery [OF assms(1)])
      (use assms(2,4) b in \<open>cases ?rows; auto simp: row_simps wp_return password_of_def\<close>)+
qed

lemma wp_setToken:
  assumes "reliable coll S view" "bytes_ok u" "\<And>tok. clean 36 tok \<Longrightarrow> Q (0, tok) (put tok (Some (RString u)) v)"
  shows "wp view (setToken S u) Q v"
  unfolding setToken_def
  apply (rule wp_with_cache [OF assms(1)], rule wp_let, rule wp_generateUUID [OF assms(1)], simp only: if_True,
      rule wp_bind, rule wp_strings(4) [OF assms(1)])
  using assms(2,3) clean_bytes by (auto intro!: wp_return)

lemma wp_VerifyToken:
  assumes "reliable coll S view" "bytes_ok tok" "Q (if string_at v tok = u then 0 else -1) v"
  shows "wp view (VerifyToken S u tok) Q v"
  unfolding VerifyToken_def
  by (rule wp_with_cache [OF assms(1)], simp only: if_True, rule wp_bind, rule wp_strings(1) [OF assms(1,2)], rule wp_return, rule assms(3))

text \<open>C2. A login is answered 0 exactly when the password of the request is the one stored for the user.  Then it
gives a token that from then on is valid for the user name of the request and for no other, and the tables
do not change; a failed login changes nothing.\<close>

theorem login_outcome:
  assumes rel: "reliable coll S view" and u: "clean 32 u" and users: "users_ok coll (db (view w))"
    and req: "post \<noteq> []" "decodeLoginJson (json S) post = Some (Some [u, pwd])"
  shows "\<exists>tok w'. ApiUserLogin S post w =
      Some (if password_of coll u (db (view w)) = Some pwd then (0, encodeLoginJson (json S) 0 tok)
            else (-1, encodeLoginJson (json S) 1 []), w') \<and>
    db (view w') = db (view w) \<and>
    (if password_of coll u (db (view w)) = Some pwd
     then \<forall>user w1. view w1 = view w' \<longrightarrow> (\<exists>w2. VerifyToken S user tok w1 = Some (if user = u then 0 else -1, w2) \<and> view w2 = view w1)
     else view w' = view w)"
proof -
  have b: "bytes_ok u" using u by (rule clean_bytes)
  have token: "\<exists>w2. VerifyToken S user tok w1 = Some (if user = u then 0 else -1, w2) \<and> view w2 = view w1"
    if "view w1 = put tok (Some (RString u)) v" "clean 36 tok" for user w1 v tok
  proof -
    have "string_at (view w1) tok = u" using that(1) by (simp add: string_at_def put_def)
    then have "wp view (VerifyToken S user tok) (\<lambda>c v'. c = (if user = u then 0 else -1) \<and> v' = view w1) (view w1)"
      by (intro wp_VerifyToken [OF rel]) (use clean_bytes [OF that(2)] in auto)
    from wp_result [OF this] show ?thesis by blast
  qed
  have "wp view (verifyUserPassword S u pwd) (\<lambda>c v'. c = (if password_of coll u (db (view w)) = Some pwd then 0 else -1) \<and> v' = view w) (view w)"
    by (rule wp_verifyUserPassword [OF rel u users]) simp
  from wp_result [OF this] obtain w1 where v: "verifyUserPassword S u pwd w =
      Some (if password_of coll u (db (view w)) = Some pwd then 0 else -1, w1)" "view w1 = view w" by blast
  show ?thesis
  proof (cases "password_of coll u (db (view w)) = Some pwd")
    case False
    with v show ?thesis by (simp add: ApiUserLogin_def req)
  next
    case True
    have "wp view (setToken S u) (\<lambda>a v'. \<exists>tok. a = (0, tok) \<and> clean 36 tok \<and> v' = put tok (Some (RString u)) (view w)) (view w1)"
      by (rule wp_setToken [OF rel b]) (simp add: v)
    from wp_result [OF this] obtain tok w' where "setToken S u w1 = Some ((0, tok), w')" "clean 36 tok"
        "view w' = put tok (Some (RString u)) (view w)" by blast
    moreover from this True v have "ApiUserLogin S post w = Some ((0, encodeLoginJson (json S) 0 tok), w')"
      by (simp add: ApiUserLogin_def req)
    moreover have "db (view w') = db (view w)" using calculation by simp
    moreover have "\<forall>user w1. view w1 = view w' \<longrightarrow>
        (\<exists>w2. VerifyToken S user tok w1 = Some (if user = u then 0 else -1, w2) \<and> view w2 = view w1)"
      using token calculation(2,3) by simp
    ultimately show ?thesis using True by (intro exI [of _ tok] exI [of _ w']) simp
  qed
qed

text \<open>The sample with requests that register a user and log one in.\<close>

definition requests :: "string \<Rightarrow> json option" where
  "requests = [
     ''register'' \<mapsto> JObj [(''userName'', JStr ''cat''), (''nickName'', JStr ''cat''), (''firstPwd'', JStr ''pw'')],
     ''login'' \<mapsto> JObj [(''user'', JStr ''ann''), (''pwd'', JStr ''secret'')],
     ''delete'' \<mapsto> JObj [(''user'', JStr ''ann''), (''token'', JStr ''t1''), (''md5'', JStr ''m2''), (''filename'', JStr ''b.txt'')]]"

abbreviation sample_services :: "outside services" where "sample_services \<equiv> ref_services id requests"

lemma json_ref [simp]: "parse_json (json (ref_services coll docs)) = docs"
  by (simp add: ref_services_def)

lemma decode_samples:
  "decodeRegisterJson (json sample_services) ''register'' = Some (Some [''cat'', ''cat'', ''pw'', [], []])"
  "decodeLoginJson (json sample_services) ''login'' = Some (Some [''ann'', ''secret''])"
  "decode_request (json sample_services) ''delete'' [''user'', ''token'', ''md5'', ''filename''] = Some (Some [''ann'', ''t1'', ''m2'', ''b.txt''])"
  by (simp_all add: decodeRegisterJson_def decodeLoginJson_def decode_request_def requests_def member_def asString_def optional_member_def)

theorem register_outcome_witness:
  "\<exists>w'. ApiRegisterUser sample_services ''register'' sample = Some ((0, code_json (json sample_services) 0 []), w') \<and>
    password_of id ''cat'' (db w') = Some ''pw''"
proof -
  have r: "clean_user (new_user ''cat'' ''cat'' ''pw'' [] [] tm)" if "clean 19 tm" for tm
    using that by (simp add: clean_user_def new_user_def) (simp add: clean_def isprint_def)
  from register_outcome [OF ref_reliable r _ decode_samples(1), where w = sample]
  show ?thesis by (auto simp: sample_def new_user_def has_row_def is_user_def password_of_def)
qed

theorem login_outcome_witness:
  "\<exists>tok w' w2. ApiUserLogin sample_services ''login'' sample = Some ((0, encodeLoginJson (json sample_services) 0 tok), w') \<and>
    VerifyToken sample_services ''ann'' tok w' = Some (0, w2)"
proof -
  have u: "clean 32 ''ann''" by (simp add: clean_def isprint_def)
  have "users_ok id (db sample)"
    by (simp add: users_ok_def clean_user_def sample_def new_user_def clean_def isprint_def)
  moreover have "password_of id ''ann'' (db sample) = Some ''secret''"
    by (simp add: password_of_def sample_def new_user_def is_user_def)
  ultimately show ?thesis
    using login_outcome [OF ref_reliable u _ _ decode_samples(2), where w = sample] by fastforce
qed

section \<open>Requests with a token\<close>

text \<open>C13. A request to delete a file is carried out when the user name it gives is the one stored under its token; otherwise
it is answered with code 4 and changes nothing.  An unknown token counts as one of the empty user name, as \<open>Get\<close> returns the empty string for it:
with an empty user name it passes (\<open>nobody_is_verified\<close>), with any other it is refused.\<close>

theorem delete_request_authorised:
  assumes rel: "reliable coll S view" and cl: "clean_file u m f" and d: "dfs_ok dfs" and tok: "bytes_ok tok"
    and inv: "keys_ok coll (db (view w))" "counted coll (db (view w))" "ranking_typed (view w)"
    and req: "request_cmd url = Some ''del''"
      "decode_request (json S) post [''user'', ''token'', ''md5'', ''filename''] = Some (Some [u, tok, m, f])"
  shows "\<exists>w'. ApiDealfile S dfs url post w =
      Some (if string_at (view w) tok = u then (0, Some (code_json (json S) (fst (delete_spec coll dfs u m f (view w))) []))
            else (-1, Some (code_json (json S) 4 [])), w') \<and>
    view w' = (if string_at (view w) tok = u then snd (delete_spec coll dfs u m f (view w)) else view w)"
proof -
  have "wp view (VerifyToken S u tok) (\<lambda>c v'. c = (if string_at (view w) tok = u then 0 else -1) \<and> v' = view w) (view w)"
    by (rule wp_VerifyToken [OF rel tok]) simp
  from wp_result [OF this] obtain w1 where t: "VerifyToken S u tok w = Some (if string_at (view w) tok = u then 0 else -1, w1)"
      "view w1 = view w" by blast
  obtain w2 where "handleDeleteFile S dfs u m f w1 = Some (fst (delete_spec coll dfs u m f (view w)), w2)"
      "view w2 = snd (delete_spec coll dfs u m f (view w))"
    using delete_implements [OF rel cl d, of w1] inv counted_readable t(2) by auto
  with t show ?thesis by (simp add: ApiDealfile_def req)
qed

theorem delete_request_authorised_witness:
  "request_cmd ''/api/dealfile?cmd=del'' = Some ''del'' \<and>
   (\<exists>w'. ApiDealfile sample_services ''/etc/c'' ''/api/dealfile?cmd=del'' ''delete'' (put ''t1'' (Some (RString ''ann'')) sample) =
     Some ((0, Some (code_json (json sample_services) 0 [])), w')) \<and>
   (\<exists>w'. ApiDealfile sample_services ''/etc/c'' ''/api/dealfile?cmd=del'' ''delete'' (put ''t1'' (Some (RString ''bob'')) sample) =
     Some ((-1, Some (code_json (json sample_services) 4 [])), w') \<and> w' = put ''t1'' (Some (RString ''bob'')) sample)"
proof -
  have cmd: "request_cmd ''/api/dealfile?cmd=del'' = Some ''del''" by code_simp
  have h: "clean_file ''ann'' ''m2'' ''b.txt''" "dfs_ok ''/etc/c''" "bytes_ok ''t1''" by (simp_all add: sample_defs)
  let ?v = "\<lambda>x. put ''t1'' (Some (RString x)) sample"
  have inv: "keys_ok id (db (?v x))" "counted id (db (?v x))" "ranking_typed (?v x)" for x
    using sample_ok by (simp_all add: ranking_typed_def FILE_PUBLIC_ZSET_def FILE_NAME_HASH_def)
  have s: "string_at (?v x) ''t1'' = x" for x by (simp add: string_at_def put_def)
  have "fst (delete_spec id ''/etc/c'' ''ann'' ''m2'' ''b.txt'' (?v ''ann'')) = 0"
    by (simp add: delete_spec_def drop_ref_def Let_def sample_def is_owned_def is_file_def)
  then show ?thesis
    using cmd delete_request_authorised [OF ref_reliable h inv [of "''ann''"] cmd decode_samples(3)] s
      delete_request_authorised [OF ref_reliable h inv [of "''bob''"] cmd decode_samples(3)] by simp
qed

text \<open>The comparison also succeeds for the empty user name with a token nobody has.\<close>

lemma nobody_is_verified:
  assumes "reliable coll S view" "bytes_ok tok" "string_at (view w) tok = []"
  shows "\<exists>w'. VerifyToken S [] tok w = Some (0, w') \<and> view w' = view w"
proof -
  have "wp view (VerifyToken S [] tok) (\<lambda>c v'. c = 0 \<and> v' = view w) (view w)"
    by (rule wp_VerifyToken [OF assms(1,2)]) (simp add: assms(3))
  from wp_result [OF this] show ?thesis by blast
qed

end
