(* ===== verification/Ranking.thy ===== *)
theory Ranking
  imports Sessions
begin

text \<open>
  The download ranking: what \<open>handleGetRankingFilelist\<close> answers from the sorted set in Redis, which it
  rebuilds when its size is not that of \<open>share_file_list\<close>, against the ranking of that table.
\<close>

section \<open>The reference\<close>

definition share_id :: "shared_row \<Rightarrow> string" where
  "share_id r = sf_md5 r @ sf_name r"

text \<open>The shared files by falling number of downloads, and by md5 and name among equals.\<close>

definition table_ranking :: "tables \<Rightarrow> shared_row list" where
  "table_ranking t = rev (sort_key (\<lambda>r. (sf_pv r, share_id r)) (share_file_list t))"

definition page_of :: "tables \<Rightarrow> int \<Rightarrow> int \<Rightarrow> shared_row list" where
  "page_of t start n = take (nat n) (drop (nat start) (table_ranking t))"

definition entry :: "shared_row \<Rightarrow> json" where
  "entry r = JObj [(''filename'', JStr (sf_name r)), (''pv'', JInt (sf_pv r))]"

definition ranking_answer :: "json_lib \<Rightarrow> tables \<Rightarrow> int \<Rightarrow> int \<Rightarrow> string" where
  "ranking_answer L t start n =
     styled L [(''code'', JInt 0), (''total'', JInt (int (length (share_file_list t)))),
       (''count'', JInt (int (length (page_of t start n)))), (''files'', files_json (map entry (page_of t start n)))]"

definition shares_ok :: "tables \<Rightarrow> bool" where
  "shares_ok t \<longleftrightarrow> distinct (map share_id (share_file_list t)) \<and> length (share_file_list t) < 2 ^ 31 \<and>
     (\<forall>r \<in> set (share_file_list t). clean 256 (sf_md5 r) \<and> clean 128 (sf_name r) \<and> 0 \<le> sf_pv r \<and> sf_pv r < 2 ^ 31)"

text \<open>A sorted set and a hash of names that hold the shared files.\<close>

definition holds :: "tables \<Rightarrow> (string \<times> int) list \<Rightarrow> (string \<times> string) list \<Rightarrow> bool" where
  "holds t z h \<longleftrightarrow> distinct (map fst z) \<and> set z = (\<lambda>r. (share_id r, sf_pv r)) ` set (share_file_list t) \<and>
     (\<forall>r \<in> set (share_file_list t). map_of h (share_id r) = Some (sf_name r))"

section \<open>Order\<close>

lemma map_sort_key: "map f (sort_key f xs) = sort (map f xs)"
  by (rule properties_for_sort [symmetric]) (simp_all add: mset_map)

lemma sort_mset: "mset xs = mset ys \<Longrightarrow> sort xs = sort (ys :: 'a :: linorder list)"
  by (rule properties_for_sort) simp_all

lemma holds_mset:
  assumes "shares_ok t" "holds t z h"
  shows "mset z = mset (map (\<lambda>r. (share_id r, sf_pv r)) (share_file_list t))"
proof -
  have "distinct z" using assms(2) by (simp add: holds_def distinct_map)
  moreover have "distinct (map (\<lambda>r. (share_id r, sf_pv r)) (share_file_list t))"
    using assms(1) by (auto simp: shares_ok_def distinct_map inj_on_def)
  moreover have "set z = set (map (\<lambda>r. (share_id r, sf_pv r)) (share_file_list t))"
    using assms(2) by (simp add: holds_def)
  ultimately show ?thesis using set_eq_iff_mset_eq_distinct by blast
qed

lemma holds_length: "shares_ok t \<Longrightarrow> holds t z h \<Longrightarrow> length z = length (share_file_list t)"
  using holds_mset mset_eq_length by fastforce

lemma ranked_table:
  assumes "shares_ok t" "holds t z h"
  shows "ranked z = map share_id (table_ranking t)"
proof -
  have "mset (map (\<lambda>p. (snd p, fst p)) z) = mset (map (\<lambda>r. (sf_pv r, share_id r)) (share_file_list t))"
    using arg_cong [OF holds_mset [OF assms], where f = "image_mset (\<lambda>p. (snd p, fst p))"]
    by (simp add: image_mset.compositionality o_def)
  then have "sort (map (\<lambda>p. (snd p, fst p)) z) = map (\<lambda>r. (sf_pv r, share_id r)) (sort_key (\<lambda>r. (sf_pv r, share_id r)) (share_file_list t))"
    unfolding map_sort_key by (rule sort_mset)
  then show ?thesis by (simp add: ranked_def table_ranking_def rev_map [symmetric])
qed

lemma set_table_ranking [simp]: "set (table_ranking t) = set (share_file_list t)"
  by (simp add: table_ranking_def)

section \<open>Reloading\<close>

fun load_zset :: "shared_row list \<Rightarrow> (string \<times> int) list \<Rightarrow> (string \<times> int) list" where
  "load_zset [] z = z"
| "load_zset (r # rs) z = load_zset rs ((share_id r, sf_pv r) # without (share_id r) z)"

fun load_hash :: "shared_row list \<Rightarrow> (string \<times> string) list \<Rightarrow> (string \<times> string) list" where
  "load_hash [] h = h"
| "load_hash (r # rs) h = load_hash rs ((share_id r, sf_name r) # without (share_id r) h)"

lemma set_load_zset:
  "distinct (map share_id rs) \<Longrightarrow> fst ` set z \<inter> share_id ` set rs = {} \<Longrightarrow>
   set (load_zset rs z) = set z \<union> (\<lambda>r. (share_id r, sf_pv r)) ` set rs"
proof (induction rs arbitrary: z)
  case (Cons r rs)
  have "share_id r \<notin> fst ` set z" using Cons.prems by auto
  then have "without (share_id r) z = z" by (force simp: without_def filter_id_conv)
  with Cons show ?case by auto
qed simp

lemma distinct_load_zset: "distinct (map fst z) \<Longrightarrow> distinct (map fst (load_zset rs z))"
proof (induction rs arbitrary: z)
  case (Cons r rs)
  have "distinct (map fst ((share_id r, sf_pv r) # without (share_id r) z))"
    using Cons.prems by (auto simp: without_def distinct_map_filter)
  from Cons.IH [OF this] show ?case by simp
qed simp

lemma map_of_without: "k \<noteq> x \<Longrightarrow> map_of (without k h) x = map_of h x"
  by (induction h) (auto simp: without_def)

lemma load_hash_other: "k \<notin> share_id ` set rs \<Longrightarrow> map_of (load_hash rs h) k = map_of h k"
  by (induction rs arbitrary: h) (auto simp: map_of_without)

lemma load_hash_name: "distinct (map share_id rs) \<Longrightarrow> r \<in> set rs \<Longrightarrow> map_of (load_hash rs h) (share_id r) = Some (sf_name r)"
  by (induction rs arbitrary: h) (auto simp: load_hash_other)

lemma load_holds:
  assumes "shares_ok t" "mset rows = mset (share_file_list t)"
  shows "holds t (load_zset rows []) (load_hash rows [])"
proof -
  have "mset (map share_id rows) = mset (map share_id (share_file_list t))" using assms(2) by simp
  then have d: "distinct (map share_id rows)" using assms(1) mset_eq_imp_distinct_iff by (metis shares_ok_def)
  have s: "set rows = set (share_file_list t)" using assms(2) mset_eq_setD by blast
  show ?thesis
    using set_load_zset [OF d, of "[]"] distinct_load_zset [of "[]" rows] load_hash_name [OF d] by (simp add: holds_def s)
qed

lemma share_row:
  assumes "clean 256 (sf_md5 r)" "clean 128 (sf_name r)"
  shows "fileid_of 1024 (sf_md5 r) (sf_name r) = Some (share_id r)" "bytes_ok (share_id r)" "length (share_id r) < 1024"
    "bytes_ok (sf_md5 r)" "bytes_ok (sf_name r)"
  using fileid_fits [OF assms] assms clean_bytes clean_length [OF assms(1)] clean_length [OF assms(2)]
  by (auto simp: share_id_def)

definition ranking_keys :: "(string \<times> nat) list" where
  "ranking_keys = [(''md5'', 0), (''file_name'', 1), (''pv'', 2)]"

lemma wp_load_ranking:
  assumes rel: "reliable coll S view"
  shows "\<forall>r \<in> set rows. clean 256 (sf_md5 r) \<and> clean 128 (sf_name r) \<and> 0 \<le> sf_pv r \<and> sf_pv r < 2 ^ 31 \<Longrightarrow>
    zset_at v FILE_PUBLIC_ZSET = Some z \<Longrightarrow> hash_at v FILE_NAME_HASH = Some h \<Longrightarrow>
    (\<And>v'. zset_at v' FILE_PUBLIC_ZSET = Some (load_zset rows z) \<Longrightarrow> hash_at v' FILE_NAME_HASH = Some (load_hash rows h) \<Longrightarrow>
      db v' = db v \<Longrightarrow> Q () v') \<Longrightarrow>
    wp view (load_ranking S ranking_keys (ranking_rows rows)) Q v"
proof (induction rows arbitrary: v z h)
  case Nil
  then show ?case by (simp add: wp_def ranking_rows_def)
next
  case (Cons r rows)
  let ?rs = "\<lparr>rs_keys = ranking_keys, rs_rows = ranking_rows rows, rs_row = Some [Some (sf_md5 r), Some (sf_name r), Some (dec_int (sf_pv r))]\<rparr>"
  note row = share_row [of r]
  have get: "GetStr ?rs ''md5'' = Some (sf_md5 r)" "GetStr ?rs ''file_name'' = Some (sf_name r)" "GetInt ?rs ''pv'' = Some (sf_pv r)"
    using Cons.prems(1) row by (simp_all add: row_simps ranking_keys_def)
  have step: "load_ranking S ranking_keys (ranking_rows (r # rows)) = (\<lambda>w.
      Option.bind (op_ZsetAdd (cache S) ''ranking_list'' FILE_PUBLIC_ZSET (sf_pv r) (share_id r) w) (\<lambda>(a, w1).
      Option.bind (op_Hset (cache S) ''ranking_list'' FILE_NAME_HASH (share_id r) (sf_name r) w1) (\<lambda>(n, w2).
      load_ranking S ranking_keys (ranking_rows rows) w2)))"
    using Cons.prems(1) row(1) get by (simp add: ranking_rows_def fun_eq_iff Let_def)
  show ?case
    unfolding step
    by (rule wp_bind, rule wp_zsets(1) [OF rel bytes_keys(1) Cons.prems(2)], (use row Cons.prems(1) in simp),
        rule wp_bind, rule wp_hashes(1) [OF rel bytes_keys(2)], (use row Cons.prems(1) in simp), (simp add: Cons.prems(3)),
        (use row Cons.prems(1) in simp), rule Cons.IH)
      (use Cons.prems in auto)
qed

section \<open>The handler\<close>

lemma db_same [simp]: "db v = t \<Longrightarrow> v\<lparr>db := t\<rparr> = v"
  by auto

lemma wp_SharefilesCount:
  assumes rel: "reliable coll S view" and "length (share_file_list (db v)) < 2 ^ 31"
    and "Q (0, int (length (share_file_list (db v)))) v"
  shows "wp view (handleGetSharefilesCount S n) Q v"
  unfolding handleGetSharefilesCount_def statement_texts(9)
  by (rule wp_with_db [OF rel], rule wp_on_conn, rule wp_let, rule wp_ExecuteQuery [OF rel])
    (use assms(2,3) in \<open>auto simp: row_simps atoi_dec_nat intro!: wp_return\<close>)

lemma wp_sync_ranking:
  assumes rel: "reliable coll S view" and t: "shares_ok (db v)"
    and "a = b \<Longrightarrow> Q True v"
    and "\<And>v' z h. a \<noteq> b \<Longrightarrow> zset_at v' FILE_PUBLIC_ZSET = Some z \<Longrightarrow> hash_at v' FILE_NAME_HASH = Some h \<Longrightarrow> holds (db v) z h \<Longrightarrow>
      db v' = db v \<Longrightarrow> Q True v'"
  shows "wp view (sync_ranking S a b) Q v"
proof -
  let ?v = "put FILE_NAME_HASH None (put FILE_PUBLIC_ZSET None v)"
  have rows: "\<forall>r \<in> set rows. clean 256 (sf_md5 r) \<and> clean 128 (sf_name r) \<and> 0 \<le> sf_pv r \<and> sf_pv r < 2 ^ 31"
    if "mset rows = mset (share_file_list (db v))" for rows
    using t mset_eq_setD [OF that] by (simp add: shares_ok_def)
  show ?thesis
    unfolding sync_ranking_def statement_texts(8)
    apply (rule wp_if)
    subgoal using assms(3) by (simp add: wp_return)
    apply (rule wp_bind, rule wp_strings(2) [OF rel bytes_keys(1)], rule wp_bind, rule wp_strings(2) [OF rel bytes_keys(2)],
        rule wp_let, rule wp_ExecuteQuery [OF rel])
    subgoal by simp
    subgoal by simp
    subgoal for n1 n2 q
    proof -
      assume ab: "b \<noteq> a" and "answers coll SelectRanking (db ?v) q"
      then obtain rs where rs: "mset rs = mset (share_file_list (db v))"
        "q = Rows [''md5'', ''file_name'', ''pv''] (ranking_rows rs)" by auto
      have q: "result_of q = Some \<lparr>rs_keys = ranking_keys, rs_rows = ranking_rows rs, rs_row = None\<rparr>"
        by (simp add: rs(2) row_simps ranking_keys_def upt_rec)
      have "wp view (\<lambda>w3. Option.bind (load_ranking S ranking_keys (ranking_rows rs) w3) (\<lambda>(u, w4). Some (True, w4))) Q ?v"
        by (rule wp_bind, rule wp_load_ranking [OF rel rows [OF rs(1)], of _ "[]" "[]"])
          (use assms(4) ab load_holds [OF t rs(1)] in \<open>auto intro!: wp_return\<close>)
      then show ?thesis by (simp add: q)
    qed
    done
qed

lemma wp_ranked_files:
  assumes rel: "reliable coll S view" and t: "shares_ok (db v)" and z: "zset_at v FILE_PUBLIC_ZSET = Some z"
    and h: "hash_at v FILE_NAME_HASH = Some h" and zh: "holds (db v) z h"
  shows "set rs \<subseteq> set (share_file_list (db v)) \<Longrightarrow> Q (Some (map entry rs)) v \<Longrightarrow>
    wp view (ranked_files S (map share_id rs)) Q v"
proof (induction rs arbitrary: Q)
  case Nil
  then show ?case by (simp add: wp_def)
next
  case (Cons r rs)
  have r: "r \<in> set (share_file_list (db v))" using Cons.prems(1) by simp
  then have c: "clean 256 (sf_md5 r)" "clean 128 (sf_name r)" "0 \<le> sf_pv r" "sf_pv r < 2 ^ 31"
    using t by (auto simp: shares_ok_def)
  have name: "map_of h (share_id r) = Some (sf_name r)" "length (sf_name r) < 512"
    using zh r clean_length [OF c(2)] by (auto simp: holds_def)
  have "(share_id r, sf_pv r) \<in> set z" using zh r by (auto simp: holds_def)
  then have pv: "map_of z (share_id r) = Some (sf_pv r)" using zh by (simp add: holds_def)
  have step: "ranked_files S (map share_id (r # rs)) = (\<lambda>w.
      Option.bind (op_Hget (cache S) ''ranking_list'' FILE_NAME_HASH (share_id r) 512 w) (\<lambda>((ret, filename), w1).
      if ret \<noteq> 0 then Some (None, w1)
      else Option.bind filename (\<lambda>name.
        Option.bind (op_ZsetGetScore (cache S) ''ranking_list'' FILE_PUBLIC_ZSET (share_id r) w1) (\<lambda>(score, w2).
        if score = -1 then Some (None, w2)
        else Option.bind (ranked_files S (map share_id rs) w2) (\<lambda>(js, w3).
          Some (map_option (Cons (JObj [(''filename'', JStr name), (''pv'', JInt score)])) js, w3))))))"
    by (simp add: fun_eq_iff)
  have last: "wp view (\<lambda>w2. if sf_pv r = -1 then Some (None, w2) else Option.bind (ranked_files S (map share_id rs) w2) (\<lambda>(js, w3).
      Some (map_option (Cons (JObj [(''filename'', JStr (sf_name r)), (''pv'', JInt (sf_pv r))])) js, w3))) Q v"
    by (rule wp_if, use c in simp, rule wp_bind, rule Cons.IH)
      (use Cons.prems in \<open>auto intro!: wp_return simp: entry_def\<close>)
  show ?case
    unfolding step
    by (rule wp_bind, rule wp_hashes(3) [OF rel bytes_keys(2) share_row(2) [OF c(1,2)] h])
      (use name share_row(5) [OF c(1,2)] last c(3,4) pv in \<open>auto intro!: wp_bind wp_zsets(5) [OF rel bytes_keys(1) z share_row(2) [OF c(1,2)]]\<close>)
qed

lemma set_page: "set (page_of t start n) \<subseteq> set (share_file_list t)"
  using set_take_subset [of "nat n" "drop (nat start) (table_ranking t)"] set_drop_subset [of "nat start" "table_ranking t"]
  by (auto simp: page_of_def)

lemma holds_small:
  assumes "shares_ok t" "holds t z h" "m \<in> fst ` set z"
  shows "bytes_ok m" "length m < 1024"
proof -
  have "set z = (\<lambda>r. (share_id r, sf_pv r)) ` set (share_file_list t)" using assms(2) unfolding holds_def by blast
  then obtain r where r: "m = share_id r" "r \<in> set (share_file_list t)" using assms(3) by auto
  then have "clean 256 (sf_md5 r)" "clean 128 (sf_name r)" using assms(1) by (auto simp: shares_ok_def)
  from share_row(2,3) [OF this] show "bytes_ok m" "length m < 1024" by (simp_all add: r)
qed

lemma ranking_lawD:
  assumes "ranking_law S view" "bytes_ok k" "zset_at (view w) k = Some z" "0 \<le> i" "i \<le> j + 1" "j < 2 ^ 31" "nat (j - i + 1) \<le> n"
    and "\<And>m. m \<in> fst ` set z \<Longrightarrow> bytes_ok m \<and> length m < 1024"
  shows "gives view (op_ZsetZrevrange (cache S) p k i j n) w
    (\<lambda>a. a = (0, Some (int (length (take (nat (j - i + 1)) (drop (nat i) (ranked z))))), take (nat (j - i + 1)) (drop (nat i) (ranked z)))) (view w)"
proof -
  have small: "\<forall>m \<in> fst ` set z. bytes_ok m \<and> length m < 1024" using assms(8) by blast
  note law = assms(1) [unfolded ranking_law_def Let_def, THEN spec, of p, THEN spec, of k, THEN spec, of i, THEN spec, of j,
      THEN spec, of n, THEN spec, of z, THEN spec, of w, THEN mp]
  show ?thesis by (rule law) (intro conjI assms(2-7) small)
qed

lemma wp_Zrevrange:
  assumes rel: "reliable coll S view" and t: "shares_ok t" and page: "0 \<le> start" "0 \<le> n" "start + n < 2 ^ 31"
    and v: "zset_at v FILE_PUBLIC_ZSET = Some z" "holds t z h"
    and Q: "Q (0, Some (int (length (page_of t start n))), map share_id (page_of t start n)) v"
  shows "wp view (op_ZsetZrevrange (cache S) ''ranking_list'' FILE_PUBLIC_ZSET start (s32 (start + n - 1)) (nat n)) Q v"
proof (rule wp_gives)
  fix w assume w: "view w = v"
  have s32: "s32 (start + n - 1) = start + n - 1" using page by (intro s32_id) simp_all
  have members: "take (nat (start + n - 1 - start + 1)) (drop (nat start) (ranked z)) = map share_id (page_of t start n)"
    unfolding ranked_table [OF t v(2)] page_of_def by (simp add: take_map drop_map)
  have "gives view (op_ZsetZrevrange (cache S) ''ranking_list'' FILE_PUBLIC_ZSET start (start + n - 1) (nat n)) w
      (\<lambda>a. a = (0, Some (int (length (map share_id (page_of t start n)))), map share_id (page_of t start n))) (view w)"
    unfolding members [symmetric]
    by (rule ranking_lawD [OF reliableD(7) [OF rel] bytes_keys(1)]) (use page v(1) w holds_small [OF t v(2)] in simp_all)
  then show "gives view (op_ZsetZrevrange (cache S) ''ranking_list'' FILE_PUBLIC_ZSET start (s32 (start + n - 1)) (nat n)) w
      (\<lambda>a. a = (0, Some (int (length (page_of t start n))), map share_id (page_of t start n))) v"
    by (simp only: s32 w length_map)
qed (use Q in simp)

definition page_answer :: "'w services \<Rightarrow> nat \<Rightarrow> int \<times> int option \<times> string list \<Rightarrow> ('w, string) act" where
  "page_answer S n a w =
     (case a of (ret, file_count, rows) \<Rightarrow>
        if ret \<noteq> 0 then Some (styled (json S) [(''code'', JInt 1)], w)
        else Option.bind file_count (\<lambda>k. Option.bind (ranked_files S (take (nat k) rows) w) (\<lambda>(files, w5).
          Some (case files of None \<Rightarrow> styled (json S) [(''code'', JInt 1)]
            | Some js \<Rightarrow> styled (json S) [(''code'', JInt 0), (''total'', JInt (int n)), (''count'', JInt k),
                (''files'', files_json js)], w5))))"

text \<open>The part of the handler that reads the page.\<close>

lemma wp_page:
  assumes rel: "reliable coll S view" and t: "shares_ok t"
    and v: "db v = t" "zset_at v FILE_PUBLIC_ZSET = Some z" "hash_at v FILE_NAME_HASH = Some h" "holds t z h"
    and Q: "Q (ranking_answer (json S) t start n) v"
  shows "wp view (page_answer S (length (share_file_list t))
    (0, Some (int (length (page_of t start n))), map share_id (page_of t start n))) Q v"
proof -
  let ?page = "page_of t start n"
  have "wp view (\<lambda>w. Option.bind (ranked_files S (map share_id ?page) w) (\<lambda>(files, w5).
      Some (case files of None \<Rightarrow> styled (json S) [(''code'', JInt 1)]
        | Some js \<Rightarrow> styled (json S) [(''code'', JInt 0), (''total'', JInt (int (length (share_file_list t)))),
            (''count'', JInt (int (length ?page))), (''files'', files_json js)], w5))) Q v"
    by (rule wp_bind, rule wp_ranked_files [OF rel _ v(2,3)])
      (use t v set_page [of t start n] Q in \<open>simp_all add: ranking_answer_def wp_return\<close>)
  then show ?thesis by (simp add: page_answer_def [abs_def])
qed

text \<open>C5. The ranking answered from Redis is the ranking of the table: the page of the shared files by falling number of
downloads, then md5 and name, with their names and downloads, whenever the sorted set holds the shared
files or has another size than the table and is rebuilt.\<close>

theorem ranking_from_cache:
  assumes rel: "reliable coll S view" and t: "shares_ok (db (view w))" and page: "0 \<le> start" "0 \<le> n" "start + n < 2 ^ 31"
    and z: "zset_at (view w) FILE_PUBLIC_ZSET = Some z" "hash_at (view w) FILE_NAME_HASH = Some h" "length z < 2 ^ 31"
    and sync: "holds (db (view w)) z h \<or> length z \<noteq> length (share_file_list (db (view w)))"
  shows "\<exists>w'. handleGetRankingFilelist S start n w = Some (ranking_answer (json S) (db (view w)) start n, w') \<and>
    db (view w') = db (view w)"
proof -
  let ?t = "db (view w)"
  let ?Q = "\<lambda>a v'. a = ranking_answer (json S) ?t start n \<and> db v' = ?t"
  have len: "length (share_file_list ?t) < 2 ^ 31" using t by (simp add: shares_ok_def)
  have read: "wp view (\<lambda>w3. Option.bind (op_ZsetZrevrange (cache S) ''ranking_list'' FILE_PUBLIC_ZSET start (s32 (start + n - 1)) (nat n) w3)
      (\<lambda>(a, w4). page_answer S (length (share_file_list ?t)) a w4)) ?Q v"
    if "db v = ?t" "zset_at v FILE_PUBLIC_ZSET = Some z'" "hash_at v FILE_NAME_HASH = Some h'" "holds ?t z' h'" for v z' h'
    by (rule wp_bind, rule wp_Zrevrange [OF rel t page that(2,4)], rule wp_page [OF rel t that]) (use that(1) in simp)
  let ?rest = "\<lambda>redis_num w2. Option.bind
      (if redis_num = int (length (share_file_list ?t)) then Some (True, w2)
       else on_conn True (sync_ranking S (int (length (share_file_list ?t))) redis_num) w2)
      (\<lambda>(go_on, w3). if \<not> go_on \<or> n < 0 then Some (styled (json S) [(''code'', JInt 1)], w3)
        else Option.bind (op_ZsetZrevrange (cache S) ''ranking_list'' FILE_PUBLIC_ZSET start (s32 (start + n - 1)) (nat n) w3)
          (\<lambda>(a, w4). page_answer S (length (share_file_list ?t)) a w4))"
  have rest: "wp view (?rest (int (length z))) ?Q (view w)"
  proof (cases "length z = length (share_file_list ?t)")
    case True
    with sync have "holds ?t z h" by simp
    from read [OF refl z(1,2) this] page(2) True show ?thesis by simp
  next
    case False
    have "wp view (\<lambda>w2. Option.bind (sync_ranking S (int (length (share_file_list ?t))) (int (length z)) w2) 
      (\<lambda>(go_on, w3). if \<not> go_on \<or> n < 0 then Some (styled (json S) [(''code'', JInt 1)], w3)
        else Option.bind (op_ZsetZrevrange (cache S) ''ranking_list'' FILE_PUBLIC_ZSET start (s32 (start + n - 1)) (nat n) w3)
          (\<lambda>(a, w4). page_answer S (length (share_file_list ?t)) a w4))) ?Q (view w)"
      by (rule wp_bind, rule wp_sync_ranking [OF rel t]) (use False page(2) read in simp_all)
    with False show ?thesis by (simp add: on_conn_def)
  qed
  have body: "wp view (\<lambda>w1. if (0::int) \<noteq> 0 then Some (styled (json S) [(''code'', JInt 1)], w1)
      else Option.bind (on_conn True (op_ZsetZcard (cache S) ''ranking_list'' FILE_PUBLIC_ZSET) w1)
        (\<lambda>(redis_num, w2). if redis_num = -1 then Some (styled (json S) [(''code'', JInt 1)], w2) else ?rest redis_num w2)) ?Q (view w)"
    by (rule wp_if, simp, rule wp_bind, rule wp_on_conn, rule wp_zsets(4) [OF rel bytes_keys(1) z(1)])
      (use rest z(3) in simp)
  have "wp view (handleGetRankingFilelist S start n) ?Q (view w)"
    unfolding handleGetRankingFilelist_def Let_def [of "styled _ _"]
    by (rule wp_with_db [OF rel], rule wp_with_cache [OF rel], rule wp_bind, rule wp_SharefilesCount [OF rel len])
      (use body in \<open>simp only: prod.case page_answer_def [abs_def] split_def fst_conv snd_conv\<close>)
  from wp_result [OF this] show ?thesis by blast
qed

text \<open>Two shared files and an empty Redis, from which the set is rebuilt.\<close>

definition two_shares :: outside where
  "two_shares = sample\<lparr>
     db := (db sample)\<lparr>share_file_list := [
       \<lparr>sf_user = ''ann'', sf_md5 = ''m2'', sf_time = ''2024-01-01 00:00:00'', sf_name = ''b.txt'', sf_pv = 1\<rparr>,
       \<lparr>sf_user = ''bob'', sf_md5 = ''m1'', sf_time = ''2024-01-01 00:00:00'', sf_name = ''a.txt'', sf_pv = 3\<rparr>]\<rparr>,
     redis := \<lambda>_. None\<rparr>"

lemma shares_ok_sample: "shares_ok (db sample)" "holds (db sample) [(''m2b.txt'', 0)] [(''m2b.txt'', ''b.txt'')]"
  by (simp_all add: shares_ok_def holds_def sample_def share_id_def clean_def isprint_def)

lemma shares_ok_two: "shares_ok (db two_shares)" "zset_at two_shares k = Some []" "hash_at two_shares k = Some []"
  "length (share_file_list (db two_shares)) = 2"
  by (simp_all add: shares_ok_def two_shares_def share_id_def clean_def isprint_def zset_at_def hash_at_def)

abbreviation answer_one :: "json_lib \<Rightarrow> string" where
  "answer_one L \<equiv> styled L [(''code'', JInt 0), (''total'', JInt 1), (''count'', JInt 1),
     (''files'', files_json [JObj [(''filename'', JStr ''b.txt''), (''pv'', JInt 0)]])]"

abbreviation answer_two :: "json_lib \<Rightarrow> string" where
  "answer_two L \<equiv> styled L [(''code'', JInt 0), (''total'', JInt 2), (''count'', JInt 2),
     (''files'', files_json [JObj [(''filename'', JStr ''a.txt''), (''pv'', JInt 3)], JObj [(''filename'', JStr ''b.txt''), (''pv'', JInt 1)]])]"

lemma ranking_samples: "ranking_answer L (db sample) 0 10 = answer_one L" "ranking_answer L (db two_shares) 0 10 = answer_two L"
  by (simp_all add: ranking_answer_def entry_def page_of_def table_ranking_def) (simp_all add: sample_def two_shares_def entry_def)

theorem ranking_from_cache_witness:
  "(\<exists>w'. handleGetRankingFilelist sample_services 0 10 sample = Some (answer_one (json sample_services), w')) \<and>
   (\<exists>w'. handleGetRankingFilelist sample_services 0 10 two_shares = Some (answer_two (json sample_services), w'))"
proof -
  have at: "zset_at sample FILE_PUBLIC_ZSET = Some [(''m2b.txt'', 0)]" "hash_at sample FILE_NAME_HASH = Some [(''m2b.txt'', ''b.txt'')]"
    by (simp_all add: zset_at_def hash_at_def sample_def FILE_PUBLIC_ZSET_def FILE_NAME_HASH_def)
  have "holds (db sample) [(''m2b.txt'', 0)] [(''m2b.txt'', ''b.txt'')] \<or> P" for P using shares_ok_sample(2) by blast
  from ranking_from_cache [OF ref_reliable shares_ok_sample(1) _ _ _ at _ this, of 0 10 id requests]
    ranking_from_cache [OF ref_reliable shares_ok_two(1) _ _ _ shares_ok_two(2,3), of 0 10 id requests]
  show ?thesis unfolding ranking_samples shares_ok_two(4) by auto
qed

end
