(* ===== verification/Http_Parser.thy ===== *)
theory Http_Parser
  imports Util
begin

text \<open>
  The HTTP parser of FileHub, \<open>http_parser.cc\<close> in strict mode (\<open>HTTP_PARSER_STRICT\<close> is 1): a state machine
  that is fed the bytes of a connection as they come and calls back with the parts of a message.

  The data a call is given are the first \<open>len\<close> bytes of the memory \<open>mem\<close> at \<open>data\<close>; a pointer into
  them is its offset.  A callback sees the memory from the byte it is pointed to, to the end.  It may read
  the parser, change its object and call \<open>http_parser_pause\<close>, which is what the interface allows.

  The outcome of a byte says where the code goes next: to the next byte, to \<open>reexecute_byte\<close>, out of the
  function, or to \<open>error\<close>.  A failed \<open>assert\<close> is \<open>None\<close>, as is undefined behaviour of a callback.
\<close>

section \<open>Data\<close>

datatype http_parser_type = HTTP_REQUEST | HTTP_RESPONSE | HTTP_BOTH

datatype http_method =
    HTTP_DELETE | HTTP_GET | HTTP_HEAD | HTTP_POST | HTTP_PUT | HTTP_CONNECT | HTTP_OPTIONS | HTTP_TRACE
  | HTTP_COPY | HTTP_LOCK | HTTP_MKCOL | HTTP_MOVE | HTTP_PROPFIND | HTTP_PROPPATCH | HTTP_SEARCH | HTTP_UNLOCK
  | HTTP_REPORT | HTTP_MKACTIVITY | HTTP_CHECKOUT | HTTP_MERGE | HTTP_MSEARCH | HTTP_NOTIFY | HTTP_SUBSCRIBE
  | HTTP_UNSUBSCRIBE | HTTP_PATCH | HTTP_PURGE

datatype http_flag = F_CHUNKED | F_CONNECTION_KEEP_ALIVE | F_CONNECTION_CLOSE | F_TRAILING | F_UPGRADE | F_SKIPBODY

datatype http_errno =
    HPE_OK | HPE_CB_message_begin | HPE_CB_status_complete | HPE_CB_url | HPE_CB_header_field | HPE_CB_header_value
  | HPE_CB_headers_complete | HPE_CB_body | HPE_CB_message_complete | HPE_INVALID_EOF_STATE | HPE_HEADER_OVERFLOW
  | HPE_CLOSED_CONNECTION | HPE_INVALID_VERSION | HPE_INVALID_STATUS | HPE_INVALID_METHOD | HPE_INVALID_URL
  | HPE_INVALID_HOST | HPE_INVALID_PORT | HPE_INVALID_PATH | HPE_INVALID_QUERY_STRING | HPE_INVALID_FRAGMENT
  | HPE_LF_EXPECTED | HPE_INVALID_HEADER_TOKEN | HPE_INVALID_CONTENT_LENGTH | HPE_INVALID_CHUNK_SIZE
  | HPE_INVALID_CONSTANT | HPE_INVALID_INTERNAL_STATE | HPE_STRICT | HPE_PAUSED | HPE_UNKNOWN

datatype http_state =
    s_dead | s_start_req_or_res | s_res_or_resp_H | s_start_res | s_res_H | s_res_HT | s_res_HTT | s_res_HTTP
  | s_res_first_http_major | s_res_http_major | s_res_first_http_minor | s_res_http_minor
  | s_res_first_status_code | s_res_status_code | s_res_status | s_res_line_almost_done
  | s_start_req | s_req_method | s_req_spaces_before_url | s_req_schema | s_req_schema_slash
  | s_req_schema_slash_slash | s_req_server_start | s_req_server | s_req_server_with_at | s_req_path
  | s_req_query_string_start | s_req_query_string | s_req_fragment_start | s_req_fragment
  | s_req_http_start | s_req_http_H | s_req_http_HT | s_req_http_HTT | s_req_http_HTTP
  | s_req_first_http_major | s_req_http_major | s_req_first_http_minor | s_req_http_minor | s_req_line_almost_done
  | s_header_field_start | s_header_field | s_header_value_start | s_header_value | s_header_value_lws
  | s_header_almost_done | s_chunk_size_start | s_chunk_size | s_chunk_parameters | s_chunk_size_almost_done
  | s_headers_almost_done | s_headers_done
  | s_chunk_data | s_chunk_data_almost_done | s_chunk_data_done | s_body_identity | s_body_identity_eof
  | s_message_done

definition PARSING_HEADER :: "http_state \<Rightarrow> bool" where
  "PARSING_HEADER s = (case s of
      s_chunk_data \<Rightarrow> False | s_chunk_data_almost_done \<Rightarrow> False | s_chunk_data_done \<Rightarrow> False
    | s_body_identity \<Rightarrow> False | s_body_identity_eof \<Rightarrow> False | s_message_done \<Rightarrow> False | _ \<Rightarrow> True)"

datatype header_states =
    h_general | h_C | h_CO | h_CON
  | h_matching_connection | h_matching_proxy_connection | h_matching_content_length
  | h_matching_transfer_encoding | h_matching_upgrade
  | h_connection | h_content_length | h_transfer_encoding | h_upgrade
  | h_matching_transfer_encoding_chunked | h_matching_connection_keep_alive | h_matching_connection_close
  | h_transfer_encoding_chunked | h_connection_keep_alive | h_connection_close

record http_parser =
  p_type :: http_parser_type
  p_flags :: "http_flag set"
  p_state :: http_state
  header_state :: header_states
  p_index :: nat
  nread :: nat
  content_length :: nat
  http_major :: nat
  http_minor :: nat
  status_code :: nat
  p_method :: http_method
  http_errno :: http_errno
  upgrade :: bool

text \<open>The widths of the fields \<open>index\<close>, \<open>http_major\<close> and its like, \<open>nread\<close> and \<open>content_length\<close>.\<close>

definition u8 :: "nat \<Rightarrow> nat" where "u8 n = n mod 2 ^ 8"
definition u16 :: "nat \<Rightarrow> nat" where "u16 n = n mod 2 ^ 16"
definition u32 :: "nat \<Rightarrow> nat" where "u32 n = n mod 2 ^ 32"
definition u64 :: "nat \<Rightarrow> nat" where "u64 n = n mod 2 ^ 64"

definition ULLONG_MAX :: nat where "ULLONG_MAX = 2 ^ 64 - 1"
definition HTTP_MAX_HEADER_SIZE :: nat where "HTTP_MAX_HEADER_SIZE = 80 * 1024"

section \<open>Characters\<close>

text \<open>\<open>tokens\<close>: the lower case of the characters of a token, NUL for the others.  The initialiser ends after 128
  bytes; the rest of the table is zero.\<close>

definition tokens :: string where
  "tokens = replicate 32 NUL @
     [NUL, CHR ''!'', NUL, CHR ''#'', CHR ''$'', CHR ''%'', CHR ''&'', SQUOT,
      NUL, NUL, CHR ''*'', CHR ''+'', NUL, CHR ''-'', CHR ''.'', NUL] @
     ''0123456789'' @ [NUL, NUL, NUL, NUL, NUL, NUL] @
     [NUL] @ ''abcdefghijklmnopqrstuvwxyz'' @ [NUL, NUL, NUL, CHR ''^'', CHR ''_''] @
     [CHR 0x60] @ ''abcdefghijklmnopqrstuvwxyz'' @ [NUL, CHR ''|'', NUL, CHR ''~'', NUL]"

definition TOKEN :: "char \<Rightarrow> char" where
  "TOKEN c = (let i = byte_val c in if i < length tokens then tokens ! i else NUL)"

text \<open>\<open>unhex\<close>: here too only the first 128 values are given, so that a byte from 128 on has the value 0, and not -1.\<close>

definition unhex :: "int list" where
  "unhex = replicate 48 (-1) @ [0, 1, 2, 3, 4, 5, 6, 7, 8, 9] @ replicate 7 (-1) @ [10, 11, 12, 13, 14, 15] @
     replicate 26 (-1) @ [10, 11, 12, 13, 14, 15] @ replicate 25 (-1)"

definition unhex_at :: "char \<Rightarrow> int" where
  "unhex_at c = (let i = byte_val c in if i < length unhex then unhex ! i else 0)"

text \<open>\<open>normal_url_char\<close>: one bit for each character.\<close>

definition normal_url_char :: "nat list" where
  "normal_url_char =
     [0, 0, 0, 0, 2 + 4 + 16 + 32 + 64 + 128, 255, 255, 1 + 2 + 4 + 8 + 16 + 32 + 64,
      255, 255, 255, 255, 255, 255, 255, 1 + 2 + 4 + 8 + 16 + 32 + 64] @ replicate 16 0"

definition BIT_AT :: "nat list \<Rightarrow> nat \<Rightarrow> bool" where
  "BIT_AT a i \<longleftrightarrow> a ! (i div 8) div 2 ^ (i mod 8) mod 2 = 1"

definition IS_URL_CHAR :: "char \<Rightarrow> bool" where
  "IS_URL_CHAR c = BIT_AT normal_url_char (byte_val c)"

text \<open>\<open>c | 0x20\<close>\<close>

fun LOWER :: "char \<Rightarrow> char" where
  "LOWER (Char b0 b1 b2 b3 b4 b5 b6 b7) = Char b0 b1 b2 b3 b4 True b6 b7"

definition IS_ALPHA :: "char \<Rightarrow> bool" where "IS_ALPHA c \<longleftrightarrow> islower (LOWER c)"
definition IS_NUM :: "char \<Rightarrow> bool" where "IS_NUM c \<longleftrightarrow> isdigit c"
definition IS_ALPHANUM :: "char \<Rightarrow> bool" where "IS_ALPHANUM c \<longleftrightarrow> IS_ALPHA c \<or> IS_NUM c"
definition IS_HEX :: "char \<Rightarrow> bool" where
  "IS_HEX c \<longleftrightarrow> IS_NUM c \<or> (97 \<le> byte_val (LOWER c) \<and> byte_val (LOWER c) \<le> 102)"
definition IS_MARK :: "char \<Rightarrow> bool" where "IS_MARK c \<longleftrightarrow> c \<in> set (''-_.!~*()'' @ [SQUOT])"
definition IS_USERINFO_CHAR :: "char \<Rightarrow> bool" where
  "IS_USERINFO_CHAR c \<longleftrightarrow> IS_ALPHANUM c \<or> IS_MARK c \<or> c \<in> set ''%;:&=+$,''"
definition IS_HOST_CHAR :: "char \<Rightarrow> bool" where "IS_HOST_CHAR c \<longleftrightarrow> IS_ALPHANUM c \<or> c = CHR ''.'' \<or> c = CHR ''-''"

definition method_string :: "http_method \<Rightarrow> string" where
  "method_string m = (case m of
      HTTP_DELETE \<Rightarrow> ''DELETE'' | HTTP_GET \<Rightarrow> ''GET'' | HTTP_HEAD \<Rightarrow> ''HEAD'' | HTTP_POST \<Rightarrow> ''POST'' | HTTP_PUT \<Rightarrow> ''PUT''
    | HTTP_CONNECT \<Rightarrow> ''CONNECT'' | HTTP_OPTIONS \<Rightarrow> ''OPTIONS'' | HTTP_TRACE \<Rightarrow> ''TRACE'' | HTTP_COPY \<Rightarrow> ''COPY''
    | HTTP_LOCK \<Rightarrow> ''LOCK'' | HTTP_MKCOL \<Rightarrow> ''MKCOL'' | HTTP_MOVE \<Rightarrow> ''MOVE'' | HTTP_PROPFIND \<Rightarrow> ''PROPFIND''
    | HTTP_PROPPATCH \<Rightarrow> ''PROPPATCH'' | HTTP_SEARCH \<Rightarrow> ''SEARCH'' | HTTP_UNLOCK \<Rightarrow> ''UNLOCK'' | HTTP_REPORT \<Rightarrow> ''REPORT''
    | HTTP_MKACTIVITY \<Rightarrow> ''MKACTIVITY'' | HTTP_CHECKOUT \<Rightarrow> ''CHECKOUT'' | HTTP_MERGE \<Rightarrow> ''MERGE''
    | HTTP_MSEARCH \<Rightarrow> ''M - SEARCH'' | HTTP_NOTIFY \<Rightarrow> ''NOTIFY'' | HTTP_SUBSCRIBE \<Rightarrow> ''SUBSCRIBE''
    | HTTP_UNSUBSCRIBE \<Rightarrow> ''UNSUBSCRIBE'' | HTTP_PATCH \<Rightarrow> ''PATCH'' | HTTP_PURGE \<Rightarrow> ''PURGE'')"

definition http_method_str :: "http_method \<Rightarrow> string" where "http_method_str m = method_string m"

section \<open>URLs\<close>

definition parse_url_char :: "http_state \<Rightarrow> char \<Rightarrow> http_state" where
  "parse_url_char s ch =
     (if ch = CHR '' '' \<or> ch = CR \<or> ch = LF then s_dead
      else if ch = TAB \<or> ch = CHR 0x0C then s_dead
      else
        let server =
          (if ch = CHR ''/'' then s_req_path
           else if ch = CHR ''?'' then s_req_query_string_start
           else if ch = CHR ''@'' then s_req_server_with_at
           else if IS_USERINFO_CHAR ch \<or> ch = CHR ''['' \<or> ch = CHR '']'' then s_req_server
           else s_dead);
          query =
          (if IS_URL_CHAR ch then s_req_query_string
           else if ch = CHR ''?'' then s_req_query_string
           else if ch = CHR ''#'' then s_req_fragment_start
           else s_dead)
        in case s of
          s_req_spaces_before_url \<Rightarrow>
            if ch = CHR ''/'' \<or> ch = CHR ''*'' then s_req_path else if IS_ALPHA ch then s_req_schema else s_dead
        | s_req_schema \<Rightarrow> if IS_ALPHA ch then s else if ch = CHR '':'' then s_req_schema_slash else s_dead
        | s_req_schema_slash \<Rightarrow> if ch = CHR ''/'' then s_req_schema_slash_slash else s_dead
        | s_req_schema_slash_slash \<Rightarrow> if ch = CHR ''/'' then s_req_server_start else s_dead
        | s_req_server_with_at \<Rightarrow> if ch = CHR ''@'' then s_dead else server
        | s_req_server_start \<Rightarrow> server
        | s_req_server \<Rightarrow> server
        | s_req_path \<Rightarrow>
            if IS_URL_CHAR ch then s
            else if ch = CHR ''?'' then s_req_query_string_start
            else if ch = CHR ''#'' then s_req_fragment_start
            else s_dead
        | s_req_query_string_start \<Rightarrow> query
        | s_req_query_string \<Rightarrow> query
        | s_req_fragment_start \<Rightarrow>
            if IS_URL_CHAR ch then s_req_fragment
            else if ch = CHR ''?'' then s_req_fragment
            else if ch = CHR ''#'' then s
            else s_dead
        | s_req_fragment \<Rightarrow> if IS_URL_CHAR ch \<or> ch = CHR ''?'' \<or> ch = CHR ''#'' then s else s_dead
        | _ \<Rightarrow> s_dead)"

section \<open>The parser as a whole\<close>

definition start_state :: "http_parser \<Rightarrow> http_state" where
  "start_state p = (if p_type p = HTTP_REQUEST then s_start_req else s_start_res)"

definition http_message_needs_eof :: "http_parser \<Rightarrow> bool" where
  "http_message_needs_eof p =
     (if p_type p = HTTP_REQUEST then False
      else if status_code p div 100 = 1 \<or> status_code p = 204 \<or> status_code p = 304 \<or> F_SKIPBODY \<in> p_flags p then False
      else if F_CHUNKED \<in> p_flags p \<or> content_length p \<noteq> ULLONG_MAX then False
      else True)"

definition http_should_keep_alive :: "http_parser \<Rightarrow> bool" where
  "http_should_keep_alive p =
     (if 0 < http_major p \<and> 0 < http_minor p
      then F_CONNECTION_CLOSE \<notin> p_flags p \<and> \<not> http_message_needs_eof p
      else F_CONNECTION_KEEP_ALIVE \<in> p_flags p \<and> \<not> http_message_needs_eof p)"

definition NEW_MESSAGE :: "http_parser \<Rightarrow> http_state" where
  "NEW_MESSAGE p = (if http_should_keep_alive p then start_state p else s_dead)"

definition http_parser_init :: "http_parser_type \<Rightarrow> http_parser" where
  "http_parser_init t =
     \<lparr>p_type = t, p_flags = {},
      p_state = (if t = HTTP_REQUEST then s_start_req else if t = HTTP_RESPONSE then s_start_res else s_start_req_or_res),
      header_state = h_general, p_index = 0, nread = 0, content_length = 0, http_major = 0, http_minor = 0,
      status_code = 0, p_method = HTTP_DELETE, http_errno = HPE_OK, upgrade = False\<rparr>"

definition http_parser_pause :: "http_parser \<Rightarrow> bool \<Rightarrow> http_parser option" where
  "http_parser_pause p paused =
     (if http_errno p = HPE_OK \<or> http_errno p = HPE_PAUSED
      then Some (p\<lparr>http_errno := (if paused then HPE_PAUSED else HPE_OK)\<rparr>) else None)"

definition http_body_is_final :: "http_parser \<Rightarrow> bool" where "http_body_is_final p \<longleftrightarrow> p_state p = s_message_done"

definition http_parser_version :: nat where "http_parser_version = 2 * 0x10000 + 1 * 0x100 + 0"

section \<open>Callbacks\<close>

datatype notify_event = Message_begin | Status_complete | Headers_complete | Message_complete
datatype data_event = Header_field | Header_value | Url | Body

text \<open>A callback gives its return value, whether it paused the parser, and its object.\<close>

type_synonym 'o http_cb = "http_parser \<Rightarrow> 'o \<Rightarrow> (int \<times> bool \<times> 'o) option"
type_synonym 'o http_data_cb = "http_parser \<Rightarrow> string \<Rightarrow> nat \<Rightarrow> 'o \<Rightarrow> (int \<times> bool \<times> 'o) option"

record 'o http_parser_settings =
  on_message_begin :: "'o http_cb option"
  on_url :: "'o http_data_cb option"
  on_status_complete :: "'o http_cb option"
  on_header_field :: "'o http_data_cb option"
  on_header_value :: "'o http_data_cb option"
  on_headers_complete :: "'o http_cb option"
  on_body :: "'o http_data_cb option"
  on_message_complete :: "'o http_cb option"

fun notify_cb :: "notify_event \<Rightarrow> 'o http_parser_settings \<Rightarrow> 'o http_cb option" where
  "notify_cb Message_begin S = on_message_begin S"
| "notify_cb Status_complete S = on_status_complete S"
| "notify_cb Headers_complete S = on_headers_complete S"
| "notify_cb Message_complete S = on_message_complete S"

fun data_cb :: "data_event \<Rightarrow> 'o http_parser_settings \<Rightarrow> 'o http_data_cb option" where
  "data_cb Header_field S = on_header_field S"
| "data_cb Header_value S = on_header_value S"
| "data_cb Url S = on_url S"
| "data_cb Body S = on_body S"

fun notify_error :: "notify_event \<Rightarrow> http_errno" where
  "notify_error Message_begin = HPE_CB_message_begin"
| "notify_error Status_complete = HPE_CB_status_complete"
| "notify_error Headers_complete = HPE_CB_headers_complete"
| "notify_error Message_complete = HPE_CB_message_complete"

fun data_error :: "data_event \<Rightarrow> http_errno" where
  "data_error Header_field = HPE_CB_header_field"
| "data_error Header_value = HPE_CB_header_value"
| "data_error Url = HPE_CB_url"
| "data_error Body = HPE_CB_body"

text \<open>The variables of \<open>http_parser_execute\<close>: the parser, the object of the callbacks and the four marks.\<close>

record 'o run =
  parser :: http_parser
  object :: 'o
  marks :: "data_event \<Rightarrow> nat option"

datatype 'o outcome = Advance nat "'o run" | Reexecute nat "'o run" | Return nat "'o run" | Goto_error nat "'o run"

definition set_parser :: "(http_parser \<Rightarrow> http_parser) \<Rightarrow> 'o run \<Rightarrow> 'o run" where
  "set_parser f r = r\<lparr>parser := f (parser r)\<rparr>"

definition SET_ERRNO :: "http_errno \<Rightarrow> 'o run \<Rightarrow> 'o run" where
  "SET_ERRNO e r = set_parser (\<lambda>p. p\<lparr>http_errno := e\<rparr>) r"

definition fail :: "http_errno \<Rightarrow> nat \<Rightarrow> 'o run \<Rightarrow> 'o outcome option" where
  "fail e p r = Some (Goto_error p (SET_ERRNO e r))"

definition MARK :: "data_event \<Rightarrow> nat \<Rightarrow> 'o run \<Rightarrow> 'o run" where
  "MARK ev p r = (if marks r ev = None then r\<lparr>marks := (marks r)(ev := Some p)\<rparr> else r)"

definition call_back :: "'o http_cb \<Rightarrow> http_errno \<Rightarrow> 'o run \<Rightarrow> 'o run option" where
  "call_back f e r =
     do {
       (ret, paused, ob) \<leftarrow> f (parser r) (object r);
       p \<leftarrow> (if paused then http_parser_pause (parser r) True else Some (parser r));
       Some (r\<lparr>object := ob, parser := (if ret \<noteq> 0 then p\<lparr>http_errno := e\<rparr> else p)\<rparr>)
     }"

text \<open>\<open>CALLBACK_NOTIFY_\<close> and \<open>CALLBACK_DATA_\<close>, with what follows the macro as an argument; \<open>stop\<close> is the offset
  after the data.\<close>

definition callback_notify ::
  "'o http_parser_settings \<Rightarrow> notify_event \<Rightarrow> nat \<Rightarrow> 'o run \<Rightarrow> ('o run \<Rightarrow> 'o outcome option) \<Rightarrow> 'o outcome option" where
  "callback_notify S ev er r next =
     (if http_errno (parser r) \<noteq> HPE_OK then None
      else case notify_cb ev S of
        None \<Rightarrow> next r
      | Some f \<Rightarrow> do {
          r1 \<leftarrow> call_back f (notify_error ev) r;
          if http_errno (parser r1) \<noteq> HPE_OK then Some (Return er r1) else next r1
        })"

definition callback_data ::
  "'o http_parser_settings \<Rightarrow> string \<Rightarrow> data_event \<Rightarrow> nat \<Rightarrow> nat \<Rightarrow> 'o run \<Rightarrow> ('o run \<Rightarrow> 'o outcome option) \<Rightarrow>
   'o outcome option" where
  "callback_data S mem ev stop er r next =
     (if http_errno (parser r) \<noteq> HPE_OK then None
      else case marks r ev of
        None \<Rightarrow> next r
      | Some m \<Rightarrow>
          (case data_cb ev S of
             None \<Rightarrow> next (r\<lparr>marks := (marks r)(ev := None)\<rparr>)
           | Some f \<Rightarrow> do {
               r1 \<leftarrow> call_back (\<lambda>p. f p (drop m mem) (stop - m)) (data_error ev) r;
               if http_errno (parser r1) \<noteq> HPE_OK then Some (Return er r1)
               else next (r1\<lparr>marks := (marks r1)(ev := None)\<rparr>)
             }))"

section \<open>The states\<close>

definition to_state :: "http_state \<Rightarrow> 'o run \<Rightarrow> 'o run" where
  "to_state s r = set_parser (\<lambda>q. q\<lparr>p_state := s\<rparr>) r"

definition next_state :: "http_state \<Rightarrow> nat \<Rightarrow> 'o run \<Rightarrow> 'o outcome option" where
  "next_state s p r = Some (Advance p (to_state s r))"

definition STRICT_CHECK :: "bool \<Rightarrow> nat \<Rightarrow> 'o run \<Rightarrow> 'o outcome option \<Rightarrow> 'o outcome option" where
  "STRICT_CHECK cond p r next = (if cond then fail HPE_STRICT p r else next)"

abbreviation break :: "nat \<Rightarrow> 'o run \<Rightarrow> 'o outcome option" where "break p r \<equiv> Some (Advance p r)"

definition NOTIFY ::
  "'o http_parser_settings \<Rightarrow> notify_event \<Rightarrow> nat \<Rightarrow> 'o run \<Rightarrow> 'o outcome option" where
  "NOTIFY S ev p r = callback_notify S ev (p + 1) r (break p)"

definition CALLBACK_DATA ::
  "'o http_parser_settings \<Rightarrow> string \<Rightarrow> data_event \<Rightarrow> nat \<Rightarrow> 'o run \<Rightarrow> 'o outcome option" where
  "CALLBACK_DATA S mem ev p r = callback_data S mem ev p (p + 1) r (break p)"

subsection \<open>The first line\<close>

definition new_message :: "http_parser \<Rightarrow> http_parser" where
  "new_message q = q\<lparr>p_flags := {}, content_length := ULLONG_MAX\<rparr>"

definition dead_step :: "nat \<Rightarrow> char \<Rightarrow> 'o run \<Rightarrow> 'o outcome option" where
  "dead_step p ch r = (if ch = CR \<or> ch = LF then break p r else fail HPE_CLOSED_CONNECTION p r)"

definition start_req_or_res_step :: "'o http_parser_settings \<Rightarrow> nat \<Rightarrow> char \<Rightarrow> 'o run \<Rightarrow> 'o outcome option" where
  "start_req_or_res_step S p ch r =
     (if ch = CR \<or> ch = LF then break p r
      else let r1 = set_parser new_message r
        in if ch = CHR ''H'' then NOTIFY S Message_begin p (to_state s_res_or_resp_H r1)
           else Some (Reexecute p (set_parser (\<lambda>q. q\<lparr>p_type := HTTP_REQUEST, p_state := s_start_req\<rparr>) r1)))"

definition res_or_resp_H_step :: "nat \<Rightarrow> char \<Rightarrow> 'o run \<Rightarrow> 'o outcome option" where
  "res_or_resp_H_step p ch r =
     (if ch = CHR ''T'' then break p (set_parser (\<lambda>q. q\<lparr>p_type := HTTP_RESPONSE, p_state := s_res_HT\<rparr>) r)
      else if ch \<noteq> CHR ''E'' then fail HPE_INVALID_CONSTANT p r
      else break p (set_parser
        (\<lambda>q. q\<lparr>p_type := HTTP_REQUEST, p_method := HTTP_HEAD, p_index := 2, p_state := s_req_method\<rparr>) r))"

definition start_res_step :: "'o http_parser_settings \<Rightarrow> nat \<Rightarrow> char \<Rightarrow> 'o run \<Rightarrow> 'o outcome option" where
  "start_res_step S p ch r =
     (let r1 = set_parser new_message r
      in if ch = CHR ''H'' then NOTIFY S Message_begin p (to_state s_res_H r1)
         else if ch = CR \<or> ch = LF then NOTIFY S Message_begin p r1
         else fail HPE_INVALID_CONSTANT p r1)"

definition strict_step :: "char \<Rightarrow> http_state \<Rightarrow> nat \<Rightarrow> char \<Rightarrow> 'o run \<Rightarrow> 'o outcome option" where
  "strict_step c s p ch r = STRICT_CHECK (ch \<noteq> c) p r (next_state s p r)"

definition add_digit :: "nat \<Rightarrow> char \<Rightarrow> nat" where
  "add_digit v ch = u16 (v * 10 + digit_val ch)"

definition first_major_step :: "char \<Rightarrow> http_state \<Rightarrow> nat \<Rightarrow> char \<Rightarrow> 'o run \<Rightarrow> 'o outcome option" where
  "first_major_step least s p ch r =
     (if byte_val ch < byte_val least \<or> byte_val (CHR ''9'') < byte_val ch then fail HPE_INVALID_VERSION p r
      else next_state s p (set_parser (\<lambda>q. q\<lparr>http_major := digit_val ch\<rparr>) r))"

definition major_step :: "http_state \<Rightarrow> nat \<Rightarrow> char \<Rightarrow> 'o run \<Rightarrow> 'o outcome option" where
  "major_step s p ch r =
     (if ch = CHR ''.'' then next_state s p r
      else if \<not> IS_NUM ch then fail HPE_INVALID_VERSION p r
      else let r1 = set_parser (\<lambda>q. q\<lparr>http_major := add_digit (http_major q) ch\<rparr>) r
        in if 999 < http_major (parser r1) then fail HPE_INVALID_VERSION p r1 else break p r1)"

definition first_minor_step :: "http_state \<Rightarrow> nat \<Rightarrow> char \<Rightarrow> 'o run \<Rightarrow> 'o outcome option" where
  "first_minor_step s p ch r =
     (if \<not> IS_NUM ch then fail HPE_INVALID_VERSION p r
      else next_state s p (set_parser (\<lambda>q. q\<lparr>http_minor := digit_val ch\<rparr>) r))"

definition minor_digit_step :: "nat \<Rightarrow> char \<Rightarrow> 'o run \<Rightarrow> 'o outcome option" where
  "minor_digit_step p ch r =
     (if \<not> IS_NUM ch then fail HPE_INVALID_VERSION p r
      else let r1 = set_parser (\<lambda>q. q\<lparr>http_minor := add_digit (http_minor q) ch\<rparr>) r
        in if 999 < http_minor (parser r1) then fail HPE_INVALID_VERSION p r1 else break p r1)"

definition res_http_minor_step :: "nat \<Rightarrow> char \<Rightarrow> 'o run \<Rightarrow> 'o outcome option" where
  "res_http_minor_step p ch r =
     (if ch = CHR '' '' then next_state s_res_first_status_code p r else minor_digit_step p ch r)"

definition first_status_code_step :: "nat \<Rightarrow> char \<Rightarrow> 'o run \<Rightarrow> 'o outcome option" where
  "first_status_code_step p ch r =
     (if \<not> IS_NUM ch then (if ch = CHR '' '' then break p r else fail HPE_INVALID_STATUS p r)
      else next_state s_res_status_code p (set_parser (\<lambda>q. q\<lparr>status_code := digit_val ch\<rparr>) r))"

definition status_code_step :: "nat \<Rightarrow> char \<Rightarrow> 'o run \<Rightarrow> 'o outcome option" where
  "status_code_step p ch r =
     (if \<not> IS_NUM ch then
        (if ch = CHR '' '' then next_state s_res_status p r
         else if ch = CR then next_state s_res_line_almost_done p r
         else if ch = LF then next_state s_header_field_start p r
         else fail HPE_INVALID_STATUS p r)
      else let r1 = set_parser (\<lambda>q. q\<lparr>status_code := add_digit (status_code q) ch\<rparr>) r
        in if 999 < status_code (parser r1) then fail HPE_INVALID_STATUS p r1 else break p r1)"

definition res_status_step :: "nat \<Rightarrow> char \<Rightarrow> 'o run \<Rightarrow> 'o outcome option" where
  "res_status_step p ch r =
     (if ch = CR then next_state s_res_line_almost_done p r
      else if ch = LF then next_state s_header_field_start p r
      else break p r)"

definition res_line_almost_done_step :: "'o http_parser_settings \<Rightarrow> nat \<Rightarrow> char \<Rightarrow> 'o run \<Rightarrow> 'o outcome option" where
  "res_line_almost_done_step S p ch r =
     STRICT_CHECK (ch \<noteq> LF) p r (NOTIFY S Status_complete p (to_state s_header_field_start r))"

definition first_method :: "char \<Rightarrow> http_method option" where
  "first_method ch =
     (if ch = CHR ''C'' then Some HTTP_CONNECT
      else if ch = CHR ''D'' then Some HTTP_DELETE
      else if ch = CHR ''G'' then Some HTTP_GET
      else if ch = CHR ''H'' then Some HTTP_HEAD
      else if ch = CHR ''L'' then Some HTTP_LOCK
      else if ch = CHR ''M'' then Some HTTP_MKCOL
      else if ch = CHR ''N'' then Some HTTP_NOTIFY
      else if ch = CHR ''O'' then Some HTTP_OPTIONS
      else if ch = CHR ''P'' then Some HTTP_POST
      else if ch = CHR ''R'' then Some HTTP_REPORT
      else if ch = CHR ''S'' then Some HTTP_SUBSCRIBE
      else if ch = CHR ''T'' then Some HTTP_TRACE
      else if ch = CHR ''U'' then Some HTTP_UNLOCK
      else None)"

definition start_req_step :: "'o http_parser_settings \<Rightarrow> nat \<Rightarrow> char \<Rightarrow> 'o run \<Rightarrow> 'o outcome option" where
  "start_req_step S p ch r =
     (if ch = CR \<or> ch = LF then break p r
      else let r1 = set_parser new_message r
        in if \<not> IS_ALPHA ch then fail HPE_INVALID_METHOD p r1
           else let r2 = set_parser (\<lambda>q. q\<lparr>p_method := HTTP_DELETE, p_index := 1\<rparr>) r1
             in case first_method ch of
                  None \<Rightarrow> fail HPE_INVALID_METHOD p r2
                | Some m \<Rightarrow> NOTIFY S Message_begin p (set_parser (\<lambda>q. q\<lparr>p_method := m, p_state := s_req_method\<rparr>) r2))"

text \<open>The byte at an index of a C string, its terminating NUL included.\<close>

definition c_at :: "string \<Rightarrow> nat \<Rightarrow> char option" where
  "c_at w i = (if i < length w then Some (w ! i) else if i = length w then Some NUL else None)"

definition other_method :: "http_method \<Rightarrow> nat \<Rightarrow> char \<Rightarrow> http_method option" where
  "other_method m i ch =
     (if m = HTTP_CONNECT then
        (if i = 1 \<and> ch = CHR ''H'' then Some HTTP_CHECKOUT else if i = 2 \<and> ch = CHR ''P'' then Some HTTP_COPY else None)
      else if m = HTTP_MKCOL then
        (if i = 1 \<and> ch = CHR ''O'' then Some HTTP_MOVE
         else if i = 1 \<and> ch = CHR ''E'' then Some HTTP_MERGE
         else if i = 1 \<and> ch = CHR ''-'' then Some HTTP_MSEARCH
         else if i = 2 \<and> ch = CHR ''A'' then Some HTTP_MKACTIVITY
         else None)
      else if m = HTTP_SUBSCRIBE then (if i = 1 \<and> ch = CHR ''E'' then Some HTTP_SEARCH else None)
      else if i = 1 \<and> m = HTTP_POST then
        (if ch = CHR ''R'' then Some HTTP_PROPFIND
         else if ch = CHR ''U'' then Some HTTP_PUT
         else if ch = CHR ''A'' then Some HTTP_PATCH
         else None)
      else if i = 2 then
        (if m = HTTP_PUT then (if ch = CHR ''R'' then Some HTTP_PURGE else None)
         else if m = HTTP_UNLOCK then (if ch = CHR ''S'' then Some HTTP_UNSUBSCRIBE else None)
         else None)
      else if i = 4 \<and> m = HTTP_PROPFIND \<and> ch = CHR ''P'' then Some HTTP_PROPPATCH
      else None)"

definition req_method_step :: "nat \<Rightarrow> char \<Rightarrow> 'o run \<Rightarrow> 'o outcome option" where
  "req_method_step p ch r =
     (if ch = NUL then fail HPE_INVALID_METHOD p r
      else do {
        let m = p_method (parser r);
        let i = p_index (parser r);
        let r1 = set_parser (\<lambda>q. q\<lparr>p_index := u8 (i + 1)\<rparr>) r;
        x \<leftarrow> c_at (method_string m) i;
        if ch = CHR '' '' \<and> x = NUL then next_state s_req_spaces_before_url p r1
        else if ch = x then break p r1
        else case other_method m i ch of
          None \<Rightarrow> fail HPE_INVALID_METHOD p r
        | Some m' \<Rightarrow> break p (set_parser (\<lambda>q. q\<lparr>p_method := m'\<rparr>) r1)
      })"

text \<open>The end of the URL states: \<open>parse_url_char\<close>, and an error when it gives \<open>s_dead\<close>.\<close>

definition url_char :: "nat \<Rightarrow> char \<Rightarrow> 'o run \<Rightarrow> 'o outcome option" where
  "url_char p ch r =
     (let r1 = to_state (parse_url_char (p_state (parser r)) ch) r
      in if p_state (parser r1) = s_dead then fail HPE_INVALID_URL p r1 else break p r1)"

definition spaces_before_url_step :: "nat \<Rightarrow> char \<Rightarrow> 'o run \<Rightarrow> 'o outcome option" where
  "spaces_before_url_step p ch r =
     (if ch = CHR '' '' then break p r
      else let r1 = MARK Url p r
        in url_char p ch (if p_method (parser r1) = HTTP_CONNECT then to_state s_req_server_start r1 else r1))"

definition schema_step :: "nat \<Rightarrow> char \<Rightarrow> 'o run \<Rightarrow> 'o outcome option" where
  "schema_step p ch r =
     (if ch = CHR '' '' \<or> ch = CR \<or> ch = LF then fail HPE_INVALID_URL p r else url_char p ch r)"

definition url_step :: "'o http_parser_settings \<Rightarrow> string \<Rightarrow> nat \<Rightarrow> char \<Rightarrow> 'o run \<Rightarrow> 'o outcome option" where
  "url_step S mem p ch r =
     (if ch = CHR '' '' then CALLBACK_DATA S mem Url p (to_state s_req_http_start r)
      else if ch = CR \<or> ch = LF then
        CALLBACK_DATA S mem Url p (set_parser (\<lambda>q. q\<lparr>http_major := 0, http_minor := 9,
          p_state := (if ch = CR then s_req_line_almost_done else s_header_field_start)\<rparr>) r)
      else url_char p ch r)"

definition req_http_start_step :: "nat \<Rightarrow> char \<Rightarrow> 'o run \<Rightarrow> 'o outcome option" where
  "req_http_start_step p ch r =
     (if ch = CHR ''H'' then next_state s_req_http_H p r
      else if ch = CHR '' '' then break p r
      else fail HPE_INVALID_CONSTANT p r)"

definition req_http_minor_step :: "nat \<Rightarrow> char \<Rightarrow> 'o run \<Rightarrow> 'o outcome option" where
  "req_http_minor_step p ch r =
     (if ch = CR then next_state s_req_line_almost_done p r
      else if ch = LF then next_state s_header_field_start p r
      else minor_digit_step p ch r)"

definition req_line_almost_done_step :: "nat \<Rightarrow> char \<Rightarrow> 'o run \<Rightarrow> 'o outcome option" where
  "req_line_almost_done_step p ch r =
     (if ch \<noteq> LF then fail HPE_LF_EXPECTED p r else next_state s_header_field_start p r)"

subsection \<open>Headers\<close>

definition header_field_start_step :: "nat \<Rightarrow> char \<Rightarrow> 'o run \<Rightarrow> 'o outcome option" where
  "header_field_start_step p ch r =
     (if ch = CR then next_state s_headers_almost_done p r
      else if ch = LF then Some (Reexecute p (to_state s_headers_almost_done r))
      else let c = TOKEN ch
        in if c = NUL then fail HPE_INVALID_HEADER_TOKEN p r
           else break p (set_parser (\<lambda>q. q\<lparr>p_index := 0, p_state := s_header_field,
             header_state :=
               (if c = CHR ''c'' then h_C
                else if c = CHR ''p'' then h_matching_proxy_connection
                else if c = CHR ''t'' then h_matching_transfer_encoding
                else if c = CHR ''u'' then h_matching_upgrade
                else h_general)\<rparr>) (MARK Header_field p r)))"

text \<open>One more byte of a word: \<open>i\<close> is the index already incremented.\<close>

definition match_word :: "string \<Rightarrow> header_states \<Rightarrow> header_states \<Rightarrow> nat \<Rightarrow> char \<Rightarrow> header_states" where
  "match_word w matching matched i c =
     (if length w < i \<or> c \<noteq> (w @ [NUL]) ! i then h_general
      else if i = length w - 1 then matched
      else matching)"

definition match_field :: "header_states \<Rightarrow> nat \<Rightarrow> char \<Rightarrow> (header_states \<times> nat) option" where
  "match_field h index ch =
     (let c = TOKEN ch; i = u8 (index + 1) in case h of
        h_general \<Rightarrow> Some (h_general, index)
      | h_C \<Rightarrow> Some (if c = CHR ''o'' then h_CO else h_general, i)
      | h_CO \<Rightarrow> Some (if c = CHR ''n'' then h_CON else h_general, i)
      | h_CON \<Rightarrow> Some (if c = CHR ''n'' then h_matching_connection
                      else if c = CHR ''t'' then h_matching_content_length else h_general, i)
      | h_matching_connection \<Rightarrow> Some (match_word ''connection'' h h_connection i c, i)
      | h_matching_proxy_connection \<Rightarrow> Some (match_word ''proxy-connection'' h h_connection i c, i)
      | h_matching_content_length \<Rightarrow> Some (match_word ''content-length'' h h_content_length i c, i)
      | h_matching_transfer_encoding \<Rightarrow> Some (match_word ''transfer-encoding'' h h_transfer_encoding i c, i)
      | h_matching_upgrade \<Rightarrow> Some (match_word ''upgrade'' h h_upgrade i c, i)
      | h_connection \<Rightarrow> Some (if ch \<noteq> CHR '' '' then h_general else h, index)
      | h_content_length \<Rightarrow> Some (if ch \<noteq> CHR '' '' then h_general else h, index)
      | h_transfer_encoding \<Rightarrow> Some (if ch \<noteq> CHR '' '' then h_general else h, index)
      | h_upgrade \<Rightarrow> Some (if ch \<noteq> CHR '' '' then h_general else h, index)
      | _ \<Rightarrow> None)"

definition header_field_step :: "'o http_parser_settings \<Rightarrow> string \<Rightarrow> nat \<Rightarrow> char \<Rightarrow> 'o run \<Rightarrow> 'o outcome option" where
  "header_field_step S mem p ch r =
     (if TOKEN ch \<noteq> NUL then do {
        (h, i) \<leftarrow> match_field (header_state (parser r)) (p_index (parser r)) ch;
        break p (set_parser (\<lambda>q. q\<lparr>header_state := h, p_index := i\<rparr>) r)
      }
      else if ch = CHR '':'' then CALLBACK_DATA S mem Header_field p (to_state s_header_value_start r)
      else if ch = CR then CALLBACK_DATA S mem Header_field p (to_state s_header_almost_done r)
      else if ch = LF then CALLBACK_DATA S mem Header_field p (to_state s_header_field_start r)
      else fail HPE_INVALID_HEADER_TOKEN p r)"

definition header_value_start_step ::
  "'o http_parser_settings \<Rightarrow> string \<Rightarrow> nat \<Rightarrow> char \<Rightarrow> 'o run \<Rightarrow> 'o outcome option" where
  "header_value_start_step S mem p ch r =
     (if ch = CHR '' '' \<or> ch = TAB then break p r
      else
        let r1 = set_parser (\<lambda>q. q\<lparr>p_state := s_header_value, p_index := 0\<rparr>) (MARK Header_value p r);
            h = header_state (parser r1); c = LOWER ch;
            become = (\<lambda>h'. break p (set_parser (\<lambda>q. q\<lparr>header_state := h'\<rparr>) r1))
        in if ch = CR then
             CALLBACK_DATA S mem Header_value p
               (set_parser (\<lambda>q. q\<lparr>header_state := h_general, p_state := s_header_almost_done\<rparr>) r1)
           else if ch = LF then CALLBACK_DATA S mem Header_value p (to_state s_header_field_start r1)
           else case h of
             h_upgrade \<Rightarrow>
               break p (set_parser (\<lambda>q. q\<lparr>p_flags := insert F_UPGRADE (p_flags q), header_state := h_general\<rparr>) r1)
           | h_transfer_encoding \<Rightarrow>
               become (if c = CHR ''c'' then h_matching_transfer_encoding_chunked else h_general)
           | h_content_length \<Rightarrow>
               if \<not> IS_NUM ch then fail HPE_INVALID_CONTENT_LENGTH p r1
               else break p (set_parser (\<lambda>q. q\<lparr>content_length := digit_val ch\<rparr>) r1)
           | h_connection \<Rightarrow>
               become (if c = CHR ''k'' then h_matching_connection_keep_alive
                       else if c = CHR ''c'' then h_matching_connection_close else h_general)
           | _ \<Rightarrow> become h_general)"

definition header_value_step ::
  "'o http_parser_settings \<Rightarrow> string \<Rightarrow> nat \<Rightarrow> char \<Rightarrow> 'o run \<Rightarrow> 'o outcome option" where
  "header_value_step S mem p ch r =
     (if ch = CR then CALLBACK_DATA S mem Header_value p (to_state s_header_almost_done r)
      else if ch = LF then
        callback_data S mem Header_value p p (to_state s_header_almost_done r) (\<lambda>r1. Some (Reexecute p r1))
      else
        let c = LOWER ch; h = header_state (parser r); i = u8 (p_index (parser r) + 1);
            become = (\<lambda>h'. break p (set_parser (\<lambda>q. q\<lparr>header_state := h'\<rparr>) r));
            word = (\<lambda>w matched. break p (set_parser (\<lambda>q. q\<lparr>p_index := i, header_state := match_word w h matched i c\<rparr>) r))
        in case h of
          h_general \<Rightarrow> break p r
        | h_connection \<Rightarrow> None
        | h_transfer_encoding \<Rightarrow> None
        | h_content_length \<Rightarrow>
            if ch = CHR '' '' then break p r
            else if \<not> IS_NUM ch then fail HPE_INVALID_CONTENT_LENGTH p r
            else let t = u64 (u64 (content_length (parser r) * 10) + digit_val ch)
              in if t < content_length (parser r) \<or> t = ULLONG_MAX then fail HPE_INVALID_CONTENT_LENGTH p r
                 else break p (set_parser (\<lambda>q. q\<lparr>content_length := t\<rparr>) r)
        | h_matching_transfer_encoding_chunked \<Rightarrow> word ''chunked'' h_transfer_encoding_chunked
        | h_matching_connection_keep_alive \<Rightarrow> word ''keep-alive'' h_connection_keep_alive
        | h_matching_connection_close \<Rightarrow> word ''close'' h_connection_close
        | h_transfer_encoding_chunked \<Rightarrow> become (if ch \<noteq> CHR '' '' then h_general else h)
        | h_connection_keep_alive \<Rightarrow> become (if ch \<noteq> CHR '' '' then h_general else h)
        | h_connection_close \<Rightarrow> become (if ch \<noteq> CHR '' '' then h_general else h)
        | _ \<Rightarrow> break p (set_parser (\<lambda>q. q\<lparr>p_state := s_header_value, header_state := h_general\<rparr>) r))"

definition value_flag :: "header_states \<Rightarrow> http_flag set" where
  "value_flag h = (case h of
      h_connection_keep_alive \<Rightarrow> {F_CONNECTION_KEEP_ALIVE}
    | h_connection_close \<Rightarrow> {F_CONNECTION_CLOSE}
    | h_transfer_encoding_chunked \<Rightarrow> {F_CHUNKED}
    | _ \<Rightarrow> {})"

definition header_almost_done_step :: "nat \<Rightarrow> char \<Rightarrow> 'o run \<Rightarrow> 'o outcome option" where
  "header_almost_done_step p ch r =
     STRICT_CHECK (ch \<noteq> LF) p r
       (break p (set_parser (\<lambda>q. q\<lparr>p_state := s_header_value_lws, p_flags := p_flags q \<union> value_flag (header_state q)\<rparr>) r))"

definition header_value_lws_step :: "nat \<Rightarrow> char \<Rightarrow> 'o run \<Rightarrow> 'o outcome option" where
  "header_value_lws_step p ch r =
     (if ch = CHR '' '' \<or> ch = TAB then next_state s_header_value_start p r
      else Some (Reexecute p (to_state s_header_field_start r)))"

text \<open>\<open>on_headers_complete\<close> may answer 1, which says that there is no body.\<close>

definition headers_complete :: "'o http_parser_settings \<Rightarrow> nat \<Rightarrow> 'o run \<Rightarrow> 'o outcome option" where
  "headers_complete S p r =
     (case on_headers_complete S of
        None \<Rightarrow> (if http_errno (parser r) \<noteq> HPE_OK then Some (Return p r) else Some (Reexecute p r))
      | Some f \<Rightarrow> do {
          (ret, paused, ob) \<leftarrow> f (parser r) (object r);
          q \<leftarrow> (if paused then http_parser_pause (parser r) True else Some (parser r));
          let r1 = r\<lparr>object := ob, parser := q\<rparr>;
          if ret \<noteq> 0 \<and> ret \<noteq> 1 then Some (Return p (SET_ERRNO HPE_CB_headers_complete r1))
          else
            let r2 = (if ret = 1 then set_parser (\<lambda>q. q\<lparr>p_flags := insert F_SKIPBODY (p_flags q)\<rparr>) r1 else r1)
            in if http_errno (parser r2) \<noteq> HPE_OK then Some (Return p r2) else Some (Reexecute p r2)
        })"

definition headers_almost_done_step :: "'o http_parser_settings \<Rightarrow> nat \<Rightarrow> char \<Rightarrow> 'o run \<Rightarrow> 'o outcome option" where
  "headers_almost_done_step S p ch r =
     STRICT_CHECK (ch \<noteq> LF) p r
       (if F_TRAILING \<in> p_flags (parser r) then NOTIFY S Message_complete p (to_state (NEW_MESSAGE (parser r)) r)
        else headers_complete S p (set_parser (\<lambda>q. q\<lparr>p_state := s_headers_done,
          upgrade := (F_UPGRADE \<in> p_flags q \<or> p_method q = HTTP_CONNECT)\<rparr>) r))"

definition headers_done_step :: "'o http_parser_settings \<Rightarrow> nat \<Rightarrow> char \<Rightarrow> 'o run \<Rightarrow> 'o outcome option" where
  "headers_done_step S p ch r =
     STRICT_CHECK (ch \<noteq> LF) p r
       (let r1 = set_parser (\<lambda>q. q\<lparr>nread := 0\<rparr>) r;
            q = parser r1;
            complete = to_state (NEW_MESSAGE q) r1
        in if upgrade q then callback_notify S Message_complete (p + 1) complete (\<lambda>r2. Some (Return (p + 1) r2))
           else if F_SKIPBODY \<in> p_flags q then NOTIFY S Message_complete p complete
           else if F_CHUNKED \<in> p_flags q then next_state s_chunk_size_start p r1
           else if content_length q = 0 then NOTIFY S Message_complete p complete
           else if content_length q \<noteq> ULLONG_MAX then next_state s_body_identity p r1
           else if p_type q = HTTP_REQUEST \<or> \<not> http_message_needs_eof q then NOTIFY S Message_complete p complete
           else next_state s_body_identity_eof p r1)"

subsection \<open>Bodies\<close>

text \<open>As much of the body as there is: \<open>p\<close> is moved to the last byte taken.\<close>

definition take_body :: "nat \<Rightarrow> nat \<Rightarrow> 'o run \<Rightarrow> (nat \<times> 'o run) option" where
  "take_body len p r =
     (let n = content_length (parser r); to_read = min n (len - p)
      in if n = 0 \<or> n = ULLONG_MAX then None
         else Some (p + to_read - 1, set_parser (\<lambda>q. q\<lparr>content_length := n - to_read\<rparr>) (MARK Body p r)))"

definition body_identity_step ::
  "'o http_parser_settings \<Rightarrow> string \<Rightarrow> nat \<Rightarrow> nat \<Rightarrow> 'o run \<Rightarrow> 'o outcome option" where
  "body_identity_step S mem len p r =
     do {
       (p1, r1) \<leftarrow> take_body len p r;
       if content_length (parser r1) = 0 then
         callback_data S mem Body (p1 + 1) p1 (to_state s_message_done r1) (\<lambda>r2. Some (Reexecute p1 r2))
       else break p1 r1
     }"

definition body_identity_eof_step :: "nat \<Rightarrow> nat \<Rightarrow> 'o run \<Rightarrow> 'o outcome option" where
  "body_identity_eof_step len p r = break (len - 1) (MARK Body p r)"

definition message_done_step :: "'o http_parser_settings \<Rightarrow> nat \<Rightarrow> 'o run \<Rightarrow> 'o outcome option" where
  "message_done_step S p r = NOTIFY S Message_complete p (to_state (NEW_MESSAGE (parser r)) r)"

definition chunk_size_start_step :: "nat \<Rightarrow> char \<Rightarrow> 'o run \<Rightarrow> 'o outcome option" where
  "chunk_size_start_step p ch r =
     (if nread (parser r) \<noteq> 1 \<or> F_CHUNKED \<notin> p_flags (parser r) then None
      else if unhex_at ch = -1 then fail HPE_INVALID_CHUNK_SIZE p r
      else break p (set_parser (\<lambda>q. q\<lparr>content_length := nat (unhex_at ch), p_state := s_chunk_size\<rparr>) r))"

definition chunk_size_step :: "nat \<Rightarrow> char \<Rightarrow> 'o run \<Rightarrow> 'o outcome option" where
  "chunk_size_step p ch r =
     (if F_CHUNKED \<notin> p_flags (parser r) then None
      else if ch = CR then next_state s_chunk_size_almost_done p r
      else if unhex_at ch = -1 then
        (if ch = CHR '';'' \<or> ch = CHR '' '' then next_state s_chunk_parameters p r else fail HPE_INVALID_CHUNK_SIZE p r)
      else let t = u64 (u64 (content_length (parser r) * 16) + nat (unhex_at ch))
        in if t < content_length (parser r) \<or> t = ULLONG_MAX then fail HPE_INVALID_CONTENT_LENGTH p r
           else break p (set_parser (\<lambda>q. q\<lparr>content_length := t\<rparr>) r))"

definition chunk_parameters_step :: "nat \<Rightarrow> char \<Rightarrow> 'o run \<Rightarrow> 'o outcome option" where
  "chunk_parameters_step p ch r =
     (if F_CHUNKED \<notin> p_flags (parser r) then None
      else if ch = CR then next_state s_chunk_size_almost_done p r
      else break p r)"

definition chunk_size_almost_done_step :: "nat \<Rightarrow> char \<Rightarrow> 'o run \<Rightarrow> 'o outcome option" where
  "chunk_size_almost_done_step p ch r =
     (if F_CHUNKED \<notin> p_flags (parser r) then None
      else STRICT_CHECK (ch \<noteq> LF) p r
        (if content_length (parser r) = 0
         then break p (set_parser (\<lambda>q. q\<lparr>nread := 0, p_flags := insert F_TRAILING (p_flags q), p_state := s_header_field_start\<rparr>) r)
         else break p (set_parser (\<lambda>q. q\<lparr>nread := 0, p_state := s_chunk_data\<rparr>) r)))"

definition chunk_data_step :: "nat \<Rightarrow> nat \<Rightarrow> 'o run \<Rightarrow> 'o outcome option" where
  "chunk_data_step len p r =
     (if F_CHUNKED \<notin> p_flags (parser r) then None
      else do {
        (p1, r1) \<leftarrow> take_body len p r;
        if content_length (parser r1) = 0 then next_state s_chunk_data_almost_done p1 r1 else break p1 r1
      })"

definition chunk_data_almost_done_step ::
  "'o http_parser_settings \<Rightarrow> string \<Rightarrow> nat \<Rightarrow> char \<Rightarrow> 'o run \<Rightarrow> 'o outcome option" where
  "chunk_data_almost_done_step S mem p ch r =
     (if F_CHUNKED \<notin> p_flags (parser r) \<or> content_length (parser r) \<noteq> 0 then None
      else STRICT_CHECK (ch \<noteq> CR) p r (CALLBACK_DATA S mem Body p (to_state s_chunk_data_done r)))"

definition chunk_data_done_step :: "nat \<Rightarrow> char \<Rightarrow> 'o run \<Rightarrow> 'o outcome option" where
  "chunk_data_done_step p ch r =
     (if F_CHUNKED \<notin> p_flags (parser r) then None
      else STRICT_CHECK (ch \<noteq> LF) p r (break p (set_parser (\<lambda>q. q\<lparr>nread := 0, p_state := s_chunk_size_start\<rparr>) r)))"

subsection \<open>The switch\<close>

definition byte_step ::
  "'o http_parser_settings \<Rightarrow> string \<Rightarrow> nat \<Rightarrow> char \<Rightarrow> nat \<Rightarrow> 'o run \<Rightarrow> 'o outcome option" where
  "byte_step S mem len ch p r = (case p_state (parser r) of
      s_dead \<Rightarrow> dead_step p ch r
    | s_start_req_or_res \<Rightarrow> start_req_or_res_step S p ch r
    | s_res_or_resp_H \<Rightarrow> res_or_resp_H_step p ch r
    | s_start_res \<Rightarrow> start_res_step S p ch r
    | s_res_H \<Rightarrow> strict_step (CHR ''T'') s_res_HT p ch r
    | s_res_HT \<Rightarrow> strict_step (CHR ''T'') s_res_HTT p ch r
    | s_res_HTT \<Rightarrow> strict_step (CHR ''P'') s_res_HTTP p ch r
    | s_res_HTTP \<Rightarrow> strict_step (CHR ''/'') s_res_first_http_major p ch r
    | s_res_first_http_major \<Rightarrow> first_major_step (CHR ''0'') s_res_http_major p ch r
    | s_res_http_major \<Rightarrow> major_step s_res_first_http_minor p ch r
    | s_res_first_http_minor \<Rightarrow> first_minor_step s_res_http_minor p ch r
    | s_res_http_minor \<Rightarrow> res_http_minor_step p ch r
    | s_res_first_status_code \<Rightarrow> first_status_code_step p ch r
    | s_res_status_code \<Rightarrow> status_code_step p ch r
    | s_res_status \<Rightarrow> res_status_step p ch r
    | s_res_line_almost_done \<Rightarrow> res_line_almost_done_step S p ch r
    | s_start_req \<Rightarrow> start_req_step S p ch r
    | s_req_method \<Rightarrow> req_method_step p ch r
    | s_req_spaces_before_url \<Rightarrow> spaces_before_url_step p ch r
    | s_req_schema \<Rightarrow> schema_step p ch r
    | s_req_schema_slash \<Rightarrow> schema_step p ch r
    | s_req_schema_slash_slash \<Rightarrow> schema_step p ch r
    | s_req_server_start \<Rightarrow> schema_step p ch r
    | s_req_server \<Rightarrow> url_step S mem p ch r
    | s_req_server_with_at \<Rightarrow> url_step S mem p ch r
    | s_req_path \<Rightarrow> url_step S mem p ch r
    | s_req_query_string_start \<Rightarrow> url_step S mem p ch r
    | s_req_query_string \<Rightarrow> url_step S mem p ch r
    | s_req_fragment_start \<Rightarrow> url_step S mem p ch r
    | s_req_fragment \<Rightarrow> url_step S mem p ch r
    | s_req_http_start \<Rightarrow> req_http_start_step p ch r
    | s_req_http_H \<Rightarrow> strict_step (CHR ''T'') s_req_http_HT p ch r
    | s_req_http_HT \<Rightarrow> strict_step (CHR ''T'') s_req_http_HTT p ch r
    | s_req_http_HTT \<Rightarrow> strict_step (CHR ''P'') s_req_http_HTTP p ch r
    | s_req_http_HTTP \<Rightarrow> strict_step (CHR ''/'') s_req_first_http_major p ch r
    | s_req_first_http_major \<Rightarrow> first_major_step (CHR ''1'') s_req_http_major p ch r
    | s_req_http_major \<Rightarrow> major_step s_req_first_http_minor p ch r
    | s_req_first_http_minor \<Rightarrow> first_minor_step s_req_http_minor p ch r
    | s_req_http_minor \<Rightarrow> req_http_minor_step p ch r
    | s_req_line_almost_done \<Rightarrow> req_line_almost_done_step p ch r
    | s_header_field_start \<Rightarrow> header_field_start_step p ch r
    | s_header_field \<Rightarrow> header_field_step S mem p ch r
    | s_header_value_start \<Rightarrow> header_value_start_step S mem p ch r
    | s_header_value \<Rightarrow> header_value_step S mem p ch r
    | s_header_almost_done \<Rightarrow> header_almost_done_step p ch r
    | s_header_value_lws \<Rightarrow> header_value_lws_step p ch r
    | s_headers_almost_done \<Rightarrow> headers_almost_done_step S p ch r
    | s_headers_done \<Rightarrow> headers_done_step S p ch r
    | s_body_identity \<Rightarrow> body_identity_step S mem len p r
    | s_body_identity_eof \<Rightarrow> body_identity_eof_step len p r
    | s_message_done \<Rightarrow> message_done_step S p r
    | s_chunk_size_start \<Rightarrow> chunk_size_start_step p ch r
    | s_chunk_size \<Rightarrow> chunk_size_step p ch r
    | s_chunk_parameters \<Rightarrow> chunk_parameters_step p ch r
    | s_chunk_size_almost_done \<Rightarrow> chunk_size_almost_done_step p ch r
    | s_chunk_data \<Rightarrow> chunk_data_step len p r
    | s_chunk_data_almost_done \<Rightarrow> chunk_data_almost_done_step S mem p ch r
    | s_chunk_data_done \<Rightarrow> chunk_data_done_step p ch r)"

text \<open>How often a byte can still be executed again.\<close>

definition rank :: "http_state \<Rightarrow> nat" where
  "rank s = (case s of
      s_start_req_or_res \<Rightarrow> 1 | s_header_value \<Rightarrow> 1 | s_header_value_lws \<Rightarrow> 3 | s_header_field_start \<Rightarrow> 2
    | s_headers_almost_done \<Rightarrow> 1 | s_body_identity \<Rightarrow> 1 | _ \<Rightarrow> 0)"

lemmas step_defs =
  dead_step_def start_req_or_res_step_def res_or_resp_H_step_def start_res_step_def strict_step_def first_major_step_def
  major_step_def first_minor_step_def minor_digit_step_def res_http_minor_step_def first_status_code_step_def
  status_code_step_def res_status_step_def res_line_almost_done_step_def start_req_step_def req_method_step_def
  url_char_def spaces_before_url_step_def schema_step_def url_step_def req_http_start_step_def req_http_minor_step_def
  req_line_almost_done_step_def header_field_start_step_def header_field_step_def header_value_start_step_def
  header_value_step_def header_almost_done_step_def header_value_lws_step_def
  headers_almost_done_step_def headers_done_step_def body_identity_step_def body_identity_eof_step_def
  message_done_step_def chunk_size_start_step_def chunk_size_step_def chunk_parameters_step_def
  chunk_size_almost_done_step_def chunk_data_step_def chunk_data_almost_done_step_def chunk_data_done_step_def

lemmas macro_defs = STRICT_CHECK_def NOTIFY_def CALLBACK_DATA_def next_state_def to_state_def fail_def SET_ERRNO_def set_parser_def
end
