(* ===== verification/Http_Execute.thy ===== *)
theory Http_Execute
  imports Http_Parser
begin

text \<open>
  \<open>http_parser_execute\<close> of \<open>http_parser.cc\<close>: the loop over the bytes of a call, and what it calls back at the end.
\<close>

section \<open>Callbacks change only the error and the object\<close>

lemma call_back_parser:
  assumes "call_back f e r = Some r1" "http_errno (parser r) = HPE_OK"
  shows "parser r1 = (parser r)\<lparr>http_errno := http_errno (parser r1)\<rparr>" "marks r1 = marks r"
  using assms by (auto simp: call_back_def http_parser_pause_def bind_eq_Some_conv split: if_splits)

lemma callback_notifyE:
  assumes "callback_notify S ev er r next = Some x"
  obtains (returns) r1 e where "x = Return er r1" "parser r1 = (parser r)\<lparr>http_errno := e\<rparr>" "e \<noteq> HPE_OK"
    | (goes_on) r1 where "next r1 = Some x" "parser r1 = parser r" "marks r1 = marks r" "http_errno (parser r) = HPE_OK"
proof -
  have ok: "http_errno (parser r) = HPE_OK" using assms by (auto simp: callback_notify_def split: if_splits)
  show thesis
  proof (cases "notify_cb ev S")
    case None
    with assms ok show ?thesis by (intro goes_on [of r]) (simp_all add: callback_notify_def)
  next
    case (Some f)
    with assms ok obtain r1 where r1: "call_back f (notify_error ev) r = Some r1"
      "(if http_errno (parser r1) \<noteq> HPE_OK then Some (Return er r1) else next r1) = Some x"
      by (auto simp: callback_notify_def bind_eq_Some_conv)
    note same = call_back_parser [OF r1(1) ok]
    show ?thesis
    proof (cases "http_errno (parser r1) = HPE_OK")
      case True
      then have "parser r1 = parser r" using same(1) ok by (metis http_parser.surjective http_parser.update_convs(12))
      with True r1(2) same(2) ok show ?thesis by (intro goes_on [of r1]) simp_all
    next
      case False
      with r1(2) same(1) show ?thesis by (intro returns [of r1 "http_errno (parser r1)"]) simp_all
    qed
  qed
qed

lemma callback_dataE:
  assumes "callback_data S mem ev stop er r next = Some x"
  obtains (returns) r1 e where "x = Return er r1" "parser r1 = (parser r)\<lparr>http_errno := e\<rparr>" "e \<noteq> HPE_OK"
    | (goes_on) r1 where "next r1 = Some x" "parser r1 = parser r" "marks r1 = (marks r)(ev := None)" "http_errno (parser r) = HPE_OK"
proof -
  have ok: "http_errno (parser r) = HPE_OK" using assms by (auto simp: callback_data_def split: if_splits)
  show thesis
  proof (cases "marks r ev")
    case None
    then have "(marks r)(ev := None) = marks r" by (metis fun_upd_triv)
    with None assms ok show ?thesis by (intro goes_on [of r]) (simp_all add: callback_data_def)
  next
    case m: (Some m)
    show ?thesis
    proof (cases "data_cb ev S")
      case None
      with m assms ok show ?thesis by (intro goes_on [of "r\<lparr>marks := (marks r)(ev := None)\<rparr>"]) (simp_all add: callback_data_def)
    next
      case (Some f)
      let ?f = "\<lambda>p. f p (drop m mem) (stop - m)"
      from Some m assms ok obtain r1 where r1: "call_back ?f (data_error ev) r = Some r1"
        "(if http_errno (parser r1) \<noteq> HPE_OK then Some (Return er r1) else next (r1\<lparr>marks := (marks r1)(ev := None)\<rparr>)) = Some x"
        by (auto simp: callback_data_def bind_eq_Some_conv)
      note same = call_back_parser [OF r1(1) ok]
      show ?thesis
      proof (cases "http_errno (parser r1) = HPE_OK")
        case True
        then have "parser r1 = parser r" using same(1) ok by (metis http_parser.surjective http_parser.update_convs(12))
        with True r1(2) same(2) ok show ?thesis
          by (intro goes_on [of "r1\<lparr>marks := (marks r1)(ev := None)\<rparr>"]) simp_all
      next
        case False
        with r1(2) same(1) show ?thesis by (intro returns [of r1 "http_errno (parser r1)"]) simp_all
      qed
    qed
  qed
qed

lemma headers_completeE:
  assumes "headers_complete S p r = Some x"
  obtains (returns) r1 e fl where "x = Return p r1" "parser r1 = (parser r)\<lparr>http_errno := e, p_flags := fl\<rparr>"
      "e \<noteq> HPE_OK" "fl = p_flags (parser r) \<or> fl = insert F_SKIPBODY (p_flags (parser r))"
    | (goes_on) r1 fl where "x = Reexecute p r1" "parser r1 = (parser r)\<lparr>p_flags := fl\<rparr>" "marks r1 = marks r"
      "http_errno (parser r) = HPE_OK" "fl = p_flags (parser r) \<or> fl = insert F_SKIPBODY (p_flags (parser r))"
proof (cases "on_headers_complete S")
  case None
  with assms returns [of r "p_flags (parser r)" "http_errno (parser r)"] goes_on [of r "p_flags (parser r)"] show ?thesis
    by (auto simp: headers_complete_def split: if_splits)
next
  case (Some f)
  with assms obtain ret :: int and paused ob q where q:
    "(if paused then http_parser_pause (parser r) True else Some (parser r)) = Some q"
    and x: "(let r1 = r\<lparr>object := ob, parser := q\<rparr>
       in if ret \<noteq> 0 \<and> ret \<noteq> 1 then Some (Return p (SET_ERRNO HPE_CB_headers_complete r1))
          else let r2 = (if ret = 1 then set_parser (\<lambda>q. q\<lparr>p_flags := insert F_SKIPBODY (p_flags q)\<rparr>) r1 else r1)
            in if http_errno (parser r2) \<noteq> HPE_OK then Some (Return p r2) else Some (Reexecute p r2)) = Some x"
    by (auto simp: headers_complete_def bind_eq_Some_conv)
  have same: "q = (parser r)\<lparr>http_errno := http_errno q\<rparr>"
    using q by (auto simp: http_parser_pause_def split: if_splits)
  have ok: "http_errno q = HPE_OK \<Longrightarrow> q = parser r"
    using q by (auto simp: http_parser_pause_def split: if_splits)
  show ?thesis
  proof (cases "(ret = 0 \<or> ret = 1) \<and> http_errno q = HPE_OK")
    case True
    with x ok goes_on [of "r\<lparr>object := ob\<rparr>" "p_flags (parser r)"]
      goes_on [of "r\<lparr>object := ob, parser := (parser r)\<lparr>p_flags := insert F_SKIPBODY (p_flags (parser r))\<rparr>\<rparr>"
        "insert F_SKIPBODY (p_flags (parser r))"]
    show ?thesis by (auto simp: Let_def set_parser_def split: if_splits)
  next
    case False
    obtain e where e: "q = (parser r)\<lparr>http_errno := e\<rparr>" using same by blast
    from False x show ?thesis unfolding e
      by (intro returns [of "case x of Return n r1 \<Rightarrow> r1" "p_flags (parser (case x of Return n r1 \<Rightarrow> r1))"
            "http_errno (parser (case x of Return n r1 \<Rightarrow> r1))"])
        (auto simp: Let_def set_parser_def SET_ERRNO_def split: if_splits)
  qed
qed

section \<open>Executing a byte\<close>

text \<open>Only six states execute their byte again, each in a state of smaller rank and not before the byte.\<close>

lemma no_reexecute [simp]:
  "callback_notify S ev er r (break p) \<noteq> Some (Reexecute p' r')"
  "callback_notify S ev er r (\<lambda>r2. Some (Return q r2)) \<noteq> Some (Reexecute p' r')"
  "callback_data S mem dev stop er r (break p) \<noteq> Some (Reexecute p' r')"
  by (auto elim!: callback_notifyE callback_dataE)

lemma reexecuted:
  assumes "byte_step S mem len ch p r = Some (Reexecute p' r')"
  shows "rank (p_state (parser r')) < rank (p_state (parser r)) \<and> p \<le> p'"
  using assms
  apply (cases "p_state (parser r)")
  apply (simp_all only: byte_step_def rank_def http_state.case)
  by (auto simp: step_defs macro_defs rank_def Let_def bind_eq_Some_conv take_body_def
      split: if_splits option.splits prod.splits header_states.splits elim!: callback_dataE headers_completeE)

text \<open>Where a byte leaves off: inside the data, and never before the byte.\<close>

definition within :: "nat \<Rightarrow> nat \<Rightarrow> 'o outcome \<Rightarrow> bool" where
  "within len p x = (case x of
      Advance p1 r \<Rightarrow> p \<le> p1 \<and> p1 < len
    | Reexecute p1 r \<Rightarrow> p \<le> p1 \<and> p1 < len
    | Return n r \<Rightarrow> p \<le> n \<and> n \<le> len
    | Goto_error p1 r \<Rightarrow> p \<le> p1 \<and> p1 < len)"

lemma within_simps [simp]:
  "within len p (Advance p1 r) \<longleftrightarrow> p \<le> p1 \<and> p1 < len"
  "within len p (Reexecute p1 r) \<longleftrightarrow> p \<le> p1 \<and> p1 < len"
  "within len p (Return n r) \<longleftrightarrow> p \<le> n \<and> n \<le> len"
  "within len p (Goto_error p1 r) \<longleftrightarrow> p \<le> p1 \<and> p1 < len"
  by (simp_all add: within_def)

lemma byte_step_within:
  assumes "byte_step S mem len ch p r = Some x" "p < len"
  shows "within len p x"
  using assms
  apply (cases "p_state (parser r)")
  apply (simp_all only: byte_step_def http_state.case)
  by (auto simp: step_defs macro_defs Let_def bind_eq_Some_conv take_body_def
      split: if_splits option.splits prod.splits header_states.splits
      elim!: callback_dataE callback_notifyE headers_completeE)

section \<open>The loop\<close>

function exec_byte ::
  "'o http_parser_settings \<Rightarrow> string \<Rightarrow> nat \<Rightarrow> char \<Rightarrow> nat \<Rightarrow> 'o run \<Rightarrow> 'o outcome option" where
  "exec_byte S mem len ch p r =
     (case byte_step S mem len ch p r of
        None \<Rightarrow> None
      | Some (Reexecute p1 r1) \<Rightarrow> exec_byte S mem len ch p1 r1
      | Some x \<Rightarrow> Some x)"
  by pat_completeness auto

termination
  by (relation "measure (\<lambda>(S, mem, len, ch, p, r). rank (p_state (parser r)))") (auto dest: reexecuted)

declare exec_byte.simps [simp del]

lemma exec_byte_within:
  "exec_byte S mem len ch p r = Some x \<Longrightarrow> p < len \<Longrightarrow> within len p x \<and> (\<forall>p1 r1. x \<noteq> Reexecute p1 r1)"
proof (induction S mem len ch p r rule: exec_byte.induct)
  case (1 S mem len ch p r)
  from 1(2) obtain y where y: "byte_step S mem len ch p r = Some y"
    by (auto simp: exec_byte.simps [of S mem len ch p r] split: option.splits)
  note w = byte_step_within [OF y 1(3)]
  show ?case
  proof (cases y)
    case (Reexecute p1 r1)
    with 1(2) y have "exec_byte S mem len ch p1 r1 = Some x" by (simp add: exec_byte.simps [of S mem len ch p r])
    from 1(1) [OF y Reexecute this] w Reexecute have "within len p1 x \<and> (\<forall>p1 r1. x \<noteq> Reexecute p1 r1)" by simp
    with w Reexecute show ?thesis by (cases x) auto
  qed (use 1(2) y w in \<open>auto simp: exec_byte.simps [of S mem len ch p r]\<close>)
qed

text \<open>The bytes of a header are counted, and limited.\<close>

definition count_byte :: "'o run \<Rightarrow> 'o run" where
  "count_byte r = (if PARSING_HEADER (p_state (parser r)) then set_parser (\<lambda>q. q\<lparr>nread := u32 (nread q + 1)\<rparr>) r else r)"

definition header_overflow :: "'o run \<Rightarrow> bool" where
  "header_overflow r \<longleftrightarrow> PARSING_HEADER (p_state (parser r)) \<and> HTTP_MAX_HEADER_SIZE < nread (parser r)"

definition flush_marks :: "'o http_parser_settings \<Rightarrow> string \<Rightarrow> nat \<Rightarrow> 'o run \<Rightarrow> 'o outcome option" where
  "flush_marks S mem len r =
     (if 1 < length (filter (\<lambda>ev. marks r ev \<noteq> None) [Header_field, Header_value, Url, Body]) then None
      else callback_data S mem Header_field len len r (\<lambda>r.
        callback_data S mem Header_value len len r (\<lambda>r.
        callback_data S mem Url len len r (\<lambda>r.
        callback_data S mem Body len len r (\<lambda>r. Some (Return len r))))))"

function exec_loop :: "'o http_parser_settings \<Rightarrow> string \<Rightarrow> nat \<Rightarrow> nat \<Rightarrow> 'o run \<Rightarrow> 'o outcome option" where
  "exec_loop S mem len p r =
     (if len \<le> p then flush_marks S mem len r
      else if header_overflow (count_byte r) then fail HPE_HEADER_OVERFLOW p (count_byte r)
      else case exec_byte S mem len (mem ! p) p (count_byte r) of
        None \<Rightarrow> None
      | Some (Advance p1 r1) \<Rightarrow> exec_loop S mem len (p1 + 1) r1
      | Some x \<Rightarrow> Some x)"
  by pat_completeness auto

termination
  by (relation "measure (\<lambda>(S, mem, len, p, r). len - p)") (auto simp: not_le dest!: exec_byte_within)

declare exec_loop.simps [simp del]

section \<open>\<open>http_parser_execute\<close>\<close>

definition url_state :: "http_state \<Rightarrow> bool" where
  "url_state s = (case s of
      s_req_path \<Rightarrow> True | s_req_schema \<Rightarrow> True | s_req_schema_slash \<Rightarrow> True | s_req_schema_slash_slash \<Rightarrow> True
    | s_req_server_start \<Rightarrow> True | s_req_server \<Rightarrow> True | s_req_server_with_at \<Rightarrow> True
    | s_req_query_string_start \<Rightarrow> True | s_req_query_string \<Rightarrow> True | s_req_fragment_start \<Rightarrow> True
    | s_req_fragment \<Rightarrow> True | _ \<Rightarrow> False)"

definition first_marks :: "http_state \<Rightarrow> data_event \<Rightarrow> nat option" where
  "first_marks s ev = (case ev of
      Header_field \<Rightarrow> if s = s_header_field then Some 0 else None
    | Header_value \<Rightarrow> if s = s_header_value then Some 0 else None
    | Url \<Rightarrow> if url_state s then Some 0 else None
    | Body \<Rightarrow> None)"

definition result :: "'o outcome \<Rightarrow> (nat \<times> http_parser \<times> 'o) option" where
  "result x = (case x of
      Return n r \<Rightarrow> Some (n, parser r, object r)
    | Goto_error p r \<Rightarrow>
        Some (p, (if http_errno (parser r) = HPE_OK then (parser r)\<lparr>http_errno := HPE_UNKNOWN\<rparr> else parser r), object r)
    | _ \<Rightarrow> None)"

definition http_parser_execute ::
  "'o http_parser_settings \<Rightarrow> string \<Rightarrow> nat \<Rightarrow> http_parser \<Rightarrow> 'o \<Rightarrow> (nat \<times> http_parser \<times> 'o) option" where
  "http_parser_execute S mem len q ob =
     (if http_errno q \<noteq> HPE_OK then Some (0, q, ob)
      else
        let r = \<lparr>parser = q, object = ob, marks = first_marks (p_state q)\<rparr>
        in if len = 0 then
             (case p_state q of
                s_body_identity_eof \<Rightarrow>
                  Option.bind (callback_notify S Message_complete 0 r (\<lambda>r. Some (Return 0 r))) result
              | s_dead \<Rightarrow> Some (0, q, ob)
              | s_start_req_or_res \<Rightarrow> Some (0, q, ob)
              | s_start_res \<Rightarrow> Some (0, q, ob)
              | s_start_req \<Rightarrow> Some (0, q, ob)
              | _ \<Rightarrow> Some (1, q\<lparr>http_errno := HPE_INVALID_EOF_STATE\<rparr>, ob))
           else Option.bind (exec_loop S mem len 0 r) result)"

end
