(* ===== verification/Http_Wrapper.thy ===== *)
theory Http_Wrapper
  imports Http_Execute
begin

text \<open>
  \<open>http_parser_wrapper.cc\<close>: the class \<open>CHttpParserWrapper\<close>, whose callbacks gather the URL, the body and some
  headers of one request.

  A callback gets the memory from \<open>at\<close> on.  The comparisons with the names of headers do not know where
  the name ends, so they may run on into the memory behind it; \<open>None\<close> is a read behind the memory.
\<close>

definition MAX_REFERER_LEN :: nat where "MAX_REFERER_LEN = 32"

record CHttpParserWrapper =
  read_all :: bool
  read_referer :: bool
  read_forward_ip :: bool
  read_user_agent :: bool
  read_content_type :: bool
  read_content_len :: bool
  read_host :: bool
  total_length :: nat
  url_text :: string
  body_content :: string
  referer :: string
  forward_ip :: string
  user_agent :: string
  content_type :: string
  content_len :: nat
  host :: string

text \<open>\<open>strncasecmp(at, name, n) == 0\<close>, where \<open>n\<close> is the length of the name.\<close>

fun strncasecmp_eq :: "string \<Rightarrow> string \<Rightarrow> bool option" where
  "strncasecmp_eq at [] = Some True"
| "strncasecmp_eq [] (c # name) = None"
| "strncasecmp_eq (a # at) (c # name) = (if tolower a = tolower c then strncasecmp_eq at name else Some False)"

text \<open>A header not seen yet is looked for.\<close>

definition look_for :: "bool \<Rightarrow> string \<Rightarrow> string \<Rightarrow> (CHttpParserWrapper \<Rightarrow> CHttpParserWrapper) \<Rightarrow> CHttpParserWrapper \<Rightarrow> CHttpParserWrapper option" where
  "look_for has_read name at set_read o1 =
     (if has_read then Some o1
      else do { found \<leftarrow> strncasecmp_eq at name; Some (if found then set_read o1 else o1) })"

definition OnUrl :: "CHttpParserWrapper http_data_cb" where
  "OnUrl q at n ob = Some (0, False, ob\<lparr>url_text := url_text ob @ take n at\<rparr>)"

definition OnHeaderField :: "CHttpParserWrapper http_data_cb" where
  "OnHeaderField q at n ob =
     do {
       o1 \<leftarrow> look_for (referer ob \<noteq> []) ''Referer'' at (\<lambda>ob. ob\<lparr>read_referer := True\<rparr>) ob;
       o2 \<leftarrow> look_for (forward_ip o1 \<noteq> []) ''X-Forwarded-For'' at (\<lambda>ob. ob\<lparr>read_forward_ip := True\<rparr>) o1;
       o3 \<leftarrow> look_for (user_agent o2 \<noteq> []) ''User-Agent'' at (\<lambda>ob. ob\<lparr>read_user_agent := True\<rparr>) o2;
       o4 \<leftarrow> look_for (content_type o3 \<noteq> []) ''Content-Type'' at (\<lambda>ob. ob\<lparr>read_content_type := True\<rparr>) o3;
       o5 \<leftarrow> look_for (content_len o4 \<noteq> 0) ''Content-Length'' at (\<lambda>ob. ob\<lparr>read_content_len := True\<rparr>) o4;
       o6 \<leftarrow> look_for (host o5 \<noteq> []) ''Host'' at (\<lambda>ob. ob\<lparr>read_host := True\<rparr>) o5;
       Some (0, False, o6)
     }"

definition take_referer :: "string \<Rightarrow> CHttpParserWrapper \<Rightarrow> CHttpParserWrapper" where
  "take_referer v ob =
     (if read_referer ob then ob\<lparr>referer := referer ob @ take MAX_REFERER_LEN v, read_referer := False\<rparr> else ob)"

definition take_forward_ip :: "string \<Rightarrow> CHttpParserWrapper \<Rightarrow> CHttpParserWrapper" where
  "take_forward_ip v ob =
     (if read_forward_ip ob then ob\<lparr>forward_ip := forward_ip ob @ v, read_forward_ip := False\<rparr> else ob)"

definition take_user_agent :: "string \<Rightarrow> CHttpParserWrapper \<Rightarrow> CHttpParserWrapper" where
  "take_user_agent v ob =
     (if read_user_agent ob then ob\<lparr>user_agent := user_agent ob @ v, read_user_agent := False\<rparr> else ob)"

definition take_content_type :: "string \<Rightarrow> CHttpParserWrapper \<Rightarrow> CHttpParserWrapper" where
  "take_content_type v ob =
     (if read_content_type ob then ob\<lparr>content_type := content_type ob @ v, read_content_type := False\<rparr> else ob)"

definition take_content_len :: "string \<Rightarrow> CHttpParserWrapper \<Rightarrow> CHttpParserWrapper" where
  "take_content_len v ob =
     (if read_content_len ob then ob\<lparr>content_len := nat (atoi (cstr v) mod 2 ^ 32), read_content_len := False\<rparr> else ob)"

definition take_host :: "string \<Rightarrow> CHttpParserWrapper \<Rightarrow> CHttpParserWrapper" where
  "take_host v ob = (if read_host ob then ob\<lparr>host := host ob @ v, read_host := False\<rparr> else ob)"

definition OnHeaderValue :: "CHttpParserWrapper http_data_cb" where
  "OnHeaderValue q at n ob =
     (let v = take n at
      in Some (0, False, take_host v (take_content_len v (take_content_type v (take_user_agent v
           (take_forward_ip v (take_referer v ob)))))))"

definition OnHeadersComplete :: "CHttpParserWrapper http_cb" where
  "OnHeadersComplete q ob = Some (0, False, ob\<lparr>total_length := u32 (nread q + u32 (content_length q))\<rparr>)"

definition OnBody :: "CHttpParserWrapper http_data_cb" where
  "OnBody q at n ob = Some (0, False, ob\<lparr>body_content := body_content ob @ take n at\<rparr>)"

definition OnMessageComplete :: "CHttpParserWrapper http_cb" where
  "OnMessageComplete q ob = Some (0, False, ob\<lparr>read_all := True\<rparr>)"

definition wrapper_settings :: "CHttpParserWrapper http_parser_settings" where
  "wrapper_settings = \<lparr>on_message_begin = None, on_url = Some OnUrl, on_status_complete = None,
     on_header_field = Some OnHeaderField, on_header_value = Some OnHeaderValue,
     on_headers_complete = Some OnHeadersComplete, on_body = Some OnBody, on_message_complete = Some OnMessageComplete\<rparr>"

definition new_wrapper :: CHttpParserWrapper where
  "new_wrapper = \<lparr>read_all = False, read_referer = False, read_forward_ip = False, read_user_agent = False,
     read_content_type = False, read_content_len = False, read_host = False, total_length = 0, url_text = [],
     body_content = [], referer = [], forward_ip = [], user_agent = [], content_type = [], content_len = 0, host = []\<rparr>"

text \<open>The parser and the fields after a call on the memory at \<open>buf\<close>, of which \<open>len\<close> bytes are data.\<close>

definition ParseHttpContent :: "string \<Rightarrow> nat \<Rightarrow> (http_parser \<times> CHttpParserWrapper) option" where
  "ParseHttpContent buf len =
     do {
       (n, q, ob) \<leftarrow> http_parser_execute wrapper_settings buf (u32 len) (http_parser_init HTTP_REQUEST) new_wrapper;
       Some (q, ob)
     }"

end
