(* ===== verification/Net_Buffer.thy ===== *)
theory Net_Buffer
  imports Prelude
begin

text \<open>
  The buffer of a connection: \<open>src/muduo/net/Buffer.h\<close>, \<open>Buffer.cc\<close> and \<open>Endian.h\<close>.

  The bytes of the vector are a string; its readable part lies between the two indices.  A function is
  \<open>None\<close> where the code fails an assertion or leaves the vector.  A pointer into the buffer is its offset
  in the vector.  A buffer is a queue of bytes: the locale \<open>byte_queue\<close>
  is that contract, and the buffer interprets it.
\<close>

record Buffer =
  vec :: string
  readerIndex :: nat
  writerIndex :: nat

definition kCheapPrepend :: nat where "kCheapPrepend = 8"
definition kInitialSize :: nat where "kInitialSize = 1024"

definition new_Buffer :: "nat \<Rightarrow> Buffer" where
  "new_Buffer initialSize =
     \<lparr>vec = replicate (kCheapPrepend + initialSize) NUL, readerIndex = kCheapPrepend, writerIndex = kCheapPrepend\<rparr>"

definition readableBytes :: "Buffer \<Rightarrow> nat" where "readableBytes b = writerIndex b - readerIndex b"
definition writableBytes :: "Buffer \<Rightarrow> nat" where "writableBytes b = length (vec b) - writerIndex b"
definition prependableBytes :: "Buffer \<Rightarrow> nat" where "prependableBytes b = readerIndex b"
definition peek :: "Buffer \<Rightarrow> nat" where "peek b = readerIndex b"
definition beginWrite :: "Buffer \<Rightarrow> nat" where "beginWrite b = writerIndex b"

text \<open>The bytes from an offset to the end of the readable part.\<close>

definition readable_from :: "Buffer \<Rightarrow> nat \<Rightarrow> string" where
  "readable_from b start = take (writerIndex b - start) (drop start (vec b))"

definition toStringPiece :: "Buffer \<Rightarrow> string" where "toStringPiece b = readable_from b (peek b)"

text \<open>Searching: \<open>Some None\<close> is NULL.\<close>

definition findCRLF_from :: "Buffer \<Rightarrow> nat \<Rightarrow> nat option option" where
  "findCRLF_from b start =
     (if peek b \<le> start \<and> start \<le> beginWrite b
      then Some (map_option ((+) start) (find_sub CRLF (readable_from b start))) else None)"

definition findCRLF :: "Buffer \<Rightarrow> nat option option" where "findCRLF b = findCRLF_from b (peek b)"

definition findEOL_from :: "Buffer \<Rightarrow> nat \<Rightarrow> nat option option" where
  "findEOL_from b start =
     (if peek b \<le> start \<and> start \<le> beginWrite b
      then Some (map_option ((+) start) (find_sub [LF] (readable_from b start))) else None)"

definition findEOL :: "Buffer \<Rightarrow> nat option option" where "findEOL b = findEOL_from b (peek b)"

section \<open>Taking bytes\<close>

definition retrieveAll :: "Buffer \<Rightarrow> Buffer" where
  "retrieveAll b = b\<lparr>readerIndex := kCheapPrepend, writerIndex := kCheapPrepend\<rparr>"

definition retrieve :: "nat \<Rightarrow> Buffer \<Rightarrow> Buffer option" where
  "retrieve len b =
     (if len \<le> readableBytes b
      then Some (if len < readableBytes b then b\<lparr>readerIndex := readerIndex b + len\<rparr> else retrieveAll b)
      else None)"

definition retrieveUntil :: "nat \<Rightarrow> Buffer \<Rightarrow> Buffer option" where
  "retrieveUntil stop b =
     (if peek b \<le> stop \<and> stop \<le> beginWrite b then retrieve (stop - peek b) b else None)"

definition retrieveAsString :: "nat \<Rightarrow> Buffer \<Rightarrow> (string \<times> Buffer) option" where
  "retrieveAsString len b =
     (if len \<le> readableBytes b
      then do { result \<leftarrow> mem_read (vec b) (peek b) len; b' \<leftarrow> retrieve len b; Some (result, b') }
      else None)"

definition retrieveAllAsString :: "Buffer \<Rightarrow> (string \<times> Buffer) option" where
  "retrieveAllAsString b = retrieveAsString (readableBytes b) b"

section \<open>Adding bytes\<close>

definition makeSpace :: "nat \<Rightarrow> Buffer \<Rightarrow> Buffer option" where
  "makeSpace len b =
     (if writableBytes b + prependableBytes b < len + kCheapPrepend
      then Some (b\<lparr>vec := take (writerIndex b + len) (vec b @ replicate (writerIndex b + len - length (vec b)) NUL)\<rparr>)
      else if kCheapPrepend < readerIndex b then do {
        m \<leftarrow> mem_write (vec b) kCheapPrepend (toStringPiece b);
        Some \<lparr>vec = m, readerIndex = kCheapPrepend, writerIndex = kCheapPrepend + readableBytes b\<rparr>
      }
      else None)"

definition ensureWritableBytes :: "nat \<Rightarrow> Buffer \<Rightarrow> Buffer option" where
  "ensureWritableBytes len b =
     do {
       b' \<leftarrow> (if writableBytes b < len then makeSpace len b else Some b);
       if len \<le> writableBytes b' then Some b' else None
     }"

definition hasWritten :: "nat \<Rightarrow> Buffer \<Rightarrow> Buffer option" where
  "hasWritten len b = (if len \<le> writableBytes b then Some (b\<lparr>writerIndex := writerIndex b + len\<rparr>) else None)"

definition unwrite :: "nat \<Rightarrow> Buffer \<Rightarrow> Buffer option" where
  "unwrite len b = (if len \<le> readableBytes b then Some (b\<lparr>writerIndex := writerIndex b - len\<rparr>) else None)"

definition buffer_append :: "string \<Rightarrow> Buffer \<Rightarrow> Buffer option" where
  "buffer_append data b =
     do {
       b1 \<leftarrow> ensureWritableBytes (length data) b;
       m \<leftarrow> mem_write (vec b1) (beginWrite b1) data;
       hasWritten (length data) (b1\<lparr>vec := m\<rparr>)
     }"

definition prepend :: "string \<Rightarrow> Buffer \<Rightarrow> Buffer option" where
  "prepend data b =
     (if length data \<le> prependableBytes b
      then do {
        m \<leftarrow> mem_write (vec b) (readerIndex b - length data) data;
        Some (b\<lparr>vec := m, readerIndex := readerIndex b - length data\<rparr>)
      }
      else None)"

definition shrink :: "nat \<Rightarrow> Buffer \<Rightarrow> Buffer option" where
  "shrink reserve b =
     do { other \<leftarrow> ensureWritableBytes (readableBytes b + reserve) (new_Buffer kInitialSize); buffer_append (toStringPiece b) other }"

section \<open>Integers in network order\<close>

text \<open>\<open>k\<close> bytes, the most significant first, and the signed integer they are.\<close>

definition hostToNetwork :: "nat \<Rightarrow> int \<Rightarrow> string" where
  "hostToNetwork k x = map (\<lambda>i. byte_of (nat (x div 2 ^ (8 * (k - 1 - i)) mod 256))) [0..<k]"

definition networkToHost :: "string \<Rightarrow> int" where
  "networkToHost s =
     (let n = foldl (\<lambda>a c. 256 * a + int (byte_val c)) 0 s; w = 8 * length s
      in if 2 * n < 2 ^ w then n else n - 2 ^ w)"

definition appendInt :: "nat \<Rightarrow> int \<Rightarrow> Buffer \<Rightarrow> Buffer option" where
  "appendInt k x b = buffer_append (hostToNetwork k x) b"

definition prependInt :: "nat \<Rightarrow> int \<Rightarrow> Buffer \<Rightarrow> Buffer option" where
  "prependInt k x b = prepend (hostToNetwork k x) b"

definition peekInt :: "nat \<Rightarrow> Buffer \<Rightarrow> int option" where
  "peekInt k b =
     (if k \<le> readableBytes b then map_option networkToHost (mem_read (vec b) (peek b) k) else None)"

definition readInt :: "nat \<Rightarrow> Buffer \<Rightarrow> (int \<times> Buffer) option" where
  "readInt k b = do { x \<leftarrow> peekInt k b; b' \<leftarrow> retrieve k b; Some (x, b') }"

section \<open>Reading from a descriptor\<close>

text \<open>
  \<open>readFd\<close>: the result of \<open>readv\<close> and the buffer.  The call is offered the room behind the data and 64 KB on
  the stack if that is less, and gives \<open>None\<close> for an error or the bytes, no more than it was offered.
\<close>

definition readFd :: "(nat \<Rightarrow> string option) \<Rightarrow> Buffer \<Rightarrow> (int \<times> Buffer) option" where
  "readFd readv b =
     (let writable = writableBytes b; offered = (if writable < 65536 then writable + 65536 else writable)
      in case readv offered of
           None \<Rightarrow> Some (-1, b)
         | Some bytes \<Rightarrow> do {
             let data = take offered bytes;
             let n = length data;
             m \<leftarrow> mem_write (vec b) (writerIndex b) (take writable data);
             b' \<leftarrow> (if n \<le> writable then Some (b\<lparr>vec := m, writerIndex := writerIndex b + n\<rparr>)
                   else buffer_append (drop writable data) (b\<lparr>vec := m, writerIndex := length m\<rparr>));
             Some (int n, b')
           })"

section \<open>The invariant, and the queue\<close>

definition buffer_ok :: "Buffer \<Rightarrow> bool" where
  "buffer_ok b \<longleftrightarrow> readerIndex b \<le> writerIndex b \<and> writerIndex b \<le> length (vec b) \<and> kCheapPrepend \<le> length (vec b)"

lemmas buffer_defs = readableBytes_def writableBytes_def prependableBytes_def peek_def beginWrite_def readable_from_def
  toStringPiece_def buffer_ok_def kCheapPrepend_def

lemma buffer_okD:
  assumes "buffer_ok b"
  shows "readerIndex b \<le> writerIndex b" "writerIndex b \<le> length (vec b)" "8 \<le> length (vec b)"
  using assms by (simp_all add: buffer_defs)

lemma new_Buffer_ok: "buffer_ok (new_Buffer n)" "toStringPiece (new_Buffer n) = []"
  by (simp_all add: buffer_defs new_Buffer_def)

lemma length_contents: "buffer_ok b \<Longrightarrow> length (toStringPiece b) = readableBytes b"
  by (auto simp: buffer_defs)

lemma retrieve_ok:
  assumes "buffer_ok b" "n \<le> length (toStringPiece b)"
  shows "\<exists>b'. retrieve n b = Some b' \<and> buffer_ok b' \<and> toStringPiece b' = drop n (toStringPiece b)"
  using assms by (auto simp: retrieve_def retrieveAll_def buffer_defs drop_take add.commute intro!: exI)

lemma grow_ok:
  assumes "buffer_ok b" "length (vec b) \<le> writerIndex b + n"
  shows "buffer_ok (b\<lparr>vec := take (writerIndex b + n) (vec b @ replicate (writerIndex b + n - length (vec b)) NUL)\<rparr>)"
    "n \<le> writableBytes (b\<lparr>vec := take (writerIndex b + n) (vec b @ replicate (writerIndex b + n - length (vec b)) NUL)\<rparr>)"
    "toStringPiece (b\<lparr>vec := take (writerIndex b + n) (vec b @ replicate (writerIndex b + n - length (vec b)) NUL)\<rparr>) = toStringPiece b"
proof -
  let ?v = "take (writerIndex b + n) (vec b @ replicate (writerIndex b + n - length (vec b)) NUL)"
  have v: "?v = vec b @ replicate (writerIndex b + n - length (vec b)) NUL" "length ?v = writerIndex b + n" using assms(2) by simp_all
  note b = buffer_okD [OF assms(1)]
  show "buffer_ok (b\<lparr>vec := ?v\<rparr>)" using b v(2) assms(2) unfolding buffer_ok_def kCheapPrepend_def by simp
  show "n \<le> writableBytes (b\<lparr>vec := ?v\<rparr>)" using v(2) by (simp add: writableBytes_def)
  show "toStringPiece (b\<lparr>vec := ?v\<rparr>) = toStringPiece b"
    unfolding v(1) using b by (simp add: toStringPiece_def readable_from_def peek_def)
qed

lemma move_ok:
  assumes "buffer_ok b" "8 < readerIndex b"
  shows "\<exists>m. mem_write (vec b) 8 (toStringPiece b) = Some m \<and> length m = length (vec b) \<and>
    buffer_ok \<lparr>vec = m, readerIndex = 8, writerIndex = 8 + readableBytes b\<rparr> \<and>
    toStringPiece \<lparr>vec = m, readerIndex = 8, writerIndex = 8 + readableBytes b\<rparr> = toStringPiece b"
proof -
  note b = buffer_okD [OF assms(1)] and len = length_contents [OF assms(1)]
  have "8 + readableBytes b \<le> length (vec b)" using b assms(2) unfolding readableBytes_def by linarith
  then show ?thesis using b len
    by (simp add: mem_write_ok buffer_ok_def kCheapPrepend_def toStringPiece_def [of "\<lparr>vec = _, readerIndex = _, writerIndex = _\<rparr>"]
        readable_from_def [of "\<lparr>vec = _, readerIndex = _, writerIndex = _\<rparr>"] peek_def)
qed

lemma ensureWritableBytes_ok:
  assumes "buffer_ok b"
  shows "\<exists>b'. ensureWritableBytes n b = Some b' \<and> buffer_ok b' \<and> n \<le> writableBytes b' \<and> toStringPiece b' = toStringPiece b"
proof (cases "writableBytes b < n")
  case less: True
  note b = buffer_okD [OF assms]
  show ?thesis
  proof (cases "writableBytes b + prependableBytes b < n + kCheapPrepend")
    case True
    have "length (vec b) \<le> writerIndex b + n" using less b(2) unfolding writableBytes_def by linarith
    with grow_ok [OF assms this] True less show ?thesis by (simp add: ensureWritableBytes_def makeSpace_def)
  next
    case False
    have r: "8 < readerIndex b"
      using False less unfolding prependableBytes_def kCheapPrepend_def by linarith
    have "n \<le> length (vec b) - (8 + readableBytes b)"
      using False b unfolding writableBytes_def prependableBytes_def readableBytes_def kCheapPrepend_def by linarith
    with move_ok [OF assms r] False less r show ?thesis
      by (auto simp: ensureWritableBytes_def makeSpace_def kCheapPrepend_def writableBytes_def)
  qed
next
  case False
  with assms show ?thesis by (simp add: ensureWritableBytes_def)
qed

lemma write_behind:
  assumes "buffer_ok b" "length d \<le> writableBytes b"
  shows "\<exists>m. mem_write (vec b) (writerIndex b) d = Some m \<and> length m = length (vec b) \<and>
    buffer_ok (b\<lparr>vec := m, writerIndex := writerIndex b + length d\<rparr>) \<and>
    toStringPiece (b\<lparr>vec := m, writerIndex := writerIndex b + length d\<rparr>) = toStringPiece b @ d"
proof -
  have "writerIndex b + length d \<le> length (vec b)"
    using buffer_okD(2) [OF assms(1)] assms(2) unfolding writableBytes_def by linarith
  then show ?thesis using assms(1) by (auto simp: buffer_defs mem_write_ok drop_take)
qed

lemma append_ok:
  assumes "buffer_ok b"
  shows "\<exists>b'. buffer_append d b = Some b' \<and> buffer_ok b' \<and> toStringPiece b' = toStringPiece b @ d"
proof -
  obtain b1 where b1: "ensureWritableBytes (length d) b = Some b1" "buffer_ok b1" "length d \<le> writableBytes b1"
    "toStringPiece b1 = toStringPiece b" using ensureWritableBytes_ok [OF assms] by blast
  from write_behind [OF b1(2,3)] b1 show ?thesis
    by (auto simp: buffer_append_def hasWritten_def beginWrite_def writableBytes_def)
qed

lemma prepend_ok:
  assumes "buffer_ok b" "length d \<le> readerIndex b"
  shows "\<exists>b'. prepend d b = Some b' \<and> buffer_ok b' \<and> toStringPiece b' = d @ toStringPiece b"
  using assms by (auto simp: prepend_def buffer_defs mem_write_ok drop_append)

lemma unwrite_ok:
  assumes "buffer_ok b" "n \<le> length (toStringPiece b)"
  shows "\<exists>b'. unwrite n b = Some b' \<and> buffer_ok b' \<and> toStringPiece b' = take (length (toStringPiece b) - n) (toStringPiece b)"
proof -
  have "n \<le> readableBytes b" using assms length_contents [OF assms(1)] by simp
  moreover have "min (length (toStringPiece b) - n) (readableBytes b) = writerIndex b - n - readerIndex b"
    using length_contents [OF assms(1)] by (simp add: buffer_defs)
  moreover have "readerIndex b \<le> writerIndex b - n" "writerIndex b - n \<le> length (vec b)"
    using buffer_okD [OF assms(1)] \<open>n \<le> readableBytes b\<close> unfolding readableBytes_def by linarith+
  ultimately show ?thesis using buffer_okD [OF assms(1)] length_contents [OF assms(1)]
    by (simp add: unwrite_def buffer_defs take_take min.absorb2 diff_commute)
qed

lemma shrink_ok:
  assumes "buffer_ok b"
  shows "\<exists>b'. shrink n b = Some b' \<and> buffer_ok b' \<and> toStringPiece b' = toStringPiece b"
proof -
  obtain b1 where "ensureWritableBytes (readableBytes b + n) (new_Buffer kInitialSize) = Some b1" "buffer_ok b1" "toStringPiece b1 = []"
    using ensureWritableBytes_ok [OF new_Buffer_ok(1), of "readableBytes b + n" kInitialSize] new_Buffer_ok(2) by metis
  with append_ok [of b1 "toStringPiece b"] show ?thesis by (auto simp: shrink_def)
qed

lemma readFd_ok:
  assumes "buffer_ok b" "readv (if writableBytes b < 65536 then writableBytes b + 65536 else writableBytes b) = Some d"
    "length d \<le> (if writableBytes b < 65536 then writableBytes b + 65536 else writableBytes b)"
  shows "\<exists>b'. readFd readv b = Some (int (length d), b') \<and> buffer_ok b' \<and> toStringPiece b' = toStringPiece b @ d"
proof -
  let ?w = "writableBytes b" and ?o = "if writableBytes b < 65536 then writableBytes b + 65536 else writableBytes b"
  have d: "take ?o d = d" using assms(3) by simp
  obtain m where m: "mem_write (vec b) (writerIndex b) (take ?w d) = Some m" "length m = length (vec b)"
    "buffer_ok (b\<lparr>vec := m, writerIndex := writerIndex b + length (take ?w d)\<rparr>)"
    "toStringPiece (b\<lparr>vec := m, writerIndex := writerIndex b + length (take ?w d)\<rparr>) = toStringPiece b @ take ?w d"
    using write_behind [OF assms(1), of "take ?w d"] by auto
  show ?thesis
  proof (cases "length d \<le> ?w")
    case True
    with m show ?thesis using assms(2) d by (simp add: readFd_def Let_def)
  next
    case False
    then have "writerIndex b + length (take ?w d) = length m" using assms(1) m(2) by (auto simp: buffer_defs)
    with append_ok [OF m(3), of "drop ?w d"] m show ?thesis using False assms(2) d by (auto simp: readFd_def Let_def)
  qed
qed

section \<open>A queue of bytes\<close>

datatype queue_op = Put string | Get nat

fun run_ops :: "(string \<Rightarrow> 'q \<Rightarrow> 'q option) \<Rightarrow> (nat \<Rightarrow> 'q \<Rightarrow> 'q option) \<Rightarrow> queue_op list \<Rightarrow> 'q \<Rightarrow> 'q option" where
  "run_ops put get [] q = Some q"
| "run_ops put get (Put d # ops) q = Option.bind (put d q) (run_ops put get ops)"
| "run_ops put get (Get n # ops) q = Option.bind (get n q) (run_ops put get ops)"

text \<open>What the operations do to the bytes; taking more than there are is not allowed.\<close>

fun queue_after :: "queue_op list \<Rightarrow> string \<Rightarrow> string option" where
  "queue_after [] s = Some s"
| "queue_after (Put d # ops) s = queue_after ops (s @ d)"
| "queue_after (Get n # ops) s = (if n \<le> length s then queue_after ops (drop n s) else None)"

locale byte_queue =
  fixes ok :: "'q \<Rightarrow> bool"
    and contents :: "'q \<Rightarrow> string"
    and put :: "string \<Rightarrow> 'q \<Rightarrow> 'q option"
    and get :: "nat \<Rightarrow> 'q \<Rightarrow> 'q option"
  assumes put_law: "ok q \<Longrightarrow> \<exists>q'. put d q = Some q' \<and> ok q' \<and> contents q' = contents q @ d"
    and get_law: "ok q \<Longrightarrow> n \<le> length (contents q) \<Longrightarrow> \<exists>q'. get n q = Some q' \<and> ok q' \<and> contents q' = drop n (contents q)"
begin

lemma ops_refine:
  "ok q \<Longrightarrow> queue_after ops (contents q) = Some s \<Longrightarrow> \<exists>q'. run_ops put get ops q = Some q' \<and> ok q' \<and> contents q' = s"
proof (induction ops arbitrary: q)
  case (Cons x ops)
  show ?case
  proof (cases x)
    case (Put d)
    obtain q' where q': "put d q = Some q'" "ok q'" "contents q' = contents q @ d" using put_law [OF Cons.prems(1)] by blast
    with Cons.IH [of q'] Cons.prems(2) Put show ?thesis by simp
  next
    case (Get n)
    then have n: "n \<le> length (contents q)" "queue_after ops (drop n (contents q)) = Some s"
      using Cons.prems(2) by (simp_all split: if_splits)
    obtain q' where q': "get n q = Some q'" "ok q'" "contents q' = drop n (contents q)" using get_law [OF Cons.prems(1) n(1)] by blast
    with Cons.IH [of q'] n(2) Get show ?thesis by simp
  qed
qed simp

lemma puts_gather:
  "\<exists>q'. run_ops put get (map Put ds) q = Some q' \<and> ok q' \<and> contents q' = contents q @ concat ds" if "ok q"
proof -
  have "queue_after (map Put ds) s = Some (s @ concat ds)" for s by (induction ds arbitrary: s) simp_all
  then show ?thesis using ops_refine [OF that] by blast
qed

end

interpretation bq: byte_queue buffer_ok toStringPiece buffer_append retrieve
  by unfold_locales (rule append_ok, assumption, rule retrieve_ok)

text \<open>C11. A buffer is a queue of bytes: from an empty one, any sequence of appends and of retrieves of no more than there is
runs without failing an assertion or leaving the vector, and its readable part is what was appended less what was
retrieved.\<close>

theorem buffer_is_queue:
  assumes "queue_after ops [] = Some s"
  shows "\<exists>b. run_ops buffer_append retrieve ops (new_Buffer n) = Some b \<and> buffer_ok b \<and> toStringPiece b = s"
  using bq.ops_refine [OF new_Buffer_ok(1), of ops n s] assms by (simp add: new_Buffer_ok(2))

theorem buffer_is_queue_witness:
  "\<exists>b. run_ops buffer_append retrieve [Put ''GET /'', Get 3, Put '' HTTP'', Get 1] (new_Buffer 4) = Some b \<and> buffer_ok b \<and>
     toStringPiece b = ''/ HTTP''"
  by (rule buffer_is_queue) simp

section \<open>Integers\<close>

lemma foldl_bytes:
  "foldl (\<lambda>a c. 256 * a + int (byte_val c)) a s = a * 256 ^ length s + foldl (\<lambda>a c. 256 * a + int (byte_val c)) 0 s"
proof (induction s arbitrary: a)
  case (Cons c s)
  show ?case using Cons [of "256 * a + int (byte_val c)"] Cons [of "int (byte_val c)"] by (simp add: algebra_simps)
qed simp

lemma hostToNetwork_Suc:
  "hostToNetwork (Suc k) x = byte_of (nat (x div 2 ^ (8 * k) mod 256)) # hostToNetwork k x"
proof -
  have "[0..<Suc k] = 0 # map Suc [0..<k]" by (simp only: upt_rec [of 0 "Suc k"] map_Suc_upt) simp
  then show ?thesis unfolding hostToNetwork_def by simp
qed

lemma bytes_value: "foldl (\<lambda>a c. 256 * a + int (byte_val c)) 0 (hostToNetwork k x) = x mod 2 ^ (8 * k)"
proof (induction k)
  case (Suc k)
  have p: "(2::int) ^ (8 * Suc k) = 2 ^ (8 * k) * 256" by (simp add: power_add)
  have l: "length (hostToNetwork k x) = k" by (simp add: hostToNetwork_def)
  have "(256::int) ^ k = 2 ^ (8 * k)" by (simp add: power_mult)
  moreover have "int (byte_val (byte_of (nat (x div 2 ^ (8 * k) mod 256)) :: char)) = x div 2 ^ (8 * k) mod 256"
    by (simp add: nat_less_iff)
  ultimately show ?case unfolding hostToNetwork_Suc p 
    using Suc l foldl_bytes [of "x div 2 ^ (8 * k) mod 256" "hostToNetwork k x"] by (simp add: zmod_zmult2_eq)
qed (simp add: hostToNetwork_def)

lemma network_host:
  assumes "0 < k" "- (2 ^ (8 * k - 1)) \<le> x" "x < 2 ^ (8 * k - 1)"
  shows "networkToHost (hostToNetwork k x) = x"
proof -
  let ?w = "(2::int) ^ (8 * k)" and ?h = "(2::int) ^ (8 * k - 1)"
  have w: "?w = 2 * ?h" using assms(1) power_Suc [of "2::int" "8 * k - 1"] by simp
  have l: "length (hostToNetwork k x) = k" by (simp add: hostToNetwork_def)
  show ?thesis
  proof (cases "0 \<le> x")
    case True
    then have "x mod ?w = x" using assms(3) w by simp
    then show ?thesis using assms(3) w by (simp add: networkToHost_def bytes_value l Let_def)
  next
    case False
    have "(x + ?w) mod ?w = x + ?w" by (rule mod_pos_pos_trivial) (use False assms(2) w in linarith)+
    then have "x mod ?w = x + ?w" by simp
    then show ?thesis using False assms(2) w by (simp add: networkToHost_def bytes_value l Let_def)
  qed
qed

text \<open>An integer appended to an empty buffer, or put in front of what is there, is read back.\<close>

lemma peek_front:
  assumes "buffer_ok b" "toStringPiece b = d @ r"
  shows "mem_read (vec b) (peek b) (length d) = Some d" "length d \<le> readableBytes b"
proof -
  show len: "length d \<le> readableBytes b" using length_contents [OF assms(1)] assms(2) by simp
  have "take (length d) (toStringPiece b) = take (length d) (drop (peek b) (vec b))"
    using len by (simp add: toStringPiece_def readable_from_def readableBytes_def peek_def)
  moreover have "peek b + length d \<le> length (vec b)"
    using len buffer_okD [OF assms(1)] unfolding readableBytes_def peek_def by linarith
  ultimately show "mem_read (vec b) (peek b) (length d) = Some d" using assms(2) by (simp add: mem_read_def)
qed

lemma readInt_front:
  assumes "buffer_ok b" "toStringPiece b = hostToNetwork k x @ r" and "0 < k" "- (2 ^ (8 * k - 1)) \<le> x" "x < 2 ^ (8 * k - 1)"
  shows "\<exists>b'. readInt k b = Some (x, b') \<and> buffer_ok b' \<and> toStringPiece b' = r"
proof -
  have l: "length (hostToNetwork k x) = k" by (simp add: hostToNetwork_def)
  with retrieve_ok [OF assms(1), of k] assms(2) obtain b' where
    b': "retrieve k b = Some b'" "buffer_ok b'" "toStringPiece b' = r" by auto
  have "peekInt k b = Some x"
    using peek_front [OF assms(1,2)] l network_host [OF assms(3-5)] by (simp add: peekInt_def)
  with b' show ?thesis by (simp add: readInt_def)
qed

lemma prepended_int:
  assumes "buffer_ok b" "k \<le> readerIndex b" and "0 < k" "- (2 ^ (8 * k - 1)) \<le> x" "x < 2 ^ (8 * k - 1)"
  shows "\<exists>b1 b2. prependInt k x b = Some b1 \<and> readInt k b1 = Some (x, b2) \<and> toStringPiece b2 = toStringPiece b"
proof -
  obtain b1 where "prepend (hostToNetwork k x) b = Some b1" "buffer_ok b1" "toStringPiece b1 = hostToNetwork k x @ toStringPiece b"
    using prepend_ok [OF assms(1), of "hostToNetwork k x"] assms(2) by (auto simp: hostToNetwork_def)
  with readInt_front [OF this(2,3) assms(3-5)] show ?thesis by (auto simp: prependInt_def)
qed

end
