(* ===== verification/Api_Upload.thy ===== *)
theory Api_Upload
  imports Api_Files
begin

text \<open>
  The upload of a file (\<open>api/api_upload.cc\<close>): the form that nginx passes on is taken apart, the temporary
  file gets its suffix, the FastDFS programs are run to store it and to ask where it is, and
  \<open>storeFileinfo\<close> records it.

  The system calls are a record of parameters next to the services.  A pipe is a pair of descriptors; a
  read gives the bytes, none at the end of the output, and \<open>None\<close> for an error.
\<close>

record 'w os =
  os_pipe :: "'w \<Rightarrow> (nat \<times> nat) option \<times> 'w"
  os_fork :: "'w \<Rightarrow> bool \<times> 'w"
  os_execlp :: "nat \<Rightarrow> string list \<Rightarrow> 'w \<Rightarrow> bool \<times> 'w"
  os_child_exit :: "int \<Rightarrow> 'w \<Rightarrow> 'w"
  os_close :: "nat \<Rightarrow> 'w \<Rightarrow> 'w"
  os_select :: "nat \<Rightarrow> nat \<Rightarrow> 'w \<Rightarrow> int \<times> 'w"
  os_read :: "nat \<Rightarrow> nat \<Rightarrow> 'w \<Rightarrow> string option \<times> 'w"
  os_wait :: "'w \<Rightarrow> int option \<times> 'w"
  os_rename :: "string \<Rightarrow> string \<Rightarrow> 'w \<Rightarrow> int \<times> 'w"
  os_unlink :: "string \<Rightarrow> 'w \<Rightarrow> int \<times> 'w"

definition TEMP_BUF_MAX_LEN :: nat where "TEMP_BUF_MAX_LEN = 512"
definition FILE_URL_LEN :: nat where "FILE_URL_LEN = 512"
definition HOST_NAME_LEN :: nat where "HOST_NAME_LEN = 30"
definition SUFFIX_LEN :: nat where "SUFFIX_LEN = 8"

text \<open>The settings \<open>ApiUploadInit\<close> stores.\<close>

record upload_settings =
  s_dfs_path_client :: string
  s_storage_web_server_ip :: string
  s_storage_web_server_port :: string
  s_shorturl_server_address :: string
  s_shorturl_server_access_token :: string

definition ApiUploadInit :: "string \<Rightarrow> string \<Rightarrow> string \<Rightarrow> string \<Rightarrow> string \<Rightarrow> upload_settings" where
  "ApiUploadInit dfs_path_client storage_web_server_ip storage_web_server_port shorturl_server_address access_token =
     \<lparr>s_dfs_path_client = cstr dfs_path_client, s_storage_web_server_ip = cstr storage_web_server_ip,
      s_storage_web_server_port = cstr storage_web_server_port, s_shorturl_server_address = cstr shorturl_server_address,
      s_shorturl_server_access_token = cstr access_token\<rparr>"

section \<open>Running the FastDFS programs\<close>

text \<open>
  \<open>uploadFileToFastDfs\<close>: the status and what is in the buffer \<open>fileid\<close> of 512 bytes, which holds zeros at
  first.  A child that cannot execute the program exits with status 1.
\<close>

definition after_upload :: "string \<Rightarrow> int option \<Rightarrow> int \<times> string" where
  "after_upload fileid status =
     (case status of
        Some code \<Rightarrow> (if code \<noteq> 0 \<or> cstr fileid = [] then -1 else 0, fileid)
      | None \<Rightarrow> (if cstr fileid = [] then -1 else 0, fileid))"

definition uploadFileToFastDfs :: "'w os \<Rightarrow> upload_settings \<Rightarrow> string \<Rightarrow> ('w, int \<times> string) act" where
  "uploadFileToFastDfs OS cfg file_path w =
     (case os_pipe OS w of
        (None, w1) \<Rightarrow> Some ((-1, []), w1)
      | (Some (rd, wr), w1) \<Rightarrow>
          (let (parent, w2) = os_fork OS w1
           in if \<not> parent then Some ((-1, []), os_close OS wr (os_close OS rd w2))
              else
                let (started, w3) = os_execlp OS wr
                      [''fdfs_upload_file'', ''fdfs_upload_file'', cstr (s_dfs_path_client cfg), file_path] w2;
                    w4 = os_close OS wr (if started then w3 else os_child_exit OS 1 w3);
                    (ready, w5) = os_select OS rd 30 w4
                in if ready \<le> 0 then Some ((-1, []), snd (os_wait OS (os_close OS rd w5)))
                   else
                     let (out, w6) = os_read OS rd (TEMP_BUF_MAX_LEN - 1) w5; w7 = os_close OS rd w6
                     in case out of
                          None \<Rightarrow> Some ((-1, []), snd (os_wait OS w7))
                        | Some [] \<Rightarrow> Some ((-1, []), snd (os_wait OS w7))
                        | Some bytes \<Rightarrow> do {
                            fileid \<leftarrow> TrimSpace bytes;
                            let (status, w8) = os_wait OS w7;
                            Some (after_upload fileid status, w8)
                          }))"

text \<open>
  The host in the answer of \<open>fdfs_file_info\<close>: the text between the words and the end of the line.  The
  buffer of 512 bytes may be full, and then has no NUL; the host must fit 30 bytes.
\<close>

definition ip_words :: string where "ip_words = ''source ip address: ''"

definition file_host :: "string \<Rightarrow> string option option" where
  "file_host stat_buf =
     (if length stat_buf = TEMP_BUF_MAX_LEN \<and> NUL \<notin> set stat_buf then None
      else case find_sub ip_words (cstr stat_buf) of
        None \<Rightarrow> Some None
      | Some p \<Rightarrow>
          (let q = drop (p + length ip_words) (cstr stat_buf)
           in case find_sub [LF] q of
                None \<Rightarrow> Some None
              | Some k \<Rightarrow> map_option Some (in_buf HOST_NAME_LEN (take k q))))"

text \<open>
  \<open>getFullUrlByFileid\<close>: the status and the URL.  A child that cannot execute the program returns from
  the function as well and goes on as a second server, which the model does not follow.
\<close>

definition getFullUrlByFileid :: "'w os \<Rightarrow> upload_settings \<Rightarrow> string \<Rightarrow> ('w, int \<times> string) act" where
  "getFullUrlByFileid OS cfg fileid w =
     (if s_storage_web_server_ip cfg = [] then Some ((-1, []), w)
      else case os_pipe OS w of
        (None, w1) \<Rightarrow> Some ((-1, []), w1)
      | (Some (rd, wr), w1) \<Rightarrow>
          (let (parent, w2) = os_fork OS w1
           in if \<not> parent then Some ((-1, []), w2)
              else
                let (started, w3) = os_execlp OS wr
                      [''fdfs_file_info'', ''fdfs_file_info'', cstr (s_dfs_path_client cfg), fileid] w2
                in if \<not> started then None
                   else
                     let (out, w4) = os_read OS rd TEMP_BUF_MAX_LEN (os_close OS wr w3);
                         w5 = os_close OS rd (snd (os_wait OS w4))
                     in do {
                       host \<leftarrow> file_host (case out of None \<Rightarrow> [] | Some bytes \<Rightarrow> bytes);
                       case host of
                         None \<Rightarrow> Some ((-1, []), w5)
                       | Some h \<Rightarrow> do {
                           url \<leftarrow> in_buf FILE_URL_LEN (''http://'' @ cstr (s_storage_web_server_ip cfg) @ ''/'' @ cstr fileid);
                           Some ((0, url), w5)
                         }
                     }))"

section \<open>The form\<close>

text \<open>
  A value is what stands between the second line break after a name and the next one.  It is undefined
  when a line break is missing, the pointer skips over the end, or the value does not fit the
  buffer.
\<close>

definition field_value :: "nat \<Rightarrow> string \<Rightarrow> (string \<times> string) option" where
  "field_value cap text =
     do {
       i \<leftarrow> find_sub CRLF text;
       if length text < i + 4 then None
       else do {
         let begin = drop (i + 4) text;
         j \<leftarrow> find_sub CRLF begin;
         v \<leftarrow> in_buf cap (take j begin);
         Some (v, drop (j + 2) begin)
       }
     }"

definition field_name :: "string \<Rightarrow> string" where "field_name n = ''name='' @ [QUOT] @ n @ [QUOT]"

text \<open>The fields in their order; \<open>Some None\<close> when a name is missing.\<close>

fun named_values :: "(string \<times> nat) list \<Rightarrow> string \<Rightarrow> string list option option" where
  "named_values [] text = Some (Some [])"
| "named_values ((name, cap) # rest_fields) text =
     (case find_sub (field_name name) text of
        None \<Rightarrow> Some None
      | Some p \<Rightarrow> do {
          (v, rest) \<leftarrow> field_value cap (drop p text);
          vs \<leftarrow> named_values rest_fields rest;
          Some (map_option (Cons v) vs)
        })"

definition upload_fields :: "(string \<times> nat) list" where
  "upload_fields = [(''file_content_type'', 128), (''file_path'', 128), (''file_md5'', 128), (''file_size'', 32), (''user'', 32)]"

text \<open>
  The first field differs: its name is looked for, but the value is taken after the first line break of
  the text, not after that of the name.
\<close>

definition parse_form :: "string \<Rightarrow> string list option option" where
  "parse_form post_data =
     (case find_sub CRLF post_data of
        None \<Rightarrow> Some None
      | Some p1 \<Rightarrow> do {
          boundary \<leftarrow> in_buf TEMP_BUF_MAX_LEN (take p1 post_data);
          let begin = drop (p1 + 2) post_data;
          case find_sub (field_name ''file_name'') begin of
            None \<Rightarrow> Some None
          | Some p2 \<Rightarrow> do {
              (v, rest) \<leftarrow> field_value 128 begin;
              vs \<leftarrow> named_values upload_fields rest;
              Some (map_option (Cons v) vs)
            }
        })"

section \<open>\<open>ApiUpload\<close>\<close>

text \<open>What is done with the file; the status.\<close>

definition store_upload ::
  "'w services \<Rightarrow> 'w os \<Rightarrow> upload_settings \<Rightarrow> bool \<Rightarrow> string \<Rightarrow> string \<Rightarrow> string \<Rightarrow> string \<Rightarrow> string \<Rightarrow> ('w, int) act" where
  "store_upload S OS cfg ok file_name file_path file_md5 file_size user w =
     do {
       (r, sfx) \<leftarrow> GetFileSuffix (Some file_name) SUFFIX_LEN;
       suffix \<leftarrow> sfx;
       new_file_path \<leftarrow> in_buf 128 (file_path @ ''.'' @ suffix);
       let (renamed, w1) = os_rename OS file_path new_file_path w;
       if renamed < 0 then Some (-1, w1)
       else do {
         ((uploaded, fileid), w2) \<leftarrow> uploadFileToFastDfs OS cfg new_file_path w1;
         let (unlinked, w3) = os_unlink OS new_file_path w2;
         if uploaded < 0 then Some (-1, w3)
         else do {
           ((found, fdfs_file_url), w4) \<leftarrow> getFullUrlByFileid OS cfg fileid w3;
           if found < 0 then Some (-1, w4)
           else do {
             ((ret, file_exsit), w5) \<leftarrow>
               on_conn ok (storeFileinfo S user file_name file_md5 (strtol10 file_size) fileid fdfs_file_url) w4;
             (r, w6) \<leftarrow> (if ret < 0 \<or> file_exsit then RemoveFileFromFastDfs S (s_dfs_path_client cfg) fileid w5 else Some (0, w5));
             Some (if ret < 0 then -1 else 0, w6)
           }
         }
       }
     }"

definition ApiUpload :: "'w services \<Rightarrow> 'w os \<Rightarrow> upload_settings \<Rightarrow> string \<Rightarrow> ('w, int \<times> string) act" where
  "ApiUpload S OS cfg post_data =
     with_db S ''filehub_master'' (\<lambda>ok w.
       do {
         form \<leftarrow> parse_form (cstr post_data);
         (ret, w1) \<leftarrow>
           (case form of
              Some [file_name, file_content_type, file_path, file_md5, file_size, user] \<Rightarrow>
                store_upload S OS cfg ok file_name file_path file_md5 file_size user w
            | _ \<Rightarrow> Some (-1, w));
         Some (if ret = 0 then (0, write_styled (json S) (JObj [(''code'', JInt 0)]))
               else (-1, write_styled (json S) (JObj [(''code'', JInt 1)])), w1)
       })"

end
