(* ===== verification/Http_Conn.thy ===== *)
theory Http_Conn
  imports Http_Wrapper Net_Buffer Api_Upload Api_User Api_Lists Pool
begin

text \<open>
  What a connection does with the bytes it has received (\<open>http_conn.cc\<close>), and the server around it
  (\<open>main.cc\<close>).

  \<open>OnRead\<close> gives what is sent on the connection.  It parses the whole input buffer from its beginning at
  each call and takes nothing out of it.  The memory behind the readable part is the rest of the
  buffer.

  The server keeps a map from connection numbers to connections.  With worker threads a message is a
  task in a queue, which holds the connection and a pointer to the buffer, and is run at some later time
  on what the buffer holds then; without, it is handled at once.
\<close>

section \<open>Answers\<close>

text \<open>\<open>snprintf\<close> to a buffer of \<open>n\<close> bytes; \<open>send\<close> takes what it left as a C string.\<close>

definition response :: "nat \<Rightarrow> string \<Rightarrow> string \<Rightarrow> string \<Rightarrow> string" where
  "response n status media body =
     take (n - 1) (''HTTP/1.1 '' @ status @ CRLF @ ''Connection:close'' @ CRLF @
       ''Content-Length:'' @ dec_int (s32 (int (u32 (length body)))) @ CRLF @
       ''Content-Type:'' @ media @ '';charset=utf-8'' @ CRLF @ CRLF @ cstr body)"

definition HTTP_RESPONSE_JSON_MAX :: nat where "HTTP_RESPONSE_JSON_MAX = 4096"
definition HTTP_RESPONSE_HTM_MAX :: nat where "HTTP_RESPONSE_HTM_MAX = 4096"

definition json_response :: "string \<Rightarrow> string" where
  "json_response = response HTTP_RESPONSE_JSON_MAX ''200 OK'' ''application/json''"

text \<open>The answer to an unknown path, in a buffer of 256 bytes.\<close>

definition not_found :: string where
  "not_found = response 256 ''404 OK'' ''application/json'' (''{'' @ [QUOT] @ ''code'' @ [QUOT] @ '': 1}'')"

definition htmlStr :: string where
  "htmlStr = concat (map (\<lambda>l. l @ [LF]) [
     ''<!DOCTYPE html>'',
     ''<html>'',
     ''<head>'',
     ''<title>Welcome to nginx!</title>'',
     ''<style>'',
     ''    body {'',
     ''        width: 35em;'',
     ''        margin: 0 auto;'',
     ''        font-family: Tahoma, Verdana, Arial, sans-serif;'',
     ''    }'',
     ''</style>'',
     ''</head>'',
     ''<body>'',
     ''<h1>Welcome to nginx!</h1>'',
     ''<p>If you see this page, GuLu's nginx web server is successfully installed and'',
     ''working. Further configuration is required.</p>'',
     ''<p>For online documentation and support please refer to'',
     ''<a href=\"http://nginx.org/\">nginx.org</a>.<br/>'',
     ''Commercial support is available at'',
     ''<a href=\"http://nginx.com/\">nginx.com</a>.</p>'',
     ''<p><em>Thank you for using nginx.</em></p>'',
     ''</body>'']) @ ''</html>''"


section \<open>Requests\<close>

text \<open>
  Each handler is called with the URL and the body; what it makes of them is printed as an answer.  One
  that leaves its text alone leaves it empty.
\<close>

definition json_answer :: "('w, int \<times> string) act \<Rightarrow> ('w, string) act" where
  "json_answer f w = do { ((ret, str_json), w1) \<leftarrow> f w; Some (json_response str_json, w1) }"

definition json_answer_opt :: "('w, int \<times> string option) act \<Rightarrow> ('w, string) act" where
  "json_answer_opt f w =
     do { ((ret, str_json), w1) \<leftarrow> f w; Some (json_response (case str_json of None \<Rightarrow> [] | Some t \<Rightarrow> t), w1) }"

text \<open>\<open>index_html\<close> is the contents of the file, \<open>None\<close> when it cannot be opened.\<close>

definition HandleHtml :: "string option \<Rightarrow> string" where
  "HandleHtml index_html =
     response HTTP_RESPONSE_JSON_MAX ''200 OK'' ''text/html'' (case index_html of None \<Rightarrow> [] | Some t \<Rightarrow> t)"

definition HandleMemHtml :: string where
  "HandleMemHtml = response HTTP_RESPONSE_HTM_MAX ''200 OK'' ''text/html'' htmlStr"

text \<open>\<open>strncmp(url.c_str(), path, n) == 0\<close> with the length of the path.\<close>

definition has_path :: "string \<Rightarrow> string \<Rightarrow> bool" where
  "has_path url path \<longleftrightarrow> take (length path) (cstr url) = path"

text \<open>What a request is answered with.\<close>

definition handle_request ::
  "'w services \<Rightarrow> 'w os \<Rightarrow> upload_settings \<Rightarrow> string option \<Rightarrow> string \<Rightarrow> string \<Rightarrow> ('w, string) act" where
  "handle_request S OS cfg index_html url content =
     (if has_path url ''/api/reg'' then json_answer (ApiRegisterUser S content)
      else if has_path url ''/api/login'' then json_answer (ApiUserLogin S content)
      else if has_path url ''/api/md5'' then json_answer (ApiMd5 S content)
      else if has_path url ''/api/upload'' then json_answer (ApiUpload S OS cfg content)
      else if has_path url ''/api/myfiles'' then json_answer (ApiMyfiles S url content)
      else if has_path url ''/api/sharepic'' then json_answer_opt (ApiSharepicture S url content)
      else if has_path url ''/api/dealfile'' then json_answer_opt (ApiDealfile S (s_dfs_path_client cfg) url content)
      else if has_path url ''/api/sharefiles'' then json_answer_opt (ApiSharefiles S url content)
      else if has_path url ''/api/dealsharefile'' then json_answer (ApiDealsharefile S url content)
      else if has_path url ''/api/html'' then (\<lambda>w. Some (HandleHtml index_html, w))
      else if has_path url ''/api/memhtml'' then (\<lambda>w. Some (HandleMemHtml, w))
      else (\<lambda>w. Some (not_found, w)))"

definition OnRead ::
  "'w services \<Rightarrow> 'w os \<Rightarrow> upload_settings \<Rightarrow> string option \<Rightarrow> Buffer \<Rightarrow> ('w, string list) act" where
  "OnRead S OS cfg index_html buf w =
     do {
       (q, http) \<leftarrow> ParseHttpContent (drop (peek buf) (vec buf)) (readableBytes buf);
       if read_all http then do {
         (text, w1) \<leftarrow> handle_request S OS cfg index_html (url_text http) (body_content http) w;
         Some ([text], w1)
       }
       else Some ([], w)
     }"

section \<open>The server\<close>

text \<open>
  A connection has its number, once it is set, and its input buffer; \<open>pending\<close> are the tasks of the worker
  threads, each the connection that answers and the one whose buffer it reads; \<open>sent\<close> is what was sent,
  on which connection, in order.
\<close>

record tcp_conn =
  conn_context :: "nat option"
  input_buffer :: Buffer

record http_server =
  conn_uuid_generator :: nat
  s_http_map :: "(nat \<times> nat) list"
  tcp_conns :: "nat \<Rightarrow> tcp_conn option"
  pending :: "(nat \<times> nat) list"
  sent :: "(nat \<times> string) list"

definition map_insert_new :: "nat \<Rightarrow> nat \<Rightarrow> (nat \<times> nat) list \<Rightarrow> (nat \<times> nat) list" where
  "map_insert_new k v m = (if map_of m k = None then m @ [(k, v)] else m)"

text \<open>\<open>onConnection\<close>: a new connection, and one that is closed.\<close>

definition onConnected :: "nat \<Rightarrow> http_server \<Rightarrow> http_server" where
  "onConnected c srv =
     (let uuid = conn_uuid_generator srv
      in srv\<lparr>conn_uuid_generator := u32 (uuid + 1), s_http_map := map_insert_new uuid c (s_http_map srv),
         tcp_conns := (tcp_conns srv)(c \<mapsto> \<lparr>conn_context = Some uuid, input_buffer = new_Buffer kInitialSize\<rparr>)\<rparr>)"

definition onDisconnected :: "nat \<Rightarrow> http_server \<Rightarrow> http_server option" where
  "onDisconnected c srv =
     do {
       t \<leftarrow> tcp_conns srv c;
       uuid \<leftarrow> conn_context t;
       Some (srv\<lparr>s_http_map := filter (\<lambda>(k, v). k \<noteq> uuid) (s_http_map srv)\<rparr>)
     }"

text \<open>\<open>OnRead\<close> of the connection \<open>http_conn\<close> on the buffer of \<open>c\<close>.\<close>

definition run_OnRead ::
  "'w services \<Rightarrow> 'w os \<Rightarrow> upload_settings \<Rightarrow> string option \<Rightarrow> nat \<Rightarrow> nat \<Rightarrow> http_server \<Rightarrow> ('w, http_server) act" where
  "run_OnRead S OS cfg index_html http_conn c srv w =
     do {
       t \<leftarrow> tcp_conns srv c;
       (out, w1) \<leftarrow> OnRead S OS cfg index_html (input_buffer t) w;
       Some (srv\<lparr>sent := sent srv @ map (Pair http_conn) out\<rparr>, w1)
     }"

definition onMessage ::
  "'w services \<Rightarrow> 'w os \<Rightarrow> upload_settings \<Rightarrow> string option \<Rightarrow> nat \<Rightarrow> nat \<Rightarrow> http_server \<Rightarrow> ('w, http_server) act" where
  "onMessage S OS cfg index_html num_threads c srv w =
     do {
       t \<leftarrow> tcp_conns srv c;
       uuid \<leftarrow> conn_context t;
       case map_of (s_http_map srv) uuid of
         None \<Rightarrow> Some (srv, w)
       | Some http_conn \<Rightarrow>
           (if num_threads \<noteq> 0 then Some (srv\<lparr>pending := pending srv @ [(http_conn, c)]\<rparr>, w)
            else run_OnRead S OS cfg index_html http_conn c srv w)
     }"

text \<open>A worker thread takes the first task.\<close>

definition run_task ::
  "'w services \<Rightarrow> 'w os \<Rightarrow> upload_settings \<Rightarrow> string option \<Rightarrow> http_server \<Rightarrow> ('w, http_server) act" where
  "run_task S OS cfg index_html srv w =
     (case pending srv of
        [] \<Rightarrow> Some (srv, w)
      | (http_conn, c) # rest \<Rightarrow> run_OnRead S OS cfg index_html http_conn c (srv\<lparr>pending := rest\<rparr>) w)"

text \<open>
  Bytes that arrive: \<open>TcpConnection::handleRead\<close> appends them and tells the server.  At the end of the input
  the connection is closed, which the server is told as well; an error is logged.
\<close>

definition receive ::
  "'w services \<Rightarrow> 'w os \<Rightarrow> upload_settings \<Rightarrow> string option \<Rightarrow> nat \<Rightarrow> nat \<Rightarrow> (nat \<Rightarrow> string option) \<Rightarrow> http_server \<Rightarrow> ('w, http_server) act" where
  "receive S OS cfg index_html num_threads c readv srv w =
     do {
       t \<leftarrow> tcp_conns srv c;
       (n, b) \<leftarrow> readFd readv (input_buffer t);
       let srv1 = srv\<lparr>tcp_conns := (tcp_conns srv)(c \<mapsto> t\<lparr>input_buffer := b\<rparr>)\<rparr>;
       if 0 < n then onMessage S OS cfg index_html num_threads c srv1 w
       else if n = 0 then do { srv2 \<leftarrow> onDisconnected c srv1; Some (srv2, w) }
       else Some (srv1, w)
     }"

section \<open>Starting\<close>

text \<open>
  \<open>main\<close>: the configuration is read, the managers are started with the same file, and the server is given
  its numbers.  \<open>Some None\<close> is the exit with -1.  A missing name is a NULL given to \<open>atoi\<close> or to a string.
\<close>

record server_settings =
  log_level :: int
  num_event_loops :: int
  num_threads :: int
  timeout_ms :: int
  uploads :: upload_settings

definition config_value :: "CConfigFileReader \<Rightarrow> string \<Rightarrow> string option" where
  "config_value cfg name = do { v \<leftarrow> GetConfigName cfg name; v }"

definition config_int :: "CConfigFileReader \<Rightarrow> string \<Rightarrow> int option" where
  "config_int cfg name = do { v \<leftarrow> config_value cfg name; Some (atoi (cstr v)) }"

definition manager_up :: "((string \<times> 'p) list \<times> int) \<Rightarrow> bool" where
  "manager_up m \<longleftrightarrow> snd m = 0"

definition start_server ::
  "(string \<Rightarrow> string list \<Rightarrow> 'p option) \<Rightarrow> (string \<Rightarrow> string list \<Rightarrow> 'p option) \<Rightarrow> string \<Rightarrow> string option \<Rightarrow> server_settings option option" where
  "start_server cache_pools db_pools filename file =
     do {
       config_file \<leftarrow> LoadFile filename file;
       level \<leftarrow> config_int config_file ''log_level'';
       cache_manager \<leftarrow> CacheManager_Init cache_pools config_file;
       if \<not> manager_up cache_manager then Some None
       else do {
         dfs_path_client \<leftarrow> config_value config_file ''dfs_path_client'';
         storage_web_server_ip \<leftarrow> config_value config_file ''storage_web_server_ip'';
         storage_web_server_port \<leftarrow> config_value config_file ''storage_web_server_port'';
         let up = ApiUploadInit dfs_path_client storage_web_server_ip storage_web_server_port [] [];
         db_manager \<leftarrow> CDBManager_Init db_pools config_file;
         if \<not> manager_up db_manager then Some None
         else do {
           loops \<leftarrow> config_int config_file ''num_event_loops'';
           threads \<leftarrow> config_int config_file ''num_threads'';
           timeout \<leftarrow> config_int config_file ''timeout_ms'';
           Some (Some \<lparr>log_level = level, num_event_loops = loops, num_threads = threads, timeout_ms = timeout, uploads = up\<rparr>)
         }
       }
     }"

end
