(* ===== verification/Http_Scan.thy ===== *)
theory Http_Scan
  imports Http_Conn
begin

text \<open>
  Parsing a printed request: the wrapper reads back the URL and the body of a POST with any headers that
  do not change how the body is delimited, and a request that has arrived in part is not acted on.

  The proof follows the bytes.  \<open>st\<close> says where the parser is and what the wrapper has gathered, and
  \<open>goes\<close> that the bytes between two positions lead from one such situation to another, or to the end of
  the data with the request still incomplete.
\<close>

abbreviation W :: "CHttpParserWrapper http_parser_settings" where "W \<equiv> wrapper_settings"

section \<open>The callbacks\<close>

lemma strncasecmp_defined:
  "(\<exists>c \<in> set at. tolower c \<notin> tolower ` set name) \<or> length name \<le> length at \<Longrightarrow> \<exists>b. strncasecmp_eq at name = Some b"
  by (induction at name rule: strncasecmp_eq.induct) auto

text \<open>What no header changes.\<close>

definition same_request :: "CHttpParserWrapper \<Rightarrow> CHttpParserWrapper \<Rightarrow> bool" where
  "same_request a b \<longleftrightarrow> read_all a = read_all b \<and> url_text a = url_text b \<and> body_content a = body_content b"

lemma look_for_same:
  assumes "\<exists>b. strncasecmp_eq at name = Some b" "\<And>ob. same_request (f ob) ob"
  shows "\<exists>o1. look_for h name at f ob = Some o1 \<and> same_request o1 ob"
  using assms by (auto simp: look_for_def same_request_def)

lemma OnHeaderField_same:
  assumes "CHR '':'' \<in> set at \<or> 15 \<le> length at"
  shows "\<exists>o1. OnHeaderField q at n ob = Some (0, False, o1) \<and> same_request o1 ob"
proof -
  have d: "\<exists>b. strncasecmp_eq at name = Some b"
    if "length name \<le> 15" "CHR '':'' \<notin> tolower ` set name" for name
    by (rule strncasecmp_defined) (use assms that in \<open>auto intro!: bexI [of _ "CHR '':''"] simp: tolower_def isupper_def\<close>)
  have names: "\<exists>b. strncasecmp_eq at ''Referer'' = Some b" "\<exists>b. strncasecmp_eq at ''X-Forwarded-For'' = Some b"
    "\<exists>b. strncasecmp_eq at ''User-Agent'' = Some b" "\<exists>b. strncasecmp_eq at ''Content-Type'' = Some b"
    "\<exists>b. strncasecmp_eq at ''Content-Length'' = Some b" "\<exists>b. strncasecmp_eq at ''Host'' = Some b"
    by (rule d, simp, code_simp)+
  obtain o1 where 1: "look_for (referer ob \<noteq> []) ''Referer'' at (\<lambda>ob. ob\<lparr>read_referer := True\<rparr>) ob = Some o1" "same_request o1 ob"
    using look_for_same [OF names(1), of "\<lambda>ob. ob\<lparr>read_referer := True\<rparr>" "referer ob \<noteq> []" ob] by (auto simp: same_request_def)
  obtain o2 where 2: "look_for (forward_ip o1 \<noteq> []) ''X-Forwarded-For'' at (\<lambda>ob. ob\<lparr>read_forward_ip := True\<rparr>) o1 = Some o2"
    "same_request o2 o1" using look_for_same [OF names(2), of "\<lambda>ob. ob\<lparr>read_forward_ip := True\<rparr>" "forward_ip o1 \<noteq> []" o1] by (auto simp: same_request_def)
  obtain o3 where 3: "look_for (user_agent o2 \<noteq> []) ''User-Agent'' at (\<lambda>ob. ob\<lparr>read_user_agent := True\<rparr>) o2 = Some o3"
    "same_request o3 o2" using look_for_same [OF names(3), of "\<lambda>ob. ob\<lparr>read_user_agent := True\<rparr>" "user_agent o2 \<noteq> []" o2] by (auto simp: same_request_def)
  obtain o4 where 4: "look_for (content_type o3 \<noteq> []) ''Content-Type'' at (\<lambda>ob. ob\<lparr>read_content_type := True\<rparr>) o3 = Some o4"
    "same_request o4 o3" using look_for_same [OF names(4), of "\<lambda>ob. ob\<lparr>read_content_type := True\<rparr>" "content_type o3 \<noteq> []" o3] by (auto simp: same_request_def)
  obtain o5 where 5: "look_for (0 < content_len o4) ''Content-Length'' at (\<lambda>ob. ob\<lparr>read_content_len := True\<rparr>) o4 = Some o5"
    "same_request o5 o4" using look_for_same [OF names(5), of "\<lambda>ob. ob\<lparr>read_content_len := True\<rparr>" "0 < content_len o4" o4] by (auto simp: same_request_def)
  obtain o6 where 6: "look_for (host o5 \<noteq> []) ''Host'' at (\<lambda>ob. ob\<lparr>read_host := True\<rparr>) o5 = Some o6"
    "same_request o6 o5" using look_for_same [OF names(6), of "\<lambda>ob. ob\<lparr>read_host := True\<rparr>" "host o5 \<noteq> []" o5] by (auto simp: same_request_def)
  have "OnHeaderField q at n ob = Some (0, False, o6)"
    by (simp add: OnHeaderField_def 1(1) 2(1) 3(1) 4(1) 5(1) 6(1))
  moreover have "same_request o6 ob" using 1(2) 2(2) 3(2) 4(2) 5(2) 6(2) by (simp add: same_request_def)
  ultimately show ?thesis by blast
qed

lemma OnHeaderValue_same: "\<exists>o1. OnHeaderValue q at n ob = Some (0, False, o1) \<and> same_request o1 ob"
  by (simp add: OnHeaderValue_def Let_def same_request_def take_referer_def take_forward_ip_def take_user_agent_def
      take_content_type_def take_content_len_def take_host_def)

lemma W_simps [simp]:
  "on_message_begin W = None" "on_status_complete W = None" "on_headers_complete W = Some OnHeadersComplete"
  "on_message_complete W = Some OnMessageComplete" "on_header_field W = Some OnHeaderField"
  "on_header_value W = Some OnHeaderValue" "on_url W = Some OnUrl" "on_body W = Some OnBody"
  by (simp_all add: wrapper_settings_def)

section \<open>Where the parser is\<close>

definition mark_of :: "(data_event \<times> nat) option \<Rightarrow> data_event \<Rightarrow> nat option" where
  "mark_of mk = (case mk of None \<Rightarrow> (\<lambda>ev. None) | Some (ev, m) \<Rightarrow> (\<lambda>ev'. None)(ev := Some m))"

text \<open>
  In state \<open>s\<close>, \<open>n\<close> bytes of the header counted, the mark \<open>mk\<close>, the content length \<open>cl\<close>, the URL \<open>u\<close>, and
  \<open>E\<close> of the matcher.
\<close>

definition st :: "http_state \<Rightarrow> (data_event \<times> nat) option \<Rightarrow> nat \<Rightarrow> string \<Rightarrow> (header_states \<Rightarrow> nat \<Rightarrow> bool) \<Rightarrow> nat \<Rightarrow>
    CHttpParserWrapper run \<Rightarrow> bool" where
  "st s mk cl u E n r \<longleftrightarrow>
     p_state (parser r) = s \<and> nread (parser r) = n \<and> content_length (parser r) = cl \<and>
     p_type (parser r) = HTTP_REQUEST \<and> p_method (parser r) = HTTP_POST \<and> http_errno (parser r) = HPE_OK \<and>
     p_flags (parser r) \<subseteq> {F_CONNECTION_KEEP_ALIVE, F_CONNECTION_CLOSE} \<and> marks r = mark_of mk \<and>
     \<not> read_all (object r) \<and> url_text (object r) = u \<and> body_content (object r) = [] \<and>
     E (header_state (parser r)) (p_index (parser r))"

abbreviation anyE :: "header_states \<Rightarrow> nat \<Rightarrow> bool" where "anyE \<equiv> (\<lambda>h i. True)"

text \<open>The run ends with the request still incomplete.\<close>

definition waits :: "CHttpParserWrapper outcome option \<Rightarrow> bool" where
  "waits x \<longleftrightarrow> (\<exists>n r. x = Some (Return n r) \<and> \<not> read_all (object r))"

definition goes :: "string \<Rightarrow> nat \<Rightarrow> nat \<Rightarrow> (CHttpParserWrapper run \<Rightarrow> bool) \<Rightarrow> nat \<Rightarrow> (CHttpParserWrapper run \<Rightarrow> bool) \<Rightarrow> bool" where
  "goes mem len p P p' P' \<longleftrightarrow> p \<le> p' \<and>
     (\<forall>r. P r \<longrightarrow>
       (p' \<le> len \<longrightarrow> (\<exists>r'. P' r' \<and> exec_loop W mem len p r = exec_loop W mem len p' r')) \<and>
       (p \<le> len \<longrightarrow> len < p' \<longrightarrow> len + 15 \<le> length mem \<longrightarrow> waits (exec_loop W mem len p r)))"

lemma goes_refl: "(\<And>r. P r \<Longrightarrow> P' r) \<Longrightarrow> goes mem len p P p P'"
  by (auto simp: goes_def)

lemma goes_trans [trans]:
  assumes "goes mem len p P p1 P1" "goes mem len p1 P1 p2 P2"
  shows "goes mem len p P p2 P2"
proof -
  have le: "p \<le> p1" "p1 \<le> p2" using assms by (simp_all add: goes_def)
  have "(p2 \<le> len \<longrightarrow> (\<exists>r'. P2 r' \<and> exec_loop W mem len p r = exec_loop W mem len p2 r')) \<and>
      (p \<le> len \<longrightarrow> len < p2 \<longrightarrow> len + 15 \<le> length mem \<longrightarrow> waits (exec_loop W mem len p r))" if "P r" for r
  proof (cases "p1 \<le> len")
    case True
    with assms(1) that obtain r1 where r1: "P1 r1" "exec_loop W mem len p r = exec_loop W mem len p1 r1"
      by (auto simp: goes_def)
    with assms(2) True show ?thesis by (auto simp: goes_def)
  next
    case False
    with le assms(1) that show ?thesis unfolding goes_def by auto
  qed
  with le show ?thesis by (auto simp: goes_def)
qed

lemma callback_data_done:
  assumes "http_errno (parser r) = HPE_OK" "marks r ev = Some m" "data_cb ev S = Some f"
    and "f (parser r) (drop m mem) (stop - m) (object r) = Some (0, False, o1)"
  shows "callback_data S mem ev stop er r next = next (r\<lparr>object := o1, marks := (marks r)(ev := None)\<rparr>)"
  using assms by (simp add: callback_data_def call_back_def)

lemma callback_data_none:
  "http_errno (parser r) = HPE_OK \<Longrightarrow> marks r ev = None \<Longrightarrow> callback_data S mem ev stop er r next = next r"
  by (simp add: callback_data_def)

text \<open>A cut inside a piece of data hands over what there is of it.\<close>

lemma data_cb_same:
  assumes "ev = Header_field \<longrightarrow> CHR '':'' \<in> set at \<or> 15 \<le> length at"
  obtains f o1 where "data_cb ev W = Some f" "f q at n ob = Some (0, False, o1)" "read_all o1 = read_all ob"
proof (cases ev)
  case Header_field
  then obtain o1 where "OnHeaderField q at n ob = Some (0, False, o1)" "same_request o1 ob"
    using OnHeaderField_same assms by blast
  with Header_field that [of OnHeaderField o1] show ?thesis by (simp add: same_request_def)
next
  case Header_value
  obtain o1 where "OnHeaderValue q at n ob = Some (0, False, o1)" "same_request o1 ob"
    using OnHeaderValue_same by blast
  with Header_value that [of OnHeaderValue o1] show ?thesis by (simp add: same_request_def)
next
  case Url
  with that [of OnUrl] show ?thesis by (simp add: OnUrl_def)
next
  case Body
  with that [of OnBody] show ?thesis by (simp add: OnBody_def)
qed

lemma flush_waits:
  assumes err: "http_errno (parser r) = HPE_OK" and ob: "\<not> read_all (object r)" and mk: "marks r = mark_of mk"
    and mem: "len + 15 \<le> length mem" and le: "\<And>ev m. mk = Some (ev, m) \<Longrightarrow> m \<le> len"
  shows "waits (flush_marks W mem len r)"
proof (cases mk)
  case None
  then have "marks r = (\<lambda>ev. None)" using mk by (simp add: mark_of_def)
  with err ob show ?thesis by (simp add: flush_marks_def callback_data_none waits_def)
next
  case (Some a)
  then obtain ev m where a: "mk = Some (ev, m)" by (cases a) simp
  then have m: "marks r = (\<lambda>e. None)(ev := Some m)" using mk by (simp add: mark_of_def)
  have at: "ev = Header_field \<longrightarrow> CHR '':'' \<in> set (drop m mem) \<or> 15 \<le> length (drop m mem)" using le [OF a] mem by (simp, linarith)
  obtain f o1 where f: "data_cb ev W = Some f" "f (parser r) (drop m mem) (len - m) (object r) = Some (0, False, o1)"
    "read_all o1 = read_all (object r)"
    by (rule data_cb_same [OF at])
  have "callback_data W mem ev len len r k = k (r\<lparr>object := o1, marks := (\<lambda>e. None)\<rparr>)" for k
    using callback_data_done [OF err _ f(1,2)] m by (simp add: fun_upd_idem)
  then show ?thesis using err ob m f(3)
    by (cases ev) (simp_all add: flush_marks_def callback_data_none waits_def)
qed

lemma st_flush:
  assumes "st s mk cl u E n r" "len + 15 \<le> length mem" "\<And>ev m. mk = Some (ev, m) \<Longrightarrow> m \<le> len"
  shows "waits (exec_loop W mem len len r)"
  using flush_waits [of r mk len mem] assms by (simp add: exec_loop.simps [of W mem len len] st_def)

text \<open>One byte of the header.\<close>

lemma goes_byte:
  assumes step: "\<And>r. st s mk cl u E (p + 1) r \<Longrightarrow>
      \<exists>r'. exec_byte W mem len (mem ! p) p r = Some (Advance p r') \<and> P' r'"
    and header: "PARSING_HEADER s" "p < HTTP_MAX_HEADER_SIZE" and mk: "\<And>ev m. mk = Some (ev, m) \<Longrightarrow> m \<le> p"
  shows "goes mem len p (st s mk cl u E p) (p + 1) P'"
proof -
  have "(p + 1 \<le> len \<longrightarrow> (\<exists>r'. P' r' \<and> exec_loop W mem len p r = exec_loop W mem len (p + 1) r')) \<and>
      (p \<le> len \<longrightarrow> len < p + 1 \<longrightarrow> len + 15 \<le> length mem \<longrightarrow> waits (exec_loop W mem len p r))"
    if r: "st s mk cl u E p r" for r
  proof -
    have "HTTP_MAX_HEADER_SIZE < 2 ^ 32" by (simp add: HTTP_MAX_HEADER_SIZE_def)
    then have u: "u32 (p + 1) = p + 1" using header(2) by (simp add: u32_def)
    have c: "st s mk cl u E (p + 1) (count_byte r)"
      using r header(1) u by (simp add: st_def count_byte_def set_parser_def)
    have o: "\<not> header_overflow (count_byte r)" using c header(2) by (simp add: header_overflow_def st_def)
    from step [OF c] obtain r' where r': "exec_byte W mem len (mem ! p) p (count_byte r) = Some (Advance p r')" "P' r'" by blast
    have "exec_loop W mem len p r = exec_loop W mem len (p + 1) r'" if "p < len"
      using that o r'(1) by (simp add: exec_loop.simps [of W mem len p r])
    moreover have "waits (exec_loop W mem len p r)" if "p = len" "len + 15 \<le> length mem"
      using st_flush [OF r [unfolded that(1)] that(2)] that(1) mk by simp
    ultimately show ?thesis using r'(2) by (auto simp: less_Suc_eq)
  qed
  then show ?thesis by (simp add: goes_def)
qed

text \<open>A byte that is not executed again.\<close>

lemma exec_byte_advance:
  "byte_step S mem len ch p r = Some (Advance p1 r') \<Longrightarrow> exec_byte S mem len ch p r = Some (Advance p1 r')"
  by (simp add: exec_byte.simps)

section \<open>The first line\<close>

text \<open>Bytes with one way on.\<close>

definition const_table :: "((http_state \<times> char) \<times> http_state) list" where
  "const_table =
     [((s_req_http_start, CHR ''H''), s_req_http_H), ((s_req_http_H, CHR ''T''), s_req_http_HT),
      ((s_req_http_HT, CHR ''T''), s_req_http_HTT), ((s_req_http_HTT, CHR ''P''), s_req_http_HTTP),
      ((s_req_http_HTTP, CHR ''/''), s_req_first_http_major), ((s_req_first_http_major, CHR ''1''), s_req_http_major),
      ((s_req_http_major, CHR ''.''), s_req_first_http_minor), ((s_req_first_http_minor, CHR ''1''), s_req_http_minor),
      ((s_req_http_minor, CR), s_req_line_almost_done), ((s_req_line_almost_done, LF), s_header_field_start)]"

lemma const_step:
  assumes "((s, ch), s') \<in> set const_table" "st s None cl u E n r"
  shows "\<exists>r'. byte_step W mem len ch p r = Some (Advance p r') \<and> st s' None cl u E n r'"
  using assms unfolding const_table_def
  by (auto simp: byte_step_def st_def step_defs macro_defs isdigit_def IS_NUM_def digit_val_def Let_def)

fun const_path :: "http_state \<Rightarrow> string \<Rightarrow> http_state option" where
  "const_path s [] = Some s"
| "const_path s (c # cs) = Option.bind (map_of const_table (s, c)) (\<lambda>s'. const_path s' cs)"

lemma const_header: "(x, s') \<in> set const_table \<Longrightarrow> PARSING_HEADER (fst x)"
  by (auto simp: const_table_def PARSING_HEADER_def)

lemma drop_Cons: "drop p mem = c # cs \<Longrightarrow> mem ! p = c \<and> drop (p + 1) mem = cs \<and> p < length mem"
  by (metis Suc_eq_plus1 drop_eq_Nil2 hd_drop_conv_nth list.distinct(1) list.sel(1,3) not_le tl_drop drop_Suc)

lemma goes_const:
  assumes "const_path s cs = Some s'" "drop p mem = cs @ rest" "p + length cs \<le> HTTP_MAX_HEADER_SIZE"
  shows "goes mem len p (st s None cl u E p) (p + length cs) (st s' None cl u E (p + length cs))"
  using assms
proof (induction cs arbitrary: s p)
  case Nil
  then show ?case by (simp add: goes_refl)
next
  case (Cons c cs)
  from Cons.prems(1) obtain s1 where s1: "map_of const_table (s, c) = Some s1" "const_path s1 cs = Some s'"
    by (auto simp: bind_eq_Some_conv)
  note m = drop_Cons [of p mem c "cs @ rest"]
  have "((s, c), s1) \<in> set const_table" using s1(1) by (rule map_of_SomeD)
  then have "goes mem len p (st s None cl u E p) (p + 1) (st s1 None cl u E (p + 1))"
    using Cons.prems(2,3) m const_step [of s c s1 cl u E "p + 1"] const_header [of "(s, c)" s1]
    by (intro goes_byte) (auto intro: exec_byte_advance, blast intro: exec_byte_advance)
  also have "goes mem len (p + 1) (st s1 None cl u E (p + 1)) (p + 1 + length cs) (st s' None cl u E (p + 1 + length cs))"
    using Cons.prems(2,3) m by (intro Cons.IH [OF s1(2)]) simp_all
  finally show ?case by simp
qed

definition init_run :: "CHttpParserWrapper run" where
  "init_run = \<lparr>parser = http_parser_init HTTP_REQUEST, object = new_wrapper, marks = mark_of None\<rparr>"

lemma goes_P:
  assumes "mem ! 0 = CHR ''P''"
  shows "goes mem len 0 (\<lambda>r. r = init_run) 1 (st s_req_method None ULLONG_MAX [] (\<lambda>h i. i = 1) 1)"
proof -
  let ?r = "count_byte init_run"
  have "IS_ALPHA (CHR ''P'')" by code_simp
  then have "\<exists>r'. byte_step W mem len (CHR ''P'') 0 ?r = Some (Advance 0 r') \<and> st s_req_method None ULLONG_MAX [] (\<lambda>h i. i = 1) 1 r'"
    by (simp add: byte_step_def st_def init_run_def http_parser_init_def count_byte_def PARSING_HEADER_def start_req_step_def
        macro_defs callback_notify_def new_message_def first_method_def new_wrapper_def u32_def)
  then obtain r' where r': "byte_step W mem len (CHR ''P'') 0 ?r = Some (Advance 0 r')"
    "st s_req_method None ULLONG_MAX [] (\<lambda>h i. i = 1) 1 r'" by blast
  have o: "\<not> header_overflow ?r"
    by (simp add: header_overflow_def init_run_def count_byte_def http_parser_init_def HTTP_MAX_HEADER_SIZE_def u32_def PARSING_HEADER_def set_parser_def)
  have "exec_loop W mem len 0 init_run = exec_loop W mem len 1 r'" if "0 < len"
    using that o exec_byte_advance [OF r'(1)] assms by (simp add: exec_loop.simps [of W mem len 0])
  moreover have "waits (exec_loop W mem 0 0 init_run)" if "15 \<le> length mem"
    using flush_waits [of init_run None 0 mem] that
    by (simp add: exec_loop.simps [of W mem 0 0] init_run_def http_parser_init_def new_wrapper_def)
  ultimately show ?thesis using r'(2) by (auto simp: goes_def)
qed

lemma method_byte:
  assumes "st s_req_method mk cl u (\<lambda>h i. i = k) n r" "c_at ''POST'' k = Some x" "x \<noteq> NUL" "k < 255"
  shows "\<exists>r'. byte_step W mem len x p r = Some (Advance p r') \<and> st s_req_method mk cl u (\<lambda>h i. i = k + 1) n r'"
proof -
  have i: "p_index (parser r) = k" "p_method (parser r) = HTTP_POST" "p_state (parser r) = s_req_method"
    using assms(1) by (simp_all add: st_def)
  have x: "c_at (method_string HTTP_POST) k = Some x" using assms(2) by (simp add: method_string_def)
  have "byte_step W mem len x p r = Some (Advance p (set_parser (\<lambda>q. q\<lparr>p_index := u8 (k + 1)\<rparr>) r))"
    using assms(3) x by (simp add: byte_step_def i req_method_step_def)
  then show ?thesis using assms(1,4) by (simp add: st_def set_parser_def u8_def)
qed

lemma goes_method:
  assumes "mem ! p = x" "c_at ''POST'' k = Some x" "x \<noteq> NUL" "k < 255" "p < HTTP_MAX_HEADER_SIZE"
  shows "goes mem len p (st s_req_method None cl u (\<lambda>h i. i = k) p) (p + 1) (st s_req_method None cl u (\<lambda>h i. i = k + 1) (p + 1))"
proof (rule goes_byte)
  fix r :: "CHttpParserWrapper run"
  assume "st s_req_method None cl u (\<lambda>h i. i = k) (p + 1) r"
  from method_byte [OF this assms(2-4)]
  show "\<exists>r'. exec_byte W mem len (mem ! p) p r = Some (Advance p r') \<and> st s_req_method None cl u (\<lambda>h i. i = k + 1) (p + 1) r'"
    unfolding assms(1) using exec_byte_advance by blast
qed (use assms(5) in \<open>simp_all add: PARSING_HEADER_def\<close>)

lemma goes_method_end:
  assumes "mem ! p = CHR '' ''" "p < HTTP_MAX_HEADER_SIZE"
  shows "goes mem len p (st s_req_method None cl u (\<lambda>h i. i = 4) p) (p + 1) (st s_req_spaces_before_url None cl u anyE (p + 1))"
proof (rule goes_byte)
  fix r :: "CHttpParserWrapper run"
  assume r: "st s_req_method None cl u (\<lambda>h i. i = 4) (p + 1) r"
  then have i: "p_index (parser r) = 4" "p_method (parser r) = HTTP_POST" "p_state (parser r) = s_req_method"
    by (simp_all add: st_def)
  have x: "c_at (method_string HTTP_POST) 4 = Some NUL" by (simp add: method_string_def c_at_def)
  have "byte_step W mem len (CHR '' '') p r =
      Some (Advance p (to_state s_req_spaces_before_url (set_parser (\<lambda>q. q\<lparr>p_index := u8 (4 + 1)\<rparr>) r)))"
    using x by (simp add: byte_step_def i req_method_step_def next_state_def)
  then show "\<exists>r'. exec_byte W mem len (mem ! p) p r = Some (Advance p r') \<and> st s_req_spaces_before_url None cl u anyE (p + 1) r'"
    unfolding assms(1) using exec_byte_advance r by (fastforce simp: st_def to_state_def set_parser_def)
qed (use assms(2) in \<open>simp_all add: PARSING_HEADER_def\<close>)

lemma goes_POST:
  assumes "mem = ''POST '' @ rest"
  shows "goes mem len 0 (\<lambda>r. r = init_run) 5 (st s_req_spaces_before_url None ULLONG_MAX [] anyE 5)"
proof -
  have z: "4 < HTTP_MAX_HEADER_SIZE" by (simp add: HTTP_MAX_HEADER_SIZE_def)
  have m: "mem ! 0 = CHR ''P''" "mem ! 1 = CHR ''O''" "mem ! 2 = CHR ''S''" "mem ! 3 = CHR ''T''" "mem ! 4 = CHR '' ''"
    using assms by simp_all
  have c: "c_at ''POST'' 1 = Some CHR ''O''" "c_at ''POST'' 2 = Some CHR ''S''" "c_at ''POST'' 3 = Some CHR ''T''"
    by (simp_all add: c_at_def)
  have "goes mem len 0 (\<lambda>r. r = init_run) 1 (st s_req_method None ULLONG_MAX [] (\<lambda>h i. i = 1) 1)"
    by (rule goes_P [OF m(1)])
  also have "goes mem len 1 (st s_req_method None ULLONG_MAX [] (\<lambda>h i. i = 1) 1) (1 + 1)
      (st s_req_method None ULLONG_MAX [] (\<lambda>h i. i = 1 + 1) (1 + 1))"
    by (rule goes_method [OF m(2) c(1)]) (use z in simp_all)
  also have "1 + 1 = (2 :: nat)" by simp
  also have "goes mem len 2 (st s_req_method None ULLONG_MAX [] (\<lambda>h i. i = 2) 2) (2 + 1)
      (st s_req_method None ULLONG_MAX [] (\<lambda>h i. i = 2 + 1) (2 + 1))"
    by (rule goes_method [OF m(3) c(2)]) (use z in simp_all)
  also have "2 + 1 = (3 :: nat)" by simp
  also have "goes mem len 3 (st s_req_method None ULLONG_MAX [] (\<lambda>h i. i = 3) 3) (3 + 1)
      (st s_req_method None ULLONG_MAX [] (\<lambda>h i. i = 3 + 1) (3 + 1))"
    by (rule goes_method [OF m(4) c(3)]) (use z in simp_all)
  also have "3 + 1 = (4 :: nat)" by simp
  also have "goes mem len 4 (st s_req_method None ULLONG_MAX [] (\<lambda>h i. i = 4) 4) (4 + 1)
      (st s_req_spaces_before_url None ULLONG_MAX [] anyE (4 + 1))"
    by (rule goes_method_end [OF m(5) z])
  also have "4 + 1 = (5 :: nat)" by simp
  finally show ?thesis .
qed

text \<open>The URL: a path with legal bytes.\<close>

definition legal_url :: "string \<Rightarrow> bool" where
  "legal_url url \<longleftrightarrow> hd url = CHR ''/'' \<and> (\<forall>c \<in> set url. c \<noteq> CHR '' '' \<and> c \<noteq> CR \<and> c \<noteq> LF) \<and> url \<noteq> [] \<and>
     foldl parse_url_char s_req_path (tl url) \<noteq> s_dead"

definition path_states :: "http_state set" where
  "path_states = {s_req_path, s_req_query_string_start, s_req_query_string, s_req_fragment_start, s_req_fragment}"

lemma path_states_closed: "s \<in> path_states \<Longrightarrow> parse_url_char s c \<noteq> s_dead \<Longrightarrow> parse_url_char s c \<in> path_states"
  unfolding path_states_def
  by (elim insertE emptyE; simp only: parse_url_char_def Let_def http_state.case; simp split: if_splits)

lemma dead_stays: "foldl parse_url_char s_dead cs = s_dead"
proof (induction cs)
  case (Cons c cs)
  have "parse_url_char s_dead c = s_dead" by (simp add: parse_url_char_def)
  with Cons show ?case by simp
qed simp

lemma url_byte:
  assumes "st s mk cl u E n r" "s \<in> path_states" "c \<noteq> CHR '' ''" "c \<noteq> CR" "c \<noteq> LF" "parse_url_char s c \<noteq> s_dead"
  shows "\<exists>r'. byte_step W mem len c p r = Some (Advance p r') \<and> st (parse_url_char s c) mk cl u E n r'"
proof -
  have s: "p_state (parser r) = s" using assms(1) by (simp add: st_def)
  have "byte_step W mem len c p r = url_step W mem p c r"
    using assms(2) unfolding path_states_def byte_step_def s by (elim insertE emptyE; simp)
  also have "\<dots> = Some (Advance p (to_state (parse_url_char s c) r))"
    using assms(3-6) by (simp add: url_step_def url_char_def s Let_def to_state_def set_parser_def)
  finally show ?thesis using assms(1) by (simp add: st_def to_state_def set_parser_def)
qed

lemma goes_path:
  assumes "drop p mem = cs @ rest" "s \<in> path_states" "\<forall>c \<in> set cs. c \<noteq> CHR '' '' \<and> c \<noteq> CR \<and> c \<noteq> LF"
    and "foldl parse_url_char s cs \<noteq> s_dead" "p + length cs \<le> HTTP_MAX_HEADER_SIZE" "m \<le> p"
  shows "goes mem len p (\<lambda>r. st s (Some (Url, m)) cl u E p r) (p + length cs)
    (\<lambda>r. \<exists>s' \<in> path_states. st s' (Some (Url, m)) cl u E (p + length cs) r)"
  using assms
proof (induction cs arbitrary: s p)
  case Nil
  then show ?case by (auto intro: goes_refl)
next
  case (Cons c cs)
  have d: "mem ! p = c" "drop (p + 1) mem = cs @ rest" using drop_Cons [of p mem c "cs @ rest"] Cons.prems(1) by simp_all
  have nd: "parse_url_char s c \<noteq> s_dead" using Cons.prems(4) dead_stays by auto
  have c: "c \<noteq> CHR '' ''" "c \<noteq> CR" "c \<noteq> LF" using Cons.prems(3) by simp_all
  have hd: "PARSING_HEADER s" using Cons.prems(2) unfolding path_states_def by (elim insertE emptyE; simp add: PARSING_HEADER_def)
  have "goes mem len p (st s (Some (Url, m)) cl u E p) (p + 1) (st (parse_url_char s c) (Some (Url, m)) cl u E (p + 1))"
  proof (rule goes_byte [OF _ hd])
    fix r :: "CHttpParserWrapper run"
    assume "st s (Some (Url, m)) cl u E (p + 1) r"
    from url_byte [OF this Cons.prems(2) c nd]
    show "\<exists>r'. exec_byte W mem len (mem ! p) p r = Some (Advance p r') \<and> st (parse_url_char s c) (Some (Url, m)) cl u E (p + 1) r'"
      unfolding d(1) using exec_byte_advance by blast
  next
    show "p < HTTP_MAX_HEADER_SIZE" using Cons.prems(5) by simp
  next
    show "m' \<le> p" if "Some (Url, m) = Some (ev, m')" for ev m' using that Cons.prems(6) by simp
  qed
  also have "goes mem len (p + 1) (st (parse_url_char s c) (Some (Url, m)) cl u E (p + 1)) (p + 1 + length cs)
      (\<lambda>r. \<exists>s' \<in> path_states. st s' (Some (Url, m)) cl u E (p + 1 + length cs) r)"
  proof (rule Cons.IH [OF d(2) path_states_closed [OF Cons.prems(2) nd]])
    show "\<forall>c \<in> set cs. c \<noteq> CHR '' '' \<and> c \<noteq> CR \<and> c \<noteq> LF" using Cons.prems(3) by simp
    show "foldl parse_url_char (parse_url_char s c) cs \<noteq> s_dead" using Cons.prems(4) by simp
    show "p + 1 + length cs \<le> HTTP_MAX_HEADER_SIZE" using Cons.prems(5) by simp
    show "m \<le> p + 1" using Cons.prems(6) by simp
  qed
  finally show ?case by simp
qed

lemma goes_ex:
  assumes "p \<le> p'" "\<And>s. s \<in> A \<Longrightarrow> goes mem len p (P s) p' P'"
  shows "goes mem len p (\<lambda>r. \<exists>s \<in> A. P s r) p' P'"
  using assms unfolding goes_def by blast

lemma goes_or:
  "goes mem len p P1 p' P' \<Longrightarrow> goes mem len p P2 p' P' \<Longrightarrow> goes mem len p (\<lambda>r. P1 r \<or> P2 r) p' P'"
  unfolding goes_def by blast

lemma goes_mono:
  "goes mem len p P p' P' \<Longrightarrow> (\<And>r. P' r \<Longrightarrow> Q' r) \<Longrightarrow> goes mem len p P p' Q'"
  unfolding goes_def by blast

lemma goes_slash:
  assumes "mem ! p = CHR ''/''" "p < HTTP_MAX_HEADER_SIZE"
  shows "goes mem len p (st s_req_spaces_before_url None cl u E p) (p + 1) (st s_req_path (Some (Url, p)) cl u E (p + 1))"
proof (rule goes_byte)
  fix r :: "CHttpParserWrapper run"
  assume r: "st s_req_spaces_before_url None cl u E (p + 1) r"
  have "parse_url_char s_req_spaces_before_url (CHR ''/'') = s_req_path" by (simp add: parse_url_char_def)
  then have "byte_step W mem len (CHR ''/'') p r = Some (Advance p (to_state s_req_path (MARK Url p r)))"
    using r by (simp add: byte_step_def st_def spaces_before_url_step_def url_char_def MARK_def mark_of_def to_state_def
        set_parser_def Let_def)
  moreover have "st s_req_path (Some (Url, p)) cl u E (p + 1) (to_state s_req_path (MARK Url p r))"
    using r by (simp add: st_def MARK_def mark_of_def to_state_def set_parser_def)
  ultimately show "\<exists>r'. exec_byte W mem len (mem ! p) p r = Some (Advance p r') \<and> st s_req_path (Some (Url, p)) cl u E (p + 1) r'"
    unfolding assms(1) using exec_byte_advance by blast
qed (use assms(2) in \<open>simp_all add: PARSING_HEADER_def\<close>)

text \<open>A byte that ends a piece of data and goes to another state.\<close>

lemma end_piece:
  assumes r: "st s (Some (ev, m)) cl u E n r" and f: "data_cb ev W = Some f"
    and f1: "f (parser (to_state s' r)) (drop m mem) (p - m) (object r) = Some (0, False, obj)"
    and obj: "read_all obj = read_all (object r)" "url_text obj = u'" "body_content obj = []"
  shows "\<exists>r'. CALLBACK_DATA W mem ev p (to_state s' r) = Some (Advance p r') \<and> st s' None cl u' E n r'"
proof -
  have m: "marks (to_state s' r) ev = Some m" "(marks (to_state s' r))(ev := None) = mark_of None"
    and e: "http_errno (parser (to_state s' r)) = HPE_OK" and o: "object (to_state s' r) = object r"
    using r by (auto simp: st_def mark_of_def to_state_def set_parser_def)
  have "CALLBACK_DATA W mem ev p (to_state s' r) =
      Some (Advance p ((to_state s' r)\<lparr>object := obj, marks := mark_of None\<rparr>))"
    unfolding CALLBACK_DATA_def using callback_data_done [OF e m(1) f, of mem p obj "p + 1"] f1 m(2) o by simp
  moreover have "st s' None cl u' E n ((to_state s' r)\<lparr>object := obj, marks := mark_of None\<rparr>)"
    using r obj by (simp add: st_def to_state_def set_parser_def)
  ultimately show ?thesis by blast
qed

lemma goes_url_end:
  assumes "mem ! p = CHR '' ''" "p < HTTP_MAX_HEADER_SIZE" "m \<le> p" "s \<in> path_states"
  shows "goes mem len p (st s (Some (Url, m)) cl u E p) (p + 1) (st s_req_http_start None cl (u @ take (p - m) (drop m mem)) E (p + 1))"
proof (rule goes_byte)
  fix r :: "CHttpParserWrapper run"
  assume r: "st s (Some (Url, m)) cl u E (p + 1) r"
  then have s: "p_state (parser r) = s" by (simp add: st_def)
  have "byte_step W mem len (CHR '' '') p r = CALLBACK_DATA W mem Url p (to_state s_req_http_start r)"
    using assms(4) unfolding path_states_def byte_step_def s by (elim insertE emptyE; simp add: url_step_def)
  moreover have "\<exists>r'. CALLBACK_DATA W mem Url p (to_state s_req_http_start r) = Some (Advance p r') \<and>
      st s_req_http_start None cl (u @ take (p - m) (drop m mem)) E (p + 1) r'"
    by (rule end_piece [OF r, where f = OnUrl and obj = "(object r)\<lparr>url_text := u @ take (p - m) (drop m mem)\<rparr>"])
      (use r in \<open>simp_all add: OnUrl_def st_def\<close>)
  ultimately show "\<exists>r'. exec_byte W mem len (mem ! p) p r = Some (Advance p r') \<and>
      st s_req_http_start None cl (u @ take (p - m) (drop m mem)) E (p + 1) r'"
    unfolding assms(1) using exec_byte_advance by metis
next
  show "PARSING_HEADER s" using assms(4) unfolding path_states_def by (elim insertE emptyE; simp add: PARSING_HEADER_def)
qed (use assms(2,3) in auto)

definition first_line :: "string \<Rightarrow> string" where
  "first_line url = ''POST '' @ url @ '' HTTP/1.1'' @ CRLF"

lemma goes_first_line:
  assumes mem: "mem = first_line url @ rest" and url: "legal_url url" and len: "length (first_line url) \<le> HTTP_MAX_HEADER_SIZE"
  shows "goes mem len 0 (\<lambda>r. r = init_run) (length (first_line url)) (st s_header_field_start None ULLONG_MAX url anyE (length (first_line url)))"
proof -
  obtain cs where cs: "url = CHR ''/'' # cs" using url by (cases url) (simp_all add: legal_url_def)
  let ?tail = "''HTTP/1.1'' @ CRLF @ rest" and ?n = "6 + length cs"
  have total: "length (first_line url) = ?n + 1 + 10" "first_line url = ''POST '' @ CHR ''/'' # cs @ CHR '' '' # ''HTTP/1.1'' @ CRLF"
    by (simp_all add: first_line_def cs)
  then have m: "mem = ''POST '' @ CHR ''/'' # cs @ CHR '' '' # ?tail" using mem by simp
  then have m1: "mem ! 5 = CHR ''/''" "drop 6 mem = cs @ CHR '' '' # ?tail" by simp_all
  have "drop ?n mem = drop (length cs) (drop 6 mem)" by (simp add: add.commute)
  then have m2: "drop ?n mem = CHR '' '' # ?tail" using m1(2) by simp
  note m3 = drop_Cons [OF m2]
  have u: "take (?n - 5) (drop 5 mem) = url" using m cs by simp
  have "goes mem len 0 (\<lambda>r. r = init_run) 5 (st s_req_spaces_before_url None ULLONG_MAX [] anyE 5)"
    by (rule goes_POST [of mem "CHR ''/'' # cs @ CHR '' '' # ?tail"]) (simp add: m)
  also have "goes mem len 5 (st s_req_spaces_before_url None ULLONG_MAX [] anyE 5) (5 + 1)
      (st s_req_path (Some (Url, 5)) ULLONG_MAX [] anyE (5 + 1))"
    by (rule goes_slash [OF m1(1)]) (use len total in simp)
  also have "5 + 1 = (6 :: nat)" by simp
  also have "goes mem len 6 (st s_req_path (Some (Url, 5)) ULLONG_MAX [] anyE 6) ?n
      (\<lambda>r. \<exists>s' \<in> path_states. st s' (Some (Url, 5)) ULLONG_MAX [] anyE ?n r)"
    by (rule goes_path [OF m1(2)]) (use url len total cs in \<open>auto simp: path_states_def legal_url_def\<close>)
  also have "goes mem len ?n (\<lambda>r. \<exists>s' \<in> path_states. st s' (Some (Url, 5)) ULLONG_MAX [] anyE ?n r) (?n + 1)
      (st s_req_http_start None ULLONG_MAX ([] @ take (?n - 5) (drop 5 mem)) anyE (?n + 1))"
    by (rule goes_ex) (simp, rule goes_url_end, use m3 len total in simp_all)
  also have "[] @ take (?n - 5) (drop 5 mem) = url" using u by simp
  also have "goes mem len (?n + 1) (st s_req_http_start None ULLONG_MAX url anyE (?n + 1)) (?n + 1 + length (''HTTP/1.1'' @ CRLF))
      (st s_header_field_start None ULLONG_MAX url anyE (?n + 1 + length (''HTTP/1.1'' @ CRLF)))"
    by (rule goes_const) (use m3 len total in \<open>simp_all add: const_table_def\<close>)
  also have "?n + 1 + length (''HTTP/1.1'' @ CRLF) = length (first_line url)" using total(1) by simp
  finally show ?thesis .
qed

section \<open>Headers\<close>

text \<open>At the beginning of a line, after a header or not.\<close>

definition line_start :: "nat \<Rightarrow> string \<Rightarrow> nat \<Rightarrow> CHttpParserWrapper run \<Rightarrow> bool" where
  "line_start cl u n r \<longleftrightarrow> st s_header_field_start None cl u anyE n r \<or> st s_header_value_lws None cl u anyE n r"

lemma goes_line_start:
  assumes "mem ! p \<noteq> CHR '' ''" "mem ! p \<noteq> TAB" "p < HTTP_MAX_HEADER_SIZE"
    and step: "\<And>r. st s_header_field_start None cl u anyE (p + 1) r \<Longrightarrow>
      \<exists>r'. byte_step W mem len (mem ! p) p r = Some (Advance p r') \<and> P' r'"
  shows "goes mem len p (line_start cl u p) (p + 1) P'"
proof -
  have "goes mem len p (st s_header_field_start None cl u anyE p) (p + 1) P'"
    by (rule goes_byte) (use step exec_byte_advance assms(3) in \<open>auto simp: PARSING_HEADER_def, blast\<close>)
  moreover have "goes mem len p (st s_header_value_lws None cl u anyE p) (p + 1) P'"
  proof (rule goes_byte)
    fix r :: "CHttpParserWrapper run"
    assume r: "st s_header_value_lws None cl u anyE (p + 1) r"
    have "byte_step W mem len (mem ! p) p r = Some (Reexecute p (to_state s_header_field_start r))"
      using r assms(1,2) by (simp add: byte_step_def st_def header_value_lws_step_def)
    moreover have "st s_header_field_start None cl u anyE (p + 1) (to_state s_header_field_start r)"
      using r by (simp add: st_def to_state_def set_parser_def)
    from step [OF this] obtain r' where
      "byte_step W mem len (mem ! p) p (to_state s_header_field_start r) = Some (Advance p r')" "P' r'" by blast
    ultimately show "\<exists>r'. exec_byte W mem len (mem ! p) p r = Some (Advance p r') \<and> P' r'"
      using exec_byte_advance by (fastforce simp: exec_byte.simps [of W mem len "mem ! p" p r])
  qed (use assms(3) in \<open>simp_all add: PARSING_HEADER_def\<close>)
  ultimately have "goes mem len p (\<lambda>r. st s_header_field_start None cl u anyE p r \<or> st s_header_value_lws None cl u anyE p r) (p + 1) P'"
    by (rule goes_or)
  then show ?thesis unfolding line_start_def .
qed

text \<open>The name.\<close>

definition header_match :: "char \<Rightarrow> header_states" where
  "header_match ch = (let c = TOKEN ch in
     if c = CHR ''c'' then h_C else if c = CHR ''p'' then h_matching_proxy_connection
     else if c = CHR ''t'' then h_matching_transfer_encoding else if c = CHR ''u'' then h_matching_upgrade else h_general)"

fun name_end :: "string \<Rightarrow> header_states \<Rightarrow> nat \<Rightarrow> (header_states \<times> nat) option" where
  "name_end [] h i = Some (h, i)"
| "name_end (c # cs) h i = do { (h1, i1) \<leftarrow> match_field h i c; name_end cs h1 i1 }"

abbreviation at_match :: "header_states \<Rightarrow> nat \<Rightarrow> header_states \<Rightarrow> nat \<Rightarrow> bool" where
  "at_match h i \<equiv> (\<lambda>h' i'. h' = h \<and> i' = i)"

lemma goes_name_start:
  assumes "mem ! p = c" "TOKEN c \<noteq> NUL" "c \<noteq> CR" "c \<noteq> LF" "c \<noteq> CHR '' ''" "c \<noteq> TAB" "p < HTTP_MAX_HEADER_SIZE"
  shows "goes mem len p (line_start cl u p) (p + 1) (st s_header_field (Some (Header_field, p)) cl u (at_match (header_match c) 0) (p + 1))"
proof (rule goes_line_start)
  fix r :: "CHttpParserWrapper run"
  assume r: "st s_header_field_start None cl u anyE (p + 1) r"
  then show "\<exists>r'. byte_step W mem len (mem ! p) p r = Some (Advance p r') \<and>
      st s_header_field (Some (Header_field, p)) cl u (at_match (header_match c) 0) (p + 1) r'"
    using assms by (simp add: byte_step_def st_def header_field_start_step_def Let_def set_parser_def MARK_def mark_of_def header_match_def)
qed (use assms in simp_all)

lemma goes_name:
  assumes "drop p mem = cs @ rest" "\<forall>c \<in> set cs. TOKEN c \<noteq> NUL" "name_end cs h i = Some (h', i')"
    and "p + length cs \<le> HTTP_MAX_HEADER_SIZE" "m \<le> p"
  shows "goes mem len p (st s_header_field (Some (Header_field, m)) cl u (at_match h i) p) (p + length cs)
    (st s_header_field (Some (Header_field, m)) cl u (at_match h' i') (p + length cs))"
  using assms
proof (induction cs arbitrary: h i p)
  case Nil
  then show ?case by (simp add: goes_refl)
next
  case (Cons c cs)
  have d: "mem ! p = c" "drop (p + 1) mem = cs @ rest" using drop_Cons [of p mem c "cs @ rest"] Cons.prems(1) by simp_all
  obtain h1 i1 where h1: "match_field h i c = Some (h1, i1)" "name_end cs h1 i1 = Some (h', i')"
    using Cons.prems(3) by (auto simp: bind_eq_Some_conv)
  have "goes mem len p (st s_header_field (Some (Header_field, m)) cl u (at_match h i) p) (p + 1)
      (st s_header_field (Some (Header_field, m)) cl u (at_match h1 i1) (p + 1))"
  proof (rule goes_byte)
    fix r :: "CHttpParserWrapper run"
    assume r: "st s_header_field (Some (Header_field, m)) cl u (at_match h i) (p + 1) r"
    have "byte_step W mem len c p r = Some (Advance p (set_parser (\<lambda>q. q\<lparr>header_state := h1, p_index := i1\<rparr>) r))"
      using r h1(1) Cons.prems(2) by (simp add: byte_step_def st_def header_field_step_def)
    moreover have "st s_header_field (Some (Header_field, m)) cl u (at_match h1 i1) (p + 1)
        (set_parser (\<lambda>q. q\<lparr>header_state := h1, p_index := i1\<rparr>) r)" using r by (simp add: st_def set_parser_def)
    ultimately show "\<exists>r'. exec_byte W mem len (mem ! p) p r = Some (Advance p r') \<and>
        st s_header_field (Some (Header_field, m)) cl u (at_match h1 i1) (p + 1) r'"
      unfolding d(1) using exec_byte_advance by blast
  qed (use Cons.prems in \<open>simp_all add: PARSING_HEADER_def\<close>)
  also have "goes mem len (p + 1) (st s_header_field (Some (Header_field, m)) cl u (at_match h1 i1) (p + 1)) (p + 1 + length cs)
      (st s_header_field (Some (Header_field, m)) cl u (at_match h' i') (p + 1 + length cs))"
    by (rule Cons.IH [OF d(2) _ h1(2)]) (use Cons.prems in simp_all)
  finally show ?case by simp
qed

lemma goes_colon:
  assumes "mem ! p = CHR '':''" "p < length mem" "p < HTTP_MAX_HEADER_SIZE" "m \<le> p"
  shows "goes mem len p (st s_header_field (Some (Header_field, m)) cl u E p) (p + 1) (st s_header_value_start None cl u E (p + 1))"
proof (rule goes_byte)
  fix r :: "CHttpParserWrapper run"
  assume r: "st s_header_field (Some (Header_field, m)) cl u E (p + 1) r"
  have "TOKEN (CHR '':'') = NUL" by code_simp
  then have "byte_step W mem len (CHR '':'') p r = CALLBACK_DATA W mem Header_field p (to_state s_header_value_start r)"
    using r by (simp add: byte_step_def st_def header_field_step_def)
  moreover have "CHR '':'' \<in> set (drop m mem)"
    using assms(1,2,4) nth_mem [of "p - m" "drop m mem"] by simp
  then obtain o1 where o1: "OnHeaderField (parser (to_state s_header_value_start r)) (drop m mem) (p - m) (object r) = Some (0, False, o1)"
    "same_request o1 (object r)" using OnHeaderField_same by blast
  have "\<exists>r'. CALLBACK_DATA W mem Header_field p (to_state s_header_value_start r) = Some (Advance p r') \<and>
      st s_header_value_start None cl u E (p + 1) r'"
    by (rule end_piece [OF r, where f = OnHeaderField and obj = o1]) (use r o1 in \<open>simp_all add: st_def same_request_def\<close>)
  ultimately show "\<exists>r'. exec_byte W mem len (mem ! p) p r = Some (Advance p r') \<and> st s_header_value_start None cl u E (p + 1) r'"
    unfolding assms(1) using exec_byte_advance by metis
qed (use assms in \<open>simp_all add: PARSING_HEADER_def\<close>)

lemma goes_value_space:
  assumes "mem ! p = CHR '' ''" "p < HTTP_MAX_HEADER_SIZE"
  shows "goes mem len p (st s_header_value_start None cl u E p) (p + 1) (st s_header_value_start None cl u E (p + 1))"
proof (rule goes_byte)
  fix r :: "CHttpParserWrapper run"
  assume r: "st s_header_value_start None cl u E (p + 1) r"
  then have "byte_step W mem len (CHR '' '') p r = Some (Advance p r)"
    by (simp add: byte_step_def st_def header_value_start_step_def)
  with r show "\<exists>r'. exec_byte W mem len (mem ! p) p r = Some (Advance p r') \<and> st s_header_value_start None cl u E (p + 1) r'"
    unfolding assms(1) using exec_byte_advance by blast
qed (use assms(2) in \<open>simp_all add: PARSING_HEADER_def\<close>)

end
