(* ===== verification/Http_Requests.thy ===== *)
theory Http_Requests
  imports Http_Scan
begin

text \<open>
  Whole requests: values, the end of the header and the body, and what \<open>ParseHttpContent\<close> makes of a POST that
  has arrived in full or in part.
\<close>

section \<open>Values\<close>

definition value_states :: "header_states set" where
  "value_states = {h_general, h_matching_connection_keep_alive, h_matching_connection_close, h_connection_keep_alive,
     h_connection_close}"

abbreviation in_value :: "header_states \<Rightarrow> nat \<Rightarrow> bool" where "in_value \<equiv> (\<lambda>h i. h \<in> value_states)"

definition plain_state :: "header_states \<Rightarrow> bool" where
  "plain_state h \<longleftrightarrow> h \<noteq> h_upgrade \<and> h \<noteq> h_transfer_encoding \<and> h \<noteq> h_content_length"

lemma goes_value_first:
  assumes "mem ! p = c" "c \<noteq> CHR '' ''" "c \<noteq> TAB" "c \<noteq> CR" "c \<noteq> LF" "plain_state h" "p < HTTP_MAX_HEADER_SIZE"
  shows "goes mem len p (st s_header_value_start None cl u (at_match h i) p) (p + 1)
    (st s_header_value (Some (Header_value, p)) cl u in_value (p + 1))"
proof (rule goes_byte)
  fix r :: "CHttpParserWrapper run"
  assume r: "st s_header_value_start None cl u (at_match h i) (p + 1) r"
  then have s: "p_state (parser r) = s_header_value_start" and h: "header_state (parser r) = h" by (simp_all add: st_def)
  let ?r = "set_parser (\<lambda>q. q\<lparr>p_state := s_header_value, p_index := 0\<rparr>) (MARK Header_value p r)"
  have m: "st s_header_value (Some (Header_value, p)) cl u (at_match h 0) (p + 1) ?r"
    using r by (simp add: st_def MARK_def mark_of_def set_parser_def)
  have "\<exists>h' \<in> value_states. byte_step W mem len c p r = Some (Advance p (set_parser (\<lambda>q. q\<lparr>header_state := h'\<rparr>) ?r))"
    using assms(2-6) h s by (cases h) (auto simp: byte_step_def header_value_start_step_def Let_def set_parser_def MARK_def
        plain_state_def value_states_def)
  then obtain h' where h': "h' \<in> value_states"
    "byte_step W mem len c p r = Some (Advance p (set_parser (\<lambda>q. q\<lparr>header_state := h'\<rparr>) ?r))" by blast
  have "st s_header_value (Some (Header_value, p)) cl u in_value (p + 1) (set_parser (\<lambda>q. q\<lparr>header_state := h'\<rparr>) ?r)"
    using m h'(1) by (simp add: st_def set_parser_def)
  with h'(2) show "\<exists>r'. exec_byte W mem len (mem ! p) p r = Some (Advance p r') \<and>
      st s_header_value (Some (Header_value, p)) cl u in_value (p + 1) r'"
    unfolding assms(1) using exec_byte_advance by blast
qed (use assms(7) in \<open>simp_all add: PARSING_HEADER_def\<close>)

lemma match_value_state:
  assumes "h \<in> value_states" "c \<noteq> CR" "c \<noteq> LF" "p_state (parser r) = s_header_value" "header_state (parser r) = h"
  shows "\<exists>h' i'. h' \<in> value_states \<and>
    byte_step W mem len c p r = Some (Advance p (set_parser (\<lambda>q. q\<lparr>header_state := h', p_index := i'\<rparr>) r))"
proof -
  have w: "match_word w h h1 j x \<in> {h_general, h, h1}" for w h1 j x by (simp add: match_word_def)
  have "\<exists>h' i'. h' \<in> value_states \<and> header_value_step W mem p c r =
      Some (Advance p (r\<lparr>parser := (parser r)\<lparr>header_state := h', p_index := i'\<rparr>\<rparr>))"
    using assms(1) [unfolded value_states_def]
  proof (elim insertE emptyE)
    assume "h = h_general"
    then have "r\<lparr>parser := (parser r)\<lparr>header_state := h_general, p_index := p_index (parser r)\<rparr>\<rparr> = r" using assms(5) by simp
    then show ?thesis using \<open>h = h_general\<close> assms(2,3,5)
      by (intro exI [of _ h_general] exI [of _ "p_index (parser r)"]) (simp add: header_value_step_def value_states_def)
  next
    assume h: "h = h_matching_connection_keep_alive"
    let ?i = "u8 (p_index (parser r) + 1)"
    show ?thesis using h assms(2,3,5) w [of "''keep-alive''" h_connection_keep_alive ?i "LOWER c"]
      by (intro exI [of _ "match_word ''keep-alive'' h h_connection_keep_alive ?i (LOWER c)"] exI [of _ ?i])
        (auto simp: header_value_step_def Let_def set_parser_def value_states_def)
  next
    assume h: "h = h_matching_connection_close"
    let ?i = "u8 (p_index (parser r) + 1)"
    show ?thesis using h assms(2,3,5) w [of "''close''" h_connection_close ?i "LOWER c"]
      by (intro exI [of _ "match_word ''close'' h h_connection_close ?i (LOWER c)"] exI [of _ ?i])
        (auto simp: header_value_step_def Let_def set_parser_def value_states_def)
  next
    assume h: "h = h_connection_keep_alive"
    show ?thesis using h assms(2,3,5)
      by (intro exI [of _ "if c \<noteq> CHR '' '' then h_general else h"] exI [of _ "p_index (parser r)"])
        (auto simp: header_value_step_def Let_def set_parser_def value_states_def)
  next
    assume h: "h = h_connection_close"
    show ?thesis using h assms(2,3,5)
      by (intro exI [of _ "if c \<noteq> CHR '' '' then h_general else h"] exI [of _ "p_index (parser r)"])
        (auto simp: header_value_step_def Let_def set_parser_def value_states_def)
  qed
  then show ?thesis using assms(4) by (simp add: byte_step_def set_parser_def)
qed

lemma goes_value:
  assumes "drop p mem = cs @ rest" "\<forall>c \<in> set cs. c \<noteq> CR \<and> c \<noteq> LF" "p + length cs \<le> HTTP_MAX_HEADER_SIZE" "m \<le> p"
  shows "goes mem len p (st s_header_value (Some (Header_value, m)) cl u in_value p) (p + length cs)
    (st s_header_value (Some (Header_value, m)) cl u in_value (p + length cs))"
  using assms
proof (induction cs arbitrary: p)
  case Nil
  then show ?case by (simp add: goes_refl)
next
  case (Cons c cs)
  have d: "mem ! p = c" "drop (p + 1) mem = cs @ rest" using drop_Cons [of p mem c "cs @ rest"] Cons.prems(1) by simp_all
  have "goes mem len p (st s_header_value (Some (Header_value, m)) cl u in_value p) (p + 1)
      (st s_header_value (Some (Header_value, m)) cl u in_value (p + 1))"
  proof (rule goes_byte)
    fix r :: "CHttpParserWrapper run"
    assume r: "st s_header_value (Some (Header_value, m)) cl u in_value (p + 1) r"
    obtain h' i' where h': "h' \<in> value_states"
      "byte_step W mem len c p r = Some (Advance p (set_parser (\<lambda>q. q\<lparr>header_state := h', p_index := i'\<rparr>) r))"
      using match_value_state [of "header_state (parser r)" c r mem len p] r Cons.prems(2) by (auto simp: st_def)
    moreover have "st s_header_value (Some (Header_value, m)) cl u in_value (p + 1)
        (set_parser (\<lambda>q. q\<lparr>header_state := h', p_index := i'\<rparr>) r)" using r h'(1) by (simp add: st_def set_parser_def)
    ultimately show "\<exists>r'. exec_byte W mem len (mem ! p) p r = Some (Advance p r') \<and>
        st s_header_value (Some (Header_value, m)) cl u in_value (p + 1) r'"
      unfolding d(1) using exec_byte_advance by blast
  qed (use Cons.prems in \<open>simp_all add: PARSING_HEADER_def\<close>)
  also have "goes mem len (p + 1) (st s_header_value (Some (Header_value, m)) cl u in_value (p + 1)) (p + 1 + length cs)
      (st s_header_value (Some (Header_value, m)) cl u in_value (p + 1 + length cs))"
    by (rule Cons.IH [OF d(2)]) (use Cons.prems in simp_all)
  finally show ?case by simp
qed

text \<open>A number.\<close>

lemma goes_number_first:
  assumes "mem ! p = c" "isdigit c" "p < HTTP_MAX_HEADER_SIZE"
  shows "goes mem len p (st s_header_value_start None cl u (at_match h_content_length i) p) (p + 1)
    (st s_header_value (Some (Header_value, p)) (digit_val c) u (\<lambda>h i. h = h_content_length) (p + 1))"
proof (rule goes_byte)
  fix r :: "CHttpParserWrapper run"
  assume r: "st s_header_value_start None cl u (at_match h_content_length i) (p + 1) r"
  let ?r = "set_parser (\<lambda>q. q\<lparr>p_state := s_header_value, p_index := 0, content_length := digit_val c\<rparr>) (MARK Header_value p r)"
  have n: "c \<noteq> CHR '' ''" "c \<noteq> TAB" "c \<noteq> CR" "c \<noteq> LF" using assms(2) by (auto simp: isdigit_def)
  have "byte_step W mem len c p r = Some (Advance p ?r)"
    using r n assms(2) by (simp add: byte_step_def st_def header_value_start_step_def Let_def set_parser_def MARK_def IS_NUM_def)
  moreover have "st s_header_value (Some (Header_value, p)) (digit_val c) u (\<lambda>h i. h = h_content_length) (p + 1) ?r"
    using r by (simp add: st_def set_parser_def MARK_def mark_of_def)
  ultimately show "\<exists>r'. exec_byte W mem len (mem ! p) p r = Some (Advance p r') \<and>
      st s_header_value (Some (Header_value, p)) (digit_val c) u (\<lambda>h i. h = h_content_length) (p + 1) r'"
    unfolding assms(1) using exec_byte_advance by blast
qed (use assms(3) in \<open>simp_all add: PARSING_HEADER_def\<close>)

lemma foldl_grows: "a \<le> foldl (\<lambda>v c. 10 * v + digit_val c) a xs"
proof (induction xs arbitrary: a)
  case (Cons x xs)
  have "a \<le> 10 * a + digit_val x" by simp
  also have "\<dots> \<le> foldl (\<lambda>v c. 10 * v + digit_val c) (10 * a + digit_val x) xs" by (rule Cons)
  finally show ?case by simp
qed simp

lemma goes_number:
  assumes "drop p mem = cs @ rest" "\<forall>c \<in> set cs. isdigit c" "p + length cs \<le> HTTP_MAX_HEADER_SIZE" "m \<le> p"
    and "undec (ds @ cs) < ULLONG_MAX"
  shows "goes mem len p (st s_header_value (Some (Header_value, m)) (undec ds) u (\<lambda>h i. h = h_content_length) p) (p + length cs)
    (st s_header_value (Some (Header_value, m)) (undec (ds @ cs)) u (\<lambda>h i. h = h_content_length) (p + length cs))"
  using assms
proof (induction cs arbitrary: p ds)
  case Nil
  then show ?case by (simp add: goes_refl)
next
  case (Cons c cs)
  have d: "mem ! p = c" "drop (p + 1) mem = cs @ rest" using drop_Cons [of p mem c "cs @ rest"] Cons.prems(1) by simp_all
  have c: "isdigit c" using Cons.prems(2) by simp
  then have nc: "c \<noteq> CR" "c \<noteq> LF" "c \<noteq> CHR '' ''" by (auto simp: isdigit_def)
  have small: "undec ds * 10 + digit_val c < ULLONG_MAX"
    using Cons.prems(5) foldl_grows [of "10 * undec ds + digit_val c" cs] by (simp add: undec_def)
  then have u: "u64 (u64 (undec ds * 10) + digit_val c) = undec ds * 10 + digit_val c"
    and not_less: "\<not> undec ds * 10 + digit_val c < undec ds" "undec ds * 10 + digit_val c \<noteq> ULLONG_MAX"
    by (simp_all add: u64_def ULLONG_MAX_def)
  have "goes mem len p (st s_header_value (Some (Header_value, m)) (undec ds) u (\<lambda>h i. h = h_content_length) p) (p + 1)
      (st s_header_value (Some (Header_value, m)) (undec (ds @ [c])) u (\<lambda>h i. h = h_content_length) (p + 1))"
  proof (rule goes_byte)
    fix r :: "CHttpParserWrapper run"
    assume r: "st s_header_value (Some (Header_value, m)) (undec ds) u (\<lambda>h i. h = h_content_length) (p + 1) r"
    have "byte_step W mem len c p r = Some (Advance p (set_parser (\<lambda>q. q\<lparr>content_length := undec ds * 10 + digit_val c\<rparr>) r))"
    proof -
      have s: "p_state (parser r) = s_header_value" "header_state (parser r) = h_content_length" "content_length (parser r) = undec ds"
        using r by (simp_all add: st_def)
      show ?thesis unfolding byte_step_def s http_state.case header_value_step_def Let_def header_states.case IS_NUM_def u
        using nc c not_less by simp
    qed
    moreover have "st s_header_value (Some (Header_value, m)) (undec (ds @ [c])) u (\<lambda>h i. h = h_content_length) (p + 1)
        (set_parser (\<lambda>q. q\<lparr>content_length := undec ds * 10 + digit_val c\<rparr>) r)"
      using r by (simp add: st_def set_parser_def undec_snoc)
    ultimately show "\<exists>r'. exec_byte W mem len (mem ! p) p r = Some (Advance p r') \<and>
        st s_header_value (Some (Header_value, m)) (undec (ds @ [c])) u (\<lambda>h i. h = h_content_length) (p + 1) r'"
      unfolding d(1) using exec_byte_advance by blast
  qed (use Cons.prems in \<open>simp_all add: PARSING_HEADER_def\<close>)
  also have "goes mem len (p + 1) (st s_header_value (Some (Header_value, m)) (undec (ds @ [c])) u (\<lambda>h i. h = h_content_length) (p + 1))
      (p + 1 + length cs)
      (st s_header_value (Some (Header_value, m)) (undec ((ds @ [c]) @ cs)) u (\<lambda>h i. h = h_content_length) (p + 1 + length cs))"
    by (rule Cons.IH [OF d(2)]) (use Cons.prems in simp_all)
  finally show ?case by simp
qed

text \<open>The end of a line.\<close>

definition unchunked :: "(header_states \<Rightarrow> nat \<Rightarrow> bool) \<Rightarrow> bool" where
  "unchunked E \<longleftrightarrow> (\<forall>h i. E h i \<longrightarrow> h \<noteq> h_transfer_encoding_chunked)"

lemma goes_CR:
  assumes "mem ! p = CR" "p < HTTP_MAX_HEADER_SIZE" "m \<le> p"
  shows "goes mem len p (st s_header_value (Some (Header_value, m)) cl u E p) (p + 1) (st s_header_almost_done None cl u E (p + 1))"
proof (rule goes_byte)
  fix r :: "CHttpParserWrapper run"
  assume r: "st s_header_value (Some (Header_value, m)) cl u E (p + 1) r"
  then have "byte_step W mem len CR p r = CALLBACK_DATA W mem Header_value p (to_state s_header_almost_done r)"
    by (simp add: byte_step_def st_def header_value_step_def)
  moreover obtain o1 where o1: "OnHeaderValue (parser (to_state s_header_almost_done r)) (drop m mem) (p - m) (object r) = Some (0, False, o1)"
    "same_request o1 (object r)" using OnHeaderValue_same by blast
  have "\<exists>r'. CALLBACK_DATA W mem Header_value p (to_state s_header_almost_done r) = Some (Advance p r') \<and>
      st s_header_almost_done None cl u E (p + 1) r'"
    by (rule end_piece [OF r, where f = OnHeaderValue and obj = o1]) (use r o1 in \<open>simp_all add: st_def same_request_def\<close>)
  ultimately show "\<exists>r'. exec_byte W mem len (mem ! p) p r = Some (Advance p r') \<and> st s_header_almost_done None cl u E (p + 1) r'"
    unfolding assms(1) using exec_byte_advance by metis
qed (use assms in \<open>simp_all add: PARSING_HEADER_def\<close>)

lemma goes_LF:
  assumes "mem ! p = LF" "p < HTTP_MAX_HEADER_SIZE" "unchunked E"
  shows "goes mem len p (st s_header_almost_done None cl u E p) (p + 1) (line_start cl u (p + 1))"
proof (rule goes_byte)
  fix r :: "CHttpParserWrapper run"
  assume r: "st s_header_almost_done None cl u E (p + 1) r"
  let ?r = "set_parser (\<lambda>q. q\<lparr>p_state := s_header_value_lws, p_flags := p_flags q \<union> value_flag (header_state q)\<rparr>) r"
  have "byte_step W mem len LF p r = Some (Advance p ?r)"
    using r by (simp add: byte_step_def st_def header_almost_done_step_def STRICT_CHECK_def)
  moreover have "value_flag (header_state (parser r)) \<subseteq> {F_CONNECTION_KEEP_ALIVE, F_CONNECTION_CLOSE}"
    using r assms(3) by (auto simp: st_def unchunked_def value_flag_def split: header_states.splits)
  then have "line_start cl u (p + 1) ?r" using r by (simp add: line_start_def st_def set_parser_def)
  ultimately show "\<exists>r'. exec_byte W mem len (mem ! p) p r = Some (Advance p r') \<and> line_start cl u (p + 1) r'"
    unfolding assms(1) using exec_byte_advance by blast
qed (use assms in \<open>simp_all add: PARSING_HEADER_def\<close>)

lemma goes_CRLF:
  assumes "drop p mem = CRLF @ rest" "p + 2 \<le> HTTP_MAX_HEADER_SIZE" "unchunked E" "m \<le> p"
  shows "goes mem len p (st s_header_value (Some (Header_value, m)) cl u E p) (p + 2) (line_start cl u (p + 2))"
proof -
  have d: "mem ! p = CR" "drop (p + 1) mem = LF # rest" using drop_Cons [of p mem CR "LF # rest"] assms(1) by simp_all
  note d2 = drop_Cons [OF d(2)]
  have "goes mem len p (st s_header_value (Some (Header_value, m)) cl u E p) (p + 1) (st s_header_almost_done None cl u E (p + 1))"
    by (rule goes_CR) (use d(1) assms in simp_all)
  also have "goes mem len (p + 1) (st s_header_almost_done None cl u E (p + 1)) (p + 1 + 1) (line_start cl u (p + 1 + 1))"
    by (rule goes_LF) (use d2 assms in simp_all)
  finally show ?thesis by (simp add: numeral_2_eq_2)
qed

section \<open>Headers\<close>

text \<open>A header that says nothing about how the body is delimited.\<close>

definition plain_header :: "string \<times> string \<Rightarrow> bool" where
  "plain_header = (\<lambda>(n, v). n \<noteq> [] \<and> (\<forall>c \<in> set n. TOKEN c \<noteq> NUL) \<and>
     (case name_end (tl n) (header_match (hd n)) 0 of None \<Rightarrow> False | Some (h, i) \<Rightarrow> plain_state h) \<and>
     v \<noteq> [] \<and> hd v \<noteq> CHR '' '' \<and> hd v \<noteq> TAB \<and> (\<forall>c \<in> set v. c \<noteq> CR \<and> c \<noteq> LF))"

definition header_line :: "string \<times> string \<Rightarrow> string" where
  "header_line = (\<lambda>(n, v). n @ '': '' @ v @ CRLF)"

lemma TOKEN_not: "TOKEN c \<noteq> NUL \<Longrightarrow> c \<noteq> CR \<and> c \<noteq> LF \<and> c \<noteq> CHR '' '' \<and> c \<noteq> TAB"
proof -
  have "TOKEN CR = NUL" "TOKEN LF = NUL" "TOKEN (CHR '' '') = NUL" "TOKEN TAB = NUL" by code_simp+
  then show "TOKEN c \<noteq> NUL \<Longrightarrow> ?thesis" by auto
qed

lemma drop_append: "drop p mem = xs @ ys \<Longrightarrow> drop (p + length xs) mem = ys"
  by (metis add.commute append_eq_conv_conj drop_drop)

text \<open>The name up to the blank behind the colon.\<close>

lemma goes_header_name:
  assumes "drop p mem = n @ '': '' @ rest" "n \<noteq> []" "\<forall>c \<in> set n. TOKEN c \<noteq> NUL"
    and "name_end (tl n) (header_match (hd n)) 0 = Some (h, i)" "p + length n + 2 \<le> HTTP_MAX_HEADER_SIZE"
  shows "goes mem len p (line_start cl u p) (p + length n + 2) (st s_header_value_start None cl u (at_match h i) (p + length n + 2))"
proof -
  obtain c cs where n: "n = c # cs" using assms(2) by (cases n) simp_all
  have d: "mem ! p = c" "drop (p + 1) mem = cs @ '': '' @ rest"
    using drop_Cons [of p mem c "cs @ '': '' @ rest"] assms(1) n by simp_all
  have d1: "drop (p + 1 + length cs) mem = CHR '':'' # CHR '' '' # rest" using drop_append [OF d(2)] by simp
  note d2 = drop_Cons [OF d1]
  then have "drop (p + 1 + length cs + 1) mem = CHR '' '' # rest" by simp
  note d3 = drop_Cons [OF this]
  have c: "TOKEN c \<noteq> NUL" using assms(3) n by simp
  have len: "p + 1 + length cs + 2 \<le> HTTP_MAX_HEADER_SIZE" using assms(5) n by simp
  have "goes mem len p (line_start cl u p) (p + 1) (st s_header_field (Some (Header_field, p)) cl u (at_match (header_match c) 0) (p + 1))"
    by (rule goes_name_start [OF d(1) c]) (use TOKEN_not [OF c] len in simp_all)
  also have "goes mem len (p + 1) (st s_header_field (Some (Header_field, p)) cl u (at_match (header_match c) 0) (p + 1)) (p + 1 + length cs)
      (st s_header_field (Some (Header_field, p)) cl u (at_match h i) (p + 1 + length cs))"
    by (rule goes_name [OF d(2)]) (use assms(3,4) n len in simp_all)
  also have "goes mem len (p + 1 + length cs) (st s_header_field (Some (Header_field, p)) cl u (at_match h i) (p + 1 + length cs))
      (p + 1 + length cs + 1) (st s_header_value_start None cl u (at_match h i) (p + 1 + length cs + 1))"
    by (rule goes_colon) (use d2 len in simp_all)
  also have "goes mem len (p + 1 + length cs + 1) (st s_header_value_start None cl u (at_match h i) (p + 1 + length cs + 1))
      (p + 1 + length cs + 1 + 1) (st s_header_value_start None cl u (at_match h i) (p + 1 + length cs + 1 + 1))"
    by (rule goes_value_space) (use d3 len in simp_all)
  also have "p + 1 + length cs + 1 + 1 = p + length n + 2" using n by simp
  finally show ?thesis .
qed

lemma goes_header:
  assumes "drop p mem = header_line nv @ rest" "plain_header nv" "p + length (header_line nv) \<le> HTTP_MAX_HEADER_SIZE"
  shows "goes mem len p (line_start cl u p) (p + length (header_line nv)) (line_start cl u (p + length (header_line nv)))"
proof -
  obtain n v where nv: "nv = (n, v)" by force
  from assms(2) obtain h i where name: "name_end (tl n) (header_match (hd n)) 0 = Some (h, i)" "plain_state h"
    and n: "n \<noteq> []" "\<forall>c \<in> set n. TOKEN c \<noteq> NUL"
    and v: "v \<noteq> []" "hd v \<noteq> CHR '' ''" "hd v \<noteq> TAB" "\<forall>c \<in> set v. c \<noteq> CR \<and> c \<noteq> LF"
    by (auto simp: plain_header_def nv split: option.splits)
  obtain c cs where cs: "v = c # cs" using v(1) by (cases v) simp_all
  let ?p = "p + length n + 2" and ?q = "p + length n + 2 + 1 + length cs"
  have line: "header_line nv = n @ '': '' @ c # cs @ CRLF" by (simp add: header_line_def nv cs)
  have end1: "?q + 2 = p + length (header_line nv)" by (simp add: line)
  have d: "drop p mem = n @ '': '' @ c # cs @ CRLF @ rest" using assms(1) line by simp
  have "drop ?p mem = c # cs @ CRLF @ rest" using drop_append [of p mem "n @ '': ''" "c # cs @ CRLF @ rest"] d by (simp add: add.assoc)
  note d1 = drop_Cons [OF this]
  have d2: "drop ?q mem = CRLF @ rest" using d1 drop_append [of "?p + 1" mem cs "CRLF @ rest"] by simp
  have "goes mem len p (line_start cl u p) ?p (st s_header_value_start None cl u (at_match h i) ?p)"
    by (rule goes_header_name [OF d n name(1)]) (use assms(3) end1 in simp)
  also have "goes mem len ?p (st s_header_value_start None cl u (at_match h i) ?p) (?p + 1)
      (st s_header_value (Some (Header_value, ?p)) cl u in_value (?p + 1))"
    by (rule goes_value_first [where c = c]) (use d1 v cs name(2) assms(3) end1 in simp_all)
  also have "goes mem len (?p + 1) (st s_header_value (Some (Header_value, ?p)) cl u in_value (?p + 1)) ?q
      (st s_header_value (Some (Header_value, ?p)) cl u in_value ?q)"
    by (rule goes_value [where rest = "CRLF @ rest"]) (use d1 v cs assms(3) end1 in simp_all)
  also have "goes mem len ?q (st s_header_value (Some (Header_value, ?p)) cl u in_value ?q) (?q + 2) (line_start cl u (?q + 2))"
    by (rule goes_CRLF [OF d2]) (use assms(3) end1 in \<open>simp_all add: unchunked_def value_states_def\<close>)
  finally show ?thesis unfolding end1 .
qed

lemma goes_headers:
  assumes "drop p mem = concat (map header_line hs) @ rest" "\<forall>h \<in> set hs. plain_header h"
    and "p + length (concat (map header_line hs)) \<le> HTTP_MAX_HEADER_SIZE"
  shows "goes mem len p (line_start cl u p) (p + length (concat (map header_line hs)))
    (line_start cl u (p + length (concat (map header_line hs))))"
  using assms
proof (induction hs arbitrary: p)
  case Nil
  then show ?case by (simp add: goes_refl)
next
  case (Cons h hs)
  have d: "drop p mem = header_line h @ concat (map header_line hs) @ rest" using Cons.prems(1) by simp
  have "goes mem len p (line_start cl u p) (p + length (header_line h)) (line_start cl u (p + length (header_line h)))"
    by (rule goes_header [OF d]) (use Cons.prems in simp_all)
  also have "goes mem len (p + length (header_line h)) (line_start cl u (p + length (header_line h)))
      (p + length (header_line h) + length (concat (map header_line hs)))
      (line_start cl u (p + length (header_line h) + length (concat (map header_line hs))))"
    by (rule Cons.IH [OF drop_append [OF d]]) (use Cons.prems in simp_all)
  finally show ?case by (simp add: add.assoc)
qed

definition length_line :: "nat \<Rightarrow> string" where
  "length_line k = ''Content-Length'' @ '': '' @ dec_nat k @ CRLF"

lemma goes_length:
  assumes "drop p mem = length_line k @ rest" "k < ULLONG_MAX" "p + length (length_line k) \<le> HTTP_MAX_HEADER_SIZE"
  shows "goes mem len p (line_start cl u p) (p + length (length_line k)) (line_start k u (p + length (length_line k)))"
proof -
  let ?n = "''Content-Length''"
  have name: "name_end (tl ?n) (header_match (hd ?n)) 0 = Some (h_content_length, 13)" "\<forall>c \<in> set ?n. TOKEN c \<noteq> NUL" by code_simp+
  obtain c cs where cs: "dec_nat k = c # cs" using dec_nat_nonempty by (cases "dec_nat k") simp_all
  have digits: "isdigit c" "\<forall>c \<in> set cs. isdigit c" using dec_nat_digits [of _ k] cs by auto
  have k: "undec ([c] @ cs) = k" using undec_dec_nat [of k] cs by simp
  let ?p = "p + length ?n + 2" and ?q = "p + length ?n + 2 + 1 + length cs"
  have line: "length_line k = ?n @ '': '' @ c # cs @ CRLF" by (simp add: length_line_def cs)
  have end1: "?q + 2 = p + length (length_line k)" by (simp add: line)
  have d: "drop p mem = ?n @ '': '' @ c # cs @ CRLF @ rest" using assms(1) line by simp
  have "drop ?p mem = c # cs @ CRLF @ rest" using drop_append [of p mem "?n @ '': ''" "c # cs @ CRLF @ rest"] d by simp
  note d1 = drop_Cons [OF this]
  have d2: "drop ?q mem = CRLF @ rest" using d1 drop_append [of "?p + 1" mem cs "CRLF @ rest"] by simp
  have "goes mem len p (line_start cl u p) ?p (st s_header_value_start None cl u (at_match h_content_length 13) ?p)"
    by (rule goes_header_name [OF d _ name(2,1)]) (use assms(3) end1 in simp_all)
  also have "goes mem len ?p (st s_header_value_start None cl u (at_match h_content_length 13) ?p) (?p + 1)
      (st s_header_value (Some (Header_value, ?p)) (digit_val c) u (\<lambda>h i. h = h_content_length) (?p + 1))"
    by (rule goes_number_first) (use d1 digits assms(3) end1 in simp_all)
  also have "digit_val c = undec [c]" by (simp add: undec_single)
  also have "goes mem len (?p + 1) (st s_header_value (Some (Header_value, ?p)) (undec [c]) u (\<lambda>h i. h = h_content_length) (?p + 1)) ?q
      (st s_header_value (Some (Header_value, ?p)) (undec ([c] @ cs)) u (\<lambda>h i. h = h_content_length) ?q)"
    by (rule goes_number [where rest = "CRLF @ rest"]) (use d1 digits assms(2,3) k end1 in simp_all)
  also note k
  also have "goes mem len ?q (st s_header_value (Some (Header_value, ?p)) k u (\<lambda>h i. h = h_content_length) ?q) (?q + 2)
      (line_start k u (?q + 2))"
    by (rule goes_CRLF [OF d2]) (use assms(3) end1 in \<open>simp_all add: unchunked_def\<close>)
  finally show ?thesis unfolding end1 .
qed

text \<open>The empty line.\<close>

definition finished :: "string \<Rightarrow> string \<Rightarrow> CHttpParserWrapper run \<Rightarrow> bool" where
  "finished u b r \<longleftrightarrow> http_errno (parser r) = HPE_OK \<and> marks r = mark_of None \<and> read_all (object r) \<and>
     url_text (object r) = u \<and> body_content (object r) = b"

definition header_done :: "nat \<Rightarrow> string \<Rightarrow> CHttpParserWrapper run \<Rightarrow> bool" where
  "header_done k u r \<longleftrightarrow> (if k = 0 then finished u [] r else st s_body_identity None k u anyE 0 r)"

lemma headers_done_byte:
  assumes r: "st s_headers_done None k u E n r" and up: "\<not> upgrade (parser r)" and k: "k < ULLONG_MAX"
  shows "\<exists>r'. byte_step W mem len LF p r = Some (Advance p r') \<and> header_done k u r'"
proof -
  have s: "p_state (parser r) = s_headers_done" and fl: "F_SKIPBODY \<notin> p_flags (parser r)" "F_CHUNKED \<notin> p_flags (parser r)"
    and e: "http_errno (parser r) = HPE_OK" using r by (auto simp: st_def)
  show ?thesis
  proof (cases "k = 0")
    case True
    then show ?thesis using r s fl e up
      by (simp add: byte_step_def headers_done_step_def STRICT_CHECK_def Let_def NOTIFY_def callback_notify_def call_back_def
          OnMessageComplete_def set_parser_def to_state_def st_def header_done_def finished_def)
  next
    case False
    then show ?thesis using r s fl up k
      by (simp add: byte_step_def headers_done_step_def STRICT_CHECK_def Let_def next_state_def
          set_parser_def to_state_def st_def header_done_def)
  qed
qed

lemma goes_empty_line:
  assumes "drop p mem = CRLF @ rest" "p + 2 \<le> HTTP_MAX_HEADER_SIZE" "k < ULLONG_MAX"
  shows "goes mem len p (line_start k u p) (p + 2) (header_done k u)"
proof -
  have d: "mem ! p = CR" "drop (p + 1) mem = LF # rest" using drop_Cons [of p mem CR "LF # rest"] assms(1) by simp_all
  note d2 = drop_Cons [OF d(2)]
  have "goes mem len p (line_start k u p) (p + 1) (st s_headers_almost_done None k u anyE (p + 1))"
  proof (rule goes_line_start)
    fix r :: "CHttpParserWrapper run"
    assume "st s_header_field_start None k u anyE (p + 1) r"
    then show "\<exists>r'. byte_step W mem len (mem ! p) p r = Some (Advance p r') \<and> st s_headers_almost_done None k u anyE (p + 1) r'"
      using d(1) by (simp add: byte_step_def header_field_start_step_def next_state_def st_def to_state_def set_parser_def)
  qed (use d(1) assms(2) in simp_all)
  also have "goes mem len (p + 1) (st s_headers_almost_done None k u anyE (p + 1)) (p + 1 + 1) (header_done k u)"
  proof (rule goes_byte)
    fix r :: "CHttpParserWrapper run"
    assume r: "st s_headers_almost_done None k u anyE (p + 1 + 1) r"
    define r1 where "r1 = r\<lparr>object := (object r)\<lparr>total_length := u32 (nread (parser r) + u32 k)\<rparr>,
      parser := (parser r)\<lparr>p_state := s_headers_done, upgrade := False\<rparr>\<rparr>"
    have fl: "F_TRAILING \<notin> p_flags (parser r)" "F_UPGRADE \<notin> p_flags (parser r)" using r by (auto simp: st_def)
    have "byte_step W mem len LF (p + 1) r = Some (Reexecute (p + 1) r1)"
      using r fl by (simp add: byte_step_def headers_almost_done_step_def STRICT_CHECK_def headers_complete_def st_def set_parser_def
          OnHeadersComplete_def r1_def)
    moreover have "st s_headers_done None k u anyE (p + 1 + 1) r1" "\<not> upgrade (parser r1)"
      using r by (simp_all add: st_def r1_def)
    from headers_done_byte [OF this assms(3)] obtain r' where
      "byte_step W mem len LF (p + 1) r1 = Some (Advance (p + 1) r')" "header_done k u r'" by blast
    ultimately have "exec_byte W mem len LF (p + 1) r = Some (Advance (p + 1) r')"
      using exec_byte_advance [of W mem len LF "p + 1" r1] by (subst exec_byte.simps) simp
    then show "\<exists>r'. exec_byte W mem len (mem ! (p + 1)) (p + 1) r = Some (Advance (p + 1) r') \<and> header_done k u r'"
      using d2 \<open>header_done k u r'\<close> by auto
  qed (use assms(2) in \<open>simp_all add: PARSING_HEADER_def\<close>)
  finally show ?thesis by (simp add: numeral_2_eq_2)
qed

definition head_text :: "string \<Rightarrow> (string \<times> string) list \<Rightarrow> nat \<Rightarrow> string" where
  "head_text url hs k = first_line url @ concat (map header_line hs) @ length_line k @ CRLF"

definition head_ok :: "string \<Rightarrow> (string \<times> string) list \<Rightarrow> nat \<Rightarrow> bool" where
  "head_ok url hs k \<longleftrightarrow> legal_url url \<and> (\<forall>h \<in> set hs. plain_header h) \<and> k < ULLONG_MAX \<and>
     length (head_text url hs k) \<le> HTTP_MAX_HEADER_SIZE"

lemma goes_head:
  assumes "mem = head_text url hs k @ rest" "head_ok url hs k"
  shows "goes mem len 0 (\<lambda>r. r = init_run) (length (head_text url hs k)) (header_done k url)"
proof -
  let ?a = "length (first_line url)" and ?hs = "concat (map header_line hs)"
  let ?b = "?a + length ?hs" and ?c = "?a + length ?hs + length (length_line k)"
  have le: "?c + 2 \<le> HTTP_MAX_HEADER_SIZE" and end1: "length (head_text url hs k) = ?c + 2"
    using assms(2) by (simp_all add: head_ok_def head_text_def)
  have mem: "mem = first_line url @ ?hs @ length_line k @ CRLF @ rest" using assms(1) by (simp add: head_text_def)
  have d1: "drop ?a mem = ?hs @ length_line k @ CRLF @ rest" by (simp add: mem)
  note d2 = drop_append [OF d1]
  note d3 = drop_append [OF d2]
  have "goes mem len 0 (\<lambda>r. r = init_run) ?a (st s_header_field_start None ULLONG_MAX url anyE ?a)"
    by (rule goes_first_line [OF mem]) (use assms(2) le in \<open>simp_all add: head_ok_def\<close>)
  then have "goes mem len 0 (\<lambda>r. r = init_run) ?a (line_start ULLONG_MAX url ?a)"
    by (rule goes_mono) (simp add: line_start_def)
  also have "goes mem len ?a (line_start ULLONG_MAX url ?a) ?b (line_start ULLONG_MAX url ?b)"
    by (rule goes_headers [OF d1]) (use assms(2) le in \<open>simp_all add: head_ok_def\<close>)
  also have "goes mem len ?b (line_start ULLONG_MAX url ?b) ?c (line_start k url ?c)"
    by (rule goes_length [OF d2]) (use assms(2) le in \<open>simp_all add: head_ok_def\<close>)
  also have "goes mem len ?c (line_start k url ?c) (?c + 2) (header_done k url)"
    by (rule goes_empty_line [OF d3]) (use assms(2) le in \<open>simp_all add: head_ok_def\<close>)
  finally show ?thesis unfolding end1 .
qed

section \<open>The body\<close>

lemma no_count: "p_state (parser r) = s_body_identity \<Longrightarrow> count_byte r = r \<and> \<not> header_overflow r"
  by (simp add: count_byte_def header_overflow_def PARSING_HEADER_def)

lemma loop_end: "exec_loop W mem len len r = flush_marks W mem len r"
  by (simp add: exec_loop.simps)

lemma loop_end_unmarked:
  "http_errno (parser r) = HPE_OK \<Longrightarrow> marks r = mark_of None \<Longrightarrow> exec_loop W mem len len r = Some (Return len r)"
  by (simp add: loop_end flush_marks_def callback_data_none mark_of_def)

lemma body_loop:
  assumes "p_state (parser r) = s_body_identity" "exec_byte W mem len (mem ! p) p r = Some (Advance (len - 1) r')" "p < len"
  shows "exec_loop W mem len p r = exec_loop W mem len len r'"
  using assms(2,3) no_count [OF assms(1)] by (simp add: exec_loop.simps [of W mem len p r])

lemma body_finish:
  assumes r: "st s_body_identity None k u anyE 0 r" and k: "0 < k" "k < ULLONG_MAX" and len: "len = p + k" "len \<le> length mem"
  shows "\<exists>r'. exec_loop W mem len p r = Some (Return len r') \<and> finished u (take k (drop p mem)) r'"
proof -
  define ra where "ra = r\<lparr>parser := (parser r)\<lparr>content_length := 0, p_state := s_message_done\<rparr>,
    object := (object r)\<lparr>body_content := take k (drop p mem)\<rparr>\<rparr>"
  define rb where "rb = to_state (NEW_MESSAGE (parser ra)) ra\<lparr>object := (object ra)\<lparr>read_all := True\<rparr>\<rparr>"
  have m: "mark_of None = (\<lambda>e. None)" by (simp add: mark_of_def)
  have s: "p_state (parser r) = s_body_identity" using r by (simp add: st_def)
  have one: "byte_step W mem len (mem ! p) p r = Some (Reexecute (len - 1) ra)"
    using r k len(1) m by (simp add: byte_step_def st_def body_identity_step_def take_body_def Let_def MARK_def set_parser_def
        to_state_def callback_data_def call_back_def OnBody_def ra_def fun_upd_idem)
  have two: "byte_step W mem len (mem ! p) (len - 1) ra = Some (Advance (len - 1) rb)"
    using r by (simp add: byte_step_def st_def message_done_step_def NOTIFY_def callback_notify_def call_back_def
        OnMessageComplete_def set_parser_def to_state_def ra_def rb_def)
  have "exec_byte W mem len (mem ! p) p r = Some (Advance (len - 1) rb)"
    using one exec_byte_advance [OF two] by (subst exec_byte.simps) simp
  then have "exec_loop W mem len p r = exec_loop W mem len len rb"
    using k len(1) by (intro body_loop [OF s]) simp_all
  also have "\<dots> = Some (Return len rb)"
    using r by (intro loop_end_unmarked) (simp_all add: st_def ra_def rb_def to_state_def set_parser_def)
  finally show ?thesis
    using r by (auto simp: finished_def rb_def ra_def st_def to_state_def set_parser_def)
qed

lemma body_waits:
  assumes r: "st s_body_identity None k u anyE 0 r" and k: "k < ULLONG_MAX" and len: "p \<le> len" "len < p + k"
  shows "waits (exec_loop W mem len p r)"
proof (cases "len = p")
  case True
  have "exec_loop W mem len len r = Some (Return len r)"
    by (rule loop_end_unmarked) (use r in \<open>simp_all add: st_def\<close>)
  then show ?thesis using r True by (simp add: waits_def st_def)
next
  case False
  define ra where "ra = r\<lparr>parser := (parser r)\<lparr>content_length := k - (len - p)\<rparr>, marks := mark_of (Some (Body, p))\<rparr>"
  have s: "p_state (parser r) = s_body_identity" using r by (simp add: st_def)
  have "byte_step W mem len (mem ! p) p r = Some (Advance (len - 1) ra)"
    using r k len False by (simp add: byte_step_def st_def body_identity_step_def take_body_def Let_def MARK_def set_parser_def
        mark_of_def ra_def)
  note exec_byte_advance [OF this]
  then have "exec_loop W mem len p r = exec_loop W mem len len ra"
    using len False by (intro body_loop [OF s]) simp_all
  also have "waits \<dots>"
    using r by (simp add: loop_end flush_marks_def callback_data_def call_back_def OnBody_def st_def
        mark_of_def ra_def waits_def)
  finally show ?thesis .
qed

section \<open>\<open>ParseHttpContent\<close>\<close>

definition request_text :: "string \<Rightarrow> (string \<times> string) list \<Rightarrow> string \<Rightarrow> string" where
  "request_text url hs body = head_text url hs (length body) @ body"

definition request_ok :: "string \<Rightarrow> (string \<times> string) list \<Rightarrow> string \<Rightarrow> bool" where
  "request_ok url hs body \<longleftrightarrow> head_ok url hs (length body) \<and> length (request_text url hs body) < 2 ^ 32"

lemma parse_is_loop:
  assumes "0 < n" "n < 2 ^ 32"
  shows "ParseHttpContent mem n = do { (m, q, ob) \<leftarrow> Option.bind (exec_loop W mem n 0 init_run) result; Some (q, ob) }"
proof -
  have "first_marks s_start_req = mark_of None" by (rule ext) (simp add: first_marks_def mark_of_def url_state_def split: data_event.split)
  then show ?thesis using assms
    by (simp add: ParseHttpContent_def http_parser_execute_def u32_def init_run_def http_parser_init_def Let_def)
qed

lemma head_nonempty: "0 < length (head_text url hs k)"
  by (simp add: head_text_def first_line_def)

lemma loop_finishes:
  assumes "request_ok url hs body" "mem = request_text url hs body @ rest" "len = length (request_text url hs body)"
  shows "\<exists>r. exec_loop W mem len 0 init_run = Some (Return len r) \<and> finished url body r"
proof -
  let ?k = "length body"
  have ok: "head_ok url hs ?k" "?k < ULLONG_MAX" using assms(1) by (simp_all add: request_ok_def head_ok_def)
  have mem: "mem = head_text url hs ?k @ body @ rest" using assms(2) by (simp add: request_text_def)
  have len: "len = length (head_text url hs ?k) + ?k" using assms(3) by (simp add: request_text_def)
  obtain r where r: "header_done ?k url r" "exec_loop W mem len 0 init_run = exec_loop W mem len (length (head_text url hs ?k)) r"
    using goes_head [OF mem ok(1), of len] len by (auto simp: goes_def)
  show ?thesis
  proof (cases "body = []")
    case True
    then have f: "finished url body r" and l: "length (head_text url hs ?k) = len" using r(1) len by (simp_all add: header_done_def)
    have "exec_loop W mem len len r = Some (Return len r)"
      by (rule loop_end_unmarked) (use f in \<open>simp_all add: finished_def\<close>)
    then show ?thesis using r(2) f unfolding l by auto
  next
    case False
    then have "st s_body_identity None ?k url anyE 0 r" "0 < ?k" using r(1) by (simp_all add: header_done_def)
    moreover have "len \<le> length mem" using mem len by simp
    moreover have "take ?k (drop (length (head_text url hs ?k)) mem) = body" by (simp add: mem)
    ultimately show ?thesis using body_finish [of ?k url r len "length (head_text url hs ?k)" mem] ok(2) len r(2) by auto
  qed
qed

lemma loop_waits:
  assumes "request_ok url hs body" "mem = head_text url hs (length body) @ rest" "len < length (request_text url hs body)"
    and "len + 15 \<le> length mem \<or> length (head_text url hs (length body)) \<le> len"
  shows "waits (exec_loop W mem len 0 init_run)"
proof -
  let ?k = "length body" and ?h = "length (head_text url hs (length body))"
  have ok: "head_ok url hs ?k" "?k < ULLONG_MAX" using assms(1) by (simp_all add: request_ok_def head_ok_def)
  note g = goes_head [OF assms(2) ok(1), of len]
  show ?thesis
  proof (cases "?h \<le> len")
    case True
    obtain r where r: "header_done ?k url r" "exec_loop W mem len 0 init_run = exec_loop W mem len ?h r"
      using g True by (auto simp: goes_def)
    have len: "len < ?h + ?k" using assms(3) by (simp add: request_text_def)
    then have "st s_body_identity None ?k url anyE 0 r" using r(1) True by (simp add: header_done_def split: if_splits)
    from body_waits [OF this ok(2) True len] r(2) show ?thesis by simp
  next
    case False
    with g assms(4) show ?thesis by (simp add: goes_def)
  qed
qed

lemma parse_whole:
  assumes "request_ok url hs body"
  shows "\<exists>q ob. ParseHttpContent (request_text url hs body @ rest) (length (request_text url hs body)) = Some (q, ob) \<and>
    http_errno q = HPE_OK \<and> read_all ob \<and> url_text ob = url \<and> body_content ob = body"
proof -
  let ?n = "length (request_text url hs body)"
  obtain r where "exec_loop W (request_text url hs body @ rest) ?n 0 init_run = Some (Return ?n r)" "finished url body r"
    using loop_finishes [OF assms] by blast
  moreover have "0 < ?n" "?n < 2 ^ 32" using assms head_nonempty by (simp_all add: request_ok_def request_text_def)
  ultimately show ?thesis by (simp add: parse_is_loop result_def finished_def)
qed

end
