(* ===== verification/Http_Safety.thy ===== *)
theory Http_Safety
  imports Http_Execute
begin

text \<open>
  The invariant of the HTTP parser: whatever the bytes and however they are cut, and whatever the callbacks
  answer, no assertion of \<open>http_parser.cc\<close> fails and no byte outside the data is used.
\<close>

section \<open>The invariant\<close>

text \<open>What the parser relies on in each state; \<open>n\<close> is the count at the start of a chunk, 0 between two bytes
  and 1 once the byte is counted.\<close>

definition state_ok :: "nat \<Rightarrow> http_parser \<Rightarrow> bool" where
  "state_ok n q = (case p_state q of
      s_req_method \<Rightarrow> p_index q \<le> length (method_string (p_method q))
    | s_header_field \<Rightarrow> (\<forall>ch. TOKEN ch \<noteq> NUL \<longrightarrow> match_field (header_state q) 0 ch \<noteq> None)
    | s_header_value \<Rightarrow> header_state q \<noteq> h_connection \<and> header_state q \<noteq> h_transfer_encoding
    | s_body_identity \<Rightarrow> content_length q \<noteq> 0 \<and> content_length q \<noteq> ULLONG_MAX
    | s_chunk_size_start \<Rightarrow> F_CHUNKED \<in> p_flags q \<and> nread q = n
    | s_chunk_size \<Rightarrow> F_CHUNKED \<in> p_flags q \<and> content_length q \<noteq> ULLONG_MAX
    | s_chunk_parameters \<Rightarrow> F_CHUNKED \<in> p_flags q \<and> content_length q \<noteq> ULLONG_MAX
    | s_chunk_size_almost_done \<Rightarrow> F_CHUNKED \<in> p_flags q \<and> content_length q \<noteq> ULLONG_MAX
    | s_chunk_data \<Rightarrow> F_CHUNKED \<in> p_flags q \<and> content_length q \<noteq> 0 \<and> content_length q \<noteq> ULLONG_MAX
    | s_chunk_data_almost_done \<Rightarrow> F_CHUNKED \<in> p_flags q \<and> content_length q = 0
    | s_chunk_data_done \<Rightarrow> F_CHUNKED \<in> p_flags q
    | _ \<Rightarrow> True)"

definition parser_ok :: "http_parser \<Rightarrow> bool" where
  "parser_ok q \<longleftrightarrow> (http_errno q = HPE_OK \<or> http_errno q = HPE_PAUSED \<longrightarrow> state_ok 0 q)"

text \<open>The states in which a mark can be set.\<close>

fun mark_state :: "data_event \<Rightarrow> http_state \<Rightarrow> bool" where
  "mark_state Header_field s = (s = s_header_field)"
| "mark_state Header_value s = (s = s_header_value)"
| "mark_state Url s = url_state s"
| "mark_state Body s = (s = s_body_identity \<or> s = s_body_identity_eof \<or> s = s_chunk_data \<or> s = s_chunk_data_almost_done)"

definition marks_ok :: "nat \<Rightarrow> 'o run \<Rightarrow> bool" where
  "marks_ok p r \<longleftrightarrow> (\<forall>ev m. marks r ev = Some m \<longrightarrow> m \<le> p \<and> mark_state ev (p_state (parser r)))"

text \<open>Callbacks without undefined behaviour on these data.\<close>

definition callbacks_ok :: "'o http_parser_settings \<Rightarrow> string \<Rightarrow> nat \<Rightarrow> bool" where
  "callbacks_ok S mem len \<longleftrightarrow> len \<le> length mem \<and>
     (\<forall>ev f q ob. notify_cb ev S = Some f \<longrightarrow> f q ob \<noteq> None) \<and>
     (\<forall>ev f q m n ob. data_cb ev S = Some f \<longrightarrow> m + n \<le> len \<longrightarrow> f q (drop m mem) n ob \<noteq> None)"

definition outcome_ok :: "'o outcome \<Rightarrow> bool" where
  "outcome_ok x = (case x of
      Advance p r \<Rightarrow> http_errno (parser r) = HPE_OK \<and> state_ok 0 (parser r) \<and> marks_ok p r
    | Reexecute p r \<Rightarrow> http_errno (parser r) = HPE_OK \<and> state_ok 1 (parser r) \<and> marks_ok p r
    | Return n r \<Rightarrow> parser_ok (parser r)
    | Goto_error p r \<Rightarrow> http_errno (parser r) \<noteq> HPE_OK \<and> http_errno (parser r) \<noteq> HPE_PAUSED)"

definition ends_in :: "('o outcome \<Rightarrow> bool) \<Rightarrow> 'o outcome option \<Rightarrow> bool" where
  "ends_in P x \<longleftrightarrow> (\<exists>y. x = Some y \<and> P y)"

lemma ends_in_Some [simp]: "ends_in P (Some y) \<longleftrightarrow> P y"
  by (simp add: ends_in_def)

lemma outcome_ok_simps [simp]:
  "outcome_ok (Advance p r) \<longleftrightarrow> http_errno (parser r) = HPE_OK \<and> state_ok 0 (parser r) \<and> marks_ok p r"
  "outcome_ok (Reexecute p r) \<longleftrightarrow> http_errno (parser r) = HPE_OK \<and> state_ok 1 (parser r) \<and> marks_ok p r"
  "outcome_ok (Return n r) \<longleftrightarrow> parser_ok (parser r)"
  "outcome_ok (Goto_error p r) \<longleftrightarrow> http_errno (parser r) \<noteq> HPE_OK \<and> http_errno (parser r) \<noteq> HPE_PAUSED"
  by (simp_all add: outcome_ok_def)

lemma state_ok_errno [simp]: "state_ok n (q\<lparr>http_errno := e\<rparr>) = state_ok n q"
  by (cases "p_state q") (simp_all add: state_ok_def)

lemma parser_ok_errno: "state_ok 0 q \<Longrightarrow> parser_ok (q\<lparr>http_errno := e\<rparr>)"
  by (simp add: parser_ok_def)

lemma call_back_ok:
  assumes "f (parser r) (object r) \<noteq> None" "http_errno (parser r) = HPE_OK"
  shows "\<exists>r1. call_back f e r = Some r1"
proof -
  obtain ret paused ob where "f (parser r) (object r) = Some (ret, paused, ob)" using assms(1) by (cases "f (parser r) (object r)") auto
  with assms(2) show ?thesis by (simp add: call_back_def http_parser_pause_def)
qed

lemma ends_in_notify:
  assumes cb: "callbacks_ok S mem len" and ok: "http_errno (parser r) = HPE_OK"
    and returns: "\<And>r1 e. parser r1 = (parser r)\<lparr>http_errno := e\<rparr> \<Longrightarrow> P (Return er r1)"
    and goes_on: "\<And>r1. parser r1 = parser r \<Longrightarrow> marks r1 = marks r \<Longrightarrow> ends_in P (next r1)"
  shows "ends_in P (callback_notify S ev er r next)"
proof (cases "notify_cb ev S")
  case None
  with ok goes_on show ?thesis by (simp add: callback_notify_def)
next
  case (Some f)
  with cb have "f (parser r) (object r) \<noteq> None" by (auto simp: callbacks_ok_def)
  from call_back_ok [of f, OF this ok] obtain r1 where r1: "call_back f (notify_error ev) r = Some r1" by blast
  then have go: "callback_notify S ev er r next = (if http_errno (parser r1) \<noteq> HPE_OK then Some (Return er r1) else next r1)"
    using Some ok by (simp add: callback_notify_def)
  note same = call_back_parser [OF r1 ok]
  show ?thesis
  proof (cases "http_errno (parser r1) = HPE_OK")
    case True
    then have "parser r1 = parser r" using same(1) ok by (metis http_parser.surjective http_parser.update_convs(12))
    with True goes_on same(2) show ?thesis by (simp add: go)
  next
    case False
    with returns [OF same(1)] show ?thesis by (simp add: go)
  qed
qed

lemma ends_in_data:
  assumes cb: "callbacks_ok S mem len" and ok: "http_errno (parser r) = HPE_OK" and "stop \<le> len"
    and m: "\<And>m. marks r ev = Some m \<Longrightarrow> m \<le> stop"
    and returns: "\<And>r1 e. parser r1 = (parser r)\<lparr>http_errno := e\<rparr> \<Longrightarrow> P (Return er r1)"
    and goes_on: "\<And>r1. parser r1 = parser r \<Longrightarrow> marks r1 = (marks r)(ev := None) \<Longrightarrow> ends_in P (next r1)"
  shows "ends_in P (callback_data S mem ev stop er r next)"
proof (cases "marks r ev")
  case None
  then have "(marks r)(ev := None) = marks r" by (metis fun_upd_triv)
  with None ok goes_on [of r] show ?thesis by (simp add: callback_data_def)
next
  case mark: (Some m)
  show ?thesis
  proof (cases "data_cb ev S")
    case None
    with mark ok goes_on show ?thesis by (simp add: callback_data_def)
  next
    case (Some f)
    let ?f = "\<lambda>p. f p (drop m mem) (stop - m)"
    have "m + (stop - m) \<le> len" using m [OF mark] assms(3) by simp
    with cb Some have "?f (parser r) (object r) \<noteq> None" unfolding callbacks_ok_def by blast
    from call_back_ok [of ?f, OF this ok] obtain r1 where r1: "call_back ?f (data_error ev) r = Some r1" by blast
    then have go: "callback_data S mem ev stop er r next =
        (if http_errno (parser r1) \<noteq> HPE_OK then Some (Return er r1) else next (r1\<lparr>marks := (marks r1)(ev := None)\<rparr>))"
      using Some mark ok by (simp add: callback_data_def)
    note same = call_back_parser [OF r1 ok]
    show ?thesis
    proof (cases "http_errno (parser r1) = HPE_OK")
      case True
      then have "parser r1 = parser r" using same(1) ok by (metis http_parser.surjective http_parser.update_convs(12))
      with True goes_on same(2) show ?thesis by (simp add: go)
    next
      case False
      with returns [OF same(1)] show ?thesis by (simp add: go)
    qed
  qed
qed

section \<open>One byte\<close>

lemma url_result: "parse_url_char s ch = s_dead \<or> url_state (parse_url_char s ch)"
  by (cases s) (simp_all add: parse_url_char_def url_state_def Let_def)

lemma url_not_dead: "url_state s \<Longrightarrow> s \<noteq> s_dead"
  by (auto simp: url_state_def)

lemma state_ok_other:
  "url_state (p_state q) \<Longrightarrow> state_ok n q"
  "p_state q = NEW_MESSAGE q' \<Longrightarrow> state_ok n q"
  by (cases "p_state q"; simp add: state_ok_def url_state_def NEW_MESSAGE_def start_state_def split: if_splits)+

lemma NEW_MESSAGE_not_url [simp]: "\<not> url_state (NEW_MESSAGE q)" "\<not> mark_state ev (NEW_MESSAGE q)"
  by (cases ev; simp add: NEW_MESSAGE_def start_state_def url_state_def)+

lemma u8_small [simp]: "n < 256 \<Longrightarrow> u8 n = n"
  by (simp add: u8_def)

lemma method_string_length: "length (method_string m) < 255"
  by (cases m) (simp_all add: method_string_def)

lemma method_index:
  assumes "c_at (method_string m) i = Some x" "ch \<noteq> NUL"
  shows "ch = x \<Longrightarrow> Suc i \<le> length (method_string m)"
    and "other_method m i ch = Some m' \<Longrightarrow> Suc i \<le> length (method_string m')"
  using assms by (auto simp: c_at_def other_method_def method_string_def split: if_splits)

lemma match_field_ok:
  assumes "\<forall>ch. TOKEN ch \<noteq> NUL \<longrightarrow> match_field h 0 ch \<noteq> None" "TOKEN ch \<noteq> NUL"
  obtains h' i' where "match_field h i ch = Some (h', i')" "\<forall>ch. TOKEN ch \<noteq> NUL \<longrightarrow> match_field h' 0 ch \<noteq> None"
proof -
  have "match_field h 0 ch \<noteq> None" using assms by blast
  then show thesis
    by (cases h) (auto simp: match_field_def Let_def match_word_def intro!: that split: if_splits)
qed

lemma marks_okE: "marks_ok p r \<Longrightarrow> marks r ev = Some m \<Longrightarrow> m \<le> p \<and> mark_state ev (p_state (parser r))"
  by (simp add: marks_ok_def)

text \<open>Every field keeps the width it has in C.\<close>

definition fields_ok :: "http_parser \<Rightarrow> bool" where
  "fields_ok q \<longleftrightarrow> p_index q < 2 ^ 8 \<and> nread q < 2 ^ 32 \<and> content_length q < 2 ^ 64 \<and>
     http_major q < 2 ^ 16 \<and> http_minor q < 2 ^ 16 \<and> status_code q < 2 ^ 16"

fun outcome_run :: "'o outcome \<Rightarrow> 'o run" where
  "outcome_run (Advance p r) = r"
| "outcome_run (Reexecute p r) = r"
| "outcome_run (Return n r) = r"
| "outcome_run (Goto_error p r) = r"

lemma widths [simp]: "u8 n < 256" "add_digit v ch < 65536" "u64 n < 18446744073709551616" "u32 n < 4294967296"
  by (simp_all add: u8_def add_digit_def u16_def u64_def u32_def)

lemma digit_width: "digit_val ch < 65536"
proof -
  have "byte_val ch < 256" by (rule byte_val_less)
  then show ?thesis unfolding digit_val_def by linarith
qed

lemma unhex_bound: "- 1 \<le> unhex_at ch \<and> unhex_at ch < 16"
proof -
  have "\<forall>x \<in> set unhex. - 1 \<le> x \<and> x < 16" by (simp add: unhex_def)
  then show ?thesis by (simp add: unhex_at_def Let_def)
qed

lemma unhex_width: "nat (unhex_at ch) < 16"
  using unhex_bound [of ch] by linarith

lemma match_field_width:
  assumes "match_field h i ch = Some (h', i')" "i < 256"
  shows "i' < 256"
  using assms by (cases h) (auto simp: match_field_def Let_def split: if_splits)

lemma fields_ok_same [simp]:
  "fields_ok (q\<lparr>p_type := ty\<rparr>) = fields_ok q" "fields_ok (q\<lparr>p_flags := fl\<rparr>) = fields_ok q" "fields_ok (q\<lparr>p_state := s\<rparr>) = fields_ok q"
  "fields_ok (q\<lparr>header_state := h\<rparr>) = fields_ok q" "fields_ok (q\<lparr>p_method := m\<rparr>) = fields_ok q"
  "fields_ok (q\<lparr>http_errno := e\<rparr>) = fields_ok q" "fields_ok (q\<lparr>upgrade := b\<rparr>) = fields_ok q"
  by (simp_all add: fields_ok_def)

lemma fields_ok_update [simp]:
  assumes "fields_ok q"
  shows "fields_ok (q\<lparr>p_index := n\<rparr>) \<longleftrightarrow> n < 2 ^ 8" "fields_ok (q\<lparr>nread := n\<rparr>) \<longleftrightarrow> n < 2 ^ 32"
    "fields_ok (q\<lparr>content_length := n\<rparr>) \<longleftrightarrow> n < 2 ^ 64" "fields_ok (q\<lparr>http_major := n\<rparr>) \<longleftrightarrow> n < 2 ^ 16"
    "fields_ok (q\<lparr>http_minor := n\<rparr>) \<longleftrightarrow> n < 2 ^ 16" "fields_ok (q\<lparr>status_code := n\<rparr>) \<longleftrightarrow> n < 2 ^ 16"
  using assms by (simp_all add: fields_ok_def)

lemma fields_ok_index: "fields_ok q \<Longrightarrow> p_index q < 256"
  by (simp add: fields_ok_def)

lemma fields_ok_length [simp]: "fields_ok q \<Longrightarrow> content_length q - k < 18446744073709551616"
  by (simp add: fields_ok_def less_imp_diff_less)

lemma fields_ok_new [simp]: "fields_ok q \<Longrightarrow> fields_ok (new_message q)"
  by (simp add: fields_ok_def new_message_def ULLONG_MAX_def)


lemmas fields_auto = step_defs macro_defs Let_def bind_eq_Some_conv take_body_def MARK_def

lemma fields_first_line:
  assumes "fields_ok (parser r)"
  shows "dead_step p ch r = Some x \<Longrightarrow> fields_ok (parser (outcome_run x))"
    and "start_req_or_res_step S p ch r = Some x \<Longrightarrow> fields_ok (parser (outcome_run x))"
    and "res_or_resp_H_step p ch r = Some x \<Longrightarrow> fields_ok (parser (outcome_run x))"
    and "start_res_step S p ch r = Some x \<Longrightarrow> fields_ok (parser (outcome_run x))"
    and "strict_step c s p ch r = Some x \<Longrightarrow> fields_ok (parser (outcome_run x))"
    and "first_major_step c s p ch r = Some x \<Longrightarrow> fields_ok (parser (outcome_run x))"
    and "major_step s p ch r = Some x \<Longrightarrow> fields_ok (parser (outcome_run x))"
    and "first_minor_step s p ch r = Some x \<Longrightarrow> fields_ok (parser (outcome_run x))"
    and "res_http_minor_step p ch r = Some x \<Longrightarrow> fields_ok (parser (outcome_run x))"
    and "first_status_code_step p ch r = Some x \<Longrightarrow> fields_ok (parser (outcome_run x))"
    and "status_code_step p ch r = Some x \<Longrightarrow> fields_ok (parser (outcome_run x))"
    and "res_status_step p ch r = Some x \<Longrightarrow> fields_ok (parser (outcome_run x))"
    and "res_line_almost_done_step S p ch r = Some x \<Longrightarrow> fields_ok (parser (outcome_run x))"
    and "start_req_step S p ch r = Some x \<Longrightarrow> fields_ok (parser (outcome_run x))"
  using assms digit_width [of ch] unhex_width [of ch]
  by (auto simp: fields_auto dest: match_field_width [OF _ fields_ok_index]
      split: if_splits option.splits prod.splits header_states.splits
      elim!: callback_dataE callback_notifyE headers_completeE)

lemma fields_request_line:
  assumes "fields_ok (parser r)"
  shows "req_method_step p ch r = Some x \<Longrightarrow> fields_ok (parser (outcome_run x))"
    and "spaces_before_url_step p ch r = Some x \<Longrightarrow> fields_ok (parser (outcome_run x))"
    and "schema_step p ch r = Some x \<Longrightarrow> fields_ok (parser (outcome_run x))"
    and "url_step S mem p ch r = Some x \<Longrightarrow> fields_ok (parser (outcome_run x))"
    and "req_http_start_step p ch r = Some x \<Longrightarrow> fields_ok (parser (outcome_run x))"
    and "req_http_minor_step p ch r = Some x \<Longrightarrow> fields_ok (parser (outcome_run x))"
    and "req_line_almost_done_step p ch r = Some x \<Longrightarrow> fields_ok (parser (outcome_run x))"
    and "header_field_start_step p ch r = Some x \<Longrightarrow> fields_ok (parser (outcome_run x))"
    and "header_field_step S mem p ch r = Some x \<Longrightarrow> fields_ok (parser (outcome_run x))"
  using assms digit_width [of ch] unhex_width [of ch]
  by (auto simp: fields_auto dest: match_field_width [OF _ fields_ok_index]
      split: if_splits option.splits prod.splits header_states.splits
      elim!: callback_dataE callback_notifyE headers_completeE)

lemma fields_header:
  assumes "fields_ok (parser r)"
  shows "header_value_start_step S mem p ch r = Some x \<Longrightarrow> fields_ok (parser (outcome_run x))"
    and "header_value_step S mem p ch r = Some x \<Longrightarrow> fields_ok (parser (outcome_run x))"
    and "header_almost_done_step p ch r = Some x \<Longrightarrow> fields_ok (parser (outcome_run x))"
    and "header_value_lws_step p ch r = Some x \<Longrightarrow> fields_ok (parser (outcome_run x))"
    and "headers_almost_done_step S p ch r = Some x \<Longrightarrow> fields_ok (parser (outcome_run x))"
  using assms digit_width [of ch] unhex_width [of ch]
  by (auto simp: fields_auto dest: match_field_width [OF _ fields_ok_index]
      split: if_splits option.splits prod.splits header_states.splits
      elim!: callback_dataE callback_notifyE headers_completeE)

lemma fields_body:
  assumes "fields_ok (parser r)"
  shows "headers_done_step S p ch r = Some x \<Longrightarrow> fields_ok (parser (outcome_run x))"
    and "body_identity_step S mem len p r = Some x \<Longrightarrow> fields_ok (parser (outcome_run x))"
    and "body_identity_eof_step len p r = Some x \<Longrightarrow> fields_ok (parser (outcome_run x))"
    and "message_done_step S p r = Some x \<Longrightarrow> fields_ok (parser (outcome_run x))"
    and "chunk_size_start_step p ch r = Some x \<Longrightarrow> fields_ok (parser (outcome_run x))"
    and "chunk_size_step p ch r = Some x \<Longrightarrow> fields_ok (parser (outcome_run x))"
    and "chunk_parameters_step p ch r = Some x \<Longrightarrow> fields_ok (parser (outcome_run x))"
    and "chunk_size_almost_done_step p ch r = Some x \<Longrightarrow> fields_ok (parser (outcome_run x))"
    and "chunk_data_step len p r = Some x \<Longrightarrow> fields_ok (parser (outcome_run x))"
    and "chunk_data_almost_done_step S mem p ch r = Some x \<Longrightarrow> fields_ok (parser (outcome_run x))"
    and "chunk_data_done_step p ch r = Some x \<Longrightarrow> fields_ok (parser (outcome_run x))"
  using assms digit_width [of ch] unhex_width [of ch]
  by (auto simp: fields_auto dest: match_field_width [OF _ fields_ok_index]
      split: if_splits option.splits prod.splits header_states.splits
      elim!: callback_dataE callback_notifyE headers_completeE)

lemma byte_step_fields:
  assumes "byte_step S mem len ch p r = Some x" "fields_ok (parser r)"
  shows "fields_ok (parser (outcome_run x))"
  using assms(1)
  by (cases "p_state (parser r)"; simp only: byte_step_def http_state.case)
    (erule fields_first_line [OF assms(2)] fields_request_line [OF assms(2)] fields_header [OF assms(2)] fields_body [OF assms(2)])+

lemma marks_ok_iff: "marks_ok p r \<longleftrightarrow>
    (\<forall>m. marks r Header_field = Some m \<longrightarrow> m \<le> p \<and> p_state (parser r) = s_header_field) \<and>
    (\<forall>m. marks r Header_value = Some m \<longrightarrow> m \<le> p \<and> p_state (parser r) = s_header_value) \<and>
    (\<forall>m. marks r Url = Some m \<longrightarrow> m \<le> p \<and> url_state (p_state (parser r))) \<and>
    (\<forall>m. marks r Body = Some m \<longrightarrow> m \<le> p \<and> mark_state Body (p_state (parser r)))" (is "_ \<longleftrightarrow> ?R")
proof
  assume "marks_ok p r"
  from marks_okE [OF this, of Header_field] marks_okE [OF this, of Header_value] marks_okE [OF this, of Url]
    marks_okE [OF this, of Body] show ?R by auto
next
  assume R: ?R
  have "m \<le> p \<and> mark_state ev (p_state (parser r))" if "marks r ev = Some m" for ev m
    using R that by (cases ev) simp_all
  then show "marks_ok p r" by (simp add: marks_ok_def)
qed

lemma ends_in_fail: "e \<noteq> HPE_OK \<Longrightarrow> e \<noteq> HPE_PAUSED \<Longrightarrow> ends_in outcome_ok (fail e p r)"
  by (simp add: fail_def SET_ERRNO_def set_parser_def)

lemma ends_in_headers_complete:
  assumes cb: "callbacks_ok S mem len" and ok: "http_errno (parser r) = HPE_OK" "p_state (parser r) = s_headers_done" "marks_ok p r"
  shows "ends_in outcome_ok (headers_complete S p r)"
proof -
  have "headers_complete S p r \<noteq> None"
  proof (cases "on_headers_complete S")
    case (Some f)
    then have "notify_cb Headers_complete S = Some f" by simp
    with cb have "f (parser r) (object r) \<noteq> None" unfolding callbacks_ok_def by blast
    then obtain ret paused ob where "f (parser r) (object r) = Some (ret, paused, ob)" by (cases "f (parser r) (object r)") auto
    with Some ok show ?thesis by (simp add: headers_complete_def http_parser_pause_def Let_def)
  qed (use ok in \<open>simp add: headers_complete_def\<close>)
  then obtain x where x: "headers_complete S p r = Some x" by blast
  from x show ?thesis
    by (cases rule: headers_completeE) (use ok in \<open>auto simp: x state_ok_def parser_ok_def marks_ok_def\<close>)
qed

definition unmarked :: "'o run \<Rightarrow> bool" where "unmarked r \<longleftrightarrow> (\<forall>ev. marks r ev = None)"

lemma unmarkedI: "marks_ok p r \<Longrightarrow> (\<And>ev. \<not> mark_state ev (p_state (parser r))) \<Longrightarrow> unmarked r"
  unfolding unmarked_def marks_ok_def by (metis not_Some_eq)

lemma unmarked_simps [simp]:
  "unmarked (set_parser f r) = unmarked r" "unmarked (to_state s r) = unmarked r" "unmarked (r\<lparr>object := ob\<rparr>) = unmarked r"
  by (simp_all add: unmarked_def set_parser_def to_state_def)

lemma unmarked_ok [simp]: "unmarked r \<Longrightarrow> marks_ok p r"
  by (simp add: unmarked_def marks_ok_def)

lemma ok_notify:
  assumes "callbacks_ok S mem len" "http_errno (parser r) = HPE_OK" "state_ok 0 (parser r)" "unmarked r"
  shows "ends_in outcome_ok (NOTIFY S ev p r)" "ends_in outcome_ok (callback_notify S ev n r (\<lambda>r. Some (Return n r)))"
  unfolding NOTIFY_def
  by (rule ends_in_notify [OF assms(1,2)];
      use assms in \<open>simp add: parser_ok_errno parser_ok_def unmarked_def marks_ok_def\<close>)+

text \<open>\<open>ev\<close> is the only mark that is set.\<close>

definition only_mark :: "data_event \<Rightarrow> nat \<Rightarrow> 'o run \<Rightarrow> bool" where
  "only_mark ev p r \<longleftrightarrow> (\<forall>ev' m. marks r ev' = Some m \<longrightarrow> ev' = ev \<and> m \<le> p)"

lemma only_mark_simps [simp]:
  "only_mark ev p (set_parser f r) = only_mark ev p r" "only_mark ev p (to_state s r) = only_mark ev p r"
  by (simp_all add: only_mark_def set_parser_def to_state_def)

lemma only_markI: "marks_ok p r \<Longrightarrow> (\<And>ev'. mark_state ev' (p_state (parser r)) \<Longrightarrow> ev' = ev) \<Longrightarrow> only_mark ev p r"
  by (simp add: only_mark_def marks_ok_def)

lemma only_mark_ok: "only_mark ev p r \<Longrightarrow> mark_state ev (p_state (parser r)) \<Longrightarrow> p \<le> p' \<Longrightarrow> marks_ok p' r"
  by (fastforce simp: only_mark_def marks_ok_def)

lemma only_mark_MARK: "only_mark ev p r \<Longrightarrow> only_mark ev p (MARK ev p r)"
  by (auto simp: only_mark_def MARK_def)

lemma unmarked_only [simp]: "unmarked r \<Longrightarrow> only_mark ev p r"
  by (simp add: unmarked_def only_mark_def)

lemma MARK_parser [simp]: "parser (MARK ev p r) = parser r" "object (MARK ev p r) = object r"
  by (simp_all add: MARK_def)

lemma ok_data:
  assumes "callbacks_ok S mem len" "http_errno (parser r) = HPE_OK" "state_ok 0 (parser r)" "only_mark ev p r" "p < len"
  shows "ends_in outcome_ok (CALLBACK_DATA S mem ev p r)"
  unfolding CALLBACK_DATA_def
proof (rule ends_in_data [OF assms(1,2)])
  show "m \<le> p" if "marks r ev = Some m" for m using assms(4) that by (simp add: only_mark_def)
  show "outcome_ok (Return (p + 1) r1)" if "parser r1 = parser r\<lparr>http_errno := e\<rparr>" for r1 :: "'a run" and e
    using assms(3) that by (simp add: parser_ok_errno)
  show "ends_in outcome_ok (break p r1)" if "parser r1 = parser r" "marks r1 = (marks r)(ev := None)" for r1 :: "'a run"
  proof -
    have "unmarked r1" using assms(4) that(2) by (auto simp: unmarked_def only_mark_def) (metis not_Some_eq)
    with that(1) assms(2,3) show ?thesis by simp
  qed
qed (use assms in simp)

lemma ok_data_again:
  assumes "callbacks_ok S mem len" "http_errno (parser r) = HPE_OK" "state_ok 0 (parser r)" "state_ok 1 (parser r)"
    "only_mark ev p r" "p \<le> stop" "stop \<le> len"
  shows "ends_in outcome_ok (callback_data S mem ev stop p r (\<lambda>r1. Some (Reexecute p r1)))"
proof (rule ends_in_data [OF assms(1,2) assms(7)])
  show "m \<le> stop" if "marks r ev = Some m" for m using assms(5,6) that unfolding only_mark_def by (meson le_trans)
  show "outcome_ok (Return p r1)" if "parser r1 = parser r\<lparr>http_errno := e\<rparr>" for r1 :: "'a run" and e
    using assms(3) that by (simp add: parser_ok_errno)
  show "ends_in outcome_ok (Some (Reexecute p r1))" if "parser r1 = parser r" "marks r1 = (marks r)(ev := None)" for r1 :: "'a run"
  proof -
    have "unmarked r1" using assms(5) that(2) by (auto simp: unmarked_def only_mark_def) (metis not_Some_eq)
    with that(1) assms(2,4) show ?thesis by simp
  qed
qed

lemma run_simps [simp]: "parser (set_parser f r) = f (parser r)" "parser (to_state s r) = (parser r)\<lparr>p_state := s\<rparr>"
  "http_errno (new_message q) = http_errno q"
  by (simp_all add: set_parser_def to_state_def new_message_def)

text \<open>The states of the first line and of the end of the headers, in which no mark is set.\<close>

lemma plain_steps:
  assumes "callbacks_ok S mem len" "http_errno (parser r) = HPE_OK" "unmarked r"
  shows "p_state (parser r) = s_dead \<Longrightarrow> ends_in outcome_ok (dead_step p ch r)"
  and "p_state (parser r) = s_start_req_or_res \<Longrightarrow> ends_in outcome_ok (start_req_or_res_step S p ch r)"
  and "p_state (parser r) = s_start_res \<Longrightarrow> ends_in outcome_ok (start_res_step S p ch r)"
  and "p_state (parser r) = s_start_req \<Longrightarrow> ends_in outcome_ok (start_req_step S p ch r)"
  and "ends_in outcome_ok (res_line_almost_done_step S p ch r)"
  and "ends_in outcome_ok (message_done_step S p r)"
proof -
  have st: "p_state q \<in> {s_dead, s_start_req_or_res, s_res_or_resp_H, s_start_req, s_start_res, s_res_H, s_header_field_start} \<Longrightarrow> state_ok n q" for q n
    by (auto simp: state_ok_def)
  note notify = ok_notify [OF assms(1)]
  show "p_state (parser r) = s_dead \<Longrightarrow> ends_in outcome_ok (dead_step p ch r)"
    using assms by (simp add: dead_step_def ends_in_fail st)
  show "p_state (parser r) = s_start_req_or_res \<Longrightarrow> ends_in outcome_ok (start_req_or_res_step S p ch r)"
    using assms by (simp add: start_req_or_res_step_def Let_def st notify)
  show "p_state (parser r) = s_start_res \<Longrightarrow> ends_in outcome_ok (start_res_step S p ch r)"
    using assms by (simp add: start_res_step_def Let_def st notify ends_in_fail new_message_def)
  show "p_state (parser r) = s_start_req \<Longrightarrow> ends_in outcome_ok (start_req_step S p ch r)"
  proof -
    assume s: "p_state (parser r) = s_start_req"
    have m: "p_state q = s_req_method \<Longrightarrow> p_index q = Suc 0 \<Longrightarrow> state_ok 0 q" for q
      by (cases "p_method q") (simp_all add: state_ok_def method_string_def)
    show ?thesis using assms s
      by (simp add: start_req_step_def Let_def st notify ends_in_fail m split: option.split)
  qed
  show "ends_in outcome_ok (res_line_almost_done_step S p ch r)"
    using assms by (simp add: res_line_almost_done_step_def STRICT_CHECK_def ends_in_fail st notify)
  show "ends_in outcome_ok (message_done_step S p r)"
    using assms by (simp add: message_done_step_def notify state_ok_other(2))
qed

lemma line_steps:
  assumes "http_errno (parser r) = HPE_OK" "unmarked r"
  shows "ends_in outcome_ok (res_or_resp_H_step p ch r)"
    and "s \<in> {s_res_HT, s_res_HTT, s_res_HTTP, s_res_first_http_major, s_req_http_HT, s_req_http_HTT, s_req_http_HTTP,
        s_req_first_http_major} \<Longrightarrow> ends_in outcome_ok (strict_step c s p ch r)"
    and "s \<in> {s_res_http_major, s_req_http_major} \<Longrightarrow> ends_in outcome_ok (first_major_step c s p ch r)"
    and "s \<in> {s_res_first_http_minor, s_req_first_http_minor} \<Longrightarrow> p_state (parser r) \<in> {s_res_http_major, s_req_http_major} \<Longrightarrow>
      ends_in outcome_ok (major_step s p ch r)"
    and "s \<in> {s_res_http_minor, s_req_http_minor} \<Longrightarrow> ends_in outcome_ok (first_minor_step s p ch r)"
    and "p_state (parser r) = s_res_http_minor \<Longrightarrow> ends_in outcome_ok (res_http_minor_step p ch r)"
    and "p_state (parser r) = s_res_first_status_code \<Longrightarrow> ends_in outcome_ok (first_status_code_step p ch r)"
    and "p_state (parser r) = s_res_status_code \<Longrightarrow> ends_in outcome_ok (status_code_step p ch r)"
    and "p_state (parser r) = s_res_status \<Longrightarrow> ends_in outcome_ok (res_status_step p ch r)"
    and "p_state (parser r) = s_req_http_start \<Longrightarrow> ends_in outcome_ok (req_http_start_step p ch r)"
    and "p_state (parser r) = s_req_http_minor \<Longrightarrow> ends_in outcome_ok (req_http_minor_step p ch r)"
    and "ends_in outcome_ok (req_line_almost_done_step p ch r)"
    and "ends_in outcome_ok (header_almost_done_step p ch r)"
    and "ends_in outcome_ok (header_value_lws_step p ch r)"
proof -
  show "ends_in outcome_ok (res_or_resp_H_step p ch r)"
    using assms by (simp add: res_or_resp_H_step_def ends_in_fail state_ok_def method_string_def)
  note simps = next_state_def STRICT_CHECK_def ends_in_fail Let_def minor_digit_step_def
  show "s \<in> {s_res_HT, s_res_HTT, s_res_HTTP, s_res_first_http_major, s_req_http_HT, s_req_http_HTT, s_req_http_HTTP,
        s_req_first_http_major} \<Longrightarrow> ends_in outcome_ok (strict_step c s p ch r)"
    using assms by (auto simp: strict_step_def simps state_ok_def)
  show "s \<in> {s_res_http_major, s_req_http_major} \<Longrightarrow> ends_in outcome_ok (first_major_step c s p ch r)"
    using assms by (auto simp: first_major_step_def simps state_ok_def)
  show "s \<in> {s_res_first_http_minor, s_req_first_http_minor} \<Longrightarrow> p_state (parser r) \<in> {s_res_http_major, s_req_http_major} \<Longrightarrow>
      ends_in outcome_ok (major_step s p ch r)"
    using assms by (auto simp: major_step_def simps state_ok_def)
  show "s \<in> {s_res_http_minor, s_req_http_minor} \<Longrightarrow> ends_in outcome_ok (first_minor_step s p ch r)"
    using assms by (auto simp: first_minor_step_def simps state_ok_def)
  show "p_state (parser r) = s_res_http_minor \<Longrightarrow> ends_in outcome_ok (res_http_minor_step p ch r)"
    using assms by (simp add: res_http_minor_step_def simps state_ok_def)
  show "p_state (parser r) = s_res_first_status_code \<Longrightarrow> ends_in outcome_ok (first_status_code_step p ch r)"
    using assms by (simp add: first_status_code_step_def simps state_ok_def)
  show "p_state (parser r) = s_res_status_code \<Longrightarrow> ends_in outcome_ok (status_code_step p ch r)"
    using assms by (simp add: status_code_step_def simps state_ok_def)
  show "p_state (parser r) = s_res_status \<Longrightarrow> ends_in outcome_ok (res_status_step p ch r)"
    using assms by (simp add: res_status_step_def simps state_ok_def)
  show "p_state (parser r) = s_req_http_start \<Longrightarrow> ends_in outcome_ok (req_http_start_step p ch r)"
    using assms by (simp add: req_http_start_step_def simps state_ok_def)
  show "p_state (parser r) = s_req_http_minor \<Longrightarrow> ends_in outcome_ok (req_http_minor_step p ch r)"
    using assms by (simp add: req_http_minor_step_def simps state_ok_def)
  show "ends_in outcome_ok (req_line_almost_done_step p ch r)" "ends_in outcome_ok (header_almost_done_step p ch r)"
    "ends_in outcome_ok (header_value_lws_step p ch r)"
    using assms by (simp_all add: req_line_almost_done_step_def header_almost_done_step_def header_value_lws_step_def simps state_ok_def)
qed

lemma method_step_ok:
  assumes "http_errno (parser r) = HPE_OK" "unmarked r" "p_state (parser r) = s_req_method" "state_ok n (parser r)"
  shows "ends_in outcome_ok (req_method_step p ch r)"
proof -
  let ?m = "p_method (parser r)" and ?i = "p_index (parser r)"
  have i: "?i \<le> length (method_string ?m)" using assms(3,4) by (simp add: state_ok_def)
  then have "u8 (Suc ?i) = Suc ?i" using method_string_length [of ?m] by simp
  moreover have ok: "p_state q = s_req_method \<Longrightarrow> p_index q \<le> length (method_string (p_method q)) \<Longrightarrow> state_ok 0 q" for q
    by (simp add: state_ok_def)
  moreover have "c_at (method_string ?m) ?i \<noteq> None" using i by (simp add: c_at_def)
  then obtain x where x: "c_at (method_string ?m) ?i = Some x" by blast
  ultimately show ?thesis
    using assms(1-3) method_index [OF x]
    by (auto simp: req_method_step_def Let_def x ends_in_fail next_state_def split: option.split)
      (auto simp: state_ok_def)
qed

lemma url_char_ok:
  assumes "http_errno (parser r) = HPE_OK" "only_mark Url p r"
  shows "ends_in outcome_ok (url_char p ch r)"
  using assms url_result [of "p_state (parser r)" ch]
  by (auto simp: url_char_def Let_def ends_in_fail state_ok_other(1) intro: only_mark_ok [where p = p])

lemma url_steps:
  assumes "callbacks_ok S mem len" "p < len" "http_errno (parser r) = HPE_OK" "only_mark Url p r"
  shows "unmarked r \<Longrightarrow> p_state (parser r) = s_req_spaces_before_url \<Longrightarrow> ends_in outcome_ok (spaces_before_url_step p ch r)"
    and "ends_in outcome_ok (schema_step p ch r)"
    and "ends_in outcome_ok (url_step S mem p ch r)"
proof -
  show "unmarked r \<Longrightarrow> p_state (parser r) = s_req_spaces_before_url \<Longrightarrow> ends_in outcome_ok (spaces_before_url_step p ch r)"
    using assms by (auto simp: spaces_before_url_step_def Let_def state_ok_def intro!: url_char_ok only_mark_MARK)
  show "ends_in outcome_ok (schema_step p ch r)"
    using assms by (auto simp: schema_step_def ends_in_fail intro: url_char_ok)
  show "ends_in outcome_ok (url_step S mem p ch r)"
    using assms by (auto simp: url_step_def state_ok_def intro!: url_char_ok ok_data [OF assms(1)])
qed

lemma header_field_steps:
  assumes "callbacks_ok S mem len" "p < len" "http_errno (parser r) = HPE_OK"
  shows "unmarked r \<Longrightarrow> ends_in outcome_ok (header_field_start_step p ch r)"
    and "only_mark Header_field p r \<Longrightarrow> p_state (parser r) = s_header_field \<Longrightarrow> state_ok n (parser r) \<Longrightarrow>
      ends_in outcome_ok (header_field_step S mem p ch r)"
proof -
  assume "unmarked r"
  then have m: "marks_ok p (set_parser f (MARK Header_field p r))" if "p_state (f (parser r)) = s_header_field" for f
    using that by (intro only_mark_ok [where ev = Header_field and p = p]) (simp_all add: only_mark_MARK)
  have ok: "p_state q = s_header_field \<Longrightarrow>
      header_state q \<in> {h_C, h_matching_proxy_connection, h_matching_transfer_encoding, h_matching_upgrade, h_general} \<Longrightarrow> state_ok 0 q" for q
    by (auto simp: state_ok_def match_field_def Let_def)
  show "ends_in outcome_ok (header_field_start_step p ch r)"
  proof (cases "ch = CR \<or> ch = LF \<or> TOKEN ch = NUL")
    case True
    with \<open>unmarked r\<close> assms show ?thesis
      by (auto simp: header_field_start_step_def Let_def next_state_def ends_in_fail state_ok_def)
  next
    case False
    with \<open>unmarked r\<close> assms show ?thesis
      by (simp add: header_field_start_step_def Let_def m ok)
  qed
next
  assume r: "only_mark Header_field p r" "p_state (parser r) = s_header_field" "state_ok n (parser r)"
  have f: "\<forall>ch. TOKEN ch \<noteq> NUL \<longrightarrow> match_field (header_state (parser r)) 0 ch \<noteq> None"
    using r by (simp add: state_ok_def)
  show "ends_in outcome_ok (header_field_step S mem p ch r)"
  proof (cases "TOKEN ch = NUL")
    case True
    with assms r show ?thesis
      by (auto simp: header_field_step_def ends_in_fail state_ok_def intro!: ok_data [OF assms(1)])
  next
    case False
    from match_field_ok [OF f False] obtain h' i' where h':
      "match_field (header_state (parser r)) (p_index (parser r)) ch = Some (h', i')"
      "\<forall>ch. TOKEN ch \<noteq> NUL \<longrightarrow> match_field h' 0 ch \<noteq> None" by blast
    have "state_ok 0 (parser r\<lparr>header_state := h', p_index := i'\<rparr>)" using r(2) h'(2) by (simp add: state_ok_def)
    moreover have "marks_ok p (set_parser (\<lambda>q. q\<lparr>header_state := h', p_index := i'\<rparr>) r)"
      using r by (intro only_mark_ok [where ev = Header_field and p = p]) simp_all
    ultimately show ?thesis using False assms by (simp add: header_field_step_def h'(1))
  qed
qed

lemma header_value_start_ok:
  assumes cb: "callbacks_ok S mem len" "p < len" and ok: "http_errno (parser r) = HPE_OK" "unmarked r"
    "p_state (parser r) = s_header_value_start"
  shows "ends_in outcome_ok (header_value_start_step S mem p ch r)"
proof (cases "ch = CHR '' '' \<or> ch = TAB")
  case True
  with ok show ?thesis by (simp add: header_value_start_step_def state_ok_def)
next
  case False
  let ?r1 = "set_parser (\<lambda>q. q\<lparr>p_state := s_header_value, p_index := 0\<rparr>) (MARK Header_value p r)"
  have only: "only_mark Header_value p ?r1" using ok(2) by (simp add: only_mark_MARK)
  have m: "marks_ok p (set_parser f ?r1)" if "p_state (f (parser ?r1)) = s_header_value" for f
    using only that by (intro only_mark_ok [where ev = Header_value and p = p]) simp_all
  have val_ok: "p_state q = s_header_value \<Longrightarrow> header_state q \<noteq> h_connection \<Longrightarrow> header_state q \<noteq> h_transfer_encoding \<Longrightarrow>
      state_ok 0 q" for q
    by (simp add: state_ok_def)
  consider "ch = CR" | "ch = LF" | "ch \<noteq> CR" "ch \<noteq> LF" by blast
  then show ?thesis
  proof cases
    case 3
    then show ?thesis
      using False ok
      by (cases "header_state (parser r)") (simp_all add: header_value_start_step_def Let_def m val_ok ends_in_fail)
  qed (use False ok only in \<open>simp_all add: header_value_start_step_def Let_def ok_data [OF cb(1) _ _ _ cb(2)] state_ok_def\<close>)
qed

lemma header_value_ok:
  assumes cb: "callbacks_ok S mem len" "p < len" and ok: "http_errno (parser r) = HPE_OK" "only_mark Header_value p r"
    "p_state (parser r) = s_header_value" "state_ok n (parser r)"
  shows "ends_in outcome_ok (header_value_step S mem p ch r)"
proof -
  have h: "header_state (parser r) \<noteq> h_connection" "header_state (parser r) \<noteq> h_transfer_encoding"
    using ok(3,4) by (simp_all add: state_ok_def)
  have m: "marks_ok p (set_parser f r)" if "p_state (f (parser r)) = s_header_value" for f
    using ok(2) that by (intro only_mark_ok [where ev = Header_value and p = p]) simp_all
  have m0: "marks_ok p r" using ok by (intro only_mark_ok [where ev = Header_value and p = p]) simp_all
  have val_ok: "p_state q = s_header_value \<Longrightarrow> header_state q \<noteq> h_connection \<Longrightarrow> header_state q \<noteq> h_transfer_encoding \<Longrightarrow>
      state_ok 0 q" for q
    by (simp add: state_ok_def)
  have word: "match_word w h' h'' i c \<noteq> h" if "h' \<noteq> h" "h'' \<noteq> h" "h_general \<noteq> h" for w h' h'' h i c
    using that by (simp add: match_word_def)
  consider "ch = CR" | "ch = LF" | "ch \<noteq> CR" "ch \<noteq> LF" by blast
  then show ?thesis
  proof cases
    case 3
    then show ?thesis
      using ok(1,3) h
      by (cases "header_state (parser r)") (simp_all add: header_value_step_def Let_def m m0 val_ok word ends_in_fail)
  qed (use ok cb(2) in \<open>simp_all add: header_value_step_def ok_data [OF cb(1) _ _ _ cb(2)] ok_data_again [OF cb(1)] state_ok_def\<close>)
qed

lemma headers_end_steps:
  assumes cb: "callbacks_ok S mem len" and ok: "http_errno (parser r) = HPE_OK" "unmarked r"
  shows "ends_in outcome_ok (headers_almost_done_step S p ch r)"
    and "ends_in outcome_ok (headers_done_step S p ch r)"
proof -
  note notify = ok_notify [OF cb]
  show "ends_in outcome_ok (headers_almost_done_step S p ch r)"
    using ok by (simp add: headers_almost_done_step_def STRICT_CHECK_def ends_in_fail notify state_ok_other(2)
      ends_in_headers_complete [OF cb])
  show "ends_in outcome_ok (headers_done_step S p ch r)"
    using ok notify(1) notify(2) [where n = "p + 1"]
    by (simp add: headers_done_step_def STRICT_CHECK_def ends_in_fail Let_def state_ok_other(2) next_state_def) (simp add: state_ok_def)
qed

lemma take_body_ok:
  assumes "content_length (parser r) \<noteq> 0" "content_length (parser r) \<noteq> ULLONG_MAX" "fields_ok (parser r)" "p < len"
  obtains p1 k where "take_body len p r = Some (p1, set_parser (\<lambda>q. q\<lparr>content_length := k\<rparr>) (MARK Body p r))"
    "p \<le> p1" "p1 < len" "k \<noteq> ULLONG_MAX"
proof
  let ?n = "content_length (parser r)"
  show "take_body len p r = Some (p + min ?n (len - p) - 1, set_parser (\<lambda>q. q\<lparr>content_length := ?n - min ?n (len - p)\<rparr>) (MARK Body p r))"
    using assms(1,2) by (simp add: take_body_def Let_def)
  show "?n - min ?n (len - p) \<noteq> ULLONG_MAX" proof -
    have "?n < ULLONG_MAX" using assms(2,3) by (simp add: fields_ok_def ULLONG_MAX_def)
    then show ?thesis by linarith
  qed
qed (use assms in auto)

lemma body_steps:
  assumes cb: "callbacks_ok S mem len" "p < len" and ok: "http_errno (parser r) = HPE_OK" "only_mark Body p r" "fields_ok (parser r)"
  shows "p_state (parser r) = s_body_identity \<Longrightarrow> state_ok n (parser r) \<Longrightarrow> ends_in outcome_ok (body_identity_step S mem len p r)"
    and "p_state (parser r) = s_body_identity_eof \<Longrightarrow> ends_in outcome_ok (body_identity_eof_step len p r)"
    and "p_state (parser r) = s_chunk_data \<Longrightarrow> state_ok n (parser r) \<Longrightarrow> ends_in outcome_ok (chunk_data_step len p r)"
    and "p_state (parser r) = s_chunk_data_almost_done \<Longrightarrow> state_ok n (parser r) \<Longrightarrow>
      ends_in outcome_ok (chunk_data_almost_done_step S mem p ch r)"
proof -
  have only: "only_mark Body p1 (set_parser f (MARK Body p r))" if "p \<le> p1" for f p1
    using only_mark_MARK [OF ok(2)] that unfolding only_mark_def set_parser_def by (auto dest: le_trans)
  have m: "marks_ok p1 (set_parser f (MARK Body p r))" if "p \<le> p1" "mark_state Body (p_state (f (parser r)))" for f p1
    using only [OF that(1)] that(2) by (intro only_mark_ok [where ev = Body and p = p1]) simp_all
  {
    assume r: "p_state (parser r) = s_body_identity" "state_ok n (parser r)"
    then have "content_length (parser r) \<noteq> 0" "content_length (parser r) \<noteq> ULLONG_MAX" by (simp_all add: state_ok_def)
    from take_body_ok [OF this ok(3) cb(2)] obtain p1 k where t:
      "take_body len p r = Some (p1, set_parser (\<lambda>q. q\<lparr>content_length := k\<rparr>) (MARK Body p r))"
      "p \<le> p1" "p1 < len" "k \<noteq> ULLONG_MAX" .
    have "ends_in outcome_ok (callback_data S mem Body (p1 + 1) p1 (to_state s_message_done
        (set_parser (\<lambda>q. q\<lparr>content_length := k\<rparr>) (MARK Body p r))) (\<lambda>r2. Some (Reexecute p1 r2)))"
    proof (rule ends_in_data [OF cb(1)])
      show "m \<le> p1 + 1" if "marks (to_state s_message_done (set_parser (\<lambda>q. q\<lparr>content_length := k\<rparr>) (MARK Body p r))) Body = Some m" for m
        using only [OF t(2), of "\<lambda>q. q\<lparr>content_length := k\<rparr>"] that
        by (simp add: only_mark_def to_state_def set_parser_def le_SucI)
      show "ends_in outcome_ok (Some (Reexecute p1 r1))"
        if "parser r1 = parser (to_state s_message_done (set_parser (\<lambda>q. q\<lparr>content_length := k\<rparr>) (MARK Body p r)))"
          "marks r1 = (marks (to_state s_message_done (set_parser (\<lambda>q. q\<lparr>content_length := k\<rparr>) (MARK Body p r))))(Body := None)" for r1 :: "'a run"
      proof -
        have "unmarked r1" unfolding unmarked_def
        proof
          fix ev
          show "marks r1 ev = None"
            using only [OF t(2), of "\<lambda>q. q\<lparr>content_length := k\<rparr>"] that(2)
            by (cases "ev = Body"; cases "marks r1 ev") (auto simp: only_mark_def to_state_def set_parser_def)
        qed
        with that(1) ok(1) show ?thesis by (simp add: state_ok_def)
      qed
    qed (use t ok(1) in \<open>simp_all add: parser_ok_def state_ok_def\<close>)
    with t ok r m show "ends_in outcome_ok (body_identity_step S mem len p r)"
      by (cases "k = 0") (simp_all add: body_identity_step_def state_ok_def)
  }
  show "p_state (parser r) = s_body_identity_eof \<Longrightarrow> ends_in outcome_ok (body_identity_eof_step len p r)"
    using ok cb(2) only_mark_MARK [OF ok(2)]
    by (auto simp: body_identity_eof_step_def state_ok_def intro!: only_mark_ok [where ev = Body and p = p])
  {
    assume r: "p_state (parser r) = s_chunk_data" "state_ok n (parser r)"
    then have "content_length (parser r) \<noteq> 0" "content_length (parser r) \<noteq> ULLONG_MAX" by (simp_all add: state_ok_def)
    from take_body_ok [OF this ok(3) cb(2)] obtain p1 k where t:
      "take_body len p r = Some (p1, set_parser (\<lambda>q. q\<lparr>content_length := k\<rparr>) (MARK Body p r))"
      "p \<le> p1" "p1 < len" "k \<noteq> ULLONG_MAX" .
    have "marks_ok p1 (to_state s_chunk_data_almost_done (set_parser (\<lambda>q. q\<lparr>content_length := k\<rparr>) (MARK Body p r)))"
      using only [OF t(2)] by (intro only_mark_ok [where ev = Body and p = p1]) simp_all
    with t ok r m show "ends_in outcome_ok (chunk_data_step len p r)"
      by (cases "k = 0") (simp_all add: chunk_data_step_def next_state_def state_ok_def)
  }
  show "p_state (parser r) = s_chunk_data_almost_done \<Longrightarrow> state_ok n (parser r) \<Longrightarrow>
      ends_in outcome_ok (chunk_data_almost_done_step S mem p ch r)"
    using ok cb by (simp add: chunk_data_almost_done_step_def STRICT_CHECK_def state_ok_def ends_in_fail ok_data)
qed

lemma chunk_size_steps:
  assumes ok: "http_errno (parser r) = HPE_OK" "unmarked r" "state_ok 1 (parser r)"
  shows "p_state (parser r) = s_chunk_size_start \<Longrightarrow> ends_in outcome_ok (chunk_size_start_step p ch r)"
    and "p_state (parser r) = s_chunk_size \<Longrightarrow> ends_in outcome_ok (chunk_size_step p ch r)"
    and "p_state (parser r) = s_chunk_parameters \<Longrightarrow> ends_in outcome_ok (chunk_parameters_step p ch r)"
    and "p_state (parser r) = s_chunk_size_almost_done \<Longrightarrow> ends_in outcome_ok (chunk_size_almost_done_step p ch r)"
    and "p_state (parser r) = s_chunk_data_done \<Longrightarrow> ends_in outcome_ok (chunk_data_done_step p ch r)"
proof -
  have "nat (unhex_at ch) \<noteq> ULLONG_MAX" using unhex_width [of ch] by (simp add: ULLONG_MAX_def)
  then show "p_state (parser r) = s_chunk_size_start \<Longrightarrow> ends_in outcome_ok (chunk_size_start_step p ch r)"
    using ok by (simp add: chunk_size_start_step_def state_ok_def ends_in_fail)
  show "p_state (parser r) = s_chunk_size \<Longrightarrow> ends_in outcome_ok (chunk_size_step p ch r)"
    using ok by (simp add: chunk_size_step_def next_state_def Let_def state_ok_def ends_in_fail)
  show "p_state (parser r) = s_chunk_parameters \<Longrightarrow> ends_in outcome_ok (chunk_parameters_step p ch r)"
    using ok by (simp add: chunk_parameters_step_def next_state_def state_ok_def)
  show "p_state (parser r) = s_chunk_size_almost_done \<Longrightarrow> ends_in outcome_ok (chunk_size_almost_done_step p ch r)"
    using ok by (simp add: chunk_size_almost_done_step_def STRICT_CHECK_def state_ok_def ends_in_fail)
  show "p_state (parser r) = s_chunk_data_done \<Longrightarrow> ends_in outcome_ok (chunk_data_done_step p ch r)"
    using ok by (simp add: chunk_data_done_step_def STRICT_CHECK_def state_ok_def ends_in_fail)
qed

lemma byte_step_ok:
  assumes cb: "callbacks_ok S mem len" "p < len"
    and ok: "http_errno (parser r) = HPE_OK" "fields_ok (parser r)" "state_ok 1 (parser r)" "marks_ok p r"
  shows "ends_in outcome_ok (byte_step S mem len ch p r)"
proof -
  let ?s = "p_state (parser r)"
  note facts = cb ok(1) only_markI [OF ok(4), of Url] only_markI [OF ok(4), of Header_field] only_markI [OF ok(4), of Header_value]
    only_markI [OF ok(4), of Body]
  have un: "unmarked r" if "\<not> url_state ?s" "?s \<notin> {s_header_field, s_header_value, s_body_identity, s_body_identity_eof, s_chunk_data, s_chunk_data_almost_done}"
  proof (rule unmarkedI [OF ok(4)])
    show "\<not> mark_state ev ?s" for ev using that by (cases ev) simp_all
  qed
  have only: "only_mark ev p r" if "mark_state ev ?s" for ev
  proof (rule only_markI [OF ok(4)])
    show "ev' = ev" if "mark_state ev' ?s" for ev'
      using that \<open>mark_state ev ?s\<close> by (cases ev; cases ev') (auto simp: url_state_def)
  qed
  note url = url_steps [OF cb ok(1)] and line = line_steps [OF ok(1)] and plain = plain_steps [OF cb(1) ok(1)]
    and field = header_field_steps [OF cb ok(1)] and ends = headers_end_steps [OF cb(1) ok(1)]
    and body = body_steps [OF cb ok(1) _ ok(2)] and chunk = chunk_size_steps [OF ok(1) _ ok(3)]
  show ?thesis
    by (cases ?s)
      (simp_all add: byte_step_def un only url_state_def plain line url field ends body(1,3,4) [OF _ _ ok(3)] body(2) chunk ok
        method_step_ok [OF ok(1) _ _ ok(3)] header_value_start_ok [OF cb ok(1)] header_value_ok [OF cb ok(1) _ _ ok(3)]
        field(2) [OF _ _ ok(3)])
qed

section \<open>All bytes\<close>

lemma exec_byte_ok:
  "callbacks_ok S mem len \<Longrightarrow> p < len \<Longrightarrow> http_errno (parser r) = HPE_OK \<Longrightarrow> fields_ok (parser r) \<Longrightarrow> state_ok 1 (parser r) \<Longrightarrow>
   marks_ok p r \<Longrightarrow> ends_in (\<lambda>x. outcome_ok x \<and> fields_ok (parser (outcome_run x))) (exec_byte S mem len ch p r)"
proof (induction S mem len ch p r rule: exec_byte.induct)
  case (1 S mem len ch p r)
  from byte_step_ok [OF 1(2-7), of ch] obtain x where x: "byte_step S mem len ch p r = Some x" "outcome_ok x"
    by (auto simp: ends_in_def)
  have f: "fields_ok (parser (outcome_run x))" by (rule byte_step_fields [OF x(1) 1(5)])
  show ?case
  proof (cases x)
    case (Reexecute p1 r1)
    have "p1 < len" using byte_step_within [OF x(1) 1(3)] Reexecute by simp
    from 1(1) [OF x(1) Reexecute 1(2) this] x f Reexecute show ?thesis
      by (simp add: exec_byte.simps [of S mem len ch p r])
  qed (use x f in \<open>simp_all add: exec_byte.simps [of S mem len ch p r]\<close>)
qed

lemma flush_ok:
  assumes cb: "callbacks_ok S mem len" and ok: "http_errno (parser r) = HPE_OK" "state_ok 0 (parser r)" "fields_ok (parser r)"
    "marks_ok len r"
  shows "ends_in (\<lambda>x. outcome_ok x \<and> fields_ok (parser (outcome_run x)) \<and> (\<exists>r1. x = Return len r1)) (flush_marks S mem len r)"
    (is "ends_in ?P _")
proof -
  have one: "ev' = ev" if "marks r ev = Some m" "marks r ev' = Some m'" for ev ev' m m'
    using marks_okE [OF ok(4) that(1)] marks_okE [OF ok(4) that(2)] by (cases ev; cases ev') (auto simp: url_state_def)
  have le: "m \<le> len" if "marks r ev = Some m" for ev m using marks_okE [OF ok(4) that] by simp
  have count: "\<not> 1 < length (filter (\<lambda>ev. marks r ev \<noteq> None) [Header_field, Header_value, Url, Body])"
    using one by (cases "marks r Header_field"; cases "marks r Header_value"; cases "marks r Url"; cases "marks r Body") auto
  have stop: "?P (Return len r1)" if "parser r1 = parser r\<lparr>http_errno := e\<rparr>" for r1 :: "'a run" and e
    using that ok by (simp add: parser_ok_errno)
  have last: "?P (Return len r1)" if "parser r1 = parser r" for r1 :: "'a run"
    using that ok by (simp add: parser_ok_def)
  let ?sub = "\<lambda>r1. parser r1 = parser r \<and> (\<forall>ev m. marks r1 ev = Some m \<longrightarrow> m \<le> len)"
  have step: "ends_in ?P (callback_data S mem ev len len r1 next)"
    if "?sub r1" "\<And>r2. ?sub r2 \<Longrightarrow> ends_in ?P (next r2)" for ev r1 "next"
    by (rule ends_in_data [OF cb]) (use that ok stop in auto)
  show ?thesis
    unfolding flush_marks_def if_not_P [OF count]
    by (intro step) (use le last in auto)
qed

lemma exec_loop_ok:
  "callbacks_ok S mem len \<Longrightarrow> p \<le> len \<Longrightarrow> http_errno (parser r) = HPE_OK \<Longrightarrow> fields_ok (parser r) \<Longrightarrow> state_ok 0 (parser r) \<Longrightarrow>
   marks_ok p r \<Longrightarrow> \<exists>x n q ob. exec_loop S mem len p r = Some x \<and> result x = Some (n, q, ob) \<and> n \<le> len \<and> parser_ok q \<and> fields_ok q"
proof (induction S mem len p r rule: exec_loop.induct)
  case (1 S mem len p r)
  show ?case
  proof (cases "len \<le> p")
    case True
    then have "marks_ok len r" using 1(3,7) by simp
    from flush_ok [OF 1(2,4,6,5) this] obtain r1 where
      "flush_marks S mem len r = Some (Return len r1)" "parser_ok (parser r1)" "fields_ok (parser r1)" by (auto simp: ends_in_def)
    with True show ?thesis by (simp add: exec_loop.simps [of S mem len p r] result_def)
  next
    case False
    let ?r = "count_byte r"
    have r: "http_errno (parser ?r) = HPE_OK" "fields_ok (parser ?r)" "state_ok 1 (parser ?r)" "marks_ok p ?r"
      using 1(4-7) by (auto simp: count_byte_def PARSING_HEADER_def state_ok_def marks_ok_def set_parser_def u32_def split: http_state.split)
    show ?thesis
    proof (cases "header_overflow ?r")
      case True
      with False r show ?thesis
        by (simp add: exec_loop.simps [of S mem len p r] fail_def SET_ERRNO_def result_def parser_ok_def)
    next
      case no: False
      from exec_byte_ok [OF 1(2) _ r, of "mem ! p"] False obtain x where x: "exec_byte S mem len (mem ! p) p ?r = Some x"
        "outcome_ok x" "fields_ok (parser (outcome_run x))" by (auto simp: ends_in_def)
      note w = exec_byte_within [OF x(1)]
      show ?thesis
      proof (cases x)
        case (Advance p1 r1)
        then have "p1 < len" using w False by simp
        moreover have "marks_ok (p1 + 1) r1" using x(2) Advance by (auto simp: marks_ok_def intro: le_SucI)
        ultimately show ?thesis
          using 1(1) [OF False no x(1) Advance 1(2)] x(2,3) False no x(1) Advance
          by (simp add: exec_loop.simps [of S mem len p r])
      next
        case (Reexecute p1 r1)
        with w False show ?thesis by simp
      next
        case (Return n r1)
        with x w False no show ?thesis by (simp add: exec_loop.simps [of S mem len p r] result_def)
      next
        case (Goto_error p1 r1)
        with x w False no show ?thesis by (simp add: exec_loop.simps [of S mem len p r] result_def parser_ok_def)
      qed
    qed
  qed
qed

section \<open>A call\<close>

lemma init_ok: "parser_ok (http_parser_init t)" "fields_ok (http_parser_init t)"
  by (simp_all add: parser_ok_def state_ok_def http_parser_init_def fields_ok_def)

lemma eof_ok:
  assumes cb: "callbacks_ok S mem len" and "http_errno (parser r) = HPE_OK" "p_state (parser r) = s_body_identity_eof" "fields_ok (parser r)"
  shows "\<exists>n q ob. Option.bind (callback_notify S Message_complete 0 r (\<lambda>r. Some (Return 0 r))) result = Some (n, q, ob) \<and>
    n = 0 \<and> parser_ok q \<and> fields_ok q"
proof -
  have "ends_in (\<lambda>x. \<exists>r1. x = Return 0 r1 \<and> parser_ok (parser r1) \<and> fields_ok (parser r1))
      (callback_notify S Message_complete 0 r (\<lambda>r. Some (Return 0 r)))"
    by (rule ends_in_notify [OF cb assms(2)]) (use assms in \<open>simp_all add: parser_ok_def state_ok_def\<close>)
  then show ?thesis by (auto simp: ends_in_def result_def)
qed

lemma http_parser_execute_ok:
  assumes "callbacks_ok S mem len" "parser_ok q" "fields_ok q"
  shows "\<exists>n q' ob'. http_parser_execute S mem len q ob = Some (n, q', ob') \<and> n \<le> max 1 len \<and> parser_ok q' \<and> fields_ok q'"
proof (cases "http_errno q = HPE_OK")
  case False
  with assms show ?thesis by (simp add: http_parser_execute_def)
next
  case ok: True
  let ?r = "\<lparr>parser = q, object = ob, marks = first_marks (p_state q)\<rparr>"
  have q: "state_ok 0 q" using assms(2) ok by (simp add: parser_ok_def)
  show ?thesis
  proof (cases "len = 0")
    case True
    have "parser_ok (q\<lparr>http_errno := HPE_INVALID_EOF_STATE\<rparr>)" by (simp add: parser_ok_def)
    show ?thesis
    proof (cases "p_state q = s_body_identity_eof")
      case eof: True
      with eof_ok [OF assms(1), of ?r] ok assms(3) obtain n q' ob' where
        "Option.bind (callback_notify S Message_complete 0 ?r (\<lambda>r. Some (Return 0 r))) result = Some (n, q', ob')"
        "n = 0" "parser_ok q'" "fields_ok q'" by auto
      with True eof ok show ?thesis by (simp add: http_parser_execute_def Let_def)
    next
      case False
      with True ok assms(2,3) \<open>parser_ok (q\<lparr>http_errno := _\<rparr>)\<close> show ?thesis
        by (cases "p_state q") (simp_all add: http_parser_execute_def Let_def)
    qed
  next
    case False
    have m: "marks_ok 0 ?r"
    proof -
      have "m \<le> 0 \<and> mark_state ev (p_state q)" if "first_marks (p_state q) ev = Some m" for ev m
        using that by (cases ev) (auto simp: first_marks_def split: if_splits)
      then show ?thesis by (simp add: marks_ok_def)
    qed
    from exec_loop_ok [OF assms(1) _ _ _ _ m] ok q assms(3) obtain x n q' ob' where
      "exec_loop S mem len 0 ?r = Some x" "result x = Some (n, q', ob')" "n \<le> len" "parser_ok q'" "fields_ok q'" by auto
    with False ok show ?thesis by (simp add: http_parser_execute_def Let_def)
  qed
qed

text \<open>C8. No call of \<open>http_parser_execute\<close> fails an assertion or uses a byte outside its data, whatever the bytes, however
the stream is cut into calls, and whatever the callbacks answer (they may fail, or pause the parser): a parser
just initialised satisfies the invariant, and each call returns, consumes no more than it was given (1 for an
unexpected end of file) and keeps the invariant.\<close>

theorem http_parser_never_fails:
  assumes "callbacks_ok S mem len"
  shows "parser_ok (http_parser_init t) \<and> fields_ok (http_parser_init t) \<and>
    (\<forall>q ob. parser_ok q \<longrightarrow> fields_ok q \<longrightarrow>
      (\<exists>n q' ob'. http_parser_execute S mem len q ob = Some (n, q', ob') \<and> n \<le> max 1 len \<and> parser_ok q' \<and> fields_ok q'))"
  using http_parser_execute_ok [OF assms] init_ok by blast

text \<open>A parser that is paused by its URL callback.\<close>

definition pausing :: "nat http_parser_settings" where
  "pausing = \<lparr>on_message_begin = None, on_url = Some (\<lambda>q at n ob. Some (0, True, ob + n)), on_status_complete = None,
     on_header_field = None, on_header_value = Some (\<lambda>q at n ob. Some (1, False, ob)), on_headers_complete = Some (\<lambda>q ob. Some (1, False, ob)),
     on_body = None, on_message_complete = None\<rparr>"

lemma pausing_ok: "callbacks_ok pausing mem (length mem)"
proof -
  have "f q ob \<noteq> None" if "notify_cb ev pausing = Some f" for ev f q ob using that by (cases ev) (auto simp: pausing_def)
  moreover have "f q at n ob \<noteq> None" if "data_cb ev pausing = Some f" for ev f q at n ob
    using that by (cases ev) (auto simp: pausing_def)
  ultimately show ?thesis by (simp add: callbacks_ok_def)
qed

definition sample_request :: string where
  "sample_request = ''GET /x HTTP/1.1'' @ CRLF @ ''A: b'' @ CRLF @ CRLF"

theorem http_parser_never_fails_witness:
  "parser_ok (http_parser_init HTTP_BOTH) \<and> fields_ok (http_parser_init HTTP_BOTH) \<and>
   (\<exists>n q' ob'. http_parser_execute pausing sample_request (length sample_request) (http_parser_init HTTP_BOTH) 0 = Some (n, q', ob') \<and>
     n \<le> max 1 (length sample_request) \<and> parser_ok q' \<and> fields_ok q')"
  using http_parser_never_fails [OF pausing_ok, of HTTP_BOTH sample_request] by blast

end
