(* ===== verification/Http_Memory.thy ===== *)
theory Http_Memory
  imports Http_Requests Http_Safety
begin

text \<open>
  What lies behind the data does not matter: two runs of the parser on the same bytes, with any memory behind
  them, gather the same URL and body.  The names of headers may be compared with bytes behind the data, which is why
  the runs agree only up to what the wrapper remembers of the headers, and why there must be 15 bytes to compare with.
\<close>

definition same_run :: "nat \<Rightarrow> CHttpParserWrapper run \<Rightarrow> CHttpParserWrapper run \<Rightarrow> bool" where
  "same_run len r r' \<longleftrightarrow> parser r' = parser r \<and> marks r' = marks r \<and> same_request (object r') (object r) \<and>
     (\<forall>ev m. marks r ev = Some m \<longrightarrow> m \<le> len)"

definition same_outcome ::
  "nat \<Rightarrow> CHttpParserWrapper outcome option \<Rightarrow> CHttpParserWrapper outcome option \<Rightarrow> bool" where
  "same_outcome len x x' \<longleftrightarrow> (case x of
      None \<Rightarrow> x' = None
    | Some (Advance p r) \<Rightarrow> (\<exists>r'. x' = Some (Advance p r') \<and> same_run len r r')
    | Some (Reexecute p r) \<Rightarrow> (\<exists>r'. x' = Some (Reexecute p r') \<and> same_run len r r')
    | Some (Return p r) \<Rightarrow> (\<exists>r'. x' = Some (Return p r') \<and> same_run len r r')
    | Some (Goto_error p r) \<Rightarrow> (\<exists>r'. x' = Some (Goto_error p r') \<and> same_run len r r'))"

lemma same_outcome_simps [simp]:
  "same_outcome len None x' \<longleftrightarrow> x' = None"
  "same_outcome len (Some (Advance p r)) x' \<longleftrightarrow> (\<exists>r'. x' = Some (Advance p r') \<and> same_run len r r')"
  "same_outcome len (Some (Reexecute p r)) x' \<longleftrightarrow> (\<exists>r'. x' = Some (Reexecute p r') \<and> same_run len r r')"
  "same_outcome len (Some (Return p r)) x' \<longleftrightarrow> (\<exists>r'. x' = Some (Return p r') \<and> same_run len r r')"
  "same_outcome len (Some (Goto_error p r)) x' \<longleftrightarrow> (\<exists>r'. x' = Some (Goto_error p r') \<and> same_run len r r')"
  by (simp_all add: same_outcome_def)

definition same_data :: "nat \<Rightarrow> string \<Rightarrow> string \<Rightarrow> bool" where
  "same_data len mem mem' \<longleftrightarrow> take len mem = take len mem' \<and> len + 15 \<le> length mem \<and> len + 15 \<le> length mem'"

lemma same_slice:
  assumes "same_data len mem mem'" "stop \<le> len"
  shows "take (stop - m) (drop m mem) = take (stop - m) (drop m mem')"
proof -
  have "drop m (take stop (take len mem)) = drop m (take stop (take len mem'))" using assms(1) by (simp add: same_data_def)
  then show ?thesis using assms(2) by (simp add: drop_take min_def)
qed

lemma same_url_body:
  assumes "take n at = take n at'" "same_request ob' ob"
  shows "\<exists>o1 o1'. OnUrl q at n ob = Some (0, False, o1) \<and> OnUrl q at' n ob' = Some (0, False, o1') \<and> same_request o1' o1"
    "\<exists>o1 o1'. OnBody q at n ob = Some (0, False, o1) \<and> OnBody q at' n ob' = Some (0, False, o1') \<and> same_request o1' o1"
  using assms by (simp_all add: OnUrl_def OnBody_def same_request_def)

lemma same_trans: "same_request a b \<Longrightarrow> same_request c d \<Longrightarrow> same_request d b \<Longrightarrow> same_request c a"
  by (simp add: same_request_def)

lemma same_data_cb:
  assumes "take n at = take n at'" "same_request ob' ob" "15 \<le> length at" "15 \<le> length at'"
  shows "\<exists>f o1 o1'. data_cb ev W = Some f \<and> f q at n ob = Some (0, False, o1) \<and> f q at' n ob' = Some (0, False, o1') \<and>
    same_request o1' o1"
proof (cases ev)
  case Header_field
  obtain o1 where 1: "OnHeaderField q at n ob = Some (0, False, o1)" "same_request o1 ob" using OnHeaderField_same assms(3) by blast
  obtain o2 where 2: "OnHeaderField q at' n ob' = Some (0, False, o2)" "same_request o2 ob'" using OnHeaderField_same assms(4) by blast
  have "same_request o2 o1" using 1(2) 2(2) assms(2) by (simp add: same_request_def)
  with 1(1) 2(1) Header_field show ?thesis by auto
next
  case Header_value
  obtain o1 where 1: "OnHeaderValue q at n ob = Some (0, False, o1)" "same_request o1 ob" using OnHeaderValue_same by blast
  obtain o2 where 2: "OnHeaderValue q at' n ob' = Some (0, False, o2)" "same_request o2 ob'" using OnHeaderValue_same by blast
  have "same_request o2 o1" using 1(2) 2(2) assms(2) by (simp add: same_request_def)
  with 1(1) 2(1) Header_value show ?thesis by auto
next
  case Url
  with same_url_body(1) [OF assms(1,2)] show ?thesis by auto
next
  case Body
  with same_url_body(2) [OF assms(1,2)] show ?thesis by auto
qed

section \<open>A step\<close>

lemma callback_data_same:
  assumes r: "same_run len r r'" and mem: "same_data len mem mem'" and stop: "stop \<le> len"
    and cont: "\<And>r1 r1'. same_run len r1 r1' \<Longrightarrow> parser r1 = parser r \<Longrightarrow> same_outcome len (f r1) (f' r1')"
  shows "same_outcome len (callback_data W mem ev stop er r f) (callback_data W mem' ev stop er r' f')"
proof (cases "http_errno (parser r) = HPE_OK")
  case e: True
  show ?thesis
  proof (cases "marks r ev")
    case None
    with e r cont [OF r] show ?thesis by (simp add: callback_data_def same_run_def)
  next
    case (Some m)
    then have "m \<le> len" using r by (simp add: same_run_def)
    then have long: "15 \<le> length (drop m mem)" "15 \<le> length (drop m mem')"
      using mem by (simp_all add: same_data_def, linarith+)
    obtain g o1 o1' where g: "data_cb ev W = Some g" "g (parser r) (drop m mem) (stop - m) (object r) = Some (0, False, o1)"
      "g (parser r) (drop m mem') (stop - m) (object r') = Some (0, False, o1')" "same_request o1' o1"
      using same_data_cb [of "stop - m" "drop m mem" "drop m mem'" "object r'" "object r" ev "parser r"]
        same_slice [OF mem stop] r long by (auto simp: same_run_def)
    have "callback_data W mem ev stop er r f = f (r\<lparr>object := o1, marks := (marks r)(ev := None)\<rparr>)"
      by (rule callback_data_done [OF e Some g(1,2)])
    moreover have "callback_data W mem' ev stop er r' f' = f' (r'\<lparr>object := o1', marks := (marks r')(ev := None)\<rparr>)"
      by (rule callback_data_done [OF _ _ g(1)]) (use r e Some g(3) in \<open>simp_all add: same_run_def\<close>)
    moreover have "same_run len (r\<lparr>object := o1, marks := (marks r)(ev := None)\<rparr>) (r'\<lparr>object := o1', marks := (marks r')(ev := None)\<rparr>)"
      using r g(4) by (auto simp: same_run_def)
    ultimately show ?thesis using cont by simp
  qed
next
  case False
  with r show ?thesis by (simp add: callback_data_def same_run_def)
qed

lemma callback_notify_same:
  assumes r: "same_run len r r'" and f: "ev = Message_complete \<or> notify_cb ev W = None"
    and cont: "\<And>r1 r1'. same_run len r1 r1' \<Longrightarrow> parser r1 = parser r \<Longrightarrow> same_outcome len (f r1) (f' r1')"
  shows "same_outcome len (callback_notify W ev er r f) (callback_notify W ev er r' f')"
proof (cases "notify_cb ev W")
  case None
  with r cont [OF r] show ?thesis by (simp add: callback_notify_def same_run_def)
next
  case (Some g)
  then have ev: "ev = Message_complete" using f by simp
  have s: "same_run len (r\<lparr>object := (object r)\<lparr>read_all := True\<rparr>\<rparr>) (r'\<lparr>object := (object r')\<lparr>read_all := True\<rparr>\<rparr>)"
    using r by (simp add: same_run_def same_request_def)
  have run: "callback_notify W Message_complete er q g = (if http_errno (parser q) \<noteq> HPE_OK then None
      else g (q\<lparr>object := (object q)\<lparr>read_all := True\<rparr>\<rparr>))" for q g
    by (cases q) (simp add: callback_notify_def call_back_def OnMessageComplete_def)
  show ?thesis unfolding ev run using r cont [OF s] by (simp add: same_run_def)
qed

lemma headers_complete_same:
  assumes "same_run len r r'"
  shows "same_outcome len (headers_complete W p r) (headers_complete W p r')"
  using assms by (auto simp: headers_complete_def OnHeadersComplete_def same_run_def same_request_def Let_def)

lemma same_runD: "same_run len r r' \<Longrightarrow> parser r' = parser r"
  by (simp add: same_run_def)

lemma same_run_set: "same_run len r r' \<Longrightarrow> same_run len (set_parser f r) (set_parser f r')"
  by (simp add: same_run_def set_parser_def)

lemma same_run_to_state: "same_run len r r' \<Longrightarrow> same_run len (to_state s r) (to_state s r')"
  unfolding to_state_def by (rule same_run_set)

lemma same_run_MARK: "same_run len r r' \<Longrightarrow> p < len \<Longrightarrow> same_run len (MARK ev p r) (MARK ev p r')"
  by (simp add: same_run_def MARK_def)

lemmas same_intros = same_run_set same_run_to_state same_run_MARK

lemma fail_same: "same_run len r r' \<Longrightarrow> same_outcome len (fail e p r) (fail e p r')"
  by (simp add: fail_def SET_ERRNO_def same_run_set)

lemma next_state_same: "same_run len r r' \<Longrightarrow> same_outcome len (next_state s p r) (next_state s p r')"
  by (simp add: next_state_def same_run_to_state)

lemma CALLBACK_DATA_same:
  "same_run len r r' \<Longrightarrow> same_data len mem mem' \<Longrightarrow> p < len \<Longrightarrow> same_outcome len (CALLBACK_DATA W mem ev p r) (CALLBACK_DATA W mem' ev p r')"
  unfolding CALLBACK_DATA_def by (rule callback_data_same) auto

lemma NOTIFY_same: "same_run len r r' \<Longrightarrow> ev \<noteq> Headers_complete \<Longrightarrow> same_outcome len (NOTIFY W ev p r) (NOTIFY W ev p r')"
  unfolding NOTIFY_def by (rule callback_notify_same) (cases ev; auto)+

lemma bind_same:
  "(\<And>x. a = Some x \<Longrightarrow> same_outcome len (f x) (f' x)) \<Longrightarrow> same_outcome len (Option.bind a f) (Option.bind a f')"
  by (cases a) simp_all

lemma if_same:
  "(c \<Longrightarrow> same_outcome len x x') \<Longrightarrow> (\<not> c \<Longrightarrow> same_outcome len y y') \<Longrightarrow> same_outcome len (if c then x else y) (if c then x' else y')"
  by simp

lemma break_same: "same_run len r r' \<Longrightarrow> same_outcome len (break p r) (break p r')"
  by simp

lemma take_body_same:
  assumes "same_run len r r'" "p < len"
  shows "(take_body len p r = None \<and> take_body len p r' = None) \<or>
    (\<exists>p1 r1 r1'. take_body len p r = Some (p1, r1) \<and> take_body len p r' = Some (p1, r1') \<and> same_run len r1 r1' \<and> p1 < len)"
  using assms same_runD [OF assms(1)] same_run_set [OF same_run_MARK [OF assms, of Body]] by (auto simp: take_body_def Let_def)

lemmas same_rules = if_same fail_same next_state_same CALLBACK_DATA_same NOTIFY_same break_same

lemma url_char_same: "same_run len r r' \<Longrightarrow> same_outcome len (url_char p ch r) (url_char p ch r')"
  by (auto simp: url_char_def Let_def same_runD intro!: same_rules same_intros)

lemma minor_digit_same: "same_run len r r' \<Longrightarrow> same_outcome len (minor_digit_step p ch r) (minor_digit_step p ch r')"
  by (auto simp: minor_digit_step_def Let_def same_runD intro!: same_rules same_intros)

lemma header_value_start_same:
  assumes "same_run len r r'" "same_data len mem mem'" "p < len"
  shows "same_outcome len (header_value_start_step W mem p ch r) (header_value_start_step W mem' p ch r')"
  unfolding header_value_start_step_def Let_def using assms
  apply (cases "header_state (parser r)")
  apply (simp_all only: same_runD [OF assms(1)] run_simps MARK_parser http_parser.simps header_states.case)
  by (intro same_rules same_intros; auto simp: same_runD intro!: same_intros)+

lemma header_value_same:
  assumes "same_run len r r'" "same_data len mem mem'" "p < len"
  shows "same_outcome len (header_value_step W mem p ch r) (header_value_step W mem' p ch r')"
  unfolding header_value_step_def Let_def using assms
  apply (cases "header_state (parser r)")
  apply (simp_all only: same_runD [OF assms(1)] run_simps MARK_parser header_states.case)
  by (intro same_rules same_intros callback_data_same; simp add: same_runD)+

lemma headers_done_same:
  assumes "same_run len r r'"
  shows "same_outcome len (headers_done_step W p ch r) (headers_done_step W p ch r')"
  unfolding headers_done_step_def Let_def STRICT_CHECK_def using assms
  by (simp add: same_runD) (intro same_rules same_intros callback_notify_same impI conjI; simp)

lemma body_identity_same:
  assumes "same_run len r r'" "same_data len mem mem'" "p < len"
  shows "same_outcome len (body_identity_step W mem len p r) (body_identity_step W mem' len p r')"
proof -
  from take_body_same [OF assms(1,3)] show ?thesis
  proof (elim disjE exE conjE)
    fix p1 r1 r1'
    assume t: "take_body len p r = Some (p1, r1)" "take_body len p r' = Some (p1, r1')" and r: "same_run len r1 r1'" and p: "p1 < len"
    have "same_outcome len
        (callback_data W mem Body (p1 + 1) p1 (to_state s_message_done r1) (\<lambda>r2. Some (Reexecute p1 r2)))
        (callback_data W mem' Body (p1 + 1) p1 (to_state s_message_done r1') (\<lambda>r2. Some (Reexecute p1 r2)))"
      by (rule callback_data_same [OF same_run_to_state [OF r] assms(2)]) (use p in simp_all)
    then show ?thesis using t r by (simp add: body_identity_step_def same_runD [OF r])
  qed (simp add: body_identity_step_def)
qed

lemma chunk_data_same:
  assumes "same_run len r r'" "p < len"
  shows "same_outcome len (chunk_data_step len p r) (chunk_data_step len p r')"
  using take_body_same [OF assms] assms by (auto simp: chunk_data_step_def same_runD intro!: same_rules)

lemmas step_same = url_char_same minor_digit_same header_value_start_same header_value_same headers_done_same
  body_identity_same chunk_data_same headers_complete_same

lemma byte_step_same:
  assumes r: "same_run len r r'" and mem: "same_data len mem mem'" and p: "p < len"
  shows "same_outcome len (byte_step W mem len ch p r) (byte_step W mem' len ch p r')"
  unfolding byte_step_def same_runD [OF r]
  using assms
  apply (cases "p_state (parser r)")
  apply (simp_all only: http_state.case)
  by (auto simp: step_defs STRICT_CHECK_def Let_def same_runD
      intro!: same_rules same_intros step_same bind_same split: option.splits prod.splits
      simp del: header_value_start_step_def header_value_step_def headers_done_step_def body_identity_step_def
        chunk_data_step_def minor_digit_step_def)

section \<open>The loop\<close>

lemma exec_byte_same:
  "same_run len r r' \<Longrightarrow> same_data len mem mem' \<Longrightarrow> p < len \<Longrightarrow>
   same_outcome len (exec_byte W mem len ch p r) (exec_byte W mem' len ch p r')"
proof (induction W mem len ch p r arbitrary: r' rule: exec_byte.induct)
  case (1 mem len ch p r)
  note b = byte_step_same [OF "1.prems", of ch]
  show ?case
  proof (cases "byte_step W mem len ch p r")
    case None
    with b show ?thesis by (simp add: exec_byte.simps [of W mem] exec_byte.simps [of W mem'])
  next
    case (Some x)
    show ?thesis
    proof (cases x)
      case (Reexecute p1 r1)
      with b Some obtain r1' where r1: "byte_step W mem' len ch p r' = Some (Reexecute p1 r1')" "same_run len r1 r1'" by auto
      have "p1 < len" using byte_step_within [OF Some "1.prems"(3)] Reexecute by simp
      from "1.hyps" [OF Some Reexecute r1(2) "1.prems"(2) this] show ?thesis
        using Some Reexecute r1(1) by (simp add: exec_byte.simps [of W mem len ch p r] exec_byte.simps [of W mem' len ch p r'])
    qed (use b Some in \<open>auto simp: exec_byte.simps [of W mem len ch p r] exec_byte.simps [of W mem' len ch p r']\<close>)
  qed
qed

lemma flush_same:
  assumes "same_run len r r'" "same_data len mem mem'"
  shows "same_outcome len (flush_marks W mem len r) (flush_marks W mem' len r')"
proof -
  have "marks r' = marks r" using assms(1) by (simp add: same_run_def)
  then show ?thesis unfolding flush_marks_def
    by (simp only:) (intro if_same callback_data_same assms; simp)
qed

lemma count_byte_same: "same_run len r r' \<Longrightarrow> same_run len (count_byte r) (count_byte r')"
  by (simp add: count_byte_def same_runD same_run_set)

lemma exec_loop_same:
  "same_run len r r' \<Longrightarrow> same_data len mem mem' \<Longrightarrow> same_outcome len (exec_loop W mem len p r) (exec_loop W mem' len p r')"
proof (induction W mem len p r arbitrary: r' rule: exec_loop.induct)
  case (1 mem len p r)
  note c = count_byte_same [OF "1.prems"(1)]
  have o: "header_overflow (count_byte r') = header_overflow (count_byte r)" using same_runD [OF c] by (simp add: header_overflow_def)
  show ?case
  proof (cases "p < len")
    case False
    with flush_same [OF "1.prems"] show ?thesis by (simp add: exec_loop.simps [of W mem] exec_loop.simps [of W mem'])
  next
    case p: True
    show ?thesis
    proof (cases "header_overflow (count_byte r)")
      case True
      with p o fail_same [OF c] show ?thesis by (simp add: exec_loop.simps [of W mem] exec_loop.simps [of W mem'])
    next
      case False
      have "mem' ! p = mem ! p" using p "1.prems"(2) unfolding same_data_def by (metis nth_take)
      then have e: "same_outcome len (exec_byte W mem len (mem ! p) p (count_byte r)) (exec_byte W mem' len (mem' ! p) p (count_byte r'))"
        using exec_byte_same [OF c "1.prems"(2) p, of "mem ! p"] by simp
      note unfold = exec_loop.simps [of W mem len p r] exec_loop.simps [of W mem' len p r']
      show ?thesis
      proof (cases "exec_byte W mem len (mem ! p) p (count_byte r)")
        case None
        with e p False o show ?thesis by (simp add: unfold)
      next
        case (Some x)
        show ?thesis
        proof (cases x)
          case (Advance p1 r1)
          with e Some obtain r1' where r1: "exec_byte W mem' len (mem' ! p) p (count_byte r') = Some (Advance p1 r1')" "same_run len r1 r1'"
            by auto
          from p have "\<not> len \<le> p" by simp
          from "1.hyps" [OF this False Some Advance r1(2) "1.prems"(2)] show ?thesis
            using Some Advance r1(1) p False o by (simp add: unfold)
        qed (use e Some p False o in \<open>auto simp: unfold\<close>)
      qed
    qed
  qed
qed

text \<open>A request of which a part has arrived.\<close>

lemma parse_part:
  assumes ok: "request_ok url hs body" and k: "k < length (request_text url hs body)"
    and mem: "take k mem = take k (request_text url hs body)" "k \<le> length mem"
    and spare: "k + 15 \<le> length mem \<or> length (head_text url hs (length body)) \<le> k"
  shows "\<exists>q ob. ParseHttpContent mem k = Some (q, ob) \<and> \<not> read_all ob"
proof (cases "k = 0")
  case True
  then show ?thesis by (simp add: ParseHttpContent_def http_parser_execute_def http_parser_init_def u32_def new_wrapper_def)
next
  case False
  have k32: "k < 2 ^ 32" using ok k by (simp add: request_ok_def)
  have "waits (exec_loop W mem k 0 init_run)"
  proof (cases "length (head_text url hs (length body)) \<le> k")
    case True
    let ?h = "head_text url hs (length body)"
    have "take (length ?h) mem = take (length ?h) (take k mem)" using True by (simp add: min_def)
    also have "\<dots> = ?h" using True by (simp add: mem(1) request_text_def min_def)
    finally have "mem = ?h @ drop (length ?h) mem" by (metis append_take_drop_id)
    from loop_waits [OF ok this k] True show ?thesis by simp
  next
    case False
    let ?mem = "request_text url hs body @ replicate 15 NUL"
    have "waits (exec_loop W ?mem k 0 init_run)"
      by (rule loop_waits [OF ok _ k]) (use k in \<open>simp_all add: request_text_def\<close>)
    then obtain n r where r: "exec_loop W ?mem k 0 init_run = Some (Return n r)" "\<not> read_all (object r)" by (auto simp: waits_def)
    have "same_data k ?mem mem" using mem(1) k spare False by (simp add: same_data_def)
    moreover have "same_run k init_run init_run" by (simp add: same_run_def init_run_def mark_of_def same_request_def)
    ultimately have "same_outcome k (exec_loop W ?mem k 0 init_run) (exec_loop W mem k 0 init_run)" by (rule exec_loop_same [rotated])
    with r show ?thesis by (auto simp: waits_def same_run_def same_request_def)
  qed
  then show ?thesis using False k32 by (auto simp: parse_is_loop waits_def result_def)
qed

section \<open>Any bytes at all\<close>

lemma wrapper_callbacks_ok:
  assumes "len + 15 \<le> length mem"
  shows "callbacks_ok W mem len"
proof -
  have "f q ob \<noteq> None" if "notify_cb ev W = Some f" for ev f q ob
    using that by (cases ev) (auto simp: OnHeadersComplete_def OnMessageComplete_def)
  moreover have "f q (drop m mem) n ob \<noteq> None" if "data_cb ev W = Some f" "m + n \<le> len" for ev f q m n ob
  proof (cases ev)
    case Header_field
    have "15 \<le> length (drop m mem)" using assms that(2) by simp
    then have "\<exists>o1. OnHeaderField q (drop m mem) n ob = Some (0, False, o1)" using OnHeaderField_same by blast
    with Header_field that(1) show ?thesis by auto
  qed (use that(1) in \<open>auto simp: OnUrl_def OnBody_def OnHeaderValue_def Let_def\<close>)
  ultimately show ?thesis using assms by (simp add: callbacks_ok_def)
qed

lemma parse_total:
  assumes "len < 2 ^ 32" "len + 15 \<le> length mem"
  shows "\<exists>q ob. ParseHttpContent mem len = Some (q, ob) \<and> parser_ok q"
  using http_parser_execute_ok [OF wrapper_callbacks_ok [OF assms(2)], of "http_parser_init HTTP_REQUEST" new_wrapper] init_ok assms(1)
  by (auto simp: ParseHttpContent_def u32_def)

lemma parse_local:
  assumes "len < 2 ^ 32" "same_data len mem mem'" "ParseHttpContent mem len = Some (q, ob)"
  shows "\<exists>ob'. ParseHttpContent mem' len = Some (q, ob') \<and> same_request ob' ob"
proof (cases "len = 0")
  case True
  have "ParseHttpContent x 0 = Some (http_parser_init HTTP_REQUEST, new_wrapper)" for x
    by (simp add: ParseHttpContent_def http_parser_execute_def http_parser_init_def u32_def)
  with True assms(3) show ?thesis by (simp add: same_request_def)
next
  case False
  note loop = parse_is_loop [of len, OF _ assms(1)]
  have "same_run len init_run init_run" by (simp add: same_run_def init_run_def mark_of_def same_request_def)
  note same = exec_loop_same [OF this assms(2), of 0]
  from assms(3) False obtain x where x: "exec_loop W mem len 0 init_run = Some x" "map_option snd (result x) = Some (q, ob)"
    by (auto simp: loop bind_eq_Some_conv)
  show ?thesis
  proof (cases x)
    case (Return n r)
    with same x obtain r' where "exec_loop W mem' len 0 init_run = Some (Return n r')" "same_run len r r'" by auto
    with Return x(2) False show ?thesis by (auto simp: loop result_def same_run_def)
  next
    case (Goto_error n r)
    with same x obtain r' where "exec_loop W mem' len 0 init_run = Some (Goto_error n r')" "same_run len r r'" by auto
    with Goto_error x(2) False show ?thesis by (auto simp: loop result_def same_run_def)
  qed (use x(2) in \<open>simp_all add: result_def\<close>)
qed

text \<open>C9. Whatever bytes (fewer than \<open>2 ^ 32\<close>) a client sends, when at least 15 bytes of memory follow them, parsing them returns: no
assertion fails and nothing but the data and those 15 bytes is used.  And what the memory behind the data still holds from earlier requests
has no part in the request: parser, URL, body and whether the request is complete are the same.  The 15 bytes are needed because
the names of headers are compared with the length of the name that is looked for.\<close>

theorem parse_reads_only_data:
  assumes "length bytes < 2 ^ 32" "15 \<le> length rest" "15 \<le> length rest'"
  shows "\<exists>q ob ob'. ParseHttpContent (bytes @ rest) (length bytes) = Some (q, ob) \<and>
    ParseHttpContent (bytes @ rest') (length bytes) = Some (q, ob') \<and> parser_ok q \<and>
    read_all ob' = read_all ob \<and> url_text ob' = url_text ob \<and> body_content ob' = body_content ob"
proof -
  obtain q ob where q: "ParseHttpContent (bytes @ rest) (length bytes) = Some (q, ob)" "parser_ok q"
    using parse_total [OF assms(1), of "bytes @ rest"] assms(2) by auto
  have "same_data (length bytes) (bytes @ rest) (bytes @ rest')" using assms(2,3) by (simp add: same_data_def)
  from parse_local [OF assms(1) this q(1)] q show ?thesis by (auto simp: same_request_def)
qed

theorem parse_reads_only_data_witness:
  "\<exists>q ob ob'. ParseHttpContent (''GET /x HTTP/1.1'' @ replicate 15 NUL) 15 = Some (q, ob) \<and>
    ParseHttpContent (''GET /x HTTP/1.1'' @ ''Host: 127.0.0.1'') 15 = Some (q, ob') \<and> parser_ok q \<and>
    read_all ob' = read_all ob \<and> url_text ob' = url_text ob \<and> body_content ob' = body_content ob"
proof -
  have n: "length ''GET /x HTTP/1.1'' = 15" by simp
  show ?thesis
    by (rule parse_reads_only_data [of "''GET /x HTTP/1.1''" "replicate 15 NUL" "''Host: 127.0.0.1''", unfolded n]) simp_all
qed

end
