(* ===== verification/Uploads.thy ===== *)
theory Uploads
  imports Api_Upload File_Refs
begin

text \<open>
  The upload handler against the data it keeps: a form with legal values is read back, and when the
  FastDFS programs work, the upload ends with the user's row and one more reference.
\<close>

section \<open>Reading a form\<close>

lemma find_sub_first:
  "(\<forall>k < length pre. take (length pat) (drop k (pre @ pat @ post)) \<noteq> pat) \<Longrightarrow> find_sub pat (pre @ pat @ post) = Some (length pre)"
proof (induction pre)
  case Nil
  have "take (length pat) (pat @ post) = pat" by simp
  then show ?case by (cases "pat @ post") auto
next
  case (Cons c pre)
  have "find_sub pat (pre @ pat @ post) = Some (length pre)"
    by (rule Cons.IH) (use Cons.prems in \<open>auto dest: spec [of _ "Suc _"]\<close>)
  moreover have "take (length pat) (c # pre @ pat @ post) \<noteq> pat" using spec [OF Cons.prems, of 0] by simp
  ultimately show ?case by simp
qed

text \<open>A pattern is found at its first \<open>q\<close>, if there is none before.\<close>

lemma find_sub_marked:
  assumes "q \<notin> set pre" "q \<notin> set a"
  shows "find_sub (a @ q # b) (pre @ a @ q # b @ post) = Some (length pre)"
proof -
  have "take (length (a @ q # b)) (drop k (pre @ (a @ q # b) @ post)) \<noteq> a @ q # b" if k: "k < length pre" for k
  proof
    assume "take (length (a @ q # b)) (drop k (pre @ (a @ q # b) @ post)) = a @ q # b"
    then have "take (length (a @ q # b)) (drop k (pre @ (a @ q # b) @ post)) ! length a = q" by (simp only: nth_append_length)
    then have "(pre @ a @ q # b @ post) ! (k + length a) = q" using k by (simp add: nth_take nth_drop del: take_append drop_append)
    moreover have "k + length a < length (pre @ a)" using k by simp
    then have "(pre @ a @ q # b @ post) ! (k + length a) = (pre @ a) ! (k + length a)"
      by (metis append.assoc nth_append)
    ultimately have "q \<in> set (pre @ a)" using nth_mem [OF \<open>k + length a < length (pre @ a)\<close>] by simp
    with assms show False by simp
  qed
  then show ?thesis using find_sub_first [of pre "a @ q # b" post] by simp
qed

lemma find_CRLF: "CR \<notin> set pre \<Longrightarrow> find_sub CRLF (pre @ CR # LF # post) = Some (length pre)"
  using find_sub_marked [of CR pre "[]" "[LF]" post] by simp

lemma find_name: "QUOT \<notin> set pre \<Longrightarrow> find_sub (field_name n) (pre @ field_name n @ post) = Some (length pre)"
  using find_sub_marked [of QUOT pre "''name=''" "n @ [QUOT]" post] by (simp add: field_name_def)

lemma field_value_part:
  assumes "CR \<notin> set pre" "CR \<notin> set v" "length v < cap"
  shows "field_value cap (pre @ CRLF @ CRLF @ v @ CRLF @ rest) = Some (v, rest)"
proof -
  have "drop (length pre + 4) (pre @ CRLF @ CRLF @ v @ CRLF @ rest) = v @ CRLF @ rest" by simp
  then show ?thesis
    using assms find_CRLF [of pre "CRLF @ v @ CRLF @ rest"] find_CRLF [of v rest]
    by (simp add: field_value_def in_buf_def Let_def)
qed

text \<open>A longer value is copied over the end of its buffer.\<close>

lemma field_value_overflow:
  assumes "CR \<notin> set pre" "CR \<notin> set v" "cap \<le> length v"
  shows "field_value cap (pre @ CRLF @ CRLF @ v @ CRLF @ rest) = None"
proof -
  have "drop (length pre + 4) (pre @ CRLF @ CRLF @ v @ CRLF @ rest) = v @ CRLF @ rest" by simp
  then show ?thesis
    using assms find_CRLF [of pre "CRLF @ v @ CRLF @ rest"] find_CRLF [of v rest]
    by (simp add: field_value_def in_buf_def Let_def)
qed

definition form_head :: "string \<Rightarrow> string" where
  "form_head n = ''Content-Disposition: form-data; '' @ field_name n"

definition form_part :: "string \<Rightarrow> string \<times> string \<Rightarrow> string" where
  "form_part boundary = (\<lambda>(n, v). boundary @ CRLF @ form_head n @ CRLF @ CRLF @ v @ CRLF)"

definition form_text :: "string \<Rightarrow> (string \<times> string) list \<Rightarrow> string" where
  "form_text boundary fs = concat (map (form_part boundary) fs) @ boundary @ ''--'' @ CRLF"

definition boundary_ok :: "string \<Rightarrow> bool" where
  "boundary_ok b \<longleftrightarrow> length b < TEMP_BUF_MAX_LEN \<and> (\<forall>c \<in> set b. c \<notin> {NUL, CR, QUOT})"

lemma named_part:
  assumes "boundary_ok b" "CR \<notin> set n" "CR \<notin> set v" "length v < cap"
  shows "named_values ((n, cap) # fs) (form_part b (n, v) @ rest) = map_option (map_option (Cons v)) (named_values fs rest)"
proof -
  let ?pre = "b @ CRLF @ ''Content-Disposition: form-data; ''" and ?post = "CRLF @ CRLF @ v @ CRLF @ rest"
  have t: "form_part b (n, v) @ rest = ?pre @ field_name n @ ?post" by (simp add: form_part_def form_head_def)
  have "QUOT \<notin> set ?pre" using assms(1) by (auto simp: boundary_ok_def)
  then have "find_sub (field_name n) (?pre @ field_name n @ ?post) = Some (length ?pre)" by (rule find_name)
  moreover have "drop (length ?pre) (?pre @ field_name n @ ?post) = field_name n @ ?post" by (rule append_eq_conv_conj [THEN iffD1, THEN conjunct2, symmetric, OF refl])
  moreover have "field_value cap (field_name n @ ?post) = Some (v, rest)"
    by (rule field_value_part) (use assms(2-4) in \<open>simp_all add: field_name_def\<close>)
  ultimately show ?thesis unfolding t
    by (simp only: named_values.simps option.case bind.bind_lunit prod.case) (cases "named_values fs rest"; simp)
qed

text \<open>The values of a form; a value is a line, and fits its buffer with a NUL.\<close>

definition form_fields :: "string list \<Rightarrow> (string \<times> string) list" where
  "form_fields vs = zip (''file_name'' # map fst upload_fields) vs"

definition form_ok :: "string list \<Rightarrow> bool" where
  "form_ok vs \<longleftrightarrow> length vs = 6 \<and> (\<forall>(v, cap) \<in> set (zip vs [128, 128, 128, 128, 32, 32]). CR \<notin> set v \<and> NUL \<notin> set v \<and> length v < cap)"

lemma parse_form_text:
  assumes b: "boundary_ok b" and vs: "form_ok vs"
  shows "parse_form (form_text b (form_fields vs)) = Some (Some vs)"
proof -
  obtain f t p m n u where v: "vs = [f, t, p, m, n, u]"
    using vs by (auto simp: form_ok_def eval_nat_numeral length_Suc_conv)
  let ?fin = "b @ ''--'' @ CRLF"
  let ?rest = "form_part b (''file_content_type'', t) @ form_part b (''file_path'', p) @ form_part b (''file_md5'', m) @
    form_part b (''file_size'', n) @ form_part b (''user'', u) @ ?fin"
  let ?body = "form_head ''file_name'' @ CRLF @ CRLF @ f @ CRLF @ ?rest"
  have whole: "form_text b (form_fields vs) = b @ CRLF @ ?body"
    by (simp add: v form_text_def form_fields_def upload_fields_def form_part_def)
  have ok: "CR \<notin> set f" "length f < 128" "CR \<notin> set t" "length t < 128" "CR \<notin> set p" "length p < 128"
    "CR \<notin> set m" "length m < 128" "CR \<notin> set n" "length n < 32" "CR \<notin> set u" "length u < 32"
    using vs by (simp_all add: v form_ok_def)
  have rest: "named_values upload_fields ?rest = Some (Some [t, p, m, n, u])"
    unfolding upload_fields_def using ok by (simp add: named_part [OF b] del: named_values.simps(2))
  have first: "find_sub CRLF (b @ CRLF @ ?body) = Some (length b)" "in_buf TEMP_BUF_MAX_LEN b = Some b"
    using b find_CRLF [of b ?body] by (auto simp: boundary_ok_def in_buf_def)
  have name: "find_sub (field_name ''file_name'') ?body \<noteq> None"
    using find_name [of "''Content-Disposition: form-data; ''" "''file_name''"] by (simp add: form_head_def)
  have val: "field_value 128 ?body = Some (f, ?rest)"
    by (rule field_value_part) (use ok in \<open>simp_all add: form_head_def field_name_def\<close>)
  have "take (length b) (b @ CRLF @ ?body) = b" "drop (length b + 2) (b @ CRLF @ ?body) = ?body" by simp_all
  with name first val rest show ?thesis
    unfolding whole parse_form_def by (auto simp only: option.case Let_def bind.bind_lunit prod.case option.map v split: option.splits)
qed

lemma form_bytes:
  assumes "boundary_ok b" "form_ok vs"
  shows "NUL \<notin> set (form_text b (form_fields vs))"
proof -
  have b: "NUL \<notin> set b" using assms(1) by (auto simp: boundary_ok_def)
  obtain f t p m n u where "vs = [f, t, p, m, n, u]"
    using assms(2) by (auto simp: form_ok_def eval_nat_numeral length_Suc_conv)
  then show ?thesis using b assms(2)
    by (simp add: form_ok_def form_text_def form_fields_def upload_fields_def form_part_def form_head_def field_name_def)
qed

section \<open>FastDFS at work\<close>

text \<open>
  The operating system and the FastDFS programs do their part: a program run by the child writes what
  \<open>programs\<close> gives for its arguments, which \<open>out\<close> holds until it is read; nothing else the handler sees is
  touched.
\<close>

definition quiet :: "('w \<Rightarrow> outside) \<Rightarrow> ('w \<Rightarrow> string) \<Rightarrow> 'w \<Rightarrow> 'w \<Rightarrow> bool" where
  "quiet view out w w' \<longleftrightarrow> view w' = view w \<and> out w' = out w"

definition fdfs_works :: "'w os \<Rightarrow> ('w \<Rightarrow> outside) \<Rightarrow> ('w \<Rightarrow> string) \<Rightarrow> (string list \<Rightarrow> string) \<Rightarrow> bool" where
  "fdfs_works OS view out programs \<longleftrightarrow> (\<forall>w.
     (\<exists>ends. fst (os_pipe OS w) = Some ends) \<and> quiet view out w (snd (os_pipe OS w)) \<and>
     fst (os_fork OS w) \<and> quiet view out w (snd (os_fork OS w)) \<and>
     (\<forall>wr args. fst (os_execlp OS wr args w) \<and> view (snd (os_execlp OS wr args w)) = view w \<and>
        out (snd (os_execlp OS wr args w)) = programs args) \<and>
     (\<forall>fd. quiet view out w (os_close OS fd w)) \<and>
     (\<forall>fd t. 0 < fst (os_select OS fd t w) \<and> quiet view out w (snd (os_select OS fd t w))) \<and>
     (\<forall>fd n. fst (os_read OS fd n w) = Some (take n (out w)) \<and> quiet view out w (snd (os_read OS fd n w))) \<and>
     fst (os_wait OS w) = Some 0 \<and> quiet view out w (snd (os_wait OS w)) \<and>
     (\<forall>old new. fst (os_rename OS old new w) = 0 \<and> quiet view out w (snd (os_rename OS old new w))) \<and>
     (\<forall>path. quiet view out w (snd (os_unlink OS path w))))"

lemma fdfs_worksD:
  assumes "fdfs_works OS view out programs"
  shows "\<exists>rd wr w'. os_pipe OS w = (Some (rd, wr), w') \<and> quiet view out w w'"
    "\<exists>w'. os_fork OS w = (True, w') \<and> quiet view out w w'"
    "\<exists>w'. os_execlp OS wr args w = (True, w') \<and> view w' = view w \<and> out w' = programs args"
    "quiet view out w (os_close OS fd w)"
    "\<exists>n w'. os_select OS fd t w = (n, w') \<and> 0 < n \<and> quiet view out w w'"
    "\<exists>w'. os_read OS fd k w = (Some (take k (out w)), w') \<and> quiet view out w w'"
    "\<exists>w'. os_wait OS w = (Some 0, w') \<and> quiet view out w w'"
    "\<exists>w'. os_rename OS old new w = (0, w') \<and> quiet view out w w'"
    "\<exists>n w'. os_unlink OS path w = (n, w') \<and> quiet view out w w'"
  using assms unfolding fdfs_works_def by (metis prod.collapse)+

text \<open>Up to the start of the program.\<close>

lemma fdfs_starts:
  assumes os: "fdfs_works OS view out programs"
  obtains rd wr w1 w2 w3 where "os_pipe OS w = (Some (rd, wr), w1)" "os_fork OS w1 = (True, w2)"
    "os_execlp OS wr args w2 = (True, w3)" "view w3 = view w" "out w3 = programs args"
proof -
  obtain rd wr w1 where 1: "os_pipe OS w = (Some (rd, wr), w1)" "quiet view out w w1" using fdfs_worksD(1) [OF os] by blast
  moreover obtain w2 where 2: "os_fork OS w1 = (True, w2)" "quiet view out w1 w2" using fdfs_worksD(2) [OF os] by blast
  moreover obtain w3 where 3: "os_execlp OS wr args w2 = (True, w3)" "view w3 = view w2" "out w3 = programs args"
    using fdfs_worksD(3) [OF os] by blast
  ultimately show ?thesis by (intro that [of rd wr w1 w2 w3]) (simp_all add: quiet_def)
qed

lemma upload_gives_id:
  assumes os: "fdfs_works OS view out programs" and i: "clean 256 i" "i \<noteq> []" "\<forall>c \<in> set i. \<not> isspace c"
    and prog: "programs [''fdfs_upload_file'', ''fdfs_upload_file'', cstr (s_dfs_path_client cfg), path] = i @ [LF]"
  shows "gives view (uploadFileToFastDfs OS cfg path) w (\<lambda>a. a = (0, i)) (view w)"
proof -
  have nul: "NUL \<notin> set i" by (rule clean_NUL [OF i(1)])
  have "isspace LF" by (simp add: isspace_def)
  moreover have "\<not> isspace (hd i)" "\<not> isspace (last i)" using i(2,3) by simp_all
  ultimately have trim: "TrimSpace (i @ [LF]) = Some i" using TrimSpace_strips [of "[]" i "[LF]"] i(2) nul by simp
  have len: "take 511 (i @ [LF]) = i @ [LF]" using clean_length [OF i(1)] by simp
  obtain c cs where c: "i @ [LF] = c # cs" by (cases i) auto
  let ?args = "[''fdfs_upload_file'', ''fdfs_upload_file'', cstr (s_dfs_path_client cfg), path]"
  obtain rd wr w1 w2 w3 where s: "os_pipe OS w = (Some (rd, wr), w1)" "os_fork OS w1 = (True, w2)"
    "os_execlp OS wr ?args w2 = (True, w3)" "view w3 = view w" "out w3 = i @ [LF]"
    using fdfs_starts [OF os, of w ?args] prog by metis
  let ?w4 = "os_close OS wr w3"
  have 4: "quiet view out w3 ?w4" by (rule fdfs_worksD(4) [OF os])
  obtain n w5 where 5: "os_select OS rd 30 ?w4 = (n, w5)" "0 < n" "quiet view out ?w4 w5" using fdfs_worksD(5) [OF os] by blast
  obtain w6 where 6: "os_read OS rd 511 w5 = (Some (take 511 (out w5)), w6)" "quiet view out w5 w6"
    using fdfs_worksD(6) [OF os] by blast
  let ?w7 = "os_close OS rd w6"
  have 7: "quiet view out w6 ?w7" by (rule fdfs_worksD(4) [OF os])
  obtain w8 where 8: "os_wait OS ?w7 = (Some 0, w8)" "quiet view out ?w7 w8" using fdfs_worksD(7) [OF os] by blast
  have "out w5 = i @ [LF]" "view w8 = view w" using s(4,5) 4 5(3) 6(2) 7 8(2) by (simp_all add: quiet_def)
  then show ?thesis
    using trim c len s(1-3) 5(1,2) 6(1) 8(1) cstr_id [OF nul] i(2)
    by (simp add: uploadFileToFastDfs_def gives_def after_upload_def TEMP_BUF_MAX_LEN_def)
qed

lemma file_info_gives_url:
  assumes os: "fdfs_works OS view out programs" and i: "clean 256 i"
    and ip: "clean 128 (s_storage_web_server_ip cfg)" "s_storage_web_server_ip cfg \<noteq> []"
    and prog: "file_host (take 512 (programs [''fdfs_file_info'', ''fdfs_file_info'', cstr (s_dfs_path_client cfg), i])) = Some (Some h)"
  shows "gives view (getFullUrlByFileid OS cfg i) w (\<lambda>a. a = (0, ''http://'' @ s_storage_web_server_ip cfg @ ''/'' @ i)) (view w)"
proof -
  have "length (''http://'' @ s_storage_web_server_ip cfg @ ''/'' @ i) < 512"
    using clean_length [OF i] clean_length [OF ip(1)] by simp
  then have url: "in_buf FILE_URL_LEN (''http://'' @ cstr (s_storage_web_server_ip cfg) @ ''/'' @ cstr i) =
      Some (''http://'' @ s_storage_web_server_ip cfg @ ''/'' @ i)"
    by (simp add: in_buf_def FILE_URL_LEN_def clean_cstr [OF i] clean_cstr [OF ip(1)])
  let ?args = "[''fdfs_file_info'', ''fdfs_file_info'', cstr (s_dfs_path_client cfg), i]"
  obtain rd wr w1 w2 w3 where s: "os_pipe OS w = (Some (rd, wr), w1)" "os_fork OS w1 = (True, w2)"
    "os_execlp OS wr ?args w2 = (True, w3)" "view w3 = view w" "out w3 = programs ?args"
    using fdfs_starts [OF os, of w ?args] by metis
  let ?w4 = "os_close OS wr w3"
  have 4: "quiet view out w3 ?w4" by (rule fdfs_worksD(4) [OF os])
  obtain w5 where 5: "os_read OS rd 512 ?w4 = (Some (take 512 (out ?w4)), w5)" "quiet view out ?w4 w5"
    using fdfs_worksD(6) [OF os] by blast
  obtain w6 where 6: "os_wait OS w5 = (Some 0, w6)" "quiet view out w5 w6" using fdfs_worksD(7) [OF os] by blast
  have 7: "quiet view out w6 (os_close OS rd w6)" by (rule fdfs_worksD(4) [OF os])
  have "out ?w4 = programs ?args" "view (os_close OS rd w6) = view w" using s(4,5) 4 5(2) 6(2) 7 by (simp_all add: quiet_def)
  then show ?thesis
    using s(1-3) 5(1) 6(1) ip(2) prog url
    by (simp add: getFullUrlByFileid_def gives_def TEMP_BUF_MAX_LEN_def Let_def del: append.simps)
qed

section \<open>The upload\<close>

definition delete_command :: "upload_settings \<Rightarrow> string \<Rightarrow> string" where
  "delete_command cfg i = ''fdfs_delete_file '' @ cstr (s_dfs_path_client cfg) @ '' '' @ i"

text \<open>What the handler needs of an upload: its texts fit, and the file id and the address are clean.\<close>

definition upload_legal :: "upload_settings \<Rightarrow> string \<Rightarrow> string \<Rightarrow> string \<Rightarrow> nat \<Rightarrow> string \<Rightarrow> string \<Rightarrow> string \<Rightarrow> bool" where
  "upload_legal cfg u m f n path i ty \<longleftrightarrow>
     upload_ok u m f (int n) i (''http://'' @ s_storage_web_server_ip cfg @ ''/'' @ i) ty \<and> n < 2 ^ 63 \<and>
     clean 256 i \<and> i \<noteq> [] \<and> (\<forall>c \<in> set i. \<not> isspace c) \<and>
     clean 128 (s_storage_web_server_ip cfg) \<and> s_storage_web_server_ip cfg \<noteq> [] \<and>
     length path + length ty < 127 \<and> length (cstr (s_dfs_path_client cfg)) < 1024"

definition stored_by :: "'w os \<Rightarrow> upload_settings \<Rightarrow> (string list \<Rightarrow> string) \<Rightarrow> string \<Rightarrow> string \<Rightarrow> string \<Rightarrow> bool" where
  "stored_by OS cfg programs path i h \<longleftrightarrow>
     programs [''fdfs_upload_file'', ''fdfs_upload_file'', cstr (s_dfs_path_client cfg), path] = i @ [LF] \<and>
     file_host (take 512 (programs [''fdfs_file_info'', ''fdfs_file_info'', cstr (s_dfs_path_client cfg), i])) = Some (Some h)"

lemma wp_store_upload:
  assumes rel: "reliable coll S view" and os: "fdfs_works OS view out programs"
    and ok: "upload_legal cfg u m f n path i ty" and prog: "stored_by OS cfg programs (path @ ''.'' @ ty) i h"
    and inv: "keys_ok coll (db v)" "counted coll (db v)"
    and e: "e = has_row (is_file coll m) (file_info (db v))"
    and new: "\<not> has_row (is_owned coll u m f) (user_file_list (db v))"
    and Q: "\<And>tm v'. v' = v\<lparr>db := effect coll (InsertUserFile u m tm f)
        (add_file coll m i (''http://'' @ s_storage_web_server_ip cfg @ ''/'' @ i) (int n) ty (db v))\<rparr> \<Longrightarrow>
      Q 0 (if e then v'\<lparr>commands := commands v @ [delete_command cfg i]\<rparr> else v')"
  shows "wp view (store_upload S OS cfg True f path m (dec_nat n) u) Q v"
proof -
  have legal: "upload_ok u m f (int n) i (''http://'' @ s_storage_web_server_ip cfg @ ''/'' @ i) ty" "n < 2 ^ 63"
    "clean 256 i" "i \<noteq> []" "\<forall>c \<in> set i. \<not> isspace c" "clean 128 (s_storage_web_server_ip cfg)"
    "s_storage_web_server_ip cfg \<noteq> []" "length path + length ty < 127" "length (cstr (s_dfs_path_client cfg)) < 1024"
    using ok by (simp_all add: upload_legal_def)
  have sfx: "GetFileSuffix (Some f) SUFFIX_LEN = Some (0, Some ty)" using legal(1) by (simp add: upload_ok_def SUFFIX_LEN_def)
  have path: "in_buf 128 (path @ ''.'' @ ty) = Some (path @ ''.'' @ ty)" using legal(8) by (simp add: in_buf_def)
  have num: "strtol10 (dec_nat n) = int n" by (rule strtol10_dec_nat [OF legal(2)])
  have cmd: "in_buf 2048 (''fdfs_delete_file '' @ cstr (s_dfs_path_client cfg) @ '' '' @ cstr i) = Some (delete_command cfg i)"
    using legal(9) clean_length [OF legal(3)] by (simp add: in_buf_def delete_command_def clean_cstr [OF legal(3)])
  have rename: "wp view (\<lambda>w. Some (os_rename OS path p w)) R v'" if "R 0 v'" for p R v'
    using fdfs_worksD(8) [OF os] that unfolding wp_def quiet_def by metis
  have unlink: "wp view (\<lambda>w. Some (os_unlink OS p w)) R v'" if "\<And>a. R a v'" for p R v'
    using fdfs_worksD(9) [OF os] that unfolding wp_def quiet_def by metis
  have upl: "wp view (uploadFileToFastDfs OS cfg (path @ ''.'' @ ty)) R v'" if "R (0, i) v'" for R v'
    using upload_gives_id [OF os legal(3-5)] prog that unfolding wp_def gives_def stored_by_def by fastforce
  have url: "wp view (getFullUrlByFileid OS cfg i) R v'" if "R (0, ''http://'' @ s_storage_web_server_ip cfg @ ''/'' @ i) v'" for R v'
    using file_info_gives_url [OF os legal(3,6,7)] prog that unfolding wp_def gives_def stored_by_def by fastforce
  have rest: "wp view (\<lambda>w5. Option.bind (if (0::int) < 0 \<or> e then RemoveFileFromFastDfs S (s_dfs_path_client cfg) i w5 else Some (0, w5))
      (\<lambda>(r, w6). Some (if (0::int) < 0 then -1 else 0, w6))) Q v'"
    if v': "v' = v\<lparr>db := effect coll (InsertUserFile u m tm f)
        (add_file coll m i (''http://'' @ s_storage_web_server_ip cfg @ ''/'' @ i) (int n) ty (db v))\<rparr>" for tm v'
  proof (cases e)
    case True
    have "wp view (RemoveFileFromFastDfs S (s_dfs_path_client cfg) i) R v'"
      if "R 0 (v'\<lparr>commands := commands v' @ [delete_command cfg i]\<rparr>)" for R
      unfolding RemoveFileFromFastDfs_def by (rule wp_pure [OF cmd], rule wp_system_call [OF rel], rule that)
    moreover have "commands v' = commands v" using v' by simp
    ultimately show ?thesis
      using True Q [OF v'] by (simp only: simp_thms if_True) (rule wp_bind, simp add: wp_return)
  next
    case False
    with Q [OF v'] show ?thesis by (simp add: wp_return)
  qed
  show ?thesis
    unfolding store_upload_def num
    apply (rule wp_pure [OF sfx], simp only: prod.case bind.bind_lunit, rule wp_pure [OF path], rule wp_let, rule rename,
        simp only: less_irrefl if_False, rule wp_bind, rule upl, simp only: prod.case, rule wp_let, rule unlink,
        simp only: less_irrefl if_False, rule wp_bind, rule url, simp only: prod.case less_irrefl if_False,
        rule wp_bind, rule wp_on_conn, rule wp_storeFileinfo [OF rel legal(1) inv _ _ e refl])
     apply (use new in blast)
    apply (simp only: prod.case)
    apply (rule rest)
    by (rule refl)
qed

lemma legal_form:
  assumes ok: "upload_legal cfg u m f n path i ty" and fit: "length u < 32" "length m < 128" "length f < 128"
    and t: "CR \<notin> set t" "NUL \<notin> set t" "length t < 128" "CR \<notin> set path" "NUL \<notin> set path"
  shows "form_ok [f, t, path, m, dec_nat n, u]"
proof -
  have cl: "clean 32 u" "clean 256 m" "clean 128 f" using ok by (simp_all add: upload_legal_def upload_ok_def clean_file_def)
  have "\<not> isprint CR" "\<not> isprint NUL" by (simp_all add: isprint_def)
  then have printed: "CR \<notin> set s \<and> NUL \<notin> set s" if "clean k s" for k s using that unfolding clean_def by blast
  have len: "length (dec_nat n) \<le> 19" by (rule length_dec_nat_bound) (use ok in \<open>simp_all add: upload_legal_def\<close>)
  have path: "length path < 128" using ok by (simp add: upload_legal_def)
  have "\<not> isdigit CR" "\<not> isdigit NUL" by (simp_all add: isdigit_def)
  then have "CR \<notin> set (dec_nat n)" "NUL \<notin> set (dec_nat n)" using dec_nat_digits by blast+
  with len path show ?thesis using printed [OF cl(1)] printed [OF cl(2)] printed [OF cl(3)] fit t by (simp add: form_ok_def)
qed

lemma upload_recorded:
  assumes rel: "reliable coll S view" and os: "fdfs_works OS view out programs"
    and ok: "upload_legal cfg u m f n path i ty" and prog: "stored_by OS cfg programs (path @ ''.'' @ ty) i h"
    and b: "boundary_ok b" and form: "form_ok [f, t, path, m, dec_nat n, u]"
    and inv: "keys_ok coll (db (view w))" "counted coll (db (view w))"
    and new: "\<not> has_row (is_owned coll u m f) (user_file_list (db (view w)))"
    and room: "length (user_file_list (db (view w))) + 1 < 2 ^ 31 - 1"
  shows "\<exists>w'. ApiUpload S OS cfg (form_text b (form_fields [f, t, path, m, dec_nat n, u])) w =
      Some ((0, write_styled (json S) (JObj [(''code'', JInt 0)])), w') \<and>
    keys_ok coll (db (view w')) \<and> counted coll (db (view w')) \<and>
    refs coll m (db (view w')) = refs coll m (db (view w)) + 1 \<and>
    has_row (is_owned coll u m f) (user_file_list (db (view w'))) \<and>
    commands (view w') = commands (view w) @
      (if has_row (is_file coll m) (file_info (db (view w))) then [delete_command cfg i] else [])"
proof -
  let ?vs = "[f, t, path, m, dec_nat n, u]" and ?e = "has_row (is_file coll m) (file_info (db (view w)))"
  let ?Q = "\<lambda>a v'. a = (0, write_styled (json S) (JObj [(''code'', JInt 0)])) \<and> keys_ok coll (db v') \<and> counted coll (db v') \<and>
    refs coll m (db v') = refs coll m (db (view w)) + 1 \<and> has_row (is_owned coll u m f) (user_file_list (db v')) \<and>
    commands v' = commands (view w) @ (if ?e then [delete_command cfg i] else [])"
  have up: "upload_ok u m f (int n) i (''http://'' @ s_storage_web_server_ip cfg @ ''/'' @ i) ty"
    using ok by (simp add: upload_legal_def)
  have parse: "parse_form (cstr (form_text b (form_fields ?vs))) = Some (Some ?vs)"
    unfolding cstr_id [OF form_bytes [OF b form]] by (rule parse_form_text [OF b form])
  have "wp view (ApiUpload S OS cfg (form_text b (form_fields ?vs))) ?Q (view w)"
    unfolding ApiUpload_def
    apply (rule wp_with_db [OF rel], rule wp_pure [OF parse], simp only: option.case list.case, rule wp_bind,
        rule wp_store_upload [OF rel os ok prog inv refl new])
    subgoal for tm v'
      using upload_stored [OF up inv new room refl, of tm] by (simp add: wp_return del: effect.simps)
    done
  from wp_result [OF this] show ?thesis by blast
qed

section \<open>An instance\<close>

text \<open>Services over a world that has one more part, which they leave alone.\<close>

definition lift_act :: "('w, 'a) act \<Rightarrow> ('w \<times> 'p, 'a) act" where
  "lift_act f = (\<lambda>(w, p). map_option (\<lambda>(a, w'). (a, (w', p))) (f w))"

definition lift_fun :: "('w \<Rightarrow> 'a \<times> 'w) \<Rightarrow> 'w \<times> 'p \<Rightarrow> 'a \<times> ('w \<times> 'p)" where
  "lift_fun f = (\<lambda>(w, p). let (a, w') = f w in (a, (w', p)))"

definition lift_unit :: "('w \<Rightarrow> 'w) \<Rightarrow> 'w \<times> 'p \<Rightarrow> 'w \<times> 'p" where
  "lift_unit f = (\<lambda>(w, p). (f w, p))"

definition lift_services :: "'w services \<Rightarrow> ('w \<times> 'p) services" where
  "lift_services S = \<lparr>
     mysql = \<lparr>real_query = (\<lambda>t. lift_fun (real_query (mysql S) t)), stmt_prepare = (\<lambda>t. lift_fun (stmt_prepare (mysql S) t)),
       stmt_execute = (\<lambda>t ps. lift_fun (stmt_execute (mysql S) t ps))\<rparr>,
     cache = (let C = cache S in \<lparr>
       op_Get = (\<lambda>p k. lift_act (op_Get C p k)), op_Set = (\<lambda>p k x. lift_act (op_Set C p k x)),
       op_SetEx = (\<lambda>p k n x. lift_act (op_SetEx C p k n x)), op_Del = (\<lambda>p k. lift_act (op_Del C p k)),
       op_Incr = (\<lambda>p k. lift_act (op_Incr C p k)), op_Decr = (\<lambda>p k n. lift_act (op_Decr C p k n)),
       op_Hset = (\<lambda>p k f x. lift_act (op_Hset C p k f x)), op_Hdel = (\<lambda>p k f. lift_act (op_Hdel C p k f)),
       op_Hget = (\<lambda>p k f n. lift_act (op_Hget C p k f n)), op_ZsetExist = (\<lambda>p k m. lift_act (op_ZsetExist C p k m)),
       op_ZsetAdd = (\<lambda>p k s m. lift_act (op_ZsetAdd C p k s m)), op_ZsetZrem = (\<lambda>p k m. lift_act (op_ZsetZrem C p k m)),
       op_ZsetIncr = (\<lambda>p k m. lift_act (op_ZsetIncr C p k m)), op_ZsetZcard = (\<lambda>p k. lift_act (op_ZsetZcard C p k)),
       op_ZsetZrevrange = (\<lambda>p k i j n. lift_act (op_ZsetZrevrange C p k i j n)),
       op_ZsetGetScore = (\<lambda>p k m. lift_act (op_ZsetGetScore C p k m))\<rparr>),
     json = json S,
     get_db = (\<lambda>p. lift_fun (get_db S p)), rel_db = (\<lambda>p. lift_unit (rel_db S p)),
     get_cache = (\<lambda>p. lift_fun (get_cache S p)), rel_cache = (\<lambda>p. lift_unit (rel_cache S p)),
     try_lock = lift_fun (try_lock S), unlock = lift_unit (unlock S),
     time_now = lift_fun (time_now S), time_text = lift_fun (time_text S), generateUUID = lift_fun (generateUUID S),
     rand = lift_fun (rand S), sleep_us = (\<lambda>n. lift_unit (sleep_us S n)), system_call = (\<lambda>cmd. lift_fun (system_call S cmd))\<rparr>"

lemma lift_simps [simp]:
  "fst (lift_fun f x) = fst (f (fst x))" "fst (snd (lift_fun f x)) = snd (f (fst x))"
  "fst (lift_unit g x) = g (fst x)"
  "lift_fun f x = (a, y) \<longleftrightarrow> f (fst x) = (a, fst y) \<and> snd y = snd x"
  by (cases x; cases y; auto simp: lift_fun_def lift_unit_def split: prod.split)+

lemma gives_lift: "gives (\<lambda>x. view (fst x)) (lift_act f) x P v \<longleftrightarrow> gives view f (fst x) P v"
  by (cases x) (auto simp: gives_def lift_act_def)

lemma reliable_lift:
  assumes "reliable coll S view"
  shows "reliable coll (lift_services S) (\<lambda>x. view (fst x))"
proof -
  note laws = reliableD [OF assms]
  have "pools_law (lift_services S) (\<lambda>x. view (fst x))"
    using laws(1) by (simp add: pools_law_def lift_services_def)
  moreover have "system_law (lift_services S) (\<lambda>x. view (fst x))"
    using laws(2) by (simp add: system_law_def lift_services_def)
  moreover have "mysql_law coll (lift_services S) (\<lambda>x. view (fst x))"
    using laws(3) by (simp add: mysql_law_def lift_services_def Let_def split_beta)
  moreover have "prepared_law coll (lift_services S) (\<lambda>x. view (fst x))"
    using laws(4) by (simp add: prepared_law_def lift_services_def Let_def split_beta)
  moreover have "strings_law (lift_services S) (\<lambda>x. view (fst x))"
    using laws(5) by (simp add: strings_law_def lift_services_def Let_def gives_lift) blast
  moreover have "zsets_law (lift_services S) (\<lambda>x. view (fst x))"
    using laws(6) by (simp add: zsets_law_def lift_services_def Let_def gives_lift) blast
  moreover have "ranking_law (lift_services S) (\<lambda>x. view (fst x))"
    using laws(7) by (simp add: ranking_law_def lift_services_def Let_def gives_lift)
  moreover have "hashes_law (lift_services S) (\<lambda>x. view (fst x))"
    using laws(8) by (simp add: hashes_law_def lift_services_def Let_def gives_lift split del: if_split) blast
  ultimately show ?thesis by (simp add: reliable_def)
qed

text \<open>The second part of the world is what the program that ran last wrote.\<close>

definition sample_programs :: "string list \<Rightarrow> string" where
  "sample_programs args =
     (if hd args = ''fdfs_upload_file'' then ''group1/c'' @ [LF] else ''group name: group1'' @ [LF] @ ip_words @ ''10.0.0.1'' @ [LF])"

definition sample_os :: "('w \<times> string) os" where
  "sample_os = \<lparr>
     os_pipe = (\<lambda>w. (Some (4, 5), w)), os_fork = (\<lambda>w. (True, w)), os_execlp = (\<lambda>fd args (w, p). (True, (w, sample_programs args))),
     os_child_exit = (\<lambda>n w. w), os_close = (\<lambda>fd w. w), os_select = (\<lambda>fd t w. (1, w)),
     os_read = (\<lambda>fd n w. (Some (take n (snd w)), w)), os_wait = (\<lambda>w. (Some 0, w)),
     os_rename = (\<lambda>old new w. (0, w)), os_unlink = (\<lambda>path w. (0, w))\<rparr>"

lemma sample_os_works: "fdfs_works sample_os (\<lambda>x. view (fst x)) snd sample_programs"
  by (auto simp: fdfs_works_def sample_os_def quiet_def split_beta)

definition sample_settings :: upload_settings where
  "sample_settings = ApiUploadInit ''/etc/fdfs/client.conf'' ''h'' ''80'' [] []"

lemma sample_stored: "stored_by sample_os sample_settings sample_programs path ''group1/c'' ''10.0.0.1''"
proof -
  have "sample_programs [''fdfs_upload_file'', ''fdfs_upload_file'', x, path] = ''group1/c'' @ [LF]" for x
    by (simp add: sample_programs_def)
  moreover have "file_host (take 512 (sample_programs [''fdfs_file_info'', ''fdfs_file_info'', x, ''group1/c''])) = Some (Some ''10.0.0.1'')" for x
    unfolding sample_programs_def by simp code_simp
  ultimately show ?thesis by (simp add: stored_by_def)
qed

text \<open>A form that is legal there.\<close>

lemma sample_upload_legal:
  "upload_legal sample_settings ''bob'' ''m3'' ''c.txt'' 7 ''/tmp/1'' ''group1/c'' ''txt''"
proof -
  have "GetFileSuffix (Some ''c.txt'') 8 = Some (0, Some ''txt'')" by code_simp
  moreover have "length (statement_text (InsertFileInfo ''m3'' ''group1/c'' ''http://h/group1/c'' 7 ''txt'')) < 512"
    by (simp add: statement_defs cstr_def dec_int_def dec_nat.simps digit_char_def)
  ultimately show ?thesis
    by (simp add: upload_legal_def upload_ok_def clean_file_def clean_def isprint_def sample_settings_def ApiUploadInit_def cstr_def isspace_def)
qed

lemma sample_upload_new:
  "\<not> has_row (is_owned id ''bob'' ''m3'' ''c.txt'') (user_file_list (db sample))" "refs id ''m3'' (db sample) = 0"
  "length (user_file_list (db sample)) = 3"
  by (simp_all add: sample_def has_row_def is_owned_def refs_def matches_def)

lemma sample_boundary: "boundary_ok ''--B''"
  by (simp add: boundary_ok_def TEMP_BUF_MAX_LEN_def)

lemma sample_reliable:
  "reliable id (lift_services (ref_services id (\<lambda>s. None))) (fst :: outside \<times> string \<Rightarrow> outside)"
  "fdfs_works sample_os (fst :: outside \<times> string \<Rightarrow> outside) snd sample_programs"
  "write_styled (json (lift_services (ref_services id (\<lambda>s. None)) :: (outside \<times> string) services)) = show_flat"
  by (rule reliable_lift [OF ref_reliable], rule sample_os_works, simp add: lift_services_def ref_services_def)

text \<open>C14. A POST of a legal upload form, with FastDFS at work, by a user who does not have this file (the same MD5 and name) yet, is answered 0:
the temporary file is stored and looked up, and the file is recorded under the user of the form with one more reference, the counts staying
those of the owners.  The copy just stored is deleted again exactly when the contents were known already.  For a user who has the
file already the code counts a reference that does not exist and answers 1 (\<open>store_again_miscounts\<close>).\<close>

theorem upload_records_file:
  assumes "reliable coll S view" and "fdfs_works OS view out programs"
    and "upload_legal cfg u m f n path i ty" and "stored_by OS cfg programs (path @ ''.'' @ ty) i h"
    and "boundary_ok b" "length u < 32" "length m < 128" "length f < 128"
    and "CR \<notin> set t" "NUL \<notin> set t" "length t < 128" "CR \<notin> set path" "NUL \<notin> set path"
    and "keys_ok coll (db (view w))" "counted coll (db (view w))"
    and "\<not> has_row (is_owned coll u m f) (user_file_list (db (view w)))"
    and "length (user_file_list (db (view w))) + 1 < 2 ^ 31 - 1"
  shows "\<exists>w'. ApiUpload S OS cfg (form_text b (form_fields [f, t, path, m, dec_nat n, u])) w =
      Some ((0, write_styled (json S) (JObj [(''code'', JInt 0)])), w') \<and>
    keys_ok coll (db (view w')) \<and> counted coll (db (view w')) \<and>
    refs coll m (db (view w')) = refs coll m (db (view w)) + 1 \<and>
    has_row (is_owned coll u m f) (user_file_list (db (view w'))) \<and>
    commands (view w') = commands (view w) @
      (if has_row (is_file coll m) (file_info (db (view w))) then [delete_command cfg i] else [])"
  by (rule upload_recorded [OF assms(1-5) legal_form [OF assms(3,6-13)] assms(14-17)])

theorem upload_records_file_witness:
  "\<exists>w'. ApiUpload (lift_services (ref_services id (\<lambda>s. None))) sample_os sample_settings
      (form_text ''--B'' (form_fields [''c.txt'', ''text/plain'', ''/tmp/1'', ''m3'', dec_nat 7, ''bob''])) (sample, []) =
      Some ((0, show_flat (JObj [(''code'', JInt 0)])), w') \<and> counted id (db (fst w')) \<and> refs id ''m3'' (db (fst w')) = 1"
  using upload_records_file [OF sample_reliable(1,2) sample_upload_legal sample_stored sample_boundary, where t = "''text/plain''" and w = "(sample, [])"]
    sample_ok sample_upload_new
  unfolding sample_reliable(3) by simp blast

end
