(* ===== verification/Http_Server.thy ===== *)
theory Http_Server
  imports Http_Memory Uploads
begin

text \<open>
  A POST that reaches the server in pieces (\<open>pieces_ok\<close> says which): it is answered once, when its last
  byte is there, with what its handler gives.
\<close>

section \<open>The input buffer\<close>

lemma readFd_piece:
  assumes "buffer_ok b" "length x \<le> 65536"
  shows "\<exists>b'. readFd (\<lambda>n. Some x) b = Some (int (length x), b') \<and> buffer_ok b' \<and> toStringPiece b' = toStringPiece b @ x \<and>
    (length x \<le> writableBytes b \<longrightarrow> readerIndex b' = readerIndex b \<and> length (vec b') = length (vec b))"
proof -
  let ?o = "if writableBytes b < 65536 then writableBytes b + 65536 else writableBytes b"
  have le: "length x \<le> ?o" using assms(2) by simp
  obtain b' where b': "readFd (\<lambda>n. Some x) b = Some (int (length x), b')" "buffer_ok b'" "toStringPiece b' = toStringPiece b @ x"
    using readFd_ok [OF assms(1), of "\<lambda>n. Some x" x] le by auto
  moreover have "readerIndex b' = readerIndex b \<and> length (vec b') = length (vec b)" if fits: "length x \<le> writableBytes b"
  proof -
    have t: "take ?o x = x" using le by simp
    obtain m where "mem_write (vec b) (writerIndex b) x = Some m" "length m = length (vec b)"
      using write_behind [OF assms(1) fits] by blast
    then show ?thesis using b'(1) fits t by (auto simp: readFd_def Let_def)
  qed
  ultimately show ?thesis by blast
qed

text \<open>What has arrived, and room behind it as long as it fits into the buffer as it was made.\<close>

definition gathered :: "string \<Rightarrow> Buffer \<Rightarrow> bool" where
  "gathered s b \<longleftrightarrow> buffer_ok b \<and> toStringPiece b = s \<and>
     (length s + 15 \<le> kInitialSize \<longrightarrow> readerIndex b = kCheapPrepend \<and> length (vec b) = kCheapPrepend + kInitialSize)"

lemma gathered_new: "gathered [] (new_Buffer kInitialSize)"
  using new_Buffer_ok [of kInitialSize] by (simp add: gathered_def) (simp add: new_Buffer_def)

lemma gathered_more:
  assumes "gathered s b" "length x \<le> 65536"
  shows "\<exists>b'. readFd (\<lambda>n. Some x) b = Some (int (length x), b') \<and> gathered (s @ x) b'"
proof -
  have b: "buffer_ok b" "toStringPiece b = s" using assms(1) by (simp_all add: gathered_def)
  obtain b' where b': "readFd (\<lambda>n. Some x) b = Some (int (length x), b')" "buffer_ok b'" "toStringPiece b' = s @ x"
    "length x \<le> writableBytes b \<longrightarrow> readerIndex b' = readerIndex b \<and> length (vec b') = length (vec b)"
    using readFd_piece [OF b(1) assms(2)] b(2) by auto
  have "readerIndex b' = kCheapPrepend \<and> length (vec b') = kCheapPrepend + kInitialSize" if "length (s @ x) + 15 \<le> kInitialSize"
  proof -
    have r: "readerIndex b = kCheapPrepend" "length (vec b) = kCheapPrepend + kInitialSize"
      using assms(1) that by (simp_all add: gathered_def)
    have "length x \<le> writableBytes b"
      using that r length_contents [OF b(1)] b(2) buffer_okD [OF b(1)] unfolding writableBytes_def readableBytes_def by simp
    with b'(4) r show ?thesis by simp
  qed
  with b' show ?thesis by (auto simp: gathered_def)
qed

lemma gathered_memory:
  assumes "gathered s b"
  shows "readableBytes b = length s" "take (length s) (drop (peek b) (vec b)) = s" "length s \<le> length (drop (peek b) (vec b))"
    "length s + 15 \<le> kInitialSize \<Longrightarrow> length s + 15 \<le> length (drop (peek b) (vec b))"
proof -
  have b: "buffer_ok b" "toStringPiece b = s" using assms by (simp_all add: gathered_def)
  show n: "readableBytes b = length s" using length_contents [OF b(1)] b(2) by simp
  show s: "take (length s) (drop (peek b) (vec b)) = s" using b(2) n by (simp add: toStringPiece_def readable_from_def readableBytes_def peek_def)
  show "length s \<le> length (drop (peek b) (vec b))" using arg_cong [OF s, of length] by simp
  show "length s + 15 \<le> kInitialSize \<Longrightarrow> length s + 15 \<le> length (drop (peek b) (vec b))"
    using assms by (simp add: gathered_def peek_def kCheapPrepend_def)
qed

section \<open>\<open>OnRead\<close>\<close>

lemma OnRead_whole:
  assumes "request_ok url hs body" "gathered (request_text url hs body) b"
  shows "OnRead S OS cfg html b w = do { (t, w1) \<leftarrow> handle_request S OS cfg html url body w; Some ([t], w1) }"
proof -
  note m = gathered_memory [OF assms(2)]
  let ?mem = "drop (peek b) (vec b)" and ?n = "length (request_text url hs body)"
  have "?mem = request_text url hs body @ drop ?n ?mem" using append_take_drop_id [of ?n ?mem] m(2) by simp
  with parse_whole [OF assms(1), of "drop ?n ?mem"] obtain q ob where
    "ParseHttpContent ?mem ?n = Some (q, ob)" "read_all ob" "url_text ob = url" "body_content ob = body" by metis
  then show ?thesis by (simp add: OnRead_def m(1))
qed

lemma OnRead_part:
  assumes "request_ok url hs body" "gathered s b" "request_text url hs body = s @ rest" "rest \<noteq> []"
    and "length s + 15 \<le> kInitialSize \<or> length (head_text url hs (length body)) \<le> length s"
  shows "OnRead S OS cfg html b w = Some ([], w)"
proof -
  note m = gathered_memory [OF assms(2)]
  have "\<exists>q ob. ParseHttpContent (drop (peek b) (vec b)) (length s) = Some (q, ob) \<and> \<not> read_all ob"
    by (rule parse_part [OF assms(1)]) (use assms(3-5) m in \<open>auto\<close>)
  then show ?thesis by (auto simp: OnRead_def m(1))
qed

section \<open>The server\<close>

text \<open>A piece arrives, and a worker thread that is free takes the task.\<close>

definition serve ::
  "'w services \<Rightarrow> 'w os \<Rightarrow> upload_settings \<Rightarrow> string option \<Rightarrow> nat \<Rightarrow> nat \<Rightarrow> string \<Rightarrow> http_server \<Rightarrow> ('w, http_server) act" where
  "serve S OS cfg html threads c x srv w =
     do {
       (srv1, w1) \<leftarrow> receive S OS cfg html threads c (\<lambda>n. Some x) srv w;
       run_task S OS cfg html srv1 w1
     }"

fun serve_all ::
  "'w services \<Rightarrow> 'w os \<Rightarrow> upload_settings \<Rightarrow> string option \<Rightarrow> nat \<Rightarrow> nat \<Rightarrow> string list \<Rightarrow> http_server \<Rightarrow> ('w, http_server) act" where
  "serve_all S OS cfg html threads c [] srv w = Some (srv, w)"
| "serve_all S OS cfg html threads c (x # xs) srv w =
     do {
       (srv1, w1) \<leftarrow> serve S OS cfg html threads c x srv w;
       serve_all S OS cfg html threads c xs srv1 w1
     }"

text \<open>The connection \<open>c\<close> is known, and \<open>s\<close> has arrived on it.\<close>

definition connected :: "nat \<Rightarrow> string \<Rightarrow> http_server \<Rightarrow> bool" where
  "connected c s srv \<longleftrightarrow> (case tcp_conns srv c of
      None \<Rightarrow> False
    | Some t \<Rightarrow> gathered s (input_buffer t) \<and>
        (case conn_context t of None \<Rightarrow> False | Some uuid \<Rightarrow> map_of (s_http_map srv) uuid = Some c))"

lemma connected_new:
  assumes "map_of (s_http_map srv) (conn_uuid_generator srv) = None"
  shows "connected c [] (onConnected c srv)"
  using assms gathered_new by (simp add: connected_def onConnected_def Let_def map_insert_new_def map_add_def)

lemma connected_parts: "connected c s (srv\<lparr>sent := z\<rparr>) = connected c s srv" "connected c s (srv\<lparr>pending := ts\<rparr>) = connected c s srv"
  by (simp_all add: connected_def split: option.split)

text \<open>The server after a piece, before anything is made of it.\<close>

lemma receive_piece:
  assumes "connected c s srv" "x \<noteq> []" "length x \<le> 65536"
  shows "\<exists>srv1 b. connected c (s @ x) srv1 \<and> gathered (s @ x) b \<and> pending srv1 = pending srv \<and> sent srv1 = sent srv \<and>
    (\<exists>t. tcp_conns srv1 c = Some t \<and> input_buffer t = b) \<and>
    receive S OS cfg html threads c (\<lambda>n. Some x) srv w =
      (if threads \<noteq> 0 then Some (srv1\<lparr>pending := pending srv @ [(c, c)]\<rparr>, w) else run_OnRead S OS cfg html c c srv1 w)"
proof -
  obtain t uuid where t: "tcp_conns srv c = Some t" "gathered s (input_buffer t)" "conn_context t = Some uuid"
    "map_of (s_http_map srv) uuid = Some c"
    using assms(1) by (auto simp: connected_def split: option.splits)
  obtain b where b: "readFd (\<lambda>n. Some x) (input_buffer t) = Some (int (length x), b)" "gathered (s @ x) b"
    using gathered_more [OF t(2) assms(3)] by blast
  let ?srv = "srv\<lparr>tcp_conns := (tcp_conns srv)(c \<mapsto> t\<lparr>input_buffer := b\<rparr>)\<rparr>"
  have "connected c (s @ x) ?srv" using t b by (simp add: connected_def)
  moreover have "receive S OS cfg html threads c (\<lambda>n. Some x) srv w =
      (if threads \<noteq> 0 then Some (?srv\<lparr>pending := pending srv @ [(c, c)]\<rparr>, w) else run_OnRead S OS cfg html c c ?srv w)"
    using t b assms(2) by (simp add: receive_def Let_def onMessage_def)
  ultimately show ?thesis using b(2) by (intro exI [of _ ?srv] exI [of _ b]) simp
qed

lemma serve_piece:
  assumes "connected c s srv" "x \<noteq> []" "length x \<le> 65536" "pending srv = []"
  shows "\<exists>srv1 b. connected c (s @ x) srv1 \<and> gathered (s @ x) b \<and> pending srv1 = [] \<and> sent srv1 = sent srv \<and>
    serve S OS cfg html threads c x srv w =
      do { (out, w1) \<leftarrow> OnRead S OS cfg html b w; Some (srv1\<lparr>sent := sent srv @ map (Pair c) out\<rparr>, w1) }"
proof -
  obtain srv1 b t where r: "connected c (s @ x) srv1" "gathered (s @ x) b" "pending srv1 = []" "sent srv1 = sent srv"
    "tcp_conns srv1 c = Some t" "input_buffer t = b"
    "receive S OS cfg html threads c (\<lambda>n. Some x) srv w =
      (if threads \<noteq> 0 then Some (srv1\<lparr>pending := [(c, c)]\<rparr>, w) else run_OnRead S OS cfg html c c srv1 w)"
    using receive_piece [OF assms(1-3), of S OS cfg html threads w] assms(4) by auto
  have same: "srv1\<lparr>pending := []\<rparr> = srv1" using r(3) by (metis http_server.surjective http_server.update_convs(4))
  have "serve S OS cfg html threads c x srv w =
      do { (out, w1) \<leftarrow> OnRead S OS cfg html b w; Some (srv1\<lparr>sent := sent srv @ map (Pair c) out\<rparr>, w1) }"
    using r same by (cases "OnRead S OS cfg html b w") (auto simp: serve_def run_task_def run_OnRead_def)
  with r show ?thesis by blast
qed

text \<open>Pieces of which each but the last leaves the header in the buffer as it was made, or completes it.\<close>

fun pieces_ok :: "nat \<Rightarrow> nat \<Rightarrow> string list \<Rightarrow> bool" where
  "pieces_ok head got [] = True"
| "pieces_ok head got (x # xs) \<longleftrightarrow> x \<noteq> [] \<and> length x \<le> 65536 \<and>
     (xs = [] \<or> got + length x + 15 \<le> kInitialSize \<or> head \<le> got + length x) \<and> pieces_ok head (got + length x) xs"

lemma serve_all_once:
  assumes "request_ok url hs body" "handle_request S OS cfg html url body w = Some (text, w1)"
    and "xs \<noteq> []" "request_text url hs body = s @ concat xs" "pieces_ok (length (head_text url hs (length body))) (length s) xs"
    and "connected c s srv" "pending srv = []"
  shows "\<exists>srv1. serve_all S OS cfg html threads c xs srv w = Some (srv1, w1) \<and> sent srv1 = sent srv @ [(c, text)]"
  using assms(3-7)
proof (induction xs arbitrary: s srv)
  case (Cons x xs)
  have x: "x \<noteq> []" "length x \<le> 65536" using Cons.prems(3) by simp_all
  obtain srv1 b where r: "connected c (s @ x) srv1" "gathered (s @ x) b" "pending srv1 = []" "sent srv1 = sent srv"
    "serve S OS cfg html threads c x srv w =
      do { (out, w1) \<leftarrow> OnRead S OS cfg html b w; Some (srv1\<lparr>sent := sent srv @ map (Pair c) out\<rparr>, w1) }"
    using serve_piece [OF Cons.prems(4) x Cons.prems(5), of S OS cfg html threads w] by blast
  show ?case
  proof (cases "xs = []")
    case True
    then have "gathered (request_text url hs body) b" using r(2) Cons.prems(2) by simp
    from OnRead_whole [OF assms(1) this, of S OS cfg html w] True r assms(2) show ?thesis by simp
  next
    case False
    have "length (concat xs) \<noteq> 0" using False Cons.prems(3) by (cases xs) simp_all
    moreover have "length (s @ x) + 15 \<le> kInitialSize \<or> length (head_text url hs (length body)) \<le> length (s @ x)"
      using Cons.prems(3) False by auto
    ultimately have "OnRead S OS cfg html b w = Some ([], w)"
      using OnRead_part [OF assms(1) r(2), of "concat xs"] Cons.prems(2) by simp
    then have "serve S OS cfg html threads c x srv w = Some (srv1\<lparr>sent := sent srv\<rparr>, w)" using r(5) by simp
    moreover have "connected c (s @ x) (srv1\<lparr>sent := sent srv\<rparr>)" using r(1) by (simp add: connected_parts)
    ultimately show ?thesis using Cons.IH [of "s @ x" "srv1\<lparr>sent := sent srv\<rparr>"] False Cons.prems(2,3) r(3) by simp
  qed
qed simp

text \<open>
  Worker threads that do not keep up: each message queued a task, and each task finds the whole request in the buffer.
\<close>

lemma late_worker_answers:
  assumes "request_ok url hs body" "handle_request S OS cfg html url body w = Some (answer_text, w1)"
    and "tcp_conns srv c = Some t" "gathered (request_text url hs body) (input_buffer t)" "pending srv = (c, c) # rest"
  shows "run_task S OS cfg html srv w = Some (srv\<lparr>pending := rest, sent := sent srv @ [(c, answer_text)]\<rparr>, w1)"
  using OnRead_whole [OF assms(1,4), of S OS cfg html w] assms(2,3,5) by (simp add: run_task_def run_OnRead_def)

lemma late_workers_answer_twice:
  assumes ok: "request_ok url hs body" "request_text url hs body = x @ y"
    and x: "x \<noteq> []" "length x \<le> 65536" and y: "y \<noteq> []" "length y \<le> 65536" and threads: "0 < threads"
    and first: "handle_request S OS cfg html url body w = Some (t1, w1)"
    and second: "handle_request S OS cfg html url body w1 = Some (t2, w2)"
    and srv: "connected c [] srv" "pending srv = []"
  shows "\<exists>srv1. do {
      (srv, w) \<leftarrow> receive S OS cfg html threads c (\<lambda>n. Some x) srv w;
      (srv, w) \<leftarrow> receive S OS cfg html threads c (\<lambda>n. Some y) srv w;
      (srv, w) \<leftarrow> run_task S OS cfg html srv w;
      run_task S OS cfg html srv w
    } = Some (srv1, w2) \<and> sent srv1 = sent srv @ [(c, t1), (c, t2)]"
proof -
  obtain sx where sx: "connected c x sx" "sent sx = sent srv"
    "receive S OS cfg html threads c (\<lambda>n. Some x) srv w = Some (sx\<lparr>pending := [(c, c)]\<rparr>, w)"
    using receive_piece [OF srv(1) x, of S OS cfg html threads w] srv(2) threads by auto
  have "connected c x (sx\<lparr>pending := [(c, c)]\<rparr>)" using sx(1) by (simp add: connected_parts)
  from receive_piece [OF this y, of S OS cfg html threads w] ok(2) threads sx(2)
  obtain sy t where sy: "tcp_conns sy c = Some t" "gathered (request_text url hs body) (input_buffer t)" "sent sy = sent srv"
    "receive S OS cfg html threads c (\<lambda>n. Some y) (sx\<lparr>pending := [(c, c)]\<rparr>) w = Some (sy\<lparr>pending := [(c, c), (c, c)]\<rparr>, w)"
    by auto
  let ?s1 = "sy\<lparr>pending := [(c, c)], sent := sent srv @ [(c, t1)]\<rparr>"
  have "run_task S OS cfg html (sy\<lparr>pending := [(c, c), (c, c)]\<rparr>) w = Some (?s1, w1)"
    using late_worker_answers [OF ok(1) first, of "sy\<lparr>pending := [(c, c), (c, c)]\<rparr>" c t "[(c, c)]"] sy by simp
  moreover have "run_task S OS cfg html ?s1 w1 = Some (?s1\<lparr>pending := [], sent := sent srv @ [(c, t1), (c, t2)]\<rparr>, w2)"
    using late_worker_answers [OF ok(1) second, of ?s1 c t "[]"] sy by simp
  ultimately show ?thesis using sx(3) sy(4) by simp
qed

section \<open>Properties\<close>

text \<open>C6. A POST is read back as it was printed: on all of its bytes, with any memory behind them, the parser gives the URL and
the body of the request; on the first bytes only, whatever stands behind them, it gives no complete request and no error.\<close>

theorem request_roundtrip:
  assumes "request_ok url hs body"
  shows "(\<exists>q ob. ParseHttpContent (request_text url hs body @ rest) (length (request_text url hs body)) = Some (q, ob) \<and>
      http_errno q = HPE_OK \<and> read_all ob \<and> url_text ob = url \<and> body_content ob = body) \<and>
    (\<forall>k < length (request_text url hs body). \<forall>behind. 15 \<le> length behind \<longrightarrow>
      (\<exists>q ob. ParseHttpContent (take k (request_text url hs body) @ behind) k = Some (q, ob) \<and> \<not> read_all ob))"
proof (intro conjI allI impI)
  fix k and behind :: string
  assume "k < length (request_text url hs body)" "15 \<le> length behind"
  then show "\<exists>q ob. ParseHttpContent (take k (request_text url hs body) @ behind) k = Some (q, ob) \<and> \<not> read_all ob"
    by (intro parse_part [OF assms]) simp_all
qed (rule parse_whole [OF assms])

text \<open>A small request.\<close>

definition sample_post :: string where
  "sample_post = request_text ''/api/memhtml'' [(''Host'', ''h'')] ''x=1''"

lemma sample_post_ok: "request_ok ''/api/memhtml'' [(''Host'', ''h'')] ''x=1''"
proof -
  have "legal_url ''/api/memhtml''" "plain_header (''Host'', ''h'')" by code_simp+
  moreover have "dec_nat (Suc (Suc (Suc 0))) = ''3''" by code_simp
  ultimately show ?thesis
    by (simp add: request_ok_def head_ok_def request_text_def head_text_def first_line_def header_line_def length_line_def
        ULLONG_MAX_def HTTP_MAX_HEADER_SIZE_def)
qed

theorem request_roundtrip_witness:
  "(\<exists>q ob. ParseHttpContent (sample_post @ ''tail'') (length sample_post) = Some (q, ob) \<and>
      http_errno q = HPE_OK \<and> read_all ob \<and> url_text ob = ''/api/memhtml'' \<and> body_content ob = ''x=1'') \<and>
    (\<exists>q ob. ParseHttpContent (take 20 sample_post @ replicate 15 NUL) 20 = Some (q, ob) \<and> \<not> read_all ob)"
proof -
  have "20 < length sample_post" by (simp add: sample_post_def request_text_def head_text_def first_line_def)
  then show ?thesis
    using request_roundtrip [OF sample_post_ok, folded sample_post_def, of "''tail''"] by (metis length_replicate order_refl)
qed

lemma request_nonempty: "concat xs = request_text url hs body \<Longrightarrow> xs \<noteq> []"
  using head_nonempty [of url hs "length body"] by (auto simp: request_text_def)

text \<open>C4. A POST is answered exactly once, with or without worker threads, when they keep up: nothing is sent
before its last byte is there, and then what the handler of its URL makes of its body.  The pieces it arrives in are not empty and of at most
one read (65536 bytes), and each but the last either leaves what has arrived, with 15 bytes to spare, within the first 1024 bytes of the
buffer, or contains the end of the header: a longer incomplete header may be compared with bytes behind the memory of
the buffer, see \<open>OnHeaderField\<close>.\<close>

theorem request_answered_once:
  assumes "request_ok url hs body" and "handle_request S OS cfg html url body w = Some (answer_text, w1)"
    and "concat xs = request_text url hs body" and "pieces_ok (length (head_text url hs (length body))) 0 xs"
    and "map_of (s_http_map srv) (conn_uuid_generator srv) = None" and "pending srv = []"
  shows "\<exists>srv1. serve_all S OS cfg html threads c xs (onConnected c srv) w = Some (srv1, w1) \<and>
    sent srv1 = sent srv @ [(c, answer_text)]"
proof -
  have "xs \<noteq> []" by (rule request_nonempty [OF assms(3)])
  moreover have "pending (onConnected c srv) = []" "sent (onConnected c srv) = sent srv"
    using assms(6) by (simp_all add: onConnected_def Let_def)
  ultimately show ?thesis
    using serve_all_once [OF assms(1,2), of xs "[]" c "onConnected c srv" threads] assms(3,4) connected_new [OF assms(5), of c] by simp
qed

text \<open>The sample cut inside its header and inside its body, to a server with 64 worker threads.\<close>

definition idle_server :: http_server where
  "idle_server = \<lparr>conn_uuid_generator = 0, s_http_map = [], tcp_conns = (\<lambda>c. None), pending = [], sent = []\<rparr>"

theorem request_answered_once_witness:
  "\<exists>srv1. serve_all (lift_services (ref_services id (\<lambda>s. None))) sample_os sample_settings None 64 7
      [take 20 sample_post, drop 20 (take 59 sample_post), drop 59 sample_post] (onConnected 7 idle_server) (sample, []) =
      Some (srv1, (sample, [])) \<and> sent srv1 = [(7, HandleMemHtml)]"
proof -
  let ?xs = "[take 20 sample_post, drop 20 (take 59 sample_post), drop 59 sample_post]"
  have "dec_nat 3 = ''3''" "dec_nat (Suc (Suc (Suc 0))) = ''3''" by code_simp+
  then have text1: "sample_post = ''POST /api/memhtml HTTP/1.1'' @ CRLF @ ''Host: h'' @ CRLF @ ''Content-Length: 3'' @ CRLF @ CRLF @ ''x=1''"
    and head: "length (head_text ''/api/memhtml'' [(''Host'', ''h'')] (length ''x=1'')) = 58"
    by (simp_all add: sample_post_def request_text_def head_text_def first_line_def header_line_def length_line_def)
  have "pieces_ok 58 0 ?xs" unfolding text1 by (simp add: kInitialSize_def)
  then have pieces: "pieces_ok (length (head_text ''/api/memhtml'' [(''Host'', ''h'')] (length ''x=1''))) 0 ?xs" unfolding head .
  have "concat ?xs = sample_post" unfolding text1 by simp
  then have cut: "concat ?xs = request_text ''/api/memhtml'' [(''Host'', ''h'')] ''x=1''" by (simp only: sample_post_def [symmetric])
  have page: "handle_request (lift_services (ref_services id (\<lambda>s. None))) sample_os sample_settings None ''/api/memhtml'' ''x=1'' (sample, []) =
      Some (HandleMemHtml, (sample, []))"
    by (simp add: handle_request_def has_path_def cstr_def)
  have "map_of (s_http_map idle_server) (conn_uuid_generator idle_server) = None" "pending idle_server = []" "sent idle_server = []"
    by (simp_all add: idle_server_def)
  from request_answered_once [OF sample_post_ok page cut pieces this(1,2)] this(3)
  show ?thesis by (simp only: append.simps)
qed

text \<open>C3. An upload from the bytes on the connection to the tables: a POST of a legal form to \<open>/api/upload\<close>, with
FastDFS at work, by a user who does not have this file (the same MD5 and name) yet, is answered once with code 0, and leaves the file recorded
under its user, with one more reference, the counts staying those of the owners.  The pieces it arrives in are not empty, of at most one read (65536 bytes), and each but the last either leaves the beginning of the request
(with 15 bytes to spare) within the first 1024 bytes of the buffer or contains the end of the header.  A user who has the file already is answered 1
with the count off by one (\<open>store_again_miscounts\<close>).\<close>

theorem upload_over_http:
  assumes "reliable coll S view" and "fdfs_works OS view out programs"
    and "upload_legal cfg u m f n path i ty" and "stored_by OS cfg programs (path @ ''.'' @ ty) i h"
    and "boundary_ok b" and "form_ok [f, t, path, m, dec_nat n, u]"
    and "keys_ok coll (db (view w))" and "counted coll (db (view w))"
    and "\<not> has_row (is_owned coll u m f) (user_file_list (db (view w)))"
    and "length (user_file_list (db (view w))) + 1 < 2 ^ 31 - 1"
    and "request_ok ''/api/upload'' hs (form_text b (form_fields [f, t, path, m, dec_nat n, u]))"
    and "concat xs = request_text ''/api/upload'' hs (form_text b (form_fields [f, t, path, m, dec_nat n, u]))"
    and "pieces_ok (length (head_text ''/api/upload'' hs (length (form_text b (form_fields [f, t, path, m, dec_nat n, u]))))) 0 xs"
    and "map_of (s_http_map srv) (conn_uuid_generator srv) = None" and "pending srv = []"
  shows "\<exists>srv1 w1. serve_all S OS cfg html threads c xs (onConnected c srv) w = Some (srv1, w1) \<and>
    sent srv1 = sent srv @ [(c, json_response (write_styled (json S) (JObj [(''code'', JInt 0)])))] \<and>
    keys_ok coll (db (view w1)) \<and> counted coll (db (view w1)) \<and>
    refs coll m (db (view w1)) = refs coll m (db (view w)) + 1 \<and>
    has_row (is_owned coll u m f) (user_file_list (db (view w1)))"
proof -
  let ?body = "form_text b (form_fields [f, t, path, m, dec_nat n, u])"
  obtain w1 where w1: "ApiUpload S OS cfg ?body w = Some ((0, write_styled (json S) (JObj [(''code'', JInt 0)])), w1)"
    "keys_ok coll (db (view w1))" "counted coll (db (view w1))" "refs coll m (db (view w1)) = refs coll m (db (view w)) + 1"
    "has_row (is_owned coll u m f) (user_file_list (db (view w1)))"
    using upload_recorded [OF assms(1-10)] by blast
  have "handle_request S OS cfg html ''/api/upload'' ?body w =
      Some (json_response (write_styled (json S) (JObj [(''code'', JInt 0)])), w1)"
    using w1(1) by (simp add: handle_request_def has_path_def cstr_def json_answer_def)
  from serve_all_once [OF assms(11) this, of xs "[]" c "onConnected c srv" threads] w1(2-) show ?thesis
    using assms(12-15) connected_new [OF assms(14), of c] request_nonempty [OF assms(12)] by (auto simp: onConnected_def Let_def)
qed

definition sample_form :: string where
  "sample_form = form_text ''--B'' (form_fields [''c.txt'', ''text/plain'', ''/tmp/1'', ''m3'', dec_nat 7, ''bob''])"

lemma sample_form_ok:
  "form_ok [''c.txt'', ''text/plain'', ''/tmp/1'', ''m3'', dec_nat 7, ''bob'']" "request_ok ''/api/upload'' [] sample_form"
  "pieces_ok (length (head_text ''/api/upload'' [] (length sample_form))) 0 [request_text ''/api/upload'' [] sample_form]"
proof -
  have seven: "dec_nat 7 = ''7''" by code_simp
  then show "form_ok [''c.txt'', ''text/plain'', ''/tmp/1'', ''m3'', dec_nat 7, ''bob'']" by (simp add: form_ok_def)
  have n: "length sample_form < 2000"
    unfolding sample_form_def seven form_text_def form_fields_def form_part_def upload_fields_def form_head_def field_name_def by simp
  then have "length (dec_nat (length sample_form)) \<le> 19" by (intro length_dec_nat_bound) simp_all
  then have h: "length (head_text ''/api/upload'' [] (length sample_form)) < 100"
    by (simp add: head_text_def first_line_def length_line_def)
  have "legal_url ''/api/upload''" by code_simp
  with n h show "request_ok ''/api/upload'' [] sample_form"
    by (simp add: request_ok_def head_ok_def request_text_def ULLONG_MAX_def HTTP_MAX_HEADER_SIZE_def)
  show "pieces_ok (length (head_text ''/api/upload'' [] (length sample_form))) 0 [request_text ''/api/upload'' [] sample_form]"
    using n h head_nonempty [of "''/api/upload''" "[]" "length sample_form"] by (auto simp: request_text_def)
qed

theorem upload_over_http_witness:
  "\<exists>srv1 w1. serve_all (lift_services (ref_services id (\<lambda>s. None))) sample_os sample_settings None 64 7
      [request_text ''/api/upload'' [] sample_form] (onConnected 7 idle_server) (sample, []) = Some (srv1, w1) \<and>
    sent srv1 = [(7, json_response (show_flat (JObj [(''code'', JInt 0)])))] \<and>
    counted id (db (fst w1)) \<and> refs id ''m3'' (db (fst w1)) = 1"
proof -
  let ?S = "lift_services (ref_services id (\<lambda>s. None)) :: (outside \<times> string) services"
  have "map_of (s_http_map idle_server) (conn_uuid_generator idle_server) = None" "pending idle_server = []" "sent idle_server = []"
    by (simp_all add: idle_server_def)
  moreover have "concat [request_text ''/api/upload'' [] sample_form] = request_text ''/api/upload'' [] sample_form" by simp
  ultimately show ?thesis
    using upload_over_http [OF sample_reliable(1,2) sample_upload_legal sample_stored sample_boundary sample_form_ok(1) _ _ _ _
        sample_form_ok(2) [unfolded sample_form_def] _ sample_form_ok(3) [unfolded sample_form_def], where w = "(sample, [])"
        and srv = idle_server and c = 7 and threads = 64 and html = None]
      sample_ok sample_upload_new
    unfolding sample_reliable(3) sample_form_def by simp blast
qed

end
