(* ===== verification/Http_Url.thy ===== *)
theory Http_Url
  imports Http_Parser
begin

text \<open>
  The URL parser of \<open>http_parser.cc\<close>, \<open>http_parser_parse_url\<close>, which runs the URL states of the HTTP parser
  over a buffer and records where each part is, and the names of the errors.

  The answer is 0 or 1; \<open>None\<close> is a failed assertion.  A part is an offset and a length of 16 bits each.  The
  buffer is the memory at \<open>buf\<close>, of which \<open>buflen\<close> bytes are the URL.
\<close>

datatype http_parser_url_fields = UF_SCHEMA | UF_HOST | UF_PORT | UF_PATH | UF_QUERY | UF_FRAGMENT | UF_USERINFO

record http_parser_url =
  field_set :: "http_parser_url_fields set"
  url_port :: nat
  field_off :: "http_parser_url_fields \<Rightarrow> nat"
  field_len :: "http_parser_url_fields \<Rightarrow> nat"

datatype http_host_state =
    s_http_host_dead | s_http_userinfo_start | s_http_userinfo | s_http_host_start | s_http_host_v6_start
  | s_http_host | s_http_host_v6 | s_http_host_v6_end | s_http_host_port_start | s_http_host_port

definition http_parse_host_char :: "http_host_state \<Rightarrow> char \<Rightarrow> http_host_state" where
  "http_parse_host_char s ch =
     (let userinfo =
            (if ch = CHR ''@'' then s_http_host_start else if IS_USERINFO_CHAR ch then s_http_userinfo else s_http_host_dead);
          v6_end = (if ch = CHR '':'' then s_http_host_port_start else s_http_host_dead);
          v6_start =
            (if IS_HEX ch \<or> ch = CHR '':'' \<or> ch = CHR ''.'' then s_http_host_v6 else s_http_host_dead);
          port = (if IS_NUM ch then s_http_host_port else s_http_host_dead)
      in case s of
        s_http_userinfo \<Rightarrow> userinfo
      | s_http_userinfo_start \<Rightarrow> userinfo
      | s_http_host_start \<Rightarrow>
          if ch = CHR ''['' then s_http_host_v6_start else if IS_HOST_CHAR ch then s_http_host else s_http_host_dead
      | s_http_host \<Rightarrow> if IS_HOST_CHAR ch then s_http_host else v6_end
      | s_http_host_v6_end \<Rightarrow> v6_end
      | s_http_host_v6 \<Rightarrow> if ch = CHR '']'' then s_http_host_v6_end else v6_start
      | s_http_host_v6_start \<Rightarrow> v6_start
      | s_http_host_port \<Rightarrow> port
      | s_http_host_port_start \<Rightarrow> port
      | s_http_host_dead \<Rightarrow> s_http_host_dead)"

text \<open>A part begins, or has one byte more.\<close>

definition begin_field :: "http_parser_url_fields \<Rightarrow> nat \<Rightarrow> nat \<Rightarrow> http_parser_url \<Rightarrow> http_parser_url" where
  "begin_field f off len u = u\<lparr>field_off := (field_off u)(f := u16 off), field_len := (field_len u)(f := len)\<rparr>"

definition longer_field :: "http_parser_url_fields \<Rightarrow> http_parser_url \<Rightarrow> http_parser_url" where
  "longer_field f u = u\<lparr>field_len := (field_len u)(f := u16 (field_len u f + 1))\<rparr>"

definition add_field :: "http_parser_url_fields \<Rightarrow> http_parser_url \<Rightarrow> http_parser_url" where
  "add_field f u = u\<lparr>field_set := insert f (field_set u)\<rparr>"

definition host_byte :: "http_host_state \<Rightarrow> http_host_state \<Rightarrow> nat \<Rightarrow> http_parser_url \<Rightarrow> http_parser_url" where
  "host_byte s new_s p u = (case new_s of
      s_http_host \<Rightarrow>
        longer_field UF_HOST (if s \<noteq> s_http_host then u\<lparr>field_off := (field_off u)(UF_HOST := u16 p)\<rparr> else u)
    | s_http_host_v6 \<Rightarrow>
        longer_field UF_HOST (if s \<noteq> s_http_host_v6 then u\<lparr>field_off := (field_off u)(UF_HOST := u16 p)\<rparr> else u)
    | s_http_host_port \<Rightarrow>
        longer_field UF_PORT (if s \<noteq> s_http_host_port then add_field UF_PORT (begin_field UF_PORT p 0 u) else u)
    | s_http_userinfo \<Rightarrow>
        longer_field UF_USERINFO (if s \<noteq> s_http_userinfo then add_field UF_USERINFO (begin_field UF_USERINFO p 0 u) else u)
    | _ \<Rightarrow> u)"

fun host_loop :: "http_host_state \<Rightarrow> nat \<Rightarrow> string \<Rightarrow> http_parser_url \<Rightarrow> (http_host_state \<times> http_parser_url) option" where
  "host_loop s p [] u = Some (s, u)"
| "host_loop s p (ch # cs) u =
     (let new_s = http_parse_host_char s ch
      in if new_s = s_http_host_dead then None
         else host_loop new_s (p + 1) cs (host_byte s new_s p u))"

text \<open>\<open>None\<close> is a read outside the memory, \<open>Some None\<close> the answer 1.\<close>

definition http_parse_host :: "string \<Rightarrow> http_parser_url \<Rightarrow> bool \<Rightarrow> http_parser_url option option" where
  "http_parse_host buf u found_at =
     (let off = field_off u UF_HOST; len = field_len u UF_HOST;
          u1 = u\<lparr>field_len := (field_len u)(UF_HOST := 0)\<rparr>
      in if length buf < off + len then None
         else case host_loop (if found_at then s_http_userinfo_start else s_http_host_start) off (take len (drop off buf)) u1 of
           None \<Rightarrow> Some None
         | Some (s, u2) \<Rightarrow>
             if s \<in> {s_http_host_start, s_http_host_v6_start, s_http_host_v6, s_http_host_port_start, s_http_userinfo,
                s_http_userinfo_start}
             then Some None else Some (Some u2))"

text \<open>The part a state belongs to; no part for the states that are delimiters.\<close>

datatype url_part = Delimiter | Part http_parser_url_fields | Unexpected

definition url_part :: "http_state \<Rightarrow> url_part" where
  "url_part s = (case s of
      s_req_schema_slash \<Rightarrow> Delimiter | s_req_schema_slash_slash \<Rightarrow> Delimiter | s_req_server_start \<Rightarrow> Delimiter
    | s_req_query_string_start \<Rightarrow> Delimiter | s_req_fragment_start \<Rightarrow> Delimiter
    | s_req_schema \<Rightarrow> Part UF_SCHEMA | s_req_server_with_at \<Rightarrow> Part UF_HOST | s_req_server \<Rightarrow> Part UF_HOST
    | s_req_path \<Rightarrow> Part UF_PATH | s_req_query_string \<Rightarrow> Part UF_QUERY | s_req_fragment \<Rightarrow> Part UF_FRAGMENT
    | _ \<Rightarrow> Unexpected)"

fun url_loop ::
  "http_state \<Rightarrow> bool \<Rightarrow> http_parser_url_fields option \<Rightarrow> nat \<Rightarrow> string \<Rightarrow> http_parser_url \<Rightarrow>
   (bool \<times> http_parser_url) option option" where
  "url_loop s found_at old_uf p [] u = Some (Some (found_at, u))"
| "url_loop s found_at old_uf p (ch # cs) u =
     (let s1 = parse_url_char s ch; found = (found_at \<or> s1 = s_req_server_with_at)
      in if s1 = s_dead then Some None
         else case url_part s1 of
           Delimiter \<Rightarrow> url_loop s1 found old_uf (p + 1) cs u
         | Unexpected \<Rightarrow> None
         | Part uf \<Rightarrow>
             if old_uf = Some uf then url_loop s1 found old_uf (p + 1) cs (longer_field uf u)
             else url_loop s1 found (Some uf) (p + 1) cs (add_field uf (begin_field uf p 1 u)))"

text \<open>
  \<open>strtoul\<close> at a digit: it reads on over the end of the URL as long as there are digits, \<open>None\<close> when that is
  to the end of the memory.
\<close>

definition port_value :: "string \<Rightarrow> nat option" where
  "port_value s =
     (if dropWhile isdigit s = [] then None else Some (min (2 ^ 64 - 1) (undec (takeWhile isdigit s))))"

definition http_parser_parse_url :: "string \<Rightarrow> nat \<Rightarrow> bool \<Rightarrow> http_parser_url \<Rightarrow> (int \<times> http_parser_url option) option" where
  "http_parser_parse_url buf buflen is_connect u =
     do {
       let u0 = u\<lparr>url_port := 0, field_set := {}\<rparr>;
       parsed \<leftarrow> url_loop (if is_connect then s_req_server_start else s_req_spaces_before_url) False None 0 (take buflen buf) u0;
       case parsed of
         None \<Rightarrow> Some (1, None)
       | Some (found_at, u1) \<Rightarrow> do {
           host \<leftarrow> (if UF_SCHEMA \<in> field_set u1 \<or> UF_HOST \<in> field_set u1 then http_parse_host buf u1 found_at else Some (Some u1));
           case host of
             None \<Rightarrow> Some (1, None)
           | Some u2 \<Rightarrow>
               if is_connect \<and> field_set u2 \<noteq> {UF_HOST, UF_PORT} then Some (1, None)
               else if UF_PORT \<in> field_set u2 then do {
                 v \<leftarrow> port_value (drop (field_off u2 UF_PORT) buf);
                 Some (if 0xffff < v then (1, None) else (0, Some (u2\<lparr>url_port := v\<rparr>)))
               }
               else Some (0, Some u2)
         }
     }"

section \<open>Names of errors\<close>

definition http_errno_name :: "http_errno \<Rightarrow> string" where
  "http_errno_name e = ''HPE_'' @ (case e of
      HPE_OK \<Rightarrow> ''OK'' | HPE_CB_message_begin \<Rightarrow> ''CB_message_begin'' | HPE_CB_status_complete \<Rightarrow> ''CB_status_complete''
    | HPE_CB_url \<Rightarrow> ''CB_url'' | HPE_CB_header_field \<Rightarrow> ''CB_header_field'' | HPE_CB_header_value \<Rightarrow> ''CB_header_value''
    | HPE_CB_headers_complete \<Rightarrow> ''CB_headers_complete'' | HPE_CB_body \<Rightarrow> ''CB_body''
    | HPE_CB_message_complete \<Rightarrow> ''CB_message_complete'' | HPE_INVALID_EOF_STATE \<Rightarrow> ''INVALID_EOF_STATE''
    | HPE_HEADER_OVERFLOW \<Rightarrow> ''HEADER_OVERFLOW'' | HPE_CLOSED_CONNECTION \<Rightarrow> ''CLOSED_CONNECTION''
    | HPE_INVALID_VERSION \<Rightarrow> ''INVALID_VERSION'' | HPE_INVALID_STATUS \<Rightarrow> ''INVALID_STATUS''
    | HPE_INVALID_METHOD \<Rightarrow> ''INVALID_METHOD'' | HPE_INVALID_URL \<Rightarrow> ''INVALID_URL'' | HPE_INVALID_HOST \<Rightarrow> ''INVALID_HOST''
    | HPE_INVALID_PORT \<Rightarrow> ''INVALID_PORT'' | HPE_INVALID_PATH \<Rightarrow> ''INVALID_PATH''
    | HPE_INVALID_QUERY_STRING \<Rightarrow> ''INVALID_QUERY_STRING'' | HPE_INVALID_FRAGMENT \<Rightarrow> ''INVALID_FRAGMENT''
    | HPE_LF_EXPECTED \<Rightarrow> ''LF_EXPECTED'' | HPE_INVALID_HEADER_TOKEN \<Rightarrow> ''INVALID_HEADER_TOKEN''
    | HPE_INVALID_CONTENT_LENGTH \<Rightarrow> ''INVALID_CONTENT_LENGTH'' | HPE_INVALID_CHUNK_SIZE \<Rightarrow> ''INVALID_CHUNK_SIZE''
    | HPE_INVALID_CONSTANT \<Rightarrow> ''INVALID_CONSTANT'' | HPE_INVALID_INTERNAL_STATE \<Rightarrow> ''INVALID_INTERNAL_STATE''
    | HPE_STRICT \<Rightarrow> ''STRICT'' | HPE_PAUSED \<Rightarrow> ''PAUSED'' | HPE_UNKNOWN \<Rightarrow> ''UNKNOWN'')"

definition http_errno_description :: "http_errno \<Rightarrow> string" where
  "http_errno_description e = (case e of
      HPE_OK \<Rightarrow> ''success''
    | HPE_CB_message_begin \<Rightarrow> ''the on_message_begin callback failed''
    | HPE_CB_status_complete \<Rightarrow> ''the on_status_complete callback failed''
    | HPE_CB_url \<Rightarrow> ''the on_url callback failed''
    | HPE_CB_header_field \<Rightarrow> ''the on_header_field callback failed''
    | HPE_CB_header_value \<Rightarrow> ''the on_header_value callback failed''
    | HPE_CB_headers_complete \<Rightarrow> ''the on_headers_complete callback failed''
    | HPE_CB_body \<Rightarrow> ''the on_body callback failed''
    | HPE_CB_message_complete \<Rightarrow> ''the on_message_complete callback failed''
    | HPE_INVALID_EOF_STATE \<Rightarrow> ''stream ended at an unexpected time''
    | HPE_HEADER_OVERFLOW \<Rightarrow> ''too many header bytes seen; overflow detected''
    | HPE_CLOSED_CONNECTION \<Rightarrow> ''data received after completed connection: close message''
    | HPE_INVALID_VERSION \<Rightarrow> ''invalid HTTP version''
    | HPE_INVALID_STATUS \<Rightarrow> ''invalid HTTP status code''
    | HPE_INVALID_METHOD \<Rightarrow> ''invalid HTTP method''
    | HPE_INVALID_URL \<Rightarrow> ''invalid URL''
    | HPE_INVALID_HOST \<Rightarrow> ''invalid host''
    | HPE_INVALID_PORT \<Rightarrow> ''invalid port''
    | HPE_INVALID_PATH \<Rightarrow> ''invalid path''
    | HPE_INVALID_QUERY_STRING \<Rightarrow> ''invalid query string''
    | HPE_INVALID_FRAGMENT \<Rightarrow> ''invalid fragment''
    | HPE_LF_EXPECTED \<Rightarrow> ''LF character expected''
    | HPE_INVALID_HEADER_TOKEN \<Rightarrow> ''invalid character in header''
    | HPE_INVALID_CONTENT_LENGTH \<Rightarrow> ''invalid character in content-length header''
    | HPE_INVALID_CHUNK_SIZE \<Rightarrow> ''invalid character in chunk size header''
    | HPE_INVALID_CONSTANT \<Rightarrow> ''invalid constant string''
    | HPE_INVALID_INTERNAL_STATE \<Rightarrow> ''encountered unexpected internal state''
    | HPE_STRICT \<Rightarrow> ''strict mode assertion failed''
    | HPE_PAUSED \<Rightarrow> ''parser is paused''
    | HPE_UNKNOWN \<Rightarrow> ''an unknown error occurred'')"

end
