(* ===== verification/Http_Url_Safety.thy ===== *)
theory Http_Url_Safety
  imports Http_Url Http_Safety
begin

text \<open>
  The parts that \<open>http_parser_parse_url\<close> reports lie inside the URL, and it reads nothing outside its memory.
\<close>

definition inside :: "nat \<Rightarrow> http_parser_url \<Rightarrow> bool" where
  "inside n u \<longleftrightarrow> (\<forall>f \<in> field_set u. field_off u f + field_len u f \<le> n)"

lemmas field_defs = begin_field_def longer_field_def add_field_def

lemma inside_mono: "inside m u \<Longrightarrow> m \<le> n \<Longrightarrow> inside n u"
  by (auto simp: inside_def)

lemma inside_longer:
  assumes "inside p u" "f \<in> field_set u" "p < 2 ^ 16 - 1"
  shows "inside (p + 1) (longer_field f u)"
proof -
  have "field_off u f + field_len u f \<le> p" using assms(1,2) by (simp add: inside_def)
  then have "u16 (field_len u f + 1) = field_len u f + 1" using assms(3) by (simp add: u16_def)
  then show ?thesis using assms(1) \<open>field_off u f + field_len u f \<le> p\<close> by (auto simp: inside_def longer_field_def intro: le_SucI)
qed

lemma inside_begin:
  assumes "inside p u" "len \<le> 1" "p < 2 ^ 16"
  shows "inside (p + len) (add_field f (begin_field f p len u))"
proof -
  have "u16 p = p" using assms(3) by (simp add: u16_def)
  then show ?thesis using assms by (auto simp: inside_def begin_field_def add_field_def intro: trans_le_add1)
qed

section \<open>The host\<close>

text \<open>Before the host its length is 0; then it ends where the scan is.\<close>

definition host_inv :: "nat \<Rightarrow> http_host_state \<Rightarrow> nat \<Rightarrow> http_parser_url \<Rightarrow> bool" where
  "host_inv n s p u \<longleftrightarrow>
     (\<forall>f \<in> field_set u - {UF_HOST, UF_PORT, UF_USERINFO}. field_off u f + field_len u f \<le> n) \<and>
     field_off u UF_HOST + field_len u UF_HOST \<le> p \<and>
     (s \<in> {s_http_userinfo_start, s_http_userinfo, s_http_host_start, s_http_host_v6_start} \<longrightarrow> field_len u UF_HOST = 0) \<and>
     (UF_PORT \<in> field_set u \<longrightarrow> field_off u UF_PORT + field_len u UF_PORT \<le> p) \<and>
     (UF_USERINFO \<in> field_set u \<longrightarrow> field_off u UF_USERINFO + field_len u UF_USERINFO \<le> p) \<and>
     url_port u = 0 \<and> (s = s_http_host_port \<longrightarrow> UF_PORT \<in> field_set u) \<and> (s = s_http_userinfo \<longrightarrow> UF_USERINFO \<in> field_set u)"

text \<open>Where a state of the host comes from.\<close>

lemma host_char_from:
  "http_parse_host_char s ch = s_http_host \<Longrightarrow> s \<in> {s_http_host_start, s_http_host}"
  "http_parse_host_char s ch = s_http_host_v6 \<Longrightarrow> s \<in> {s_http_host_v6_start, s_http_host_v6}"
  "http_parse_host_char s ch = s_http_host_start \<Longrightarrow> s \<in> {s_http_userinfo_start, s_http_userinfo}"
  "http_parse_host_char s ch = s_http_host_v6_start \<Longrightarrow> s = s_http_host_start"
  "http_parse_host_char s ch = s_http_userinfo \<Longrightarrow> s \<in> {s_http_userinfo_start, s_http_userinfo}"
  "http_parse_host_char s ch \<noteq> s_http_userinfo_start"
  by (cases s; simp add: http_parse_host_char_def Let_def split: if_splits)+

text \<open>A part grows by the byte at \<open>p\<close>, or begins there.\<close>

lemma host_inv_stays:
  "host_inv n s p u \<Longrightarrow> t \<notin> {s_http_userinfo_start, s_http_userinfo, s_http_host_start, s_http_host_v6_start, s_http_host_port} \<Longrightarrow>
   host_inv n t (p + 1) u"
  unfolding host_inv_def by (simp add: le_SucI)

lemma host_inv_no_host:
  "host_inv n s p u \<Longrightarrow> s \<in> {s_http_userinfo_start, s_http_userinfo, s_http_host_start, s_http_host_v6_start} \<Longrightarrow>
   t \<in> {s_http_host_start, s_http_host_v6_start} \<Longrightarrow> host_inv n t (p + 1) u"
  unfolding host_inv_def by (elim insertE) (simp_all add: le_SucI)

lemma host_inv_longer_host:
  "host_inv n s p u \<Longrightarrow> p < 2 ^ 16 - 1 \<Longrightarrow> t \<in> {s_http_host, s_http_host_v6} \<Longrightarrow> host_inv n t (p + 1) (longer_field UF_HOST u)"
  by (auto simp: host_inv_def longer_field_def u16_def)

lemma host_inv_begin_host:
  "host_inv n s p u \<Longrightarrow> p < 2 ^ 16 - 1 \<Longrightarrow> field_len u UF_HOST = 0 \<Longrightarrow> t \<in> {s_http_host, s_http_host_v6} \<Longrightarrow>
   host_inv n t (p + 1) (longer_field UF_HOST (u\<lparr>field_off := (field_off u)(UF_HOST := u16 p)\<rparr>))"
  by (auto simp: host_inv_def longer_field_def u16_def)

lemma host_inv_longer_port:
  "host_inv n s_http_host_port p u \<Longrightarrow> p < 2 ^ 16 - 1 \<Longrightarrow> host_inv n s_http_host_port (p + 1) (longer_field UF_PORT u)"
  by (auto simp: host_inv_def longer_field_def u16_def)

lemma host_inv_begin_port:
  "host_inv n s p u \<Longrightarrow> p < 2 ^ 16 - 1 \<Longrightarrow>
   host_inv n s_http_host_port (p + 1) (longer_field UF_PORT (add_field UF_PORT (begin_field UF_PORT p 0 u)))"
  by (auto simp: host_inv_def field_defs u16_def)

lemma host_inv_longer_userinfo:
  "host_inv n s_http_userinfo p u \<Longrightarrow> p < 2 ^ 16 - 1 \<Longrightarrow> host_inv n s_http_userinfo (p + 1) (longer_field UF_USERINFO u)"
  by (auto simp: host_inv_def longer_field_def u16_def)

lemma host_inv_begin_userinfo:
  "host_inv n s_http_userinfo_start p u \<Longrightarrow> p < 2 ^ 16 - 1 \<Longrightarrow>
   host_inv n s_http_userinfo (p + 1) (longer_field UF_USERINFO (add_field UF_USERINFO (begin_field UF_USERINFO p 0 u)))"
  by (auto simp: host_inv_def field_defs u16_def)

lemma host_byte_inv:
  assumes inv: "host_inv n s p u" and t: "http_parse_host_char s ch = t" and p: "p < 2 ^ 16 - 1"
  shows "host_inv n t (p + 1) (host_byte s t p u)"
proof (cases t)
  case s_http_host
  then have "s = s_http_host_start \<or> s = s_http_host" using host_char_from(1) [of s ch] t by auto
  moreover have "s = s_http_host_start \<Longrightarrow> field_len u UF_HOST = 0" using inv by (simp add: host_inv_def)
  ultimately show ?thesis using host_inv_longer_host [OF inv p, of t] host_inv_begin_host [OF inv p, of t] s_http_host
    by (elim disjE) (simp_all add: host_byte_def)
next
  case s_http_host_v6
  then have "s = s_http_host_v6_start \<or> s = s_http_host_v6" using host_char_from(2) [of s ch] t by auto
  moreover have "s = s_http_host_v6_start \<Longrightarrow> field_len u UF_HOST = 0" using inv by (simp add: host_inv_def)
  ultimately show ?thesis using host_inv_longer_host [OF inv p, of t] host_inv_begin_host [OF inv p, of t] s_http_host_v6
    by (elim disjE) (simp_all add: host_byte_def)
next
  case s_http_host_port
  then show ?thesis using inv host_inv_longer_port [of n p u] host_inv_begin_port [OF inv p] p
    by (cases "s = s_http_host_port") (simp_all add: host_byte_def)
next
  case s_http_userinfo
  then have "s = s_http_userinfo_start \<or> s = s_http_userinfo" using host_char_from(5) [of s ch] t by auto
  with s_http_userinfo inv p host_inv_longer_userinfo [of n p u] host_inv_begin_userinfo [of n p u] show ?thesis
    by (elim disjE) (simp_all add: host_byte_def)
next
  case s_http_host_start
  then have "s \<in> {s_http_userinfo_start, s_http_userinfo}" using host_char_from(3) [of s ch] t by auto
  with s_http_host_start host_inv_no_host [OF inv, of t] show ?thesis by (auto simp: host_byte_def)
next
  case s_http_host_v6_start
  then have "s = s_http_host_start" using host_char_from(4) [of s ch] t by auto
  with s_http_host_v6_start host_inv_no_host [OF inv, of t] show ?thesis by (simp add: host_byte_def)
next
  case s_http_userinfo_start
  with t host_char_from(6) [of s ch] show ?thesis by simp
qed (use host_inv_stays [OF inv, of t] in \<open>simp_all add: host_byte_def\<close>)

lemma host_loop_inv:
  "host_inv n s p u \<Longrightarrow> p + length cs < 2 ^ 16 \<Longrightarrow> host_loop s p cs u = Some (s', u') \<Longrightarrow> host_inv n s' (p + length cs) u'"
proof (induction s p cs u rule: host_loop.induct)
  case (2 s p ch cs u)
  let ?t = "http_parse_host_char s ch"
  have alive: "?t \<noteq> s_http_host_dead" and rest: "host_loop ?t (p + 1) cs (host_byte s ?t p u) = Some (s', u')"
    using "2.prems"(3) by (auto simp: Let_def split: if_splits)
  have "host_inv n ?t (p + 1) (host_byte s ?t p u)" by (rule host_byte_inv [OF "2.prems"(1) refl]) (use "2.prems"(2) in simp)
  from "2.IH" [OF refl alive this _ rest] "2.prems"(2) show ?case by simp
qed simp

lemma http_parse_host_inside:
  assumes "inside n u" "UF_PORT \<notin> field_set u" "UF_USERINFO \<notin> field_set u" "url_port u = 0"
    and h: "field_off u UF_HOST + field_len u UF_HOST \<le> n" and n: "n \<le> length buf" "n < 2 ^ 16"
  shows "\<exists>x. http_parse_host buf u found = Some x \<and> (case x of None \<Rightarrow> True | Some u' \<Rightarrow> inside n u' \<and> url_port u' = 0)"
proof -
  let ?off = "field_off u UF_HOST" and ?len = "field_len u UF_HOST" and ?u = "u\<lparr>field_len := (field_len u)(UF_HOST := 0)\<rparr>"
  let ?s = "if found then s_http_userinfo_start else s_http_host_start"
  have cut: "length (take ?len (drop ?off buf)) = ?len" using h n(1) by simp
  have "host_inv n ?s ?off ?u" using assms(1-4) by (auto simp: host_inv_def inside_def)
  then have inv: "host_inv n s' (?off + ?len) u'" if "host_loop ?s ?off (take ?len (drop ?off buf)) ?u = Some (s', u')" for s' u'
    using host_loop_inv [OF _ _ that, of n] cut h n(2) by simp
  have "inside n u'" if "host_inv n s' (?off + ?len) u'" for s' u'
    unfolding inside_def
  proof
    fix f
    assume "f \<in> field_set u'"
    then show "field_off u' f + field_len u' f \<le> n" using that h unfolding host_inv_def by (cases f) auto
  qed
  moreover have "url_port u' = 0" if "host_inv n s' (?off + ?len) u'" for s' u' using that by (simp add: host_inv_def)
  ultimately show ?thesis using inv h n(1) by (auto simp: http_parse_host_def Let_def split: option.split)
qed

section \<open>The URL\<close>

definition url_inv :: "nat \<Rightarrow> http_parser_url_fields option \<Rightarrow> nat \<Rightarrow> http_parser_url \<Rightarrow> bool" where
  "url_inv n old p u \<longleftrightarrow> inside p u \<and> UF_PORT \<notin> field_set u \<and> UF_USERINFO \<notin> field_set u \<and> url_port u = 0 \<and>
     field_off u UF_HOST + field_len u UF_HOST \<le> n \<and>
     (case old of None \<Rightarrow> True | Some f \<Rightarrow> f \<in> field_set u)"

lemma url_part_not: "url_part s \<noteq> Part UF_PORT" "url_part s \<noteq> Part UF_USERINFO"
  by (cases s; simp add: url_part_def)+

lemma url_state_part: "url_state s \<Longrightarrow> url_part s \<noteq> Unexpected"
  by (cases s) (simp_all add: url_part_def url_state_def)

lemma url_loop_inv:
  "url_inv n old p u \<Longrightarrow> p + length cs \<le> n \<Longrightarrow> n < 2 ^ 16 \<Longrightarrow>
   \<exists>x. url_loop s found old p cs u = Some x \<and>
     (case x of None \<Rightarrow> True | Some (found', u') \<Rightarrow> \<exists>old'. url_inv n old' (p + length cs) u')"
proof (induction s found old p cs u rule: url_loop.induct)
  case (1 s found old p u)
  then show ?case by auto
next
  case (2 s found old p ch cs u)
  let ?s = "parse_url_char s ch"
  have next_p: "p + length (ch # cs) = p + 1 + length cs" by simp
  show ?case
  proof (cases "?s = s_dead")
    case True
    then show ?thesis by (simp add: Let_def)
  next
    case alive: False
    then have part: "url_part ?s \<noteq> Unexpected" using url_result [of s ch] url_state_part by blast
    have small: "p < 2 ^ 16 - 1" "p < n" using "2.prems"(2,3) by simp_all
    have step: "u16 1 = 1" "u16 p = p" using small by (simp_all add: u16_def)
    show ?thesis
    proof (cases "url_part ?s")
      case Delimiter
      have "url_inv n old (p + 1) u" using "2.prems"(1) inside_mono [of p u "p + 1"] by (simp add: url_inv_def)
      from "2.IH"(1) [OF refl refl alive Delimiter this, folded next_p] Delimiter alive "2.prems"(2,3) show ?thesis by (simp add: Let_def)
    next
      case (Part f)
      have f: "f \<noteq> UF_PORT" "f \<noteq> UF_USERINFO" using Part url_part_not by metis+
      show ?thesis
      proof (cases "old = Some f")
        case True
        then have mem: "f \<in> field_set u" "field_off u f + field_len u f \<le> p" using "2.prems"(1) by (auto simp: url_inv_def inside_def)
        then have "u16 (field_len u f + 1) = field_len u f + 1" using small by (simp add: u16_def)
        then have "url_inv n old (p + 1) (longer_field f u)"
          using "2.prems"(1) True mem small inside_longer [of p u f] by (auto simp: url_inv_def longer_field_def)
        from "2.IH"(2) [OF refl refl alive Part True this, folded next_p] True Part alive "2.prems"(2,3) show ?thesis by (simp add: Let_def)
      next
        case False
        have "url_inv n (Some f) (p + 1) (add_field f (begin_field f p 1 u))"
          using "2.prems"(1) f small step inside_begin [of p u 1 f] by (auto simp: url_inv_def begin_field_def add_field_def)
        from "2.IH"(3) [OF refl refl alive Part False this, folded next_p] False Part alive "2.prems"(2,3) show ?thesis by (simp add: Let_def)
      qed
    qed (use part in simp)
  qed
qed

lemma port_value_stops: "i < length s \<Longrightarrow> \<not> isdigit (s ! i) \<Longrightarrow> port_value s \<noteq> None"
  by (auto simp: port_value_def dropWhile_eq_Nil_conv)

text \<open>Parsing a URL of less than 65536 bytes that is followed by a byte other than a digit reads nothing outside its memory and meets no
unexpected state; when it answers 0, every part it reports lies inside the URL, and the port is that of 16 bits.  The
caller has to set the offset and length of the host, which are read for a URL with a scheme and without one.\<close>

theorem url_parts_inside:
  assumes "buflen < length buf" "buflen < 2 ^ 16" "\<not> isdigit (buf ! buflen)"
    and "field_off u UF_HOST + field_len u UF_HOST \<le> buflen"
  shows "\<exists>ret x. http_parser_parse_url buf buflen is_connect u = Some (ret, x) \<and>
    (case x of
       None \<Rightarrow> ret = 1
     | Some u' \<Rightarrow> ret = 0 \<and> url_port u' < 2 ^ 16 \<and> (\<forall>f \<in> field_set u'. field_off u' f + field_len u' f \<le> buflen))"
proof -
  let ?u = "u\<lparr>url_port := 0, field_set := {}\<rparr>" and ?s = "if is_connect then s_req_server_start else s_req_spaces_before_url"
  have "url_inv buflen None 0 ?u" using assms(4) by (simp add: url_inv_def inside_def)
  moreover have n: "0 + length (take buflen buf) = buflen" using assms(1) by simp
  ultimately obtain x where x: "url_loop ?s False None 0 (take buflen buf) ?u = Some x"
    "case x of None \<Rightarrow> True | Some (found', u') \<Rightarrow> \<exists>old'. url_inv buflen old' buflen u'"
    using url_loop_inv [of buflen None 0 ?u "take buflen buf" ?s False] assms(2) unfolding n by auto
  show ?thesis
  proof (cases x)
    case None
    with x(1) show ?thesis by (simp add: http_parser_parse_url_def)
  next
    case (Some fu)
    then obtain found u1 old where u1: "x = Some (found, u1)" "url_inv buflen old buflen u1" using x(2) by (cases fu) auto
    then have "\<exists>h. (if UF_SCHEMA \<in> field_set u1 \<or> UF_HOST \<in> field_set u1 then http_parse_host buf u1 found else Some (Some u1)) = Some h \<and>
        (case h of None \<Rightarrow> True | Some u2 \<Rightarrow> inside buflen u2 \<and> url_port u2 = 0)"
      using http_parse_host_inside [of buflen u1 buf found] assms(1,2) by (auto simp: url_inv_def)
    then obtain h where h: "(if UF_SCHEMA \<in> field_set u1 \<or> UF_HOST \<in> field_set u1 then http_parse_host buf u1 found else Some (Some u1)) = Some h"
      "case h of None \<Rightarrow> True | Some u2 \<Rightarrow> inside buflen u2 \<and> url_port u2 = 0" by blast
    show ?thesis
    proof (cases h)
      case None
      with x(1) u1(1) h(1) show ?thesis by (simp add: http_parser_parse_url_def)
    next
      case (Some u2)
      then have ins: "inside buflen u2" "url_port u2 = 0" using h(2) by simp_all
      have "port_value (drop (field_off u2 UF_PORT) buf) \<noteq> None" if "UF_PORT \<in> field_set u2"
      proof -
        have "field_off u2 UF_PORT \<le> buflen" using ins(1) that by (auto simp: inside_def)
        with assms(1,3) show ?thesis by (intro port_value_stops [of "buflen - field_off u2 UF_PORT"]) simp_all
      qed
      moreover have "inside buflen (u2\<lparr>url_port := v\<rparr>)" for v using ins(1) by (simp add: inside_def)
      ultimately show ?thesis using x(1) u1(1) h(1) Some ins by (auto simp: http_parser_parse_url_def inside_def)
    qed
  qed
qed

definition no_url :: http_parser_url where
  "no_url = \<lparr>field_set = {}, url_port = 0, field_off = (\<lambda>_. 0), field_len = (\<lambda>_. 0)\<rparr>"

definition host_and_port :: "http_parser_url \<Rightarrow> nat \<times> nat \<times> nat" where
  "host_and_port u = (field_off u UF_HOST, field_len u UF_HOST, url_port u)"

lemma classes_of_a_url:
  "IS_NUM CHR ''0''" "IS_NUM CHR ''8''" "IS_ALPHA CHR ''h''" "IS_ALPHA CHR ''t''" "IS_ALPHA CHR ''p''" "\<not> IS_ALPHA CHR '':''"
  "IS_HOST_CHAR CHR ''h''" "\<not> IS_HOST_CHAR CHR '':''" "IS_URL_CHAR CHR ''x''" "IS_USERINFO_CHAR CHR ''h''"
  "IS_USERINFO_CHAR CHR '':''" "IS_USERINFO_CHAR CHR ''8''" "IS_USERINFO_CHAR CHR ''0''" "undec ''80'' = 80"
  by code_simp+

lemmas url_eval = http_parser_parse_url_def parse_url_char_def url_part_def http_parse_host_def http_parse_host_char_def
  host_byte_def field_defs port_value_def host_and_port_def no_url_def u16_def isdigit_def Let_def classes_of_a_url

text \<open>A whole URL, and the byte behind it.\<close>

lemma url_with_port:
  "map_option (\<lambda>(ret, x). (ret, map_option host_and_port x)) (http_parser_parse_url (''http://h:80/x'' @ [NUL]) 13 False no_url) =
     Some (0, Some (7, 1, 80))"
  by (simp add: url_eval)

text \<open>The port is read on over the end of the URL: here it is \<open>http://h:8\<close>.\<close>

lemma port_read_behind_url:
  "map_option (\<lambda>(ret, x). (ret, map_option host_and_port x)) (http_parser_parse_url (''http://h:80/x'' @ [NUL]) 10 False no_url) =
     Some (0, Some (7, 1, 80))"
  by (simp add: url_eval)

text \<open>
  A URL with a scheme and no host: the answer depends on what the caller's structure held as offset and length of the
  host, which may also lie outside the memory.
\<close>

lemma url_without_host:
  "map_option fst (http_parser_parse_url (''http:///x'' @ [NUL]) 9 False no_url) = Some 1"
  "map_option fst (http_parser_parse_url (''http:///x'' @ [NUL]) 9 False (no_url\<lparr>field_len := \<lambda>_. 1\<rparr>)) = Some 0"
  "http_parser_parse_url (''http:///x'' @ [NUL]) 9 False (no_url\<lparr>field_off := \<lambda>_. 20\<rparr>) = None"
  by (simp_all add: url_eval)

end
