(* ===== verification/Net_Connection.thy ===== *)
theory Net_Connection
  imports Net_Buffer
begin

text \<open>
  \<open>muduo/net/TcpConnection.cc\<close> and the dispatch of events in \<open>Channel.cc\<close>: one connection, driven by its event
  loop.

  The loop is a queue of tasks and a list of timers; \<open>in_loop\<close> says whether an operation is called in the thread
  of the loop, where \<open>runInLoop\<close> runs it at once.  The socket is the bytes it has taken and whether its writing
  side is shut down.  \<open>calls\<close> are the callbacks that were called; they do not call back.  The result of \<open>write\<close> and
  the function \<open>readv\<close> are arguments.  \<open>None\<close> is a failed assertion.
\<close>

datatype StateE = kDisconnected | kConnecting | kConnected | kDisconnecting

datatype loop_task =
    Run_sendInLoop string | Run_shutdownInLoop | Run_forceCloseInLoop | Run_startReadInLoop | Run_stopReadInLoop
  | Run_writeCompleteCallback | Run_highWaterMarkCallback nat

datatype tcp_call =
    ConnectionCallback bool | MessageCallback string | CloseCallback | WriteCompleteCallback | HighWaterMarkCallback nat

record TcpConnection =
  c_state :: StateE
  reading :: bool
  ch_reading :: bool
  ch_writing :: bool
  ch_added :: bool
  highWaterMark :: nat
  has_writeComplete :: bool
  has_highWaterMark :: bool
  inputBuffer :: Buffer
  outputBuffer :: Buffer
  loop_queue :: "loop_task list"
  timers :: nat
  taken :: string
  write_closed :: bool
  calls :: "tcp_call list"

datatype write_result = Wrote nat | Would_block | Peer_gone | Other_error

definition new_TcpConnection :: "bool \<Rightarrow> bool \<Rightarrow> TcpConnection" where
  "new_TcpConnection writeComplete highWater =
     \<lparr>c_state = kConnecting, reading = True, ch_reading = False, ch_writing = False, ch_added = False,
      highWaterMark = 64 * 1024 * 1024, has_writeComplete = writeComplete, has_highWaterMark = highWater,
      inputBuffer = new_Buffer kInitialSize, outputBuffer = new_Buffer kInitialSize, loop_queue = [], timers = 0,
      taken = [], write_closed = False, calls = []\<rparr>"

definition stateToString :: "StateE \<Rightarrow> string" where
  "stateToString s = (case s of
      kDisconnected \<Rightarrow> ''kDisconnected'' | kConnecting \<Rightarrow> ''kConnecting'' | kConnected \<Rightarrow> ''kConnected''
    | kDisconnecting \<Rightarrow> ''kDisconnecting'')"

section \<open>The channel\<close>

definition enableReading :: "TcpConnection \<Rightarrow> TcpConnection" where
  "enableReading c = c\<lparr>ch_reading := True, ch_added := True\<rparr>"

definition disableReading :: "TcpConnection \<Rightarrow> TcpConnection" where
  "disableReading c = c\<lparr>ch_reading := False, ch_added := True\<rparr>"

definition enableWriting :: "TcpConnection \<Rightarrow> TcpConnection" where
  "enableWriting c = c\<lparr>ch_writing := True, ch_added := True\<rparr>"

definition disableWriting :: "TcpConnection \<Rightarrow> TcpConnection" where
  "disableWriting c = c\<lparr>ch_writing := False, ch_added := True\<rparr>"

definition disableAll :: "TcpConnection \<Rightarrow> TcpConnection" where
  "disableAll c = c\<lparr>ch_reading := False, ch_writing := False, ch_added := True\<rparr>"

definition channel_remove :: "TcpConnection \<Rightarrow> TcpConnection option" where
  "channel_remove c = (if ch_reading c \<or> ch_writing c then None else Some (c\<lparr>ch_added := False\<rparr>))"

section \<open>Sending\<close>

definition queueInLoop :: "loop_task \<Rightarrow> TcpConnection \<Rightarrow> TcpConnection" where
  "queueInLoop t c = c\<lparr>loop_queue := loop_queue c @ [t]\<rparr>"

definition notify :: "tcp_call \<Rightarrow> TcpConnection \<Rightarrow> TcpConnection" where
  "notify f c = c\<lparr>calls := calls c @ [f]\<rparr>"

text \<open>Nothing waits in the output buffer: the data are written directly.\<close>

definition writes_directly :: "TcpConnection \<Rightarrow> bool" where
  "writes_directly c \<longleftrightarrow> \<not> ch_writing c \<and> readableBytes (outputBuffer c) = 0"

definition sendInLoop :: "string \<Rightarrow> write_result \<Rightarrow> TcpConnection \<Rightarrow> TcpConnection option" where
  "sendInLoop data res c =
     (if c_state c = kDisconnected then Some c
      else
        let direct = writes_directly c;
            nwrote = (case res of Wrote n \<Rightarrow> if direct then n else 0 | _ \<Rightarrow> 0);
            remaining = length data - nwrote;
            complete = (case res of Wrote n \<Rightarrow> direct \<and> remaining = 0 \<and> has_writeComplete c | _ \<Rightarrow> False);
            faultError = (direct \<and> res = Peer_gone);
            c1 = c\<lparr>taken := taken c @ take nwrote data\<rparr>;
            c2 = (if complete then queueInLoop Run_writeCompleteCallback c1 else c1)
        in if length data < nwrote then None
           else if \<not> faultError \<and> 0 < remaining then do {
             let oldLen = readableBytes (outputBuffer c2);
             let c3 = (if highWaterMark c2 \<le> oldLen + remaining \<and> oldLen < highWaterMark c2 \<and> has_highWaterMark c2
                       then queueInLoop (Run_highWaterMarkCallback (oldLen + remaining)) c2 else c2);
             b \<leftarrow> buffer_append (drop nwrote data) (outputBuffer c3);
             let c4 = c3\<lparr>outputBuffer := b\<rparr>;
             Some (if \<not> ch_writing c4 then enableWriting c4 else c4)
           }
           else Some c2)"

definition tcp_send :: "string \<Rightarrow> bool \<Rightarrow> write_result \<Rightarrow> TcpConnection \<Rightarrow> TcpConnection option" where
  "tcp_send message in_loop res c =
     (if c_state c = kConnected
      then (if in_loop then sendInLoop message res c else Some (queueInLoop (Run_sendInLoop message) c))
      else Some c)"

text \<open>Sending a buffer empties it.\<close>

definition send_Buffer :: "Buffer \<Rightarrow> bool \<Rightarrow> write_result \<Rightarrow> TcpConnection \<Rightarrow> (TcpConnection \<times> Buffer) option" where
  "send_Buffer buf in_loop res c =
     (if c_state c = kConnected
      then (if in_loop then do { c1 \<leftarrow> sendInLoop (toStringPiece buf) res c; Some (c1, retrieveAll buf) }
            else do { (message, buf1) \<leftarrow> retrieveAllAsString buf; Some (queueInLoop (Run_sendInLoop message) c, buf1) })
      else Some (c, buf))"

section \<open>Closing\<close>

definition shutdownInLoop :: "TcpConnection \<Rightarrow> TcpConnection" where
  "shutdownInLoop c = (if \<not> ch_writing c then c\<lparr>write_closed := True\<rparr> else c)"

definition shutdown :: "bool \<Rightarrow> TcpConnection \<Rightarrow> TcpConnection" where
  "shutdown in_loop c =
     (if c_state c = kConnected
      then let c1 = c\<lparr>c_state := kDisconnecting\<rparr>
        in if in_loop then shutdownInLoop c1 else queueInLoop Run_shutdownInLoop c1
      else c)"

definition handleClose :: "TcpConnection \<Rightarrow> TcpConnection option" where
  "handleClose c =
     (if c_state c = kConnected \<or> c_state c = kDisconnecting
      then Some (notify CloseCallback (notify (ConnectionCallback False) (disableAll (c\<lparr>c_state := kDisconnected\<rparr>))))
      else None)"

definition forceClose :: "TcpConnection \<Rightarrow> TcpConnection" where
  "forceClose c =
     (if c_state c = kConnected \<or> c_state c = kDisconnecting
      then queueInLoop Run_forceCloseInLoop (c\<lparr>c_state := kDisconnecting\<rparr>) else c)"

definition forceCloseWithDelay :: "TcpConnection \<Rightarrow> TcpConnection" where
  "forceCloseWithDelay c =
     (if c_state c = kConnected \<or> c_state c = kDisconnecting
      then c\<lparr>c_state := kDisconnecting, timers := timers c + 1\<rparr> else c)"

definition forceCloseInLoop :: "TcpConnection \<Rightarrow> TcpConnection option" where
  "forceCloseInLoop c = (if c_state c = kConnected \<or> c_state c = kDisconnecting then handleClose c else Some c)"

section \<open>Reading on and off, and the life of a connection\<close>

definition startReadInLoop :: "TcpConnection \<Rightarrow> TcpConnection" where
  "startReadInLoop c = (if \<not> reading c \<or> \<not> ch_reading c then (enableReading c)\<lparr>reading := True\<rparr> else c)"

definition stopReadInLoop :: "TcpConnection \<Rightarrow> TcpConnection" where
  "stopReadInLoop c = (if reading c \<or> ch_reading c then (disableReading c)\<lparr>reading := False\<rparr> else c)"

definition startRead :: "bool \<Rightarrow> TcpConnection \<Rightarrow> TcpConnection" where
  "startRead in_loop c = (if in_loop then startReadInLoop c else queueInLoop Run_startReadInLoop c)"

definition stopRead :: "bool \<Rightarrow> TcpConnection \<Rightarrow> TcpConnection" where
  "stopRead in_loop c = (if in_loop then stopReadInLoop c else queueInLoop Run_stopReadInLoop c)"

definition connectEstablished :: "TcpConnection \<Rightarrow> TcpConnection option" where
  "connectEstablished c =
     (if c_state c = kConnecting
      then Some (notify (ConnectionCallback True) (enableReading (c\<lparr>c_state := kConnected\<rparr>))) else None)"

definition connectDestroyed :: "TcpConnection \<Rightarrow> TcpConnection option" where
  "connectDestroyed c =
     channel_remove
       (if c_state c = kConnected
        then notify (ConnectionCallback False) (disableAll (c\<lparr>c_state := kDisconnected\<rparr>)) else c)"

section \<open>Events\<close>

definition handleRead :: "(nat \<Rightarrow> string option) \<Rightarrow> TcpConnection \<Rightarrow> TcpConnection option" where
  "handleRead readv c =
     do {
       (n, b) \<leftarrow> readFd readv (inputBuffer c);
       let c1 = c\<lparr>inputBuffer := b\<rparr>;
       if 0 < n then Some (notify (MessageCallback (toStringPiece b)) c1)
       else if n = 0 then handleClose c1
       else Some c1
     }"

definition handleWrite :: "write_result \<Rightarrow> TcpConnection \<Rightarrow> TcpConnection option" where
  "handleWrite res c =
     (if ch_writing c then
        (case res of
           Wrote n \<Rightarrow>
             if 0 < n then do {
               b \<leftarrow> retrieve n (outputBuffer c);
               let c1 = c\<lparr>outputBuffer := b, taken := taken c @ take n (toStringPiece (outputBuffer c))\<rparr>;
               if readableBytes b = 0 then
                 let c2 = disableWriting c1;
                     c3 = (if has_writeComplete c2 then queueInLoop Run_writeCompleteCallback c2 else c2)
                 in Some (if c_state c3 = kDisconnecting then shutdownInLoop c3 else c3)
               else Some c1
             }
             else Some c
         | _ \<Rightarrow> Some c)
      else Some c)"

text \<open>The events that \<open>poll\<close> reports; errors are logged.\<close>

record revents =
  POLLHUP :: bool
  POLLIN :: bool
  POLLPRI :: bool
  POLLRDHUP :: bool
  POLLOUT :: bool

definition handleEventWithGuard :: "revents \<Rightarrow> (nat \<Rightarrow> string option) \<Rightarrow> write_result \<Rightarrow> TcpConnection \<Rightarrow> TcpConnection option" where
  "handleEventWithGuard ev readv res c =
     do {
       c1 \<leftarrow> (if POLLHUP ev \<and> \<not> POLLIN ev then handleClose c else Some c);
       c2 \<leftarrow> (if POLLIN ev \<or> POLLPRI ev \<or> POLLRDHUP ev then handleRead readv c1 else Some c1);
       if POLLOUT ev then handleWrite res c2 else Some c2
     }"

text \<open>The first task of the loop, and a timer that runs out.\<close>

fun run_loop_task :: "loop_task \<Rightarrow> write_result \<Rightarrow> TcpConnection \<Rightarrow> TcpConnection option" where
  "run_loop_task (Run_sendInLoop message) res c = sendInLoop message res c"
| "run_loop_task Run_shutdownInLoop res c = Some (shutdownInLoop c)"
| "run_loop_task Run_forceCloseInLoop res c = forceCloseInLoop c"
| "run_loop_task Run_startReadInLoop res c = Some (startReadInLoop c)"
| "run_loop_task Run_stopReadInLoop res c = Some (stopReadInLoop c)"
| "run_loop_task Run_writeCompleteCallback res c = Some (notify WriteCompleteCallback c)"
| "run_loop_task (Run_highWaterMarkCallback n) res c = Some (notify (HighWaterMarkCallback n) c)"

definition run_queue :: "write_result \<Rightarrow> TcpConnection \<Rightarrow> TcpConnection option" where
  "run_queue res c = (case loop_queue c of [] \<Rightarrow> Some c | t # ts \<Rightarrow> run_loop_task t res (c\<lparr>loop_queue := ts\<rparr>))"

definition run_timer :: "TcpConnection \<Rightarrow> TcpConnection" where
  "run_timer c = (if 0 < timers c then forceClose (c\<lparr>timers := timers c - 1\<rparr>) else c)"

section \<open>A connection in use\<close>

datatype tcp_op =
    Op_send string bool write_result | Op_shutdown bool | Op_forceClose | Op_forceCloseWithDelay
  | Op_startRead bool | Op_stopRead bool | Op_event revents "nat \<Rightarrow> string option" write_result | Op_task write_result | Op_timer

fun tcp_step :: "tcp_op \<Rightarrow> TcpConnection \<Rightarrow> TcpConnection option" where
  "tcp_step (Op_send message in_loop res) c = tcp_send message in_loop res c"
| "tcp_step (Op_shutdown in_loop) c = Some (shutdown in_loop c)"
| "tcp_step Op_forceClose c = Some (forceClose c)"
| "tcp_step Op_forceCloseWithDelay c = Some (forceCloseWithDelay c)"
| "tcp_step (Op_startRead in_loop) c = Some (startRead in_loop c)"
| "tcp_step (Op_stopRead in_loop) c = Some (stopRead in_loop c)"
| "tcp_step (Op_event ev readv res) c = handleEventWithGuard ev readv res c"
| "tcp_step (Op_task res) c = run_queue res c"
| "tcp_step Op_timer c = Some (run_timer c)"

text \<open>
  What the kernel promises: \<open>write\<close> takes no more than it is given, and after the writing side is shut down it
  takes nothing and says so; events are reported only for a channel that is registered for some, the readiness for
  reading or writing only when it asked for it, and a hang-up without data not together with urgent data.  And the program does not switch reading on again after closing.
\<close>

definition kernel_write_ok :: "nat \<Rightarrow> write_result \<Rightarrow> TcpConnection \<Rightarrow> bool" where
  "kernel_write_ok len res c \<longleftrightarrow> (case res of Wrote n \<Rightarrow> n \<le> len | _ \<Rightarrow> True) \<and> (write_closed c \<longrightarrow> res = Peer_gone)"

definition pending_data :: "TcpConnection \<Rightarrow> string" where "pending_data c = toStringPiece (outputBuffer c)"

definition event_ok :: "revents \<Rightarrow> (nat \<Rightarrow> string option) \<Rightarrow> write_result \<Rightarrow> TcpConnection \<Rightarrow> bool" where
  "event_ok ev readv res c \<longleftrightarrow>
     (ch_reading c \<or> ch_writing c) \<and> (POLLOUT ev \<longrightarrow> ch_writing c) \<and>
     (POLLIN ev \<or> POLLPRI ev \<or> POLLRDHUP ev \<longrightarrow> ch_reading c) \<and>
     (POLLHUP ev \<and> \<not> POLLIN ev \<longrightarrow> \<not> POLLPRI ev \<and> \<not> POLLRDHUP ev) \<and>
     kernel_write_ok (length (pending_data c)) res c"

definition task_data :: "loop_task \<Rightarrow> string" where
  "task_data t = (case t of Run_sendInLoop message \<Rightarrow> message | _ \<Rightarrow> [])"

fun op_ok :: "tcp_op \<Rightarrow> TcpConnection \<Rightarrow> bool" where
  "op_ok (Op_send message in_loop res) c \<longleftrightarrow> kernel_write_ok (length message) res c"
| "op_ok (Op_event ev readv res) c \<longleftrightarrow> event_ok ev readv res c"
| "op_ok (Op_task res) c \<longleftrightarrow> (case loop_queue c of [] \<Rightarrow> True | t # ts \<Rightarrow>
     kernel_write_ok (length (task_data t)) res c \<and> (t = Run_startReadInLoop \<longrightarrow> c_state c \<noteq> kDisconnected))"
| "op_ok (Op_startRead in_loop) c \<longleftrightarrow> c_state c \<noteq> kDisconnected"
| "op_ok op c \<longleftrightarrow> True"

text \<open>The data that a step hands over to the connection's loop, unless it is down or its peer is gone.\<close>

definition accepted_data :: "string \<Rightarrow> write_result \<Rightarrow> TcpConnection \<Rightarrow> string" where
  "accepted_data data res c = (if c_state c = kDisconnected \<or> (writes_directly c \<and> res = Peer_gone) then [] else data)"

fun handed_over :: "tcp_op \<Rightarrow> TcpConnection \<Rightarrow> string" where
  "handed_over (Op_send message in_loop res) c = (if c_state c = kConnected \<and> in_loop then accepted_data message res c else [])"
| "handed_over (Op_task res) c = (case loop_queue c of [] \<Rightarrow> [] | t # ts \<Rightarrow> accepted_data (task_data t) res c)"
| "handed_over op c = []"

text \<open>A run: \<open>None\<close> is a failed assertion, \<open>Some None\<close> a step the kernel would not take.\<close>

fun tcp_run :: "tcp_op list \<Rightarrow> TcpConnection \<Rightarrow> string \<Rightarrow> (TcpConnection \<times> string) option option" where
  "tcp_run [] c out = Some (Some (c, out))"
| "tcp_run (op # ops) c out =
     (if op_ok op c then do { c1 \<leftarrow> tcp_step op c; tcp_run ops c1 (out @ handed_over op c) } else Some None)"

text \<open>The invariant: the channel asks for writing exactly when there is something to write, and not after closing.\<close>

definition tcp_ok :: "TcpConnection \<Rightarrow> bool" where
  "tcp_ok c \<longleftrightarrow> buffer_ok (inputBuffer c) \<and> buffer_ok (outputBuffer c) \<and> c_state c \<noteq> kConnecting \<and>
     (ch_writing c \<longleftrightarrow> pending_data c \<noteq> [] \<and> c_state c \<noteq> kDisconnected) \<and>
     (c_state c = kDisconnected \<longrightarrow> \<not> ch_reading c) \<and>
     (write_closed c \<longrightarrow> (pending_data c = [] \<or> c_state c = kDisconnected) \<and> c_state c \<noteq> kConnected) \<and>
     (Run_shutdownInLoop \<in> set (loop_queue c) \<longrightarrow> c_state c \<noteq> kConnected)"

definition all_output :: "TcpConnection \<Rightarrow> string" where "all_output c = taken c @ pending_data c"

definition keeps :: "string \<Rightarrow> TcpConnection \<Rightarrow> TcpConnection option \<Rightarrow> bool" where
  "keeps data c x \<longleftrightarrow> (\<exists>c'. x = Some c' \<and> tcp_ok c' \<and> all_output c' = all_output c @ data)"

lemmas tcp_defs = queueInLoop_def notify_def enableReading_def disableReading_def enableWriting_def disableWriting_def disableAll_def

lemma pending_length: "tcp_ok c \<Longrightarrow> readableBytes (outputBuffer c) = length (pending_data c)"
  by (simp add: tcp_ok_def pending_data_def length_contents)

text \<open>Fields that the invariant and the output do not depend on.\<close>

lemma tcp_ok_same:
  assumes "tcp_ok c" "inputBuffer c' = inputBuffer c" "outputBuffer c' = outputBuffer c" "c_state c' = c_state c"
    and "ch_writing c' = ch_writing c" "ch_reading c' \<longrightarrow> c_state c \<noteq> kDisconnected" "write_closed c' = write_closed c" "taken c' = taken c"
    and "Run_shutdownInLoop \<in> set (loop_queue c') \<longrightarrow> Run_shutdownInLoop \<in> set (loop_queue c)"
  shows "tcp_ok c'" "all_output c' = all_output c"
  using assms by (auto simp: tcp_ok_def all_output_def pending_data_def)

lemma keeps_same:
  assumes "tcp_ok c" "inputBuffer c' = inputBuffer c" "outputBuffer c' = outputBuffer c" "c_state c' = c_state c"
    and "ch_writing c' = ch_writing c" "ch_reading c' \<longrightarrow> c_state c \<noteq> kDisconnected" "write_closed c' = write_closed c" "taken c' = taken c"
    and "Run_shutdownInLoop \<in> set (loop_queue c') \<longrightarrow> Run_shutdownInLoop \<in> set (loop_queue c)"
  shows "keeps [] c (Some c')"
  using tcp_ok_same [OF assms] by (simp add: keeps_def)

lemma sendInLoop_keeps:
  assumes ok: "tcp_ok c" and res: "kernel_write_ok (length data) res c"
  shows "keeps (accepted_data data res c) c (sendInLoop data res c)"
proof (cases "c_state c = kDisconnected")
  case True
  then show ?thesis using ok by (simp add: sendInLoop_def accepted_data_def keeps_def)
next
  case up: False
  define nwrote where "nwrote = (case res of Wrote n \<Rightarrow> if writes_directly c then n else 0 | _ \<Rightarrow> 0)"
  define c2 where "c2 = (if (case res of Wrote n \<Rightarrow> writes_directly c \<and> length data - nwrote = 0 \<and> has_writeComplete c | _ \<Rightarrow> False)
    then queueInLoop Run_writeCompleteCallback (c\<lparr>taken := taken c @ take nwrote data\<rparr>) else c\<lparr>taken := taken c @ take nwrote data\<rparr>)"
  have n: "nwrote \<le> length data" using res by (auto simp: nwrote_def kernel_write_ok_def split: write_result.splits)
  have direct: "writes_directly c \<longleftrightarrow> pending_data c = []"
    using ok up pending_length [OF ok] by (auto simp: writes_directly_def tcp_ok_def)
  have c2: "inputBuffer c2 = inputBuffer c" "outputBuffer c2 = outputBuffer c" "c_state c2 = c_state c" "ch_writing c2 = ch_writing c"
    "ch_reading c2 = ch_reading c" "write_closed c2 = write_closed c" "taken c2 = taken c @ take nwrote data"
    "Run_shutdownInLoop \<in> set (loop_queue c2) \<longleftrightarrow> Run_shutdownInLoop \<in> set (loop_queue c)"
    by (simp_all add: c2_def queueInLoop_def)
  have pend: "nwrote = 0" if "pending_data c \<noteq> []" using that direct by (simp add: nwrote_def split: write_result.split)
  show ?thesis
  proof (cases "\<not> (writes_directly c \<and> res = Peer_gone) \<and> 0 < length data - nwrote")
    case True
    define c3 where "c3 = (if highWaterMark c2 \<le> readableBytes (outputBuffer c2) + (length data - nwrote) \<and>
        readableBytes (outputBuffer c2) < highWaterMark c2 \<and> has_highWaterMark c2
      then queueInLoop (Run_highWaterMarkCallback (readableBytes (outputBuffer c2) + (length data - nwrote))) c2 else c2)"
    have c3: "inputBuffer c3 = inputBuffer c" "outputBuffer c3 = outputBuffer c" "c_state c3 = c_state c" "ch_writing c3 = ch_writing c"
      "ch_reading c3 = ch_reading c" "write_closed c3 = write_closed c" "taken c3 = taken c @ take nwrote data"
      "Run_shutdownInLoop \<in> set (loop_queue c3) \<longleftrightarrow> Run_shutdownInLoop \<in> set (loop_queue c)"
      using c2 by (simp_all add: c3_def queueInLoop_def)
    obtain b where b: "buffer_append (drop nwrote data) (outputBuffer c3) = Some b" "buffer_ok b"
      "toStringPiece b = pending_data c @ drop nwrote data"
      using append_ok [of "outputBuffer c3" "drop nwrote data"] ok c3 by (auto simp: tcp_ok_def pending_data_def)
    let ?c4 = "if \<not> ch_writing (c3\<lparr>outputBuffer := b\<rparr>) then enableWriting (c3\<lparr>outputBuffer := b\<rparr>) else c3\<lparr>outputBuffer := b\<rparr>"
    have "sendInLoop data res c = Some ?c4"
      unfolding sendInLoop_def Let_def nwrote_def [symmetric] c2_def [symmetric] c3_def [symmetric]
      using up n True b(1) by (simp add: c3_def [symmetric])
    moreover have "write_closed c \<longrightarrow> False"
    proof
      assume "write_closed c"
      then have "res = Peer_gone" "pending_data c = []" using res ok up by (simp_all add: kernel_write_ok_def tcp_ok_def)
      then show False using True direct by simp
    qed
    then have "tcp_ok ?c4" using ok up b c3 True by (auto simp: tcp_ok_def pending_data_def enableWriting_def)
    moreover have "all_output ?c4 = all_output c @ data"
      using b(3) c3 pend by (cases "pending_data c = []") (simp_all add: all_output_def pending_data_def enableWriting_def)
    moreover have "accepted_data data res c = data" using True up by (auto simp: accepted_data_def)
    ultimately show ?thesis by (simp add: keeps_def)
  next
    case False
    have "sendInLoop data res c = Some c2"
      unfolding sendInLoop_def Let_def nwrote_def [symmetric] c2_def [symmetric] using up n False by auto
    moreover have "tcp_ok c2" using ok c2 by (simp add: tcp_ok_def pending_data_def)
    moreover have "all_output c2 = all_output c @ accepted_data data res c"
    proof (cases "writes_directly c \<and> res = Peer_gone")
      case True
      then have "nwrote = 0" by (simp add: nwrote_def)
      then show ?thesis using True c2 up by (simp add: all_output_def pending_data_def accepted_data_def)
    next
      case notgone: False
      with False n have "nwrote = length data" by simp
      with c2 pend notgone up show ?thesis by (cases "pending_data c = []") (auto simp: all_output_def pending_data_def accepted_data_def)
    qed
    ultimately show ?thesis by (simp add: keeps_def)
  qed
qed

lemma shutdownInLoop_keeps:
  assumes "tcp_ok c" "c_state c \<noteq> kConnected"
  shows "keeps [] c (Some (shutdownInLoop c))"
  using assms by (auto simp: keeps_def shutdownInLoop_def tcp_ok_def all_output_def pending_data_def)

lemma handleClose_keeps:
  assumes "tcp_ok c" "c_state c \<noteq> kDisconnected"
  shows "keeps [] c (handleClose c)" "\<exists>c'. handleClose c = Some c' \<and> c_state c' = kDisconnected"
  using assms by (cases "c_state c"; auto simp: handleClose_def keeps_def tcp_ok_def all_output_def pending_data_def tcp_defs)+

lemma readFd_total:
  assumes "buffer_ok b"
  shows "\<exists>n b'. readFd readv b = Some (n, b') \<and> buffer_ok b'"
proof -
  let ?o = "if writableBytes b < 65536 then writableBytes b + 65536 else writableBytes b"
  show ?thesis
  proof (cases "readv ?o")
    case None
    then show ?thesis using assms by (simp add: readFd_def Let_def)
  next
    case (Some bytes)
    have twice: "take ?o (take ?o bytes) = take ?o bytes" by simp
    have "readFd readv b = readFd (\<lambda>n. Some (take ?o bytes)) b"
      unfolding readFd_def Let_def Some option.case twice ..
    then show ?thesis using readFd_ok [OF assms, of "\<lambda>n. Some (take ?o bytes)" "take ?o bytes"] by auto
  qed
qed

lemma handleRead_keeps:
  assumes "tcp_ok c" "c_state c \<noteq> kDisconnected"
  shows "\<exists>c'. handleRead readv c = Some c' \<and> tcp_ok c' \<and> all_output c' = all_output c \<and>
    (c_state c' = c_state c \<and> ch_writing c' = ch_writing c \<and> pending_data c' = pending_data c \<and> write_closed c' = write_closed c \<or>
     c_state c' = kDisconnected)"
proof -
  obtain n b where b: "readFd readv (inputBuffer c) = Some (n, b)" "buffer_ok b"
    using readFd_total assms(1) by (metis tcp_ok_def)
  let ?c = "c\<lparr>inputBuffer := b\<rparr>"
  have ok: "tcp_ok ?c" "all_output ?c = all_output c" using assms(1) b(2) by (auto simp: tcp_ok_def all_output_def pending_data_def)
  show ?thesis
  proof (cases "n = 0")
    case True
    have "c_state ?c \<noteq> kDisconnected" using assms(2) by simp
    from handleClose_keeps [OF ok(1) this] True b(1) ok(2) show ?thesis by (auto simp: handleRead_def keeps_def)
  next
    case False
    let ?d = "notify (MessageCallback (toStringPiece b)) ?c"
    have "tcp_ok ?d" "all_output ?d = all_output ?c"
      by (rule tcp_ok_same [OF ok(1)]; use ok(1) in \<open>auto simp: notify_def tcp_ok_def\<close>)+
    moreover have "handleRead readv c = Some (if 0 < n then ?d else ?c)" using False b(1) by (simp add: handleRead_def Let_def)
    ultimately show ?thesis using ok by (cases "0 < n") (auto simp: notify_def pending_data_def)
  qed
qed

lemma handleWrite_keeps:
  assumes ok: "tcp_ok c" and res: "kernel_write_ok (length (pending_data c)) res c"
  shows "keeps [] c (handleWrite res c)"
proof (cases "\<exists>n. ch_writing c \<and> res = Wrote n \<and> 0 < n")
  case True
  then obtain n where n: "ch_writing c" "res = Wrote n" "0 < n" by blast
  then have up: "c_state c \<noteq> kDisconnected" and le: "n \<le> length (pending_data c)" and open1: "\<not> write_closed c"
    using ok res by (auto simp: tcp_ok_def kernel_write_ok_def)
  obtain b where b: "retrieve n (outputBuffer c) = Some b" "buffer_ok b" "toStringPiece b = drop n (pending_data c)"
    using retrieve_ok [of "outputBuffer c" n] ok le by (auto simp: tcp_ok_def pending_data_def)
  let ?c1 = "c\<lparr>outputBuffer := b, taken := taken c @ take n (toStringPiece (outputBuffer c))\<rparr>"
  have out: "all_output ?c1 = all_output c" using b(3) by (simp add: all_output_def pending_data_def)
  show ?thesis
  proof (cases "readableBytes b = 0")
    case empty: True
    then have e: "toStringPiece b = []" using length_contents [OF b(2)] by simp
    define c3 where "c3 = (if has_writeComplete (disableWriting ?c1) then queueInLoop Run_writeCompleteCallback (disableWriting ?c1)
      else disableWriting ?c1)"
    have c3: "tcp_ok c3" "all_output c3 = all_output c" "c_state c3 = c_state c"
      using ok b(2) e n(1) out by (auto simp: c3_def tcp_ok_def tcp_defs pending_data_def all_output_def)
    have "handleWrite res c = Some (if c_state c3 = kDisconnecting then shutdownInLoop c3 else c3)"
      using n b(1) empty by (simp add: handleWrite_def Let_def c3_def)
    with shutdownInLoop_keeps [OF c3(1)] c3 show ?thesis by (auto simp: keeps_def)
  next
    case False
    then have "toStringPiece b \<noteq> []" using length_contents [OF b(2)] by auto
    then have "tcp_ok ?c1" using ok b(2) n(1) open1 by (auto simp: tcp_ok_def pending_data_def)
    with out n b(1) False show ?thesis by (auto simp: handleWrite_def keeps_def)
  qed
next
  case False
  then have "handleWrite res c = Some c" by (auto simp: handleWrite_def split: write_result.splits)
  with ok show ?thesis by (simp add: keeps_def)
qed

lemma event_keeps:
  assumes ok: "tcp_ok c" and ev: "event_ok ev readv res c"
  shows "keeps [] c (handleEventWithGuard ev readv res c)"
proof -
  have up: "c_state c \<noteq> kDisconnected" using ok ev by (auto simp: tcp_ok_def event_ok_def)
  have down: "handleWrite res c' = Some c'" if "tcp_ok c'" "c_state c' = kDisconnected" for c'
    using that by (simp add: tcp_ok_def handleWrite_def)
  show ?thesis
  proof (cases "POLLHUP ev \<and> \<not> POLLIN ev")
    case True
    then have "\<not> POLLPRI ev" "\<not> POLLRDHUP ev" using ev by (auto simp: event_ok_def)
    moreover obtain c1 where "handleClose c = Some c1" "tcp_ok c1" "all_output c1 = all_output c" "c_state c1 = kDisconnected"
      using handleClose_keeps [OF ok up] by (auto simp: keeps_def)
    ultimately show ?thesis using True down [of c1] by (simp add: handleEventWithGuard_def keeps_def)
  next
    case False
    obtain c2 where c2: "(if POLLIN ev \<or> POLLPRI ev \<or> POLLRDHUP ev then handleRead readv c else Some c) = Some c2" "tcp_ok c2"
      "all_output c2 = all_output c"
      "pending_data c2 = pending_data c \<and> write_closed c2 = write_closed c \<or> c_state c2 = kDisconnected"
      using handleRead_keeps [OF ok up, of readv] ok by (cases "POLLIN ev \<or> POLLPRI ev \<or> POLLRDHUP ev") auto
    have "keeps [] c2 (if POLLOUT ev then handleWrite res c2 else Some c2)"
    proof (cases "c_state c2 = kDisconnected")
      case True
      with down [OF c2(2)] c2(2) show ?thesis by (simp add: keeps_def)
    next
      case False
      then have "kernel_write_ok (length (pending_data c2)) res c2" using c2(4) ev by (auto simp: event_ok_def kernel_write_ok_def)
      from handleWrite_keeps [OF c2(2) this] c2(2) show ?thesis by (simp add: keeps_def)
    qed
    moreover have "(if POLLHUP ev \<and> \<not> POLLIN ev then handleClose c else Some c) = Some c" using False by auto
    then have "handleEventWithGuard ev readv res c = (if POLLOUT ev then handleWrite res c2 else Some c2)"
      using c2(1) by (simp only: handleEventWithGuard_def bind.bind_lunit)
    ultimately show ?thesis using c2(3) by (simp add: keeps_def)
  qed
qed

lemma forceClose_keeps: "tcp_ok c \<Longrightarrow> keeps [] c (Some (forceClose c))"
  by (auto simp: keeps_def forceClose_def queueInLoop_def tcp_ok_def all_output_def pending_data_def)

lemma reading_keeps: "tcp_ok c \<Longrightarrow> c_state c \<noteq> kDisconnected \<Longrightarrow> keeps [] c (Some (startReadInLoop c))"
  "tcp_ok c \<Longrightarrow> keeps [] c (Some (stopReadInLoop c))"
  by (auto simp: keeps_def startReadInLoop_def stopReadInLoop_def tcp_defs tcp_ok_def all_output_def pending_data_def)

text \<open>Reading is not switched on again after closing.\<close>

lemma task_keeps:
  assumes ok: "tcp_ok (c\<lparr>loop_queue := ts\<rparr>)" and res: "kernel_write_ok (length (task_data t)) res c"
    and shut: "t = Run_shutdownInLoop \<longrightarrow> c_state c \<noteq> kConnected" and start: "t = Run_startReadInLoop \<longrightarrow> c_state c \<noteq> kDisconnected"
  shows "keeps (accepted_data (task_data t) res (c\<lparr>loop_queue := ts\<rparr>)) (c\<lparr>loop_queue := ts\<rparr>) (run_loop_task t res (c\<lparr>loop_queue := ts\<rparr>))"
proof -
  let ?c = "c\<lparr>loop_queue := ts\<rparr>"
  have none: "accepted_data [] res ?c = []" by (simp add: accepted_data_def)
  have notify_keeps: "keeps [] ?c (Some (notify f ?c))" for f
    by (rule keeps_same [OF ok]) (use ok in \<open>auto simp: notify_def tcp_ok_def\<close>)
  show ?thesis
  proof (cases t)
    case (Run_sendInLoop message)
    with sendInLoop_keeps [OF ok, of message res] res show ?thesis by (simp add: task_data_def kernel_write_ok_def)
  next
    case Run_shutdownInLoop
    with shutdownInLoop_keeps [OF ok] shut none show ?thesis by (simp add: task_data_def)
  next
    case Run_forceCloseInLoop
    have "keeps [] ?c (forceCloseInLoop ?c)"
      using handleClose_keeps(1) [OF ok] ok by (cases "c_state ?c") (auto simp: forceCloseInLoop_def keeps_def)
    with Run_forceCloseInLoop none show ?thesis by (simp add: task_data_def)
  next
    case Run_startReadInLoop
    with reading_keeps(1) [OF ok] start none show ?thesis by (simp add: task_data_def)
  next
    case Run_stopReadInLoop
    with reading_keeps(2) [OF ok] none show ?thesis by (simp add: task_data_def)
  qed (use notify_keeps none in \<open>simp_all add: task_data_def\<close>)
qed

lemma queued_keeps:
  assumes "tcp_ok c" "t = Run_shutdownInLoop \<longrightarrow> c_state c \<noteq> kConnected"
  shows "keeps [] c (Some (queueInLoop t c))"
  using assms by (auto simp: keeps_def queueInLoop_def tcp_ok_def all_output_def pending_data_def)

lemma tcp_step_keeps:
  assumes ok: "tcp_ok c" and op: "op_ok op c"
  shows "keeps (handed_over op c) c (tcp_step op c)"
proof (cases op)
  case (Op_send message in_loop res)
  with sendInLoop_keeps [OF ok, of message res] queued_keeps [OF ok] op ok show ?thesis
    by (auto simp: tcp_send_def keeps_def)
next
  case (Op_shutdown in_loop)
  show ?thesis
  proof (cases "c_state c = kConnected")
    case True
    let ?c = "c\<lparr>c_state := kDisconnecting\<rparr>"
    have "tcp_ok ?c" "all_output ?c = all_output c" using ok True by (auto simp: tcp_ok_def all_output_def pending_data_def)
    with shutdownInLoop_keeps [of ?c] queued_keeps [of ?c Run_shutdownInLoop] Op_shutdown True show ?thesis
      by (simp add: shutdown_def keeps_def Let_def)
  qed (use Op_shutdown ok in \<open>simp add: shutdown_def keeps_def\<close>)
next
  case Op_forceClose
  with forceClose_keeps [OF ok] show ?thesis by simp
next
  case Op_forceCloseWithDelay
  then show ?thesis using ok by (auto simp: keeps_def forceCloseWithDelay_def tcp_ok_def all_output_def pending_data_def)
next
  case (Op_startRead in_loop)
  with reading_keeps(1) [OF ok] queued_keeps [OF ok] op show ?thesis by (auto simp: startRead_def)
next
  case (Op_stopRead in_loop)
  with reading_keeps(2) [OF ok] queued_keeps [OF ok] show ?thesis by (auto simp: stopRead_def)
next
  case (Op_event ev readv res)
  with event_keeps [OF ok] op show ?thesis by simp
next
  case (Op_task res)
  show ?thesis
  proof (cases "loop_queue c")
    case Nil
    with Op_task ok show ?thesis by (simp add: run_queue_def keeps_def)
  next
    case (Cons t ts)
    let ?c = "c\<lparr>loop_queue := ts\<rparr>"
    have same: "tcp_ok ?c" "all_output ?c = all_output c"
      using ok Cons by (auto simp: tcp_ok_def all_output_def pending_data_def)
    have acc: "accepted_data (task_data t) res ?c = accepted_data (task_data t) res c" by (simp add: accepted_data_def writes_directly_def)
    have "keeps (accepted_data (task_data t) res ?c) ?c (run_loop_task t res ?c)"
      by (rule task_keeps [OF same(1)]) (use ok op Op_task Cons in \<open>auto simp: tcp_ok_def\<close>)
    with Op_task Cons acc same(2) show ?thesis by (simp add: run_queue_def keeps_def)
  qed
next
  case Op_timer
  have "tcp_ok (c\<lparr>timers := timers c - 1\<rparr>)" "all_output (c\<lparr>timers := timers c - 1\<rparr>) = all_output c"
    using ok by (auto simp: tcp_ok_def all_output_def pending_data_def)
  with forceClose_keeps [of "c\<lparr>timers := timers c - 1\<rparr>"] Op_timer ok show ?thesis by (auto simp: run_timer_def keeps_def)
qed

lemma tcp_run_keeps:
  assumes "tcp_ok c" "all_output c = out"
  shows "\<exists>x. tcp_run ops c out = Some x \<and> (case x of None \<Rightarrow> True | Some (c', out') \<Rightarrow> tcp_ok c' \<and> all_output c' = out')"
  using assms
proof (induction ops arbitrary: c out)
  case (Cons op ops)
  show ?case
  proof (cases "op_ok op c")
    case True
    then obtain c1 where c1: "tcp_step op c = Some c1" "tcp_ok c1" "all_output c1 = out @ handed_over op c"
      using tcp_step_keeps [OF Cons.prems(1)] Cons.prems(2) by (auto simp: keeps_def)
    from Cons.IH [OF c1(2,3)] True c1(1) show ?thesis by simp
  qed simp
qed simp

lemma established_ok:
  "\<exists>c. connectEstablished (new_TcpConnection wc hw) = Some c \<and> tcp_ok c \<and> all_output c = []"
  using new_Buffer_ok [of kInitialSize]
  by (simp add: connectEstablished_def new_TcpConnection_def tcp_defs tcp_ok_def all_output_def pending_data_def)

section \<open>What is not allowed\<close>

text \<open>A connection that is closing cannot be destroyed: its channel still asks for events.\<close>

lemma destroyed_while_closing: "c_state c = kDisconnecting \<Longrightarrow> ch_reading c \<Longrightarrow> connectDestroyed c = None"
  by (simp add: connectDestroyed_def channel_remove_def)

text \<open>Reading that is switched on after closing closes a second time, at the next end of the input.\<close>

lemma reading_after_close:
  assumes "tcp_ok c" "c_state c = kDisconnected"
  shows "handleRead (\<lambda>n. Some []) (startRead True c) = None"
proof -
  have "\<not> ch_reading c" "buffer_ok (inputBuffer c)" using assms by (simp_all add: tcp_ok_def)
  moreover from this obtain b where "readFd (\<lambda>n. Some []) (inputBuffer c) = Some (0, b)"
    using readFd_ok [of "inputBuffer c" "\<lambda>n. Some []" "[]"] by auto
  ultimately show ?thesis using assms(2) by (simp add: startRead_def startReadInLoop_def enableReading_def handleRead_def handleClose_def)
qed

section \<open>Property\<close>

text \<open>C12. The bytes a connection has written to its socket, followed by those in its output buffer, are the messages that were handed over
to it, whole and in order, whatever short writes, full sockets, lost peers, shut-downs and forced closes come in between.  No
assertion fails; while the connection is up it asks for writing exactly when something waits; and a connection that shuts
down its writing side has nothing left to write, unless it was closed.\<close>

theorem tcp_output_in_order:
  assumes "connectEstablished (new_TcpConnection wc hw) = Some c0" and "tcp_run ops c0 [] \<noteq> Some None"
  shows "\<exists>c out. tcp_run ops c0 [] = Some (Some (c, out)) \<and> taken c @ toStringPiece (outputBuffer c) = out \<and>
    (c_state c \<noteq> kDisconnected \<longrightarrow> (ch_writing c \<longleftrightarrow> toStringPiece (outputBuffer c) \<noteq> [])) \<and>
    (write_closed c \<longrightarrow> c_state c \<noteq> kDisconnected \<longrightarrow> taken c = out)"
proof -
  have "tcp_ok c0" "all_output c0 = []" using established_ok [of wc hw] assms(1) by auto
  from tcp_run_keeps [OF this, of ops] assms(2) obtain c out where
    c: "tcp_run ops c0 [] = Some (Some (c, out))" "tcp_ok c" "all_output c = out" by (auto split: option.splits)
  then show ?thesis by (auto simp: tcp_ok_def all_output_def pending_data_def)
qed

text \<open>A short write, and a shut-down that waits for the rest.\<close>

definition writable_event :: revents where
  "writable_event = \<lparr>POLLHUP = False, POLLIN = False, POLLPRI = False, POLLRDHUP = False, POLLOUT = True\<rparr>"

definition sample_ops :: "tcp_op list" where
  "sample_ops = [Op_send ''hello'' True (Wrote 2), Op_shutdown True, Op_event writable_event (\<lambda>n. None) (Wrote 3)]"

theorem tcp_output_in_order_witness:
  "\<exists>c0 c out. connectEstablished (new_TcpConnection True True) = Some c0 \<and> tcp_run sample_ops c0 [] = Some (Some (c, out)) \<and>
    taken c @ toStringPiece (outputBuffer c) = out \<and> out = ''hello'' \<and> write_closed c"
proof -
  let ?b = "new_Buffer kInitialSize"
  obtain b1 where b1: "buffer_append ''llo'' ?b = Some b1" "buffer_ok b1" "toStringPiece b1 = ''llo''"
    using append_ok [of ?b "''llo''"] new_Buffer_ok [of kInitialSize] by auto
  obtain b2 where b2: "retrieve 3 b1 = Some b2" "buffer_ok b2" "toStringPiece b2 = []"
    using retrieve_ok [of b1 3] b1 by auto
  have empty: "readableBytes ?b = 0" "readableBytes b2 = 0"
    using length_contents [OF b2(2)] b2(3) length_contents [OF new_Buffer_ok(1)] new_Buffer_ok(2) by simp_all
  define c0 where "c0 = notify (ConnectionCallback True) (enableReading ((new_TcpConnection True True)\<lparr>c_state := kConnected\<rparr>))"
  have c0: "connectEstablished (new_TcpConnection True True) = Some c0" by (simp add: connectEstablished_def c0_def new_TcpConnection_def)
  have f: "c_state c0 = kConnected" "ch_writing c0 = False" "ch_reading c0" "outputBuffer c0 = ?b" "highWaterMark c0 = 67108864"
    "write_closed c0 = False" "taken c0 = []"
    by (simp_all add: c0_def new_TcpConnection_def tcp_defs)
  define c1 where "c1 = enableWriting (c0\<lparr>taken := ''he'', outputBuffer := b1\<rparr>)"
  have s1: "tcp_send ''hello'' True (Wrote 2) c0 = Some c1"
    using f empty b1 by (simp add: tcp_send_def sendInLoop_def writes_directly_def Let_def c1_def)
  define c2 where "c2 = c1\<lparr>c_state := kDisconnecting\<rparr>"
  have s2: "shutdown True c1 = c2" using f by (simp add: shutdown_def shutdownInLoop_def c1_def c2_def enableWriting_def)
  have "\<exists>c3. handleEventWithGuard writable_event (\<lambda>n. None) (Wrote 3) c2 = Some c3 \<and> write_closed c3"
    using f b1 b2 empty by (simp add: handleEventWithGuard_def writable_event_def handleWrite_def c2_def c1_def enableWriting_def
        disableWriting_def queueInLoop_def shutdownInLoop_def Let_def)
  then obtain c3 where s3: "handleEventWithGuard writable_event (\<lambda>n. None) (Wrote 3) c2 = Some c3" "write_closed c3" by blast
  have "event_ok writable_event (\<lambda>n. None) (Wrote 3) c2"
    using f b1 by (simp add: event_ok_def writable_event_def kernel_write_ok_def pending_data_def c2_def c1_def enableWriting_def)
  then have run: "tcp_run sample_ops c0 [] = Some (Some (c3, ''hello''))"
    using f s1 s2 s3(1) by (simp add: sample_ops_def kernel_write_ok_def accepted_data_def)
  then have "tcp_run sample_ops c0 [] \<noteq> Some None" by simp
  from tcp_output_in_order [OF c0 this] c0 run s3(2) show ?thesis by auto
qed

end
