(* ===== verification/Spec2Isabelle.thy ===== *)
theory Spec2Isabelle
  imports Async Cache_Conn Pool Ranking Http_Server Http_Url_Safety Net_Connection
begin

text \<open>
  FileHub is a cloud storage server.  HTTP requests (register, log in, upload, list, share, delete) are
  routed to one handler each (\<open>src/application/filehub/api/*.cc\<close>); the handlers keep their data in MySQL
  (\<open>mysql/db_pool.cc\<close>, \<open>src/sql/filehub.sql\<close>), their session tokens, counters and the download ranking
  in Redis (\<open>redis/cache_pool.cc\<close>, on the hiredis client library under \<open>redis/\<close>), and the contents of
  files in FastDFS.  Connections to both servers are pooled.  Requests arrive on muduo connections, are
  gathered in a buffer, parsed by \<open>http_parser.cc\<close> and routed by \<open>http_conn.cc\<close>.  This development models,
  bottom up, the Redis client library, the connection class and the pools built on it, the helpers, the
  handlers, and the HTTP side from the bytes of a connection to the answer.

  \<^bold>\<open>Theories and the code they model\<close>

  \<^item> \<open>Prelude\<close>, \<open>Decimal\<close>, \<open>Printf\<close>: bytes, C strings (\<open>cstr\<close>), blocks of memory, C integer types as
    ranges of \<open>int\<close> with wrap-around written out (\<open>s32\<close>), decimal numerals, the conversions of
    \<open>printf\<close> the code uses.
  \<^item> \<open>Sds\<close>, \<open>Sds_Text\<close>: \<open>redis/sds.c\<close>.  A string is a record of header type, length, allocation and block;
    a function gives \<open>None\<close> where the C code writes out of its block, fails an assertion or has no memory.
  \<^item> \<open>Reader\<close>: \<open>redis/read.c\<close>, the incremental parser with its task stack; \<open>Reader_Spec\<close>,
    \<open>Reader_Build\<close>, \<open>Reader_Stream\<close>, \<open>Reply_Tree\<close>: an abstract parser over the whole stream and the
    refinement between the two; \<open>Reply\<close>: the default object functions of \<open>redis/hiredis.c\<close> over a
    heap of reply objects, which interpret the locale \<open>reply_builder\<close> of builders.
  \<^item> \<open>Format\<close>: building commands (\<open>redisvFormatCommand\<close> and the two \<open>argv\<close> builders of \<open>redis/hiredis.c\<close>).
  \<^item> \<open>Dict\<close>: \<open>redis/dict.c\<close>, with the locale \<open>map_store\<close> of finite maps.
  \<^item> \<open>Net\<close>: \<open>redis/net.c\<close>; a program of system calls over an environment that answers each.
  \<^item> \<open>Context\<close>: the blocking client of \<open>redis/hiredis.c\<close>, which joins Reader, Reply, Format and Net.
  \<^item> \<open>Async\<close>: \<open>redis/async.c\<close>, callback queues and subscriptions, with callbacks that may call back.
  \<^item> \<open>Util\<close>, \<open>Config\<close>: \<open>base/util.cc\<close>, the string helpers of \<open>api/api_common.cc\<close>, \<open>base/config_file_reader.cc\<close>;
    what \<open>SetConfigValue\<close> writes is read back, within the limits of the format.
  \<^item> \<open>Cache_Conn\<close>: the class \<open>CacheConn\<close> of \<open>redis/cache_pool.cc\<close> on the model of the client; the locale
    \<open>reply_result\<close> is the contract between a command and the function that reads its reply.
  \<^item> \<open>Pool\<close>: \<open>CachePool\<close>, \<open>CDBPool\<close>, their managers, and the lock of \<open>api/api_common.h\<close>; threads are
    the steps of the inductive relations \<open>pool_step\<close> and \<open>lock_step\<close>.
  \<^item> \<open>Database\<close>: \<open>CResultSet\<close>, \<open>CDBConn\<close>, \<open>CPrepareStatement\<close> of \<open>mysql/db_pool.cc\<close> over the client library.
  \<^item> \<open>Api_Common\<close>, \<open>Api_User\<close>, \<open>Api_Files\<close>, \<open>Api_Lists\<close>: the handlers, one definition each, as functions on
    an outside world \<open>'w\<close> that give \<open>None\<close> where the code has undefined behaviour or throws.  The record
    \<open>services\<close> holds what they call: pools, lock, the operations of a Redis connection, MySQL, JSON,
    UUIDs, the clock and \<open>system\<close>.
  \<^item> \<open>Api_Upload\<close>: \<open>api/api_upload.cc\<close>: the multipart form, the two FastDFS programs run in child
    processes, and the bookkeeping; the record \<open>os\<close> holds the system calls.
  \<^item> \<open>Http_Parser\<close>, \<open>Http_Execute\<close>: \<open>http_parser.cc\<close>, one definition per state of its switch, the macros that
    call back, and the loop over the bytes with its repeated execution of a byte; \<open>None\<close> is a failed
    assertion or a byte outside the data.  \<open>Http_Url\<close>: its parser of URLs;
    \<open>Http_Url_Safety\<close>: the parts it reports lie inside the URL, and it reads nothing behind it but the byte that ends the port.
  \<^item> \<open>Http_Wrapper\<close>: \<open>http_parser_wrapper.cc\<close>, the callbacks that gather a request.
  \<^item> \<open>Net_Buffer\<close>: \<open>muduo/net/Buffer.h\<close>, \<open>Buffer.cc\<close>, \<open>Endian.h\<close>; the locale \<open>byte_queue\<close> says what a buffer promises.
  \<^item> \<open>Net_Connection\<close>: \<open>muduo/net/TcpConnection.cc\<close> and the dispatch of \<open>Channel.cc\<close>, a connection driven by its event
    loop, the loop being a queue of tasks.
  \<^item> \<open>Http_Conn\<close>: \<open>http_conn.cc\<close> (routing, answers) and \<open>main.cc\<close> (the table of connections, the worker threads as
    a queue of tasks, starting), with \<open>TcpConnection::handleRead\<close>.

  \<^bold>\<open>The HTTP side\<close>

  \<open>Http_Safety\<close> gives the parser's invariant and that no call fails an assertion, for any bytes, cuts and
  callbacks.  \<open>Http_Scan\<close> and \<open>Http_Requests\<close> follow a printed POST through the parser: \<open>goes\<close> relates the
  situations (\<open>st\<close>) at two positions, or says that the data end between them with nothing recognised.
  \<open>Http_Memory\<close> relates two runs on the same bytes with different memory behind them.  \<open>Http_Server\<close> puts
  buffer, parser, routing and server together, and \<open>Uploads\<close> the upload handler and the tables; the two
  meet in \<open>upload_over_http\<close>.

  \<^bold>\<open>The handlers against the data they keep\<close>

  \<open>Tables\<close> states what the services are relied on to do: the tables of \<open>filehub.sql\<close>, each statement of the
  handlers as a datatype with its text and its effect, the Redis keys, and the laws \<open>reliable\<close> (every pool
  gives a connection, the lock is obtained, the statements have their documented effect, the Redis
  commands theirs).  Outside columns of their legal length and printable text without quotes nothing is
  promised.  \<open>Handler_Rules\<close> is a weakest-precondition calculus \<open>wp\<close> over these laws with one rule
  for each construct and each service; \<open>Ref_Services\<close> gives services that obey the laws, which parse the
  statements from their text, so no hypothesis is empty.  On top of it
  \<open>File_Refs\<close> (reference counts equal the number of owners, and the last deletion removes the contents),
  \<open>Sessions\<close> (registration, login, tokens) and \<open>Ranking\<close> (the ranking in Redis is that of the table).

  \<^bold>\<open>Lemma groups\<close>

  Each theory has the invariant of its state and its preservation, then what every operation does on
  every branch; the numbered statements are those a reader should look at first.  \<open>defs\<close>,
  \<open>mem_simps\<close> and \<open>wp_rules\<close> are the collections the proofs share.

  \<^bold>\<open>Fuel and bounds\<close>

  Fuel is used where a loop depends on the outside (reading until a reply is complete, writing until the
  buffer is empty) or on a heap (freeing a reply tree); each such function has a theorem that gives an
  amount that is enough, and its result does not depend on the amount beyond it.  Buffers keep their C
  sizes: 512 bytes for statements, 1024 for ids, 8 for suffixes; a value that does not fit is \<open>None\<close>.

  \<^bold>\<open>Not modelled\<close>

  \<^item> Logging, the reference counts of C++ objects, and exceptions other than those that end a handler.
  \<^item> The rest of muduo: event loop, threads, timers, sockets, logging and its own HTTP server.  Its scheduling
    appears as the order of the operations on the server.  The races between a worker thread that reads a
    buffer and the loop that appends to it are not modelled: a task runs on what the buffer holds then.
  \<^item> The MySQL, JSON, UUID and FastDFS libraries are not part of the repository: they are parameters.
  \<^item> \<open>src/client\<close> and the load generator are test programs on third-party code.
\<close>

end
